(* ===== verification/Prelude.thy ===== *)
theory Prelude
  imports Main "HOL-Library.Word" "HOL-Library.Monad_Syntax"
begin

text \<open>
  The common ground of the development: the types of the C code, the arithmetic of
  \<^verbatim>\<open>size_t\<close> and \<^verbatim>\<open>int\<close>, blocks of memory, the allocator, critical sections, and the list
  lemmas that several components share.

  \<^item> A C computation that may have undefined behaviour is a value of an \<open>option\<close> type:
    \<open>None\<close> stands for undefined behaviour (an access outside a block, a signed overflow, a
    division by zero, a failed \<^verbatim>\<open>assert\<close>), and \<open>Some r\<close> for a computation that ends with
    \<open>r\<close>. Error returns of the code are ordinary values inside \<open>Some\<close>. The
    \<open>do\<close> notation of the option monad sequences the steps.
  \<^item> \<^verbatim>\<open>size_t\<close> has 64 bits. It is a \<open>nat\<close> whose operations wrap at \<open>SIZE_MOD\<close>.
  \<^item> \<^verbatim>\<open>int\<close> has 32 bits. It is an \<open>int\<close> whose operations are checked by \<open>int_ck\<close>,
    since signed overflow is undefined.
  \<^item> A block of memory is the list of its cells; its base address is not modelled, and a
    pointer into it is an offset.
  \<^item> The allocator is a parameter: \<open>al_ok\<close> says which requests succeed, and \<open>al_fill\<close>
    gives the unspecified initial contents of a fresh cell.
\<close>

named_theorems c_mem
  \<open>rewriting of accesses to memory blocks that are in bounds\<close>

named_theorems c_arith
  \<open>rewriting of machine arithmetic that does not wrap\<close>

named_theorems ring_simps
  \<open>windows of circular arrays\<close>

section \<open>Types\<close>

type_synonym byte = "8 word"
type_synonym u16 = "16 word"
type_synonym u32 = "32 word"

section \<open>Machine arithmetic\<close>

definition SIZE_MOD :: nat where
  "SIZE_MOD = 2 ^ 64"

definition sz_add :: "nat \<Rightarrow> nat \<Rightarrow> nat" where
  "sz_add a b = (a + b) mod SIZE_MOD"

definition sz_sub :: "nat \<Rightarrow> nat \<Rightarrow> nat" where
  "sz_sub a b = (a + (SIZE_MOD - b mod SIZE_MOD)) mod SIZE_MOD"

definition sz_mul :: "nat \<Rightarrow> nat \<Rightarrow> nat" where
  "sz_mul a b = (a * b) mod SIZE_MOD"

definition INT_LIM :: int where
  "INT_LIM = 2 ^ 31"

text \<open>The remainder of unsigned operands; a zero divisor is undefined behaviour.\<close>

definition sz_mod :: "nat \<Rightarrow> nat \<Rightarrow> nat option" where
  "sz_mod a b = (if b = 0 then None else Some (a mod b))"

text \<open>A signed result that does not fit is undefined behaviour.\<close>

definition int_ck :: "int \<Rightarrow> int option" where
  "int_ck x = (if - INT_LIM \<le> x \<and> x < INT_LIM then Some x else None)"

text \<open>The conversions \<^verbatim>\<open>(int) n\<close> from \<^verbatim>\<open>size_t\<close> and \<^verbatim>\<open>(size_t) i\<close> from \<^verbatim>\<open>int\<close>.\<close>

definition to_int :: "nat \<Rightarrow> int" where
  "to_int n = (let m = int n mod 2 ^ 32 in if m < 2 ^ 31 then m else m - 2 ^ 32)"

definition to_size :: "int \<Rightarrow> nat" where
  "to_size i = nat (i mod int SIZE_MOD)"

section \<open>Blocks of memory\<close>

definition c_assert :: "bool \<Rightarrow> unit option" where
  "c_assert b = (if b then Some () else None)"

definition arr_get :: "'a list \<Rightarrow> nat \<Rightarrow> 'a option" where
  "arr_get xs i = (if i < length xs then Some (xs ! i) else None)"

definition arr_set :: "'a list \<Rightarrow> nat \<Rightarrow> 'a \<Rightarrow> 'a list option" where
  "arr_set xs i v = (if i < length xs then Some (xs[i := v]) else None)"

definition mem_read :: "'a list \<Rightarrow> nat \<Rightarrow> nat \<Rightarrow> 'a list option" where
  "mem_read xs off n = (if off + n \<le> length xs then Some (take n (drop off xs)) else None)"

definition mem_write :: "'a list \<Rightarrow> nat \<Rightarrow> 'a list \<Rightarrow> 'a list option" where
  "mem_write xs off d =
     (if off + length d \<le> length xs
      then Some (take off xs @ d @ drop (off + length d) xs) else None)"

text \<open>\<^verbatim>\<open>memmove\<close> (and \<^verbatim>\<open>memcpy\<close>) inside one block: the source is read before it is overwritten.\<close>

definition mem_move :: "'a list \<Rightarrow> nat \<Rightarrow> nat \<Rightarrow> nat \<Rightarrow> 'a list option" where
  "mem_move xs dst src n = do { d \<leftarrow> mem_read xs src n; mem_write xs dst d }"

text \<open>No block is larger than \<^verbatim>\<open>PTRDIFF_MAX\<close>: the allocator refuses such requests.\<close>

definition BLOCK_MAX :: nat where
  "BLOCK_MAX = 2 ^ 63"

record 'a allocator =
  al_ok :: "nat \<Rightarrow> bool"
  al_fill :: "nat \<Rightarrow> 'a"

text \<open>An allocator that grants every request, with zeroed cells.\<close>

definition ample :: "'a::zero allocator" where
  "ample = \<lparr>al_ok = (\<lambda>n. True), al_fill = (\<lambda>i. 0)\<rparr>"

definition mem_alloc :: "'a allocator \<Rightarrow> nat \<Rightarrow> 'a list option" where
  "mem_alloc A n = (if al_ok A n \<and> n < BLOCK_MAX then Some (map (al_fill A) [0..<n]) else None)"

definition mem_realloc :: "'a allocator \<Rightarrow> 'a list \<Rightarrow> nat \<Rightarrow> 'a list option" where
  "mem_realloc A xs n =
     (if al_ok A n \<and> n < BLOCK_MAX then Some (take n xs @ map (al_fill A) [length xs..<n]) else None)"

section \<open>Critical sections\<close>

text \<open>
  A critical section is the number of times it has been entered and not left;
  leaving one that is not held is undefined. The collections lock only when their
  \<^verbatim>\<open>synchronized\<close> flag is set.
\<close>

definition cs_enter :: "bool \<Rightarrow> nat \<Rightarrow> nat" where
  "cs_enter sync l = (if sync then Suc l else l)"

definition cs_leave :: "bool \<Rightarrow> nat \<Rightarrow> nat option" where
  "cs_leave sync l = (if sync then (if l = 0 then None else Some (l - 1)) else Some l)"

section \<open>Lemmas on machine arithmetic\<close>

lemma SIZE_MOD_pos [simp]: "0 < SIZE_MOD"
  by (simp add: SIZE_MOD_def)

lemma sz_add_nowrap [c_arith]: "a + b < SIZE_MOD \<Longrightarrow> sz_add a b = a + b"
  by (simp add: sz_add_def)

lemma sz_mul_nowrap [c_arith]: "a * b < SIZE_MOD \<Longrightarrow> sz_mul a b = a * b"
  by (simp add: sz_mul_def)

lemma sz_sub_nowrap [c_arith]:
  assumes "b \<le> a" and "a < SIZE_MOD"
  shows "sz_sub a b = a - b"
proof -
  have "a + (SIZE_MOD - b mod SIZE_MOD) = (a - b) + SIZE_MOD"
    using assms by simp
  then have "sz_sub a b = ((a - b) + SIZE_MOD) mod SIZE_MOD"
    by (simp only: sz_sub_def)
  also have "\<dots> = a - b"
    using assms by (subst mod_add_self2) simp
  finally show ?thesis .
qed

lemma sz_sub_less [simp]: "sz_sub a b < SIZE_MOD"
  by (simp add: sz_sub_def)

lemma sz_add_less [simp]: "sz_add a b < SIZE_MOD"
  by (simp add: sz_add_def)

lemma BLOCK_MAX_double: "a < BLOCK_MAX \<Longrightarrow> b < BLOCK_MAX \<Longrightarrow> a + b < SIZE_MOD"
  by (simp add: BLOCK_MAX_def SIZE_MOD_def)

lemma BLOCK_MAX_size [simp]: "a < BLOCK_MAX \<Longrightarrow> a < SIZE_MOD"
  by (simp add: BLOCK_MAX_def SIZE_MOD_def)

lemma sz_mod_pos [c_arith]: "0 < b \<Longrightarrow> sz_mod a b = Some (a mod b)"
  by (simp add: sz_mod_def)

text \<open>Adding a wrapped difference gives the true value when that value is in range.\<close>

lemma sz_add_sub [c_arith]:
  assumes "s \<le> f + t" "f + t - s < SIZE_MOD" "s < SIZE_MOD"
  shows "sz_add f (sz_sub t s) = f + t - s"
proof -
  have "sz_add f (sz_sub t s) = (f + (t + (SIZE_MOD - s))) mod SIZE_MOD"
    using assms by (simp add: sz_add_def sz_sub_def mod_add_right_eq)
  also have "f + (t + (SIZE_MOD - s)) = (f + t - s) + SIZE_MOD"
    using assms by simp
  also have "\<dots> mod SIZE_MOD = f + t - s"
    using assms by (subst mod_add_self2) simp
  finally show ?thesis .
qed

lemma int_ck_Some [c_arith]: "- INT_LIM \<le> x \<Longrightarrow> x < INT_LIM \<Longrightarrow> int_ck x = Some x"
  by (simp add: int_ck_def)

lemma int_ck_eq_Some_iff: "int_ck x = Some y \<longleftrightarrow> y = x \<and> - INT_LIM \<le> x \<and> x < INT_LIM"
  by (auto simp: int_ck_def)

lemma to_int_small [c_arith]: "n < 2 ^ 31 \<Longrightarrow> to_int n = int n"
  by (simp add: to_int_def)

lemma to_int_le: "to_int n \<le> int n"
proof -
  have "int n mod 2 ^ 32 \<le> int n"
    by (simp add: zmod_le_nonneg_dividend)
  then show ?thesis
    by (simp add: to_int_def Let_def)
qed

lemma to_size_nonneg [c_arith]: "0 \<le> i \<Longrightarrow> i < int SIZE_MOD \<Longrightarrow> to_size i = nat i"
  by (simp add: to_size_def)

lemma sz_sub_int: "a < SIZE_MOD \<Longrightarrow> b < SIZE_MOD \<Longrightarrow> int (sz_sub a b) = (int a - int b) mod int SIZE_MOD"
proof -
  assume "a < SIZE_MOD" "b < SIZE_MOD"
  then have "int (sz_sub a b) = (int a - int b + int SIZE_MOD) mod int SIZE_MOD"
    by (simp add: sz_sub_def zmod_int of_nat_diff algebra_simps)
  then show ?thesis by simp
qed

lemma to_int_mod: "to_int n mod 2 ^ 32 = int n mod 2 ^ 32"
  by (simp add: to_int_def Let_def)

lemma to_size_int: "int (to_size i) = i mod int SIZE_MOD"
  by (simp add: to_size_def SIZE_MOD_def)

lemma to_int_sub_nonpos:
  assumes "n \<le> m" "m < 2 ^ 31"
  shows "to_int (sz_sub n m) = int n - int m"
proof -
  have "int (sz_sub n m) mod 2 ^ 32 = (int n - int m) mod int SIZE_MOD mod 2 ^ 32"
    using assms by (simp add: sz_sub_int SIZE_MOD_def)
  also have "\<dots> = (int n - int m) mod 2 ^ 32"
    by (rule mod_mod_cancel) (simp add: SIZE_MOD_def)
  finally have e: "int (sz_sub n m) mod 2 ^ 32 = (int n - int m) mod 2 ^ 32" .
  show ?thesis
  proof (cases "n = m")
    case False
    then have "(int n - int m + 2 ^ 32) mod 2 ^ 32 = int n - int m + 2 ^ 32"
      using assms by (intro mod_pos_pos_trivial) auto
    then have "(int n - int m) mod 2 ^ 32 = int n - int m + 2 ^ 32" by simp
    then show ?thesis using e assms by (simp add: to_int_def Let_def)
  qed (use e in \<open>simp add: to_int_def\<close>)
qed

text \<open>The conversion of an unsigned number to \<^verbatim>\<open>int\<close> reads its 32 bits as a signed word.\<close>

lemma sint_of_nat: "sint (word_of_nat n :: u32) = to_int n"
proof -
  define k where "k = int n"
  have "sint (word_of_nat n :: u32) = (k + 2 ^ 31) mod 2 ^ 32 - 2 ^ 31"
    by (simp add: signed_of_nat signed_take_bit_eq_take_bit_shift take_bit_eq_mod k_def)
  also have "\<dots> = (k mod 2 ^ 32 + 2 ^ 31) mod 2 ^ 32 - 2 ^ 31"
    by (simp add: mod_add_left_eq)
  also have "\<dots> = to_int n"
  proof (cases "k mod 2 ^ 32 < 2 ^ 31")
    case True
    then show ?thesis by (simp add: to_int_def k_def)
  next
    case False
    have "(k mod 2 ^ 32 + 2 ^ 31) mod 2 ^ 32 = (k mod 2 ^ 32 - 2 ^ 31 + 2 ^ 32) mod 2 ^ 32"
      by (simp add: algebra_simps)
    also have "\<dots> = k mod 2 ^ 32 - 2 ^ 31"
      unfolding mod_add_self2 using False pos_mod_bound [of "2 ^ 32" k] by (intro mod_pos_pos_trivial) auto
    finally show ?thesis using False by (simp add: to_int_def k_def Let_def)
  qed
  finally show ?thesis .
qed

section \<open>Lemmas on memory blocks\<close>

lemma c_assert_simps [simp]: "c_assert True = Some ()" "c_assert False = None"
  by (simp_all add: c_assert_def)

lemma arr_get_in [c_mem]: "i < length xs \<Longrightarrow> arr_get xs i = Some (xs ! i)"
  by (simp add: arr_get_def)

lemma arr_set_in [c_mem]: "i < length xs \<Longrightarrow> arr_set xs i v = Some (xs[i := v])"
  by (simp add: arr_set_def)

lemma list_update_numeral [simp]: "(x # xs)[numeral v := y] = x # xs[pred_numeral v := y]"
  by (simp add: numeral_eq_Suc)

lemma mem_read_in [c_mem]: "off + n \<le> length xs \<Longrightarrow> mem_read xs off n = Some (take n (drop off xs))"
  by (simp add: mem_read_def)

lemma mem_write_in [c_mem]:
  "off + length d \<le> length xs \<Longrightarrow>
   mem_write xs off d = Some (take off xs @ d @ drop (off + length d) xs)"
  by (simp add: mem_write_def)

lemma mem_write_length: "mem_write xs off d = Some ys \<Longrightarrow> length ys = length xs"
  by (auto simp: mem_write_def split: if_splits)

lemma mem_move_in [c_mem]:
  "src + n \<le> length xs \<Longrightarrow> dst + n \<le> length xs \<Longrightarrow>
   mem_move xs dst src n = Some (take dst xs @ take n (drop src xs) @ drop (dst + n) xs)"
  by (simp add: mem_move_def mem_read_def mem_write_def)

lemma mem_alloc_length: "mem_alloc A n = Some xs \<Longrightarrow> length xs = n"
  by (auto simp: mem_alloc_def split: if_splits)

lemma mem_realloc_length: "mem_realloc A xs n = Some ys \<Longrightarrow> length ys = n"
  by (auto simp: mem_realloc_def split: if_splits)

lemma mem_realloc_keep: "mem_realloc A xs n = Some ys \<Longrightarrow> take n xs = take (length xs) ys"
  by (cases "n \<le> length xs") (auto simp: mem_realloc_def split: if_splits)

lemma mem_realloc_nth:
  "mem_realloc A xs n = Some ys \<Longrightarrow> i < n \<Longrightarrow> i < length xs \<Longrightarrow> ys ! i = xs ! i"
  by (auto simp: mem_realloc_def nth_append split: if_splits)

lemma mem_alloc_block: "mem_alloc A n = Some xs \<Longrightarrow> n < BLOCK_MAX"
  by (auto simp: mem_alloc_def split: if_splits)

lemma mem_realloc_block: "mem_realloc A xs n = Some ys \<Longrightarrow> n < BLOCK_MAX"
  by (auto simp: mem_realloc_def split: if_splits)

text \<open>The string in front of a terminating zero.\<close>

lemma takeWhile_zero: "0 \<notin> set xs \<Longrightarrow> takeWhile (\<lambda>b. b \<noteq> 0) (xs @ 0 # ys) = (xs :: byte list)"
  by (induction xs) auto

lemma cs_leave_enter [simp]: "cs_leave sync (cs_enter sync l) = Some l"
  by (simp add: cs_leave_def cs_enter_def)

section \<open>Circular arrays\<close>

text \<open>
  \<open>ring_list xs r n\<close> is the list of the \<open>n\<close> cells of the circular array \<open>xs\<close> that start
  at index \<open>r\<close>. The ring buffer and the queue use it as their abstraction.
\<close>

definition ring_list :: "'a list \<Rightarrow> nat \<Rightarrow> nat \<Rightarrow> 'a list" where
  "ring_list xs r n = map (\<lambda>i. xs ! ((r + i) mod length xs)) [0..<n]"

lemma length_ring_list [simp]: "length (ring_list xs r n) = n"
  by (simp add: ring_list_def)

lemma nth_ring_list [simp]: "i < n \<Longrightarrow> ring_list xs r n ! i = xs ! ((r + i) mod length xs)"
  by (simp add: ring_list_def)

lemma ring_list_0 [simp]: "ring_list xs r 0 = []"
  by (simp add: ring_list_def)

lemma ring_list_Suc: "ring_list xs r (Suc n) = ring_list xs r n @ [xs ! ((r + n) mod length xs)]"
  by (simp add: ring_list_def)

lemma ring_list_mod [ring_simps]: "ring_list xs (r mod length xs) n = ring_list xs r n"
  by (simp add: ring_list_def mod_add_left_eq)

lemma take_ring_list [ring_simps]: "take k (ring_list xs r n) = ring_list xs r (min k n)"
  by (rule nth_equalityI) auto

lemma drop_ring_list [ring_simps]: "drop k (ring_list xs r n) = ring_list xs (r + k) (n - k)"
  by (rule nth_equalityI) (auto simp: add.assoc)

lemma ring_list_linear:
  assumes "r + n \<le> length xs"
  shows "ring_list xs r n = take n (drop r xs)"
  using assms by (intro nth_equalityI) auto

lemma ring_list_wrap:
  assumes "r \<le> length xs" "length xs \<le> r + n" "n \<le> length xs"
  shows "ring_list xs r n = drop r xs @ take (r + n - length xs) xs"
proof (rule nth_equalityI)
  show "length (ring_list xs r n) = length (drop r xs @ take (r + n - length xs) xs)"
    using assms by simp
  fix i assume "i < length (ring_list xs r n)"
  then have i: "i < n" by simp
  show "ring_list xs r n ! i = (drop r xs @ take (r + n - length xs) xs) ! i"
  proof (cases "r + i < length xs")
    case True
    then have "i < length (drop r xs)" by simp
    then show ?thesis using i True by (simp only: nth_append nth_ring_list) simp
  next
    case False
    then have "(r + i) mod length xs = r + i - length xs"
      using assms i by (simp add: mod_if)
    then show ?thesis using False i assms by (auto simp: nth_append intro!: arg_cong [of _ _ "(!) xs"])
  qed
qed

lemma ring_list_cong:
  assumes "length ys = length xs"
    and "\<And>i. i < n \<Longrightarrow> ys ! ((r + i) mod length xs) = xs ! ((r + i) mod length xs)"
  shows "ring_list ys r n = ring_list xs r n"
  using assms by (intro nth_equalityI) auto

text \<open>Two positions of a circular array at distance less than its length are different.\<close>

lemma ring_pos_inj:
  assumes "(r + i) mod m = (r + j) mod m" and "i < m" "j < (m::nat)"
  shows "i = j"
  using assms
proof (induction i j rule: linorder_wlog)
  case (le i j)
  then have "m dvd (r + j) - (r + i)"
    by (subst mod_eq_dvd_iff_nat [symmetric]) auto
  then have "m dvd j - i" by simp
  with le show ?case by (auto dest: dvd_imp_le)
next
  case (sym i j)
  then show ?case by simp
qed

text \<open>
  A block \<open>d\<close> stored from position \<open>w\<close> on, continuing at index 0 when it reaches the end of the
  array. Stored right behind a window, it extends the window.
\<close>

definition ring_put :: "'a list \<Rightarrow> nat \<Rightarrow> 'a list \<Rightarrow> 'a list" where
  "ring_put xs w d =
     (let k = length xs - w in
      if k < length d
      then drop k d @ drop (length d - k) (take w xs) @ take k d
      else take w xs @ d @ drop (w + length d) xs)"

lemma length_ring_put [simp]:
  "w \<le> length xs \<Longrightarrow> length d \<le> length xs \<Longrightarrow> length (ring_put xs w d) = length xs"
  by (auto simp: ring_put_def Let_def)

lemma nth_ring_put:
  assumes "w < length xs" "length d \<le> length xs" "j < length d"
  shows "ring_put xs w d ! ((w + j) mod length xs) = d ! j"
proof (cases "w + j < length xs")
  case True
  then show ?thesis using assms
    by (auto simp: ring_put_def Let_def nth_append)
next
  case False
  then have "(w + j) mod length xs = w + j - length xs"
    using assms by (simp add: mod_if)
  moreover have "length xs - w < length d" using False assms by linarith
  ultimately show ?thesis using assms False
    by (auto simp: ring_put_def Let_def nth_append intro!: arg_cong [of _ _ "(!) d"])
qed

lemma nth_ring_put_other:
  assumes "w < length xs" "length d \<le> length xs" "k < length xs"
    and "\<And>j. j < length d \<Longrightarrow> (w + j) mod length xs \<noteq> k"
  shows "ring_put xs w d ! k = xs ! k"
proof (cases "length xs - w < length d")
  case True
  have "k < w"
  proof (rule ccontr)
    assume "\<not> k < w"
    moreover from this have "k - w < length d" using assms(3) True by linarith
    ultimately show False using assms(3) assms(4) [of "k - w"] by simp
  qed
  moreover have "length d - (length xs - w) \<le> k"
  proof (rule ccontr)
    assume *: "\<not> length d - (length xs - w) \<le> k"
    then have "w + (k + (length xs - w)) = k + length xs" "k + (length xs - w) < length d"
      using assms by linarith+
    then show False using assms(3) assms(4) [of "k + (length xs - w)"] by simp
  qed
  moreover from this have "k - (length d - (length xs - w)) < w - (length d - (length xs - w))"
    using calculation(1) by linarith
  ultimately show ?thesis
    using True assms(1,2) by (simp add: ring_put_def Let_def nth_append)
next
  case False
  have "k < w \<or> w + length d \<le> k"
  proof (rule ccontr)
    assume "\<not> (k < w \<or> w + length d \<le> k)"
    then have "w + (k - w) = k" "k - w < length d" by linarith+
    then show False using assms(3) assms(4) [of "k - w"] by simp
  qed
  then show ?thesis
    using False assms(1-3) by (auto simp: ring_put_def Let_def nth_append)
qed

lemma ring_list_put:
  assumes "r < length xs" "n + length d \<le> length xs"
  shows "ring_list (ring_put xs ((r + n) mod length xs) d) r (n + length d) = ring_list xs r n @ d"
proof (rule nth_equalityI)
  let ?w = "(r + n) mod length xs"
  let ?ys = "ring_put xs ?w d"
  have pos: "0 < length xs" using assms by linarith
  then have w: "?w < length xs" by simp
  then have len: "length ?ys = length xs" using assms by simp
  show "length (ring_list ?ys r (n + length d)) = length (ring_list xs r n @ d)"
    by simp
  fix i assume "i < length (ring_list ?ys r (n + length d))"
  then have i: "i < n + length d" by simp
  show "ring_list ?ys r (n + length d) ! i = (ring_list xs r n @ d) ! i"
  proof (cases "i < n")
    case True
    have "ring_put xs ?w d ! ((r + i) mod length xs) = xs ! ((r + i) mod length xs)"
    proof (rule nth_ring_put_other [OF w])
      show "length d \<le> length xs" using assms by simp
      show "(r + i) mod length xs < length xs" using pos by simp
      fix j assume "j < length d"
      then show "(?w + j) mod length xs \<noteq> (r + i) mod length xs"
        using True assms ring_pos_inj [of r "n + j" "length xs" i] by (auto simp: mod_simps add.assoc)
    qed
    then show ?thesis using True i len by (simp add: nth_append)
  next
    case False
    then have "(r + i) mod length xs = (?w + (i - n)) mod length xs"
      by (subst mod_add_left_eq) simp
    then show ?thesis
      using False i len assms nth_ring_put [OF w, of d "i - n"] by (simp add: nth_append)
  qed
qed

end
