(* ===== verification/RingBuffer.thy ===== *)
theory RingBuffer
  imports Prelude
begin

text \<open>
  The growing ring buffer of \<^verbatim>\<open>libfreerdp/utils/ringbuffer.c\<close>: the send buffer of the TCP
  transport and the receive pipe of the RPC gateway client.
\<close>

record RingBuffer =
  rb_initialSize :: nat
  rb_freeSize :: nat
  rb_size :: nat
  rb_readPtr :: nat
  rb_writePtr :: nat
  rb_buffer :: "byte list"

text \<open>A \<^verbatim>\<open>DataChunk\<close> points into the buffer: its offset and its size.\<close>

record DataChunk =
  dc_data :: nat
  dc_size :: nat

text \<open>
  \<^verbatim>\<open>ringbuffer_init\<close> fills a caller's structure. The fields it does not reach on failure
  keep the value they had, and a \<^verbatim>\<open>NULL\<close> buffer is a block without cells.
\<close>

definition ringbuffer_init :: "byte allocator \<Rightarrow> RingBuffer \<Rightarrow> nat \<Rightarrow> bool \<times> RingBuffer" where
  "ringbuffer_init A rb initialSize =
     (case mem_alloc A initialSize of
        None \<Rightarrow> (False, rb\<lparr>rb_buffer := []\<rparr>)
      | Some b \<Rightarrow> (True, rb\<lparr>rb_buffer := b, rb_readPtr := 0, rb_writePtr := 0,
           rb_initialSize := initialSize, rb_size := initialSize, rb_freeSize := initialSize\<rparr>))"

definition ringbuffer_used :: "RingBuffer \<Rightarrow> nat" where
  "ringbuffer_used rb = sz_sub (rb_size rb) (rb_freeSize rb)"

definition ringbuffer_capacity :: "RingBuffer \<Rightarrow> nat" where
  "ringbuffer_capacity rb = rb_size rb"

definition ringbuffer_destroy :: "RingBuffer \<Rightarrow> RingBuffer" where
  "ringbuffer_destroy rb = rb\<lparr>rb_buffer := []\<rparr>"

text \<open>The last lines of \<^verbatim>\<open>ringbuffer_realloc\<close>, common to its three ways of moving the data.\<close>

definition ringbuffer_resized :: "RingBuffer \<Rightarrow> nat \<Rightarrow> RingBuffer" where
  "ringbuffer_resized rb targetSize =
     rb\<lparr>rb_freeSize := sz_add (rb_freeSize rb) (sz_sub targetSize (rb_size rb)),
        rb_size := targetSize\<rparr>"

text \<open>The copy into a fresh block, with the read head moved to its beginning.\<close>

definition ringbuffer_linearize :: "RingBuffer \<Rightarrow> byte list \<Rightarrow> byte list option" where
  "ringbuffer_linearize rb newData =
     (if rb_readPtr rb < rb_writePtr rb then do {
        d \<leftarrow> mem_read (rb_buffer rb) (rb_readPtr rb) (ringbuffer_used rb);
        mem_write newData 0 d
      } else do {
        let first = sz_sub (rb_size rb) (rb_readPtr rb);
        d \<leftarrow> mem_read (rb_buffer rb) (rb_readPtr rb) first;
        nd \<leftarrow> mem_write newData 0 d;
        if rb_writePtr rb \<noteq> 0 then do {
          d2 \<leftarrow> mem_read (rb_buffer rb) 0 (rb_writePtr rb);
          mem_write nd first d2
        } else Some nd
      })"

definition ringbuffer_realloc :: "byte allocator \<Rightarrow> RingBuffer \<Rightarrow> nat \<Rightarrow> (bool \<times> RingBuffer) option" where
  "ringbuffer_realloc A rb targetSize =
     (if rb_writePtr rb = rb_readPtr rb then
        (case mem_realloc A (rb_buffer rb) targetSize of
           None \<Rightarrow> Some (False, rb)
         | Some newData \<Rightarrow>
             Some (True, ringbuffer_resized
                (rb\<lparr>rb_readPtr := 0, rb_writePtr := 0, rb_buffer := newData\<rparr>) targetSize))
      else if rb_writePtr rb \<ge> rb_readPtr rb \<and> rb_writePtr rb < targetSize then
        (case mem_realloc A (rb_buffer rb) targetSize of
           None \<Rightarrow> Some (False, rb)
         | Some newData \<Rightarrow>
             Some (True, ringbuffer_resized (rb\<lparr>rb_buffer := newData\<rparr>) targetSize))
      else
        (case mem_alloc A targetSize of
           None \<Rightarrow> Some (False, rb)
         | Some newData \<Rightarrow> do {
             nd \<leftarrow> ringbuffer_linearize rb newData;
             Some (True, ringbuffer_resized
                (rb\<lparr>rb_readPtr := 0, rb_writePtr := ringbuffer_used rb, rb_buffer := nd\<rparr>)
                targetSize)
           }))"

text \<open>The part of \<^verbatim>\<open>ringbuffer_write\<close> after the space has been made: a write split at the end of the block.\<close>

definition ringbuffer_put :: "RingBuffer \<Rightarrow> byte list \<Rightarrow> (bool \<times> RingBuffer) option" where
  "ringbuffer_put rb ptr = do {
     let sz = length ptr;
     let space = sz_sub (rb_size rb) (rb_writePtr rb);
     let toWrite = (if space < sz then space else sz);
     b1 \<leftarrow> (if toWrite \<noteq> 0 then mem_write (rb_buffer rb) (rb_writePtr rb) (take toWrite ptr)
            else Some (rb_buffer rb));
     let remaining = sz - toWrite;
     b2 \<leftarrow> (if remaining \<noteq> 0 then mem_write b1 0 (drop toWrite ptr) else Some b1);
     wp \<leftarrow> sz_mod (sz_add (rb_writePtr rb) sz) (rb_size rb);
     Some (True, rb\<lparr>rb_buffer := b2, rb_writePtr := wp,
                    rb_freeSize := sz_sub (rb_freeSize rb) sz\<rparr>)
   }"

definition ringbuffer_write :: "byte allocator \<Rightarrow> RingBuffer \<Rightarrow> byte list \<Rightarrow> (bool \<times> RingBuffer) option" where
  "ringbuffer_write A rb ptr =
     (if rb_freeSize rb \<le> length ptr then do {
        (ok, rb') \<leftarrow> ringbuffer_realloc A rb (sz_add (rb_size rb) (length ptr));
        if ok then ringbuffer_put rb' ptr else Some (False, rb')
      } else ringbuffer_put rb ptr)"

text \<open>
  \<^verbatim>\<open>ringbuffer_ensure_linear_write\<close> returns a pointer into the buffer (\<open>Some\<close> offset), or
  \<^verbatim>\<open>NULL\<close> (\<open>None\<close>) when the buffer could not grow. First its part after the growth.
\<close>

definition ringbuffer_make_linear :: "RingBuffer \<Rightarrow> nat \<Rightarrow> (nat option \<times> RingBuffer) option" where
  "ringbuffer_make_linear rb sz = do {
     let rb2 = (if rb_writePtr rb = rb_readPtr rb
                then rb\<lparr>rb_writePtr := 0, rb_readPtr := 0\<rparr> else rb);
     if sz_add (rb_writePtr rb2) sz < rb_size rb2
     then Some (Some (rb_writePtr rb2), rb2)
     else do {
       b \<leftarrow> mem_move (rb_buffer rb2) 0 (rb_readPtr rb2)
              (sz_sub (rb_writePtr rb2) (rb_readPtr rb2));
       let wp = sz_sub (rb_size rb2) (rb_freeSize rb2);
       Some (Some wp, rb2\<lparr>rb_buffer := b, rb_readPtr := 0, rb_writePtr := wp\<rparr>)
     }
   }"

definition ringbuffer_ensure_linear_write ::
    "byte allocator \<Rightarrow> RingBuffer \<Rightarrow> nat \<Rightarrow> (nat option \<times> RingBuffer) option" where
  "ringbuffer_ensure_linear_write A rb sz =
     (if rb_freeSize rb < sz then do {
        (ok, rb1) \<leftarrow> ringbuffer_realloc A rb
                       (sz_add (sz_sub (sz_add (rb_size rb) sz) (rb_freeSize rb)) 32);
        if ok then ringbuffer_make_linear rb1 sz else Some (None, rb1)
      } else ringbuffer_make_linear rb sz)"

definition ringbuffer_commit_written_bytes :: "RingBuffer \<Rightarrow> nat \<Rightarrow> (bool \<times> RingBuffer) option" where
  "ringbuffer_commit_written_bytes rb sz =
     (if sz < 1 then Some (True, rb)
      else if sz_add (rb_writePtr rb) sz > rb_size rb then Some (False, rb)
      else do {
        wp \<leftarrow> sz_mod (sz_add (rb_writePtr rb) sz) (rb_size rb);
        Some (True, rb\<lparr>rb_writePtr := wp, rb_freeSize := sz_sub (rb_freeSize rb) sz\<rparr>)
      })"

text \<open>The chunks \<^verbatim>\<open>ringbuffer_peek\<close> fills; its return value is their number.\<close>

definition ringbuffer_peek :: "RingBuffer \<Rightarrow> nat \<Rightarrow> DataChunk list" where
  "ringbuffer_peek rb sz =
     (if sz < 1 then []
      else let used = sz_sub (rb_size rb) (rb_freeSize rb);
               remaining = (if used < sz then used else sz);
               toRead = (if sz_add (rb_readPtr rb) remaining > rb_size rb
                         then sz_sub (rb_size rb) (rb_readPtr rb) else remaining)
           in (if toRead \<noteq> 0 then [\<lparr>dc_data = rb_readPtr rb, dc_size = toRead\<rparr>] else []) @
              (if sz_sub remaining toRead \<noteq> 0
               then [\<lparr>dc_data = 0, dc_size = sz_sub remaining toRead\<rparr>] else []))"

definition ringbuffer_commit_read_bytes :: "byte allocator \<Rightarrow> RingBuffer \<Rightarrow> nat \<Rightarrow> RingBuffer option" where
  "ringbuffer_commit_read_bytes A rb sz =
     (if sz < 1 then Some rb
      else do {
        c_assert (sz_sub (rb_size rb) (rb_freeSize rb) \<ge> sz);
        rp \<leftarrow> sz_mod (sz_add (rb_readPtr rb) sz) (rb_size rb);
        let rb1 = rb\<lparr>rb_readPtr := rp, rb_freeSize := sz_add (rb_freeSize rb) sz\<rparr>;
        if rb_size rb1 \<noteq> rb_initialSize rb1 \<and> ringbuffer_used rb1 < rb_initialSize rb1 div 2
        then do { (ok, rb2) \<leftarrow> ringbuffer_realloc A rb1 (rb_initialSize rb1); Some rb2 }
        else Some rb1
      })"

section \<open>Invariant and abstraction\<close>

text \<open>
  \<open>rb_wf\<close> ties the counters to the block; \<open>rb_open\<close> says that at least one cell is free. A
  buffer without a free cell has its two heads at the same place, exactly as an empty one.
\<close>

definition rb_wf :: "RingBuffer \<Rightarrow> bool" where
  "rb_wf rb \<longleftrightarrow>
     length (rb_buffer rb) = rb_size rb \<and> 0 < rb_size rb \<and> rb_size rb < BLOCK_MAX \<and>
     0 < rb_initialSize rb \<and> rb_freeSize rb \<le> rb_size rb \<and> rb_readPtr rb < rb_size rb \<and>
     rb_writePtr rb = (rb_readPtr rb + (rb_size rb - rb_freeSize rb)) mod rb_size rb"

definition rb_open :: "RingBuffer \<Rightarrow> bool" where
  "rb_open rb \<longleftrightarrow> rb_wf rb \<and> 0 < rb_freeSize rb"

definition rb_content :: "RingBuffer \<Rightarrow> byte list" where
  "rb_content rb = ring_list (rb_buffer rb) (rb_readPtr rb) (rb_size rb - rb_freeSize rb)"

text \<open>The bytes a list of chunks denotes.\<close>

definition chunk_bytes :: "RingBuffer \<Rightarrow> DataChunk \<Rightarrow> byte list" where
  "chunk_bytes rb c = take (dc_size c) (drop (dc_data c) (rb_buffer rb))"

lemma rb_wfD:
  assumes "rb_wf rb"
  shows "length (rb_buffer rb) = rb_size rb" "0 < rb_size rb" "rb_size rb < BLOCK_MAX"
    "0 < rb_initialSize rb" "rb_freeSize rb \<le> rb_size rb" "rb_readPtr rb < rb_size rb"
    "rb_writePtr rb = (rb_readPtr rb + (rb_size rb - rb_freeSize rb)) mod rb_size rb"
    "rb_writePtr rb < rb_size rb" "rb_size rb < SIZE_MOD"
  using assms by (auto simp: rb_wf_def)

lemma length_rb_content [simp]: "length (rb_content rb) = rb_size rb - rb_freeSize rb"
  by (simp add: rb_content_def)

lemma ringbuffer_used_eq [simp]: "rb_wf rb \<Longrightarrow> ringbuffer_used rb = length (rb_content rb)"
  by (simp add: ringbuffer_used_def c_arith rb_wfD)

text \<open>The position of the write head, by cases on whether the data wraps.\<close>

lemma rb_writePtr_cases:
  assumes "rb_wf rb"
  shows "rb_readPtr rb + (rb_size rb - rb_freeSize rb) < rb_size rb \<Longrightarrow>
           rb_writePtr rb = rb_readPtr rb + (rb_size rb - rb_freeSize rb)"
    and "rb_size rb \<le> rb_readPtr rb + (rb_size rb - rb_freeSize rb) \<Longrightarrow>
           rb_writePtr rb = rb_readPtr rb + (rb_size rb - rb_freeSize rb) - rb_size rb"
  using rb_wfD [OF assms] by (auto simp: mod_if)

lemma rb_open_heads_eq:
  assumes "rb_open rb" and "rb_writePtr rb = rb_readPtr rb"
  shows "rb_freeSize rb = rb_size rb"
proof (cases "rb_readPtr rb + (rb_size rb - rb_freeSize rb) < rb_size rb")
  case True
  with assms show ?thesis
    using rb_writePtr_cases(1) [of rb] rb_wfD [of rb] by (auto simp: rb_open_def)
next
  case False
  with assms show ?thesis
    using rb_writePtr_cases(2) [of rb] rb_wfD [of rb] by (auto simp: rb_open_def)
qed

text \<open>The copy into a fresh block puts the contents at its beginning.\<close>

lemma ringbuffer_linearize_spec:
  assumes wf: "rb_wf rb" and ne: "rb_writePtr rb \<noteq> rb_readPtr rb"
    and room: "rb_size rb - rb_freeSize rb \<le> length nd"
  shows "ringbuffer_linearize rb nd = Some (rb_content rb @ drop (rb_size rb - rb_freeSize rb) nd)"
proof -
  note [simp] = rb_wfD(1-6,8-) [OF wf]
  let ?u = "rb_size rb - rb_freeSize rb"
  show ?thesis
  proof (cases "rb_readPtr rb + ?u < rb_size rb")
    case True
    then have "rb_writePtr rb = rb_readPtr rb + ?u" and "rb_readPtr rb < rb_writePtr rb"
      using rb_writePtr_cases(1) [OF wf True] ne by linarith+
    moreover have "rb_content rb = take ?u (drop (rb_readPtr rb) (rb_buffer rb))"
      using True by (simp add: rb_content_def ring_list_linear)
    ultimately show ?thesis
      using True room wf by (simp add: ringbuffer_linearize_def c_mem)
  next
    case False
    then have wp: "rb_writePtr rb = rb_readPtr rb + ?u - rb_size rb"
      using rb_writePtr_cases(2) [OF wf] by auto
    then have lt: "\<not> rb_readPtr rb < rb_writePtr rb"
      by auto
    have c: "rb_content rb = drop (rb_readPtr rb) (rb_buffer rb) @ take (rb_writePtr rb) (rb_buffer rb)"
      using False wp by (simp add: rb_content_def ring_list_wrap less_imp_le)
    have u: "?u = (rb_size rb - rb_readPtr rb) + rb_writePtr rb"
      using wp False rb_wfD(6) [OF wf] by linarith
    have first: "sz_sub (rb_size rb) (rb_readPtr rb) = rb_size rb - rb_readPtr rb"
      by (simp add: c_arith less_imp_le)
    have le: "rb_readPtr rb \<le> rb_size rb" "rb_writePtr rb \<le> rb_size rb"
      by (simp_all add: less_imp_le)
    show ?thesis
      using room le
      by (simp add: ringbuffer_linearize_def lt first c u c_mem Let_def add.commute)
  qed
qed

text \<open>
  Reallocation to any size above the amount of data keeps the contents, and fails exactly
  when the allocator refuses.
\<close>

lemma ringbuffer_resized_simps [simp]:
  "rb_readPtr (ringbuffer_resized rb n) = rb_readPtr rb"
  "rb_writePtr (ringbuffer_resized rb n) = rb_writePtr rb"
  "rb_buffer (ringbuffer_resized rb n) = rb_buffer rb"
  "rb_initialSize (ringbuffer_resized rb n) = rb_initialSize rb"
  "rb_size (ringbuffer_resized rb n) = n"
  by (simp_all add: ringbuffer_resized_def)

lemma rb_freeSize_resized [simp]:
  assumes "rb_freeSize rb \<le> rb_size rb" "rb_size rb - rb_freeSize rb \<le> n"
    "rb_size rb < SIZE_MOD" "n < SIZE_MOD"
  shows "rb_freeSize (ringbuffer_resized rb n) = n - (rb_size rb - rb_freeSize rb)"
  using assms by (simp add: ringbuffer_resized_def c_arith)

definition rb_resized_to :: "RingBuffer \<Rightarrow> nat \<Rightarrow> RingBuffer \<Rightarrow> bool" where
  "rb_resized_to rb n rb' \<longleftrightarrow>
     rb_open rb' \<and> rb_content rb' = rb_content rb \<and> rb_size rb' = n \<and>
     rb_freeSize rb' = n - length (rb_content rb) \<and> rb_initialSize rb' = rb_initialSize rb"

lemma rb_resized_toI:
  assumes wf: "rb_wf rb" and n: "length (rb_content rb) < n" "n < BLOCK_MAX"
    and rd: "rd < n" and wp: "wp = (rd + length (rb_content rb)) mod n"
    and buf: "length buf = n" "ring_list buf rd (length (rb_content rb)) = rb_content rb"
    and rb': "rb' = ringbuffer_resized (rb\<lparr>rb_readPtr := rd, rb_writePtr := wp, rb_buffer := buf\<rparr>) n"
  shows "rb_resized_to rb n rb'"
proof -
  let ?rb = "rb\<lparr>rb_readPtr := rd, rb_writePtr := wp, rb_buffer := buf\<rparr>"
  have free: "rb_freeSize rb' = n - length (rb_content rb)"
    unfolding rb' using rb_freeSize_resized [of ?rb n] n rb_wfD [OF wf] by simp
  have used: "n - (n - length (rb_content rb)) = length (rb_content rb)"
    using n by linarith
  have fields: "rb_size rb' = n" "rb_readPtr rb' = rd" "rb_writePtr rb' = wp" "rb_buffer rb' = buf"
    "rb_initialSize rb' = rb_initialSize rb"
    by (simp_all add: rb')
  have "rb_content rb' = rb_content rb"
    using buf(2) by (simp only: rb_content_def [of rb'] fields free used)
  moreover have "rb_open rb'"
    using n rd wp buf(1) rb_wfD(4) [OF wf]
    unfolding rb_open_def rb_wf_def fields free used by simp
  ultimately show ?thesis
    by (simp only: rb_resized_to_def fields free)
qed

lemma rb_wf_content_linear:
  assumes "rb_wf rb" "rb_readPtr rb < rb_writePtr rb"
  shows "rb_writePtr rb = rb_readPtr rb + length (rb_content rb)"
    and "rb_content rb = take (length (rb_content rb)) (drop (rb_readPtr rb) (rb_buffer rb))"
proof -
  have lin: "rb_readPtr rb + (rb_size rb - rb_freeSize rb) < rb_size rb"
    using rb_writePtr_cases(2) [OF assms(1)] assms(2) rb_wfD(5) [OF assms(1)] by linarith
  then show "rb_writePtr rb = rb_readPtr rb + length (rb_content rb)"
    using rb_writePtr_cases(1) [OF assms(1)] by simp
  show "rb_content rb = take (length (rb_content rb)) (drop (rb_readPtr rb) (rb_buffer rb))"
    using lin rb_wfD(1) [OF assms(1)] by (simp add: rb_content_def ring_list_linear)
qed

lemma ringbuffer_realloc_fail:
  "\<not> (al_ok A n \<and> n < BLOCK_MAX) \<Longrightarrow> ringbuffer_realloc A rb n = Some (False, rb)"
  by (auto simp: ringbuffer_realloc_def mem_realloc_def mem_alloc_def)

lemma ringbuffer_realloc_ok:
  assumes op: "rb_open rb" and n: "length (rb_content rb) < n" "n < BLOCK_MAX" "al_ok A n"
  shows "\<exists>rb'. ringbuffer_realloc A rb n = Some (True, rb') \<and> rb_resized_to rb n rb'"
proof -
  have wf: "rb_wf rb" using op by (simp add: rb_open_def)
  note len = rb_wfD(1) [OF wf]
  obtain nd where nd: "mem_realloc A (rb_buffer rb) n = Some nd" "length nd = n"
    using n by (auto simp: mem_realloc_def)
  obtain fd where fd: "mem_alloc A n = Some fd" "length fd = n"
    using n by (auto simp: mem_alloc_def)
  consider (empty) "rb_writePtr rb = rb_readPtr rb"
    | (linear) "rb_readPtr rb < rb_writePtr rb" "rb_writePtr rb < n"
    | (move) "rb_writePtr rb \<noteq> rb_readPtr rb" "\<not> (rb_readPtr rb \<le> rb_writePtr rb \<and> rb_writePtr rb < n)"
    by linarith
  then show ?thesis
  proof cases
    case empty
    then have "rb_content rb = []"
      using rb_open_heads_eq [OF op] by (simp add: rb_content_def)
    then have "rb_resized_to rb n
        (ringbuffer_resized (rb\<lparr>rb_readPtr := 0, rb_writePtr := 0, rb_buffer := nd\<rparr>) n)"
      using n nd by (intro rb_resized_toI [OF wf, where rd = 0 and wp = 0 and buf = nd]) auto
    then show ?thesis using empty nd by (auto simp: ringbuffer_realloc_def)
  next
    case linear
    note lin = rb_wf_content_linear [OF wf linear(1)]
    let ?u = "length (rb_content rb)"
    have "ring_list nd (rb_readPtr rb) ?u = take ?u (drop (rb_readPtr rb) nd)"
      using lin(1) linear nd by (intro ring_list_linear) simp
    also have "\<dots> = take ?u (drop (rb_readPtr rb) (rb_buffer rb))"
      using lin(1) linear nd len rb_wfD(8) [OF wf]
      by (intro nth_equalityI) (auto simp: mem_realloc_nth [OF nd(1)])
    finally have "rb_resized_to rb n
        (ringbuffer_resized (rb\<lparr>rb_readPtr := rb_readPtr rb, rb_writePtr := rb_writePtr rb, rb_buffer := nd\<rparr>) n)"
      using n nd lin(1) linear lin(2) [symmetric]
      by (intro rb_resized_toI [OF wf _ _ _ _ _ _ refl]) (simp_all del: length_rb_content)
    then show ?thesis using linear nd by (auto simp: ringbuffer_realloc_def)
  next
    case move
    let ?buf = "rb_content rb @ drop (length (rb_content rb)) fd"
    have cp: "ringbuffer_linearize rb fd = Some ?buf"
      using ringbuffer_linearize_spec [OF wf move(1), of fd] n fd by simp
    have "ring_list ?buf 0 (length (rb_content rb)) = rb_content rb"
      using n fd by (subst ring_list_linear) auto
    then have "rb_resized_to rb n
        (ringbuffer_resized (rb\<lparr>rb_readPtr := 0, rb_writePtr := length (rb_content rb), rb_buffer := ?buf\<rparr>) n)"
      using n fd by (intro rb_resized_toI [OF wf _ _ _ _ _ _ refl]) auto
    then show ?thesis
      using move fd cp wf by (auto simp: ringbuffer_realloc_def)
  qed
qed

text \<open>A block stored at the write head, with the counters advanced, extends the contents.\<close>

definition rb_appended :: "RingBuffer \<Rightarrow> byte list \<Rightarrow> RingBuffer" where
  "rb_appended rb d = rb\<lparr>rb_buffer := ring_put (rb_buffer rb) (rb_writePtr rb) d,
     rb_writePtr := (rb_writePtr rb + length d) mod rb_size rb,
     rb_freeSize := rb_freeSize rb - length d\<rparr>"

lemma rb_appended_ok:
  assumes wf: "rb_wf rb" and fit: "length d \<le> rb_freeSize rb"
  shows "rb_wf (rb_appended rb d)" "rb_content (rb_appended rb d) = rb_content rb @ d"
proof -
  let ?w = "rb_writePtr rb" and ?s = "rb_size rb" and ?u = "rb_size rb - rb_freeSize rb"
  have d: "length d \<le> ?s" "?u + length d \<le> ?s"
    using fit rb_wfD(5) [OF wf] by linarith+
  have u: "?s - (rb_freeSize rb - length d) = ?u + length d"
    using fit rb_wfD(5) [OF wf] by linarith
  have wp: "(?w + length d) mod ?s = (rb_readPtr rb + (?s - (rb_freeSize rb - length d))) mod ?s"
    unfolding u rb_wfD(7) [OF wf] by (simp only: mod_add_left_eq add.assoc)
  have "ring_list (ring_put (rb_buffer rb) ?w d) (rb_readPtr rb) (?u + length d)
      = ring_list (rb_buffer rb) (rb_readPtr rb) ?u @ d"
    using ring_list_put [of "rb_readPtr rb" "rb_buffer rb" ?u d] d(2) rb_wfD(6) [OF wf]
    unfolding rb_wfD(1) [OF wf] rb_wfD(7) [OF wf, symmetric] by blast
  then show "rb_content (rb_appended rb d) = rb_content rb @ d"
    unfolding rb_content_def rb_appended_def using u by (simp del: diff_diff_right)
  show "rb_wf (rb_appended rb d)"
    using wp d(1) rb_wfD(1-6,8) [OF wf]
    by (simp add: rb_appended_def rb_wf_def less_imp_le le_diff_conv trans_le_add1)
qed

lemma rb_appended_simps [simp]:
  "rb_size (rb_appended rb d) = rb_size rb"
  "rb_initialSize (rb_appended rb d) = rb_initialSize rb"
  "rb_freeSize (rb_appended rb d) = rb_freeSize rb - length d"
  by (simp_all add: rb_appended_def)

text \<open>Writing a block at the write head, split at the end of the buffer, appends it to the contents.\<close>

lemma ringbuffer_put_eq:
  assumes wf: "rb_wf rb" and fit: "length d \<le> rb_freeSize rb"
  shows "ringbuffer_put rb d = Some (True, rb_appended rb d)"
proof -
  note [simp] = rb_wfD(1-6,8-) [OF wf]
  let ?w = "rb_writePtr rb" and ?s = "rb_size rb"
  have d: "length d \<le> ?s" "length d < SIZE_MOD"
    using fit rb_wfD(5,9) [OF wf] by linarith+
  have sp: "sz_sub ?s ?w = ?s - ?w"
    by (simp add: c_arith less_imp_le)
  have wadd: "sz_add ?w (length d) = ?w + length d"
    using d(1) rb_wfD(3,8) [OF wf] by (intro sz_add_nowrap BLOCK_MAX_double) linarith+
  have fs: "sz_sub (rb_freeSize rb) (length d) = rb_freeSize rb - length d"
    using fit rb_wfD(5,9) [OF wf] by (intro sz_sub_nowrap) linarith+
  note defs = ringbuffer_put_def rb_appended_def Let_def sp wadd fs ring_put_def
  consider (wrap) "?s - ?w < length d" | (plain) "\<not> ?s - ?w < length d" "d \<noteq> []" | (none) "d = []"
    by blast
  then show ?thesis
  proof cases
    case wrap
    then have k: "length d - (?s - ?w) \<le> ?w" "?w \<le> ?s" "?s - ?w \<noteq> 0"
      using d rb_wfD(8) [OF wf] by linarith+
    then show ?thesis
      using wrap by (simp add: defs c_arith c_mem)
  next
    case plain
    then have "?w + length d \<le> ?s"
      using rb_wfD(8) [OF wf] by linarith
    then show ?thesis
      using plain by (simp add: defs c_arith c_mem)
  next
    case none
    then show ?thesis
      using fs wadd by (simp add: defs c_arith)
  qed
qed

lemma ringbuffer_put_ok:
  assumes "rb_wf rb" and "length d \<le> rb_freeSize rb"
  shows "\<exists>rb'. ringbuffer_put rb d = Some (True, rb') \<and> rb_wf rb' \<and>
     rb_content rb' = rb_content rb @ d \<and> rb_freeSize rb' = rb_freeSize rb - length d \<and>
     rb_size rb' = rb_size rb \<and> rb_initialSize rb' = rb_initialSize rb"
  using ringbuffer_put_eq [OF assms] rb_appended_ok [OF assms] by simp

section \<open>Behaviour of the operations\<close>

text \<open>
  \<^verbatim>\<open>ringbuffer_write\<close> grows the buffer whenever the free space would not stay positive. It
  appends all bytes, or, when the allocator refuses, leaves the buffer alone.
\<close>

definition rb_write_fits :: "byte allocator \<Rightarrow> RingBuffer \<Rightarrow> nat \<Rightarrow> bool" where
  "rb_write_fits A rb n \<longleftrightarrow>
     n < rb_freeSize rb \<or> (al_ok A (rb_size rb + n) \<and> rb_size rb + n < BLOCK_MAX)"

lemma ringbuffer_write_fail:
  assumes "rb_open rb" "length d < BLOCK_MAX" "\<not> rb_write_fits A rb (length d)"
  shows "ringbuffer_write A rb d = Some (False, rb)"
proof -
  have "sz_add (rb_size rb) (length d) = rb_size rb + length d"
    using assms rb_wfD(3) [of rb] by (intro sz_add_nowrap BLOCK_MAX_double) (auto simp: rb_open_def)
  then show ?thesis
    using assms by (auto simp: ringbuffer_write_def rb_write_fits_def ringbuffer_realloc_fail)
qed

lemma ringbuffer_write_ok:
  assumes op: "rb_open rb" and d: "length d < BLOCK_MAX" and fits: "rb_write_fits A rb (length d)"
  shows "\<exists>rb'. ringbuffer_write A rb d = Some (True, rb') \<and> rb_open rb' \<and>
           rb_content rb' = rb_content rb @ d \<and> rb_initialSize rb' = rb_initialSize rb"
proof (cases "length d < rb_freeSize rb")
  case True
  then show ?thesis
    using ringbuffer_put_ok [of rb d] op by (auto simp: ringbuffer_write_def rb_open_def)
next
  case False
  let ?n = "rb_size rb + length d"
  have wf: "rb_wf rb" and free: "0 < rb_freeSize rb" using op by (simp_all add: rb_open_def)
  have n: "sz_add (rb_size rb) (length d) = ?n"
    using d rb_wfD(3) [OF wf] by (intro sz_add_nowrap BLOCK_MAX_double)
  have "length (rb_content rb) < ?n"
    using free rb_wfD(5) [OF wf] by simp
  then obtain rb1 where r: "ringbuffer_realloc A rb ?n = Some (True, rb1)" "rb_resized_to rb ?n rb1"
    using ringbuffer_realloc_ok [OF op, of ?n A] fits False by (auto simp: rb_write_fits_def)
  then have rb1: "rb_wf rb1" "rb_content rb1 = rb_content rb" "rb_initialSize rb1 = rb_initialSize rb"
    "rb_freeSize rb1 = rb_freeSize rb + length d"
    using rb_wfD(5) [OF wf] by (auto simp: rb_resized_to_def rb_open_def)
  then show ?thesis
    using ringbuffer_put_ok [of rb1 d] r False n free by (auto simp: ringbuffer_write_def rb_open_def)
qed

text \<open>\<^verbatim>\<open>ringbuffer_peek\<close>: the chunks denote the first bytes of the contents, and lie inside the block.\<close>

lemma ringbuffer_peek_eq:
  fixes sz :: nat
  assumes wf: "rb_wf rb"
  defines "m \<equiv> min sz (length (rb_content rb))"
  shows "ringbuffer_peek rb sz =
     (if rb_size rb < rb_readPtr rb + m
      then [\<lparr>dc_data = rb_readPtr rb, dc_size = rb_size rb - rb_readPtr rb\<rparr>,
            \<lparr>dc_data = 0, dc_size = m - (rb_size rb - rb_readPtr rb)\<rparr>]
      else if m = 0 then [] else [\<lparr>dc_data = rb_readPtr rb, dc_size = m\<rparr>])"
proof -
  define u where "u = rb_size rb - rb_freeSize rb"
  let ?r = "rb_readPtr rb" and ?s = "rb_size rb"
  have m: "m = min sz u" by (simp add: m_def u_def)
  have le: "m \<le> ?s" "?r \<le> ?s" "m < SIZE_MOD"
    using rb_wfD(6,9) [OF wf] by (auto simp: m u_def min_def)
  have used: "sz_sub ?s (rb_freeSize rb) = u" and sp: "sz_sub ?s ?r = ?s - ?r"
    using rb_wfD(5,6,9) [OF wf] by (simp_all add: u_def c_arith)
  have rem: "(if u < sz then u else sz) = m" by (auto simp: m)
  have add: "sz_add ?r m = ?r + m"
    using le rb_wfD(3,6) [OF wf] by (intro sz_add_nowrap BLOCK_MAX_double) linarith+
  have sub: "sz_sub m m = 0" "?s < ?r + m \<Longrightarrow> sz_sub m (?s - ?r) = m - (?s - ?r)"
    using le by (auto simp: c_arith)
  show ?thesis
  proof (cases "sz = 0")
    case True
    then show ?thesis using le by (simp add: m ringbuffer_peek_def)
  next
    case False
    then show ?thesis
      unfolding ringbuffer_peek_def Let_def used sp rem add using sub rb_wfD(6) [OF wf] by auto
  qed
qed

lemma ringbuffer_peek_bytes:
  assumes wf: "rb_wf rb"
  shows "concat (map (chunk_bytes rb) (ringbuffer_peek rb sz)) = take sz (rb_content rb)"
proof -
  note [simp] = rb_wfD(1-6,8-) [OF wf]
  define m where "m = min sz (length (rb_content rb))"
  have tk: "take sz (rb_content rb) = ring_list (rb_buffer rb) (rb_readPtr rb) m"
    by (simp add: rb_content_def ring_simps m_def)
  have m: "m \<le> rb_size rb" by (simp add: m_def)
  have pk: "ringbuffer_peek rb sz =
     (if rb_size rb < rb_readPtr rb + m
      then [\<lparr>dc_data = rb_readPtr rb, dc_size = rb_size rb - rb_readPtr rb\<rparr>,
            \<lparr>dc_data = 0, dc_size = m - (rb_size rb - rb_readPtr rb)\<rparr>]
      else if m = 0 then [] else [\<lparr>dc_data = rb_readPtr rb, dc_size = m\<rparr>])"
    unfolding m_def by (rule ringbuffer_peek_eq [OF wf])
  show ?thesis
  proof (cases "rb_size rb < rb_readPtr rb + m")
    case True
    then have "rb_readPtr rb + m - rb_size rb = m - (rb_size rb - rb_readPtr rb)"
      using rb_wfD(6) [OF wf] by linarith
    then show ?thesis
      using True m unfolding tk pk by (simp add: chunk_bytes_def ring_list_wrap less_imp_le)
  next
    case False
    then show ?thesis
      unfolding tk pk by (simp add: chunk_bytes_def ring_list_linear)
  qed
qed

lemma ringbuffer_peek_in_block:
  assumes wf: "rb_wf rb" and c: "c \<in> set (ringbuffer_peek rb sz)"
  shows "dc_data c + dc_size c \<le> length (rb_buffer rb)"
  using c rb_wfD [OF wf]
  by (auto simp: ringbuffer_peek_eq [OF wf] split: if_splits)

text \<open>\<^verbatim>\<open>ringbuffer_commit_read_bytes\<close>: the bytes are gone, whether or not the shrinking reallocation succeeds.\<close>

lemma ringbuffer_commit_read_ok:
  assumes wf: "rb_wf rb" and n: "n \<le> length (rb_content rb)" and pos: "0 < n \<or> rb_open rb"
  shows "\<exists>rb'. ringbuffer_commit_read_bytes A rb n = Some rb' \<and> rb_open rb' \<and>
           rb_content rb' = drop n (rb_content rb) \<and> rb_initialSize rb' = rb_initialSize rb"
proof (cases "n = 0")
  case True
  then show ?thesis using pos by (simp add: ringbuffer_commit_read_bytes_def)
next
  case False
  let ?s = "rb_size rb" and ?u = "rb_size rb - rb_freeSize rb"
  let ?rb1 = "rb\<lparr>rb_readPtr := (rb_readPtr rb + n) mod ?s, rb_freeSize := rb_freeSize rb + n\<rparr>"
  note [simp] = rb_wfD(1-6,8-) [OF wf]
  have n: "n \<le> ?u" using n by simp
  have left: "?s - (rb_freeSize rb + n) = ?u - n" by simp
  have adds: "sz_add (rb_readPtr rb) n = rb_readPtr rb + n"
      "sz_add (rb_freeSize rb) n = rb_freeSize rb + n"
    using n rb_wfD(3,5,6) [OF wf] by (intro sz_add_nowrap BLOCK_MAX_double; linarith)+
  have "rb_readPtr rb + n + (?u - n) = rb_readPtr rb + ?u" using n by linarith
  then have wp: "rb_writePtr rb = ((rb_readPtr rb + n) mod ?s + (?u - n)) mod ?s"
    by (simp only: rb_wfD(7) [OF wf] mod_add_left_eq)
  have op1: "rb_open ?rb1"
    unfolding rb_open_def rb_wf_def RingBuffer.simps left
    using wp n False rb_wfD(1-6) [OF wf] by (intro conjI; linarith?) auto
  have c1: "rb_content ?rb1 = drop n (rb_content rb)"
    using ring_list_mod [of "rb_buffer rb" "rb_readPtr rb + n" "?u - n"]
    unfolding rb_content_def drop_ring_list rb_wfD(1) [OF wf] by simp
  have used: "sz_sub ?s (rb_freeSize rb) = ?u" by (simp add: c_arith)
  show ?thesis
  proof (cases "?s \<noteq> rb_initialSize rb \<and> ringbuffer_used ?rb1 < rb_initialSize rb div 2")
    case True
    have "\<exists>ok rb2. ringbuffer_realloc A ?rb1 (rb_initialSize rb) = Some (ok, rb2) \<and> rb_open rb2 \<and>
        rb_content rb2 = rb_content ?rb1 \<and> rb_initialSize rb2 = rb_initialSize rb"
    proof (cases "al_ok A (rb_initialSize rb) \<and> rb_initialSize rb < BLOCK_MAX")
      case ok: True
      have "length (rb_content ?rb1) < rb_initialSize rb"
        using True op1 div_le_dividend [of "rb_initialSize rb" 2]
        by (simp add: rb_open_def) linarith
      then show ?thesis
        using ringbuffer_realloc_ok [OF op1, of "rb_initialSize rb" A] ok
        by (fastforce simp: rb_resized_to_def)
    next
      case False
      then show ?thesis
        using ringbuffer_realloc_fail [of A "rb_initialSize rb" ?rb1] op1 by auto
    qed
    then show ?thesis
      using True n False adds c1 used by (auto simp: ringbuffer_commit_read_bytes_def Let_def c_arith)
  next
    case False
    then show ?thesis
      using \<open>n \<noteq> 0\<close> n adds c1 op1 used
      by (auto simp: ringbuffer_commit_read_bytes_def Let_def c_arith)
  qed
qed

text \<open>
  \<^verbatim>\<open>ringbuffer_ensure_linear_write\<close>: on success there is room for \<open>sz\<close> bytes at the write
  head without a wrap, and the contents are unchanged.
\<close>

definition rb_linear_room :: "RingBuffer \<Rightarrow> nat \<Rightarrow> nat \<Rightarrow> RingBuffer \<Rightarrow> bool" where
  "rb_linear_room rb sz p rb' \<longleftrightarrow>
     rb_open rb' \<and> rb_content rb' = rb_content rb \<and> p = rb_writePtr rb' \<and> p + sz \<le> rb_size rb' \<and>
     sz \<le> rb_freeSize rb' \<and> rb_initialSize rb' = rb_initialSize rb"

lemma rb_open_rewound:
  assumes op: "rb_open rb" and eq: "rb_writePtr rb = rb_readPtr rb"
  shows "rb_open (rb\<lparr>rb_writePtr := 0, rb_readPtr := 0\<rparr>)" (is "rb_open ?rb")
    and "rb_content (rb\<lparr>rb_writePtr := 0, rb_readPtr := 0\<rparr>) = rb_content rb"
proof -
  have "rb_freeSize rb = rb_size rb" by (rule rb_open_heads_eq [OF op eq])
  then show "rb_open ?rb" and "rb_content ?rb = rb_content rb"
    using op by (simp_all add: rb_open_def rb_wf_def rb_content_def)
qed

lemma ringbuffer_move_down:
  assumes op: "rb_open rb" and free: "sz \<le> rb_freeSize rb"
    and full: "\<not> rb_writePtr rb + sz < rb_size rb"
  defines "b \<equiv> rb_content rb @ drop (length (rb_content rb)) (rb_buffer rb)"
  defines "rb' \<equiv> rb\<lparr>rb_buffer := b, rb_readPtr := 0, rb_writePtr := length (rb_content rb)\<rparr>"
  shows "mem_move (rb_buffer rb) 0 (rb_readPtr rb) (sz_sub (rb_writePtr rb) (rb_readPtr rb)) = Some b"
    and "rb_linear_room rb sz (length (rb_content rb)) rb'"
proof -
  have wf: "rb_wf rb" and pos: "0 < rb_freeSize rb" using op by (simp_all add: rb_open_def)
  let ?u = "rb_size rb - rb_freeSize rb"
  have lin: "rb_readPtr rb + ?u < rb_size rb"
  proof (rule ccontr)
    assume "\<not> rb_readPtr rb + ?u < rb_size rb"
    then show False
      using rb_writePtr_cases(2) [OF wf] full free rb_wfD(5,6) [OF wf] by linarith
  qed
  have sub: "sz_sub (rb_writePtr rb) (rb_readPtr rb) = ?u"
    using rb_writePtr_cases(1) [OF wf lin] rb_wfD(8,9) [OF wf] by (subst sz_sub_nowrap) linarith+
  have c: "rb_content rb = take ?u (drop (rb_readPtr rb) (rb_buffer rb))"
    using lin rb_wfD(1) [OF wf] by (simp add: rb_content_def ring_list_linear)
  show "mem_move (rb_buffer rb) 0 (rb_readPtr rb) (sz_sub (rb_writePtr rb) (rb_readPtr rb)) = Some b"
    using lin rb_wfD(1) [OF wf] unfolding sub b_def
    by (subst mem_move_in) (auto simp: c [symmetric])
  have "ring_list b 0 ?u = rb_content rb"
    using rb_wfD(1) [OF wf] unfolding b_def by (subst ring_list_linear) auto
  then have "rb_content rb' = rb_content rb"
    by (simp add: rb'_def rb_content_def)
  moreover have "rb_open rb'"
    using wf pos by (auto simp: rb'_def b_def rb_open_def rb_wf_def)
  ultimately show "rb_linear_room rb sz (length (rb_content rb)) rb'"
    using free rb_wfD(5) [OF wf] by (simp add: rb_linear_room_def rb'_def)
qed

lemma ringbuffer_make_linear_ok:
  assumes op: "rb_open rb" and free: "sz \<le> rb_freeSize rb"
  shows "\<exists>p rb'. ringbuffer_make_linear rb sz = Some (Some p, rb') \<and> rb_linear_room rb sz p rb'"
proof -
  define rb2 where "rb2 = (if rb_writePtr rb = rb_readPtr rb
     then rb\<lparr>rb_writePtr := 0, rb_readPtr := 0\<rparr> else rb)"
  have op2: "rb_open rb2" and c2: "rb_content rb2 = rb_content rb"
    using rb_open_rewound [OF op] op by (auto simp: rb2_def)
  have free2: "sz \<le> rb_freeSize rb2" and i2: "rb_initialSize rb2 = rb_initialSize rb"
    using free by (auto simp: rb2_def)
  have wf2: "rb_wf rb2" using op2 by (simp add: rb_open_def)
  have "sz_add (rb_writePtr rb2) sz = rb_writePtr rb2 + sz"
    using free2 rb_wfD(3,5,8) [OF wf2] by (intro sz_add_nowrap BLOCK_MAX_double) linarith+
  moreover have "sz_sub (rb_size rb2) (rb_freeSize rb2) = length (rb_content rb2)"
    using wf2 ringbuffer_used_eq [OF wf2] by (simp add: ringbuffer_used_def)
  ultimately show ?thesis
    using ringbuffer_move_down [OF op2 free2] op2 free2 c2 i2
    by (cases "rb_writePtr rb2 + sz < rb_size rb2")
       (simp_all add: ringbuffer_make_linear_def Let_def rb2_def [symmetric] rb_linear_room_def)
qed

text \<open>Bytes stored at the returned pointer and committed are appended to the contents.\<close>

lemma ringbuffer_commit_written_ok:
  assumes room: "rb_linear_room rb sz p rb'" and d: "length d \<le> sz"
  shows "\<exists>b rb''. mem_write (rb_buffer rb') p d = Some b \<and>
     ringbuffer_commit_written_bytes (rb'\<lparr>rb_buffer := b\<rparr>) (length d) = Some (True, rb'') \<and>
     rb_wf rb'' \<and> rb_content rb'' = rb_content rb @ d \<and>
     rb_freeSize rb'' = rb_freeSize rb' - length d"
proof -
  have wf: "rb_wf rb'" and p: "p = rb_writePtr rb'" "p + sz \<le> rb_size rb'" "sz \<le> rb_freeSize rb'"
    and c: "rb_content rb' = rb_content rb"
    using room by (auto simp: rb_linear_room_def rb_open_def)
  have fit: "length d \<le> rb_freeSize rb'" "rb_writePtr rb' + length d \<le> rb_size rb'" using p d by auto
  have b: "mem_write (rb_buffer rb') p d = Some (ring_put (rb_buffer rb') p d)"
    using fit p(1) rb_wfD(1) [OF wf] by (auto simp: mem_write_in ring_put_def Let_def)
  have add: "sz_add (rb_writePtr rb') (length d) = rb_writePtr rb' + length d"
    using fit rb_wfD(9) [OF wf] by (intro sz_add_nowrap) linarith
  have sub: "sz_sub (rb_freeSize rb') (length d) = rb_freeSize rb' - length d"
    using fit rb_wfD(5,9) [OF wf] by (intro sz_sub_nowrap) linarith+
  have "ringbuffer_commit_written_bytes (rb'\<lparr>rb_buffer := ring_put (rb_buffer rb') p d\<rparr>) (length d)
      = Some (True, rb_appended rb' d)"
  proof (cases "d = []")
    case True
    then show ?thesis
      using p(1) rb_wfD(1,8) [OF wf]
      by (simp add: ringbuffer_commit_written_bytes_def rb_appended_def ring_put_def)
  next
    case False
    then show ?thesis
      using fit p(1) rb_wfD(2) [OF wf]
      by (auto simp: ringbuffer_commit_written_bytes_def rb_appended_def add sub c_arith Suc_le_eq)
  qed
  then show ?thesis
    using b c rb_appended_ok [OF wf fit(1)] by simp
qed

lemma ringbuffer_ensure_linear_ok:
  fixes A :: "byte allocator"
  assumes op: "rb_open rb" and sz: "sz < BLOCK_MAX - 32" "rb_size rb + sz < BLOCK_MAX - 32"
  defines "n \<equiv> rb_size rb + sz - rb_freeSize rb + 32"
  shows "(sz \<le> rb_freeSize rb \<or> al_ok A n) \<and>
        (\<exists>p rb'. ringbuffer_ensure_linear_write A rb sz = Some (Some p, rb') \<and> rb_linear_room rb sz p rb') \<or>
      \<not> (sz \<le> rb_freeSize rb \<or> al_ok A n) \<and> ringbuffer_ensure_linear_write A rb sz = Some (None, rb)"
proof (cases "sz \<le> rb_freeSize rb")
  case True
  then show ?thesis
    using ringbuffer_make_linear_ok [OF op True] by (auto simp: ringbuffer_ensure_linear_write_def)
next
  case False
  have wf: "rb_wf rb" using op by (simp add: rb_open_def)
  note b = rb_wfD(3,5) [OF wf]
  have n: "sz_add (sz_sub (sz_add (rb_size rb) sz) (rb_freeSize rb)) 32 = n"
    using sz b by (simp add: n_def sz_add_nowrap sz_sub_nowrap BLOCK_MAX_def SIZE_MOD_def)
  show ?thesis
  proof (cases "al_ok A n")
    case True
    have c: "length (rb_content rb) < n" "n < BLOCK_MAX"
      using sz b False by (simp_all add: n_def)
    obtain rb1 where r: "ringbuffer_realloc A rb n = Some (True, rb1)" "rb_resized_to rb n rb1"
      using ringbuffer_realloc_ok [OF op c True] by blast
    then have rb1: "rb_open rb1" "rb_content rb1 = rb_content rb" "rb_initialSize rb1 = rb_initialSize rb"
        "rb_freeSize rb1 = n - length (rb_content rb)"
      using rb_wfD(5) [OF wf] by (auto simp: rb_resized_to_def)
    have "sz \<le> rb_freeSize rb1"
      using rb1(4) b False by (simp add: n_def)
    from ringbuffer_make_linear_ok [OF rb1(1) this] obtain p rb' where
      "ringbuffer_make_linear rb1 sz = Some (Some p, rb')" "rb_linear_room rb1 sz p rb'" by blast
    then show ?thesis
      using True False r n rb1 by (auto simp: ringbuffer_ensure_linear_write_def rb_linear_room_def)
  next
    case al: False
    then show ?thesis
      using False ringbuffer_realloc_fail [of A n rb] n by (auto simp: ringbuffer_ensure_linear_write_def)
  qed
qed

lemma ringbuffer_init_ok:
  assumes "0 < n" "n < BLOCK_MAX" "al_ok A n"
  shows "\<exists>rb'. ringbuffer_init A rb n = (True, rb') \<and> rb_open rb' \<and> rb_content rb' = [] \<and> rb_initialSize rb' = n"
  using assms
  by (simp add: ringbuffer_init_def mem_alloc_def rb_open_def rb_wf_def rb_content_def)

declare length_rb_content [simp del]

section \<open>Properties\<close>

text \<open>
  C9: on a buffer that is not full, \<^verbatim>\<open>ringbuffer_write\<close> appends the whole block (growing the
  buffer when it has to), or fails and leaves the buffer as it was, exactly when the growth is
  refused. The buffer stays well-formed with free space, so the next write meets the
  precondition again.
\<close>

theorem ringbuffer_write_appends:
  assumes "rb_open rb" "length d < BLOCK_MAX"
  shows "\<exists>ok rb'. ringbuffer_write A rb d = Some (ok, rb') \<and> rb_open rb' \<and>
     (ok \<longleftrightarrow> rb_write_fits A rb (length d)) \<and>
     (if ok then rb_content rb' = rb_content rb @ d else rb' = rb)"
  using ringbuffer_write_ok [OF assms, of A] ringbuffer_write_fail [OF assms, of A] assms(1) by fastforce

definition rb_sample :: RingBuffer where
  "rb_sample = \<lparr>rb_initialSize = 4, rb_freeSize = 2, rb_size = 4, rb_readPtr = 3, rb_writePtr = 1,
     rb_buffer = [20, 0, 0, 10]\<rparr>"

lemma rb_sample_open: "rb_open rb_sample" "rb_content rb_sample = [10, 20]"
  by (simp_all add: rb_sample_def rb_open_def rb_wf_def rb_content_def ring_list_def BLOCK_MAX_def upt_rec)

theorem ringbuffer_write_appends_witness:
  "\<exists>ok rb'. ringbuffer_write ample rb_sample [1, 2, 3] = Some (ok, rb') \<and> rb_open rb' \<and>
     (ok \<longleftrightarrow> rb_write_fits ample rb_sample (length [1, 2, 3 :: byte])) \<and>
     (if ok then rb_content rb' = rb_content rb_sample @ [1, 2, 3] else rb' = rb_sample)"
  by (rule ringbuffer_write_appends) (simp_all add: rb_sample_open BLOCK_MAX_def)

text \<open>
  The chunks of \<^verbatim>\<open>ringbuffer_peek\<close> lie inside the block, are at most two, and denote the
  first bytes of the contents in order, without changing the buffer.
\<close>

theorem ringbuffer_peek_prefix:
  assumes "rb_wf rb"
  shows "concat (map (chunk_bytes rb) (ringbuffer_peek rb sz)) = take sz (rb_content rb) \<and>
     list_all (\<lambda>c. dc_data c + dc_size c \<le> length (rb_buffer rb)) (ringbuffer_peek rb sz) \<and>
     length (ringbuffer_peek rb sz) \<le> 2"
  using ringbuffer_peek_bytes [OF assms, of sz] ringbuffer_peek_in_block [OF assms, of _ sz]
  by (auto simp: list_all_iff) (simp add: ringbuffer_peek_eq [OF assms])

theorem ringbuffer_peek_prefix_witness:
  "concat (map (chunk_bytes rb_sample) (ringbuffer_peek rb_sample 5)) = take 5 (rb_content rb_sample) \<and>
     list_all (\<lambda>c. dc_data c + dc_size c \<le> length (rb_buffer rb_sample)) (ringbuffer_peek rb_sample 5) \<and>
     length (ringbuffer_peek rb_sample 5) \<le> 2"
  using rb_sample_open(1) by (intro ringbuffer_peek_prefix) (simp add: rb_open_def)

text \<open>
  C23: \<^verbatim>\<open>ringbuffer_commit_read_bytes\<close> removes exactly the given number of bytes from the front,
  also when it shrinks the buffer back to its initial size, and whether or not the
  allocator grants that.
\<close>

theorem ringbuffer_commit_read_drops:
  assumes "rb_open rb" "n \<le> length (rb_content rb)"
  shows "\<exists>rb'. ringbuffer_commit_read_bytes A rb n = Some rb' \<and> rb_open rb' \<and>
     rb_content rb' = drop n (rb_content rb) \<and> rb_initialSize rb' = rb_initialSize rb"
  using assms by (intro ringbuffer_commit_read_ok) (auto simp: rb_open_def)

theorem ringbuffer_commit_read_drops_witness:
  "\<exists>rb'. ringbuffer_commit_read_bytes ample rb_sample 1 = Some rb' \<and> rb_open rb' \<and>
     rb_content rb' = drop 1 (rb_content rb_sample) \<and> rb_initialSize rb' = rb_initialSize rb_sample"
  by (rule ringbuffer_commit_read_drops) (simp_all add: rb_sample_open)

text \<open>
  C24: \<^verbatim>\<open>ringbuffer_ensure_linear_write\<close> returns \<^verbatim>\<open>NULL\<close> only when the allocator refuses, and
  otherwise a place in the block where \<open>sz\<close> bytes fit; storing at most \<open>sz\<close> bytes there and
  calling \<^verbatim>\<open>ringbuffer_commit_written_bytes\<close> with their number appends them to the contents.
\<close>

theorem ringbuffer_linear_write_appends:
  fixes A :: "byte allocator"
  assumes "rb_open rb" "rb_size rb + sz < BLOCK_MAX - 32" "length d \<le> sz"
  defines "granted \<equiv> sz \<le> rb_freeSize rb \<or> al_ok A (rb_size rb + sz - rb_freeSize rb + 32)"
  shows "\<exists>p rb1. ringbuffer_ensure_linear_write A rb sz = Some (p, rb1) \<and>
     (case p of
        None \<Rightarrow> \<not> granted \<and> rb1 = rb
      | Some q \<Rightarrow> granted \<and> (\<exists>b rb2. mem_write (rb_buffer rb1) q d = Some b \<and>
          ringbuffer_commit_written_bytes (rb1\<lparr>rb_buffer := b\<rparr>) (length d) = Some (True, rb2) \<and>
          rb_wf rb2 \<and> rb_content rb2 = rb_content rb @ d))"
proof -
  have sz: "sz < BLOCK_MAX - 32" using assms(2) by linarith
  show ?thesis
    using ringbuffer_ensure_linear_ok [OF assms(1) sz assms(2), of A]
      ringbuffer_commit_written_ok [of rb sz _ _ d, OF _ assms(3)]
    by (fold granted_def) fastforce
qed

theorem ringbuffer_linear_write_appends_witness:
  "\<exists>p rb1. ringbuffer_ensure_linear_write ample rb_sample 3 = Some (p, rb1) \<and>
     (case p of
        None \<Rightarrow> \<not> (3 \<le> rb_freeSize rb_sample \<or>
          al_ok (ample :: byte allocator) (rb_size rb_sample + 3 - rb_freeSize rb_sample + 32)) \<and> rb1 = rb_sample
      | Some q \<Rightarrow> (3 \<le> rb_freeSize rb_sample \<or>
          al_ok (ample :: byte allocator) (rb_size rb_sample + 3 - rb_freeSize rb_sample + 32)) \<and>
          (\<exists>b rb2. mem_write (rb_buffer rb1) q [7, 8] = Some b \<and>
          ringbuffer_commit_written_bytes (rb1\<lparr>rb_buffer := b\<rparr>) (length [7, 8 :: byte]) = Some (True, rb2) \<and>
          rb_wf rb2 \<and> rb_content rb2 = rb_content rb_sample @ [7, 8]))"
  by (rule ringbuffer_linear_write_appends)
     (simp_all add: rb_sample_open, simp add: rb_sample_def BLOCK_MAX_def)


end
