(* ===== verification/ByteFifo.thy ===== *)
theory ByteFifo
  imports Prelude
begin

text \<open>
  The contract of a byte pipe: \<open>put\<close> appends a prefix of the given block and says how long it
  is, \<open>get\<close> takes bytes from the front. The lemmas of the locale are about whole runs of
  such operations, and hold for every pipe that meets the contract.
\<close>

datatype fifo_op = FPut "byte list" | FGet nat

text \<open>A run returns the bytes that were accepted, the bytes that came out, and the last state.\<close>

fun fifo_run :: "('s \<Rightarrow> byte list \<Rightarrow> (nat \<times> 's) option) \<Rightarrow> ('s \<Rightarrow> nat \<Rightarrow> (byte list \<times> 's) option) \<Rightarrow>
    fifo_op list \<Rightarrow> 's \<Rightarrow> (byte list \<times> byte list \<times> 's) option" where
  "fifo_run put get [] s = Some ([], [], s)"
| "fifo_run put get (FPut d # ops) s = do {
     (k, s1) \<leftarrow> put s d;
     (ins, outs, s2) \<leftarrow> fifo_run put get ops s1;
     Some (take k d @ ins, outs, s2)
   }"
| "fifo_run put get (FGet n # ops) s = do {
     (d, s1) \<leftarrow> get s n;
     (ins, outs, s2) \<leftarrow> fifo_run put get ops s1;
     Some (ins, d @ outs, s2)
   }"

fun fifo_op_size :: "fifo_op \<Rightarrow> nat" where
  "fifo_op_size (FPut d) = length d"
| "fifo_op_size (FGet n) = n"

locale byte_fifo =
  fixes fwf :: "'s \<Rightarrow> bool"
    and content :: "'s \<Rightarrow> byte list"
    and put :: "'s \<Rightarrow> byte list \<Rightarrow> (nat \<times> 's) option"
    and get :: "'s \<Rightarrow> nat \<Rightarrow> (byte list \<times> 's) option"
    and lim :: nat
  assumes put_ok: "fwf s \<Longrightarrow> length d < lim \<Longrightarrow>
      \<exists>k s'. put s d = Some (k, s') \<and> k \<le> length d \<and> fwf s' \<and> content s' = content s @ take k d"
    and get_ok: "fwf s \<Longrightarrow> n < lim \<Longrightarrow>
      \<exists>s'. get s n = Some (take n (content s), s') \<and> fwf s' \<and> content s' = drop n (content s)"
begin

lemma run_ok:
  assumes "fwf s" and "\<forall>p \<in> set ops. fifo_op_size p < lim"
  shows "\<exists>ins outs s'. fifo_run put get ops s = Some (ins, outs, s') \<and> fwf s' \<and>
           content s @ ins = outs @ content s'"
  using assms
proof (induction ops arbitrary: s)
  case Nil
  then show ?case by simp
next
  case (Cons p ops)
  show ?case
  proof (cases p)
    case (FPut d)
    then obtain k s1 where s1: "put s d = Some (k, s1)" "fwf s1" "content s1 = content s @ take k d"
      using put_ok [of s d] Cons.prems by auto
    then obtain ins outs s' where "fifo_run put get ops s1 = Some (ins, outs, s')" "fwf s'"
        "content s1 @ ins = outs @ content s'"
      using Cons.IH [of s1] Cons.prems by auto
    then show ?thesis using FPut s1 by simp
  next
    case (FGet n)
    then obtain s1 where s1: "get s n = Some (take n (content s), s1)" "fwf s1"
        "content s1 = drop n (content s)"
      using get_ok [of s n] Cons.prems by auto
    then obtain ins outs s' where r: "fifo_run put get ops s1 = Some (ins, outs, s')" "fwf s'"
        "content s1 @ ins = outs @ content s'"
      using Cons.IH [of s1] Cons.prems by auto
    have "content s @ ins = (take n (content s) @ outs) @ content s'"
      using r(3) s1(3) by (metis append_assoc append_take_drop_id)
    then show ?thesis using FGet s1 r by simp
  qed
qed

text \<open>A pipe that starts empty and is drained at the end delivers exactly what it accepted.\<close>

lemma run_drained:
  assumes "fwf s" "content s = []" "\<forall>p \<in> set ops. fifo_op_size p < lim"
    and "fifo_run put get ops s = Some (ins, outs, s')" "content s' = []"
  shows "outs = ins"
  using run_ok [OF assms(1,3)] assms(2,4,5) by auto

end

end
