(* ===== verification/RpcPipe.thy ===== *)
theory RpcPipe
  imports RingBuffer ByteFifo
begin

text \<open>
  The receive pipe of the RPC gateway client (\<^verbatim>\<open>libfreerdp/core/gateway/rpc_client.c\<close>): a ring
  buffer behind a lock, with an event that tells the reader that there is data.
\<close>

record RpcPipe =
  rp_pipe :: RingBuffer
  rp_lock :: nat
  rp_event :: bool

definition rpc_client_receive_pipe_write ::
    "byte allocator \<Rightarrow> RpcPipe \<Rightarrow> byte list \<Rightarrow> (int \<times> RpcPipe) option" where
  "rpc_client_receive_pipe_write A p buffer = do {
     let lk = cs_enter True (rp_lock p);
     (ok, rb) \<leftarrow> ringbuffer_write A (rp_pipe p) buffer;
     let status = (if ok then to_int (length buffer) else 0);
     let ev = (if ringbuffer_used rb > 0 then True else rp_event p);
     lk' \<leftarrow> cs_leave True lk;
     Some (status, p\<lparr>rp_pipe := rb, rp_lock := lk', rp_event := ev\<rparr>)
   }"

text \<open>The copy loop of the reader: the chunks are copied one behind the other into the caller's block.\<close>

fun rpc_copy_chunks :: "RingBuffer \<Rightarrow> DataChunk list \<Rightarrow> byte list \<Rightarrow> int \<Rightarrow> (byte list \<times> int) option" where
  "rpc_copy_chunks rb [] dst status = Some (dst, status)"
| "rpc_copy_chunks rb (c # cs) dst status = do {
     d \<leftarrow> mem_read (rb_buffer rb) (dc_data c) (dc_size c);
     dst' \<leftarrow> mem_write dst (nat status) d;
     rpc_copy_chunks rb cs dst' (to_int (sz_add (to_size status) (dc_size c)))
   }"

definition rpc_client_receive_pipe_read ::
    "byte allocator \<Rightarrow> RpcPipe \<Rightarrow> byte list \<Rightarrow> nat \<Rightarrow> (int \<times> byte list \<times> RpcPipe) option" where
  "rpc_client_receive_pipe_read A p buffer len = do {
     let lk = cs_enter True (rp_lock p);
     let chunks = ringbuffer_peek (rp_pipe p) len;
     (buf, status) \<leftarrow> rpc_copy_chunks (rp_pipe p) chunks buffer 0;
     rb \<leftarrow> (if status > 0 then ringbuffer_commit_read_bytes A (rp_pipe p) (to_size status)
            else Some (rp_pipe p));
     let ev = (if ringbuffer_used rb < 1 then False else rp_event p);
     lk' \<leftarrow> cs_leave True lk;
     Some (status, buf, p\<lparr>rp_pipe := rb, rp_lock := lk', rp_event := ev\<rparr>)
   }"

text \<open>The event is set exactly when there is something to read.\<close>

definition rp_wf :: "RpcPipe \<Rightarrow> bool" where
  "rp_wf p \<longleftrightarrow> rb_open (rp_pipe p) \<and> (rp_event p \<longleftrightarrow> rb_content (rp_pipe p) \<noteq> [])"

definition rp_content :: "RpcPipe \<Rightarrow> byte list" where
  "rp_content p = rb_content (rp_pipe p)"

lemma rpc_pipe_write_ok:
  fixes A :: "byte allocator"
  assumes wf: "rp_wf p" and d: "length d < 2 ^ 31"
  defines "fits \<equiv> rb_write_fits A (rp_pipe p) (length d)"
  shows "\<exists>p'. rpc_client_receive_pipe_write A p d = Some (if fits then int (length d) else 0, p') \<and>
     rp_wf p' \<and> rp_content p' = rp_content p @ (if fits then d else []) \<and> rp_lock p' = rp_lock p"
proof -
  have op: "rb_open (rp_pipe p)" and ev: "rp_event p \<longleftrightarrow> rb_content (rp_pipe p) \<noteq> []"
    using wf by (simp_all add: rp_wf_def)
  have bm: "length d < BLOCK_MAX" using d by (simp add: BLOCK_MAX_def)
  obtain rb where rb: "ringbuffer_write A (rp_pipe p) d = Some (fits, rb)" "rb_open rb"
      "rb_content rb = rb_content (rp_pipe p) @ (if fits then d else [])"
    using ringbuffer_write_ok [OF op bm] ringbuffer_write_fail [OF op bm] op
    unfolding fits_def by (cases "rb_write_fits A (rp_pipe p) (length d)") auto
  have used: "ringbuffer_used rb = length (rb_content rb)"
    using rb(2) by (simp add: rb_open_def)
  have "(if 0 < ringbuffer_used rb then True else rp_event p) \<longleftrightarrow> rb_content rb \<noteq> []"
    unfolding used using rb(3) ev by auto
  then show ?thesis
    using rb d by (simp add: rpc_client_receive_pipe_write_def Let_def rp_wf_def rp_content_def to_int_small)
qed

lemma rpc_copy_chunks_ok:
  assumes "\<forall>c \<in> set cs. dc_data c + dc_size c \<le> length (rb_buffer rb)"
    and "st + length (concat (map (chunk_bytes rb) cs)) \<le> length dst" and "length dst < 2 ^ 31"
  shows "rpc_copy_chunks rb cs dst (int st) =
     Some (take st dst @ concat (map (chunk_bytes rb) cs) @
             drop (st + length (concat (map (chunk_bytes rb) cs))) dst,
           int (st + length (concat (map (chunk_bytes rb) cs))))"
  using assms
proof (induction cs arbitrary: st dst)
  case Nil
  then show ?case by simp
next
  case (Cons c cs)
  let ?d = "chunk_bytes rb c" and ?rest = "concat (map (chunk_bytes rb) cs)"
  have len: "length ?d = dc_size c"
    using Cons.prems(1) by (auto simp: chunk_bytes_def)
  have rd: "mem_read (rb_buffer rb) (dc_data c) (dc_size c) = Some ?d"
    using Cons.prems(1) by (simp add: mem_read_in chunk_bytes_def)
  let ?dst = "take st dst @ ?d @ drop (st + dc_size c) dst"
  have wr: "mem_write dst st ?d = Some ?dst"
    using Cons.prems(2) by (simp add: mem_write_in len)
  have "to_size (int st) = st"
    using Cons.prems(2,3) by (simp add: to_size_def SIZE_MOD_def)
  moreover have "sz_add st (dc_size c) = st + dc_size c"
    using Cons.prems(2,3) len by (intro sz_add_nowrap) (simp add: SIZE_MOD_def)
  ultimately have st: "to_int (sz_add (to_size (int st)) (dc_size c)) = int (st + dc_size c)"
    using Cons.prems(2,3) len by (simp add: to_int_small)
  have "rpc_copy_chunks rb cs ?dst (int (st + dc_size c)) =
     Some (take (st + dc_size c) ?dst @ ?rest @ drop (st + dc_size c + length ?rest) ?dst,
           int (st + dc_size c + length ?rest))"
    using Cons.prems len by (intro Cons.IH) auto
  moreover have "take (st + dc_size c) ?dst = take st dst @ ?d"
    using Cons.prems(2) len by simp
  moreover have "drop (st + dc_size c + length ?rest) ?dst = drop (st + length ?d + length ?rest) dst"
    using Cons.prems(2) len by (simp add: ac_simps)
  ultimately show ?case
    using rd wr st len by (simp add: add.assoc)
qed

lemma rpc_pipe_read_ok:
  assumes wf: "rp_wf p" and n: "n \<le> length dst" "length dst < 2 ^ 31"
  defines "d \<equiv> take n (rp_content p)"
  shows "\<exists>p'. rpc_client_receive_pipe_read A p dst n =
       Some (int (length d), d @ drop (length d) dst, p') \<and>
     rp_wf p' \<and> rp_content p' = drop n (rp_content p) \<and> rp_lock p' = rp_lock p"
proof -
  have op: "rb_open (rp_pipe p)" and ev: "rp_event p \<longleftrightarrow> rb_content (rp_pipe p) \<noteq> []"
    using wf by (simp_all add: rp_wf_def)
  then have wf: "rb_wf (rp_pipe p)" by (simp add: rb_open_def)
  have d: "concat (map (chunk_bytes (rp_pipe p)) (ringbuffer_peek (rp_pipe p) n)) = d"
    by (simp add: ringbuffer_peek_bytes [OF wf] d_def rp_content_def)
  have len: "length d \<le> n" by (simp add: d_def)
  have cp: "rpc_copy_chunks (rp_pipe p) (ringbuffer_peek (rp_pipe p) n) dst 0
      = Some (d @ drop (length d) dst, int (length d))"
    using rpc_copy_chunks_ok [of "ringbuffer_peek (rp_pipe p) n" "rp_pipe p" 0 dst] d len n
      ringbuffer_peek_in_block [OF wf] by simp
  have sz: "to_size (int (length d)) = length d"
    using len n by (simp add: to_size_def SIZE_MOD_def)
  have dr: "drop (length d) (rb_content (rp_pipe p)) = drop n (rb_content (rp_pipe p))"
    by (simp add: d_def rp_content_def min_def)
  have "length d \<le> length (rb_content (rp_pipe p))" by (simp add: d_def rp_content_def)
  then obtain rb where rb: "ringbuffer_commit_read_bytes A (rp_pipe p) (length d) = Some rb"
      "rb_open rb" "rb_content rb = drop n (rb_content (rp_pipe p))"
    using ringbuffer_commit_read_ok [OF wf, of "length d" A] op dr by auto
  have rb': "d = [] \<Longrightarrow> rp_pipe p = rb"
    using rb(1) by (simp add: ringbuffer_commit_read_bytes_def)
  have used: "ringbuffer_used rb = length (rb_content rb)"
    using rb(2) by (simp add: rb_open_def)
  let ?p = "p\<lparr>rp_pipe := rb, rp_lock := rp_lock p,
     rp_event := (if ringbuffer_used rb < 1 then False else rp_event p)\<rparr>"
  have "rpc_client_receive_pipe_read A p dst n = Some (int (length d), d @ drop (length d) dst, ?p)"
    using rb(1) cp rb'
    by (cases "d = []") (simp_all add: rpc_client_receive_pipe_read_def Let_def sz)
  moreover have "rp_event p \<or> rb_content rb = []"
    using rb(3) ev by auto
  ultimately show ?thesis
    using rb(2,3) by (auto simp: rp_wf_def rp_content_def used)
qed

text \<open>The pipe as a byte queue: a write accepts all or nothing, a read fills the caller's block.\<close>

definition rp_put :: "byte allocator \<Rightarrow> RpcPipe \<Rightarrow> byte list \<Rightarrow> (nat \<times> RpcPipe) option" where
  "rp_put A p d = do { (st, p') \<leftarrow> rpc_client_receive_pipe_write A p d; Some (nat st, p') }"

definition rp_get :: "byte allocator \<Rightarrow> RpcPipe \<Rightarrow> nat \<Rightarrow> (byte list \<times> RpcPipe) option" where
  "rp_get A p n = do {
     (st, buf, p') \<leftarrow> rpc_client_receive_pipe_read A p (replicate n 0) n;
     Some (take (nat st) buf, p')
   }"

interpretation rpc_fifo: byte_fifo rp_wf rp_content "rp_put A" "rp_get A" "2 ^ 31"
proof
  fix s :: RpcPipe and d :: "byte list"
  assume "rp_wf s" "length d < (2::nat) ^ 31"
  from rpc_pipe_write_ok [OF this, of A]
  show "\<exists>k s'. rp_put A s d = Some (k, s') \<and> k \<le> length d \<and> rp_wf s' \<and>
      rp_content s' = rp_content s @ take k d"
    by (cases "rb_write_fits A (rp_pipe s) (length d)") (auto simp: rp_put_def)
next
  fix s and n :: nat
  assume s: "rp_wf s" "n < 2 ^ 31"
  then show "\<exists>s'. rp_get A s n = Some (take n (rp_content s), s') \<and> rp_wf s' \<and>
      rp_content s' = drop n (rp_content s)"
    using rpc_pipe_read_ok [OF s(1), of n "replicate n 0" A] by (auto simp: rp_get_def min_def)
qed

section \<open>Properties\<close>

text \<open>
  C16: the receive pipe of the gateway client is a byte queue. In every run of writes and reads,
  whatever the allocator refuses, what came out followed by what is still in the pipe is what
  was in it followed by what was accepted; the event is set exactly when there is data, and
  no operation has undefined behaviour.
\<close>

theorem rpc_pipe_is_fifo:
  assumes "rp_wf p" "\<forall>op \<in> set ops. fifo_op_size op < 2 ^ 31"
  shows "\<exists>ins outs p'. fifo_run (rp_put A) (rp_get A) ops p = Some (ins, outs, p') \<and> rp_wf p' \<and>
     rp_content p @ ins = outs @ rp_content p'"
  using assms by (rule rpc_fifo.run_ok)

definition rp_sample :: RpcPipe where
  "rp_sample = \<lparr>rp_pipe = rb_sample, rp_lock = 0, rp_event = True\<rparr>"

theorem rpc_pipe_is_fifo_witness:
  "\<exists>ins outs p'. fifo_run (rp_put ample) (rp_get ample) [FPut [1, 2, 3], FGet 4] rp_sample = Some (ins, outs, p') \<and>
     rp_wf p' \<and> rp_content rp_sample @ ins = outs @ rp_content p'"
  by (rule rpc_pipe_is_fifo) (simp_all add: rp_sample_def rp_wf_def rb_sample_open)

text \<open>
  One call of \<^verbatim>\<open>rpc_client_receive_pipe_read\<close> copies the oldest bytes, as many as there are and
  fit, to the front of the caller's block, leaves the rest of that block alone, returns their
  number, and releases the lock as often as it took it.
\<close>

theorem rpc_pipe_read_copies:
  fixes A :: "byte allocator"
  assumes "rp_wf p" "n \<le> length dst" "length dst < 2 ^ 31"
  shows "\<exists>p'. rpc_client_receive_pipe_read A p dst n =
       Some (int (min n (length (rp_content p))), take n (rp_content p) @ drop (min n (length (rp_content p))) dst, p') \<and>
     rp_wf p' \<and> rp_content p' = drop n (rp_content p) \<and> rp_lock p' = rp_lock p"
  using rpc_pipe_read_ok [OF assms, of A] by (simp add: min.commute)

theorem rpc_pipe_read_copies_witness:
  "\<exists>p'. rpc_client_receive_pipe_read ample rp_sample [0, 0, 0] 3 =
       Some (int (min 3 (length (rp_content rp_sample))),
         take 3 (rp_content rp_sample) @ drop (min 3 (length (rp_content rp_sample))) [0, 0, 0], p') \<and>
     rp_wf p' \<and> rp_content p' = drop 3 (rp_content rp_sample) \<and> rp_lock p' = rp_lock rp_sample"
  by (rule rpc_pipe_read_copies) (simp_all add: rp_sample_def rp_wf_def rb_sample_open)

end
