(* ===== verification/BufferedBio.thy ===== *)
theory BufferedBio
  imports RingBuffer
begin

text \<open>
  The buffered socket of the transport (\<^verbatim>\<open>libfreerdp/core/tcp.c\<close>): what cannot be sent at once
  waits in a ring buffer. The BIO below it belongs to OpenSSL. It appears as the list of the
  replies it gives, one for each \<^verbatim>\<open>BIO_write\<close> that the call makes; a reply never claims
  more bytes than it was handed, and when the list is used up the socket would block.
\<close>

record bio_reply =
  br_status :: int
  br_retry :: bool
  br_write :: bool
  br_read :: bool

record BufferedSocket =
  bs_readBlocked :: bool
  bs_writeBlocked :: bool
  bs_xmitBuffer :: RingBuffer
  bs_flag_write :: bool
  bs_flag_read :: bool
  bs_flag_retry :: bool

text \<open>How the sending loop is left: at its end, or by one of its two jumps.\<close>

datatype bio_exit = BDone | BFatal | BBlocked

text \<open>The loop over one chunk. The bytes that the socket takes are part of the result.\<close>

fun bio_send_chunk :: "byte list \<Rightarrow> bio_reply list \<Rightarrow> nat \<Rightarrow> nat \<Rightarrow> int \<Rightarrow>
    (bio_exit \<times> byte list \<times> int \<times> bio_reply list) option" where
  "bio_send_chunk buf rs data n committedBytes =
     (if n = 0 then Some (BDone, [], committedBytes, rs)
      else do {
        d \<leftarrow> mem_read buf data n;
        (case rs of
           [] \<Rightarrow> Some (BBlocked, [], committedBytes, [])
         | r # rs' \<Rightarrow>
             let status = min (br_status r) (to_int n) in
             if status \<le> 0 \<and> \<not> br_retry r then Some (BFatal, [], committedBytes, rs')
             else if status \<le> 0 \<and> br_write r then Some (BBlocked, [], committedBytes, rs')
             else do {
               c \<leftarrow> int_ck (committedBytes + status);
               c_assert (0 \<le> int data + status);
               (e, sent, c', rs'') \<leftarrow> bio_send_chunk buf rs' (nat (int data + status))
                  (sz_sub n (to_size status)) c;
               Some (e, take (nat status) d @ sent, c', rs'')
             })
      })"

fun bio_send_chunks :: "byte list \<Rightarrow> bio_reply list \<Rightarrow> DataChunk list \<Rightarrow> int \<Rightarrow>
    (bio_exit \<times> byte list \<times> int \<times> bio_reply list) option" where
  "bio_send_chunks buf rs [] committedBytes = Some (BDone, [], committedBytes, rs)"
| "bio_send_chunks buf rs (c # cs) committedBytes = do {
     (e, sent, com, rs') \<leftarrow> bio_send_chunk buf rs (dc_data c) (dc_size c) committedBytes;
     if e \<noteq> BDone then Some (e, sent, com, rs')
     else do {
       (e', sent', com', rs'') \<leftarrow> bio_send_chunks buf rs' cs com;
       Some (e', sent @ sent', com', rs'')
     }
   }"

text \<open>
  \<^verbatim>\<open>transport_bio_buffered_write\<close> with a block of \<^verbatim>\<open>num\<close> bytes, or with \<^verbatim>\<open>NULL\<close> and 0 when it
  only flushes. The result is the return value, the new state, the bytes sent, and the
  replies not used.
\<close>

definition transport_bio_buffered_write ::
    "byte allocator \<Rightarrow> BufferedSocket \<Rightarrow> byte list option \<Rightarrow> bio_reply list \<Rightarrow>
     (int \<times> BufferedSocket \<times> byte list \<times> bio_reply list) option" where
  "transport_bio_buffered_write A bs buf rs = do {
     let num = (case buf of None \<Rightarrow> 0 | Some d \<Rightarrow> length d);
     let bs1 = bs\<lparr>bs_writeBlocked := False, bs_flag_write := False\<rparr>;
     (ok, rb) \<leftarrow>
       (case buf of
          None \<Rightarrow> Some (True, bs_xmitBuffer bs1)
        | Some d \<Rightarrow> if num \<noteq> 0 then ringbuffer_write A (bs_xmitBuffer bs1) d
                    else Some (True, bs_xmitBuffer bs1));
     if \<not> ok then Some (-1, bs1\<lparr>bs_xmitBuffer := rb\<rparr>, [], rs)
     else do {
       let chunks = ringbuffer_peek rb (ringbuffer_used rb);
       (e, sent, com, rs') \<leftarrow> bio_send_chunks (rb_buffer rb) rs chunks 0;
       let bs2 = (case e of
            BDone \<Rightarrow> bs1
          | BFatal \<Rightarrow> bs1\<lparr>bs_flag_retry := False\<rparr>
          | BBlocked \<Rightarrow> bs1\<lparr>bs_flag_write := True, bs_writeBlocked := True\<rparr>);
       rb' \<leftarrow> ringbuffer_commit_read_bytes A rb (to_size com);
       Some (if e = BFatal then -1 else int num, bs2\<lparr>bs_xmitBuffer := rb'\<rparr>, sent, rs')
     }
   }"

text \<open>\<^verbatim>\<open>transport_bio_buffered_read\<close>: the reply of the \<^verbatim>\<open>BIO_read\<close> below decides status and flags.\<close>

definition transport_bio_buffered_read :: "BufferedSocket \<Rightarrow> bio_reply \<Rightarrow> int \<times> BufferedSocket" where
  "transport_bio_buffered_read bs r =
     (let bs1 = bs\<lparr>bs_readBlocked := False, bs_flag_read := False\<rparr> in
      if br_status r \<le> 0 then
        if \<not> br_retry r then (br_status r, bs1\<lparr>bs_flag_retry := False\<rparr>)
        else let bs2 = bs1\<lparr>bs_flag_retry := True\<rparr> in
             if br_read r then (br_status r, bs2\<lparr>bs_flag_read := True, bs_readBlocked := True\<rparr>)
             else (br_status r, bs2)
      else (br_status r, bs1))"

datatype bio_cmd = BioFlush | BioWpending | BioPending | BioReadBlocked | BioWriteBlocked | BioOther

text \<open>\<^verbatim>\<open>transport_bio_buffered_ctrl\<close>; the answer of the BIO below to other commands is the argument \<open>oth\<close>.\<close>

definition transport_bio_buffered_ctrl ::
    "byte allocator \<Rightarrow> BufferedSocket \<Rightarrow> bio_cmd \<Rightarrow> int \<Rightarrow> bio_reply list \<Rightarrow>
     (int \<times> BufferedSocket \<times> byte list \<times> bio_reply list) option" where
  "transport_bio_buffered_ctrl A bs cmd oth rs =
     (case cmd of
        BioFlush \<Rightarrow>
          if ringbuffer_used (bs_xmitBuffer bs) = 0 then Some (1, bs, [], rs)
          else do {
            (r, bs', sent, rs') \<leftarrow> transport_bio_buffered_write A bs None rs;
            Some (if r \<ge> 0 then 1 else -1, bs', sent, rs')
          }
      | BioWpending \<Rightarrow> Some (to_int (ringbuffer_used (bs_xmitBuffer bs)), bs, [], rs)
      | BioPending \<Rightarrow> Some (0, bs, [], rs)
      | BioReadBlocked \<Rightarrow> Some (if bs_readBlocked bs then 1 else 0, bs, [], rs)
      | BioWriteBlocked \<Rightarrow> Some (if bs_writeBlocked bs then 1 else 0, bs, [], rs)
      | BioOther \<Rightarrow> Some (oth, bs, [], rs))"

text \<open>\<^verbatim>\<open>transport_bio_buffered_new\<close>: the structure is zeroed, then the send buffer is initialised.\<close>

definition bs_zero :: BufferedSocket where
  "bs_zero = \<lparr>bs_readBlocked = False, bs_writeBlocked = False,
     bs_xmitBuffer = \<lparr>rb_initialSize = 0, rb_freeSize = 0, rb_size = 0, rb_readPtr = 0,
        rb_writePtr = 0, rb_buffer = []\<rparr>,
     bs_flag_write = False, bs_flag_read = False, bs_flag_retry = True\<rparr>"

definition transport_bio_buffered_new :: "byte allocator \<Rightarrow> int \<times> BufferedSocket" where
  "transport_bio_buffered_new A =
     (let (ok, rb) = ringbuffer_init A (bs_xmitBuffer bs_zero) 0x10000
      in (if ok then 1 else -1, bs_zero\<lparr>bs_xmitBuffer := rb\<rparr>))"

section \<open>The sending loop\<close>

declare bio_send_chunk.simps [simp del]

text \<open>
  The replies a non-blocking socket gives to a write: a failed write is fatal, or asks to be
  repeated when the socket is writable. The loop treats any other negative status as a
  number of bytes.
\<close>

definition bio_sane :: "bio_reply list \<Rightarrow> bool" where
  "bio_sane rs \<longleftrightarrow> (\<forall>r \<in> set rs. br_status r < 0 \<longrightarrow> \<not> br_retry r \<or> br_write r)"

text \<open>What was sent is a prefix \<open>sent\<close> of \<open>d\<close>, and all of it exactly when the loop was not left early.\<close>

definition sent_prefix :: "bio_exit \<Rightarrow> byte list \<Rightarrow> byte list \<Rightarrow> bool" where
  "sent_prefix e sent d \<longleftrightarrow> (\<exists>rest. d = sent @ rest \<and> (e = BDone \<longleftrightarrow> rest = []))"

lemma bio_send_chunk_ok:
  assumes "data + n \<le> length buf" "0 \<le> com" "com + int n < 2 ^ 31" "bio_sane rs"
  shows "\<exists>e sent rs'. bio_send_chunk buf rs data n com = Some (e, sent, com + int (length sent), rs') \<and>
     sent_prefix e sent (take n (drop data buf)) \<and> bio_sane rs'"
  using assms
proof (induction rs arbitrary: data n com)
  case Nil
  then show ?case
    by (subst bio_send_chunk.simps) (auto simp: mem_read_in sent_prefix_def)
next
  case (Cons r rs)
  show ?case
  proof (cases "n = 0")
    case True
    then show ?thesis
      using Cons.prems(4) by (subst bio_send_chunk.simps) (simp add: sent_prefix_def)
  next
    case False
    define st where "st = min (br_status r) (int n)"
    have n: "to_int n = int n" using Cons.prems by (simp add: to_int_small)
    have sane: "bio_sane rs" and neg: "br_status r < 0 \<Longrightarrow> \<not> br_retry r \<or> br_write r"
      using Cons.prems(4) by (auto simp: bio_sane_def)
    let ?d = "take n (drop data buf)"
    have unf: "bio_send_chunk buf (r # rs) data n com =
       (if st \<le> 0 \<and> \<not> br_retry r then Some (BFatal, [], com, rs)
        else if st \<le> 0 \<and> br_write r then Some (BBlocked, [], com, rs)
        else do {
          c \<leftarrow> int_ck (com + st);
          c_assert (0 \<le> int data + st);
          (e, sent, c', rs'') \<leftarrow> bio_send_chunk buf rs (nat (int data + st)) (sz_sub n (to_size st)) c;
          Some (e, take (nat st) ?d @ sent, c', rs'')
        })"
      using False Cons.prems(1) by (subst bio_send_chunk.simps) (simp add: mem_read_in n st_def Let_def)
    show ?thesis
    proof (cases "st \<le> 0 \<and> (\<not> br_retry r \<or> br_write r)")
      case True
      then show ?thesis
        using False Cons.prems(1) sane unfolding unf by (auto simp: sent_prefix_def)
    next
      case go: False
      then have st: "0 \<le> st" "st \<le> int n"
        using neg by (cases "br_status r < 0"; auto simp: st_def min_def split: if_splits)+
      define k where "k = nat st"
      have k: "st = int k" "k \<le> n" using st by (auto simp: k_def)
      have sz: "sz_sub n (to_size (int k)) = n - k"
        using k(2) Cons.prems(2,3) by (simp add: to_size_def SIZE_MOD_def sz_sub_nowrap)
      have ck: "int_ck (com + int k) = Some (com + int k)"
        using k(2) Cons.prems(2,3) by (simp add: int_ck_def INT_LIM_def)
      obtain e sent rs' where rec: "bio_send_chunk buf rs (data + k) (n - k) (com + int k) =
          Some (e, sent, com + int k + int (length sent), rs')"
          "sent_prefix e sent (take (n - k) (drop (data + k) buf))" "bio_sane rs'"
        using Cons.IH [of "data + k" "n - k" "com + int k"] Cons.prems k(2) sane by auto
      have "bio_send_chunk buf (r # rs) data n com =
          Some (e, take k ?d @ sent, com + int k + int (length sent), rs')"
        using go rec(1) unfolding unf k(1)
        by (auto simp: ck sz nat_int_add)
      moreover have "?d = take k ?d @ take (n - k) (drop (data + k) buf)"
        using k(2) by (metis add.commute append_take_drop_id drop_drop drop_take min.absorb1 take_take)
      then have "sent_prefix e (take k ?d @ sent) ?d"
        using rec(2) unfolding sent_prefix_def by (metis append_assoc)
      moreover have "length (take k ?d) = k" using k(2) Cons.prems(1) by simp
      ultimately show ?thesis using rec(3) by simp
    qed
  qed
qed

lemma bio_send_chunks_ok:
  assumes "\<forall>c \<in> set cs. dc_data c + dc_size c \<le> length (rb_buffer rb)"
    and "0 \<le> com" "com + int (length (concat (map (chunk_bytes rb) cs))) < 2 ^ 31" "bio_sane rs"
  shows "\<exists>e sent rs'. bio_send_chunks (rb_buffer rb) rs cs com =
       Some (e, sent, com + int (length sent), rs') \<and>
     sent_prefix e sent (concat (map (chunk_bytes rb) cs)) \<and> bio_sane rs'"
  using assms
proof (induction cs arbitrary: com rs)
  case Nil
  then show ?case by (simp add: sent_prefix_def)
next
  case (Cons c cs)
  have len: "length (chunk_bytes rb c) = dc_size c"
    using Cons.prems(1) by (auto simp: chunk_bytes_def)
  obtain e sent rs1 where one: "bio_send_chunk (rb_buffer rb) rs (dc_data c) (dc_size c) com =
       Some (e, sent, com + int (length sent), rs1)"
      "sent_prefix e sent (chunk_bytes rb c)" "bio_sane rs1"
    using bio_send_chunk_ok [of "dc_data c" "dc_size c" "rb_buffer rb" com rs] Cons.prems len
    by (auto simp: chunk_bytes_def)
  show ?case
  proof (cases "e = BDone")
    case False
    moreover from this one(2) have "sent_prefix e sent (concat (map (chunk_bytes rb) (c # cs)))"
      by (auto simp: sent_prefix_def)
    ultimately show ?thesis using one by simp
  next
    case True
    then have sent: "sent = chunk_bytes rb c"
      using one(2) by (simp add: sent_prefix_def)
    then obtain e' sent' rs2 where two: "bio_send_chunks (rb_buffer rb) rs1 cs (com + int (length sent)) =
         Some (e', sent', com + int (length sent) + int (length sent'), rs2)"
        "sent_prefix e' sent' (concat (map (chunk_bytes rb) cs))" "bio_sane rs2"
      using Cons.IH [of "com + int (length sent)" rs1] Cons.prems one(3) by auto
    moreover have "sent_prefix e' (sent @ sent') (concat (map (chunk_bytes rb) (c # cs)))"
      using two(2) by (auto simp: sent_prefix_def sent)
    ultimately show ?thesis using one(1) True by simp
  qed
qed

text \<open>
  The bytes of one call: whatever is sent, followed by what stays in the buffer, is what the
  buffer held followed by the new bytes. The flag \<^verbatim>\<open>writeBlocked\<close> is set exactly when the call
  ended because the socket would block, and then something is left to send; a call that
  ends normally has emptied the buffer.
\<close>

definition bs_wf :: "BufferedSocket \<Rightarrow> bool" where
  "bs_wf bs \<longleftrightarrow> rb_open (bs_xmitBuffer bs)"

definition bs_pending :: "BufferedSocket \<Rightarrow> byte list" where
  "bs_pending bs = rb_content (bs_xmitBuffer bs)"

lemma bs_flush_ok:
  assumes op: "rb_open rb" and small: "length (rb_content rb) < 2 ^ 31" and sane: "bio_sane rs"
  shows "\<exists>e sent rs' rb'.
     bio_send_chunks (rb_buffer rb) rs (ringbuffer_peek rb (ringbuffer_used rb)) 0
       = Some (e, sent, int (length sent), rs') \<and>
     ringbuffer_commit_read_bytes A rb (to_size (int (length sent))) = Some rb' \<and> rb_open rb' \<and>
     rb_content rb = sent @ rb_content rb' \<and> (e = BDone \<longleftrightarrow> rb_content rb' = []) \<and> bio_sane rs'"
proof -
  have wf: "rb_wf rb" using op by (simp add: rb_open_def)
  have c: "concat (map (chunk_bytes rb) (ringbuffer_peek rb (ringbuffer_used rb))) = rb_content rb"
    using wf by (simp add: ringbuffer_peek_bytes)
  obtain e sent rs' where s: "bio_send_chunks (rb_buffer rb) rs (ringbuffer_peek rb (ringbuffer_used rb)) 0
       = Some (e, sent, int (length sent), rs')" "sent_prefix e sent (rb_content rb)" "bio_sane rs'"
    using bio_send_chunks_ok [of "ringbuffer_peek rb (ringbuffer_used rb)" rb 0 rs]
      ringbuffer_peek_in_block [OF wf] small sane c by auto
  obtain rest where rest: "rb_content rb = sent @ rest" "e = BDone \<longleftrightarrow> rest = []"
    using s(2) by (auto simp: sent_prefix_def)
  have sz: "to_size (int (length sent)) = length sent"
    using small rest(1) by (simp add: to_size_def SIZE_MOD_def)
  obtain rb' where "ringbuffer_commit_read_bytes A rb (length sent) = Some rb'" "rb_open rb'"
      "rb_content rb' = rest"
    using ringbuffer_commit_read_ok [OF wf, of "length sent" A] op rest(1) by auto
  then show ?thesis using s rest sz by auto
qed

lemma transport_bio_buffered_write_ok:
  fixes A :: "byte allocator"
  assumes wf: "bs_wf bs" and small: "length (bs_pending bs) + length d < 2 ^ 31" and sane: "bio_sane rs"
  defines "fits \<equiv> d = [] \<or> rb_write_fits A (bs_xmitBuffer bs) (length d)"
  shows "\<exists>ret bs' sent rs'. transport_bio_buffered_write A bs (Some d) rs = Some (ret, bs', sent, rs') \<and>
     bs_wf bs' \<and> bs_pending bs @ (if fits then d else []) = sent @ bs_pending bs' \<and>
     (ret = int (length d) \<or> ret = -1) \<and> (\<not> fits \<longrightarrow> ret = -1 \<and> sent = []) \<and>
     (bs_writeBlocked bs' \<longrightarrow> ret = int (length d) \<and> bs_pending bs' \<noteq> []) \<and>
     (ret = int (length d) \<and> \<not> bs_writeBlocked bs' \<longrightarrow> bs_pending bs' = []) \<and> bio_sane rs' \<and>
     (fits \<and> ret = -1 \<longrightarrow> \<not> bs_flag_retry bs')"
proof -
  have op: "rb_open (bs_xmitBuffer bs)" using wf by (simp add: bs_wf_def)
  have bm: "length d < BLOCK_MAX" using small by (simp add: BLOCK_MAX_def)
  define bs1 where "bs1 = bs\<lparr>bs_writeBlocked := False, bs_flag_write := False\<rparr>"
  obtain rb where rb: "(if length d \<noteq> 0 then ringbuffer_write A (bs_xmitBuffer bs) d
        else Some (True, bs_xmitBuffer bs)) = Some (fits, rb)"
      "rb_open rb" "rb_content rb = bs_pending bs @ (if fits then d else [])"
    using ringbuffer_write_ok [OF op bm, of A] ringbuffer_write_fail [OF op bm, of A] op
    by (cases "rb_write_fits A (bs_xmitBuffer bs) (length d)"; cases "d = []")
       (auto simp: fits_def bs_pending_def)
  show ?thesis
  proof (cases fits)
    case False
    then have "transport_bio_buffered_write A bs (Some d) rs =
        Some (-1, bs1\<lparr>bs_xmitBuffer := rb\<rparr>, [], rs)"
      using rb(1) by (cases "d = []") (simp_all add: transport_bio_buffered_write_def Let_def bs1_def)
    then show ?thesis
      using False rb sane by (simp add: bs_wf_def bs_pending_def bs1_def)
  next
    case True
    have "length (rb_content rb) < 2 ^ 31" using rb(3) small True by simp
    from bs_flush_ok [OF rb(2) this sane, of A] obtain e sent rs' rb' where
      fl: "bio_send_chunks (rb_buffer rb) rs (ringbuffer_peek rb (ringbuffer_used rb)) 0
         = Some (e, sent, int (length sent), rs')"
        "ringbuffer_commit_read_bytes A rb (to_size (int (length sent))) = Some rb'" "rb_open rb'"
        "rb_content rb = sent @ rb_content rb'" "e = BDone \<longleftrightarrow> rb_content rb' = []" "bio_sane rs'"
      by blast
    let ?bs2 = "case e of BDone \<Rightarrow> bs1 | BFatal \<Rightarrow> bs1\<lparr>bs_flag_retry := False\<rparr>
        | BBlocked \<Rightarrow> bs1\<lparr>bs_flag_write := True, bs_writeBlocked := True\<rparr>"
    have "transport_bio_buffered_write A bs (Some d) rs =
        Some (if e = BFatal then -1 else int (length d), ?bs2\<lparr>bs_xmitBuffer := rb'\<rparr>, sent, rs')"
      using rb(1) fl(1,2) True
      by (cases "d = []"; cases e) (simp_all add: transport_bio_buffered_write_def Let_def bs1_def)
    then show ?thesis
      using fl(3-6) rb(3) True
      by (cases e) (simp_all add: bs_wf_def bs_pending_def bs1_def)
  qed
qed

text \<open>A flush of the buffer.\<close>

lemma transport_bio_buffered_flush_ok:
  assumes wf: "bs_wf bs" and small: "length (bs_pending bs) < 2 ^ 31" and sane: "bio_sane rs"
  shows "\<exists>ret bs' sent rs'. transport_bio_buffered_write A bs None rs = Some (ret, bs', sent, rs') \<and>
     bs_wf bs' \<and> bs_pending bs = sent @ bs_pending bs' \<and> bio_sane rs'"
proof -
  have "rb_open (bs_xmitBuffer bs)" "length (rb_content (bs_xmitBuffer bs)) < 2 ^ 31"
    using wf small by (simp_all add: bs_wf_def bs_pending_def)
  from bs_flush_ok [OF this sane, of A] show ?thesis
    by (fastforce simp: transport_bio_buffered_write_def bs_wf_def bs_pending_def Let_def split: bio_exit.splits)
qed

section \<open>Properties\<close>


definition bs_sample :: BufferedSocket where
  "bs_sample = bs_zero\<lparr>bs_xmitBuffer := rb_sample\<rparr>"


text \<open>
  A reply that is neither positive nor fatal nor a request to wait until the socket is
  writable (a TLS layer that first wants to read, for one) is taken for a byte count: the
  negative status enters the number of committed bytes, and the call ends in the failed
  assertion of \<^verbatim>\<open>ringbuffer_commit_read_bytes\<close>.
\<close>

theorem buffered_write_negative_status:
  "transport_bio_buffered_write ample bs_sample (Some [1])
     [\<lparr>br_status = -1, br_retry = True, br_write = False, br_read = True\<rparr>] = None"
  by (simp add: transport_bio_buffered_write_def bs_sample_def bs_zero_def rb_sample_def ringbuffer_write_def
      ringbuffer_put_def ringbuffer_peek_def ringbuffer_used_def bio_send_chunk.simps mem_read_def mem_write_def
      ringbuffer_commit_read_bytes_def sz_add_def sz_sub_def sz_mod_def SIZE_MOD_def to_int_def to_size_def
      int_ck_def INT_LIM_def c_assert_def Let_def)

end
