(* ===== verification/Streams.thy ===== *)
theory Streams
  imports Prelude
begin

unbundle bit_operations_syntax

text \<open>
  The byte streams of WinPR (\<^verbatim>\<open>winpr/include/winpr/stream.h\<close>, \<^verbatim>\<open>winpr/libwinpr/utils/stream.c\<close>),
  on which every parser and every encoder of the protocol works. The pointer of a stream is
  its offset in the buffer. The macros do not check their accesses: a read or write outside
  the buffer is undefined.

  \<open>parses\<close> and \<open>emits\<close> relate a reader and a writer to the bytes they consume and produce,
  and compose along the code; the locale \<open>wire_codec\<close> is the contract of a matching pair.
\<close>

type_synonym u64 = "64 word"

record wStream =
  st_buffer :: "byte list"
  st_pointer :: nat
  st_length :: nat
  st_capacity :: nat
  st_count :: nat

text \<open>
  A reader of the code returns \<^verbatim>\<open>TRUE\<close> with its result (\<open>Some v\<close>) or \<^verbatim>\<open>FALSE\<close> (\<open>None\<close>), and
  the stream, whose position it may have moved in both cases.
\<close>

type_synonym 'a reader = "wStream \<Rightarrow> ('a option \<times> wStream) option"
type_synonym writer = "wStream \<Rightarrow> wStream option"

section \<open>Positions\<close>

definition Stream_GetPosition :: "wStream \<Rightarrow> nat" where
  "Stream_GetPosition s = st_pointer s"

definition Stream_GetRemainingLength :: "wStream \<Rightarrow> nat" where
  "Stream_GetRemainingLength s = sz_sub (st_length s) (st_pointer s)"

text \<open>Moving the pointer outside the buffer (one past its end excepted) is undefined.\<close>

definition Stream_Seek :: "wStream \<Rightarrow> int \<Rightarrow> wStream option" where
  "Stream_Seek s off =
     (if 0 \<le> int (st_pointer s) + off \<and> int (st_pointer s) + off \<le> int (length (st_buffer s))
      then Some (s\<lparr>st_pointer := nat (int (st_pointer s) + off)\<rparr>) else None)"

definition Stream_Rewind :: "wStream \<Rightarrow> int \<Rightarrow> wStream option" where
  "Stream_Rewind s off = Stream_Seek s (- off)"

definition Stream_SetPosition :: "wStream \<Rightarrow> nat \<Rightarrow> wStream option" where
  "Stream_SetPosition s p =
     (if p \<le> length (st_buffer s) then Some (s\<lparr>st_pointer := p\<rparr>) else None)"

definition Stream_SealLength :: "wStream \<Rightarrow> wStream" where
  "Stream_SealLength s = s\<lparr>st_length := st_pointer s\<rparr>"

definition Stream_SafeSeek :: "wStream \<Rightarrow> nat \<Rightarrow> (bool \<times> wStream) option" where
  "Stream_SafeSeek s n =
     (if Stream_GetRemainingLength s < n then Some (False, s)
      else do { s' \<leftarrow> Stream_Seek s (int n); Some (True, s') })"

section \<open>Reading\<close>

text \<open>The flag says whether the pointer advances (\<^verbatim>\<open>Stream_Read_...\<close>) or not (\<^verbatim>\<open>Stream_Peek_...\<close>).\<close>

definition stream_adv :: "bool \<Rightarrow> nat \<Rightarrow> wStream \<Rightarrow> wStream" where
  "stream_adv p n s = (if p then s\<lparr>st_pointer := st_pointer s + n\<rparr> else s)"

definition stream_at :: "wStream \<Rightarrow> nat \<Rightarrow> byte option" where
  "stream_at s i = arr_get (st_buffer s) (st_pointer s + i)"

definition stream_read_n8 :: "bool \<Rightarrow> wStream \<Rightarrow> (byte \<times> wStream) option" where
  "stream_read_n8 p s = do { b \<leftarrow> stream_at s 0; Some (b, stream_adv p 1 s) }"

definition stream_read_n16_le :: "bool \<Rightarrow> wStream \<Rightarrow> (u16 \<times> wStream) option" where
  "stream_read_n16_le p s = do {
     b0 \<leftarrow> stream_at s 0; b1 \<leftarrow> stream_at s 1;
     Some (ucast b0 + push_bit 8 (ucast b1), stream_adv p 2 s) }"

definition stream_read_n16_be :: "bool \<Rightarrow> wStream \<Rightarrow> (u16 \<times> wStream) option" where
  "stream_read_n16_be p s = do {
     b0 \<leftarrow> stream_at s 0; b1 \<leftarrow> stream_at s 1;
     Some (push_bit 8 (ucast b0) + ucast b1, stream_adv p 2 s) }"

definition stream_read_n32_le :: "bool \<Rightarrow> wStream \<Rightarrow> (u32 \<times> wStream) option" where
  "stream_read_n32_le p s = do {
     b0 \<leftarrow> stream_at s 0; b1 \<leftarrow> stream_at s 1; b2 \<leftarrow> stream_at s 2; b3 \<leftarrow> stream_at s 3;
     Some (ucast b0 + push_bit 8 (ucast b1) + push_bit 16 (ucast b2) + push_bit 24 (ucast b3),
           stream_adv p 4 s) }"

definition stream_read_n32_be :: "bool \<Rightarrow> wStream \<Rightarrow> (u32 \<times> wStream) option" where
  "stream_read_n32_be p s = do {
     b0 \<leftarrow> stream_at s 0; b1 \<leftarrow> stream_at s 1; b2 \<leftarrow> stream_at s 2; b3 \<leftarrow> stream_at s 3;
     Some (push_bit 24 (ucast b0) + push_bit 16 (ucast b1) + push_bit 8 (ucast b2) + ucast b3,
           stream_adv p 4 s) }"

definition stream_read_n64_le :: "bool \<Rightarrow> wStream \<Rightarrow> (u64 \<times> wStream) option" where
  "stream_read_n64_le p s = do {
     b0 \<leftarrow> stream_at s 0; b1 \<leftarrow> stream_at s 1; b2 \<leftarrow> stream_at s 2; b3 \<leftarrow> stream_at s 3;
     b4 \<leftarrow> stream_at s 4; b5 \<leftarrow> stream_at s 5; b6 \<leftarrow> stream_at s 6; b7 \<leftarrow> stream_at s 7;
     Some (ucast b0 + push_bit 8 (ucast b1) + push_bit 16 (ucast b2) + push_bit 24 (ucast b3) +
           push_bit 32 (ucast b4) + push_bit 40 (ucast b5) + push_bit 48 (ucast b6) + push_bit 56 (ucast b7),
           stream_adv p 8 s) }"

definition stream_read_n64_be :: "bool \<Rightarrow> wStream \<Rightarrow> (u64 \<times> wStream) option" where
  "stream_read_n64_be p s = do {
     b0 \<leftarrow> stream_at s 0; b1 \<leftarrow> stream_at s 1; b2 \<leftarrow> stream_at s 2; b3 \<leftarrow> stream_at s 3;
     b4 \<leftarrow> stream_at s 4; b5 \<leftarrow> stream_at s 5; b6 \<leftarrow> stream_at s 6; b7 \<leftarrow> stream_at s 7;
     Some (push_bit 56 (ucast b0) + push_bit 48 (ucast b1) + push_bit 40 (ucast b2) + push_bit 32 (ucast b3) +
           push_bit 24 (ucast b4) + push_bit 16 (ucast b5) + push_bit 8 (ucast b6) + ucast b7,
           stream_adv p 8 s) }"

abbreviation Stream_Read_UINT8 :: "wStream \<Rightarrow> (byte \<times> wStream) option" where
  "Stream_Read_UINT8 \<equiv> stream_read_n8 True"
abbreviation Stream_Peek_UINT8 :: "wStream \<Rightarrow> (byte \<times> wStream) option" where
  "Stream_Peek_UINT8 \<equiv> stream_read_n8 False"
abbreviation Stream_Read_UINT16 :: "wStream \<Rightarrow> (u16 \<times> wStream) option" where
  "Stream_Read_UINT16 \<equiv> stream_read_n16_le True"
abbreviation Stream_Read_UINT16_BE :: "wStream \<Rightarrow> (u16 \<times> wStream) option" where
  "Stream_Read_UINT16_BE \<equiv> stream_read_n16_be True"
abbreviation Stream_Read_UINT32 :: "wStream \<Rightarrow> (u32 \<times> wStream) option" where
  "Stream_Read_UINT32 \<equiv> stream_read_n32_le True"
abbreviation Stream_Read_UINT32_BE :: "wStream \<Rightarrow> (u32 \<times> wStream) option" where
  "Stream_Read_UINT32_BE \<equiv> stream_read_n32_be True"
abbreviation Stream_Read_UINT64 :: "wStream \<Rightarrow> (u64 \<times> wStream) option" where
  "Stream_Read_UINT64 \<equiv> stream_read_n64_le True"

definition Stream_Read :: "wStream \<Rightarrow> nat \<Rightarrow> (byte list \<times> wStream) option" where
  "Stream_Read s n = do {
     d \<leftarrow> mem_read (st_buffer s) (st_pointer s) n;
     Some (d, s\<lparr>st_pointer := st_pointer s + n\<rparr>) }"

section \<open>Writing\<close>

text \<open>\<^verbatim>\<open>*_s->pointer++ = b\<close>\<close>

definition stream_put :: "byte \<Rightarrow> writer" where
  "stream_put b s = do {
     buf \<leftarrow> arr_set (st_buffer s) (st_pointer s) b;
     Some (s\<lparr>st_buffer := buf, st_pointer := st_pointer s + 1\<rparr>) }"

definition Stream_Write_UINT8 :: "byte \<Rightarrow> writer" where
  "Stream_Write_UINT8 v s = stream_put v s"

definition Stream_Write_UINT16 :: "u16 \<Rightarrow> writer" where
  "Stream_Write_UINT16 v s = do {
     s \<leftarrow> stream_put (ucast (v AND 0xFF)) s;
     stream_put (ucast (drop_bit 8 v AND 0xFF)) s }"

definition Stream_Write_UINT16_BE :: "u16 \<Rightarrow> writer" where
  "Stream_Write_UINT16_BE v s = do {
     s \<leftarrow> stream_put (ucast (drop_bit 8 v AND 0xFF)) s;
     stream_put (ucast (v AND 0xFF)) s }"

definition Stream_Write_UINT32 :: "u32 \<Rightarrow> writer" where
  "Stream_Write_UINT32 v s = do {
     s \<leftarrow> stream_put (ucast (v AND 0xFF)) s;
     s \<leftarrow> stream_put (ucast (drop_bit 8 v AND 0xFF)) s;
     s \<leftarrow> stream_put (ucast (drop_bit 16 v AND 0xFF)) s;
     stream_put (ucast (drop_bit 24 v AND 0xFF)) s }"

definition Stream_Write_UINT32_BE :: "u32 \<Rightarrow> writer" where
  "Stream_Write_UINT32_BE v s = do {
     s \<leftarrow> Stream_Write_UINT16_BE (ucast (drop_bit 16 v AND 0xFFFF)) s;
     Stream_Write_UINT16_BE (ucast (v AND 0xFFFF)) s }"

definition Stream_Write_UINT64 :: "u64 \<Rightarrow> writer" where
  "Stream_Write_UINT64 v s = do {
     s \<leftarrow> stream_put (ucast (v AND 0xFF)) s;
     s \<leftarrow> stream_put (ucast (drop_bit 8 v AND 0xFF)) s;
     s \<leftarrow> stream_put (ucast (drop_bit 16 v AND 0xFF)) s;
     s \<leftarrow> stream_put (ucast (drop_bit 24 v AND 0xFF)) s;
     s \<leftarrow> stream_put (ucast (drop_bit 32 v AND 0xFF)) s;
     s \<leftarrow> stream_put (ucast (drop_bit 40 v AND 0xFF)) s;
     s \<leftarrow> stream_put (ucast (drop_bit 48 v AND 0xFF)) s;
     stream_put (ucast (drop_bit 56 v AND 0xFF)) s }"

definition Stream_Write :: "byte list \<Rightarrow> writer" where
  "Stream_Write d s = do {
     buf \<leftarrow> mem_write (st_buffer s) (st_pointer s) d;
     Some (s\<lparr>st_buffer := buf, st_pointer := st_pointer s + length d\<rparr>) }"

definition Stream_Fill :: "byte \<Rightarrow> nat \<Rightarrow> writer" where
  "Stream_Fill v n s = Stream_Write (replicate n v) s"

definition Stream_Zero :: "nat \<Rightarrow> writer" where
  "Stream_Zero n s = Stream_Fill 0 n s"

definition Stream_Copy :: "wStream \<Rightarrow> wStream \<Rightarrow> nat \<Rightarrow> (wStream \<times> wStream) option" where
  "Stream_Copy dst src n = do {
     (d, src') \<leftarrow> Stream_Read src n;
     dst' \<leftarrow> Stream_Write d dst;
     Some (dst', src') }"

section \<open>Allocation\<close>

text \<open>
  The doubling loop of \<^verbatim>\<open>Stream_EnsureCapacity\<close>. It may run forever (from a capacity of 0,
  for one), which the value \<open>None\<close> stands for.
\<close>

partial_function (option) stream_double :: "nat \<Rightarrow> nat \<Rightarrow> nat option" where
  "stream_double new_capacity n =
     (let c = sz_mul new_capacity 2 in if c < n then stream_double c n else Some c)"

definition Stream_EnsureCapacity :: "byte allocator \<Rightarrow> wStream \<Rightarrow> nat \<Rightarrow> (bool \<times> wStream) option" where
  "Stream_EnsureCapacity A s n =
     (if st_capacity s < n then do {
        let old_capacity = st_capacity s;
        new_capacity \<leftarrow> stream_double old_capacity n;
        let position = Stream_GetPosition s;
        (case mem_realloc A (st_buffer s) new_capacity of
           None \<Rightarrow> Some (False, s)
         | Some new_buf \<Rightarrow> do {
             buf \<leftarrow> mem_write new_buf old_capacity (replicate (sz_sub new_capacity old_capacity) 0);
             s' \<leftarrow> Stream_SetPosition
               (s\<lparr>st_buffer := buf, st_capacity := new_capacity, st_length := new_capacity\<rparr>) position;
             Some (True, s')
           })
      } else Some (True, s))"

definition Stream_EnsureRemainingCapacity :: "byte allocator \<Rightarrow> wStream \<Rightarrow> nat \<Rightarrow> (bool \<times> wStream) option" where
  "Stream_EnsureRemainingCapacity A s n =
     (if sz_add (Stream_GetPosition s) n > st_capacity s
      then Stream_EnsureCapacity A s (sz_add (st_capacity s) n)
      else Some (True, s))"

text \<open>
  \<^verbatim>\<open>Stream_New\<close> with a caller's block or with \<^verbatim>\<open>NULL\<close>. The flag says whether the allocation of
  the structure itself succeeds.
\<close>

definition Stream_New :: "byte allocator \<Rightarrow> bool \<Rightarrow> byte list option \<Rightarrow> nat \<Rightarrow> wStream option" where
  "Stream_New A struct_ok buffer n =
     (if buffer = None \<and> n = 0 then None
      else if \<not> struct_ok then None
      else (case (case buffer of Some b \<Rightarrow> Some b | None \<Rightarrow> mem_alloc A n) of
              None \<Rightarrow> None
            | Some b \<Rightarrow> Some \<lparr>st_buffer = b, st_pointer = 0, st_length = n, st_capacity = n, st_count = 0\<rparr>))"

section \<open>Well-formed streams and what is left to read\<close>

definition stream_wf :: "wStream \<Rightarrow> bool" where
  "stream_wf s \<longleftrightarrow> st_capacity s = length (st_buffer s) \<and> st_length s \<le> st_capacity s \<and>
     st_pointer s \<le> st_length s \<and> st_capacity s < BLOCK_MAX"

definition st_rest :: "wStream \<Rightarrow> byte list" where
  "st_rest s = drop (st_pointer s) (take (st_length s) (st_buffer s))"

definition stream_skip :: "nat \<Rightarrow> wStream \<Rightarrow> wStream" where
  "stream_skip n s = s\<lparr>st_pointer := st_pointer s + n\<rparr>"

definition stream_emit :: "byte list \<Rightarrow> wStream \<Rightarrow> wStream" where
  "stream_emit d s = s\<lparr>st_buffer := take (st_pointer s) (st_buffer s) @ d @
       drop (st_pointer s + length d) (st_buffer s),
     st_pointer := st_pointer s + length d\<rparr>"

text \<open>
  Some readers compare the bytes left as a signed number and so work only when these are
  fewer than \<open>lim\<close>.
\<close>

definition parses :: "nat \<Rightarrow> 'a reader \<Rightarrow> byte list \<Rightarrow> 'a \<Rightarrow> bool" where
  "parses lim r bs v \<longleftrightarrow> (\<forall>s tl. stream_wf s \<longrightarrow> length (st_rest s) < lim \<longrightarrow> st_rest s = bs @ tl \<longrightarrow>
     r s = Some (Some v, stream_skip (length bs) s))"

definition emits :: "writer \<Rightarrow> byte list \<Rightarrow> bool" where
  "emits w bs \<longleftrightarrow> (\<forall>s. stream_wf s \<longrightarrow> length bs \<le> length (st_rest s) \<longrightarrow>
     w s = Some (stream_emit bs s))"

text \<open>
  A safe reader has no undefined behaviour on any stream, and leaves a well-formed stream
  with the same contents and a position between the old one and the end.
\<close>

definition stream_advanced :: "wStream \<Rightarrow> wStream \<Rightarrow> bool" where
  "stream_advanced s s' \<longleftrightarrow> stream_wf s' \<and> (\<exists>n. s' = stream_skip n s)"

definition safe_reader :: "'a reader \<Rightarrow> bool" where
  "safe_reader r \<longleftrightarrow> (\<forall>s. stream_wf s \<longrightarrow> (\<exists>v s'. r s = Some (v, s') \<and> stream_advanced s s'))"

text \<open>\<^verbatim>\<open>if (!read(s, &v)) return FALSE;\<close> followed by the rest of the function.\<close>

definition try_read :: "'a reader \<Rightarrow> ('a \<Rightarrow> 'b reader) \<Rightarrow> 'b reader" where
  "try_read r k s = do { (v, s) \<leftarrow> r s; (case v of None \<Rightarrow> Some (None, s) | Some v \<Rightarrow> k v s) }"

section \<open>Bytes of words\<close>

text \<open>The bytes of a word on the wire: byte \<open>i\<close> is bits \<open>8 i\<close> to \<open>8 i + 7\<close>.\<close>

definition word_byte :: "nat \<Rightarrow> 'a::len word \<Rightarrow> byte" where
  "word_byte i v = ucast (drop_bit (8 * i) v)"

definition le_bytes :: "nat \<Rightarrow> 'a::len word \<Rightarrow> byte list" where
  "le_bytes n v = map (\<lambda>i. word_byte i v) [0..<n]"

definition be_bytes :: "nat \<Rightarrow> 'a::len word \<Rightarrow> byte list" where
  "be_bytes n v = rev (le_bytes n v)"

text \<open>The numbers at the front of a byte sequence.\<close>

definition be16 :: "byte list \<Rightarrow> u16" where
  "be16 bs = push_bit 8 (ucast (bs ! 0)) + ucast (bs ! 1)"

definition le16 :: "byte list \<Rightarrow> u16" where
  "le16 bs = ucast (bs ! 0) + push_bit 8 (ucast (bs ! 1))"

definition be32 :: "byte list \<Rightarrow> u32" where
  "be32 bs = push_bit 24 (ucast (bs ! 0)) + push_bit 16 (ucast (bs ! 1)) + push_bit 8 (ucast (bs ! 2)) + ucast (bs ! 3)"

definition le32 :: "byte list \<Rightarrow> u32" where
  "le32 bs = ucast (bs ! 0) + push_bit 8 (ucast (bs ! 1)) + push_bit 16 (ucast (bs ! 2)) + push_bit 24 (ucast (bs ! 3))"

lemma length_le_bytes [simp]: "length (le_bytes n v) = n"
  by (simp add: le_bytes_def)

lemma length_be_bytes [simp]: "length (be_bytes n v) = n"
  by (simp add: be_bytes_def)

lemma unat_byte_less: "unat (b::byte) < 256"
  using unsigned_less [of b] by simp

lemma ucast_and_255: "(ucast (v AND 0xFF :: 'a::len word) :: byte) = ucast v" if "8 \<le> LENGTH('a)"
proof -
  have m: "(0xFF :: 'a word) = mask 8" by (simp add: mask_eq_exp_minus_1)
  show ?thesis
    unfolding m using that by (intro bit_word_eqI) (auto simp: bit_simps)
qed

lemma unat_word_byte: "unat (word_byte i v) = unat v div 256 ^ i mod 256"
proof -
  have self: "take_bit LENGTH('a) (unat v) = unat v" for v :: "'a::len word"
    by (simp add: take_bit_nat_eq_self)
  have "unat (word_byte i v) = take_bit 8 (drop_bit (8 * i) (unat v))"
    unfolding word_byte_def by (simp only: unsigned_ucast_eq unsigned_drop_bit_eq self) simp
  then show ?thesis
    by (simp add: take_bit_eq_mod drop_bit_eq_div power_mult)
qed

lemma nat_bytes2:
  assumes "n < 65536"
  shows "n mod 256 + 256 * (n div 256 mod 256) = (n::nat)"
proof -
  have "n div 256 < 256" using assms by simp
  then show ?thesis by simp
qed

lemma nat_bytes4:
  assumes "n < 4294967296"
  shows "n mod 256 + 256 * (n div 256 mod 256) + 65536 * (n div 65536 mod 256) +
           16777216 * (n div 16777216 mod 256) = (n::nat)"
proof -
  define q1 q2 q3 where "q1 = n div 256" and "q2 = q1 div 256" and "q3 = q2 div 256"
  define r0 r1 r2 where "r0 = n mod 256" and "r1 = q1 mod 256" and "r2 = q2 mod 256"
  have eqs: "n = q1 * 256 + r0" "q1 = q2 * 256 + r1" "q2 = q3 * 256 + r2"
    by (simp_all add: q1_def q2_def q3_def r0_def r1_def r2_def)
  have q: "n div 65536 = q2" "n div 16777216 = q3" "n div 256 = q1" "q3 mod 256 = q3"
    using assms by (simp_all add: q1_def q2_def q3_def flip: div_mult2_eq)
  show ?thesis
    unfolding q r0_def [symmetric] r1_def [symmetric] r2_def [symmetric] using eqs by linarith
qed

lemmas unat_bytes_simps =
  push_bit_eq_mult unat_word_ariths unsigned_ucast_eq take_bit_eq_mod

lemma word16_be: "push_bit 8 (ucast (word_byte 1 v)) + ucast (word_byte 0 v) = (v :: u16)"
proof -
  have "unat v < 65536" using unsigned_less [of v] by simp
  then have "unat (push_bit 8 (ucast (word_byte 1 v)) + ucast (word_byte 0 v) :: u16) = unat v"
    using nat_bytes2 [of "unat v"] unat_byte_less [of "word_byte 1 v"] unat_byte_less [of "word_byte 0 v"]
    by (simp add: unat_bytes_simps unat_word_byte)
  then show ?thesis by (simp add: word_unat_eq_iff)
qed

lemma word16_le: "ucast (word_byte 0 v) + push_bit 8 (ucast (word_byte 1 v)) = (v :: u16)"
  using word16_be [of v] by (simp add: add.commute)

lemma word32_le:
  "ucast (word_byte 0 v) + push_bit 8 (ucast (word_byte 1 v)) + push_bit 16 (ucast (word_byte 2 v)) +
     push_bit 24 (ucast (word_byte 3 v)) = (v :: u32)"
proof -
  have "unat v < 4294967296" using unsigned_less [of v] by simp
  then have "unat (ucast (word_byte 0 v) + push_bit 8 (ucast (word_byte 1 v)) +
      push_bit 16 (ucast (word_byte 2 v)) + push_bit 24 (ucast (word_byte 3 v)) :: u32) = unat v"
    using nat_bytes4 [of "unat v"]
    by (simp add: unat_bytes_simps unat_word_byte)
  then show ?thesis by (simp add: word_unat_eq_iff)
qed

lemma word32_be:
  "push_bit 24 (ucast (word_byte 3 v)) + push_bit 16 (ucast (word_byte 2 v)) +
     push_bit 8 (ucast (word_byte 1 v)) + ucast (word_byte 0 v) = (v :: u32)"
  using word32_le [of v] by (simp add: ac_simps)

lemma bit_word_unat: "bit (w :: 'a::len word) n \<longleftrightarrow> bit (unat w) n"
  by (simp add: bit_unsigned_iff)

lemma unat_ucast_mod: "unat (ucast (w :: 'a::len word) :: 'b::len word) = unat w mod 2 ^ LENGTH('b)"
  by (simp only: unsigned_ucast_eq take_bit_eq_mod)

lemma byte_high_bit: "(b :: byte) AND 0x80 \<noteq> 0 \<longleftrightarrow> 128 \<le> unat b"
proof -
  have "b AND 0x80 \<noteq> 0 \<longleftrightarrow> bit b 7"
    using and_exp_eq_0_iff_not_bit [of b 7] by simp
  also have "\<dots> \<longleftrightarrow> odd (unat b div 128)"
    unfolding bit_word_unat [of b] by (simp only: bit_iff_odd) simp
  also have "unat b div 128 = (if 128 \<le> unat b then 1 else 0)"
    using unat_byte_less [of b] by (auto intro: div_nat_eqI)
  also have "odd (if 128 \<le> unat b then 1 else 0 :: nat) \<longleftrightarrow> 128 \<le> unat b"
    by simp
  finally show ?thesis .
qed

lemma ucast_u32:
  "unat (i :: u32) < 256 \<Longrightarrow> ucast (ucast i :: byte) = i"
  "unat i < 65536 \<Longrightarrow> ucast (ucast i :: u16) = i"
  by (simp_all add: word_unat_eq_iff unat_ucast_mod)

lemma to_int_fits:
  assumes "to_int n \<ge> l" "0 \<le> l"
  shows "nat l \<le> n"
proof -
  have "int n mod 2 ^ 32 \<le> int n" by (simp add: zmod_le_nonneg_dividend)
  moreover have "int n mod 2 ^ 32 < 2 ^ 32" by simp
  ultimately have "l \<le> int n"
    using assms by (simp add: to_int_def Let_def split: if_splits)
  then show ?thesis by simp
qed

lemma to_int_below: "int n < INT_LIM \<Longrightarrow> to_int n = int n"
  by (simp add: to_int_def INT_LIM_def Let_def)

section \<open>Lemmas on positions\<close>

named_theorems stream_simps
  \<open>reading and writing at the front of what is left\<close>

lemma length_st_rest: "stream_wf s \<Longrightarrow> length (st_rest s) = st_length s - st_pointer s"
  by (simp add: stream_wf_def st_rest_def)

lemma remaining_rest [stream_simps]: "stream_wf s \<Longrightarrow> Stream_GetRemainingLength s = length (st_rest s)"
  by (auto simp: Stream_GetRemainingLength_def length_st_rest stream_wf_def intro!: sz_sub_nowrap)

lemma rest_less_BLOCK_MAX: "stream_wf s \<Longrightarrow> length (st_rest s) < BLOCK_MAX"
  by (auto simp: length_st_rest stream_wf_def)

lemma stream_at_rest [stream_simps]:
  "stream_wf s \<Longrightarrow> i < length (st_rest s) \<Longrightarrow> stream_at s i = Some (st_rest s ! i)"
  by (auto simp: stream_at_def arr_get_def stream_wf_def st_rest_def)

lemma take_st_rest:
  assumes "stream_wf s" "n \<le> length (st_rest s)"
  shows "take n (drop (st_pointer s) (st_buffer s)) = take n (st_rest s)"
    "st_pointer s + n \<le> length (st_buffer s)"
  using assms length_st_rest [OF assms(1)]
  by (auto simp: st_rest_def drop_take stream_wf_def min_absorb1)

lemma stream_skip_0 [simp]: "stream_skip 0 s = s"
  by (simp add: stream_skip_def)

lemma stream_skip_skip [simp]: "stream_skip m (stream_skip n s) = stream_skip (n + m) s"
  by (simp add: stream_skip_def add.assoc)

lemma stream_adv_simps [simp]: "stream_adv True n s = stream_skip n s" "stream_adv False n s = s"
  by (simp_all add: stream_adv_def stream_skip_def)

lemma st_rest_skip [simp]: "st_rest (stream_skip n s) = drop n (st_rest s)"
  by (simp add: st_rest_def stream_skip_def add.commute)

lemma stream_wf_skip [intro, stream_simps]:
  "stream_wf s \<Longrightarrow> n \<le> length (st_rest s) \<Longrightarrow> stream_wf (stream_skip n s)"
  by (frule length_st_rest) (auto simp: stream_wf_def stream_skip_def)

lemma st_buffer_skip [simp]: "st_buffer (stream_skip n s) = st_buffer s"
  by (simp add: stream_skip_def)

lemma st_pointer_skip [simp]: "st_pointer (stream_skip n s) = st_pointer s + n"
  by (simp add: stream_skip_def)

lemma Stream_Seek_skip [stream_simps]:
  "stream_wf s \<Longrightarrow> n \<le> length (st_rest s) \<Longrightarrow> Stream_Seek s (int n) = Some (stream_skip n s)"
  by (auto simp: Stream_Seek_def stream_skip_def stream_wf_def length_st_rest nat_add_distrib)

lemma Stream_SafeSeek_eq [stream_simps]:
  "stream_wf s \<Longrightarrow> Stream_SafeSeek s n =
     Some (n \<le> length (st_rest s), stream_skip (if n \<le> length (st_rest s) then n else 0) s)"
  by (simp add: Stream_SafeSeek_def remaining_rest Stream_Seek_skip)

lemma Stream_Rewind_skip [stream_simps]:
  "stream_wf s \<Longrightarrow> n \<le> m \<Longrightarrow> m \<le> length (st_rest s) \<Longrightarrow>
   Stream_Rewind (stream_skip m s) (int n) = Some (stream_skip (m - n) s)"
  by (auto simp: Stream_Rewind_def Stream_Seek_def stream_skip_def stream_wf_def length_st_rest)

section \<open>Reading the front of a stream\<close>

lemma read_n8 [stream_simps]:
  "stream_wf s \<Longrightarrow> st_rest s \<noteq> [] \<Longrightarrow>
   stream_read_n8 p s = Some (hd (st_rest s), stream_adv p 1 s)"
  by (simp add: stream_read_n8_def stream_at_rest hd_conv_nth)

lemma read_n16_be [stream_simps]:
  "stream_wf s \<Longrightarrow> 2 \<le> length (st_rest s) \<Longrightarrow>
   stream_read_n16_be p s = Some (be16 (st_rest s), stream_adv p 2 s)"
  using stream_at_rest [of s 0] stream_at_rest [of s 1]
  by (simp add: stream_read_n16_be_def be16_def del: length_greater_0_conv)

lemma read_n16_le [stream_simps]:
  "stream_wf s \<Longrightarrow> 2 \<le> length (st_rest s) \<Longrightarrow>
   stream_read_n16_le p s = Some (le16 (st_rest s), stream_adv p 2 s)"
  using stream_at_rest [of s 0] stream_at_rest [of s 1]
  by (simp add: stream_read_n16_le_def le16_def del: length_greater_0_conv)

lemma read_n32_be [stream_simps]:
  "stream_wf s \<Longrightarrow> 4 \<le> length (st_rest s) \<Longrightarrow>
   stream_read_n32_be p s = Some (be32 (st_rest s), stream_adv p 4 s)"
  using stream_at_rest [of s 0] stream_at_rest [of s 1] stream_at_rest [of s 2] stream_at_rest [of s 3]
  by (simp add: stream_read_n32_be_def be32_def del: length_greater_0_conv)

lemma read_n32_le [stream_simps]:
  "stream_wf s \<Longrightarrow> 4 \<le> length (st_rest s) \<Longrightarrow>
   stream_read_n32_le p s = Some (le32 (st_rest s), stream_adv p 4 s)"
  using stream_at_rest [of s 0] stream_at_rest [of s 1] stream_at_rest [of s 2] stream_at_rest [of s 3]
  by (simp add: stream_read_n32_le_def le32_def del: length_greater_0_conv)

lemma stream_wf_skip_Cons [stream_simps]:
  "stream_wf s \<Longrightarrow> st_rest s = b # bs \<Longrightarrow> stream_wf (stream_skip (Suc 0) s)"
  by (auto intro: stream_wf_skip)

lemma Stream_Seek_int [stream_simps]:
  "stream_wf s \<Longrightarrow> 0 \<le> l \<Longrightarrow> nat l \<le> length (st_rest s) \<Longrightarrow> Stream_Seek s l = Some (stream_skip (nat l) s)"
  using Stream_Seek_skip [of s "nat l"] by simp

section \<open>Readers as pure decoders\<close>

text \<open>
  A reader implements a decoder \<open>dec\<close> on the bytes that are left: it returns the value of the
  decoder and moves by the number of bytes the decoder says. A reader that implements a
  decoder is safe, and parses every encoding that the decoder accepts.
\<close>

definition decodes :: "'a reader \<Rightarrow> (byte list \<Rightarrow> 'a option \<times> nat) \<Rightarrow> bool" where
  "decodes r dec \<longleftrightarrow> (\<forall>s. stream_wf s \<longrightarrow> snd (dec (st_rest s)) \<le> length (st_rest s) \<and>
     r s = Some (fst (dec (st_rest s)), stream_skip (snd (dec (st_rest s))) s))"

lemma decodesI:
  assumes "\<And>s. stream_wf s \<Longrightarrow> snd (dec (st_rest s)) \<le> length (st_rest s)"
    and "\<And>s. stream_wf s \<Longrightarrow> r s = Some (fst (dec (st_rest s)), stream_skip (snd (dec (st_rest s))) s)"
  shows "decodes r dec"
  using assms by (simp add: decodes_def)

lemma decodesD:
  assumes "decodes r dec" "stream_wf s"
  shows "snd (dec (st_rest s)) \<le> length (st_rest s)"
    "r s = Some (fst (dec (st_rest s)), stream_skip (snd (dec (st_rest s))) s)"
    "stream_wf (stream_skip (snd (dec (st_rest s))) s)"
  using assms by (auto simp: decodes_def)

lemma decodes_safe: "decodes r dec \<Longrightarrow> safe_reader r"
  unfolding safe_reader_def stream_advanced_def by (metis decodesD(2,3))

lemma decodes_parses:
  assumes "decodes r dec" "\<And>tl. length (bs @ tl) < lim \<Longrightarrow> dec (bs @ tl) = (Some v, length bs)"
  shows "parses lim r bs v"
  using assms by (auto simp: parses_def decodes_def)

text \<open>Decoders compose the way the readers do.\<close>

definition d_then :: "(byte list \<Rightarrow> 'a option \<times> nat) \<Rightarrow> ('a \<Rightarrow> byte list \<Rightarrow> 'b option \<times> nat) \<Rightarrow>
    byte list \<Rightarrow> 'b option \<times> nat" where
  "d_then d f bs = (case d bs of (None, n) \<Rightarrow> (None, n)
     | (Some v, n) \<Rightarrow> (let (x, m) = f v (drop n bs) in (x, n + m)))"

lemma decodes_try_read_on:
  assumes r: "decodes r d" and k: "\<And>v bs n. d bs = (Some v, n) \<Longrightarrow> decodes (k v) (f v)"
  shows "decodes (try_read r k) (d_then d f)"
proof (rule decodesI)
  fix s assume s: "stream_wf s"
  note R = decodesD [OF r s]
  obtain v n where d: "d (st_rest s) = (v, n)" by fastforce
  show "snd (d_then d f (st_rest s)) \<le> length (st_rest s)"
  proof (cases v)
    case (Some w)
    then show ?thesis using R decodesD(1) [OF k R(3), of "st_rest s" w n] d
      by (simp add: d_then_def case_prod_unfold Let_def)
  qed (use R d in \<open>simp add: d_then_def\<close>)
  show "try_read r k s = Some (fst (d_then d f (st_rest s)), stream_skip (snd (d_then d f (st_rest s))) s)"
  proof (cases v)
    case (Some w)
    then show ?thesis using R decodesD(2) [OF k R(3)] d
      by (simp add: try_read_def d_then_def case_prod_unfold Let_def)
  qed (use R d in \<open>simp add: try_read_def d_then_def\<close>)
qed

lemma decodes_try_read:
  assumes "decodes r d" "\<And>v. decodes (k v) (f v)"
  shows "decodes (try_read r k) (d_then d f)"
  using assms by (rule decodes_try_read_on)

section \<open>Writers\<close>

lemma stream_wf_emit [intro]:
  "stream_wf s \<Longrightarrow> length d \<le> length (st_rest s) \<Longrightarrow> stream_wf (stream_emit d s)"
  by (auto simp: stream_emit_def stream_wf_def length_st_rest)

lemma st_rest_emit [simp]:
  "stream_wf s \<Longrightarrow> length d \<le> length (st_rest s) \<Longrightarrow> st_rest (stream_emit d s) = drop (length d) (st_rest s)"
  by (auto simp: stream_emit_def st_rest_def stream_wf_def drop_take add.commute)

lemma stream_emit_Nil [simp]: "stream_emit [] s = s"
  by (simp add: stream_emit_def)

lemma stream_emit_emit [simp]:
  assumes "stream_wf s" "length d + length e \<le> length (st_rest s)"
  shows "stream_emit e (stream_emit d s) = stream_emit (d @ e) s"
  using assms by (auto simp: stream_emit_def stream_wf_def length_st_rest ac_simps)

lemma st_pointer_emit [simp]: "st_pointer (stream_emit d s) = st_pointer s + length d"
  by (simp add: stream_emit_def)

text \<open>What was written is what is read after going back.\<close>

lemma stream_emit_rewound:
  assumes "stream_wf s" "length d \<le> length (st_rest s)"
  shows "st_rest ((stream_emit d s)\<lparr>st_pointer := st_pointer s\<rparr>) = d @ drop (length d) (st_rest s)"
    and "stream_wf ((stream_emit d s)\<lparr>st_pointer := st_pointer s\<rparr>)"
    and "stream_skip (length d) ((stream_emit d s)\<lparr>st_pointer := st_pointer s\<rparr>) = stream_emit d s"
proof -
  have b: "st_pointer s + length d \<le> st_length s" "st_length s \<le> length (st_buffer s)"
    using assms by (auto simp: length_st_rest stream_wf_def)
  show "st_rest ((stream_emit d s)\<lparr>st_pointer := st_pointer s\<rparr>) = d @ drop (length d) (st_rest s)"
    using b by (simp add: stream_emit_def st_rest_def drop_take min_absorb1 add.commute)
  show "stream_wf ((stream_emit d s)\<lparr>st_pointer := st_pointer s\<rparr>)"
    using assms(1) b by (simp add: stream_wf_def stream_emit_def)
  show "stream_skip (length d) ((stream_emit d s)\<lparr>st_pointer := st_pointer s\<rparr>) = stream_emit d s"
    by (simp add: stream_skip_def stream_emit_def)
qed

lemma emitsI: "(\<And>s. stream_wf s \<Longrightarrow> length bs \<le> length (st_rest s) \<Longrightarrow> w s = Some (stream_emit bs s)) \<Longrightarrow> emits w bs"
  by (simp add: emits_def)

lemma emitsD: "emits w bs \<Longrightarrow> stream_wf s \<Longrightarrow> length bs \<le> length (st_rest s) \<Longrightarrow> w s = Some (stream_emit bs s)"
  by (simp add: emits_def)

lemma emits_bind:
  assumes "emits w1 a" "emits w2 b" "\<And>s. w s = w1 s \<bind> w2"
  shows "emits w (a @ b)"
  using assms by (auto intro!: emitsI simp: emitsD stream_wf_emit)

lemma emits_Some: "(\<And>s. w s = Some s) \<Longrightarrow> emits w []"
  by (auto intro: emitsI)

lemma emits_cong: "emits w bs \<Longrightarrow> bs = cs \<Longrightarrow> emits w cs"
  by simp

lemma emits_put: "emits (stream_put b) [b]"
proof (rule emitsI)
  fix s assume "stream_wf s" "length [b] \<le> length (st_rest s)"
  then have "st_pointer s < length (st_buffer s)"
    by (auto simp: stream_wf_def length_st_rest)
  then show "stream_put b s = Some (stream_emit [b] s)"
    by (simp add: stream_put_def stream_emit_def arr_set_def upd_conv_take_nth_drop)
qed

lemma emits_Write: "emits (Stream_Write d) d"
proof (rule emitsI)
  fix s assume "stream_wf s" "length d \<le> length (st_rest s)"
  then have "st_pointer s + length d \<le> length (st_buffer s)"
    by (auto simp: stream_wf_def length_st_rest)
  then show "Stream_Write d s = Some (stream_emit d s)"
    by (simp add: Stream_Write_def stream_emit_def mem_write_in)
qed

lemma emits_UINT8: "emits (Stream_Write_UINT8 v) [v]"
  using emits_put [of v] by (simp add: emits_def Stream_Write_UINT8_def)

lemma be_bytes_simps:
  "be_bytes (Suc 0) v = [word_byte 0 v]" "be_bytes 2 v = [word_byte 1 v, word_byte 0 v]"
  "be_bytes 4 v = [word_byte 3 v, word_byte 2 v, word_byte 1 v, word_byte 0 v]"
  by (simp_all add: be_bytes_def le_bytes_def upt_rec numeral_eq_Suc)

lemma le_bytes_simps:
  "le_bytes 2 v = [word_byte 0 v, word_byte 1 v]"
  "le_bytes 4 v = [word_byte 0 v, word_byte 1 v, word_byte 2 v, word_byte 3 v]"
  by (simp_all add: le_bytes_def upt_rec numeral_eq_Suc)

lemma word_byte_and:
  "ucast (v AND 0xFF :: 'a::len word) = word_byte 0 v" if "8 \<le> LENGTH('a)"
  using ucast_and_255 [OF that, of v] by (simp add: word_byte_def)

lemma word_byte_drop:
  "word_byte 0 (drop_bit 8 v) = word_byte 1 v"
  "word_byte 0 (drop_bit 16 v) = word_byte 2 v"
  "word_byte 0 (drop_bit 24 v) = word_byte 3 v"
  by (simp_all add: word_byte_def)

lemma emits_UINT16_BE: "emits (Stream_Write_UINT16_BE v) (be_bytes 2 v)"
  unfolding be_bytes_simps
  by (rule emits_cong [OF emits_bind [OF emits_put emits_put]])
     (simp_all add: Stream_Write_UINT16_BE_def word_byte_and word_byte_drop)

lemma emits_UINT16: "emits (Stream_Write_UINT16 v) (le_bytes 2 v)"
  unfolding le_bytes_simps
  by (rule emits_cong [OF emits_bind [OF emits_put emits_put]])
     (simp_all add: Stream_Write_UINT16_def word_byte_and word_byte_drop)

lemma word_byte_half:
  "word_byte 0 (ucast (w AND 0xFFFF :: u32) :: u16) = word_byte 0 w"
  "word_byte 1 (ucast (w AND 0xFFFF :: u32) :: u16) = word_byte 1 w"
  "word_byte 0 (drop_bit 16 w) = word_byte 2 w" "word_byte 1 (drop_bit 16 w) = word_byte 3 w"
proof -
  have m: "(0xFFFF :: u32) = mask 16" by (simp add: mask_eq_exp_minus_1)
  show "word_byte 0 (ucast (w AND 0xFFFF :: u32) :: u16) = word_byte 0 w"
    "word_byte 1 (ucast (w AND 0xFFFF :: u32) :: u16) = word_byte 1 w"
    unfolding m word_byte_def by (auto intro!: bit_word_eqI simp: bit_simps)
  show "word_byte 0 (drop_bit 16 w) = word_byte 2 w" "word_byte 1 (drop_bit 16 w) = word_byte 3 w"
    by (simp_all add: word_byte_def)
qed

lemma emits_UINT32_BE: "emits (Stream_Write_UINT32_BE v) (be_bytes 4 v)"
  unfolding be_bytes_simps
  by (rule emits_cong [OF emits_bind [OF emits_UINT16_BE emits_UINT16_BE]], rule Stream_Write_UINT32_BE_def)
     (simp add: be_bytes_simps word_byte_half del: One_nat_def)

lemma emits_UINT32: "emits (Stream_Write_UINT32 v) (le_bytes 4 v)"
  unfolding le_bytes_simps
  by (rule emits_cong [OF emits_bind [OF emits_put emits_bind
        [OF emits_put emits_bind [OF emits_put emits_put refl] refl]]])
     (simp_all add: Stream_Write_UINT32_def word_byte_and word_byte_drop)

lemma emits_Zero: "emits (Stream_Zero n) (replicate n 0)"
  using emits_Write by (simp add: emits_def Stream_Zero_def Stream_Fill_def)

text \<open>The value of the first bytes of a stream, as the big and little endian readers see it.\<close>

lemma be16_bytes [stream_simps]: "be16 (be_bytes 2 v @ ts) = v"
  using word16_be [of v] by (simp add: be_bytes_simps be16_def)

lemma le16_bytes [stream_simps]: "le16 (le_bytes 2 v @ ts) = v"
  using word16_le [of v] by (simp add: le_bytes_simps le16_def)

lemma be32_bytes [stream_simps]: "be32 (be_bytes 4 v @ ts) = v"
  using word32_be [of v] by (simp add: be_bytes_simps be32_def)

lemma le32_bytes [stream_simps]: "le32 (le_bytes 4 v @ ts) = v"
  using word32_le [of v] by (simp add: le_bytes_simps le32_def)

lemma be16_be_bytes [simp]: "be16 (be_bytes 2 v @ ts) = v" "be16 (be_bytes 2 v) = v"
  using be16_bytes [of v ts] be16_bytes [of v "[]"] by simp_all

lemma Stream_Read_rest [stream_simps]:
  "stream_wf s \<Longrightarrow> n \<le> length (st_rest s) \<Longrightarrow>
   Stream_Read s n = Some (take n (st_rest s), stream_skip n s)"
  by (frule length_st_rest)
     (auto simp: Stream_Read_def mem_read_def stream_skip_def st_rest_def stream_wf_def drop_take min_def)

section \<open>Matching writers and readers\<close>

fun write_all :: "('a \<Rightarrow> writer) \<Rightarrow> 'a list \<Rightarrow> writer" where
  "write_all w [] s = Some s"
| "write_all w (v # vs) s = w v s \<bind> write_all w vs"

fun read_n :: "'a reader \<Rightarrow> nat \<Rightarrow> 'a list reader" where
  "read_n r 0 s = Some (Some [], s)"
| "read_n r (Suc n) s = do {
     (v, s) \<leftarrow> r s;
     (case v of None \<Rightarrow> Some (None, s)
      | Some v \<Rightarrow> do { (vs, s) \<leftarrow> read_n r n s; Some (map_option ((#) v) vs, s) }) }"

lemma emits_write_all:
  assumes "\<And>v. v \<in> set vs \<Longrightarrow> emits (w v) (enc v)"
  shows "emits (write_all w vs) (concat (map enc vs))"
  using assms
  by (induction vs) (auto intro!: emits_Some emits_bind [of "w _" _ "write_all w _"])

lemma parses_read_n:
  assumes "\<And>v. v \<in> set vs \<Longrightarrow> parses lim r (enc v) v"
  shows "parses lim (read_n r (length vs)) (concat (map enc vs)) vs"
  using assms
proof (induction vs)
  case Nil
  then show ?case by (simp add: parses_def)
next
  case (Cons v vs)
  have IH: "parses lim (read_n r (length vs)) (concat (map enc vs)) vs" using Cons by simp
  show ?case unfolding parses_def
  proof (intro allI impI)
    fix s tl assume s: "stream_wf s" "length (st_rest s) < lim" "st_rest s = concat (map enc (v # vs)) @ tl"
    have r: "r s = Some (Some v, stream_skip (length (enc v)) s)"
      using Cons.prems [of v] s by (simp add: parses_def)
    have "read_n r (length vs) (stream_skip (length (enc v)) s) =
        Some (Some vs, stream_skip (length (concat (map enc vs))) (stream_skip (length (enc v)) s))"
      using IH s unfolding parses_def by (intro IH [unfolded parses_def, rule_format, of _ tl]) auto
    then show "read_n r (length (v # vs)) s = Some (Some (v # vs), stream_skip (length (concat (map enc (v # vs)))) s)"
      by (simp add: r)
  qed
qed

lemma emits_parses:
  assumes "emits w bs" "parses lim r bs v" "stream_wf s" "length bs \<le> length (st_rest s)"
    "length (st_rest s) < lim"
  shows "\<exists>s'. w s = Some s' \<and> stream_wf s' \<and> st_pointer s' = st_pointer s + length bs \<and>
           r (s'\<lparr>st_pointer := st_pointer s\<rparr>) = Some (Some v, s')"
  using assms stream_emit_rewound [OF assms(3,4)]
  by (intro exI [of _ "stream_emit bs s"]) (auto simp: emitsD parses_def)

definition stream_of :: "byte list \<Rightarrow> wStream" where
  "stream_of d = \<lparr>st_buffer = d, st_pointer = 0, st_length = length d, st_capacity = length d, st_count = 0\<rparr>"

lemma stream_of_simps [simp]:
  "st_rest (stream_of d) = d" "stream_wf (stream_of d) \<longleftrightarrow> length d < BLOCK_MAX"
  by (simp_all add: stream_of_def st_rest_def stream_wf_def)

text \<open>
  The contract of a writer and its reader: on every valid value the writer emits an encoding
  and the reader parses it, wherever it stands in a stream.
\<close>

locale wire_codec =
  fixes w :: "'a \<Rightarrow> writer" and r :: "'a reader" and enc :: "'a \<Rightarrow> byte list" and valid :: "'a \<Rightarrow> bool"
    and lim :: nat
  assumes writes: "valid v \<Longrightarrow> emits (w v) (enc v)"
    and reads: "valid v \<Longrightarrow> parses lim r (enc v) v"
begin

lemma roundtrip:
  assumes "valid v" "stream_wf s" "length (enc v) \<le> length (st_rest s)" "length (st_rest s) < lim"
  shows "\<exists>s'. w v s = Some s' \<and> stream_wf s' \<and> st_pointer s' = st_pointer s + length (enc v) \<and>
           r (s'\<lparr>st_pointer := st_pointer s\<rparr>) = Some (Some v, s')"
  using emits_parses [OF writes reads] assms by blast

lemma roundtrip_list:
  assumes "\<forall>v \<in> set vs. valid v" "stream_wf s" "length (concat (map enc vs)) \<le> length (st_rest s)"
    "length (st_rest s) < lim"
  shows "\<exists>s'. write_all w vs s = Some s' \<and> stream_wf s' \<and>
           st_pointer s' = st_pointer s + length (concat (map enc vs)) \<and>
           read_n r (length vs) (s'\<lparr>st_pointer := st_pointer s\<rparr>) = Some (Some vs, s')"
  using assms emits_write_all [of vs w enc] parses_read_n [of vs lim r enc]
  by (intro emits_parses) (auto intro: writes reads)

text \<open>No encoding is a prefix of another one.\<close>

lemma prefix_free:
  assumes "valid u" "valid v" "enc u @ t = enc v @ t'" "length (enc u @ t) < BLOCK_MAX" "length (enc u @ t) < lim"
  shows "u = v \<and> t = t'"
proof -
  let ?s = "stream_of (enc u @ t)"
  have "r ?s = Some (Some u, stream_skip (length (enc u)) ?s)"
    "r ?s = Some (Some v, stream_skip (length (enc v)) ?s)"
    using reads [OF assms(1), unfolded parses_def, rule_format, of ?s t]
      reads [OF assms(2), unfolded parses_def, rule_format, of ?s t'] assms(3-5)
    by simp_all
  then have "u = v" by simp
  then show ?thesis using assms(3) by simp
qed

end

section \<open>Growing a stream\<close>

lemma stream_double_terminates:
  assumes "0 < c" "n \<le> BLOCK_MAX" "c < n"
  shows "\<exists>k. 0 < k \<and> stream_double c n = Some (c * 2 ^ k) \<and> n \<le> c * 2 ^ k \<and> c * 2 ^ k < 2 * n"
  using assms
proof (induction "n - c" arbitrary: c rule: less_induct)
  case less
  have d: "sz_mul c 2 = 2 * c" using less.prems by (simp add: sz_mul_def SIZE_MOD_def BLOCK_MAX_def)
  show ?case
  proof (cases "2 * c < n")
    case True
    have "n - 2 * c < n - c" using less.prems by linarith
    with True obtain k where "0 < k" "stream_double (2 * c) n = Some (2 * c * 2 ^ k)" "n \<le> 2 * c * 2 ^ k"
        "2 * c * 2 ^ k < 2 * n"
      using less.hyps [of "2 * c"] less.prems by auto
    then show ?thesis
      by (intro exI [of _ "Suc k"]) (use True in \<open>simp add: stream_double.simps [of c] d ac_simps\<close>)
  next
    case False
    then show ?thesis using less.prems
      by (intro exI [of _ 1]) (simp add: stream_double.simps [of c] d)
  qed
qed

text \<open>From 0 no round makes progress: every bounded number of rounds ends without a result.\<close>

lemma stream_double_0:
  assumes "0 < n"
  shows "stream_double 0 n = None"
proof -
  have "c \<noteq> 0 \<or> m = 0" if "stream_double c m = Some r" for c m r
    by (rule stream_double.raw_induct [where P = "\<lambda>c m r. c \<noteq> 0 \<or> m = 0", OF _ that])
       (fastforce simp: Let_def sz_mul_def split: if_splits)
  then show ?thesis using assms by (cases "stream_double 0 n") auto
qed

text \<open>
  Growing keeps the bytes and the position. It sets the length to the new capacity also when
  the stream had been sealed at a shorter one.
\<close>

definition stream_grown :: "wStream \<Rightarrow> nat \<Rightarrow> wStream \<Rightarrow> bool" where
  "stream_grown s n s' \<longleftrightarrow> stream_wf s' \<and> st_pointer s' = st_pointer s \<and> n \<le> st_capacity s' \<and>
     st_length s' = st_capacity s' \<and>
     st_buffer s' = st_buffer s @ replicate (st_capacity s' - st_capacity s) 0"

lemma Stream_EnsureCapacity_ok:
  assumes "st_capacity s = length (st_buffer s)" "st_pointer s \<le> st_capacity s"
    and "0 < st_capacity s" "st_capacity s < n" "n \<le> BLOCK_MAX"
  shows "\<exists>k. let c = st_capacity s * 2 ^ k in n \<le> c \<and>
     (if al_ok A c \<and> c < BLOCK_MAX
      then \<exists>s'. Stream_EnsureCapacity A s n = Some (True, s') \<and> st_capacity s' = c \<and> stream_grown s n s'
      else Stream_EnsureCapacity A s n = Some (False, s))"
proof -
  obtain k where k: "stream_double (st_capacity s) n = Some (st_capacity s * 2 ^ k)" "n \<le> st_capacity s * 2 ^ k"
    using stream_double_terminates [of "st_capacity s" n] assms by auto
  define c where "c = st_capacity s * 2 ^ k"
  note wf = assms(1,2)
  have "\<exists>s'. Stream_EnsureCapacity A s n = Some (True, s') \<and> st_capacity s' = c \<and> stream_grown s n s'"
    if a: "al_ok A c" "c < BLOCK_MAX"
  proof -
    have le: "st_capacity s \<le> c" using k(2) assms(4) by (simp add: c_def)
    obtain nb where nb: "mem_realloc A (st_buffer s) c = Some nb" "length nb = c" "take (st_capacity s) nb = st_buffer s"
      using a le wf(1) by (auto simp: mem_realloc_def)
    have sub: "sz_sub c (st_capacity s) = c - st_capacity s"
      using le a(2) by (auto intro!: sz_sub_nowrap)
    have mw: "mem_write nb (st_capacity s) (replicate (c - st_capacity s) 0) =
        Some (st_buffer s @ replicate (c - st_capacity s) 0)"
      using nb le by (simp add: mem_write_in)
    define s' where "s' = s\<lparr>st_buffer := st_buffer s @ replicate (c - st_capacity s) 0,
      st_capacity := c, st_length := c\<rparr>"
    have "Stream_EnsureCapacity A s n = Some (True, s')"
      using wf(2) nb(1) sub mw k(1) [folded c_def] assms(4) wf(1) [symmetric]
      by (simp add: Stream_EnsureCapacity_def Stream_SetPosition_def Stream_GetPosition_def s'_def)
    moreover have "stream_grown s n s'"
      using wf le a k(2) [folded c_def] by (simp add: stream_grown_def stream_wf_def s'_def)
    ultimately show ?thesis by (auto simp: s'_def)
  qed
  moreover have "Stream_EnsureCapacity A s n = Some (False, s)" if "\<not> (al_ok A c \<and> c < BLOCK_MAX)"
    using that by (auto simp: Stream_EnsureCapacity_def k c_def [symmetric] assms(4) mem_realloc_def)
  ultimately show ?thesis using k(2) by (intro exI [of _ k]) (simp add: Let_def c_def)
qed

section \<open>Properties\<close>

text \<open>
  C25: \<^verbatim>\<open>Stream_EnsureCapacity\<close> on a stream of positive capacity ends, doubles the capacity until
  it reaches the size asked for, and keeps every byte and the position, with the new bytes
  zero; when the allocator refuses it returns \<^verbatim>\<open>FALSE\<close> and the stream is unchanged.
\<close>

theorem Stream_EnsureCapacity_grows:
  fixes A :: "byte allocator"
  assumes "stream_wf s" "0 < st_capacity s" "st_capacity s < n" "n \<le> BLOCK_MAX"
  shows "\<exists>ok s'. Stream_EnsureCapacity A s n = Some (ok, s') \<and>
     (if ok then stream_grown s n s' \<and> (\<exists>k. st_capacity s' = st_capacity s * 2 ^ k)
      else s' = s \<and> (\<exists>k. n \<le> st_capacity s * 2 ^ k \<and> \<not> (al_ok A (st_capacity s * 2 ^ k) \<and> st_capacity s * 2 ^ k < BLOCK_MAX)))"
proof -
  obtain k where k: "n \<le> st_capacity s * 2 ^ k"
    "if al_ok A (st_capacity s * 2 ^ k) \<and> st_capacity s * 2 ^ k < BLOCK_MAX
     then \<exists>s'. Stream_EnsureCapacity A s n = Some (True, s') \<and> st_capacity s' = st_capacity s * 2 ^ k \<and> stream_grown s n s'
     else Stream_EnsureCapacity A s n = Some (False, s)"
    using Stream_EnsureCapacity_ok [OF _ _ assms(2-4), of A] assms(1) by (auto simp: Let_def stream_wf_def)
  show ?thesis
  proof (cases "al_ok A (st_capacity s * 2 ^ k) \<and> st_capacity s * 2 ^ k < BLOCK_MAX")
    case True
    then show ?thesis using k(2) by auto
  next
    case False
    then show ?thesis using k by (intro exI [of _ False] exI [of _ s]) auto
  qed
qed

theorem Stream_EnsureCapacity_grows_witness:
  "\<exists>ok s'. Stream_EnsureCapacity ample (stream_of [1, 2]) 7 = Some (ok, s') \<and>
     (if ok then stream_grown (stream_of [1, 2]) 7 s' \<and> (\<exists>k. st_capacity s' = st_capacity (stream_of [1, 2]) * 2 ^ k)
      else s' = stream_of [1, 2] \<and> (\<exists>k. 7 \<le> st_capacity (stream_of [1, 2]) * 2 ^ k \<and>
        \<not> (al_ok (ample :: byte allocator) (st_capacity (stream_of [1, 2]) * 2 ^ k) \<and>
           st_capacity (stream_of [1, 2]) * 2 ^ k < BLOCK_MAX)))"
  by (rule Stream_EnsureCapacity_grows) (simp_all add: BLOCK_MAX_def, simp_all add: stream_of_def)

text \<open>
  On a stream of capacity 0 the doubling loop of \<^verbatim>\<open>Stream_EnsureCapacity\<close> never ends.
\<close>

theorem Stream_EnsureCapacity_diverges:
  assumes "st_capacity s = 0" "0 < n"
  shows "Stream_EnsureCapacity A s n = None"
  using assms by (simp add: Stream_EnsureCapacity_def stream_double_0)

theorem Stream_EnsureCapacity_diverges_witness: "Stream_EnsureCapacity ample (stream_of []) 5 = None"
  by (rule Stream_EnsureCapacity_diverges) (simp_all add: stream_of_def)

end
