(* ===== verification/Per.thy ===== *)
theory Per
  imports Streams "HOL-Library.Signed_Division"
begin

text \<open>
  The packed encoding rules of \<^verbatim>\<open>libfreerdp/crypto/per.c\<close>, as the GCC and MCS layers use
  them. Every reader is shown to implement a decoder on the bytes that are left, on every
  branch; every writer to emit an encoding; and the pairs that match are interpreted as
  \<open>wire_codec\<close>. A C \<^verbatim>\<open>int\<close> argument is an \<^typ>\<open>int\<close>, and arithmetic on it that overflows is undefined.
\<close>

section \<open>Operations\<close>

definition per_read_length :: "u16 reader" where
  "per_read_length s =
     (if Stream_GetRemainingLength s < 1 then Some (None, s)
      else do {
        (b, s) \<leftarrow> Stream_Read_UINT8 s;
        if b AND 0x80 \<noteq> 0
        then (if Stream_GetRemainingLength s < 1 then Some (None, s)
              else do {
                let len = push_bit 8 (ucast (b AND NOT 0x80));
                (b, s) \<leftarrow> Stream_Read_UINT8 s;
                Some (Some (len + ucast b), s) })
        else Some (Some (ucast b), s) })"

definition per_write_length :: "int \<Rightarrow> writer" where
  "per_write_length len s =
     (if len > 0x7F then Stream_Write_UINT16_BE (word_of_int len OR 0x8000) s
      else Stream_Write_UINT8 (word_of_int len) s)"

definition per_read_choice :: "byte reader" where
  "per_read_choice s =
     (if Stream_GetRemainingLength s < 1 then Some (None, s)
      else do { (b, s) \<leftarrow> Stream_Read_UINT8 s; Some (Some b, s) })"

definition per_write_choice :: "byte \<Rightarrow> writer" where
  "per_write_choice choice s = Stream_Write_UINT8 choice s"

definition per_read_selection :: "byte reader" where
  "per_read_selection s =
     (if Stream_GetRemainingLength s < 1 then Some (None, s)
      else do { (b, s) \<leftarrow> Stream_Read_UINT8 s; Some (Some b, s) })"

definition per_write_selection :: "byte \<Rightarrow> writer" where
  "per_write_selection selection s = Stream_Write_UINT8 selection s"

definition per_read_number_of_sets :: "byte reader" where
  "per_read_number_of_sets s =
     (if Stream_GetRemainingLength s < 1 then Some (None, s)
      else do { (b, s) \<leftarrow> Stream_Read_UINT8 s; Some (Some b, s) })"

definition per_write_number_of_sets :: "byte \<Rightarrow> writer" where
  "per_write_number_of_sets number s = Stream_Write_UINT8 number s"

definition per_read_padding :: "int \<Rightarrow> unit reader" where
  "per_read_padding len s =
     (if to_int (Stream_GetRemainingLength s) < len then Some (None, s)
      else do { s \<leftarrow> Stream_Seek s len; Some (Some (), s) })"

fun write_zeros :: "nat \<Rightarrow> writer" where
  "write_zeros 0 s = Some s"
| "write_zeros (Suc n) s = Stream_Write_UINT8 0 s \<bind> write_zeros n"

definition per_write_padding :: "int \<Rightarrow> writer" where
  "per_write_padding len s = write_zeros (nat len) s"

definition per_read_integer :: "u32 reader" where
  "per_read_integer = try_read per_read_length (\<lambda>len s.
     if Stream_GetRemainingLength s < unat len then Some (None, s)
     else if len = 0 then Some (Some 0, s)
     else if len = 1 then do { (b, s) \<leftarrow> Stream_Read_UINT8 s; Some (Some (ucast b), s) }
     else if len = 2 then do { (v, s) \<leftarrow> Stream_Read_UINT16_BE s; Some (Some (ucast v), s) }
     else Some (None, s))"

definition per_write_integer :: "u32 \<Rightarrow> writer" where
  "per_write_integer i s =
     (if i \<le> 0xFF then do { s \<leftarrow> per_write_length 1 s; Stream_Write_UINT8 (ucast i) s }
      else if i \<le> 0xFFFF then do { s \<leftarrow> per_write_length 2 s; Stream_Write_UINT16_BE (ucast i) s }
      else if i \<le> 0xFFFFFFFF then do { s \<leftarrow> per_write_length 4 s; Stream_Write_UINT32_BE i s }
      else Some s)"

definition per_read_integer16 :: "u16 \<Rightarrow> u16 reader" where
  "per_read_integer16 mn s =
     (if Stream_GetRemainingLength s < 2 then Some (None, s)
      else do {
        (i, s) \<leftarrow> Stream_Read_UINT16_BE s;
        if unat i + unat mn > 0xFFFF then Some (None, s)
        else Some (Some (i + mn), s) })"

definition per_write_integer16 :: "u16 \<Rightarrow> u16 \<Rightarrow> writer" where
  "per_write_integer16 mn i s = Stream_Write_UINT16_BE (i - mn) s"

definition per_read_enumerated :: "byte \<Rightarrow> byte reader" where
  "per_read_enumerated cnt s =
     (if Stream_GetRemainingLength s < 1 then Some (None, s)
      else do {
        (e, s) \<leftarrow> Stream_Read_UINT8 s;
        if unat e + 1 > unat cnt then Some (None, s) else Some (Some e, s) })"

definition per_write_enumerated :: "byte \<Rightarrow> byte \<Rightarrow> writer" where
  "per_write_enumerated cnt e s = Stream_Write_UINT8 e s"

text \<open>The object identifiers are arrays of six bytes.\<close>

definition per_read_object_identifier :: "byte list \<Rightarrow> unit reader" where
  "per_read_object_identifier oid = try_read per_read_length (\<lambda>len s.
     if len \<noteq> 5 then Some (None, s)
     else if Stream_GetRemainingLength s < unat len then Some (None, s)
     else do {
       (t12, s) \<leftarrow> Stream_Read_UINT8 s;
       let a0 = drop_bit 4 t12;
       let a1 = t12 AND 0x0F;
       (a2, s) \<leftarrow> Stream_Read_UINT8 s;
       (a3, s) \<leftarrow> Stream_Read_UINT8 s;
       (a4, s) \<leftarrow> Stream_Read_UINT8 s;
       (a5, s) \<leftarrow> Stream_Read_UINT8 s;
       o0 \<leftarrow> arr_get oid 0; o1 \<leftarrow> arr_get oid 1; o2 \<leftarrow> arr_get oid 2;
       o3 \<leftarrow> arr_get oid 3; o4 \<leftarrow> arr_get oid 4; o5 \<leftarrow> arr_get oid 5;
       if a0 = o0 \<and> a1 = o1 \<and> a2 = o2 \<and> a3 = o3 \<and> a4 = o4 \<and> a5 = o5
       then Some (Some (), s) else Some (None, s) })"

definition per_write_object_identifier :: "byte list \<Rightarrow> writer" where
  "per_write_object_identifier oid s = do {
     o0 \<leftarrow> arr_get oid 0; o1 \<leftarrow> arr_get oid 1; o2 \<leftarrow> arr_get oid 2;
     o3 \<leftarrow> arr_get oid 3; o4 \<leftarrow> arr_get oid 4; o5 \<leftarrow> arr_get oid 5;
     let t12 = push_bit 4 o0 AND (o1 AND 0x0F);
     s \<leftarrow> Stream_Write_UINT8 5 s;
     s \<leftarrow> Stream_Write_UINT8 t12 s;
     s \<leftarrow> Stream_Write_UINT8 o2 s;
     s \<leftarrow> Stream_Write_UINT8 o3 s;
     s \<leftarrow> Stream_Write_UINT8 o4 s;
     Stream_Write_UINT8 o5 s }"

text \<open>\<^verbatim>\<open>for (i = 0; i < length; i++) Stream_Write_UINT8(s, str[i])\<close>, with \<open>n\<close> the rounds left.\<close>

fun write_bytes_from :: "byte list \<Rightarrow> nat \<Rightarrow> nat \<Rightarrow> writer" where
  "write_bytes_from str i 0 s = Some s"
| "write_bytes_from str i (Suc n) s = do {
     b \<leftarrow> arr_get str i;
     s \<leftarrow> Stream_Write_UINT8 b s;
     write_bytes_from str (i + 1) n s }"

definition per_write_string :: "byte list \<Rightarrow> int \<Rightarrow> writer" where
  "per_write_string str len s = write_bytes_from str 0 (nat len) s"

text \<open>The comparison loop of \<^verbatim>\<open>per_read_octet_string\<close>; \<open>off\<close> is where the pointer stood.\<close>

fun bytes_match :: "byte list \<Rightarrow> nat \<Rightarrow> byte list \<Rightarrow> nat \<Rightarrow> nat \<Rightarrow> bool option" where
  "bytes_match buf off str i 0 = Some True"
| "bytes_match buf off str i (Suc n) = do {
     a \<leftarrow> arr_get buf (off + i);
     b \<leftarrow> arr_get str i;
     if a \<noteq> b then Some False else bytes_match buf off str (i + 1) n }"

definition per_read_octet_string :: "byte list \<Rightarrow> int \<Rightarrow> int \<Rightarrow> unit reader" where
  "per_read_octet_string oct_str len mn = try_read per_read_length (\<lambda>mlength s. do {
     l \<leftarrow> int_ck (uint mlength + mn);
     if l \<noteq> len then Some (None, s)
     else if to_int (Stream_GetRemainingLength s) < len then Some (None, s)
     else do {
       let a = st_pointer s;
       s \<leftarrow> Stream_Seek s len;
       ok \<leftarrow> bytes_match (st_buffer s) a oct_str 0 (nat len);
       Some (if ok then Some () else None, s) } })"

definition per_string_mlength :: "int \<Rightarrow> int \<Rightarrow> int option" where
  "per_string_mlength len mn = do { d \<leftarrow> int_ck (len - mn); Some (if d \<ge> 0 then d else mn) }"

definition per_write_octet_string :: "byte list \<Rightarrow> int \<Rightarrow> int \<Rightarrow> writer" where
  "per_write_octet_string oct_str len mn s = do {
     mlength \<leftarrow> per_string_mlength len mn;
     s \<leftarrow> per_write_length mlength s;
     write_bytes_from oct_str 0 (nat len) s }"

definition per_read_numeric_string :: "int \<Rightarrow> unit reader" where
  "per_read_numeric_string mn = try_read per_read_length (\<lambda>mlength s. do {
     a \<leftarrow> int_ck (uint mlength + mn);
     b \<leftarrow> int_ck (a + 1);
     let len = b sdiv 2;
     if to_int (Stream_GetRemainingLength s) < len then Some (None, s)
     else do { s \<leftarrow> Stream_Seek s len; Some (Some (), s) } })"

definition per_digit :: "byte \<Rightarrow> byte" where
  "per_digit c = word_of_int ((uint c - 0x30) smod 10)"

function write_digits_from :: "byte list \<Rightarrow> nat \<Rightarrow> nat \<Rightarrow> writer" where
  "write_digits_from str i len s =
     (if i < len then do {
        c1 \<leftarrow> arr_get str i;
        c2 \<leftarrow> (if i + 1 < len then arr_get str (i + 1) else Some 0x30);
        s \<leftarrow> Stream_Write_UINT8 (push_bit 4 (per_digit c1) OR per_digit c2) s;
        write_digits_from str (i + 2) len s }
      else Some s)"
  by auto
termination
  by (relation "measure (\<lambda>(str, i, len, s). len - i)") auto

declare write_digits_from.simps [simp del]

definition per_write_numeric_string :: "byte list \<Rightarrow> int \<Rightarrow> int \<Rightarrow> writer" where
  "per_write_numeric_string num_str len mn s = do {
     mlength \<leftarrow> per_string_mlength len mn;
     s \<leftarrow> per_write_length mlength s;
     write_digits_from num_str 0 (nat len) s }"

section \<open>Decoders\<close>

text \<open>
  What the readers do, on the bytes that are left: the value, or \<open>None\<close> for \<^verbatim>\<open>FALSE\<close>, and how
  many bytes are consumed in each case.
\<close>

fun per_dec_length :: "byte list \<Rightarrow> u16 option \<times> nat" where
  "per_dec_length [] = (None, 0)"
| "per_dec_length (b # bs) =
     (if b AND 0x80 \<noteq> 0
      then (case bs of [] \<Rightarrow> (None, 1)
            | c # _ \<Rightarrow> (Some (push_bit 8 (ucast (b AND NOT 0x80)) + ucast c), 2))
      else (Some (ucast b), 1))"

fun per_dec_byte :: "byte list \<Rightarrow> byte option \<times> nat" where
  "per_dec_byte [] = (None, 0)"
| "per_dec_byte (b # bs) = (Some b, 1)"

definition per_dec_int_body :: "u16 \<Rightarrow> byte list \<Rightarrow> u32 option \<times> nat" where
  "per_dec_int_body len bs =
     (if length bs < unat len \<or> len > 2 then (None, 0)
      else (Some (if len = 0 then 0 else if len = 1 then ucast (hd bs) else ucast (be16 bs)), unat len))"

definition per_dec_integer16 :: "u16 \<Rightarrow> byte list \<Rightarrow> u16 option \<times> nat" where
  "per_dec_integer16 mn bs =
     (if length bs < 2 then (None, 0)
      else (if unat (be16 bs) + unat mn > 0xFFFF then None else Some (be16 bs + mn), 2))"

definition per_dec_enumerated :: "byte \<Rightarrow> byte list \<Rightarrow> byte option \<times> nat" where
  "per_dec_enumerated cnt bs =
     (case bs of [] \<Rightarrow> (None, 0) | e # _ \<Rightarrow> (if e < cnt then Some e else None, 1))"

definition per_dec_oid_body :: "byte list \<Rightarrow> u16 \<Rightarrow> byte list \<Rightarrow> unit option \<times> nat" where
  "per_dec_oid_body oid len bs =
     (if len \<noteq> 5 \<or> length bs < 5 then (None, 0)
      else (if drop_bit 4 (hd bs) # (hd bs AND 0x0F) # take 4 (tl bs) = take 6 oid
            then Some () else None, 5))"

text \<open>A reader that skips \<open>l\<close> bytes if that many are left.\<close>

definition per_dec_skip :: "int \<Rightarrow> byte list \<Rightarrow> unit option \<times> nat" where
  "per_dec_skip l bs = (if to_int (length bs) < l then (None, 0) else (Some (), nat l))"

definition per_dec_octet_body :: "byte list \<Rightarrow> int \<Rightarrow> int \<Rightarrow> u16 \<Rightarrow> byte list \<Rightarrow> unit option \<times> nat" where
  "per_dec_octet_body oct_str len mn mlength bs =
     (if uint mlength + mn \<noteq> len \<or> to_int (length bs) < len then (None, 0)
      else (if take (nat len) bs = take (nat len) oct_str then Some () else None, nat len))"

section \<open>Readers implement the decoders\<close>

lemma per_read_length_decodes: "decodes per_read_length per_dec_length"
proof (rule decodesI)
  fix s assume s: "stream_wf s"
  show "snd (per_dec_length (st_rest s)) \<le> length (st_rest s)"
    by (cases "st_rest s" rule: per_dec_length.cases) (auto split: list.split)
  show "per_read_length s = Some (fst (per_dec_length (st_rest s)), stream_skip (snd (per_dec_length (st_rest s))) s)"
  proof (cases "st_rest s")
    case Nil
    then show ?thesis using s by (simp add: per_read_length_def remaining_rest)
  next
    case (Cons b bs)
    then show ?thesis using s
      by (cases bs) (simp_all add: per_read_length_def stream_simps numeral_2_eq_2)
  qed
qed

lemma per_byte_decodes: "decodes (\<lambda>s. if Stream_GetRemainingLength s < 1 then Some (None, s)
      else do { (b, s) \<leftarrow> Stream_Read_UINT8 s; Some (Some b, s) }) per_dec_byte"
proof (rule decodesI)
  fix s assume s: "stream_wf s"
  show "snd (per_dec_byte (st_rest s)) \<le> length (st_rest s)"
    by (cases "st_rest s") auto
  show "(if Stream_GetRemainingLength s < 1 then Some (None, s)
      else do { (b, s) \<leftarrow> Stream_Read_UINT8 s; Some (Some b, s) }) =
      Some (fst (per_dec_byte (st_rest s)), stream_skip (snd (per_dec_byte (st_rest s))) s)"
    using s by (cases "st_rest s") (simp_all add: stream_simps)
qed

lemma per_bytes_decode:
  "decodes per_read_choice per_dec_byte" "decodes per_read_selection per_dec_byte"
  "decodes per_read_number_of_sets per_dec_byte"
  using per_byte_decodes
  by (simp_all add: per_read_choice_def [abs_def] per_read_selection_def [abs_def]
      per_read_number_of_sets_def [abs_def])

lemma per_read_padding_decodes: "0 \<le> l \<Longrightarrow> decodes (per_read_padding l) (per_dec_skip l)"
  by (rule decodesI)
     (auto simp: per_read_padding_def per_dec_skip_def stream_simps to_int_fits)

lemma u16_cases: "(len :: u16) \<le> 2 \<longleftrightarrow> len = 0 \<or> len = 1 \<or> len = 2"
  by (auto simp: word_le_nat_alt word_unat_eq_iff)

lemma per_read_integer_decodes: "decodes per_read_integer (d_then per_dec_length per_dec_int_body)"
  unfolding per_read_integer_def
proof (rule decodes_try_read [OF per_read_length_decodes], rule decodesI, goal_cases)
  case (1 len s)
  then show ?case by (auto simp: per_dec_int_body_def)
next
  case (2 len s)
  show ?case
  proof (cases "len \<le> 2")
    case True
    then consider "len = 0" | "len = 1" | "len = 2" by (auto simp: u16_cases)
    then show ?thesis using 2
      by cases (auto simp: per_dec_int_body_def stream_simps not_less)
  next
    case False
    then show ?thesis using 2
      by (auto simp: per_dec_int_body_def stream_simps not_le)
  qed
qed

lemma per_read_integer16_decodes: "decodes (per_read_integer16 mn) (per_dec_integer16 mn)"
  by (rule decodesI) (auto simp: per_read_integer16_def per_dec_integer16_def stream_simps not_less)

lemma per_read_enumerated_decodes: "decodes (per_read_enumerated cnt) (per_dec_enumerated cnt)"
proof (rule decodesI)
  fix s assume s: "stream_wf s"
  show "snd (per_dec_enumerated cnt (st_rest s)) \<le> length (st_rest s)"
    by (auto simp: per_dec_enumerated_def split: list.split)
  show "per_read_enumerated cnt s =
      Some (fst (per_dec_enumerated cnt (st_rest s)), stream_skip (snd (per_dec_enumerated cnt (st_rest s))) s)"
    using s by (cases "st_rest s")
      (auto simp: per_read_enumerated_def per_dec_enumerated_def stream_simps word_less_nat_alt)
qed

lemma list_5: "5 \<le> length xs \<Longrightarrow> \<exists>a b c d e ys. xs = a # b # c # d # e # ys"
  by (auto simp: Suc_le_length_iff numeral_eq_Suc)

lemma per_read_oid_decodes:
  assumes "length oid = 6"
  shows "decodes (per_read_object_identifier oid) (d_then per_dec_length (per_dec_oid_body oid))"
  unfolding per_read_object_identifier_def
proof (rule decodes_try_read [OF per_read_length_decodes], rule decodesI, goal_cases)
  case (1 len s)
  then show ?case by (auto simp: per_dec_oid_body_def)
next
  case (2 len s)
  obtain o0 o1 o2 o3 o4 o5 where oid: "oid = [o0, o1, o2, o3, o4, o5]"
    using assms by (auto simp: length_Suc_conv numeral_eq_Suc)
  show ?case
  proof (cases "len = 5 \<and> 5 \<le> length (st_rest s)")
    case True
    then obtain a b c d e ys where r: "st_rest s = a # b # c # d # e # ys"
      using list_5 by blast
    show ?thesis using 2 True
      by (simp add: per_dec_oid_body_def stream_simps r oid arr_get_def) (simp add: numeral_eq_Suc)
  next
    case False
    then show ?thesis using 2
      by (auto simp: per_dec_oid_body_def stream_simps)
  qed
qed

lemma bytes_match_eq:
  assumes "off + i + n \<le> length buf" "i + n \<le> length str"
  shows "bytes_match buf off str i n = Some (take n (drop (off + i) buf) = take n (drop i str))"
  using assms
proof (induction n arbitrary: i)
  case 0
  then show ?case by simp
next
  case (Suc n)
  have "drop (off + i) buf = buf ! (off + i) # drop (off + (i + 1)) buf" "drop i str = str ! i # drop (i + 1) str"
    using Suc.prems by (simp_all add: Cons_nth_drop_Suc)
  then show ?case using Suc by (simp add: arr_get_def)
qed

lemma int_ck_u16:
  assumes "- INT_LIM \<le> i" "i < INT_LIM - 65535"
  shows "int_ck (uint (m :: u16) + i) = Some (uint m + i)"
proof -
  have "uint m < 65536" "0 \<le> uint m" using unsigned_less [of m] by simp_all
  then have "- INT_LIM \<le> uint m + i" "uint m + i < INT_LIM" using assms by linarith+
  then show ?thesis by (simp add: int_ck_def)
qed

lemma per_read_octet_string_decodes:
  assumes "0 \<le> len" "nat len \<le> length oct_str" "- INT_LIM \<le> mn" "mn < INT_LIM - 65536"
  shows "decodes (per_read_octet_string oct_str len mn) (d_then per_dec_length (per_dec_octet_body oct_str len mn))"
  unfolding per_read_octet_string_def
proof (rule decodes_try_read [OF per_read_length_decodes], rule decodesI, goal_cases)
  case (1 mlength s)
  then show ?case using assms by (auto simp: per_dec_octet_body_def to_int_fits)
next
  case (2 mlength s)
  have ck: "int_ck (uint mlength + mn) = Some (uint mlength + mn)"
    using assms by (intro int_ck_u16) auto
  show ?case
  proof (cases "uint mlength + mn = len \<and> \<not> to_int (length (st_rest s)) < len")
    case True
    then have le: "nat len \<le> length (st_rest s)" using to_int_fits assms(1) by auto
    have "bytes_match (st_buffer s) (st_pointer s) oct_str 0 (nat len) =
        Some (take (nat len) (st_rest s) = take (nat len) oct_str)"
      using assms(2) take_st_rest [OF 2 le] by (simp add: bytes_match_eq)
    moreover have "int_ck len = Some len" using ck True by simp
    ultimately show ?thesis using True le 2 assms(1)
      by (simp add: stream_simps per_dec_octet_body_def)
  next
    case False
    then show ?thesis using 2 by (auto simp: ck stream_simps per_dec_octet_body_def)
  qed
qed

lemma sdiv_2: "0 \<le> a \<Longrightarrow> a sdiv 2 = a div (2 :: int)"
  by (simp add: signed_divide_int_def sgn_if abs_if)

definition per_dec_digits :: "int \<Rightarrow> u16 \<Rightarrow> byte list \<Rightarrow> unit option \<times> nat" where
  "per_dec_digits mn mlength = per_dec_skip ((uint mlength + mn + 1) div 2)"

lemma per_read_numeric_string_decodes:
  assumes "0 \<le> mn" "mn < INT_LIM - 65536"
  shows "decodes (per_read_numeric_string mn) (d_then per_dec_length (per_dec_digits mn))"
  unfolding per_read_numeric_string_def
proof (rule decodes_try_read [OF per_read_length_decodes], rule decodesI, goal_cases)
  case (1 mlength s)
  then show ?case using assms by (auto simp: per_dec_digits_def per_dec_skip_def to_int_fits)
next
  case (2 mlength s)
  have ck: "int_ck (uint mlength + mn) = Some (uint mlength + mn)"
      "int_ck (uint mlength + mn + 1) = Some (uint mlength + mn + 1)"
    using int_ck_u16 [of mn] int_ck_u16 [of "mn + 1"] assms by (simp_all add: INT_LIM_def add.assoc)
  then show ?case using 2 assms
    by (auto simp: ck Let_def sdiv_2 per_dec_digits_def per_dec_skip_def stream_simps to_int_fits)
qed

lemmas per_decodes =
  per_read_length_decodes per_bytes_decode per_read_padding_decodes per_read_integer_decodes
  per_read_integer16_decodes per_read_enumerated_decodes per_read_oid_decodes
  per_read_octet_string_decodes per_read_numeric_string_decodes

section \<open>Encodings\<close>

definition per_enc_length :: "int \<Rightarrow> byte list" where
  "per_enc_length len = (if len > 0x7F then be_bytes 2 (word_of_int len OR 0x8000 :: u16) else [word_of_int len])"

lemma emits_per_length: "emits (per_write_length len) (per_enc_length len)"
  using emits_UINT16_BE [of "word_of_int len OR 0x8000"] emits_UINT8 [of "word_of_int len"]
  by (simp add: emits_def per_write_length_def per_enc_length_def)

lemma emits_write_zeros: "emits (write_zeros n) (replicate n 0)"
  by (induction n) (auto intro!: emits_Some emits_bind [of "Stream_Write_UINT8 0" "[0]", simplified] emits_UINT8)

lemma emits_write_bytes_from:
  assumes "i + n \<le> length str"
  shows "emits (write_bytes_from str i n) (take n (drop i str))"
  using assms
proof (induction n arbitrary: i)
  case 0
  then show ?case by (simp add: emits_Some)
next
  case (Suc n)
  then have d: "drop i str = str ! i # drop (i + 1) str" by (simp add: Cons_nth_drop_Suc)
  have "emits (write_bytes_from str i (Suc n)) ([str ! i] @ take n (drop (i + 1) str))"
    using Suc by (intro emits_bind [OF emits_UINT8 Suc.IH]) (auto simp: arr_get_def)
  then show ?case by (simp only: d take_Suc_Cons append_Cons append_Nil)
qed

definition per_enc_digits :: "byte list \<Rightarrow> nat \<Rightarrow> nat \<Rightarrow> byte list" where
  "per_enc_digits str i len = map (\<lambda>j. push_bit 4 (per_digit (str ! (i + 2 * j))) OR
     per_digit (if i + 2 * j + 1 < len then str ! (i + 2 * j + 1) else 0x30)) [0..<(len - i + 1) div 2]"

lemma per_enc_digits_step:
  assumes "i < len"
  shows "per_enc_digits str i len = (push_bit 4 (per_digit (str ! i)) OR
     per_digit (if i + 1 < len then str ! (i + 1) else 0x30)) # per_enc_digits str (i + 2) len"
proof -
  have "(len - i + 1) div 2 = Suc ((len - (i + 2) + 1) div 2)" using assms by presburger
  then show ?thesis
    by (simp add: per_enc_digits_def upt_conv_Cons map_Suc_upt [symmetric] del: upt_Suc)
qed

lemma emits_write_digits:
  assumes "len \<le> length str"
  shows "emits (write_digits_from str i len) (per_enc_digits str i len)"
proof (induction "len - i" arbitrary: i rule: less_induct)
  case less
  show ?case
  proof (cases "i < len")
    case True
    have "emits (write_digits_from str i len) ([push_bit 4 (per_digit (str ! i)) OR
        per_digit (if i + 1 < len then str ! (i + 1) else 0x30)] @ per_enc_digits str (i + 2) len)"
      using True assms
      by (intro emits_bind [OF emits_UINT8 less.hyps]) (auto simp: arr_get_def write_digits_from.simps [of str i])
    then show ?thesis by (simp only: per_enc_digits_step [OF True] append_Cons append_Nil)
  next
    case False
    then show ?thesis
      by (simp add: emits_Some write_digits_from.simps [of str i] per_enc_digits_def)
  qed
qed

definition per_enc_integer :: "u32 \<Rightarrow> byte list" where
  "per_enc_integer i = (if i \<le> 0xFF then [1, ucast i] else if i \<le> 0xFFFF then 2 # be_bytes 2 (ucast i :: u16)
     else 4 # be_bytes 4 i)"

lemma per_enc_length_small [simp]:
  "per_enc_length 1 = [1]" "per_enc_length 2 = [2]" "per_enc_length 4 = [4]" "per_enc_length 5 = [5]"
  by (simp_all add: per_enc_length_def)

lemma u32_max: "(i :: u32) \<le> 0xFFFFFFFF"
proof -
  have "unat i < 4294967296" using unsigned_less [of i] by simp
  then show ?thesis by (simp add: word_le_nat_alt)
qed

lemma emits_per_integer: "emits (per_write_integer i) (per_enc_integer i)"
proof -
  consider "i \<le> 0xFF" | "\<not> i \<le> 0xFF" "i \<le> 0xFFFF" | "\<not> i \<le> 0xFF" "\<not> i \<le> 0xFFFF" by blast
  then show ?thesis
  proof cases
    case 1
    then show ?thesis
      using emits_bind [OF emits_per_length [of 1] emits_UINT8 [of "ucast i"], of "per_write_integer i"]
      by (simp add: per_write_integer_def per_enc_integer_def)
  next
    case 2
    then show ?thesis
      using emits_bind [OF emits_per_length [of 2] emits_UINT16_BE [of "ucast i"], of "per_write_integer i"]
      by (simp add: per_write_integer_def per_enc_integer_def)
  next
    case 3
    then show ?thesis
      using emits_bind [OF emits_per_length [of 4] emits_UINT32_BE [of i], of "per_write_integer i"]
      by (simp add: per_write_integer_def per_enc_integer_def u32_max)
  qed
qed

definition per_enc_oid :: "byte list \<Rightarrow> byte list" where
  "per_enc_oid oid = [5, 0, oid ! 2, oid ! 3, oid ! 4, oid ! 5]"

text \<open>The writer combines the first two tuples with \<^verbatim>\<open>&\<close>, which leaves no bit set.\<close>

lemma oid_t12: "push_bit 4 a AND (b AND 0x0F) = (0 :: byte)"
proof -
  have m: "(0x0F :: byte) = mask 4" by (simp add: mask_eq_exp_minus_1)
  show ?thesis unfolding m by (intro bit_word_eqI) (auto simp: bit_simps)
qed

lemma emits_per_oid: "length oid = 6 \<Longrightarrow> emits (per_write_object_identifier oid) (per_enc_oid oid)"
  unfolding per_enc_oid_def
  by (rule emits_cong [OF emits_bind [OF emits_UINT8 emits_bind [OF emits_UINT8 emits_bind [OF emits_UINT8
        emits_bind [OF emits_UINT8 emits_bind [OF emits_UINT8 emits_UINT8 refl] refl] refl] refl]]])
     (simp_all add: per_write_object_identifier_def arr_get_def oid_t12)

definition per_enc_octet :: "byte list \<Rightarrow> int \<Rightarrow> byte list" where
  "per_enc_octet oct_str mn = per_enc_length (int (length oct_str) - mn) @ oct_str"

lemma emits_per_octet:
  assumes "0 \<le> mn" "mn \<le> int (length oct_str)" "int (length oct_str) < INT_LIM"
  shows "emits (per_write_octet_string oct_str (int (length oct_str)) mn) (per_enc_octet oct_str mn)"
  using emits_bind [OF emits_per_length [of "int (length oct_str) - mn"]
      emits_write_bytes_from [of 0 "length oct_str" oct_str], of "per_write_octet_string oct_str (int (length oct_str)) mn"] assms
  by (simp add: per_write_octet_string_def per_string_mlength_def int_ck_def INT_LIM_def per_enc_octet_def)

definition per_enc_numeric :: "byte list \<Rightarrow> int \<Rightarrow> byte list" where
  "per_enc_numeric num_str mn = per_enc_length (int (length num_str) - mn) @ per_enc_digits num_str 0 (length num_str)"

lemma emits_per_numeric:
  assumes "0 \<le> mn" "mn \<le> int (length num_str)" "int (length num_str) < INT_LIM"
  shows "emits (per_write_numeric_string num_str (int (length num_str)) mn) (per_enc_numeric num_str mn)"
  using emits_bind [OF emits_per_length [of "int (length num_str) - mn"]
      emits_write_digits [of "length num_str" num_str 0], of "per_write_numeric_string num_str (int (length num_str)) mn"] assms
  by (simp add: per_write_numeric_string_def per_string_mlength_def int_ck_def INT_LIM_def per_enc_numeric_def)

section \<open>Matching pairs\<close>

lemma long_length_bytes:
  assumes "unat (v :: u16) < 0x8000"
  shows "word_byte 0 (v OR 0x8000) = word_byte 0 v"
    "word_byte 1 (v OR 0x8000) AND NOT 0x80 = word_byte 1 v"
    "word_byte 1 (v OR 0x8000) AND 0x80 \<noteq> 0"
proof -
  have "(0x8000 :: u16) = 2 ^ 15" "(0x80 :: byte) = 2 ^ 7" by simp_all
  then have e: "bit (0x8000 :: u16) n \<longleftrightarrow> n = 15" "bit (0x80 :: byte) n \<longleftrightarrow> n = 7" for n
    by (simp_all only: bit_exp_iff) auto
  have v: "\<not> bit v 15" using assms unfolding bit_word_unat [of v] by (simp only: bit_iff_odd) simp
  show "word_byte 0 (v OR 0x8000) = word_byte 0 v"
    unfolding word_byte_def by (rule bit_word_eqI) (simp only: bit_simps e o_apply, auto)
  show "word_byte 1 (v OR 0x8000) AND NOT 0x80 = word_byte 1 v"
    unfolding word_byte_def using v by (intro bit_word_eqI) (simp only: bit_simps e o_apply, auto)
  have "bit (word_byte 1 (v OR 0x8000)) 7"
    unfolding word_byte_def by (simp add: bit_simps e)
  then show "word_byte 1 (v OR 0x8000) AND 0x80 \<noteq> 0"
    using and_exp_eq_0_iff_not_bit [of "word_byte 1 (v OR 0x8000)" 7] by simp
qed

lemma per_dec_enc_length:
  assumes "unat v < 0x8000"
  shows "per_dec_length (per_enc_length (uint v) @ ts) = (Some v, length (per_enc_length (uint v)))"
proof (cases "uint v > 0x7F")
  case True
  then show ?thesis
    using long_length_bytes [OF assms] word16_be [of v]
    by (simp add: per_enc_length_def be_bytes_simps)
next
  case False
  have "int (unat v) = uint v" by simp
  then have u: "unat v < 128" using False by linarith
  then have "unat (ucast v :: byte) < 128" "ucast (ucast v :: byte) = v"
    by (simp_all add: unat_ucast_mod word_unat_eq_iff)
  then show ?thesis using False byte_high_bit [of "ucast v"]
    by (simp add: per_enc_length_def)
qed

interpretation per_length: wire_codec "\<lambda>v. per_write_length (uint v)" per_read_length
  "\<lambda>v. per_enc_length (uint v)" "\<lambda>v. unat v < 0x8000" BLOCK_MAX
  by unfold_locales (auto intro: emits_per_length decodes_parses [OF per_read_length_decodes] per_dec_enc_length)

interpretation per_byte: wire_codec per_write_choice per_read_choice "\<lambda>v. [v]" "\<lambda>v. True" BLOCK_MAX
  using emits_UINT8
  by unfold_locales (auto simp: emits_def per_write_choice_def intro!: decodes_parses [OF per_bytes_decode(1)])

lemma u32_le_nat: "(i :: u32) \<le> 0xFF \<longleftrightarrow> unat i \<le> 255" "i \<le> 0xFFFF \<longleftrightarrow> unat i \<le> 65535"
  by (simp_all add: word_le_nat_alt)

lemma per_dec_enc_integer:
  assumes "i \<le> 0xFFFF"
  shows "d_then per_dec_length per_dec_int_body (per_enc_integer i @ ts) = (Some i, length (per_enc_integer i))"
  using assms by (auto simp: per_enc_integer_def d_then_def per_dec_int_body_def u32_le_nat ucast_u32)

interpretation per_integer: wire_codec per_write_integer per_read_integer per_enc_integer "\<lambda>i. i \<le> 0xFFFF" BLOCK_MAX
  by unfold_locales
     (auto intro: emits_per_integer decodes_parses [OF per_read_integer_decodes] per_dec_enc_integer)

text \<open>The four byte form is not understood by the reader of the same file.\<close>

lemma per_dec_enc_integer_large:
  assumes "0xFFFF < i"
  shows "d_then per_dec_length per_dec_int_body (per_enc_integer i @ ts) = (None, 1)"
  using assms by (auto simp: per_enc_integer_def d_then_def per_dec_int_body_def word_le_nat_alt word_less_nat_alt)

lemma per_dec_enc_integer16:
  assumes "mn \<le> i"
  shows "per_dec_integer16 mn (be_bytes 2 (i - mn) @ ts) = (Some i, 2)"
proof -
  have "unat (i - mn) + unat mn = unat i" using assms by (simp add: unat_sub word_le_nat_alt)
  moreover have "unat i < 65536" using unsigned_less [of i] by simp
  ultimately show ?thesis by (simp add: per_dec_integer16_def)
qed

interpretation per_integer16: wire_codec "per_write_integer16 mn" "per_read_integer16 mn"
  "\<lambda>i. be_bytes 2 (i - mn)" "\<lambda>i. mn \<le> i" BLOCK_MAX for mn
  using emits_UINT16_BE
  by unfold_locales (auto simp: emits_def per_write_integer16_def per_dec_enc_integer16
      intro!: decodes_parses [OF per_read_integer16_decodes])

interpretation per_enumerated: wire_codec "per_write_enumerated cnt" "per_read_enumerated cnt"
  "\<lambda>e. [e]" "\<lambda>e. e < cnt" BLOCK_MAX for cnt
  using emits_UINT8
  by unfold_locales (auto simp: emits_def per_write_enumerated_def per_dec_enumerated_def
      intro!: decodes_parses [OF per_read_enumerated_decodes])

definition per_octet_valid :: "byte list \<Rightarrow> int \<Rightarrow> bool" where
  "per_octet_valid str mn \<longleftrightarrow> 0 \<le> mn \<and> mn \<le> int (length str) \<and> int (length str) - mn < 0x8000 \<and>
     int (length str) < INT_LIM - 65536"

text \<open>A prefix of the length and then the body.\<close>

lemma d_then_length:
  assumes "0 \<le> l" "l < 0x8000"
  shows "d_then per_dec_length f (per_enc_length l @ bs) =
    (let (x, m) = f (word_of_int l) bs in (x, length (per_enc_length l) + m))"
proof -
  have u: "uint (word_of_int l :: u16) = l" using assms by (simp add: uint_word_of_int_eq take_bit_int_eq_self)
  moreover have "unat (word_of_int l :: u16) < 0x8000" using assms u by (simp add: unat_eq_nat_uint nat_less_iff)
  ultimately show ?thesis
    using per_dec_enc_length [of "word_of_int l" bs] by (simp add: d_then_def)
qed

lemma uint_of_length: "0 \<le> l \<Longrightarrow> l < 0x8000 \<Longrightarrow> uint (word_of_int l :: u16) = l"
  by (simp add: uint_word_of_int_eq take_bit_int_eq_self)

text \<open>
  The string readers compare the rest of the stream as a signed \<^verbatim>\<open>int\<close>, so they accept only
  streams with less than 2 GB left.
\<close>

lemma per_dec_enc_octet:
  assumes "per_octet_valid str mn" "int (length (per_enc_octet str mn @ ts)) < INT_LIM"
  shows "d_then per_dec_length (per_dec_octet_body str (int (length str)) mn) (per_enc_octet str mn @ ts) =
    (Some (), length (per_enc_octet str mn))"
  using assms uint_of_length [of "int (length str) - mn"]
    d_then_length [of "int (length str) - mn" "per_dec_octet_body str (int (length str)) mn" "str @ ts"]
    to_int_below [of "length (str @ ts)"]
  by (simp add: per_octet_valid_def per_enc_octet_def per_dec_octet_body_def)

lemma per_dec_enc_numeric:
  assumes "per_octet_valid str mn" "int (length (per_enc_numeric str mn @ ts)) < INT_LIM"
  shows "d_then per_dec_length (per_dec_digits mn) (per_enc_numeric str mn @ ts) =
    (Some (), length (per_enc_numeric str mn))"
proof -
  have l: "int (length (per_enc_digits str 0 (length str))) = (int (length str) + 1) div 2"
    by (simp add: per_enc_digits_def zdiv_int)
  then have "to_int (length (per_enc_digits str 0 (length str) @ ts)) \<ge> (int (length str) + 1) div 2"
    using assms by (subst to_int_below) (auto simp: per_enc_numeric_def)
  then show ?thesis
    using assms uint_of_length [of "int (length str) - mn"] l
      d_then_length [of "int (length str) - mn" "per_dec_digits mn" "per_enc_digits str 0 (length str) @ ts"]
    by (simp add: per_octet_valid_def per_enc_numeric_def per_dec_digits_def per_dec_skip_def)
qed

section \<open>Properties\<close>

text \<open>
  C18: no PER reader has undefined behaviour on any stream, however short or malformed: each
  returns, leaves the contents of the stream alone and its position between the old one and
  the end of the data.
\<close>

theorem per_readers_safe:
  assumes "0 \<le> pad" "length oid = 6" "0 \<le> len" "nat len \<le> length oct_str"
    "- INT_LIM \<le> mn" "mn < INT_LIM - 65536" "0 \<le> nmn" "nmn < INT_LIM - 65536"
  shows "safe_reader per_read_length \<and> safe_reader per_read_choice \<and> safe_reader per_read_selection \<and>
     safe_reader per_read_number_of_sets \<and> safe_reader (per_read_padding pad) \<and>
     safe_reader per_read_integer \<and> safe_reader (per_read_integer16 m) \<and>
     safe_reader (per_read_enumerated cnt) \<and> safe_reader (per_read_object_identifier oid) \<and>
     safe_reader (per_read_octet_string oct_str len mn) \<and> safe_reader (per_read_numeric_string nmn)"
  using per_decodes assms by (intro conjI) (rule decodes_safe, blast)+

theorem per_readers_safe_witness:
  "safe_reader per_read_length \<and> safe_reader per_read_choice \<and> safe_reader per_read_selection \<and>
     safe_reader per_read_number_of_sets \<and> safe_reader (per_read_padding 2) \<and>
     safe_reader per_read_integer \<and> safe_reader (per_read_integer16 1001) \<and>
     safe_reader (per_read_enumerated 16) \<and> safe_reader (per_read_object_identifier [0, 0, 20, 124, 0, 1]) \<and>
     safe_reader (per_read_octet_string [77, 99, 68, 110] 4 4) \<and> safe_reader (per_read_numeric_string 1)"
  by (rule per_readers_safe) (simp_all add: INT_LIM_def)

text \<open>
  A sequence of PER lengths below 0x8000, written one after the other into a stream with
  room for them, is read back as it was written, and the reader stops exactly where the
  writer did.
\<close>

theorem per_lengths_roundtrip:
  assumes "\<forall>v \<in> set vs. unat v < 0x8000" "stream_wf s"
    "length (concat (map (\<lambda>v. per_enc_length (uint v)) vs)) \<le> length (st_rest s)"
  shows "\<exists>s'. write_all (\<lambda>v. per_write_length (uint v)) vs s = Some s' \<and> stream_wf s' \<and>
     read_n per_read_length (length vs) (s'\<lparr>st_pointer := st_pointer s\<rparr>) = Some (Some vs, s')"
  using per_length.roundtrip_list [OF assms rest_less_BLOCK_MAX [OF assms(2)]] by blast

theorem per_lengths_roundtrip_witness:
  "\<exists>s'. write_all (\<lambda>v. per_write_length (uint v)) [5, 300 :: u16] (stream_of [0, 0, 0, 0]) = Some s' \<and> stream_wf s' \<and>
     read_n per_read_length (length [5, 300 :: u16]) (s'\<lparr>st_pointer := st_pointer (stream_of [0, 0, 0, 0])\<rparr>) =
       Some (Some [5, 300], s')"
  by (rule per_lengths_roundtrip) (simp_all add: per_enc_length_def BLOCK_MAX_def)

text \<open>
  C21: an unsigned number that fits 16 bits, written by \<^verbatim>\<open>per_write_integer\<close>, is read back by
  \<^verbatim>\<open>per_read_integer\<close>; every larger one is written as well, in four bytes, but what was
  written is rejected by the reader.
\<close>

theorem per_integer_roundtrip:
  assumes "stream_wf s" "6 \<le> length (st_rest s)"
  shows "\<exists>s' x s''. per_write_integer i s = Some s' \<and> stream_wf s' \<and>
     per_read_integer (s'\<lparr>st_pointer := st_pointer s\<rparr>) = Some (x, s'') \<and>
     (if i \<le> 0xFFFF then x = Some i \<and> s'' = s' else x = None)"
proof -
  have l: "length (per_enc_integer i) \<le> length (st_rest s)" using assms(2) by (simp add: per_enc_integer_def)
  define s' where "s' = stream_emit (per_enc_integer i) s"
  let ?t = "s'\<lparr>st_pointer := st_pointer s\<rparr>"
  have w: "per_write_integer i s = Some s'"
    using emitsD [OF emits_per_integer assms(1) l] by (simp add: s'_def)
  note t = stream_emit_rewound [OF assms(1) l, folded s'_def]
  note r = decodesD(2) [OF per_read_integer_decodes t(2)]
  have "stream_wf s'" using stream_wf_emit [OF assms(1) l] by (simp add: s'_def)
  then show ?thesis
    using w r t per_dec_enc_integer [of i] per_dec_enc_integer_large [of i]
    by (cases "i \<le> 0xFFFF") (auto simp: not_le)
qed

theorem per_integer_roundtrip_witness:
  "\<exists>s' x s''. per_write_integer 70000 (stream_of [0, 0, 0, 0, 0, 0]) = Some s' \<and> stream_wf s' \<and>
     per_read_integer (s'\<lparr>st_pointer := st_pointer (stream_of [0, 0, 0, 0, 0, 0])\<rparr>) = Some (x, s'') \<and>
     (if (70000 :: u32) \<le> 0xFFFF then x = Some 70000 \<and> s'' = s' else x = None)"
  by (rule per_integer_roundtrip) (simp_all add: BLOCK_MAX_def)

text \<open>
  An object identifier written by \<^verbatim>\<open>per_write_object_identifier\<close> is accepted by
  \<^verbatim>\<open>per_read_object_identifier\<close> with the same identifier only when its first two tuples are
  zero: the writer combines them with a bitwise and, which always gives zero.
\<close>

theorem per_oid_accepted_iff:
  assumes "length oid = 6" "stream_wf s" "6 \<le> length (st_rest s)"
  shows "\<exists>s' x s''. per_write_object_identifier oid s = Some s' \<and>
     per_read_object_identifier oid (s'\<lparr>st_pointer := st_pointer s\<rparr>) = Some (x, s'') \<and>
     (x = Some () \<longleftrightarrow> oid ! 0 = 0 \<and> oid ! 1 = 0)"
proof -
  obtain o0 o1 o2 o3 o4 o5 where oid: "oid = [o0, o1, o2, o3, o4, o5]"
    using assms(1) by (auto simp: length_Suc_conv numeral_eq_Suc)
  have l: "length (per_enc_oid oid) \<le> length (st_rest s)" using assms(3) by (simp add: per_enc_oid_def)
  note t = stream_emit_rewound [OF assms(2) l]
  have "fst (d_then per_dec_length (per_dec_oid_body oid) (per_enc_oid oid @ ts)) =
      (if o0 = 0 \<and> o1 = 0 then Some () else None)" for ts
    by (auto simp: per_enc_oid_def oid d_then_def per_dec_oid_body_def)
  then show ?thesis
    using emitsD [OF emits_per_oid [OF assms(1)] assms(2) l] decodesD(2) [OF per_read_oid_decodes [OF assms(1)] t(2)] t(1)
    by (simp add: oid)
qed

theorem per_oid_accepted_iff_witness:
  "\<exists>s' x s''. per_write_object_identifier [1, 2, 20, 124, 0, 1] (stream_of [0, 0, 0, 0, 0, 0]) = Some s' \<and>
     per_read_object_identifier [1, 2, 20, 124, 0, 1]
       (s'\<lparr>st_pointer := st_pointer (stream_of [0, 0, 0, 0, 0, 0])\<rparr>) = Some (x, s'') \<and>
     (x = Some () \<longleftrightarrow> [1, 2, 20, 124, 0, 1 :: byte] ! 0 = 0 \<and> [1, 2, 20, 124, 0, 1 :: byte] ! 1 = 0)"
  by (rule per_oid_accepted_iff) (simp_all add: BLOCK_MAX_def)

text \<open>
  An octet string of at least the minimal length, and a numeric string in the same way, is
  written by its writer and recognised by its reader, which ends where the writer did.
\<close>

theorem per_strings_roundtrip:
  assumes "per_octet_valid str mn" "stream_wf s" "length str + 2 \<le> length (st_rest s)"
    "int (length (st_rest s)) < INT_LIM"
  shows "(\<exists>s'. per_write_octet_string str (int (length str)) mn s = Some s' \<and> stream_wf s' \<and>
       per_read_octet_string str (int (length str)) mn (s'\<lparr>st_pointer := st_pointer s\<rparr>) = Some (Some (), s')) \<and>
     (\<exists>s'. per_write_numeric_string str (int (length str)) mn s = Some s' \<and> stream_wf s' \<and>
       per_read_numeric_string mn (s'\<lparr>st_pointer := st_pointer s\<rparr>) = Some (Some (), s'))"
proof -
  have v: "0 \<le> mn" "mn \<le> int (length str)" "int (length str) < INT_LIM" "mn < INT_LIM - 65536" "- INT_LIM \<le> mn"
    using assms(1) by (auto simp: per_octet_valid_def INT_LIM_def)
  have len: "length (per_enc_length l) \<le> 2" for l by (simp add: per_enc_length_def)
  have "length (per_enc_digits str 0 (length str)) \<le> length str" by (simp add: per_enc_digits_def)
  then have l: "length (per_enc_octet str mn) \<le> length (st_rest s)" "length (per_enc_numeric str mn) \<le> length (st_rest s)"
    using assms(3) len [of "int (length str) - mn"] by (simp_all add: per_enc_octet_def per_enc_numeric_def)
  have lim: "length (st_rest s) < 2 ^ 31" using assms(4) by (simp add: INT_LIM_def)
  have p: "parses (2 ^ 31) (per_read_octet_string str (int (length str)) mn) (per_enc_octet str mn) ()"
    "parses (2 ^ 31) (per_read_numeric_string mn) (per_enc_numeric str mn) ()"
    using v
    by (auto intro!: decodes_parses [OF per_read_octet_string_decodes] decodes_parses [OF per_read_numeric_string_decodes]
        per_dec_enc_octet per_dec_enc_numeric assms(1) simp: INT_LIM_def)
  show ?thesis
    using emits_parses [OF emits_per_octet [OF v(1-3)] p(1) assms(2) l(1) lim]
      emits_parses [OF emits_per_numeric [OF v(1-3)] p(2) assms(2) l(2) lim] by blast
qed

theorem per_strings_roundtrip_witness:
  "(\<exists>s'. per_write_octet_string [49] (int (length [49 :: byte])) 1 (stream_of [0, 0, 0]) = Some s' \<and> stream_wf s' \<and>
       per_read_octet_string [49] (int (length [49 :: byte])) 1 (s'\<lparr>st_pointer := st_pointer (stream_of [0, 0, 0])\<rparr>) = Some (Some (), s')) \<and>
     (\<exists>s'. per_write_numeric_string [49] (int (length [49 :: byte])) 1 (stream_of [0, 0, 0]) = Some s' \<and> stream_wf s' \<and>
       per_read_numeric_string 1 (s'\<lparr>st_pointer := st_pointer (stream_of [0, 0, 0])\<rparr>) = Some (Some (), s'))"
  by (rule per_strings_roundtrip) (simp_all add: per_octet_valid_def INT_LIM_def BLOCK_MAX_def)

end
