(* ===== verification/Ber.thy ===== *)
theory Ber
  imports Streams
begin

text \<open>
  The basic and distinguished encoding rules of \<^verbatim>\<open>libfreerdp/crypto/ber.c\<close> and
  \<^verbatim>\<open>libfreerdp/crypto/der.c\<close>, which the MCS connect PDUs and the CredSSP tokens use. The
  writers return the number of bytes they say they wrote, which the callers add up to
  lengths of enclosing elements: the lemmas show that this number is the number of bytes
  emitted, and that the \<^verbatim>\<open>sizeof\<close> functions agree with it.
\<close>

section \<open>Constants\<close>

definition BER_CLASS_UNIV :: byte where "BER_CLASS_UNIV = 0x00"
definition BER_CLASS_APPL :: byte where "BER_CLASS_APPL = 0x40"
definition BER_CLASS_CTXT :: byte where "BER_CLASS_CTXT = 0x80"
definition BER_PRIMITIVE :: byte where "BER_PRIMITIVE = 0x00"
definition BER_CONSTRUCT :: byte where "BER_CONSTRUCT = 0x20"
definition BER_TAG_MASK :: byte where "BER_TAG_MASK = 0x1F"
definition BER_TAG_BOOLEAN :: byte where "BER_TAG_BOOLEAN = 0x01"
definition BER_TAG_INTEGER :: byte where "BER_TAG_INTEGER = 0x02"
definition BER_TAG_BIT_STRING :: byte where "BER_TAG_BIT_STRING = 0x03"
definition BER_TAG_OCTET_STRING :: byte where "BER_TAG_OCTET_STRING = 0x04"
definition BER_TAG_ENUMERATED :: byte where "BER_TAG_ENUMERATED = 0x0A"
definition BER_TAG_SEQUENCE :: byte where "BER_TAG_SEQUENCE = 0x10"
definition BER_TAG_SEQUENCE_OF :: byte where "BER_TAG_SEQUENCE_OF = 0x10"

definition BER_PC :: "bool \<Rightarrow> byte" where
  "BER_PC pc = (if pc then BER_CONSTRUCT else BER_PRIMITIVE)"

section \<open>Operations of ber.c\<close>

text \<open>The type of the writers that return the number of bytes written.\<close>

type_synonym swriter = "wStream \<Rightarrow> (int \<times> wStream) option"

definition ber_read_length :: "int reader" where
  "ber_read_length s =
     (if Stream_GetRemainingLength s < 1 then Some (None, s)
      else do {
        (b, s) \<leftarrow> Stream_Read_UINT8 s;
        if b AND 0x80 \<noteq> 0 then do {
          let b = b AND NOT 0x80;
          if Stream_GetRemainingLength s < unat b then Some (None, s)
          else if b = 1 then do { (v, s) \<leftarrow> Stream_Read_UINT8 s; Some (Some (uint v), s) }
          else if b = 2 then do { (v, s) \<leftarrow> Stream_Read_UINT16_BE s; Some (Some (uint v), s) }
          else Some (None, s) }
        else Some (Some (uint b), s) })"

definition ber_write_length :: "int \<Rightarrow> swriter" where
  "ber_write_length len s =
     (if len > 0xFF then do {
        s \<leftarrow> Stream_Write_UINT8 (0x80 XOR 2) s;
        s \<leftarrow> Stream_Write_UINT16_BE (word_of_int len) s;
        Some (3, s) }
      else if len > 0x7F then do {
        s \<leftarrow> Stream_Write_UINT8 (0x80 XOR 1) s;
        s \<leftarrow> Stream_Write_UINT8 (word_of_int len) s;
        Some (2, s) }
      else do { s \<leftarrow> Stream_Write_UINT8 (word_of_int len) s; Some (1, s) })"

definition ber_sizeof_length :: "int \<Rightarrow> int" where
  "ber_sizeof_length len = (if len > 0xFF then 3 else if len > 0x7F then 2 else 1)"

definition ber_read_universal_tag :: "byte \<Rightarrow> bool \<Rightarrow> unit reader" where
  "ber_read_universal_tag tag pc s =
     (if Stream_GetRemainingLength s < 1 then Some (None, s)
      else do {
        (b, s) \<leftarrow> Stream_Read_UINT8 s;
        if b \<noteq> BER_CLASS_UNIV OR BER_PC pc OR (BER_TAG_MASK AND tag) then Some (None, s)
        else Some (Some (), s) })"

definition ber_write_universal_tag :: "byte \<Rightarrow> bool \<Rightarrow> swriter" where
  "ber_write_universal_tag tag pc s = do {
     s \<leftarrow> Stream_Write_UINT8 ((BER_CLASS_UNIV OR BER_PC pc) OR (BER_TAG_MASK AND tag)) s;
     Some (1, s) }"

definition ber_read_application_tag :: "byte \<Rightarrow> int reader" where
  "ber_read_application_tag tag s =
     (if tag > 30 then
        (if Stream_GetRemainingLength s < 1 then Some (None, s)
         else do {
           (b, s) \<leftarrow> Stream_Read_UINT8 s;
           if b \<noteq> (BER_CLASS_APPL OR BER_CONSTRUCT) OR BER_TAG_MASK then Some (None, s)
           else if Stream_GetRemainingLength s < 1 then Some (None, s)
           else do {
             (b, s) \<leftarrow> Stream_Read_UINT8 s;
             if b \<noteq> tag then Some (None, s) else ber_read_length s } })
      else
        (if Stream_GetRemainingLength s < 1 then Some (None, s)
         else do {
           (b, s) \<leftarrow> Stream_Read_UINT8 s;
           if b \<noteq> (BER_CLASS_APPL OR BER_CONSTRUCT) OR (BER_TAG_MASK AND tag) then Some (None, s)
           else ber_read_length s }))"

definition ber_write_application_tag :: "byte \<Rightarrow> int \<Rightarrow> writer" where
  "ber_write_application_tag tag len s =
     (if tag > 30 then do {
        s \<leftarrow> Stream_Write_UINT8 ((BER_CLASS_APPL OR BER_CONSTRUCT) OR BER_TAG_MASK) s;
        s \<leftarrow> Stream_Write_UINT8 tag s;
        (_, s) \<leftarrow> ber_write_length len s;
        Some s }
      else do {
        s \<leftarrow> Stream_Write_UINT8 ((BER_CLASS_APPL OR BER_CONSTRUCT) OR (BER_TAG_MASK AND tag)) s;
        (_, s) \<leftarrow> ber_write_length len s;
        Some s })"

definition ber_read_contextual_tag :: "byte \<Rightarrow> bool \<Rightarrow> int reader" where
  "ber_read_contextual_tag tag pc s =
     (if Stream_GetRemainingLength s < 1 then Some (None, s)
      else do {
        (b, s) \<leftarrow> Stream_Read_UINT8 s;
        if b \<noteq> (BER_CLASS_CTXT OR BER_PC pc) OR (BER_TAG_MASK AND tag)
        then do { s \<leftarrow> Stream_Rewind s 1; Some (None, s) }
        else ber_read_length s })"

definition ber_write_contextual_tag :: "byte \<Rightarrow> int \<Rightarrow> bool \<Rightarrow> swriter" where
  "ber_write_contextual_tag tag len pc s = do {
     s \<leftarrow> Stream_Write_UINT8 ((BER_CLASS_CTXT OR BER_PC pc) OR (BER_TAG_MASK AND tag)) s;
     (n, s) \<leftarrow> ber_write_length len s;
     Some (1 + n, s) }"

definition ber_sizeof_contextual_tag :: "int \<Rightarrow> int" where
  "ber_sizeof_contextual_tag len = 1 + ber_sizeof_length len"

definition ber_read_sequence_tag :: "int reader" where
  "ber_read_sequence_tag s =
     (if Stream_GetRemainingLength s < 1 then Some (None, s)
      else do {
        (b, s) \<leftarrow> Stream_Read_UINT8 s;
        if b \<noteq> (BER_CLASS_UNIV OR BER_CONSTRUCT) OR BER_TAG_SEQUENCE_OF then Some (None, s)
        else ber_read_length s })"

definition ber_write_sequence_tag :: "int \<Rightarrow> swriter" where
  "ber_write_sequence_tag len s = do {
     s \<leftarrow> Stream_Write_UINT8 ((BER_CLASS_UNIV OR BER_CONSTRUCT) OR (BER_TAG_MASK AND BER_TAG_SEQUENCE)) s;
     (n, s) \<leftarrow> ber_write_length len s;
     Some (1 + n, s) }"

definition ber_sizeof_sequence :: "int \<Rightarrow> int option" where
  "ber_sizeof_sequence len = int_ck (1 + ber_sizeof_length len + len)"

definition ber_sizeof_sequence_tag :: "int \<Rightarrow> int" where
  "ber_sizeof_sequence_tag len = 1 + ber_sizeof_length len"

definition ber_read_enumerated :: "byte \<Rightarrow> byte reader" where
  "ber_read_enumerated cnt =
     try_read (ber_read_universal_tag BER_TAG_ENUMERATED False) (\<lambda>_. try_read ber_read_length (\<lambda>len s.
       if len \<noteq> 1 \<or> Stream_GetRemainingLength s < 1 then Some (None, s)
       else do {
         (e, s) \<leftarrow> Stream_Read_UINT8 s;
         if unat e + 1 > unat cnt then Some (None, s) else Some (Some e, s) }))"

definition ber_write_enumerated :: "byte \<Rightarrow> byte \<Rightarrow> writer" where
  "ber_write_enumerated cnt e s = do {
     (_, s) \<leftarrow> ber_write_universal_tag BER_TAG_ENUMERATED False s;
     (_, s) \<leftarrow> ber_write_length 1 s;
     Stream_Write_UINT8 e s }"

text \<open>The result is the length and the padding.\<close>

definition ber_read_bit_string :: "(int \<times> byte) reader" where
  "ber_read_bit_string =
     try_read (ber_read_universal_tag BER_TAG_BIT_STRING False) (\<lambda>_. try_read ber_read_length (\<lambda>len s.
       if Stream_GetRemainingLength s < 1 then Some (None, s)
       else do { (p, s) \<leftarrow> Stream_Read_UINT8 s; Some (Some (len, p), s) }))"

text \<open>\<^verbatim>\<open>Stream_Write(s, str, length)\<close> copies \<^verbatim>\<open>(size_t) length\<close> bytes.\<close>

definition stream_write_n :: "byte list \<Rightarrow> int \<Rightarrow> writer" where
  "stream_write_n str len s = do { d \<leftarrow> mem_read str 0 (to_size len); Stream_Write d s }"

definition ber_write_octet_string :: "byte list \<Rightarrow> int \<Rightarrow> swriter" where
  "ber_write_octet_string oct_str len s = do {
     (n, s) \<leftarrow> ber_write_universal_tag BER_TAG_OCTET_STRING False s;
     (m, s) \<leftarrow> ber_write_length len s;
     s \<leftarrow> stream_write_n oct_str len s;
     total \<leftarrow> int_ck (0 + n + m + len);
     Some (total, s) }"

definition ber_read_octet_string_tag :: "int reader" where
  "ber_read_octet_string_tag =
     try_read (ber_read_universal_tag BER_TAG_OCTET_STRING False) (\<lambda>_. ber_read_length)"

definition ber_write_octet_string_tag :: "int \<Rightarrow> swriter" where
  "ber_write_octet_string_tag len s = do {
     (_, s) \<leftarrow> ber_write_universal_tag BER_TAG_OCTET_STRING False s;
     (_, s) \<leftarrow> ber_write_length len s;
     Some (1 + ber_sizeof_length len, s) }"

definition ber_sizeof_octet_string :: "int \<Rightarrow> int option" where
  "ber_sizeof_octet_string len = int_ck (1 + ber_sizeof_length len + len)"

definition ber_read_BOOL :: "bool reader" where
  "ber_read_BOOL =
     try_read (ber_read_universal_tag BER_TAG_BOOLEAN False) (\<lambda>_. try_read ber_read_length (\<lambda>len s.
       if len \<noteq> 1 \<or> Stream_GetRemainingLength s < 1 then Some (None, s)
       else do { (v, s) \<leftarrow> Stream_Read_UINT8 s; Some (Some (v \<noteq> 0), s) }))"

text \<open>The argument is the C \<^verbatim>\<open>BOOL\<close>, an \<^verbatim>\<open>int\<close> that is compared with \<^verbatim>\<open>TRUE\<close>, that is 1.\<close>

definition ber_write_BOOL :: "int \<Rightarrow> writer" where
  "ber_write_BOOL val s = do {
     (_, s) \<leftarrow> ber_write_universal_tag BER_TAG_BOOLEAN False s;
     (_, s) \<leftarrow> ber_write_length 1 s;
     Stream_Write_UINT8 (if val = 1 then 0xFF else 0) s }"

text \<open>The flag says whether the caller passed a variable or \<^verbatim>\<open>NULL\<close>.\<close>

definition ber_read_integer :: "bool \<Rightarrow> u32 option reader" where
  "ber_read_integer want =
     try_read (ber_read_universal_tag BER_TAG_INTEGER False) (\<lambda>_. try_read ber_read_length (\<lambda>len s.
       if to_int (Stream_GetRemainingLength s) < len then Some (None, s)
       else if \<not> want then do {
         (ok, s) \<leftarrow> Stream_SafeSeek s (to_size len);
         Some (if ok then Some None else None, s) }
       else if len = 1 then do { (v, s) \<leftarrow> Stream_Read_UINT8 s; Some (Some (Some (ucast v)), s) }
       else if len = 2 then do { (v, s) \<leftarrow> Stream_Read_UINT16_BE s; Some (Some (Some (ucast v)), s) }
       else if len = 3 then do {
         (b, s) \<leftarrow> Stream_Read_UINT8 s;
         (v, s) \<leftarrow> Stream_Read_UINT16_BE s;
         Some (Some (Some (ucast v + push_bit 16 (ucast b))), s) }
       else if len = 4 then do { (v, s) \<leftarrow> Stream_Read_UINT32_BE s; Some (Some (Some v), s) }
       else Some (None, s)))"

definition ber_write_integer :: "u32 \<Rightarrow> swriter" where
  "ber_write_integer v s =
     (if v < 0x80 then do {
        (_, s) \<leftarrow> ber_write_universal_tag BER_TAG_INTEGER False s;
        (_, s) \<leftarrow> ber_write_length 1 s;
        s \<leftarrow> Stream_Write_UINT8 (ucast v) s;
        Some (3, s) }
      else if v < 0x8000 then do {
        (_, s) \<leftarrow> ber_write_universal_tag BER_TAG_INTEGER False s;
        (_, s) \<leftarrow> ber_write_length 2 s;
        s \<leftarrow> Stream_Write_UINT16_BE (ucast v) s;
        Some (4, s) }
      else if v < 0x800000 then do {
        (_, s) \<leftarrow> ber_write_universal_tag BER_TAG_INTEGER False s;
        (_, s) \<leftarrow> ber_write_length 3 s;
        s \<leftarrow> Stream_Write_UINT8 (ucast (drop_bit 16 v)) s;
        s \<leftarrow> Stream_Write_UINT16_BE (ucast (v AND 0xFFFF)) s;
        Some (5, s) }
      else if v < 0x80000000 then do {
        (_, s) \<leftarrow> ber_write_universal_tag BER_TAG_INTEGER False s;
        (_, s) \<leftarrow> ber_write_length 4 s;
        s \<leftarrow> Stream_Write_UINT32_BE v s;
        Some (6, s) }
      else Some (0, s))"

definition ber_sizeof_integer :: "u32 \<Rightarrow> int" where
  "ber_sizeof_integer v =
     (if v < 0x80 then 3 else if v < 0x8000 then 4 else if v < 0x800000 then 5
      else if v < 0x80000000 then 6 else 0)"

definition ber_read_integer_length :: "int reader" where
  "ber_read_integer_length =
     try_read (ber_read_universal_tag BER_TAG_INTEGER False) (\<lambda>_. ber_read_length)"

section \<open>Operations of der.c\<close>

definition der_skip_length :: "int \<Rightarrow> int" where
  "der_skip_length len = (if len > 0x7F \<and> len \<le> 0xFF then 2 else if len > 0xFF then 3 else 1)"

definition der_write_length :: "int \<Rightarrow> swriter" where
  "der_write_length len s =
     (if len > 0x7F \<and> len \<le> 0xFF then do {
        s \<leftarrow> Stream_Write_UINT8 0x81 s;
        s \<leftarrow> Stream_Write_UINT8 (word_of_int len) s;
        Some (2, s) }
      else if len > 0xFF then do {
        s \<leftarrow> Stream_Write_UINT8 0x82 s;
        s \<leftarrow> Stream_Write_UINT16_BE (word_of_int len) s;
        Some (3, s) }
      else do { s \<leftarrow> Stream_Write_UINT8 (word_of_int len) s; Some (1, s) })"

definition der_get_content_length :: "int \<Rightarrow> int option" where
  "der_get_content_length len =
     (if len > 0x81 \<and> len \<le> 0x102 then int_ck (len - 3)
      else if len > 0x102 then int_ck (len - 4)
      else int_ck (len - 2))"

definition der_skip_contextual_tag :: "int \<Rightarrow> int" where
  "der_skip_contextual_tag len = der_skip_length len + 1"

definition der_write_contextual_tag :: "byte \<Rightarrow> int \<Rightarrow> bool \<Rightarrow> swriter" where
  "der_write_contextual_tag tag len pc s = do {
     s \<leftarrow> Stream_Write_UINT8 ((BER_CLASS_CTXT OR BER_PC pc) OR (BER_TAG_MASK AND tag)) s;
     (n, s) \<leftarrow> der_write_length len s;
     Some (n + 1, s) }"

definition der_write_universal_tag :: "byte \<Rightarrow> bool \<Rightarrow> writer" where
  "der_write_universal_tag tag pc s =
     Stream_Write_UINT8 ((BER_CLASS_UNIV OR BER_PC pc) OR (BER_TAG_MASK AND tag)) s"

definition der_skip_octet_string :: "int \<Rightarrow> int option" where
  "der_skip_octet_string len = int_ck (1 + der_skip_length len + len)"

definition der_write_octet_string :: "byte list \<Rightarrow> int \<Rightarrow> writer" where
  "der_write_octet_string oct_str len s = do {
     s \<leftarrow> der_write_universal_tag BER_TAG_OCTET_STRING False s;
     (_, s) \<leftarrow> der_write_length len s;
     stream_write_n oct_str len s }"

definition der_skip_sequence_tag :: "int \<Rightarrow> int" where
  "der_skip_sequence_tag len = 1 + der_skip_length len"

definition der_write_sequence_tag :: "int \<Rightarrow> swriter" where
  "der_write_sequence_tag len s = do {
     s \<leftarrow> Stream_Write_UINT8 ((BER_CLASS_UNIV OR BER_CONSTRUCT) OR (BER_TAG_MASK AND BER_TAG_SEQUENCE)) s;
     (n, s) \<leftarrow> der_write_length len s;
     Some (n + 1, s) }"

section \<open>Decoders\<close>

fun ber_dec_length :: "byte list \<Rightarrow> int option \<times> nat" where
  "ber_dec_length [] = (None, 0)"
| "ber_dec_length (b # bs) =
     (if b AND 0x80 = 0 then (Some (uint b), 1)
      else if length bs < unat (b AND NOT 0x80) then (None, 1)
      else if b AND NOT 0x80 = 1 then (Some (uint (hd bs)), 2)
      else if b AND NOT 0x80 = 2 then (Some (uint (be16 bs)), 3)
      else (None, 1))"

text \<open>An expected byte, consumed also when it is another one.\<close>

definition d_expect :: "byte \<Rightarrow> byte list \<Rightarrow> unit option \<times> nat" where
  "d_expect c bs = (case bs of [] \<Rightarrow> (None, 0) | b # _ \<Rightarrow> (if b = c then Some () else None, 1))"

definition ber_tag :: "byte \<Rightarrow> byte \<Rightarrow> bool \<Rightarrow> byte" where
  "ber_tag cls tag pc = (cls OR BER_PC pc) OR (BER_TAG_MASK AND tag)"

definition ber_dec_universal :: "byte \<Rightarrow> bool \<Rightarrow> byte list \<Rightarrow> unit option \<times> nat" where
  "ber_dec_universal tag pc = d_expect (ber_tag BER_CLASS_UNIV tag pc)"

definition ber_dec_application :: "byte \<Rightarrow> byte list \<Rightarrow> int option \<times> nat" where
  "ber_dec_application tag =
     (if tag > 30
      then d_then (d_expect ((BER_CLASS_APPL OR BER_CONSTRUCT) OR BER_TAG_MASK))
             (\<lambda>_. d_then (d_expect tag) (\<lambda>_. ber_dec_length))
      else d_then (d_expect (ber_tag BER_CLASS_APPL tag True)) (\<lambda>_. ber_dec_length))"

definition ber_dec_contextual :: "byte \<Rightarrow> bool \<Rightarrow> byte list \<Rightarrow> int option \<times> nat" where
  "ber_dec_contextual tag pc bs =
     (if bs = [] \<or> hd bs \<noteq> ber_tag BER_CLASS_CTXT tag pc then (None, 0)
      else d_then (d_expect (ber_tag BER_CLASS_CTXT tag pc)) (\<lambda>_. ber_dec_length) bs)"

definition ber_dec_sequence :: "byte list \<Rightarrow> int option \<times> nat" where
  "ber_dec_sequence = d_then (d_expect (ber_tag BER_CLASS_UNIV BER_TAG_SEQUENCE True)) (\<lambda>_. ber_dec_length)"

text \<open>A universal primitive tag, a length, and a body that depends on the length.\<close>

definition ber_dec_primitive :: "byte \<Rightarrow> (int \<Rightarrow> byte list \<Rightarrow> 'a option \<times> nat) \<Rightarrow> byte list \<Rightarrow> 'a option \<times> nat" where
  "ber_dec_primitive tag body =
     d_then (ber_dec_universal tag False) (\<lambda>_. d_then ber_dec_length body)"

definition ber_dec_byte_body :: "(byte \<Rightarrow> 'a option) \<Rightarrow> int \<Rightarrow> byte list \<Rightarrow> 'a option \<times> nat" where
  "ber_dec_byte_body f len bs = (if len \<noteq> 1 \<or> bs = [] then (None, 0) else (f (hd bs), 1))"

definition ber_dec_bits_body :: "int \<Rightarrow> byte list \<Rightarrow> (int \<times> byte) option \<times> nat" where
  "ber_dec_bits_body len bs = (if bs = [] then (None, 0) else (Some (len, hd bs), 1))"

definition ber_dec_int_body :: "bool \<Rightarrow> int \<Rightarrow> byte list \<Rightarrow> u32 option option \<times> nat" where
  "ber_dec_int_body want len bs =
     (if to_int (length bs) < len then (None, 0)
      else if \<not> want then (Some None, nat len)
      else if len = 1 then (Some (Some (ucast (hd bs))), 1)
      else if len = 2 then (Some (Some (ucast (be16 bs))), 2)
      else if len = 3 then (Some (Some (ucast (be16 (tl bs)) + push_bit 16 (ucast (hd bs)))), 3)
      else if len = 4 then (Some (Some (be32 bs)), 4)
      else (None, 0))"

section \<open>Readers implement the decoders\<close>

lemma ber_read_length_decodes: "decodes ber_read_length ber_dec_length"
proof (rule decodesI)
  fix s assume s: "stream_wf s"
  show "snd (ber_dec_length (st_rest s)) \<le> length (st_rest s)"
    by (cases "st_rest s") (auto simp: Suc_le_eq)
  show "ber_read_length s = Some (fst (ber_dec_length (st_rest s)), stream_skip (snd (ber_dec_length (st_rest s))) s)"
  proof (cases "st_rest s")
    case Nil
    then show ?thesis using s by (simp add: ber_read_length_def remaining_rest)
  next
    case (Cons b bs)
    then show ?thesis using s
      by (auto simp: ber_read_length_def stream_simps not_less Suc_le_eq) (simp_all add: numeral_eq_Suc)
  qed
qed

text \<open>Reading an expected byte and going on is a \<open>try_read\<close>.\<close>

definition expect_byte :: "byte \<Rightarrow> unit reader" where
  "expect_byte c s =
     (if Stream_GetRemainingLength s < 1 then Some (None, s)
      else do { (b, s) \<leftarrow> Stream_Read_UINT8 s; if b \<noteq> c then Some (None, s) else Some (Some (), s) })"

lemma expect_byte_decodes: "decodes (expect_byte c) (d_expect c)"
proof (rule decodesI)
  fix s assume s: "stream_wf s"
  show "snd (d_expect c (st_rest s)) \<le> length (st_rest s)"
    by (auto simp: d_expect_def split: list.split)
  show "expect_byte c s = Some (fst (d_expect c (st_rest s)), stream_skip (snd (d_expect c (st_rest s))) s)"
    using s by (cases "st_rest s") (auto simp: expect_byte_def d_expect_def stream_simps)
qed

lemma expect_byte_then:
  "(if Stream_GetRemainingLength s < 1 then Some (None, s)
    else do { (b, s) \<leftarrow> Stream_Read_UINT8 s; if b \<noteq> c then Some (None, s) else k s }) =
   try_read (expect_byte c) (\<lambda>_. k) s"
  by (cases "Stream_Read_UINT8 s") (auto simp: try_read_def expect_byte_def)

lemma ber_universal_decodes: "decodes (ber_read_universal_tag tag pc) (ber_dec_universal tag pc)"
proof -
  have "ber_read_universal_tag tag pc = expect_byte (ber_tag BER_CLASS_UNIV tag pc)"
    by (rule ext) (simp add: ber_read_universal_tag_def expect_byte_def ber_tag_def or.assoc)
  then show ?thesis by (simp add: ber_dec_universal_def expect_byte_decodes)
qed

lemma ber_application_decodes: "decodes (ber_read_application_tag tag) (ber_dec_application tag)"
proof -
  have "ber_read_application_tag tag =
      (if tag > 30
       then try_read (expect_byte ((BER_CLASS_APPL OR BER_CONSTRUCT) OR BER_TAG_MASK))
              (\<lambda>_. try_read (expect_byte tag) (\<lambda>_. ber_read_length))
       else try_read (expect_byte (ber_tag BER_CLASS_APPL tag True)) (\<lambda>_. ber_read_length))"
    by (rule ext)
       (simp add: ber_read_application_tag_def ber_tag_def BER_PC_def expect_byte_then [simplified, symmetric] cong: if_cong)
  then show ?thesis
    by (simp add: ber_dec_application_def decodes_try_read expect_byte_decodes ber_read_length_decodes)
qed

lemma ber_sequence_decodes: "decodes ber_read_sequence_tag ber_dec_sequence"
proof -
  have t: "ber_tag BER_CLASS_UNIV BER_TAG_SEQUENCE True = (BER_CLASS_UNIV OR BER_CONSTRUCT) OR BER_TAG_SEQUENCE_OF"
    by (simp add: ber_tag_def BER_PC_def BER_CLASS_UNIV_def BER_TAG_SEQUENCE_def BER_TAG_SEQUENCE_OF_def
        BER_TAG_MASK_def BER_CONSTRUCT_def)
  have eq: "ber_read_sequence_tag = try_read (expect_byte (ber_tag BER_CLASS_UNIV BER_TAG_SEQUENCE True)) (\<lambda>_. ber_read_length)"
    unfolding t by (rule ext) (simp only: ber_read_sequence_tag_def expect_byte_then)
  show ?thesis unfolding ber_dec_sequence_def eq
    by (intro decodes_try_read expect_byte_decodes ber_read_length_decodes)
qed

lemma ber_contextual_decodes: "decodes (ber_read_contextual_tag tag pc) (ber_dec_contextual tag pc)"
proof -
  let ?t = "ber_tag BER_CLASS_CTXT tag pc"
  let ?d = "d_then (d_expect ?t) (\<lambda>_. ber_dec_length)"
  have d: "decodes (try_read (expect_byte ?t) (\<lambda>_. ber_read_length)) ?d"
    by (intro decodes_try_read expect_byte_decodes ber_read_length_decodes)
  show ?thesis
  proof (rule decodesI)
    fix s assume s: "stream_wf s"
    show "snd (ber_dec_contextual tag pc (st_rest s)) \<le> length (st_rest s)"
      using decodesD(1) [OF d s] by (simp add: ber_dec_contextual_def)
    show "ber_read_contextual_tag tag pc s = Some (fst (ber_dec_contextual tag pc (st_rest s)),
        stream_skip (snd (ber_dec_contextual tag pc (st_rest s))) s)"
    proof (cases "st_rest s = [] \<or> hd (st_rest s) \<noteq> ?t")
      case True
      have "Stream_Rewind (stream_skip 1 s) (int 1) = Some (stream_skip (1 - 1) s)" if "st_rest s \<noteq> []"
        using s that by (intro Stream_Rewind_skip) (auto simp: Suc_le_eq)
      then show ?thesis using True s
        by (auto simp: ber_read_contextual_tag_def ber_dec_contextual_def stream_simps ber_tag_def)
    next
      case False
      have "ber_read_contextual_tag tag pc s = try_read (expect_byte ?t) (\<lambda>_. ber_read_length) s"
        using False s
        by (simp add: ber_read_contextual_tag_def try_read_def expect_byte_def stream_simps ber_tag_def Suc_le_eq)
      then show ?thesis using False decodesD(2) [OF d s] by (simp add: ber_dec_contextual_def)
    qed
  qed
qed

lemma ber_dec_length_range: "ber_dec_length bs = (Some len, n) \<Longrightarrow> 0 \<le> len \<and> len < 65536"
  using unsigned_less [of "hd bs", where ?'a = int] unsigned_less [of "hd (tl bs)", where ?'a = int]
    unsigned_less [of "be16 (tl bs)", where ?'a = int]
  by (cases bs) (auto split: if_splits)

lemma ber_primitive_decodes:
  assumes "\<And>len. 0 \<le> len \<Longrightarrow> len < 65536 \<Longrightarrow> decodes (k len) (body len)"
  shows "decodes (try_read (ber_read_universal_tag tag False) (\<lambda>_. try_read ber_read_length k))
           (ber_dec_primitive tag body)"
  unfolding ber_dec_primitive_def
  using assms by (intro decodes_try_read decodes_try_read_on [OF ber_read_length_decodes] ber_universal_decodes)
    (auto dest: ber_dec_length_range)

lemma ber_enumerated_decodes:
  "decodes (ber_read_enumerated cnt)
     (ber_dec_primitive BER_TAG_ENUMERATED (ber_dec_byte_body (\<lambda>e. if e < cnt then Some e else None)))"
  unfolding ber_read_enumerated_def
  by (rule ber_primitive_decodes, rule decodesI)
     (auto simp: ber_dec_byte_body_def stream_simps Suc_le_eq word_less_nat_alt)

lemma ber_BOOL_decodes:
  "decodes ber_read_BOOL (ber_dec_primitive BER_TAG_BOOLEAN (ber_dec_byte_body (\<lambda>v. Some (v \<noteq> 0))))"
  unfolding ber_read_BOOL_def
  by (rule ber_primitive_decodes, rule decodesI) (auto simp: ber_dec_byte_body_def stream_simps Suc_le_eq)

lemma ber_bit_string_decodes:
  "decodes ber_read_bit_string (ber_dec_primitive BER_TAG_BIT_STRING ber_dec_bits_body)"
  unfolding ber_read_bit_string_def
  by (rule ber_primitive_decodes, rule decodesI) (auto simp: ber_dec_bits_body_def stream_simps Suc_le_eq)

lemma ber_tag_length_decodes:
  "decodes ber_read_octet_string_tag (d_then (ber_dec_universal BER_TAG_OCTET_STRING False) (\<lambda>_. ber_dec_length))"
  "decodes ber_read_integer_length (d_then (ber_dec_universal BER_TAG_INTEGER False) (\<lambda>_. ber_dec_length))"
  unfolding ber_read_octet_string_tag_def ber_read_integer_length_def
  by (intro decodes_try_read ber_universal_decodes ber_read_length_decodes)+

lemma ber_integer_decodes: "decodes (ber_read_integer want) (ber_dec_primitive BER_TAG_INTEGER (ber_dec_int_body want))"
  unfolding ber_read_integer_def
proof (rule ber_primitive_decodes, rule decodesI)
  fix len :: int and s assume len: "0 \<le> len" "len < 65536" and s: "stream_wf s"
  have le: "nat len \<le> length (st_rest s)" if "\<not> to_int (length (st_rest s)) < len"
    using to_int_fits that len(1) by simp
  show "snd (ber_dec_int_body want len (st_rest s)) \<le> length (st_rest s)"
    using le by (auto simp: ber_dec_int_body_def)
  have sz: "to_size len = nat len" using len by (simp add: to_size_def SIZE_MOD_def)
  show "(if to_int (Stream_GetRemainingLength s) < len then Some (None, s)
       else if \<not> want then do {
         (ok, s) \<leftarrow> Stream_SafeSeek s (to_size len);
         Some (if ok then Some None else None, s) }
       else if len = 1 then do { (v, s) \<leftarrow> Stream_Read_UINT8 s; Some (Some (Some (ucast v)), s) }
       else if len = 2 then do { (v, s) \<leftarrow> Stream_Read_UINT16_BE s; Some (Some (Some (ucast v)), s) }
       else if len = 3 then do {
         (b, s) \<leftarrow> Stream_Read_UINT8 s;
         (v, s) \<leftarrow> Stream_Read_UINT16_BE s;
         Some (Some (Some (ucast v + push_bit 16 (ucast b))), s) }
       else if len = 4 then do { (v, s) \<leftarrow> Stream_Read_UINT32_BE s; Some (Some (Some v), s) }
       else Some (None, s)) =
    Some (fst (ber_dec_int_body want len (st_rest s)), stream_skip (snd (ber_dec_int_body want len (st_rest s))) s)"
  proof (cases "len = 3 \<and> 3 \<le> length (st_rest s)")
    case True
    then obtain a bs where r: "st_rest s = a # bs" "2 \<le> length bs"
      by (cases "st_rest s") auto
    have "to_size 3 = 3" by (simp add: to_size_def SIZE_MOD_def)
    then show ?thesis using s True r by (auto simp: ber_dec_int_body_def stream_simps numeral_3_eq_3)
  next
    case False
    then show ?thesis using s le len
      by (auto simp: ber_dec_int_body_def stream_simps sz Suc_le_eq)
  qed
qed

lemmas ber_decodes =
  ber_read_length_decodes ber_universal_decodes ber_application_decodes ber_sequence_decodes
  ber_contextual_decodes ber_enumerated_decodes ber_BOOL_decodes ber_bit_string_decodes
  ber_tag_length_decodes ber_integer_decodes

section \<open>Encodings\<close>

definition ber_enc_length :: "int \<Rightarrow> byte list" where
  "ber_enc_length len =
     (if len > 0xFF then 0x82 # be_bytes 2 (word_of_int len :: u16)
      else if len > 0x7F then [0x81, word_of_int len] else [word_of_int len])"

text \<open>A writer emits bytes and returns their number.\<close>

definition emits_sz :: "swriter \<Rightarrow> byte list \<Rightarrow> bool" where
  "emits_sz w bs \<longleftrightarrow> (\<forall>s. stream_wf s \<longrightarrow> length bs \<le> length (st_rest s) \<longrightarrow>
     w s = Some (int (length bs), stream_emit bs s))"

lemma emits_szI:
  "(\<And>s. stream_wf s \<Longrightarrow> length bs \<le> length (st_rest s) \<Longrightarrow> w s = Some (int (length bs), stream_emit bs s)) \<Longrightarrow>
   emits_sz w bs"
  by (simp add: emits_sz_def)

lemma emits_szD:
  "emits_sz w bs \<Longrightarrow> stream_wf s \<Longrightarrow> length bs \<le> length (st_rest s) \<Longrightarrow> w s = Some (int (length bs), stream_emit bs s)"
  by (simp add: emits_sz_def)

text \<open>The facts with which a writer is run on a stream with enough room.\<close>

lemmas put_simps =
  emitsD [OF emits_UINT8] emitsD [OF emits_UINT16_BE] emitsD [OF emits_UINT32_BE] stream_wf_emit

lemma emits_ber_length: "emits_sz (ber_write_length len) (ber_enc_length len)"
  by (rule emits_szI) (auto simp: ber_write_length_def ber_enc_length_def put_simps)

lemma ber_sizeof_length_eq: "ber_sizeof_length len = int (length (ber_enc_length len))"
  by (simp add: ber_sizeof_length_def ber_enc_length_def)

lemma emits_ber_universal: "emits_sz (ber_write_universal_tag tag pc) [ber_tag BER_CLASS_UNIV tag pc]"
  by (rule emits_szI) (simp add: ber_write_universal_tag_def put_simps ber_tag_def)

lemmas ber_put_simps = put_simps emits_szD [OF emits_ber_length] emits_szD [OF emits_ber_universal]

definition ber_enc_application :: "byte \<Rightarrow> int \<Rightarrow> byte list" where
  "ber_enc_application tag len =
     (if tag > 30 then [(BER_CLASS_APPL OR BER_CONSTRUCT) OR BER_TAG_MASK, tag]
      else [ber_tag BER_CLASS_APPL tag True]) @ ber_enc_length len"

definition ber_enc_contextual :: "byte \<Rightarrow> bool \<Rightarrow> int \<Rightarrow> byte list" where
  "ber_enc_contextual tag pc len = ber_tag BER_CLASS_CTXT tag pc # ber_enc_length len"

definition ber_enc_sequence :: "int \<Rightarrow> byte list" where
  "ber_enc_sequence len = ber_tag BER_CLASS_UNIV BER_TAG_SEQUENCE True # ber_enc_length len"

definition ber_enc_primitive :: "byte \<Rightarrow> byte list \<Rightarrow> byte list" where
  "ber_enc_primitive tag body = ber_tag BER_CLASS_UNIV tag False # ber_enc_length (int (length body)) @ body"

lemma emits_ber_application: "emits (ber_write_application_tag tag len) (ber_enc_application tag len)"
  by (rule emitsI) (auto simp: ber_write_application_tag_def ber_enc_application_def ber_put_simps ber_tag_def BER_PC_def)

lemma emits_ber_contextual: "emits_sz (ber_write_contextual_tag tag len pc) (ber_enc_contextual tag pc len)"
  by (rule emits_szI) (simp add: ber_write_contextual_tag_def ber_enc_contextual_def ber_put_simps ber_tag_def)

lemma emits_ber_sequence: "emits_sz (ber_write_sequence_tag len) (ber_enc_sequence len)"
  by (rule emits_szI) (simp add: ber_write_sequence_tag_def ber_enc_sequence_def ber_put_simps ber_tag_def BER_PC_def)

lemma emits_ber_enumerated: "emits (ber_write_enumerated cnt e) (ber_enc_primitive BER_TAG_ENUMERATED [e])"
  by (rule emitsI) (simp add: ber_write_enumerated_def ber_enc_primitive_def ber_put_simps)

lemma emits_ber_BOOL:
  "emits (ber_write_BOOL v) (ber_enc_primitive BER_TAG_BOOLEAN [if v = 1 then 0xFF else 0])"
  by (rule emitsI) (simp add: ber_write_BOOL_def ber_enc_primitive_def ber_put_simps)

lemma emits_ber_octet:
  assumes "int (length str) < INT_LIM - 4"
  shows "emits_sz (ber_write_octet_string str (int (length str))) (ber_enc_primitive BER_TAG_OCTET_STRING str)"
proof (rule emits_szI)
  fix s assume s: "stream_wf s" "length (ber_enc_primitive BER_TAG_OCTET_STRING str) \<le> length (st_rest s)"
  let ?hd = "ber_tag BER_CLASS_UNIV BER_TAG_OCTET_STRING False # ber_enc_length (int (length str))"
  have l: "length (ber_enc_length len) \<le> 3" for len by (simp add: ber_enc_length_def)
  have w: "stream_write_n str (int (length str)) t = Some (stream_emit str t)"
    if "stream_wf t" "length str \<le> length (st_rest t)" for t
    using that assms emitsD [OF emits_Write that]
    by (simp add: stream_write_n_def to_size_def mem_read_def SIZE_MOD_def INT_LIM_def)
  have "int_ck (1 + int (length (ber_enc_length (int (length str)))) + int (length str)) =
      Some (1 + int (length (ber_enc_length (int (length str)))) + int (length str))"
    using l [of "int (length str)"] assms by (simp add: int_ck_def INT_LIM_def)
  then show "ber_write_octet_string str (int (length str)) s =
      Some (int (length (ber_enc_primitive BER_TAG_OCTET_STRING str)), stream_emit (ber_enc_primitive BER_TAG_OCTET_STRING str) s)"
    using s by (simp add: ber_write_octet_string_def ber_put_simps ber_enc_primitive_def w)
qed

lemma emits_ber_octet_tag:
  "emits_sz (ber_write_octet_string_tag len) (ber_tag BER_CLASS_UNIV BER_TAG_OCTET_STRING False # ber_enc_length len)"
  by (rule emits_szI) (simp add: ber_write_octet_string_tag_def ber_put_simps ber_sizeof_length_eq)

definition ber_int_width :: "u32 \<Rightarrow> nat" where
  "ber_int_width v = (if v < 0x80 then 1 else if v < 0x8000 then 2 else if v < 0x800000 then 3 else 4)"

definition ber_enc_integer :: "u32 \<Rightarrow> byte list" where
  "ber_enc_integer v = ber_enc_primitive BER_TAG_INTEGER (be_bytes (ber_int_width v) v)"

lemma ber_enc_length_small [simp]: "0 \<le> l \<Longrightarrow> l \<le> 0x7F \<Longrightarrow> ber_enc_length l = [word_of_int l]"
  by (simp add: ber_enc_length_def)

lemma be_bytes_3: "be_bytes 3 v = [word_byte 2 v, word_byte 1 v, word_byte 0 v]"
  by (simp add: be_bytes_def le_bytes_def upt_rec numeral_eq_Suc)

lemma word_byte_ucast16:
  "word_byte 0 (ucast (w :: u32) :: u16) = word_byte 0 w" "word_byte 1 (ucast (w :: u32) :: u16) = word_byte 1 w"
  unfolding word_byte_def by (auto intro!: bit_word_eqI simp: bit_simps)

lemma emits_ber_integer:
  assumes "v < 0x80000000"
  shows "emits_sz (ber_write_integer v) (ber_enc_integer v)"
proof (rule emits_szI)
  fix s assume s: "stream_wf s" "length (ber_enc_integer v) \<le> length (st_rest s)"
  have b: "ucast v = word_byte 0 v" "ucast (drop_bit 16 v) = word_byte 2 v"
      "be_bytes 2 (ucast v :: u16) = be_bytes 2 v"
    by (simp_all add: be_bytes_simps word_byte_ucast16 del: One_nat_def) (simp_all add: word_byte_def)
  have b': "be_bytes 2 (ucast (v AND 0xFFFF) :: u16) = be_bytes 2 v"
    by (simp add: be_bytes_simps word_byte_half del: One_nat_def)
  have "be_bytes 1 v = [word_byte 0 v]" "be_bytes 3 v = word_byte 2 v # be_bytes 2 v"
    by (simp_all add: be_bytes_simps be_bytes_3)
  then show "ber_write_integer v s = Some (int (length (ber_enc_integer v)), stream_emit (ber_enc_integer v) s)"
    using s assms
    by (auto simp: ber_write_integer_def ber_put_simps ber_enc_integer_def ber_enc_primitive_def ber_int_width_def b b')
qed

lemma ber_sizeof_integer_eq:
  "v < 0x80000000 \<Longrightarrow> ber_sizeof_integer v = int (length (ber_enc_integer v))"
  by (auto simp: ber_sizeof_integer_def ber_enc_integer_def ber_enc_primitive_def ber_int_width_def)

section \<open>Matching pairs\<close>

definition ber_length_valid :: "int \<Rightarrow> bool" where
  "ber_length_valid len \<longleftrightarrow> 0 \<le> len \<and> len < 0x10000"

lemma byte_and_simps: "(0x82 :: byte) AND NOT 0x80 = 2" "(0x81 :: byte) AND NOT 0x80 = 1"
  "(0x82 :: byte) AND 0x80 \<noteq> 0" "(0x81 :: byte) AND 0x80 \<noteq> 0"
  by simp_all

lemma uint_small_byte: "0 \<le> l \<Longrightarrow> l < 256 \<Longrightarrow> uint (word_of_int l :: byte) = l"
  by (simp add: uint_word_of_int_eq take_bit_int_eq_self)

lemma ber_dec_enc_length:
  assumes "ber_length_valid len"
  shows "ber_dec_length (ber_enc_length len @ ts) = (Some len, length (ber_enc_length len))"
proof -
  consider "len > 0xFF" | "len > 0x7F" "len \<le> 0xFF" | "len \<le> 0x7F" by linarith
  then show ?thesis
  proof cases
    case 1
    have "uint (word_of_int len :: u16) = len"
      using assms by (simp add: ber_length_valid_def uint_word_of_int_eq take_bit_int_eq_self)
    then show ?thesis using 1 by (simp add: ber_enc_length_def)
  next
    case 2
    then show ?thesis by (simp add: ber_enc_length_def uint_small_byte)
  next
    case 3
    then have u: "uint (word_of_int len :: byte) = len"
      using assms by (simp add: ber_length_valid_def uint_small_byte)
    then have "unat (word_of_int len :: byte) < 128" using 3 by (simp add: unat_eq_nat_uint)
    then show ?thesis using 3 u byte_high_bit [of "word_of_int len"] by (simp add: ber_enc_length_def)
  qed
qed

interpretation ber_length: wire_codec "\<lambda>l s. map_option snd (ber_write_length l s)" ber_read_length
  ber_enc_length ber_length_valid BLOCK_MAX
  using emits_ber_length
  by unfold_locales (auto simp: emits_def emits_sz_def ber_dec_enc_length
      intro!: decodes_parses [OF ber_read_length_decodes])

lemma d_expect_then [simp]:
  "d_then (d_expect c) f (c # bs) = (let (x, m) = f () bs in (x, Suc m))"
  by (simp add: d_then_def d_expect_def)

lemma ber_dec_enc_tag:
  assumes "ber_length_valid len"
  shows "ber_dec_application tag (ber_enc_application tag len @ ts) = (Some len, length (ber_enc_application tag len))"
    and "ber_dec_contextual tag pc (ber_enc_contextual tag pc len @ ts) = (Some len, length (ber_enc_contextual tag pc len))"
    and "ber_dec_sequence (ber_enc_sequence len @ ts) = (Some len, length (ber_enc_sequence len))"
  using ber_dec_enc_length [OF assms]
  by (simp_all add: ber_dec_application_def ber_enc_application_def ber_dec_contextual_def
      ber_enc_contextual_def ber_dec_sequence_def ber_enc_sequence_def)

interpretation ber_application: wire_codec "ber_write_application_tag tag" "ber_read_application_tag tag"
  "ber_enc_application tag" ber_length_valid BLOCK_MAX for tag
  by unfold_locales (auto simp: emits_ber_application ber_dec_enc_tag(1)
      intro!: decodes_parses [OF ber_application_decodes])

interpretation ber_contextual: wire_codec "\<lambda>l s. map_option snd (ber_write_contextual_tag tag l pc s)"
  "ber_read_contextual_tag tag pc" "ber_enc_contextual tag pc" ber_length_valid BLOCK_MAX for tag pc
  using emits_ber_contextual [of tag _ pc]
  by unfold_locales (auto simp: emits_def emits_sz_def ber_dec_enc_tag(2)
      intro!: decodes_parses [OF ber_contextual_decodes])

interpretation ber_sequence: wire_codec "\<lambda>l s. map_option snd (ber_write_sequence_tag l s)"
  ber_read_sequence_tag ber_enc_sequence ber_length_valid BLOCK_MAX
  using emits_ber_sequence
  by unfold_locales (auto simp: emits_def emits_sz_def ber_dec_enc_tag(3)
      intro!: decodes_parses [OF ber_sequence_decodes])

lemma ber_dec_enc_primitive:
  assumes "int (length body) < 0x10000" "f (int (length body)) (body @ ts) = (Some v, length body)"
  shows "ber_dec_primitive tag f (ber_enc_primitive tag body @ ts) = (Some v, length (ber_enc_primitive tag body))"
  using ber_dec_enc_length [of "int (length body)" "body @ ts"] assms
  by (simp add: ber_dec_primitive_def ber_enc_primitive_def ber_dec_universal_def ber_length_valid_def
      d_then_def [of ber_dec_length])

interpretation ber_enumerated: wire_codec "ber_write_enumerated cnt" "ber_read_enumerated cnt"
  "\<lambda>e. ber_enc_primitive BER_TAG_ENUMERATED [e]" "\<lambda>e. e < cnt" BLOCK_MAX for cnt
  by unfold_locales (auto simp: emits_ber_enumerated ber_dec_byte_body_def
      intro!: decodes_parses [OF ber_enumerated_decodes] ber_dec_enc_primitive)

interpretation ber_BOOL: wire_codec "\<lambda>b. ber_write_BOOL (of_bool b)" ber_read_BOOL
  "\<lambda>b. ber_enc_primitive BER_TAG_BOOLEAN [if b then 0xFF else 0]" "\<lambda>b. True" BLOCK_MAX
  using emits_ber_BOOL [of "of_bool _"]
  by unfold_locales (auto simp: ber_dec_byte_body_def
      intro!: decodes_parses [OF ber_BOOL_decodes] ber_dec_enc_primitive)

text \<open>The integers: the bytes of the width the writer chose give the value again.\<close>

lemma unat_be16: "unat (be16 bs) = 256 * unat (bs ! 0) + unat (bs ! 1)"
  using unat_byte_less [of "bs ! 0"] unat_byte_less [of "bs ! 1"]
  by (simp add: be16_def unat_bytes_simps)

lemma be24_value:
  assumes "v < 0x800000"
  shows "ucast (be16 (word_byte 1 v # word_byte 0 v # ts)) + push_bit 16 (ucast (word_byte 2 v)) = (v :: u32)"
proof -
  have v: "unat v < 0x800000" using assms by (simp add: word_less_nat_alt)
  define B where "B = be16 (word_byte 1 v # word_byte 0 v # ts)"
  have B: "unat B = 256 * (unat v div 256 mod 256) + unat v mod 256"
    unfolding B_def by (simp add: unat_be16 unat_word_byte)
  have "unat v div 16777216 = 0" "unat v < 4294967296" using v by simp_all
  then have sum: "unat B + 65536 * (unat v div 65536 mod 256) = unat v"
    using nat_bytes4 [of "unat v"] B by simp
  then have "unat (ucast B + push_bit 16 (ucast (word_byte 2 v)) :: u32) = unat v"
    using v by (simp add: push_bit_eq_mult unat_word_ariths unat_ucast_mod unat_word_byte)
  then show ?thesis by (simp add: word_unat_eq_iff B_def)
qed

lemma ber_dec_int_body_enc:
  assumes "v < 0x80000000" "length (be_bytes (ber_int_width v) v @ ts) < 2 ^ 31"
  shows "ber_dec_int_body True (int (ber_int_width v)) (be_bytes (ber_int_width v) v @ ts) =
    (Some (Some v), ber_int_width v)"
proof -
  have ti: "to_int (length (be_bytes (ber_int_width v) v @ ts)) = int (length (be_bytes (ber_int_width v) v @ ts))"
    using assms(2) by (intro to_int_below) (simp add: INT_LIM_def)
  consider "v < 0x80" "ber_int_width v = 1" | "v < 0x8000" "ber_int_width v = 2"
    | "v < 0x800000" "ber_int_width v = 3" | "ber_int_width v = 4"
    by (metis ber_int_width_def)
  then show ?thesis
  proof cases
    case 1
    then have "ucast (word_byte 0 v) = v"
      by (simp add: word_byte_def ucast_u32 word_less_nat_alt)
    then show ?thesis using 1 ti by (simp add: ber_dec_int_body_def be_bytes_simps)
  next
    case 2
    then have "be_bytes 2 v = be_bytes 2 (ucast v :: u16)"
      by (simp add: be_bytes_simps word_byte_ucast16 del: One_nat_def)
    moreover have "ucast (ucast v :: u16) = v" using 2 by (simp add: ucast_u32 word_less_nat_alt)
    ultimately show ?thesis using 2 ti by (simp add: ber_dec_int_body_def)
  next
    case 3
    then show ?thesis using ti be24_value [of v ts] by (simp add: ber_dec_int_body_def be_bytes_3)
  next
    case 4
    then show ?thesis using ti by (simp add: ber_dec_int_body_def be32_bytes)
  qed
qed

interpretation ber_integer: wire_codec "\<lambda>v s. map_option snd (ber_write_integer (the v) s)"
  "ber_read_integer True" "\<lambda>v. ber_enc_integer (the v)" "\<lambda>v. \<exists>i. v = Some i \<and> i < 0x80000000" "2 ^ 31"
proof unfold_locales
  fix v :: "u32 option" assume "\<exists>i. v = Some i \<and> i < 0x80000000"
  then obtain i where i: "v = Some i" "i < 0x80000000" by blast
  show "emits (\<lambda>s. map_option snd (ber_write_integer (the v) s)) (ber_enc_integer (the v))"
    using emits_ber_integer [OF i(2)] i(1) by (simp add: emits_def emits_sz_def)
  show "parses (2 ^ 31) (ber_read_integer True) (ber_enc_integer (the v)) v"
    unfolding i(1) option.sel ber_enc_integer_def
  proof (rule decodes_parses [OF ber_integer_decodes], rule ber_dec_enc_primitive)
    fix ts assume "length (ber_enc_primitive BER_TAG_INTEGER (be_bytes (ber_int_width i) i) @ ts) < 2 ^ 31"
    then show "ber_dec_int_body True (int (length (be_bytes (ber_int_width i) i))) (be_bytes (ber_int_width i) i @ ts) =
        (Some (Some i), length (be_bytes (ber_int_width i) i))"
      using ber_dec_int_body_enc [OF i(2), of ts] by (simp add: ber_enc_primitive_def)
  qed (simp add: ber_int_width_def)
qed

section \<open>DER\<close>

text \<open>The lengths of der.c are those of ber.c.\<close>

lemma der_length_eq: "der_write_length len s = ber_write_length len s" "der_skip_length len = ber_sizeof_length len"
  by (simp_all add: der_write_length_def ber_write_length_def der_skip_length_def ber_sizeof_length_def)

lemma emits_der_length: "emits_sz (der_write_length len) (ber_enc_length len)"
  using emits_ber_length [of len] by (simp add: emits_sz_def der_length_eq)

lemma emits_der_contextual: "emits_sz (der_write_contextual_tag tag len pc) (ber_enc_contextual tag pc len)"
  by (rule emits_szI)
     (simp add: der_write_contextual_tag_def ber_enc_contextual_def ber_put_simps ber_tag_def der_length_eq)

lemma emits_der_sequence: "emits_sz (der_write_sequence_tag len) (ber_enc_sequence len)"
  by (rule emits_szI)
     (simp add: der_write_sequence_tag_def ber_enc_sequence_def ber_put_simps ber_tag_def BER_PC_def der_length_eq)

text \<open>The content length of an element of which only the total length is known.\<close>

lemma der_content_length:
  assumes "0 \<le> len" "len < INT_LIM - 4"
  shows "der_get_content_length (1 + int (length (ber_enc_length len)) + len) = Some len"
  using assms by (simp add: der_get_content_length_def ber_enc_length_def int_ck_def INT_LIM_def)

section \<open>Properties\<close>

text \<open>
  C17: no BER reader has undefined behaviour on any stream: each returns, leaves the contents of
  the stream alone and its position between the old one and the end of the data.
\<close>

theorem ber_readers_safe:
  "safe_reader ber_read_length \<and> safe_reader (ber_read_universal_tag tag pc) \<and>
   safe_reader (ber_read_application_tag tag) \<and> safe_reader (ber_read_contextual_tag tag pc) \<and>
   safe_reader ber_read_sequence_tag \<and> safe_reader (ber_read_enumerated cnt) \<and>
   safe_reader ber_read_bit_string \<and> safe_reader ber_read_octet_string_tag \<and>
   safe_reader ber_read_BOOL \<and> safe_reader (ber_read_integer want) \<and> safe_reader ber_read_integer_length"
  using ber_decodes by (intro conjI) (rule decodes_safe, blast)+

text \<open>
  C19: an integer below 0x80000000 is written in the shortest form, the writer returns the number
  of bytes it emitted, which is what \<^verbatim>\<open>ber_sizeof_integer\<close> predicts, and the reader gives the
  integer back and ends where the writer did.
\<close>

theorem ber_integer_roundtrip:
  assumes "v < 0x80000000" "stream_wf s" "6 \<le> length (st_rest s)" "length (st_rest s) < 2 ^ 31"
  shows "\<exists>s'. ber_write_integer v s = Some (ber_sizeof_integer v, s') \<and> stream_wf s' \<and>
     int (st_pointer s') = int (st_pointer s) + ber_sizeof_integer v \<and>
     ber_read_integer True (s'\<lparr>st_pointer := st_pointer s\<rparr>) = Some (Some (Some v), s')"
proof -
  have l: "length (ber_enc_integer v) \<le> length (st_rest s)"
    using assms(3) by (simp add: ber_enc_integer_def ber_enc_primitive_def ber_int_width_def)
  note w = emits_szD [OF emits_ber_integer [OF assms(1)] assms(2) l]
  show ?thesis
    using ber_integer.roundtrip [of "Some v" s] assms l w ber_sizeof_integer_eq [OF assms(1)] by auto
qed

theorem ber_integer_roundtrip_witness:
  "\<exists>s'. ber_write_integer 0x12345 (stream_of [0, 0, 0, 0, 0, 0]) = Some (ber_sizeof_integer 0x12345, s') \<and> stream_wf s' \<and>
     int (st_pointer s') = int (st_pointer (stream_of [0, 0, 0, 0, 0, 0])) + ber_sizeof_integer 0x12345 \<and>
     ber_read_integer True (s'\<lparr>st_pointer := st_pointer (stream_of [0, 0, 0, 0, 0, 0])\<rparr>) = Some (Some (Some 0x12345), s')"
  by (rule ber_integer_roundtrip) (simp_all add: BLOCK_MAX_def)

text \<open>
   \<^verbatim>\<open>ber_write_integer\<close> writes nothing for an integer with its top bit set, and returns 0,
  although every such value is a valid argument.
\<close>

theorem ber_integer_large_dropped:
  assumes "0x80000000 \<le> v"
  shows "ber_write_integer v s = Some (0, s) \<and> ber_sizeof_integer v = 0"
  using assms by (auto simp: ber_write_integer_def ber_sizeof_integer_def word_less_nat_alt word_le_nat_alt)

theorem ber_integer_large_dropped_witness:
  "ber_write_integer 0xFFFFFFFF (stream_of []) = Some (0, stream_of []) \<and> ber_sizeof_integer 0xFFFFFFFF = 0"
  by (rule ber_integer_large_dropped) simp

text \<open>
  C20: contextual and sequence tags with a length below 0x10000 are read back with their length;
  the writers return the number of bytes they emitted, which is what the \<^verbatim>\<open>sizeof\<close> functions
  predict, so that nested lengths computed with these functions are right.
\<close>

theorem ber_tags_roundtrip:
  assumes "ber_length_valid len" "stream_wf s" "4 \<le> length (st_rest s)"
  shows "(\<exists>s'. ber_write_contextual_tag tag len pc s = Some (ber_sizeof_contextual_tag len, s') \<and> stream_wf s' \<and>
       int (st_pointer s') = int (st_pointer s) + ber_sizeof_contextual_tag len \<and>
       ber_read_contextual_tag tag pc (s'\<lparr>st_pointer := st_pointer s\<rparr>) = Some (Some len, s')) \<and>
     (\<exists>s'. ber_write_sequence_tag len s = Some (ber_sizeof_sequence_tag len, s') \<and> stream_wf s' \<and>
       int (st_pointer s') = int (st_pointer s) + ber_sizeof_sequence_tag len \<and>
       ber_read_sequence_tag (s'\<lparr>st_pointer := st_pointer s\<rparr>) = Some (Some len, s'))"
proof -
  have l: "length (ber_enc_contextual tag pc len) \<le> length (st_rest s)" "length (ber_enc_sequence len) \<le> length (st_rest s)"
    using assms(3) by (simp_all add: ber_enc_contextual_def ber_enc_sequence_def ber_enc_length_def)
  have sz: "ber_sizeof_contextual_tag len = int (length (ber_enc_contextual tag pc len))"
      "ber_sizeof_sequence_tag len = int (length (ber_enc_sequence len))"
    by (simp_all add: ber_sizeof_contextual_tag_def ber_sizeof_sequence_tag_def ber_sizeof_length_eq
        ber_enc_contextual_def ber_enc_sequence_def)
  note lim = rest_less_BLOCK_MAX [OF assms(2)]
  show ?thesis unfolding sz
    using ber_contextual.roundtrip [OF assms(1,2) l(1) lim] ber_sequence.roundtrip [OF assms(1,2) l(2) lim]
      emits_szD [OF emits_ber_contextual assms(2) l(1)] emits_szD [OF emits_ber_sequence assms(2) l(2)]
    by auto
qed

theorem ber_tags_roundtrip_witness:
  "(\<exists>s'. ber_write_contextual_tag 1 300 True (stream_of [0, 0, 0, 0]) = Some (ber_sizeof_contextual_tag 300, s') \<and> stream_wf s' \<and>
       int (st_pointer s') = int (st_pointer (stream_of [0, 0, 0, 0])) + ber_sizeof_contextual_tag 300 \<and>
       ber_read_contextual_tag 1 True (s'\<lparr>st_pointer := st_pointer (stream_of [0, 0, 0, 0])\<rparr>) = Some (Some 300, s')) \<and>
     (\<exists>s'. ber_write_sequence_tag 300 (stream_of [0, 0, 0, 0]) = Some (ber_sizeof_sequence_tag 300, s') \<and> stream_wf s' \<and>
       int (st_pointer s') = int (st_pointer (stream_of [0, 0, 0, 0])) + ber_sizeof_sequence_tag 300 \<and>
       ber_read_sequence_tag (s'\<lparr>st_pointer := st_pointer (stream_of [0, 0, 0, 0])\<rparr>) = Some (Some 300, s'))"
  by (rule ber_tags_roundtrip) (simp_all add: ber_length_valid_def BLOCK_MAX_def)

text \<open>
  An optional field is recognised without side effect: when the next byte is not the
  contextual tag asked for, \<^verbatim>\<open>ber_read_contextual_tag\<close> returns \<^verbatim>\<open>FALSE\<close> and the stream is exactly
  as before, so the reader can go on with the next field.
\<close>

theorem ber_contextual_tag_absent:
  assumes "stream_wf s" "st_rest s = [] \<or> hd (st_rest s) \<noteq> ber_tag BER_CLASS_CTXT tag pc"
  shows "ber_read_contextual_tag tag pc s = Some (None, s)"
  using decodesD(2) [OF ber_contextual_decodes assms(1)] assms(2) by (simp add: ber_dec_contextual_def)

theorem ber_contextual_tag_absent_witness:
  "ber_read_contextual_tag 1 True (stream_of [0xA0, 3]) = Some (None, stream_of [0xA0, 3])"
  by (rule ber_contextual_tag_absent)
     (simp_all add: BLOCK_MAX_def ber_tag_def BER_CLASS_CTXT_def BER_PC_def BER_CONSTRUCT_def BER_TAG_MASK_def)

text \<open>
   \<^verbatim>\<open>der_get_content_length\<close> inverts the DER framing: from the total size of an element, its
  tag byte and the length field that \<^verbatim>\<open>der_write_length\<close> emits included, it computes the size
  of the content.
\<close>

theorem der_content_length_inverse:
  assumes "0 \<le> len" "len < INT_LIM - 4" "stream_wf s" "3 \<le> length (st_rest s)"
  shows "\<exists>n s'. der_write_length len s = Some (n, s') \<and> n = der_skip_length len \<and>
     int (st_pointer s') = int (st_pointer s) + n \<and> der_get_content_length (1 + n + len) = Some len"
proof -
  have "length (ber_enc_length len) \<le> length (st_rest s)" using assms(4) by (simp add: ber_enc_length_def)
  from emits_szD [OF emits_der_length assms(3) this] show ?thesis
    using der_content_length [OF assms(1,2)] by (simp add: der_length_eq ber_sizeof_length_eq)
qed

theorem der_content_length_inverse_witness:
  "\<exists>n s'. der_write_length 200 (stream_of [0, 0, 0]) = Some (n, s') \<and> n = der_skip_length 200 \<and>
     int (st_pointer s') = int (st_pointer (stream_of [0, 0, 0])) + n \<and> der_get_content_length (1 + n + 200) = Some 200"
  by (rule der_content_length_inverse) (simp_all add: INT_LIM_def BLOCK_MAX_def)

end
