(* ===== verification/Tpkt.thy ===== *)
theory Tpkt
  imports Streams
begin

text \<open>
  The packet framing of \<^verbatim>\<open>libfreerdp/core/tpkt.c\<close> and \<^verbatim>\<open>libfreerdp/core/tpdu.c\<close>: the four byte
  TPKT header and the X.224 header behind it. The TPKT readers do not check that their bytes
  are there, which their callers must have done.
\<close>

section \<open>TPKT\<close>

definition tpkt_verify_header :: "wStream \<Rightarrow> bool option" where
  "tpkt_verify_header s = do { (version, _) \<leftarrow> Stream_Peek_UINT8 s; Some (version = 3) }"

definition tpkt_read_header :: "wStream \<Rightarrow> (u16 \<times> wStream) option" where
  "tpkt_read_header s = do {
     (version, _) \<leftarrow> Stream_Peek_UINT8 s;
     if version = 3 then do { s \<leftarrow> Stream_Seek s 2; Stream_Read_UINT16_BE s }
     else Some (0, s) }"

definition tpkt_write_header :: "u16 \<Rightarrow> writer" where
  "tpkt_write_header len s = do {
     s \<leftarrow> Stream_Write_UINT8 3 s;
     s \<leftarrow> Stream_Write_UINT8 0 s;
     Stream_Write_UINT16_BE len s }"

section \<open>TPDU\<close>

definition X224_TPDU_CONNECTION_REQUEST :: byte where "X224_TPDU_CONNECTION_REQUEST = 0xE0"
definition X224_TPDU_CONNECTION_CONFIRM :: byte where "X224_TPDU_CONNECTION_CONFIRM = 0xD0"
definition X224_TPDU_DISCONNECT_REQUEST :: byte where "X224_TPDU_DISCONNECT_REQUEST = 0x80"
definition X224_TPDU_DATA :: byte where "X224_TPDU_DATA = 0xF0"

text \<open>The result is the code and the length indicator.\<close>

definition tpdu_read_header :: "(byte \<times> byte) reader" where
  "tpdu_read_header s =
     (if Stream_GetRemainingLength s < 3 then Some (None, s)
      else do {
        (li, s) \<leftarrow> Stream_Read_UINT8 s;
        (code, s) \<leftarrow> Stream_Read_UINT8 s;
        if code = X224_TPDU_DATA then do { s \<leftarrow> Stream_Seek s 1; Some (Some (code, li), s) }
        else do {
          (ok, s) \<leftarrow> Stream_SafeSeek s 5;
          Some (if ok then Some (code, li) else None, s) } })"

definition tpdu_write_header :: "u16 \<Rightarrow> byte \<Rightarrow> writer" where
  "tpdu_write_header len code s = do {
     s \<leftarrow> Stream_Write_UINT8 (ucast len) s;
     s \<leftarrow> Stream_Write_UINT8 code s;
     if code = X224_TPDU_DATA then Stream_Write_UINT8 0x80 s
     else do {
       s \<leftarrow> Stream_Write_UINT16 0 s;
       s \<leftarrow> Stream_Write_UINT16 0 s;
       Stream_Write_UINT8 0 s } }"

definition tpdu_read_connection_request :: "byte reader" where
  "tpdu_read_connection_request = try_read tpdu_read_header (\<lambda>(code, li) s.
     if code \<noteq> X224_TPDU_CONNECTION_REQUEST then Some (None, s) else Some (Some li, s))"

definition tpdu_write_connection_request :: "u16 \<Rightarrow> writer" where
  "tpdu_write_connection_request len s = tpdu_write_header len X224_TPDU_CONNECTION_REQUEST s"

text \<open>
  The positions are kept in an \<^verbatim>\<open>int\<close>; the difference of the two is computed in \<^verbatim>\<open>size_t\<close> and
  converted, and a negative number of bytes left becomes a huge one in the comparison.
\<close>

definition tpdu_read_connection_confirm :: "byte reader" where
  "tpdu_read_connection_confirm s0 = (let position = to_int (Stream_GetPosition s0) in
     try_read tpdu_read_header (\<lambda>(code, li) s.
       if code \<noteq> X224_TPDU_CONNECTION_CONFIRM then Some (None, s)
       else do {
         let bytes_read = to_int (sz_sub (sz_sub (Stream_GetPosition s) (to_size position)) 1);
         rest \<leftarrow> int_ck (uint li - bytes_read);
         Some (if Stream_GetRemainingLength s \<ge> to_size rest then Some li else None, s) }) s0)"

definition tpdu_write_connection_confirm :: "u16 \<Rightarrow> writer" where
  "tpdu_write_connection_confirm len s = tpdu_write_header len X224_TPDU_CONNECTION_CONFIRM s"

definition tpdu_write_disconnect_request :: "u16 \<Rightarrow> writer" where
  "tpdu_write_disconnect_request len s = tpdu_write_header len X224_TPDU_DISCONNECT_REQUEST s"

definition tpdu_write_data :: writer where
  "tpdu_write_data s = tpdu_write_header 2 X224_TPDU_DATA s"

definition tpdu_read_data :: "u16 reader" where
  "tpdu_read_data = try_read tpdu_read_header (\<lambda>(code, li) s.
     if code \<noteq> X224_TPDU_DATA then Some (None, s) else Some (Some (ucast li), s))"

section \<open>TPKT headers\<close>

definition tpkt_enc :: "u16 \<Rightarrow> byte list" where
  "tpkt_enc len = [3, 0] @ be_bytes 2 len"

lemma emits_tpkt: "emits (tpkt_write_header len) (tpkt_enc len)"
  by (rule emitsI)
     (simp add: tpkt_write_header_def tpkt_enc_def emitsD [OF emits_UINT8] emitsD [OF emits_UINT16_BE] stream_wf_emit)

text \<open>With four bytes left the reader is defined, and returns 0 exactly for other versions or a length of 0.\<close>

lemma tpkt_read_header_eq:
  assumes "stream_wf s" "4 \<le> length (st_rest s)"
  shows "tpkt_read_header s =
    Some (if hd (st_rest s) = 3 then (be16 (drop 2 (st_rest s)), stream_skip 4 s) else (0, s))"
proof -
  have "st_rest s \<noteq> []" using assms(2) by auto
  moreover have "Stream_Seek s 2 = Some (stream_skip 2 s)"
    using Stream_Seek_skip [of s 2] assms by simp
  ultimately show ?thesis using assms by (simp add: tpkt_read_header_def stream_simps)
qed

lemma tpkt_verify_header_eq:
  "stream_wf s \<Longrightarrow> st_rest s \<noteq> [] \<Longrightarrow> tpkt_verify_header s = Some (hd (st_rest s) = 3)"
  by (simp add: tpkt_verify_header_def stream_simps)

interpretation tpkt: wire_codec tpkt_write_header
  "\<lambda>s. do { (v, s) \<leftarrow> tpkt_read_header s; Some (Some v, s) }" tpkt_enc "\<lambda>len. True" BLOCK_MAX
proof unfold_locales
  fix v :: u16
  show "emits (tpkt_write_header v) (tpkt_enc v)" by (rule emits_tpkt)
  show "parses BLOCK_MAX (\<lambda>s. do { (v, s) \<leftarrow> tpkt_read_header s; Some (Some v, s) }) (tpkt_enc v) v"
    by (auto simp: parses_def tpkt_read_header_eq tpkt_enc_def)
qed

section \<open>TPDU headers\<close>

definition tpdu_dec :: "byte list \<Rightarrow> (byte \<times> byte) option \<times> nat" where
  "tpdu_dec bs =
     (if length bs < 3 then (None, 0)
      else let code = bs ! 1; li = bs ! 0 in
        if code = X224_TPDU_DATA then (Some (code, li), 3)
        else if length bs < 7 then (None, 2) else (Some (code, li), 7))"

lemma tpdu_header_decodes: "decodes tpdu_read_header tpdu_dec"
proof (rule decodesI)
  fix s assume s: "stream_wf s"
  show "snd (tpdu_dec (st_rest s)) \<le> length (st_rest s)"
    by (simp add: tpdu_dec_def Let_def)
  show "tpdu_read_header s = Some (fst (tpdu_dec (st_rest s)), stream_skip (snd (tpdu_dec (st_rest s))) s)"
  proof (cases "length (st_rest s) < 3")
    case True
    then show ?thesis using s by (simp add: tpdu_read_header_def tpdu_dec_def stream_simps)
  next
    case False
    then obtain a b bs where r: "st_rest s = a # b # bs" "bs \<noteq> []"
      by (cases "st_rest s" rule: remdups_adj.cases) (auto simp: Suc_le_eq)
    have w: "stream_wf (stream_skip (Suc (Suc 0)) s)" "Suc (length bs) \<ge> 2"
      using s r by (auto simp: stream_wf_skip Suc_le_eq)
    have "Stream_Seek (stream_skip (Suc (Suc 0)) s) 1 = Some (stream_skip 3 s)"
      using Stream_Seek_skip [OF w(1), of 1] r by (simp add: Suc_le_eq numeral_3_eq_3)
    then show ?thesis using s r w
      by (auto simp: tpdu_read_header_def tpdu_dec_def stream_simps numeral_eq_Suc Suc_le_eq)
  qed
qed

text \<open>The number of bytes read is right at every position, also beyond the range of \<^verbatim>\<open>int\<close>.\<close>

lemma tpdu_bytes_read:
  assumes "p < BLOCK_MAX" "Suc k < 2 ^ 31"
  shows "to_int (sz_sub (sz_sub (p + Suc k) (to_size (to_int p))) 1) = int k"
proof -
  let ?M = "int SIZE_MOD"
  have dvd: "(2 :: int) ^ 32 dvd ?M" by (simp add: SIZE_MOD_def)
  have lt: "to_size (to_int p) < SIZE_MOD" "p + Suc k < SIZE_MOD" "sz_sub a b < SIZE_MOD" "1 < SIZE_MOD" for a b
    using assms by (simp_all add: to_size_def SIZE_MOD_def BLOCK_MAX_def sz_sub_def nat_less_iff)
  have "int (sz_sub (sz_sub (p + Suc k) (to_size (to_int p))) 1) mod 2 ^ 32 =
      ((int p + int k + 1 - to_int p mod ?M) mod ?M - 1) mod ?M mod 2 ^ 32"
    using lt by (simp add: sz_sub_int to_size_int ac_simps)
  also have "\<dots> = (int p + int k - to_int p) mod ?M mod 2 ^ 32"
    by (simp add: mod_simps add_diff_eq)
  also have "\<dots> = (int p - to_int p + int k) mod 2 ^ 32"
    using dvd by (simp add: mod_mod_cancel algebra_simps)
  also have "\<dots> = int k mod 2 ^ 32"
    using to_int_mod [of p] by (metis (no_types, lifting) add.left_neutral mod_add_left_eq mod_diff_cong diff_self mod_0)
  finally show ?thesis using assms(2) by (simp add: to_int_def)
qed

definition tpdu_dec_confirm :: "byte \<times> byte \<Rightarrow> byte list \<Rightarrow> byte option \<times> nat" where
  "tpdu_dec_confirm = (\<lambda>(code, li) bs.
     (if code = X224_TPDU_CONNECTION_CONFIRM \<and> 6 \<le> unat li \<and> unat li - 6 \<le> length bs then Some li else None, 0))"

lemma tpdu_dec_cases:
  assumes "tpdu_dec bs = (Some (code, li), n)"
  shows "n = (if code = X224_TPDU_DATA then 3 else 7)" "n \<le> length bs"
  using assms by (auto simp: tpdu_dec_def Let_def split: if_splits)

lemma tpdu_confirm_decodes:
  "decodes tpdu_read_connection_confirm (d_then tpdu_dec tpdu_dec_confirm)"
proof (rule decodesI)
  fix s assume s: "stream_wf s"
  note H = decodesD [OF tpdu_header_decodes s]
  obtain v n where d: "tpdu_dec (st_rest s) = (v, n)" by fastforce
  show "snd (d_then tpdu_dec tpdu_dec_confirm (st_rest s)) \<le> length (st_rest s)"
    using H(1) d by (auto simp: d_then_def tpdu_dec_confirm_def split: option.split prod.split)
  show "tpdu_read_connection_confirm s = Some (fst (d_then tpdu_dec tpdu_dec_confirm (st_rest s)),
      stream_skip (snd (d_then tpdu_dec tpdu_dec_confirm (st_rest s))) s)"
  proof (cases "\<exists>li. v = Some (X224_TPDU_CONNECTION_CONFIRM, li)")
    case True
    then obtain li where v: "v = Some (X224_TPDU_CONNECTION_CONFIRM, li)" by blast
    have n: "n = 7" "7 \<le> length (st_rest s)"
      using tpdu_dec_cases [of "st_rest s" X224_TPDU_CONNECTION_CONFIRM li n] d v
      by (simp_all add: X224_TPDU_DATA_def X224_TPDU_CONNECTION_CONFIRM_def)
    have p: "st_pointer s < BLOCK_MAX" using s by (auto simp: stream_wf_def)
    have br: "to_int (sz_sub (sz_sub (st_pointer s + 7) (to_size (to_int (st_pointer s)))) 1) = 6"
      using tpdu_bytes_read [OF p, of 6] by simp
    have li: "0 \<le> uint li" "uint li < 256" using unsigned_less [of li, where ?'a = int] by simp_all
    then have ck: "int_ck (uint li - 6) = Some (uint li - 6)" by (simp add: int_ck_def INT_LIM_def)
    have len: "length (st_rest s) < BLOCK_MAX" using s by (rule rest_less_BLOCK_MAX)
    have cmp: "to_size (uint li - 6) \<le> length (st_rest s) - 7 \<longleftrightarrow> 6 \<le> unat li \<and> unat li - 6 \<le> length (st_rest s) - 7"
    proof (cases "6 \<le> unat li")
      case True
      define u where "u = unat li"
      have u: "uint li = int u" "6 \<le> u" "u < 256" using True unat_byte_less [of li] by (simp_all add: u_def)
      then have "to_size (uint li - 6) = u - 6"
        by (simp add: to_size_def SIZE_MOD_def)
      then have "to_size (uint li - 6) = unat li - 6" by (simp add: u_def)
      then show ?thesis using True by simp
    next
      case False
      have "uint li = int (unat li)" by simp
      with False have "uint li - 6 < 0" by linarith
      then have "(uint li - 6 + int SIZE_MOD) mod int SIZE_MOD = uint li - 6 + int SIZE_MOD"
        using li by (intro mod_pos_pos_trivial) (simp_all add: SIZE_MOD_def)
      then have "to_size (uint li - 6) = nat (uint li - 6 + int SIZE_MOD)"
        by (simp add: to_size_def)
      moreover have "BLOCK_MAX \<le> nat (uint li - 6 + int SIZE_MOD)"
        using li by (simp add: le_nat_iff SIZE_MOD_def BLOCK_MAX_def)
      ultimately show ?thesis using False len by auto
    qed
    show ?thesis using d v n H s
      by (simp add: tpdu_read_connection_confirm_def try_read_def d_then_def tpdu_dec_confirm_def
          Stream_GetPosition_def br [unfolded One_nat_def] ck remaining_rest stream_wf_skip cmp)
  next
    case False
    then show ?thesis using d H
      by (auto simp: tpdu_read_connection_confirm_def try_read_def d_then_def tpdu_dec_confirm_def
          split: option.split)
  qed
qed

definition tpdu_enc :: "byte \<Rightarrow> byte \<Rightarrow> byte list" where
  "tpdu_enc li code = li # code # (if code = X224_TPDU_DATA then [0x80] else [0, 0, 0, 0, 0])"

lemma le_bytes_0: "le_bytes 2 (0 :: u16) = [0, 0]"
  by (simp add: le_bytes_simps word_byte_def)

lemma emits_tpdu: "emits (tpdu_write_header len code) (tpdu_enc (ucast len) code)"
  by (rule emitsI)
     (auto simp: tpdu_write_header_def tpdu_enc_def emitsD [OF emits_UINT8] emitsD [OF emits_UINT16]
       stream_wf_emit le_bytes_0)

lemma tpdu_dec_enc: "tpdu_dec (tpdu_enc li code @ ts) = (Some (code, li), length (tpdu_enc li code))"
  by (simp add: tpdu_dec_def tpdu_enc_def Let_def)

interpretation tpdu: wire_codec "\<lambda>(code, li). tpdu_write_header (ucast li) code" tpdu_read_header
  "\<lambda>(code, li). tpdu_enc li code" "\<lambda>h. True" BLOCK_MAX
proof unfold_locales
  fix h :: "byte \<times> byte"
  obtain code li where h: "h = (code, li)" by fastforce
  have "(ucast (ucast li :: u16) :: byte) = li" by (rule bit_word_eqI) (simp add: bit_simps)
  then show "emits (case h of (code, li) \<Rightarrow> tpdu_write_header (ucast li) code) (case h of (code, li) \<Rightarrow> tpdu_enc li code)"
    using emits_tpdu [of "ucast li" code] by (simp add: h)
  show "parses BLOCK_MAX tpdu_read_header (case h of (code, li) \<Rightarrow> tpdu_enc li code) h"
    unfolding h prod.case by (rule decodes_parses [OF tpdu_header_decodes]) (rule tpdu_dec_enc)
qed

text \<open>The readers of one kind of TPDU.\<close>

definition tpdu_dec_code :: "byte \<Rightarrow> (byte \<Rightarrow> 'a) \<Rightarrow> byte \<times> byte \<Rightarrow> byte list \<Rightarrow> 'a option \<times> nat" where
  "tpdu_dec_code c f = (\<lambda>(code, li) bs. (if code = c then Some (f li) else None, 0))"

lemma tpdu_request_decodes:
  "decodes tpdu_read_connection_request (d_then tpdu_dec (tpdu_dec_code X224_TPDU_CONNECTION_REQUEST (\<lambda>li. li)))"
  unfolding tpdu_read_connection_request_def
  by (rule decodes_try_read [OF tpdu_header_decodes]) (auto intro!: decodesI simp: tpdu_dec_code_def)

lemma tpdu_data_decodes:
  "decodes tpdu_read_data (d_then tpdu_dec (tpdu_dec_code X224_TPDU_DATA ucast))"
  unfolding tpdu_read_data_def
  by (rule decodes_try_read [OF tpdu_header_decodes]) (auto intro!: decodesI simp: tpdu_dec_code_def)

section \<open>Properties\<close>

text \<open>
  The TPDU readers have no undefined behaviour on any stream.
\<close>

theorem tpdu_readers_safe:
  "safe_reader tpdu_read_header \<and> safe_reader tpdu_read_connection_request \<and>
   safe_reader tpdu_read_connection_confirm \<and> safe_reader tpdu_read_data"
  using tpdu_header_decodes tpdu_request_decodes tpdu_confirm_decodes tpdu_data_decodes
  by (intro conjI) (rule decodes_safe, blast)+

text \<open>
  C22: a TPKT header and the X.224 header behind it are read back as they were written, and the
  readers end where the writers did.
\<close>

theorem tpkt_tpdu_roundtrip:
  assumes "stream_wf s" "11 \<le> length (st_rest s)"
  shows "\<exists>s1 s2. tpkt_write_header len s = Some s1 \<and> tpdu_write_header (ucast li) code s1 = Some s2 \<and> stream_wf s2 \<and>
     (do { (l, t1) \<leftarrow> tpkt_read_header (s2\<lparr>st_pointer := st_pointer s\<rparr>);
           (h, t2) \<leftarrow> tpdu_read_header t1;
           Some (l, h, t2) }) = Some (len, Some (code, li), s2)"
proof -
  let ?e = "tpkt_enc len @ tpdu_enc li code"
  have e: "length (tpkt_enc len) = 4" "length (tpdu_enc li code) \<le> 7"
    by (simp_all add: tpkt_enc_def tpdu_enc_def)
  have l: "length ?e \<le> length (st_rest s)" "length (tpkt_enc len) \<le> length (st_rest s)" using assms(2) e by simp_all
  define s1 s2 where "s1 = stream_emit (tpkt_enc len) s" and "s2 = stream_emit ?e s"
  have w1: "tpkt_write_header len s = Some s1" "stream_wf s1"
    using emitsD [OF emits_tpkt assms(1) l(2)] stream_wf_emit [OF assms(1) l(2)] by (simp_all add: s1_def)
  have "length (tpdu_enc li code) \<le> length (st_rest s1)" using l(1) assms(1) e(1) by (simp add: s1_def)
  moreover have "(ucast (ucast li :: u16) :: byte) = li" by (rule bit_word_eqI) (simp add: bit_simps)
  ultimately have w2: "tpdu_write_header (ucast li) code s1 = Some s2" "stream_wf s2"
    using emitsD [OF emits_tpdu [of "ucast li" code] w1(2)] stream_wf_emit [OF assms(1) l(1)] l(1) assms(1)
    by (simp_all add: s1_def s2_def)
  let ?t = "s2\<lparr>st_pointer := st_pointer s\<rparr>"
  note t = stream_emit_rewound [OF assms(1) l(1), folded s2_def]
  have r1: "tpkt_read_header ?t = Some (len, stream_skip 4 ?t)" "stream_wf (stream_skip 4 ?t)"
    using tpkt_read_header_eq [OF t(2)] t e by (auto simp: tpkt_enc_def)
  moreover have "tpdu_dec (drop 4 (st_rest ?t)) = (Some (code, li), length (tpdu_enc li code))"
    using t(1) e(1) by (simp add: tpdu_dec_enc)
  ultimately show ?thesis
    using w1 w2 decodesD(2) [OF tpdu_header_decodes r1(2)] t(3) e(1) by auto
qed

theorem tpkt_tpdu_roundtrip_witness:
  "\<exists>s1 s2. tpkt_write_header 19 (stream_of (replicate 11 0)) = Some s1 \<and>
     tpdu_write_header (ucast (14 :: byte)) X224_TPDU_CONNECTION_REQUEST s1 = Some s2 \<and> stream_wf s2 \<and>
     (do { (l, t1) \<leftarrow> tpkt_read_header (s2\<lparr>st_pointer := st_pointer (stream_of (replicate 11 0))\<rparr>);
           (h, t2) \<leftarrow> tpdu_read_header t1;
           Some (l, h, t2) }) = Some (19, Some (X224_TPDU_CONNECTION_REQUEST, 14), s2)"
  by (rule tpkt_tpdu_roundtrip) (simp_all add: BLOCK_MAX_def)

text \<open>
   \<^verbatim>\<open>tpdu_read_connection_confirm\<close> accepts exactly the confirm TPDUs whose length indicator
  covers the fixed part and does not reach beyond the data, at every position of the stream:
  a length indicator that is too small becomes a huge unsigned number and is rejected.
\<close>

theorem tpdu_confirm_length_checked:
  assumes "stream_wf s" "7 \<le> length (st_rest s)" "st_rest s ! 1 = X224_TPDU_CONNECTION_CONFIRM"
  shows "tpdu_read_connection_confirm s =
     Some (if 6 \<le> unat (st_rest s ! 0) \<and> unat (st_rest s ! 0) < length (st_rest s)
           then Some (st_rest s ! 0) else None, stream_skip 7 s)"
proof -
  have "tpdu_dec (st_rest s) = (Some (X224_TPDU_CONNECTION_CONFIRM, st_rest s ! 0), 7)"
    using assms(2,3) by (simp add: tpdu_dec_def Let_def X224_TPDU_DATA_def X224_TPDU_CONNECTION_CONFIRM_def)
  then show ?thesis
    using decodesD(2) [OF tpdu_confirm_decodes assms(1)] assms(2)
    by (auto simp: d_then_def tpdu_dec_confirm_def)
qed

theorem tpdu_confirm_length_checked_witness:
  "tpdu_read_connection_confirm (stream_of [14, 0xD0, 0, 0, 0x12, 0x34, 0]) =
     Some (if 6 \<le> unat (st_rest (stream_of [14, 0xD0, 0, 0, 0x12, 0x34, 0]) ! 0) \<and>
              unat (st_rest (stream_of [14, 0xD0, 0, 0, 0x12, 0x34, 0]) ! 0) < length (st_rest (stream_of [14, 0xD0, 0, 0, 0x12, 0x34, 0]))
           then Some (st_rest (stream_of [14, 0xD0, 0, 0, 0x12, 0x34, 0]) ! 0) else None,
           stream_skip 7 (stream_of [14, 0xD0, 0, 0, 0x12, 0x34, 0]))"
  by (rule tpdu_confirm_length_checked) (simp_all add: BLOCK_MAX_def X224_TPDU_CONNECTION_CONFIRM_def)

end
