(* ===== verification/BipBuffer.thy ===== *)
theory BipBuffer
  imports ByteFifo
begin

text \<open>
  The bip buffer of WinPR (\<^verbatim>\<open>winpr/libwinpr/utils/collections/BipBuffer.c\<close>): one memory block with
  at most two regions, the older one A and, at the front of the block, the newer one B. A
  pointer into the block is an offset. The operations that return a pointer and its room
  return both; the \<^verbatim>\<open>NULL\<close> tests on arguments that every caller passes are left out.
\<close>

record wBipBlock =
  bl_index :: nat
  bl_size :: nat

record wBipBuffer =
  bb_size :: nat
  bb_buffer :: "byte list"
  bb_pageSize :: nat
  bb_blockA :: wBipBlock
  bb_blockB :: wBipBlock
  bb_readR :: wBipBlock
  bb_writeR :: wBipBlock

section \<open>Operations\<close>

definition BipBlock_Clear :: wBipBlock where
  "BipBlock_Clear = \<lparr>bl_index = 0, bl_size = 0\<rparr>"

definition BipBuffer_Clear :: "wBipBuffer \<Rightarrow> wBipBuffer" where
  "BipBuffer_Clear bb = bb\<lparr>bb_blockA := BipBlock_Clear, bb_blockB := BipBlock_Clear,
     bb_readR := BipBlock_Clear, bb_writeR := BipBlock_Clear\<rparr>"

definition BipBuffer_AllocBuffer :: "byte allocator \<Rightarrow> wBipBuffer \<Rightarrow> nat \<Rightarrow> (bool \<times> wBipBuffer) option" where
  "BipBuffer_AllocBuffer A bb n =
     (if n < 1 then Some (False, bb)
      else do {
        r \<leftarrow> sz_mod n (bb_pageSize bb);
        let n = sz_add n r;
        (case mem_alloc A n of
           None \<Rightarrow> Some (False, bb\<lparr>bb_buffer := []\<rparr>)
         | Some buffer \<Rightarrow> Some (True, bb\<lparr>bb_buffer := buffer, bb_size := n\<rparr>)) })"

definition BipBuffer_UsedSize :: "wBipBuffer \<Rightarrow> nat" where
  "BipBuffer_UsedSize bb = sz_add (bl_size (bb_blockA bb)) (bl_size (bb_blockB bb))"

definition BipBuffer_BufferSize :: "wBipBuffer \<Rightarrow> nat" where
  "BipBuffer_BufferSize bb = bb_size bb"

text \<open>The pointer and the number of bytes reserved; the variable is untouched when it is \<^verbatim>\<open>NULL\<close>.\<close>

definition BipBuffer_WriteTryReserve :: "wBipBuffer \<Rightarrow> nat \<Rightarrow> (nat \<times> nat) option \<times> wBipBuffer" where
  "BipBuffer_WriteTryReserve bb n =
     (let a = bb_blockA bb; b = bb_blockB bb in
      if bl_size b = 0 then
        (let reservable = sz_sub (sz_sub (bb_size bb) (bl_index a)) (bl_size a) in
         if reservable \<ge> bl_index a then
           (if reservable = 0 then (None, bb)
            else let reservable = (if n < reservable then n else reservable);
                     p = sz_add (bl_index a) (bl_size a)
                 in (Some (p, reservable), bb\<lparr>bb_writeR := \<lparr>bl_index = p, bl_size = reservable\<rparr>\<rparr>))
         else if bl_index a = 0 then (None, bb)
         else let n = (if bl_index a < n then bl_index a else n)
              in (Some (0, n), bb\<lparr>bb_writeR := \<lparr>bl_index = 0, bl_size = n\<rparr>\<rparr>))
      else
        (let reservable = sz_sub (sz_sub (bl_index a) (bl_index b)) (bl_size b);
             reservable = (if n < reservable then n else reservable);
             p = sz_add (bl_index b) (bl_size b)
         in if reservable = 0 then (None, bb)
            else (Some (p, reservable), bb\<lparr>bb_writeR := \<lparr>bl_index = p, bl_size = reservable\<rparr>\<rparr>)))"

definition BipBuffer_ReadTryReserve :: "wBipBuffer \<Rightarrow> nat \<Rightarrow> (nat \<times> nat) option" where
  "BipBuffer_ReadTryReserve bb n =
     (let a = bb_blockA bb in
      if bl_size a = 0 then None
      else Some (bl_index a, if n \<noteq> 0 \<and> bl_size a > n then n else bl_size a))"

definition BipBuffer_ReadCommit :: "wBipBuffer \<Rightarrow> nat \<Rightarrow> wBipBuffer" where
  "BipBuffer_ReadCommit bb n =
     (if n \<ge> bl_size (bb_blockA bb)
      then bb\<lparr>bb_blockA := bb_blockB bb, bb_blockB := BipBlock_Clear\<rparr>
      else bb\<lparr>bb_blockA := \<lparr>bl_index = sz_add (bl_index (bb_blockA bb)) n,
                            bl_size = sz_sub (bl_size (bb_blockA bb)) n\<rparr>\<rparr>)"

text \<open>One of the two rounds in which \<^verbatim>\<open>BipBuffer_Grow\<close> moves a region to the new block.\<close>

definition bip_grow_round :: "wBipBuffer \<Rightarrow> byte list \<Rightarrow> nat \<Rightarrow> (byte list \<times> nat \<times> wBipBuffer) option" where
  "bip_grow_round bb buffer commitSize =
     (case BipBuffer_ReadTryReserve bb 0 of
        None \<Rightarrow> Some (buffer, commitSize, bb)
      | Some (block, blockSize) \<Rightarrow> do {
          d \<leftarrow> mem_read (bb_buffer bb) block blockSize;
          buffer \<leftarrow> mem_write buffer commitSize d;
          Some (buffer, sz_add commitSize blockSize, BipBuffer_ReadCommit bb blockSize) })"

definition BipBuffer_Grow :: "byte allocator \<Rightarrow> wBipBuffer \<Rightarrow> nat \<Rightarrow> (bool \<times> wBipBuffer) option" where
  "BipBuffer_Grow A bb n = do {
     r \<leftarrow> sz_mod n (bb_pageSize bb);
     let n = sz_add n r;
     if n \<le> bb_size bb then Some (True, bb)
     else (case mem_alloc A n of
             None \<Rightarrow> Some (False, bb)
           | Some buffer \<Rightarrow> do {
               (buffer, commitSize, bb1) \<leftarrow> bip_grow_round bb buffer 0;
               (buffer, commitSize, bb2) \<leftarrow> bip_grow_round bb1 buffer commitSize;
               Some (True, (BipBuffer_Clear bb2)\<lparr>bb_buffer := buffer, bb_size := n,
                 bb_blockA := \<lparr>bl_index = 0, bl_size = commitSize\<rparr>\<rparr>) }) }"

definition BipBuffer_FreeBuffer :: "wBipBuffer \<Rightarrow> wBipBuffer" where
  "BipBuffer_FreeBuffer bb = BipBuffer_Clear (bb\<lparr>bb_buffer := []\<rparr>)"

definition BipBuffer_WriteReserve :: "byte allocator \<Rightarrow> wBipBuffer \<Rightarrow> nat \<Rightarrow> (nat option \<times> wBipBuffer) option" where
  "BipBuffer_WriteReserve A bb n =
     (let (r, bb1) = BipBuffer_WriteTryReserve bb n;
          reserved = (case r of None \<Rightarrow> 0 | Some (p, k) \<Rightarrow> k)
      in if reserved = n then Some (map_option fst r, bb1)
         else do {
           (ok, bb2) \<leftarrow> BipBuffer_Grow A bb1 n;
           if \<not> ok then Some (None, bb2)
           else let (r, bb3) = BipBuffer_WriteTryReserve bb2 n in Some (map_option fst r, bb3) })"

definition BipBuffer_WriteCommit :: "wBipBuffer \<Rightarrow> nat \<Rightarrow> wBipBuffer" where
  "BipBuffer_WriteCommit bb n =
     (if n = 0 then bb\<lparr>bb_writeR := BipBlock_Clear\<rparr>
      else let a = bb_blockA bb; b = bb_blockB bb; w = bb_writeR bb;
               n = (if n > bl_size w then bl_size w else n)
           in if bl_size a = 0 \<and> bl_size b = 0
              then bb\<lparr>bb_blockA := \<lparr>bl_index = bl_index w, bl_size = n\<rparr>, bb_writeR := BipBlock_Clear\<rparr>
              else if bl_index w = sz_add (bl_size a) (bl_index a)
              then bb\<lparr>bb_blockA := a\<lparr>bl_size := sz_add (bl_size a) n\<rparr>, bb_writeR := BipBlock_Clear\<rparr>
              else bb\<lparr>bb_blockB := b\<lparr>bl_size := sz_add (bl_size b) n\<rparr>, bb_writeR := BipBlock_Clear\<rparr>)"

text \<open>
  One of the two rounds of \<^verbatim>\<open>BipBuffer_Write\<close> and \<^verbatim>\<open>BipBuffer_Read\<close>. The flag says that the
  function returns there.
\<close>

definition bip_write_round :: "wBipBuffer \<Rightarrow> byte list \<Rightarrow> int \<Rightarrow> (int \<times> bool \<times> wBipBuffer) option" where
  "bip_write_round bb data status =
     (let (r, bb1) = BipBuffer_WriteTryReserve bb (sz_sub (length data) (to_size status)) in
      case r of
        None \<Rightarrow> Some (status, False, bb1)
      | Some (block, blockSize) \<Rightarrow> do {
          let writeSize = sz_sub (length data) (to_size status);
          let writeSize = (if writeSize > blockSize then blockSize else writeSize);
          d \<leftarrow> mem_read data (nat status) writeSize;
          buffer \<leftarrow> mem_write (bb_buffer bb1) block d;
          let bb2 = BipBuffer_WriteCommit (bb1\<lparr>bb_buffer := buffer\<rparr>) writeSize;
          let status = to_int (sz_add (to_size status) writeSize);
          Some (status, to_size status = length data \<or> writeSize < blockSize, bb2) })"

definition BipBuffer_Write :: "byte allocator \<Rightarrow> wBipBuffer \<Rightarrow> byte list \<Rightarrow> (int \<times> wBipBuffer) option" where
  "BipBuffer_Write A bb data = do {
     (block, bb1) \<leftarrow> BipBuffer_WriteReserve A bb (length data);
     (case block of
        None \<Rightarrow> Some (-1, bb1)
      | Some _ \<Rightarrow> do {
          (status, stop, bb2) \<leftarrow> bip_write_round bb1 data 0;
          if stop then Some (status, bb2)
          else do {
            (status, stop, bb3) \<leftarrow> bip_write_round bb2 data status;
            Some (status, bb3) } }) }"

definition BipBuffer_ReadReserve :: "byte allocator \<Rightarrow> wBipBuffer \<Rightarrow> nat \<Rightarrow> (nat option \<times> wBipBuffer) option" where
  "BipBuffer_ReadReserve A bb n =
     (if BipBuffer_UsedSize bb < n then Some (None, bb)
      else let r = BipBuffer_ReadTryReserve bb n;
               reserved = (case r of None \<Rightarrow> 0 | Some (p, k) \<Rightarrow> k)
           in if reserved = n then Some (map_option fst r, bb)
              else do {
                (ok, bb1) \<leftarrow> BipBuffer_Grow A bb (sz_add (bb_size bb) 1);
                if \<not> ok then Some (None, bb1)
                else let r = BipBuffer_ReadTryReserve bb1 n;
                         reserved = (case r of None \<Rightarrow> 0 | Some (p, k) \<Rightarrow> k)
                     in Some (if reserved \<noteq> n then None else map_option fst r, bb1) })"

definition bip_read_round :: "wBipBuffer \<Rightarrow> byte list \<Rightarrow> nat \<Rightarrow> int \<Rightarrow> (int \<times> byte list \<times> bool \<times> wBipBuffer) option" where
  "bip_read_round bb data n status =
     (case BipBuffer_ReadTryReserve bb 0 of
        None \<Rightarrow> Some (status, data, False, bb)
      | Some (block, blockSize) \<Rightarrow> do {
          let readSize = sz_sub n (to_size status);
          let readSize = (if readSize > blockSize then blockSize else readSize);
          d \<leftarrow> mem_read (bb_buffer bb) block readSize;
          data \<leftarrow> mem_write data (nat status) d;
          let bb1 = BipBuffer_ReadCommit bb readSize;
          let status = to_int (sz_add (to_size status) readSize);
          Some (status, data, to_size status = n \<or> readSize < blockSize, bb1) })"

definition BipBuffer_Read :: "wBipBuffer \<Rightarrow> byte list \<Rightarrow> nat \<Rightarrow> (int \<times> byte list \<times> wBipBuffer) option" where
  "BipBuffer_Read bb data n = do {
     (status, data, stop, bb1) \<leftarrow> bip_read_round bb data n 0;
     if stop then Some (status, data, bb1)
     else do {
       (status, data, stop, bb2) \<leftarrow> bip_read_round bb1 data n status;
       Some (status, data, bb2) } }"

text \<open>\<^verbatim>\<open>BipBuffer_New\<close>, with the page size of the system and whether the structure could be allocated.\<close>

definition BipBuffer_New :: "byte allocator \<Rightarrow> bool \<Rightarrow> nat \<Rightarrow> nat \<Rightarrow> wBipBuffer option option" where
  "BipBuffer_New A struct_ok dwPageSize n =
     (if \<not> struct_ok then Some None
      else do {
        (ok, bb) \<leftarrow> BipBuffer_AllocBuffer A
          \<lparr>bb_size = 0, bb_buffer = [], bb_pageSize = (if dwPageSize < 4096 then 4096 else dwPageSize),
           bb_blockA = BipBlock_Clear, bb_blockB = BipBlock_Clear, bb_readR = BipBlock_Clear,
           bb_writeR = BipBlock_Clear\<rparr> n;
        Some (if ok then Some bb else None) })"

section \<open>Invariant and abstraction\<close>

text \<open>
  Region B starts at the front of the block and ends before region A; it exists only when A is
  not empty, and an empty A is at the front.
\<close>

definition bip_wf :: "wBipBuffer \<Rightarrow> bool" where
  "bip_wf bb \<longleftrightarrow> length (bb_buffer bb) = bb_size bb \<and> bb_size bb < BLOCK_MAX \<and>
     0 < bb_pageSize bb \<and>
     bl_index (bb_blockA bb) + bl_size (bb_blockA bb) \<le> bb_size bb \<and>
     bl_index (bb_blockB bb) = 0 \<and> bl_size (bb_blockB bb) \<le> bl_index (bb_blockA bb) \<and>
     (bl_size (bb_blockA bb) = 0 \<longrightarrow> bl_index (bb_blockA bb) = 0)"

definition block_bytes :: "byte list \<Rightarrow> wBipBlock \<Rightarrow> byte list" where
  "block_bytes buf b = take (bl_size b) (drop (bl_index b) buf)"

definition bip_content :: "wBipBuffer \<Rightarrow> byte list" where
  "bip_content bb = block_bytes (bb_buffer bb) (bb_blockA bb) @ block_bytes (bb_buffer bb) (bb_blockB bb)"

lemma bip_wfD:
  assumes "bip_wf bb"
  shows "length (bb_buffer bb) = bb_size bb" "bb_size bb < BLOCK_MAX" "0 < bb_pageSize bb"
    "bl_index (bb_blockA bb) + bl_size (bb_blockA bb) \<le> bb_size bb"
    "bl_index (bb_blockB bb) = 0" "bl_size (bb_blockB bb) \<le> bl_index (bb_blockA bb)"
    "bl_size (bb_blockA bb) = 0 \<Longrightarrow> bl_index (bb_blockA bb) = 0"
    "bl_size (bb_blockA bb) = 0 \<Longrightarrow> bl_size (bb_blockB bb) = 0"
  using assms by (auto simp: bip_wf_def)

lemma length_block_bytes: "bl_index b + bl_size b \<le> length buf \<Longrightarrow> length (block_bytes buf b) = bl_size b"
  by (simp add: block_bytes_def)

lemma length_bip_content:
  assumes "bip_wf bb"
  shows "length (bip_content bb) = bl_size (bb_blockA bb) + bl_size (bb_blockB bb)"
  using bip_wfD [OF assms] by (simp add: bip_content_def length_block_bytes)

lemma BipBuffer_UsedSize_eq: "bip_wf bb \<Longrightarrow> BipBuffer_UsedSize bb = length (bip_content bb)"
proof -
  assume w: "bip_wf bb"
  have "bl_size (bb_blockA bb) + bl_size (bb_blockB bb) < SIZE_MOD"
    using bip_wfD [OF w] by (intro BLOCK_MAX_double) linarith+
  then show ?thesis by (simp add: BipBuffer_UsedSize_def length_bip_content [OF w] sz_add_nowrap)
qed

lemma block_bytes_Clear [simp]: "block_bytes buf BipBlock_Clear = []"
  by (simp add: block_bytes_def BipBlock_Clear_def)

section \<open>Reading\<close>

lemma BipBuffer_ReadCommit_ok:
  assumes w: "bip_wf bb" and n: "n \<le> bl_size (bb_blockA bb)"
  shows "bip_wf (BipBuffer_ReadCommit bb n)" "bip_content (BipBuffer_ReadCommit bb n) = drop n (bip_content bb)"
    "bb_buffer (BipBuffer_ReadCommit bb n) = bb_buffer bb" "bb_size (BipBuffer_ReadCommit bb n) = bb_size bb"
    "bb_pageSize (BipBuffer_ReadCommit bb n) = bb_pageSize bb"
proof -
  note d = bip_wfD [OF w]
  have add: "sz_add (bl_index (bb_blockA bb)) n = bl_index (bb_blockA bb) + n"
    using d(2,4) n by (intro sz_add_nowrap BLOCK_MAX_double) linarith+
  have sub: "sz_sub (bl_size (bb_blockA bb)) n = bl_size (bb_blockA bb) - n"
    using d(2,4) n by (intro sz_sub_nowrap) (auto intro!: BLOCK_MAX_size)
  show "bip_wf (BipBuffer_ReadCommit bb n)"
    using d n by (auto simp: BipBuffer_ReadCommit_def bip_wf_def BipBlock_Clear_def add sub)
  show "bip_content (BipBuffer_ReadCommit bb n) = drop n (bip_content bb)"
  proof (cases "n = bl_size (bb_blockA bb)")
    case True
    then show ?thesis using d(1,4) by (simp add: BipBuffer_ReadCommit_def bip_content_def length_block_bytes)
  next
    case False
    have "block_bytes (bb_buffer bb) \<lparr>bl_index = bl_index (bb_blockA bb) + n, bl_size = bl_size (bb_blockA bb) - n\<rparr>
        = drop n (block_bytes (bb_buffer bb) (bb_blockA bb))"
      using n by (simp add: block_bytes_def drop_take add.commute)
    then show ?thesis using False n d(1,4)
      by (simp add: BipBuffer_ReadCommit_def bip_content_def add sub length_block_bytes)
  qed
qed (simp_all add: BipBuffer_ReadCommit_def)

lemma bip_read_round_ok:
  assumes w: "bip_wf bb" and n: "st \<le> n" "n \<le> length data" "n < 2 ^ 31"
  defines "k \<equiv> min (n - st) (bl_size (bb_blockA bb))"
  shows "\<exists>stop bb'. bip_read_round bb data n (int st) =
      Some (int (st + k), take st data @ take k (bip_content bb) @ drop (st + k) data, stop, bb') \<and>
    bip_wf bb' \<and> bip_content bb' = drop k (bip_content bb) \<and>
    (stop \<longrightarrow> st + k = n) \<and>
    (\<not> stop \<longrightarrow> k = bl_size (bb_blockA bb) \<and> (bl_size (bb_blockA bb) \<noteq> 0 \<longrightarrow> bb_blockA bb' = bb_blockB bb) \<and>
      (bl_size (bb_blockA bb) = 0 \<longrightarrow> bb' = bb))"
proof (cases "bl_size (bb_blockA bb) = 0")
  case True
  then show ?thesis using w n
    by (intro exI [of _ False]) (simp add: bip_read_round_def BipBuffer_ReadTryReserve_def k_def)
next
  case False
  note d = bip_wfD [OF w]
  let ?a = "bb_blockA bb"
  have sz: "to_size (int st) = st" using n by (simp add: to_size_def SIZE_MOD_def)
  have sub: "sz_sub n st = n - st" using n by (intro sz_sub_nowrap) (simp_all add: SIZE_MOD_def)
  have k: "k \<le> bl_size ?a" "st + k \<le> n" by (simp_all add: k_def) (use n in linarith)
  have rs: "(if sz_sub n (to_size (int st)) > bl_size ?a then bl_size ?a else sz_sub n (to_size (int st))) = k"
    by (simp add: sz sub k_def)
  have "mem_read (bb_buffer bb) (bl_index ?a) k = Some (take k (drop (bl_index ?a) (bb_buffer bb)))"
    using d(1,4) k(1) by (intro mem_read_in) linarith
  moreover have "take k (drop (bl_index ?a) (bb_buffer bb)) = take k (bip_content bb)"
    using k(1) d(1,4) by (simp add: bip_content_def block_bytes_def min_absorb1)
  ultimately have rd: "mem_read (bb_buffer bb) (bl_index ?a) k = Some (take k (bip_content bb))" by simp
  have len: "length (take k (bip_content bb)) = k" using k(1) by (simp add: length_bip_content [OF w])
  have wr: "mem_write data st (take k (bip_content bb)) = Some (take st data @ take k (bip_content bb) @ drop (st + k) data)"
    using k(2) n(2) by (subst mem_write_in) (simp_all add: len del: length_take)
  have "sz_add st k = st + k" using k n by (intro sz_add_nowrap) (simp add: SIZE_MOD_def)
  then have st: "to_int (sz_add (to_size (int st)) k) = int (st + k)" "to_size (int (st + k)) = st + k"
    using k n by (simp_all add: sz to_int_small to_size_def SIZE_MOD_def)
  have "bip_read_round bb data n (int st) =
      Some (int (st + k), take st data @ take k (bip_content bb) @ drop (st + k) data,
        st + k = n \<or> k < bl_size ?a, BipBuffer_ReadCommit bb k)"
    using False rd wr st rs by (simp add: bip_read_round_def BipBuffer_ReadTryReserve_def Let_def)
  moreover have "\<not> (st + k = n \<or> k < bl_size ?a) \<Longrightarrow> bb_blockA (BipBuffer_ReadCommit bb k) = bb_blockB bb"
    using k by (simp add: BipBuffer_ReadCommit_def)
  moreover have "k < bl_size ?a \<Longrightarrow> st + k = n" using n by (simp add: k_def)
  ultimately show ?thesis
    using BipBuffer_ReadCommit_ok [OF w k(1)] k(1) False by (intro exI conjI; simp?) auto
qed

lemma BipBuffer_Read_ok:
  assumes w: "bip_wf bb" and n: "n \<le> length data" "n < 2 ^ 31"
  defines "d \<equiv> take n (bip_content bb)"
  shows "\<exists>bb'. BipBuffer_Read bb data n = Some (int (length d), d @ drop (length d) data, bb') \<and>
    bip_wf bb' \<and> bip_content bb' = drop n (bip_content bb)"
proof -
  define k where "k = min n (bl_size (bb_blockA bb))"
  let ?c = "bip_content bb"
  note lc = length_bip_content [OF w]
  have len: "length (take k ?c) = k" using lc by (simp add: k_def)
  from bip_read_round_ok [OF w le0 n, unfolded minus_nat.diff_0 of_nat_0 take_0 append_Nil add_0, folded k_def]
  obtain stop bb1 where
    r1: "bip_read_round bb data n (int 0) = Some (int k, take k ?c @ drop k data, stop, bb1)"
      "bip_wf bb1" "bip_content bb1 = drop k ?c" "stop \<longrightarrow> k = n"
      "\<not> stop \<longrightarrow> k = bl_size (bb_blockA bb) \<and> (bl_size (bb_blockA bb) \<noteq> 0 \<longrightarrow> bb_blockA bb1 = bb_blockB bb) \<and>
         (bl_size (bb_blockA bb) = 0 \<longrightarrow> bb1 = bb)"
    by (elim exE conjE) (rule that, assumption+)
  show ?thesis
  proof (cases stop)
    case True
    then have "d = take k ?c" "length d = k" using r1(4) len by (simp_all add: d_def)
    then show ?thesis using True r1 by (simp add: BipBuffer_Read_def)
  next
    case False
    let ?data = "take k ?c @ drop k data"
    have B: "bl_size (bb_blockA bb1) = bl_size (bb_blockB bb)"
      using r1(5) False bip_wfD(8) [OF w] by (cases "bl_size (bb_blockA bb) = 0") auto
    define l where "l = min (n - k) (bl_size (bb_blockB bb))"
    have n': "n \<le> length ?data" "k \<le> n" using n(1) len by (simp_all add: k_def)
    from bip_read_round_ok [OF r1(2) n'(2,1) n(2), unfolded B, folded l_def] obtain stop' bb2 where
      r2: "bip_read_round bb1 ?data n (int k) =
          Some (int (k + l), take k ?data @ take l (bip_content bb1) @ drop (k + l) ?data, stop', bb2)"
        "bip_wf bb2" "bip_content bb2 = drop l (bip_content bb1)"
      by (elim exE conjE) (rule that, assumption+)
    have kA: "k = bl_size (bb_blockA bb)" using r1(5) False by simp
    have tot: "length d = k + l" "k + l = min n (length ?c)"
      using kA n'(2) by (auto simp: d_def l_def lc min_def)
    have dd: "d = take k ?c @ take l (drop k ?c)"
      unfolding d_def take_add [symmetric] using tot(2) by (simp add: min_def)
    have "take k ?data @ take l (drop k ?c) @ drop (k + l) ?data = d @ drop (k + l) data"
      unfolding dd using len by (simp add: min_absorb1 add.commute del: length_take)
    then have "take k ?data @ take l (bip_content bb1) @ drop (k + l) ?data = d @ drop (length d) data"
      by (simp only: r1(3) tot(1))
    moreover have "drop (k + l) ?c = drop n ?c" using tot(2) by (simp add: min_def)
    ultimately show ?thesis using False r1(1,3) r2 tot(1)
      by (simp add: BipBuffer_Read_def add.commute)
  qed
qed

section \<open>Writing\<close>

lemma sz_add_BLOCK: "a + b < BLOCK_MAX \<Longrightarrow> sz_add a b = a + b"
  by (intro sz_add_nowrap BLOCK_MAX_size)

lemma sz_sub_BLOCK: "b \<le> a \<Longrightarrow> a < BLOCK_MAX \<Longrightarrow> sz_sub a b = a - b"
  by (intro sz_sub_nowrap BLOCK_MAX_size)

text \<open>A reserved region is free, and committing bytes stored there appends them.\<close>

definition bip_appends :: "wBipBuffer \<Rightarrow> nat \<Rightarrow> nat \<Rightarrow> wBipBuffer \<Rightarrow> bool" where
  "bip_appends bb p r bb' \<longleftrightarrow> bip_wf bb' \<and> bip_content bb' = bip_content bb \<and> bb_pageSize bb' = bb_pageSize bb \<and>
     (\<forall>d. length d \<le> r \<longrightarrow> (\<exists>buf. mem_write (bb_buffer bb') p d = Some buf \<and>
        bip_wf (BipBuffer_WriteCommit (bb'\<lparr>bb_buffer := buf\<rparr>) (length d)) \<and>
        bip_content (BipBuffer_WriteCommit (bb'\<lparr>bb_buffer := buf\<rparr>) (length d)) = bip_content bb @ d))"

lemma block_bytes_other:
  assumes "bl_index b + bl_size b \<le> p \<or> p + length d \<le> bl_index b" "p + length d \<le> length buf"
    "bl_index b + bl_size b \<le> length buf"
  shows "block_bytes (take p buf @ d @ drop (p + length d) buf) b = block_bytes buf b"
  using assms by (intro nth_equalityI) (auto simp: block_bytes_def nth_append)

lemma block_bytes_append:
  assumes "p = bl_index b + bl_size b" "p + length d \<le> length buf"
  shows "block_bytes (take p buf @ d @ drop (p + length d) buf) (b\<lparr>bl_size := bl_size b + length d\<rparr>) =
    block_bytes buf b @ d"
  using assms by (simp add: block_bytes_def drop_take)

lemma bip_wf_writeR [simp]: "bip_wf (bb\<lparr>bb_writeR := w\<rparr>) \<longleftrightarrow> bip_wf bb"
  by (simp add: bip_wf_def)

lemma bip_content_writeR [simp]: "bip_content (bb\<lparr>bb_writeR := w\<rparr>) = bip_content bb"
  by (simp add: bip_content_def)

text \<open>The new bytes extend region A, or they extend (or start) region B.\<close>

lemma bip_appends_A:
  assumes w: "bip_wf bb" and B: "bl_size (bb_blockB bb) = 0"
    and p: "p = bl_index (bb_blockA bb) + bl_size (bb_blockA bb)" "p + r \<le> bb_size bb"
  shows "bip_appends bb p r (bb\<lparr>bb_writeR := \<lparr>bl_index = p, bl_size = r\<rparr>\<rparr>)"
  unfolding bip_appends_def
proof (intro conjI allI impI)
  note d = bip_wfD [OF w]
  fix xs :: "byte list" assume xs: "length xs \<le> r"
  define buf where "buf = take p (bb_buffer bb) @ xs @ drop (p + length xs) (bb_buffer bb)"
  have mw: "mem_write (bb_buffer bb) p xs = Some buf" using xs p d(1) by (simp add: buf_def mem_write_in)
  have lb: "length buf = bb_size bb" using xs p d(1) by (simp add: buf_def)
  let ?bb' = "bb\<lparr>bb_writeR := \<lparr>bl_index = p, bl_size = r\<rparr>, bb_buffer := buf\<rparr>"
  have add: "sz_add (bl_size (bb_blockA bb)) (length xs) = bl_size (bb_blockA bb) + length xs"
    "sz_add (bl_size (bb_blockA bb)) (bl_index (bb_blockA bb)) = p"
    using xs p d(2,4) by (simp_all add: sz_add_BLOCK)
  have c: "BipBuffer_WriteCommit ?bb' (length xs) = (if xs = [] then bb\<lparr>bb_writeR := BipBlock_Clear, bb_buffer := buf\<rparr>
      else bb\<lparr>bb_blockA := (bb_blockA bb)\<lparr>bl_size := bl_size (bb_blockA bb) + length xs\<rparr>,
              bb_writeR := BipBlock_Clear, bb_buffer := buf\<rparr>)"
    using xs p B d(7) by (auto simp: BipBuffer_WriteCommit_def Let_def add)
  have bytes: "block_bytes buf ((bb_blockA bb)\<lparr>bl_size := bl_size (bb_blockA bb) + length xs\<rparr>) =
      block_bytes (bb_buffer bb) (bb_blockA bb) @ xs"
    unfolding buf_def using p xs d(1) by (intro block_bytes_append) auto
  have B': "block_bytes buf' (bb_blockB bb) = []" for buf' using B by (simp add: block_bytes_def)
  have same: "xs = [] \<Longrightarrow> buf = bb_buffer bb" by (simp add: buf_def)
  show "\<exists>buf. mem_write (bb_buffer (bb\<lparr>bb_writeR := \<lparr>bl_index = p, bl_size = r\<rparr>\<rparr>)) p xs = Some buf \<and>
      bip_wf (BipBuffer_WriteCommit (bb\<lparr>bb_writeR := \<lparr>bl_index = p, bl_size = r\<rparr>\<rparr>\<lparr>bb_buffer := buf\<rparr>) (length xs)) \<and>
      bip_content (BipBuffer_WriteCommit (bb\<lparr>bb_writeR := \<lparr>bl_index = p, bl_size = r\<rparr>\<rparr>\<lparr>bb_buffer := buf\<rparr>) (length xs)) =
        bip_content bb @ xs"
    using mw c bytes B' same lb d xs p B
    by (intro exI [of _ buf]) (auto simp: bip_wf_def bip_content_def)
qed (use w in simp_all)

lemma bip_appends_B:
  assumes w: "bip_wf bb" and A: "0 < bl_size (bb_blockA bb)" "0 < bl_index (bb_blockA bb)"
    and p: "p = bl_size (bb_blockB bb)" "p + r \<le> bl_index (bb_blockA bb)"
  shows "bip_appends bb p r (bb\<lparr>bb_writeR := \<lparr>bl_index = p, bl_size = r\<rparr>\<rparr>)"
  unfolding bip_appends_def
proof (intro conjI allI impI)
  note d = bip_wfD [OF w]
  fix xs :: "byte list" assume xs: "length xs \<le> r"
  define buf where "buf = take p (bb_buffer bb) @ xs @ drop (p + length xs) (bb_buffer bb)"
  have fit: "p + length xs \<le> length (bb_buffer bb)" using xs p d(1,4) by linarith
  have mw: "mem_write (bb_buffer bb) p xs = Some buf" using fit by (simp add: buf_def mem_write_in)
  have lb: "length buf = bb_size bb" using fit d(1) by (simp add: buf_def)
  let ?bb' = "bb\<lparr>bb_writeR := \<lparr>bl_index = p, bl_size = r\<rparr>, bb_buffer := buf\<rparr>"
  have add: "sz_add (bl_size (bb_blockB bb)) (length xs) = bl_size (bb_blockB bb) + length xs"
    "sz_add (bl_size (bb_blockA bb)) (bl_index (bb_blockA bb)) = bl_size (bb_blockA bb) + bl_index (bb_blockA bb)"
    using xs p d(2,4) by (simp_all add: sz_add_BLOCK)
  have c: "BipBuffer_WriteCommit ?bb' (length xs) = (if xs = [] then bb\<lparr>bb_writeR := BipBlock_Clear, bb_buffer := buf\<rparr>
      else bb\<lparr>bb_blockB := (bb_blockB bb)\<lparr>bl_size := bl_size (bb_blockB bb) + length xs\<rparr>,
              bb_writeR := BipBlock_Clear, bb_buffer := buf\<rparr>)"
    using xs p A by (auto simp: BipBuffer_WriteCommit_def Let_def add)
  have bA: "block_bytes buf (bb_blockA bb) = block_bytes (bb_buffer bb) (bb_blockA bb)"
    unfolding buf_def using p xs d(1,4) fit by (intro block_bytes_other) auto
  have bB: "block_bytes buf ((bb_blockB bb)\<lparr>bl_size := bl_size (bb_blockB bb) + length xs\<rparr>) =
      block_bytes (bb_buffer bb) (bb_blockB bb) @ xs"
    unfolding buf_def using p fit d(5) by (intro block_bytes_append) auto
  have same: "xs = [] \<Longrightarrow> buf = bb_buffer bb" by (simp add: buf_def)
  show "\<exists>buf. mem_write (bb_buffer (bb\<lparr>bb_writeR := \<lparr>bl_index = p, bl_size = r\<rparr>\<rparr>)) p xs = Some buf \<and>
      bip_wf (BipBuffer_WriteCommit (bb\<lparr>bb_writeR := \<lparr>bl_index = p, bl_size = r\<rparr>\<rparr>\<lparr>bb_buffer := buf\<rparr>) (length xs)) \<and>
      bip_content (BipBuffer_WriteCommit (bb\<lparr>bb_writeR := \<lparr>bl_index = p, bl_size = r\<rparr>\<rparr>\<lparr>bb_buffer := buf\<rparr>) (length xs)) =
        bip_content bb @ xs"
    using mw c bA bB same lb d xs p A
    by (intro exI [of _ buf]) (auto simp: bip_wf_def bip_content_def)
qed (use w in simp_all)

text \<open>\<^verbatim>\<open>BipBuffer_WriteTryReserve\<close>: at most \<open>n\<close> bytes, in a free place, or \<^verbatim>\<open>NULL\<close> with nothing changed.\<close>

lemma BipBuffer_WriteTryReserve_ok:
  assumes w: "bip_wf bb"
  shows "(\<exists>p r bb'. BipBuffer_WriteTryReserve bb n = (Some (p, r), bb') \<and> r \<le> n \<and> bip_appends bb p r bb') \<or>
    BipBuffer_WriteTryReserve bb n = (None, bb)"
proof -
  note d = bip_wfD [OF w]
  let ?a = "bb_blockA bb" and ?b = "bb_blockB bb"
  have s1: "sz_sub (sz_sub (bb_size bb) (bl_index ?a)) (bl_size ?a) = bb_size bb - bl_index ?a - bl_size ?a"
    using d(2,4) by (simp add: sz_sub_BLOCK)
  have s2: "sz_sub (sz_sub (bl_index ?a) (bl_index ?b)) (bl_size ?b) = bl_index ?a - bl_size ?b"
    using d(2,4,5,6) by (simp add: sz_sub_BLOCK)
  have a1: "sz_add (bl_index ?a) (bl_size ?a) = bl_index ?a + bl_size ?a"
    "sz_add (bl_index ?b) (bl_size ?b) = bl_size ?b"
    using d(2,4,5,6) by (simp_all add: sz_add_BLOCK)
  have m: "(if n < r then n else r) = min n r" "(if r < n then r else n) = min n r" for r
    by (simp_all add: min_def)
  show ?thesis
  proof (cases "bl_size ?b = 0")
    case True
    let ?r = "bb_size bb - bl_index ?a - bl_size ?a"
    have A: "bip_appends bb (bl_index ?a + bl_size ?a) (min n ?r)
        (bb\<lparr>bb_writeR := \<lparr>bl_index = bl_index ?a + bl_size ?a, bl_size = min n ?r\<rparr>\<rparr>)"
      using d(4) by (intro bip_appends_A [OF w True refl]) linarith
    have B: "bip_appends bb 0 (min n (bl_index ?a)) (bb\<lparr>bb_writeR := \<lparr>bl_index = 0, bl_size = min n (bl_index ?a)\<rparr>\<rparr>)"
      if "bl_index ?a \<noteq> 0"
      using that True d(7) by (intro bip_appends_B [OF w]) auto
    show ?thesis
      using True A B unfolding BipBuffer_WriteTryReserve_def Let_def s1 a1 m by auto
  next
    case False
    let ?r = "bl_index ?a - bl_size ?b"
    have "bip_appends bb (bl_size ?b) (min n ?r) (bb\<lparr>bb_writeR := \<lparr>bl_index = bl_size ?b, bl_size = min n ?r\<rparr>\<rparr>)"
      using False d(6,8) by (intro bip_appends_B [OF w]) auto
    then show ?thesis
      using False unfolding BipBuffer_WriteTryReserve_def Let_def s2 a1 m by auto
  qed
qed

lemma bip_write_round_ok:
  assumes w: "bip_wf bb" and st: "st \<le> length data" "length data < 2 ^ 31"
  shows "\<exists>k stop bb'. bip_write_round bb data (int st) = Some (int (st + k), stop, bb') \<and>
    bip_wf bb' \<and> st + k \<le> length data \<and> bip_content bb' = bip_content bb @ take k (drop st data)"
proof -
  have sz: "to_size (int st) = st" using st by (simp add: to_size_def SIZE_MOD_def)
  have sub: "sz_sub (length data) st = length data - st"
    using st by (intro sz_sub_BLOCK) (simp_all add: BLOCK_MAX_def)
  from BipBuffer_WriteTryReserve_ok [OF w, of "length data - st"] show ?thesis
  proof (elim disjE exE conjE)
    fix p r bb'
    assume t: "BipBuffer_WriteTryReserve bb (length data - st) = (Some (p, r), bb')" "r \<le> length data - st"
      and ap: "bip_appends bb p r bb'"
    let ?d = "take r (drop st data)"
    have len: "length ?d = r" using t(2) by simp
    have ws: "(if length data - st > r then r else length data - st) = r" using t(2) by simp
    have rd: "mem_read data st r = Some ?d" using t(2) st by (intro mem_read_in) linarith
    obtain buf where b: "mem_write (bb_buffer bb') p ?d = Some buf"
        "bip_wf (BipBuffer_WriteCommit (bb'\<lparr>bb_buffer := buf\<rparr>) r)"
        "bip_content (BipBuffer_WriteCommit (bb'\<lparr>bb_buffer := buf\<rparr>) r) = bip_content bb @ ?d"
      using ap len unfolding bip_appends_def by (metis order_refl)
    have "sz_add st r = st + r" using t(2) st by (intro sz_add_BLOCK) (simp add: BLOCK_MAX_def)
    then have si: "to_int (sz_add st r) = int (st + r)" using t(2) st by (simp add: to_int_small)
    show ?thesis
      using t b rd ws si st by (auto simp: bip_write_round_def Let_def sz sub intro!: exI [of _ r])
  next
    assume "BipBuffer_WriteTryReserve bb (length data - st) = (None, bb)"
    then show ?thesis using w st by (auto simp: bip_write_round_def sz sub intro!: exI [of _ 0])
  qed
qed

section \<open>Growing\<close>

lemma bip_grow_round_ok:
  assumes w: "bip_wf bb" and c: "commitSize + bl_size (bb_blockA bb) \<le> length buffer" "length buffer < BLOCK_MAX"
  defines "d \<equiv> block_bytes (bb_buffer bb) (bb_blockA bb)"
  shows "\<exists>bb'. bip_grow_round bb buffer commitSize =
      Some (take commitSize buffer @ d @ drop (commitSize + length d) buffer, commitSize + length d, bb') \<and>
    bip_wf bb' \<and> bip_content bb' = drop (length d) (bip_content bb) \<and> bb_pageSize bb' = bb_pageSize bb \<and>
    bb_blockA bb' = (if d = [] then bb_blockA bb else bb_blockB bb) \<and>
    (d \<noteq> [] \<longrightarrow> bb_blockB bb' = BipBlock_Clear)"
proof -
  note wd = bip_wfD [OF w]
  have len: "length d = bl_size (bb_blockA bb)" using wd(1,4) by (simp add: d_def length_block_bytes)
  show ?thesis
  proof (cases "bl_size (bb_blockA bb) = 0")
    case True
    then show ?thesis using w len by (simp add: bip_grow_round_def BipBuffer_ReadTryReserve_def)
  next
    case False
    have rd: "mem_read (bb_buffer bb) (bl_index (bb_blockA bb)) (bl_size (bb_blockA bb)) = Some d"
      using wd(1,4) by (simp add: mem_read_in d_def block_bytes_def)
    have wr: "mem_write buffer commitSize d = Some (take commitSize buffer @ d @ drop (commitSize + length d) buffer)"
      using c(1) len by (intro mem_write_in) simp
    have "sz_add commitSize (bl_size (bb_blockA bb)) = commitSize + length d"
      using c len by (simp add: sz_add_BLOCK)
    then show ?thesis
      using False rd wr len BipBuffer_ReadCommit_ok [OF w order_refl]
      by (auto simp: bip_grow_round_def BipBuffer_ReadTryReserve_def BipBuffer_ReadCommit_def Let_def)
  qed
qed

lemma BipBuffer_Grow_ok:
  assumes w: "bip_wf bb" and n: "n < BLOCK_MAX"
  shows "\<exists>ok bb'. BipBuffer_Grow A bb n = Some (ok, bb') \<and> bip_wf bb' \<and> bip_content bb' = bip_content bb \<and>
    bb_pageSize bb' = bb_pageSize bb \<and> (if ok then n \<le> bb_size bb' else bb' = bb)"
proof -
  note wd = bip_wfD [OF w]
  define m where "m = n + n mod bb_pageSize bb"
  have "n mod bb_pageSize bb \<le> n" by (rule mod_less_eq_dividend)
  then have "sz_add n (n mod bb_pageSize bb) = m"
    using n unfolding m_def by (intro sz_add_nowrap BLOCK_MAX_double) linarith+
  then have g: "BipBuffer_Grow A bb n = (if m \<le> bb_size bb then Some (True, bb)
     else (case mem_alloc A m of
             None \<Rightarrow> Some (False, bb)
           | Some buffer \<Rightarrow> do {
               (buffer, commitSize, bb1) \<leftarrow> bip_grow_round bb buffer 0;
               (buffer, commitSize, bb2) \<leftarrow> bip_grow_round bb1 buffer commitSize;
               Some (True, (BipBuffer_Clear bb2)\<lparr>bb_buffer := buffer, bb_size := m,
                 bb_blockA := \<lparr>bl_index = 0, bl_size = commitSize\<rparr>\<rparr>) }))"
    using wd(3) by (simp add: BipBuffer_Grow_def sz_mod_def)
  consider "m \<le> bb_size bb" | "\<not> m \<le> bb_size bb" "mem_alloc A m = None"
    | buffer where "\<not> m \<le> bb_size bb" "mem_alloc A m = Some buffer" by fastforce
  then show ?thesis
  proof cases
    case 1
    then show ?thesis using g w by (intro exI [of _ True]) (simp add: m_def)
  next
    case 2
    then show ?thesis using g w by (intro exI [of _ False]) simp
  next
    case (3 buffer)
    have m: "length buffer = m" "m < BLOCK_MAX"
      using 3(2) by (auto simp: mem_alloc_def split: if_splits)
    let ?c = "bip_content bb"
    define d1 where "d1 = block_bytes (bb_buffer bb) (bb_blockA bb)"
    have l1: "length d1 = bl_size (bb_blockA bb)" using wd(1,4) by (simp add: d1_def length_block_bytes)
    have lc: "length ?c = length d1 + bl_size (bb_blockB bb)" by (simp add: length_bip_content [OF w] l1)
    have fit: "0 + bl_size (bb_blockA bb) \<le> length buffer" "length ?c \<le> m"
      using 3(1) m wd(4,6) l1 lc by linarith+
    from bip_grow_round_ok [OF w fit(1) m(2) [folded m(1)], folded d1_def]
    obtain bb1 where r1: "bip_grow_round bb buffer 0 = Some (d1 @ drop (length d1) buffer, length d1, bb1)"
        "bip_wf bb1" "bip_content bb1 = drop (length d1) ?c" "bb_pageSize bb1 = bb_pageSize bb"
        "bb_blockA bb1 = (if d1 = [] then bb_blockA bb else bb_blockB bb)" "d1 \<noteq> [] \<longrightarrow> bb_blockB bb1 = BipBlock_Clear"
      by auto
    let ?b1 = "d1 @ drop (length d1) buffer"
    define d2 where "d2 = block_bytes (bb_buffer bb1) (bb_blockA bb1)"
    have l2: "length d2 = bl_size (bb_blockA bb1)"
      using bip_wfD(1,4) [OF r1(2)] by (simp add: d2_def length_block_bytes)
    have d2: "d2 = drop (length d1) ?c"
    proof (cases "d1 = []")
      case True
      then have "?c = []" using lc l1 wd(8) by simp
      moreover have "d2 = []" using l2 r1(5) True l1 by simp
      ultimately show ?thesis by simp
    next
      case False
      then show ?thesis using r1(3,6) by (simp add: bip_content_def d2_def)
    qed
    have c12: "?c = d1 @ d2" unfolding d2 by (simp add: bip_content_def d1_def)
    have fit2: "length d1 + bl_size (bb_blockA bb1) \<le> length ?b1" "length ?b1 < BLOCK_MAX"
      using fit(2) m c12 l2 by simp_all
    from bip_grow_round_ok [OF r1(2) fit2, folded d2_def]
    obtain bb2 where r2: "bip_grow_round bb1 ?b1 (length d1) =
          Some (d1 @ d2 @ drop (length d1 + length d2) ?b1, length d1 + length d2, bb2)"
        "bb_pageSize bb2 = bb_pageSize bb1"
      by auto
    let ?buf = "d1 @ d2 @ drop (length d1 + length d2) ?b1"
    let ?bb' = "(BipBuffer_Clear bb2)\<lparr>bb_buffer := ?buf, bb_size := m,
      bb_blockA := \<lparr>bl_index = 0, bl_size = length d1 + length d2\<rparr>\<rparr>"
    have "bip_content ?bb' = ?c"
      unfolding c12 by (simp add: bip_content_def BipBuffer_Clear_def block_bytes_def BipBlock_Clear_def)
    moreover have "bip_wf ?bb'"
      using fit(2) m c12 r1(4) r2(2) wd(3) by (simp add: bip_wf_def BipBuffer_Clear_def BipBlock_Clear_def)
    moreover have "BipBuffer_Grow A bb n = Some (True, ?bb')"
      using g 3 r1(1) r2(1) by simp
    ultimately show ?thesis
      using r1(4) r2(2) by (auto simp: m_def BipBuffer_Clear_def)
  qed
qed

lemma BipBuffer_WriteReserve_ok:
  assumes w: "bip_wf bb" and n: "n < BLOCK_MAX"
  shows "\<exists>r bb'. BipBuffer_WriteReserve A bb n = Some (r, bb') \<and> bip_wf bb' \<and> bip_content bb' = bip_content bb"
proof -
  have tr: "bip_wf (snd (BipBuffer_WriteTryReserve b n))"
      "bip_content (snd (BipBuffer_WriteTryReserve b n)) = bip_content b" if "bip_wf b" for b
    using BipBuffer_WriteTryReserve_ok [OF that, of n] that by (auto simp: bip_appends_def)
  obtain r bb1 where t: "BipBuffer_WriteTryReserve bb n = (r, bb1)" by fastforce
  then have b1: "bip_wf bb1" "bip_content bb1 = bip_content bb" using tr [OF w] by simp_all
  obtain ok bb2 where g: "BipBuffer_Grow A bb1 n = Some (ok, bb2)" "bip_wf bb2" "bip_content bb2 = bip_content bb"
    using BipBuffer_Grow_ok [OF b1(1) n, of A] b1(2) by auto
  obtain r' bb3 where t': "BipBuffer_WriteTryReserve bb2 n = (r', bb3)" by fastforce
  then have b3: "bip_wf bb3" "bip_content bb3 = bip_content bb" using tr [OF g(2)] g(3) by simp_all
  show ?thesis
    using t t' g b1 b3 by (auto simp: BipBuffer_WriteReserve_def Let_def)
qed

lemma BipBuffer_Write_ok:
  assumes w: "bip_wf bb" and d: "length d < 2 ^ 31"
  shows "\<exists>k st bb'. BipBuffer_Write A bb d = Some (st, bb') \<and> bip_wf bb' \<and> k \<le> length d \<and>
    (st = int k \<or> st = -1 \<and> k = 0) \<and> bip_content bb' = bip_content bb @ take k d"
proof -
  have n: "length d < BLOCK_MAX" using d by (simp add: BLOCK_MAX_def)
  obtain r bb1 where r: "BipBuffer_WriteReserve A bb (length d) = Some (r, bb1)" "bip_wf bb1"
      "bip_content bb1 = bip_content bb"
    using BipBuffer_WriteReserve_ok [OF w n, of A] by blast
  obtain k1 stop bb2 where a: "bip_write_round bb1 d 0 = Some (int k1, stop, bb2)" "bip_wf bb2"
      "k1 \<le> length d" "bip_content bb2 = bip_content bb @ take k1 d"
    using bip_write_round_ok [OF r(2) le0 d] r(3) by auto
  obtain k2 stop' bb3 where b: "bip_write_round bb2 d (int k1) = Some (int (k1 + k2), stop', bb3)" "bip_wf bb3"
      "k1 + k2 \<le> length d" "bip_content bb3 = bip_content bb2 @ take k2 (drop k1 d)"
    using bip_write_round_ok [OF a(2,3) d] by auto
  have c3: "bip_content bb3 = bip_content bb @ take (k1 + k2) d" using a(4) b(4) by (simp add: take_add)
  consider "r = None" | p where "r = Some p" "stop" | p where "r = Some p" "\<not> stop" by (cases r) auto
  then show ?thesis
  proof cases
    case 1
    then show ?thesis using r by (intro exI [of _ 0] exI [of _ "-1"]) (simp add: BipBuffer_Write_def)
  next
    case 2
    then show ?thesis using r a by (intro exI [of _ k1]) (simp add: BipBuffer_Write_def)
  next
    case 3
    then show ?thesis using r a(1) b c3 by (intro exI [of _ "k1 + k2"]) (simp add: BipBuffer_Write_def)
  qed
qed

lemma BipBuffer_New_ok:
  assumes "0 < n" "BipBuffer_New A ok ps n = Some (Some bb)"
  shows "bip_wf bb \<and> bip_content bb = []"
proof -
  define p where "p = (if ps < 4096 then 4096 else ps)"
  have p: "0 < p" by (simp add: p_def)
  obtain m buffer where "m = sz_add n (n mod p)" "mem_alloc A m = Some buffer"
      "bb = \<lparr>bb_size = m, bb_buffer = buffer, bb_pageSize = p, bb_blockA = BipBlock_Clear,
        bb_blockB = BipBlock_Clear, bb_readR = BipBlock_Clear, bb_writeR = BipBlock_Clear\<rparr>"
    using assms p unfolding BipBuffer_New_def p_def [symmetric]
    by (cases "mem_alloc A (sz_add n (n mod p))")
       (auto simp: BipBuffer_AllocBuffer_def sz_mod_def Let_def split: if_splits)
  then show ?thesis using p
    by (auto simp: bip_wf_def bip_content_def BipBlock_Clear_def block_bytes_def mem_alloc_def split: if_splits)
qed

section \<open>A byte queue\<close>

definition bip_put :: "byte allocator \<Rightarrow> wBipBuffer \<Rightarrow> byte list \<Rightarrow> (nat \<times> wBipBuffer) option" where
  "bip_put A bb d = do { (st, bb') \<leftarrow> BipBuffer_Write A bb d; Some (nat st, bb') }"

definition bip_get :: "wBipBuffer \<Rightarrow> nat \<Rightarrow> (byte list \<times> wBipBuffer) option" where
  "bip_get bb n = do {
     (st, buf, bb') \<leftarrow> BipBuffer_Read bb (replicate n 0) n;
     Some (take (nat st) buf, bb') }"

interpretation bip_fifo: byte_fifo bip_wf bip_content "bip_put A" bip_get "2 ^ 31"
proof
  fix s :: wBipBuffer and d :: "byte list"
  assume "bip_wf s" "length d < (2::nat) ^ 31"
  from BipBuffer_Write_ok [OF this, of A]
  show "\<exists>k s'. bip_put A s d = Some (k, s') \<and> k \<le> length d \<and> bip_wf s' \<and> bip_content s' = bip_content s @ take k d"
    by (auto simp: bip_put_def)
next
  fix s and n :: nat
  assume s: "bip_wf s" "n < 2 ^ 31"
  then show "\<exists>s'. bip_get s n = Some (take n (bip_content s), s') \<and> bip_wf s' \<and> bip_content s' = drop n (bip_content s)"
    using BipBuffer_Read_ok [OF s(1), of n "replicate n 0"] by (auto simp: bip_get_def min_def)
qed

text \<open>
  \<^verbatim>\<open>BipBuffer_ReadReserve\<close>: the pointer is to the oldest \<open>n\<close> bytes in one piece; when they were in
  two regions the buffer is moved to a larger block.
\<close>

lemma BipBuffer_Grow_linear:
  assumes w: "bip_wf bb" and g: "BipBuffer_Grow A bb n = Some (True, bb')" "bb_size bb < n" "n < BLOCK_MAX"
  shows "bl_size (bb_blockB bb') = 0"
proof -
  have "n mod bb_pageSize bb \<le> n" by (rule mod_less_eq_dividend)
  then have a: "sz_add n (n mod bb_pageSize bb) = n + n mod bb_pageSize bb"
    using g(3) by (intro sz_add_nowrap BLOCK_MAX_double) linarith+
  show ?thesis
    using g bip_wfD(3) [OF w]
    by (cases "mem_alloc A (n + n mod bb_pageSize bb)")
       (auto simp: BipBuffer_Grow_def sz_mod_def Let_def a BipBuffer_Clear_def BipBlock_Clear_def bind_eq_Some_conv)
qed

lemma BipBuffer_ReadReserve_ok:
  assumes w: "bip_wf bb" and n: "0 < n" and sz: "bb_size bb + 1 < BLOCK_MAX"
  shows "\<exists>r bb'. BipBuffer_ReadReserve A bb n = Some (r, bb') \<and> bip_wf bb' \<and> bip_content bb' = bip_content bb \<and>
    (case r of None \<Rightarrow> bb' = bb
     | Some p \<Rightarrow> n \<le> length (bip_content bb) \<and> mem_read (bb_buffer bb') p n = Some (take n (bip_content bb)))"
proof -
  have rd: "mem_read (bb_buffer b) (bl_index (bb_blockA b)) n = Some (take n (bip_content b))"
    if "bip_wf b" "n \<le> bl_size (bb_blockA b)" for b
    using bip_wfD(1,4) [OF that(1)] that(2)
    by (simp add: mem_read_def bip_content_def block_bytes_def min_absorb1)
  have u: "BipBuffer_UsedSize bb = length (bip_content bb)" by (rule BipBuffer_UsedSize_eq [OF w])
  have sz1: "sz_add (bb_size bb) 1 = bb_size bb + 1" using sz by (intro sz_add_BLOCK)
  obtain ok bb1 where g: "BipBuffer_Grow A bb (bb_size bb + 1) = Some (ok, bb1)" "bip_wf bb1"
      "bip_content bb1 = bip_content bb" "\<not> ok \<longrightarrow> bb1 = bb"
    using BipBuffer_Grow_ok [OF w sz, of A] by (auto split: if_splits)
  have lin: "n \<le> bl_size (bb_blockA bb1)" if "ok" "n \<le> length (bip_content bb)"
    using BipBuffer_Grow_linear [OF w, of A "bb_size bb + 1" bb1] g that sz length_bip_content [OF g(2)] by simp
  consider "length (bip_content bb) < n" | "n \<le> bl_size (bb_blockA bb)"
    | "n \<le> length (bip_content bb)" "\<not> n \<le> bl_size (bb_blockA bb)" by linarith
  then show ?thesis
  proof cases
    case 1
    then show ?thesis using w u by (simp add: BipBuffer_ReadReserve_def)
  next
    case 2
    then show ?thesis using w u n rd [OF w] length_bip_content [OF w]
      by (auto simp: BipBuffer_ReadReserve_def BipBuffer_ReadTryReserve_def Let_def)
  next
    case 3
    then show ?thesis using w u n g lin rd [OF g(2)] sz1
      by (cases ok) (auto simp: BipBuffer_ReadReserve_def BipBuffer_ReadTryReserve_def Let_def split: if_splits)
  qed
qed

section \<open>Properties\<close>

definition bip_sample :: wBipBuffer where
  "bip_sample = \<lparr>bb_size = 6, bb_buffer = [30, 0, 0, 10, 20, 0], bb_pageSize = 4096,
     bb_blockA = \<lparr>bl_index = 3, bl_size = 2\<rparr>, bb_blockB = \<lparr>bl_index = 0, bl_size = 1\<rparr>,
     bb_readR = BipBlock_Clear, bb_writeR = BipBlock_Clear\<rparr>"

lemma bip_sample_wf: "bip_wf bip_sample" "bip_content bip_sample = [10, 20, 30]" "bb_size bip_sample = 6"
  by (simp_all add: bip_sample_def bip_wf_def bip_content_def block_bytes_def BLOCK_MAX_def)

text \<open>
  C13: the bip buffer is a byte queue. In every run of \<^verbatim>\<open>BipBuffer_Write\<close> and \<^verbatim>\<open>BipBuffer_Read\<close>,
  across the wrap between the two regions, across growth and whatever the allocator refuses,
  what came out followed by what is left is what was there followed by what was accepted,
  where a write accepts a prefix of its block and returns its length.
\<close>

theorem bip_buffer_is_fifo:
  assumes "bip_wf bb" "\<forall>op \<in> set ops. fifo_op_size op < 2 ^ 31"
  shows "\<exists>ins outs bb'. fifo_run (bip_put A) bip_get ops bb = Some (ins, outs, bb') \<and> bip_wf bb' \<and>
     bip_content bb @ ins = outs @ bip_content bb'"
  using assms by (rule bip_fifo.run_ok)

theorem bip_buffer_is_fifo_witness:
  "\<exists>ins outs bb'. fifo_run (bip_put ample) bip_get [FPut [1, 2, 3, 4], FGet 4] bip_sample = Some (ins, outs, bb') \<and>
     bip_wf bb' \<and> bip_content bip_sample @ ins = outs @ bip_content bb'"
  by (rule bip_buffer_is_fifo) (simp_all add: bip_sample_wf)

text \<open>
   \<^verbatim>\<open>BipBuffer_ReadReserve\<close> returns a pointer to the oldest \<open>n\<close> bytes in one piece, also when
  they lie in both regions, and otherwise \<^verbatim>\<open>NULL\<close> with the buffer unchanged.
\<close>

theorem bip_read_reserve_contiguous:
  assumes "bip_wf bb" "0 < n" "bb_size bb + 1 < BLOCK_MAX"
  shows "\<exists>r bb'. BipBuffer_ReadReserve A bb n = Some (r, bb') \<and> bip_wf bb' \<and> bip_content bb' = bip_content bb \<and>
    (case r of None \<Rightarrow> bb' = bb
     | Some p \<Rightarrow> n \<le> length (bip_content bb) \<and> mem_read (bb_buffer bb') p n = Some (take n (bip_content bb)))"
  using assms by (rule BipBuffer_ReadReserve_ok)

theorem bip_read_reserve_contiguous_witness:
  "\<exists>r bb'. BipBuffer_ReadReserve ample bip_sample 3 = Some (r, bb') \<and> bip_wf bb' \<and> bip_content bb' = bip_content bip_sample \<and>
    (case r of None \<Rightarrow> bb' = bip_sample
     | Some p \<Rightarrow> 3 \<le> length (bip_content bip_sample) \<and> mem_read (bb_buffer bb') p 3 = Some (take 3 (bip_content bip_sample)))"
  by (rule bip_read_reserve_contiguous) (simp_all add: bip_sample_wf BLOCK_MAX_def)

text \<open>
   \<^verbatim>\<open>BipBuffer_WriteReserve\<close> can return a pointer behind which there are fewer bytes than asked
  for, because it grows the buffer to the size of the request and not to the size used plus
  the request: here 4 bytes are asked for, and the pointer is 1 byte before the end of the block.
\<close>

theorem bip_write_reserve_short:
  "BipBuffer_WriteReserve ample (bip_sample\<lparr>bb_blockA := \<lparr>bl_index = 0, bl_size = 7\<rparr>,
       bb_blockB := BipBlock_Clear, bb_size := 8, bb_buffer := replicate 8 0\<rparr>) 4 =
   Some (Some 7, bip_sample\<lparr>bb_blockA := \<lparr>bl_index = 0, bl_size = 7\<rparr>, bb_blockB := BipBlock_Clear,
       bb_size := 8, bb_buffer := replicate 8 0, bb_writeR := \<lparr>bl_index = 7, bl_size = 1\<rparr>\<rparr>)"
  by (simp add: BipBuffer_WriteReserve_def BipBuffer_WriteTryReserve_def bip_sample_def BipBlock_Clear_def
      sz_sub_def sz_add_def SIZE_MOD_def BipBuffer_Grow_def sz_mod_def Let_def)

end
