(* ===== verification/Objects.thy ===== *)
theory Objects
  imports Prelude "HOL-Library.Multiset"
begin

text \<open>
  What the collections of WinPR share (\<^verbatim>\<open>winpr/include/winpr/collections.h\<close>): object pointers and
  the callbacks of \<^verbatim>\<open>wObject\<close>, and the contracts of a queue and of a stack of objects as locales.

  A pointer is a number and \<^verbatim>\<open>NULL\<close> is 0. The callback that frees an object belongs to the user of
  the collection: the model records whether it is set, and an operation returns the objects
  it hands to it, in order. The equality callback is a function.
\<close>

type_synonym ptr = nat

definition NULL :: ptr where
  "NULL = 0"

record wObject =
  fnObjectFree :: bool
  fnObjectEquals :: "ptr \<Rightarrow> ptr \<Rightarrow> bool"

text \<open>The objects freed by one call of the callback, if there is one.\<close>

definition obj_free :: "wObject \<Rightarrow> ptr \<Rightarrow> ptr list" where
  "obj_free ob p = (if fnObjectFree ob then [p] else [])"

text \<open>A non-negative \<^verbatim>\<open>int\<close>: the result of an operation that does not fit is undefined.\<close>

definition cint :: "nat \<Rightarrow> nat option" where
  "cint n = (if n < 2 ^ 31 then Some n else None)"

text \<open>
  The search loops: the first index from \<open>i\<close> on, in \<open>n\<close> rounds, at which the test holds.
\<close>

fun find_from :: "(ptr \<Rightarrow> bool) \<Rightarrow> ptr list \<Rightarrow> nat \<Rightarrow> nat \<Rightarrow> nat option option" where
  "find_from P xs i 0 = Some None"
| "find_from P xs i (Suc n) = do {
     x \<leftarrow> arr_get xs i;
     if P x then Some (Some i) else find_from P xs (i + 1) n }"

text \<open>The clearing loops: every object is handed to the callback and its cell set to \<^verbatim>\<open>NULL\<close>.\<close>

fun clear_from :: "wObject \<Rightarrow> ptr list \<Rightarrow> nat \<Rightarrow> nat \<Rightarrow> (ptr list \<times> ptr list) option" where
  "clear_from ob xs i 0 = Some ([], xs)"
| "clear_from ob xs i (Suc n) = do {
     x \<leftarrow> arr_get xs i;
     xs \<leftarrow> arr_set xs i NULL;
     (freed, xs) \<leftarrow> clear_from ob xs (i + 1) n;
     Some (obj_free ob x @ freed, xs) }"

lemma find_from_eq:
  assumes "i + n \<le> length xs"
  shows "find_from P xs i n = Some (if \<exists>j < n. P (xs ! (i + j)) then Some (i + (LEAST j. P (xs ! (i + j)))) else None)"
  using assms
proof (induction n arbitrary: i)
  case 0
  then show ?case by simp
next
  case (Suc n)
  have g: "arr_get xs i = Some (xs ! i)" using Suc.prems by (simp add: arr_get_def)
  show ?case
  proof (cases "P (xs ! i)")
    case True
    then have "(LEAST j. P (xs ! (i + j))) = 0" by (intro Least_eq_0) simp
    then show ?thesis using g True by (auto intro: exI [of _ 0])
  next
    case False
    have ex: "(\<exists>j < Suc n. P (xs ! (i + j))) \<longleftrightarrow> (\<exists>j < n. P (xs ! (Suc i + j)))"
      using False by (auto simp: less_Suc_eq_0_disj)
    have "(LEAST j. P (xs ! (i + j))) = Suc (LEAST j. P (xs ! (Suc i + j)))" if "P (xs ! (i + j))" for j
      using Least_Suc [of "\<lambda>j. P (xs ! (i + j))", OF that] False by simp
    then have "(\<exists>j < n. P (xs ! (Suc i + j))) \<Longrightarrow>
        i + (LEAST j. P (xs ! (i + j))) = Suc i + (LEAST j. P (xs ! (Suc i + j)))"
      by (metis add_Suc_right add_Suc)
    then show ?thesis using g False Suc.IH [of "Suc i"] Suc.prems unfolding ex by auto
  qed
qed

lemma clear_from_eq:
  assumes "i + n \<le> length xs"
  shows "clear_from ob xs i n =
    Some (if fnObjectFree ob then take n (drop i xs) else [], take i xs @ replicate n NULL @ drop (i + n) xs)"
  using assms
proof (induction n arbitrary: i xs)
  case 0
  then show ?case by simp
next
  case (Suc n)
  have s: "take (Suc i) (xs[i := NULL]) = take i xs @ [NULL]" "drop i xs = xs ! i # drop (Suc i) xs"
    using Suc.prems by (simp_all add: take_Suc_conv_app_nth Cons_nth_drop_Suc)
  show ?case
    using Suc.IH [of "Suc i" "xs[i := NULL]"] Suc.prems s
    by (simp add: arr_get_def arr_set_def obj_free_def)
qed

text \<open>The result of a search as a characterisation: the first match, or none.\<close>

lemma find_from_cases:
  assumes "i + n \<le> length xs"
  shows "\<exists>r. find_from P xs i n = Some r \<and> (case r of
      None \<Rightarrow> \<forall>j. i \<le> j \<and> j < i + n \<longrightarrow> \<not> P (xs ! j)
    | Some k \<Rightarrow> i \<le> k \<and> k < i + n \<and> P (xs ! k) \<and> (\<forall>j. i \<le> j \<and> j < k \<longrightarrow> \<not> P (xs ! j)))"
  using assms
proof (induction n arbitrary: i)
  case 0
  then show ?case by auto
next
  case (Suc n)
  have g: "arr_get xs i = Some (xs ! i)" using Suc.prems by (simp add: arr_get_def)
  show ?case
  proof (cases "P (xs ! i)")
    case True
    then show ?thesis using g by auto
  next
    case False
    from Suc.IH [of "i + 1"] Suc.prems obtain r where "find_from P xs (i + 1) n = Some r" "case r of
        None \<Rightarrow> \<forall>j. i + 1 \<le> j \<and> j < i + 1 + n \<longrightarrow> \<not> P (xs ! j)
      | Some k \<Rightarrow> i + 1 \<le> k \<and> k < i + 1 + n \<and> P (xs ! k) \<and> (\<forall>j. i + 1 \<le> j \<and> j < k \<longrightarrow> \<not> P (xs ! j))"
      by auto
    moreover have "i \<le> j \<Longrightarrow> j = i \<or> i + 1 \<le> j" for j by linarith
    ultimately show ?thesis using g False by (auto split: option.splits)
  qed
qed

section \<open>A queue of objects\<close>

datatype 'x queue_op = Enq 'x | Deq

fun queue_run :: "('s \<Rightarrow> 'x \<Rightarrow> (bool \<times> 's) option) \<Rightarrow> ('s \<Rightarrow> ('x option \<times> 's) option) \<Rightarrow>
    'x queue_op list \<Rightarrow> 's \<Rightarrow> ('x list \<times> 'x list \<times> 's) option" where
  "queue_run enq deq [] s = Some ([], [], s)"
| "queue_run enq deq (Enq x # ops) s = do {
     (ok, s) \<leftarrow> enq s x;
     (ins, outs, s) \<leftarrow> queue_run enq deq ops s;
     Some (if ok then x # ins else ins, outs, s) }"
| "queue_run enq deq (Deq # ops) s = do {
     (x, s) \<leftarrow> deq s;
     (ins, outs, s) \<leftarrow> queue_run enq deq ops s;
     Some (ins, (case x of None \<Rightarrow> outs | Some x \<Rightarrow> x # outs), s) }"

text \<open>The number of objects may be limited, by the range of the counters for one.\<close>

locale object_queue =
  fixes qwf :: "'s \<Rightarrow> bool"
    and items :: "'s \<Rightarrow> 'x list"
    and enq :: "'s \<Rightarrow> 'x \<Rightarrow> (bool \<times> 's) option"
    and deq :: "'s \<Rightarrow> ('x option \<times> 's) option"
    and lim :: nat
  assumes enq_ok: "qwf s \<Longrightarrow> length (items s) < lim \<Longrightarrow>
      \<exists>ok s'. enq s x = Some (ok, s') \<and> qwf s' \<and> items s' = (if ok then items s @ [x] else items s)"
    and deq_ok: "qwf s \<Longrightarrow>
      \<exists>s'. deq s = Some (if items s = [] then None else Some (hd (items s)), s') \<and> qwf s' \<and> items s' = tl (items s)"
begin

lemma queue_run_ok:
  assumes "qwf s" "length (items s) + length ops \<le> lim"
  shows "\<exists>ins outs s'. queue_run enq deq ops s = Some (ins, outs, s') \<and> qwf s' \<and> items s @ ins = outs @ items s'"
  using assms
proof (induction ops arbitrary: s)
  case Nil
  then show ?case by simp
next
  case (Cons p ops)
  show ?case
  proof (cases p)
    case (Enq x)
    obtain ok s1 where s1: "enq s x = Some (ok, s1)" "qwf s1" "items s1 = (if ok then items s @ [x] else items s)"
      using enq_ok [of s x] Cons.prems by auto
    then obtain ins outs s' where "queue_run enq deq ops s1 = Some (ins, outs, s')" "qwf s'" "items s1 @ ins = outs @ items s'"
      using Cons.IH [of s1] Cons.prems by (cases ok) auto
    then show ?thesis using Enq s1 by (cases ok) auto
  next
    case Deq
    obtain s1 where s1: "deq s = Some (if items s = [] then None else Some (hd (items s)), s1)" "qwf s1"
        "items s1 = tl (items s)"
      using deq_ok [of s] Cons.prems by auto
    moreover have "length (items s1) + length ops \<le> lim" using s1(3) Cons.prems(2) by simp
    ultimately obtain ins outs s' where "queue_run enq deq ops s1 = Some (ins, outs, s')" "qwf s'" "items s1 @ ins = outs @ items s'"
      using Cons.IH [of s1] by blast
    then show ?thesis using Deq s1 by (cases "items s") auto
  qed
qed

end

section \<open>A stack of objects\<close>

text \<open>Pushing a list of objects, with the answer whether all were accepted, and popping \<open>n\<close> objects.\<close>

fun push_all :: "('s \<Rightarrow> 'x \<Rightarrow> (bool \<times> 's) option) \<Rightarrow> 'x list \<Rightarrow> 's \<Rightarrow> (bool \<times> 's) option" where
  "push_all push [] s = Some (True, s)"
| "push_all push (x # xs) s = do {
     (ok, s) \<leftarrow> push s x;
     (oks, s) \<leftarrow> push_all push xs s;
     Some (ok \<and> oks, s) }"

fun pop_n :: "('s \<Rightarrow> ('x option \<times> 's) option) \<Rightarrow> nat \<Rightarrow> 's \<Rightarrow> ('x option list \<times> 's) option" where
  "pop_n pop 0 s = Some ([], s)"
| "pop_n pop (Suc n) s = do {
     (x, s) \<leftarrow> pop s;
     (xs, s) \<leftarrow> pop_n pop n s;
     Some (x # xs, s) }"

locale object_stack =
  fixes swf :: "'s \<Rightarrow> bool"
    and elems :: "'s \<Rightarrow> 'x list"
    and push :: "'s \<Rightarrow> 'x \<Rightarrow> (bool \<times> 's) option"
    and pop :: "'s \<Rightarrow> ('x option \<times> 's) option"
    and lim :: nat
  assumes push_ok: "swf s \<Longrightarrow> length (elems s) < lim \<Longrightarrow>
      \<exists>ok s'. push s x = Some (ok, s') \<and> swf s' \<and> elems s' = (if ok then x # elems s else elems s)"
    and pop_ok: "swf s \<Longrightarrow>
      \<exists>s'. pop s = Some (if elems s = [] then None else Some (hd (elems s)), s') \<and> swf s' \<and> elems s' = tl (elems s)"
begin

lemma push_all_ok:
  assumes "swf s" "length (elems s) + length xs \<le> lim"
  shows "\<exists>oks s'. push_all push xs s = Some (oks, s') \<and> swf s' \<and> (oks \<longrightarrow> elems s' = rev xs @ elems s)"
  using assms
proof (induction xs arbitrary: s)
  case Nil
  then show ?case by auto
next
  case (Cons x xs)
  then obtain ok s1 where s1: "push s x = Some (ok, s1)" "swf s1" "elems s1 = (if ok then x # elems s else elems s)"
    using push_ok [of s x] by auto
  then obtain oks s' where "push_all push xs s1 = Some (oks, s')" "swf s'" "oks \<longrightarrow> elems s' = rev xs @ elems s1"
    using Cons.IH [of s1] Cons.prems by (cases ok) auto
  then show ?case using s1 by auto
qed

lemma pop_n_ok:
  assumes "swf s" "n \<le> length (elems s)"
  shows "\<exists>s'. pop_n pop n s = Some (map Some (take n (elems s)), s') \<and> swf s' \<and> elems s' = drop n (elems s)"
  using assms
proof (induction n arbitrary: s)
  case 0
  then show ?case by simp
next
  case (Suc n)
  then obtain x es where e: "elems s = x # es" by (cases "elems s") auto
  then obtain s1 where "pop s = Some (Some x, s1)" "swf s1" "elems s1 = es"
    using pop_ok [of s] Suc.prems by auto
  then show ?case using Suc.IH [of s1] Suc.prems e by auto
qed

text \<open>Last in, first out: pops return the objects of accepted pushes in reverse, and restore the stack.\<close>

lemma lifo:
  assumes "swf s" "length (elems s) + length xs \<le> lim" "push_all push xs s = Some (True, s1)"
  shows "\<exists>s2. pop_n pop (length xs) s1 = Some (map Some (rev xs), s2) \<and> swf s2 \<and> elems s2 = elems s"
proof -
  have s1: "swf s1" "elems s1 = rev xs @ elems s" using push_all_ok [OF assms(1,2)] assms(3) by auto
  then show ?thesis using pop_n_ok [OF s1(1), of "length xs"] by simp
qed

end

section \<open>A list of objects\<close>

text \<open>
  The operations of an array list, and what each does to the list: the objects it takes over, the
  objects it gives up, and the new list. Indices outside the list are ignored.
\<close>

datatype list_op = LAdd ptr | LInsert int ptr | LRemove ptr | LRemoveAt int | LClear

definition in_list :: "int \<Rightarrow> ptr list \<Rightarrow> bool" where
  "in_list i xs \<longleftrightarrow> 0 \<le> i \<and> i < int (length xs)"

fun list_spec :: "list_op \<Rightarrow> ptr list \<Rightarrow> ptr list \<times> ptr list \<times> ptr list" where
  "list_spec (LAdd x) xs = ([x], [], xs @ [x])"
| "list_spec (LInsert i x) xs =
     (if in_list i xs then ([x], [], take (nat i) xs @ x # drop (nat i) xs) else ([], [], xs))"
| "list_spec (LRemove x) xs = (if x \<in> set xs then ([], [x], remove1 x xs) else ([], [], xs))"
| "list_spec (LRemoveAt i) xs =
     (if in_list i xs then ([], [xs ! nat i], take (nat i) xs @ drop (nat i + 1) xs) else ([], [], xs))"
| "list_spec LClear xs = ([], xs, [])"

lemma list_spec_conserves: "list_spec op xs = (a, r, ys) \<Longrightarrow> mset xs + mset a = mset r + mset ys"
proof (cases op)
  case (LInsert i x)
  assume "list_spec op xs = (a, r, ys)"
  moreover have "mset xs = mset (take (nat i) xs) + mset (drop (nat i) xs)"
    by (metis append_take_drop_id mset_append)
  ultimately show ?thesis using LInsert by (auto split: if_splits)
next
  case (LRemoveAt i)
  assume "list_spec op xs = (a, r, ys)"
  moreover have "in_list i xs \<Longrightarrow> xs = take (nat i) xs @ xs ! nat i # drop (nat i + 1) xs"
    using id_take_nth_drop [of "nat i" xs] by (simp add: in_list_def nat_less_iff)
  then have "in_list i xs \<Longrightarrow> mset xs = mset (take (nat i) xs) + {#xs ! nat i#} + mset (drop (nat i + 1) xs)"
    by (metis add_mset_add_single mset.simps(2) mset_append union_mset_add_mset_left union_mset_add_mset_right)
  ultimately show ?thesis using LRemoveAt by (auto split: if_splits)
qed (auto split: if_splits)

fun list_run :: "('s \<Rightarrow> list_op \<Rightarrow> (bool \<times> ptr list \<times> 's) option) \<Rightarrow> ('s \<Rightarrow> ptr list) \<Rightarrow> list_op list \<Rightarrow> 's \<Rightarrow>
    (ptr list \<times> ptr list \<times> 's) option" where
  "list_run step items [] s = Some ([], [], s)"
| "list_run step items (op # ops) s = do {
     let taken = fst (list_spec op (items s));
     (ok, freed, s) \<leftarrow> step s op;
     (taken', freed', s) \<leftarrow> list_run step items ops s;
     Some (if ok then taken @ taken' else taken', freed @ freed', s) }"

locale object_list =
  fixes lwf :: "'s \<Rightarrow> bool"
    and items :: "'s \<Rightarrow> ptr list"
    and step :: "'s \<Rightarrow> list_op \<Rightarrow> (bool \<times> ptr list \<times> 's) option"
    and lim :: nat
  assumes step_ok: "lwf s \<Longrightarrow> length (items s) < lim \<Longrightarrow>
      \<exists>ok freed s'. step s op = Some (ok, freed, s') \<and> lwf s' \<and>
        (if ok then (freed, items s') = snd (list_spec op (items s)) else freed = [] \<and> items s' = items s)"
begin

lemma step_length:
  assumes "lwf s" "length (items s) < lim" "step s op = Some (ok, freed, s')"
  shows "length (items s') \<le> length (items s) + 1"
proof -
  have "length (snd (snd (list_spec op (items s)))) \<le> length (items s) + 1"
    by (cases op) (auto simp: in_list_def length_remove1)
  then show ?thesis using step_ok [OF assms(1,2), of op] assms(3) by (auto split: if_splits) (metis snd_conv)
qed

text \<open>No object is lost, and none is given up twice.\<close>

lemma run_conserves:
  assumes "lwf s" "length (items s) + length ops \<le> lim"
  shows "\<exists>taken freed s'. list_run step items ops s = Some (taken, freed, s') \<and> lwf s' \<and>
    mset (items s) + mset taken = mset freed + mset (items s')"
  using assms
proof (induction ops arbitrary: s)
  case Nil
  then show ?case by simp
next
  case (Cons op ops)
  obtain ok freed s1 where s1: "step s op = Some (ok, freed, s1)" "lwf s1"
      "if ok then (freed, items s1) = snd (list_spec op (items s)) else freed = [] \<and> items s1 = items s"
    using step_ok [of s op] Cons.prems by auto
  have "length (items s1) + length ops \<le> lim"
    using step_length [OF Cons.prems(1) _ s1(1)] Cons.prems(2) by simp
  then obtain taken freed' s' where s': "list_run step items ops s1 = Some (taken, freed', s')" "lwf s'"
      "mset (items s1) + mset taken = mset freed' + mset (items s')"
    using Cons.IH [OF s1(2)] by blast
  have "mset (items s) + mset (if ok then fst (list_spec op (items s)) else []) = mset freed + mset (items s1)"
    using s1(3) list_spec_conserves [of op "items s" "fst (list_spec op (items s))" freed "items s1"]
    by (cases ok) auto
  then have "mset (items s) + mset (if ok then fst (list_spec op (items s)) else []) + mset taken =
      mset freed + (mset freed' + mset (items s'))"
    using s'(3) by (metis add.assoc)
  then have "mset (items s) + mset (if ok then fst (list_spec op (items s)) @ taken else taken) =
      mset (freed @ freed') + mset (items s')"
    by (cases ok) (simp_all add: add.assoc)
  then show ?case using s1(1) s'(1,2) by (auto simp: Let_def)
qed

end

end
