(* ===== verification/WQueue.thy ===== *)
theory WQueue
  imports Objects
begin

text \<open>
  The object queue of WinPR (\<^verbatim>\<open>winpr/libwinpr/utils/collections/Queue.c\<close>): a circular array that
  doubles when it is full. The counters are \<^verbatim>\<open>int\<close>s that no operation makes negative, and are
  natural numbers here, with overflow undefined.
\<close>

record wQueue =
  q_capacity :: nat
  q_growthFactor :: nat
  q_synchronized :: bool
  q_head :: nat
  q_tail :: nat
  q_size :: nat
  q_array :: "ptr list"
  q_lock :: nat
  q_event :: bool
  q_object :: wObject

section \<open>Operations\<close>

definition Queue_Count :: "wQueue \<Rightarrow> (nat \<times> wQueue) option" where
  "Queue_Count q = do {
     let lk = cs_enter (q_synchronized q) (q_lock q);
     lk \<leftarrow> cs_leave (q_synchronized q) lk;
     Some (q_size q, q\<lparr>q_lock := lk\<rparr>) }"

definition Queue_Lock :: "wQueue \<Rightarrow> wQueue" where
  "Queue_Lock q = q\<lparr>q_lock := cs_enter True (q_lock q)\<rparr>"

definition Queue_Unlock :: "wQueue \<Rightarrow> wQueue option" where
  "Queue_Unlock q = do { lk \<leftarrow> cs_leave True (q_lock q); Some (q\<lparr>q_lock := lk\<rparr>) }"

definition Queue_Event :: "wQueue \<Rightarrow> bool" where
  "Queue_Event q = q_event q"

text \<open>The loop of \<^verbatim>\<open>Queue_Clear\<close>, which walks around the array until it meets the tail.\<close>

partial_function (option) queue_clear_loop ::
    "wObject \<Rightarrow> nat \<Rightarrow> nat \<Rightarrow> ptr list \<Rightarrow> nat \<Rightarrow> (ptr list \<times> ptr list) option" where
  "queue_clear_loop ob tail capacity xs i =
     (if i = tail then Some ([], xs)
      else do {
        x \<leftarrow> arr_get xs i;
        xs \<leftarrow> arr_set xs i NULL;
        i \<leftarrow> sz_mod (i + 1) capacity;
        (freed, xs) \<leftarrow> queue_clear_loop ob tail capacity xs i;
        Some (obj_free ob x @ freed, xs) })"

text \<open>The result is the objects freed and the new queue.\<close>

definition Queue_Clear :: "wQueue \<Rightarrow> (ptr list \<times> wQueue) option" where
  "Queue_Clear q = do {
     let lk = cs_enter (q_synchronized q) (q_lock q);
     (freed, xs) \<leftarrow> queue_clear_loop (q_object q) (q_tail q) (q_capacity q) (q_array q) (q_head q);
     lk \<leftarrow> cs_leave (q_synchronized q) lk;
     Some (freed, q\<lparr>q_array := xs, q_size := 0, q_head := 0, q_tail := 0, q_lock := lk\<rparr>) }"

definition Queue_Contains :: "wQueue \<Rightarrow> ptr \<Rightarrow> (bool \<times> wQueue) option" where
  "Queue_Contains q obj = do {
     let lk = cs_enter (q_synchronized q) (q_lock q);
     r \<leftarrow> find_from (\<lambda>x. fnObjectEquals (q_object q) x obj) (q_array q) 0 (q_tail q);
     lk \<leftarrow> cs_leave (q_synchronized q) lk;
     Some (r \<noteq> None, q\<lparr>q_lock := lk\<rparr>) }"

text \<open>The growth of a full queue; \<open>None\<close> as a value when the allocator refuses.\<close>

definition queue_grow :: "ptr allocator \<Rightarrow> wQueue \<Rightarrow> wQueue option option" where
  "queue_grow A q = do {
     let old_capacity = q_capacity q;
     new_capacity \<leftarrow> cint (q_capacity q * q_growthFactor q);
     (case mem_realloc A (q_array q) new_capacity of
        None \<Rightarrow> Some None
      | Some newArray \<Rightarrow> do {
          arr \<leftarrow> mem_write newArray old_capacity (replicate old_capacity NULL);
          if q_tail q < old_capacity then do {
            arr \<leftarrow> mem_move arr old_capacity 0 (q_tail q);
            tail \<leftarrow> cint (q_tail q + old_capacity);
            Some (Some (q\<lparr>q_capacity := new_capacity, q_array := arr, q_tail := tail\<rparr>)) }
          else Some (Some (q\<lparr>q_capacity := new_capacity, q_array := arr\<rparr>)) }) }"

definition Queue_Enqueue :: "ptr allocator \<Rightarrow> wQueue \<Rightarrow> ptr \<Rightarrow> (bool \<times> wQueue) option" where
  "Queue_Enqueue A q obj = do {
     let lk = cs_enter (q_synchronized q) (q_lock q);
     g \<leftarrow> (if q_size q = q_capacity q then queue_grow A q else Some (Some q));
     (case g of
        None \<Rightarrow> do {
          lk \<leftarrow> cs_leave (q_synchronized q) lk;
          Some (False, q\<lparr>q_lock := lk\<rparr>) }
      | Some q \<Rightarrow> do {
          arr \<leftarrow> arr_set (q_array q) (q_tail q) obj;
          t \<leftarrow> cint (q_tail q + 1);
          tail \<leftarrow> sz_mod t (q_capacity q);
          sz \<leftarrow> cint (q_size q + 1);
          lk \<leftarrow> cs_leave (q_synchronized q) lk;
          Some (True, q\<lparr>q_array := arr, q_tail := tail, q_size := sz, q_event := True, q_lock := lk\<rparr>) }) }"

definition Queue_Dequeue :: "wQueue \<Rightarrow> (ptr \<times> wQueue) option" where
  "Queue_Dequeue q = do {
     let lk = cs_enter (q_synchronized q) (q_lock q);
     (obj, q) \<leftarrow> (if q_size q > 0 then do {
         obj \<leftarrow> arr_get (q_array q) (q_head q);
         arr \<leftarrow> arr_set (q_array q) (q_head q) NULL;
         h \<leftarrow> cint (q_head q + 1);
         head \<leftarrow> sz_mod h (q_capacity q);
         Some (obj, q\<lparr>q_array := arr, q_head := head, q_size := q_size q - 1\<rparr>) }
       else Some (NULL, q));
     let ev = (if q_size q < 1 then False else q_event q);
     lk \<leftarrow> cs_leave (q_synchronized q) lk;
     Some (obj, q\<lparr>q_event := ev, q_lock := lk\<rparr>) }"

definition Queue_Peek :: "wQueue \<Rightarrow> (ptr \<times> wQueue) option" where
  "Queue_Peek q = do {
     let lk = cs_enter (q_synchronized q) (q_lock q);
     obj \<leftarrow> (if q_size q > 0 then arr_get (q_array q) (q_head q) else Some NULL);
     lk \<leftarrow> cs_leave (q_synchronized q) lk;
     Some (obj, q\<lparr>q_lock := lk\<rparr>) }"

definition default_queue_equals :: "ptr \<Rightarrow> ptr \<Rightarrow> bool" where
  "default_queue_equals obj1 obj2 \<longleftrightarrow> obj1 = obj2"

text \<open>
  \<^verbatim>\<open>Queue_New\<close>; the flags say whether the structure, the event and the lock could be created.
\<close>

definition Queue_New :: "ptr allocator \<Rightarrow> bool \<Rightarrow> bool \<Rightarrow> bool \<Rightarrow> bool \<Rightarrow> int \<Rightarrow> int \<Rightarrow> wQueue option" where
  "Queue_New A struct_ok event_ok lock_ok sync capacity growthFactor =
     (let c = (if capacity > 0 then nat capacity else 32);
          g = (if growthFactor > 0 then nat growthFactor else 2)
      in if \<not> struct_ok \<or> \<not> al_ok A c \<or> \<not> event_ok \<or> \<not> lock_ok then None
         else Some \<lparr>q_capacity = c, q_growthFactor = g, q_synchronized = sync, q_head = 0, q_tail = 0,
           q_size = 0, q_array = replicate c NULL, q_lock = 0, q_event = False,
           q_object = \<lparr>fnObjectFree = False, fnObjectEquals = default_queue_equals\<rparr>\<rparr>)"

text \<open>\<^verbatim>\<open>Queue_Free\<close> clears the queue and releases its event, lock, array and structure.\<close>

definition Queue_Free :: "wQueue option \<Rightarrow> ptr list option" where
  "Queue_Free queue = (case queue of
       None \<Rightarrow> Some []
     | Some q \<Rightarrow> do { (freed, q) \<leftarrow> Queue_Clear q; Some freed })"

section \<open>Invariant and abstraction\<close>

definition q_wf :: "nat \<Rightarrow> wQueue \<Rightarrow> bool" where
  "q_wf g q \<longleftrightarrow> q_growthFactor q = g \<and> 2 \<le> g \<and> length (q_array q) = q_capacity q \<and> 0 < q_capacity q \<and>
     q_capacity q < 2 ^ 31 \<and> q_head q < q_capacity q \<and> q_size q \<le> q_capacity q \<and>
     q_tail q = (q_head q + q_size q) mod q_capacity q \<and> (q_event q \<or> q_size q = 0)"

definition q_items :: "wQueue \<Rightarrow> ptr list" where
  "q_items q = ring_list (q_array q) (q_head q) (q_size q)"

lemma length_q_items [simp]: "length (q_items q) = q_size q"
  by (simp add: q_items_def)

lemma q_wfD:
  assumes "q_wf g q"
  shows "q_growthFactor q = g" "2 \<le> g" "length (q_array q) = q_capacity q" "0 < q_capacity q" "q_capacity q < 2 ^ 31"
    "q_head q < q_capacity q" "q_size q \<le> q_capacity q" "q_tail q = (q_head q + q_size q) mod q_capacity q"
    "q_tail q < q_capacity q"
  using assms by (auto simp: q_wf_def)

section \<open>Enqueue and dequeue\<close>

text \<open>
  A full queue has head and tail at the same place. Growing copies the part in front of it
  behind the old end, so that the objects are in one piece from the head on.
\<close>

lemma queue_grow_ok:
  assumes w: "q_wf g q" and full: "q_size q = q_capacity q" and lim: "q_capacity q * g < 2 ^ 31"
  shows "if al_ok A (q_capacity q * g)
    then \<exists>q'. queue_grow A q = Some (Some q') \<and> q_wf g q' \<and> q_items q' = q_items q \<and> q_size q' < q_capacity q' \<and>
      q_object q' = q_object q \<and> q_synchronized q' = q_synchronized q \<and> q_lock q' = q_lock q \<and> q_event q' = q_event q
    else queue_grow A q = Some None"
proof -
  note d = q_wfD [OF w]
  let ?c = "q_capacity q" and ?h = "q_head q" and ?xs = "q_array q"
  have tail: "q_tail q = ?h" using d(6,8) full by simp
  have cap: "cint (?c * g) = Some (?c * g)" using lim by (simp add: cint_def)
  have big: "2 * ?c \<le> ?c * g" using d(2,4) by simp
  show ?thesis
  proof (cases "al_ok A (?c * g)")
    case False
    then show ?thesis by (simp add: queue_grow_def d(1) cap mem_realloc_def)
  next
    case True
    have bm: "?c * g < BLOCK_MAX" using lim by (simp add: BLOCK_MAX_def)
    obtain ys where ys: "mem_realloc A ?xs (?c * g) = Some ys" "length ys = ?c * g" "take ?c ys = ?xs"
      using True bm big d(3) by (auto simp: mem_realloc_def)
    define zs where "zs = ?xs @ replicate ?c NULL @ drop (2 * ?c) ys"
    have z: "mem_write ys ?c (replicate ?c NULL) = Some zs" "length zs = ?c * g"
      using ys big d(3) by (auto simp: mem_write_in zs_def mult_2)
    define ws where "ws = ?xs @ take ?h ?xs @ drop (?c + ?h) zs"
    have m: "mem_move zs ?c 0 ?h = Some ws"
      using z big d(3,6) by (subst mem_move_in) (auto simp: ws_def zs_def)
    have sum: "?h + ?c \<le> ?c * g" using big d(6) by linarith
    then have lw: "length ws = ?c * g" using z(2) d(3,6) by (simp add: ws_def)
    have "?h + ?c < 2 ^ 31" using d(6) big lim by linarith
    then have t: "cint (?h + ?c) = Some (?h + ?c)" by (simp add: cint_def)
    let ?q = "q\<lparr>q_capacity := ?c * g, q_array := ws, q_tail := ?h + ?c\<rparr>"
    have "queue_grow A q = Some (Some ?q)"
      using ys(1) z(1) m t d(6) by (simp add: queue_grow_def d(1) cap tail Let_def)
    moreover have "q_items ?q = q_items q"
    proof -
      have "ring_list ws ?h ?c = take ?c (drop ?h ws)" using lw sum by (intro ring_list_linear) simp
      also have "\<dots> = drop ?h ?xs @ take ?h ?xs" using d(3,6) by (simp add: ws_def)
      also have "\<dots> = ring_list ?xs ?h ?c" using d(3,6) by (subst ring_list_wrap) auto
      finally show ?thesis using full by (simp add: q_items_def)
    qed
    moreover have less: "?h + ?c < ?c * g" "?h < ?c * g" "?c < ?c * g" using big d(4,6) by linarith+
    moreover have "q_wf g ?q" "q_size ?q < q_capacity ?q"
      using w full lim lw less by (auto simp: q_wf_def)
    ultimately show ?thesis using True by auto
  qed
qed

lemma ring_put_single: "w < length xs \<Longrightarrow> ring_put xs w [x] = xs[w := x]"
  by (auto simp: ring_put_def upd_conv_take_nth_drop)

lemma queue_store_ok:
  fixes obj :: ptr
  assumes w: "q_wf g q" and room: "q_size q < q_capacity q"
  defines "q' \<equiv> q\<lparr>q_array := (q_array q)[q_tail q := obj], q_tail := (q_tail q + 1) mod q_capacity q,
    q_size := q_size q + 1, q_event := True\<rparr>"
  shows "q_wf g q'" "q_items q' = q_items q @ [obj]"
proof -
  note d = q_wfD [OF w]
  have "(q_tail q + 1) mod q_capacity q = (q_head q + (q_size q + 1)) mod q_capacity q"
    using mod_add_left_eq [of "q_head q + q_size q" "q_capacity q" 1] by (simp only: d(8) add.assoc)
  then show "q_wf g q'" using w room unfolding q_wf_def q'_def by simp
  have "ring_list (ring_put (q_array q) ((q_head q + q_size q) mod length (q_array q)) [obj]) (q_head q) (q_size q + 1)
      = ring_list (q_array q) (q_head q) (q_size q) @ [obj]"
    using ring_list_put [of "q_head q" "q_array q" "q_size q" "[obj]"] d(3,6) room by simp
  then show "q_items q' = q_items q @ [obj]"
    using ring_put_single [of "q_tail q" "q_array q" obj] d(3,8,9) by (simp add: q_items_def q'_def)
qed

definition q_kept :: "wQueue \<Rightarrow> wQueue \<Rightarrow> bool" where
  "q_kept q q' \<longleftrightarrow> q_object q' = q_object q \<and> q_synchronized q' = q_synchronized q \<and> q_lock q' = q_lock q"

lemma Queue_Enqueue_ok:
  assumes w: "q_wf g q" and lim: "q_size q * g < 2 ^ 31"
  shows "\<exists>ok q'. Queue_Enqueue A q obj = Some (ok, q') \<and> q_wf g q' \<and> q_kept q q' \<and>
    (ok \<longleftrightarrow> q_size q < q_capacity q \<or> al_ok A (q_capacity q * g)) \<and>
    (if ok then q_items q' = q_items q @ [obj] else q' = q)"
proof -
  note d = q_wfD [OF w]
  have store: "\<exists>q'. (do {
          arr \<leftarrow> arr_set (q_array q1) (q_tail q1) obj;
          t \<leftarrow> cint (q_tail q1 + 1);
          tail \<leftarrow> sz_mod t (q_capacity q1);
          sz \<leftarrow> cint (q_size q1 + 1);
          lk \<leftarrow> cs_leave (q_synchronized q) (cs_enter (q_synchronized q) (q_lock q));
          Some (True, q1\<lparr>q_array := arr, q_tail := tail, q_size := sz, q_event := True, q_lock := lk\<rparr>) }) = Some (True, q') \<and>
        q_wf g q' \<and> q_kept q q' \<and> q_items q' = q_items q1 @ [obj]"
    if q1: "q_wf g q1" "q_size q1 < q_capacity q1" "q_kept q q1" for q1
  proof -
    note e = q_wfD [OF q1(1)]
    let ?q' = "q1\<lparr>q_array := (q_array q1)[q_tail q1 := obj], q_tail := (q_tail q1 + 1) mod q_capacity q1,
      q_size := q_size q1 + 1, q_event := True\<rparr>"
    have kept: "q_lock q1 = q_lock q" "q_synchronized q1 = q_synchronized q" "q_object q1 = q_object q"
      using q1(3) by (simp_all add: q_kept_def)
    have "q_tail q1 + 1 < 2 ^ 31" "q_size q1 + 1 < 2 ^ 31" using e(5,9) q1(2) by linarith+
    then have "cint (q_tail q1 + 1) = Some (q_tail q1 + 1)" "cint (q_size q1 + 1) = Some (q_size q1 + 1)"
      by (simp_all add: cint_def)
    moreover have "arr_set (q_array q1) (q_tail q1) obj = Some ((q_array q1)[q_tail q1 := obj])"
      using e(3,9) by (simp add: arr_set_def)
    moreover have "q1\<lparr>q_lock := q_lock q1\<rparr> = q1" by simp
    ultimately show ?thesis
      using queue_store_ok [OF q1(1,2), of obj] e(4) kept
      by (intro exI [of _ ?q']) (simp add: sz_mod_def q_kept_def)
  qed
  show ?thesis
  proof (cases "q_size q < q_capacity q")
    case True
    then show ?thesis using store [OF w True] by (auto simp: Queue_Enqueue_def q_kept_def Let_def)
  next
    case False
    then have full: "q_size q = q_capacity q" using d(7) by simp
    have grow: "if al_ok A (q_capacity q * g)
      then \<exists>q'. queue_grow A q = Some (Some q') \<and> q_wf g q' \<and> q_items q' = q_items q \<and> q_size q' < q_capacity q' \<and>
        q_object q' = q_object q \<and> q_synchronized q' = q_synchronized q \<and> q_lock q' = q_lock q \<and> q_event q' = q_event q
      else queue_grow A q = Some None"
      using queue_grow_ok [OF w full] lim full by simp
    show ?thesis
    proof (cases "al_ok A (q_capacity q * g)")
      case True
      then obtain q1 where q1: "queue_grow A q = Some (Some q1)" "q_wf g q1" "q_items q1 = q_items q"
          "q_size q1 < q_capacity q1" "q_kept q q1"
        using grow by (auto simp: q_kept_def)
      have sy: "q_synchronized q1 = q_synchronized q" using q1(5) by (simp add: q_kept_def)
      show ?thesis using True full q1(1,3) store [OF q1(2,4,5)] sy by (auto simp: Queue_Enqueue_def Let_def)
    next
      case al: False
      then show ?thesis using grow full w by (auto simp: Queue_Enqueue_def q_kept_def)
    qed
  qed
qed

lemma Queue_Dequeue_ok:
  assumes w: "q_wf g q"
  shows "\<exists>q'. Queue_Dequeue q = Some (if q_items q = [] then NULL else hd (q_items q), q') \<and> q_wf g q' \<and> q_kept q q' \<and>
    q_items q' = tl (q_items q)"
proof (cases "q_size q = 0")
  case True
  then have "q_items q = []" by (simp add: q_items_def)
  then show ?thesis using True w by (auto simp: Queue_Dequeue_def q_wf_def q_kept_def q_items_def)
next
  case False
  note d = q_wfD [OF w]
  let ?q' = "q\<lparr>q_array := (q_array q)[q_head q := NULL], q_head := (q_head q + 1) mod q_capacity q,
    q_size := q_size q - 1, q_event := (if q_size q - 1 < 1 then False else q_event q)\<rparr>"
  have ne: "q_items q \<noteq> []" using False by (metis length_q_items list.size(3))
  have hd: "hd (q_items q) = q_array q ! q_head q"
    using ne False d(3,6) by (simp add: hd_conv_nth) (simp add: q_items_def)
  have "(q_head q + q_size q) mod q_capacity q = ((q_head q + 1) mod q_capacity q + (q_size q - 1)) mod q_capacity q"
    using False by (subst mod_add_left_eq) simp
  then have wf': "q_wf g ?q'" using w d False unfolding q_wf_def by auto
  have "tl (q_items q) = ring_list (q_array q) (q_head q + 1) (q_size q - 1)"
    unfolding q_items_def using drop_ring_list [of 1 "q_array q" "q_head q" "q_size q"] by (simp add: drop_Suc)
  also have "\<dots> = ring_list ((q_array q)[q_head q := NULL]) (q_head q + 1) (q_size q - 1)"
  proof (rule ring_list_cong [symmetric])
    fix i assume i: "i < q_size q - 1"
    have "1 + i < q_capacity q" using i d(7) by linarith
    then have "(q_head q + 1 + i) mod q_capacity q \<noteq> q_head q"
      using ring_pos_inj [of "q_head q" "1 + i" "q_capacity q" 0] d(6) by auto
    then show "(q_array q)[q_head q := NULL] ! ((q_head q + 1 + i) mod length (q_array q)) =
        q_array q ! ((q_head q + 1 + i) mod length (q_array q))"
      using d(3) by simp
  qed simp
  also have "\<dots> = q_items ?q'"
    using ring_list_mod [of "(q_array q)[q_head q := NULL]" "q_head q + 1" "q_size q - 1"] d(3) by (simp add: q_items_def)
  finally have "q_items ?q' = tl (q_items q)" ..
  moreover have "Queue_Dequeue q = Some (hd (q_items q), ?q')"
    using False d by (simp add: Queue_Dequeue_def arr_get_def arr_set_def cint_def sz_mod_def hd Let_def)
  ultimately show ?thesis using ne wf' by (auto simp: q_kept_def)
qed

section \<open>Clear and contains\<close>

text \<open>The loop of \<^verbatim>\<open>Queue_Clear\<close> ends after the number of steps from the head to the tail.\<close>

lemma queue_clear_loop_ok:
  assumes "0 < c" "length xs = c" "i < c" "n < c" "tail = (i + n) mod c"
  shows "\<exists>ys. queue_clear_loop ob tail c xs i =
    Some (if fnObjectFree ob then ring_list xs i n else [], ys) \<and> length ys = c"
  using assms
proof (induction n arbitrary: i xs)
  case 0
  then show ?case by (simp add: queue_clear_loop.simps)
next
  case (Suc n)
  have ne: "i \<noteq> tail"
    using ring_pos_inj [of i "Suc n" c 0] Suc.prems by auto
  let ?xs = "xs[i := NULL]" and ?i = "(i + 1) mod c"
  have t: "tail = (?i + n) mod c" using Suc.prems by (simp add: mod_simps)
  obtain ys where ys: "queue_clear_loop ob tail c ?xs ?i = Some (if fnObjectFree ob then ring_list ?xs ?i n else [], ys)"
      "length ys = c"
    using Suc.IH [of ?xs ?i] Suc.prems t by auto
  have "ring_list ?xs ?i n = ring_list xs (i + 1) n"
  proof -
    have "ring_list ?xs ?i n = ring_list ?xs (i + 1) n"
      using ring_list_mod [of ?xs "i + 1" n] Suc.prems(2) by simp
    also have "\<dots> = ring_list xs (i + 1) n"
    proof (rule ring_list_cong)
      fix j assume "j < n"
      then have "(i + 1 + j) mod c \<noteq> i"
        using ring_pos_inj [of i "1 + j" c 0] Suc.prems by auto
      then show "?xs ! ((i + 1 + j) mod length xs) = xs ! ((i + 1 + j) mod length xs)"
        using Suc.prems(2) by simp
    qed simp
    finally show ?thesis .
  qed
  moreover have "ring_list xs i (Suc n) = xs ! i # ring_list xs (i + 1) n"
    using drop_ring_list [of 1 xs i "Suc n"] Suc.prems(2,3)
    by (cases "ring_list xs i (Suc n)") (auto dest: arg_cong [of _ _ length] simp: drop_Suc simp flip: hd_conv_nth,
        metis Suc_eq_plus1 add.right_neutral list.sel(1) mod_less nth_Cons_0 nth_ring_list zero_less_Suc)
  moreover have "arr_get xs i = Some (xs ! i)" "arr_set xs i NULL = Some ?xs" "sz_mod (i + 1) c = Some ?i"
    using Suc.prems(1,2,3) by (simp_all add: arr_get_def arr_set_def sz_mod_def)
  ultimately show ?case
    using ys ne by (subst queue_clear_loop.simps) (simp add: obj_free_def)
qed

text \<open>A queue that is not full is emptied, and every object is freed once, in order.\<close>

lemma Queue_Clear_ok:
  assumes w: "q_wf g q" and nf: "q_size q < q_capacity q"
  shows "\<exists>q'. Queue_Clear q = Some (if fnObjectFree (q_object q) then q_items q else [], q') \<and>
    q_wf g q' \<and> q_items q' = [] \<and> q_kept q q'"
proof -
  note d = q_wfD [OF w]
  from queue_clear_loop_ok [OF d(4,3,6) nf d(8), of "q_object q"] obtain ys where
    "queue_clear_loop (q_object q) (q_tail q) (q_capacity q) (q_array q) (q_head q) =
      Some (if fnObjectFree (q_object q) then q_items q else [], ys)" "length ys = q_capacity q"
    by (auto simp: q_items_def)
  then show ?thesis
    using d by (simp add: Queue_Clear_def q_wf_def q_items_def q_kept_def)
qed

lemma Queue_Clear_full:
  assumes w: "q_wf g q" and full: "q_size q = q_capacity q"
  shows "Queue_Clear q = Some ([], q\<lparr>q_size := 0, q_head := 0, q_tail := 0\<rparr>)"
proof -
  have "q_tail q = q_head q" using q_wfD(6,8) [OF w] full by simp
  then show ?thesis by (simp add: Queue_Clear_def queue_clear_loop.simps)
qed

section \<open>The queue as an object queue\<close>

text \<open>A caller learns from the count whether \<^verbatim>\<open>NULL\<close> means an empty queue.\<close>

definition q_deq :: "wQueue \<Rightarrow> (ptr option \<times> wQueue) option" where
  "q_deq q = do {
     (n, q) \<leftarrow> Queue_Count q;
     (p, q) \<leftarrow> Queue_Dequeue q;
     Some (if n = 0 then None else Some p, q) }"

interpretation winpr_queue: object_queue "q_wf g" q_items "Queue_Enqueue A" q_deq "2 ^ 31 div g"
proof
  fix q :: wQueue and x :: ptr
  assume w: "q_wf g q" and l: "length (q_items q) < 2 ^ 31 div g"
  have "q_size q * g < 2 ^ 31 div g * g" using l q_wfD(2) [OF w] by simp
  then have "q_size q * g < 2 ^ 31" using div_times_less_eq_dividend [of "2 ^ 31" g] by linarith
  from Queue_Enqueue_ok [OF w this, of A x]
  show "\<exists>ok q'. Queue_Enqueue A q x = Some (ok, q') \<and> q_wf g q' \<and> q_items q' = (if ok then q_items q @ [x] else q_items q)"
    by (auto split: if_splits)
next
  fix q :: wQueue
  assume w: "q_wf g q"
  have "Queue_Count q = Some (q_size q, q)" by (simp add: Queue_Count_def)
  moreover have "q_size q = 0 \<longleftrightarrow> q_items q = []" by (metis length_0_conv length_q_items)
  ultimately show "\<exists>q'. q_deq q = Some (if q_items q = [] then None else Some (hd (q_items q)), q') \<and> q_wf g q' \<and>
      q_items q' = tl (q_items q)"
    using Queue_Dequeue_ok [OF w] by (auto simp: q_deq_def)
qed

lemma Queue_New_wf:
  assumes "Queue_New A sok eok lok sync capacity growthFactor = Some q" "capacity < 2 ^ 31" "growthFactor \<noteq> 1"
  shows "q_wf (q_growthFactor q) q" "q_items q = []"
  using assms by (auto simp: Queue_New_def q_wf_def q_items_def Let_def split: if_splits)

text \<open>
  While the head is at index 0 the objects are the cells in front of the tail, and the search
  of \<^verbatim>\<open>Queue_Contains\<close> sees them all.
\<close>

lemma Queue_Contains_unwrapped:
  assumes w: "q_wf g q" and h: "q_head q = 0" and nf: "q_size q < q_capacity q"
  shows "Queue_Contains q obj = Some (list_ex (\<lambda>x. fnObjectEquals (q_object q) x obj) (q_items q), q)"
proof -
  note d = q_wfD [OF w]
  have t: "q_tail q = q_size q" using d(8) h nf by simp
  have i: "q_items q = take (q_size q) (q_array q)" using ring_list_linear [of 0 "q_size q" "q_array q"] h d(3,7)
    by (simp add: q_items_def)
  have "list_ex P (q_items q) \<longleftrightarrow> (\<exists>j < q_size q. P (q_array q ! (0 + j)))" for P
    using d(3,7) by (auto simp: list_ex_length i)
  then show ?thesis
    using find_from_eq [of 0 "q_tail q" "q_array q"] t d(3,7) by (simp add: Queue_Contains_def)
qed

section \<open>Properties\<close>

text \<open>A full queue of four objects whose head is at index 2.\<close>

definition q_sample :: wQueue where
  "q_sample = \<lparr>q_capacity = 4, q_growthFactor = 2, q_synchronized = True, q_head = 2, q_tail = 2, q_size = 4,
     q_array = [12, 13, 10, 11], q_lock = 0, q_event = True,
     q_object = \<lparr>fnObjectFree = True, fnObjectEquals = default_queue_equals\<rparr>\<rparr>"

lemma q_sample_wf: "q_wf 2 q_sample" "q_items q_sample = [10, 11, 12, 13]" "q_size q_sample = 4"
  "q_capacity q_sample = 4" "q_object q_sample = \<lparr>fnObjectFree = True, fnObjectEquals = default_queue_equals\<rparr>"
  by (simp_all add: q_sample_def q_wf_def q_items_def ring_list_def upt_rec)

text \<open>
  C28: the queue of WinPR is first in, first out. In every run of \<^verbatim>\<open>Queue_Enqueue\<close> and
  \<^verbatim>\<open>Queue_Dequeue\<close>, around the end of the array, across growth and with a refusing allocator, every
  operation is defined and the objects dequeued followed by those left are the objects that
  were there followed by those accepted.
\<close>

theorem queue_is_fifo:
  assumes "q_wf g q" "q_size q + length ops \<le> 2 ^ 31 div g"
  shows "\<exists>ins outs q'. queue_run (Queue_Enqueue A) q_deq ops q = Some (ins, outs, q') \<and> q_wf g q' \<and>
    q_items q @ ins = outs @ q_items q'"
  using winpr_queue.queue_run_ok [of g q ops A] assms by simp

theorem queue_is_fifo_witness:
  "\<exists>ins outs q'. queue_run (Queue_Enqueue ample) q_deq [Enq 14, Deq, Deq] q_sample = Some (ins, outs, q') \<and>
    q_wf 2 q' \<and> q_items q_sample @ ins = outs @ q_items q'"
  by (rule queue_is_fifo [of 2]) (simp_all add: q_sample_wf)

text \<open>
   \<^verbatim>\<open>Queue_Clear\<close> ends and leaves an empty queue. It hands every object to the callback, once and
  in order, if the queue is not full; from a full queue, whose head and tail are equal, it
  hands over none.
\<close>

theorem queue_clear_frees:
  assumes "q_wf g q"
  shows "\<exists>q'. Queue_Clear q = Some (if fnObjectFree (q_object q) \<and> q_size q < q_capacity q then q_items q else [], q') \<and>
    q_wf g q' \<and> q_items q' = []"
proof (cases "q_size q < q_capacity q")
  case True
  then show ?thesis using Queue_Clear_ok [OF assms] by auto
next
  case False
  then have full: "q_size q = q_capacity q" using q_wfD(7) [OF assms] by simp
  then show ?thesis using Queue_Clear_full [OF assms full] assms by (auto simp: q_wf_def q_items_def)
qed

theorem queue_clear_frees_witness:
  "\<exists>q'. Queue_Clear q_sample = Some ([], q') \<and> q_wf 2 q' \<and> q_items q' = []"
  using queue_clear_frees [OF q_sample_wf(1)] by (simp add: q_sample_wf)

text \<open>
  \<^verbatim>\<open>Queue_Contains\<close> searches the cells from 0 to the tail, not from the head: it misses an object
  of a queue that wraps around.
\<close>

lemma queue_contains_misses:
  "Queue_Contains q_sample 10 = Some (False, q_sample)" "10 \<in> set (q_items q_sample)"
  by (simp_all add: q_sample_wf)
    (simp add: q_sample_def Queue_Contains_def default_queue_equals_def eval_nat_numeral arr_get_def cs_enter_def cs_leave_def)

end
