(* ===== verification/WStack.thy ===== *)
theory WStack
  imports Objects
begin

text \<open>
  The object stack of WinPR (\<^verbatim>\<open>winpr/libwinpr/utils/collections/Stack.c\<close>): an array that doubles
  before it is full. The counters are \<^verbatim>\<open>int\<close>s that no operation makes negative, and are natural
  numbers here, with overflow undefined. The array comes from \<^verbatim>\<open>malloc\<close>, so that the cells above
  the top hold what the allocator put there, or objects popped before.
\<close>

record wStack =
  st_size :: nat
  st_capacity :: nat
  st_array :: "ptr list"
  st_lock :: nat
  st_synchronized :: bool
  st_object :: wObject

section \<open>Operations\<close>

definition Stack_Count :: "wStack \<Rightarrow> (nat \<times> wStack) option" where
  "Stack_Count s = do {
     let lk = cs_enter (st_synchronized s) (st_lock s);
     lk \<leftarrow> cs_leave (st_synchronized s) lk;
     Some (st_size s, s\<lparr>st_lock := lk\<rparr>) }"

definition Stack_IsSynchronized :: "wStack \<Rightarrow> bool" where
  "Stack_IsSynchronized s = st_synchronized s"

text \<open>The result is the objects freed and the new stack.\<close>

definition Stack_Clear :: "wStack \<Rightarrow> (ptr list \<times> wStack) option" where
  "Stack_Clear s = do {
     let lk = cs_enter (st_synchronized s) (st_lock s);
     (freed, xs) \<leftarrow> clear_from (st_object s) (st_array s) 0 (st_size s);
     lk \<leftarrow> cs_leave (st_synchronized s) lk;
     Some (freed, s\<lparr>st_array := xs, st_size := 0, st_lock := lk\<rparr>) }"

definition Stack_Contains :: "wStack \<Rightarrow> ptr \<Rightarrow> (bool \<times> wStack) option" where
  "Stack_Contains s obj = do {
     let lk = cs_enter (st_synchronized s) (st_lock s);
     r \<leftarrow> find_from (\<lambda>x. fnObjectEquals (st_object s) x obj) (st_array s) 0 (st_size s);
     lk \<leftarrow> cs_leave (st_synchronized s) lk;
     Some (r \<noteq> None, s\<lparr>st_lock := lk\<rparr>) }"

text \<open>When the array cannot grow, the function returns without leaving the critical section.\<close>

definition Stack_Push :: "ptr allocator \<Rightarrow> wStack \<Rightarrow> ptr \<Rightarrow> wStack option" where
  "Stack_Push A s obj = do {
     let s = s\<lparr>st_lock := cs_enter (st_synchronized s) (st_lock s)\<rparr>;
     n \<leftarrow> cint (st_size s + 1);
     g \<leftarrow> (if n \<ge> st_capacity s then do {
         new_cap \<leftarrow> cint (st_capacity s * 2);
         (case mem_realloc A (st_array s) new_cap of
            None \<Rightarrow> Some None
          | Some new_arr \<Rightarrow> Some (Some (s\<lparr>st_array := new_arr, st_capacity := new_cap\<rparr>))) }
       else Some (Some s));
     (case g of
        None \<Rightarrow> Some s
      | Some s \<Rightarrow> do {
          arr \<leftarrow> arr_set (st_array s) (st_size s) obj;
          lk \<leftarrow> cs_leave (st_synchronized s) (st_lock s);
          Some (s\<lparr>st_array := arr, st_size := n, st_lock := lk\<rparr>) }) }"

definition Stack_Pop :: "wStack \<Rightarrow> (ptr \<times> wStack) option" where
  "Stack_Pop s = do {
     let lk = cs_enter (st_synchronized s) (st_lock s);
     (obj, s) \<leftarrow> (if st_size s > 0 then do {
         obj \<leftarrow> arr_get (st_array s) (st_size s - 1);
         Some (obj, s\<lparr>st_size := st_size s - 1\<rparr>) }
       else Some (NULL, s));
     lk \<leftarrow> cs_leave (st_synchronized s) lk;
     Some (obj, s\<lparr>st_lock := lk\<rparr>) }"

definition Stack_Peek :: "wStack \<Rightarrow> (ptr \<times> wStack) option" where
  "Stack_Peek s = do {
     let lk = cs_enter (st_synchronized s) (st_lock s);
     obj \<leftarrow> (if st_size s > 0 then arr_get (st_array s) (st_size s) else Some NULL);
     lk \<leftarrow> cs_leave (st_synchronized s) lk;
     Some (obj, s\<lparr>st_lock := lk\<rparr>) }"

definition default_stack_equals :: "ptr \<Rightarrow> ptr \<Rightarrow> bool" where
  "default_stack_equals obj1 obj2 \<longleftrightarrow> obj1 = obj2"

text \<open>The flags say whether the structure and the lock could be created.\<close>

definition Stack_New :: "ptr allocator \<Rightarrow> bool \<Rightarrow> bool \<Rightarrow> bool \<Rightarrow> wStack option" where
  "Stack_New A struct_ok lock_ok sync =
     (if \<not> struct_ok then None
      else case mem_alloc A 32 of
        None \<Rightarrow> None
      | Some arr \<Rightarrow>
          if sync \<and> \<not> lock_ok then None
          else Some \<lparr>st_size = 0, st_capacity = 32, st_array = arr, st_lock = 0, st_synchronized = sync,
            st_object = \<lparr>fnObjectFree = False, fnObjectEquals = default_stack_equals\<rparr>\<rparr>)"

section \<open>Invariant and abstraction\<close>

definition st_wf :: "wStack \<Rightarrow> bool" where
  "st_wf s \<longleftrightarrow> length (st_array s) = st_capacity s \<and> st_size s < st_capacity s \<and> st_capacity s < 2 ^ 31"

text \<open>The objects, top first.\<close>

definition st_elems :: "wStack \<Rightarrow> ptr list" where
  "st_elems s = rev (take (st_size s) (st_array s))"

lemma st_wfD:
  assumes "st_wf s"
  shows "length (st_array s) = st_capacity s" "st_size s < st_capacity s" "st_capacity s < 2 ^ 31"
  using assms by (auto simp: st_wf_def)

lemma length_st_elems [simp]: "st_wf s \<Longrightarrow> length (st_elems s) = st_size s"
  by (simp add: st_elems_def st_wf_def)

lemma st_elems_empty: "st_wf s \<Longrightarrow> st_elems s = [] \<longleftrightarrow> st_size s = 0"
  by (auto simp: st_elems_def st_wf_def)

lemma Stack_New_wf: "Stack_New A sok lok sync = Some s \<Longrightarrow> st_wf s \<and> st_elems s = [] \<and> st_lock s = 0"
  by (auto simp: Stack_New_def st_wf_def st_elems_def mem_alloc_def split: option.splits if_splits)

text \<open>
  A push is refused only when the stack has to grow and cannot. The stack is then as before,
  but the lock of a synchronized stack is held once more than before the call.
\<close>

lemma Stack_Push_ok:
  fixes A :: "ptr allocator"
  assumes w: "st_wf s" and lim: "st_size s < 2 ^ 30 - 1"
  defines "ok \<equiv> st_size s + 1 < st_capacity s \<or> al_ok A (2 * st_capacity s)"
  shows "\<exists>s'. Stack_Push A s x = Some s' \<and> st_wf s' \<and> st_size s' = (if ok then st_size s + 1 else st_size s) \<and>
    st_elems s' = (if ok then x # st_elems s else st_elems s) \<and>
    st_lock s' = (if ok then st_lock s else cs_enter (st_synchronized s) (st_lock s))"
proof -
  note d = st_wfD [OF w]
  have n: "cint (st_size s + 1) = Some (st_size s + 1)" using lim by (simp add: cint_def)
  have store: "rev (take (Suc (st_size s)) ((take (st_capacity s) (st_array s) @ ys)[st_size s := x])) = x # st_elems s" for ys
    using d by (simp add: st_elems_def take_Suc_conv_app_nth nth_append)
  show ?thesis
  proof (cases "st_size s + 1 < st_capacity s")
    case True
    then show ?thesis
      using store [of "[]"] n d by (simp add: Stack_Push_def ok_def arr_set_def st_wf_def st_elems_def)
  next
    case False
    then have c: "cint (st_capacity s * 2) = Some (st_capacity s * 2)" "st_capacity s * 2 < BLOCK_MAX"
      using lim d(2) by (simp_all add: cint_def BLOCK_MAX_def)
    have c2: "st_capacity s * 2 < 2147483648" using lim False d(2) by simp
    show ?thesis
    proof (cases "al_ok A (2 * st_capacity s)")
      case True
      then show ?thesis using False store n c c2 d
        by (simp add: Stack_Push_def ok_def arr_set_def st_wf_def st_elems_def mem_realloc_def mult.commute)
    next
      case al: False
      then show ?thesis using False n c w
        by (simp add: Stack_Push_def ok_def st_wf_def st_elems_def mem_realloc_def mult.commute)
    qed
  qed
qed

lemma Stack_Pop_ok:
  assumes w: "st_wf s"
  shows "\<exists>s'. Stack_Pop s = Some (if st_elems s = [] then NULL else hd (st_elems s), s') \<and> st_wf s' \<and>
    st_elems s' = tl (st_elems s) \<and> st_lock s' = st_lock s"
proof (cases "st_size s")
  case 0
  then show ?thesis using w by (simp add: Stack_Pop_def st_elems_def)
next
  case (Suc n)
  then have "st_elems s = st_array s ! n # rev (take n (st_array s))"
    using st_wfD [OF w] by (simp add: st_elems_def take_Suc_conv_app_nth)
  then show ?thesis using Suc st_wfD [OF w]
    by (simp add: Stack_Pop_def arr_get_def st_wf_def) (simp add: st_elems_def)
qed

text \<open>A caller sees from the count whether a push was accepted and whether there is an object to pop.\<close>

definition st_push :: "ptr allocator \<Rightarrow> wStack \<Rightarrow> ptr \<Rightarrow> (bool \<times> wStack) option" where
  "st_push A s x = do {
     (n, s) \<leftarrow> Stack_Count s;
     s \<leftarrow> Stack_Push A s x;
     (m, s) \<leftarrow> Stack_Count s;
     Some (m \<noteq> n, s) }"

definition st_pop :: "wStack \<Rightarrow> (ptr option \<times> wStack) option" where
  "st_pop s = do {
     (n, s) \<leftarrow> Stack_Count s;
     (p, s) \<leftarrow> Stack_Pop s;
     Some (if n = 0 then None else Some p, s) }"

lemma Stack_Count_eq [simp]: "Stack_Count s = Some (st_size s, s)"
  by (simp add: Stack_Count_def)

interpretation winpr_stack: object_stack st_wf st_elems "st_push A" st_pop "2 ^ 30 - 1"
proof
  fix s :: wStack and x :: ptr
  assume w: "st_wf s" and l: "length (st_elems s) < 2 ^ 30 - 1"
  then show "\<exists>ok s'. st_push A s x = Some (ok, s') \<and> st_wf s' \<and> st_elems s' = (if ok then x # st_elems s else st_elems s)"
    using Stack_Push_ok [OF w, of A x] by (auto simp: st_push_def split: if_splits)
next
  fix s :: wStack
  assume w: "st_wf s"
  then show "\<exists>s'. st_pop s = Some (if st_elems s = [] then None else Some (hd (st_elems s)), s') \<and> st_wf s' \<and>
      st_elems s' = tl (st_elems s)"
    using Stack_Pop_ok [OF w] st_elems_empty [OF w] by (auto simp: st_pop_def)
qed

text \<open>Clearing hands over every object, bottom first; the search of \<^verbatim>\<open>Stack_Contains\<close> sees every object.\<close>

lemma Stack_Clear_ok:
  assumes "st_wf s"
  shows "\<exists>s'. Stack_Clear s = Some (if fnObjectFree (st_object s) then rev (st_elems s) else [], s') \<and> st_wf s' \<and>
    st_elems s' = []"
  using assms by (auto simp: Stack_Clear_def clear_from_eq st_wf_def st_elems_def)

lemma Stack_Contains_ok:
  assumes "st_wf s"
  shows "Stack_Contains s obj = Some (list_ex (\<lambda>x. fnObjectEquals (st_object s) x obj) (st_elems s), s)"
proof -
  have "list_ex P (st_elems s) \<longleftrightarrow> (\<exists>j < st_size s. P (st_array s ! (0 + j)))" for P
  proof -
    have "list_ex P (st_elems s) \<longleftrightarrow> list_ex P (take (st_size s) (st_array s))"
      by (simp add: st_elems_def list_ex_iff)
    then show ?thesis using st_wfD [OF assms] by (auto simp: list_ex_length)
  qed
  then show ?thesis using st_wfD [OF assms] by (simp add: Stack_Contains_def find_from_eq)
qed

section \<open>Properties\<close>

text \<open>A stack with the objects 20 on top of 10, one cell below the size at which it grows.\<close>

definition st_sample :: wStack where
  "st_sample = \<lparr>st_size = 2, st_capacity = 4, st_array = [10, 20, 30, 0], st_lock = 0, st_synchronized = True,
     st_object = \<lparr>fnObjectFree = True, fnObjectEquals = default_stack_equals\<rparr>\<rparr>"

lemma st_sample_wf: "st_wf st_sample" "st_elems st_sample = [20, 10]"
  by (simp_all add: st_sample_def st_wf_def st_elems_def)

text \<open>
  C29: the stack of WinPR is last in, first out: after a sequence of accepted pushes, across growth
  of the array, as many pops return the objects in reverse order and leave the objects that
  were there before.
\<close>

theorem stack_is_lifo:
  assumes "st_wf s" "length (st_elems s) + length xs \<le> 2 ^ 30 - 1" "push_all (st_push A) xs s = Some (True, s1)"
  shows "\<exists>s2. pop_n st_pop (length xs) s1 = Some (map Some (rev xs), s2) \<and> st_wf s2 \<and> st_elems s2 = st_elems s"
  using assms by (rule winpr_stack.lifo)

lemma st_sample_push:
  "push_all (st_push ample) [40, 50] st_sample = Some (True, st_sample\<lparr>st_size := 4, st_capacity := 8,
     st_array := [10, 20, 40, 50, 0, 0, 0, 0]\<rparr>)"
proof -
  have "Stack_Push ample st_sample 40 = Some (st_sample\<lparr>st_size := 3, st_array := [10, 20, 40, 0]\<rparr>)"
    by (simp add: Stack_Push_def cint_def st_sample_def arr_set_def cs_enter_def cs_leave_def Let_def)
  moreover have "Stack_Push ample (st_sample\<lparr>st_size := 3, st_array := [10, 20, 40, 0]\<rparr>) 50 =
      Some (st_sample\<lparr>st_size := 4, st_capacity := 8, st_array := [10, 20, 40, 50, 0, 0, 0, 0]\<rparr>)"
    by (simp add: Stack_Push_def cint_def st_sample_def mem_realloc_def ample_def BLOCK_MAX_def upt_rec
        arr_set_def cs_enter_def cs_leave_def Let_def)
  ultimately show ?thesis by (simp add: st_push_def st_sample_def)
qed

theorem stack_is_lifo_witness:
  "\<exists>s2. pop_n st_pop (length [40, 50::nat]) (st_sample\<lparr>st_size := 4, st_capacity := 8,
     st_array := [10, 20, 40, 50, 0, 0, 0, 0]\<rparr>) = Some (map Some (rev [40, 50]), s2) \<and> st_wf s2 \<and>
     st_elems s2 = st_elems st_sample"
  by (rule stack_is_lifo [OF st_sample_wf(1) _ st_sample_push]) (simp add: st_sample_wf)

text \<open>
  \<^verbatim>\<open>Stack_Peek\<close> reads the cell above the top: it returns an object popped before, here 30,
  where the top is 20.
\<close>

lemma stack_peek_above_top: "Stack_Peek st_sample = Some (30, st_sample)" "hd (st_elems st_sample) = 20"
  by (simp_all add: st_sample_wf)
    (simp add: st_sample_def Stack_Peek_def arr_get_def cs_enter_def cs_leave_def)

text \<open>A push that is refused leaves a synchronized stack locked.\<close>

lemma stack_push_keeps_lock:
  assumes "st_wf s" "st_size s < 2 ^ 30 - 1" "st_size s + 1 = st_capacity s" "\<not> al_ok A (2 * st_capacity s)" "st_synchronized s"
  shows "\<exists>s'. Stack_Push A s x = Some s' \<and> st_elems s' = st_elems s \<and> st_lock s' = st_lock s + 1"
  using Stack_Push_ok [OF assms(1,2), of A x] assms(3-5) by (auto simp: cs_enter_def)

end
