(* ===== verification/ArrayList.thy ===== *)
theory ArrayList
  imports Objects
begin

text \<open>
  The array list of WinPR (\<^verbatim>\<open>winpr/libwinpr/utils/collections/ArrayList.c\<close>). The size is an \<^verbatim>\<open>int\<close>, since
  \<^verbatim>\<open>ArrayList_Shift\<close> may make it negative; capacity and growth factor are positive from the start.
\<close>

record wArrayList =
  li_capacity :: nat
  li_growthFactor :: nat
  li_synchronized :: bool
  li_size :: int
  li_array :: "ptr list"
  li_lock :: nat
  li_object :: wObject

section \<open>Operations\<close>

text \<open>Array accesses with an \<^verbatim>\<open>int\<close> index, and \<^verbatim>\<open>MoveMemory\<close> with \<^verbatim>\<open>int\<close> operands.\<close>

definition geti :: "ptr list \<Rightarrow> int \<Rightarrow> ptr option" where
  "geti xs i = (if 0 \<le> i then arr_get xs (nat i) else None)"

definition seti :: "ptr list \<Rightarrow> int \<Rightarrow> ptr \<Rightarrow> ptr list option" where
  "seti xs i v = (if 0 \<le> i then arr_set xs (nat i) v else None)"

definition movei :: "ptr list \<Rightarrow> int \<Rightarrow> int \<Rightarrow> int \<Rightarrow> ptr list option" where
  "movei xs dst src n = (if 0 \<le> dst \<and> 0 \<le> src \<and> 0 \<le> n then mem_move xs (nat dst) (nat src) (nat n) else None)"

definition ArrayList_Capacity :: "wArrayList \<Rightarrow> nat" where
  "ArrayList_Capacity al = li_capacity al"

definition ArrayList_Count :: "wArrayList \<Rightarrow> int" where
  "ArrayList_Count al = li_size al"

definition ArrayList_Items :: "wArrayList \<Rightarrow> int \<times> ptr list" where
  "ArrayList_Items al = (li_size al, li_array al)"

definition ArrayList_IsFixedSized :: "wArrayList \<Rightarrow> bool" where
  "ArrayList_IsFixedSized al = False"

definition ArrayList_IsReadOnly :: "wArrayList \<Rightarrow> bool" where
  "ArrayList_IsReadOnly al = False"

definition ArrayList_IsSynchronized :: "wArrayList \<Rightarrow> bool" where
  "ArrayList_IsSynchronized al = li_synchronized al"

definition ArrayList_Lock :: "wArrayList \<Rightarrow> wArrayList" where
  "ArrayList_Lock al = al\<lparr>li_lock := cs_enter True (li_lock al)\<rparr>"

definition ArrayList_Unlock :: "wArrayList \<Rightarrow> wArrayList option" where
  "ArrayList_Unlock al = do { lk \<leftarrow> cs_leave True (li_lock al); Some (al\<lparr>li_lock := lk\<rparr>) }"

definition ArrayList_GetItem :: "wArrayList \<Rightarrow> int \<Rightarrow> ptr option" where
  "ArrayList_GetItem al index = (if index \<ge> 0 \<and> index < li_size al then geti (li_array al) index else Some NULL)"

definition ArrayList_SetItem :: "wArrayList \<Rightarrow> int \<Rightarrow> ptr \<Rightarrow> wArrayList option" where
  "ArrayList_SetItem al index obj =
     (if index \<ge> 0 \<and> index < li_size al then do {
        arr \<leftarrow> seti (li_array al) index obj;
        Some (al\<lparr>li_array := arr\<rparr>) }
      else Some al)"

text \<open>The growth step that \<^verbatim>\<open>ArrayList_Shift\<close> and \<^verbatim>\<open>ArrayList_Add\<close> share; \<open>None\<close> as a value when \<^verbatim>\<open>realloc\<close> fails.\<close>

definition arraylist_grow :: "ptr allocator \<Rightarrow> wArrayList \<Rightarrow> int \<Rightarrow> wArrayList option option" where
  "arraylist_grow A al need =
     (if need > int (li_capacity al) then do {
        newCapacity \<leftarrow> cint (li_capacity al * li_growthFactor al);
        (case mem_realloc A (li_array al) newCapacity of
           None \<Rightarrow> Some None
         | Some newArray \<Rightarrow> Some (Some (al\<lparr>li_array := newArray, li_capacity := newCapacity\<rparr>))) }
      else Some (Some al))"

definition ArrayList_Shift :: "ptr allocator \<Rightarrow> wArrayList \<Rightarrow> int \<Rightarrow> int \<Rightarrow> (bool \<times> wArrayList) option" where
  "ArrayList_Shift A al index cnt =
     (if cnt > 0 then do {
        sz \<leftarrow> int_ck (li_size al + cnt);
        g \<leftarrow> arraylist_grow A al sz;
        (case g of
           None \<Rightarrow> Some (False, al)
         | Some al \<Rightarrow> do {
             dst \<leftarrow> int_ck (index + cnt);
             n \<leftarrow> int_ck (li_size al - index);
             arr \<leftarrow> movei (li_array al) dst index n;
             Some (True, al\<lparr>li_array := arr, li_size := sz\<rparr>) }) }
      else if cnt < 0 then do {
        d \<leftarrow> int_ck (li_size al - index);
        chunk \<leftarrow> int_ck (d + cnt);
        arr \<leftarrow> (if chunk > 0 then do {
            src \<leftarrow> int_ck (index - cnt);
            movei (li_array al) index src chunk }
          else Some (li_array al));
        sz \<leftarrow> int_ck (li_size al + cnt);
        Some (True, al\<lparr>li_array := arr, li_size := sz\<rparr>) }
      else Some (True, al))"

text \<open>The result is the objects freed and the new list.\<close>

definition ArrayList_Clear :: "wArrayList \<Rightarrow> (ptr list \<times> wArrayList) option" where
  "ArrayList_Clear al = do {
     let lk = cs_enter (li_synchronized al) (li_lock al);
     (freed, arr) \<leftarrow> clear_from (li_object al) (li_array al) 0 (nat (li_size al));
     lk \<leftarrow> cs_leave (li_synchronized al) lk;
     Some (freed, al\<lparr>li_array := arr, li_size := 0, li_lock := lk\<rparr>) }"

text \<open>The index of \<^verbatim>\<open>ArrayList_Contains\<close> is a \<^verbatim>\<open>DWORD\<close>, so the size is converted to one.\<close>

definition ArrayList_Contains :: "wArrayList \<Rightarrow> ptr \<Rightarrow> (bool \<times> wArrayList) option" where
  "ArrayList_Contains al obj = do {
     let lk = cs_enter (li_synchronized al) (li_lock al);
     r \<leftarrow> find_from (\<lambda>x. fnObjectEquals (li_object al) x obj) (li_array al) 0 (nat (li_size al mod 2 ^ 32));
     lk \<leftarrow> cs_leave (li_synchronized al) lk;
     Some (r \<noteq> None, al\<lparr>li_lock := lk\<rparr>) }"

definition ArrayList_Add :: "ptr allocator \<Rightarrow> wArrayList \<Rightarrow> ptr \<Rightarrow> (int \<times> wArrayList) option" where
  "ArrayList_Add A al obj = do {
     let lk = cs_enter (li_synchronized al) (li_lock al);
     sz \<leftarrow> int_ck (li_size al + 1);
     g \<leftarrow> arraylist_grow A al sz;
     (index, al) \<leftarrow> (case g of
         None \<Rightarrow> Some (-1, al)
       | Some al \<Rightarrow> do {
           arr \<leftarrow> seti (li_array al) (li_size al) obj;
           Some (sz, al\<lparr>li_array := arr, li_size := sz\<rparr>) });
     lk \<leftarrow> cs_leave (li_synchronized al) lk;
     Some (index, al\<lparr>li_lock := lk\<rparr>) }"

definition ArrayList_Insert :: "ptr allocator \<Rightarrow> wArrayList \<Rightarrow> int \<Rightarrow> ptr \<Rightarrow> (bool \<times> wArrayList) option" where
  "ArrayList_Insert A al index obj = do {
     let lk = cs_enter (li_synchronized al) (li_lock al);
     (ret, al) \<leftarrow> (if index \<ge> 0 \<and> index < li_size al then do {
         (ok, al) \<leftarrow> ArrayList_Shift A al index 1;
         if \<not> ok then Some (False, al)
         else do {
           arr \<leftarrow> seti (li_array al) index obj;
           Some (True, al\<lparr>li_array := arr\<rparr>) } }
       else Some (True, al));
     lk \<leftarrow> cs_leave (li_synchronized al) lk;
     Some (ret, al\<lparr>li_lock := lk\<rparr>) }"

text \<open>The removal of one object, with the objects freed.\<close>

definition arraylist_remove_at :: "ptr allocator \<Rightarrow> wArrayList \<Rightarrow> int \<Rightarrow> (bool \<times> ptr list \<times> wArrayList) option" where
  "arraylist_remove_at A al index = do {
     x \<leftarrow> geti (li_array al) index;
     (ret, al') \<leftarrow> ArrayList_Shift A al index (-1);
     Some (ret, obj_free (li_object al) x, al') }"

definition ArrayList_Remove :: "ptr allocator \<Rightarrow> wArrayList \<Rightarrow> ptr \<Rightarrow> (bool \<times> ptr list \<times> wArrayList) option" where
  "ArrayList_Remove A al obj = do {
     let lk = cs_enter (li_synchronized al) (li_lock al);
     r \<leftarrow> find_from (\<lambda>x. x = obj) (li_array al) 0 (nat (li_size al));
     (ret, freed, al) \<leftarrow> (case r of
         None \<Rightarrow> Some (True, [], al)
       | Some index \<Rightarrow> arraylist_remove_at A al (int index));
     lk \<leftarrow> cs_leave (li_synchronized al) lk;
     Some (ret, freed, al\<lparr>li_lock := lk\<rparr>) }"

definition ArrayList_RemoveAt :: "ptr allocator \<Rightarrow> wArrayList \<Rightarrow> int \<Rightarrow> (bool \<times> ptr list \<times> wArrayList) option" where
  "ArrayList_RemoveAt A al index = do {
     let lk = cs_enter (li_synchronized al) (li_lock al);
     (ret, freed, al) \<leftarrow> (if index \<ge> 0 \<and> index < li_size al then arraylist_remove_at A al index else Some (True, [], al));
     lk \<leftarrow> cs_leave (li_synchronized al) lk;
     Some (ret, freed, al\<lparr>li_lock := lk\<rparr>) }"

definition ArrayList_IndexOf :: "wArrayList \<Rightarrow> ptr \<Rightarrow> int \<Rightarrow> int \<Rightarrow> (int \<times> wArrayList) option" where
  "ArrayList_IndexOf al obj startIndex cnt = do {
     let lk = cs_enter (li_synchronized al) (li_lock al);
     let startIndex = (if startIndex < 0 then 0 else startIndex);
     let cnt = (if cnt < 0 then li_size al else cnt);
     limit \<leftarrow> int_ck (startIndex + cnt);
     r \<leftarrow> find_from (\<lambda>x. fnObjectEquals (li_object al) x obj) (li_array al) (nat startIndex) (nat cnt);
     lk \<leftarrow> cs_leave (li_synchronized al) lk;
     Some (case r of None \<Rightarrow> -1 | Some i \<Rightarrow> int i, al\<lparr>li_lock := lk\<rparr>) }"

text \<open>The search from the end of the range \<open>i\<close> to \<open>i + n - 1\<close>.\<close>

fun rfind_from :: "(ptr \<Rightarrow> bool) \<Rightarrow> ptr list \<Rightarrow> nat \<Rightarrow> nat \<Rightarrow> nat option option" where
  "rfind_from P xs i 0 = Some None"
| "rfind_from P xs i (Suc n) = do {
     x \<leftarrow> arr_get xs (i + n);
     if P x then Some (Some (i + n)) else rfind_from P xs i n }"

definition ArrayList_LastIndexOf :: "wArrayList \<Rightarrow> ptr \<Rightarrow> int \<Rightarrow> int \<Rightarrow> (int \<times> wArrayList) option" where
  "ArrayList_LastIndexOf al obj startIndex cnt = do {
     let lk = cs_enter (li_synchronized al) (li_lock al);
     let startIndex = (if startIndex < 0 then 0 else startIndex);
     let cnt = (if cnt < 0 then li_size al else cnt);
     limit \<leftarrow> int_ck (startIndex + cnt);
     start \<leftarrow> int_ck (limit - 1);
     r \<leftarrow> rfind_from (\<lambda>x. fnObjectEquals (li_object al) x obj) (li_array al) (nat startIndex) (nat cnt);
     lk \<leftarrow> cs_leave (li_synchronized al) lk;
     Some (case r of None \<Rightarrow> -1 | Some i \<Rightarrow> int i, al\<lparr>li_lock := lk\<rparr>) }"

definition ArrayList_DefaultCompare :: "ptr \<Rightarrow> ptr \<Rightarrow> bool" where
  "ArrayList_DefaultCompare objA objB \<longleftrightarrow> objA = objB"

text \<open>The flag says whether the structure could be created.\<close>

definition ArrayList_New :: "ptr allocator \<Rightarrow> bool \<Rightarrow> bool \<Rightarrow> wArrayList option" where
  "ArrayList_New A struct_ok sync =
     (if \<not> struct_ok then None
      else do {
        arr \<leftarrow> mem_alloc A 32;
        Some \<lparr>li_capacity = 32, li_growthFactor = 2, li_synchronized = sync, li_size = 0, li_array = arr,
          li_lock = 0, li_object = \<lparr>fnObjectFree = False, fnObjectEquals = ArrayList_DefaultCompare\<rparr>\<rparr> })"

definition ArrayList_Free :: "wArrayList option \<Rightarrow> ptr list option" where
  "ArrayList_Free arrayList = (case arrayList of
       None \<Rightarrow> Some []
     | Some al \<Rightarrow> do { (freed, al) \<leftarrow> ArrayList_Clear al; Some freed })"

section \<open>Invariant and abstraction\<close>

definition li_wf :: "wArrayList \<Rightarrow> bool" where
  "li_wf al \<longleftrightarrow> length (li_array al) = li_capacity al \<and> li_growthFactor al = 2 \<and> 0 < li_capacity al \<and>
     li_capacity al < 2 ^ 31 \<and> 0 \<le> li_size al \<and> li_size al \<le> int (li_capacity al)"

definition li_items :: "wArrayList \<Rightarrow> ptr list" where
  "li_items al = take (nat (li_size al)) (li_array al)"

lemma li_wfD:
  assumes "li_wf al"
  shows "length (li_array al) = li_capacity al" "li_growthFactor al = 2" "0 < li_capacity al"
    "li_capacity al < 2 ^ 31" "0 \<le> li_size al" "li_size al \<le> int (li_capacity al)" "nat (li_size al) \<le> length (li_array al)"
  using assms by (auto simp: li_wf_def)

lemma length_li_items [simp]: "li_wf al \<Longrightarrow> length (li_items al) = nat (li_size al)"
  using li_wfD(7) [of al] by (simp add: li_items_def)

lemma li_lock_simps [simp]: "li_wf (al\<lparr>li_lock := l\<rparr>) = li_wf al" "li_items (al\<lparr>li_lock := l\<rparr>) = li_items al"
  by (simp_all add: li_wf_def li_items_def)

lemma ArrayList_New_wf: "ArrayList_New A ok sync = Some al \<Longrightarrow> li_wf al \<and> li_items al = []"
  by (auto simp: ArrayList_New_def li_wf_def li_items_def mem_alloc_def split: if_splits bind_splits)

text \<open>Growth keeps everything but the capacity and the cells behind the old ones.\<close>

lemma arraylist_grow_ok:
  assumes w: "li_wf al" and need: "need \<le> 2 * int (li_capacity al)" "need \<le> 2 ^ 30"
  shows "\<exists>g. arraylist_grow A al need = Some g \<and> (case g of
      None \<Rightarrow> need > int (li_capacity al) \<and> \<not> al_ok A (2 * li_capacity al)
    | Some al' \<Rightarrow> li_wf al' \<and> need \<le> int (li_capacity al') \<and> take (length (li_array al)) (li_array al') = li_array al \<and>
        li_size al' = li_size al \<and> li_object al' = li_object al \<and> li_synchronized al' = li_synchronized al \<and>
        li_lock al' = li_lock al)"
proof (cases "need > int (li_capacity al)")
  case False
  then show ?thesis using w by (simp add: arraylist_grow_def)
next
  case True
  have "cint (li_capacity al * 2) = Some (li_capacity al * 2)" "li_capacity al * 2 < BLOCK_MAX"
    using need(2) True by (simp_all add: cint_def BLOCK_MAX_def)
  then show ?thesis using True li_wfD [OF w] need
    by (auto simp: arraylist_grow_def mem_realloc_def li_wf_def mult.commute)
qed

section \<open>Shifting\<close>

lemma move_right:
  assumes "n + k \<le> length xs" "i \<le> n"
  shows "\<exists>arr. mem_move xs (i + k) i (n - i) = Some arr \<and> length arr = length xs \<and>
    take (n + k) arr = take i (take n xs) @ take k (drop i xs) @ drop i (take n xs)"
proof -
  have "i + (n - i) \<le> length xs" "i + k + (n - i) \<le> length xs" using assms by linarith+
  note m = mem_move_in [OF this]
  have "take (n + k) (take (i + k) xs @ take (n - i) (drop i xs) @ drop (i + k + (n - i)) xs) =
      take (i + k) xs @ take (n - i) (drop i xs)"
    using assms by simp
  also have "\<dots> = take i (take n xs) @ take k (drop i xs) @ drop i (take n xs)"
    using assms(2) by (simp add: take_add drop_take min_absorb1)
  finally show ?thesis using m assms by auto
qed

lemma move_left:
  assumes "n \<le> length xs" "i + k \<le> n"
  shows "\<exists>arr. mem_move xs i (i + k) (n - (i + k)) = Some arr \<and> length arr = length xs \<and>
    take (n - k) arr = take i (take n xs) @ drop (i + k) (take n xs)"
proof -
  have "i + k + (n - (i + k)) \<le> length xs" "i + (n - (i + k)) \<le> length xs" using assms by linarith+
  note m = mem_move_in [OF this]
  have "take (n - k) (take i xs @ take (n - (i + k)) (drop (i + k) xs) @ drop (i + (n - (i + k))) xs) =
      take i xs @ take (n - (i + k)) (drop (i + k) xs)"
    using assms by (simp add: add.commute)
  also have "\<dots> = take i (take n xs) @ drop (i + k) (take n xs)"
    using assms(2) by (simp add: drop_take min_absorb1)
  finally show ?thesis using m assms by auto
qed

lemma movei_of_nat: "movei xs (int a) (int b) (int c) = mem_move xs a b c"
  by (simp add: movei_def)

text \<open>A shift to the right opens a gap of \<open>k\<close> cells at the index.\<close>

lemma ArrayList_Shift_right:
  assumes w: "li_wf al" and i: "0 \<le> i" "i \<le> li_size al" and k: "0 < k" "li_size al + k \<le> 2 * int (li_capacity al)"
    and lim: "li_size al + k \<le> 2 ^ 30"
  shows "\<exists>ok al'. ArrayList_Shift A al i k = Some (ok, al') \<and> li_wf al' \<and>
    (if ok then \<exists>gap. length gap = nat k \<and> li_items al' = take (nat i) (li_items al) @ gap @ drop (nat i) (li_items al) \<and>
        li_size al' = li_size al + k
     else al' = al) \<and>
    li_object al' = li_object al \<and> li_synchronized al' = li_synchronized al \<and> li_lock al' = li_lock al"
proof -
  have sz: "int_ck (li_size al + k) = Some (li_size al + k)" using lim li_wfD(5) [OF w] k by (simp add: int_ck_def INT_LIM_def)
  from arraylist_grow_ok [OF w k(2) lim, of A] obtain g where
    g: "arraylist_grow A al (li_size al + k) = Some g" and gc: "case g of
      None \<Rightarrow> li_size al + k > int (li_capacity al) \<and> \<not> al_ok A (2 * li_capacity al)
    | Some al' \<Rightarrow> li_wf al' \<and> li_size al + k \<le> int (li_capacity al') \<and> take (length (li_array al)) (li_array al') = li_array al \<and>
        li_size al' = li_size al \<and> li_object al' = li_object al \<and> li_synchronized al' = li_synchronized al \<and>
        li_lock al' = li_lock al"
    by blast
  show ?thesis
  proof (cases g)
    case None
    then show ?thesis using w g sz k(1) by (auto simp: ArrayList_Shift_def)
  next
    case (Some b)
    obtain n j m where nat: "li_size al = int n" "i = int j" "k = int m" "j \<le> n" "0 < m"
      using i k(1) li_wfD(5) [OF w] by (metis nonneg_int_cases order_trans less_imp_le of_nat_0_less_iff of_nat_le_iff)
    let ?xs = "li_array b"
    have b: "li_wf b" "take (length (li_array al)) ?xs = li_array al" "li_size b = li_size al" "n + m \<le> length ?xs"
      using gc Some li_wfD(1) [of b] nat by auto
    have it: "take n ?xs = li_items al"
      using b(2) li_wfD(7) [OF w] nat(1) unfolding li_items_def by (metis min.absorb1 nat_int take_take)
    obtain arr where arr: "mem_move ?xs (j + m) j (n - j) = Some arr" "length arr = length ?xs"
        "take (n + m) arr = take j (li_items al) @ take m (drop j ?xs) @ drop j (li_items al)"
      using move_right [OF b(4) nat(4)] it by auto
    have mv: "movei ?xs (i + k) i (li_size al - i) = Some arr"
      using arr(1) movei_of_nat [of ?xs "j + m" j "n - j"] nat by (simp add: of_nat_diff)
    have ck: "int_ck (i + k) = Some (i + k)" "int_ck (li_size al - i) = Some (li_size al - i)"
      using nat lim by (simp_all add: int_ck_def INT_LIM_def)
    let ?al = "b\<lparr>li_array := arr, li_size := li_size al + k\<rparr>"
    have "ArrayList_Shift A al i k = Some (True, ?al)"
      using g Some sz k(1) ck mv b(3) by (simp add: ArrayList_Shift_def)
    moreover have "li_wf ?al" using b(1) gc Some arr(2) nat by (simp add: li_wf_def)
    moreover have "li_items ?al = take (nat i) (li_items al) @ take m (drop j ?xs) @ drop (nat i) (li_items al)"
      using arr(3) nat by (simp add: li_items_def nat_int_add)
    moreover have "length (take m (drop j ?xs)) = nat k" using b(4) nat by simp
    ultimately show ?thesis using gc Some by (intro exI [of _ True] exI [of _ ?al]) auto
  qed
qed

text \<open>A shift to the left removes the \<open>k\<close> objects from the index on.\<close>

lemma ArrayList_Shift_left:
  assumes w: "li_wf al" and i: "0 \<le> i" and k: "0 < k" "i + k \<le> li_size al"
  shows "\<exists>al'. ArrayList_Shift A al i (- k) = Some (True, al') \<and> li_wf al' \<and>
    li_items al' = take (nat i) (li_items al) @ drop (nat (i + k)) (li_items al) \<and>
    li_object al' = li_object al \<and> li_synchronized al' = li_synchronized al \<and> li_lock al' = li_lock al"
proof -
  note d = li_wfD [OF w]
  let ?xs = "li_array al"
  obtain n j m where nat: "li_size al = int n" "i = int j" "k = int m" "0 < m"
    using i k(1) d(5) by (metis nonneg_int_cases less_imp_le of_nat_0_less_iff)
  then have jm: "j + m \<le> n" "n \<le> length ?xs" "n < 2 ^ 31" using k(2) d(1,4,6) by linarith+
  obtain arr where arr: "mem_move ?xs j (j + m) (n - (j + m)) = Some arr" "length arr = length ?xs"
      "take (n - m) arr = take j (li_items al) @ drop (j + m) (li_items al)"
    using move_left [OF jm(2,1)] nat(1) by (auto simp: li_items_def)
  have mv: "movei ?xs i (i + k) (li_size al - i - k) = Some arr"
    using arr(1) movei_of_nat [of ?xs j "j + m" "n - (j + m)"] nat jm(1) by (simp add: of_nat_diff algebra_simps)
  define arr' where "arr' = (if j + m < n then arr else ?xs)"
  have ck: "int_ck (li_size al - i) = Some (li_size al - i)" "int_ck (li_size al - i - k) = Some (li_size al - i - k)"
      "int_ck (i + k) = Some (i + k)" "int_ck (li_size al - k) = Some (li_size al - k)"
    using nat jm by (simp_all add: int_ck_def INT_LIM_def)
  have "li_size al - i - k > 0 \<longleftrightarrow> j + m < n" using nat by linarith
  then have "ArrayList_Shift A al i (- k) = Some (True, al\<lparr>li_array := arr', li_size := li_size al - k\<rparr>)"
    using k(1) ck mv by (simp add: ArrayList_Shift_def arr'_def)
  moreover have "length arr' = length ?xs" using arr(2) by (simp add: arr'_def)
  moreover have "take (n - m) arr' = take j (li_items al) @ drop (j + m) (li_items al)"
    using arr(3) jm(1) nat(1) by (auto simp: arr'_def li_items_def)
  moreover have "nat (li_size al - k) = n - m" "nat (i + k) = j + m" using nat by simp_all
  ultimately show ?thesis using w k i nat by (simp add: li_wf_def li_items_def)
qed

section \<open>The operations on the list of objects\<close>

lemma seti_in: "0 \<le> i \<Longrightarrow> nat i < length xs \<Longrightarrow> seti xs i v = Some (xs[nat i := v])"
  by (simp add: seti_def arr_set_def)

lemma geti_in: "0 \<le> i \<Longrightarrow> nat i < length xs \<Longrightarrow> geti xs i = Some (xs ! nat i)"
  by (simp add: geti_def arr_get_def)

definition li_same :: "wArrayList \<Rightarrow> wArrayList \<Rightarrow> bool" where
  "li_same al al' \<longleftrightarrow> li_object al' = li_object al \<and> li_synchronized al' = li_synchronized al \<and> li_lock al' = li_lock al"

lemma li_set:
  assumes "li_wf al" "0 \<le> i" "i < li_size al"
  shows "seti (li_array al) i x = Some ((li_array al)[nat i := x])" "li_wf (al\<lparr>li_array := (li_array al)[nat i := x]\<rparr>)"
    "li_items (al\<lparr>li_array := (li_array al)[nat i := x]\<rparr>) = (li_items al)[nat i := x]"
  using assms by (auto simp: seti_in li_wf_def li_items_def take_update_swap)

lemma ArrayList_Add_ok:
  assumes w: "li_wf al" and lim: "li_size al < 2 ^ 30"
  shows "\<exists>r al'. ArrayList_Add A al x = Some (r, al') \<and> li_wf al' \<and> li_same al al' \<and>
    (if r = -1 then li_items al' = li_items al else r = li_size al + 1 \<and> li_items al' = li_items al @ [x])"
proof -
  note d = li_wfD [OF w]
  have n: "li_size al + 1 \<le> 2 * int (li_capacity al)" "li_size al + 1 \<le> 2 ^ 30" using d(3,6) lim by linarith+
  have ck: "int_ck (li_size al + 1) = Some (li_size al + 1)" using lim d(5) by (simp add: int_ck_def INT_LIM_def)
  from arraylist_grow_ok [OF w n, of A] obtain g where g: "arraylist_grow A al (li_size al + 1) = Some g" and gc: "case g of
      None \<Rightarrow> li_size al + 1 > int (li_capacity al) \<and> \<not> al_ok A (2 * li_capacity al)
    | Some al' \<Rightarrow> li_wf al' \<and> li_size al + 1 \<le> int (li_capacity al') \<and> take (length (li_array al)) (li_array al') = li_array al \<and>
        li_size al' = li_size al \<and> li_object al' = li_object al \<and> li_synchronized al' = li_synchronized al \<and>
        li_lock al' = li_lock al"
    by blast
  show ?thesis
  proof (cases g)
    case None
    then show ?thesis using w g ck by (auto simp: ArrayList_Add_def li_same_def)
  next
    case (Some b)
    let ?n = "nat (li_size al)"
    have b: "li_wf b" "li_size b = li_size al" "take (length (li_array al)) (li_array b) = li_array al"
        "li_size al + 1 \<le> int (li_capacity b)"
      using gc Some by auto
    then have len: "?n < length (li_array b)" using li_wfD(1) [of b] d(5) by simp
    have it: "take ?n (li_array b) = li_items al"
      using b(3) d(7) unfolding li_items_def by (metis min.absorb1 take_take)
    have "take (nat (li_size al + 1)) ((li_array b)[?n := x]) = li_items al @ [x]"
      using len d(5) it by (simp add: nat_add_distrib take_Suc_conv_app_nth)
    moreover have "seti (li_array b) (li_size b) x = Some ((li_array b)[?n := x])"
      using b(2) len d(5) by (simp add: seti_in)
    moreover have "li_wf (b\<lparr>li_array := (li_array b)[?n := x], li_size := li_size al + 1, li_lock := li_lock al\<rparr>)"
      using b(1) gc Some d(5) by (simp add: li_wf_def)
    ultimately show ?thesis using g Some gc ck d(5)
      by (auto simp: ArrayList_Add_def li_same_def li_items_def)
  qed
qed

lemma ArrayList_Insert_ok:
  assumes w: "li_wf al" and lim: "li_size al < 2 ^ 30"
  shows "\<exists>ok al'. ArrayList_Insert A al i x = Some (ok, al') \<and> li_wf al' \<and> li_same al al' \<and>
    (if ok \<and> in_list i (li_items al) then li_items al' = take (nat i) (li_items al) @ x # drop (nat i) (li_items al)
     else li_items al' = li_items al)"
proof (cases "0 \<le> i \<and> i < li_size al")
  case False
  then show ?thesis using w by (auto simp: ArrayList_Insert_def li_same_def in_list_def)
next
  case True
  note d = li_wfD [OF w]
  have k: "li_size al + 1 \<le> 2 * int (li_capacity al)" "li_size al + 1 \<le> 2 ^ 30" using d(3,6) lim by linarith+
  from ArrayList_Shift_right [OF w, of i 1 A] True k obtain ok b where b: "ArrayList_Shift A al i 1 = Some (ok, b)" "li_wf b"
      "if ok then \<exists>gap. length gap = nat 1 \<and> li_items b = take (nat i) (li_items al) @ gap @ drop (nat i) (li_items al) \<and>
        li_size b = li_size al + 1 else b = al" "li_same al b"
    by (auto simp: li_same_def)
  show ?thesis
  proof (cases ok)
    case False
    then show ?thesis using b w True by (auto simp: ArrayList_Insert_def li_same_def)
  next
    case ok: True
    then obtain y where y: "li_items b = take (nat i) (li_items al) @ y # drop (nat i) (li_items al)" "li_size b = li_size al + 1"
      using b(3) by (auto simp: length_Suc_conv)
    have "length (take (nat i) (li_items al)) = nat i" using True w by simp
    then have "(li_items b)[nat i := x] = take (nat i) (li_items al) @ x # drop (nat i) (li_items al)"
      by (metis y(1) list_update_length)
    moreover have "i < li_size b" using True y(2) by simp
    moreover have "in_list i (li_items al)" using True w by (simp add: in_list_def)
    ultimately show ?thesis
      using li_set [OF b(2), of i x] b(1,4) True ok
      by (intro exI [of _ True]) (simp add: ArrayList_Insert_def li_same_def li_wf_def li_items_def)
  qed
qed

lemma arraylist_remove_at_ok:
  assumes w: "li_wf al" and i: "0 \<le> i" "i < li_size al"
  shows "\<exists>al'. arraylist_remove_at A al i = Some (True, obj_free (li_object al) (li_items al ! nat i), al') \<and> li_wf al' \<and>
    li_same al al' \<and> li_items al' = take (nat i) (li_items al) @ drop (nat i + 1) (li_items al)"
proof -
  have "nat i < nat (li_size al)" using i by simp
  then have "geti (li_array al) i = Some (li_items al ! nat i)"
    using i li_wfD(7) [OF w] by (simp add: geti_in li_items_def)
  moreover have "nat (i + 1) = nat i + 1" using i(1) by (simp add: nat_add_distrib)
  ultimately show ?thesis
    using ArrayList_Shift_left [OF w, of i 1 A] i by (auto simp: arraylist_remove_at_def li_same_def)
qed

lemma ArrayList_RemoveAt_ok:
  assumes w: "li_wf al"
  shows "\<exists>freed al'. ArrayList_RemoveAt A al i = Some (True, freed, al') \<and> li_wf al' \<and> li_same al al' \<and>
    (if in_list i (li_items al)
     then freed = obj_free (li_object al) (li_items al ! nat i) \<and> li_items al' = take (nat i) (li_items al) @ drop (nat i + 1) (li_items al)
     else freed = [] \<and> li_items al' = li_items al)"
proof (cases "0 \<le> i \<and> i < li_size al")
  case True
  then show ?thesis using arraylist_remove_at_ok [OF w, of i A] w
    by (auto simp: ArrayList_RemoveAt_def li_same_def in_list_def)
next
  case False
  then show ?thesis using w by (auto simp: ArrayList_RemoveAt_def li_same_def in_list_def)
qed

lemma remove1_first:
  "i < length xs \<Longrightarrow> xs ! i = x \<Longrightarrow> (\<And>j. j < i \<Longrightarrow> xs ! j \<noteq> x) \<Longrightarrow> remove1 x xs = take i xs @ drop (i + 1) xs"
proof (induction xs arbitrary: i)
  case (Cons y ys)
  show ?case
  proof (cases i)
    case (Suc k)
    then have "y \<noteq> x" using Cons.prems(3) [of 0] by simp
    moreover have "\<And>j. j < k \<Longrightarrow> ys ! j \<noteq> x" using Cons.prems(3) Suc by force
    ultimately show ?thesis using Cons.IH [of k] Cons.prems(1,2) Suc by simp
  qed (use Cons.prems in simp)
qed simp

lemma ArrayList_Remove_ok:
  assumes w: "li_wf al"
  shows "\<exists>freed al'. ArrayList_Remove A al x = Some (True, freed, al') \<and> li_wf al' \<and> li_same al al' \<and>
    (if x \<in> set (li_items al) then freed = obj_free (li_object al) x \<and> li_items al' = remove1 x (li_items al)
     else freed = [] \<and> li_items al' = li_items al)"
proof -
  let ?n = "nat (li_size al)"
  have nth: "j < ?n \<Longrightarrow> li_array al ! j = li_items al ! j" for j by (simp add: li_items_def)
  from find_from_cases [of 0 ?n "li_array al" "\<lambda>y. y = x"] li_wfD(7) [OF w] obtain r where
    r: "find_from (\<lambda>y. y = x) (li_array al) 0 ?n = Some r" and rc: "case r of
      None \<Rightarrow> \<forall>j. j < ?n \<longrightarrow> li_array al ! j \<noteq> x
    | Some k \<Rightarrow> k < ?n \<and> li_array al ! k = x \<and> (\<forall>j. j < k \<longrightarrow> li_array al ! j \<noteq> x)"
    by (auto split: option.splits)
  show ?thesis
  proof (cases r)
    case None
    then have "x \<notin> set (li_items al)" using rc nth w by (auto simp: in_set_conv_nth)
    then show ?thesis using r None w by (auto simp: ArrayList_Remove_def li_same_def)
  next
    case (Some k)
    then have k: "k < ?n" "li_items al ! k = x" "\<And>j. j < k \<Longrightarrow> li_items al ! j \<noteq> x" using rc nth by (force)+
    then have "remove1 x (li_items al) = take k (li_items al) @ drop (k + 1) (li_items al)" "x \<in> set (li_items al)"
      using w remove1_first [of k "li_items al" x] by (auto intro: nth_mem [of k "li_items al", simplified])
    moreover have "int k < li_size al" using k(1) by simp
    ultimately show ?thesis
      using arraylist_remove_at_ok [OF w, of "int k" A] r Some k(2)
      by (auto simp: ArrayList_Remove_def li_same_def)
  qed
qed

lemma ArrayList_Clear_ok:
  assumes w: "li_wf al"
  shows "\<exists>al'. ArrayList_Clear al = Some (if fnObjectFree (li_object al) then li_items al else [], al') \<and> li_wf al' \<and>
    li_same al al' \<and> li_items al' = []"
  using li_wfD [OF w] by (simp add: ArrayList_Clear_def clear_from_eq li_wf_def li_items_def li_same_def)

section \<open>The list as an object list\<close>

fun li_step :: "ptr allocator \<Rightarrow> wArrayList \<Rightarrow> list_op \<Rightarrow> (bool \<times> ptr list \<times> wArrayList) option" where
  "li_step A al (LAdd x) = do { (index, al) \<leftarrow> ArrayList_Add A al x; Some (index \<noteq> -1, [], al) }"
| "li_step A al (LInsert i x) = do { (ok, al) \<leftarrow> ArrayList_Insert A al i x; Some (ok, [], al) }"
| "li_step A al (LRemove x) = ArrayList_Remove A al x"
| "li_step A al (LRemoveAt i) = ArrayList_RemoveAt A al i"
| "li_step A al LClear = do { (freed, al) \<leftarrow> ArrayList_Clear al; Some (True, freed, al) }"

text \<open>Ownership only makes sense for a list with a callback that frees its objects.\<close>

definition li_owns :: "wArrayList \<Rightarrow> bool" where
  "li_owns al \<longleftrightarrow> li_wf al \<and> fnObjectFree (li_object al)"

interpretation winpr_arraylist: object_list li_owns li_items "li_step A" "2 ^ 30"
proof
  fix al :: wArrayList and op
  assume o: "li_owns al" and l: "length (li_items al) < 2 ^ 30"
  then have w: "li_wf al" and f: "fnObjectFree (li_object al)" by (simp_all add: li_owns_def)
  have lim: "li_size al < 2 ^ 30" using l w by simp
  show "\<exists>ok freed al'. li_step A al op = Some (ok, freed, al') \<and> li_owns al' \<and>
      (if ok then (freed, li_items al') = snd (list_spec op (li_items al)) else freed = [] \<and> li_items al' = li_items al)"
  proof (cases op)
    case (LAdd x)
    from ArrayList_Add_ok [OF w lim, of A x] show ?thesis
      using f LAdd by (fastforce simp: li_owns_def li_same_def split: if_splits)
  next
    case (LInsert i x)
    from ArrayList_Insert_ok [OF w lim, of A i x] show ?thesis
      using f LInsert by (fastforce simp: li_owns_def li_same_def split: if_splits)
  next
    case (LRemove x)
    from ArrayList_Remove_ok [OF w, of A x] show ?thesis
      using f LRemove by (fastforce simp: li_owns_def li_same_def obj_free_def split: if_splits)
  next
    case (LRemoveAt i)
    from ArrayList_RemoveAt_ok [OF w, of A i] show ?thesis
      using f LRemoveAt by (fastforce simp: li_owns_def li_same_def obj_free_def split: if_splits)
  next
    case LClear
    from ArrayList_Clear_ok [OF w] show ?thesis
      using f LClear by (fastforce simp: li_owns_def li_same_def)
  qed
qed

section \<open>Searching\<close>

lemma rfind_from_cases:
  assumes "i + n \<le> length xs"
  shows "\<exists>r. rfind_from P xs i n = Some r \<and> (case r of
      None \<Rightarrow> \<forall>j. i \<le> j \<and> j < i + n \<longrightarrow> \<not> P (xs ! j)
    | Some k \<Rightarrow> i \<le> k \<and> k < i + n \<and> P (xs ! k) \<and> (\<forall>j. k < j \<and> j < i + n \<longrightarrow> \<not> P (xs ! j)))"
  using assms
proof (induction n)
  case 0
  then show ?case by auto
next
  case (Suc n)
  have g: "arr_get xs (i + n) = Some (xs ! (i + n))" using Suc.prems by (simp add: arr_get_def)
  show ?case
  proof (cases "P (xs ! (i + n))")
    case True
    then show ?thesis using g by auto
  next
    case False
    from Suc.IH Suc.prems obtain r where "rfind_from P xs i n = Some r" "case r of
        None \<Rightarrow> \<forall>j. i \<le> j \<and> j < i + n \<longrightarrow> \<not> P (xs ! j)
      | Some k \<Rightarrow> i \<le> k \<and> k < i + n \<and> P (xs ! k) \<and> (\<forall>j. k < j \<and> j < i + n \<longrightarrow> \<not> P (xs ! j))"
      by auto
    then show ?thesis using g False by (auto simp: less_Suc_eq split: option.splits)
  qed
qed

text \<open>Whole-list searches: both return -1 exactly when no object matches, and the first or the last match otherwise.\<close>

definition li_match :: "wArrayList \<Rightarrow> ptr \<Rightarrow> int \<Rightarrow> bool" where
  "li_match al obj i \<longleftrightarrow> in_list i (li_items al) \<and> fnObjectEquals (li_object al) (li_items al ! nat i) obj"

lemma li_match_nat:
  assumes w: "li_wf al"
  shows "li_match al obj i \<longleftrightarrow> (\<exists>j. i = int j \<and> j < nat (li_size al) \<and> fnObjectEquals (li_object al) (li_array al ! j) obj)"
proof (cases "0 \<le> i")
  case True
  then obtain j where j: "i = int j" using nonneg_int_cases by blast
  then show ?thesis using w by (auto simp: li_match_def in_list_def) (simp_all add: li_items_def)
qed (auto simp: li_match_def in_list_def)

lemma li_count_ck:
  assumes w: "li_wf al"
  shows "int_ck (li_size al) = Some (li_size al)" "int_ck (li_size al - 1) = Some (li_size al - 1)"
proof -
  have "int (li_capacity al) < 2 ^ 31" using li_wfD(4) [OF w] by simp
  then show "int_ck (li_size al) = Some (li_size al)" "int_ck (li_size al - 1) = Some (li_size al - 1)"
    using li_wfD(5,6) [OF w] by (simp_all add: int_ck_def INT_LIM_def)
qed

lemma ArrayList_IndexOf_ok:
  assumes w: "li_wf al"
  shows "\<exists>r. ArrayList_IndexOf al obj (-1) (-1) = Some (r, al) \<and>
    (if r = -1 then \<forall>i. \<not> li_match al obj i else li_match al obj r \<and> (\<forall>i < r. \<not> li_match al obj i))"
proof -
  let ?n = "nat (li_size al)" and ?P = "\<lambda>x. fnObjectEquals (li_object al) x obj"
  obtain r where r: "find_from ?P (li_array al) 0 ?n = Some r" "case r of
      None \<Rightarrow> \<forall>j. 0 \<le> j \<and> j < 0 + ?n \<longrightarrow> \<not> ?P (li_array al ! j)
    | Some k \<Rightarrow> 0 \<le> k \<and> k < 0 + ?n \<and> ?P (li_array al ! k) \<and> (\<forall>j. 0 \<le> j \<and> j < k \<longrightarrow> \<not> ?P (li_array al ! j))"
    using find_from_cases [of 0 ?n "li_array al" ?P] li_wfD(7) [OF w] by auto
  then show ?thesis
    using li_count_ck(1) [OF w] w by (cases r) (auto simp: ArrayList_IndexOf_def li_match_nat)
qed

lemma ArrayList_LastIndexOf_ok:
  assumes w: "li_wf al"
  shows "\<exists>r. ArrayList_LastIndexOf al obj (-1) (-1) = Some (r, al) \<and>
    (if r = -1 then \<forall>i. \<not> li_match al obj i else li_match al obj r \<and> (\<forall>i > r. \<not> li_match al obj i))"
proof -
  let ?n = "nat (li_size al)" and ?P = "\<lambda>x. fnObjectEquals (li_object al) x obj"
  obtain r where r: "rfind_from ?P (li_array al) 0 ?n = Some r" "case r of
      None \<Rightarrow> \<forall>j. 0 \<le> j \<and> j < 0 + ?n \<longrightarrow> \<not> ?P (li_array al ! j)
    | Some k \<Rightarrow> 0 \<le> k \<and> k < 0 + ?n \<and> ?P (li_array al ! k) \<and> (\<forall>j. k < j \<and> j < 0 + ?n \<longrightarrow> \<not> ?P (li_array al ! j))"
    using rfind_from_cases [of 0 ?n "li_array al" ?P] li_wfD(7) [OF w] by auto
  then show ?thesis
    using li_count_ck [OF w] w by (cases r) (auto simp: ArrayList_LastIndexOf_def li_match_nat)
qed

section \<open>Properties\<close>

text \<open>A full list of four objects that owns them.\<close>

definition li_sample :: wArrayList where
  "li_sample = \<lparr>li_capacity = 4, li_growthFactor = 2, li_synchronized = True, li_size = 4, li_array = [10, 11, 12, 11],
     li_lock = 0, li_object = \<lparr>fnObjectFree = True, fnObjectEquals = ArrayList_DefaultCompare\<rparr>\<rparr>"

lemma li_sample_wf: "li_wf li_sample" "li_owns li_sample" "li_items li_sample = [10, 11, 12, 11]"
  by (simp_all add: li_sample_def li_wf_def li_owns_def li_items_def)





text \<open>
  A search of the whole list returns -1 exactly when no object is equal to the one given, and
  otherwise \<^verbatim>\<open>ArrayList_IndexOf\<close> the first index and \<^verbatim>\<open>ArrayList_LastIndexOf\<close> the last index of such an
  object.
\<close>

theorem arraylist_search:
  assumes "li_wf al"
  shows "\<exists>f l. ArrayList_IndexOf al obj (-1) (-1) = Some (f, al) \<and> ArrayList_LastIndexOf al obj (-1) (-1) = Some (l, al) \<and>
    (if f = -1 then l = -1 \<and> (\<forall>i. \<not> li_match al obj i)
     else li_match al obj f \<and> li_match al obj l \<and> (\<forall>i. li_match al obj i \<longrightarrow> f \<le> i \<and> i \<le> l))"
proof -
  obtain f where f: "ArrayList_IndexOf al obj (-1) (-1) = Some (f, al)"
      "if f = -1 then \<forall>i. \<not> li_match al obj i else li_match al obj f \<and> (\<forall>i < f. \<not> li_match al obj i)"
    using ArrayList_IndexOf_ok [OF assms] by blast
  obtain l where l: "ArrayList_LastIndexOf al obj (-1) (-1) = Some (l, al)"
      "if l = -1 then \<forall>i. \<not> li_match al obj i else li_match al obj l \<and> (\<forall>i > l. \<not> li_match al obj i)"
    using ArrayList_LastIndexOf_ok [OF assms] by blast
  show ?thesis using f l by (intro exI [of _ f] exI [of _ l]) (auto split: if_splits simp: not_less [symmetric])
qed

theorem arraylist_search_witness:
  "\<exists>f l. ArrayList_IndexOf li_sample 11 (-1) (-1) = Some (f, li_sample) \<and>
    ArrayList_LastIndexOf li_sample 11 (-1) (-1) = Some (l, li_sample) \<and>
    (if f = -1 then l = -1 else li_match li_sample 11 f \<and> li_match li_sample 11 l)"
  using arraylist_search [OF li_sample_wf(1), of 11] by (auto split: if_splits)

text \<open>
  The search from an index on with the default count looks at as many cells as the list has
  objects, and so reads behind the list; here behind the array.
\<close>

lemma arraylist_index_of_overrun: "ArrayList_IndexOf li_sample 99 1 (-1) = None"
  by (simp add: ArrayList_IndexOf_def li_sample_def int_ck_def INT_LIM_def arr_get_def ArrayList_DefaultCompare_def
      eval_nat_numeral)

text \<open>One growth step may not be enough for a shift: \<^verbatim>\<open>ArrayList_Shift\<close> then moves objects behind the array.\<close>

lemma arraylist_shift_overrun: "ArrayList_Shift ample li_sample 0 5 = None"
  by (simp add: ArrayList_Shift_def arraylist_grow_def li_sample_def int_ck_def INT_LIM_def cint_def mem_realloc_def
      ample_def BLOCK_MAX_def movei_def mem_move_def mem_read_def mem_write_def)

text \<open>An index behind the list is refused silently: the call returns \<^verbatim>\<open>TRUE\<close> and the object is not in the list.\<close>

lemma arraylist_insert_ignored: "ArrayList_Insert A li_sample 4 99 = Some (True, li_sample)"
  by (simp add: ArrayList_Insert_def li_sample_def)

end
