(* ===== verification/Chains.thy ===== *)
theory Chains
  imports Objects
begin

text \<open>
  Singly linked lists of key-value pairs in memory, as the list dictionary (\<^verbatim>\<open>wListDictionaryItem\<close>) and the
  hash table (\<^verbatim>\<open>wKeyValuePair\<close>) use them. The memory that holds the cells is a finite map from addresses
  to cells: reading or freeing an address that holds no cell is undefined. The loops that
  follow the links are \<^theory_text>\<open>partial_function\<close>s, so that a loop that would run forever has no result;
  that they end is a consequence of the lemmas on well-formed chains.
\<close>

record cell =
  c_key :: ptr
  c_value :: ptr
  c_next :: ptr

type_synonym heap = "ptr \<Rightarrow> cell option"

text \<open>
  \<^verbatim>\<open>malloc\<close> of one cell answers with \<open>None\<close>, or with an address that is not \<^verbatim>\<open>NULL\<close> and not in use.
\<close>

definition fresh :: "heap \<Rightarrow> ptr option \<Rightarrow> bool" where
  "fresh h r = (case r of None \<Rightarrow> True | Some a \<Rightarrow> a \<noteq> NULL \<and> h a = None)"

definition cell_free :: "heap \<Rightarrow> ptr \<Rightarrow> heap option" where
  "cell_free h a = (case h a of None \<Rightarrow> None | Some c \<Rightarrow> Some (h(a := None)))"

text \<open>Assignments to the fields of a cell.\<close>

definition set_next :: "heap \<Rightarrow> ptr \<Rightarrow> ptr \<Rightarrow> heap option" where
  "set_next h a n = do { c \<leftarrow> h a; Some (h(a \<mapsto> c\<lparr>c_next := n\<rparr>)) }"

definition set_value :: "heap \<Rightarrow> ptr \<Rightarrow> ptr \<Rightarrow> heap option" where
  "set_value h a v = do { c \<leftarrow> h a; Some (h(a \<mapsto> c\<lparr>c_value := v\<rparr>)) }"

definition set_key :: "heap \<Rightarrow> ptr \<Rightarrow> ptr \<Rightarrow> heap option" where
  "set_key h a k = do { c \<leftarrow> h a; Some (h(a \<mapsto> c\<lparr>c_key := k\<rparr>)) }"

text \<open>What is handed to the callbacks that free keys and values.\<close>

datatype released = FreedKey ptr | FreedValue ptr

definition rel_key :: "bool \<Rightarrow> ptr \<Rightarrow> released list" where
  "rel_key on k = (if on then [FreedKey k] else [])"

definition rel_value :: "bool \<Rightarrow> ptr \<Rightarrow> released list" where
  "rel_value on v = (if on then [FreedValue v] else [])"

section \<open>Loops along a chain\<close>

partial_function (option) chain_count :: "heap \<Rightarrow> ptr \<Rightarrow> nat \<Rightarrow> nat option" where
  "chain_count h item n =
     (if item = NULL then Some n
      else do {
        c \<leftarrow> h item;
        n \<leftarrow> cint (n + 1);
        chain_count h (c_next c) n })"

text \<open>The search for the first cell whose key passes the test; \<^verbatim>\<open>NULL\<close> if there is none.\<close>

partial_function (option) chain_find :: "(ptr \<Rightarrow> bool) \<Rightarrow> heap \<Rightarrow> ptr \<Rightarrow> ptr option" where
  "chain_find P h item =
     (if item = NULL then Some NULL
      else do {
        c \<leftarrow> h item;
        if P (c_key c) then Some item else chain_find P h (c_next c) })"

text \<open>The same with the cell before the one found.\<close>

partial_function (option) chain_find_prev :: "(ptr \<Rightarrow> bool) \<Rightarrow> heap \<Rightarrow> ptr \<Rightarrow> ptr \<Rightarrow> (ptr \<times> ptr) option" where
  "chain_find_prev P h prevItem item =
     (if item = NULL then Some (prevItem, NULL)
      else do {
        c \<leftarrow> h item;
        if P (c_key c) then Some (prevItem, item) else chain_find_prev P h item (c_next c) })"

text \<open>The last cell of a chain that has one.\<close>

partial_function (option) chain_last :: "heap \<Rightarrow> ptr \<Rightarrow> ptr option" where
  "chain_last h lastItem = do {
     c \<leftarrow> h lastItem;
     if c_next c = NULL then Some lastItem else chain_last h (c_next c) }"

text \<open>Storing the keys in an array from an index on.\<close>

partial_function (option) chain_keys :: "heap \<Rightarrow> ptr \<Rightarrow> ptr list \<Rightarrow> nat \<Rightarrow> (ptr list \<times> nat) option" where
  "chain_keys h item pKeys index =
     (if item = NULL then Some (pKeys, index)
      else do {
        c \<leftarrow> h item;
        pKeys \<leftarrow> arr_set pKeys index (c_key c);
        index \<leftarrow> cint (index + 1);
        chain_keys h (c_next c) pKeys index })"

text \<open>Freeing every cell of a chain; the flags say which callbacks are set.\<close>

partial_function (option) chain_clear :: "bool \<Rightarrow> bool \<Rightarrow> heap \<Rightarrow> ptr \<Rightarrow> (released list \<times> heap) option" where
  "chain_clear keyFree valueFree h item =
     (if item = NULL then Some ([], h)
      else do {
        c \<leftarrow> h item;
        h \<leftarrow> cell_free h item;
        (freed, h) \<leftarrow> chain_clear keyFree valueFree h (c_next c);
        Some (rel_key keyFree (c_key c) @ rel_value valueFree (c_value c) @ freed, h) })"

section \<open>Well-formed chains\<close>

fun chain :: "heap \<Rightarrow> ptr \<Rightarrow> ptr list \<Rightarrow> bool" where
  "chain h p [] \<longleftrightarrow> p = NULL"
| "chain h p (a # as) \<longleftrightarrow> p = a \<and> a \<noteq> NULL \<and> (\<exists>c. h a = Some c \<and> chain h (c_next c) as)"

definition key_of :: "heap \<Rightarrow> ptr \<Rightarrow> ptr" where
  "key_of h a = c_key (the (h a))"

definition value_of :: "heap \<Rightarrow> ptr \<Rightarrow> ptr" where
  "value_of h a = c_value (the (h a))"

definition pairs_of :: "heap \<Rightarrow> ptr list \<Rightarrow> (ptr \<times> ptr) list" where
  "pairs_of h as = map (\<lambda>a. (key_of h a, value_of h a)) as"

lemma pairs_of_simps [simp]:
  "pairs_of h [] = []" "pairs_of h (a # as) = (key_of h a, value_of h a) # pairs_of h as"
  "pairs_of h (as @ bs) = pairs_of h as @ pairs_of h bs" "length (pairs_of h as) = length as"
  by (simp_all add: pairs_of_def)

lemma chain_NULL [simp]: "chain h NULL as \<longleftrightarrow> as = []"
  by (cases as) auto

lemma chain_nonnull: "p \<noteq> NULL \<Longrightarrow> chain h p as \<longleftrightarrow> (\<exists>c bs. as = p # bs \<and> h p = Some c \<and> chain h (c_next c) bs)"
  by (cases as) auto

lemma chain_append:
  "chain h p (as @ a # bs) \<Longrightarrow> \<exists>c. h a = Some c \<and> a \<noteq> NULL \<and> chain h a (a # bs) \<and> chain h (c_next c) bs"
  by (induction as arbitrary: p) auto

text \<open>A cell determines the rest of its chain, so a chain has no cycle.\<close>

lemma chain_unique: "chain h p as \<Longrightarrow> chain h p bs \<Longrightarrow> as = bs"
  by (induction as arbitrary: p bs) (auto simp: chain_nonnull)

lemma chain_distinct: "chain h p as \<Longrightarrow> distinct as"
proof (induction as arbitrary: p)
  case (Cons a as)
  then obtain c where c: "h a = Some c" "chain h (c_next c) as" by auto
  have "a \<notin> set as"
  proof
    assume "a \<in> set as"
    then obtain us vs where as: "as = us @ a # vs" by (meson split_list)
    with c have "chain h (c_next c) vs" using chain_append [of h "c_next c" us a vs] by auto
    then have "as = vs" using chain_unique [OF c(2)] by blast
    then have "length as = length vs" by simp
    then show False using as by simp
  qed
  then show ?case using Cons.IH [OF c(2)] by simp
qed simp

lemma chain_set: "chain h p as \<Longrightarrow> a \<in> set as \<Longrightarrow> \<exists>c. h a = Some c \<and> a \<noteq> NULL"
  by (induction as arbitrary: p) auto

text \<open>A chain depends only on its own cells.\<close>

lemma chain_cong: "(\<And>a. a \<in> set as \<Longrightarrow> h' a = h a) \<Longrightarrow> chain h' p as = chain h p as"
  by (induction as arbitrary: p) auto

lemma pairs_of_cong: "(\<And>a. a \<in> set as \<Longrightarrow> h' a = h a) \<Longrightarrow> pairs_of h' as = pairs_of h as"
  by (simp add: pairs_of_def key_of_def value_of_def)

section \<open>What the loops compute\<close>

lemma chain_count_eq:
  assumes "chain h p as" "n + length as < 2 ^ 31"
  shows "chain_count h p n = Some (n + length as)"
  using assms
proof (induction as arbitrary: p n)
  case Nil
  then show ?case by (simp add: chain_count.simps)
next
  case (Cons a as)
  then show ?case by (auto simp: chain_count.simps [of h a] cint_def)
qed

lemma chain_find_eq:
  assumes "chain h p as"
  shows "chain_find P h p = Some (case List.find (\<lambda>a. P (key_of h a)) as of None \<Rightarrow> NULL | Some a \<Rightarrow> a)"
  using assms
proof (induction as arbitrary: p)
  case Nil
  then show ?case by (simp add: chain_find.simps)
next
  case (Cons a as)
  then show ?case by (auto simp: chain_find.simps [of P h a] key_of_def)
qed

text \<open>The result of a search: no key passes, or a split of the chain at the first key that does.\<close>

lemma chain_split:
  obtains (none) "\<forall>a \<in> set as. \<not> P (key_of h a)" "List.find (\<lambda>a. P (key_of h a)) as = None"
  | (some) us a vs where "as = us @ a # vs" "\<forall>u \<in> set us. \<not> P (key_of h u)" "P (key_of h a)"
      "List.find (\<lambda>a. P (key_of h a)) as = Some a"
proof (cases "List.find (\<lambda>a. P (key_of h a)) as")
  case None
  then show thesis using none by (auto simp: find_None_iff)
next
  case (Some a)
  then obtain i where i: "i < length as" "P (key_of h (as ! i))" "a = as ! i" "\<forall>j < i. \<not> P (key_of h (as ! j))"
    by (auto simp: find_Some_iff)
  have "as = take i as @ a # drop (Suc i) as" using i(1,3) by (simp add: id_take_nth_drop)
  moreover have "\<forall>u \<in> set (take i as). \<not> P (key_of h u)" using i(1,4) by (auto simp: in_set_conv_nth)
  ultimately show thesis using some i(2,3) Some by blast
qed

lemma chain_find_prev_none:
  assumes "chain h p as" "\<forall>a \<in> set as. \<not> P (key_of h a)"
  shows "\<exists>q. chain_find_prev P h prev p = Some (q, NULL)"
  using assms
proof (induction as arbitrary: p prev)
  case Nil
  then show ?case by (simp add: chain_find_prev.simps)
next
  case (Cons a as)
  then show ?case by (auto simp: chain_find_prev.simps [of P h _ a] key_of_def)
qed

lemma chain_find_prev_some:
  assumes "chain h p (us @ a # vs)" "\<forall>u \<in> set us. \<not> P (key_of h u)" "P (key_of h a)"
  shows "chain_find_prev P h prev p = Some (if us = [] then prev else last us, a)"
  using assms
proof (induction us arbitrary: p prev)
  case Nil
  then show ?case by (auto simp: chain_find_prev.simps key_of_def)
next
  case (Cons u us)
  then show ?case by (auto simp: chain_find_prev.simps [of P h _ u] key_of_def)
qed

lemma chain_last_eq:
  assumes "chain h p as" "as \<noteq> []"
  shows "chain_last h p = Some (last as)"
  using assms
proof (induction as arbitrary: p)
  case (Cons a as)
  then show ?case by (cases as) (auto simp: chain_last.simps [of h a])
qed simp

lemma chain_keys_eq:
  assumes "chain h p as" "n + length as \<le> length ks" "n + length as < 2 ^ 31"
  shows "chain_keys h p ks n = Some (take n ks @ map (key_of h) as @ drop (n + length as) ks, n + length as)"
  using assms
proof (induction as arbitrary: p n ks)
  case Nil
  then show ?case by (simp add: chain_keys.simps)
next
  case (Cons a as)
  then obtain c where c: "p = a" "a \<noteq> NULL" "h a = Some c" "chain h (c_next c) as" by auto
  have n: "n < length ks" "cint (n + 1) = Some (n + 1)" using Cons.prems(2,3) by (simp_all add: cint_def)
  have "take (n + 1) (ks[n := c_key c]) = take n ks @ [key_of h a]"
    using n(1) c(3) by (simp add: take_Suc_conv_app_nth key_of_def)
  then show ?case
    using Cons.IH [OF c(4), of "n + 1" "ks[n := c_key c]"] Cons.prems(2,3) c n
    by (simp add: chain_keys.simps [of h a] arr_set_def)
qed

definition rel_pair :: "bool \<Rightarrow> bool \<Rightarrow> ptr \<times> ptr \<Rightarrow> released list" where
  "rel_pair keyFree valueFree kv = rel_key keyFree (fst kv) @ rel_value valueFree (snd kv)"

lemma chain_clear_eq:
  assumes "chain h p as"
  shows "chain_clear kf vf h p = Some (concat (map (rel_pair kf vf) (pairs_of h as)), h |` (- set as))"
  using assms
proof (induction as arbitrary: p h)
  case Nil
  then show ?case by (simp add: chain_clear.simps)
next
  case (Cons a as)
  then obtain c where c: "p = a" "a \<noteq> NULL" "h a = Some c" "chain h (c_next c) as" by auto
  let ?h = "h(a := None)"
  have a: "a \<notin> set as" using chain_distinct [OF Cons.prems] by simp
  have "chain ?h (c_next c) as" using c(4) a by (subst chain_cong) auto
  moreover have "pairs_of ?h as = pairs_of h as" using a by (intro pairs_of_cong) auto
  moreover have "?h |` (- set as) = h |` (- set (a # as))" by (auto simp: restrict_map_def fun_eq_iff)
  ultimately have "chain_clear kf vf ?h (c_next c) =
      Some (concat (map (rel_pair kf vf) (pairs_of h as)), h |` (- set (a # as)))"
    using Cons.IH [of ?h "c_next c"] by metis
  then show ?case
    using c by (simp add: chain_clear.simps [of kf vf h a] cell_free_def rel_pair_def [of kf vf "(c_key c, c_value c)"] key_of_def value_of_def)
qed

section \<open>Changes of a chain\<close>

text \<open>Assigning to a cell outside a chain, or to a field other than the link, does not change the chain.\<close>

lemma chain_other [simp]: "a \<notin> set as \<Longrightarrow> chain (h(a := x)) p as = chain h p as"
  by (rule chain_cong) auto

lemma pairs_of_other [simp]: "a \<notin> set as \<Longrightarrow> pairs_of (h(a := x)) as = pairs_of h as"
  by (rule pairs_of_cong) auto

lemma chain_same_next:
  assumes "h a = Some c" "c_next c' = c_next c"
  shows "chain (h(a \<mapsto> c')) p as = chain h p as"
  using assms by (induction as arbitrary: p) auto

text \<open>Replacing the tail behind a cell.\<close>

lemma chain_relink:
  assumes "chain h p (us @ a # vs)" "h a = Some c" "chain (h(a \<mapsto> c\<lparr>c_next := q\<rparr>)) q ws"
  shows "chain (h(a \<mapsto> c\<lparr>c_next := q\<rparr>)) p (us @ a # ws)"
  using assms
proof (induction us arbitrary: p)
  case (Cons u us)
  have "u \<noteq> a" using chain_distinct [OF Cons.prems(1)] by auto
  then show ?case using Cons by auto
qed auto

lemma key_of_next [simp]: "h a = Some c \<Longrightarrow> key_of (h(a \<mapsto> c\<lparr>c_next := q\<rparr>)) b = key_of h b"
  by (simp add: key_of_def)

lemma value_of_next [simp]: "h a = Some c \<Longrightarrow> value_of (h(a \<mapsto> c\<lparr>c_next := q\<rparr>)) b = value_of h b"
  by (simp add: value_of_def)

lemma pairs_of_next [simp]: "h a = Some c \<Longrightarrow> pairs_of (h(a \<mapsto> c\<lparr>c_next := q\<rparr>)) as = pairs_of h as"
  by (simp add: pairs_of_def)

text \<open>Hanging a new cell behind the last one.\<close>

lemma chain_snoc:
  assumes ch: "chain h p as" "as \<noteq> []" and fr: "a \<noteq> NULL" "h a = None"
  shows "\<exists>h'. set_next (h(a \<mapsto> \<lparr>c_key = k, c_value = v, c_next = NULL\<rparr>)) (last as) a = Some h' \<and>
    chain h' p (as @ [a]) \<and> pairs_of h' (as @ [a]) = pairs_of h as @ [(k, v)] \<and>
    (\<forall>b. b \<notin> set (as @ [a]) \<longrightarrow> h' b = h b)"
proof -
  let ?h = "h(a \<mapsto> \<lparr>c_key = k, c_value = v, c_next = NULL\<rparr>)"
  define us where "us = butlast as"
  have as: "as = us @ [last as]" using ch(2) by (simp add: us_def)
  have a: "a \<notin> set as" using chain_set [OF ch(1)] fr(2) by fastforce
  obtain c where c: "h (last as) = Some c" using chain_set [OF ch(1)] ch(2) by fastforce
  have la: "last as \<noteq> a" using a ch(2) by auto
  let ?h' = "?h(last as \<mapsto> c\<lparr>c_next := a\<rparr>)"
  have "set_next ?h (last as) a = Some ?h'" using c la by (simp add: set_next_def)
  moreover have "chain ?h' p (us @ last as # [a])"
  proof (rule chain_relink)
    show "chain ?h p (us @ last as # [])" using ch(1) a as by (metis chain_other)
    show "?h (last as) = Some c" using c la by simp
    show "chain ?h' a [a]" using fr(1) la by simp
  qed
  then have "chain ?h' p (as @ [a])" using as by (metis append_Cons append_Nil append_assoc)
  moreover have "pairs_of ?h' (as @ [a]) = pairs_of h as @ [(k, v)]"
    using a c la by (subst pairs_of_next) (simp_all add: key_of_def value_of_def)
  ultimately show ?thesis using ch(2) by auto
qed

text \<open>Unlinking a cell and freeing it.\<close>

lemma chain_unlink:
  assumes ch: "chain h p (us @ a # vs)" and c: "h a = Some c"
  shows "\<exists>h1. (if us = [] then Some h else set_next h (last us) (c_next c)) = Some h1 \<and> h1 a = Some c \<and>
    chain (h1(a := None)) (if us = [] then c_next c else p) (us @ vs) \<and>
    pairs_of (h1(a := None)) (us @ vs) = pairs_of h (us @ vs) \<and>
    (\<forall>b. b \<notin> set (us @ a # vs) \<longrightarrow> (h1(a := None)) b = h b)"
proof -
  have dist: "a \<notin> set us" "a \<notin> set vs" "distinct (us @ vs)" "distinct us" using chain_distinct [OF ch] by auto
  have vs: "chain h (c_next c) vs" using chain_append [OF ch] c by auto
  show ?thesis
  proof (cases "us = []")
    case True
    then show ?thesis using vs dist c by simp
  next
    case False
    define ws where "ws = butlast us"
    have us: "us = ws @ [last us]" using False by (simp add: ws_def)
    obtain d where d: "h (last us) = Some d" using chain_set [OF ch, of "last us"] False by auto
    have la: "last us \<noteq> a" "last us \<notin> set vs" using dist False by (auto dest: last_in_set)
    let ?h1 = "h(last us \<mapsto> d\<lparr>c_next := c_next c\<rparr>)"
    have "chain ?h1 p (ws @ last us # vs)"
    proof (rule chain_relink)
      show "chain h p (ws @ last us # a # vs)" using ch us by (metis append_Cons append_Nil append_assoc)
      show "h (last us) = Some d" by (rule d)
      show "chain ?h1 (c_next c) vs" using vs la by simp
    qed
    then have "chain ?h1 p (us @ vs)" using us by (metis append_Cons append_Nil append_assoc)
    then have "chain (?h1(a := None)) p (us @ vs)" using dist by simp
    moreover have "pairs_of (?h1(a := None)) (us @ vs) = pairs_of h (us @ vs)"
      using dist d by (subst pairs_of_other) simp_all
    ultimately show ?thesis using False d c la by (auto simp: set_next_def)
  qed
qed

section \<open>Allocation and framing\<close>

definition malloc_ok :: "(heap \<Rightarrow> ptr option) \<Rightarrow> bool" where
  "malloc_ok M \<longleftrightarrow> (\<forall>h. fresh h (M h))"

text \<open>The cells that are in use and not in the list keep their contents.\<close>

definition frame :: "heap \<Rightarrow> ptr list \<Rightarrow> heap \<Rightarrow> bool" where
  "frame h as h' \<longleftrightarrow> (\<forall>b. h b \<noteq> None \<and> b \<notin> set as \<longrightarrow> h' b = h b)"

lemma frame_refl [simp]: "frame h as h"
  by (simp add: frame_def)

text \<open>A concrete allocator of cells: the first free address below a bound.\<close>

definition first_free :: "nat \<Rightarrow> heap \<Rightarrow> ptr option" where
  "first_free n h = List.find (\<lambda>a. h a = None) [1..<n]"

lemma first_free_ok: "malloc_ok (first_free n)"
  unfolding malloc_ok_def fresh_def first_free_def
  by (auto simp: find_Some_iff NULL_def split: option.splits)

end
