(* ===== verification/ListDictionary.thy ===== *)
theory ListDictionary
  imports Chains
begin

text \<open>
  The list dictionary of WinPR (\<^verbatim>\<open>winpr/libwinpr/utils/collections/ListDictionary.c\<close>): pairs in a singly
  linked list, in the order of insertion. The operations work on the memory that holds the
  cells, and are shown to implement an association list.

  \<^verbatim>\<open>malloc\<close> is a parameter \<open>M\<close> that answers for the current memory.
\<close>

record wListDictionary =
  ld_synchronized :: bool
  ld_lock :: nat
  ld_head :: ptr
  ld_objectKey :: wObject
  ld_objectValue :: wObject

section \<open>Operations\<close>

definition ListDictionary_Count :: "heap \<Rightarrow> wListDictionary \<Rightarrow> (nat \<times> wListDictionary) option" where
  "ListDictionary_Count h d = do {
     let lk = cs_enter (ld_synchronized d) (ld_lock d);
     cnt \<leftarrow> (if ld_head d \<noteq> NULL then chain_count h (ld_head d) 0 else Some 0);
     lk \<leftarrow> cs_leave (ld_synchronized d) lk;
     Some (cnt, d\<lparr>ld_lock := lk\<rparr>) }"

definition ListDictionary_IsFixedSized :: "wListDictionary \<Rightarrow> bool" where
  "ListDictionary_IsFixedSized d = False"

definition ListDictionary_IsReadOnly :: "wListDictionary \<Rightarrow> bool" where
  "ListDictionary_IsReadOnly d = False"

definition ListDictionary_IsSynchronized :: "wListDictionary \<Rightarrow> bool" where
  "ListDictionary_IsSynchronized d = ld_synchronized d"

definition ListDictionary_Lock :: "wListDictionary \<Rightarrow> wListDictionary" where
  "ListDictionary_Lock d = d\<lparr>ld_lock := cs_enter True (ld_lock d)\<rparr>"

definition ListDictionary_Unlock :: "wListDictionary \<Rightarrow> wListDictionary option" where
  "ListDictionary_Unlock d = do { lk \<leftarrow> cs_leave True (ld_lock d); Some (d\<lparr>ld_lock := lk\<rparr>) }"

text \<open>
  \<^verbatim>\<open>ListDictionary_GetKeys\<close>; the first argument says whether \<^verbatim>\<open>ppKeys\<close> is not \<^verbatim>\<open>NULL\<close>. The array is \<^verbatim>\<open>NULL\<close> for an empty
  dictionary, and is then not written to.
\<close>

definition ListDictionary_GetKeys ::
    "ptr allocator \<Rightarrow> bool \<Rightarrow> heap \<Rightarrow> wListDictionary option \<Rightarrow> (int \<times> ptr list \<times> wListDictionary option) option" where
  "ListDictionary_GetKeys A ppKeys h listDictionary =
     (case (ppKeys, listDictionary) of
        (True, Some d) \<Rightarrow> do {
          let lk = cs_enter (ld_synchronized d) (ld_lock d);
          cnt \<leftarrow> (if ld_head d \<noteq> NULL then chain_count h (ld_head d) 0 else Some 0);
          if cnt \<noteq> 0 \<and> \<not> al_ok A cnt then do {
            lk \<leftarrow> cs_leave (ld_synchronized d) lk;
            Some (-1, [], Some (d\<lparr>ld_lock := lk\<rparr>)) }
          else do {
            (pKeys, index) \<leftarrow> (if ld_head d \<noteq> NULL then chain_keys h (ld_head d) (replicate cnt 0) 0
              else Some (replicate cnt 0, 0));
            lk \<leftarrow> cs_leave (ld_synchronized d) lk;
            Some (int cnt, pKeys, Some (d\<lparr>ld_lock := lk\<rparr>)) } }
      | _ \<Rightarrow> Some (-1, [], listDictionary))"

definition ListDictionary_Add ::
    "(heap \<Rightarrow> ptr option) \<Rightarrow> heap \<Rightarrow> wListDictionary \<Rightarrow> ptr \<Rightarrow> ptr \<Rightarrow> (bool \<times> heap \<times> wListDictionary) option" where
  "ListDictionary_Add M h d key v = do {
     let lk = cs_enter (ld_synchronized d) (ld_lock d);
     (ret, h, d) \<leftarrow> (case M h of
         None \<Rightarrow> Some (False, h, d)
       | Some item \<Rightarrow> do {
           let h = h(item \<mapsto> \<lparr>c_key = key, c_value = v, c_next = NULL\<rparr>);
           if ld_head d = NULL then Some (True, h, d\<lparr>ld_head := item\<rparr>)
           else do {
             lastItem \<leftarrow> chain_last h (ld_head d);
             h \<leftarrow> set_next h lastItem item;
             Some (True, h, d) } });
     lk \<leftarrow> cs_leave (ld_synchronized d) lk;
     Some (ret, h, d\<lparr>ld_lock := lk\<rparr>) }"

text \<open>The result starts with what was handed to the callbacks.\<close>

definition ListDictionary_Clear :: "heap \<Rightarrow> wListDictionary \<Rightarrow> (released list \<times> heap \<times> wListDictionary) option" where
  "ListDictionary_Clear h d = do {
     let lk = cs_enter (ld_synchronized d) (ld_lock d);
     (freed, h, d) \<leftarrow> (if ld_head d \<noteq> NULL then do {
         (freed, h) \<leftarrow> chain_clear (fnObjectFree (ld_objectKey d)) (fnObjectFree (ld_objectValue d)) h (ld_head d);
         Some (freed, h, d\<lparr>ld_head := NULL\<rparr>) }
       else Some ([], h, d));
     lk \<leftarrow> cs_leave (ld_synchronized d) lk;
     Some (freed, h, d\<lparr>ld_lock := lk\<rparr>) }"

definition ListDictionary_Contains :: "heap \<Rightarrow> wListDictionary \<Rightarrow> ptr \<Rightarrow> (bool \<times> wListDictionary) option" where
  "ListDictionary_Contains h d key = do {
     let lk = cs_enter (ld_synchronized d) (ld_lock d);
     item \<leftarrow> chain_find (\<lambda>k. fnObjectEquals (ld_objectKey d) k key) h (ld_head d);
     lk \<leftarrow> cs_leave (ld_synchronized d) lk;
     Some (item \<noteq> NULL, d\<lparr>ld_lock := lk\<rparr>) }"

definition ListDictionary_Remove :: "heap \<Rightarrow> wListDictionary \<Rightarrow> ptr \<Rightarrow> (ptr \<times> heap \<times> wListDictionary) option" where
  "ListDictionary_Remove h d key = do {
     let lk = cs_enter (ld_synchronized d) (ld_lock d);
     (prevItem, item) \<leftarrow> chain_find_prev (\<lambda>k. fnObjectEquals (ld_objectKey d) k key) h NULL (ld_head d);
     (val, h, d) \<leftarrow> (if item \<noteq> NULL then do {
         c \<leftarrow> h item;
         (h, d) \<leftarrow> (if prevItem = NULL then Some (h, d\<lparr>ld_head := c_next c\<rparr>)
           else do { h \<leftarrow> set_next h prevItem (c_next c); Some (h, d) });
         h \<leftarrow> cell_free h item;
         Some (c_value c, h, d) }
       else Some (NULL, h, d));
     lk \<leftarrow> cs_leave (ld_synchronized d) lk;
     Some (val, h, d\<lparr>ld_lock := lk\<rparr>) }"

definition ListDictionary_Remove_Head :: "heap \<Rightarrow> wListDictionary \<Rightarrow> (ptr \<times> heap \<times> wListDictionary) option" where
  "ListDictionary_Remove_Head h d = do {
     let lk = cs_enter (ld_synchronized d) (ld_lock d);
     (val, h, d) \<leftarrow> (if ld_head d \<noteq> NULL then do {
         let item = ld_head d;
         c \<leftarrow> h item;
         h \<leftarrow> cell_free h item;
         Some (c_value c, h, d\<lparr>ld_head := c_next c\<rparr>) }
       else Some (NULL, h, d));
     lk \<leftarrow> cs_leave (ld_synchronized d) lk;
     Some (val, h, d\<lparr>ld_lock := lk\<rparr>) }"

definition ListDictionary_GetItemValue :: "heap \<Rightarrow> wListDictionary \<Rightarrow> ptr \<Rightarrow> (ptr \<times> wListDictionary) option" where
  "ListDictionary_GetItemValue h d key = do {
     let lk = cs_enter (ld_synchronized d) (ld_lock d);
     item \<leftarrow> (if ld_head d \<noteq> NULL then chain_find (\<lambda>k. fnObjectEquals (ld_objectKey d) k key) h (ld_head d)
       else Some NULL);
     val \<leftarrow> (if item \<noteq> NULL then do { c \<leftarrow> h item; Some (c_value c) } else Some NULL);
     lk \<leftarrow> cs_leave (ld_synchronized d) lk;
     Some (val, d\<lparr>ld_lock := lk\<rparr>) }"

definition ListDictionary_SetItemValue ::
    "heap \<Rightarrow> wListDictionary \<Rightarrow> ptr \<Rightarrow> ptr \<Rightarrow> (bool \<times> released list \<times> heap \<times> wListDictionary) option" where
  "ListDictionary_SetItemValue h d key v = do {
     let lk = cs_enter (ld_synchronized d) (ld_lock d);
     (status, freed, h) \<leftarrow> (if ld_head d \<noteq> NULL then do {
         item \<leftarrow> chain_find (\<lambda>k. fnObjectEquals (ld_objectKey d) k key) h (ld_head d);
         if item \<noteq> NULL then do {
           c \<leftarrow> h item;
           h \<leftarrow> set_value h item v;
           Some (True, rel_value (fnObjectFree (ld_objectValue d)) (c_value c), h) }
         else Some (False, [], h) }
       else Some (False, [], h));
     lk \<leftarrow> cs_leave (ld_synchronized d) lk;
     Some (status, freed, h, d\<lparr>ld_lock := lk\<rparr>) }"

definition default_equal_function :: "ptr \<Rightarrow> ptr \<Rightarrow> bool" where
  "default_equal_function obj1 obj2 \<longleftrightarrow> obj1 = obj2"

text \<open>The flags say whether the structure and the lock could be created.\<close>

definition ListDictionary_New :: "bool \<Rightarrow> bool \<Rightarrow> bool \<Rightarrow> wListDictionary option" where
  "ListDictionary_New struct_ok lock_ok sync =
     (if \<not> struct_ok \<or> \<not> lock_ok then None
      else Some \<lparr>ld_synchronized = sync, ld_lock = 0, ld_head = NULL,
        ld_objectKey = \<lparr>fnObjectFree = False, fnObjectEquals = default_equal_function\<rparr>,
        ld_objectValue = \<lparr>fnObjectFree = False, fnObjectEquals = default_equal_function\<rparr>\<rparr>)"

definition ListDictionary_Free :: "heap \<Rightarrow> wListDictionary option \<Rightarrow> (released list \<times> heap) option" where
  "ListDictionary_Free h listDictionary = (case listDictionary of
       None \<Rightarrow> Some ([], h)
     | Some d \<Rightarrow> do { (freed, h, d) \<leftarrow> ListDictionary_Clear h d; Some (freed, h) })"

section \<open>Dictionaries as association lists\<close>

definition assoc_find :: "(ptr \<Rightarrow> ptr \<Rightarrow> bool) \<Rightarrow> (ptr \<times> ptr) list \<Rightarrow> ptr \<Rightarrow> (ptr \<times> ptr) option" where
  "assoc_find e kvs k = List.find (\<lambda>kv. e (fst kv) k) kvs"

definition assoc_get :: "(ptr \<Rightarrow> ptr \<Rightarrow> bool) \<Rightarrow> (ptr \<times> ptr) list \<Rightarrow> ptr \<Rightarrow> ptr" where
  "assoc_get e kvs k = (case assoc_find e kvs k of None \<Rightarrow> NULL | Some kv \<Rightarrow> snd kv)"

fun assoc_remove :: "(ptr \<Rightarrow> ptr \<Rightarrow> bool) \<Rightarrow> (ptr \<times> ptr) list \<Rightarrow> ptr \<Rightarrow> (ptr \<times> ptr) list" where
  "assoc_remove e [] k = []"
| "assoc_remove e (kv # kvs) k = (if e (fst kv) k then kvs else kv # assoc_remove e kvs k)"

fun assoc_set :: "(ptr \<Rightarrow> ptr \<Rightarrow> bool) \<Rightarrow> (ptr \<times> ptr) list \<Rightarrow> ptr \<Rightarrow> ptr \<Rightarrow> (ptr \<times> ptr) list" where
  "assoc_set e [] k v = []"
| "assoc_set e (kv # kvs) k v = (if e (fst kv) k then (fst kv, v) # kvs else kv # assoc_set e kvs k v)"

datatype dict_op = DAdd ptr ptr | DRemove ptr | DRemoveHead | DGet ptr | DSet ptr ptr | DContains ptr | DCount | DClear

datatype dict_res = RBool bool | RPtr ptr | RNat nat | RUnit

text \<open>
  The specification: \<open>e\<close> compares keys, \<open>kf\<close> and \<open>vf\<close> say which callbacks are set, and \<open>ok\<close> whether memory
  could be allocated.
\<close>

fun dict_spec :: "(ptr \<Rightarrow> ptr \<Rightarrow> bool) \<Rightarrow> bool \<Rightarrow> bool \<Rightarrow> bool \<Rightarrow> dict_op \<Rightarrow> (ptr \<times> ptr) list \<Rightarrow>
    dict_res \<times> released list \<times> (ptr \<times> ptr) list" where
  "dict_spec e kf vf ok (DAdd k v) kvs = (RBool ok, [], if ok then kvs @ [(k, v)] else kvs)"
| "dict_spec e kf vf ok (DRemove k) kvs = (RPtr (assoc_get e kvs k), [], assoc_remove e kvs k)"
| "dict_spec e kf vf ok DRemoveHead kvs = (RPtr (case kvs of [] \<Rightarrow> NULL | kv # _ \<Rightarrow> snd kv), [], tl kvs)"
| "dict_spec e kf vf ok (DGet k) kvs = (RPtr (assoc_get e kvs k), [], kvs)"
| "dict_spec e kf vf ok (DSet k v) kvs =
     (case assoc_find e kvs k of
        None \<Rightarrow> (RBool False, [], kvs)
      | Some kv \<Rightarrow> (RBool True, rel_value vf (snd kv), assoc_set e kvs k v))"
| "dict_spec e kf vf ok (DContains k) kvs = (RBool (assoc_find e kvs k \<noteq> None), [], kvs)"
| "dict_spec e kf vf ok DCount kvs = (RNat (length kvs), [], kvs)"
| "dict_spec e kf vf ok DClear kvs = (RUnit, concat (map (rel_pair kf vf) kvs), [])"

lemma length_assoc_remove: "length (assoc_remove e kvs k) \<le> length kvs"
  by (induction kvs) auto

lemma length_assoc_set [simp]: "length (assoc_set e kvs k v) = length kvs"
  by (induction kvs) auto

lemma dict_spec_length: "length (snd (snd (dict_spec e kf vf ok op kvs))) \<le> length kvs + 1"
  by (cases op) (auto split: option.splits intro: le_SucI length_assoc_remove)

fun dict_run :: "('s \<Rightarrow> dict_op \<Rightarrow> (dict_res \<times> released list \<times> 's) option) \<Rightarrow> dict_op list \<Rightarrow> 's \<Rightarrow>
    ((dict_res \<times> released list) list \<times> 's) option" where
  "dict_run step [] s = Some ([], s)"
| "dict_run step (op # ops) s = do {
     (r, rel, s) \<leftarrow> step s op;
     (rs, s) \<leftarrow> dict_run step ops s;
     Some ((r, rel) # rs, s) }"

fun dict_spec_run :: "(ptr \<Rightarrow> ptr \<Rightarrow> bool) \<Rightarrow> bool \<Rightarrow> bool \<Rightarrow> bool list \<Rightarrow> dict_op list \<Rightarrow> (ptr \<times> ptr) list \<Rightarrow>
    (dict_res \<times> released list) list \<times> (ptr \<times> ptr) list" where
  "dict_spec_run e kf vf (ok # oks) (op # ops) kvs =
     (let (r, rel, kvs) = dict_spec e kf vf ok op kvs; (rs, kvs) = dict_spec_run e kf vf oks ops kvs
      in ((r, rel) # rs, kvs))"
| "dict_spec_run e kf vf _ _ kvs = ([], kvs)"

locale dictionary =
  fixes rep :: "'s \<Rightarrow> (ptr \<times> ptr) list \<Rightarrow> bool"
    and step :: "'s \<Rightarrow> dict_op \<Rightarrow> (dict_res \<times> released list \<times> 's) option"
    and e :: "ptr \<Rightarrow> ptr \<Rightarrow> bool"
    and kf :: bool
    and vf :: bool
    and lim :: nat
  assumes step_ok: "rep s kvs \<Longrightarrow> length kvs < lim \<Longrightarrow>
      \<exists>ok r rel s' kvs'. step s op = Some (r, rel, s') \<and> rep s' kvs' \<and> dict_spec e kf vf ok op kvs = (r, rel, kvs')"
begin

lemma run_refines:
  assumes "rep s kvs" "length kvs + length ops \<le> lim"
  shows "\<exists>oks rs s' kvs'. length oks = length ops \<and> dict_run step ops s = Some (rs, s') \<and> rep s' kvs' \<and>
    dict_spec_run e kf vf oks ops kvs = (rs, kvs')"
  using assms
proof (induction ops arbitrary: s kvs)
  case Nil
  then show ?case by auto
next
  case (Cons op ops)
  then obtain ok r rel s1 kvs1 where s1: "step s op = Some (r, rel, s1)" "rep s1 kvs1" "dict_spec e kf vf ok op kvs = (r, rel, kvs1)"
    using step_ok [of s kvs op] by auto
  have "length kvs1 + length ops \<le> lim" using dict_spec_length [of e kf vf ok op kvs] s1(3) Cons.prems(2) by simp
  then obtain oks rs s' kvs' where "length oks = length ops" "dict_run step ops s1 = Some (rs, s')" "rep s' kvs'"
      "dict_spec_run e kf vf oks ops kvs1 = (rs, kvs')"
    using Cons.IH [OF s1(2)] by blast
  then show ?case using s1
    by (intro exI [of _ "ok # oks"] exI [of _ "(r, rel) # rs"] exI [of _ s'] exI [of _ kvs']) simp
qed

end

section \<open>The operations on a well-formed chain\<close>

definition ld_same :: "wListDictionary \<Rightarrow> wListDictionary \<Rightarrow> bool" where
  "ld_same d d' \<longleftrightarrow> d' = d\<lparr>ld_head := ld_head d'\<rparr>"

lemma ld_lock_id [simp]: "d\<lparr>ld_lock := ld_lock d\<rparr> = d" "d\<lparr>ld_head := p, ld_lock := ld_lock d\<rparr> = d\<lparr>ld_head := p\<rparr>"
  by simp_all

lemma assoc_find_pairs:
  "assoc_find e (pairs_of h as) k =
     map_option (\<lambda>a. (key_of h a, value_of h a)) (List.find (\<lambda>a. e (key_of h a) k) as)"
  by (induction as) (simp_all add: assoc_find_def)

lemma assoc_remove_pairs:
  "\<forall>u \<in> set us. \<not> e (key_of h u) k \<Longrightarrow> e (key_of h a) k \<Longrightarrow>
   assoc_remove e (pairs_of h (us @ a # vs)) k = pairs_of h (us @ vs)"
  by (induction us) auto

lemma assoc_remove_none: "\<forall>u \<in> set us. \<not> e (key_of h u) k \<Longrightarrow> assoc_remove e (pairs_of h us) k = pairs_of h us"
  by (induction us) auto

lemma assoc_set_pairs:
  "\<forall>u \<in> set us. \<not> e (key_of h u) k \<Longrightarrow> e (key_of h a) k \<Longrightarrow>
   assoc_set e (pairs_of h (us @ a # vs)) k v = pairs_of h us @ (key_of h a, v) # pairs_of h vs"
  by (induction us) auto

lemma ListDictionary_Add_ok:
  assumes ch: "chain h (ld_head d) as" and M: "malloc_ok M"
  shows "\<exists>ok h' d' as'. ListDictionary_Add M h d k v = Some (ok, h', d') \<and> chain h' (ld_head d') as' \<and> ld_same d d' \<and>
    frame h as h' \<and> pairs_of h' as' = (if ok then pairs_of h as @ [(k, v)] else pairs_of h as)"
proof (cases "M h")
  case None
  then show ?thesis using ch by (auto simp: ListDictionary_Add_def ld_same_def frame_def)
next
  case (Some a)
  then have a: "a \<noteq> NULL" "h a = None" using M by (auto simp: malloc_ok_def fresh_def dest: spec [of _ h])
  let ?h = "h(a \<mapsto> \<lparr>c_key = k, c_value = v, c_next = NULL\<rparr>)"
  show ?thesis
  proof (cases "as = []")
    case True
    then have "ld_head d = NULL" using ch by simp
    then show ?thesis using Some a True
      by (intro exI [of _ True] exI [of _ ?h] exI [of _ "d\<lparr>ld_head := a\<rparr>"] exI [of _ "[a]"])
        (auto simp: ListDictionary_Add_def ld_same_def frame_def key_of_def value_of_def)
  next
    case False
    have hd: "ld_head d \<noteq> NULL" using ch False by auto
    have "a \<notin> set as" using chain_set [OF ch] a(2) by fastforce
    then have la: "chain_last ?h (ld_head d) = Some (last as)" using chain_last_eq [of ?h "ld_head d" as] ch False by simp
    obtain h' where h': "set_next ?h (last as) a = Some h'" "chain h' (ld_head d) (as @ [a])"
        "pairs_of h' (as @ [a]) = pairs_of h as @ [(k, v)]" "\<forall>b. b \<notin> set (as @ [a]) \<longrightarrow> h' b = h b"
      using chain_snoc [OF ch False a, of k v] by blast
    have "ListDictionary_Add M h d k v = Some (True, h', d)"
      using Some hd la h'(1) by (simp add: ListDictionary_Add_def Let_def)
    moreover have "frame h as h'" using h'(4) a(2) unfolding frame_def by force
    moreover have "ld_same d d" by (simp add: ld_same_def)
    ultimately show ?thesis using h'(2,3)
      by (intro exI [of _ True] exI [of _ h'] exI [of _ d] exI [of _ "as @ [a]"]) (simp only: if_True simp_thms)
  qed
qed

lemma ListDictionary_Remove_ok:
  assumes ch: "chain h (ld_head d) as"
  defines "e \<equiv> fnObjectEquals (ld_objectKey d)"
  shows "\<exists>h' d' as'. ListDictionary_Remove h d k = Some (assoc_get e (pairs_of h as) k, h', d') \<and> chain h' (ld_head d') as' \<and>
    ld_same d d' \<and> frame h as h' \<and> pairs_of h' as' = assoc_remove e (pairs_of h as) k"
proof (cases rule: chain_split [of as "\<lambda>x. e x k" h])
  case none
  then obtain q where "chain_find_prev (\<lambda>x. e x k) h NULL (ld_head d) = Some (q, NULL)"
    using chain_find_prev_none [OF ch, of "\<lambda>x. e x k"] by blast
  then show ?thesis using none ch
    by (auto simp: ListDictionary_Remove_def assoc_get_def assoc_find_pairs assoc_remove_none ld_same_def frame_def e_def)
next
  case (some us a vs)
  note ch' = ch [unfolded some(1)]
  have f: "chain_find_prev (\<lambda>x. e x k) h NULL (ld_head d) = Some (if us = [] then NULL else last us, a)"
    using chain_find_prev_some [OF ch' some(2,3)] .
  obtain c where c: "h a = Some c" "a \<noteq> NULL" using chain_append [OF ch'] by auto
  obtain h1 where h1: "(if us = [] then Some h else set_next h (last us) (c_next c)) = Some h1" "h1 a = Some c"
      "chain (h1(a := None)) (if us = [] then c_next c else ld_head d) (us @ vs)"
      "pairs_of (h1(a := None)) (us @ vs) = pairs_of h (us @ vs)" "\<forall>b. b \<notin> set (us @ a # vs) \<longrightarrow> (h1(a := None)) b = h b"
    using chain_unlink [OF ch' c(1)] by blast
  have pn: "us \<noteq> [] \<Longrightarrow> last us \<noteq> NULL" using chain_set [OF ch', of "last us"] by auto
  let ?d = "d\<lparr>ld_head := (if us = [] then c_next c else ld_head d)\<rparr>"
  have "ListDictionary_Remove h d k = Some (value_of h a, h1(a := None), ?d)"
    using f c h1(1,2) pn by (auto simp: ListDictionary_Remove_def e_def cell_free_def value_of_def)
  moreover have "assoc_get e (pairs_of h as) k = value_of h a"
    using some(4) by (simp add: assoc_get_def assoc_find_pairs)
  moreover have "assoc_remove e (pairs_of h as) k = pairs_of h (us @ vs)"
    using assoc_remove_pairs [of us e h k a vs] some(1-3) by simp
  ultimately show ?thesis using h1(3,4,5) some(1)
    by (intro exI [of _ "h1(a := None)"] exI [of _ ?d] exI [of _ "us @ vs"]) (auto simp: ld_same_def frame_def)
qed

lemma ListDictionary_Remove_Head_ok:
  assumes ch: "chain h (ld_head d) as"
  shows "\<exists>h' d' as'. ListDictionary_Remove_Head h d = Some (case pairs_of h as of [] \<Rightarrow> NULL | kv # _ \<Rightarrow> snd kv, h', d') \<and>
    chain h' (ld_head d') as' \<and> ld_same d d' \<and> frame h as h' \<and> pairs_of h' as' = tl (pairs_of h as)"
proof (cases as)
  case Nil
  then show ?thesis using ch by (auto simp: ListDictionary_Remove_Head_def ld_same_def frame_def)
next
  case (Cons a bs)
  then obtain c where c: "ld_head d = a" "a \<noteq> NULL" "h a = Some c" "chain h (c_next c) bs" using ch by auto
  have "a \<notin> set bs" using chain_distinct [OF ch] Cons by simp
  then show ?thesis using c Cons
    by (intro exI [of _ "h(a := None)"] exI [of _ "d\<lparr>ld_head := c_next c\<rparr>"] exI [of _ bs])
      (auto simp: ListDictionary_Remove_Head_def cell_free_def ld_same_def frame_def value_of_def)
qed

lemma ListDictionary_GetItemValue_ok:
  assumes ch: "chain h (ld_head d) as"
  shows "ListDictionary_GetItemValue h d k = Some (assoc_get (fnObjectEquals (ld_objectKey d)) (pairs_of h as) k, d)"
proof -
  let ?e = "fnObjectEquals (ld_objectKey d)"
  have f: "chain_find (\<lambda>x. ?e x k) h (ld_head d) = Some (case List.find (\<lambda>a. ?e (key_of h a) k) as of None \<Rightarrow> NULL | Some a \<Rightarrow> a)"
    by (rule chain_find_eq [OF ch])
  show ?thesis
  proof (cases rule: chain_split [of as "\<lambda>x. ?e x k" h])
    case none
    then show ?thesis using f by (simp add: ListDictionary_GetItemValue_def assoc_get_def assoc_find_pairs)
  next
    case (some us a vs)
    obtain c where "h a = Some c" "a \<noteq> NULL" using chain_append [OF ch [unfolded some(1)]] by auto
    moreover have "ld_head d \<noteq> NULL" using ch some(1) by auto
    ultimately show ?thesis using f some(4)
      by (simp add: ListDictionary_GetItemValue_def assoc_get_def assoc_find_pairs value_of_def)
  qed
qed

lemma ListDictionary_Contains_ok:
  assumes ch: "chain h (ld_head d) as"
  shows "ListDictionary_Contains h d k = Some (assoc_find (fnObjectEquals (ld_objectKey d)) (pairs_of h as) k \<noteq> None, d)"
proof -
  let ?e = "fnObjectEquals (ld_objectKey d)"
  have f: "chain_find (\<lambda>x. ?e x k) h (ld_head d) = Some (case List.find (\<lambda>a. ?e (key_of h a) k) as of None \<Rightarrow> NULL | Some a \<Rightarrow> a)"
    by (rule chain_find_eq [OF ch])
  show ?thesis
  proof (cases rule: chain_split [of as "\<lambda>x. ?e x k" h])
    case none
    then show ?thesis using f by (simp add: ListDictionary_Contains_def assoc_find_pairs)
  next
    case (some us a vs)
    have "a \<noteq> NULL" using chain_append [OF ch [unfolded some(1)]] by auto
    then show ?thesis using f some(4) by (simp add: ListDictionary_Contains_def assoc_find_pairs)
  qed
qed

lemma ListDictionary_SetItemValue_ok:
  assumes ch: "chain h (ld_head d) as"
  defines "e \<equiv> fnObjectEquals (ld_objectKey d)" and "vf \<equiv> fnObjectFree (ld_objectValue d)"
  shows "\<exists>h'. ListDictionary_SetItemValue h d k v = Some (assoc_find e (pairs_of h as) k \<noteq> None,
      (case assoc_find e (pairs_of h as) k of None \<Rightarrow> [] | Some kv \<Rightarrow> rel_value vf (snd kv)), h', d) \<and>
    chain h' (ld_head d) as \<and> frame h as h' \<and> pairs_of h' as = assoc_set e (pairs_of h as) k v"
proof -
  have f: "chain_find (\<lambda>x. e x k) h (ld_head d) = Some (case List.find (\<lambda>a. e (key_of h a) k) as of None \<Rightarrow> NULL | Some a \<Rightarrow> a)"
    by (rule chain_find_eq [OF ch])
  show ?thesis
  proof (cases rule: chain_split [of as "\<lambda>x. e x k" h])
    case none
    have "assoc_set e (pairs_of h as) k v = pairs_of h as" using none(1) by (induction as) auto
    then show ?thesis using f none ch
      by (auto simp: ListDictionary_SetItemValue_def assoc_find_pairs frame_def e_def)
  next
    case (some us a vs)
    obtain c where c: "h a = Some c" "a \<noteq> NULL" using chain_append [OF ch [unfolded some(1)]] by auto
    let ?h = "h(a \<mapsto> c\<lparr>c_value := v\<rparr>)"
    have hd: "ld_head d \<noteq> NULL" using ch some(1) by auto
    have "a \<notin> set us" "a \<notin> set vs" using chain_distinct [OF ch] some(1) by auto
    then have "pairs_of ?h as = assoc_set e (pairs_of h as) k v"
      using assoc_set_pairs [of us e h k a vs v] some(1-3) c by (simp add: key_of_def value_of_def)
    moreover have "chain ?h (ld_head d) as" using ch c(1) by (simp add: chain_same_next)
    moreover have "frame h as ?h" using some(1) by (auto simp: frame_def)
    moreover have "ListDictionary_SetItemValue h d k v = Some (True, rel_value vf (value_of h a), ?h, d)"
      using f some(4) hd c by (simp add: ListDictionary_SetItemValue_def set_value_def e_def vf_def value_of_def)
    ultimately show ?thesis using some(4) by (simp add: assoc_find_pairs)
  qed
qed

lemma ListDictionary_Count_ok:
  "chain h (ld_head d) as \<Longrightarrow> length as < 2 ^ 31 \<Longrightarrow> ListDictionary_Count h d = Some (length as, d)"
  using chain_count_eq [of h "ld_head d" as 0] by (cases as) (auto simp: ListDictionary_Count_def)

lemma ListDictionary_Clear_ok:
  assumes ch: "chain h (ld_head d) as"
  defines "kf \<equiv> fnObjectFree (ld_objectKey d)" and "vf \<equiv> fnObjectFree (ld_objectValue d)"
  shows "\<exists>h' d'. ListDictionary_Clear h d = Some (concat (map (rel_pair kf vf) (pairs_of h as)), h', d') \<and>
    ld_head d' = NULL \<and> ld_same d d' \<and> frame h as h' \<and> (\<forall>a \<in> set as. h' a = None)"
proof (cases "as = []")
  case True
  then show ?thesis using ch by (auto simp: ListDictionary_Clear_def ld_same_def frame_def)
next
  case False
  then have "ld_head d \<noteq> NULL" using ch by auto
  then show ?thesis using chain_clear_eq [OF ch, of kf vf]
    by (simp add: ListDictionary_Clear_def kf_def vf_def ld_same_def frame_def)
qed

text \<open>The keys are returned in the order of insertion.\<close>

lemma ListDictionary_GetKeys_ok:
  assumes ch: "chain h (ld_head d) as" and l: "length as < 2 ^ 31"
  shows "ListDictionary_GetKeys A True h (Some d) =
    Some (if as = [] \<or> al_ok A (length as) then (int (length as), map fst (pairs_of h as), Some d) else (-1, [], Some d))"
proof (cases "as = []")
  case True
  then show ?thesis using ch by (simp add: ListDictionary_GetKeys_def)
next
  case False
  then have "ld_head d \<noteq> NULL" using ch by auto
  moreover have "map fst (pairs_of h as) = map (key_of h) as" by (simp add: pairs_of_def)
  ultimately show ?thesis
    using False chain_count_eq [OF ch, of 0] chain_keys_eq [OF ch, of 0 "replicate (length as) 0"] l
    by (simp add: ListDictionary_GetKeys_def)
qed

section \<open>The dictionary implements an association list\<close>

fun ld_step :: "(heap \<Rightarrow> ptr option) \<Rightarrow> heap \<times> wListDictionary \<Rightarrow> dict_op \<Rightarrow>
    (dict_res \<times> released list \<times> heap \<times> wListDictionary) option" where
  "ld_step M (h, d) (DAdd k v) = do { (ok, h, d) \<leftarrow> ListDictionary_Add M h d k v; Some (RBool ok, [], h, d) }"
| "ld_step M (h, d) (DRemove k) = do { (p, h, d) \<leftarrow> ListDictionary_Remove h d k; Some (RPtr p, [], h, d) }"
| "ld_step M (h, d) DRemoveHead = do { (p, h, d) \<leftarrow> ListDictionary_Remove_Head h d; Some (RPtr p, [], h, d) }"
| "ld_step M (h, d) (DGet k) = do { (p, d) \<leftarrow> ListDictionary_GetItemValue h d k; Some (RPtr p, [], h, d) }"
| "ld_step M (h, d) (DSet k v) = do { (ok, rel, h, d) \<leftarrow> ListDictionary_SetItemValue h d k v; Some (RBool ok, rel, h, d) }"
| "ld_step M (h, d) (DContains k) = do { (b, d) \<leftarrow> ListDictionary_Contains h d k; Some (RBool b, [], h, d) }"
| "ld_step M (h, d) DCount = do { (n, d) \<leftarrow> ListDictionary_Count h d; Some (RNat n, [], h, d) }"
| "ld_step M (h, d) DClear = do { (rel, h, d) \<leftarrow> ListDictionary_Clear h d; Some (RUnit, rel, h, d) }"

lemma ld_same_refl [simp]: "ld_same d d"
  by (simp add: ld_same_def)

lemma ld_step_ok:
  assumes M: "malloc_ok M" and ch: "chain h (ld_head d) as" and l: "length as < 2 ^ 31"
  defines "e \<equiv> fnObjectEquals (ld_objectKey d)" and "kf \<equiv> fnObjectFree (ld_objectKey d)" and "vf \<equiv> fnObjectFree (ld_objectValue d)"
  shows "\<exists>ok r rel h' d' as'. ld_step M (h, d) op = Some (r, rel, h', d') \<and> chain h' (ld_head d') as' \<and> ld_same d d' \<and>
    frame h as h' \<and> dict_spec e kf vf ok op (pairs_of h as) = (r, rel, pairs_of h' as')"
proof (cases op)
  case (DAdd k v)
  from ListDictionary_Add_ok [OF ch M, of k v] obtain ok h' d' as' where "ListDictionary_Add M h d k v = Some (ok, h', d')"
      "chain h' (ld_head d') as'" "ld_same d d'" "frame h as h'"
      "pairs_of h' as' = (if ok then pairs_of h as @ [(k, v)] else pairs_of h as)" by blast
  then show ?thesis using DAdd by (intro exI [of _ ok] exI [of _ "RBool ok"] exI [of _ "[]"] exI [of _ h'] exI [of _ d'] exI [of _ as']) simp
next
  case (DRemove k)
  from ListDictionary_Remove_ok [OF ch, of k] obtain h' d' as' where
    "ListDictionary_Remove h d k = Some (assoc_get e (pairs_of h as) k, h', d')" "chain h' (ld_head d') as'" "ld_same d d'"
    "frame h as h'" "pairs_of h' as' = assoc_remove e (pairs_of h as) k"
    by (auto simp: e_def)
  then show ?thesis using DRemove by (auto intro!: exI [of _ as'])
next
  case DRemoveHead
  from ListDictionary_Remove_Head_ok [OF ch] obtain h' d' as' where
    "ListDictionary_Remove_Head h d = Some (case pairs_of h as of [] \<Rightarrow> NULL | kv # _ \<Rightarrow> snd kv, h', d')"
    "chain h' (ld_head d') as'" "ld_same d d'" "frame h as h'" "pairs_of h' as' = tl (pairs_of h as)"
    by auto
  then show ?thesis using DRemoveHead by (auto intro!: exI [of _ as'])
next
  case (DGet k)
  then show ?thesis using ListDictionary_GetItemValue_ok [OF ch, of k] ch by (auto simp: e_def)
next
  case (DSet k v)
  from ListDictionary_SetItemValue_ok [OF ch, of k v, folded e_def vf_def] obtain h' where h': "ListDictionary_SetItemValue h d k v =
      Some (assoc_find e (pairs_of h as) k \<noteq> None, (case assoc_find e (pairs_of h as) k of None \<Rightarrow> [] | Some kv \<Rightarrow> rel_value vf (snd kv)), h', d)"
      "chain h' (ld_head d) as" "frame h as h'" "pairs_of h' as = assoc_set e (pairs_of h as) k v"
    by blast
  have "assoc_find e (pairs_of h as) k = None \<Longrightarrow> assoc_set e (pairs_of h as) k v = pairs_of h as"
    by (induction as) (auto simp: assoc_find_def split: if_splits)
  then show ?thesis using DSet h' by (auto split: option.splits intro!: exI [of _ h'] exI [of _ d] exI [of _ as])
next
  case (DContains k)
  then show ?thesis using ListDictionary_Contains_ok [OF ch, of k] ch by (auto simp: e_def)
next
  case DCount
  then show ?thesis using ListDictionary_Count_ok [OF ch l] ch by auto
next
  case DClear
  from ListDictionary_Clear_ok [OF ch] show ?thesis using DClear by (fastforce simp: kf_def vf_def)
qed

definition ld_rep :: "(heap \<Rightarrow> ptr option) \<Rightarrow> (ptr \<Rightarrow> ptr \<Rightarrow> bool) \<Rightarrow> bool \<Rightarrow> bool \<Rightarrow> heap \<times> wListDictionary \<Rightarrow> (ptr \<times> ptr) list \<Rightarrow> bool" where
  "ld_rep M e kf vf s kvs \<longleftrightarrow> malloc_ok M \<and> (\<exists>as. chain (fst s) (ld_head (snd s)) as \<and> pairs_of (fst s) as = kvs) \<and>
     ld_objectKey (snd s) = \<lparr>fnObjectFree = kf, fnObjectEquals = e\<rparr> \<and> fnObjectFree (ld_objectValue (snd s)) = vf"

lemma ld_same_objects: "ld_same d d' \<Longrightarrow> ld_objectKey d' = ld_objectKey d \<and> ld_objectValue d' = ld_objectValue d"
  unfolding ld_same_def by (metis wListDictionary.select_convs(4,5) wListDictionary.surjective wListDictionary.update_convs(3))

lemma ld_rep_step:
  assumes r: "ld_rep M e kf vf s kvs" and l: "length kvs < 2 ^ 31"
  shows "\<exists>ok r rel s' kvs'. ld_step M s op = Some (r, rel, s') \<and> ld_rep M e kf vf s' kvs' \<and> dict_spec e kf vf ok op kvs = (r, rel, kvs')"
proof -
  obtain h d where s: "s = (h, d)" by fastforce
  then obtain as where M: "malloc_ok M" and as: "chain h (ld_head d) as" "pairs_of h as = kvs"
      and o: "ld_objectKey d = \<lparr>fnObjectFree = kf, fnObjectEquals = e\<rparr>" "fnObjectFree (ld_objectValue d) = vf"
    using r by (auto simp: ld_rep_def)
  have "length as < 2 ^ 31" using l as(2) by auto
  from ld_step_ok [OF M as(1) this, of op] obtain ok r rel h' d' as' where
    "ld_step M (h, d) op = Some (r, rel, h', d')" "chain h' (ld_head d') as'" "ld_same d d'"
    "dict_spec e kf vf ok op kvs = (r, rel, pairs_of h' as')"
    using o as(2) by auto
  then show ?thesis using M s o ld_same_objects [of d d'] by (auto simp: ld_rep_def)
qed

interpretation winpr_dict: dictionary "ld_rep M e kf vf" "ld_step M" e kf vf "2 ^ 31"
  by unfold_locales (rule ld_rep_step)

section \<open>Properties\<close>

text \<open>Two pairs in the cells 1 and 3, and a cell of some other list at 2.\<close>

definition ld_sample_heap :: heap where
  "ld_sample_heap = [1 \<mapsto> \<lparr>c_key = 10, c_value = 100, c_next = 3\<rparr>, 3 \<mapsto> \<lparr>c_key = 11, c_value = 101, c_next = NULL\<rparr>,
     2 \<mapsto> \<lparr>c_key = 10, c_value = 200, c_next = NULL\<rparr>]"

definition ld_sample :: wListDictionary where
  "ld_sample = \<lparr>ld_synchronized = True, ld_lock = 0, ld_head = 1,
     ld_objectKey = \<lparr>fnObjectFree = False, fnObjectEquals = default_equal_function\<rparr>,
     ld_objectValue = \<lparr>fnObjectFree = True, fnObjectEquals = default_equal_function\<rparr>\<rparr>"

lemma ld_sample_chain:
  "chain ld_sample_heap (ld_head ld_sample) [1, 3]" "pairs_of ld_sample_heap [1, 3] = [(10, 100), (11, 101)]"
  "chain ld_sample_heap 2 [2]" "pairs_of ld_sample_heap [2] = [(10, 200)]"
  by (simp_all add: ld_sample_heap_def ld_sample_def NULL_def key_of_def value_of_def)

lemma ld_sample_rep: "ld_rep (first_free 9) default_equal_function False True (ld_sample_heap, ld_sample) [(10, 100), (11, 101)]"
  unfolding ld_rep_def fst_conv snd_conv
proof (intro conjI)
  show "\<exists>as. chain ld_sample_heap (ld_head ld_sample) as \<and> pairs_of ld_sample_heap as = [(10, 100), (11, 101)]"
    using ld_sample_chain(1,2) by blast
qed (simp_all add: first_free_ok ld_sample_def)

text \<open>
  C15: the list dictionary implements an association list. For every sequence of operations on a
  well-formed list in memory, all loops end, no operation reads or frees memory that is not a
  cell, every result and every object handed to the callbacks is the one of the association
  list, and the list in memory represents the resulting association list.
\<close>

theorem listdictionary_refines:
  assumes "ld_rep M e kf vf s kvs" "length kvs + length ops \<le> 2 ^ 31"
  shows "\<exists>oks rs s' kvs'. length oks = length ops \<and> dict_run (ld_step M) ops s = Some (rs, s') \<and> ld_rep M e kf vf s' kvs' \<and>
    dict_spec_run e kf vf oks ops kvs = (rs, kvs')"
  using assms by (rule winpr_dict.run_refines)

theorem listdictionary_refines_witness:
  "\<exists>oks rs s' kvs'. length oks = length [DAdd 12 102, DRemove 10, DGet 12] \<and>
    dict_run (ld_step (first_free 9)) [DAdd 12 102, DRemove 10, DGet 12] (ld_sample_heap, ld_sample) = Some (rs, s') \<and>
    ld_rep (first_free 9) default_equal_function False True s' kvs' \<and>
    dict_spec_run default_equal_function False True oks [DAdd 12 102, DRemove 10, DGet 12] [(10, 100), (11, 101)] = (rs, kvs')"
  by (rule listdictionary_refines [OF ld_sample_rep]) simp

text \<open>
  C32: an operation on one list dictionary leaves every other list in memory as it is: its links,
  its keys and its values.
\<close>

theorem listdictionary_separate:
  assumes "malloc_ok M" "chain h (ld_head d) as" "length as < 2 ^ 31" "chain h q bs" "set bs \<inter> set as = {}"
    "ld_step M (h, d) op = Some (r, rel, h', d')"
  shows "chain h' q bs \<and> pairs_of h' bs = pairs_of h bs"
proof -
  have "frame h as h'" using ld_step_ok [OF assms(1-3), of op] assms(6) by auto
  then have "\<And>b. b \<in> set bs \<Longrightarrow> h' b = h b"
    using chain_set [OF assms(4)] assms(5) by (fastforce simp: frame_def)
  then show ?thesis using chain_cong [of bs h' h q] pairs_of_cong [of bs h' h] assms(4) by simp
qed

theorem listdictionary_separate_witness:
  "\<exists>h' d'. ld_step (first_free 9) (ld_sample_heap, ld_sample) (DRemove 10) = Some (RPtr 100, [], h', d') \<and>
    chain h' 2 [2] \<and> pairs_of h' [2] = [(10, 200)]"
proof -
  have sp: "dict_spec default_equal_function False True ok (DRemove 10) (pairs_of ld_sample_heap [1, 3]) = (RPtr 100, [], [(11, 101)])" for ok
    unfolding ld_sample_chain(2) by (simp add: assoc_get_def assoc_find_def default_equal_function_def)
  have o: "fnObjectEquals (ld_objectKey ld_sample) = default_equal_function" "fnObjectFree (ld_objectKey ld_sample) = False"
    "fnObjectFree (ld_objectValue ld_sample) = True" by (simp_all add: ld_sample_def)
  obtain h' d' where s: "ld_step (first_free 9) (ld_sample_heap, ld_sample) (DRemove 10) = Some (RPtr 100, [], h', d')"
    using ld_step_ok [OF first_free_ok [of 9] ld_sample_chain(1), of "DRemove 10"] unfolding o sp by auto
  have "chain h' 2 [2] \<and> pairs_of h' [2] = pairs_of ld_sample_heap [2]"
    by (rule listdictionary_separate [OF first_free_ok [of 9] ld_sample_chain(1) _ ld_sample_chain(3) _ s]) simp_all
  then show ?thesis using s unfolding ld_sample_chain(4) by blast
qed

end
