(* ===== verification/HashTable.thy ===== *)
theory HashTable
  imports Chains
begin

text \<open>
  The hash table of WinPR (\<^verbatim>\<open>winpr/libwinpr/utils/collections/HashTable.c\<close>): an array of buckets, each a
  singly linked list of pairs in memory, which is rehashed when the load leaves given bounds.
  The operations are shown to implement a map from keys to values, for every hash function and
  comparison that fit together; the contract is the locale \<open>key_hash\<close>, and the two pairs of functions that
  come with the table satisfy it.

  The load is compared with the thresholds in floating point. These comparisons are parameters:
  for every outcome of them the operations are correct. \<^verbatim>\<open>malloc\<close> of a pair is the parameter
  \<open>M\<close>, \<^verbatim>\<open>calloc\<close> of an array the parameter \<open>A\<close>, and the answers of the callbacks that clone a key or a
  value are arguments.
\<close>

section \<open>Hashing\<close>

unbundle bit_operations_syntax

definition HashTable_PointerCompare :: "ptr \<Rightarrow> ptr \<Rightarrow> bool" where
  "HashTable_PointerCompare pointer1 pointer2 \<longleftrightarrow> pointer1 = pointer2"

definition HashTable_PointerHash :: "ptr \<Rightarrow> u32" where
  "HashTable_PointerHash pointer = drop_bit 4 (of_nat pointer)"

text \<open>A string is the list of its bytes up to the terminating zero; \<open>mem\<close> gives the string at an address.\<close>

definition HashTable_StringCompare :: "(ptr \<Rightarrow> byte list) \<Rightarrow> ptr \<Rightarrow> ptr \<Rightarrow> bool" where
  "HashTable_StringCompare mem string1 string2 =
     (if string1 = NULL \<or> string2 = NULL then string1 = string2 else mem string1 = mem string2)"

fun djb2 :: "u32 \<Rightarrow> byte list \<Rightarrow> u32" where
  "djb2 h [] = h"
| "djb2 h (c # cs) = djb2 (h * 33 + ucast c) cs"

definition HashTable_StringHash :: "(ptr \<Rightarrow> byte list) \<Rightarrow> ptr \<Rightarrow> u32" where
  "HashTable_StringHash mem key = djb2 5381 (mem key)"

section \<open>The table\<close>

text \<open>
  What the code uses of the three ratios: the ideal ratio converted to \<^verbatim>\<open>int\<close>, whether the thresholds are
  active, and whether a number of elements over a number of buckets is above or below them.
\<close>

record ratios =
  rt_ideal :: int
  rt_upper_on :: bool
  rt_above :: "nat \<Rightarrow> nat \<Rightarrow> bool"
  rt_lower_on :: bool
  rt_below :: "nat \<Rightarrow> nat \<Rightarrow> bool"

record wHashTable =
  ht_synchronized :: bool
  ht_lock :: nat
  ht_numOfBuckets :: nat
  ht_numOfElements :: nat
  ht_ratios :: ratios
  ht_bucketArray :: "ptr list"
  ht_hash :: "ptr \<Rightarrow> u32"
  ht_keyCompare :: "ptr \<Rightarrow> ptr \<Rightarrow> bool"
  ht_valueCompare :: "ptr \<Rightarrow> ptr \<Rightarrow> bool"
  ht_keyClone :: bool
  ht_valueClone :: bool
  ht_keyFree :: bool
  ht_valueFree :: bool

function probable_prime_loop :: "nat \<Rightarrow> nat \<Rightarrow> bool" where
  "probable_prime_loop oddNumber i =
     (if i < 51 then
        if oddNumber = i then True
        else if oddNumber mod i = 0 then False
        else probable_prime_loop oddNumber (i + 2)
      else True)"
  by auto

termination by (relation "measure (\<lambda>(_, i). 51 - i)") auto

definition HashTable_IsProbablePrime :: "nat \<Rightarrow> bool" where
  "HashTable_IsProbablePrime oddNumber = probable_prime_loop oddNumber 3"

partial_function (option) next_probable_prime :: "nat \<Rightarrow> nat option" where
  "next_probable_prime n =
     (if HashTable_IsProbablePrime n then Some n
      else do { n \<leftarrow> cint (n + 2); next_probable_prime n })"

text \<open>The quotient of \<^verbatim>\<open>int\<close>s is rounded towards zero.\<close>

definition c_div :: "int \<Rightarrow> int \<Rightarrow> int option" where
  "c_div x y = (if y = 0 then None else Some (sgn x * sgn y * (\<bar>x\<bar> div \<bar>y\<bar>)))"

definition HashTable_CalculateIdealNumOfBuckets :: "wHashTable \<Rightarrow> nat option" where
  "HashTable_CalculateIdealNumOfBuckets t = do {
     idealNumOfBuckets \<leftarrow> c_div (int (ht_numOfElements t)) (rt_ideal (ht_ratios t));
     next_probable_prime (if idealNumOfBuckets < 5 then 5 else nat (idealNumOfBuckets OR 1)) }"

definition bucket_of :: "(ptr \<Rightarrow> u32) \<Rightarrow> nat \<Rightarrow> ptr \<Rightarrow> nat option" where
  "bucket_of hash n key = sz_mod (unat (hash key)) n"

text \<open>The two loops of \<^verbatim>\<open>HashTable_Rehash\<close>: every pair is pushed to the front of its new bucket.\<close>

partial_function (option) rehash_chain :: "(ptr \<Rightarrow> u32) \<Rightarrow> nat \<Rightarrow> heap \<Rightarrow> ptr list \<Rightarrow> ptr \<Rightarrow> (heap \<times> ptr list) option" where
  "rehash_chain hash n h newBucketArray pair =
     (if pair = NULL then Some (h, newBucketArray)
      else do {
        c \<leftarrow> h pair;
        hashValue \<leftarrow> bucket_of hash n (c_key c);
        p \<leftarrow> arr_get newBucketArray hashValue;
        h \<leftarrow> set_next h pair p;
        newBucketArray \<leftarrow> arr_set newBucketArray hashValue pair;
        rehash_chain hash n h newBucketArray (c_next c) })"

fun rehash_buckets :: "(ptr \<Rightarrow> u32) \<Rightarrow> nat \<Rightarrow> heap \<Rightarrow> ptr list \<Rightarrow> ptr list \<Rightarrow> nat \<Rightarrow> nat \<Rightarrow> (heap \<times> ptr list) option" where
  "rehash_buckets hash n h bucketArray newBucketArray index 0 = Some (h, newBucketArray)"
| "rehash_buckets hash n h bucketArray newBucketArray index (Suc k) = do {
     pair \<leftarrow> arr_get bucketArray index;
     (h, newBucketArray) \<leftarrow> rehash_chain hash n h newBucketArray pair;
     rehash_buckets hash n h bucketArray newBucketArray (index + 1) k }"

definition HashTable_Rehash :: "ptr allocator \<Rightarrow> heap \<Rightarrow> wHashTable \<Rightarrow> nat \<Rightarrow> (heap \<times> wHashTable) option" where
  "HashTable_Rehash A h t numOfBuckets = do {
     n \<leftarrow> (if numOfBuckets = 0 then HashTable_CalculateIdealNumOfBuckets t else Some numOfBuckets);
     if n = ht_numOfBuckets t then Some (h, t)
     else if \<not> al_ok A n then Some (h, t)
     else do {
       (h, newBucketArray) \<leftarrow>
         rehash_buckets (ht_hash t) n h (ht_bucketArray t) (replicate n NULL) 0 (ht_numOfBuckets t);
       Some (h, t\<lparr>ht_bucketArray := newBucketArray, ht_numOfBuckets := n\<rparr>) } }"

definition HashTable_SetIdealRatio :: "wHashTable \<Rightarrow> ratios \<Rightarrow> wHashTable" where
  "HashTable_SetIdealRatio t r = t\<lparr>ht_ratios := r\<rparr>"

definition HashTable_Get :: "heap \<Rightarrow> wHashTable \<Rightarrow> ptr \<Rightarrow> ptr option" where
  "HashTable_Get h t key = do {
     hashValue \<leftarrow> bucket_of (ht_hash t) (ht_numOfBuckets t) key;
     pair \<leftarrow> arr_get (ht_bucketArray t) hashValue;
     chain_find (ht_keyCompare t key) h pair }"

definition HashTable_Count :: "wHashTable \<Rightarrow> nat" where
  "HashTable_Count t = ht_numOfElements t"

text \<open>The change of the pair that holds the key already, and the insertion of a new pair.\<close>

definition hashtable_replace :: "heap \<Rightarrow> wHashTable \<Rightarrow> ptr \<Rightarrow> ptr \<Rightarrow> ptr \<Rightarrow> (released list \<times> heap) option" where
  "hashtable_replace h t pair key v = do {
     c \<leftarrow> h pair;
     (fk, h) \<leftarrow> (if c_key c \<noteq> key then do { h \<leftarrow> set_key h pair key; Some (rel_key (ht_keyFree t) (c_key c), h) }
       else Some ([], h));
     (fv, h) \<leftarrow> (if c_value c \<noteq> v then do { h \<leftarrow> set_value h pair v; Some (rel_value (ht_valueFree t) (c_value c), h) }
       else Some ([], h));
     Some (fk @ fv, h) }"

definition hashtable_insert :: "ptr allocator \<Rightarrow> (heap \<Rightarrow> ptr option) \<Rightarrow> heap \<Rightarrow> wHashTable \<Rightarrow> nat \<Rightarrow> ptr \<Rightarrow> ptr \<Rightarrow>
    (int \<times> heap \<times> wHashTable) option" where
  "hashtable_insert A M h t hashValue key v =
     (case M h of
        None \<Rightarrow> Some (-1, h, t)
      | Some newPair \<Rightarrow> do {
          p \<leftarrow> arr_get (ht_bucketArray t) hashValue;
          let h = h(newPair \<mapsto> \<lparr>c_key = key, c_value = v, c_next = p\<rparr>);
          arr \<leftarrow> arr_set (ht_bucketArray t) hashValue newPair;
          n \<leftarrow> cint (ht_numOfElements t + 1);
          let t = t\<lparr>ht_bucketArray := arr, ht_numOfElements := n\<rparr>;
          (h, t) \<leftarrow> (if rt_upper_on (ht_ratios t) \<and> rt_above (ht_ratios t) (ht_numOfElements t) (ht_numOfBuckets t)
            then HashTable_Rehash A h t 0 else Some (h, t));
          Some (0, h, t) })"

text \<open>\<open>ck\<close> and \<open>cv\<close> are the answers of the callbacks that clone the key and the value.\<close>

definition HashTable_Add :: "ptr allocator \<Rightarrow> (heap \<Rightarrow> ptr option) \<Rightarrow> ptr \<Rightarrow> ptr \<Rightarrow> heap \<Rightarrow> wHashTable \<Rightarrow> ptr \<Rightarrow> ptr \<Rightarrow>
    (int \<times> released list \<times> heap \<times> wHashTable) option" where
  "HashTable_Add A M ck cv h t key v =
     (if key = NULL \<or> v = NULL then Some (-1, [], h, t)
      else if ht_keyClone t \<and> ck = NULL then Some (-1, [], h, t)
      else if ht_valueClone t \<and> cv = NULL then Some (-1, [], h, t)
      else do {
        let key = (if ht_keyClone t then ck else key);
        let v = (if ht_valueClone t then cv else v);
        let lk = cs_enter (ht_synchronized t) (ht_lock t);
        hashValue \<leftarrow> bucket_of (ht_hash t) (ht_numOfBuckets t) key;
        first \<leftarrow> arr_get (ht_bucketArray t) hashValue;
        pair \<leftarrow> chain_find (ht_keyCompare t key) h first;
        (status, freed, h, t) \<leftarrow> (if pair \<noteq> NULL then do {
            (freed, h) \<leftarrow> hashtable_replace h t pair key v;
            Some (0, freed, h, t) }
          else do {
            (status, h, t) \<leftarrow> hashtable_insert A M h t hashValue key v;
            Some (status, [], h, t) });
        lk \<leftarrow> cs_leave (ht_synchronized t) lk;
        Some (status, freed, h, t\<lparr>ht_lock := lk\<rparr>) })"

definition HashTable_Remove :: "ptr allocator \<Rightarrow> heap \<Rightarrow> wHashTable \<Rightarrow> ptr \<Rightarrow>
    (bool \<times> released list \<times> heap \<times> wHashTable) option" where
  "HashTable_Remove A h t key = do {
     let lk = cs_enter (ht_synchronized t) (ht_lock t);
     hashValue \<leftarrow> bucket_of (ht_hash t) (ht_numOfBuckets t) key;
     first \<leftarrow> arr_get (ht_bucketArray t) hashValue;
     (previousPair, pair) \<leftarrow> chain_find_prev (ht_keyCompare t key) h NULL first;
     (status, freed, h, t) \<leftarrow> (if pair = NULL then Some (False, [], h, t)
       else do {
         c \<leftarrow> h pair;
         (h, arr) \<leftarrow> (if previousPair \<noteq> NULL then do {
             h \<leftarrow> set_next h previousPair (c_next c);
             Some (h, ht_bucketArray t) }
           else do {
             arr \<leftarrow> arr_set (ht_bucketArray t) hashValue (c_next c);
             Some (h, arr) });
         h \<leftarrow> cell_free h pair;
         let t = t\<lparr>ht_bucketArray := arr, ht_numOfElements := ht_numOfElements t - 1\<rparr>;
         (h, t) \<leftarrow> (if rt_lower_on (ht_ratios t) \<and> rt_below (ht_ratios t) (ht_numOfElements t) (ht_numOfBuckets t)
           then HashTable_Rehash A h t 0 else Some (h, t));
         Some (True, rel_key (ht_keyFree t) (c_key c) @ rel_value (ht_valueFree t) (c_value c), h, t) });
     lk \<leftarrow> cs_leave (ht_synchronized t) lk;
     Some (status, freed, h, t\<lparr>ht_lock := lk\<rparr>) }"

definition HashTable_GetItemValue :: "heap \<Rightarrow> wHashTable \<Rightarrow> ptr \<Rightarrow> (ptr \<times> wHashTable) option" where
  "HashTable_GetItemValue h t key = do {
     let lk = cs_enter (ht_synchronized t) (ht_lock t);
     pair \<leftarrow> HashTable_Get h t key;
     v \<leftarrow> (if pair \<noteq> NULL then do { c \<leftarrow> h pair; Some (c_value c) } else Some NULL);
     lk \<leftarrow> cs_leave (ht_synchronized t) lk;
     Some (v, t\<lparr>ht_lock := lk\<rparr>) }"

definition HashTable_SetItemValue :: "ptr \<Rightarrow> heap \<Rightarrow> wHashTable \<Rightarrow> ptr \<Rightarrow> ptr \<Rightarrow> (bool \<times> heap \<times> wHashTable) option" where
  "HashTable_SetItemValue cv h t key v =
     (if ht_valueClone t \<and> v \<noteq> NULL \<and> cv = NULL then Some (False, h, t)
      else do {
        let v = (if ht_valueClone t \<and> v \<noteq> NULL then cv else v);
        let lk = cs_enter (ht_synchronized t) (ht_lock t);
        pair \<leftarrow> HashTable_Get h t key;
        (status, h) \<leftarrow> (if pair = NULL then Some (False, h)
          else do { h \<leftarrow> set_value h pair v; Some (True, h) });
        lk \<leftarrow> cs_leave (ht_synchronized t) lk;
        Some (status, h, t\<lparr>ht_lock := lk\<rparr>) })"

fun clear_buckets :: "bool \<Rightarrow> bool \<Rightarrow> heap \<Rightarrow> ptr list \<Rightarrow> nat \<Rightarrow> nat \<Rightarrow> (released list \<times> heap \<times> ptr list) option" where
  "clear_buckets kf vf h arr index 0 = Some ([], h, arr)"
| "clear_buckets kf vf h arr index (Suc k) = do {
     pair \<leftarrow> arr_get arr index;
     (freed, h) \<leftarrow> chain_clear kf vf h pair;
     arr \<leftarrow> arr_set arr index NULL;
     (freed', h, arr) \<leftarrow> clear_buckets kf vf h arr (index + 1) k;
     Some (freed @ freed', h, arr) }"

definition HashTable_Clear :: "ptr allocator \<Rightarrow> heap \<Rightarrow> wHashTable \<Rightarrow> (released list \<times> heap \<times> wHashTable) option" where
  "HashTable_Clear A h t = do {
     let lk = cs_enter (ht_synchronized t) (ht_lock t);
     (freed, h, arr) \<leftarrow> clear_buckets (ht_keyFree t) (ht_valueFree t) h (ht_bucketArray t) 0 (ht_numOfBuckets t);
     (h, t) \<leftarrow> HashTable_Rehash A h (t\<lparr>ht_bucketArray := arr, ht_numOfElements := 0\<rparr>) 5;
     lk \<leftarrow> cs_leave (ht_synchronized t) lk;
     Some (freed, h, t\<lparr>ht_lock := lk\<rparr>) }"

fun bucket_keys :: "heap \<Rightarrow> ptr list \<Rightarrow> nat \<Rightarrow> nat \<Rightarrow> ptr list \<Rightarrow> nat \<Rightarrow> (ptr list \<times> nat) option" where
  "bucket_keys h arr index 0 pKeys iKey = Some (pKeys, iKey)"
| "bucket_keys h arr index (Suc k) pKeys iKey = do {
     pair \<leftarrow> arr_get arr index;
     (pKeys, iKey) \<leftarrow> chain_keys h pair pKeys iKey;
     bucket_keys h arr (index + 1) k pKeys iKey }"

definition HashTable_GetKeys :: "ptr allocator \<Rightarrow> heap \<Rightarrow> wHashTable \<Rightarrow> (int \<times> ptr list \<times> wHashTable) option" where
  "HashTable_GetKeys A h t = do {
     let lk = cs_enter (ht_synchronized t) (ht_lock t);
     let cnt = ht_numOfElements t;
     if cnt < 1 then do {
       lk \<leftarrow> cs_leave (ht_synchronized t) lk;
       Some (0, [], t\<lparr>ht_lock := lk\<rparr>) }
     else if \<not> al_ok A cnt then do {
       lk \<leftarrow> cs_leave (ht_synchronized t) lk;
       Some (-1, [], t\<lparr>ht_lock := lk\<rparr>) }
     else do {
       (pKeys, iKey) \<leftarrow> bucket_keys h (ht_bucketArray t) 0 (ht_numOfBuckets t) (replicate cnt 0) 0;
       lk \<leftarrow> cs_leave (ht_synchronized t) lk;
       Some (int cnt, pKeys, t\<lparr>ht_lock := lk\<rparr>) } }"

definition HashTable_Contains :: "heap \<Rightarrow> wHashTable \<Rightarrow> ptr \<Rightarrow> (bool \<times> wHashTable) option" where
  "HashTable_Contains h t key = do {
     let lk = cs_enter (ht_synchronized t) (ht_lock t);
     pair \<leftarrow> HashTable_Get h t key;
     lk \<leftarrow> cs_leave (ht_synchronized t) lk;
     Some (pair \<noteq> NULL, t\<lparr>ht_lock := lk\<rparr>) }"

definition HashTable_ContainsKey :: "heap \<Rightarrow> wHashTable \<Rightarrow> ptr \<Rightarrow> (bool \<times> wHashTable) option" where
  "HashTable_ContainsKey h t key = do {
     let lk = cs_enter (ht_synchronized t) (ht_lock t);
     pair \<leftarrow> HashTable_Get h t key;
     lk \<leftarrow> cs_leave (ht_synchronized t) lk;
     Some (pair \<noteq> NULL, t\<lparr>ht_lock := lk\<rparr>) }"

partial_function (option) chain_has_value :: "(ptr \<Rightarrow> bool) \<Rightarrow> heap \<Rightarrow> ptr \<Rightarrow> bool option" where
  "chain_has_value P h pair =
     (if pair = NULL then Some False
      else do {
        c \<leftarrow> h pair;
        if P (c_value c) then Some True else chain_has_value P h (c_next c) })"

fun buckets_have_value :: "(ptr \<Rightarrow> bool) \<Rightarrow> heap \<Rightarrow> ptr list \<Rightarrow> nat \<Rightarrow> nat \<Rightarrow> bool option" where
  "buckets_have_value P h arr index 0 = Some False"
| "buckets_have_value P h arr index (Suc k) = do {
     pair \<leftarrow> arr_get arr index;
     status \<leftarrow> chain_has_value P h pair;
     if status then Some True else buckets_have_value P h arr (index + 1) k }"

definition HashTable_ContainsValue :: "heap \<Rightarrow> wHashTable \<Rightarrow> ptr \<Rightarrow> (bool \<times> wHashTable) option" where
  "HashTable_ContainsValue h t v = do {
     let lk = cs_enter (ht_synchronized t) (ht_lock t);
     status \<leftarrow> buckets_have_value (ht_valueCompare t v) h (ht_bucketArray t) 0 (ht_numOfBuckets t);
     lk \<leftarrow> cs_leave (ht_synchronized t) lk;
     Some (status, t\<lparr>ht_lock := lk\<rparr>) }"

text \<open>
  \<^verbatim>\<open>HashTable_New\<close>: the ideal ratio is 3, the lower threshold 0 is inactive and the upper threshold 15 is
  active; \<open>abv\<close> and \<open>blw\<close> are the comparisons of the load with them.
\<close>

definition HashTable_New :: "ptr allocator \<Rightarrow> bool \<Rightarrow> (nat \<Rightarrow> nat \<Rightarrow> bool) \<Rightarrow> (nat \<Rightarrow> nat \<Rightarrow> bool) \<Rightarrow> bool \<Rightarrow> wHashTable option" where
  "HashTable_New A struct_ok abv blw sync =
     (if \<not> struct_ok \<or> \<not> al_ok A 64 then None
      else Some \<lparr>ht_synchronized = sync, ht_lock = 0, ht_numOfBuckets = 64, ht_numOfElements = 0,
        ht_ratios = \<lparr>rt_ideal = 3, rt_upper_on = True, rt_above = abv, rt_lower_on = False, rt_below = blw\<rparr>,
        ht_bucketArray = replicate 64 NULL, ht_hash = HashTable_PointerHash, ht_keyCompare = HashTable_PointerCompare,
        ht_valueCompare = HashTable_PointerCompare, ht_keyClone = False, ht_valueClone = False,
        ht_keyFree = False, ht_valueFree = False\<rparr>)"

text \<open>\<^verbatim>\<open>HashTable_Free\<close> frees the pairs bucket by bucket, then the array and the structure.\<close>

definition HashTable_Free :: "heap \<Rightarrow> wHashTable option \<Rightarrow> (released list \<times> heap) option" where
  "HashTable_Free h table = (case table of
       None \<Rightarrow> Some ([], h)
     | Some t \<Rightarrow> do {
         (freed, h, arr) \<leftarrow> clear_buckets (ht_keyFree t) (ht_valueFree t) h (ht_bucketArray t) 0 (ht_numOfBuckets t);
         Some (freed, h) })"

section \<open>The number of buckets\<close>

declare probable_prime_loop.simps [simp del]

lemma mersenne_probable: "HashTable_IsProbablePrime 2147483647"
  by (simp add: HashTable_IsProbablePrime_def probable_prime_loop.simps)

text \<open>The search for a probable prime ends in the range of \<^verbatim>\<open>int\<close>, because the largest \<^verbatim>\<open>int\<close> is one.\<close>

lemma next_probable_prime_ok:
  assumes "odd n" "n < 2 ^ 31"
  shows "\<exists>m. next_probable_prime n = Some m \<and> n \<le> m \<and> m < 2 ^ 31 \<and> HashTable_IsProbablePrime m"
  using assms
proof (induction "2 ^ 31 - n" arbitrary: n rule: less_induct)
  case less
  show ?case
  proof (cases "HashTable_IsProbablePrime n")
    case True
    then show ?thesis using less.prems by (simp add: next_probable_prime.simps)
  next
    case False
    then have "n \<noteq> 2147483647" using mersenne_probable by blast
    moreover have "n \<noteq> 2147483646" using less.prems(1) by (intro notI) simp
    ultimately have n: "n + 2 < 2 ^ 31" using less.prems(2) by simp
    have "(2::nat) ^ 31 - (n + 2) < 2 ^ 31 - n" using n by linarith
    from less.hyps [OF this] n less.prems(1) obtain m where
      "next_probable_prime (n + 2) = Some m" "n + 2 \<le> m" "m < 2 ^ 31" "HashTable_IsProbablePrime m"
      by auto
    then show ?thesis using False n by (auto simp: next_probable_prime.simps [of n] cint_def)
  qed
qed

lemma HashTable_CalculateIdealNumOfBuckets_ok:
  assumes "1 \<le> rt_ideal (ht_ratios t)" "ht_numOfElements t < 2 ^ 31"
  shows "\<exists>m. HashTable_CalculateIdealNumOfBuckets t = Some m \<and> 5 \<le> m \<and> m < 2 ^ 31 \<and> HashTable_IsProbablePrime m"
proof -
  define q where "q = int (ht_numOfElements t) div rt_ideal (ht_ratios t)"
  have d: "c_div (int (ht_numOfElements t)) (rt_ideal (ht_ratios t)) = Some q"
    using assms(1) by (cases "ht_numOfElements t = 0") (simp_all add: c_div_def q_def)
  have "q \<le> int (ht_numOfElements t)" using assms(1) zdiv_mono2 [of "int (ht_numOfElements t)" 1 "rt_ideal (ht_ratios t)"] by (simp add: q_def)
  then have q: "q < 2 ^ 31" using assms(2) by simp
  define n where "n = (if q < 5 then 5 else nat (q OR 1))"
  have "odd n \<and> n < 2 ^ 31 \<and> 5 \<le> n"
  proof (cases "q < 5")
    case True
    then show ?thesis by (simp add: n_def)
  next
    case False
    then have "q OR 1 = q + of_bool (even q)" by (simp add: or_one_eq)
    moreover have "q \<noteq> 2147483647 \<or> odd q" by auto
    ultimately show ?thesis using False q by (auto simp: n_def even_nat_iff)
  qed
  then obtain m where "next_probable_prime n = Some m" "n \<le> m" "m < 2 ^ 31" "HashTable_IsProbablePrime m"
    using next_probable_prime_ok [of n] by blast
  then show ?thesis using d \<open>odd n \<and> n < 2 ^ 31 \<and> 5 \<le> n\<close> by (auto simp: HashTable_CalculateIdealNumOfBuckets_def n_def)
qed

section \<open>Buckets\<close>

text \<open>
  The cells of the table, bucket by bucket: every bucket is a chain whose keys belong there, and
  no cell is in two chains.
\<close>

definition buckets :: "(ptr \<Rightarrow> u32) \<Rightarrow> nat \<Rightarrow> heap \<Rightarrow> ptr list \<Rightarrow> ptr list list \<Rightarrow> bool" where
  "buckets hash n h arr ass \<longleftrightarrow> length arr = n \<and> length ass = n \<and> (\<forall>i < n. chain h (arr ! i) (ass ! i)) \<and>
     (\<forall>i < n. \<forall>a \<in> set (ass ! i). unat (hash (key_of h a)) mod n = i) \<and> distinct (concat ass)"

lemma bucketsD:
  assumes "buckets hash n h arr ass"
  shows "length arr = n" "length ass = n" "i < n \<Longrightarrow> chain h (arr ! i) (ass ! i)"
    "i < n \<Longrightarrow> a \<in> set (ass ! i) \<Longrightarrow> unat (hash (key_of h a)) mod n = i" "distinct (concat ass)"
  using assms by (auto simp: buckets_def)

lemma in_concat_nth: "a \<in> set (concat ass) \<longleftrightarrow> (\<exists>i < length ass. a \<in> set (ass ! i))"
  by (simp add: set_conv_nth [of ass]) blast

text \<open>The bucket of a cell is the one its key hashes to.\<close>

lemma buckets_place:
  assumes "buckets hash n h arr ass" "a \<in> set (concat ass)"
  shows "a \<in> set (ass ! (unat (hash (key_of h a)) mod n))" "0 < n"
  using assms bucketsD [OF assms(1)] unfolding in_concat_nth by force+

lemma mset_concat_update:
  "i < length xss \<Longrightarrow> mset (concat (xss[i := ys])) + mset (xss ! i) = mset (concat xss) + mset ys"
proof (induction xss arbitrary: i)
  case (Cons xs xss)
  then show ?case by (cases i) (auto simp: ac_simps)
qed simp

lemma mset_concat_push: "i < length xss \<Longrightarrow> mset (concat (xss[i := a # xss ! i])) = add_mset a (mset (concat xss))"
  using mset_concat_update [of i xss "a # xss ! i"] by simp

text \<open>Pushing a cell that is in no chain to the front of its bucket.\<close>

lemma buckets_push:
  assumes b: "buckets hash n h arr ass" and a: "a \<notin> set (concat ass)" "a \<noteq> NULL"
    and i: "i = unat (hash (c_key c)) mod n" "i < n" and c: "c_next c = arr ! i"
  shows "buckets hash n (h(a \<mapsto> c)) (arr[i := a]) (ass[i := a # ass ! i])"
    "mset (concat (ass[i := a # ass ! i])) = add_mset a (mset (concat ass))"
proof -
  note d = bucketsD [OF b]
  show m: "mset (concat (ass[i := a # ass ! i])) = add_mset a (mset (concat ass))"
    using mset_concat_push i(2) d(2) by metis
  then have "mset (concat (ass[i := a # ass ! i])) = mset (a # concat ass)" by simp
  then have "distinct (concat (ass[i := a # ass ! i]))" using a(1) d(5) mset_eq_imp_distinct_iff by (metis distinct.simps(2))
  moreover have na: "\<And>j. j < n \<Longrightarrow> a \<notin> set (ass ! j)" using a(1) d(2) unfolding in_concat_nth by blast
  moreover have "\<And>j. j < n \<Longrightarrow> chain (h(a \<mapsto> c)) (arr[i := a] ! j) (ass[i := a # ass ! i] ! j)"
    using d(1-3) na a(2) c i(2) by (auto simp: nth_list_update)
  moreover have "\<And>j b. j < n \<Longrightarrow> b \<in> set (ass[i := a # ass ! i] ! j) \<Longrightarrow> unat (hash (key_of (h(a \<mapsto> c)) b)) mod n = j"
    using d(2,4) na i by (auto simp: nth_list_update key_of_def split: if_splits)
  ultimately show "buckets hash n (h(a \<mapsto> c)) (arr[i := a]) (ass[i := a # ass ! i])"
    using d(1,2) by (auto simp: buckets_def)
qed

lemma buckets_cong:
  assumes "\<And>a. a \<in> set (concat ass) \<Longrightarrow> h' a = h a" "buckets hash n h arr ass"
  shows "buckets hash n h' arr ass"
proof -
  note d = bucketsD [OF assms(2)]
  have s: "\<And>i a. i < n \<Longrightarrow> a \<in> set (ass ! i) \<Longrightarrow> h' a = h a"
    using assms(1) d(2) unfolding in_concat_nth by blast
  have "\<And>i. i < n \<Longrightarrow> chain h' (arr ! i) (ass ! i)" using d(3) chain_cong s by metis
  moreover have "\<And>i a. i < n \<Longrightarrow> a \<in> set (ass ! i) \<Longrightarrow> unat (hash (key_of h' a)) mod n = i"
    using d(4) s by (simp add: key_of_def)
  ultimately show ?thesis using d(1,2,5) by (simp add: buckets_def)
qed

section \<open>Rehashing\<close>

lemma rehash_chain_ok:
  assumes "chain h p as" "buckets hash n h arr ass" "set as \<inter> set (concat ass) = {}" "0 < n"
  shows "\<exists>h' arr' ass'. rehash_chain hash n h arr p = Some (h', arr') \<and> buckets hash n h' arr' ass' \<and>
    mset (concat ass') = mset as + mset (concat ass) \<and> (\<forall>b. b \<notin> set as \<longrightarrow> h' b = h b) \<and>
    (\<forall>b. key_of h' b = key_of h b \<and> value_of h' b = value_of h b)"
  using assms
proof (induction as arbitrary: h p arr ass)
  case Nil
  then show ?case by (auto simp: rehash_chain.simps)
next
  case (Cons a as)
  then obtain c where c: "p = a" "a \<noteq> NULL" "h a = Some c" "chain h (c_next c) as" by auto
  let ?i = "unat (hash (c_key c)) mod n"
  let ?c = "c\<lparr>c_next := arr ! ?i\<rparr>"
  let ?h = "h(a \<mapsto> ?c)" and ?arr = "arr[?i := a]" and ?ass = "ass[?i := a # ass ! ?i]"
  have i: "?i < n" "length arr = n" using Cons.prems(4) bucketsD(1) [OF Cons.prems(2)] by simp_all
  have a: "a \<notin> set (concat ass)" "a \<notin> set as" using Cons.prems(3) chain_distinct [OF Cons.prems(1)] by auto
  note push = buckets_push [OF Cons.prems(2) a(1) c(2), of ?i ?c]
  have b: "buckets hash n ?h ?arr ?ass" and m: "mset (concat ?ass) = add_mset a (mset (concat ass))"
    using push i(1) by simp_all
  have "set (concat ?ass) = insert a (set (concat ass))" using m by (metis set_mset_add_mset_insert set_mset_mset)
  then have dis: "set as \<inter> set (concat ?ass) = {}" using Cons.prems(3) a(2) by auto
  have ch: "chain ?h (c_next c) as" using c(4) a(2) by simp
  obtain h' arr' ass' where r: "rehash_chain hash n ?h ?arr (c_next c) = Some (h', arr')" "buckets hash n h' arr' ass'"
      "mset (concat ass') = mset as + mset (concat ?ass)" "\<forall>b. b \<notin> set as \<longrightarrow> h' b = ?h b"
      "\<forall>b. key_of h' b = key_of ?h b \<and> value_of h' b = value_of ?h b"
    using Cons.IH [OF ch b dis Cons.prems(4)] by blast
  have "rehash_chain hash n h arr p = Some (h', arr')"
    using r(1) c i by (simp add: rehash_chain.simps [of hash n h arr a] bucket_of_def sz_mod_def arr_get_def arr_set_def
        set_next_def Cons.prems(4))
  moreover have "mset (concat ass') = mset (a # as) + mset (concat ass)" using r(3) m by simp
  moreover have "\<forall>b. b \<notin> set (a # as) \<longrightarrow> h' b = h b" using r(4) by simp
  moreover have "\<forall>b. key_of h' b = key_of h b \<and> value_of h' b = value_of h b" using r(5) c(3) by simp
  ultimately show ?case using r(2) by blast
qed

lemma rehash_buckets_ok:
  assumes "length old = length oss" "i + k = length oss" "\<forall>j < length oss. i \<le> j \<longrightarrow> chain h (old ! j) (oss ! j)"
    "distinct (concat (drop i oss))" "buckets hash n h arr ass" "set (concat (drop i oss)) \<inter> set (concat ass) = {}" "0 < n"
  shows "\<exists>h' arr' ass'. rehash_buckets hash n h old arr i k = Some (h', arr') \<and> buckets hash n h' arr' ass' \<and>
    mset (concat ass') = mset (concat (drop i oss)) + mset (concat ass) \<and>
    (\<forall>b. b \<notin> set (concat (drop i oss)) \<longrightarrow> h' b = h b) \<and> (\<forall>b. key_of h' b = key_of h b \<and> value_of h' b = value_of h b)"
  using assms
proof (induction k arbitrary: h arr ass i)
  case 0
  then show ?case by auto
next
  case (Suc k)
  have i: "i < length oss" "arr_get old i = Some (old ! i)" using Suc.prems(1,2) by (simp_all add: arr_get_def)
  have dr: "concat (drop i oss) = oss ! i @ concat (drop (i + 1) oss)" using i(1) by (simp add: Cons_nth_drop_Suc [symmetric])
  have dis: "set (oss ! i) \<inter> set (concat (drop (i + 1) oss)) = {}" "distinct (concat (drop (i + 1) oss))"
    using Suc.prems(4) unfolding dr by auto
  have ch: "chain h (old ! i) (oss ! i)" using Suc.prems(3) i(1) by simp
  have "set (oss ! i) \<inter> set (concat ass) = {}" using Suc.prems(6) unfolding dr by auto
  from rehash_chain_ok [OF ch Suc.prems(5) this Suc.prems(7)] obtain h1 arr1 ass1 where
    r1: "rehash_chain hash n h arr (old ! i) = Some (h1, arr1)" "buckets hash n h1 arr1 ass1"
      "mset (concat ass1) = mset (oss ! i) + mset (concat ass)" "\<forall>b. b \<notin> set (oss ! i) \<longrightarrow> h1 b = h b"
      "\<forall>b. key_of h1 b = key_of h b \<and> value_of h1 b = value_of h b"
    by blast
  have "\<forall>j < length oss. i + 1 \<le> j \<longrightarrow> chain h1 (old ! j) (oss ! j)"
  proof (intro allI impI)
    fix j assume j: "j < length oss" "i + 1 \<le> j"
    have "oss ! j \<in> set (drop (i + 1) oss)"
      using j by (auto simp: in_set_conv_nth intro!: exI [of _ "j - (i + 1)"])
    then have "\<And>a. a \<in> set (oss ! j) \<Longrightarrow> h1 a = h a" using dis(1) r1(4) by auto
    then show "chain h1 (old ! j) (oss ! j)" using Suc.prems(3) j chain_cong [of "oss ! j" h1 h] by simp
  qed
  moreover have "set (concat ass1) = set (oss ! i) \<union> set (concat ass)" using r1(3) by (metis set_mset_mset set_mset_union)
  then have "set (concat (drop (i + 1) oss)) \<inter> set (concat ass1) = {}" using dis(1) Suc.prems(6) unfolding dr by auto
  ultimately obtain h' arr' ass' where r: "rehash_buckets hash n h1 old arr1 (i + 1) k = Some (h', arr')"
      "buckets hash n h' arr' ass'" "mset (concat ass') = mset (concat (drop (i + 1) oss)) + mset (concat ass1)"
      "\<forall>b. b \<notin> set (concat (drop (i + 1) oss)) \<longrightarrow> h' b = h1 b" "\<forall>b. key_of h' b = key_of h1 b \<and> value_of h' b = value_of h1 b"
    using Suc.IH [of "i + 1" h1 arr1 ass1] Suc.prems(1,2,7) dis(2) r1(2) by auto
  have "rehash_buckets hash n h old arr i (Suc k) = Some (h', arr')" using i(2) r1(1) r(1) by simp
  moreover have "mset (concat ass') = mset (concat (drop i oss)) + mset (concat ass)" using r(3) r1(3) unfolding dr by simp
  moreover have "\<forall>b. b \<notin> set (concat (drop i oss)) \<longrightarrow> h' b = h b" using r(4) r1(4) unfolding dr by simp
  ultimately show ?case using r(2,5) r1(5) by metis
qed

section \<open>The invariant\<close>

text \<open>
  \<open>ass\<close> are the cells of the table, bucket by bucket. No two cells have equal keys, and the counter
  is the number of cells. The ideal ratio is at least 1.
\<close>

definition ht_cells :: "heap \<Rightarrow> wHashTable \<Rightarrow> ptr list list \<Rightarrow> bool" where
  "ht_cells h t ass \<longleftrightarrow> buckets (ht_hash t) (ht_numOfBuckets t) h (ht_bucketArray t) ass \<and> 0 < ht_numOfBuckets t \<and>
     ht_numOfBuckets t < 2 ^ 31 \<and> ht_numOfElements t = length (concat ass) \<and> ht_numOfElements t < 2 ^ 31 \<and>
     1 \<le> rt_ideal (ht_ratios t)"

definition ht_unique :: "(ptr \<Rightarrow> ptr \<Rightarrow> bool) \<Rightarrow> heap \<Rightarrow> ptr list \<Rightarrow> bool" where
  "ht_unique cmp h as \<longleftrightarrow> (\<forall>a \<in> set as. \<forall>b \<in> set as. cmp (key_of h a) (key_of h b) \<longrightarrow> a = b)"

definition ht_same :: "wHashTable \<Rightarrow> wHashTable \<Rightarrow> bool" where
  "ht_same t t' \<longleftrightarrow> ht_hash t' = ht_hash t \<and> ht_keyCompare t' = ht_keyCompare t \<and> ht_valueCompare t' = ht_valueCompare t \<and>
     ht_ratios t' = ht_ratios t \<and> ht_lock t' = ht_lock t \<and> ht_synchronized t' = ht_synchronized t \<and>
     ht_keyClone t' = ht_keyClone t \<and> ht_valueClone t' = ht_valueClone t \<and> ht_keyFree t' = ht_keyFree t \<and>
     ht_valueFree t' = ht_valueFree t"

text \<open>The set of pairs of the table.\<close>

definition ht_pairs :: "heap \<Rightarrow> ptr list list \<Rightarrow> (ptr \<times> ptr) set" where
  "ht_pairs h ass = set (pairs_of h (concat ass))"

lemma ht_pairs_iff: "(k, v) \<in> ht_pairs h ass \<longleftrightarrow> (\<exists>a \<in> set (concat ass). k = key_of h a \<and> v = value_of h a)"
  by (auto simp: ht_pairs_def pairs_of_def)

lemma ht_same_simps:
  assumes "ht_same t t'"
  shows "ht_hash t' = ht_hash t" "ht_keyCompare t' = ht_keyCompare t" "ht_ratios t' = ht_ratios t" "ht_lock t' = ht_lock t"
    "ht_synchronized t' = ht_synchronized t" "ht_keyClone t' = ht_keyClone t" "ht_valueClone t' = ht_valueClone t"
    "ht_keyFree t' = ht_keyFree t" "ht_valueFree t' = ht_valueFree t"
  using assms by (simp_all add: ht_same_def)

lemma HashTable_Rehash_ok:
  assumes inv: "ht_cells h t ass" and n: "n = 0 \<or> 5 \<le> n \<and> n < 2 ^ 31"
  shows "\<exists>h' t' ass'. HashTable_Rehash A h t n = Some (h', t') \<and> ht_cells h' t' ass' \<and> mset (concat ass') = mset (concat ass) \<and>
    (\<forall>b. b \<notin> set (concat ass) \<longrightarrow> h' b = h b) \<and> (\<forall>b. key_of h' b = key_of h b \<and> value_of h' b = value_of h b) \<and> ht_same t t' \<and>
    ht_numOfElements t' = ht_numOfElements t"
proof -
  have b: "buckets (ht_hash t) (ht_numOfBuckets t) h (ht_bucketArray t) ass" and
    el: "ht_numOfElements t < 2 ^ 31" "1 \<le> rt_ideal (ht_ratios t)" "ht_numOfElements t = length (concat ass)"
    using inv by (simp_all add: ht_cells_def)
  note d = bucketsD [OF b]
  obtain m where m: "(if n = 0 then HashTable_CalculateIdealNumOfBuckets t else Some n) = Some m" "5 \<le> m" "m < 2 ^ 31"
    using HashTable_CalculateIdealNumOfBuckets_ok [OF el(2,1)] n by (cases "n = 0") auto
  show ?thesis
  proof (cases "m = ht_numOfBuckets t \<or> \<not> al_ok A m")
    case True
    then have "HashTable_Rehash A h t n = Some (h, t)" using m(1) by (auto simp: HashTable_Rehash_def)
    then show ?thesis using inv by (auto simp: ht_same_def)
  next
    case False
    have em: "buckets (ht_hash t) m h (replicate m NULL) (replicate m [])" using m(2) by (simp add: buckets_def)
    have "\<exists>h' arr' ass'. rehash_buckets (ht_hash t) m h (ht_bucketArray t) (replicate m NULL) 0 (ht_numOfBuckets t) = Some (h', arr') \<and>
      buckets (ht_hash t) m h' arr' ass' \<and> mset (concat ass') = mset (concat (drop 0 ass)) + mset (concat (replicate m [])) \<and>
      (\<forall>b. b \<notin> set (concat (drop 0 ass)) \<longrightarrow> h' b = h b) \<and> (\<forall>b. key_of h' b = key_of h b \<and> value_of h' b = value_of h b)"
      using d m(2) by (intro rehash_buckets_ok em) auto
    then obtain h' arr' ass' where
      r: "rehash_buckets (ht_hash t) m h (ht_bucketArray t) (replicate m NULL) 0 (ht_numOfBuckets t) = Some (h', arr')"
      "buckets (ht_hash t) m h' arr' ass'" "mset (concat ass') = mset (concat ass)"
      "\<forall>b. b \<notin> set (concat ass) \<longrightarrow> h' b = h b" "\<forall>b. key_of h' b = key_of h b \<and> value_of h' b = value_of h b"
      by auto
    let ?t = "t\<lparr>ht_bucketArray := arr', ht_numOfBuckets := m\<rparr>"
    have "HashTable_Rehash A h t n = Some (h', ?t)" using m(1) False r(1) by (simp add: HashTable_Rehash_def)
    moreover have "length (concat ass') = length (concat ass)" using r(3) by (metis size_mset)
    then have "ht_cells h' ?t ass'" using r(2) m(2,3) el unfolding ht_cells_def by simp
    moreover have "ht_same t ?t" by (simp add: ht_same_def)
    ultimately show ?thesis using r(3-5)
      by (intro exI [of _ h'] exI [of _ ?t] exI [of _ ass']) simp
  qed
qed

lemma ht_pairs_mset:
  assumes "mset (concat ass') = mset (concat ass)" "\<forall>b. key_of h' b = key_of h b \<and> value_of h' b = value_of h b"
  shows "ht_pairs h' ass' = ht_pairs h ass" "ht_unique cmp h' (concat ass') = ht_unique cmp h (concat ass)"
proof -
  have "set (concat ass') = set (concat ass)" using assms(1) by (rule mset_eq_setD)
  then show "ht_pairs h' ass' = ht_pairs h ass" "ht_unique cmp h' (concat ass') = ht_unique cmp h (concat ass)"
    using assms(2) unfolding ht_pairs_def pairs_of_def ht_unique_def by simp_all
qed

section \<open>Looking up a key\<close>

text \<open>What a table needs of its hash function and its comparison of keys.\<close>

locale key_hash =
  fixes hash :: "ptr \<Rightarrow> u32"
    and cmp :: "ptr \<Rightarrow> ptr \<Rightarrow> bool"
  assumes cmp_refl: "cmp k k"
    and cmp_sym: "cmp k l \<Longrightarrow> cmp l k"
    and cmp_trans: "cmp k l \<Longrightarrow> cmp l m \<Longrightarrow> cmp k m"
    and cmp_hash: "cmp k l \<Longrightarrow> hash k = hash l"
begin

text \<open>A cell whose key is equal to a given key is in the bucket of that key.\<close>

lemma cell_in_bucket:
  assumes "buckets hash n h arr ass" "a \<in> set (concat ass)" "cmp key (key_of h a)"
  shows "a \<in> set (ass ! (unat (hash key) mod n))"
  using buckets_place(1) [OF assms(1,2)] cmp_hash [OF assms(3)] by simp

lemma find_in_bucket:
  assumes b: "buckets hash n h arr ass" and n: "0 < n"
  shows "\<exists>p. chain_find (cmp key) h (arr ! (unat (hash key) mod n)) = Some p \<and>
    (if p = NULL then \<forall>a \<in> set (concat ass). \<not> cmp key (key_of h a)
     else p \<in> set (ass ! (unat (hash key) mod n)) \<and> cmp key (key_of h p))"
proof -
  let ?i = "unat (hash key) mod n"
  have i: "?i < n" using n by simp
  note ch = bucketsD(3) [OF b i]
  show ?thesis
  proof (cases rule: chain_split [of "ass ! ?i" "cmp key" h])
    case none
    then have "\<forall>a \<in> set (concat ass). \<not> cmp key (key_of h a)" using cell_in_bucket [OF b] by blast
    then show ?thesis using chain_find_eq [OF ch, of "cmp key"] none(2) by simp
  next
    case (some us a vs)
    have "a \<noteq> NULL" "a \<in> set (ass ! ?i)" using chain_append [OF ch [unfolded some(1)]] some(1) by auto
    then show ?thesis using chain_find_eq [OF ch, of "cmp key"] some(3,4) by simp
  qed
qed

end

text \<open>Both pairs of functions that come with the table are of this kind.\<close>

interpretation pointer_keys: key_hash HashTable_PointerHash HashTable_PointerCompare
  by unfold_locales (simp_all add: HashTable_PointerCompare_def)

interpretation string_keys: key_hash "HashTable_StringHash mem" "HashTable_StringCompare mem"
  by unfold_locales (auto simp: HashTable_StringCompare_def HashTable_StringHash_def split: if_splits)

text \<open>
  The full invariant, and the lookup it makes meaningful: the value of the pair with an equal key.
\<close>

definition ht_inv :: "heap \<Rightarrow> wHashTable \<Rightarrow> ptr list list \<Rightarrow> bool" where
  "ht_inv h t ass \<longleftrightarrow> ht_cells h t ass \<and> ht_unique (ht_keyCompare t) h (concat ass) \<and> key_hash (ht_hash t) (ht_keyCompare t)"

definition ht_lookup :: "heap \<Rightarrow> wHashTable \<Rightarrow> ptr \<Rightarrow> ptr option" where
  "ht_lookup h t key = do {
     p \<leftarrow> HashTable_Get h t key;
     if p = NULL then None else do { c \<leftarrow> h p; Some (c_value c) } }"

lemma ht_invD:
  assumes "ht_inv h t ass"
  shows "ht_cells h t ass" "buckets (ht_hash t) (ht_numOfBuckets t) h (ht_bucketArray t) ass" "0 < ht_numOfBuckets t"
    "ht_numOfElements t = length (concat ass)" "ht_unique (ht_keyCompare t) h (concat ass)"
    "key_hash (ht_hash t) (ht_keyCompare t)" "length (ht_bucketArray t) = ht_numOfBuckets t"
  using assms by (auto simp: ht_inv_def ht_cells_def buckets_def)

lemma ht_bucket:
  fixes key :: ptr
  assumes "ht_inv h t ass"
  defines "i \<equiv> unat (ht_hash t key) mod ht_numOfBuckets t"
  shows "bucket_of (ht_hash t) (ht_numOfBuckets t) key = Some i" "i < ht_numOfBuckets t"
    "arr_get (ht_bucketArray t) i = Some (ht_bucketArray t ! i)"
  using ht_invD(3,7) [OF assms(1)] by (simp_all add: bucket_of_def sz_mod_def arr_get_def i_def)

lemma in_bucket_concat: "i < length ass \<Longrightarrow> a \<in> set (ass ! i) \<Longrightarrow> a \<in> set (concat ass)"
  unfolding in_concat_nth by blast

lemma ht_cell_alloc:
  assumes inv: "ht_inv h t ass" and a: "a \<in> set (concat ass)"
  shows "\<exists>c. h a = Some c \<and> a \<noteq> NULL \<and> c_key c = key_of h a \<and> c_value c = value_of h a"
proof -
  note b = ht_invD(2) [OF inv]
  let ?i = "unat (ht_hash t (key_of h a)) mod ht_numOfBuckets t"
  have "chain h (ht_bucketArray t ! ?i) (ass ! ?i)" using bucketsD(3) [OF b] ht_invD(3) [OF inv] by simp
  from chain_set [OF this buckets_place(1) [OF b a]] obtain c where "h a = Some c" "a \<noteq> NULL" by blast
  then show ?thesis by (simp add: key_of_def value_of_def)
qed

lemma HashTable_Get_ok:
  assumes inv: "ht_inv h t ass"
  shows "\<exists>p. HashTable_Get h t key = Some p \<and>
    (if p = NULL then \<forall>a \<in> set (concat ass). \<not> ht_keyCompare t key (key_of h a)
     else p \<in> set (concat ass) \<and> ht_keyCompare t key (key_of h p))"
proof -
  note d = ht_invD [OF inv]
  from key_hash.find_in_bucket [OF d(6,2,3), of key] obtain p where
    p: "chain_find (ht_keyCompare t key) h (ht_bucketArray t ! (unat (ht_hash t key) mod ht_numOfBuckets t)) = Some p"
      "if p = NULL then \<forall>a \<in> set (concat ass). \<not> ht_keyCompare t key (key_of h a)
       else p \<in> set (ass ! (unat (ht_hash t key) mod ht_numOfBuckets t)) \<and> ht_keyCompare t key (key_of h p)"
    by blast
  have "HashTable_Get h t key = Some p" using p(1) ht_bucket [OF inv, of key] by (simp add: HashTable_Get_def)
  moreover have "p \<noteq> NULL \<Longrightarrow> p \<in> set (concat ass)"
    using p(2) in_bucket_concat [of "unat (ht_hash t key) mod ht_numOfBuckets t" ass p] bucketsD(2) [OF d(2)] d(3) by simp
  ultimately show ?thesis using p(2) by (auto split: if_splits)
qed

text \<open>The lookup in terms of the pairs of the table.\<close>

lemma ht_lookup_iff:
  assumes inv: "ht_inv h t ass"
  shows "ht_lookup h t key = Some v \<longleftrightarrow> (\<exists>k. (k, v) \<in> ht_pairs h ass \<and> ht_keyCompare t key k)"
proof -
  from HashTable_Get_ok [OF inv, of key] obtain p where p: "HashTable_Get h t key = Some p"
      "if p = NULL then \<forall>a \<in> set (concat ass). \<not> ht_keyCompare t key (key_of h a)
       else p \<in> set (concat ass) \<and> ht_keyCompare t key (key_of h p)"
    by blast
  show ?thesis
  proof (cases "p = NULL")
    case True
    then show ?thesis using p by (auto simp: ht_lookup_def ht_pairs_iff)
  next
    case False
    then obtain c where c: "h p = Some c" "c_key c = key_of h p" "c_value c = value_of h p" "p \<in> set (concat ass)"
        "ht_keyCompare t key (key_of h p)"
      using p(2) ht_cell_alloc [OF inv, of p] by auto
    have "a = p" if "a \<in> set (concat ass)" "ht_keyCompare t key (key_of h a)" for a
    proof -
      note kh = ht_invD(6) [OF inv]
      have "ht_keyCompare t (key_of h a) (key_of h p)"
        using key_hash.cmp_trans [OF kh key_hash.cmp_sym [OF kh that(2)] c(5)] .
      then show ?thesis using that(1) c(4) ht_invD(5) [OF inv] unfolding ht_unique_def by blast
    qed
    note only = this
    have "ht_lookup h t key = Some (value_of h p)" using p(1) False c(1,3) by (simp add: ht_lookup_def)
    moreover have "(\<exists>k. (k, v) \<in> ht_pairs h ass \<and> ht_keyCompare t key k) \<longleftrightarrow> v = value_of h p"
      using only c(4,5) unfolding ht_pairs_iff by blast
    ultimately show ?thesis by auto
  qed
qed

lemma ht_lookup_None:
  assumes inv: "ht_inv h t ass"
  shows "ht_lookup h t key = None \<longleftrightarrow> (\<forall>k v. (k, v) \<in> ht_pairs h ass \<longrightarrow> \<not> ht_keyCompare t key k)"
proof (cases "ht_lookup h t key")
  case None
  then show ?thesis using ht_lookup_iff [OF inv, of key] by auto
next
  case (Some v)
  then show ?thesis using ht_lookup_iff [OF inv, of key v] by auto
qed

lemma HashTable_GetItemValue_ok:
  assumes inv: "ht_inv h t ass"
  shows "HashTable_GetItemValue h t key = Some (case ht_lookup h t key of None \<Rightarrow> NULL | Some v \<Rightarrow> v, t)"
proof -
  from HashTable_Get_ok [OF inv, of key] obtain p where p: "HashTable_Get h t key = Some p" "p \<noteq> NULL \<Longrightarrow> p \<in> set (concat ass)"
    by (auto split: if_splits)
  show ?thesis
  proof (cases "p = NULL")
    case True
    then show ?thesis using p(1) by (simp add: HashTable_GetItemValue_def ht_lookup_def)
  next
    case False
    then obtain c where "h p = Some c" using p(2) ht_cell_alloc [OF inv, of p] by auto
    then show ?thesis using p(1) False by (simp add: HashTable_GetItemValue_def ht_lookup_def)
  qed
qed

section \<open>Adding a pair\<close>

lemma hashtable_replace_eq:
  assumes c: "h p = Some c"
  shows "\<exists>freed. hashtable_replace h t p key v = Some (freed, h(p \<mapsto> c\<lparr>c_key := key, c_value := v\<rparr>))"
proof -
  have "c\<lparr>c_key := c_key c\<rparr> = c" "c\<lparr>c_value := c_value c\<rparr> = c" "h(p \<mapsto> c) = h"
    using c by (simp_all add: fun_upd_idem)
  then show ?thesis using c by (auto simp: hashtable_replace_def set_key_def set_value_def)
qed

text \<open>Changing key and value of a cell to an equal key and any value.\<close>

lemma ht_inv_replace:
  fixes v :: ptr
  assumes inv: "ht_inv h t ass" and p: "p \<in> set (concat ass)" "h p = Some c" and k: "ht_keyCompare t key (key_of h p)"
  defines "h' \<equiv> h(p \<mapsto> c\<lparr>c_key := key, c_value := v\<rparr>)"
  shows "ht_inv h' t ass" "ht_pairs h' ass = {kv \<in> ht_pairs h ass. \<not> ht_keyCompare t key (fst kv)} \<union> {(key, v)}"
proof -
  note d = ht_invD [OF inv] and b = bucketsD [OF ht_invD(2) [OF inv]]
  let ?cmp = "ht_keyCompare t"
  have kv: "key_of h' a = (if a = p then key else key_of h a)" "value_of h' a = (if a = p then v else value_of h a)" for a
    by (simp_all add: h'_def key_of_def value_of_def)
  have only: "a = p" if "a \<in> set (concat ass)" "?cmp key (key_of h a)" for a
  proof -
    have "?cmp (key_of h a) (key_of h p)"
      using key_hash.cmp_trans [OF d(6) key_hash.cmp_sym [OF d(6) that(2)] k] .
    then show ?thesis using that(1) p(1) d(5) unfolding ht_unique_def by blast
  qed
  have "buckets (ht_hash t) (ht_numOfBuckets t) h' (ht_bucketArray t) ass"
    unfolding buckets_def
  proof (intro conjI allI impI ballI)
    fix i assume "i < ht_numOfBuckets t"
    then show "chain h' (ht_bucketArray t ! i) (ass ! i)" using b(3) p(2) by (simp add: h'_def chain_same_next)
  next
    fix i a assume "i < ht_numOfBuckets t" "a \<in> set (ass ! i)"
    then show "unat (ht_hash t (key_of h' a)) mod ht_numOfBuckets t = i"
      using b(4) key_hash.cmp_hash [OF d(6) k] by (auto simp: kv)
  qed (use b in auto)
  moreover have "ht_unique ?cmp h' (concat ass)"
    unfolding ht_unique_def
  proof (intro ballI impI)
    fix x y assume x: "x \<in> set (concat ass)" and y: "y \<in> set (concat ass)" and e: "?cmp (key_of h' x) (key_of h' y)"
    consider "x = p" "y = p" | "x = p" "y \<noteq> p" | "x \<noteq> p" "y = p" | "x \<noteq> p" "y \<noteq> p" by blast
    then show "x = y"
    proof cases
      case 2
      then have "?cmp key (key_of h y)" using e by (simp add: kv)
      then show ?thesis using only y 2 by blast
    next
      case 3
      then have "?cmp (key_of h x) key" using e by (simp add: kv)
      then show ?thesis using only x 3 key_hash.cmp_sym [OF d(6)] by blast
    next
      case 4
      then have "?cmp (key_of h x) (key_of h y)" using e by (simp add: kv)
      then show ?thesis using d(5) x y unfolding ht_unique_def by blast
    qed simp
  qed
  ultimately show "ht_inv h' t ass" using inv by (simp add: ht_inv_def ht_cells_def)
  show "ht_pairs h' ass = {kv \<in> ht_pairs h ass. \<not> ?cmp key (fst kv)} \<union> {(key, v)}"
  proof (rule set_eqI)
    fix x :: "ptr \<times> ptr"
    obtain k' v' where x: "x = (k', v')" by fastforce
    have "(k', v') \<in> ht_pairs h' ass \<longleftrightarrow> (k', v') = (key, v) \<or> (\<exists>a \<in> set (concat ass). a \<noteq> p \<and> k' = key_of h a \<and> v' = value_of h a)"
      unfolding ht_pairs_iff kv using p(1) by auto
    moreover have "(\<exists>a \<in> set (concat ass). a \<noteq> p \<and> k' = key_of h a \<and> v' = value_of h a) \<longleftrightarrow>
        (k', v') \<in> ht_pairs h ass \<and> \<not> ?cmp key k'"
    proof
      assume "\<exists>a \<in> set (concat ass). a \<noteq> p \<and> k' = key_of h a \<and> v' = value_of h a"
      then show "(k', v') \<in> ht_pairs h ass \<and> \<not> ?cmp key k'" unfolding ht_pairs_iff using only by blast
    next
      assume "(k', v') \<in> ht_pairs h ass \<and> \<not> ?cmp key k'"
      then obtain a where "a \<in> set (concat ass)" "k' = key_of h a" "v' = value_of h a" "\<not> ?cmp key (key_of h a)"
        unfolding ht_pairs_iff by blast
      moreover from this have "a \<noteq> p" using k by blast
      ultimately show "\<exists>a \<in> set (concat ass). a \<noteq> p \<and> k' = key_of h a \<and> v' = value_of h a" by blast
    qed
    ultimately show "x \<in> ht_pairs h' ass \<longleftrightarrow> x \<in> {kv \<in> ht_pairs h ass. \<not> ?cmp key (fst kv)} \<union> {(key, v)}"
      unfolding x by auto
  qed
qed

text \<open>Inserting a new cell for a key that is not in the table.\<close>

lemma ht_inv_push:
  fixes v :: ptr
  assumes inv: "ht_inv h t ass" and a: "a \<noteq> NULL" "h a = None" and absent: "\<forall>b \<in> set (concat ass). \<not> ht_keyCompare t key (key_of h b)"
    and el: "ht_numOfElements t + 1 < 2 ^ 31"
  defines "i \<equiv> unat (ht_hash t key) mod ht_numOfBuckets t"
  defines "h' \<equiv> h(a \<mapsto> \<lparr>c_key = key, c_value = v, c_next = ht_bucketArray t ! i\<rparr>)"
  defines "t' \<equiv> t\<lparr>ht_bucketArray := (ht_bucketArray t)[i := a], ht_numOfElements := ht_numOfElements t + 1\<rparr>"
  defines "ass' \<equiv> ass[i := a # ass ! i]"
  shows "ht_inv h' t' ass'" "ht_pairs h' ass' = ht_pairs h ass \<union> {(key, v)}" "set (concat ass') = insert a (set (concat ass))"
proof -
  note d = ht_invD [OF inv]
  have na: "a \<notin> set (concat ass)" using ht_cell_alloc [OF inv, of a] a(2) by auto
  have i: "i < ht_numOfBuckets t" using d(3) by (simp add: i_def)
  let ?c = "\<lparr>c_key = key, c_value = v, c_next = ht_bucketArray t ! i\<rparr>"
  have b: "buckets (ht_hash t) (ht_numOfBuckets t) h' ((ht_bucketArray t)[i := a]) ass'"
    and m: "mset (concat ass') = add_mset a (mset (concat ass))"
    using buckets_push [OF d(2) na a(1), of i ?c] i unfolding h'_def ass'_def by (simp_all add: i_def)
  show set: "set (concat ass') = insert a (set (concat ass))" using m by (metis set_mset_add_mset_insert set_mset_mset)
  have kv: "key_of h' x = (if x = a then key else key_of h x)" "value_of h' x = (if x = a then v else value_of h x)" for x
    by (simp_all add: h'_def key_of_def value_of_def)
  have "length (concat ass') = length (concat ass) + 1" using m by (metis Suc_eq_plus1 size_add_mset size_mset)
  then have "ht_cells h' t' ass'" using inv b el d(4) unfolding ht_inv_def ht_cells_def t'_def by simp
  moreover have "ht_unique (ht_keyCompare t) h' (concat ass')"
  proof -
    have "\<forall>b \<in> set (concat ass). \<not> ht_keyCompare t (key_of h b) key" using absent key_hash.cmp_sym [OF d(6)] by blast
    then show ?thesis using d(5) absent na unfolding ht_unique_def kv set
      by (intro ballI impI) (metis (full_types) insert_iff)
  qed
  ultimately show "ht_inv h' t' ass'" using d(6) by (simp add: ht_inv_def t'_def)
  have "(k', v') \<in> ht_pairs h' ass' \<longleftrightarrow> (k', v') \<in> ht_pairs h ass \<or> (k', v') = (key, v)" for k' v'
  proof -
    have "x \<in> set (concat ass) \<Longrightarrow> x \<noteq> a" for x using na by blast
    then show ?thesis unfolding ht_pairs_iff set kv bex_simps(5) by (simp del: set_concat cong: bex_cong) blast
  qed
  then show "ht_pairs h' ass' = ht_pairs h ass \<union> {(key, v)}" by auto
qed

text \<open>A rehash keeps the invariant and the pairs.\<close>

lemma ht_inv_rehash:
  assumes inv: "ht_inv h t ass" and n: "n = 0 \<or> 5 \<le> n \<and> n < 2 ^ 31"
  shows "\<exists>h' t' ass'. HashTable_Rehash A h t n = Some (h', t') \<and> ht_inv h' t' ass' \<and> ht_pairs h' ass' = ht_pairs h ass \<and>
    set (concat ass') = set (concat ass) \<and> ht_same t t' \<and> ht_numOfElements t' = ht_numOfElements t \<and>
    (\<forall>b. b \<notin> set (concat ass) \<longrightarrow> h' b = h b)"
proof -
  from HashTable_Rehash_ok [OF ht_invD(1) [OF inv] n, of A] obtain h' t' ass' where
    r: "HashTable_Rehash A h t n = Some (h', t')" "ht_cells h' t' ass'" "mset (concat ass') = mset (concat ass)"
      "\<forall>b. b \<notin> set (concat ass) \<longrightarrow> h' b = h b" "\<forall>b. key_of h' b = key_of h b \<and> value_of h' b = value_of h b" "ht_same t t'"
      "ht_numOfElements t' = ht_numOfElements t"
    by blast
  note s = ht_same_simps [OF r(6)]
  have "ht_inv h' t' ass'" using r(2) ht_pairs_mset(2) [OF r(3,5)] ht_invD(5,6) [OF inv] by (simp add: ht_inv_def s)
  then show ?thesis using r ht_pairs_mset(1) [OF r(3,5)] mset_eq_setD [OF r(3)] by blast
qed

lemma ht_inv_rehash_if:
  assumes inv: "ht_inv h t ass"
  shows "\<exists>h' t' ass'. (if b then HashTable_Rehash A h t 0 else Some (h, t)) = Some (h', t') \<and> ht_inv h' t' ass' \<and>
    ht_pairs h' ass' = ht_pairs h ass \<and> ht_same t t' \<and> ht_numOfElements t' = ht_numOfElements t \<and>
    (\<forall>b. b \<notin> set (concat ass) \<longrightarrow> h' b = h b)"
proof (cases b)
  case True
  then show ?thesis using ht_inv_rehash [OF inv, of 0 A] by auto
next
  case False
  then show ?thesis using inv by (intro exI [of _ h] exI [of _ t] exI [of _ ass]) (simp add: ht_same_def)
qed

lemma hashtable_insert_ok:
  assumes inv: "ht_inv h t ass" and M: "malloc_ok M" and el: "ht_numOfElements t + 1 < 2 ^ 31"
    and absent: "\<forall>b \<in> set (concat ass). \<not> ht_keyCompare t key (key_of h b)"
  defines "i \<equiv> unat (ht_hash t key) mod ht_numOfBuckets t"
  shows "\<exists>status h' t' ass'. hashtable_insert A M h t i key v = Some (status, h', t') \<and> ht_inv h' t' ass' \<and> ht_same t t' \<and>
    frame h (concat ass) h' \<and> ht_numOfElements t' \<le> ht_numOfElements t + 1 \<and>
    (if status = 0 then ht_pairs h' ass' = ht_pairs h ass \<union> {(key, v)} else status = -1 \<and> h' = h \<and> t' = t)"
proof (cases "M h")
  case None
  then show ?thesis using inv by (intro exI [of _ "-1"] exI [of _ h] exI [of _ t] exI [of _ ass]) (simp add: hashtable_insert_def ht_same_def)
next
  case (Some a)
  then have a: "a \<noteq> NULL" "h a = None" using M by (auto simp: malloc_ok_def fresh_def dest: spec [of _ h])
  let ?h = "h(a \<mapsto> \<lparr>c_key = key, c_value = v, c_next = ht_bucketArray t ! i\<rparr>)"
  let ?t = "t\<lparr>ht_bucketArray := (ht_bucketArray t)[i := a], ht_numOfElements := ht_numOfElements t + 1\<rparr>"
  let ?ass = "ass[i := a # ass ! i]"
  note push = ht_inv_push(1) [OF inv a absent el, of v, folded i_def] ht_inv_push(2) [OF inv a absent el, of v, folded i_def]
    ht_inv_push(3) [OF inv a absent el, folded i_def]
  note bu = ht_bucket [OF inv, of key, folded i_def]
  have st: "arr_set (ht_bucketArray t) i a = Some ((ht_bucketArray t)[i := a])" "cint (ht_numOfElements t + 1) = Some (ht_numOfElements t + 1)"
    using bu(2) ht_invD(7) [OF inv] el by (simp_all add: arr_set_def cint_def)
  obtain h' t' ass' where r: "(if rt_upper_on (ht_ratios ?t) \<and> rt_above (ht_ratios ?t) (ht_numOfElements ?t) (ht_numOfBuckets ?t)
      then HashTable_Rehash A ?h ?t 0 else Some (?h, ?t)) = Some (h', t')" "ht_inv h' t' ass'" "ht_pairs h' ass' = ht_pairs ?h ?ass"
      "ht_same ?t t'" "ht_numOfElements t' = ht_numOfElements ?t" "\<forall>b. b \<notin> set (concat ?ass) \<longrightarrow> h' b = ?h b"
    using ht_inv_rehash_if [OF push(1), of "rt_upper_on (ht_ratios ?t) \<and> rt_above (ht_ratios ?t) (ht_numOfElements ?t) (ht_numOfBuckets ?t)" A]
    by blast
  have "hashtable_insert A M h t i key v = Some (0, h', t')"
    unfolding hashtable_insert_def Let_def Some option.case bu(3) st Option.bind.simps r(1) by simp
  moreover have "ht_same t t'" using r(4) by (simp add: ht_same_def)
  moreover have "frame h (concat ass) h'"
    unfolding frame_def
  proof (intro allI impI)
    fix b assume b: "h b \<noteq> None \<and> b \<notin> set (concat ass)"
    then have ba: "b \<noteq> a" using a(2) by auto
    then have "b \<notin> set (concat ?ass)" unfolding push(3) using b by blast
    then have "h' b = ?h b" using r(6) by blast
    then show "h' b = h b" using ba by simp
  qed
  ultimately show ?thesis using r(2,3,5) push(2) by (intro exI [of _ 0] exI [of _ h'] exI [of _ t'] exI [of _ ass']) simp
qed

lemma HashTable_Add_ok:
  fixes key v :: ptr
  assumes inv: "ht_inv h t ass" and M: "malloc_ok M" and el: "ht_numOfElements t + 1 < 2 ^ 31"
    and nn: "key \<noteq> NULL" "v \<noteq> NULL" "ht_keyClone t \<Longrightarrow> ck \<noteq> NULL" "ht_valueClone t \<Longrightarrow> cv \<noteq> NULL"
  defines "k' \<equiv> if ht_keyClone t then ck else key" and "v' \<equiv> if ht_valueClone t then cv else v"
  shows "\<exists>status freed h' t' ass'. HashTable_Add A M ck cv h t key v = Some (status, freed, h', t') \<and> ht_inv h' t' ass' \<and>
    ht_same t t' \<and> frame h (concat ass) h' \<and> ht_numOfElements t' \<le> ht_numOfElements t + 1 \<and>
    (if status = 0 then ht_pairs h' ass' = {kv \<in> ht_pairs h ass. \<not> ht_keyCompare t k' (fst kv)} \<union> {(k', v')}
     else status = -1 \<and> h' = h \<and> t' = t)"
proof -
  note d = ht_invD [OF inv] and bu = ht_bucket [OF inv, of k']
  let ?i = "unat (ht_hash t k') mod ht_numOfBuckets t"
  from key_hash.find_in_bucket [OF d(6,2,3), of k'] obtain p where
    p: "chain_find (ht_keyCompare t k') h (ht_bucketArray t ! ?i) = Some p"
      "if p = NULL then \<forall>a \<in> set (concat ass). \<not> ht_keyCompare t k' (key_of h a)
       else p \<in> set (ass ! ?i) \<and> ht_keyCompare t k' (key_of h p)"
    by blast
  have add: "HashTable_Add A M ck cv h t key v = do {
        (status, freed, h2, t2) \<leftarrow> (if p \<noteq> NULL then do {
            (freed, h2) \<leftarrow> hashtable_replace h t p k' v';
            Some (0, freed, h2, t) }
          else do {
            (status, h2, t2) \<leftarrow> hashtable_insert A M h t ?i k' v';
            Some (status, [], h2, t2) });
        lk \<leftarrow> cs_leave (ht_synchronized t2) (cs_enter (ht_synchronized t) (ht_lock t));
        Some (status, freed, h2, t2\<lparr>ht_lock := lk\<rparr>) }"
    using nn bu p(1) unfolding HashTable_Add_def Let_def k'_def [symmetric] v'_def [symmetric] by auto
  show ?thesis
  proof (cases "p = NULL")
    case True
    then have "\<forall>a \<in> set (concat ass). \<not> ht_keyCompare t k' (key_of h a)" using p(2) by simp
    from hashtable_insert_ok [OF inv M el this, of A v'] obtain status h' t' ass' where
      r: "hashtable_insert A M h t ?i k' v' = Some (status, h', t')" "ht_inv h' t' ass'" "ht_same t t'" "frame h (concat ass) h'"
        "ht_numOfElements t' \<le> ht_numOfElements t + 1"
        "if status = 0 then ht_pairs h' ass' = ht_pairs h ass \<union> {(k', v')} else status = -1 \<and> h' = h \<and> t' = t"
      by blast
    have "HashTable_Add A M ck cv h t key v = Some (status, [], h', t')"
      unfolding add using True r(1) ht_same_simps(4,5) [OF r(3)] by simp
    moreover have "ht_pairs h ass = {kv \<in> ht_pairs h ass. \<not> ht_keyCompare t k' (fst kv)}"
      using True p(2) by (auto simp: ht_pairs_def pairs_of_def)
    ultimately show ?thesis using r(2-6) by (intro exI [of _ status] exI [of _ "[]"] exI [of _ h'] exI [of _ t'] exI [of _ ass']) simp
  next
    case False
    then have pc: "p \<in> set (concat ass)" and k: "ht_keyCompare t k' (key_of h p)"
      using p(2) in_bucket_concat [of ?i ass p] bucketsD(2) [OF d(2)] d(3) by simp_all
    obtain c where c: "h p = Some c" using ht_cell_alloc [OF inv pc] by blast
    let ?h = "h(p \<mapsto> c\<lparr>c_key := k', c_value := v'\<rparr>)"
    obtain freed where "hashtable_replace h t p k' v' = Some (freed, ?h)" using hashtable_replace_eq [of h p c t k' v'] c by blast
    then have "HashTable_Add A M ck cv h t key v = Some (0, freed, ?h, t)" unfolding add using False by simp
    moreover have "frame h (concat ass) ?h" unfolding frame_def using pc by auto
    ultimately show ?thesis using ht_inv_replace [OF inv pc c k, of v']
      by (intro exI [of _ 0] exI [of _ freed] exI [of _ ?h] exI [of _ t] exI [of _ ass]) (simp add: ht_same_def)
  qed
qed

section \<open>Removing a pair\<close>

text \<open>Unlinking a cell of a bucket and freeing it.\<close>

lemma buckets_unlink:
  assumes b: "buckets hash n h arr ass" and i: "i < n" and ai: "ass ! i = us @ a # vs" and c: "h a = Some c"
  defines "arr' \<equiv> if us = [] then arr[i := c_next c] else arr" and "ass' \<equiv> ass[i := us @ vs]"
  shows "\<exists>h1. (if us = [] then Some h else set_next h (last us) (c_next c)) = Some h1 \<and> h1 a = Some c \<and>
    buckets hash n (h1(a := None)) arr' ass' \<and> mset (concat ass) = add_mset a (mset (concat ass')) \<and>
    (\<forall>x. x \<noteq> a \<longrightarrow> key_of (h1(a := None)) x = key_of h x \<and> value_of (h1(a := None)) x = value_of h x) \<and>
    (\<forall>x. x \<notin> set (concat ass) \<longrightarrow> (h1(a := None)) x = h x)"
proof -
  note d = bucketsD [OF b]
  note ch = d(3) [OF i, unfolded ai]
  from chain_unlink [OF ch c] obtain h1 where h1: "(if us = [] then Some h else set_next h (last us) (c_next c)) = Some h1" "h1 a = Some c"
      "chain (h1(a := None)) (if us = [] then c_next c else arr ! i) (us @ vs)"
      "\<forall>x. x \<notin> set (us @ a # vs) \<longrightarrow> (h1(a := None)) x = h x"
    by blast
  let ?h = "h1(a := None)"
  have na: "a \<notin> set us" "a \<notin> set vs" using chain_distinct [OF ch] by auto
  have kv: "x \<noteq> a \<Longrightarrow> key_of ?h x = key_of h x \<and> value_of ?h x = value_of h x" for x
    using h1(1) na by (cases "us = []") (auto simp: set_next_def key_of_def value_of_def split: bind_splits)
  have m: "mset (concat ass) = add_mset a (mset (concat ass'))"
    using mset_concat_update [of i ass "us @ vs"] i d(2) ai by (simp add: ass'_def)
  have "distinct (concat ass')" using d(5) m by (metis distinct.simps(2) mset.simps(2) mset_eq_imp_distinct_iff)
  moreover have "chain ?h (arr' ! j) (ass' ! j)" if j: "j < n" for j
  proof (cases "j = i")
    case True
    then show ?thesis using h1(3) d(1,2) i by (cases "us = []") (simp_all add: arr'_def ass'_def)
  next
    case False
    have "x \<notin> set (us @ a # vs)" if "x \<in> set (ass ! j)" for x
      using d(4) [OF j that] d(4) [OF i, of x] False unfolding ai by auto
    then have "chain ?h (arr ! j) (ass ! j) = chain h (arr ! j) (ass ! j)" using h1(4) by (intro chain_cong) blast
    then show ?thesis using d(3) [OF j] False by (simp add: arr'_def ass'_def)
  qed
  moreover have "unat (hash (key_of ?h x)) mod n = j" if "j < n" "x \<in> set (ass' ! j)" for j x
  proof -
    have x: "x \<in> set (ass ! j)" using that d(2) i ai by (auto simp: ass'_def nth_list_update split: if_splits)
    have "x \<noteq> a"
    proof (cases "j = i")
      case True
      then show ?thesis using that(2) d(2) i na by (auto simp: ass'_def)
    next
      case False
      then show ?thesis using d(4) [OF that(1) x] d(4) [OF i, of a] ai by auto
    qed
    then show ?thesis using d(4) [OF that(1) x] kv by simp
  qed
  ultimately have "buckets hash n ?h arr' ass'" using d(1,2) by (auto simp: buckets_def arr'_def ass'_def)
  moreover have "\<forall>x. x \<notin> set (concat ass) \<longrightarrow> ?h x = h x"
    using h1(4) in_bucket_concat [of i ass] i d(2) ai by auto
  ultimately show ?thesis using h1(1,2) m kv by blast
qed

lemma HashTable_Remove_ok:
  fixes key :: ptr
  assumes inv: "ht_inv h t ass"
  shows "\<exists>freed h' t' ass'. HashTable_Remove A h t key = Some (ht_lookup h t key \<noteq> None, freed, h', t') \<and> ht_inv h' t' ass' \<and>
    ht_same t t' \<and> frame h (concat ass) h' \<and> ht_numOfElements t' \<le> ht_numOfElements t \<and>
    ht_pairs h' ass' = {kv \<in> ht_pairs h ass. \<not> ht_keyCompare t key (fst kv)}"
proof -
  note d = ht_invD [OF inv] and bu = ht_bucket [OF inv, of key]
  let ?i = "unat (ht_hash t key) mod ht_numOfBuckets t" and ?cmp = "ht_keyCompare t"
  note ch = bucketsD(3) [OF d(2) bu(2)]
  show ?thesis
  proof (cases rule: chain_split [of "ass ! ?i" "?cmp key" h])
    case none
    then have abs: "\<forall>a \<in> set (concat ass). \<not> ?cmp key (key_of h a)" using key_hash.cell_in_bucket [OF d(6,2)] by blast
    then have "ht_lookup h t key = None" "ht_pairs h ass = {kv \<in> ht_pairs h ass. \<not> ?cmp key (fst kv)}"
      using ht_lookup_None [OF inv, of key] by (auto simp: ht_pairs_def pairs_of_def)
    moreover obtain q where "chain_find_prev (?cmp key) h NULL (ht_bucketArray t ! ?i) = Some (q, NULL)"
      using chain_find_prev_none [OF ch none(1)] by blast
    then have "HashTable_Remove A h t key = Some (False, [], h, t)" using bu by (simp add: HashTable_Remove_def)
    ultimately show ?thesis using inv
      by (intro exI [of _ "[]"] exI [of _ h] exI [of _ t] exI [of _ ass]) (simp add: ht_same_def)
  next
    case (some us a vs)
    have f: "chain_find_prev (?cmp key) h NULL (ht_bucketArray t ! ?i) = Some (if us = [] then NULL else last us, a)"
      using chain_find_prev_some [OF ch [unfolded some(1)] some(2,3)] .
    obtain c where c: "h a = Some c" "a \<noteq> NULL" using chain_append [OF ch [unfolded some(1)]] by auto
    have ac: "a \<in> set (concat ass)" using in_bucket_concat [of ?i ass a] some(1) bucketsD(2) [OF d(2)] bu(2) by simp
    define arr' where "arr' = (if us = [] then (ht_bucketArray t)[?i := c_next c] else ht_bucketArray t)"
    define ass' where "ass' = ass[?i := us @ vs]"
    from buckets_unlink [OF d(2) bu(2) some(1) c(1), folded arr'_def ass'_def] obtain h1 where
      h1: "(if us = [] then Some h else set_next h (last us) (c_next c)) = Some h1" "h1 a = Some c"
        "buckets (ht_hash t) (ht_numOfBuckets t) (h1(a := None)) arr' ass'" "mset (concat ass) = add_mset a (mset (concat ass'))"
        "\<forall>x. x \<noteq> a \<longrightarrow> key_of (h1(a := None)) x = key_of h x \<and> value_of (h1(a := None)) x = value_of h x"
        "\<forall>x. x \<notin> set (concat ass) \<longrightarrow> (h1(a := None)) x = h x"
      by blast
    let ?h = "h1(a := None)" and ?t = "t\<lparr>ht_bucketArray := arr', ht_numOfElements := ht_numOfElements t - 1\<rparr>"
    have set: "set (concat ass) = insert a (set (concat ass'))" and len: "length (concat ass) = length (concat ass') + 1"
      using h1(4) by (metis set_mset_add_mset_insert set_mset_mset, metis Suc_eq_plus1 size_add_mset size_mset)
    have na: "a \<notin> set (concat ass')" using bucketsD(5) [OF d(2)] h1(4)
      by (metis distinct.simps(2) mset.simps(2) mset_eq_imp_distinct_iff)
    have inv': "ht_inv ?h ?t ass'"
    proof -
      have "ht_unique ?cmp ?h (concat ass')"
        using d(5) h1(5) na set unfolding ht_unique_def by (metis insertCI)
      then show ?thesis using inv h1(3) len unfolding ht_inv_def ht_cells_def by simp
    qed
    have only: "x = a" if "x \<in> set (concat ass)" "?cmp key (key_of h x)" for x
    proof -
      have "?cmp (key_of h x) (key_of h a)" using key_hash.cmp_trans [OF d(6) key_hash.cmp_sym [OF d(6) that(2)] some(3)] .
      then show ?thesis using that(1) ac d(5) unfolding ht_unique_def by blast
    qed
    have "(k', v') \<in> ht_pairs ?h ass' \<longleftrightarrow> (k', v') \<in> ht_pairs h ass \<and> \<not> ?cmp key k'" for k' v'
    proof
      assume "(k', v') \<in> ht_pairs ?h ass'"
      then obtain x where x: "x \<in> set (concat ass')" "k' = key_of h x" "v' = value_of h x" "x \<noteq> a"
        unfolding ht_pairs_iff using h1(5) na by metis
      then show "(k', v') \<in> ht_pairs h ass \<and> \<not> ?cmp key k'" unfolding ht_pairs_iff set using only set by blast
    next
      assume "(k', v') \<in> ht_pairs h ass \<and> \<not> ?cmp key k'"
      then obtain x where x: "x \<in> set (concat ass)" "k' = key_of h x" "v' = value_of h x" "\<not> ?cmp key (key_of h x)"
        unfolding ht_pairs_iff by blast
      then have "x \<noteq> a" using some(3) by blast
      then show "(k', v') \<in> ht_pairs ?h ass'" unfolding ht_pairs_iff using x h1(5) set by (metis insert_iff)
    qed
    then have pr: "ht_pairs ?h ass' = {kv \<in> ht_pairs h ass. \<not> ?cmp key (fst kv)}" by auto
    obtain h' t' ass2 where r: "(if rt_lower_on (ht_ratios ?t) \<and> rt_below (ht_ratios ?t) (ht_numOfElements ?t) (ht_numOfBuckets ?t)
        then HashTable_Rehash A ?h ?t 0 else Some (?h, ?t)) = Some (h', t')" "ht_inv h' t' ass2" "ht_pairs h' ass2 = ht_pairs ?h ass'"
        "ht_same ?t t'" "ht_numOfElements t' = ht_numOfElements ?t" "\<forall>b. b \<notin> set (concat ass') \<longrightarrow> h' b = ?h b"
      using ht_inv_rehash_if [OF inv', of "rt_lower_on (ht_ratios ?t) \<and> rt_below (ht_ratios ?t) (ht_numOfElements ?t) (ht_numOfBuckets ?t)" A]
      by blast
    have same: "ht_same t t'" using r(4) by (simp add: ht_same_def)
    have last: "us \<noteq> [] \<Longrightarrow> last us \<noteq> NULL" using chain_set [OF ch [unfolded some(1)], of "last us"] by auto
    have st: "(if (if us = [] then NULL else last us) \<noteq> NULL
        then do { h \<leftarrow> set_next h (if us = [] then NULL else last us) (c_next c); Some (h, ht_bucketArray t) }
        else do { arr \<leftarrow> arr_set (ht_bucketArray t) ?i (c_next c); Some (h, arr) }) = Some (h1, arr')"
      using h1(1) last bu(2) d(7) by (cases "us = []") (simp_all add: arr'_def arr_set_def)
    have fr: "cell_free h1 a = Some ?h" using h1(2) by (simp add: cell_free_def)
    have "HashTable_Remove A h t key =
        Some (True, rel_key (ht_keyFree t') (c_key c) @ rel_value (ht_valueFree t') (c_value c), h', t')"
      unfolding HashTable_Remove_def Let_def bu(1) Option.bind.simps bu(3) f prod.case if_not_P [OF c(2)] c(1) st fr r(1)
      using ht_same_simps(4,5) [OF same] by simp
    moreover have "ht_lookup h t key \<noteq> None"
      using ht_lookup_None [OF inv, of key] ac some(3) unfolding ht_pairs_iff by blast
    moreover have "frame h (concat ass) h'"
      unfolding frame_def using r(6) h1(6) set by (metis insertCI)
    ultimately show ?thesis using r(2,3,5) pr same
      by (intro exI [of _ "rel_key (ht_keyFree t') (c_key c) @ rel_value (ht_valueFree t') (c_value c)"] exI [of _ h'] exI [of _ t']
        exI [of _ ass2]) simp
  qed
qed

section \<open>The table as a map\<close>

text \<open>How the lookup changes when pairs are replaced or removed.\<close>

lemma option_eqI: "(\<And>w. x = Some w \<longleftrightarrow> y = Some w) \<Longrightarrow> x = y"
  by (cases x; cases y) auto

lemma ht_lookup_replace:
  assumes inv: "ht_inv h t ass" and inv': "ht_inv h' t' ass'" and s: "ht_keyCompare t' = ht_keyCompare t"
    and pr: "ht_pairs h' ass' = {kv \<in> ht_pairs h ass. \<not> ht_keyCompare t k (fst kv)} \<union> {(l, v)}" and k: "ht_keyCompare t k l"
  shows "ht_lookup h' t' x = (if ht_keyCompare t x k then Some v else ht_lookup h t x)"
proof (rule option_eqI)
  fix w
  note kh = ht_invD(6) [OF inv]
  have eq: "ht_keyCompare t x l \<longleftrightarrow> ht_keyCompare t x k" "ht_keyCompare t x k \<Longrightarrow> ht_keyCompare t x y \<longleftrightarrow> ht_keyCompare t k y" for y
    using k key_hash.cmp_sym [OF kh] key_hash.cmp_trans [OF kh] by blast+
  have "ht_lookup h' t' x = Some w \<longleftrightarrow> (\<exists>y. (y, w) \<in> ht_pairs h ass \<and> \<not> ht_keyCompare t k y \<and> ht_keyCompare t x y) \<or> w = v \<and> ht_keyCompare t x l"
    unfolding ht_lookup_iff [OF inv'] pr s by auto
  also have "\<dots> \<longleftrightarrow> (if ht_keyCompare t x k then Some v else ht_lookup h t x) = Some w"
  proof (cases "ht_keyCompare t x k")
    case True
    then show ?thesis using eq by auto
  next
    case False
    have "\<not> ht_keyCompare t k y" if "ht_keyCompare t x y" for y
      using that False key_hash.cmp_sym [OF kh] key_hash.cmp_trans [OF kh] by blast
    then show ?thesis using False eq(1) ht_lookup_iff [OF inv, of x w] by auto
  qed
  finally show "ht_lookup h' t' x = Some w \<longleftrightarrow> (if ht_keyCompare t x k then Some v else ht_lookup h t x) = Some w" .
qed

lemma ht_lookup_remove:
  assumes inv: "ht_inv h t ass" and inv': "ht_inv h' t' ass'" and s: "ht_keyCompare t' = ht_keyCompare t"
    and pr: "ht_pairs h' ass' = {kv \<in> ht_pairs h ass. \<not> ht_keyCompare t k (fst kv)}"
  shows "ht_lookup h' t' x = (if ht_keyCompare t x k then None else ht_lookup h t x)"
proof (rule option_eqI)
  fix w
  note kh = ht_invD(6) [OF inv]
  have eq: "ht_keyCompare t x y \<Longrightarrow> ht_keyCompare t k y \<longleftrightarrow> ht_keyCompare t x k" for y
    using key_hash.cmp_sym [OF kh] key_hash.cmp_trans [OF kh] by blast
  have "ht_lookup h' t' x = Some w \<longleftrightarrow> (\<exists>y. (y, w) \<in> ht_pairs h ass \<and> \<not> ht_keyCompare t k y \<and> ht_keyCompare t x y)"
    unfolding ht_lookup_iff [OF inv'] pr s by auto
  then show "ht_lookup h' t' x = Some w \<longleftrightarrow> (if ht_keyCompare t x k then None else ht_lookup h t x) = Some w"
    using eq ht_lookup_iff [OF inv, of x w] by auto
qed

lemma HashTable_SetItemValue_ok:
  assumes inv: "ht_inv h t ass" and vc: "\<not> ht_valueClone t"
  shows "\<exists>h'. HashTable_SetItemValue cv h t key v = Some (ht_lookup h t key \<noteq> None, h', t) \<and> ht_inv h' t ass \<and>
    frame h (concat ass) h' \<and>
    (\<forall>x. ht_lookup h' t x = (if ht_lookup h t key \<noteq> None \<and> ht_keyCompare t x key then Some v else ht_lookup h t x))"
proof -
  from HashTable_Get_ok [OF inv, of key] obtain p where p: "HashTable_Get h t key = Some p"
      "if p = NULL then \<forall>a \<in> set (concat ass). \<not> ht_keyCompare t key (key_of h a)
       else p \<in> set (concat ass) \<and> ht_keyCompare t key (key_of h p)"
    by blast
  show ?thesis
  proof (cases "p = NULL")
    case True
    then show ?thesis using p(1) vc inv by (intro exI [of _ h]) (simp add: HashTable_SetItemValue_def ht_lookup_def)
  next
    case False
    then have pc: "p \<in> set (concat ass)" and k: "ht_keyCompare t key (key_of h p)" using p(2) by simp_all
    obtain c where c: "h p = Some c" "c_key c = key_of h p" using ht_cell_alloc [OF inv pc] by blast
    note kh = ht_invD(6) [OF inv]
    let ?h = "h(p \<mapsto> c\<lparr>c_key := key_of h p, c_value := v\<rparr>)"
    have same: "c\<lparr>c_key := key_of h p, c_value := v\<rparr> = c\<lparr>c_value := v\<rparr>" using c(2) by (cases c) simp
    note r = ht_inv_replace [OF inv pc c(1) key_hash.cmp_refl [OF kh], of v]
    have look: "ht_lookup ?h t x = (if ht_keyCompare t x (key_of h p) then Some v else ht_lookup h t x)" for x
      by (rule ht_lookup_replace [OF inv r(1) refl r(2) key_hash.cmp_refl [OF kh]])
    have "ht_keyCompare t x (key_of h p) \<longleftrightarrow> ht_keyCompare t x key" for x
      using k key_hash.cmp_sym [OF kh] key_hash.cmp_trans [OF kh] by blast
    moreover have "ht_lookup h t key \<noteq> None" using p(1) False c(1) by (simp add: ht_lookup_def)
    moreover have "HashTable_SetItemValue cv h t key v = Some (True, ?h, t)"
      using p(1) False vc c(1) same by (simp add: HashTable_SetItemValue_def set_value_def)
    moreover have "frame h (concat ass) ?h" unfolding frame_def using pc by auto
    ultimately show ?thesis using r(1) look by (intro exI [of _ ?h]) simp
  qed
qed

lemma HashTable_Contains_ok:
  assumes inv: "ht_inv h t ass"
  shows "HashTable_Contains h t key = Some (ht_lookup h t key \<noteq> None, t)"
    "HashTable_ContainsKey h t key = Some (ht_lookup h t key \<noteq> None, t)"
proof -
  from HashTable_Get_ok [OF inv, of key] obtain p where p: "HashTable_Get h t key = Some p" "p \<noteq> NULL \<Longrightarrow> p \<in> set (concat ass)"
    by (auto split: if_splits)
  then have "ht_lookup h t key \<noteq> None \<longleftrightarrow> p \<noteq> NULL"
    using ht_cell_alloc [OF inv, of p] by (cases "p = NULL") (auto simp: ht_lookup_def)
  then show "HashTable_Contains h t key = Some (ht_lookup h t key \<noteq> None, t)"
      "HashTable_ContainsKey h t key = Some (ht_lookup h t key \<noteq> None, t)"
    using p(1) by (simp_all add: HashTable_Contains_def HashTable_ContainsKey_def)
qed

section \<open>Operations on all pairs\<close>

lemma concat_drop: "i < length oss \<Longrightarrow> concat (drop i oss) = oss ! i @ concat (drop (i + 1) oss)"
  by (simp add: Cons_nth_drop_Suc [symmetric])

lemma nth_in_drop: "i \<le> j \<Longrightarrow> j < length oss \<Longrightarrow> oss ! j \<in> set (drop i oss)"
  using nth_mem [of "j - i" "drop i oss"] by simp

lemma clear_buckets_ok:
  assumes "length arr = length ass" "i + k = length ass" "\<forall>j < length ass. i \<le> j \<longrightarrow> chain h (arr ! j) (ass ! j)"
    "distinct (concat (drop i ass))"
  shows "clear_buckets kf vf h arr i k = Some (concat (map (rel_pair kf vf) (pairs_of h (concat (drop i ass)))),
    h |` (- set (concat (drop i ass))), take i arr @ replicate k NULL)"
  using assms
proof (induction k arbitrary: i h arr)
  case 0
  then show ?case by simp
next
  case (Suc k)
  then have i: "i < length ass" by simp
  note dr = concat_drop [OF i]
  have dis: "set (ass ! i) \<inter> set (concat (drop (i + 1) ass)) = {}" "distinct (concat (drop (i + 1) ass))"
    using Suc.prems(4) unfolding dr by auto
  let ?h = "h |` (- set (ass ! i))" and ?arr = "arr[i := NULL]"
  have ch: "chain h (arr ! i) (ass ! i)" using Suc.prems(3) i by simp
  have "\<forall>j < length ass. i + 1 \<le> j \<longrightarrow> chain ?h (?arr ! j) (ass ! j)"
  proof (intro allI impI)
    fix j assume j: "j < length ass" "i + 1 \<le> j"
    then have "set (ass ! j) \<subseteq> set (concat (drop (i + 1) ass))" using nth_in_drop [of "i + 1" j ass] by auto
    then have "a \<in> set (ass ! j) \<Longrightarrow> ?h a = h a" for a using dis(1) unfolding restrict_map_def by auto
    then have "chain ?h (arr ! j) (ass ! j) = chain h (arr ! j) (ass ! j)" by (intro chain_cong) blast
    then show "chain ?h (?arr ! j) (ass ! j)" using Suc.prems(3) j by simp
  qed
  then have IH: "clear_buckets kf vf ?h ?arr (i + 1) k = Some (concat (map (rel_pair kf vf) (pairs_of ?h (concat (drop (i + 1) ass)))),
      ?h |` (- set (concat (drop (i + 1) ass))), take (i + 1) ?arr @ replicate k NULL)"
    using Suc.IH [of ?arr "i + 1" ?h] Suc.prems(1,2) dis(2) by simp
  have "pairs_of ?h (concat (drop (i + 1) ass)) = pairs_of h (concat (drop (i + 1) ass))"
    using dis(1) by (intro pairs_of_cong) (auto simp: restrict_map_def)
  moreover have "?h |` (- set (concat (drop (i + 1) ass))) = h |` (- set (concat (drop i ass)))"
    unfolding dr by (auto simp: restrict_map_def fun_eq_iff)
  moreover have "take (i + 1) ?arr @ replicate k NULL = take i arr @ replicate (Suc k) NULL"
    using i Suc.prems(1) by (simp add: take_Suc_conv_app_nth)
  moreover have "arr_get arr i = Some (arr ! i)" "arr_set arr i NULL = Some ?arr"
    using i Suc.prems(1) by (simp_all add: arr_get_def arr_set_def)
  ultimately show ?case using IH chain_clear_eq [OF ch, of kf vf] unfolding dr by simp
qed

text \<open>Clearing hands every key and every value to its callback, frees every cell and empties the table.\<close>

lemma HashTable_Clear_ok:
  assumes inv: "ht_inv h t ass"
  shows "\<exists>h' t' ass'. HashTable_Clear A h t =
      Some (concat (map (rel_pair (ht_keyFree t) (ht_valueFree t)) (pairs_of h (concat ass))), h', t') \<and>
    ht_inv h' t' ass' \<and> ht_pairs h' ass' = {} \<and> ht_same t t' \<and> ht_numOfElements t' = 0 \<and> frame h (concat ass) h' \<and>
    (\<forall>a \<in> set (concat ass). h' a = None)"
proof -
  note d = ht_invD [OF inv] and b = bucketsD [OF ht_invD(2) [OF inv]]
  let ?n = "ht_numOfBuckets t" and ?h = "h |` (- set (concat ass))"
  have cl: "clear_buckets (ht_keyFree t) (ht_valueFree t) h (ht_bucketArray t) 0 ?n =
      Some (concat (map (rel_pair (ht_keyFree t) (ht_valueFree t)) (pairs_of h (concat ass))), ?h, replicate ?n NULL)"
    using clear_buckets_ok [of "ht_bucketArray t" ass 0 ?n h] b by simp
  let ?t = "t\<lparr>ht_bucketArray := replicate ?n NULL, ht_numOfElements := 0\<rparr>"
  have "ht_inv ?h ?t (replicate ?n [])"
    using inv by (simp add: ht_inv_def ht_cells_def buckets_def ht_unique_def)
  from ht_inv_rehash [OF this, of 5 A] obtain h' t' ass' where
    r: "HashTable_Rehash A ?h ?t 5 = Some (h', t')" "ht_inv h' t' ass'" "ht_pairs h' ass' = ht_pairs ?h (replicate ?n [])"
      "ht_same ?t t'" "ht_numOfElements t' = 0" "\<forall>b. h' b = ?h b"
    by auto
  have same: "ht_same t t'" using r(4) by (simp add: ht_same_def)
  have "HashTable_Clear A h t = Some (concat (map (rel_pair (ht_keyFree t) (ht_valueFree t)) (pairs_of h (concat ass))), h', t')"
    using cl r(1) ht_same_simps(4,5) [OF same] by (simp add: HashTable_Clear_def)
  moreover have "ht_pairs h' ass' = {}" using r(3) by (simp add: ht_pairs_def)
  moreover have "frame h (concat ass) h'" "\<forall>a \<in> set (concat ass). h' a = None" using r(6) by (auto simp: frame_def restrict_map_def)
  ultimately show ?thesis using r(2,5) same by blast
qed

lemma bucket_keys_ok:
  assumes "length arr = length ass" "i + k = length ass" "\<forall>j < length ass. i \<le> j \<longrightarrow> chain h (arr ! j) (ass ! j)"
    "n + length (concat (drop i ass)) \<le> length ks" "n + length (concat (drop i ass)) < 2 ^ 31"
  shows "bucket_keys h arr i k ks n = Some (take n ks @ map (key_of h) (concat (drop i ass)) @ drop (n + length (concat (drop i ass))) ks,
    n + length (concat (drop i ass)))"
  using assms
proof (induction k arbitrary: i ks n)
  case 0
  then show ?case by simp
next
  case (Suc k)
  then have i: "i < length ass" by simp
  note dr = concat_drop [OF i]
  have ch: "chain h (arr ! i) (ass ! i)" using Suc.prems(3) i by simp
  let ?n = "n + length (ass ! i)" and ?ks = "take n ks @ map (key_of h) (ass ! i) @ drop (n + length (ass ! i)) ks"
  have len: "?n \<le> length ks" "n + length (ass ! i) < 2 ^ 31" "?n + length (concat (drop (i + 1) ass)) = n + length (concat (drop i ass))"
    using Suc.prems(4,5) unfolding dr by simp_all
  have "chain_keys h (arr ! i) ks n = Some (?ks, ?n)" using chain_keys_eq [OF ch len(1,2)] .
  moreover have "bucket_keys h arr (i + 1) k ?ks ?n = Some (take ?n ?ks @ map (key_of h) (concat (drop (i + 1) ass)) @
      drop (?n + length (concat (drop (i + 1) ass))) ?ks, ?n + length (concat (drop (i + 1) ass)))"
  proof (rule Suc.IH)
    show "?n + length (concat (drop (i + 1) ass)) \<le> length ?ks" using len(1,3) Suc.prems(4) by simp
    show "?n + length (concat (drop (i + 1) ass)) < 2 ^ 31" using len(3) Suc.prems(5) by simp
  qed (use Suc.prems(1-3) in auto)
  moreover have "arr_get arr i = Some (arr ! i)" using i Suc.prems(1) by (simp add: arr_get_def)
  ultimately show ?case using len(1) unfolding dr by (simp add: add.assoc add.commute)
qed

lemma HashTable_GetKeys_ok:
  assumes inv: "ht_inv h t ass"
  shows "HashTable_GetKeys A h t = Some (if ht_numOfElements t = 0 then (0, [], t)
    else if al_ok A (ht_numOfElements t) then (int (ht_numOfElements t), map (key_of h) (concat ass), t) else (-1, [], t))"
proof -
  note d = ht_invD [OF inv] and b = bucketsD [OF ht_invD(2) [OF inv]]
  have "length (concat ass) < 2 ^ 31" using inv by (simp add: ht_inv_def ht_cells_def)
  then have "bucket_keys h (ht_bucketArray t) 0 (ht_numOfBuckets t) (replicate (ht_numOfElements t) 0) 0 =
      Some (map (key_of h) (concat ass), ht_numOfElements t)"
    using bucket_keys_ok [of "ht_bucketArray t" ass 0 "ht_numOfBuckets t" h 0 "replicate (ht_numOfElements t) 0"] b d(4)
    by simp
  then show ?thesis unfolding HashTable_GetKeys_def Let_def by simp
qed

lemma chain_has_value_eq:
  assumes "chain h p as"
  shows "chain_has_value P h p = Some (\<exists>a \<in> set as. P (value_of h a))"
  using assms
proof (induction as arbitrary: p)
  case Nil
  then show ?case by (simp add: chain_has_value.simps)
next
  case (Cons a as)
  then show ?case by (auto simp: chain_has_value.simps [of P h a] value_of_def)
qed

lemma buckets_have_value_ok:
  assumes "length arr = length ass" "i + k = length ass" "\<forall>j < length ass. i \<le> j \<longrightarrow> chain h (arr ! j) (ass ! j)"
  shows "buckets_have_value P h arr i k = Some (\<exists>a \<in> set (concat (drop i ass)). P (value_of h a))"
  using assms
proof (induction k arbitrary: i)
  case 0
  then show ?case by simp
next
  case (Suc k)
  then have i: "i < length ass" by simp
  note dr = concat_drop [OF i]
  have "chain_has_value P h (arr ! i) = Some (\<exists>a \<in> set (ass ! i). P (value_of h a))"
    using Suc.prems(3) i by (intro chain_has_value_eq) simp
  moreover have "buckets_have_value P h arr (i + 1) k = Some (\<exists>a \<in> set (concat (drop (i + 1) ass)). P (value_of h a))"
    using Suc.IH [of "i + 1"] Suc.prems by simp
  moreover have "arr_get arr i = Some (arr ! i)" using i Suc.prems(1) by (simp add: arr_get_def)
  ultimately show ?case unfolding dr by auto
qed

lemma HashTable_ContainsValue_ok:
  assumes inv: "ht_inv h t ass"
  shows "HashTable_ContainsValue h t v = Some (\<exists>(k, w) \<in> ht_pairs h ass. ht_valueCompare t v w, t)"
proof -
  note b = bucketsD [OF ht_invD(2) [OF inv]]
  have "buckets_have_value (ht_valueCompare t v) h (ht_bucketArray t) 0 (ht_numOfBuckets t) =
      Some (\<exists>a \<in> set (concat ass). ht_valueCompare t v (value_of h a))"
    using buckets_have_value_ok [of "ht_bucketArray t" ass 0 "ht_numOfBuckets t" h "ht_valueCompare t v"] b by simp
  moreover have "(\<exists>a \<in> set (concat ass). ht_valueCompare t v (value_of h a)) \<longleftrightarrow> (\<exists>(k, w) \<in> ht_pairs h ass. ht_valueCompare t v w)"
    by (auto simp: ht_pairs_def pairs_of_def)
  ultimately show ?thesis by (simp add: HashTable_ContainsValue_def)
qed

lemma HashTable_New_inv:
  assumes "HashTable_New A ok abv blw sync = Some t"
  shows "ht_inv h t (replicate 64 [])" "ht_pairs h (replicate 64 []) = {}"
  using assms pointer_keys.key_hash_axioms
  by (auto simp: HashTable_New_def ht_inv_def ht_cells_def buckets_def ht_unique_def ht_pairs_def split: if_splits)

section \<open>The contract of a map\<close>

datatype map_op = MAdd ptr ptr | MRemove ptr | MGet ptr | MSet ptr ptr | MContains ptr | MClear

datatype map_res = MStatus bool | MPtr ptr | MUnit

text \<open>The specification on functions; keys that compare as equal have the same value.\<close>

fun map_spec :: "(ptr \<Rightarrow> ptr \<Rightarrow> bool) \<Rightarrow> bool \<Rightarrow> map_op \<Rightarrow> (ptr \<Rightarrow> ptr option) \<Rightarrow> map_res \<times> (ptr \<Rightarrow> ptr option)" where
  "map_spec cmp ok (MAdd k v) m = (MStatus ok, if ok then (\<lambda>x. if cmp x k then Some v else m x) else m)"
| "map_spec cmp ok (MRemove k) m = (MStatus (m k \<noteq> None), \<lambda>x. if cmp x k then None else m x)"
| "map_spec cmp ok (MGet k) m = (MPtr (case m k of None \<Rightarrow> NULL | Some v \<Rightarrow> v), m)"
| "map_spec cmp ok (MSet k v) m = (MStatus (m k \<noteq> None), \<lambda>x. if m k \<noteq> None \<and> cmp x k then Some v else m x)"
| "map_spec cmp ok (MContains k) m = (MStatus (m k \<noteq> None), m)"
| "map_spec cmp ok MClear m = (MUnit, \<lambda>x. None)"

fun map_op_ok :: "map_op \<Rightarrow> bool" where
  "map_op_ok (MAdd k v) \<longleftrightarrow> k \<noteq> NULL \<and> v \<noteq> NULL"
| "map_op_ok _ \<longleftrightarrow> True"

fun map_run :: "('s \<Rightarrow> map_op \<Rightarrow> (map_res \<times> 's) option) \<Rightarrow> map_op list \<Rightarrow> 's \<Rightarrow> (map_res list \<times> 's) option" where
  "map_run step [] s = Some ([], s)"
| "map_run step (op # ops) s = do {
     (r, s) \<leftarrow> step s op;
     (rs, s) \<leftarrow> map_run step ops s;
     Some (r # rs, s) }"

fun map_spec_run :: "(ptr \<Rightarrow> ptr \<Rightarrow> bool) \<Rightarrow> bool list \<Rightarrow> map_op list \<Rightarrow> (ptr \<Rightarrow> ptr option) \<Rightarrow> map_res list \<times> (ptr \<Rightarrow> ptr option)" where
  "map_spec_run cmp (ok # oks) (op # ops) m =
     (let (r, m) = map_spec cmp ok op m; (rs, m) = map_spec_run cmp oks ops m in (r # rs, m))"
| "map_spec_run cmp _ _ m = ([], m)"

locale object_map =
  fixes inv :: "'s \<Rightarrow> bool"
    and lookup :: "'s \<Rightarrow> ptr \<Rightarrow> ptr option"
    and step :: "'s \<Rightarrow> map_op \<Rightarrow> (map_res \<times> 's) option"
    and cnt :: "'s \<Rightarrow> nat"
    and cmp :: "ptr \<Rightarrow> ptr \<Rightarrow> bool"
    and lim :: nat
  assumes step_ok: "inv s \<Longrightarrow> cnt s < lim \<Longrightarrow> map_op_ok op \<Longrightarrow>
      \<exists>ok r s'. step s op = Some (r, s') \<and> inv s' \<and> cnt s' \<le> cnt s + 1 \<and> map_spec cmp ok op (lookup s) = (r, lookup s')"
begin

lemma run_refines:
  assumes "inv s" "cnt s + length ops \<le> lim" "\<forall>op \<in> set ops. map_op_ok op"
  shows "\<exists>oks rs s'. length oks = length ops \<and> map_run step ops s = Some (rs, s') \<and> inv s' \<and>
    map_spec_run cmp oks ops (lookup s) = (rs, lookup s')"
  using assms
proof (induction ops arbitrary: s)
  case Nil
  then show ?case by auto
next
  case (Cons op ops)
  then obtain ok r s1 where s1: "step s op = Some (r, s1)" "inv s1" "cnt s1 \<le> cnt s + 1" "map_spec cmp ok op (lookup s) = (r, lookup s1)"
    using step_ok [of s op] by auto
  then obtain oks rs s' where "length oks = length ops" "map_run step ops s1 = Some (rs, s')" "inv s'"
      "map_spec_run cmp oks ops (lookup s1) = (rs, lookup s')"
    using Cons.IH [OF s1(2)] Cons.prems(2,3) by auto
  then show ?case using s1 by (intro exI [of _ "ok # oks"] exI [of _ "r # rs"] exI [of _ s']) simp
qed

end

section \<open>The hash table implements a map\<close>

fun ht_step :: "ptr allocator \<Rightarrow> (heap \<Rightarrow> ptr option) \<Rightarrow> heap \<times> wHashTable \<Rightarrow> map_op \<Rightarrow> (map_res \<times> heap \<times> wHashTable) option" where
  "ht_step A M (h, t) (MAdd k v) = do { (status, freed, h, t) \<leftarrow> HashTable_Add A M NULL NULL h t k v; Some (MStatus (status = 0), h, t) }"
| "ht_step A M (h, t) (MRemove k) = do { (b, freed, h, t) \<leftarrow> HashTable_Remove A h t k; Some (MStatus b, h, t) }"
| "ht_step A M (h, t) (MGet k) = do { (p, t) \<leftarrow> HashTable_GetItemValue h t k; Some (MPtr p, h, t) }"
| "ht_step A M (h, t) (MSet k v) = do { (b, h, t) \<leftarrow> HashTable_SetItemValue NULL h t k v; Some (MStatus b, h, t) }"
| "ht_step A M (h, t) (MContains k) = do { (b, t) \<leftarrow> HashTable_Contains h t k; Some (MStatus b, h, t) }"
| "ht_step A M (h, t) MClear = do { (freed, h, t) \<leftarrow> HashTable_Clear A h t; Some (MUnit, h, t) }"

text \<open>A table without clone callbacks: keys and values are stored as they are.\<close>

definition ht_rep :: "(heap \<Rightarrow> ptr option) \<Rightarrow> (ptr \<Rightarrow> ptr \<Rightarrow> bool) \<Rightarrow> heap \<times> wHashTable \<Rightarrow> bool" where
  "ht_rep M cmp s \<longleftrightarrow> malloc_ok M \<and> (\<exists>ass. ht_inv (fst s) (snd s) ass) \<and> ht_keyCompare (snd s) = cmp \<and>
     \<not> ht_keyClone (snd s) \<and> \<not> ht_valueClone (snd s)"

definition ht_map :: "heap \<times> wHashTable \<Rightarrow> ptr \<Rightarrow> ptr option" where
  "ht_map s key = ht_lookup (fst s) (snd s) key"

definition ht_count :: "heap \<times> wHashTable \<Rightarrow> nat" where
  "ht_count s = ht_numOfElements (snd s)"

lemma ht_step_ok:
  assumes rep: "ht_rep M cmp (h, t)" and l: "ht_numOfElements t < 2 ^ 31 - 1" and op: "map_op_ok op"
  shows "\<exists>ok r h' t'. ht_step A M (h, t) op = Some (r, h', t') \<and> ht_rep M cmp (h', t') \<and>
    ht_numOfElements t' \<le> ht_numOfElements t + 1 \<and> map_spec cmp ok op (ht_map (h, t)) = (r, ht_map (h', t'))"
proof -
  obtain ass where inv: "ht_inv h t ass" and M: "malloc_ok M" and cmp: "ht_keyCompare t = cmp"
      and cl: "\<not> ht_keyClone t" "\<not> ht_valueClone t"
    using rep by (auto simp: ht_rep_def)
  have l': "ht_numOfElements t + 1 < 2 ^ 31" using l by simp
  have new: "ht_rep M cmp (h', t')" if "ht_inv h' t' ass'" "ht_same t t'" for h' t' ass'
    using that(1) M cmp cl ht_same_simps [OF that(2)] by (auto simp: ht_rep_def)
  have id: "ht_rep M cmp (h, t)" by (rule rep)
  show ?thesis
  proof (cases op)
    case (MAdd k v)
    then have nn: "k \<noteq> NULL" "v \<noteq> NULL" using op by auto
    obtain status freed h' t' ass' where r: "HashTable_Add A M NULL NULL h t k v = Some (status, freed, h', t')" "ht_inv h' t' ass'"
        "ht_same t t'" "ht_numOfElements t' \<le> ht_numOfElements t + 1"
        "if status = 0 then ht_pairs h' ass' = {kv \<in> ht_pairs h ass. \<not> ht_keyCompare t k (fst kv)} \<union> {(k, v)}
         else status = -1 \<and> h' = h \<and> t' = t"
      using HashTable_Add_ok [OF inv M l' nn, of NULL NULL A] cl by auto
    have "ht_lookup h' t' = (if status = 0 then (\<lambda>x. if cmp x k then Some v else ht_lookup h t x) else ht_lookup h t)"
    proof (cases "status = 0")
      case True
      then show ?thesis
        using ht_lookup_replace [OF inv r(2) ht_same_simps(2) [OF r(3)], of k k v] r(5) key_hash.cmp_refl [OF ht_invD(6) [OF inv]]
        by (auto simp: cmp fun_eq_iff)
    next
      case False
      then show ?thesis using r(5) by simp
    qed
    then show ?thesis using MAdd r(1,4) new [OF r(2,3)]
      by (intro exI [of _ "status = 0"] exI [of _ "MStatus (status = 0)"] exI [of _ h'] exI [of _ t']) (auto simp: ht_map_def fun_eq_iff)
  next
    case (MRemove k)
    obtain freed h' t' ass' where r: "HashTable_Remove A h t k = Some (ht_lookup h t k \<noteq> None, freed, h', t')" "ht_inv h' t' ass'"
        "ht_same t t'" "ht_numOfElements t' \<le> ht_numOfElements t"
        "ht_pairs h' ass' = {kv \<in> ht_pairs h ass. \<not> ht_keyCompare t k (fst kv)}"
      using HashTable_Remove_ok [OF inv, of A k] by blast
    have "ht_lookup h' t' = (\<lambda>x. if cmp x k then None else ht_lookup h t x)"
      using ht_lookup_remove [OF inv r(2) ht_same_simps(2) [OF r(3)] r(5)] by (auto simp: cmp fun_eq_iff)
    then show ?thesis using MRemove r(1,4) new [OF r(2,3)]
      by (intro exI [of _ True] exI [of _ "MStatus (ht_lookup h t k \<noteq> None)"] exI [of _ h'] exI [of _ t']) (auto simp: ht_map_def fun_eq_iff)
  next
    case (MGet k)
    then show ?thesis using HashTable_GetItemValue_ok [OF inv, of k] id by (auto simp: ht_map_def)
  next
    case (MSet k v)
    obtain h' where r: "HashTable_SetItemValue NULL h t k v = Some (ht_lookup h t k \<noteq> None, h', t)" "ht_inv h' t ass"
        "\<forall>x. ht_lookup h' t x = (if ht_lookup h t k \<noteq> None \<and> ht_keyCompare t x k then Some v else ht_lookup h t x)"
      using HashTable_SetItemValue_ok [OF inv cl(2), of NULL k v] by blast
    have "ht_same t t" by (simp add: ht_same_def)
    then show ?thesis using MSet r(1,3) new [OF r(2)] cmp
      by (intro exI [of _ True] exI [of _ "MStatus (ht_lookup h t k \<noteq> None)"] exI [of _ h'] exI [of _ t]) (auto simp: ht_map_def fun_eq_iff)
  next
    case (MContains k)
    then show ?thesis using HashTable_Contains_ok(1) [OF inv, of k] id by (auto simp: ht_map_def)
  next
    case MClear
    obtain freed h' t' ass' where r: "HashTable_Clear A h t = Some (freed, h', t')" "ht_inv h' t' ass'" "ht_pairs h' ass' = {}"
        "ht_same t t'" "ht_numOfElements t' = 0"
      using HashTable_Clear_ok [OF inv, of A] by blast
    have "ht_lookup h' t' = (\<lambda>x. None)" using ht_lookup_None [OF r(2)] r(3) by (simp add: fun_eq_iff)
    then show ?thesis using MClear r(1,5) new [OF r(2,4)]
      by (intro exI [of _ True] exI [of _ MUnit] exI [of _ h'] exI [of _ t']) (auto simp: ht_map_def fun_eq_iff)
  qed
qed

interpretation winpr_map: object_map "ht_rep M cmp" ht_map "ht_step A M" ht_count cmp "2 ^ 31 - 1"
proof
  fix s :: "heap \<times> wHashTable" and op
  assume "ht_rep M cmp s" "ht_count s < 2 ^ 31 - 1" "map_op_ok op"
  then show "\<exists>ok r s'. ht_step A M s op = Some (r, s') \<and> ht_rep M cmp s' \<and> ht_count s' \<le> ht_count s + 1 \<and>
      map_spec cmp ok op (ht_map s) = (r, ht_map s')"
    using ht_step_ok [of M cmp "fst s" "snd s" op A] by (cases s) (force simp: ht_count_def)
qed

section \<open>Properties\<close>

text \<open>A new table, with the load compared exactly, in a memory without cells.\<close>

definition ht_sample :: wHashTable where
  "ht_sample = \<lparr>ht_synchronized = True, ht_lock = 0, ht_numOfBuckets = 64, ht_numOfElements = 0,
     ht_ratios = \<lparr>rt_ideal = 3, rt_upper_on = True, rt_above = (\<lambda>n b. n > 15 * b), rt_lower_on = False, rt_below = (\<lambda>n b. False)\<rparr>,
     ht_bucketArray = replicate 64 NULL, ht_hash = HashTable_PointerHash, ht_keyCompare = HashTable_PointerCompare,
     ht_valueCompare = HashTable_PointerCompare, ht_keyClone = False, ht_valueClone = False,
     ht_keyFree = False, ht_valueFree = False\<rparr>"

lemma ht_sample_inv: "ht_inv Map.empty ht_sample (replicate 64 [])"
proof (rule HashTable_New_inv(1))
  show "HashTable_New ample True (\<lambda>n b. n > 15 * b) (\<lambda>n b. False) True = Some ht_sample"
    by (simp add: HashTable_New_def ample_def ht_sample_def)
qed

lemma ht_sample_rep: "ht_rep (first_free 9) HashTable_PointerCompare (Map.empty, ht_sample)" "ht_count (Map.empty, ht_sample) = 0"
  using ht_sample_inv first_free_ok [of 9] by (auto simp: ht_rep_def ht_count_def ht_sample_def)

text \<open>The keys 0x10 to 0x14 in a table of strings: 0x11 and 0x12 are the same string at two addresses.\<close>

definition sample_strings :: "ptr \<Rightarrow> byte list" where
  "sample_strings p = (if p = 17 \<or> p = 18 then [104, 105] else [])"

definition ht_string_sample :: wHashTable where
  "ht_string_sample = ht_sample\<lparr>ht_hash := HashTable_StringHash sample_strings,
     ht_keyCompare := HashTable_StringCompare sample_strings, ht_keyClone := True\<rparr>"

lemma ht_string_sample_inv: "ht_inv Map.empty ht_string_sample (replicate 64 [])"
  using ht_sample_inv string_keys.key_hash_axioms [of sample_strings]
  by (simp add: ht_inv_def ht_cells_def buckets_def ht_unique_def ht_string_sample_def ht_sample_def)

text \<open>
  C12: the hash table implements a map. For every sequence of additions, removals, lookups, updates
  and clearings, with rehashing at any load and with failing allocations, no operation has
  undefined behaviour or runs forever, and every result is the one of a map in which keys that
  compare as equal are the same key.
\<close>

theorem hashtable_refines_map:
  assumes "ht_rep M cmp s" "ht_count s + length ops \<le> 2 ^ 31 - 1" "\<forall>op \<in> set ops. map_op_ok op"
  shows "\<exists>oks rs s'. length oks = length ops \<and> map_run (ht_step A M) ops s = Some (rs, s') \<and> ht_rep M cmp s' \<and>
    map_spec_run cmp oks ops (ht_map s) = (rs, ht_map s')"
  using assms by (rule winpr_map.run_refines)

theorem hashtable_refines_map_witness:
  "\<exists>oks rs s'. length oks = length [MAdd 32 1, MAdd 96 2, MRemove 32, MGet 96] \<and>
    map_run (ht_step ample (first_free 9)) [MAdd 32 1, MAdd 96 2, MRemove 32, MGet 96] (Map.empty, ht_sample) = Some (rs, s') \<and>
    ht_rep (first_free 9) HashTable_PointerCompare s' \<and>
    map_spec_run HashTable_PointerCompare oks [MAdd 32 1, MAdd 96 2, MRemove 32, MGet 96] (ht_map (Map.empty, ht_sample)) = (rs, ht_map s')"
  by (rule hashtable_refines_map) (simp_all add: ht_sample_rep NULL_def)

text \<open>
  C27: rehashing ends and changes nothing that can be observed: the pairs of the table and every
  lookup stay the same, for every number of buckets asked for and also when no memory can be
  had; the number of buckets computed is a positive \<^verbatim>\<open>int\<close>.
\<close>

theorem hashtable_rehash_invisible:
  assumes "ht_inv h t ass" "n = 0 \<or> 5 \<le> n \<and> n < 2 ^ 31"
  shows "\<exists>h' t' ass'. HashTable_Rehash A h t n = Some (h', t') \<and> ht_inv h' t' ass' \<and> ht_pairs h' ass' = ht_pairs h ass \<and>
    ht_lookup h' t' = ht_lookup h t \<and> 0 < ht_numOfBuckets t' \<and> ht_numOfBuckets t' < 2 ^ 31"
proof -
  from ht_inv_rehash [OF assms, of A] obtain h' t' ass' where
    r: "HashTable_Rehash A h t n = Some (h', t')" "ht_inv h' t' ass'" "ht_pairs h' ass' = ht_pairs h ass" "ht_same t t'"
    by blast
  have "ht_lookup h' t' x = ht_lookup h t x" for x
    using ht_lookup_iff [OF r(2)] ht_lookup_iff [OF assms(1)] r(3) ht_same_simps(2) [OF r(4)] by (intro option_eqI) simp
  moreover have "0 < ht_numOfBuckets t'" "ht_numOfBuckets t' < 2 ^ 31" using r(2) by (simp_all add: ht_inv_def ht_cells_def)
  ultimately show ?thesis using r(1-3) by (intro exI [of _ h'] exI [of _ t'] exI [of _ ass']) (simp add: fun_eq_iff)
qed

theorem hashtable_rehash_invisible_witness:
  "\<exists>h' t' ass'. HashTable_Rehash ample Map.empty ht_sample 0 = Some (h', t') \<and> ht_inv h' t' ass' \<and>
    ht_pairs h' ass' = ht_pairs Map.empty (replicate 64 []) \<and> ht_lookup h' t' = ht_lookup Map.empty ht_sample \<and>
    0 < ht_numOfBuckets t' \<and> ht_numOfBuckets t' < 2 ^ 31"
  by (rule hashtable_rehash_invisible [OF ht_sample_inv]) simp

text \<open>
  A table of strings finds a value by contents, not by address: after \<^verbatim>\<open>HashTable_Add\<close> with a key that the
  table clones, the lookup of any pointer to an equal string returns the value added, unless
  memory ran out and the table is unchanged.
\<close>

theorem hashtable_string_roundtrip:
  assumes inv: "ht_inv h t ass" and M: "malloc_ok M" and el: "ht_numOfElements t + 1 < 2 ^ 31"
    and fns: "ht_hash t = HashTable_StringHash mem" "ht_keyCompare t = HashTable_StringCompare mem" "ht_keyClone t" "\<not> ht_valueClone t"
    and args: "key \<noteq> NULL" "v \<noteq> NULL" "ck \<noteq> NULL" "mem ck = mem key" "x \<noteq> NULL" "mem x = mem key"
  shows "\<exists>status freed h' t'. HashTable_Add A M ck cv h t key v = Some (status, freed, h', t') \<and>
    (if status = 0 then HashTable_GetItemValue h' t' x = Some (v, t') else h' = h \<and> t' = t)"
proof -
  obtain status freed h' t' ass' where r: "HashTable_Add A M ck cv h t key v = Some (status, freed, h', t')" "ht_inv h' t' ass'"
      "ht_same t t'" "if status = 0 then ht_pairs h' ass' = {kv \<in> ht_pairs h ass. \<not> ht_keyCompare t ck (fst kv)} \<union> {(ck, v)}
       else status = -1 \<and> h' = h \<and> t' = t"
    using HashTable_Add_ok [OF inv M el args(1,2), of ck cv A] fns(3,4) args(3) by auto
  have "status = 0 \<Longrightarrow> HashTable_GetItemValue h' t' x = Some (v, t')"
  proof -
    assume "status = 0"
    then have "ht_lookup h' t' x = (if ht_keyCompare t x ck then Some v else ht_lookup h t x)"
      using r(4) key_hash.cmp_refl [OF ht_invD(6) [OF inv]]
      by (intro ht_lookup_replace [OF inv r(2) ht_same_simps(2) [OF r(3)], of ck ck v]) simp_all
    then show ?thesis using HashTable_GetItemValue_ok [OF r(2), of x] fns(2) args by (simp add: HashTable_StringCompare_def)
  qed
  then show ?thesis using r(1,4) by (intro exI [of _ status] exI [of _ freed] exI [of _ h'] exI [of _ t']) auto
qed

theorem hashtable_string_roundtrip_witness:
  "\<exists>status freed h' t'. HashTable_Add ample (first_free 9) 17 NULL Map.empty ht_string_sample 17 5 = Some (status, freed, h', t') \<and>
    (if status = 0 then HashTable_GetItemValue h' t' 18 = Some (5, t') else h' = Map.empty \<and> t' = ht_string_sample)"
  by (rule hashtable_string_roundtrip [OF ht_string_sample_inv first_free_ok [of 9], where mem = sample_strings])
    (simp_all add: ht_string_sample_def ht_sample_def sample_strings_def NULL_def)

text \<open>
  Clearing a table ends, hands every key and every value to its callback exactly once, frees
  every cell, touches no other cell in use, and leaves a well-formed empty table.
\<close>

theorem hashtable_clear_frees:
  assumes "ht_inv h t ass"
  shows "\<exists>h' t' ass'. HashTable_Clear A h t =
      Some (concat (map (rel_pair (ht_keyFree t) (ht_valueFree t)) (pairs_of h (concat ass))), h', t') \<and>
    ht_inv h' t' ass' \<and> ht_pairs h' ass' = {} \<and> frame h (concat ass) h' \<and> list_all (\<lambda>a. h' a = None) (concat ass)"
proof -
  from HashTable_Clear_ok [OF assms, of A] obtain h' t' ass' where "HashTable_Clear A h t =
      Some (concat (map (rel_pair (ht_keyFree t) (ht_valueFree t)) (pairs_of h (concat ass))), h', t')"
    "ht_inv h' t' ass'" "ht_pairs h' ass' = {}" "frame h (concat ass) h'" "\<forall>a \<in> set (concat ass). h' a = None"
    by blast
  then show ?thesis by (auto simp: list_all_iff)
qed

theorem hashtable_clear_frees_witness:
  "\<exists>h' t' ass'. HashTable_Clear ample Map.empty ht_sample =
      Some (concat (map (rel_pair (ht_keyFree ht_sample) (ht_valueFree ht_sample)) (pairs_of Map.empty (concat (replicate 64 [])))), h', t') \<and>
    ht_inv h' t' ass' \<and> ht_pairs h' ass' = {} \<and> frame Map.empty (concat (replicate 64 [])) h' \<and>
    list_all (\<lambda>a. h' a = None) (concat (replicate 64 []))"
  by (rule hashtable_clear_frees [OF ht_sample_inv])

text \<open>
  An ideal ratio below 1 is converted to 0, and the number of buckets is computed by a division by
  zero.
\<close>

lemma hashtable_ratio_zero:
  "rt_ideal (ht_ratios t) = 0 \<Longrightarrow> HashTable_Rehash A h t 0 = None"
  by (simp add: HashTable_Rehash_def HashTable_CalculateIdealNumOfBuckets_def c_div_def)

text \<open>The setter of a value does not hand the old value to the callback, unlike an addition with an equal key.\<close>

lemma hashtable_set_leaks:
  assumes "HashTable_Get h t key = Some p" "p \<noteq> NULL" "h p = Some c" "\<not> ht_valueClone t"
  shows "HashTable_SetItemValue cv h t key v = Some (True, h(p \<mapsto> c\<lparr>c_value := v\<rparr>), t)"
  using assms by (simp add: HashTable_SetItemValue_def set_value_def)

end
