(* ===== verification/Transport.thy ===== *)
theory Transport
  imports Streams BufferedBio
begin

unbundle bit_operations_syntax

text \<open>
  Reading and writing protocol data units over a BIO (\<^verbatim>\<open>libfreerdp/core/transport.c\<close>). The BIO at
  the front of the chain is a parameter: the record \<open>bio\<close> holds the calls the transport makes,
  as functions of the state \<open>'w\<close> of everything below. Two contracts say what the
  transport relies on: \<open>byte_source\<close> for reading and \<open>byte_sink\<close> for writing. The buffered
  socket BIO of \<^verbatim>\<open>tcp.c\<close>, over any replies of the socket, is an instance of both.

  A wait that never ends has no result, like a loop that never ends; the measure
  \<open>patience\<close> of the contracts says that the peer does not keep the transport waiting for ever.
\<close>

record 'w bio =
  BIO_read :: "int \<Rightarrow> 'w \<Rightarrow> int \<times> byte list \<times> 'w"
  BIO_should_retry :: "'w \<Rightarrow> bool"
  BIO_wait_read :: "'w \<Rightarrow> int \<times> 'w"
  BIO_write :: "byte list \<Rightarrow> 'w \<Rightarrow> (int \<times> 'w) option"
  BIO_wait_write :: "'w \<Rightarrow> int \<times> 'w"
  BIO_write_blocked :: "'w \<Rightarrow> bool"
  BIO_flush :: "'w \<Rightarrow> (int \<times> 'w) option"

datatype TRANSPORT_LAYER = TRANSPORT_LAYER_TCP | TRANSPORT_LAYER_TLS | TRANSPORT_LAYER_TSG
  | TRANSPORT_LAYER_TSG_TLS | TRANSPORT_LAYER_CLOSED

record 'w rdpTransport =
  tr_layer :: TRANSPORT_LAYER
  tr_frontBio :: bool
  tr_NlaMode :: bool
  tr_blocking :: bool
  tr_GatewayEnabled :: bool
  tr_WaitForOutputBufferFlush :: bool
  tr_WriteLock :: nat
  tr_written :: u32
  tr_world :: 'w

section \<open>Reading\<close>

text \<open>
  The loop of \<^verbatim>\<open>transport_read_layer\<close>: \<open>data\<close> is the offset of the destination in the block
  \<open>buf\<close>.
\<close>

partial_function (option) transport_read_loop ::
    "'w bio \<Rightarrow> nat \<Rightarrow> int \<Rightarrow> byte list \<Rightarrow> int \<Rightarrow> 'w rdpTransport \<Rightarrow> (int \<times> byte list \<times> 'w rdpTransport) option" where
  "transport_read_loop B data bytes buf rd t =
     (if rd < bytes then
        (case BIO_read B (bytes - rd) (tr_world t) of (status, d, w) \<Rightarrow>
           let t = t\<lparr>tr_world := w\<rparr> in
           if status \<le> 0 then
             if \<not> tr_frontBio t \<or> \<not> BIO_should_retry B w
             then Some (-1, buf, t\<lparr>tr_layer := TRANSPORT_LAYER_CLOSED\<rparr>)
             else if \<not> tr_blocking t then Some (rd, buf, t)
             else (case BIO_wait_read B w of (r, w) \<Rightarrow>
                     if r < 0 then Some (-1, buf, t\<lparr>tr_world := w\<rparr>)
                     else transport_read_loop B data bytes buf rd (t\<lparr>tr_world := w\<rparr>))
           else do {
             buf \<leftarrow> mem_write buf (data + nat rd) d;
             rd \<leftarrow> int_ck (rd + status);
             transport_read_loop B data bytes buf rd t })
      else Some (rd, buf, t))"

definition transport_read_layer ::
    "'w bio \<Rightarrow> 'w rdpTransport \<Rightarrow> byte list \<Rightarrow> nat \<Rightarrow> int \<Rightarrow> (int \<times> byte list \<times> 'w rdpTransport) option" where
  "transport_read_layer B t buf data bytes =
     (if \<not> tr_frontBio t then Some (-1, buf, t\<lparr>tr_layer := TRANSPORT_LAYER_CLOSED\<rparr>)
      else transport_read_loop B data bytes buf 0 t)"

definition transport_read_layer_bytes ::
    "'w bio \<Rightarrow> 'w rdpTransport \<Rightarrow> wStream \<Rightarrow> u32 \<Rightarrow> (int \<times> wStream \<times> 'w rdpTransport) option" where
  "transport_read_layer_bytes B t s toRead = do {
     (status, buf, t) \<leftarrow> transport_read_layer B t (st_buffer s) (st_pointer s) (sint toRead);
     let s = s\<lparr>st_buffer := buf\<rparr>;
     if status \<le> 0 then Some (status, s, t)
     else do {
       s \<leftarrow> Stream_Seek s status;
       Some (if word_of_int status = toRead then 1 else 0, s, t) } }"

text \<open>
  \<^verbatim>\<open>if (position < n && (status = transport_read_layer_bytes(transport, s, n - position)) != 1)
  return status;\<close> The first component is the status when the caller returns.
\<close>

definition transport_need ::
    "'w bio \<Rightarrow> 'w rdpTransport \<Rightarrow> wStream \<Rightarrow> int \<Rightarrow> int \<Rightarrow> (int option \<times> wStream \<times> 'w rdpTransport) option" where
  "transport_need B t s position n =
     (if position < n then do {
        (status, s, t) \<leftarrow> transport_read_layer_bytes B t s (word_of_int (n - position));
        Some (if status \<noteq> 1 then Some status else None, s, t) }
      else Some (None, s, t))"

text \<open>\<^verbatim>\<open>((hi << 8) | lo)\<close> of two bytes\<close>

definition c_be16 :: "byte \<Rightarrow> byte \<Rightarrow> int" where
  "c_be16 hi lo = uint (push_bit 8 (ucast hi) OR ucast lo :: u32)"

text \<open>
  The middle of \<^verbatim>\<open>transport_read_pdu\<close>, from \<^verbatim>\<open>position = Stream_GetPosition(s)\<close> on: the length of
  the unit (\<open>Inr\<close>), or the value that the function returns (\<open>Inl\<close>).
\<close>

definition transport_pdu_length ::
    "'w bio \<Rightarrow> 'w rdpTransport \<Rightarrow> wStream \<Rightarrow> ((int + int) \<times> wStream \<times> 'w rdpTransport) option" where
  "transport_pdu_length B t s = do {
     let position = to_int (Stream_GetPosition s);
     h0 \<leftarrow> arr_get (st_buffer s) 0;
     h1 \<leftarrow> arr_get (st_buffer s) 1;
     if tr_NlaMode t then
       if h0 = 0x30 then
         if h1 AND 0x80 \<noteq> 0 then
           if h1 AND NOT 0x80 = 1 then do {
             (r, s, t) \<leftarrow> transport_need B t s position 3;
             (case r of Some status \<Rightarrow> Some (Inl status, s, t)
              | None \<Rightarrow> do { h2 \<leftarrow> arr_get (st_buffer s) 2; Some (Inr (uint h2 + 3), s, t) }) }
           else if h1 AND NOT 0x80 = 2 then do {
             (r, s, t) \<leftarrow> transport_need B t s position 4;
             (case r of Some status \<Rightarrow> Some (Inl status, s, t)
              | None \<Rightarrow> do { h2 \<leftarrow> arr_get (st_buffer s) 2; h3 \<leftarrow> arr_get (st_buffer s) 3;
                             Some (Inr (c_be16 h2 h3 + 4), s, t) }) }
           else Some (Inl (-1), s, t)
         else Some (Inr (uint h1 + 2), s, t)
       else Some (Inr 0, s, t)
     else if h0 = 0x03 then do {
       (r, s, t) \<leftarrow> transport_need B t s position 4;
       (case r of Some status \<Rightarrow> Some (Inl status, s, t)
        | None \<Rightarrow> do {
            h2 \<leftarrow> arr_get (st_buffer s) 2; h3 \<leftarrow> arr_get (st_buffer s) 3;
            let pduLength = c_be16 h2 h3;
            Some (if pduLength < 7 \<or> pduLength > 0xFFFF then Inl (-1) else Inr pduLength, s, t) }) }
     else if h1 AND 0x80 \<noteq> 0 then do {
       (r, s, t) \<leftarrow> transport_need B t s position 3;
       (case r of Some status \<Rightarrow> Some (Inl status, s, t)
        | None \<Rightarrow> do {
            h2 \<leftarrow> arr_get (st_buffer s) 2;
            let pduLength = c_be16 (h1 AND 0x7F) h2;
            Some (if pduLength < 3 \<or> pduLength > 0x8000 then Inl (-1) else Inr pduLength, s, t) }) }
     else do {
       let pduLength = uint h1;
       Some (if pduLength < 3 \<or> pduLength > 0x8000 then Inl (-1) else Inr pduLength, s, t) } }"

definition transport_read_pdu ::
    "byte allocator \<Rightarrow> 'w bio \<Rightarrow> 'w rdpTransport \<Rightarrow> wStream \<Rightarrow> (int \<times> wStream \<times> 'w rdpTransport) option" where
  "transport_read_pdu A B t s = do {
     let position = to_int (Stream_GetPosition s);
     (ok, s) \<leftarrow> Stream_EnsureCapacity A s 4;
     if \<not> ok then Some (-1, s, t)
     else do {
       (r, s, t) \<leftarrow> transport_need B t s position 2;
       (case r of
          Some status \<Rightarrow> Some (status, s, t)
        | None \<Rightarrow> do {
            (r, s, t) \<leftarrow> transport_pdu_length B t s;
            (case r of
               Inl status \<Rightarrow> Some (status, s, t)
             | Inr pduLength \<Rightarrow> do {
                 (ok, s) \<leftarrow> Stream_EnsureCapacity A s (sz_add (Stream_GetPosition s) (to_size pduLength));
                 if \<not> ok then Some (-1, s, t)
                 else do {
                   (status, s, t) \<leftarrow> transport_read_layer_bytes B t s
                      (word_of_nat (sz_sub (to_size pduLength) (Stream_GetPosition s)));
                   if status \<noteq> 1 then Some (status, s, t)
                   else do {
                     s \<leftarrow> Stream_SetPosition (Stream_SealLength s) 0;
                     Some (to_int (st_length s), s, t) } } }) }) } }"

section \<open>Writing\<close>

text \<open>The inner loop of \<^verbatim>\<open>transport_write\<close>, which waits until the BIO has written out what it holds.\<close>

partial_function (option) transport_flush_loop :: "'w bio \<Rightarrow> 'w \<Rightarrow> (bool \<times> 'w) option" where
  "transport_flush_loop B w =
     (if BIO_write_blocked B w then
        (case BIO_wait_write B w of (r, w) \<Rightarrow>
           if r < 0 then Some (False, w)
           else do {
             (f, w) \<leftarrow> BIO_flush B w;
             if f < 1 then Some (False, w) else transport_flush_loop B w })
      else Some (True, w))"

text \<open>The outer loop. The flag says that it ran to its end, and was not left by a jump.\<close>

partial_function (option) transport_write_loop ::
    "'w bio \<Rightarrow> bool \<Rightarrow> bool \<Rightarrow> int \<Rightarrow> int \<Rightarrow> wStream \<Rightarrow> 'w \<Rightarrow> (bool \<times> int \<times> wStream \<times> 'w) option" where
  "transport_write_loop B blocking flush len status s w =
     (if 0 < len then do {
        d \<leftarrow> mem_read (st_buffer s) (st_pointer s) (nat len);
        (status, w) \<leftarrow> BIO_write B d w;
        if status \<le> 0 then
          if \<not> BIO_should_retry B w then Some (False, status, s, w)
          else if \<not> blocking then Some (False, status, s, w)
          else (case BIO_wait_write B w of (r, w) \<Rightarrow>
                  if r < 0 then Some (False, -1, s, w)
                  else transport_write_loop B blocking flush len status s w)
        else do {
          (ok, w) \<leftarrow> (if blocking \<or> flush then transport_flush_loop B w else Some (True, w));
          if \<not> ok then Some (False, -1, s, w)
          else do {
            len \<leftarrow> int_ck (len - status);
            s \<leftarrow> Stream_Seek s status;
            transport_write_loop B blocking flush len status s w } } }
      else Some (True, status, s, w))"

definition transport_write ::
    "'w bio \<Rightarrow> 'w rdpTransport \<Rightarrow> wStream \<Rightarrow> (int \<times> wStream \<times> 'w rdpTransport) option" where
  "transport_write B t s = do {
     let t = t\<lparr>tr_WriteLock := cs_enter True (tr_WriteLock t)\<rparr>;
     let len = to_int (Stream_GetPosition s);
     s \<leftarrow> Stream_SetPosition s 0;
     (done, status, s, w) \<leftarrow> transport_write_loop B (tr_blocking t) (tr_WaitForOutputBufferFlush t)
        len (-1) s (tr_world t);
     let t = t\<lparr>tr_world := w, tr_written := (if done then tr_written t + word_of_int len else tr_written t)\<rparr>;
     let t = (if status < 0 then t\<lparr>tr_layer := TRANSPORT_LAYER_CLOSED\<rparr> else t);
     l \<leftarrow> cs_leave True (tr_WriteLock t);
     Some (status, s, t\<lparr>tr_WriteLock := l\<rparr>) }"

definition transport_is_write_blocked :: "'w bio \<Rightarrow> 'w rdpTransport \<Rightarrow> bool" where
  "transport_is_write_blocked B t = BIO_write_blocked B (tr_world t)"

definition transport_drain_output_buffer :: "'w bio \<Rightarrow> 'w rdpTransport \<Rightarrow> (int \<times> 'w rdpTransport) option" where
  "transport_drain_output_buffer B t =
     (if BIO_write_blocked B (tr_world t) then do {
        (f, w) \<leftarrow> BIO_flush B (tr_world t);
        let t = t\<lparr>tr_world := w\<rparr>;
        Some (if f < 1 then -1 else if BIO_write_blocked B w then 1 else 0, t) }
      else Some (0, t))"

section \<open>The receiving loop\<close>

text \<open>
  What \<^verbatim>\<open>transport_check_fds\<close> uses of its surroundings: whether the session is being closed, the
  stream pool, and the callback that handles a unit. The stream pool may be empty, which
  leaves \<^verbatim>\<open>NULL\<close> as the receive buffer.
\<close>

record 'w tr_env =
  te_shall_disconnect :: "'w \<Rightarrow> bool"
  te_StreamPool_Take :: "'w \<Rightarrow> wStream option \<times> 'w"
  te_Stream_Release :: "'w \<Rightarrow> 'w"
  te_ReceiveCallback :: "wStream \<Rightarrow> 'w rdpTransport \<Rightarrow> int \<times> 'w rdpTransport"

partial_function (option) transport_check_fds ::
    "byte allocator \<Rightarrow> 'w bio \<Rightarrow> 'w tr_env \<Rightarrow> wStream option \<Rightarrow> 'w rdpTransport \<Rightarrow>
     (int \<times> wStream option \<times> 'w rdpTransport) option" where
  "transport_check_fds A B E ReceiveBuffer t =
     (if te_shall_disconnect E (tr_world t) then Some (0, ReceiveBuffer, t)
      else (case ReceiveBuffer of
          None \<Rightarrow> Some (-1, None, t)
        | Some s \<Rightarrow> do {
            (status, received, t) \<leftarrow> transport_read_pdu A B t s;
            if status \<le> 0 then Some (status, Some received, t)
            else (case te_StreamPool_Take E (tr_world t) of (fresh, w) \<Rightarrow>
              let t = t\<lparr>tr_world := w\<rparr> in
              if fresh = None then Some (-1, None, t)
              else (case te_ReceiveCallback E received t of (recv_status, t) \<Rightarrow>
                let t = t\<lparr>tr_world := te_Stream_Release E (tr_world t)\<rparr> in
                if recv_status = 1 \<or> recv_status = 2 then Some (recv_status, fresh, t)
                else if recv_status < 0 then Some (-1, fresh, t)
                else transport_check_fds A B E fresh t)) }))"

section \<open>Settings of the transport\<close>

definition transport_set_gateway_enabled :: "'w rdpTransport \<Rightarrow> bool \<Rightarrow> 'w rdpTransport" where
  "transport_set_gateway_enabled t b = t\<lparr>tr_GatewayEnabled := b\<rparr>"

definition transport_set_nla_mode :: "'w rdpTransport \<Rightarrow> bool \<Rightarrow> 'w rdpTransport" where
  "transport_set_nla_mode t b = t\<lparr>tr_NlaMode := b\<rparr>"

definition transport_connect_rdp :: "'w rdpTransport \<Rightarrow> bool" where
  "transport_connect_rdp t = True"

definition transport_accept_rdp :: "'w rdpTransport \<Rightarrow> bool" where
  "transport_accept_rdp t = True"

text \<open>The call \<^verbatim>\<open>BIO_set_nonblock\<close> is an argument.\<close>

definition transport_set_blocking_mode ::
    "(bool \<Rightarrow> 'w \<Rightarrow> bool \<times> 'w) \<Rightarrow> 'w rdpTransport \<Rightarrow> bool \<Rightarrow> bool \<times> 'w rdpTransport" where
  "transport_set_blocking_mode BIO_set_nonblock t blocking =
     (case BIO_set_nonblock (\<not> blocking) (tr_world t) of (r, w) \<Rightarrow> (r, t\<lparr>tr_blocking := blocking, tr_world := w\<rparr>))"

text \<open>
  Stopping the thread of the transport and freeing the TLS layer, the BIO chain and the gateway
  connections is an argument; the fields of the transport are reset here.
\<close>

definition transport_disconnect :: "('w \<Rightarrow> 'w) \<Rightarrow> 'w rdpTransport \<Rightarrow> bool \<times> 'w rdpTransport" where
  "transport_disconnect release t =
     (True, t\<lparr>tr_world := release (tr_world t), tr_frontBio := False, tr_layer := TRANSPORT_LAYER_TCP\<rparr>)"

section \<open>Contracts of the BIO\<close>

text \<open>
  \<open>taken w\<close> is what the BIO has delivered so far; \<open>patience w\<close> bounds the bytes that are still
  to come and the waits until then; \<open>app w\<close> is the state of the program above, which the BIO does not touch. A successful read delivers between one byte and the
  number asked for.
\<close>

definition delivers :: "('w \<Rightarrow> byte list) \<Rightarrow> ('w \<Rightarrow> nat) \<Rightarrow> ('w \<Rightarrow> 'x) \<Rightarrow> 'w \<Rightarrow> 'w \<Rightarrow> byte list \<Rightarrow> bool" where
  "delivers taken patience app w w' d \<longleftrightarrow> taken w' = taken w @ d \<and> patience w' + length d \<le> patience w \<and> app w' = app w"

lemma delivers_Nil [simp]: "delivers taken patience app w w []"
  by (simp add: delivers_def)

lemma delivers_trans:
  "delivers taken patience app w w' d \<Longrightarrow> delivers taken patience app w' w'' e \<Longrightarrow> delivers taken patience app w w'' (d @ e)"
  by (simp add: delivers_def)

locale byte_source =
  fixes B :: "'w bio" and taken :: "'w \<Rightarrow> byte list" and patience :: "'w \<Rightarrow> nat" and app :: "'w \<Rightarrow> 'x"
  assumes read_data: "BIO_read B n w = (st, d, w') \<Longrightarrow> 0 < st \<Longrightarrow>
      st = int (length d) \<and> st \<le> n \<and> delivers taken patience app w w' d"
    and read_none: "BIO_read B n w = (st, d, w') \<Longrightarrow> st \<le> 0 \<Longrightarrow> delivers taken patience app w w' []"
    and wait_read: "BIO_wait_read B w = (r, w') \<Longrightarrow>
      delivers taken patience app w w' [] \<and> (0 \<le> r \<longrightarrow> patience w' < patience w)"

text \<open>
  What a receiving stream holds: the bytes \<open>h\<close>, in front of its position. The length field does
  not matter: a stream that comes from the pool keeps the one of its last use.
\<close>

definition rx :: "wStream \<Rightarrow> byte list \<Rightarrow> bool" where
  "rx s h \<longleftrightarrow> st_capacity s = length (st_buffer s) \<and> 0 < st_capacity s \<and> st_capacity s < BLOCK_MAX \<and>
     st_pointer s = length h \<and> take (length h) (st_buffer s) = h"

text \<open>The parts of the transport that reading leaves alone.\<close>

definition tr_frame :: "'w rdpTransport \<Rightarrow> 'w rdpTransport \<Rightarrow> bool" where
  "tr_frame t t' \<longleftrightarrow> t' = t\<lparr>tr_world := tr_world t', tr_layer := tr_layer t'\<rparr>"

lemma tr_frame_refl [simp]: "tr_frame t t"
  by (simp add: tr_frame_def)

lemma tr_frame_trans: "tr_frame t t' \<Longrightarrow> tr_frame t' t'' \<Longrightarrow> tr_frame t t''"
  unfolding tr_frame_def by (cases t, cases t', cases t'') simp

lemma tr_frame_world [simp]: "tr_frame t (t\<lparr>tr_world := w\<rparr>)" "tr_frame t (t\<lparr>tr_world := w, tr_layer := l\<rparr>)"
  "tr_frame t (t\<lparr>tr_layer := l\<rparr>)"
  by (simp_all add: tr_frame_def)

lemma tr_frame_fields:
  assumes "tr_frame t t'"
  shows "tr_NlaMode t' = tr_NlaMode t" "tr_blocking t' = tr_blocking t" "tr_frontBio t' = tr_frontBio t"
  using assms unfolding tr_frame_def by (cases t, cases t'; simp)+

lemma mem_write_append:
  assumes "off + length d + length e \<le> length xs"
  shows "take (off + length d) (take off xs @ d @ drop (off + length d) xs) @ e @
     drop (off + length d + length e) (take off xs @ d @ drop (off + length d) xs)
   = take off xs @ (d @ e) @ drop (off + length (d @ e)) xs"
  using assms by (simp add: min_absorb2 drop_append ac_simps)

lemma sint_u32: "n < 2 ^ 31 \<Longrightarrow> sint (word_of_nat n :: u32) = int n"
  by (simp add: sint_of_nat to_int_small)

lemma u32_of_nat_eq: "n < 2 ^ 31 \<Longrightarrow> m < 2 ^ 31 \<Longrightarrow> (word_of_int (int m) = (word_of_nat n :: u32)) \<longleftrightarrow> m = n"
  by (simp add: word_unat_eq_iff unsigned_of_nat unsigned_of_int take_bit_eq_mod)

lemma rx_store:
  assumes "rx s h" "length h + length new \<le> st_capacity s"
  shows "rx (s\<lparr>st_buffer := take (length h) (st_buffer s) @ new @ drop (length h + length new) (st_buffer s),
      st_pointer := length h + length new\<rparr>) (h @ new)"
  using assms by (auto simp: rx_def stream_wf_def)

context byte_source
begin

text \<open>The loop ends, and stores exactly what the BIO delivers.\<close>

lemma read_loop_ok:
  assumes "tr_frontBio t" "0 \<le> rd" "data + nat bytes \<le> length buf" "bytes < INT_LIM"
  shows "\<exists>st t' new. transport_read_loop B data bytes buf rd t =
       Some (st, take (data + nat rd) buf @ new @ drop (data + nat rd + length new) buf, t') \<and>
     delivers taken patience app (tr_world t) (tr_world t') new \<and> tr_frame t t' \<and> rd + int (length new) \<le> max rd bytes \<and>
     (st = -1 \<or> st = rd + int (length new) \<and> (st < bytes \<longrightarrow> \<not> tr_blocking t))"
  using assms
proof (induction "patience (tr_world t) + nat (bytes - rd)" arbitrary: t buf rd rule: less_induct)
  case less
  note unfold = transport_read_loop.simps [of B data bytes buf rd t]
  show ?case
  proof (cases "rd < bytes")
    case False
    then show ?thesis using less.prems
      by (intro exI [of _ rd] exI [of _ t] exI [of _ "[]"]) (simp add: unfold)
  next
    case True
    obtain st d w where r: "BIO_read B (bytes - rd) (tr_world t) = (st, d, w)" by (metis prod_cases3)
    show ?thesis
    proof (cases "0 < st")
      case pos: True
      note R = read_data [OF r pos]
      have fit: "data + nat rd + length d \<le> length buf" using R less.prems True by linarith
      define buf' where "buf' = take (data + nat rd) buf @ d @ drop (data + nat rd + length d) buf"
      have mw: "mem_write buf (data + nat rd) d = Some buf'" "length buf' = length buf"
        using fit by (simp_all add: mem_write_in buf'_def)
      have ck: "int_ck (rd + st) = Some (rd + st)"
        using R less.prems True by (simp add: int_ck_def INT_LIM_def)
      have dec: "patience w + nat (bytes - (rd + st)) < patience (tr_world t) + nat (bytes - rd)"
        using R True pos unfolding delivers_def by linarith
      obtain st' t' new where IH: "transport_read_loop B data bytes buf' (rd + st) (t\<lparr>tr_world := w\<rparr>) =
           Some (st', take (data + nat (rd + st)) buf' @ new @ drop (data + nat (rd + st) + length new) buf', t')"
         "delivers taken patience app w (tr_world t') new" "tr_frame (t\<lparr>tr_world := w\<rparr>) t'"
         "rd + st + int (length new) \<le> max (rd + st) bytes"
         "st' = -1 \<or> st' = rd + st + int (length new) \<and> (st' < bytes \<longrightarrow> \<not> tr_blocking t)"
        using less.hyps [of "t\<lparr>tr_world := w\<rparr>" "rd + st" buf'] less.prems dec pos mw by auto
      have n: "nat (rd + st) = nat rd + length d" using R less.prems by (simp add: nat_add_distrib)
      have fit2: "data + nat rd + length d + length new \<le> length buf"
        using IH(4) R less.prems True n by (simp add: max_def split: if_splits)
      show ?thesis
      proof (intro exI conjI)
        show "transport_read_loop B data bytes buf rd t =
            Some (st', take (data + nat rd) buf @ (d @ new) @ drop (data + nat rd + length (d @ new)) buf, t')"
          using IH(1) [unfolded n add.assoc [symmetric] mem_write_append [OF fit2, folded buf'_def]] True r pos mw(1) ck
          by (simp add: unfold add.assoc)
        show "delivers taken patience app (tr_world t) (tr_world t') (d @ new)" using R IH(2) by (simp add: delivers_def)
        show "tr_frame t t'" by (rule tr_frame_trans [OF tr_frame_world(1) IH(3)])
        show "rd + int (length (d @ new)) \<le> max rd bytes" using IH(4) R by simp
        show "st' = -1 \<or> st' = rd + int (length (d @ new)) \<and> (st' < bytes \<longrightarrow> \<not> tr_blocking t)"
          using IH(5) R by auto
      qed
    next
      case neg: False
      then have R: "delivers taken patience app (tr_world t) w []" using read_none [OF r] by simp
      show ?thesis
      proof (cases "BIO_should_retry B w \<and> tr_blocking t")
        case retry: True
        obtain q w2 where q: "BIO_wait_read B w = (q, w2)" by fastforce
        note W = wait_read [OF q]
        then have RW: "delivers taken patience app (tr_world t) w2 []" using delivers_trans [OF R] by fastforce
        show ?thesis
        proof (cases "q < 0")
          case True
          then show ?thesis
            using unfold r neg retry q RW less.prems \<open>rd < bytes\<close>
            by (intro exI [of _ "-1"] exI [of _ "t\<lparr>tr_world := w2\<rparr>"] exI [of _ "[]"]) simp
        next
          case False
          then have "patience w2 + nat (bytes - rd) < patience (tr_world t) + nat (bytes - rd)"
            using W R by (simp add: delivers_def)
          then obtain st' t' new where IH: "transport_read_loop B data bytes buf rd (t\<lparr>tr_world := w2\<rparr>) =
             Some (st', take (data + nat rd) buf @ new @ drop (data + nat rd + length new) buf, t')"
           "delivers taken patience app w2 (tr_world t') new" "tr_frame (t\<lparr>tr_world := w2\<rparr>) t'"
           "rd + int (length new) \<le> max rd bytes"
           "st' = -1 \<or> st' = rd + int (length new) \<and> (st' < bytes \<longrightarrow> \<not> tr_blocking t)"
            using less.hyps [of "t\<lparr>tr_world := w2\<rparr>" rd buf] less.prems by auto
          have "tr_frame t t'" by (rule tr_frame_trans [OF tr_frame_world(1) IH(3)])
          moreover have "delivers taken patience app (tr_world t) (tr_world t') new"
            using delivers_trans [OF RW IH(2)] by simp
          ultimately show ?thesis
            using IH False r neg retry q less.prems \<open>rd < bytes\<close>
            by (intro exI [of _ st'] exI [of _ t'] exI [of _ new]) (simp add: unfold)
        qed
      next
        case stop: False
        let ?t = "if BIO_should_retry B w then t\<lparr>tr_world := w\<rparr>
          else t\<lparr>tr_world := w, tr_layer := TRANSPORT_LAYER_CLOSED\<rparr>"
        show ?thesis
          using r neg stop R less.prems True
          by (intro exI [of _ "if BIO_should_retry B w then rd else -1"] exI [of _ ?t] exI [of _ "[]"])
             (auto simp: unfold)
      qed
    qed
  qed
qed

text \<open>How \<^verbatim>\<open>transport_read_layer_bytes\<close> reports what it read.\<close>

lemma layer_bytes_ok:
  assumes "rx s h" "length h + n \<le> st_capacity s" "n < 2 ^ 31"
  shows "\<exists>st s' t' new. transport_read_layer_bytes B t s (word_of_nat n) = Some (st, s', t') \<and>
     delivers taken patience app (tr_world t) (tr_world t') new \<and> tr_frame t t' \<and> st_capacity s' = st_capacity s \<and>
     (st = -1 \<or> rx s' (h @ new) \<and>
       (st = 1 \<and> length new = n \<or> st = 0 \<and> (n = 0 \<and> new = [] \<or> length new < n \<and> \<not> tr_blocking t)))"
proof (cases "tr_frontBio t")
  case False
  then show ?thesis
    by (intro exI [of _ "-1"] exI [of _ s] exI [of _ "t\<lparr>tr_layer := TRANSPORT_LAYER_CLOSED\<rparr>"] exI [of _ "[]"])
       (simp add: transport_read_layer_bytes_def transport_read_layer_def)
next
  case True
  have s: "st_pointer s = length h" "length (st_buffer s) = st_capacity s"
    using assms(1) by (auto simp: rx_def stream_wf_def)
  obtain st t' new where L: "transport_read_loop B (length h) (int n) (st_buffer s) 0 t =
       Some (st, take (length h) (st_buffer s) @ new @ drop (length h + length new) (st_buffer s), t')"
     "delivers taken patience app (tr_world t) (tr_world t') new" "tr_frame t t'" "length new \<le> n"
     "st = -1 \<or> st = int (length new) \<and> (st < int n \<longrightarrow> \<not> tr_blocking t)"
    using read_loop_ok [OF True, of 0 "length h" "int n" "st_buffer s"] assms s by (auto simp: INT_LIM_def)
  define s' where "s' = s\<lparr>st_buffer := take (length h) (st_buffer s) @ new @ drop (length h + length new) (st_buffer s)\<rparr>"
  have fit: "length h + length new \<le> st_capacity s" using L(4) assms(2) by simp
  have rd: "transport_read_layer B t (st_buffer s) (st_pointer s) (sint (word_of_nat n :: u32)) =
      Some (st, st_buffer s', t')"
    using True L(1) assms(3) s by (simp add: transport_read_layer_def sint_u32 s'_def)
  show ?thesis
  proof (cases "0 < st")
    case True
    then have st: "st = int (length new)" using L(5) by auto
    have seek: "Stream_Seek s' st = Some (s'\<lparr>st_pointer := length h + length new\<rparr>)"
      using fit s by (simp add: Stream_Seek_def s'_def st)
    have "transport_read_layer_bytes B t s (word_of_nat n) =
        Some (if length new = n then 1 else 0, s'\<lparr>st_pointer := length h + length new\<rparr>, t')"
      using rd seek True u32_of_nat_eq [of n "length new"] L(4) assms(3) st
      by (auto simp: transport_read_layer_bytes_def s'_def)
    moreover have "rx (s'\<lparr>st_pointer := length h + length new\<rparr>) (h @ new)"
      using rx_store [OF assms(1) fit] by (simp add: s'_def)
    ultimately show ?thesis using L st
      by (intro exI [of _ "if length new = n then 1 else 0"] exI [of _ "s'\<lparr>st_pointer := length h + length new\<rparr>"]
          exI [of _ t'] exI [of _ new]) (auto simp: s'_def)
  next
    case False
    then have "transport_read_layer_bytes B t s (word_of_nat n) = Some (st, s', t')"
      using rd by (simp add: transport_read_layer_bytes_def s'_def)
    moreover have "rx s' (h @ new)" if "st = 0"
      using assms(1) L(5) that by (simp add: s'_def)
    ultimately show ?thesis using L False
      by (intro exI [of _ st] exI [of _ s'] exI [of _ t'] exI [of _ new]) (auto simp: s'_def)
  qed
qed

end

section \<open>Headers of data units\<close>

text \<open>
  What the bytes \<open>bs\<close> at the start of a unit say about its length: a TSRequest in NLA mode, a
  TPKT packet, or a fast-path packet.
\<close>

datatype pdu_hdr = NeedBytes nat | BadHeader | PduLen nat

definition pdu_header :: "bool \<Rightarrow> byte list \<Rightarrow> pdu_hdr" where
  "pdu_header nla bs =
     (if length bs < 2 then NeedBytes 2
      else let b = unat (bs ! 1) in
        if nla then
          if bs ! 0 \<noteq> 0x30 then PduLen 0
          else if b < 128 then PduLen (b + 2)
          else if b = 129 then (if length bs < 3 then NeedBytes 3 else PduLen (unat (bs ! 2) + 3))
          else if b = 130 then
            (if length bs < 4 then NeedBytes 4 else PduLen (256 * unat (bs ! 2) + unat (bs ! 3) + 4))
          else BadHeader
        else if bs ! 0 = 3 then
          (if length bs < 4 then NeedBytes 4
           else let n = 256 * unat (bs ! 2) + unat (bs ! 3) in if n < 7 then BadHeader else PduLen n)
        else if b < 128 then (if b < 3 then BadHeader else PduLen b)
        else if length bs < 3 then NeedBytes 3
        else let n = 256 * (b - 128) + unat (bs ! 2) in if n < 3 then BadHeader else PduLen n)"

text \<open>More bytes are needed; and the unit is complete before the last part is asked for.\<close>

definition pdu_pending :: "bool \<Rightarrow> byte list \<Rightarrow> bool" where
  "pdu_pending nla bs = (case pdu_header nla bs of NeedBytes _ \<Rightarrow> True | BadHeader \<Rightarrow> False | PduLen n \<Rightarrow> length bs < n)"

definition pdu_stuck :: "bool \<Rightarrow> byte list \<Rightarrow> bool" where
  "pdu_stuck nla bs = (case pdu_header nla bs of PduLen n \<Rightarrow> n \<le> length bs | _ \<Rightarrow> False)"

text \<open>
  Looking at the header either tells the length of the unit, having read no more than four
  bytes, or returns: with an error, or without enough bytes in non-blocking mode.
\<close>

definition hdr_outcome :: "('w \<Rightarrow> byte list) \<Rightarrow> ('w \<Rightarrow> nat) \<Rightarrow> ('w \<Rightarrow> 'x) \<Rightarrow> 'w rdpTransport \<Rightarrow> wStream \<Rightarrow> byte list \<Rightarrow>
    ((int + int) \<times> wStream \<times> 'w rdpTransport) option \<Rightarrow> bool" where
  "hdr_outcome taken patience app t s h x \<longleftrightarrow> (\<exists>r s' t' new. x = Some (r, s', t') \<and>
     delivers taken patience app (tr_world t) (tr_world t') new \<and> tr_frame t t' \<and> st_capacity s' = st_capacity s \<and>
     (case r of Inl st \<Rightarrow> st = -1 \<or> st = 0 \<and> rx s' (h @ new) \<and> pdu_pending (tr_NlaMode t) (h @ new) \<and> \<not> tr_blocking t
      | Inr n \<Rightarrow> rx s' (h @ new) \<and> 0 \<le> n \<and> pdu_header (tr_NlaMode t) (h @ new) = PduLen (nat n) \<and>
          length (h @ new) \<le> max 4 (length h)))"

text \<open>What \<^verbatim>\<open>transport_read_pdu\<close> does with a stream that holds the bytes \<open>h\<close>.\<close>

definition pdu_outcome :: "('w \<Rightarrow> byte list) \<Rightarrow> ('w \<Rightarrow> nat) \<Rightarrow> ('w \<Rightarrow> 'x) \<Rightarrow> 'w rdpTransport \<Rightarrow> byte list \<Rightarrow>
    (int \<times> wStream \<times> 'w rdpTransport) option \<Rightarrow> bool" where
  "pdu_outcome taken patience app t h x \<longleftrightarrow> (\<exists>st s' t' new. x = Some (st, s', t') \<and>
     delivers taken patience app (tr_world t) (tr_world t') new \<and> tr_frame t t' \<and>
     (if 0 < st
      then st = int (length (h @ new)) \<and> pdu_header (tr_NlaMode t) (h @ new) = PduLen (length (h @ new)) \<and>
        stream_wf s' \<and> st_pointer s' = 0 \<and> st_rest s' = h @ new
      else if st = 0
      then rx s' (h @ new) \<and> (pdu_stuck (tr_NlaMode t) (h @ new) \<and> length (h @ new) \<le> max 4 (length h) \<or>
        pdu_pending (tr_NlaMode t) (h @ new) \<and> \<not> tr_blocking t)
      else st = -1))"

lemma pdu_outcome_extend:
  assumes "pdu_outcome taken patience app t' (h @ x) r" "tr_frame t t'" "delivers taken patience app (tr_world t) (tr_world t') x"
    and len: "length (h @ x) \<le> max 4 (length h)"
  shows "pdu_outcome taken patience app t h r"
proof -
  obtain st s2 t2 new where o: "r = Some (st, s2, t2)" "delivers taken patience app (tr_world t) (tr_world t2) (x @ new)" "tr_frame t t2"
     "if 0 < st then st = int (length ((h @ x) @ new)) \<and>
          pdu_header (tr_NlaMode t) ((h @ x) @ new) = PduLen (length ((h @ x) @ new)) \<and>
          stream_wf s2 \<and> st_pointer s2 = 0 \<and> st_rest s2 = (h @ x) @ new
      else if st = 0 then rx s2 ((h @ x) @ new) \<and> (pdu_stuck (tr_NlaMode t) ((h @ x) @ new) \<and>
          length ((h @ x) @ new) \<le> max 4 (length (h @ x)) \<or>
        pdu_pending (tr_NlaMode t) ((h @ x) @ new) \<and> \<not> tr_blocking t)
      else st = -1"
    using assms tr_frame_trans [OF assms(2)] delivers_trans [OF assms(3)]
    unfolding pdu_outcome_def tr_frame_fields [OF assms(2)] by blast
  have "length ((h @ x) @ new) \<le> max 4 (length h)" if "length ((h @ x) @ new) \<le> max 4 (length (h @ x))"
    using that len by linarith
  with o show ?thesis unfolding pdu_outcome_def append_assoc by (metis append_assoc)
qed

lemma hdr_outcome_if:
  "(c \<Longrightarrow> hdr_outcome taken patience app t s h x) \<Longrightarrow> (\<not> c \<Longrightarrow> hdr_outcome taken patience app t s h y) \<Longrightarrow>
   hdr_outcome taken patience app t s h (if c then x else y)"
  by simp

lemma pdu_header_bound: "pdu_header nla bs = PduLen n \<Longrightarrow> n < 65540"
  using unat_byte_less [of "bs ! 1"] unat_byte_less [of "bs ! 2"] unat_byte_less [of "bs ! 3"]
  by (auto simp: pdu_header_def Let_def split: if_splits)

lemma pdu_header_append:
  assumes "pdu_header nla bs = PduLen n"
  shows "pdu_header nla (bs @ cs) = PduLen n"
proof -
  have two: "\<not> length bs < 2" using assms by (auto simp: pdu_header_def)
  then have nth: "(bs @ cs) ! 0 = bs ! 0" "(bs @ cs) ! 1 = bs ! 1" "\<not> length (bs @ cs) < 2"
    by (auto simp: nth_append)
  have more: "\<not> length bs < 3 \<Longrightarrow> (bs @ cs) ! 2 = bs ! 2 \<and> \<not> length (bs @ cs) < 3"
    "\<not> length bs < 4 \<Longrightarrow> (bs @ cs) ! 2 = bs ! 2 \<and> (bs @ cs) ! 3 = bs ! 3 \<and> \<not> length (bs @ cs) < 4"
    by (simp_all add: nth_append)
  show ?thesis
    using assms unfolding pdu_header_def Let_def nth if_not_P [OF two] if_not_P [OF nth(3)]
    by (simp only: more split: if_split_asm) (use more in auto)
qed

lemma c_be16_val: "c_be16 hi lo = 256 * int (unat hi) + int (unat lo)"
proof -
  have "push_bit 8 (ucast hi :: u32) AND ucast lo = 0"
    by (rule bit_word_eqI) (auto simp: bit_simps dest: bit_imp_le_length)
  then have "push_bit 8 (ucast hi :: u32) OR ucast lo = push_bit 8 (ucast hi) + ucast lo"
    by (simp add: disjunctive_add_eq_or)
  moreover have "unat (push_bit 8 (ucast hi :: u32) + ucast lo) = 256 * unat hi + unat lo"
    using unat_byte_less [of hi] unat_byte_less [of lo] by (simp add: unat_bytes_simps)
  ultimately have v: "unat (push_bit 8 (ucast hi :: u32) OR ucast lo) = 256 * unat hi + unat lo" by (simp only:)
  have "c_be16 hi lo = int (unat (push_bit 8 (ucast hi :: u32) OR ucast lo))" unfolding c_be16_def by (rule of_nat_unat [symmetric])
  then show ?thesis unfolding v by simp
qed

lemma c_be16_alt: "c_be16 hi lo = int (256 * unat hi + unat lo)"
  unfolding c_be16_val by simp

lemma unat_and_7F: "unat (b AND 0x7F :: byte) = unat b mod 128"
proof -
  have "b AND 0x7F = take_bit 7 b" by (simp add: take_bit_eq_mask mask_eq_exp_minus_1)
  then have "unat (b AND 0x7F) = take_bit 7 (unat b)" by (simp only: unsigned_take_bit_eq)
  then show ?thesis by (simp add: take_bit_eq_mod)
qed

lemma byte_low_bits:
  assumes "128 \<le> unat (b :: byte)"
  shows "unat (b AND 0x7F) = unat b - 128" "b AND NOT 0x80 = 1 \<longleftrightarrow> unat b = 129" "b AND NOT 0x80 = 2 \<longleftrightarrow> unat b = 130"
proof -
  have m: "unat b mod 128 = unat b - 128"
    using assms unat_byte_less [of b] by (simp add: mod_if)
  show "unat (b AND 0x7F) = unat b - 128" by (simp add: unat_and_7F m)
  moreover have "NOT 0x80 = (0x7F :: byte)" by simp
  ultimately have "unat (b AND NOT 0x80) = unat b - 128" by (simp only:)
  then show "b AND NOT 0x80 = 1 \<longleftrightarrow> unat b = 129" "b AND NOT 0x80 = 2 \<longleftrightarrow> unat b = 130"
    unfolding word_unat_eq_iff using assms by auto
qed

lemma rx_nth: "rx s h \<Longrightarrow> i < length h \<Longrightarrow> arr_get (st_buffer s) i = Some (h ! i)"
  unfolding rx_def arr_get_def by (metis length_take min.strict_boundedE nth_take)

lemma rx_le: "rx s h \<Longrightarrow> length h \<le> st_capacity s"
  unfolding rx_def by (metis length_take min.cobounded1)

lemma rx_ensure:
  assumes "rx s h" "n \<le> BLOCK_MAX"
  shows "\<exists>ok s'. Stream_EnsureCapacity A s n = Some (ok, s') \<and>
     (ok \<longrightarrow> rx s' h \<and> n \<le> st_capacity s' \<and> st_capacity s \<le> st_capacity s')"
proof (cases "st_capacity s < n")
  case True
  have s: "st_capacity s = length (st_buffer s)" "st_pointer s \<le> st_capacity s" "0 < st_capacity s"
    using assms rx_le [OF assms(1)] by (auto simp: rx_def)
  obtain ok s' where e: "Stream_EnsureCapacity A s n = Some (ok, s')" "ok \<longrightarrow> stream_grown s n s'"
    using Stream_EnsureCapacity_ok [OF s True assms(2), of A] by (auto simp: Let_def split: if_splits)
  have "rx s' h \<and> n \<le> st_capacity s' \<and> st_capacity s \<le> st_capacity s'" if "stream_grown s n s'"
  proof -
    have "take (length h) (st_buffer s') = take (length h) (st_buffer s)"
      using that rx_le [OF assms(1)] s(1) by (simp add: stream_grown_def)
    also have "\<dots> = h" using assms(1) unfolding rx_def by blast
    finally have "take (length h) (st_buffer s') = h" .
    moreover have "st_capacity s' = length (st_buffer s')" "st_capacity s' < BLOCK_MAX" "n \<le> st_capacity s'"
      using that unfolding stream_grown_def stream_wf_def by blast+
    moreover have "st_pointer s' = length h" using that assms(1) unfolding stream_grown_def rx_def by metis
    ultimately show ?thesis using True s(3) unfolding rx_def by linarith
  qed
  then show ?thesis using e by blast
next
  case False
  then show ?thesis using assms by (intro exI [of _ True]) (simp add: Stream_EnsureCapacity_def)
qed

context byte_source
begin

lemma need_ok:
  assumes "rx s h" "k \<le> st_capacity s" "k < 2 ^ 31"
  shows "\<exists>r s' t' new. transport_need B t s (int (length h)) (int k) = Some (r, s', t') \<and>
     delivers taken patience app (tr_world t) (tr_world t') new \<and> tr_frame t t' \<and> st_capacity s' = st_capacity s \<and>
     (case r of None \<Rightarrow> rx s' (h @ new) \<and> length (h @ new) = max k (length h)
      | Some st \<Rightarrow> st = -1 \<or> st = 0 \<and> rx s' (h @ new) \<and> length h + length new < k \<and> \<not> tr_blocking t)"
proof (cases "length h < k")
  case True
  define m where "m = k - length h"
  have m: "length h + m = k" "0 < m" "m < 2 ^ 31" using True assms(3) by (simp_all add: m_def)
  have w: "word_of_int (int k - int (length h)) = (word_of_nat m :: u32)"
    using True by (simp add: m_def flip: of_nat_diff)
  obtain st s' t' new where L: "transport_read_layer_bytes B t s (word_of_nat m) = Some (st, s', t')"
     "delivers taken patience app (tr_world t) (tr_world t') new" "tr_frame t t'" "st_capacity s' = st_capacity s"
     "st = -1 \<or> rx s' (h @ new) \<and> (st = 1 \<and> length new = m \<or>
        st = 0 \<and> (m = 0 \<and> new = [] \<or> length new < m \<and> \<not> tr_blocking t))"
    using layer_bytes_ok [OF assms(1), of m t] m assms(2) by auto
  show ?thesis
    by (rule exI [of _ "if st \<noteq> 1 then Some st else None"], rule exI [of _ s'], rule exI [of _ t'], rule exI [of _ new])
       (use L True w m in \<open>auto simp: transport_need_def\<close>)
next
  case False
  then show ?thesis using assms
    by (intro exI [of _ None] exI [of _ s] exI [of _ t] exI [of _ "[]"]) (simp add: transport_need_def)
qed

text \<open>Reading more of the header, then deciding on it.\<close>

lemma need_then:
  assumes "rx s h" "k \<le> st_capacity s" "k \<le> 4"
    and pend: "\<And>new. length (h @ new) < k \<Longrightarrow> pdu_pending (tr_NlaMode t) (h @ new)"
    and fin: "\<And>s' t' new. rx s' (h @ new) \<Longrightarrow> k \<le> length (h @ new) \<Longrightarrow>
      \<exists>r. G s' t' = Some (r, s', t') \<and>
        (case r of Inl st \<Rightarrow> st = -1 | Inr n \<Rightarrow> 0 \<le> n \<and> pdu_header (tr_NlaMode t) (h @ new) = PduLen (nat n))"
  shows "hdr_outcome taken patience app t s h
     (do { (r, s, t) \<leftarrow> transport_need B t s (int (length h)) (int k);
           (case r of Some status \<Rightarrow> Some (Inl status, s, t) | None \<Rightarrow> G s t) })"
proof -
  have "k < 2 ^ 31" using assms(3) by simp
  then obtain r s' t' new where N: "transport_need B t s (int (length h)) (int k) = Some (r, s', t')"
     "delivers taken patience app (tr_world t) (tr_world t') new" "tr_frame t t'" "st_capacity s' = st_capacity s"
     "case r of None \<Rightarrow> rx s' (h @ new) \<and> length (h @ new) = max k (length h)
      | Some st \<Rightarrow> st = -1 \<or> st = 0 \<and> rx s' (h @ new) \<and> length h + length new < k \<and> \<not> tr_blocking t"
    using need_ok [OF assms(1,2), of t] by blast
  show ?thesis
  proof (cases r)
    case (Some st)
    then show ?thesis using N pend [of new] unfolding hdr_outcome_def
      by (intro exI [of _ "Inl st"] exI [of _ s'] exI [of _ t'] exI [of _ new]) auto
  next
    case None
    then have rx: "rx s' (h @ new)" "length (h @ new) = max k (length h)" using N(5) by auto
    obtain q where q: "G s' t' = Some (q, s', t')"
      "case q of Inl st \<Rightarrow> st = -1 | Inr n \<Rightarrow> 0 \<le> n \<and> pdu_header (tr_NlaMode t) (h @ new) = PduLen (nat n)"
      using fin [OF rx(1), of t'] rx(2) by auto
    show ?thesis using N(1-4) None q rx assms(3) unfolding hdr_outcome_def
      by (intro exI [of _ q] exI [of _ s'] exI [of _ t'] exI [of _ new]) (auto split: sum.splits)
  qed
qed

lemma header_known:
  assumes "rx s h" "case r of Inl st \<Rightarrow> st = -1 | Inr n \<Rightarrow> 0 \<le> n \<and> pdu_header (tr_NlaMode t) h = PduLen (nat n)"
  shows "hdr_outcome taken patience app t s h (Some (r, s, t))"
  unfolding hdr_outcome_def using assms
  by (intro exI [of _ r] exI [of _ s] exI [of _ t] exI [of _ "[]"]) (auto split: sum.splits)

lemma pdu_length_ok:
  assumes "rx s h" "2 \<le> length h" "length h < 2 ^ 31" "4 \<le> st_capacity s"
  shows "hdr_outcome taken patience app t s h (transport_pdu_length B t s)"
proof -
  have pos: "to_int (Stream_GetPosition s) = int (length h)"
    using assms(1,3) by (simp add: Stream_GetPosition_def rx_def to_int_small)
  have h01: "arr_get (st_buffer s) 0 = Some (h ! 0)" "arr_get (st_buffer s) 1 = Some (h ! 1)"
    using rx_nth [OF assms(1), of 0] rx_nth [OF assms(1), of 1] assms(2) by linarith+
  have pre: "(h @ new) ! 0 = h ! 0" "(h @ new) ! 1 = h ! 1" "\<not> length (h @ new) < 2" "\<not> length h < 2" for new
    using assms(2) by (auto simp: nth_append)
  note hdr = pdu_header_def Let_def pre pre [unfolded One_nat_def]
  have nth: "arr_get (st_buffer s') i = Some ((h @ new) ! i)" if "rx s' (h @ new)" "i < length (h @ new)" for s' new i
    using rx_nth [OF that] .
  note need3 = need_then [OF assms(1), where k = 3 and t = t, unfolded of_nat_numeral]
  note need4 = need_then [OF assms(1), where k = 4 and t = t, unfolded of_nat_numeral]
  have be4: "0 \<le> c_be16 a b" "nat (c_be16 a b) = 256 * unat a + unat b"
    "c_be16 a b < numeral k \<longleftrightarrow> 256 * unat a + unat b < numeral k" for a b k
    unfolding c_be16_alt by (simp, simp only: nat_int, metis of_nat_less_iff of_nat_numeral)
  have u3: "nat (uint b + 3) = unat b + 3" "nat (uint b + 2) = unat b + 2" "nat (uint b) = unat b" for b :: byte
    by (simp_all add: nat_add_distrib)
  have hb: "h ! 1 AND 0x80 \<noteq> 0 \<longleftrightarrow> 128 \<le> unat (h ! 1)" by (rule byte_high_bit)
  note low = byte_low_bits [of "h ! 1"]
  show ?thesis
    unfolding transport_pdu_length_def pos Let_def h01 Option.bind.simps
  proof (intro hdr_outcome_if, goal_cases)
    case 1
    then have "unat (h ! 1) = 129" using hb low(2) by blast
    with 1 show ?case
      by (intro need3) (use assms(4) in \<open>auto simp: pdu_pending_def hdr nth u3\<close>)
  next
    case 2
    then have "unat (h ! 1) = 130" using hb low(3) by blast
    with 2 show ?case
      by (intro need4) (use assms(4) in \<open>auto simp: pdu_pending_def hdr nth be4 nat_add_distrib\<close>)
  next
    case 3
    then show ?case by (intro header_known [OF assms(1)]) simp
  next
    case 4
    then have "unat (h ! 1) < 128" using hb by auto
    with 4 show ?case by (intro header_known [OF assms(1)]) (simp add: hdr u3)
  next
    case 5
    then show ?case by (intro header_known [OF assms(1)]) (simp add: hdr)
  next
    case 6
    then show ?case
      by (intro need4) (use assms(4) in \<open>auto simp: pdu_pending_def hdr nth be4\<close>)
  next
    case 7
    then have "128 \<le> unat (h ! 1)" using hb by auto
    with 7 low(1) show ?case
      by (intro need3) (use assms(4) in \<open>auto simp: pdu_pending_def hdr nth be4\<close>)
  next
    case 8
    then have "unat (h ! 1) < 128" using hb by auto
    moreover have "uint (h ! 1) = int (unat (h ! 1))" by simp
    then have "uint (h ! 1) < 3 \<longleftrightarrow> unat (h ! 1) < 3" by linarith
    ultimately show ?case using 8 by (intro header_known [OF assms(1)]) (simp add: hdr u3)
  qed
qed

text \<open>Nothing is read when the number of bytes is not positive.\<close>

lemma layer_bytes_none:
  assumes "sint n \<le> 0"
  shows "\<exists>st t'. transport_read_layer_bytes B t s n = Some (st, s, t') \<and> (st = 0 \<or> st = -1) \<and>
     tr_world t' = tr_world t \<and> tr_frame t t'"
  using assms
  by (cases "tr_frontBio t")
     (auto simp: transport_read_layer_bytes_def transport_read_layer_def transport_read_loop.simps [of B _ "sint n" _ 0])

lemma read_body_ok:
  assumes "rx s h" "length h < 2 ^ 30" "pdu_header (tr_NlaMode t) h = PduLen n"
  shows "pdu_outcome taken patience app t h
     (do { (ok, s) \<leftarrow> Stream_EnsureCapacity A s (sz_add (Stream_GetPosition s) n);
           if \<not> ok then Some (-1, s, t)
           else do {
             (status, s, t) \<leftarrow> transport_read_layer_bytes B t s (word_of_nat (sz_sub n (Stream_GetPosition s)));
             if status \<noteq> 1 then Some (status, s, t)
             else do {
               s \<leftarrow> Stream_SetPosition (Stream_SealLength s) 0;
               Some (to_int (st_length s), s, t) } } })"
proof -
  have p: "Stream_GetPosition s = length h" using assms(1) by (simp add: rx_def Stream_GetPosition_def)
  have n: "n < 65540" using assms(3) by (rule pdu_header_bound)
  have sz: "sz_add (length h) n = length h + n" "length h + n \<le> BLOCK_MAX"
    using n assms(2) by (simp_all add: sz_add_def SIZE_MOD_def BLOCK_MAX_def)
  obtain ok s1 where e: "Stream_EnsureCapacity A s (length h + n) = Some (ok, s1)"
    "ok \<longrightarrow> rx s1 h \<and> length h + n \<le> st_capacity s1"
    using rx_ensure [OF assms(1) sz(2), of A] by blast
  show ?thesis
  proof (cases ok)
    case False
    then show ?thesis using e p sz unfolding pdu_outcome_def
      by (intro exI [of _ "-1"] exI [of _ s1] exI [of _ t] exI [of _ "[]"]) simp
  next
    case ok: True
    then have rx1: "rx s1 h" "length h + n \<le> st_capacity s1" "Stream_GetPosition s1 = length h"
      using e by (auto simp: rx_def Stream_GetPosition_def)
    show ?thesis
    proof (cases "length h < n")
      case True
      define m where "m = n - length h"
      have m: "sz_sub n (length h) = m" "length h + m \<le> st_capacity s1" "m < 2 ^ 31" "length h + m = n" "0 < m"
        using True n rx1(2) by (auto simp: m_def SIZE_MOD_def intro!: sz_sub_nowrap)
      obtain st s' t' new where L: "transport_read_layer_bytes B t s1 (word_of_nat m) = Some (st, s', t')"
        "delivers taken patience app (tr_world t) (tr_world t') new" "tr_frame t t'"
        "st = -1 \<or> rx s' (h @ new) \<and> (st = 1 \<and> length new = m \<or>
           st = 0 \<and> (m = 0 \<and> new = [] \<or> length new < m \<and> \<not> tr_blocking t))"
        using layer_bytes_ok [OF rx1(1) m(2,3), of t] by blast
      note hn = pdu_header_append [OF assms(3), of new]
      show ?thesis
      proof (cases "st = 1")
        case st: True
        then have full: "rx s' (h @ new)" "length (h @ new) = n" using L(4) m by auto
        define s2 where "s2 = s'\<lparr>st_length := n, st_pointer := 0\<rparr>"
        have "Stream_SetPosition (Stream_SealLength s') 0 = Some s2"
          using full by (simp add: Stream_SetPosition_def Stream_SealLength_def rx_def s2_def)
        moreover have "stream_wf s2" "st_rest s2 = h @ new" "st_pointer s2 = 0" "st_length s2 = n"
          using full rx_le [OF full(1)] unfolding s2_def by (auto simp: rx_def stream_wf_def st_rest_def)
        moreover have "to_int n = int n" using n by (simp add: to_int_small)
        ultimately show ?thesis
          using L e(1) p sz ok m rx1 st hn full unfolding pdu_outcome_def
          by (intro exI [of _ "int n"] exI [of _ s2] exI [of _ t'] exI [of _ new]) simp
      next
        case False
        have "pdu_pending (tr_NlaMode t) (h @ new)" if "length new < m"
          using hn that m by (simp add: pdu_pending_def)
        then show ?thesis
          using L e(1) p sz ok m rx1 False unfolding pdu_outcome_def
          by (intro exI [of _ st] exI [of _ s'] exI [of _ t'] exI [of _ new]) auto
      qed
    next
      case False
      then have "sint (word_of_nat (sz_sub n (length h)) :: u32) \<le> 0"
        using assms(2) by (simp add: sint_of_nat to_int_sub_nonpos)
      then obtain st t' where L: "transport_read_layer_bytes B t s1 (word_of_nat (sz_sub n (length h))) = Some (st, s1, t')"
        "st = 0 \<or> st = -1" "tr_world t' = tr_world t" "tr_frame t t'"
        using layer_bytes_none [of _ t s1] by blast
      have "pdu_stuck (tr_NlaMode t) h" using assms(3) False by (simp add: pdu_stuck_def)
      then show ?thesis
        using L e(1) p sz ok rx1 unfolding pdu_outcome_def
        by (intro exI [of _ st] exI [of _ s1] exI [of _ t'] exI [of _ "[]"]) auto
    qed
  qed
qed

lemma read_pdu_ok:
  assumes "rx s h" "length h < 2 ^ 29"
  shows "pdu_outcome taken patience app t h (transport_read_pdu A B t s)"
proof -
  have p: "to_int (Stream_GetPosition s) = int (length h)"
    using assms by (simp add: Stream_GetPosition_def rx_def to_int_small)
  obtain ok s1 where e: "Stream_EnsureCapacity A s 4 = Some (ok, s1)"
    "ok \<longrightarrow> rx s1 h \<and> 4 \<le> st_capacity s1 \<and> st_capacity s \<le> st_capacity s1"
    using rx_ensure [OF assms(1), of 4 A] by (auto simp: BLOCK_MAX_def)
  have fail: "pdu_outcome taken patience app t h (Some (-1, s', t'))"
    if "delivers taken patience app (tr_world t) (tr_world t') new" "tr_frame t t'" for s' t' new
    unfolding pdu_outcome_def using that by auto
  show ?thesis
  proof (cases ok)
    case False
    then show ?thesis using e fail [of t "[]"] by (simp add: transport_read_pdu_def)
  next
    case True
    then have rx1: "rx s1 h" "4 \<le> st_capacity s1" "(2::nat) \<le> st_capacity s1" using e by auto
    obtain r s2 t2 x where N: "transport_need B t s1 (int (length h)) 2 = Some (r, s2, t2)"
     "delivers taken patience app (tr_world t) (tr_world t2) x" "tr_frame t t2" "st_capacity s2 = st_capacity s1"
     "case r of None \<Rightarrow> rx s2 (h @ x) \<and> length (h @ x) = max 2 (length h)
      | Some st \<Rightarrow> st = -1 \<or> st = 0 \<and> rx s2 (h @ x) \<and> length h + length x < 2 \<and> \<not> tr_blocking t"
      using need_ok [OF rx1(1,3), of t] by auto
    show ?thesis
    proof (cases r)
      case (Some st)
      then have "st = -1 \<or> st = 0 \<and> rx s2 (h @ x) \<and> pdu_pending (tr_NlaMode t) (h @ x) \<and> \<not> tr_blocking t"
        using N(5) by (auto simp: pdu_pending_def pdu_header_def)
      moreover have "transport_read_pdu A B t s = Some (st, s2, t2)"
        using e(1) True p N(1) Some by (simp add: transport_read_pdu_def)
      ultimately show ?thesis
        unfolding pdu_outcome_def using N by (intro exI [of _ st] exI [of _ s2] exI [of _ t2] exI [of _ x]) auto
    next
      case None
      then have rx2: "rx s2 (h @ x)" "2 \<le> length (h @ x)" "length (h @ x) < 2 ^ 31" "4 \<le> st_capacity s2"
        using N(4,5) rx1 assms(2) by auto
      obtain r3 s3 t3 y where H: "transport_pdu_length B t2 s2 = Some (r3, s3, t3)"
        "delivers taken patience app (tr_world t2) (tr_world t3) y" "tr_frame t2 t3"
        "case r3 of Inl st \<Rightarrow> st = -1 \<or> st = 0 \<and> rx s3 ((h @ x) @ y) \<and> pdu_pending (tr_NlaMode t2) ((h @ x) @ y) \<and> \<not> tr_blocking t2
         | Inr n \<Rightarrow> rx s3 ((h @ x) @ y) \<and> 0 \<le> n \<and> pdu_header (tr_NlaMode t2) ((h @ x) @ y) = PduLen (nat n) \<and>
             length ((h @ x) @ y) \<le> max 4 (length (h @ x))"
        using pdu_length_ok [OF rx2, of t2] unfolding hdr_outcome_def by blast
      have fr: "tr_frame t t3" using N(3) H(3) by (rule tr_frame_trans)
      have xy: "delivers taken patience app (tr_world t) (tr_world t3) (x @ y)" using N(2) H(2) by (rule delivers_trans)
      note nla = tr_frame_fields [OF N(3)] tr_frame_fields [OF fr]
      show ?thesis
      proof (cases r3)
        case (Inl st)
        then have "transport_read_pdu A B t s = Some (st, s3, t3)"
          using e(1) True p N(1) None H(1) by (simp add: transport_read_pdu_def)
        then show ?thesis
          unfolding pdu_outcome_def using H Inl fr nla xy
          by (intro exI [of _ st] exI [of _ s3] exI [of _ t3] exI [of _ "x @ y"]) auto
      next
        case (Inr n)
        then have n: "rx s3 (h @ x @ y)" "0 \<le> n" "pdu_header (tr_NlaMode t3) (h @ x @ y) = PduLen (nat n)"
          "length (h @ x @ y) < 2 ^ 30" "length (h @ x @ y) \<le> max 4 (length h)"
          using H(4) nla rx2 N(5) None assms(2) by auto
        have sz: "to_size n = nat n"
          using n(2) pdu_header_bound [OF n(3)] by (simp add: to_size_nonneg SIZE_MOD_def nat_less_iff)
        have "transport_read_pdu A B t s =
          (do { (ok, s) \<leftarrow> Stream_EnsureCapacity A s3 (sz_add (Stream_GetPosition s3) (to_size n));
             if \<not> ok then Some (-1, s, t3)
             else do {
               (status, s, t) \<leftarrow> transport_read_layer_bytes B t3 s (word_of_nat (sz_sub (to_size n) (Stream_GetPosition s)));
               if status \<noteq> 1 then Some (status, s, t)
               else do {
                 s \<leftarrow> Stream_SetPosition (Stream_SealLength s) 0;
                 Some (to_int (st_length s), s, t) } } })"
          using e(1) True p N(1) None H(1) Inr by (simp add: transport_read_pdu_def)
        then show ?thesis
          unfolding sz using pdu_outcome_extend [OF read_body_ok [OF n(1,4,3)] fr xy n(5)] by simp
      qed
    qed
  qed
qed

end

section \<open>What reading leaves alone\<close>

text \<open>
  A stream only grows while a unit is read, and its length follows its capacity until it is sealed.
\<close>

definition stream_keeps :: "wStream \<Rightarrow> wStream \<Rightarrow> bool" where
  "stream_keeps s s' \<longleftrightarrow> st_capacity s \<le> st_capacity s' \<and>
     (st_length s = st_capacity s \<longrightarrow> st_length s' = st_capacity s')"

lemma stream_keeps_refl [simp]: "stream_keeps s s"
  by (simp add: stream_keeps_def)

lemma stream_keeps_trans: "stream_keeps s s' \<Longrightarrow> stream_keeps s' s'' \<Longrightarrow> stream_keeps s s''"
  by (auto simp: stream_keeps_def)

lemma stream_double_ge: "stream_double c n = Some r \<Longrightarrow> n \<le> r"
  by (rule stream_double.raw_induct [where P = "\<lambda>c n r. n \<le> r"])
     (auto simp: Let_def split: if_splits)

lemma ensure_keeps: "Stream_EnsureCapacity A s n = Some (ok, s') \<Longrightarrow> stream_keeps s s'"
  by (auto simp: Stream_EnsureCapacity_def Stream_SetPosition_def stream_keeps_def Let_def bind_eq_Some_conv
      dest!: stream_double_ge split: if_splits option.splits)

lemma layer_bytes_keeps: "transport_read_layer_bytes B t s n = Some (st, s', t') \<Longrightarrow> stream_keeps s s'"
  by (auto simp: transport_read_layer_bytes_def Stream_Seek_def stream_keeps_def Let_def bind_eq_Some_conv
      split: if_splits)

lemma need_keeps: "transport_need B t s p n = Some (r, s', t') \<Longrightarrow> stream_keeps s s'"
  by (auto simp: transport_need_def bind_eq_Some_conv dest: layer_bytes_keeps split: if_splits)

lemma pdu_length_keeps: "transport_pdu_length B t s = Some (r, s', t') \<Longrightarrow> stream_keeps s s'"
  by (auto simp: transport_pdu_length_def bind_eq_Some_conv Let_def dest: need_keeps split: if_splits option.splits)

lemma read_pdu_keeps:
  assumes "transport_read_pdu A B t s = Some (st, s', t')"
  shows "st_capacity s \<le> st_capacity s' \<and> (stream_keeps s s' \<or> st_pointer s' = 0)"
proof -
  have seal: "stream_keeps s s1 \<Longrightarrow> Stream_SetPosition (Stream_SealLength s1) 0 = Some s' \<Longrightarrow>
      st_capacity s \<le> st_capacity s' \<and> st_pointer s' = 0" for s1
    by (auto simp: Stream_SetPosition_def Stream_SealLength_def stream_keeps_def)
  have le: "stream_keeps s s' \<Longrightarrow> st_capacity s \<le> st_capacity s'" by (simp add: stream_keeps_def)
  note R = assms [unfolded transport_read_pdu_def Let_def]
  from R obtain ok s1 where e1: "Stream_EnsureCapacity A s 4 = Some (ok, s1)" by (auto simp: bind_eq_Some_conv)
  note k1 = ensure_keeps [OF e1]
  show ?thesis
  proof (cases ok)
    case True
    then obtain r s2 t2 where e2: "transport_need B t s1 (to_int (Stream_GetPosition s)) 2 = Some (r, s2, t2)"
      using R e1 by (auto simp: bind_eq_Some_conv)
    note k2 = stream_keeps_trans [OF k1 need_keeps [OF e2]]
    show ?thesis
    proof (cases r)
      case None
      then obtain q s3 t3 where e3: "transport_pdu_length B t2 s2 = Some (q, s3, t3)"
        using R e1 e2 True by (auto simp: bind_eq_Some_conv)
      note k3 = stream_keeps_trans [OF k2 pdu_length_keeps [OF e3]]
      show ?thesis
      proof (cases q)
        case (Inr n)
        then obtain ok' s4 where e4: "Stream_EnsureCapacity A s3 (sz_add (Stream_GetPosition s3) (to_size n)) = Some (ok', s4)"
          using R e1 e2 e3 True None by (auto simp: bind_eq_Some_conv)
        note k4 = stream_keeps_trans [OF k3 ensure_keeps [OF e4]]
        show ?thesis
        proof (cases ok')
          case ok: True
          then obtain q5 s5 t5 where e5: "transport_read_layer_bytes B t3 s4
              (word_of_nat (sz_sub (to_size n) (Stream_GetPosition s4))) = Some (q5, s5, t5)"
            using R e1 e2 e3 e4 True None Inr by (auto simp: bind_eq_Some_conv)
          note k5 = stream_keeps_trans [OF k4 layer_bytes_keeps [OF e5]]
          show ?thesis
            using R e1 e2 e3 e4 e5 True None Inr ok k5 le seal [OF k5]
            by (auto simp: bind_eq_Some_conv split: if_splits)
        qed (use R e1 e2 e3 e4 True None Inr k4 le in auto)
      qed (use R e1 e2 e3 True None k3 le in auto)
    qed (use R e1 e2 True k2 le in auto)
  qed (use R e1 k1 le in auto)
qed

section \<open>The receiving loop hands over every unit\<close>

text \<open>
  The surroundings of the loop: \<open>app\<close> is the list of the units handed to the callback so far.
  A stream from the pool is empty. The callback and the pool do not read from the BIO.
\<close>

definition receive_env :: "('w \<Rightarrow> byte list) \<Rightarrow> ('w \<Rightarrow> nat) \<Rightarrow> ('w \<Rightarrow> byte list list) \<Rightarrow> 'w tr_env \<Rightarrow> bool" where
  "receive_env taken patience app E \<longleftrightarrow>
     (\<forall>w fresh w'. te_StreamPool_Take E w = (fresh, w') \<longrightarrow>
        delivers taken patience app w w' [] \<and> (\<forall>s. fresh = Some s \<longrightarrow> rx s [])) \<and>
     (\<forall>w. delivers taken patience app w (te_Stream_Release E w) []) \<and>
     (\<forall>s t r t'. te_ReceiveCallback E s t = (r, t') \<longrightarrow>
        taken (tr_world t') = taken (tr_world t) \<and> patience (tr_world t') \<le> patience (tr_world t) \<and>
        app (tr_world t') = app (tr_world t) @ [st_rest s] \<and> tr_NlaMode t' = tr_NlaMode t)"

lemma receive_envD:
  assumes "receive_env taken patience app E"
  shows "te_StreamPool_Take E w = (fresh, w') \<Longrightarrow>
      delivers taken patience app w w' [] \<and> (\<forall>s. fresh = Some s \<longrightarrow> rx s [])"
    and "delivers taken patience app w (te_Stream_Release E w) []"
    and "te_ReceiveCallback E s t = (r, t') \<Longrightarrow>
      taken (tr_world t') = taken (tr_world t) \<and> patience (tr_world t') \<le> patience (tr_world t) \<and>
      app (tr_world t') = app (tr_world t) @ [st_rest s] \<and> tr_NlaMode t' = tr_NlaMode t"
  using assms unfolding receive_env_def by blast+

lemma check_fds_ok:
  assumes src: "byte_source B taken patience app" and env: "receive_env taken patience app E"
    and "rx s h" "patience (tr_world t) + length h < 2 ^ 29"
  shows "\<exists>st rb t' units new rest. transport_check_fds A B E (Some s) t = Some (st, rb, t') \<and>
     taken (tr_world t') = taken (tr_world t) @ new \<and> app (tr_world t') = app (tr_world t) @ units \<and>
     list_all (\<lambda>u. pdu_header (tr_NlaMode t) u = PduLen (length u)) units \<and>
     h @ new = concat units @ rest \<and> (if st < 0 then st = -1 else \<exists>s'. rb = Some s' \<and> rx s' rest)"
  using assms(3,4)
proof (induction "patience (tr_world t) + length h" arbitrary: s h t rule: less_induct)
  case less
  note unfold = transport_check_fds.simps [of A B E "Some s" t]
  show ?case
  proof (cases "te_shall_disconnect E (tr_world t)")
    case True
    then show ?thesis using less.prems
      by (intro exI [of _ 0] exI [of _ "Some s"] exI [of _ t] exI [of _ "[]"] exI [of _ "[]"] exI [of _ h])
         (simp add: unfold)
  next
    case go: False
    obtain st s1 t1 new where R: "transport_read_pdu A B t s = Some (st, s1, t1)"
      "delivers taken patience app (tr_world t) (tr_world t1) new" "tr_frame t t1"
      "if 0 < st then st = int (length (h @ new)) \<and> pdu_header (tr_NlaMode t) (h @ new) = PduLen (length (h @ new)) \<and>
          stream_wf s1 \<and> st_pointer s1 = 0 \<and> st_rest s1 = h @ new
       else if st = 0 then rx s1 (h @ new) \<and> (pdu_stuck (tr_NlaMode t) (h @ new) \<and> length (h @ new) \<le> max 4 (length h) \<or>
          pdu_pending (tr_NlaMode t) (h @ new) \<and> \<not> tr_blocking t)
       else st = -1"
      using byte_source.read_pdu_ok [OF src less.prems(1), of t A] less.prems(2) unfolding pdu_outcome_def by auto
    note D = R(2) [unfolded delivers_def]
    show ?thesis
    proof (cases "0 < st")
      case False
      then show ?thesis using R go D
        by (intro exI [of _ st] exI [of _ "Some s1"] exI [of _ t1] exI [of _ "[]"] exI [of _ new] exI [of _ "h @ new"])
           (auto simp: unfold split: if_splits)
    next
      case unit: True
      then have U: "pdu_header (tr_NlaMode t) (h @ new) = PduLen (length (h @ new))" "st_rest s1 = h @ new"
        "0 < length (h @ new)" using R(4) by auto
      obtain fresh w2 where P: "te_StreamPool_Take E (tr_world t1) = (fresh, w2)" by fastforce
      note P2 = receive_envD(1) [OF env P, unfolded delivers_def]
      show ?thesis
      proof (cases fresh)
        case None
        then show ?thesis using R(1) go D unit P P2
          by (intro exI [of _ "-1"] exI [of _ None] exI [of _ "t1\<lparr>tr_world := w2\<rparr>"] exI [of _ "[]"] exI [of _ new]
              exI [of _ "h @ new"]) (simp add: unfold)
      next
        case (Some s2)
        then have rx2: "rx s2 []" using P2 by simp
        obtain r t3 where C: "te_ReceiveCallback E s1 (t1\<lparr>tr_world := w2\<rparr>) = (r, t3)" by fastforce
        define t4 where "t4 = t3\<lparr>tr_world := te_Stream_Release E (tr_world t3)\<rparr>"
        have t4: "taken (tr_world t4) = taken (tr_world t) @ new" "app (tr_world t4) = app (tr_world t) @ [h @ new]"
          "patience (tr_world t4) + length new \<le> patience (tr_world t)" "tr_NlaMode t4 = tr_NlaMode t"
          using receive_envD(3) [OF env C] receive_envD(2) [OF env, of "tr_world t3", unfolded delivers_def] P2 D U tr_frame_fields [OF R(3)]
          by (auto simp: t4_def)
        show ?thesis
        proof (cases "r = 1 \<or> r = 2 \<or> r < 0")
          case True
          then show ?thesis using R(1) go unit P C t4 U Some rx2
            by (intro exI [of _ "if r < 0 then -1 else r"] exI [of _ "Some s2"] exI [of _ t4] exI [of _ "[h @ new]"]
                exI [of _ new] exI [of _ "[]"]) (auto simp: unfold t4_def [symmetric])
        next
          case False
          have lt: "patience (tr_world t4) + length ([] :: byte list) < patience (tr_world t) + length h"
            using t4(3) U(3) unfolding length_append list.size(3) by linarith
          obtain st' rb t' units new' rest where IH: "transport_check_fds A B E (Some s2) t4 = Some (st', rb, t')"
            "taken (tr_world t') = taken (tr_world t4) @ new'" "app (tr_world t') = app (tr_world t4) @ units"
            "list_all (\<lambda>u. pdu_header (tr_NlaMode t4) u = PduLen (length u)) units"
            "[] @ new' = concat units @ rest" "if st' < 0 then st' = -1 else \<exists>s'. rb = Some s' \<and> rx s' rest"
            using less.hyps [OF lt rx2] less.prems(2) lt by auto
          show ?thesis using R(1) go unit P C t4 U Some IH False
            by (intro exI [of _ st'] exI [of _ rb] exI [of _ t'] exI [of _ "(h @ new) # units"]
                exI [of _ "new @ new'"] exI [of _ rest]) (auto simp: unfold t4_def [symmetric])
        qed
      qed
    qed
  qed
qed

section \<open>Writing\<close>

text \<open>
  \<open>accepted w\<close> is everything the BIO has taken over, sent or not; \<open>room w n\<close> says that it is
  able to take \<open>n\<close> more bytes. A failed write that asks for a repetition took nothing;
  one that does not may have taken a part.
\<close>

locale byte_sink =
  fixes B :: "'w bio" and accepted :: "'w \<Rightarrow> byte list" and wpatience :: "'w \<Rightarrow> nat"
    and room :: "'w \<Rightarrow> nat \<Rightarrow> bool"
  assumes sink_write: "room w n \<Longrightarrow> length d \<le> n \<Longrightarrow> d \<noteq> [] \<Longrightarrow>
      \<exists>st w'. BIO_write B d w = Some (st, w') \<and> wpatience w' \<le> wpatience w \<and>
        (if 0 < st then st \<le> int (length d) \<and> accepted w' = accepted w @ take (nat st) d \<and> room w' (n - nat st)
         else if BIO_should_retry B w' then accepted w' = accepted w \<and> room w' n
         else \<exists>k. accepted w' = accepted w @ take k d)"
    and sink_wait: "BIO_wait_write B w = (r, w') \<Longrightarrow>
      accepted w' = accepted w \<and> (\<forall>n. room w n \<longrightarrow> room w' n) \<and> (0 \<le> r \<longrightarrow> wpatience w' < wpatience w)"
    and sink_flush: "room w n \<Longrightarrow> \<exists>f w'. BIO_flush B w = Some (f, w') \<and>
      accepted w' = accepted w \<and> room w' n \<and> wpatience w' \<le> wpatience w"

context byte_sink
begin

lemma flush_loop_ok:
  assumes "room w n"
  shows "\<exists>ok w'. transport_flush_loop B w = Some (ok, w') \<and> accepted w' = accepted w \<and>
    (ok \<longrightarrow> room w' n \<and> wpatience w' \<le> wpatience w)"
  using assms
proof (induction "wpatience w" arbitrary: w rule: less_induct)
  case less
  note unfold = transport_flush_loop.simps [of B w]
  show ?case
  proof (cases "BIO_write_blocked B w")
    case blocked: True
    obtain r w1 where W: "BIO_wait_write B w = (r, w1)" by fastforce
    note W1 = sink_wait [OF W]
    show ?thesis
    proof (cases "r < 0")
      case True
      then show ?thesis using W W1 blocked by (auto simp: unfold)
    next
      case False
      obtain f w2 where F: "BIO_flush B w1 = Some (f, w2)" "accepted w2 = accepted w1" "room w2 n" "wpatience w2 \<le> wpatience w1"
        using sink_flush [of w1 n] W1 less.prems by blast
      show ?thesis
      proof (cases "f < 1")
        case True
        then show ?thesis using W W1 blocked False F by (auto simp: unfold)
      next
        case go: False
        have "wpatience w2 < wpatience w" using W1 False F(4) by simp
        then obtain ok w' where "transport_flush_loop B w2 = Some (ok, w')" "accepted w' = accepted w2"
          "ok \<longrightarrow> room w' n \<and> wpatience w' \<le> wpatience w2"
          using less.hyps F(3) by blast
        then show ?thesis using W W1 blocked False F go \<open>wpatience w2 < wpatience w\<close> by (auto simp: unfold)
      qed
    qed
  qed (use less.prems in \<open>auto simp: unfold\<close>)
qed

lemma write_loop_ok:
  assumes "0 \<le> len" "len < INT_LIM" "st_pointer s + nat len \<le> length (st_buffer s)" "room w (nat len)"
    "d = take (nat len) (drop (st_pointer s) (st_buffer s))"
  shows "\<exists>fin st' s' w' k. transport_write_loop B blk fl len st s w = Some (fin, st', s', w') \<and>
     accepted w' = accepted w @ take k d \<and> st_buffer s' = st_buffer s \<and>
     (if fin then take k d = d \<and> (if len = 0 then st' = st else 0 < st') else st' \<le> 0)"
  using assms
proof (induction "wpatience w + nat len" arbitrary: w len st s d rule: less_induct)
  case less
  note unfold = transport_write_loop.simps [of B blk fl len st s w]
  show ?case
  proof (cases "0 < len")
    case False
    then have "len = 0" using less.prems(1) by simp
    then show ?thesis using less.prems(5) unfold
      by (intro exI [of _ True] exI [of _ st] exI [of _ s] exI [of _ w] exI [of _ 0]) simp
  next
    case pos: True
    have rd: "mem_read (st_buffer s) (st_pointer s) (nat len) = Some d" "length d = nat len" "d \<noteq> []"
      using less.prems pos by (auto simp: mem_read_in)
    have il: "int (length d) = len" using rd(2) pos by simp
    obtain r w1 where W: "BIO_write B d w = Some (r, w1)" "wpatience w1 \<le> wpatience w"
      "if 0 < r then r \<le> len \<and> accepted w1 = accepted w @ take (nat r) d \<and> room w1 (nat len - nat r)
       else if BIO_should_retry B w1 then accepted w1 = accepted w \<and> room w1 (nat len)
       else \<exists>k. accepted w1 = accepted w @ take k d"
      using sink_write [OF less.prems(4) eq_refl [OF rd(2)] rd(3), unfolded il] by blast
    show ?thesis
    proof (cases "0 < r")
      case True
      then have r: "r \<le> len" "accepted w1 = accepted w @ take (nat r) d" "room w1 (nat len - nat r)"
        using W(3) by auto
      obtain ok w2 where F: "(if blk \<or> fl then transport_flush_loop B w1 else Some (True, w1)) = Some (ok, w2)"
        "accepted w2 = accepted w1" "ok \<longrightarrow> room w2 (nat len - nat r) \<and> wpatience w2 \<le> wpatience w1"
        using flush_loop_ok [OF r(3)] by (cases "blk \<or> fl") (auto simp: r(3))
      show ?thesis
      proof (cases ok)
        case False
        then show ?thesis using pos rd W True F r
          by (intro exI [of _ False] exI [of _ "-1"] exI [of _ s] exI [of _ w2] exI [of _ "nat r"]) (simp add: unfold)
      next
        case ok: True
        define s1 where "s1 = s\<lparr>st_pointer := st_pointer s + nat r\<rparr>"
        have sk: "Stream_Seek s r = Some s1"
          using True r less.prems by (auto simp: Stream_Seek_def s1_def nat_add_distrib)
        have ck: "int_ck (len - r) = Some (len - r)" using True r less.prems by (simp add: int_ck_def INT_LIM_def)
        have dr: "take (nat (len - r)) (drop (st_pointer s1) (st_buffer s1)) = drop (nat r) d"
          using r True less.prems(1-3,5) by (simp add: s1_def drop_take nat_diff_distrib' add.commute)
        have pr: "0 \<le> len - r" "len - r < INT_LIM" "st_pointer s1 + nat (len - r) \<le> length (st_buffer s1)"
          "room w2 (nat (len - r))"
          using r True less.prems(1-3) F(3) ok by (auto simp: s1_def nat_diff_distrib')
        have lt: "wpatience w2 + nat (len - r) < wpatience w + nat len"
          using F(3) ok W(2) True r pos by linarith
        obtain fin st' s' w' k where IH: "transport_write_loop B blk fl (len - r) r s1 w2 = Some (fin, st', s', w')"
          "accepted w' = accepted w2 @ take k (drop (nat r) d)" "st_buffer s' = st_buffer s1"
          "if fin then take k (drop (nat r) d) = drop (nat r) d \<and> (if len - r = 0 then st' = r else 0 < st') else st' \<le> 0"
          using less.hyps [OF lt pr dr [symmetric], of r] by blast
        have k: "take (nat r) d @ take k (drop (nat r) d) = take (nat r + k) d" by (simp add: take_add)
        have full: "take (nat r + k) d = d" if "take k (drop (nat r) d) = drop (nat r) d"
          using that by (metis append_take_drop_id k)
        show ?thesis using pos rd W True F ok sk ck IH r k full
          by (intro exI [of _ fin] exI [of _ st'] exI [of _ s'] exI [of _ w'] exI [of _ "nat r + k"])
             (auto simp: unfold s1_def split: if_splits)
      qed
    next
      case False
      show ?thesis
      proof (cases "BIO_should_retry B w1 \<and> blk")
        case stop: False
        obtain k where "accepted w1 = accepted w @ take k d"
          using W(3) False by (metis append_Nil2 take0)
        then show ?thesis using pos rd W False stop
          by (intro exI [of _ False] exI [of _ r] exI [of _ s] exI [of _ w1] exI [of _ k]) (auto simp: unfold)
      next
        case retry: True
        obtain q w2 where Q: "BIO_wait_write B w1 = (q, w2)" by fastforce
        note Q1 = sink_wait [OF Q]
        show ?thesis
        proof (cases "q < 0")
          case True
          then show ?thesis using unfold pos rd W False retry Q Q1
            by (intro exI [of _ False] exI [of _ "-1"] exI [of _ s] exI [of _ w2] exI [of _ 0]) simp
        next
          case go: False
          have lt: "wpatience w2 + nat len < wpatience w + nat len" using Q1 go W(2) by simp
          obtain fin st' s' w' k where IH: "transport_write_loop B blk fl len r s w2 = Some (fin, st', s', w')"
            "accepted w' = accepted w2 @ take k d" "st_buffer s' = st_buffer s"
            "if fin then take k d = d \<and> (if len = 0 then st' = r else 0 < st') else st' \<le> 0"
            using less.hyps [OF lt, of s d r] less.prems Q1 W(3) False retry by auto
          show ?thesis using unfold pos rd W False retry Q Q1 go IH
            by (intro exI [of _ fin] exI [of _ st'] exI [of _ s'] exI [of _ w'] exI [of _ k])
               (auto split: if_splits)
        qed
      qed
    qed
  qed
qed

end

section \<open>The buffered socket BIO as source and sink\<close>

text \<open>
  The BIO of \<^verbatim>\<open>tcp.c\<close> at the front of the chain, over a socket given by what arrives on it, its
  replies to writes, and the results of the waits. The logs record the bytes delivered to
  the transport, the bytes given to the socket, and the units handed to the program.
\<close>

datatype arrival = Arrive "byte list" | WouldBlock | PeerClosed

record socket_world =
  sw_bio :: BufferedSocket
  sw_arrivals :: "arrival list"
  sw_replies :: "bio_reply list"
  sw_waits :: "int list"
  sw_in :: "byte list"
  sw_out :: "byte list"
  sw_units :: "byte list list"

definition socket_blocks :: bio_reply where
  "socket_blocks = \<lparr>br_status = -1, br_retry = True, br_write = False, br_read = True\<rparr>"

definition socket_read :: "int \<Rightarrow> arrival list \<Rightarrow> bio_reply \<times> byte list \<times> arrival list" where
  "socket_read n as =
     (case as of
        [] \<Rightarrow> (socket_blocks, [], [])
      | WouldBlock # as' \<Rightarrow> (socket_blocks, [], as')
      | PeerClosed # as' \<Rightarrow> (\<lparr>br_status = 0, br_retry = False, br_write = False, br_read = False\<rparr>, [], as)
      | Arrive c # as' \<Rightarrow> (\<lparr>br_status = int (length (take (nat n) c)), br_retry = True, br_write = False, br_read = True\<rparr>,
          take (nat n) c, if drop (nat n) c = [] then as' else Arrive (drop (nat n) c) # as'))"

definition socket_wait :: "socket_world \<Rightarrow> int \<times> socket_world" where
  "socket_wait w = (case sw_waits w of [] \<Rightarrow> (-1, w) | r # rs \<Rightarrow> (r, w\<lparr>sw_waits := rs\<rparr>))"

definition buffered_bio :: "byte allocator \<Rightarrow> socket_world bio" where
  "buffered_bio A = \<lparr>
     BIO_read = (\<lambda>n w. let (r, d, as) = socket_read n (sw_arrivals w);
                            (st, bs) = transport_bio_buffered_read (sw_bio w) r
                        in (st, d, w\<lparr>sw_bio := bs, sw_arrivals := as, sw_in := sw_in w @ d\<rparr>)),
     BIO_should_retry = (\<lambda>w. bs_flag_retry (sw_bio w)),
     BIO_wait_read = socket_wait,
     BIO_write = (\<lambda>d w. do {
        (ret, bs, sent, rs) \<leftarrow> transport_bio_buffered_write A (sw_bio w) (Some d) (sw_replies w);
        Some (ret, w\<lparr>sw_bio := bs, sw_replies := rs, sw_out := sw_out w @ sent\<rparr>) }),
     BIO_wait_write = socket_wait,
     BIO_write_blocked = (\<lambda>w. case transport_bio_buffered_ctrl A (sw_bio w) BioWriteBlocked 0 (sw_replies w) of
        Some (r, _) \<Rightarrow> r \<noteq> 0 | None \<Rightarrow> False),
     BIO_flush = (\<lambda>w. do {
        (f, bs, sent, rs) \<leftarrow> transport_bio_buffered_ctrl A (sw_bio w) BioFlush 0 (sw_replies w);
        Some (f, w\<lparr>sw_bio := bs, sw_replies := rs, sw_out := sw_out w @ sent\<rparr>) })\<rparr>"

fun arrival_bytes :: "arrival list \<Rightarrow> nat" where
  "arrival_bytes [] = 0"
| "arrival_bytes (Arrive c # as) = length c + arrival_bytes as"
| "arrival_bytes (_ # as) = arrival_bytes as"

definition sw_patience :: "socket_world \<Rightarrow> nat" where
  "sw_patience w = length (sw_waits w) + arrival_bytes (sw_arrivals w)"

definition sw_accepted :: "socket_world \<Rightarrow> byte list" where
  "sw_accepted w = sw_out w @ bs_pending (sw_bio w)"

definition sw_room :: "socket_world \<Rightarrow> nat \<Rightarrow> bool" where
  "sw_room w n \<longleftrightarrow> bs_wf (sw_bio w) \<and> bio_sane (sw_replies w) \<and> length (bs_pending (sw_bio w)) + n < 2 ^ 31"

lemma socket_read_ok:
  assumes "socket_read n as = (r, d, as')"
  shows "arrival_bytes as' + length d \<le> arrival_bytes as" "0 < br_status r \<Longrightarrow> br_status r = int (length d) \<and> br_status r \<le> n"
    "br_status r \<le> 0 \<Longrightarrow> d = []"
  using assms by (auto simp: socket_read_def socket_blocks_def split: list.splits arrival.splits if_splits)
     (cases "0 \<le> n"; simp)

lemma buffered_read_status: "fst (transport_bio_buffered_read bs r) = br_status r"
  by (simp add: transport_bio_buffered_read_def Let_def)

interpretation buffered_source: byte_source "buffered_bio A" sw_in sw_patience sw_units
proof unfold_locales
  fix n w st d w'
  assume r: "BIO_read (buffered_bio A) n w = (st, d, w')"
  obtain q as where q: "socket_read n (sw_arrivals w) = (q, d, as)" "st = br_status q" "sw_arrivals w' = as"
      "sw_in w' = sw_in w @ d" "sw_waits w' = sw_waits w" "sw_units w' = sw_units w"
    using r buffered_read_status by (auto simp: buffered_bio_def Let_def split: prod.splits) (metis fst_conv)
  note ok = socket_read_ok [OF q(1)]
  show "0 < st \<Longrightarrow> st = int (length d) \<and> st \<le> n \<and> delivers sw_in sw_patience sw_units w w' d"
    using ok q by (simp add: delivers_def sw_patience_def)
  show "st \<le> 0 \<Longrightarrow> delivers sw_in sw_patience sw_units w w' []"
    using ok q by (simp add: delivers_def sw_patience_def)
next
  fix w r w'
  assume "BIO_wait_read (buffered_bio A) w = (r, w')"
  then show "delivers sw_in sw_patience sw_units w w' [] \<and> (0 \<le> r \<longrightarrow> sw_patience w' < sw_patience w)"
    by (auto simp: buffered_bio_def socket_wait_def delivers_def sw_patience_def split: list.splits)
qed

interpretation buffered_sink: byte_sink "buffered_bio A" sw_accepted "\<lambda>w. length (sw_waits w)" sw_room
proof unfold_locales
  fix w n and d :: "byte list"
  assume a: "sw_room w n" "length d \<le> n" "d \<noteq> []"
  then have pre: "bs_wf (sw_bio w)" "length (bs_pending (sw_bio w)) + length d < 2 ^ 31" "bio_sane (sw_replies w)"
    by (auto simp: sw_room_def)
  define fits where "fits \<longleftrightarrow> d = [] \<or> rb_write_fits A (bs_xmitBuffer (sw_bio w)) (length d)"
  obtain ret bs' sent rs' where W: "transport_bio_buffered_write A (sw_bio w) (Some d) (sw_replies w) = Some (ret, bs', sent, rs')"
     "bs_wf bs'" "bs_pending (sw_bio w) @ (if fits then d else []) = sent @ bs_pending bs'"
     "ret = int (length d) \<or> ret = -1" "\<not> fits \<longrightarrow> ret = -1 \<and> sent = []" "bio_sane rs'"
     "fits \<and> ret = -1 \<longrightarrow> \<not> bs_flag_retry bs'"
    using transport_bio_buffered_write_ok [OF pre, of A, folded fits_def] by blast
  define w' where "w' = w\<lparr>sw_bio := bs', sw_replies := rs', sw_out := sw_out w @ sent\<rparr>"
  have len: "length (bs_pending bs') \<le> length (bs_pending (sw_bio w)) + (if fits then length d else 0)"
    using arg_cong [OF W(3), of length] by (simp split: if_splits)
  have acc: "sw_accepted w' = sw_accepted w @ (if fits then d else [])" using W(3) by (simp add: sw_accepted_def w'_def)
  have "BIO_write (buffered_bio A) d w = Some (ret, w')" using W(1) by (simp add: buffered_bio_def w'_def)
  moreover have "if 0 < ret
        then ret \<le> int (length d) \<and> sw_accepted w' = sw_accepted w @ take (nat ret) d \<and> sw_room w' (n - nat ret)
        else if BIO_should_retry (buffered_bio A) w' then sw_accepted w' = sw_accepted w \<and> sw_room w' n
        else \<exists>k. sw_accepted w' = sw_accepted w @ take k d"
  proof (cases "0 < ret")
    case True
    then have "ret = int (length d)" "fits" using W(4,5) by auto
    moreover have "length (bs_pending bs') + (n - length d) < 2 ^ 31"
      using len a unfolding sw_room_def if_P [OF \<open>fits\<close>] by linarith
    ultimately show ?thesis using True acc W(2,6) by (simp add: sw_room_def w'_def)
  next
    case False
    then have "ret = -1" using W(4) a(3) by auto
    show ?thesis
    proof (cases fits)
      case True
      then have "\<not> BIO_should_retry (buffered_bio A) w'"
        using W(7) \<open>ret = -1\<close> by (simp add: buffered_bio_def w'_def)
      then show ?thesis using False acc True by (auto intro: exI [of _ "length d"])
    next
      case nofit: False
      then show ?thesis using False acc len a W(2,6) by (auto simp: sw_room_def w'_def intro: exI [of _ 0])
    qed
  qed
  ultimately show "\<exists>st w'. BIO_write (buffered_bio A) d w = Some (st, w') \<and> length (sw_waits w') \<le> length (sw_waits w) \<and>
      (if 0 < st then st \<le> int (length d) \<and> sw_accepted w' = sw_accepted w @ take (nat st) d \<and> sw_room w' (n - nat st)
       else if BIO_should_retry (buffered_bio A) w' then sw_accepted w' = sw_accepted w \<and> sw_room w' n
       else \<exists>k. sw_accepted w' = sw_accepted w @ take k d)"
    by (intro exI [of _ ret] exI [of _ w'] conjI) (simp_all add: w'_def)
next
  fix w r w'
  assume "BIO_wait_write (buffered_bio A) w = (r, w')"
  then show "sw_accepted w' = sw_accepted w \<and> (\<forall>n. sw_room w n \<longrightarrow> sw_room w' n) \<and>
      (0 \<le> r \<longrightarrow> length (sw_waits w') < length (sw_waits w))"
    by (auto simp: buffered_bio_def socket_wait_def sw_accepted_def sw_room_def split: list.splits)
next
  fix w n
  assume a: "sw_room w n"
  show "\<exists>f w'. BIO_flush (buffered_bio A) w = Some (f, w') \<and> sw_accepted w' = sw_accepted w \<and> sw_room w' n \<and>
      length (sw_waits w') \<le> length (sw_waits w)"
  proof (cases "ringbuffer_used (bs_xmitBuffer (sw_bio w)) = 0")
    case True
    then show ?thesis using a
      by (simp add: buffered_bio_def transport_bio_buffered_ctrl_def sw_accepted_def sw_room_def)
  next
    case False
    have pre: "bs_wf (sw_bio w)" "length (bs_pending (sw_bio w)) < 2 ^ 31" "bio_sane (sw_replies w)"
      using a by (auto simp: sw_room_def)
    obtain ret bs' sent rs' where W: "transport_bio_buffered_write A (sw_bio w) None (sw_replies w) = Some (ret, bs', sent, rs')"
      "bs_wf bs'" "bs_pending (sw_bio w) = sent @ bs_pending bs'" "bio_sane rs'"
      using transport_bio_buffered_flush_ok [OF pre, of A] by blast
    then show ?thesis using a False
      by (simp add: buffered_bio_def transport_bio_buffered_ctrl_def sw_accepted_def sw_room_def)
  qed
qed

section \<open>Properties\<close>

text \<open>A transport over a fresh buffered socket, and surroundings that record every unit.\<close>

definition sample_transport :: "arrival list \<Rightarrow> socket_world rdpTransport" where
  "sample_transport as = \<lparr>tr_layer = TRANSPORT_LAYER_TCP, tr_frontBio = True, tr_NlaMode = False, tr_blocking = False,
     tr_GatewayEnabled = False, tr_WaitForOutputBufferFlush = False, tr_WriteLock = 0, tr_written = 0,
     tr_world = \<lparr>sw_bio = bs_sample, sw_arrivals = as, sw_replies = [], sw_waits = [], sw_in = [],
        sw_out = [], sw_units = []\<rparr>\<rparr>"

definition recording_env :: "socket_world tr_env" where
  "recording_env = \<lparr>te_shall_disconnect = (\<lambda>w. False),
     te_StreamPool_Take = (\<lambda>w. (Stream_New ample True None 32, w)),
     te_Stream_Release = (\<lambda>w. w),
     te_ReceiveCallback = (\<lambda>s t. (0, t\<lparr>tr_world := (tr_world t)\<lparr>sw_units := sw_units (tr_world t) @ [st_rest s]\<rparr>\<rparr>))\<rparr>"

lemma rx_stream_of [simp]: "bs \<noteq> [] \<Longrightarrow> length bs < BLOCK_MAX \<Longrightarrow> rx (stream_of bs) []"
  by (simp add: rx_def stream_of_def)

lemma recording_env_ok: "receive_env sw_in sw_patience sw_units recording_env"
  by (auto simp: receive_env_def recording_env_def delivers_def rx_def Stream_New_def mem_alloc_def sw_patience_def
      BLOCK_MAX_def ample_def)



text \<open>
  C33: \<^verbatim>\<open>transport_read_pdu\<close> returns a positive number exactly when the stream then holds one whole
  unit, sealed and rewound, of the length its header declares and made of the bytes read
  before and in this call. When it returns 0 the bytes are kept in the stream, and the call
  can be repeated: in blocking mode this happens only for a unit that ends with its header.
  It always returns, without undefined behaviour, for every sequence of replies of the BIO.
\<close>

theorem transport_read_pdu_exact:
  assumes "byte_source B taken patience app" "rx s h" "length h < 2 ^ 29"
  shows "\<exists>st s' t' new. transport_read_pdu A B t s = Some (st, s', t') \<and>
     taken (tr_world t') = taken (tr_world t) @ new \<and>
     (if 0 < st
      then st = int (length (h @ new)) \<and> pdu_header (tr_NlaMode t) (h @ new) = PduLen (length (h @ new)) \<and>
        stream_wf s' \<and> st_pointer s' = 0 \<and> st_rest s' = h @ new
      else if st = 0
      then rx s' (h @ new) \<and> (pdu_stuck (tr_NlaMode t) (h @ new) \<or>
        pdu_pending (tr_NlaMode t) (h @ new) \<and> \<not> tr_blocking t)
      else st = -1)"
  using byte_source.read_pdu_ok [OF assms, of t A] unfolding pdu_outcome_def delivers_def
  by (metis (no_types, lifting))

definition rx_sample :: "socket_world rdpTransport" where
  "rx_sample = sample_transport [Arrive [3, 0], WouldBlock, Arrive [0, 8, 1, 2, 3, 4]]"

theorem transport_read_pdu_exact_witness:
  "\<exists>st s' t' new. transport_read_pdu ample (buffered_bio ample) rx_sample (stream_of [0, 0, 0, 0]) = Some (st, s', t') \<and>
     sw_in (tr_world t') = sw_in (tr_world rx_sample) @ new \<and>
     (if 0 < st
      then st = int (length ([] @ new)) \<and> pdu_header (tr_NlaMode rx_sample) ([] @ new) = PduLen (length ([] @ new)) \<and>
        stream_wf s' \<and> st_pointer s' = 0 \<and> st_rest s' = [] @ new
      else if st = 0
      then rx s' ([] @ new) \<and> (pdu_stuck (tr_NlaMode rx_sample) ([] @ new) \<or>
        pdu_pending (tr_NlaMode rx_sample) ([] @ new) \<and> \<not> tr_blocking rx_sample)
      else st = -1)"
  by (rule transport_read_pdu_exact [OF buffered_source.byte_source_axioms]) (simp_all add: BLOCK_MAX_def)


definition tx_sample :: wStream where
  "tx_sample = (stream_of [1, 2, 3, 4])\<lparr>st_pointer := 3\<rparr>"


text \<open>
  A fast-path unit whose two length bytes give a total of 3, a header without data, passes the
  length check. Nothing is left to read then, and the 0 that reading nothing returns is taken
  for missing data: every further call returns 0 without looking at the BIO.
\<close>

theorem transport_read_pdu_header_only:
  assumes "tr_frontBio t" "\<not> tr_NlaMode t"
    and s: "s = (stream_of [4, 0x80, 3, 0, 0, 0, 0, 0])\<lparr>st_pointer := 3\<rparr>"
  shows "transport_read_pdu A B t s = Some (0, s, t)"
  using assms(1,2)
  by (simp add: s transport_read_pdu_def Let_def stream_of_def Stream_GetPosition_def Stream_EnsureCapacity_def to_int_def
      transport_need_def transport_pdu_length_def arr_get_def c_be16_def to_size_def sz_add_def sz_sub_def SIZE_MOD_def
      transport_read_layer_bytes_def transport_read_layer_def transport_read_loop.simps)

text \<open>
  A write that could not be done at once in non-blocking mode is not an error for the loop, but the
  negative status it leaves marks the connection as dropped by the peer.
\<close>

theorem transport_write_retry_closes:
  assumes "\<not> tr_blocking t" "BIO_write B d (tr_world t) = Some (-1, w)" "BIO_should_retry B w"
    and "d \<noteq> []" "length d < 2 ^ 31"
  shows "\<exists>t'. transport_write B t ((stream_of d)\<lparr>st_pointer := length d\<rparr>) = Some (-1, stream_of d, t') \<and>
     tr_layer t' = TRANSPORT_LAYER_CLOSED"
  using assms
  by (simp add: transport_write_def Let_def Stream_GetPosition_def Stream_SetPosition_def stream_of_def to_int_small
      transport_write_loop.simps [of B False _ "int (length d)"] mem_read_def)

end
