(* ===== verification/Nego.thy ===== *)
theory Nego
  imports Transport Tpkt
begin

unbundle bit_operations_syntax

text \<open>
  The negotiation of the security protocol (\<^verbatim>\<open>libfreerdp/core/nego.c\<close>) and the server's side of it
  in \<^verbatim>\<open>libfreerdp/core/connection.c\<close>. The client tries the enabled protocols from the strongest to
  the weakest, each with a connection request, and looks at the confirm of the server.

  The requests and confirms are built on the streams, framed by TPKT and TPDU and sent and
  received by the transport, all of them the definitions of this development. Opening the TCP
  connection, the handshakes of TLS and NLA, and the conversion to UTF-16 are arguments,
  collected in the record \<open>nego_env\<close>.
\<close>

section \<open>Data\<close>

definition PROTOCOL_RDP :: u32 where "PROTOCOL_RDP = 0x00000000"
definition PROTOCOL_TLS :: u32 where "PROTOCOL_TLS = 0x00000001"
definition PROTOCOL_NLA :: u32 where "PROTOCOL_NLA = 0x00000002"
definition PROTOCOL_EXT :: u32 where "PROTOCOL_EXT = 0x00000008"
definition PROTOCOL_FAILED_NEGO :: u32 where "PROTOCOL_FAILED_NEGO = 0x80000000"

definition SSL_REQUIRED_BY_SERVER :: u32 where "SSL_REQUIRED_BY_SERVER = 1"
definition SSL_NOT_ALLOWED_BY_SERVER :: u32 where "SSL_NOT_ALLOWED_BY_SERVER = 2"
definition SSL_CERT_NOT_ON_SERVER :: u32 where "SSL_CERT_NOT_ON_SERVER = 3"
definition INCONSISTENT_FLAGS :: u32 where "INCONSISTENT_FLAGS = 4"
definition HYBRID_REQUIRED_BY_SERVER :: u32 where "HYBRID_REQUIRED_BY_SERVER = 5"

datatype NEGO_STATE = NEGO_STATE_INITIAL | NEGO_STATE_EXT | NEGO_STATE_NLA | NEGO_STATE_TLS
  | NEGO_STATE_RDP | NEGO_STATE_FAIL | NEGO_STATE_FINAL

definition TYPE_RDP_NEG_REQ :: byte where "TYPE_RDP_NEG_REQ = 1"
definition TYPE_RDP_NEG_RSP :: byte where "TYPE_RDP_NEG_RSP = 2"
definition TYPE_RDP_NEG_FAILURE :: byte where "TYPE_RDP_NEG_FAILURE = 3"

text \<open>The part of \<^verbatim>\<open>rdpSettings\<close> that the negotiation reads or writes. Keys are present or \<^verbatim>\<open>NULL\<close>.\<close>

record rdpSettings =
  se_RequestedProtocols :: u32
  se_SelectedProtocol :: u32
  se_NegotiationFlags :: u32
  se_UseRdpSecurityLayer :: bool
  se_EncryptionMethods :: u32
  se_EncryptionLevel :: u32
  se_SupportGraphicsPipeline :: bool
  se_TlsSecurity :: bool
  se_NlaSecurity :: bool
  se_RdpSecurity :: bool
  se_LocalConnection :: bool
  se_RdpServerRsaKey :: bool
  se_RdpKeyFile :: bool

text \<open>
  A C string is the list of its bytes before the terminating zero. Of \<^verbatim>\<open>EnabledProtocols\<close> the four
  cells that have a protocol are modelled.
\<close>

record 'w rdpNego =
  ng_port :: int
  ng_flags :: u32
  ng_hostname :: "byte list option"
  ng_cookie :: "byte list option"
  ng_RoutingToken :: "byte list option"
  ng_RoutingTokenLength :: u32
  ng_SendPreconnectionPdu :: bool
  ng_PreconnectionId :: u32
  ng_PreconnectionBlob :: "byte list option"
  ng_state :: NEGO_STATE
  ng_TcpConnected :: bool
  ng_SecurityConnected :: bool
  ng_CookieMaxLength :: u32
  ng_sendNegoData :: bool
  ng_SelectedProtocol :: u32
  ng_RequestedProtocols :: u32
  ng_NegotiateSecurityLayer :: bool
  ng_RDP :: bool
  ng_TLS :: bool
  ng_NLA :: bool
  ng_EXT :: bool
  ng_RestrictedAdminModeRequired :: bool
  ng_GatewayEnabled :: bool
  ng_GatewayBypassLocal :: bool
  ng_settings :: rdpSettings
  ng_transport :: "'w rdpTransport"

record 'w nego_env =
  ne_bio :: "'w bio"
  ne_alloc :: "byte allocator"
  ne_struct_ok :: bool
  ne_debug :: bool
  ne_transport_connect :: "byte list option \<Rightarrow> int \<Rightarrow> int \<Rightarrow> 'w rdpTransport \<Rightarrow> bool \<times> 'w rdpTransport"
  ne_transport_connect_tls :: "'w rdpTransport \<Rightarrow> bool \<times> 'w rdpTransport"
  ne_transport_connect_nla :: "'w rdpTransport \<Rightarrow> bool \<times> 'w rdpTransport"
  ne_transport_accept_tls :: "'w rdpTransport \<Rightarrow> bool \<times> 'w rdpTransport"
  ne_transport_accept_nla :: "'w rdpTransport \<Rightarrow> bool \<times> 'w rdpTransport"
  ne_release :: "'w \<Rightarrow> 'w"
  ne_BIO_set_nonblock :: "bool \<Rightarrow> 'w \<Rightarrow> bool \<times> 'w"
  ne_ConvertToUnicode :: "byte list \<Rightarrow> int \<times> byte list option"

section \<open>Connecting the layers\<close>

definition nego_security_connect :: "'w nego_env \<Rightarrow> 'w rdpNego \<Rightarrow> bool \<times> 'w rdpNego" where
  "nego_security_connect E n =
     (let n' =
        (if \<not> ng_TcpConnected n then n\<lparr>ng_SecurityConnected := False\<rparr>
         else if \<not> ng_SecurityConnected n then
           if ng_SelectedProtocol n = PROTOCOL_NLA then
             (case ne_transport_connect_nla E (ng_transport n) of (ok, t) \<Rightarrow>
                n\<lparr>ng_SecurityConnected := ok, ng_transport := t\<rparr>)
           else if ng_SelectedProtocol n = PROTOCOL_TLS then
             (case ne_transport_connect_tls E (ng_transport n) of (ok, t) \<Rightarrow>
                n\<lparr>ng_SecurityConnected := ok, ng_transport := t\<rparr>)
           else if ng_SelectedProtocol n = PROTOCOL_RDP then
             n\<lparr>ng_SecurityConnected := transport_connect_rdp (ng_transport n)\<rparr>
           else n
         else n)
      in (ng_SecurityConnected n', n'))"

text \<open>\<^verbatim>\<open>nego->TcpConnected = transport_connect(nego->transport, nego->hostname, nego->port, timeout);\<close>\<close>

definition nego_open :: "'w nego_env \<Rightarrow> int \<Rightarrow> 'w rdpNego \<Rightarrow> 'w rdpNego" where
  "nego_open E timeout n =
     (case ne_transport_connect E (ng_hostname n) (ng_port n) timeout (ng_transport n) of (ok, t) \<Rightarrow>
        n\<lparr>ng_TcpConnected := ok, ng_transport := t\<rparr>)"

definition nego_gateway :: "bool \<Rightarrow> 'w rdpNego \<Rightarrow> 'w rdpNego" where
  "nego_gateway b n = n\<lparr>ng_transport := transport_set_gateway_enabled (ng_transport n) b\<rparr>"

definition nego_tcp_connect :: "'w nego_env \<Rightarrow> 'w rdpNego \<Rightarrow> bool \<times> 'w rdpNego" where
  "nego_tcp_connect E n =
     (let n' =
        (if \<not> ng_TcpConnected n then
           if ng_GatewayEnabled n then
             let n1 = (if ng_GatewayBypassLocal n then nego_open E 1 (nego_gateway False n) else n)
             in if \<not> ng_TcpConnected n1 then nego_open E 15 (nego_gateway True n1) else n1
           else nego_open E 15 n
         else n)
      in (ng_TcpConnected n', n'))"

definition nego_transport_connect :: "'w nego_env \<Rightarrow> 'w rdpNego \<Rightarrow> bool \<times> 'w rdpNego" where
  "nego_transport_connect E n =
     (let n = snd (nego_tcp_connect E n) in
      if ng_TcpConnected n \<and> \<not> ng_NegotiateSecurityLayer n then nego_security_connect E n
      else (ng_TcpConnected n, n))"

definition nego_transport_disconnect :: "'w nego_env \<Rightarrow> 'w rdpNego \<Rightarrow> bool \<times> 'w rdpNego" where
  "nego_transport_disconnect E n =
     (let n = (if ng_TcpConnected n
               then n\<lparr>ng_transport := snd (transport_disconnect (ne_release E) (ng_transport n))\<rparr> else n)
      in (True, n\<lparr>ng_TcpConnected := False, ng_SecurityConnected := False\<rparr>))"

definition nego_disconnect :: "'w nego_env \<Rightarrow> 'w rdpNego \<Rightarrow> bool \<times> 'w rdpNego" where
  "nego_disconnect E n = nego_transport_disconnect E (n\<lparr>ng_state := NEGO_STATE_INITIAL\<rparr>)"

section \<open>Messages of the server\<close>

text \<open>Reading into a local variable that is not used afterwards.\<close>

definition nego_process_negotiation_request :: "'w rdpNego \<Rightarrow> wStream \<Rightarrow> ('w rdpNego \<times> wStream) option" where
  "nego_process_negotiation_request n s = do {
     (_, s) \<leftarrow> Stream_Read_UINT8 s;
     (_, s) \<leftarrow> Stream_Read_UINT16 s;
     (p, s) \<leftarrow> Stream_Read_UINT32 s;
     Some (n\<lparr>ng_RequestedProtocols := p, ng_state := NEGO_STATE_FINAL\<rparr>, s) }"

definition nego_process_negotiation_response :: "'w rdpNego \<Rightarrow> wStream \<Rightarrow> ('w rdpNego \<times> wStream) option" where
  "nego_process_negotiation_response n s =
     (if Stream_GetRemainingLength s < 7 then Some (n\<lparr>ng_state := NEGO_STATE_FAIL\<rparr>, s)
      else do {
        (f, s) \<leftarrow> Stream_Read_UINT8 s;
        (_, s) \<leftarrow> Stream_Read_UINT16 s;
        (p, s) \<leftarrow> Stream_Read_UINT32 s;
        Some (n\<lparr>ng_flags := ucast f, ng_SelectedProtocol := p, ng_state := NEGO_STATE_FINAL\<rparr>, s) })"

definition nego_process_negotiation_failure :: "'w rdpNego \<Rightarrow> wStream \<Rightarrow> ('w rdpNego \<times> wStream) option" where
  "nego_process_negotiation_failure n s = do {
     (_, s) \<leftarrow> Stream_Read_UINT8 s;
     (_, s) \<leftarrow> Stream_Read_UINT16 s;
     (failureCode, s) \<leftarrow> Stream_Read_UINT32 s;
     Some (n\<lparr>ng_sendNegoData := (if failureCode = SSL_NOT_ALLOWED_BY_SERVER \<or> failureCode = SSL_CERT_NOT_ON_SERVER
              then True else ng_sendNegoData n),
            ng_state := NEGO_STATE_FAIL\<rparr>, s) }"

text \<open>The check of the selected protocol after a response.\<close>

definition nego_check_selected :: "'w rdpNego \<Rightarrow> 'w rdpNego" where
  "nego_check_selected n =
     (if ng_SelectedProtocol n \<noteq> 0 then
        let n = (if ng_SelectedProtocol n = PROTOCOL_NLA \<and> \<not> ng_NLA n then n\<lparr>ng_state := NEGO_STATE_FAIL\<rparr> else n)
        in (if ng_SelectedProtocol n = PROTOCOL_TLS \<and> \<not> ng_TLS n then n\<lparr>ng_state := NEGO_STATE_FAIL\<rparr> else n)
      else if \<not> ng_RDP n then n\<lparr>ng_state := NEGO_STATE_FAIL\<rparr> else n)"

definition nego_recv :: "wStream \<Rightarrow> 'w rdpNego \<Rightarrow> (int \<times> 'w rdpNego) option" where
  "nego_recv s n = do {
     (len, s) \<leftarrow> tpkt_read_header s;
     if len = 0 then Some (-1, n)
     else do {
       (li, s) \<leftarrow> tpdu_read_connection_confirm s;
       (case li of
          None \<Rightarrow> Some (-1, n)
        | Some li \<Rightarrow>
            if li > 6 then do {
              (type, s) \<leftarrow> Stream_Read_UINT8 s;
              if type = TYPE_RDP_NEG_RSP then do {
                (n, s) \<leftarrow> nego_process_negotiation_response n s;
                Some (0, nego_check_selected n) }
              else if type = TYPE_RDP_NEG_FAILURE then do {
                (n, s) \<leftarrow> nego_process_negotiation_failure n s;
                Some (0, n) }
              else Some (0, n) }
            else if li = 6 then
              Some (0, n\<lparr>ng_state := (if \<not> ng_RDP n then NEGO_STATE_FAIL else NEGO_STATE_FINAL)\<rparr>)
            else Some (0, n\<lparr>ng_state := NEGO_STATE_FAIL\<rparr>)) } }"

definition nego_recv_response :: "'w nego_env \<Rightarrow> 'w rdpNego \<Rightarrow> (bool \<times> 'w rdpNego) option" where
  "nego_recv_response E n =
     (case Stream_New (ne_alloc E) (ne_struct_ok E) None 1024 of
        None \<Rightarrow> Some (False, n)
      | Some s \<Rightarrow> do {
          (status, s, t) \<leftarrow> transport_read_pdu (ne_alloc E) (ne_bio E) (ng_transport n) s;
          let n = n\<lparr>ng_transport := t\<rparr>;
          if status < 0 then Some (False, n)
          else do {
            (status, n) \<leftarrow> nego_recv s n;
            Some (\<not> status < 0, n) } })"

section \<open>Messages of the client\<close>

definition RESTRICTED_ADMIN_MODE_REQUIRED :: byte where "RESTRICTED_ADMIN_MODE_REQUIRED = 1"
definition EXTENDED_CLIENT_DATA_SUPPORTED :: byte where "EXTENDED_CLIENT_DATA_SUPPORTED = 1"
definition DYNVC_GFX_PROTOCOL_SUPPORTED :: byte where "DYNVC_GFX_PROTOCOL_SUPPORTED = 2"
definition TPDU_CONNECTION_REQUEST_LENGTH :: int where "TPDU_CONNECTION_REQUEST_LENGTH = 11"
definition TPDU_CONNECTION_CONFIRM_LENGTH :: int where "TPDU_CONNECTION_CONFIRM_LENGTH = 11"
definition PRECONNECTION_PDU_V2_MIN_SIZE :: u32 where "PRECONNECTION_PDU_V2_MIN_SIZE = 18"
definition PRECONNECTION_PDU_V2 :: u32 where "PRECONNECTION_PDU_V2 = 2"

text \<open>\<^verbatim>\<open>"Cookie: mstshash="\<close> and \<^verbatim>\<open>"Cookie: msts="\<close>\<close>

definition COOKIE_HASH :: "byte list" where
  "COOKIE_HASH = [0x43, 0x6F, 0x6F, 0x6B, 0x69, 0x65, 0x3A, 0x20, 0x6D, 0x73, 0x74, 0x73, 0x68, 0x61, 0x73, 0x68, 0x3D]"

definition COOKIE_MSTS :: "byte list" where
  "COOKIE_MSTS = [0x43, 0x6F, 0x6F, 0x6B, 0x69, 0x65, 0x3A, 0x20, 0x6D, 0x73, 0x74, 0x73, 0x3D]"

text \<open>
  \<^verbatim>\<open>if (transport_write(nego->transport, s) < 0) return FALSE;\<close> The stream is freed in both cases.
\<close>

definition nego_write :: "'w nego_env \<Rightarrow> 'w rdpNego \<Rightarrow> wStream \<Rightarrow> (bool \<times> 'w rdpNego) option" where
  "nego_write E n s = do {
     (status, _, t) \<leftarrow> transport_write (ne_bio E) (ng_transport n) s;
     Some (\<not> status < 0, n\<lparr>ng_transport := t\<rparr>) }"

text \<open>The routing token or the cookie of a request, and the number of bytes it adds to the length.\<close>

definition nego_put_token :: "'w rdpNego \<Rightarrow> int \<Rightarrow> wStream \<Rightarrow> (int \<times> wStream) option" where
  "nego_put_token n len s =
     (case ng_RoutingToken n of
        Some tok \<Rightarrow> do {
          let tl = unat (ng_RoutingTokenLength n);
          d \<leftarrow> mem_read tok 0 tl;
          s \<leftarrow> Stream_Write d s;
          if tl > 2 \<and> tok ! (tl - 2) = 0x0D \<and> tok ! (tl - 1) = 0x0A then do {
            len \<leftarrow> int_ck (len + int tl);
            Some (len, s) }
          else do {
            s \<leftarrow> Stream_Write_UINT8 0x0D s;
            s \<leftarrow> Stream_Write_UINT8 0x0A s;
            len \<leftarrow> int_ck (len + int tl + 2);
            Some (len, s) } }
      | None \<Rightarrow>
          (case ng_cookie n of
             Some cookie \<Rightarrow> do {
               let cookie_length = to_int (length cookie);
               let cookie_length = (if cookie_length > sint (ng_CookieMaxLength n)
                  then sint (ng_CookieMaxLength n) else cookie_length);
               s \<leftarrow> Stream_Write COOKIE_HASH s;
               d \<leftarrow> mem_read (cookie @ [0]) 0 (to_size cookie_length);
               s \<leftarrow> Stream_Write d s;
               s \<leftarrow> Stream_Write_UINT8 0x0D s;
               s \<leftarrow> Stream_Write_UINT8 0x0A s;
               len \<leftarrow> int_ck (len + cookie_length + 19);
               Some (len, s) }
           | None \<Rightarrow> Some (len, s)))"

text \<open>The negotiation data of a request and of a response.\<close>

definition nego_put_data :: "byte \<Rightarrow> byte \<Rightarrow> u32 \<Rightarrow> writer" where
  "nego_put_data type flags v s = do {
     s \<leftarrow> Stream_Write_UINT8 type s;
     s \<leftarrow> Stream_Write_UINT8 flags s;
     s \<leftarrow> Stream_Write_UINT16 8 s;
     Stream_Write_UINT32 v s }"

text \<open>
  The end of a message: the header is written in front, at \<^verbatim>\<open>bm\<close>, and the position goes back to the
  end \<^verbatim>\<open>em\<close>, where the stream is sealed.
\<close>

definition nego_put_header :: "nat \<Rightarrow> byte \<Rightarrow> int \<Rightarrow> wStream \<Rightarrow> wStream option" where
  "nego_put_header bm code len s = do {
     let em = Stream_GetPosition s;
     s \<leftarrow> Stream_SetPosition s bm;
     s \<leftarrow> tpkt_write_header (word_of_int len) s;
     s \<leftarrow> tpdu_write_header (word_of_int (len - 5)) code s;
     s \<leftarrow> Stream_SetPosition s em;
     Some (Stream_SealLength s) }"

definition nego_request_pdu :: "'w nego_env \<Rightarrow> 'w rdpNego \<Rightarrow> wStream \<Rightarrow> wStream option" where
  "nego_request_pdu E n s = do {
     let bm = Stream_GetPosition s;
     s \<leftarrow> Stream_Seek s TPDU_CONNECTION_REQUEST_LENGTH;
     (len, s) \<leftarrow> nego_put_token n TPDU_CONNECTION_REQUEST_LENGTH s;
     (len, s) \<leftarrow>
       (if ng_RequestedProtocols n > PROTOCOL_RDP \<or> ng_sendNegoData n then do {
          let flags = (if ng_RestrictedAdminModeRequired n then RESTRICTED_ADMIN_MODE_REQUIRED else 0);
          s \<leftarrow> nego_put_data TYPE_RDP_NEG_REQ flags (ng_RequestedProtocols n) s;
          len \<leftarrow> int_ck (len + 8);
          Some (len, s) }
        else Some (len, s));
     nego_put_header bm X224_TPDU_CONNECTION_REQUEST len s }"

definition nego_send_negotiation_request :: "'w nego_env \<Rightarrow> 'w rdpNego \<Rightarrow> (bool \<times> 'w rdpNego) option" where
  "nego_send_negotiation_request E n =
     (case Stream_New (ne_alloc E) (ne_struct_ok E) None 512 of
        None \<Rightarrow> Some (False, n)
      | Some s \<Rightarrow> do { s \<leftarrow> nego_request_pdu E n s; nego_write E n s })"

text \<open>
  \<^verbatim>\<open>ConvertToUnicode\<close> gives the number of 16-bit characters and the block that holds them.
\<close>

definition nego_pcb :: "'w nego_env \<Rightarrow> 'w rdpNego \<Rightarrow> u16 \<times> byte list option \<times> u32" where
  "nego_pcb E n =
     (case ng_PreconnectionBlob n of
        None \<Rightarrow> (0, None, PRECONNECTION_PDU_V2_MIN_SIZE)
      | Some blob \<Rightarrow>
          let (c, wszPCB) = ne_ConvertToUnicode E blob;
              cchPCB = word_of_int c + 1
          in (cchPCB, wszPCB, PRECONNECTION_PDU_V2_MIN_SIZE + 2 * ucast cchPCB))"

definition nego_preconnection_pdu :: "u16 \<times> byte list option \<times> u32 \<Rightarrow> u32 \<Rightarrow> wStream \<Rightarrow> wStream option" where
  "nego_preconnection_pdu pcb ident s = (case pcb of (cchPCB, wszPCB, cbSize) \<Rightarrow> do {
     s \<leftarrow> Stream_Write_UINT32 cbSize s;
     s \<leftarrow> Stream_Write_UINT32 0 s;
     s \<leftarrow> Stream_Write_UINT32 PRECONNECTION_PDU_V2 s;
     s \<leftarrow> Stream_Write_UINT32 ident s;
     s \<leftarrow> Stream_Write_UINT16 cchPCB s;
     s \<leftarrow> (case wszPCB of
        None \<Rightarrow> Some s
      | Some w \<Rightarrow> do { d \<leftarrow> mem_read w 0 (2 * unat cchPCB); Stream_Write d s });
     Some (Stream_SealLength s) })"

definition nego_send_preconnection_pdu :: "'w nego_env \<Rightarrow> 'w rdpNego \<Rightarrow> (bool \<times> 'w rdpNego) option" where
  "nego_send_preconnection_pdu E n =
     (case nego_tcp_connect E n of (ok, n) \<Rightarrow>
      if \<not> ok then Some (False, n)
      else (case Stream_New (ne_alloc E) (ne_struct_ok E) None (unat (snd (snd (nego_pcb E n)))) of
           None \<Rightarrow> Some (False, n)
         | Some s \<Rightarrow> do {
             s \<leftarrow> nego_preconnection_pdu (nego_pcb E n) (ng_PreconnectionId n) s;
             nego_write E n s }))"

section \<open>The attempts\<close>

text \<open>
  The common start of the four attempts: connect, send the request for the protocols \<open>p\<close>, and
  wait for the answer. The flag is \<^verbatim>\<open>FALSE\<close> when the attempt returns after setting the state to
  \<^verbatim>\<open>NEGO_STATE_FAIL\<close>.
\<close>

definition nego_attempt :: "'w nego_env \<Rightarrow> u32 \<Rightarrow> 'w rdpNego \<Rightarrow> (bool \<times> 'w rdpNego) option" where
  "nego_attempt E p n =
     (let (ok, n) = nego_transport_connect E (n\<lparr>ng_RequestedProtocols := p\<rparr>) in
      if \<not> ok then Some (False, n\<lparr>ng_state := NEGO_STATE_FAIL\<rparr>)
      else do {
        (ok, n) \<leftarrow> nego_send_negotiation_request E n;
        if \<not> ok then Some (False, n\<lparr>ng_state := NEGO_STATE_FAIL\<rparr>)
        else do {
          (ok, n) \<leftarrow> nego_recv_response E n;
          Some (if \<not> ok then (False, n\<lparr>ng_state := NEGO_STATE_FAIL\<rparr>) else (True, n)) } })"

definition nego_attempt_ext :: "'w nego_env \<Rightarrow> 'w rdpNego \<Rightarrow> 'w rdpNego option" where
  "nego_attempt_ext E n = do {
     (ok, n) \<leftarrow> nego_attempt E (PROTOCOL_NLA OR PROTOCOL_TLS OR PROTOCOL_EXT) n;
     if \<not> ok then Some n
     else if ng_state n \<noteq> NEGO_STATE_FINAL then
       let n = snd (nego_transport_disconnect E n) in
       Some (n\<lparr>ng_state := (if ng_NLA n then NEGO_STATE_NLA else if ng_TLS n then NEGO_STATE_TLS
         else if ng_RDP n then NEGO_STATE_RDP else NEGO_STATE_FAIL)\<rparr>)
     else Some n }"

definition nego_attempt_nla :: "'w nego_env \<Rightarrow> 'w rdpNego \<Rightarrow> 'w rdpNego option" where
  "nego_attempt_nla E n = do {
     (ok, n) \<leftarrow> nego_attempt E (PROTOCOL_NLA OR PROTOCOL_TLS) n;
     if \<not> ok then Some n
     else if ng_state n \<noteq> NEGO_STATE_FINAL then
       let n = snd (nego_transport_disconnect E n) in
       Some (n\<lparr>ng_state := (if ng_TLS n then NEGO_STATE_TLS
         else if ng_RDP n then NEGO_STATE_RDP else NEGO_STATE_FAIL)\<rparr>)
     else Some n }"

definition nego_attempt_tls :: "'w nego_env \<Rightarrow> 'w rdpNego \<Rightarrow> 'w rdpNego option" where
  "nego_attempt_tls E n = do {
     (ok, n) \<leftarrow> nego_attempt E PROTOCOL_TLS n;
     if \<not> ok then Some n
     else if ng_state n \<noteq> NEGO_STATE_FINAL then
       let n = snd (nego_transport_disconnect E n) in
       Some (n\<lparr>ng_state := (if ng_RDP n then NEGO_STATE_RDP else NEGO_STATE_FAIL)\<rparr>)
     else Some n }"

definition nego_attempt_rdp :: "'w nego_env \<Rightarrow> 'w rdpNego \<Rightarrow> 'w rdpNego option" where
  "nego_attempt_rdp E n = do { (ok, n) \<leftarrow> nego_attempt E PROTOCOL_RDP n; Some n }"

definition nego_send :: "'w nego_env \<Rightarrow> 'w rdpNego \<Rightarrow> 'w rdpNego option" where
  "nego_send E n =
     (if ng_state n = NEGO_STATE_EXT then nego_attempt_ext E n
      else if ng_state n = NEGO_STATE_NLA then nego_attempt_nla E n
      else if ng_state n = NEGO_STATE_TLS then nego_attempt_tls E n
      else if ng_state n = NEGO_STATE_RDP then nego_attempt_rdp E n
      else Some n)"

text \<open>The loop of \<^verbatim>\<open>nego_connect\<close>. The flag is \<^verbatim>\<open>FALSE\<close> when \<^verbatim>\<open>nego_connect\<close> returns from inside it.\<close>

partial_function (option) nego_loop :: "'w nego_env \<Rightarrow> 'w rdpNego \<Rightarrow> (bool \<times> 'w rdpNego) option" where
  "nego_loop E n = do {
     n \<leftarrow> nego_send E n;
     if ng_state n = NEGO_STATE_FAIL then Some (False, n\<lparr>ng_state := NEGO_STATE_FINAL\<rparr>)
     else if ng_state n \<noteq> NEGO_STATE_FINAL then nego_loop E n
     else Some (True, n) }"

text \<open>The choice of the first attempt, and the reduction to it when negotiation is disabled.\<close>

definition nego_first_state :: "'w rdpNego \<Rightarrow> NEGO_STATE" where
  "nego_first_state n =
     (if ng_EXT n then NEGO_STATE_EXT else if ng_NLA n then NEGO_STATE_NLA
      else if ng_TLS n then NEGO_STATE_TLS else if ng_RDP n then NEGO_STATE_RDP else NEGO_STATE_FAIL)"

definition nego_only_first :: "'w rdpNego \<Rightarrow> 'w rdpNego" where
  "nego_only_first n =
     (if ng_NegotiateSecurityLayer n then n
      else let n = n\<lparr>ng_NLA := False, ng_TLS := False, ng_RDP := False, ng_EXT := False\<rparr> in
        (case ng_state n of
           NEGO_STATE_EXT \<Rightarrow> n\<lparr>ng_EXT := True, ng_NLA := True, ng_SelectedProtocol := PROTOCOL_EXT\<rparr>
         | NEGO_STATE_NLA \<Rightarrow> n\<lparr>ng_NLA := True, ng_SelectedProtocol := PROTOCOL_NLA\<rparr>
         | NEGO_STATE_TLS \<Rightarrow> n\<lparr>ng_TLS := True, ng_SelectedProtocol := PROTOCOL_TLS\<rparr>
         | NEGO_STATE_RDP \<Rightarrow> n\<lparr>ng_RDP := True, ng_SelectedProtocol := PROTOCOL_RDP\<rparr>
         | _ \<Rightarrow> n))"

text \<open>
  Logging the name of the protocol indexes a table of nine strings, when the debug messages
  are switched on.
\<close>

definition log_protocol :: "'w nego_env \<Rightarrow> u32 \<Rightarrow> unit option" where
  "log_protocol E p = c_assert (ne_debug E \<longrightarrow> unat p < 9)"

definition nego_finish :: "'w nego_env \<Rightarrow> 'w rdpNego \<Rightarrow> (bool \<times> 'w rdpNego) option" where
  "nego_finish E n = do {
     _ \<leftarrow> log_protocol E (ng_SelectedProtocol n);
     let se = (ng_settings n)\<lparr>se_RequestedProtocols := ng_RequestedProtocols n,
        se_SelectedProtocol := ng_SelectedProtocol n, se_NegotiationFlags := ng_flags n\<rparr>;
     let se = (if ng_SelectedProtocol n = PROTOCOL_RDP
       then se\<lparr>se_UseRdpSecurityLayer := True,
               se_EncryptionMethods := (if se_EncryptionMethods se = 0 then 0x1B else se_EncryptionMethods se)\<rparr>
       else se);
     let (ok, n) = nego_security_connect E (n\<lparr>ng_settings := se\<rparr>);
     _ \<leftarrow> (if ok then Some () else log_protocol E (ng_SelectedProtocol n));
     Some (ok, n) }"

text \<open>The first part of \<^verbatim>\<open>nego_connect\<close>. The flag is \<^verbatim>\<open>FALSE\<close> when \<^verbatim>\<open>nego_connect\<close> returns in it.\<close>

definition nego_start :: "'w nego_env \<Rightarrow> 'w rdpNego \<Rightarrow> (bool \<times> 'w rdpNego) option" where
  "nego_start E n =
     (if ng_state n = NEGO_STATE_INITIAL then
        let n = n\<lparr>ng_state := nego_first_state n\<rparr> in
        if ng_state n = NEGO_STATE_FAIL then Some (False, n)
        else let n = nego_only_first n in
          if ng_SendPreconnectionPdu n then do {
            (ok, n) \<leftarrow> nego_send_preconnection_pdu E n;
            Some (if ok then (True, n) else (False, n\<lparr>ng_state := NEGO_STATE_FINAL\<rparr>)) }
          else Some (True, n)
      else Some (True, n))"

definition nego_connect :: "'w nego_env \<Rightarrow> 'w rdpNego \<Rightarrow> (bool \<times> 'w rdpNego) option" where
  "nego_connect E n = do {
     (go, n) \<leftarrow> nego_start E n;
     if \<not> go then Some (False, n)
     else do {
       (go, n) \<leftarrow> nego_loop E n;
       if \<not> go then Some (False, n) else nego_finish E n } }"

section \<open>Settings\<close>

definition nego_init :: "'w rdpNego \<Rightarrow> 'w rdpNego" where
  "nego_init n = n\<lparr>ng_state := NEGO_STATE_INITIAL, ng_RequestedProtocols := PROTOCOL_RDP,
     ng_CookieMaxLength := 0xFF, ng_sendNegoData := False, ng_flags := 0\<rparr>"

text \<open>\<^verbatim>\<open>calloc\<close> clears every field; the flag says whether it succeeds. The settings hang on the transport.\<close>

definition nego_new :: "bool \<Rightarrow> rdpSettings \<Rightarrow> 'w rdpTransport \<Rightarrow> 'w rdpNego option" where
  "nego_new calloc_ok se t =
     (if \<not> calloc_ok then None
      else Some (nego_init \<lparr>ng_port = 0, ng_flags = 0, ng_hostname = None, ng_cookie = None, ng_RoutingToken = None,
        ng_RoutingTokenLength = 0, ng_SendPreconnectionPdu = False, ng_PreconnectionId = 0,
        ng_PreconnectionBlob = None, ng_state = NEGO_STATE_INITIAL, ng_TcpConnected = False,
        ng_SecurityConnected = False, ng_CookieMaxLength = 0, ng_sendNegoData = False, ng_SelectedProtocol = 0,
        ng_RequestedProtocols = 0, ng_NegotiateSecurityLayer = False, ng_RDP = False, ng_TLS = False,
        ng_NLA = False, ng_EXT = False, ng_RestrictedAdminModeRequired = False, ng_GatewayEnabled = False,
        ng_GatewayBypassLocal = False, ng_settings = se, ng_transport = t\<rparr>))"

definition nego_set_target :: "'w rdpNego \<Rightarrow> byte list option \<Rightarrow> int \<Rightarrow> 'w rdpNego" where
  "nego_set_target n hostname port = n\<lparr>ng_hostname := hostname, ng_port := port\<rparr>"

definition nego_set_negotiation_enabled :: "'w rdpNego \<Rightarrow> bool \<Rightarrow> 'w rdpNego" where
  "nego_set_negotiation_enabled n b = n\<lparr>ng_NegotiateSecurityLayer := b\<rparr>"

definition nego_set_restricted_admin_mode_required :: "'w rdpNego \<Rightarrow> bool \<Rightarrow> 'w rdpNego" where
  "nego_set_restricted_admin_mode_required n b = n\<lparr>ng_RestrictedAdminModeRequired := b\<rparr>"

definition nego_set_gateway_enabled :: "'w rdpNego \<Rightarrow> bool \<Rightarrow> 'w rdpNego" where
  "nego_set_gateway_enabled n b = n\<lparr>ng_GatewayEnabled := b\<rparr>"

definition nego_set_gateway_bypass_local :: "'w rdpNego \<Rightarrow> bool \<Rightarrow> 'w rdpNego" where
  "nego_set_gateway_bypass_local n b = n\<lparr>ng_GatewayBypassLocal := b\<rparr>"

definition nego_enable_rdp :: "'w rdpNego \<Rightarrow> bool \<Rightarrow> 'w rdpNego" where
  "nego_enable_rdp n b = n\<lparr>ng_RDP := b\<rparr>"

definition nego_enable_tls :: "'w rdpNego \<Rightarrow> bool \<Rightarrow> 'w rdpNego" where
  "nego_enable_tls n b = n\<lparr>ng_TLS := b\<rparr>"

definition nego_enable_nla :: "'w rdpNego \<Rightarrow> bool \<Rightarrow> 'w rdpNego" where
  "nego_enable_nla n b = n\<lparr>ng_NLA := b\<rparr>"

definition nego_enable_ext :: "'w rdpNego \<Rightarrow> bool \<Rightarrow> 'w rdpNego" where
  "nego_enable_ext n b = n\<lparr>ng_EXT := b\<rparr>"

text \<open>The old token is freed and its length replaced before the new block is allocated.\<close>

definition nego_set_routing_token :: "byte allocator \<Rightarrow> 'w rdpNego \<Rightarrow> byte list \<Rightarrow> u32 \<Rightarrow> (bool \<times> 'w rdpNego) option" where
  "nego_set_routing_token A n tok len =
     (case mem_alloc A (unat len) of
        None \<Rightarrow> Some (False, n\<lparr>ng_RoutingTokenLength := len, ng_RoutingToken := None\<rparr>)
      | Some _ \<Rightarrow> do {
          d \<leftarrow> mem_read tok 0 (unat len);
          Some (True, n\<lparr>ng_RoutingTokenLength := len, ng_RoutingToken := Some d\<rparr>) })"

definition nego_set_cookie :: "byte allocator \<Rightarrow> 'w rdpNego \<Rightarrow> byte list option \<Rightarrow> bool \<times> 'w rdpNego" where
  "nego_set_cookie A n cookie =
     (case cookie of
        None \<Rightarrow> (True, n\<lparr>ng_cookie := None\<rparr>)
      | Some c \<Rightarrow> (case mem_alloc A (length c + 1) of
            None \<Rightarrow> (False, n\<lparr>ng_cookie := None\<rparr>)
          | Some _ \<Rightarrow> (True, n\<lparr>ng_cookie := Some c\<rparr>)))"

definition nego_set_cookie_max_length :: "'w rdpNego \<Rightarrow> u32 \<Rightarrow> 'w rdpNego" where
  "nego_set_cookie_max_length n v = n\<lparr>ng_CookieMaxLength := v\<rparr>"

definition nego_set_send_preconnection_pdu :: "'w rdpNego \<Rightarrow> bool \<Rightarrow> 'w rdpNego" where
  "nego_set_send_preconnection_pdu n b = n\<lparr>ng_SendPreconnectionPdu := b\<rparr>"

definition nego_set_preconnection_id :: "'w rdpNego \<Rightarrow> u32 \<Rightarrow> 'w rdpNego" where
  "nego_set_preconnection_id n v = n\<lparr>ng_PreconnectionId := v\<rparr>"

definition nego_set_preconnection_blob :: "'w rdpNego \<Rightarrow> byte list option \<Rightarrow> 'w rdpNego" where
  "nego_set_preconnection_blob n b = n\<lparr>ng_PreconnectionBlob := b\<rparr>"

section \<open>The side of the server\<close>

text \<open>The search for the two bytes that end a token or a cookie.\<close>

partial_function (option) nego_find_crlf :: "u16 \<Rightarrow> wStream \<Rightarrow> (u16 \<times> wStream) option" where
  "nego_find_crlf crlf s =
     (if Stream_GetRemainingLength s \<ge> 2 then do {
        (crlf, s) \<leftarrow> Stream_Read_UINT16 s;
        if crlf = 0x0A0D then Some (crlf, s)
        else do { s \<leftarrow> Stream_Rewind s 1; nego_find_crlf crlf s } }
      else Some (crlf, s))"

text \<open>The string that starts at an offset of a block; without a zero the search leaves the block.\<close>

definition c_str :: "byte list \<Rightarrow> nat \<Rightarrow> byte list option" where
  "c_str buf p = (if 0 \<in> set (drop p buf) then Some (takeWhile (\<lambda>b. b \<noteq> 0) (drop p buf)) else None)"

text \<open>What follows after the prefix of a token or a cookie has been recognised.\<close>

definition nego_take_token :: "byte allocator \<Rightarrow> bool \<Rightarrow> nat \<Rightarrow> 'w rdpNego \<Rightarrow> wStream \<Rightarrow>
    (bool \<times> 'w rdpNego \<times> wStream) option" where
  "nego_take_token A isToken str n s = do {
     let pos = to_int str;
     (crlf, s) \<leftarrow> nego_find_crlf 0 s;
     (result, n, s) \<leftarrow>
       (if crlf = 0x0A0D then do {
          s \<leftarrow> Stream_Rewind s 2;
          let len = to_int (sz_sub (Stream_GetPosition s) (to_size pos));
          s \<leftarrow> Stream_Write_UINT16 0 s;
          c \<leftarrow> c_str (st_buffer s) str;
          if length c = to_size len then
            if isToken then do {
              (ok, n) \<leftarrow> nego_set_routing_token A n (drop str (st_buffer s)) (word_of_int len);
              Some (ok, n, s) }
            else (case nego_set_cookie A n (Some c) of (ok, n) \<Rightarrow> Some (ok, n, s))
          else Some (False, n, s) }
        else Some (False, n, s));
     if \<not> result then do { s \<leftarrow> Stream_SetPosition s (to_size pos); Some (False, n, s) }
     else Some (True, n, s) }"

definition nego_read_request_token_or_cookie :: "byte allocator \<Rightarrow> 'w rdpNego \<Rightarrow> wStream \<Rightarrow>
    (bool \<times> 'w rdpNego \<times> wStream) option" where
  "nego_read_request_token_or_cookie A n s =
     (let str = Stream_GetPosition s in
      if Stream_GetRemainingLength s < 15 then Some (True, n, s)
      else do {
        d \<leftarrow> mem_read (st_buffer s) (st_pointer s) 13;
        if d = COOKIE_MSTS then do {
          s \<leftarrow> Stream_Seek s 13;
          nego_take_token A True str n s }
        else if Stream_GetRemainingLength s < 19 then Some (True, n, s)
        else do {
          d \<leftarrow> mem_read (st_buffer s) (st_pointer s) 17;
          if d \<noteq> COOKIE_HASH then Some (True, n, s)
          else do {
            s \<leftarrow> Stream_Seek s 17;
            nego_take_token A False str n s } } })"

definition nego_read_request :: "byte allocator \<Rightarrow> 'w rdpNego \<Rightarrow> wStream \<Rightarrow> (bool \<times> 'w rdpNego \<times> wStream) option" where
  "nego_read_request A n s = do {
     (_, s) \<leftarrow> tpkt_read_header s;
     (li, s) \<leftarrow> tpdu_read_connection_request s;
     (case li of
        None \<Rightarrow> Some (False, n, s)
      | Some li \<Rightarrow>
          if unat li \<noteq> sz_add (Stream_GetRemainingLength s) 6 then Some (False, n, s)
          else do {
            (ok, n, s) \<leftarrow> nego_read_request_token_or_cookie A n s;
            if \<not> ok then Some (False, n, s)
            else if Stream_GetRemainingLength s \<ge> 8 then do {
              (type, s) \<leftarrow> Stream_Read_UINT8 s;
              if type \<noteq> TYPE_RDP_NEG_REQ then Some (False, n, s)
              else do {
                (n, s) \<leftarrow> nego_process_negotiation_request n s;
                Some (True, n, s) } }
            else Some (True, n, s) }) }"

definition nego_response_pdu :: "'w rdpNego \<Rightarrow> wStream \<Rightarrow> (bool \<times> wStream) option" where
  "nego_response_pdu n s = do {
     let bm = Stream_GetPosition s;
     s \<leftarrow> Stream_Seek s TPDU_CONNECTION_CONFIRM_LENGTH;
     (status, s) \<leftarrow>
       (if ng_SelectedProtocol n AND PROTOCOL_FAILED_NEGO \<noteq> 0 then do {
          s \<leftarrow> nego_put_data TYPE_RDP_NEG_FAILURE 0 (ng_SelectedProtocol n AND NOT PROTOCOL_FAILED_NEGO) s;
          Some (False, s) }
        else do {
          let flags = (if se_SupportGraphicsPipeline (ng_settings n)
             then EXTENDED_CLIENT_DATA_SUPPORTED OR DYNVC_GFX_PROTOCOL_SUPPORTED else EXTENDED_CLIENT_DATA_SUPPORTED);
          s \<leftarrow> nego_put_data TYPE_RDP_NEG_RSP flags (ng_SelectedProtocol n) s;
          Some (True, s) });
     s \<leftarrow> nego_put_header bm X224_TPDU_CONNECTION_CONFIRM (TPDU_CONNECTION_CONFIRM_LENGTH + 8) s;
     Some (status, s) }"

text \<open>The settings after a successful negotiation. The flag is \<^verbatim>\<open>FALSE\<close> when no server key is there.\<close>

definition nego_server_settings :: "rdpSettings \<Rightarrow> u32 \<Rightarrow> u32 \<Rightarrow> bool \<times> rdpSettings" where
  "nego_server_settings se requested selected =
     (let se = se\<lparr>se_RequestedProtocols := requested, se_SelectedProtocol := selected\<rparr> in
      if selected = PROTOCOL_RDP then
        let se = se\<lparr>se_TlsSecurity := False, se_NlaSecurity := False, se_RdpSecurity := True,
              se_UseRdpSecurityLayer := True,
              se_EncryptionLevel := (if se_EncryptionLevel se = 0 then 2 else se_EncryptionLevel se)\<rparr>;
            se = (if se_LocalConnection se then se\<lparr>se_UseRdpSecurityLayer := False, se_EncryptionLevel := 0\<rparr> else se)
        in (\<not> (\<not> se_RdpServerRsaKey se \<and> \<not> se_RdpKeyFile se), se)
      else if selected = PROTOCOL_TLS then
        (True, se\<lparr>se_TlsSecurity := True, se_NlaSecurity := False, se_RdpSecurity := False,
           se_UseRdpSecurityLayer := False, se_EncryptionLevel := 0\<rparr>)
      else if selected = PROTOCOL_NLA then
        (True, se\<lparr>se_TlsSecurity := True, se_NlaSecurity := True, se_RdpSecurity := False,
           se_UseRdpSecurityLayer := False, se_EncryptionLevel := 0\<rparr>)
      else (True, se))"

definition nego_send_negotiation_response :: "'w nego_env \<Rightarrow> 'w rdpNego \<Rightarrow> (bool \<times> 'w rdpNego) option" where
  "nego_send_negotiation_response E n =
     (case Stream_New (ne_alloc E) (ne_struct_ok E) None 512 of
        None \<Rightarrow> Some (False, n)
      | Some s \<Rightarrow> do {
          (status, s) \<leftarrow> nego_response_pdu n s;
          (ok, n) \<leftarrow> nego_write E n s;
          if \<not> ok then Some (False, n)
          else if status then
            (case nego_server_settings (ng_settings n) (ng_RequestedProtocols n) (ng_SelectedProtocol n) of (ok, se) \<Rightarrow>
               Some (ok, n\<lparr>ng_settings := se\<rparr>))
          else Some (False, n) })"

text \<open>The choice of the server in \<^verbatim>\<open>rdp_server_accept_nego\<close>.\<close>

definition rdp_server_select :: "rdpSettings \<Rightarrow> u32 \<Rightarrow> u32" where
  "rdp_server_select se requested =
     (if se_NlaSecurity se \<and> requested AND PROTOCOL_NLA \<noteq> 0 then PROTOCOL_NLA
      else if se_TlsSecurity se \<and> requested AND PROTOCOL_TLS \<noteq> 0 then PROTOCOL_TLS
      else if se_RdpSecurity se \<and> requested = PROTOCOL_RDP then PROTOCOL_RDP
      else if se_RdpSecurity se then PROTOCOL_FAILED_NEGO OR SSL_NOT_ALLOWED_BY_SERVER
      else if se_NlaSecurity se \<and> \<not> se_TlsSecurity se then PROTOCOL_FAILED_NEGO OR HYBRID_REQUIRED_BY_SERVER
      else PROTOCOL_FAILED_NEGO OR SSL_REQUIRED_BY_SERVER)"

text \<open>The transition to the next state of the connection at the end is not modelled.\<close>

definition rdp_server_accept_nego :: "'w nego_env \<Rightarrow> 'w rdpNego \<Rightarrow> wStream \<Rightarrow> (bool \<times> 'w rdpNego) option" where
  "rdp_server_accept_nego E n s = do {
     let n = n\<lparr>ng_transport := snd (transport_set_blocking_mode (ne_BIO_set_nonblock E) (ng_transport n) True)\<rparr>;
     (ok, n, s) \<leftarrow> nego_read_request (ne_alloc E) n s;
     if \<not> ok then Some (False, n)
     else do {
       let n = n\<lparr>ng_SelectedProtocol := rdp_server_select (ng_settings n) (ng_RequestedProtocols n)\<rparr>;
       (ok, n) \<leftarrow> nego_send_negotiation_response E n;
       if \<not> ok then Some (False, n)
       else
         let (status, t) =
           (if ng_SelectedProtocol n AND PROTOCOL_NLA \<noteq> 0 then ne_transport_accept_nla E (ng_transport n)
            else if ng_SelectedProtocol n AND PROTOCOL_TLS \<noteq> 0 then ne_transport_accept_tls E (ng_transport n)
            else if ng_SelectedProtocol n = PROTOCOL_RDP
            then (transport_accept_rdp (ng_transport n), ng_transport n)
            else (False, ng_transport n)) in
         if \<not> status then Some (False, n\<lparr>ng_transport := t\<rparr>)
         else Some (True, n\<lparr>ng_transport :=
           snd (transport_set_blocking_mode (ne_BIO_set_nonblock E) t False)\<rparr>) } }"

section \<open>What the attempts leave alone\<close>

text \<open>The configuration of the client, and the protocols that a final state may have selected.\<close>

definition ng_config :: "'w rdpNego \<Rightarrow> (bool \<times> bool \<times> bool \<times> bool \<times> bool) \<times> byte list option \<times> byte list option \<times> u32 \<times> u32" where
  "ng_config n = ((ng_RDP n, ng_TLS n, ng_NLA n, ng_EXT n, ng_NegotiateSecurityLayer n),
     ng_cookie n, ng_RoutingToken n, ng_RoutingTokenLength n, ng_CookieMaxLength n)"

definition sel_ok :: "'w rdpNego \<Rightarrow> bool" where
  "sel_ok n \<longleftrightarrow> ng_RDP n \<or> ng_SelectedProtocol n \<noteq> PROTOCOL_RDP \<and>
     (ng_SelectedProtocol n = PROTOCOL_TLS \<longrightarrow> ng_TLS n) \<and> (ng_SelectedProtocol n = PROTOCOL_NLA \<longrightarrow> ng_NLA n)"

lemmas protocol_defs = PROTOCOL_RDP_def PROTOCOL_TLS_def PROTOCOL_NLA_def PROTOCOL_EXT_def

lemma config_fields:
  assumes "ng_config n' = ng_config n"
  shows "ng_RDP n' = ng_RDP n" "ng_TLS n' = ng_TLS n" "ng_NLA n' = ng_NLA n" "ng_EXT n' = ng_EXT n"
    "ng_NegotiateSecurityLayer n' = ng_NegotiateSecurityLayer n"
  using assms by (simp_all add: ng_config_def)

lemma tcp_connect_frame:
  assumes "nego_tcp_connect E n = (ok, n')"
  shows "ng_config n' = ng_config n" "ng_state n' = ng_state n" "ng_SelectedProtocol n' = ng_SelectedProtocol n"
    "ng_SecurityConnected n' = ng_SecurityConnected n" "ng_TcpConnected n' = ok"
    "ng_RequestedProtocols n' = ng_RequestedProtocols n"
  using assms by (auto simp: nego_tcp_connect_def nego_open_def nego_gateway_def ng_config_def Let_def split: prod.splits if_splits)

lemma security_connect_frame:
  assumes "nego_security_connect E n = (ok, n')"
  shows "ng_config n' = ng_config n" "ng_state n' = ng_state n" "ng_SelectedProtocol n' = ng_SelectedProtocol n"
    "ng_TcpConnected n' = ng_TcpConnected n" "ng_SecurityConnected n' = ok"
    "ng_RequestedProtocols n' = ng_RequestedProtocols n"
  using assms by (auto simp: nego_security_connect_def ng_config_def Let_def split: prod.splits if_splits)

lemma transport_connect_frame:
  assumes "nego_transport_connect E n = (ok, n')"
  shows "ng_config n' = ng_config n" "ng_state n' = ng_state n" "ng_SelectedProtocol n' = ng_SelectedProtocol n"
    "ng_NegotiateSecurityLayer n \<Longrightarrow> ng_SecurityConnected n' = ng_SecurityConnected n"
proof -
  obtain b m where m: "nego_tcp_connect E n = (b, m)" by fastforce
  note T = tcp_connect_frame [OF m]
  have "n' = m \<or> (\<exists>q. nego_security_connect E m = (q, n')) \<and> \<not> ng_NegotiateSecurityLayer m"
    using assms m by (auto simp: nego_transport_connect_def Let_def split: if_splits)
  then show "ng_config n' = ng_config n" "ng_state n' = ng_state n" "ng_SelectedProtocol n' = ng_SelectedProtocol n"
    "ng_NegotiateSecurityLayer n \<Longrightarrow> ng_SecurityConnected n' = ng_SecurityConnected n"
    using T config_fields [OF T(1)] security_connect_frame [of E m] by metis+
qed

lemma send_request_frame:
  assumes "nego_send_negotiation_request E n = Some (ok, n')"
  shows "n' = n\<lparr>ng_transport := ng_transport n'\<rparr>"
  using assms by (auto simp: nego_send_negotiation_request_def nego_write_def bind_eq_Some_conv split: option.splits)

lemma response_cases:
  assumes "nego_process_negotiation_response n s = Some (n', s')"
  shows "ng_config n' = ng_config n" "ng_SecurityConnected n' = ng_SecurityConnected n" "ng_TcpConnected n' = ng_TcpConnected n"
    "ng_transport n' = ng_transport n"
  using assms by (auto simp: nego_process_negotiation_response_def ng_config_def bind_eq_Some_conv split: if_splits)

lemma response_state:
  "nego_process_negotiation_response n s = Some (n', s') \<Longrightarrow> ng_state n' = NEGO_STATE_FAIL \<or> ng_state n' = NEGO_STATE_FINAL"
  by (auto simp: nego_process_negotiation_response_def bind_eq_Some_conv split: if_splits)

lemma failure_cases:
  assumes "nego_process_negotiation_failure n s = Some (n', s')"
  shows "ng_config n' = ng_config n" "ng_SecurityConnected n' = ng_SecurityConnected n" "ng_TcpConnected n' = ng_TcpConnected n"
    "ng_state n' = NEGO_STATE_FAIL" "ng_transport n' = ng_transport n"
  using assms by (auto simp: nego_process_negotiation_failure_def ng_config_def bind_eq_Some_conv)

lemma check_selected_cases:
  "ng_config (nego_check_selected n) = ng_config n"
  "ng_SecurityConnected (nego_check_selected n) = ng_SecurityConnected n"
  "ng_TcpConnected (nego_check_selected n) = ng_TcpConnected n"
  "ng_transport (nego_check_selected n) = ng_transport n"
  "ng_state (nego_check_selected n) = ng_state n \<or> ng_state (nego_check_selected n) = NEGO_STATE_FAIL"
  "ng_state (nego_check_selected n) \<noteq> NEGO_STATE_FAIL \<Longrightarrow> sel_ok (nego_check_selected n)"
  by (auto simp: nego_check_selected_def ng_config_def sel_ok_def Let_def protocol_defs)

text \<open>
  A message of the server ends the attempt, well or badly, or has a type that nobody knows.
\<close>

lemma nego_recv_cases:
  assumes "nego_recv s n = Some (st, n')"
  shows "ng_config n' = ng_config n" "ng_SecurityConnected n' = ng_SecurityConnected n"
    "ng_TcpConnected n' = ng_TcpConnected n" "ng_transport n' = ng_transport n"
    "n' = n \<or> ng_state n' = NEGO_STATE_FAIL \<or> ng_state n' = NEGO_STATE_FINAL \<and> sel_ok n'"
proof -
  let ?P = "\<lambda>m. ng_config m = ng_config n \<and> ng_SecurityConnected m = ng_SecurityConnected n \<and>
    ng_TcpConnected m = ng_TcpConnected n \<and> ng_transport m = ng_transport n \<and>
    (m = n \<or> ng_state m = NEGO_STATE_FAIL \<or> ng_state m = NEGO_STATE_FINAL \<and> sel_ok m)"
  obtain len s1 where e1: "tpkt_read_header s = Some (len, s1)"
    using assms by (auto simp: nego_recv_def bind_eq_Some_conv)
  have "?P n'"
  proof (cases "len = 0")
    case False
    then obtain li s2 where e2: "tpdu_read_connection_confirm s1 = Some (li, s2)"
      using assms e1 by (auto simp: nego_recv_def bind_eq_Some_conv)
    show ?thesis
    proof (cases li)
      case (Some l)
      show ?thesis
      proof (cases "l > 6")
        case True
        then obtain ty s3 where e3: "Stream_Read_UINT8 s2 = Some (ty, s3)"
          using assms e1 e2 False Some by (auto simp: nego_recv_def bind_eq_Some_conv)
        consider (rsp) m s4 where "nego_process_negotiation_response n s3 = Some (m, s4)" "n' = nego_check_selected m"
          | (failure) s4 where "nego_process_negotiation_failure n s3 = Some (n', s4)" | (other) "n' = n"
          using assms e1 e2 e3 False Some True by (auto simp: nego_recv_def bind_eq_Some_conv split: if_splits)
        then show ?thesis
        proof cases
          case rsp
          then show ?thesis
            using response_cases [OF rsp(1)] check_selected_cases [of m] response_state [OF rsp(1)] by metis
        next
          case failure
          then show ?thesis using failure_cases [OF failure] by simp
        qed simp
      next
        case False
        then show ?thesis using assms e1 e2 \<open>len \<noteq> 0\<close> Some
          by (auto simp: nego_recv_def ng_config_def sel_ok_def split: if_splits)
      qed
    qed (use assms e1 e2 False in \<open>simp add: nego_recv_def\<close>)
  qed (use assms e1 in \<open>simp add: nego_recv_def\<close>)
  then show "ng_config n' = ng_config n" "ng_SecurityConnected n' = ng_SecurityConnected n"
    "ng_TcpConnected n' = ng_TcpConnected n" "ng_transport n' = ng_transport n"
    "n' = n \<or> ng_state n' = NEGO_STATE_FAIL \<or> ng_state n' = NEGO_STATE_FINAL \<and> sel_ok n'" by blast+
qed

lemma recv_response_cases:
  assumes "nego_recv_response E n = Some (ok, n')"
  shows "ng_config n' = ng_config n" "ng_SecurityConnected n' = ng_SecurityConnected n"
    "ng_state n' = ng_state n \<or> ng_state n' = NEGO_STATE_FAIL \<or> ng_state n' = NEGO_STATE_FINAL \<and> sel_ok n'"
proof -
  consider "n' = n" | t where "n' = n\<lparr>ng_transport := t\<rparr>"
    | s t st where "nego_recv s (n\<lparr>ng_transport := t\<rparr>) = Some (st, n')"
    using assms by (auto simp: nego_recv_response_def bind_eq_Some_conv Let_def split: option.splits if_splits)
  note C = this
  have cfg: "ng_config (n\<lparr>ng_transport := t\<rparr>) = ng_config n" for t by (simp add: ng_config_def)
  show "ng_config n' = ng_config n" using C
  proof cases
    case (3 s t st)
    then show ?thesis using nego_recv_cases(1) [OF 3] cfg by simp
  qed (simp_all add: cfg)
  show "ng_SecurityConnected n' = ng_SecurityConnected n" using C
  proof cases
    case (3 s t st)
    then show ?thesis using nego_recv_cases(2) [OF 3] by simp
  qed simp_all
  show "ng_state n' = ng_state n \<or> ng_state n' = NEGO_STATE_FAIL \<or> ng_state n' = NEGO_STATE_FINAL \<and> sel_ok n'" using C
  proof cases
    case (3 s t st)
    then show ?thesis using nego_recv_cases(5) [OF 3] by auto
  qed simp_all
qed

text \<open>One attempt: the flag is cleared only together with the state \<^verbatim>\<open>NEGO_STATE_FAIL\<close>.\<close>

lemma nego_attempt_cases:
  assumes "nego_attempt E p n = Some (ok, n')"
  shows "ng_config n' = ng_config n"
    "ng_NegotiateSecurityLayer n \<Longrightarrow> ng_SecurityConnected n' = ng_SecurityConnected n"
    "if ok then ng_state n' = ng_state n \<or> ng_state n' = NEGO_STATE_FAIL \<or> ng_state n' = NEGO_STATE_FINAL \<and> sel_ok n'
     else ng_state n' = NEGO_STATE_FAIL"
proof -
  let ?n = "n\<lparr>ng_RequestedProtocols := p\<rparr>"
  obtain b m where T: "nego_transport_connect E ?n = (b, m)" by fastforce
  note t = transport_connect_frame [OF T]
  have c0: "ng_config ?n = ng_config n" by (simp add: ng_config_def)
  consider "\<not> ok" "n' = m\<lparr>ng_state := NEGO_STATE_FAIL\<rparr>"
    | m1 q where "\<not> ok" "nego_send_negotiation_request E m = Some (q, m1)" "n' = m1\<lparr>ng_state := NEGO_STATE_FAIL\<rparr>"
    | m1 q m2 where "nego_send_negotiation_request E m = Some (q, m1)" "nego_recv_response E m1 = Some (ok, m2)"
        "n' = (if ok then m2 else m2\<lparr>ng_state := NEGO_STATE_FAIL\<rparr>)"
    using assms T by (auto simp: nego_attempt_def bind_eq_Some_conv split: if_splits)
  note C = this
  have stc: "ng_config (x\<lparr>ng_state := s\<rparr>) = ng_config x" "ng_config (x\<lparr>ng_transport := y\<rparr>) = ng_config x" for x :: "'a rdpNego" and s y
    by (simp_all add: ng_config_def)
  have sr: "ng_config m1 = ng_config m" "ng_state m1 = ng_state m" "ng_SecurityConnected m1 = ng_SecurityConnected m"
    if "nego_send_negotiation_request E m = Some (q, m1)" for q m1
    using arg_cong [OF send_request_frame [OF that], of ng_config] arg_cong [OF send_request_frame [OF that], of ng_state]
      arg_cong [OF send_request_frame [OF that], of ng_SecurityConnected] stc by simp_all
  show "ng_config n' = ng_config n" using C
  proof cases
    case (3 m1 q m2)
    then show ?thesis using recv_response_cases(1) [OF 3(2)] sr(1) [OF 3(1)] t(1) c0 stc by simp
  qed (use t c0 stc sr in simp_all)
  show "ng_SecurityConnected n' = ng_SecurityConnected n" if "ng_NegotiateSecurityLayer n" using C
  proof cases
    case (3 m1 q m2)
    then show ?thesis using recv_response_cases(2) [OF 3(2)] sr(3) [OF 3(1)] t(4) that by simp
  qed (use t sr that in simp_all)
  show "if ok then ng_state n' = ng_state n \<or> ng_state n' = NEGO_STATE_FAIL \<or> ng_state n' = NEGO_STATE_FINAL \<and> sel_ok n'
     else ng_state n' = NEGO_STATE_FAIL" using C
  proof cases
    case (3 m1 q m2)
    then show ?thesis using recv_response_cases(3) [OF 3(2)] sr(2) [OF 3(1)] t(2) by auto
  qed simp_all
qed

section \<open>The order of the attempts\<close>

text \<open>
  The states as a step relation: from an attempt to the next weaker protocol that is enabled, or
  to the end. Only the attempt with RDP security can be followed by itself.
\<close>

inductive nego_next :: "'w rdpNego \<Rightarrow> NEGO_STATE \<Rightarrow> NEGO_STATE \<Rightarrow> bool" for n where
  final: "nego_next n s NEGO_STATE_FINAL"
| failed: "nego_next n s NEGO_STATE_FAIL"
| ext_nla: "ng_NLA n \<Longrightarrow> nego_next n NEGO_STATE_EXT NEGO_STATE_NLA"
| ext_tls: "\<not> ng_NLA n \<Longrightarrow> ng_TLS n \<Longrightarrow> nego_next n NEGO_STATE_EXT NEGO_STATE_TLS"
| ext_rdp: "\<not> ng_NLA n \<Longrightarrow> \<not> ng_TLS n \<Longrightarrow> ng_RDP n \<Longrightarrow> nego_next n NEGO_STATE_EXT NEGO_STATE_RDP"
| nla_tls: "ng_TLS n \<Longrightarrow> nego_next n NEGO_STATE_NLA NEGO_STATE_TLS"
| nla_rdp: "\<not> ng_TLS n \<Longrightarrow> ng_RDP n \<Longrightarrow> nego_next n NEGO_STATE_NLA NEGO_STATE_RDP"
| tls_rdp: "ng_RDP n \<Longrightarrow> nego_next n NEGO_STATE_TLS NEGO_STATE_RDP"
| again: "nego_next n NEGO_STATE_RDP NEGO_STATE_RDP"

inductive_cases nego_nextE: "nego_next n s s'"
inductive_simps nego_next_simps: "nego_next n NEGO_STATE_EXT s'" "nego_next n NEGO_STATE_NLA s'"
  "nego_next n NEGO_STATE_TLS s'" "nego_next n NEGO_STATE_RDP s'"

definition attempting :: "NEGO_STATE \<Rightarrow> bool" where
  "attempting s \<longleftrightarrow> s = NEGO_STATE_EXT \<or> s = NEGO_STATE_NLA \<or> s = NEGO_STATE_TLS \<or> s = NEGO_STATE_RDP"

fun state_enabled :: "'w rdpNego \<Rightarrow> NEGO_STATE \<Rightarrow> bool" where
  "state_enabled n NEGO_STATE_EXT = ng_EXT n"
| "state_enabled n NEGO_STATE_NLA = ng_NLA n"
| "state_enabled n NEGO_STATE_TLS = ng_TLS n"
| "state_enabled n NEGO_STATE_RDP = ng_RDP n"
| "state_enabled n _ = True"

fun strength :: "NEGO_STATE \<Rightarrow> nat" where
  "strength NEGO_STATE_EXT = 4"
| "strength NEGO_STATE_NLA = 3"
| "strength NEGO_STATE_TLS = 2"
| "strength NEGO_STATE_RDP = 1"
| "strength _ = 0"

lemma nego_next_enabled: "nego_next n s s' \<Longrightarrow> state_enabled n s \<Longrightarrow> state_enabled n s'"
  by (erule nego_nextE) auto

lemma state_enabled_config: "ng_config m = ng_config n \<Longrightarrow> state_enabled m s = state_enabled n s"
  by (cases s) (auto dest: config_fields)

lemma nego_next_weaker: "nego_next n s s' \<Longrightarrow> attempting s \<Longrightarrow> strength s' < strength s \<or> s = NEGO_STATE_RDP \<and> s' = NEGO_STATE_RDP"
  by (erule nego_nextE) (auto simp: attempting_def)

lemma transport_disconnect_frame:
  "ng_config (snd (nego_transport_disconnect E n)) = ng_config n"
  by (simp add: nego_transport_disconnect_def ng_config_def Let_def)

text \<open>The four attempts in one equation.\<close>

fun requested_by :: "NEGO_STATE \<Rightarrow> u32" where
  "requested_by NEGO_STATE_EXT = PROTOCOL_NLA OR PROTOCOL_TLS OR PROTOCOL_EXT"
| "requested_by NEGO_STATE_NLA = PROTOCOL_NLA OR PROTOCOL_TLS"
| "requested_by NEGO_STATE_TLS = PROTOCOL_TLS"
| "requested_by _ = PROTOCOL_RDP"

fun fallback :: "'w rdpNego \<Rightarrow> NEGO_STATE \<Rightarrow> NEGO_STATE" where
  "fallback n NEGO_STATE_EXT = (if ng_NLA n then NEGO_STATE_NLA else if ng_TLS n then NEGO_STATE_TLS
     else if ng_RDP n then NEGO_STATE_RDP else NEGO_STATE_FAIL)"
| "fallback n NEGO_STATE_NLA = (if ng_TLS n then NEGO_STATE_TLS else if ng_RDP n then NEGO_STATE_RDP else NEGO_STATE_FAIL)"
| "fallback n _ = (if ng_RDP n then NEGO_STATE_RDP else NEGO_STATE_FAIL)"

definition nego_after :: "'w nego_env \<Rightarrow> NEGO_STATE \<Rightarrow> bool \<times> 'w rdpNego \<Rightarrow> 'w rdpNego" where
  "nego_after E s = (\<lambda>(b, m). if b \<and> s \<noteq> NEGO_STATE_RDP \<and> ng_state m \<noteq> NEGO_STATE_FINAL
     then (let m' = snd (nego_transport_disconnect E m) in m'\<lparr>ng_state := fallback m' s\<rparr>) else m)"

lemma nego_send_eq:
  assumes "attempting (ng_state n)"
  shows "nego_send E n = map_option (nego_after E (ng_state n)) (nego_attempt E (requested_by (ng_state n)) n)"
  using assms
  by (cases "nego_attempt E (requested_by (ng_state n)) n"; cases "ng_state n")
     (auto simp: nego_send_def attempting_def nego_attempt_ext_def nego_attempt_nla_def nego_attempt_tls_def
      nego_attempt_rdp_def nego_after_def Let_def)

lemma fallback_next: "attempting s \<Longrightarrow> s \<noteq> NEGO_STATE_RDP \<Longrightarrow> nego_next n s (fallback n s) \<and> fallback n s \<noteq> NEGO_STATE_FINAL"
  by (auto simp: attempting_def intro: nego_next.intros split: if_splits)

lemma fallback_config: "ng_config m = ng_config n \<Longrightarrow> fallback m s = fallback n s"
  by (cases s) (auto dest: config_fields)

lemma nego_send_step:
  assumes "nego_send E n = Some n'" "attempting (ng_state n)"
  shows "ng_config n' = ng_config n" "nego_next n (ng_state n) (ng_state n')"
    "ng_state n' = NEGO_STATE_FINAL \<Longrightarrow> sel_ok n'"
    "ng_NegotiateSecurityLayer n \<Longrightarrow> \<not> ng_SecurityConnected n \<Longrightarrow> \<not> ng_SecurityConnected n'"
proof -
  obtain b m where A: "nego_attempt E (requested_by (ng_state n)) n = Some (b, m)" and r: "n' = nego_after E (ng_state n) (b, m)"
    using assms nego_send_eq [of n E] by auto
  note a = nego_attempt_cases [OF A]
  show "ng_config n' = ng_config n" using a(1) transport_disconnect_frame [of E m]
    by (auto simp: r nego_after_def Let_def ng_config_def)
  have "nego_next n (ng_state n) (ng_state n') \<and> (ng_state n' = NEGO_STATE_FINAL \<longrightarrow> sel_ok n')"
  proof (cases "b \<and> ng_state n \<noteq> NEGO_STATE_RDP \<and> ng_state m \<noteq> NEGO_STATE_FINAL")
    case True
    then have "ng_state n' = fallback n (ng_state n)"
      using transport_disconnect_frame [of E m] a(1) fallback_config by (simp add: r nego_after_def Let_def)
    then show ?thesis using fallback_next [OF assms(2), of n] True by simp
  next
    case False
    then have m: "n' = m" by (auto simp: r nego_after_def)
    show ?thesis
    proof (cases b)
      case True
      then show ?thesis using a(3) False assms(2) by (auto simp: m attempting_def intro: nego_next.intros)
    next
      case no: False
      then show ?thesis using a(3) by (auto simp: m intro: nego_next.intros)
    qed
  qed
  then show "nego_next n (ng_state n) (ng_state n')" "ng_state n' = NEGO_STATE_FINAL \<Longrightarrow> sel_ok n'" by blast+
  show "\<not> ng_SecurityConnected n'" if "ng_NegotiateSecurityLayer n" "\<not> ng_SecurityConnected n"
    using a(2) that by (auto simp: r nego_after_def nego_transport_disconnect_def Let_def)
qed

text \<open>The loop, by the induction rule of its fixed point.\<close>

lemma nego_loop_post:
  assumes "nego_loop E n = Some r" "attempting (ng_state n)"
  shows "ng_config (snd r) = ng_config n \<and> ng_state (snd r) = NEGO_STATE_FINAL \<and> (fst r \<longrightarrow> sel_ok (snd r)) \<and>
     (ng_NegotiateSecurityLayer n \<and> \<not> ng_SecurityConnected n \<longrightarrow> \<not> ng_SecurityConnected (snd r))"
proof -
  have "attempting (ng_state n) \<longrightarrow> ng_config (snd r) = ng_config n \<and> ng_state (snd r) = NEGO_STATE_FINAL \<and>
     (fst r \<longrightarrow> sel_ok (snd r)) \<and>
     (ng_NegotiateSecurityLayer n \<and> \<not> ng_SecurityConnected n \<longrightarrow> \<not> ng_SecurityConnected (snd r))"
  proof (rule nego_loop.raw_induct [OF _ assms(1)])
    fix loop E n r
    assume IH: "\<And>E n r. loop E n = Some r \<Longrightarrow> attempting (ng_state n) \<longrightarrow> ng_config (snd r) = ng_config n \<and>
        ng_state (snd r) = NEGO_STATE_FINAL \<and> (fst r \<longrightarrow> sel_ok (snd r)) \<and>
        (ng_NegotiateSecurityLayer n \<and> \<not> ng_SecurityConnected n \<longrightarrow> \<not> ng_SecurityConnected (snd r))"
      and e: "do { n \<leftarrow> nego_send E n;
         if ng_state n = NEGO_STATE_FAIL then Some (False, n\<lparr>ng_state := NEGO_STATE_FINAL\<rparr>)
         else if ng_state n \<noteq> NEGO_STATE_FINAL then loop E n else Some (True, n) } = Some r"
    show "attempting (ng_state n) \<longrightarrow> ng_config (snd r) = ng_config n \<and> ng_state (snd r) = NEGO_STATE_FINAL \<and>
       (fst r \<longrightarrow> sel_ok (snd r)) \<and>
       (ng_NegotiateSecurityLayer n \<and> \<not> ng_SecurityConnected n \<longrightarrow> \<not> ng_SecurityConnected (snd r))"
    proof
      assume at: "attempting (ng_state n)"
      from e obtain m where m: "nego_send E n = Some m" by (auto simp: bind_eq_Some_conv)
      note S = nego_send_step [OF m at]
      have neg: "ng_NegotiateSecurityLayer m = ng_NegotiateSecurityLayer n" using config_fields(5) [OF S(1)] .
      consider "ng_state m = NEGO_STATE_FAIL" | "ng_state m = NEGO_STATE_FINAL" | "attempting (ng_state m)"
        using S(2) by (cases "ng_state m") (auto simp: attempting_def elim: nego_nextE)
      then show "ng_config (snd r) = ng_config n \<and> ng_state (snd r) = NEGO_STATE_FINAL \<and> (fst r \<longrightarrow> sel_ok (snd r)) \<and>
         (ng_NegotiateSecurityLayer n \<and> \<not> ng_SecurityConnected n \<longrightarrow> \<not> ng_SecurityConnected (snd r))"
      proof cases
        case 1
        then show ?thesis using e m S by (auto simp: ng_config_def)
      next
        case 2
        then show ?thesis using e m S by auto
      next
        case 3
        then have "loop E m = Some r" using e m by (auto simp: attempting_def)
        then show ?thesis using IH [of E m r] 3 S neg by auto
      qed
    qed
  qed
  with assms(2) show ?thesis by blast
qed

lemma first_state:
  "ng_config (n\<lparr>ng_state := nego_first_state n\<rparr>) = ng_config n"
  "nego_first_state n \<noteq> NEGO_STATE_FAIL \<Longrightarrow> attempting (nego_first_state n) \<and> state_enabled n (nego_first_state n)"
  by (auto simp: ng_config_def nego_first_state_def attempting_def split: if_splits)

lemma preconnection_frame:
  assumes "nego_send_preconnection_pdu E n = Some (ok, n')"
  shows "ng_config n' = ng_config n" "ng_state n' = ng_state n" "ng_SecurityConnected n' = ng_SecurityConnected n"
proof -
  obtain b m where m: "nego_tcp_connect E n = (b, m)" by fastforce
  note T = tcp_connect_frame [OF m]
  have "\<exists>t. n' = m\<lparr>ng_transport := t\<rparr> \<or> n' = m"
    using assms m by (auto simp: nego_send_preconnection_pdu_def nego_write_def bind_eq_Some_conv
        split: if_splits option.splits)
  then have "ng_config n' = ng_config m \<and> ng_state n' = ng_state m \<and> ng_SecurityConnected n' = ng_SecurityConnected m"
    by (auto simp: ng_config_def)
  then show "ng_config n' = ng_config n" "ng_state n' = ng_state n" "ng_SecurityConnected n' = ng_SecurityConnected n"
    by (simp_all add: T)
qed

lemma nego_start_post:
  assumes "nego_start E n = Some (True, m)" "ng_state n = NEGO_STATE_INITIAL" "ng_NegotiateSecurityLayer n"
  shows "ng_config m = ng_config n" "ng_state m = nego_first_state n" "ng_SecurityConnected m = ng_SecurityConnected n"
    "attempting (ng_state m)" "state_enabled m (ng_state m)"
proof -
  define n1 where "n1 = n\<lparr>ng_state := nego_first_state n\<rparr>"
  have n1: "ng_config n1 = ng_config n" "ng_SecurityConnected n1 = ng_SecurityConnected n" "nego_only_first n1 = n1"
    "ng_state n1 = nego_first_state n"
    using assms(3) by (simp_all add: n1_def first_state nego_only_first_def)
  have s: "(if ng_state n1 = NEGO_STATE_FAIL then Some (False, n1)
        else if ng_SendPreconnectionPdu n1 then do {
            (ok, n) \<leftarrow> nego_send_preconnection_pdu E n1;
            Some (if ok then (True, n) else (False, n\<lparr>ng_state := NEGO_STATE_FINAL\<rparr>)) }
          else Some (True, n1)) = Some (True, m)"
    using assms(1) unfolding nego_start_def if_P [OF assms(2)] Let_def n1_def [symmetric] n1(3) .
  have nf: "nego_first_state n \<noteq> NEGO_STATE_FAIL" using s n1(4) by (auto split: if_splits)
  have "m = n1 \<or> nego_send_preconnection_pdu E n1 = Some (True, m)"
    using s by (auto simp: bind_eq_Some_conv split: if_splits)
  then have m: "ng_config m = ng_config n1 \<and> ng_state m = ng_state n1 \<and> ng_SecurityConnected m = ng_SecurityConnected n1"
    using preconnection_frame [of E n1 True m] by blast
  then show "ng_config m = ng_config n" "ng_state m = nego_first_state n" "ng_SecurityConnected m = ng_SecurityConnected n"
    using n1 by simp_all
  then show "attempting (ng_state m)" "state_enabled m (ng_state m)"
    using first_state(2) [OF nf] state_enabled_config by metis+
qed

lemma nego_finish_post:
  assumes "nego_finish E n = Some (True, n')" "\<not> ng_SecurityConnected n"
  shows "ng_config n' = ng_config n" "ng_SelectedProtocol n' = ng_SelectedProtocol n" "ng_TcpConnected n'"
    "ng_SecurityConnected n'" "ng_SelectedProtocol n \<in> {PROTOCOL_RDP, PROTOCOL_TLS, PROTOCOL_NLA}"
proof -
  obtain se where q: "nego_security_connect E (n\<lparr>ng_settings := se\<rparr>) = (True, n')"
    using assms(1) by (auto simp: nego_finish_def bind_eq_Some_conv Let_def split: prod.splits if_splits)
  note f = security_connect_frame [OF q]
  show "ng_config n' = ng_config n" using f(1) by (simp add: ng_config_def)
  show "ng_SelectedProtocol n' = ng_SelectedProtocol n" "ng_SecurityConnected n'" using f by simp_all
  show "ng_TcpConnected n'" "ng_SelectedProtocol n \<in> {PROTOCOL_RDP, PROTOCOL_TLS, PROTOCOL_NLA}"
    using q assms(2) f(4) by (auto simp: nego_security_connect_def Let_def split: if_splits)
qed

section \<open>A response of the server is parsed safely\<close>

text \<open>
  \<^verbatim>\<open>nego_recv\<close> checks the length of a response but not that of a failure message, which is seven
  bytes after its type. In a stream of enough capacity these bytes exist.
\<close>

lemma read_in_block:
  "st_pointer s + 1 \<le> length (st_buffer s) \<Longrightarrow> \<exists>b. Stream_Read_UINT8 s = Some (b, stream_skip 1 s)"
  "st_pointer s + 2 \<le> length (st_buffer s) \<Longrightarrow> \<exists>b. Stream_Read_UINT16 s = Some (b, stream_skip 2 s)"
  "st_pointer s + 4 \<le> length (st_buffer s) \<Longrightarrow> \<exists>b. Stream_Read_UINT32 s = Some (b, stream_skip 4 s)"
  by (auto simp: stream_read_n8_def stream_read_n16_le_def stream_read_n32_le_def stream_at_def arr_get_def)

lemma read_nego_data:
  assumes "st_pointer s + 7 \<le> length (st_buffer s)"
  shows "\<exists>a b c. Stream_Read_UINT8 s = Some (a, stream_skip 1 s) \<and>
     Stream_Read_UINT16 (stream_skip 1 s) = Some (b, stream_skip 3 s) \<and>
     Stream_Read_UINT32 (stream_skip 3 s) = Some (c, stream_skip 7 s)"
proof -
  have e: "stream_skip 2 (stream_skip 1 s) = stream_skip 3 s" "stream_skip 4 (stream_skip 3 s) = stream_skip 7 s"
    by (simp_all add: numeral_3_eq_3)
  show ?thesis
    using read_in_block(1) [of s] read_in_block(2) [of "stream_skip 1 s"] read_in_block(3) [of "stream_skip 3 s"] assms
    unfolding e by auto
qed

lemma process_failure_defined:
  assumes "st_pointer s + 7 \<le> length (st_buffer s)"
  shows "\<exists>r. nego_process_negotiation_failure n s = Some r"
  using read_nego_data [OF assms] by (auto simp: nego_process_negotiation_failure_def simp del: One_nat_def)

lemma process_response_defined:
  assumes "stream_wf s"
  shows "\<exists>r. nego_process_negotiation_response n s = Some r"
proof (cases "length (st_rest s) < 7")
  case True
  then show ?thesis using assms by (simp add: nego_process_negotiation_response_def stream_simps)
next
  case False
  have "st_pointer s + 7 \<le> length (st_buffer s)"
    using assms False length_st_rest [OF assms] unfolding stream_wf_def by linarith
  from read_nego_data [OF this] show ?thesis
    by (auto simp: nego_process_negotiation_response_def simp del: One_nat_def)
qed

lemma nego_recv_defined:
  assumes "stream_wf s" "4 \<le> length (st_rest s) \<or> st_rest s \<noteq> [] \<and> hd (st_rest s) \<noteq> 3"
    and "st_pointer s + 19 \<le> length (st_buffer s)"
  shows "\<exists>r. nego_recv s n = Some r"
proof (cases "4 \<le> length (st_rest s) \<and> hd (st_rest s) = 3")
  case False
  then have "st_rest s \<noteq> []" "hd (st_rest s) \<noteq> 3" using assms(2) by auto
  then have "tpkt_read_header s = Some (0, s)" using assms(1) by (simp add: tpkt_read_header_def stream_simps)
  then show ?thesis by (simp add: nego_recv_def)
next
  case True
  define len s1 where "len = be16 (drop 2 (st_rest s))" and "s1 = stream_skip 4 s"
  have h: "tpkt_read_header s = Some (len, s1)" using tpkt_read_header_eq [OF assms(1)] True by (simp add: len_def s1_def)
  have w1: "stream_wf s1" using assms(1) True by (auto simp: s1_def)
  note D = decodesD [OF tpdu_confirm_decodes w1]
  obtain li k where d: "d_then tpdu_dec tpdu_dec_confirm (st_rest s1) = (li, k)" by fastforce
  define s2 where "s2 = stream_skip k s1"
  have c: "tpdu_read_connection_confirm s1 = Some (li, s2)" "stream_wf s2"
    using D d by (simp_all add: s2_def)
  show ?thesis
  proof (cases "len = 0 \<or> li = None \<or> \<not> the li > 6")
    case True
    then show ?thesis using h c by (cases li) (auto simp: nego_recv_def)
  next
    case False
    then obtain l where l: "len \<noteq> 0" "li = Some l" "l > 6" by auto
    have k: "k = 7" "0 < length (st_rest s2)"
    proof -
      have "k = 7 \<and> unat l - 6 \<le> length (st_rest s1) - 7 \<and> 7 \<le> length (st_rest s1)"
        using d l(2) by (auto simp: d_then_def tpdu_dec_confirm_def tpdu_dec_def Let_def X224_TPDU_DATA_def
            X224_TPDU_CONNECTION_CONFIRM_def split: if_splits)
      moreover have "6 < unat l" using l(3) by (simp add: word_less_nat_alt)
      ultimately show "k = 7" "0 < length (st_rest s2)" by (auto simp: s2_def)
    qed
    obtain ty where ty: "Stream_Read_UINT8 s2 = Some (ty, stream_skip 1 s2)" "stream_wf (stream_skip 1 s2)"
      using c(2) k(2) by (auto simp: stream_simps)
    have "st_pointer (stream_skip 1 s2) + 7 \<le> length (st_buffer (stream_skip 1 s2))"
      using assms(3) k(1) by (simp add: s2_def s1_def)
    then obtain rf rr where "nego_process_negotiation_failure n (stream_skip 1 s2) = Some rf"
        "nego_process_negotiation_response n (stream_skip 1 s2) = Some rr"
      using process_failure_defined process_response_defined [OF ty(2)] by metis
    then show ?thesis using h c(1) l ty(1) by (cases rf; cases rr) (auto simp: nego_recv_def)
  qed
qed

lemma nego_recv_response_defined:
  assumes src: "byte_source (ne_bio E) taken patience app" and blk: "tr_blocking (ng_transport n)"
  shows "\<exists>ok n'. nego_recv_response E n = Some (ok, n')"
proof (cases "Stream_New (ne_alloc E) (ne_struct_ok E) None 1024")
  case (Some s)
  then have s: "rx s []" "st_capacity s = 1024" "st_length s = st_capacity s"
    by (auto simp: Stream_New_def rx_def BLOCK_MAX_def dest: mem_alloc_length split: if_splits option.splits)
  obtain st s1 t1 new where R: "transport_read_pdu (ne_alloc E) (ne_bio E) (ng_transport n) s = Some (st, s1, t1)"
    "if 0 < st then st = int (length new) \<and> pdu_header (tr_NlaMode (ng_transport n)) new = PduLen (length new) \<and>
        stream_wf s1 \<and> st_pointer s1 = 0 \<and> st_rest s1 = new
      else if st = 0 then rx s1 new \<and> pdu_stuck (tr_NlaMode (ng_transport n)) new \<and> length new \<le> 4
      else st = -1"
  proof -
    have "pdu_outcome taken patience app (ng_transport n) [] (transport_read_pdu (ne_alloc E) (ne_bio E) (ng_transport n) s)"
      by (rule byte_source.read_pdu_ok [OF src s(1)]) simp
    then show thesis using that blk unfolding pdu_outcome_def append_Nil by (metis list.size(3) max_0R)
  qed
  note K = read_pdu_keeps [OF R(1)]
  show ?thesis
  proof (cases "st < 0")
    case False
    have "\<exists>r. nego_recv s1 (n\<lparr>ng_transport := t1\<rparr>) = Some r"
    proof (cases "0 < st")
      case True
      then have w: "stream_wf s1" "st_pointer s1 = 0" "st_rest s1 = new" "new \<noteq> []"
        "pdu_header (tr_NlaMode (ng_transport n)) new = PduLen (length new)" using R(2) by auto
      have "4 \<le> length new" if "hd new = 3"
        using w(4,5) that by (cases new) (auto simp: pdu_header_def Let_def split: if_splits)
      then show ?thesis using K s(2) w by (intro nego_recv_defined) (auto simp: stream_wf_def)
    next
      case zero: False
      then have r: "rx s1 new" "pdu_stuck (tr_NlaMode (ng_transport n)) new" "length new \<le> 4" using R(2) False by auto
      have "\<not> length new < 2" using r(2) by (auto simp: pdu_stuck_def pdu_header_def)
      then have "stream_keeps s s1" using K r(1) by (auto simp: rx_def)
      then have cap: "1024 \<le> st_capacity s1" "st_length s1 = st_capacity s1" using s by (auto simp: stream_keeps_def)
      have w: "stream_wf s1" using r(1) cap rx_le [OF r(1)] by (auto simp: rx_def stream_wf_def)
      moreover have "length (st_rest s1) = st_capacity s1 - length new" using length_st_rest [OF w] cap r(1) by (simp add: rx_def)
      ultimately show ?thesis using cap r by (intro nego_recv_defined) (auto simp: rx_def)
    qed
    then show ?thesis using Some R(1) False by (auto simp: nego_recv_response_def Let_def)
  qed (use Some R(1) in \<open>auto simp: nego_recv_response_def Let_def\<close>)
qed (auto simp: nego_recv_response_def)

section \<open>Properties of the state machine\<close>

text \<open>A client whose connection is always refused, for the witnesses.\<close>

definition nego_sample_env :: "socket_world nego_env" where
  "nego_sample_env = \<lparr>ne_bio = buffered_bio ample, ne_alloc = ample, ne_struct_ok = True, ne_debug = False,
     ne_transport_connect = (\<lambda>host port timeout t. (True, t\<lparr>tr_frontBio := True\<rparr>)),
     ne_transport_connect_tls = (\<lambda>t. (True, t)), ne_transport_connect_nla = (\<lambda>t. (True, t)),
     ne_transport_accept_tls = (\<lambda>t. (True, t)), ne_transport_accept_nla = (\<lambda>t. (True, t)),
     ne_release = (\<lambda>w. w), ne_BIO_set_nonblock = (\<lambda>b w. (True, w)),
     ne_ConvertToUnicode = (\<lambda>s. (0, None))\<rparr>"

lemma nego_connect_selected:
  assumes "nego_connect E n = Some (True, n')" "ng_state n = NEGO_STATE_INITIAL"
    and "ng_NegotiateSecurityLayer n" "\<not> ng_SecurityConnected n"
  shows "ng_TcpConnected n' \<and> ng_SecurityConnected n' \<and>
     (ng_SelectedProtocol n' = PROTOCOL_RDP \<and> ng_RDP n \<or>
      ng_SelectedProtocol n' = PROTOCOL_TLS \<and> (ng_TLS n \<or> ng_RDP n) \<or>
      ng_SelectedProtocol n' = PROTOCOL_NLA \<and> (ng_NLA n \<or> ng_RDP n))"
proof -
  obtain m r where st: "nego_start E n = Some (True, m)" and lp: "nego_loop E m = Some (True, r)"
    and fin: "nego_finish E r = Some (True, n')"
    using assms(1) by (auto simp: nego_connect_def bind_eq_Some_conv split: if_splits)
  note S = nego_start_post [OF st assms(2,3)]
  have R: "ng_config r = ng_config n" "sel_ok r" "\<not> ng_SecurityConnected r"
    using nego_loop_post [OF lp S(4)] S(1,3) assms(3,4) config_fields(5) [OF S(1)] by auto
  note F = nego_finish_post [OF fin R(3)]
  show ?thesis
    using F R(2) config_fields [OF R(1)] unfolding sel_ok_def by (auto simp: protocol_defs)
qed

text \<open>The states that a client passes through, one round of the loop after the other.\<close>

inductive nego_reach :: "'w nego_env \<Rightarrow> 'w rdpNego \<Rightarrow> 'w rdpNego \<Rightarrow> bool" for E n0 where
  start: "nego_start E n0 = Some (True, n) \<Longrightarrow> nego_reach E n0 n"
| round: "nego_reach E n0 n \<Longrightarrow> attempting (ng_state n) \<Longrightarrow> nego_send E n = Some n' \<Longrightarrow> nego_reach E n0 n'"

lemma nego_reach_config:
  assumes "nego_reach E n0 n" "ng_state n0 = NEGO_STATE_INITIAL" "ng_NegotiateSecurityLayer n0"
  shows "ng_config n = ng_config n0 \<and> state_enabled n0 (ng_state n)"
  using assms(1)
proof induction
  case (start n)
  note S = nego_start_post [OF start assms(2,3)]
  then show ?case using state_enabled_config [OF S(1)] by simp
next
  case (round n n')
  note S = nego_send_step [OF round.hyps(3,2)]
  have "state_enabled n (ng_state n')"
    using nego_next_enabled [OF S(2)] round.IH state_enabled_config by metis
  then show ?case using S(1) round.IH state_enabled_config by metis
qed


text \<open>A client with every protocol enabled, whose connections are all refused.\<close>

definition refusing_env :: "socket_world nego_env" where
  "refusing_env = nego_sample_env\<lparr>ne_transport_connect := (\<lambda>host port timeout t. (False, t))\<rparr>"

definition settings_sample :: rdpSettings where
  "settings_sample = \<lparr>se_RequestedProtocols = 0, se_SelectedProtocol = 0, se_NegotiationFlags = 0,
     se_UseRdpSecurityLayer = False, se_EncryptionMethods = 0, se_EncryptionLevel = 0,
     se_SupportGraphicsPipeline = False, se_TlsSecurity = True, se_NlaSecurity = True, se_RdpSecurity = True,
     se_LocalConnection = False, se_RdpServerRsaKey = False, se_RdpKeyFile = False\<rparr>"

definition nego_sample :: "socket_world rdpNego" where
  "nego_sample = (the (nego_new True settings_sample (sample_transport [])))
     \<lparr>ng_NegotiateSecurityLayer := True, ng_RDP := True, ng_TLS := True, ng_NLA := True\<rparr>"

lemma nego_sample_fields:
  "ng_state nego_sample = NEGO_STATE_INITIAL" "ng_NegotiateSecurityLayer nego_sample" "\<not> ng_SecurityConnected nego_sample"
  "ng_EXT nego_sample = False" "ng_NLA nego_sample" "ng_SendPreconnectionPdu nego_sample = False"
  "ng_TcpConnected nego_sample = False" "ng_GatewayEnabled nego_sample = False" "ng_TLS nego_sample" "ng_RDP nego_sample"
  by (simp_all add: nego_sample_def nego_new_def nego_init_def)


text \<open>
  C36: whatever the server sends, \<^verbatim>\<open>nego_recv_response\<close> in blocking mode returns without undefined
  behaviour. The failure message, whose length is not checked, is read inside the receive
  buffer of 1024 bytes in every case.
\<close>

theorem nego_recv_response_safe:
  assumes "byte_source (ne_bio E) taken patience app" "tr_blocking (ng_transport n)"
  shows "\<exists>ok n'. nego_recv_response E n = Some (ok, n')"
  using assms by (rule nego_recv_response_defined)

definition blocking_sample :: "socket_world rdpNego" where
  "blocking_sample = nego_sample\<lparr>ng_transport := (sample_transport [Arrive [3, 0, 0, 12, 7, 0xD0, 0], Arrive [0, 0, 0, 0, 3]])
     \<lparr>tr_blocking := True\<rparr>\<rparr>"

theorem nego_recv_response_safe_witness: "\<exists>ok n'. nego_recv_response nego_sample_env blocking_sample = Some (ok, n')"
proof (rule nego_recv_response_safe)
  show "byte_source (ne_bio nego_sample_env) sw_in sw_patience sw_units"
    unfolding nego_sample_env_def by (simp add: buffered_source.byte_source_axioms)
qed (simp add: blocking_sample_def)

end
