(* ===== verification/NegoWire.thy ===== *)
theory NegoWire
  imports Nego
begin

unbundle bit_operations_syntax

text \<open>
  The negotiation messages on the wire: what the client and the server of \<^verbatim>\<open>nego.c\<close> write is what
  the other side reads, and a run of the client against a server that answers.
\<close>

section \<open>Messages\<close>

definition nego_data_enc :: "byte \<Rightarrow> byte \<Rightarrow> u32 \<Rightarrow> byte list" where
  "nego_data_enc type flags v = [type, flags] @ le_bytes 2 (8 :: u16) @ le_bytes 4 v"

definition x224_enc :: "byte \<Rightarrow> int \<Rightarrow> byte list" where
  "x224_enc code len = tpkt_enc (word_of_int len) @ tpdu_enc (ucast (word_of_int (len - 5) :: u16)) code"

lemma emits_nego_data: "emits (nego_put_data type flags v) (nego_data_enc type flags v)"
  by (rule emitsI)
     (simp add: nego_put_data_def nego_data_enc_def emitsD [OF emits_UINT8] emitsD [OF emits_UINT16] emitsD [OF emits_UINT32]
       stream_wf_emit)

lemma length_x224_enc: "code \<noteq> X224_TPDU_DATA \<Longrightarrow> length (x224_enc code len) = 11"
  by (simp add: x224_enc_def tpkt_enc_def tpdu_enc_def)

lemma length_nego_data_enc [simp]: "length (nego_data_enc type flags v) = 8"
  by (simp add: nego_data_enc_def)

text \<open>A fresh stream, and a stream that has been filled with \<open>bs\<close> and sealed.\<close>

definition fresh_stream :: "nat \<Rightarrow> wStream \<Rightarrow> bool" where
  "fresh_stream c s \<longleftrightarrow> stream_wf s \<and> st_pointer s = 0 \<and> st_length s = c \<and> st_capacity s = c"

definition sealed_with :: "byte list \<Rightarrow> wStream \<Rightarrow> bool" where
  "sealed_with bs s \<longleftrightarrow> stream_wf s \<and> st_pointer s = length bs \<and> st_length s = length bs \<and> take (length bs) (st_buffer s) = bs"

lemma Stream_New_fresh: "Stream_New A ok None c = Some s \<Longrightarrow> fresh_stream c s"
  by (auto simp: Stream_New_def fresh_stream_def stream_wf_def dest: mem_alloc_length mem_alloc_block
      split: if_splits option.splits)

text \<open>Writing a message: room is left for the header, the body follows, and the header is filled in.\<close>

lemma put_header_ok:
  assumes s: "fresh_stream c s" and fit: "11 + length D \<le> c" and code: "code \<noteq> X224_TPDU_DATA"
  shows "\<exists>s'. nego_put_header 0 code len (stream_emit D (stream_skip 11 s)) = Some s' \<and> sealed_with (x224_enc code len @ D) s'"
proof -
  let ?H = "x224_enc code len"
  define s1 where "s1 = stream_emit D (stream_skip 11 s)"
  have buf: "length (st_buffer s) = c" "stream_wf s" "st_pointer s = 0" "length (st_rest s) = c"
    using s by (auto simp: fresh_stream_def stream_wf_def length_st_rest)
  have "stream_wf (stream_skip 11 s)" "length (st_rest (stream_skip 11 s)) = c - 11"
    using buf fit by (auto intro: stream_wf_skip)
  then have w1: "stream_wf s1" using fit unfolding s1_def by (intro stream_wf_emit) simp_all
  have p1: "Stream_GetPosition s1 = 11 + length D" using buf by (simp add: s1_def Stream_GetPosition_def)
  define s2 where "s2 = s1\<lparr>st_pointer := 0\<rparr>"
  have s2: "stream_wf s2" "length (st_rest s2) = c" "Stream_SetPosition s1 0 = Some s2"
    using w1 buf by (auto simp: s2_def stream_wf_def length_st_rest Stream_SetPosition_def s1_def stream_emit_def stream_skip_def st_rest_def)
  have t: "tpkt_write_header (word_of_int len) s2 = Some (stream_emit (tpkt_enc (word_of_int len)) s2)"
    using emitsD [OF emits_tpkt s2(1)] s2(2) fit by (simp add: tpkt_enc_def)
  have l4: "length (tpkt_enc (word_of_int len)) = 4" "length (tpdu_enc li code) = 7" for li
    using code by (simp_all add: tpkt_enc_def tpdu_enc_def)
  have "tpdu_write_header (word_of_int (len - 5)) code (stream_emit (tpkt_enc (word_of_int len)) s2) =
      Some (stream_emit ?H s2)"
    using emitsD [OF emits_tpdu, of "stream_emit (tpkt_enc (word_of_int len)) s2" "word_of_int (len - 5)" code]
      s2 l4 fit by (simp add: x224_enc_def stream_wf_emit)
  moreover define s3 where "s3 = stream_emit ?H s2"
  moreover have b3: "st_buffer s3 = ?H @ D @ drop (11 + length D) (st_buffer s)" "st_length s3 = c" "st_capacity s3 = c"
    using buf fit s l4 by (simp_all add: s3_def s2_def s1_def stream_emit_def stream_skip_def length_x224_enc [OF code] fresh_stream_def)
  ultimately have "nego_put_header 0 code len s1 = Some (s3\<lparr>st_pointer := 11 + length D, st_length := 11 + length D\<rparr>)"
    using s2(3) t p1 fit buf
    by (simp add: nego_put_header_def Stream_SetPosition_def Stream_SealLength_def length_x224_enc [OF code] Let_def)
  moreover have "sealed_with (?H @ D) (s3\<lparr>st_pointer := 11 + length D, st_length := 11 + length D\<rparr>)"
    using b3 fit buf(2) s by (simp add: sealed_with_def length_x224_enc [OF code] stream_wf_def fresh_stream_def)
  ultimately show ?thesis unfolding s1_def by blast
qed

section \<open>The response of the server\<close>

definition response_bytes :: "'w rdpNego \<Rightarrow> byte list" where
  "response_bytes n =
     x224_enc X224_TPDU_CONNECTION_CONFIRM 19 @
     (if ng_SelectedProtocol n AND PROTOCOL_FAILED_NEGO \<noteq> 0
      then nego_data_enc TYPE_RDP_NEG_FAILURE 0 (ng_SelectedProtocol n AND NOT PROTOCOL_FAILED_NEGO)
      else nego_data_enc TYPE_RDP_NEG_RSP (if se_SupportGraphicsPipeline (ng_settings n) then 3 else 1) (ng_SelectedProtocol n))"

lemma confirm_not_data [simp]: "X224_TPDU_CONNECTION_CONFIRM \<noteq> X224_TPDU_DATA" "X224_TPDU_CONNECTION_REQUEST \<noteq> X224_TPDU_DATA"
  by (simp_all add: X224_TPDU_CONNECTION_CONFIRM_def X224_TPDU_CONNECTION_REQUEST_def X224_TPDU_DATA_def)

lemma response_pdu_ok:
  assumes s: "fresh_stream 512 s"
  shows "\<exists>s'. nego_response_pdu n s = Some (ng_SelectedProtocol n AND PROTOCOL_FAILED_NEGO = 0, s') \<and>
     sealed_with (response_bytes n) s'"
proof -
  have buf: "stream_wf s" "st_pointer s = 0" "length (st_rest s) = 512"
    using s by (auto simp: fresh_stream_def length_st_rest)
  have sk: "Stream_Seek s TPDU_CONNECTION_CONFIRM_LENGTH = Some (stream_skip 11 s)"
    using Stream_Seek_int [of s 11] buf by (simp add: TPDU_CONNECTION_CONFIRM_LENGTH_def)
  have w: "stream_wf (stream_skip 11 s)" using buf by (auto intro: stream_wf_skip)
  have put: "nego_put_data ty f v (stream_skip 11 s) = Some (stream_emit (nego_data_enc ty f v) (stream_skip 11 s))" for ty f v
    using emitsD [OF emits_nego_data w] buf by simp
  have hdr: "\<exists>s'. nego_put_header 0 X224_TPDU_CONNECTION_CONFIRM (TPDU_CONNECTION_CONFIRM_LENGTH + 8)
        (stream_emit (nego_data_enc ty f v) (stream_skip 11 s)) = Some s' \<and>
      sealed_with (x224_enc X224_TPDU_CONNECTION_CONFIRM 19 @ nego_data_enc ty f v) s'" for ty f v
    using put_header_ok [OF s, of "nego_data_enc ty f v" X224_TPDU_CONNECTION_CONFIRM 19]
    by (simp add: TPDU_CONNECTION_CONFIRM_LENGTH_def)
  note ev = nego_response_pdu_def response_bytes_def Stream_GetPosition_def EXTENDED_CLIENT_DATA_SUPPORTED_def
    DYNVC_GFX_PROTOCOL_SUPPORTED_def
  show ?thesis
  proof (cases "ng_SelectedProtocol n AND PROTOCOL_FAILED_NEGO = 0")
    case True
    then show ?thesis
      using sk put buf(2) hdr [of TYPE_RDP_NEG_RSP "if se_SupportGraphicsPipeline (ng_settings n) then 3 else 1"
          "ng_SelectedProtocol n"] by (auto simp: ev)
  next
    case False
    then show ?thesis
      using sk put buf(2) hdr [of TYPE_RDP_NEG_FAILURE 0 "ng_SelectedProtocol n AND NOT PROTOCOL_FAILED_NEGO"]
      by (auto simp: ev)
  qed
qed

text \<open>What the client makes of the message of the server, whatever its parts are.\<close>

definition answered :: "byte \<Rightarrow> byte \<Rightarrow> u32 \<Rightarrow> 'w rdpNego \<Rightarrow> 'w rdpNego" where
  "answered type flags v n =
     (if type = TYPE_RDP_NEG_RSP then
        nego_check_selected (n\<lparr>ng_flags := ucast flags, ng_SelectedProtocol := v, ng_state := NEGO_STATE_FINAL\<rparr>)
      else if type = TYPE_RDP_NEG_FAILURE then
        n\<lparr>ng_sendNegoData := (v = SSL_NOT_ALLOWED_BY_SERVER \<or> v = SSL_CERT_NOT_ON_SERVER \<or> ng_sendNegoData n),
          ng_state := NEGO_STATE_FAIL\<rparr>
      else n)"

lemma x224_confirm: "x224_enc X224_TPDU_CONNECTION_CONFIRM 19 = [3, 0, 0, 19, 14, X224_TPDU_CONNECTION_CONFIRM, 0, 0, 0, 0, 0]"
  by (simp add: x224_enc_def tpkt_enc_def tpdu_enc_def be_bytes_simps word_byte_def)

lemma data_rest:
  assumes "stream_wf s" "st_rest s = nego_data_enc type flags v @ ts"
  shows "Stream_Read_UINT8 s = Some (type, stream_skip 1 s)"
    "Stream_Read_UINT8 (stream_skip (Suc 0) s) = Some (flags, stream_skip 2 s)"
    "Stream_Read_UINT16 (stream_skip 2 s) = Some (8, stream_skip 4 s)"
    "Stream_Read_UINT32 (stream_skip 4 s) = Some (v, stream_skip 8 s)"
proof -
  have w: "stream_wf (stream_skip k s)" if "k \<le> 8" for k
    using assms that by (auto intro!: stream_wf_skip)
  have r: "st_rest s = type # flags # le_bytes 2 (8 :: u16) @ le_bytes 4 v @ ts" "length (le_bytes 2 (8 :: u16)) = 2"
    using assms(2) by (simp_all add: nego_data_enc_def)
  show "Stream_Read_UINT8 s = Some (type, stream_skip 1 s)"
    "Stream_Read_UINT8 (stream_skip (Suc 0) s) = Some (flags, stream_skip 2 s)"
    using r assms(1) w [of 1] by (simp_all add: stream_simps numeral_2_eq_2)
  have d: "drop 2 (st_rest s) = le_bytes 2 (8 :: u16) @ le_bytes 4 v @ ts" "drop 4 (st_rest s) = le_bytes 4 v @ ts"
    using r(1) by (simp_all add: le_bytes_simps(1))
  have n: "2 \<le> length (st_rest (stream_skip 2 s))" "4 \<le> length (st_rest (stream_skip 4 s))"
    using assms(2) by simp_all
  show "Stream_Read_UINT16 (stream_skip 2 s) = Some (8, stream_skip 4 s)"
    using read_n16_le [OF w [of 2] n(1), of True] le16_bytes [of 8 "le_bytes 4 v @ ts"] unfolding st_rest_skip d
    by simp
  show "Stream_Read_UINT32 (stream_skip 4 s) = Some (v, stream_skip 8 s)"
    using read_n32_le [OF w [of 4] n(2), of True] le32_bytes [of v ts] unfolding st_rest_skip d by simp
qed

lemma nego_recv_answered:
  assumes "stream_wf s" "st_rest s = x224_enc X224_TPDU_CONNECTION_CONFIRM 19 @ nego_data_enc type flags v"
  shows "nego_recv s n = Some (0, answered type flags v n)"
proof -
  let ?s = "stream_skip 11 s"
  have len: "length (st_rest s) = 19" using assms(2) by (simp add: x224_confirm)
  have w: "stream_wf (stream_skip k s)" if "k \<le> 19" for k
    using assms(1) len that by auto
  have h: "tpkt_read_header s = Some (19, stream_skip 4 s)"
    using tpkt_read_header_eq [OF assms(1)] len assms(2) by (simp add: x224_confirm be16_def)
  have c: "tpdu_read_connection_confirm (stream_skip 4 s) = Some (Some 14, ?s)"
  proof -
    have r4: "st_rest (stream_skip 4 s) = tpdu_enc 14 X224_TPDU_CONNECTION_CONFIRM @ nego_data_enc type flags v"
      using assms(2) by (simp add: x224_confirm tpdu_enc_def)
    have l7: "length (tpdu_enc 14 X224_TPDU_CONNECTION_CONFIRM) = 7" by (simp add: tpdu_enc_def)
    show ?thesis
      using decodesD(2) [OF tpdu_confirm_decodes w [of 4]] unfolding r4
      by (simp add: d_then_def tpdu_dec_enc tpdu_dec_confirm_def l7)
  qed
  have r11: "st_rest ?s = nego_data_enc type flags v @ []" using assms(2) by (simp add: x224_confirm)
  note D = data_rest [OF w [of 11] r11, simplified]
  have ty: "TYPE_RDP_NEG_RSP \<noteq> TYPE_RDP_NEG_FAILURE" by (simp add: TYPE_RDP_NEG_RSP_def TYPE_RDP_NEG_FAILURE_def)
  have "Stream_GetRemainingLength (stream_skip 12 s) = 7" using w [of 12] len by (simp add: stream_simps)
  then show ?thesis
    using h c D ty
    by (auto simp: nego_recv_def answered_def nego_process_negotiation_response_def nego_process_negotiation_failure_def)
qed

text \<open>A sealed message, as the other side finds it in a stream.\<close>

lemma sealed_rewound:
  assumes "sealed_with bs s"
  shows "stream_wf (s\<lparr>st_pointer := 0\<rparr>)" "st_rest (s\<lparr>st_pointer := 0\<rparr>) = bs"
  using assms by (auto simp: sealed_with_def stream_wf_def st_rest_def)

lemma select_cases:
  fixes se requested
  defines "p \<equiv> rdp_server_select se requested"
  shows "if p AND PROTOCOL_FAILED_NEGO = 0
     then (p = PROTOCOL_NLA \<and> se_NlaSecurity se \<and> requested AND PROTOCOL_NLA \<noteq> 0 \<or>
           p = PROTOCOL_TLS \<and> se_TlsSecurity se \<and> requested AND PROTOCOL_TLS \<noteq> 0 \<or>
           p = PROTOCOL_RDP \<and> se_RdpSecurity se \<and> requested = PROTOCOL_RDP)
     else p AND NOT PROTOCOL_FAILED_NEGO \<in> {SSL_NOT_ALLOWED_BY_SERVER, HYBRID_REQUIRED_BY_SERVER, SSL_REQUIRED_BY_SERVER}"
  by (simp add: p_def rdp_server_select_def protocol_defs PROTOCOL_FAILED_NEGO_def SSL_NOT_ALLOWED_BY_SERVER_def
      HYBRID_REQUIRED_BY_SERVER_def SSL_REQUIRED_BY_SERVER_def)

text \<open>
  The client and the server agree. The message that the server sends after choosing a protocol
  is understood by the client: a chosen protocol is one that the server has enabled and the client
  asked for, and it ends the negotiation with that protocol, unless the client has not enabled it;
  a refusal makes the attempt fail.
\<close>

theorem nego_response_agreement:
  assumes "fresh_stream 512 s" "m = srv\<lparr>ng_SelectedProtocol := rdp_server_select (ng_settings srv) requested\<rparr>"
  shows "\<exists>ok s' n'. nego_response_pdu m s = Some (ok, s') \<and> nego_recv (s'\<lparr>st_pointer := 0\<rparr>) n = Some (0, n') \<and>
     (if ok
      then ng_SelectedProtocol n' = ng_SelectedProtocol m \<and>
        (if ng_SelectedProtocol m = PROTOCOL_NLA
         then se_NlaSecurity (ng_settings srv) \<and> requested AND PROTOCOL_NLA \<noteq> 0 \<and>
           ng_state n' = (if ng_NLA n then NEGO_STATE_FINAL else NEGO_STATE_FAIL)
         else if ng_SelectedProtocol m = PROTOCOL_TLS
         then se_TlsSecurity (ng_settings srv) \<and> requested AND PROTOCOL_TLS \<noteq> 0 \<and>
           ng_state n' = (if ng_TLS n then NEGO_STATE_FINAL else NEGO_STATE_FAIL)
         else ng_SelectedProtocol m = PROTOCOL_RDP \<and> se_RdpSecurity (ng_settings srv) \<and> requested = PROTOCOL_RDP \<and>
           ng_state n' = (if ng_RDP n then NEGO_STATE_FINAL else NEGO_STATE_FAIL))
      else ng_SelectedProtocol n' = ng_SelectedProtocol n \<and> ng_state n' = NEGO_STATE_FAIL)"
    (is "\<exists>ok s' n'. _ \<and> _ \<and> ?ok ok n'")
proof -
  define ok where "ok \<longleftrightarrow> ng_SelectedProtocol m AND PROTOCOL_FAILED_NEGO = 0"
  obtain s' where s': "nego_response_pdu m s = Some (ok, s')" "sealed_with (response_bytes m) s'"
    using response_pdu_ok [OF assms(1), of m] by (auto simp: ok_def)
  note R = nego_recv_answered [OF sealed_rewound(1) [OF s'(2)], unfolded sealed_rewound(2) [OF s'(2)] response_bytes_def]
  have sel: "ng_SelectedProtocol m = rdp_server_select (ng_settings srv) requested" by (simp add: assms(2))
  note cases = select_cases [of "ng_settings srv" requested, folded sel ok_def]
  show ?thesis
  proof (cases ok)
    case True
    let ?f = "if se_SupportGraphicsPipeline (ng_settings m) then 3 else 1"
    have "nego_recv (s'\<lparr>st_pointer := 0\<rparr>) n = Some (0, answered TYPE_RDP_NEG_RSP ?f (ng_SelectedProtocol m) n)"
      using R [of TYPE_RDP_NEG_RSP ?f "ng_SelectedProtocol m" n] True by (simp add: ok_def)
    moreover from cases True consider
        (nla) "ng_SelectedProtocol m = PROTOCOL_NLA" "se_NlaSecurity (ng_settings srv)" "requested AND PROTOCOL_NLA \<noteq> 0"
      | (tls) "ng_SelectedProtocol m = PROTOCOL_TLS" "se_TlsSecurity (ng_settings srv)" "requested AND PROTOCOL_TLS \<noteq> 0"
      | (rdp) "ng_SelectedProtocol m = PROTOCOL_RDP" "se_RdpSecurity (ng_settings srv)" "requested = PROTOCOL_RDP"
      unfolding ok_def by (auto split: if_splits)
    then have "?ok True (answered TYPE_RDP_NEG_RSP ?f (ng_SelectedProtocol m) n)"
      by cases (simp_all add: answered_def nego_check_selected_def protocol_defs)
    moreover have "nego_response_pdu m s = Some (True, s')" using s'(1) True by simp
    ultimately show ?thesis by (intro exI conjI)
  next
    case False
    let ?v = "ng_SelectedProtocol m AND NOT PROTOCOL_FAILED_NEGO"
    have "nego_recv (s'\<lparr>st_pointer := 0\<rparr>) n = Some (0, answered TYPE_RDP_NEG_FAILURE 0 ?v n)"
      using R [of TYPE_RDP_NEG_FAILURE 0 ?v n] False by (simp add: ok_def)
    moreover have "?ok False (answered TYPE_RDP_NEG_FAILURE 0 ?v n)"
      by (simp add: answered_def TYPE_RDP_NEG_FAILURE_def TYPE_RDP_NEG_RSP_def)
    moreover have "nego_response_pdu m s = Some (False, s')" using s'(1) False by simp
    ultimately show ?thesis by (intro exI conjI)
  qed
qed

section \<open>The request of the client\<close>

fun no_crlf :: "byte list \<Rightarrow> bool" where
  "no_crlf (x # y # bs) \<longleftrightarrow> \<not> (x = 0x0D \<and> y = 0x0A) \<and> no_crlf (y # bs)"
| "no_crlf bs \<longleftrightarrow> True"

lemma le16_Cons: "(le16 (x # y # bs) = 0x0A0D) \<longleftrightarrow> x = 0x0D \<and> y = 0x0A"
proof
  assume "le16 (x # y # bs) = 0x0A0D"
  then have "word_byte 0 (le16 (x # y # bs)) = 0x0D" "word_byte 1 (le16 (x # y # bs)) = 0x0A"
    by (simp_all add: word_byte_def)
  moreover have "word_byte 0 (le16 (x # y # bs)) = x" "word_byte 1 (le16 (x # y # bs)) = y"
  proof -
    have e: "le16 (x # y # bs) = (ucast x OR push_bit 8 (ucast y))"
      unfolding le16_def by (simp, subst disjunctive_add) (auto simp: bit_simps dest: bit_imp_le_length)
    have "\<not> bit x (8 + n)" for n by (rule impossible_bit) simp
    then show "word_byte 0 (le16 (x # y # bs)) = x" "word_byte 1 (le16 (x # y # bs)) = y"
      unfolding e word_byte_def by (auto intro!: bit_word_eqI simp: bit_simps)
  qed
  ultimately show "x = 0x0D \<and> y = 0x0A" by simp
qed (simp add: le16_def)

lemma find_crlf_ok:
  assumes "stream_wf s" "st_rest s = b @ [0x0D, 0x0A] @ ts" "no_crlf b"
  shows "nego_find_crlf c s = Some (0x0A0D, stream_skip (length b + 2) s)"
  using assms
proof (induction b arbitrary: s c)
  case Nil
  then show ?case by (simp add: nego_find_crlf.simps [of c] stream_simps le16_Cons numeral_2_eq_2)
next
  case (Cons x b)
  obtain y zs where y: "b @ [0x0D, 0x0A] @ ts = y # zs" "\<not> (x = 0x0D \<and> y = 0x0A)" "zs \<noteq> []"
    using Cons.prems(3) by (cases b) auto
  have r: "st_rest s = x # y # zs" using Cons.prems(2) y(1) by simp
  have w: "stream_wf (stream_skip 1 s)" using Cons.prems(1) r by (auto intro: stream_wf_skip)
  have nc: "no_crlf b" using Cons.prems(3) by (cases b) auto
  have "nego_find_crlf c s = nego_find_crlf (le16 (x # y # zs)) (stream_skip 1 s)"
    using Cons.prems(1) r le16_Cons [of x y zs] y(2) Stream_Rewind_skip [of s 1 2]
    by (simp add: nego_find_crlf.simps [of c] stream_simps del: le16_Cons)
  also have "\<dots> = Some (0x0A0D, stream_skip (length (x # b) + 2) s)"
    using Cons.IH [OF w _ nc] r y(1) by simp
  finally show ?case .
qed

text \<open>
  The token or cookie \<open>p @ b\<close> with the line end behind it: it is taken without the line end, which
  is overwritten with zeros.
\<close>

lemma take_token_ok:
  assumes s: "stream_wf s" "st_rest s = p @ b @ [0x0D, 0x0A] @ ts"
    and b: "0 \<notin> set (p @ b)" "no_crlf b" and pos: "st_pointer s + length (p @ b) < 2 ^ 31"
  defines "s' \<equiv> stream_emit [0, 0] (stream_skip (length (p @ b)) s)"
  shows "mem_alloc A (length (p @ b) + 1) \<noteq> None \<Longrightarrow>
      nego_take_token A False (st_pointer s) n (stream_skip (length p) s) = Some (True, n\<lparr>ng_cookie := Some (p @ b)\<rparr>, s')"
    and "stream_wf s'" "st_rest s' = ts"
proof -
  let ?k = "length (p @ b)"
  have w: "stream_wf (stream_skip j s)" if "j \<le> ?k + 2" for j using s that by auto
  have f: "nego_find_crlf 0 (stream_skip (length p) s) = Some (0x0A0D, stream_skip (?k + 2) s)"
    using find_crlf_ok [OF w [of "length p"], of b ts 0] s(2) b(2) by (simp add: add.assoc)
  have rw: "Stream_Rewind (stream_skip (?k + 2) s) 2 = Some (stream_skip ?k s)"
    using Stream_Rewind_skip [OF s(1), of 2 "?k + 2"] s(2) by simp
  have r: "st_rest (stream_skip ?k s) = 0x0D # 0x0A # ts" using s(2) by simp
  have e: "Stream_Write_UINT16 0 (stream_skip ?k s) = Some s'"
    using emitsD [OF emits_UINT16 w [of ?k], of 0] s(2) by (simp add: le_bytes_0 s'_def)
  show ws: "stream_wf s'" using stream_wf_emit [OF w [of ?k], of "[0, 0]"] s(2) by (simp add: s'_def)
  show "st_rest s' = ts" using st_rest_emit [OF w [of ?k], of "[0, 0]"] s(2) by (simp add: s'_def)
  have i: "to_int (st_pointer s) = int (st_pointer s)" "to_size (int (st_pointer s)) = st_pointer s"
    "to_size (int ?k) = ?k" "to_int ?k = int ?k"
    using pos by (simp_all add: to_int_small to_size_def SIZE_MOD_def)
  have sub: "sz_sub (st_pointer s + ?k) (st_pointer s) = ?k"
    using pos by (subst sz_sub_nowrap) (simp_all add: SIZE_MOD_def)
  have "st_pointer s + ?k \<le> length (st_buffer s)" "take ?k (drop (st_pointer s) (st_buffer s)) = p @ b"
    using take_st_rest [OF s(1), of ?k] s(2) by simp_all
  then have "drop (st_pointer s) (st_buffer s') = p @ b @ [0, 0] @ drop (st_pointer s + ?k + 2) (st_buffer s)"
    by (simp add: s'_def stream_emit_def drop_take)
  then have "c_str (st_buffer s') (st_pointer s) = Some (p @ b)"
    using b(1) takeWhile_zero [of "p @ b" "0 # drop (st_pointer s + ?k + 2) (st_buffer s)"] by (simp add: c_str_def)
  then show "nego_take_token A False (st_pointer s) n (stream_skip (length p) s) = Some (True, n\<lparr>ng_cookie := Some (p @ b)\<rparr>, s')"
    if "mem_alloc A (length (p @ b) + 1) \<noteq> None"
    using that f rw e i sub by (auto simp: nego_take_token_def Stream_GetPosition_def nego_set_cookie_def)
qed

text \<open>The request: the cookie with its prefix and line end, and the negotiation data when they are sent.\<close>

definition cookie_bytes :: "byte list option \<Rightarrow> byte list" where
  "cookie_bytes c = (case c of None \<Rightarrow> [] | Some b \<Rightarrow> COOKIE_HASH @ b @ [0x0D, 0x0A])"

definition sends_data :: "'w rdpNego \<Rightarrow> bool" where
  "sends_data n \<longleftrightarrow> ng_RequestedProtocols n > PROTOCOL_RDP \<or> ng_sendNegoData n"

definition request_data :: "'w rdpNego \<Rightarrow> byte list" where
  "request_data n = (if sends_data n
     then nego_data_enc TYPE_RDP_NEG_REQ (if ng_RestrictedAdminModeRequired n then RESTRICTED_ADMIN_MODE_REQUIRED else 0)
        (ng_RequestedProtocols n) else [])"

text \<open>
  A cookie that can be sent as it is: without zeros and line ends, not longer than the client
  allows, and short enough for the length indicator, which is one byte.
\<close>

definition cookie_fits :: "'w rdpNego \<Rightarrow> bool" where
  "cookie_fits n = (case ng_cookie n of None \<Rightarrow> True
     | Some c \<Rightarrow> 0 \<notin> set c \<and> no_crlf c \<and> length c \<le> 222 \<and> int (length c) \<le> sint (ng_CookieMaxLength n))"

lemma COOKIE_HASH_facts: "length COOKIE_HASH = 17" "0 \<notin> set COOKIE_HASH" "take 13 (COOKIE_HASH @ ts) \<noteq> COOKIE_MSTS"
  by (simp_all add: COOKIE_HASH_def COOKIE_MSTS_def)

lemma put_token_ok:
  assumes "stream_wf s" "cookie_fits n" "ng_RoutingToken n = None" "length (cookie_bytes (ng_cookie n)) \<le> length (st_rest s)"
    and "0 \<le> len" "len < 1000"
  shows "nego_put_token n len s =
     Some (len + int (length (cookie_bytes (ng_cookie n))), stream_emit (cookie_bytes (ng_cookie n)) s)"
proof (cases "ng_cookie n")
  case None
  then show ?thesis using assms by (simp add: nego_put_token_def cookie_bytes_def)
next
  case (Some c)
  have c: "length c \<le> 222" "int (length c) \<le> sint (ng_CookieMaxLength n)" "to_int (length c) = int (length c)"
    "to_size (int (length c)) = length c" "mem_read (c @ [0]) 0 (length c) = Some c"
    using assms(2) Some by (auto simp: cookie_fits_def to_int_small to_size_def SIZE_MOD_def mem_read_def)
  have ck: "int_ck (len + int (length c) + 19) = Some (len + int (length c) + 19)"
    using c(1) assms(5,6) by (simp add: int_ck_def INT_LIM_def)
  have l: "length (st_rest s) \<ge> 17 + length c + 2"
    using assms(4) Some by (simp add: cookie_bytes_def COOKIE_HASH_facts)
  have "length (cookie_bytes (ng_cookie n)) = 19 + length c"
    using Some by (simp add: cookie_bytes_def COOKIE_HASH_facts)
  then show ?thesis using Some c ck l assms(1,3)
    by (simp add: nego_put_token_def cookie_bytes_def emitsD [OF emits_Write] emitsD [OF emits_UINT8] stream_wf_emit
        COOKIE_HASH_facts)
qed

lemma request_pdu_ok:
  assumes s: "fresh_stream 512 s" and n: "cookie_fits n" "ng_RoutingToken n = None"
  defines "D \<equiv> cookie_bytes (ng_cookie n) @ request_data n"
  shows "\<exists>s'. nego_request_pdu E n s = Some s' \<and>
     sealed_with (x224_enc X224_TPDU_CONNECTION_REQUEST (11 + int (length D)) @ D) s'"
proof -
  have buf: "stream_wf s" "st_pointer s = 0" "length (st_rest s) = 512"
    using s by (auto simp: fresh_stream_def length_st_rest)
  have D: "length (cookie_bytes (ng_cookie n)) \<le> 241" "length (request_data n) \<le> 8"
    "length D = length (cookie_bytes (ng_cookie n)) + length (request_data n)"
    using n(1) by (auto simp: cookie_fits_def cookie_bytes_def COOKIE_HASH_facts request_data_def D_def split: option.splits)
  let ?s = "stream_skip 11 s" and ?C = "cookie_bytes (ng_cookie n)"
  have sk: "Stream_Seek s TPDU_CONNECTION_REQUEST_LENGTH = Some ?s" "stream_wf ?s" "length (st_rest ?s) = 501"
    using Stream_Seek_int [of s 11] buf by (auto simp: TPDU_CONNECTION_REQUEST_LENGTH_def intro: stream_wf_skip)
  have tok: "nego_put_token n TPDU_CONNECTION_REQUEST_LENGTH ?s = Some (11 + int (length ?C), stream_emit ?C ?s)"
    using put_token_ok [OF sk(2) n, of 11] D sk(3) by (simp add: TPDU_CONNECTION_REQUEST_LENGTH_def)
  have w: "stream_wf (stream_emit ?C ?s)" "length (st_rest (stream_emit ?C ?s)) = 501 - length ?C"
    using sk D by (simp_all add: stream_wf_emit)
  have put: "nego_put_data ty f v (stream_emit ?C ?s) = Some (stream_emit (?C @ nego_data_enc ty f v) ?s)" for ty f v
    using emitsD [OF emits_nego_data w(1)] w(2) D sk by simp
  have ck: "int_ck (11 + int (length ?C) + 8) = Some (11 + int (length ?C) + 8)"
    using D by (simp add: int_ck_def INT_LIM_def)
  have "nego_request_pdu E n s = nego_put_header 0 X224_TPDU_CONNECTION_REQUEST (11 + int (length D)) (stream_emit D ?s)"
    using sk(1) tok put ck buf(2)
    by (simp add: nego_request_pdu_def Stream_GetPosition_def D_def request_data_def sends_data_def)
  moreover have "11 + length D \<le> 512" using D by simp
  ultimately show ?thesis using put_header_ok [OF s, of D X224_TPDU_CONNECTION_REQUEST "11 + int (length D)"] by simp
qed

lemma x224_request:
  "x224_enc X224_TPDU_CONNECTION_REQUEST (11 + int d) =
   tpkt_enc (11 + of_nat d) @ tpdu_enc (of_nat (6 + d)) X224_TPDU_CONNECTION_REQUEST"
proof -
  have "11 + int d - 5 = int (6 + d)" by simp
  moreover have "(ucast (word_of_int (int (6 + d)) :: u16) :: byte) = of_nat (6 + d)"
    by (simp add: word_unat_eq_iff unsigned_ucast_eq unsigned_of_nat del: of_nat_add)
  ultimately show ?thesis unfolding x224_enc_def by (simp del: of_nat_add) simp
qed

text \<open>The server's view of the cookie.\<close>

lemma read_cookie_ok:
  assumes s: "stream_wf s" "st_rest s = cookie_bytes (ng_cookie n) @ request_data n"
    and n: "cookie_fits n" "ng_cookie n \<noteq> None \<Longrightarrow> mem_alloc A (length COOKIE_HASH + length (the (ng_cookie n)) + 1) \<noteq> None"
    and pos: "st_pointer s < 2 ^ 30"
  shows "\<exists>s'. nego_read_request_token_or_cookie A m s = Some (True,
       m\<lparr>ng_cookie := (case ng_cookie n of None \<Rightarrow> ng_cookie m | Some c \<Rightarrow> Some (COOKIE_HASH @ c))\<rparr>, s') \<and>
     stream_wf s' \<and> st_rest s' = request_data n"
proof (cases "ng_cookie n")
  case None
  have "Stream_GetRemainingLength s < 15"
    using s None by (simp add: remaining_rest cookie_bytes_def request_data_def)
  then show ?thesis using s None by (simp add: nego_read_request_token_or_cookie_def cookie_bytes_def)
next
  case (Some c)
  let ?r = "COOKIE_HASH @ c @ [0x0D, 0x0A] @ request_data n"
  have r: "st_rest s = ?r" using s(2) Some by (simp add: cookie_bytes_def)
  have len: "Stream_GetRemainingLength s \<ge> 19" using s(1) r by (simp add: remaining_rest COOKIE_HASH_facts)
  have rd: "mem_read (st_buffer s) (st_pointer s) k = Some (take k ?r)" if "k \<le> 17" for k
    using take_st_rest [OF s(1), of k] that r by (simp add: mem_read_def COOKIE_HASH_facts)
  have c: "0 \<notin> set (COOKIE_HASH @ c)" "no_crlf c" "length c \<le> 222"
    using n(1) Some COOKIE_HASH_facts(2) by (auto simp: cookie_fits_def)
  have sk: "Stream_Seek s 17 = Some (stream_skip 17 s)"
    using Stream_Seek_int [OF s(1), of 17] r by (simp add: COOKIE_HASH_facts)
  have p: "st_pointer s + length (COOKIE_HASH @ c) < 2 ^ 31" using pos c(3) by (simp add: COOKIE_HASH_facts)
  note T = take_token_ok [OF s(1) r c(1,2) p, unfolded COOKIE_HASH_facts(1)]
  have d: "take 13 ?r \<noteq> COOKIE_MSTS" "take 17 ?r = COOKIE_HASH"
    using COOKIE_HASH_facts(3) [of "c @ [0x0D, 0x0A] @ request_data n"] by (simp_all add: COOKIE_HASH_facts)
  have al: "mem_alloc A (length (COOKIE_HASH @ c) + 1) \<noteq> None" using n(2) Some by (simp add: add.assoc)
  have "nego_read_request_token_or_cookie A m s = nego_take_token A False (st_pointer s) m (stream_skip 17 s)"
    using len rd [of 13] rd [of 17] d sk
    by (simp add: nego_read_request_token_or_cookie_def Stream_GetPosition_def)
  then show ?thesis using T(1) [OF al, of m] T(2,3) Some by simp
qed

lemma read_request_ok:
  assumes s: "stream_wf s" "st_rest s = x224_enc X224_TPDU_CONNECTION_REQUEST (11 + int (length D)) @ D" "st_pointer s < 2 ^ 29"
    and D: "D = cookie_bytes (ng_cookie n) @ request_data n"
    and n: "cookie_fits n" "ng_cookie n \<noteq> None \<Longrightarrow> mem_alloc A (length COOKIE_HASH + length (the (ng_cookie n)) + 1) \<noteq> None"
  shows "\<exists>m' t. nego_read_request A m s = Some (True, m', t) \<and>
     ng_RequestedProtocols m' = (if sends_data n then ng_RequestedProtocols n else ng_RequestedProtocols m) \<and>
     ng_cookie m' = (case ng_cookie n of None \<Rightarrow> ng_cookie m | Some c \<Rightarrow> Some (COOKIE_HASH @ c)) \<and>
     ng_settings m' = ng_settings m"
proof -
  let ?li = "of_nat (6 + length D) :: byte"
  note S = s [unfolded x224_request]
  have dl: "length D \<le> 249"
    using n(1) by (auto simp: D cookie_fits_def cookie_bytes_def COOKIE_HASH_facts request_data_def split: option.splits)
  then have li: "unat ?li = 6 + length D" by (simp add: unsigned_of_nat take_bit_eq_mod del: of_nat_add)
  have l4: "length (tpkt_enc k) = 4" "length (tpdu_enc ?li X224_TPDU_CONNECTION_REQUEST) = 7" for k
    by (simp_all add: tpkt_enc_def tpdu_enc_def)
  have w: "stream_wf (stream_skip k s)" if "k \<le> 11" for k using S that l4 by (auto intro!: stream_wf_skip)
  have h: "\<exists>l. tpkt_read_header s = Some (l, stream_skip 4 s)"
    using tpkt_read_header_eq [OF S(1)] S(2) l4 by (simp add: tpkt_enc_def)
  have r4: "st_rest (stream_skip 4 s) = tpdu_enc ?li X224_TPDU_CONNECTION_REQUEST @ D"
    unfolding st_rest_skip S(2) using l4 by simp
  have q: "tpdu_read_connection_request (stream_skip 4 s) = Some (Some ?li, stream_skip 11 s)"
    using decodesD(2) [OF tpdu_request_decodes w [of 4]] unfolding r4
    by (simp add: d_then_def tpdu_dec_enc tpdu_dec_code_def l4 del: of_nat_add)
  have r11: "st_rest (stream_skip 11 s) = D" unfolding st_rest_skip S(2) using l4 by simp
  have li': "unat ?li = sz_add (Stream_GetRemainingLength (stream_skip 11 s)) 6"
    using li w [of 11] dl r11 unfolding sz_add_def SIZE_MOD_def by (simp add: remaining_rest del: of_nat_add)
  obtain s' where C: "nego_read_request_token_or_cookie A m (stream_skip 11 s) = Some (True,
       m\<lparr>ng_cookie := (case ng_cookie n of None \<Rightarrow> ng_cookie m | Some c \<Rightarrow> Some (COOKIE_HASH @ c))\<rparr>, s')"
     "stream_wf s'" "st_rest s' = request_data n"
    using read_cookie_ok [OF w [of 11] _ n, of m] r11 s(3) by (auto simp: D)
  show ?thesis
  proof (cases "sends_data n")
    case True
    then have "st_rest s' = nego_data_enc TYPE_RDP_NEG_REQ (if ng_RestrictedAdminModeRequired n then RESTRICTED_ADMIN_MODE_REQUIRED else 0)
        (ng_RequestedProtocols n) @ []" using C(3) by (simp add: request_data_def)
    note R = data_rest [OF C(2) this]
    have "Stream_GetRemainingLength s' = 8" using C True by (simp add: remaining_rest request_data_def)
    then show ?thesis using h q li' C(1) R True
      by (auto simp: nego_read_request_def nego_process_negotiation_request_def)
  next
    case False
    then have "Stream_GetRemainingLength s' = 0" using C by (simp add: remaining_rest request_data_def)
    then show ?thesis using h q li' C(1) False by (auto simp: nego_read_request_def)
  qed
qed

text \<open>
  C37: a request of the client is read by the server as it was meant: the server learns the
  protocols that the client asks for, and its cookie, with the prefix in front. This holds for
  cookies of up to 222 bytes.
\<close>

theorem nego_request_roundtrip:
  assumes "fresh_stream 512 s" "ng_RoutingToken n = None" "cookie_fits n"
    and "ng_cookie n = None \<or> mem_alloc A (length COOKIE_HASH + length (the (ng_cookie n)) + 1) \<noteq> None"
  shows "\<exists>s' m' t. nego_request_pdu E n s = Some s' \<and> nego_read_request A m (s'\<lparr>st_pointer := 0\<rparr>) = Some (True, m', t) \<and>
     ng_RequestedProtocols m' = (if sends_data n then ng_RequestedProtocols n else ng_RequestedProtocols m) \<and>
     ng_cookie m' = (case ng_cookie n of None \<Rightarrow> ng_cookie m | Some c \<Rightarrow> Some (COOKIE_HASH @ c))"
proof -
  obtain s' where s': "nego_request_pdu E n s = Some s'"
    "sealed_with (x224_enc X224_TPDU_CONNECTION_REQUEST
       (11 + int (length (cookie_bytes (ng_cookie n) @ request_data n))) @ (cookie_bytes (ng_cookie n) @ request_data n)) s'"
    using request_pdu_ok [OF assms(1,3,2), of E] by blast
  then show ?thesis using read_request_ok [OF sealed_rewound [OF s'(2)] _ refl assms(3), of A m] assms(4) by auto
qed

definition client_sample :: "socket_world rdpNego" where
  "client_sample = nego_sample\<lparr>ng_cookie := Some [0x62, 0x6F, 0x62], ng_RequestedProtocols := 3\<rparr>"

lemma client_sample_fields:
  "ng_RoutingToken client_sample = None" "ng_cookie client_sample = Some [0x62, 0x6F, 0x62]" "ng_CookieMaxLength client_sample = 0xFF"
  by (simp_all add: client_sample_def nego_sample_def nego_new_def nego_init_def)

lemma fresh_sample: "fresh_stream 512 (stream_of (replicate 512 0))"
  by (simp add: fresh_stream_def stream_of_def stream_wf_def BLOCK_MAX_def)

theorem nego_request_roundtrip_witness:
  "\<exists>s' m' t. nego_request_pdu nego_sample_env client_sample (stream_of (replicate 512 0)) = Some s' \<and>
     nego_read_request ample nego_sample (s'\<lparr>st_pointer := 0\<rparr>) = Some (True, m', t) \<and>
     ng_RequestedProtocols m' =
       (if sends_data client_sample then ng_RequestedProtocols client_sample else ng_RequestedProtocols nego_sample) \<and>
     ng_cookie m' = (case ng_cookie client_sample of None \<Rightarrow> ng_cookie nego_sample | Some c \<Rightarrow> Some (COOKIE_HASH @ c))"
  by (rule nego_request_roundtrip [OF fresh_sample])
     (simp_all add: client_sample_fields cookie_fits_def mem_alloc_def ample_def BLOCK_MAX_def COOKIE_HASH_facts)

definition server_sample :: "socket_world rdpNego" where
  "server_sample = nego_sample\<lparr>ng_SelectedProtocol := rdp_server_select (ng_settings nego_sample) 3\<rparr>"

theorem nego_response_agreement_witness:
  "\<exists>ok s' n'. nego_response_pdu server_sample (stream_of (replicate 512 0)) = Some (ok, s') \<and>
     nego_recv (s'\<lparr>st_pointer := 0\<rparr>) client_sample = Some (0, n') \<and>
     (if ok
      then ng_SelectedProtocol n' = ng_SelectedProtocol server_sample \<and>
        (if ng_SelectedProtocol server_sample = PROTOCOL_NLA
         then se_NlaSecurity (ng_settings nego_sample) \<and> 3 AND PROTOCOL_NLA \<noteq> 0 \<and>
           ng_state n' = (if ng_NLA client_sample then NEGO_STATE_FINAL else NEGO_STATE_FAIL)
         else if ng_SelectedProtocol server_sample = PROTOCOL_TLS
         then se_TlsSecurity (ng_settings nego_sample) \<and> 3 AND PROTOCOL_TLS \<noteq> 0 \<and>
           ng_state n' = (if ng_TLS client_sample then NEGO_STATE_FINAL else NEGO_STATE_FAIL)
         else ng_SelectedProtocol server_sample = PROTOCOL_RDP \<and> se_RdpSecurity (ng_settings nego_sample) \<and> 3 = PROTOCOL_RDP \<and>
           ng_state n' = (if ng_RDP client_sample then NEGO_STATE_FINAL else NEGO_STATE_FAIL))
      else ng_SelectedProtocol n' = ng_SelectedProtocol client_sample \<and> ng_state n' = NEGO_STATE_FAIL)"
  by (rule nego_response_agreement [OF fresh_sample server_sample_def])

section \<open>Where the messages do not fit\<close>

text \<open>
  The stream of a request has 512 bytes, and the length of the routing token, which a server can
  set through a redirection, is not checked: a token of more than 501 bytes is written beyond the
  end of the block.
\<close>

theorem nego_token_overflow:
  assumes "fresh_stream 512 s" "ng_RoutingToken n = Some tok" "unat (ng_RoutingTokenLength n) = length tok" "501 < length tok"
  shows "nego_request_pdu E n s = None"
proof -
  have "Stream_Seek s 11 = Some (stream_skip 11 s)" "st_pointer s = 0" "length (st_buffer s) = 512"
    using assms(1) Stream_Seek_int [of s 11] by (auto simp: fresh_stream_def stream_wf_def length_st_rest)
  moreover have "nego_put_token n 11 (stream_skip 11 s) = None"
    using calculation assms(2-4) by (simp add: nego_put_token_def mem_read_def Stream_Write_def mem_write_def)
  ultimately show ?thesis by (simp add: nego_request_pdu_def TPDU_CONNECTION_REQUEST_LENGTH_def)
qed

text \<open>
  \<^verbatim>\<open>ConvertToUnicode\<close> already counts the terminating zero. One more is added to the count, and a
  character behind the converted string is sent.
\<close>

theorem nego_preconnection_overread:
  assumes "fresh_stream (2 * c + 20) s" "c < 0xFFFF" "length w = 2 * c"
  shows "nego_preconnection_pdu (of_nat c + 1, Some w, z) ident s = None"
proof -
  have u: "unat (of_nat c + 1 :: u16) = c + 1"
  proof -
    have "unat (of_nat (c + 1) :: u16) = c + 1"
      using assms(2) by (simp add: unsigned_of_nat take_bit_eq_mod del: of_nat_add of_nat_Suc)
    then show ?thesis by (simp add: add.commute)
  qed
  have s: "stream_wf s" "length (st_rest s) = 2 * c + 20"
    using assms(1) by (auto simp: fresh_stream_def length_st_rest)
  have "mem_read w 0 (2 * unat (of_nat c + 1 :: u16)) = None" using assms(3) u by (simp add: mem_read_def)
  then show ?thesis using s
    by (simp add: nego_preconnection_pdu_def emitsD [OF emits_UINT32] emitsD [OF emits_UINT16] stream_wf_emit)
qed

end
