(* ===== verification/NegoMeet.thy ===== *)
theory NegoMeet
  imports NegoWire
begin

unbundle bit_operations_syntax

text \<open>
  The client of \<^verbatim>\<open>nego.c\<close> against a server: a connection whose other end answers every
  write with a function of the bytes written, and the server's part of the negotiation as that
  function. The client sends its request through the transport, the server reads it and writes
  its answer, and the client receives it through the transport and connects the security layer.
\<close>

section \<open>A connection with a peer that answers\<close>

record peer_world =
  pw_in :: "byte list"
  pw_out :: "byte list"

text \<open>The peer answers at once and accepts every write; when it has no more to say, reading fails.\<close>

definition peer_bio :: "(byte list \<Rightarrow> byte list) \<Rightarrow> peer_world bio" where
  "peer_bio peer = \<lparr>
     BIO_read = (\<lambda>n w. if pw_in w = [] \<or> n \<le> 0 then (-1, [], w)
        else (int (length (take (nat n) (pw_in w))), take (nat n) (pw_in w), w\<lparr>pw_in := drop (nat n) (pw_in w)\<rparr>)),
     BIO_should_retry = (\<lambda>w. False),
     BIO_wait_read = (\<lambda>w. (-1, w)),
     BIO_write = (\<lambda>d w. Some (int (length d), w\<lparr>pw_in := pw_in w @ peer d, pw_out := pw_out w @ d\<rparr>)),
     BIO_wait_write = (\<lambda>w. (-1, w)),
     BIO_write_blocked = (\<lambda>w. False),
     BIO_flush = (\<lambda>w. Some (1, w))\<rparr>"

lemma rx_get: "rx s h \<Longrightarrow> i < length h \<Longrightarrow> arr_get (st_buffer s) i = Some (h ! i)"
proof -
  assume h: "rx s h" "i < length h"
  then have e: "take (length h) (st_buffer s) = h" by (simp add: rx_def)
  then have "length (take (length h) (st_buffer s)) = length h" by simp
  then have "i < length (st_buffer s)" using h(2) by simp
  moreover have "st_buffer s ! i = h ! i" using h(2) e by (metis nth_take)
  ultimately show ?thesis by (simp add: arr_get_def)
qed

lemma peer_read_bytes:
  assumes "rx s h" "0 < k" "k < 2 ^ 31" "k \<le> length (pw_in (tr_world t))" "length h + k \<le> st_capacity s" "tr_frontBio t"
  shows "\<exists>s'. transport_read_layer_bytes (peer_bio peer) t s (of_nat k) =
       Some (1, s', t\<lparr>tr_world := (tr_world t)\<lparr>pw_in := drop k (pw_in (tr_world t))\<rparr>\<rparr>) \<and>
     rx s' (h @ take k (pw_in (tr_world t))) \<and> st_capacity s' = st_capacity s"
proof -
  let ?w = "tr_world t" and ?d = "take k (pw_in (tr_world t))"
  let ?t = "t\<lparr>tr_world := ?w\<lparr>pw_in := drop k (pw_in ?w)\<rparr>\<rparr>"
  let ?buf = "take (length h) (st_buffer s) @ ?d @ drop (length h + k) (st_buffer s)"
  have s: "st_pointer s = length h" "st_capacity s = length (st_buffer s)" using assms(1) by (auto simp: rx_def)
  have d: "length ?d = k" using assms(4) by simp
  have mw: "mem_write (st_buffer s) (length h) ?d = Some ?buf" using assms(5) s d by (simp add: mem_write_in)
  have "BIO_read (peer_bio peer) (int k) ?w = (int k, ?d, ?w\<lparr>pw_in := drop k (pw_in ?w)\<rparr>)"
    using assms(2,4) by (auto simp: peer_bio_def)
  then have "transport_read_loop (peer_bio peer) (length h) (int k) (st_buffer s) 0 t = Some (int k, ?buf, ?t)"
    using assms(2,3) mw
    by (simp add: transport_read_loop.simps [of _ _ _ _ 0] transport_read_loop.simps [of _ _ _ _ "int k"] int_ck_def INT_LIM_def)
  moreover have "sint (of_nat k :: u32) = int k" using assms(3) by (rule sint_u32)
  moreover have "Stream_Seek (s\<lparr>st_buffer := ?buf\<rparr>) (int k) = Some (s\<lparr>st_buffer := ?buf, st_pointer := length h + k\<rparr>)"
    using assms(5) s d by (simp add: Stream_Seek_def nat_add_distrib)
  ultimately have "transport_read_layer_bytes (peer_bio peer) t s (of_nat k) =
      Some (1, s\<lparr>st_buffer := ?buf, st_pointer := length h + k\<rparr>, ?t)"
    using assms(2,6) s(1) by (simp add: transport_read_layer_bytes_def transport_read_layer_def)
  moreover have "rx (s\<lparr>st_buffer := ?buf, st_pointer := length h + k\<rparr>) (h @ ?d)"
    using rx_store [OF assms(1), of ?d] assms(5) d by simp
  ultimately show ?thesis by auto
qed

text \<open>A whole unit with a TPKT header is there: it is read in three pieces, and nothing more.\<close>

lemma peer_read_pdu:
  assumes s: "rx s []" "st_capacity s = 1024"
    and U: "U = 3 # v # hi # lo # us" "length U = 256 * unat hi + unat lo" "7 \<le> length U" "length U \<le> 1000"
    and t: "pw_in (tr_world t) = U @ R" "tr_frontBio t" "\<not> tr_NlaMode t"
  shows "\<exists>s'. transport_read_pdu A (peer_bio peer) t s =
       Some (int (length U), s', t\<lparr>tr_world := (tr_world t)\<lparr>pw_in := R\<rparr>\<rparr>) \<and> stream_wf s' \<and> st_rest s' = U"
proof -
  define T where "T = (\<lambda>k. t\<lparr>tr_world := (tr_world t)\<lparr>pw_in := drop k (U @ R)\<rparr>\<rparr>)"
  have T: "pw_in (tr_world (T k)) = drop k (U @ R)" "tr_frontBio (T k)" "\<not> tr_NlaMode (T k)"
    "(T k)\<lparr>tr_world := (tr_world (T k))\<lparr>pw_in := drop j (drop k (U @ R))\<rparr>\<rparr> = T (k + j)" for k j
    using t by (simp_all add: T_def add.commute del: drop_append)
  have t0: "t = T 0" using t(1) by (simp add: T_def)
  note step = peer_read_bytes [where t = "T k" for k, unfolded T]
  obtain s1 where s1: "transport_read_layer_bytes (peer_bio peer) (T 0) s 2 = Some (1, s1, T 2)" "rx s1 [3, v]" "st_capacity s1 = 1024"
    using step [OF s(1), of 2 0] s(2) U(1) T(2) by (auto simp del: add_2_eq_Suc add_2_eq_Suc')
  obtain s2 where s2: "transport_read_layer_bytes (peer_bio peer) (T 2) s1 2 = Some (1, s2, T 4)" "rx s2 [3, v, hi, lo]" "st_capacity s2 = 1024"
    using step [OF s1(2), of 2 2] s1(3) U(1) T(2) by (auto simp del: add_2_eq_Suc add_2_eq_Suc')
  have fit: "length [3, v, hi, lo] + (length U - 4) \<le> st_capacity s2" using U(4) s2(3) by simp
  obtain s3 where s3: "transport_read_layer_bytes (peer_bio peer) (T 4) s2 (of_nat (length U - 4)) = Some (1, s3, T (length U))"
      "rx s3 U" "st_capacity s3 = 1024"
  proof -
    have e: "4 + (length U - 4) = length U" "[3, v, hi, lo] @ take (length U - 4) (drop 4 (U @ R)) = U"
      using U(1,3) by simp_all
    have "0 < length U - 4" "length U - 4 < 2 ^ 31" "length U - 4 \<le> length (drop 4 (U @ R))" using U(3,4) by simp_all
    from step [OF s2(2) this fit T(2), unfolded e s2(3)] show ?thesis using that by blast
  qed
  have p: "st_pointer s = 0" "st_pointer s1 = 2" "st_pointer s2 = 4" using s(1) s1(2) s2(2) by (auto simp: rx_def)
  have need: "transport_need (peer_bio peer) (T 0) s 0 2 = Some (None, s1, T 2)"
    "transport_need (peer_bio peer) (T 2) s1 2 4 = Some (None, s2, T 4)"
    using s1(1) s2(1) by (simp_all add: transport_need_def)
  have h: "arr_get (st_buffer s1) 0 = Some 3" "arr_get (st_buffer s1) 1 = Some v"
    "arr_get (st_buffer s2) 2 = Some hi" "arr_get (st_buffer s2) 3 = Some lo"
    using rx_get [OF s1(2)] rx_get [OF s2(2)] by (simp_all add: numeral_eq_Suc)
  have be: "c_be16 hi lo = int (length U)" using U(2) by (simp add: c_be16_alt)
  have len: "transport_pdu_length (peer_bio peer) (T 2) s1 = Some (Inr (int (length U)), s2, T 4)"
    using h need(2) be U(3,4) p(2) T(3)
    by (simp add: transport_pdu_length_def Stream_GetPosition_def to_int_small)
  have ts: "to_size (int (length U)) = length U" "sz_add 4 (length U) = 4 + length U"
    "sz_sub (length U) 4 = length U - 4"
    using U(3,4) by (simp_all add: to_size_def SIZE_MOD_def sz_add_def sz_sub_nowrap)
  have cap: "Stream_EnsureCapacity A s 4 = Some (True, s)" "Stream_EnsureCapacity A s2 (4 + length U) = Some (True, s2)"
    using s(2) s2(3) U(4) by (simp_all add: Stream_EnsureCapacity_def)
  have p3: "st_pointer s3 = length U" "st_capacity s3 = length (st_buffer s3)" "take (length U) (st_buffer s3) = U"
    using s3(2) by (auto simp: rx_def)
  define s' where "s' = s3\<lparr>st_length := length U, st_pointer := 0\<rparr>"
  have "Stream_SetPosition (Stream_SealLength s3) 0 = Some s'" "to_int (st_length s') = int (length U)"
    using p3(1) U(4) by (simp_all add: s'_def Stream_SetPosition_def Stream_SealLength_def to_int_small)
  then have "transport_read_pdu A (peer_bio peer) (T 0) s = Some (int (length U), s', T (length U))"
    using cap need(1) len ts s3(1) p by (simp add: transport_read_pdu_def Stream_GetPosition_def to_int_def)
  moreover have "T (length U) = t\<lparr>tr_world := (tr_world t)\<lparr>pw_in := R\<rparr>\<rparr>" by (simp add: T_def)
  moreover have "stream_wf s'" "st_rest s' = U"
    using p3 s3(3) U(4) by (simp_all add: s'_def stream_wf_def st_rest_def BLOCK_MAX_def)
  ultimately show ?thesis using t0 by metis
qed

lemma peer_write:
  assumes "sealed_with bs s" "bs \<noteq> []" "length bs < 2 ^ 31" "ne_bio E = peer_bio peer"
  shows "\<exists>t'. nego_write E n s = Some (True, n\<lparr>ng_transport := t'\<rparr>) \<and>
     tr_world t' = (tr_world (ng_transport n))\<lparr>pw_in := pw_in (tr_world (ng_transport n)) @ peer bs,
       pw_out := pw_out (tr_world (ng_transport n)) @ bs\<rparr> \<and>
     tr_frontBio t' = tr_frontBio (ng_transport n) \<and> tr_NlaMode t' = tr_NlaMode (ng_transport n)"
proof -
  define t where "t = ng_transport n"
  have s: "st_pointer s = length bs" "take (length bs) (st_buffer s) = bs" "length bs \<le> length (st_buffer s)"
    using assms(1) by (auto simp: sealed_with_def stream_wf_def)
  let ?s = "s\<lparr>st_pointer := 0\<rparr>"
  let ?w = "(tr_world t)\<lparr>pw_in := pw_in (tr_world t) @ peer bs, pw_out := pw_out (tr_world t) @ bs\<rparr>"
  have fl: "transport_flush_loop (peer_bio peer) w = Some (True, w)" for w
    by (simp add: transport_flush_loop.simps peer_bio_def)
  have w: "BIO_write (peer_bio peer) bs (tr_world t) = Some (int (length bs), ?w)" by (simp add: peer_bio_def)
  have rd: "mem_read (st_buffer s) 0 (length bs) = Some bs" using s by (simp add: mem_read_def)
  have sk: "Stream_Seek ?s (int (length bs)) = Some (s\<lparr>st_pointer := length bs\<rparr>)" using s by (simp add: Stream_Seek_def)
  have "transport_write_loop (peer_bio peer) b f (int (length bs)) (-1) ?s (tr_world t) =
      Some (True, int (length bs), s\<lparr>st_pointer := length bs\<rparr>, ?w)" for b f
    using assms(2) w rd sk fl
    by (simp add: transport_write_loop.simps [of _ _ _ "int (length bs)"] transport_write_loop.simps [of _ _ _ 0] int_ck_def INT_LIM_def)
  then have "\<exists>s' t'. transport_write (peer_bio peer) t s = Some (int (length bs), s', t') \<and> tr_world t' = ?w \<and>
      tr_frontBio t' = tr_frontBio t \<and> tr_NlaMode t' = tr_NlaMode t"
    using assms(2,3) s by (simp add: transport_write_def Stream_GetPosition_def Stream_SetPosition_def to_int_small Let_def)
  then show ?thesis using assms(4) by (auto simp: nego_write_def t_def)
qed

section \<open>The server as the peer\<close>

text \<open>
  What the server writes when it receives the bytes \<open>bs\<close>: it reads the request, chooses a
  protocol, and builds the response. Without a valid request it answers nothing.
\<close>

definition server_answer :: "'w rdpNego \<Rightarrow> byte list \<Rightarrow> byte list" where
  "server_answer srv bs =
     (case nego_read_request ample srv (stream_of bs) of
        Some (True, m, _) \<Rightarrow>
          (case nego_response_pdu (m\<lparr>ng_SelectedProtocol := rdp_server_select (ng_settings m) (ng_RequestedProtocols m)\<rparr>)
                  (stream_of (replicate 512 0)) of
             Some (_, s) \<Rightarrow> take (st_pointer s) (st_buffer s)
           | None \<Rightarrow> [])
      | _ \<Rightarrow> [])"

text \<open>The surroundings of the client: every connection and every handshake succeeds.\<close>

definition meet_env :: "(byte list \<Rightarrow> byte list) \<Rightarrow> peer_world nego_env" where
  "meet_env peer = \<lparr>ne_bio = peer_bio peer, ne_alloc = ample, ne_struct_ok = True, ne_debug = False,
     ne_transport_connect = (\<lambda>host port timeout t. (True, t\<lparr>tr_frontBio := True\<rparr>)),
     ne_transport_connect_tls = (\<lambda>t. (True, t)), ne_transport_connect_nla = (\<lambda>t. (True, t)),
     ne_transport_accept_tls = (\<lambda>t. (True, t)), ne_transport_accept_nla = (\<lambda>t. (True, t)),
     ne_release = (\<lambda>w. w), ne_BIO_set_nonblock = (\<lambda>b w. (True, w)),
     ne_ConvertToUnicode = (\<lambda>s. (0, None))\<rparr>"

definition request_bytes :: "'w rdpNego \<Rightarrow> byte list" where
  "request_bytes n = (let D = cookie_bytes (ng_cookie n) @ request_data n
     in x224_enc X224_TPDU_CONNECTION_REQUEST (11 + int (length D)) @ D)"

lemma request_bytes_bound:
  assumes "cookie_fits n"
  shows "length (request_bytes n) \<le> 260" "request_bytes n \<noteq> []"
  using assms
  by (auto simp: request_bytes_def Let_def cookie_fits_def cookie_bytes_def COOKIE_HASH_facts request_data_def length_x224_enc
      split: option.splits)
     (simp_all add: x224_enc_def tpkt_enc_def)

text \<open>The answer to a request of the client is the response with the protocol the server selects.\<close>

lemma server_answers:
  fixes srv n
  assumes "cookie_fits n" "ng_RequestedProtocols srv = PROTOCOL_RDP" "ng_RequestedProtocols n = p"
  defines "sel \<equiv> rdp_server_select (ng_settings srv) p"
  shows "server_answer srv (request_bytes n) = x224_enc X224_TPDU_CONNECTION_CONFIRM 19 @
     (if sel AND PROTOCOL_FAILED_NEGO \<noteq> 0 then nego_data_enc TYPE_RDP_NEG_FAILURE 0 (sel AND NOT PROTOCOL_FAILED_NEGO)
      else nego_data_enc TYPE_RDP_NEG_RSP (if se_SupportGraphicsPipeline (ng_settings srv) then 3 else 1) sel)"
proof -
  let ?D = "cookie_bytes (ng_cookie n) @ request_data n"
  have w: "stream_wf (stream_of (request_bytes n))" "st_pointer (stream_of (request_bytes n)) < 2 ^ 29"
    using request_bytes_bound(1) [OF assms(1)] by (simp add: BLOCK_MAX_def, simp add: stream_of_def)
  have al: "mem_alloc (ample :: byte allocator) (length COOKIE_HASH + length (the (ng_cookie n)) + 1) \<noteq> None" if "ng_cookie n \<noteq> None"
    using assms(1) that by (auto simp: cookie_fits_def mem_alloc_def ample_def BLOCK_MAX_def COOKIE_HASH_facts)
  obtain m t where m: "nego_read_request ample srv (stream_of (request_bytes n)) = Some (True, m, t)"
      "ng_RequestedProtocols m = (if sends_data n then ng_RequestedProtocols n else ng_RequestedProtocols srv)"
      "ng_settings m = ng_settings srv"
    using read_request_ok [OF w(1) _ w(2) refl assms(1) al, of srv] by (auto simp: request_bytes_def Let_def)
  have "ng_RequestedProtocols m = p"
    using m(2) assms(2,3) by (auto simp: sends_data_def PROTOCOL_RDP_def word_greater_zero_iff)
  then show ?thesis
    using m(1,3) response_pdu_ok [OF fresh_sample, of "m\<lparr>ng_SelectedProtocol := rdp_server_select (ng_settings m) (ng_RequestedProtocols m)\<rparr>"]
    by (auto simp: server_answer_def sealed_with_def response_bytes_def sel_def)
qed

text \<open>A client between two attempts: nothing is connected yet, and nothing is left to read.\<close>

definition ready :: "peer_world rdpNego \<Rightarrow> bool" where
  "ready n \<longleftrightarrow> ng_NegotiateSecurityLayer n \<and> \<not> ng_SecurityConnected n \<and> \<not> ng_TcpConnected n \<and> \<not> ng_GatewayEnabled n \<and>
     ng_RoutingToken n = None \<and> cookie_fits n \<and> \<not> tr_NlaMode (ng_transport n) \<and> pw_in (tr_world (ng_transport n)) = []"

lemma cookie_fits_cong:
  "ng_cookie m = ng_cookie n \<Longrightarrow> ng_CookieMaxLength m = ng_CookieMaxLength n \<Longrightarrow> cookie_fits m = cookie_fits n"
  by (cases "ng_cookie n") (simp_all add: cookie_fits_def)

lemma Stream_New_ample: "0 < c \<Longrightarrow> c < BLOCK_MAX \<Longrightarrow> \<exists>s. Stream_New ample True None c = Some s \<and> fresh_stream c s"
  by (auto simp: Stream_New_def mem_alloc_def ample_def fresh_stream_def stream_wf_def)

lemma fresh_rx: "fresh_stream c s \<Longrightarrow> 0 < c \<Longrightarrow> rx s [] \<and> st_capacity s = c"
  by (auto simp: fresh_stream_def rx_def stream_wf_def)

text \<open>One attempt: the request goes out, and the answer of the server is processed.\<close>

lemma attempt_meets:
  fixes srv :: "'w rdpNego" and p :: u32
  assumes n: "ready n" and srv: "ng_RequestedProtocols srv = PROTOCOL_RDP"
  defines "sel \<equiv> rdp_server_select (ng_settings srv) p"
  shows "\<exists>t f. pw_in (tr_world t) = [] \<and> \<not> tr_NlaMode t \<and>
     nego_attempt (meet_env (server_answer srv)) p n = Some (True,
       (if sel AND PROTOCOL_FAILED_NEGO \<noteq> 0 then answered TYPE_RDP_NEG_FAILURE 0 (sel AND NOT PROTOCOL_FAILED_NEGO)
        else answered TYPE_RDP_NEG_RSP f sel)
       (n\<lparr>ng_RequestedProtocols := p, ng_TcpConnected := True, ng_transport := t\<rparr>))"
proof -
  let ?E = "meet_env (server_answer srv)"
  define n1 where "n1 = n\<lparr>ng_RequestedProtocols := p, ng_TcpConnected := True, ng_transport := (ng_transport n)\<lparr>tr_frontBio := True\<rparr>\<rparr>"
  have E: "ne_bio ?E = peer_bio (server_answer srv)" "ne_alloc ?E = ample" "ne_struct_ok ?E" by (simp_all add: meet_env_def)
  have con: "nego_transport_connect ?E (n\<lparr>ng_RequestedProtocols := p\<rparr>) = (True, n1)"
    using n by (simp add: nego_transport_connect_def nego_tcp_connect_def nego_open_def meet_env_def ready_def n1_def)
  have n1: "cookie_fits n1" "ng_RoutingToken n1 = None" "ng_RequestedProtocols n1 = p"
    "pw_in (tr_world (ng_transport n1)) = []" "\<not> tr_NlaMode (ng_transport n1)" "tr_frontBio (ng_transport n1)"
    using n cookie_fits_cong [of n1 n] by (simp_all add: n1_def ready_def)
  obtain s where s: "Stream_New ample True None 512 = Some s" "fresh_stream 512 s"
    using Stream_New_ample [of 512] by (auto simp: BLOCK_MAX_def)
  obtain s1 where s1: "nego_request_pdu ?E n1 s = Some s1" "sealed_with (request_bytes n1) s1"
    using request_pdu_ok [OF s(2) n1(1,2), of ?E] by (auto simp: request_bytes_def Let_def)
  obtain t where t: "nego_write ?E n1 s1 = Some (True, n1\<lparr>ng_transport := t\<rparr>)"
      "pw_in (tr_world t) = server_answer srv (request_bytes n1)" "tr_frontBio t" "\<not> tr_NlaMode t"
    using peer_write [OF s1(2) request_bytes_bound(2) [OF n1(1)] _ E(1), of n1] request_bytes_bound(1) [OF n1(1)] n1(4-6) by auto
  have send: "nego_send_negotiation_request ?E n1 = Some (True, n1\<lparr>ng_transport := t\<rparr>)"
    using s(1) s1(1) t(1) E by (simp add: nego_send_negotiation_request_def)
  define ty f v where "ty = (if sel AND PROTOCOL_FAILED_NEGO \<noteq> 0 then TYPE_RDP_NEG_FAILURE else TYPE_RDP_NEG_RSP)"
    and "f = (if sel AND PROTOCOL_FAILED_NEGO \<noteq> 0 then 0 else if se_SupportGraphicsPipeline (ng_settings srv) then 3 else 1 :: byte)"
    and "v = (if sel AND PROTOCOL_FAILED_NEGO \<noteq> 0 then sel AND NOT PROTOCOL_FAILED_NEGO else sel)"
  let ?U = "x224_enc X224_TPDU_CONNECTION_CONFIRM 19 @ nego_data_enc ty f v"
  have U: "server_answer srv (request_bytes n1) = ?U"
    using server_answers [OF n1(1) srv n1(3)] by (simp add: sel_def ty_def f_def v_def)
  obtain r where r: "Stream_New ample True None 1024 = Some r" "rx r []" "st_capacity r = 1024"
    using Stream_New_ample [of 1024] fresh_rx by (auto simp: BLOCK_MAX_def)
  let ?t = "t\<lparr>tr_world := (tr_world t)\<lparr>pw_in := []\<rparr>\<rparr>"
  obtain r' where r': "transport_read_pdu ample (peer_bio (server_answer srv)) t r = Some (19, r', ?t)" "stream_wf r'" "st_rest r' = ?U"
    using peer_read_pdu [OF r(2,3), of ?U 0 0 19 "[14, X224_TPDU_CONNECTION_CONFIRM, 0, 0, 0, 0, 0] @ nego_data_enc ty f v"
        t "[]" ample "server_answer srv"] t U by (auto simp: x224_confirm)
  have "nego_recv_response ?E (n1\<lparr>ng_transport := t\<rparr>) = Some (True, answered ty f v (n1\<lparr>ng_transport := ?t\<rparr>))"
    using r(1) r'(1) nego_recv_answered [OF r'(2,3), of "n1\<lparr>ng_transport := ?t\<rparr>"] E by (simp add: nego_recv_response_def)
  then have "nego_attempt ?E p n = Some (True, answered ty f v (n1\<lparr>ng_transport := ?t\<rparr>))"
    using con send by (simp add: nego_attempt_def)
  moreover have "n1\<lparr>ng_transport := ?t\<rparr> = n\<lparr>ng_RequestedProtocols := p, ng_TcpConnected := True, ng_transport := ?t\<rparr>"
    by (simp add: n1_def)
  ultimately show ?thesis using t(4) by (intro exI [of _ ?t] exI [of _ f]) (simp add: ty_def f_def v_def)
qed

text \<open>The protocols that both sides allow, from a state of the client on.\<close>

definition accepts :: "'w rdpNego \<Rightarrow> u32 \<Rightarrow> bool" where
  "accepts n p \<longleftrightarrow> p = PROTOCOL_NLA \<and> ng_NLA n \<or> p = PROTOCOL_TLS \<and> ng_TLS n \<or> p = PROTOCOL_RDP \<and> ng_RDP n"

lemma answered_fields:
  "ng_config (answered ty f v n) = ng_config n" "ng_transport (answered ty f v n) = ng_transport n"
  "ng_SecurityConnected (answered ty f v n) = ng_SecurityConnected n" "ng_TcpConnected (answered ty f v n) = ng_TcpConnected n"
  "ng_GatewayEnabled (answered ty f v n) = ng_GatewayEnabled n"
  by (auto simp: answered_def nego_check_selected_def ng_config_def Let_def)

lemma config_ready:
  assumes "ng_config m = ng_config n"
  shows "ng_RoutingToken m = ng_RoutingToken n" "cookie_fits m = cookie_fits n" "accepts m p = accepts n p"
  using assms config_fields [OF assms] cookie_fits_cong [of m n] by (simp_all add: ng_config_def accepts_def)

lemma send_meets:
  fixes srv :: "'w rdpNego"
  assumes n: "ready n" "attempting (ng_state n)" and srv: "ng_RequestedProtocols srv = PROTOCOL_RDP"
  defines "sel \<equiv> rdp_server_select (ng_settings srv) (requested_by (ng_state n))"
  shows "\<exists>m. nego_send (meet_env (server_answer srv)) n = Some m \<and> ng_config m = ng_config n \<and>
     (if accepts n sel then ng_state m = NEGO_STATE_FINAL \<and> ng_SelectedProtocol m = sel \<and> ng_TcpConnected m \<and> \<not> ng_SecurityConnected m
      else if ng_state n = NEGO_STATE_RDP then ng_state m = NEGO_STATE_FAIL \<and> \<not> ng_SecurityConnected m
      else ready m \<and> ng_state m = fallback n (ng_state n))"
proof -
  let ?E = "meet_env (server_answer srv)" and ?p = "requested_by (ng_state n)"
  obtain t f where A: "pw_in (tr_world t) = []" "\<not> tr_NlaMode t"
    "nego_attempt ?E ?p n = Some (True,
       (if sel AND PROTOCOL_FAILED_NEGO \<noteq> 0 then answered TYPE_RDP_NEG_FAILURE 0 (sel AND NOT PROTOCOL_FAILED_NEGO)
        else answered TYPE_RDP_NEG_RSP f sel)
       (n\<lparr>ng_RequestedProtocols := ?p, ng_TcpConnected := True, ng_transport := t\<rparr>))"
    using attempt_meets [OF n(1) srv, of ?p] unfolding sel_def by blast
  let ?n = "n\<lparr>ng_RequestedProtocols := ?p, ng_TcpConnected := True, ng_transport := t\<rparr>"
  have cfg: "ng_config ?n = ng_config n" by (simp add: ng_config_def)
  note acc = config_ready(3) [OF cfg, of sel] config_fields [OF cfg]
  define m where "m = (if sel AND PROTOCOL_FAILED_NEGO \<noteq> 0 then answered TYPE_RDP_NEG_FAILURE 0 (sel AND NOT PROTOCOL_FAILED_NEGO)
        else answered TYPE_RDP_NEG_RSP f sel) ?n"
  note sc = select_cases [of "ng_settings srv" ?p, folded sel_def]
  have m: "ng_state m = (if accepts n sel then NEGO_STATE_FINAL else NEGO_STATE_FAIL) \<and>
    (accepts n sel \<longrightarrow> ng_SelectedProtocol m = sel)"
  proof (cases "sel AND PROTOCOL_FAILED_NEGO = 0")
    case True
    then have "sel = PROTOCOL_NLA \<or> sel = PROTOCOL_TLS \<or> sel = PROTOCOL_RDP" using sc by auto
    then show ?thesis unfolding m_def acc(1) [symmetric]
      by (elim disjE) (simp_all add: answered_def nego_check_selected_def accepts_def protocol_defs PROTOCOL_FAILED_NEGO_def)
  next
    case False
    then have "\<not> accepts n sel" by (auto simp: accepts_def protocol_defs PROTOCOL_FAILED_NEGO_def)
    then show ?thesis using False by (simp add: m_def answered_def TYPE_RDP_NEG_FAILURE_def TYPE_RDP_NEG_RSP_def)
  qed
  have fr: "ng_config m = ng_config n" "ng_transport m = t" "\<not> ng_SecurityConnected m" "ng_TcpConnected m" "\<not> ng_GatewayEnabled m"
    using cfg n(1) by (simp_all add: m_def answered_fields ready_def)
  have send: "nego_send ?E n = Some (nego_after ?E (ng_state n) (True, m))"
    using nego_send_eq [OF n(2), of ?E] A(3) by (simp add: m_def)
  show ?thesis
  proof (cases "accepts n sel \<or> ng_state n = NEGO_STATE_RDP")
    case True
    then show ?thesis using send m fr by (auto simp: nego_after_def)
  next
    case False
    define m' where "m' = snd (nego_transport_disconnect ?E m)"
    have "ng_config m' = ng_config m" unfolding m'_def by (rule transport_disconnect_frame)
    then have c: "ng_config m' = ng_config n" using fr(1) by simp
    have "ready (m'\<lparr>ng_state := fallback m' (ng_state n)\<rparr>)"
      using fr A(1,2) n(1) config_ready(1,2) [OF c] config_fields(5) [OF c] cookie_fits_cong [of "m'\<lparr>ng_state := fallback m' (ng_state n)\<rparr>" m']
      by (simp add: ready_def m'_def nego_transport_disconnect_def transport_disconnect_def meet_env_def)
    moreover have "ng_config (m'\<lparr>ng_state := s\<rparr>) = ng_config n" for s using c by (simp add: ng_config_def)
    ultimately show ?thesis using send False m fallback_config [OF c, of "ng_state n"]
      by (intro exI [of _ "m'\<lparr>ng_state := fallback m' (ng_state n)\<rparr>"]) (simp add: nego_after_def m'_def Let_def)
  qed
qed

text \<open>The strongest protocol that the client and the server have in common, from a state of the client on.\<close>

definition agreed_from :: "NEGO_STATE \<Rightarrow> 'w rdpNego \<Rightarrow> rdpSettings \<Rightarrow> u32 option" where
  "agreed_from s n se =
     (if s \<noteq> NEGO_STATE_RDP \<and> s \<noteq> NEGO_STATE_TLS \<and> ng_NLA n \<and> se_NlaSecurity se then Some PROTOCOL_NLA
      else if s \<noteq> NEGO_STATE_RDP \<and> ng_TLS n \<and> se_TlsSecurity se then Some PROTOCOL_TLS
      else if ng_RDP n \<and> se_RdpSecurity se then Some PROTOCOL_RDP else None)"

definition strongest_common :: "'w rdpNego \<Rightarrow> rdpSettings \<Rightarrow> u32 option" where
  "strongest_common n se =
     (if ng_NLA n \<and> se_NlaSecurity se then Some PROTOCOL_NLA
      else if ng_TLS n \<and> se_TlsSecurity se then Some PROTOCOL_TLS
      else if ng_RDP n \<and> se_RdpSecurity se then Some PROTOCOL_RDP else None)"

lemma agreed_config:
  assumes "ng_config m = ng_config n"
  shows "agreed_from s m se = agreed_from s n se"
  using config_fields [OF assms] by (simp add: agreed_from_def)

lemma accepts_select:
  assumes "attempting s"
  shows "accepts n (rdp_server_select se (requested_by s)) \<longleftrightarrow>
     (if s = NEGO_STATE_RDP then ng_RDP n \<and> se_RdpSecurity se
      else if s = NEGO_STATE_TLS then ng_TLS n \<and> se_TlsSecurity se
      else if se_NlaSecurity se then ng_NLA n else ng_TLS n \<and> se_TlsSecurity se)"
    "accepts n (rdp_server_select se (requested_by s)) \<Longrightarrow> rdp_server_select se (requested_by s) =
     (if s = NEGO_STATE_RDP then PROTOCOL_RDP else if s = NEGO_STATE_TLS then PROTOCOL_TLS
      else if se_NlaSecurity se then PROTOCOL_NLA else PROTOCOL_TLS)"
proof -
  note ev = accepts_def rdp_server_select_def protocol_defs PROTOCOL_FAILED_NEGO_def SSL_NOT_ALLOWED_BY_SERVER_def
    HYBRID_REQUIRED_BY_SERVER_def SSL_REQUIRED_BY_SERVER_def
  from assms have s: "s = NEGO_STATE_EXT \<or> s = NEGO_STATE_NLA \<or> s = NEGO_STATE_TLS \<or> s = NEGO_STATE_RDP"
    by (simp add: attempting_def)
  then show "accepts n (rdp_server_select se (requested_by s)) \<longleftrightarrow>
     (if s = NEGO_STATE_RDP then ng_RDP n \<and> se_RdpSecurity se
      else if s = NEGO_STATE_TLS then ng_TLS n \<and> se_TlsSecurity se
      else if se_NlaSecurity se then ng_NLA n else ng_TLS n \<and> se_TlsSecurity se)"
    by (elim disjE; cases "se_NlaSecurity se"; cases "se_TlsSecurity se"; cases "se_RdpSecurity se"; simp add: ev)
  from s show "rdp_server_select se (requested_by s) =
     (if s = NEGO_STATE_RDP then PROTOCOL_RDP else if s = NEGO_STATE_TLS then PROTOCOL_TLS
      else if se_NlaSecurity se then PROTOCOL_NLA else PROTOCOL_TLS)"
    if "accepts n (rdp_server_select se (requested_by s))"
    using that
    by (elim disjE; cases "se_NlaSecurity se"; cases "se_TlsSecurity se"; cases "se_RdpSecurity se"; simp add: ev)
qed

lemma agreed_step:
  assumes "attempting s" "state_enabled n s"
  shows "accepts n (rdp_server_select se (requested_by s)) \<Longrightarrow>
      agreed_from s n se = Some (rdp_server_select se (requested_by s))"
    "\<not> accepts n (rdp_server_select se (requested_by s)) \<Longrightarrow>
      if s = NEGO_STATE_RDP \<or> fallback n s = NEGO_STATE_FAIL then agreed_from s n se = None
      else attempting (fallback n s) \<and> state_enabled n (fallback n s) \<and> strength (fallback n s) < strength s \<and>
        agreed_from (fallback n s) n se = agreed_from s n se"
  using assms accepts_select [OF assms(1), of n se]
  by (cases s; auto simp: attempting_def agreed_from_def split: if_splits)+

lemma loop_meets:
  fixes srv :: "'w rdpNego"
  assumes "ready n" "attempting (ng_state n)" "state_enabled n (ng_state n)" "ng_RequestedProtocols srv = PROTOCOL_RDP"
  shows "\<exists>r m. nego_loop (meet_env (server_answer srv)) n = Some (r, m) \<and> \<not> ng_SecurityConnected m \<and>
     (case agreed_from (ng_state n) n (ng_settings srv) of
        Some p \<Rightarrow> r \<and> ng_SelectedProtocol m = p \<and> ng_TcpConnected m | None \<Rightarrow> \<not> r)"
  using assms(1-3)
proof (induction "strength (ng_state n)" arbitrary: n rule: less_induct)
  case less
  let ?E = "meet_env (server_answer srv)" and ?s = "ng_state n" and ?se = "ng_settings srv"
  let ?sel = "rdp_server_select ?se (requested_by ?s)"
  obtain m where m: "nego_send ?E n = Some m" "ng_config m = ng_config n"
    "if accepts n ?sel then ng_state m = NEGO_STATE_FINAL \<and> ng_SelectedProtocol m = ?sel \<and> ng_TcpConnected m \<and> \<not> ng_SecurityConnected m
     else if ?s = NEGO_STATE_RDP then ng_state m = NEGO_STATE_FAIL \<and> \<not> ng_SecurityConnected m
     else ready m \<and> ng_state m = fallback n ?s"
    using send_meets [OF less.prems(1,2) assms(4)] by blast
  note A = agreed_step [OF less.prems(2,3), of ?se]
  note unfold = nego_loop.simps [of ?E n]
  show ?case
  proof (cases "accepts n ?sel")
    case True
    then show ?thesis using m A(1) by (intro exI [of _ True] exI [of _ m]) (simp add: unfold)
  next
    case no: False
    show ?thesis
    proof (cases "ng_state m = NEGO_STATE_FAIL")
      case True
      then have "agreed_from ?s n ?se = None" "\<not> ng_SecurityConnected m"
        using A(2) [OF no] m(3) no by (auto simp: ready_def split: if_splits)
      then show ?thesis using m(1) True by (intro exI [of _ False]) (simp add: unfold)
    next
      case False
      then have f: "ready m" "ng_state m = fallback n ?s" using m(3) no by (auto split: if_splits)
      have n: "attempting (ng_state m)" "state_enabled m (ng_state m)" "strength (ng_state m) < strength ?s"
        "agreed_from (ng_state m) m ?se = agreed_from ?s n ?se" "ng_state m \<noteq> NEGO_STATE_FINAL"
        using A(2) [OF no] False f m(3) no state_enabled_config [OF m(2)] agreed_config [OF m(2)]
        by (auto simp: attempting_def split: if_splits)
      show ?thesis using less.hyps [OF n(3) f(1) n(1,2)] n(4,5) m(1) False by (simp add: unfold)
    qed
  qed
qed

lemma nego_connect_meets:
  assumes "ready n" "ng_state n = NEGO_STATE_INITIAL" "\<not> ng_SendPreconnectionPdu n" "ng_RequestedProtocols srv = PROTOCOL_RDP"
  shows "\<exists>n'. nego_connect (meet_env (server_answer srv)) n = Some (strongest_common n (ng_settings srv) \<noteq> None, n') \<and>
     (case strongest_common n (ng_settings srv) of
        Some p \<Rightarrow> ng_SelectedProtocol n' = p \<and> ng_SecurityConnected n' | None \<Rightarrow> \<not> ng_SecurityConnected n')"
proof (cases "nego_first_state n = NEGO_STATE_FAIL")
  case True
  then have "strongest_common n (ng_settings srv) = None"
    by (auto simp: nego_first_state_def strongest_common_def split: if_splits)
  then show ?thesis using True assms by (simp add: nego_connect_def nego_start_def ready_def)
next
  case False
  let ?E = "meet_env (server_answer srv)" and ?n = "n\<lparr>ng_state := nego_first_state n\<rparr>"
  have start: "nego_start ?E n = Some (True, ?n)"
    using False assms by (simp add: nego_start_def nego_only_first_def ready_def)
  have r: "ready ?n" using assms(1) cookie_fits_cong [of ?n n] by (simp add: ready_def)
  have a: "attempting (ng_state ?n)" "state_enabled ?n (ng_state ?n)"
    "agreed_from (ng_state ?n) ?n se = strongest_common n se" for se
    using False by (auto simp: nego_first_state_def attempting_def strongest_common_def agreed_from_def split: if_splits)
  obtain b m where L: "nego_loop ?E ?n = Some (b, m)" "\<not> ng_SecurityConnected m"
    "case strongest_common n (ng_settings srv) of Some p \<Rightarrow> b \<and> ng_SelectedProtocol m = p \<and> ng_TcpConnected m | None \<Rightarrow> \<not> b"
    using loop_meets [OF r a(1,2) assms(4)] unfolding a(3) by blast
  show ?thesis
  proof (cases "strongest_common n (ng_settings srv)")
    case None
    then show ?thesis using start L by (simp add: nego_connect_def)
  next
    case (Some p)
    then have "p = PROTOCOL_NLA \<or> p = PROTOCOL_TLS \<or> p = PROTOCOL_RDP"
      by (auto simp: strongest_common_def split: if_splits)
    then have "\<exists>n'. nego_finish ?E m = Some (True, n') \<and> ng_SelectedProtocol n' = p \<and> ng_SecurityConnected n'"
      using L(2,3) Some
      by (auto simp: nego_finish_def log_protocol_def c_assert_def meet_env_def nego_security_connect_def transport_connect_rdp_def
          protocol_defs Let_def)
    then show ?thesis using start L Some by (auto simp: nego_connect_def)
  qed
qed

section \<open>Properties\<close>

text \<open>
  C6: the negotiation finds the strongest protocol that both sides have enabled. A client that
  negotiates with the server over a connection that works ends its attempts, and connects the
  security layer with NLA if both have it, otherwise with TLS if both have it, otherwise with RDP
  security; when they have nothing in common, \<^verbatim>\<open>nego_connect\<close> returns \<^verbatim>\<open>FALSE\<close> and nothing is connected.
\<close>

theorem nego_finds_strongest:
  assumes "ready n" "ng_state n = NEGO_STATE_INITIAL" "\<not> ng_SendPreconnectionPdu n" "ng_RequestedProtocols srv = PROTOCOL_RDP"
  shows "\<exists>n'. nego_connect (meet_env (server_answer srv)) n = Some (strongest_common n (ng_settings srv) \<noteq> None, n') \<and>
     (case strongest_common n (ng_settings srv) of
        Some p \<Rightarrow> ng_SelectedProtocol n' = p \<and> ng_SecurityConnected n' | None \<Rightarrow> \<not> ng_SecurityConnected n')"
  using assms by (rule nego_connect_meets)

text \<open>A client with all three protocols, and a server that has TLS and RDP security.\<close>

definition meet_client :: "peer_world rdpNego" where
  "meet_client = (the (nego_new True settings_sample \<lparr>tr_layer = TRANSPORT_LAYER_TCP, tr_frontBio = False, tr_NlaMode = False,
       tr_blocking = True, tr_GatewayEnabled = False, tr_WaitForOutputBufferFlush = False, tr_WriteLock = 0, tr_written = 0,
       tr_world = \<lparr>pw_in = [], pw_out = []\<rparr>\<rparr>))
     \<lparr>ng_NegotiateSecurityLayer := True, ng_RDP := True, ng_TLS := True, ng_NLA := True, ng_cookie := Some [0x62, 0x6F, 0x62]\<rparr>"

definition meet_server :: "peer_world rdpNego" where
  "meet_server = meet_client\<lparr>ng_settings := settings_sample\<lparr>se_NlaSecurity := False\<rparr>\<rparr>"

lemma meet_client_fields:
  "ng_state meet_client = NEGO_STATE_INITIAL" "ng_SendPreconnectionPdu meet_client = False"
  "ng_NLA meet_client" "ng_TLS meet_client" "ng_RDP meet_client" "ng_NegotiateSecurityLayer meet_client"
  "ng_SecurityConnected meet_client = False" "ng_RequestedProtocols meet_client = PROTOCOL_RDP"
  by (simp_all add: meet_client_def nego_new_def nego_init_def)

lemma meet_client_ready: "ready meet_client"
  by (simp add: ready_def cookie_fits_def meet_client_def nego_new_def nego_init_def)

lemma meet_server_fields: "ng_RequestedProtocols meet_server = PROTOCOL_RDP"
  "ng_settings meet_server = settings_sample\<lparr>se_NlaSecurity := False\<rparr>"
  by (simp_all add: meet_server_def meet_client_fields)

theorem nego_finds_strongest_witness:
  "\<exists>n'. nego_connect (meet_env (server_answer meet_server)) meet_client =
       Some (strongest_common meet_client (ng_settings meet_server) \<noteq> None, n') \<and>
     (case strongest_common meet_client (ng_settings meet_server) of
        Some p \<Rightarrow> ng_SelectedProtocol n' = p \<and> ng_SecurityConnected n' | None \<Rightarrow> \<not> ng_SecurityConnected n')"
  by (rule nego_finds_strongest) (simp_all add: meet_client_fields meet_server_fields meet_client_ready)

text \<open>
  C11: no downgrade. When the client negotiates and \<^verbatim>\<open>nego_connect\<close> succeeds, the security layer is
  connected with NLA, TLS or RDP security; RDP security only if the client enabled it, and with
  RDP security disabled only a protocol that the client enabled. This holds for every server,
  every network and every outcome of the handshakes.
\<close>

theorem nego_no_downgrade:
  assumes "nego_connect E n = Some (True, n')" "ng_state n = NEGO_STATE_INITIAL"
    and "ng_NegotiateSecurityLayer n" "\<not> ng_SecurityConnected n"
  shows "ng_TcpConnected n' \<and> ng_SecurityConnected n' \<and>
     (ng_SelectedProtocol n' = PROTOCOL_RDP \<and> ng_RDP n \<or>
      ng_SelectedProtocol n' = PROTOCOL_TLS \<and> (ng_TLS n \<or> ng_RDP n) \<or>
      ng_SelectedProtocol n' = PROTOCOL_NLA \<and> (ng_NLA n \<or> ng_RDP n))"
  using assms by (rule nego_connect_selected)

theorem nego_no_downgrade_witness:
  "\<exists>n'. nego_connect (meet_env (server_answer meet_server)) meet_client = Some (True, n') \<and>
     ng_TcpConnected n' \<and> ng_SecurityConnected n' \<and>
     (ng_SelectedProtocol n' = PROTOCOL_RDP \<and> ng_RDP meet_client \<or>
      ng_SelectedProtocol n' = PROTOCOL_TLS \<and> (ng_TLS meet_client \<or> ng_RDP meet_client) \<or>
      ng_SelectedProtocol n' = PROTOCOL_NLA \<and> (ng_NLA meet_client \<or> ng_RDP meet_client))"
proof -
  have "strongest_common meet_client (ng_settings meet_server) = Some PROTOCOL_TLS"
    by (simp add: strongest_common_def meet_client_fields meet_server_fields settings_sample_def)
  then obtain n' where n': "nego_connect (meet_env (server_answer meet_server)) meet_client = Some (True, n')"
    using nego_connect_meets [OF meet_client_ready, of meet_server] by (auto simp: meet_client_fields meet_server_fields)
  show ?thesis
    using nego_no_downgrade [OF n' meet_client_fields(1,6)] n' meet_client_fields(7) by auto
qed

end
