(* ===== verification/Base64.thy ===== *)
theory Base64
  imports Prelude "HOL-Library.Signed_Division"
begin

unbundle bit_operations_syntax

text \<open>
  Base64 (\<^verbatim>\<open>libfreerdp/crypto/base64.c\<close>). Characters are bytes, and the blocks are lists with every
  access checked. The result \<open>None\<close> is undefined behaviour; the inner \<open>None\<close> is a null pointer.
\<close>

section \<open>Encoding\<close>

definition base64 :: "byte list" where
  "base64 = map of_nat ([65..<91] @ [97..<123] @ [48..<58] @ [43, 47])"

text \<open>\<^verbatim>\<open>*p++ = base64[i]\<close>, or another character: \<open>p\<close> is the offset in the block.\<close>

definition b64_out :: "byte list \<Rightarrow> byte list \<times> nat \<Rightarrow> (byte list \<times> nat) option" where
  "b64_out cs = (\<lambda>(buf, p). do { buf \<leftarrow> mem_write buf p cs; Some (buf, p + length cs) })"

definition b64_sym :: "int \<Rightarrow> byte option" where
  "b64_sym i = arr_get base64 (nat i)"

definition b64_c1 :: "int \<Rightarrow> byte option" where "b64_c1 c = b64_sym (drop_bit 18 (c AND 0x00FC0000))"
definition b64_c2 :: "int \<Rightarrow> byte option" where "b64_c2 c = b64_sym (drop_bit 12 (c AND 0x0003F000))"
definition b64_c3 :: "int \<Rightarrow> byte option" where "b64_c3 c = b64_sym (drop_bit 6 (c AND 0x00000FC0))"
definition b64_c4 :: "int \<Rightarrow> byte option" where "b64_c4 c = b64_sym (c AND 0x0000003F)"

text \<open>The loop over the complete blocks; \<open>q\<close> moves together with \<open>i\<close>.\<close>

function b64_encode_blocks :: "byte list \<Rightarrow> int \<Rightarrow> int \<Rightarrow> byte list \<times> nat \<Rightarrow> (byte list \<times> nat) option" where
  "b64_encode_blocks data blocks i st =
     (if i < blocks then do {
        q0 \<leftarrow> arr_get data (nat i);
        q1 \<leftarrow> arr_get data (nat i + 1);
        q2 \<leftarrow> arr_get data (nat i + 2);
        let c = push_bit 16 (uint q0) + push_bit 8 (uint q1) + uint q2;
        c1 \<leftarrow> b64_c1 c; c2 \<leftarrow> b64_c2 c; c3 \<leftarrow> b64_c3 c; c4 \<leftarrow> b64_c4 c;
        st \<leftarrow> b64_out [c1, c2, c3, c4] st;
        b64_encode_blocks data blocks (i + 3) st }
      else Some st)"
  by pat_completeness auto
termination by (relation "measure (\<lambda>(data, blocks, i, st). nat (blocks - i))") auto

declare b64_encode_blocks.simps [simp del]

definition b64_encode_rest :: "byte list \<Rightarrow> int \<Rightarrow> nat \<Rightarrow> byte list \<times> nat \<Rightarrow> (byte list \<times> nat) option" where
  "b64_encode_rest data r q st =
     (if r = 1 then do {
        q0 \<leftarrow> arr_get data q;
        let c = push_bit 16 (uint q0);
        c1 \<leftarrow> b64_c1 c; c2 \<leftarrow> b64_c2 c;
        b64_out [c1, c2, 0x3D, 0x3D] st }
      else if r = 2 then do {
        q0 \<leftarrow> arr_get data q;
        q1 \<leftarrow> arr_get data (q + 1);
        let c = push_bit 16 (uint q0) + push_bit 8 (uint q1);
        c1 \<leftarrow> b64_c1 c; c2 \<leftarrow> b64_c2 c; c3 \<leftarrow> b64_c3 c;
        b64_out [c1, c2, c3, 0x3D] st }
      else Some st)"

definition crypto_base64_encode :: "byte allocator \<Rightarrow> byte list \<Rightarrow> int \<Rightarrow> byte list option option" where
  "crypto_base64_encode A data len = do {
     a \<leftarrow> int_ck (len + 3);
     a \<leftarrow> int_ck (a * 4);
     (case mem_alloc A (to_size (a sdiv 3 + 1)) of
        None \<Rightarrow> Some None
      | Some buf \<Rightarrow> do {
          let blocks = len - len smod 3;
          st \<leftarrow> b64_encode_blocks data blocks 0 (buf, 0);
          (buf, p) \<leftarrow> b64_encode_rest data (len smod 3) (nat blocks) st;
          buf \<leftarrow> arr_set buf p 0;
          Some (Some buf) }) }"

section \<open>Decoding\<close>

definition base64_decode_char :: "byte \<Rightarrow> int" where
  "base64_decode_char c =
     (if 0x41 \<le> c \<and> c \<le> 0x5A then uint c - 0x41
      else if 0x61 \<le> c \<and> c \<le> 0x7A then uint c - 0x61 + 26
      else if 0x30 \<le> c \<and> c \<le> 0x39 then uint c - 0x30 + 52
      else if c = 0x2B then 62
      else if c = 0x2F then 63
      else if c = 0x3D then -1
      else -1)"

definition b64_char_at :: "byte list \<Rightarrow> nat \<Rightarrow> int option" where
  "b64_char_at s k = map_option base64_decode_char (arr_get s k)"

definition b64_q0 :: "int \<Rightarrow> int \<Rightarrow> byte" where "b64_q0 n0 n1 = word_of_int (push_bit 2 n0 + drop_bit 4 n1)"
definition b64_q1 :: "int \<Rightarrow> int \<Rightarrow> byte" where "b64_q1 n1 n2 = word_of_int (push_bit 4 (n1 AND 15) + drop_bit 2 n2)"
definition b64_q2 :: "int \<Rightarrow> int \<Rightarrow> byte" where "b64_q2 n2 n3 = word_of_int (push_bit 6 (n2 AND 3) + n3)"

text \<open>
  The loop over all blocks but the last: the flag is \<^verbatim>\<open>FALSE\<close> when it jumps to \<^verbatim>\<open>out_free\<close>. The
  pointers \<^verbatim>\<open>s\<close> and \<^verbatim>\<open>q\<close> are at \<open>4 * i\<close> and \<open>3 * i\<close>, and \<^verbatim>\<open>outputLen\<close> is \<open>3 * i\<close>.
\<close>

function b64_decode_blocks :: "byte list \<Rightarrow> nat \<Rightarrow> nat \<Rightarrow> byte list \<Rightarrow> (bool \<times> byte list) option" where
  "b64_decode_blocks s m i buf =
     (if i < m then do {
        n0 \<leftarrow> b64_char_at s (4 * i);
        n1 \<leftarrow> b64_char_at s (4 * i + 1);
        n2 \<leftarrow> b64_char_at s (4 * i + 2);
        n3 \<leftarrow> b64_char_at s (4 * i + 3);
        if n0 = -1 \<or> n1 = -1 \<or> n2 = -1 \<or> n3 = -1 then Some (False, buf)
        else do {
          buf \<leftarrow> arr_set buf (3 * i) (b64_q0 n0 n1);
          buf \<leftarrow> arr_set buf (3 * i + 1) (b64_q1 n1 n2);
          buf \<leftarrow> arr_set buf (3 * i + 2) (b64_q2 n2 n3);
          b64_decode_blocks s m (i + 1) buf } }
      else Some (True, buf))"
  by pat_completeness auto
termination by (relation "measure (\<lambda>(s, m, i, buf). m - i)") auto

declare b64_decode_blocks.simps [simp del]

text \<open>The last block: the number of bytes it holds and the block of the result.\<close>

definition b64_decode_last :: "byte list \<Rightarrow> nat \<Rightarrow> byte list \<Rightarrow> (byte list \<times> nat) option option" where
  "b64_decode_last s m buf = do {
     n0 \<leftarrow> b64_char_at s (4 * m);
     n1 \<leftarrow> b64_char_at s (4 * m + 1);
     if n0 = -1 \<or> n1 = -1 then Some None
     else do {
       n2 \<leftarrow> b64_char_at s (4 * m + 2);
       n3 \<leftarrow> b64_char_at s (4 * m + 3);
       buf \<leftarrow> arr_set buf (3 * m) (b64_q0 n0 n1);
       if n2 = -1 then
         if n3 \<noteq> -1 then Some None
         else do {
           buf \<leftarrow> arr_set buf (3 * m + 1) (word_of_int (push_bit 4 (n1 AND 15)));
           Some (Some (buf, 1)) }
       else if n3 = -1 then do {
         buf \<leftarrow> arr_set buf (3 * m + 1) (b64_q1 n1 n2);
         buf \<leftarrow> arr_set buf (3 * m + 2) (word_of_int (push_bit 6 (n2 AND 3)));
         Some (Some (buf, 2)) }
       else do {
         buf \<leftarrow> arr_set buf (3 * m) (b64_q0 n0 n1);
         buf \<leftarrow> arr_set buf (3 * m + 1) (b64_q1 n1 n2);
         buf \<leftarrow> arr_set buf (3 * m + 2) (b64_q2 n2 n3);
         Some (Some (buf, 3)) } } }"

text \<open>The result is the block and \<^verbatim>\<open>*data_len\<close>, or a null pointer.\<close>

definition base64_decode :: "byte allocator \<Rightarrow> byte list \<Rightarrow> int \<Rightarrow> (byte list \<times> int) option option" where
  "base64_decode A s len =
     (if len smod 4 \<noteq> 0 then Some None
      else (case mem_alloc A (to_size (len sdiv 4 * 3 + 1)) of
          None \<Rightarrow> Some None
        | Some buf \<Rightarrow> do {
            let m = nat (len sdiv 4 - 1);
            (ok, buf) \<leftarrow> b64_decode_blocks s m 0 buf;
            if \<not> ok then Some None
            else do {
              r \<leftarrow> b64_decode_last s m buf;
              (case r of
                 None \<Rightarrow> Some None
               | Some (buf, k) \<Rightarrow> do {
                   buf \<leftarrow> arr_set buf (3 * m + k) 0;
                   Some (Some (buf, int (3 * m + k))) }) } }))"

definition crypto_base64_decode :: "byte allocator \<Rightarrow> byte list \<Rightarrow> int \<Rightarrow> (byte list \<times> int) option option" where
  "crypto_base64_decode A enc_data len = base64_decode A enc_data len"

section \<open>The encoding as a function on lists\<close>

definition b64_i1 :: "byte \<Rightarrow> nat" where "b64_i1 a = unat a div 4"
definition b64_i2 :: "byte \<Rightarrow> byte \<Rightarrow> nat" where "b64_i2 a b = unat a mod 4 * 16 + unat b div 16"
definition b64_i3 :: "byte \<Rightarrow> byte \<Rightarrow> nat" where "b64_i3 b c = unat b mod 16 * 4 + unat c div 64"
definition b64_i4 :: "byte \<Rightarrow> nat" where "b64_i4 c = unat c mod 64"

lemmas b64_idx = b64_i1_def b64_i2_def b64_i3_def b64_i4_def

fun b64_enc :: "byte list \<Rightarrow> byte list" where
  "b64_enc (a # b # c # ds) = [base64 ! b64_i1 a, base64 ! b64_i2 a b, base64 ! b64_i3 b c, base64 ! b64_i4 c] @ b64_enc ds"
| "b64_enc [a, b] = [base64 ! b64_i1 a, base64 ! b64_i2 a b, base64 ! b64_i3 b 0, 0x3D]"
| "b64_enc [a] = [base64 ! b64_i1 a, base64 ! b64_i2 a 0, 0x3D, 0x3D]"
| "b64_enc [] = []"

lemma unat_byte: "unat (a :: byte) < 256"
  using unsigned_less [of a, where ?'a = nat] by simp

lemma b64_idx_less: "b64_i1 a < 64" "b64_i2 a b < 64" "b64_i3 b c < 64" "b64_i4 c < 64"
  using unat_byte [of a] unat_byte [of b] unat_byte [of c] by (simp_all add: b64_idx)

lemma length_base64 [simp]: "length base64 = 64"
  by (simp add: base64_def)

lemma b64_enc_append: "length xs mod 3 = 0 \<Longrightarrow> b64_enc (xs @ ys) = b64_enc xs @ b64_enc ys"
  by (induction xs rule: b64_enc.induct) auto

lemma length_b64_enc: "length (b64_enc ds) = (length ds + 2) div 3 * 4"
proof (induction ds rule: b64_enc.induct)
  case (1 a b c ds)
  have "(length ds + 5) div 3 = (length ds + 2) div 3 + 1" by presburger
  then show ?case using 1 by (simp add: add.commute)
qed simp_all

lemma length_b64_enc_blocks: "length xs = 3 * k \<Longrightarrow> length (b64_enc xs) = 4 * k"
  by (simp add: length_b64_enc)

text \<open>The masks and shifts select the four digits in base 64.\<close>

lemma b64_digits:
  assumes "0 \<le> c"
  shows "nat (drop_bit 18 (c AND 0x00FC0000)) = nat c div 262144 mod 64"
    "nat (drop_bit 12 (c AND 0x0003F000)) = nat c div 4096 mod 64"
    "nat (drop_bit 6 (c AND 0x00000FC0)) = nat c div 64 mod 64"
    "nat (c AND 0x0000003F) = nat c mod 64"
proof -
  have m: "drop_bit 18 (0x00FC0000 :: int) = mask 6" "drop_bit 12 (0x0003F000 :: int) = mask 6"
    "drop_bit 6 (0x00000FC0 :: int) = mask 6" "(0x0000003F :: int) = mask 6"
    by (simp_all add: drop_bit_eq_div mask_eq_exp_minus_1)
  show "nat (drop_bit 18 (c AND 0x00FC0000)) = nat c div 262144 mod 64"
    "nat (drop_bit 12 (c AND 0x0003F000)) = nat c div 4096 mod 64"
    "nat (drop_bit 6 (c AND 0x00000FC0)) = nat c div 64 mod 64"
    "nat (c AND 0x0000003F) = nat c mod 64"
    unfolding drop_bit_and m
    using assms by (simp_all add: m(4) drop_bit_eq_div take_bit_eq_mod nat_mod_distrib nat_div_distrib pos_imp_zdiv_nonneg_iff
        flip: take_bit_eq_mask)
qed

lemma b64_chars:
  fixes a b c :: byte
  defines "n \<equiv> push_bit 16 (uint a) + push_bit 8 (uint b) + uint c"
  shows "b64_c1 n = Some (base64 ! b64_i1 a)" "b64_c2 n = Some (base64 ! b64_i2 a b)"
    "b64_c3 n = Some (base64 ! b64_i3 b c)" "b64_c4 n = Some (base64 ! b64_i4 c)"
proof -
  define x y z where "x = unat a" "y = unat b" "z = unat c"
  have l: "x < 256" "y < 256" "z < 256" by (simp_all add: x_y_z_def unat_byte)
  have n: "0 \<le> n" "nat n = x * 65536 + y * 256 + z"
    by (simp_all add: n_def x_y_z_def push_bit_eq_mult nat_add_distrib nat_mult_distrib)
  have d: "nat n div 262144 = x div 4" "nat n div 4096 = x * 16 + y div 16" "nat n div 64 = (x * 16) * 64 + (y * 4 + z div 64)"
  proof -
    have "nat n = (y * 256 + z) + x * 65536" "nat n = z + (x * 256 + y) * 256" "nat n = z + (x * 1024 + y * 4) * 64"
      using n(2) by simp_all
    then have h: "nat n div 65536 = x + (y * 256 + z) div 65536" "nat n div 256 = x * 256 + y + z div 256"
      "nat n div 64 = x * 1024 + y * 4 + z div 64"
      by (metis div_mult_self1 zero_neq_numeral)+
    then show "nat n div 64 = (x * 16) * 64 + (y * 4 + z div 64)" by simp
    have "(y * 256 + z) div 65536 = 0" "z div 256 = 0" using l by simp_all
    moreover have "nat n div (65536 * 4) = nat n div 65536 div 4" "nat n div (256 * 16) = nat n div 256 div 16"
      by (rule div_mult2_eq)+
    moreover have "(x * 256 + y) div 16 = x * 16 + y div 16"
      using div_mult_self1 [of 16 y "x * 16"] by (simp add: add.commute)
    ultimately show "nat n div 262144 = x div 4" "nat n div 4096 = x * 16 + y div 16" using h(1,2) by simp_all
  qed
  have w: "y div 16 < 16" "z div 64 < 4" "x div 4 < 64" using l by simp_all
  have g: "(k * m + v) mod (j * m) = k mod j * m + v" if "v < m" "0 < j" for k m v j :: nat
  proof -
    have "k * m + v = k mod j * m + v + k div j * (j * m)"
      using div_mult_mod_eq [of k j] by (metis add.commute add.left_commute mult.assoc distrib_right)
    moreover have "k mod j * m + v < j * m"
    proof -
      have "Suc (k mod j) * m \<le> j * m" using that(2) by (intro mult_le_mono1) (simp add: Suc_le_eq)
      then show ?thesis using that(1) by simp
    qed
    ultimately show ?thesis by (metis mod_less mod_mult_self1)
  qed
  note e = g [of _ 16 4 x, simplified] and f = g [of _ 4 16 y, simplified]
  have k: "(x * 16 * 64 + v) mod 64 = v mod 64" for v by (rule mod_mult_self3)
  have "nat n div 262144 mod 64 = x div 4" "nat n div 4096 mod 64 = x mod 4 * 16 + y div 16"
    "nat n div 64 mod 64 = y mod 16 * 4 + z div 64"
    unfolding d k using w e f by simp_all
  moreover have "nat n mod 64 = z mod 64"
  proof -
    have "nat n = z + (x * 1024 + y * 4) * 64" using n(2) by simp
    then show ?thesis by (simp only: mod_mult_self1)
  qed
  ultimately have i: "nat n div 262144 mod 64 = b64_i1 a" "nat n div 4096 mod 64 = b64_i2 a b"
    "nat n div 64 mod 64 = b64_i3 b c" "nat n mod 64 = b64_i4 c"
    unfolding b64_idx x_y_z_def by auto
  show "b64_c1 n = Some (base64 ! b64_i1 a)" "b64_c2 n = Some (base64 ! b64_i2 a b)"
    "b64_c3 n = Some (base64 ! b64_i3 b c)" "b64_c4 n = Some (base64 ! b64_i4 c)"
    unfolding b64_c1_def b64_c2_def b64_c3_def b64_c4_def b64_sym_def b64_digits [OF n(1)] i
    by (rule arr_get_in, simp add: b64_idx_less)+
qed

lemma b64_chars_1: "b64_c1 (push_bit 16 (uint a)) = Some (base64 ! b64_i1 a)"
    "b64_c2 (push_bit 16 (uint a)) = Some (base64 ! b64_i2 a 0)"
  using b64_chars [of a 0 0] by simp_all

lemma b64_chars_2: "b64_c1 (push_bit 16 (uint a) + push_bit 8 (uint b)) = Some (base64 ! b64_i1 a)"
    "b64_c2 (push_bit 16 (uint a) + push_bit 8 (uint b)) = Some (base64 ! b64_i2 a b)"
    "b64_c3 (push_bit 16 (uint a) + push_bit 8 (uint b)) = Some (base64 ! b64_i3 b 0)"
  using b64_chars [of a b 0] by simp_all

lemma b64_out_front:
  assumes "length cs \<le> length us"
  shows "b64_out cs (ds @ us, length ds) = Some (ds @ cs @ drop (length cs) us, length (ds @ cs))"
  using assms by (simp add: b64_out_def mem_write_in)

text \<open>The loop appends the encoding of the complete blocks, as long as there is room.\<close>

lemma encode_blocks_ok:
  assumes "length (b64_enc xs) \<le> length us" "length ds = 3 * k" "length xs = 3 * j"
  shows "b64_encode_blocks (ds @ xs @ zs) (int (length (ds @ xs))) (int (length ds)) (es @ us, length es) =
     Some ((es @ b64_enc xs) @ drop (length (b64_enc xs)) us, length (es @ b64_enc xs))"
  using assms
proof (induction j arbitrary: ds xs es us k)
  case 0
  then show ?case by (simp add: b64_encode_blocks.simps)
next
  case (Suc j)
  then obtain a b c ys where xs: "xs = a # b # c # ys" by (cases xs rule: b64_enc.cases) auto
  let ?cs = "[base64 ! b64_i1 a, base64 ! b64_i2 a b, base64 ! b64_i3 b c, base64 ! b64_i4 c]"
  let ?n = "length ds"
  have g: "arr_get (ds @ xs @ zs) (nat (int ?n)) = Some a" "arr_get (ds @ xs @ zs) (nat (int ?n) + 1) = Some b"
    "arr_get (ds @ xs @ zs) (nat (int ?n) + 2) = Some c"
    by (simp_all add: xs arr_get_def nth_append)
  have o: "b64_out ?cs (es @ us, length es) = Some ((es @ ?cs) @ drop 4 us, length (es @ ?cs))"
    using b64_out_front [of ?cs us es] Suc.prems(1) by (simp add: xs numeral_eq_Suc)
  have IH: "b64_encode_blocks ((ds @ [a, b, c]) @ ys @ zs) (int (length ((ds @ [a, b, c]) @ ys))) (int (length (ds @ [a, b, c])))
       ((es @ ?cs) @ drop 4 us, length (es @ ?cs)) =
     Some (((es @ ?cs) @ b64_enc ys) @ drop (length (b64_enc ys)) (drop 4 us), length ((es @ ?cs) @ b64_enc ys))"
    by (rule Suc.IH [of _ _ _ "k + 1"]) (use Suc.prems xs in auto)
  have "b64_encode_blocks (ds @ xs @ zs) (int (length (ds @ xs))) (int ?n) (es @ us, length es) =
      b64_encode_blocks (ds @ xs @ zs) (int (length (ds @ xs))) (int ?n + 3) ((es @ ?cs) @ drop 4 us, length (es @ ?cs))"
    unfolding b64_encode_blocks.simps [of _ _ "int ?n"] g Let_def
    using o by (simp add: xs b64_chars)
  also have "\<dots> = b64_encode_blocks ((ds @ [a, b, c]) @ ys @ zs) (int (length ((ds @ [a, b, c]) @ ys)))
      (int (length (ds @ [a, b, c]))) ((es @ ?cs) @ drop 4 us, length (es @ ?cs))"
    by (simp add: xs add.commute)
  finally show ?case unfolding IH by (simp add: xs numeral_eq_Suc)
qed

lemma smod_nat: "int n smod int m = int (n mod m)" "int n sdiv int m = int (n div m)"
  by (simp_all add: signed_divide_int_def signed_modulo_int_def sgn_if zmod_int zdiv_int)

text \<open>The whole encoder: the encoding, the terminating zero, and bytes that were not written.\<close>

lemma crypto_base64_encode_ok:
  assumes "length data < 2 ^ 29 - 3"
  shows "crypto_base64_encode A data (int (length data)) =
      (if al_ok A ((length data + 3) * 4 div 3 + 1)
       then Some (Some (b64_enc data @ [0] @ map (al_fill A) [length (b64_enc data) + 1..<(length data + 3) * 4 div 3 + 1]))
       else Some None)"
proof -
  define n m where "n = length data" "m = (n + 3) * 4 div 3 + 1"
  define xs zs where "xs = take (n - n mod 3) data" and "zs = drop (n - n mod 3) data"
  have d: "data = xs @ zs" "length xs = n - n mod 3" "length zs = n mod 3" by (simp_all add: xs_def zs_def n_m_def)
  have x3: "length xs = 3 * (n div 3)" using d(2) by (simp add: minus_mod_eq_mult_div)
  have i: "int_ck (int n + 3) = Some (int n + 3)" "int_ck ((int n + 3) * 4) = Some ((int n + 3) * 4)"
    using assms by (simp_all add: int_ck_def INT_LIM_def n_m_def)
  have sm: "int n smod 3 = int (n mod 3)" "(int n + 3) * 4 sdiv 3 + 1 = int m" "int n - int (n mod 3) = int (length xs)"
    using smod_nat(1) [of n 3] smod_nat(2) [of "(n + 3) * 4" 3] d(2) by (simp_all add: n_m_def of_nat_diff)
  have m: "m < BLOCK_MAX" "to_size (int m) = m"
    using assms by (simp_all add: n_m_def BLOCK_MAX_def to_size_def SIZE_MOD_def)
  have le: "length (b64_enc data) < m" by (simp add: length_b64_enc n_m_def)
  have e: "b64_enc data = b64_enc xs @ b64_enc zs" unfolding d(1) by (rule b64_enc_append) (simp add: x3)
  define us where "us = map (al_fill A) [0..<m]"
  have B: "b64_encode_blocks data (int (length xs)) 0 (us, 0) =
      Some (b64_enc xs @ drop (length (b64_enc xs)) us, length (b64_enc xs))"
    using encode_blocks_ok [of xs us "[]" 0 "n div 3" zs "[]"] x3 le e by (simp add: d(1) [symmetric] us_def)
  have R: "b64_encode_rest data (int (n mod 3)) (length xs) (b64_enc xs @ drop (length (b64_enc xs)) us, length (b64_enc xs)) =
      Some (b64_enc data @ drop (length (b64_enc data)) us, length (b64_enc data))"
  proof -
    have fit: "length (b64_enc zs) \<le> length (drop (length (b64_enc xs)) us)" using le e by (simp add: us_def)
    note out = b64_out_front [OF fit, of "b64_enc xs"]
    consider "zs = []" | a where "zs = [a]" | a b where "zs = [a, b]"
      using d(3) by (cases zs rule: b64_enc.cases) (auto simp: not_less [symmetric])
    then have "b64_encode_rest (xs @ zs) (int (length zs)) (length xs)
        (b64_enc xs @ drop (length (b64_enc xs)) us, length (b64_enc xs)) =
      Some (b64_enc xs @ b64_enc zs @ drop (length (b64_enc zs)) (drop (length (b64_enc xs)) us), length (b64_enc xs @ b64_enc zs))"
      using out by cases (simp_all add: b64_encode_rest_def b64_chars_1 b64_chars_2 arr_get_def nth_append Let_def)
    then show ?thesis unfolding e d(3) d(1) [symmetric] by (simp add: add.commute)
  qed
  have "arr_set (b64_enc data @ drop (length (b64_enc data)) us) (length (b64_enc data)) 0 =
      Some (b64_enc data @ [0] @ map (al_fill A) [length (b64_enc data) + 1..<m])"
    using le by (simp add: arr_set_def us_def list_update_append drop_map)
      (metis (no_types, lifting) One_nat_def list_update_code(2) list.simps(9) upt_conv_Cons)
  then have "crypto_base64_encode A data (int n) =
      (if al_ok A m then Some (Some (b64_enc data @ [0] @ map (al_fill A) [length (b64_enc data) + 1..<m])) else Some None)"
    using i sm m B R by (simp add: crypto_base64_encode_def mem_alloc_def us_def [symmetric] del: append.simps)
  then show ?thesis unfolding n_m_def .
qed

section \<open>The encoding as a stream of bits\<close>

text \<open>
  The definition of the standard: the bits of the bytes, the highest first, are cut into groups of
  six, the last one filled up with zeros; every group is the number of a character; and \<^verbatim>\<open>=\<close> fills the
  last quadruple.
\<close>

definition byte_bits :: "byte \<Rightarrow> bool list" where
  "byte_bits b = map (bit b) (rev [0..<8])"

definition bits_val :: "bool list \<Rightarrow> nat" where
  "bits_val bs = horner_sum of_bool 2 (rev bs)"

function sextets :: "bool list \<Rightarrow> bool list list" where
  "sextets bs = (if bs = [] then [] else take 6 (bs @ replicate 5 False) # sextets (drop 6 bs))"
  by pat_completeness auto
termination by (relation "measure length") auto

declare sextets.simps [simp del]

definition b64_spec :: "byte list \<Rightarrow> byte list" where
  "b64_spec ds = map (\<lambda>g. base64 ! bits_val g) (sextets (concat (map byte_bits ds))) @ replicate ((3 - length ds mod 3) mod 3) 0x3D"

lemma bits_val_append: "bits_val (xs @ ys) = bits_val xs * 2 ^ length ys + bits_val ys"
  by (simp add: bits_val_def horner_sum_append algebra_simps)

lemma bits_val_less: "bits_val bs < 2 ^ length bs"
proof (induction bs rule: rev_induct)
  case (snoc b bs)
  have "bits_val [b] < 2" by (simp add: bits_val_def)
  then show ?case using snoc by (simp add: bits_val_append)
qed (simp add: bits_val_def)

lemma bits_val_take_drop:
  assumes "bits_val bs = v" "length bs = n" "k \<le> n"
  shows "bits_val (take k bs) = v div 2 ^ (n - k)" "bits_val (drop k bs) = v mod 2 ^ (n - k)"
proof -
  have "v = bits_val (take k bs) * 2 ^ (n - k) + bits_val (drop k bs)"
    using bits_val_append [of "take k bs" "drop k bs"] assms by simp
  moreover have "bits_val (drop k bs) < 2 ^ (n - k)" using bits_val_less [of "drop k bs"] assms(2) by simp
  ultimately show "bits_val (take k bs) = v div 2 ^ (n - k)" "bits_val (drop k bs) = v mod 2 ^ (n - k)"
    by simp_all
qed

lemma length_byte_bits [simp]: "length (byte_bits b) = 8"
  by (simp add: byte_bits_def)

lemma bits_val_byte: "bits_val (byte_bits b) = unat b"
proof -
  have "bits_val (byte_bits b) = horner_sum of_bool 2 (map (bit (unat b)) [0..<8])"
    by (simp add: bits_val_def byte_bits_def rev_map [symmetric] bit_simps cong: map_cong)
  also have "\<dots> = take_bit 8 (unat b)" by (rule horner_sum_bit_eq_take_bit)
  finally show ?thesis using unat_byte [of b] by (simp add: take_bit_eq_mod)
qed

lemma sextets_6: "length g = 6 \<Longrightarrow> sextets (g @ bs) = g # sextets bs"
  by (subst sextets.simps) auto

lemma bits_val_zeros: "bits_val (replicate n False) = 0"
  by (induction n) (simp_all add: bits_val_def horner_sum_append)

text \<open>The six-bit groups of one, two and three bytes have the numbers that the code computes.\<close>

lemma sextet_vals:
  "bits_val (take 6 (byte_bits a)) = b64_i1 a"
  "bits_val (drop 6 (byte_bits a) @ take 4 (byte_bits b)) = b64_i2 a b"
  "bits_val (drop 4 (byte_bits b) @ take 2 (byte_bits c)) = b64_i3 b c"
  "bits_val (drop 2 (byte_bits c)) = b64_i4 c"
  "bits_val (drop 6 (byte_bits a) @ replicate 4 False) = b64_i2 a 0"
  "bits_val (drop 4 (byte_bits b) @ replicate 2 False) = b64_i3 b 0"
  using bits_val_take_drop [OF bits_val_byte length_byte_bits]
  by (simp_all add: bits_val_append bits_val_zeros b64_idx del: replicate.simps)

lemma sextets_3:
  "sextets (byte_bits a @ byte_bits b @ byte_bits c @ bs) =
   [take 6 (byte_bits a), drop 6 (byte_bits a) @ take 4 (byte_bits b), drop 4 (byte_bits b) @ take 2 (byte_bits c),
    drop 2 (byte_bits c)] @ sextets bs"
proof -
  have "byte_bits a @ byte_bits b @ byte_bits c @ bs =
      take 6 (byte_bits a) @ (drop 6 (byte_bits a) @ take 4 (byte_bits b)) @ (drop 4 (byte_bits b) @ take 2 (byte_bits c)) @
      drop 2 (byte_bits c) @ bs"
    by (metis append_assoc append_take_drop_id)
  then show ?thesis by (simp only:) (simp add: sextets_6 del: append_assoc)
qed

lemma sextets_Nil [simp]: "sextets [] = []"
  by (simp add: sextets.simps)

lemma sextets_last: "bs \<noteq> [] \<Longrightarrow> length bs < 6 \<Longrightarrow> sextets bs = [bs @ replicate (6 - length bs) False]"
  by (subst sextets.simps, cases bs) (auto simp: take_replicate min_def)

lemma b64_spec_enc: "b64_spec ds = b64_enc ds"
proof (induction ds rule: b64_enc.induct)
  case (1 a b c ds)
  then show ?case by (simp add: b64_spec_def sextets_3 sextet_vals)
next
  case (2 a b)
  have "byte_bits a @ byte_bits b = take 6 (byte_bits a) @ (drop 6 (byte_bits a) @ take 4 (byte_bits b)) @ drop 4 (byte_bits b)"
    by (metis append_assoc append_take_drop_id)
  then have "sextets (byte_bits a @ byte_bits b) =
      [take 6 (byte_bits a), drop 6 (byte_bits a) @ take 4 (byte_bits b), drop 4 (byte_bits b) @ replicate 2 False]"
    by (simp only:) (simp add: sextets_6 sextets_last del: append_assoc replicate.simps)
  then show ?case by (simp add: b64_spec_def sextet_vals del: replicate.simps, simp)
next
  case (3 a)
  have "byte_bits a = take 6 (byte_bits a) @ drop 6 (byte_bits a)" by simp
  then have "sextets (byte_bits a) = [take 6 (byte_bits a), drop 6 (byte_bits a) @ replicate 4 False]"
    using sextets_6 [of "take 6 (byte_bits a)" "drop 6 (byte_bits a)"] by (simp add: sextets_last del: replicate.simps)
  then show ?case by (simp add: b64_spec_def sextet_vals del: replicate.simps, simp add: numeral_eq_Suc)
qed (simp add: b64_spec_def)

section \<open>Decoding an encoding\<close>

lemma decode_table: "i < 64 \<Longrightarrow> base64_decode_char (base64 ! i) = int i"
proof -
  have "list_all (\<lambda>i. base64_decode_char (base64 ! i) = int i) [0..<64]"
    by (simp add: base64_def upt_rec base64_decode_char_def)
  then show "i < 64 \<Longrightarrow> base64_decode_char (base64 ! i) = int i" by (simp add: list_all_iff)
qed

lemma decode_pad: "base64_decode_char 0x3D = -1"
  by (simp add: base64_decode_char_def)

lemma decode_idx:
  "base64_decode_char (base64 ! b64_i1 a) = int (b64_i1 a)" "base64_decode_char (base64 ! b64_i2 a b) = int (b64_i2 a b)"
  "base64_decode_char (base64 ! b64_i3 b c) = int (b64_i3 b c)" "base64_decode_char (base64 ! b64_i4 c) = int (b64_i4 c)"
  by (simp_all add: decode_table b64_idx_less)

lemma b64_bytes:
  "b64_q0 (int (b64_i1 a)) (int (b64_i2 a b)) = a"
  "b64_q1 (int (b64_i2 a b)) (int (b64_i3 b c)) = b"
  "b64_q2 (int (b64_i3 b c)) (int (b64_i4 c)) = c"
proof -
  have m: "(15 :: int) = mask 4" "(3 :: int) = mask 2" by (simp_all add: mask_eq_exp_minus_1)
  have w: "word_of_int (int (unat x)) = x" for x :: byte by simp
  have e: "push_bit 2 (int i) + drop_bit 4 (int j) = int (i * 4 + j div 16)"
    "push_bit 4 (take_bit 4 (int i)) + drop_bit 2 (int j) = int (i mod 16 * 16 + j div 4)"
    "push_bit 6 (take_bit 2 (int i)) + int j = int (i mod 4 * 64 + j)" for i j
    by (simp_all add: push_bit_eq_mult drop_bit_eq_div take_bit_eq_mod zdiv_int zmod_int)
  have q: "b64_q0 (int i) (int j) = of_nat (i * 4 + j div 16)" "b64_q1 (int i) (int j) = of_nat (i mod 16 * 16 + j div 4)"
    "b64_q2 (int i) (int j) = of_nat (i mod 4 * 64 + j)" for i j
    unfolding b64_q0_def b64_q1_def b64_q2_def m take_bit_eq_mask [symmetric] e of_int_of_nat_eq by (rule refl)+
  have d: "(m * 16 + j div 16) div 16 = m + j div 16 div 16" "(m * 4 + j div 64) div 4 = m + j div 64 div 4"
    "(m * 16 + j div 16) mod 16 = j div 16 mod 16" "(m * 4 + j div 64) mod 4 = j div 64 mod 4" for m j :: nat
    by simp_all
  have z: "unat a div 4 * 4 + unat a mod 4 = unat a" "unat b div 16 mod 16 * 16 + unat b mod 16 = unat b"
    "unat c div 64 mod 4 * 64 + unat c mod 64 = unat c" "unat b div 16 div 16 = 0" "unat c div 64 div 4 = 0"
    using unat_byte [of b] unat_byte [of c] by (simp_all add: div_mult_mod_eq)
  show "b64_q0 (int (b64_i1 a)) (int (b64_i2 a b)) = a" "b64_q1 (int (b64_i2 a b)) (int (b64_i3 b c)) = b"
    "b64_q2 (int (b64_i3 b c)) (int (b64_i4 c)) = c"
    unfolding q b64_idx d z by (simp_all add: z)
qed

lemma char_at_append: "k < length cs \<Longrightarrow> b64_char_at (es @ cs @ ts) (length es + k) = Some (base64_decode_char (cs ! k))"
  by (simp add: b64_char_at_def arr_get_def nth_append)

lemma char_at_4:
  assumes "length es = 4 * i"
  shows "b64_char_at (es @ [c0, c1, c2, c3] @ ts) (4 * i) = Some (base64_decode_char c0)"
    "b64_char_at (es @ [c0, c1, c2, c3] @ ts) (4 * i + 1) = Some (base64_decode_char c1)"
    "b64_char_at (es @ [c0, c1, c2, c3] @ ts) (4 * i + 2) = Some (base64_decode_char c2)"
    "b64_char_at (es @ [c0, c1, c2, c3] @ ts) (4 * i + 3) = Some (base64_decode_char c3)"
  using char_at_append [of 0 "[c0, c1, c2, c3]" es ts] char_at_append [of 1 "[c0, c1, c2, c3]" es ts]
    char_at_append [of 2 "[c0, c1, c2, c3]" es ts] char_at_append [of 3 "[c0, c1, c2, c3]" es ts] assms
  by (simp_all add: numeral_eq_Suc)

lemma arr_set_front:
  assumes "length ds = k"
  shows "arr_set (ds @ u # us) k v = Some (ds @ v # us)" "arr_set (ds @ u # w # us) (k + 1) v = Some (ds @ u # v # us)"
    "arr_set (ds @ u # w # x # us) (k + 2) v = Some (ds @ u # w # v # us)"
    "arr_set (ds @ u # w # x # y # us) (k + 3) v = Some (ds @ u # w # x # v # us)"
  using assms by (simp_all add: arr_set_def list_update_append)

lemma decode_blocks_ok:
  assumes "length es = 4 * i" "length ds = 3 * i" "length xs = 3 * j" "3 * j \<le> length us"
  shows "b64_decode_blocks (es @ b64_enc xs @ ts) (i + j) i (ds @ us) = Some (True, ds @ xs @ drop (3 * j) us)"
  using assms
proof (induction j arbitrary: es ds xs us i)
  case 0
  then show ?case by (simp add: b64_decode_blocks.simps)
next
  case (Suc j)
  then obtain a b c ys where xs: "xs = a # b # c # ys" by (cases xs rule: b64_enc.cases) auto
  obtain u w x vs where us: "us = u # w # x # vs" using Suc.prems(4) by (cases us rule: b64_enc.cases) auto
  let ?cs = "[base64 ! b64_i1 a, base64 ! b64_i2 a b, base64 ! b64_i3 b c, base64 ! b64_i4 c]"
  note g = char_at_4 [OF Suc.prems(1), of "base64 ! b64_i1 a" "base64 ! b64_i2 a b" "base64 ! b64_i3 b c" "base64 ! b64_i4 c" "b64_enc ys @ ts",
      unfolded decode_idx]
  have "b64_decode_blocks (es @ b64_enc xs @ ts) (i + Suc j) i (ds @ us) =
      b64_decode_blocks ((es @ ?cs) @ b64_enc ys @ ts) (Suc i + j) (Suc i) ((ds @ [a, b, c]) @ vs)"
    using g arr_set_front [OF Suc.prems(2)]
    by (simp add: b64_decode_blocks.simps [of _ _ i] xs us b64_bytes)
  also have "\<dots> = Some (True, (ds @ [a, b, c]) @ ys @ drop (3 * j) vs)"
    by (rule Suc.IH) (use Suc.prems xs us in auto)
  finally show ?case by (simp add: xs us numeral_3_eq_3)
qed

lemma decode_last_ok:
  assumes "length es = 4 * m" "length ds = 3 * m" "zs \<noteq> []" "length zs \<le> 3"
  shows "\<exists>vs. b64_decode_last (es @ b64_enc zs @ ts) m (ds @ [u0, u1, u2, u3]) = Some (Some (ds @ zs @ vs, length zs)) \<and>
     length vs = 4 - length zs"
proof -
  note g = char_at_4 [OF assms(1)] and p = arr_set_front [OF assms(2)]
  have pad: "(-1 :: int) \<noteq> int k" for k by simp
  consider a where "zs = [a]" | a b where "zs = [a, b]" | a b c where "zs = [a, b, c]"
    using assms(3,4) by (cases zs rule: b64_enc.cases) (auto simp: length_Suc_conv le_Suc_eq)
  then show ?thesis
  proof cases
    case (1 a)
    then show ?thesis using g [of _ _ "0x3D" "0x3D" ts, unfolded decode_pad] p
      by (simp add: b64_decode_last_def decode_idx b64_bytes)
  next
    case (2 a b)
    then show ?thesis using g [of _ _ _ "0x3D" ts, unfolded decode_pad] p
      by (simp add: b64_decode_last_def decode_idx b64_bytes)
  next
    case (3 a b c)
    then show ?thesis using g [of _ _ _ _ ts] p by (simp add: b64_decode_last_def decode_idx b64_bytes)
  qed
qed

lemma base64_decode_enc:
  assumes "ds \<noteq> []" "length ds < 2 ^ 29"
  defines "k \<equiv> length (b64_enc ds) div 4 * 3 + 1"
  shows "\<exists>vs. base64_decode A (b64_enc ds @ ts) (int (length (b64_enc ds))) =
     Some (if al_ok A k then Some (ds @ 0 # vs, int (length ds)) else None)"
proof -
  define n m where "n = length ds" "m = (n - 1) div 3"
  define xs zs where "xs = take (3 * m) ds" and "zs = drop (3 * m) ds"
  have le: "3 * m \<le> n - 1" "n - 1 < 3 * m + 3" "0 < n"
    using assms(1) dividend_less_times_div [of 3 "n - 1"] by (auto simp: n_m_def)
  have lt: "3 * m < length ds" "length ds \<le> 3 * m + 3" using le n_m_def(1) by linarith+
  have d: "ds = xs @ zs" "length xs = 3 * m" "zs \<noteq> []" "length zs \<le> 3" "n = 3 * m + length zs"
    using lt n_m_def(1) by (auto simp: xs_def zs_def)
  have e: "b64_enc ds = b64_enc xs @ b64_enc zs" unfolding d(1) by (rule b64_enc_append) (simp add: d(2))
  have l: "length (b64_enc xs) = 4 * m" "length (b64_enc zs) = 4"
  proof -
    have "(length zs + 2) div 3 = 1" using d(3,4) by (cases "length zs") auto
    then show "length (b64_enc zs) = 4" by (simp add: length_b64_enc)
  qed (rule length_b64_enc_blocks [OF d(2)])
  then have len: "length (b64_enc ds) = 4 * (m + 1)" by (simp add: e)
  have k: "k = 3 * (m + 1) + 1" by (simp add: k_def len)
  have b: "k < BLOCK_MAX" "to_size (int k) = k"
    using assms(2) le by (simp_all add: k BLOCK_MAX_def to_size_def SIZE_MOD_def n_m_def)
  have sm: "int (4 * (m + 1)) smod 4 = 0" "int (4 * (m + 1)) sdiv 4 * 3 + 1 = int k" "nat (int (4 * (m + 1)) sdiv 4 - 1) = m"
    using smod_nat [of "4 * (m + 1)" 4] by (simp_all add: k)
  let ?us = "map (al_fill A) [0..<k]" and ?s = "b64_enc ds @ ts"
  have "length (drop (3 * m) ?us) = Suc (Suc (Suc (Suc 0)))" by (simp add: k)
  then obtain u0 u1 u2 u3 where us: "drop (3 * m) ?us = [u0, u1, u2, u3]" unfolding length_Suc_conv by auto
  have B: "b64_decode_blocks ?s m 0 ?us = Some (True, xs @ [u0, u1, u2, u3])"
    using decode_blocks_ok [of "[]" 0 "[]" xs m ?us "b64_enc zs @ ts"] d(2) us by (simp add: e k)
  obtain vs where L: "b64_decode_last ?s m (xs @ [u0, u1, u2, u3]) = Some (Some (xs @ zs @ vs, length zs))" "length vs = 4 - length zs"
    using decode_last_ok [OF l(1) d(2-4), of ts u0 u1 u2 u3] by (auto simp: e)
  obtain v ws where v: "vs = v # ws" using L(2) d(4) by (cases vs) auto
  have "arr_set (xs @ zs @ vs) (3 * m + length zs) 0 = Some (ds @ 0 # ws)"
    using arr_set_front(1) [of ds n v ws 0] d(1,5) n_m_def(1) by (simp add: v)
  then have "base64_decode A ?s (int (4 * (m + 1))) = Some (if al_ok A k then Some (ds @ 0 # ws, int n) else None)"
    unfolding base64_decode_def sm using b B L(1) d(5)
    by (auto simp: mem_alloc_def)
  then show ?thesis unfolding len n_m_def(1) by blast
qed

lemma b64_enc_nonzero: "0 \<notin> set (b64_enc ds)"
proof -
  have "0 \<notin> set base64" by (simp add: base64_def upt_rec)
  then have "base64 ! i \<noteq> 0" if "i < 64" for i using that nth_mem [of i base64] by (metis length_base64)
  note nz = this [OF b64_idx_less(1)] this [OF b64_idx_less(2)] this [OF b64_idx_less(3)] this [OF b64_idx_less(4)]
  show ?thesis by (induction ds rule: b64_enc.induct) (simp_all add: nz [symmetric])
qed

text \<open>Decoding any string: every access is inside the blocks.\<close>

lemma char_at_some: "k < length s \<Longrightarrow> \<exists>n. b64_char_at s k = Some n"
  by (simp add: b64_char_at_def arr_get_in)

lemma decode_blocks_safe:
  assumes "4 * m \<le> length s" "3 * m \<le> length buf"
  shows "\<exists>ok buf'. b64_decode_blocks s m i buf = Some (ok, buf') \<and> length buf' = length buf"
  using assms
proof (induction "m - i" arbitrary: i buf)
  case 0
  then show ?case by (intro exI [of _ True] exI [of _ buf]) (simp add: b64_decode_blocks.simps)
next
  case (Suc d)
  then have i: "i < m" "d = m - (i + 1)" by simp_all
  obtain n0 n1 n2 n3 where n: "b64_char_at s (4 * i) = Some n0" "b64_char_at s (4 * i + 1) = Some n1"
      "b64_char_at s (4 * i + 2) = Some n2" "b64_char_at s (4 * i + 3) = Some n3"
    using char_at_some [of "4 * i" s] char_at_some [of "4 * i + 1" s] char_at_some [of "4 * i + 2" s] char_at_some [of "4 * i + 3" s]
      i(1) Suc.prems(1) by auto
  let ?b = "buf[3 * i := b64_q0 n0 n1, 3 * i + 1 := b64_q1 n1 n2, 3 * i + 2 := b64_q2 n2 n3]"
  have "\<exists>ok buf'. b64_decode_blocks s m (i + 1) ?b = Some (ok, buf') \<and> length buf' = length ?b"
    using Suc.hyps(1) [OF i(2), of ?b] Suc.prems by simp
  then have "b64_decode_blocks s m i buf = (if n0 = -1 \<or> n1 = -1 \<or> n2 = -1 \<or> n3 = -1 then Some (False, buf)
      else b64_decode_blocks s m (i + 1) ?b)"
    using n i(1) Suc.prems(2) by (simp add: b64_decode_blocks.simps [of s m i] arr_set_in)
  then show ?case using \<open>\<exists>ok buf'. b64_decode_blocks s m (i + 1) ?b = Some (ok, buf') \<and> length buf' = length ?b\<close>
    by (cases "n0 = -1 \<or> n1 = -1 \<or> n2 = -1 \<or> n3 = -1") auto
qed

lemma decode_last_safe:
  assumes "4 * m + 4 \<le> length s" "length buf = 3 * m + 4"
  shows "\<exists>r. b64_decode_last s m buf = Some r \<and> (case r of None \<Rightarrow> True | Some (b, k) \<Rightarrow> length b = length buf \<and> k \<le> 3)"
proof -
  obtain n0 n1 n2 n3 where n: "b64_char_at s (4 * m) = Some n0" "b64_char_at s (4 * m + 1) = Some n1"
      "b64_char_at s (4 * m + 2) = Some n2" "b64_char_at s (4 * m + 3) = Some n3"
    using char_at_some [of "4 * m" s] char_at_some [of "4 * m + 1" s] char_at_some [of "4 * m + 2" s] char_at_some [of "4 * m + 3" s]
      assms(1) by auto
  then show ?thesis using assms(2) by (simp add: b64_decode_last_def arr_set_in)
qed

section \<open>Properties\<close>

text \<open>
  C14: \<^verbatim>\<open>crypto_base64_encode\<close> computes the encoding of the standard: the characters it stores are those
  of the stream of six-bit groups, followed by a zero, and every access is inside the blocks.
\<close>

theorem base64_encode_reference:
  assumes "length data < 2 ^ 29 - 3"
  shows "\<exists>vs. crypto_base64_encode A data (int (length data)) =
     Some (if al_ok A ((length data + 3) * 4 div 3 + 1) then Some (b64_spec data @ 0 # vs) else None)"
  using crypto_base64_encode_ok [OF assms, of A] by (auto simp: b64_spec_enc)

theorem base64_encode_reference_witness:
  "\<exists>vs. crypto_base64_encode ample [0x66, 0x6F, 0x6F, 0x62] (int (length [0x66, 0x6F, 0x6F, 0x62 :: byte])) =
     Some (if al_ok (ample :: byte allocator) ((length [0x66, 0x6F, 0x6F, 0x62 :: byte] + 3) * 4 div 3 + 1)
           then Some (b64_spec [0x66, 0x6F, 0x6F, 0x62] @ 0 # vs) else None)"
  by (rule base64_encode_reference) simp

text \<open>
  C38: decoding gives back what was encoded, for every block that is not empty: the string that
  \<^verbatim>\<open>crypto_base64_encode\<close> returns is decoded to the bytes and their number, with a zero behind them.
\<close>

theorem base64_roundtrip:
  assumes "data \<noteq> []" "length data < 2 ^ 29 - 3" "crypto_base64_encode A data (int (length data)) = Some (Some enc)"
    and "str = takeWhile (\<lambda>c. c \<noteq> 0) enc"
  shows "\<exists>vs. crypto_base64_decode B enc (int (length str)) =
     Some (if al_ok B (length str div 4 * 3 + 1) then Some (data @ 0 # vs, int (length data)) else None)"
proof -
  obtain vs where e: "enc = b64_enc data @ 0 # vs"
    using crypto_base64_encode_ok [OF assms(2), of A] assms(3) by (auto split: if_splits)
  have "0 \<notin> set (b64_enc data)" by (rule b64_enc_nonzero)
  then have "str = b64_enc data" unfolding assms(4) e
    by (rule takeWhile_zero)
  then show ?thesis
    using base64_decode_enc [OF assms(1), of B "0 # vs"] assms(2) by (simp add: crypto_base64_decode_def e)
qed

theorem base64_roundtrip_witness:
  "\<exists>enc. crypto_base64_encode ample [0x66, 0x6F, 0x6F, 0x62] (int (length [0x66, 0x6F, 0x6F, 0x62 :: byte])) = Some (Some enc) \<and>
     (\<exists>vs. crypto_base64_decode ample enc (int (length (takeWhile (\<lambda>c. c \<noteq> 0) enc))) =
        Some (if al_ok (ample :: byte allocator) (length (takeWhile (\<lambda>c. c \<noteq> 0) enc) div 4 * 3 + 1)
              then Some ([0x66, 0x6F, 0x6F, 0x62] @ 0 # vs, int (length [0x66, 0x6F, 0x6F, 0x62 :: byte])) else None))"
proof -
  let ?d = "[0x66, 0x6F, 0x6F, 0x62 :: byte]"
  obtain enc where e: "crypto_base64_encode ample ?d (int (length ?d)) = Some (Some enc)"
    using crypto_base64_encode_ok [of ?d ample] by (auto simp: ample_def)
  show ?thesis using base64_roundtrip [OF _ _ e refl, of ample] e by (intro exI [of _ enc]) simp
qed

text \<open>What a decoded block is: at most three bytes for four characters, and a zero behind them.\<close>

definition decoded_fits :: "int \<Rightarrow> (byte list \<times> int) option \<Rightarrow> bool" where
  "decoded_fits len r \<longleftrightarrow> (case r of None \<Rightarrow> True | Some (buf, k) \<Rightarrow> 0 \<le> k \<and> k \<le> len div 4 * 3 \<and> k < int (length buf) \<and> buf ! nat k = 0)"

lemma decode_positive_safe:
  assumes "0 < len" "len smod 4 = 0" "len \<le> int (length s)" "len < 2 ^ 31"
  shows "\<exists>r. crypto_base64_decode A s len = Some r \<and> decoded_fits len r"
proof -
  define m where "m = nat len div 4 - 1"
  have l: "len = int (nat len)" using assms(1) by simp
  have r: "nat len mod 4 = 0" using assms(2) l smod_nat(1) [of "nat len" 4] by simp
  then have m: "nat len = 4 * (m + 1)" using assms(1) by (auto simp: m_def)
  then have li: "len = int (4 * (m + 1))" using l by simp
  have sm: "len smod 4 = 0" "len sdiv 4 = int (m + 1)" "len div 4 * 3 = int (3 * (m + 1))"
    using smod_nat [of "4 * (m + 1)" 4] by (simp_all add: li)
  let ?k = "3 * m + 4" and ?us = "map (al_fill A) [0..<3 * m + 4]"
  have k: "to_size (len sdiv 4 * 3 + 1) = ?k" "?k < BLOCK_MAX" "nat (len sdiv 4 - 1) = m"
    using assms(4) unfolding sm by (simp_all add: li to_size_def SIZE_MOD_def BLOCK_MAX_def)
  have s4: "4 * m + 4 \<le> length s" using assms(3) by (simp add: li)
  obtain ok buf where B: "b64_decode_blocks s m 0 ?us = Some (ok, buf)" "length buf = ?k"
    using decode_blocks_safe [of m s ?us 0] s4 by auto
  obtain q where L: "b64_decode_last s m buf = Some q" "case q of None \<Rightarrow> True | Some (b, j) \<Rightarrow> length b = ?k \<and> j \<le> 3"
    using decode_last_safe [OF s4 B(2)] unfolding B(2) by blast
  show ?thesis
  proof (cases "al_ok A ?k \<and> ok \<and> q \<noteq> None")
    case True
    then obtain b j where q: "q = Some (b, j)" "length b = ?k" "j \<le> 3" using L(2) by (cases q) auto
    then have "crypto_base64_decode A s len = Some (Some (b[3 * m + j := 0], int (3 * m + j)))"
      using True sm(1) k B(1) L(1) by (simp add: crypto_base64_decode_def base64_decode_def mem_alloc_def arr_set_in)
    moreover have "nat (int (3 * m + j)) = 3 * m + j" by (rule nat_int)
    ultimately show ?thesis using q by (simp add: decoded_fits_def sm(3) del: of_nat_add of_nat_mult)
  next
    case False
    then have "crypto_base64_decode A s len = Some None"
      using sm(1) k B(1) L(1)
      by (cases q) (auto simp: crypto_base64_decode_def base64_decode_def mem_alloc_def)
    then show ?thesis by (simp add: decoded_fits_def)
  qed
qed

lemma decode_negative_size:
  assumes "len < 0" "len smod 4 = 0" "- (2 ^ 31) \<le> len"
  shows "mem_alloc A (to_size (len sdiv 4 * 3 + 1)) = None"
proof -
  define j where "j = nat (- len) div 4"
  have "len sdiv 4 = - int j" using assms(1,2) by (simp add: signed_divide_int_def j_def zdiv_int)
  then have v: "len sdiv 4 * 3 + 1 = 1 - 3 * int j" by simp
  have j: "4 * int j \<le> 2 ^ 31" using assms by (simp add: j_def zdiv_int)
  have "nat (- len) mod 4 = 0" using assms(1,2) nat_mod_distrib [of "- len" 4] by (simp add: signed_modulo_int_def)
  then have "0 < j" using assms(1) by (auto simp: j_def mod_eq_0_iff_dvd)
  then have "(1 - 3 * int j) mod int SIZE_MOD = 1 - 3 * int j + int SIZE_MOD"
    using j by (subst mod_add_self2 [symmetric], intro mod_pos_pos_trivial) (simp_all add: SIZE_MOD_def)
  then have "to_size (len sdiv 4 * 3 + 1) = nat (1 - 3 * int j + int SIZE_MOD)" unfolding v to_size_def by simp
  moreover have "BLOCK_MAX \<le> nat (1 - 3 * int j + int SIZE_MOD)"
    using j by (simp add: SIZE_MOD_def BLOCK_MAX_def le_nat_iff)
  ultimately show ?thesis by (simp add: mem_alloc_def)
qed



text \<open>
  With the length 0 the last block is read although there is none: for the empty string the
  character behind its terminating zero.
\<close>

theorem base64_decode_empty_overread:
  assumes "al_ok A 1"
  shows "crypto_base64_decode A [0] 0 = None"
  using assms
  by (simp add: crypto_base64_decode_def base64_decode_def mem_alloc_def signed_divide_int_def signed_modulo_int_def to_size_def SIZE_MOD_def
      BLOCK_MAX_def b64_decode_blocks.simps b64_decode_last_def b64_char_at_def arr_get_def)

text \<open>In the last two places of a string every character that is not in the alphabet counts as padding.\<close>

theorem base64_decode_accepts_garbage:
  assumes "al_ok A 4"
  shows "\<exists>vs. crypto_base64_decode A [0x51, 0x51, 0x21, 0x00] 4 = Some (Some (0x41 # vs, 1))"
  using assms
  by (simp add: crypto_base64_decode_def base64_decode_def mem_alloc_def signed_divide_int_def signed_modulo_int_def to_size_def SIZE_MOD_def
      BLOCK_MAX_def b64_decode_blocks.simps b64_decode_last_def b64_char_at_def arr_get_def base64_decode_char_def arr_set_def
      b64_q0_def push_bit_eq_mult drop_bit_eq_div upt_rec)

end
