(* ===== verification/Gcc.thy ===== *)
theory Gcc
  imports Nego Per
begin

unbundle bit_operations_syntax

text \<open>
  The conference creation of T.124 (\<^verbatim>\<open>libfreerdp/core/gcc.c\<close>): the data blocks in which the client
  describes itself and the channels it wants, and the server answers with the channels it
  gives. The data of the MCS layer (\<^verbatim>\<open>libfreerdp/core/mcs.h\<close>), which the blocks are read into and
  written from, stand here as well, since \<^verbatim>\<open>gcc.c\<close> works on them.

  The conversions between UTF-8 and UTF-16, the parsing of the server's certificate and the
  cryptographic primitives are arguments, collected in the record \<open>gcc_env\<close>. This theory holds the
  operations; \<open>GccBlocks\<close> proves what they do.
\<close>

section \<open>Data\<close>

definition CS_CORE :: u16 where "CS_CORE = 0xC001"
definition CS_SECURITY :: u16 where "CS_SECURITY = 0xC002"
definition CS_NET :: u16 where "CS_NET = 0xC003"
definition CS_CLUSTER :: u16 where "CS_CLUSTER = 0xC004"
definition CS_MONITOR :: u16 where "CS_MONITOR = 0xC005"
definition CS_MCS_MSGCHANNEL :: u16 where "CS_MCS_MSGCHANNEL = 0xC006"
definition CS_MONITOR_EX :: u16 where "CS_MONITOR_EX = 0xC008"
definition CS_MULTITRANSPORT :: u16 where "CS_MULTITRANSPORT = 0xC00A"
definition SC_CORE :: u16 where "SC_CORE = 0x0C01"
definition SC_SECURITY :: u16 where "SC_SECURITY = 0x0C02"
definition SC_NET :: u16 where "SC_NET = 0x0C03"
definition SC_MCS_MSGCHANNEL :: u16 where "SC_MCS_MSGCHANNEL = 0x0C04"
definition SC_MULTITRANSPORT :: u16 where "SC_MULTITRANSPORT = 0x0C08"

lemmas block_types = CS_CORE_def CS_SECURITY_def CS_NET_def CS_CLUSTER_def CS_MONITOR_def CS_MCS_MSGCHANNEL_def
  CS_MONITOR_EX_def CS_MULTITRANSPORT_def SC_CORE_def SC_SECURITY_def SC_NET_def SC_MCS_MSGCHANNEL_def
  SC_MULTITRANSPORT_def

definition RDP_VERSION_4 :: u32 where "RDP_VERSION_4 = 0x00080001"
definition RDP_VERSION_5_PLUS :: u32 where "RDP_VERSION_5_PLUS = 0x00080004"

definition RNS_UD_COLOR_4BPP :: u16 where "RNS_UD_COLOR_4BPP = 0xCA00"
definition RNS_UD_COLOR_8BPP :: u16 where "RNS_UD_COLOR_8BPP = 0xCA01"
definition RNS_UD_COLOR_16BPP_555 :: u16 where "RNS_UD_COLOR_16BPP_555 = 0xCA02"
definition RNS_UD_COLOR_16BPP_565 :: u16 where "RNS_UD_COLOR_16BPP_565 = 0xCA03"
definition RNS_UD_COLOR_24BPP :: u16 where "RNS_UD_COLOR_24BPP = 0xCA04"
definition RNS_UD_SAS_DEL :: u16 where "RNS_UD_SAS_DEL = 0xAA03"

definition RNS_UD_24BPP_SUPPORT :: u16 where "RNS_UD_24BPP_SUPPORT = 0x0001"
definition RNS_UD_16BPP_SUPPORT :: u16 where "RNS_UD_16BPP_SUPPORT = 0x0002"
definition RNS_UD_15BPP_SUPPORT :: u16 where "RNS_UD_15BPP_SUPPORT = 0x0004"
definition RNS_UD_32BPP_SUPPORT :: u16 where "RNS_UD_32BPP_SUPPORT = 0x0008"

definition RNS_UD_CS_SUPPORT_ERRINFO_PDU :: u16 where "RNS_UD_CS_SUPPORT_ERRINFO_PDU = 0x0001"
definition RNS_UD_CS_WANT_32BPP_SESSION :: u16 where "RNS_UD_CS_WANT_32BPP_SESSION = 0x0002"
definition RNS_UD_CS_VALID_CONNECTION_TYPE :: u16 where "RNS_UD_CS_VALID_CONNECTION_TYPE = 0x0020"
definition RNS_UD_CS_SUPPORT_NETWORK_AUTODETECT :: u16 where "RNS_UD_CS_SUPPORT_NETWORK_AUTODETECT = 0x0080"
definition RNS_UD_CS_SUPPORT_DYNVC_GFX_PROTOCOL :: u16 where "RNS_UD_CS_SUPPORT_DYNVC_GFX_PROTOCOL = 0x0100"
definition RNS_UD_CS_SUPPORT_DYNAMIC_TIME_ZONE :: u16 where "RNS_UD_CS_SUPPORT_DYNAMIC_TIME_ZONE = 0x0200"
definition RNS_UD_CS_SUPPORT_HEARTBEAT_PDU :: u16 where "RNS_UD_CS_SUPPORT_HEARTBEAT_PDU = 0x0400"
definition RNS_UD_SC_DYNAMIC_DST_SUPPORTED :: u32 where "RNS_UD_SC_DYNAMIC_DST_SUPPORTED = 0x00000002"

definition REDIRECTION_SUPPORTED :: u32 where "REDIRECTION_SUPPORTED = 0x00000001"
definition REDIRECTED_SESSIONID_FIELD_VALID :: u32 where "REDIRECTED_SESSIONID_FIELD_VALID = 0x00000002"
definition REDIRECTION_VERSION4 :: u32 where "REDIRECTION_VERSION4 = 0x03"

definition MONITOR_PRIMARY :: u32 where "MONITOR_PRIMARY = 0x00000001"
definition CONNECTION_TYPE_LAN :: u32 where "CONNECTION_TYPE_LAN = 0x06"
definition CONNECTION_TYPE_AUTODETECT :: u32 where "CONNECTION_TYPE_AUTODETECT = 0x07"

definition CERT_CHAIN_VERSION_1 :: u32 where "CERT_CHAIN_VERSION_1 = 0x00000001"
definition SIGNATURE_ALG_RSA :: u32 where "SIGNATURE_ALG_RSA = 0x00000001"
definition KEY_EXCHANGE_ALG_RSA :: u32 where "KEY_EXCHANGE_ALG_RSA = 0x00000001"
definition BB_RSA_KEY_BLOB :: u16 where "BB_RSA_KEY_BLOB = 6"
definition BB_RSA_SIGNATURE_BLOB :: u16 where "BB_RSA_SIGNATURE_BLOB = 8"
definition TSSK_KEY_LENGTH :: nat where "TSSK_KEY_LENGTH = 64"

definition MCS_BASE_CHANNEL_ID :: u16 where "MCS_BASE_CHANNEL_ID = 1001"
definition MCS_GLOBAL_CHANNEL_ID :: u16 where "MCS_GLOBAL_CHANNEL_ID = 1003"
definition MCS_Result_enum_length :: byte where "MCS_Result_enum_length = 16"

text \<open>The encryption methods and levels.\<close>

definition ENCRYPTION_METHOD_NONE :: u32 where "ENCRYPTION_METHOD_NONE = 0x00000000"
definition ENCRYPTION_METHOD_40BIT :: u32 where "ENCRYPTION_METHOD_40BIT = 0x00000001"
definition ENCRYPTION_METHOD_128BIT :: u32 where "ENCRYPTION_METHOD_128BIT = 0x00000002"
definition ENCRYPTION_METHOD_56BIT :: u32 where "ENCRYPTION_METHOD_56BIT = 0x00000008"
definition ENCRYPTION_METHOD_FIPS :: u32 where "ENCRYPTION_METHOD_FIPS = 0x00000010"
definition ENCRYPTION_LEVEL_NONE :: u32 where "ENCRYPTION_LEVEL_NONE = 0x00000000"
definition ENCRYPTION_LEVEL_LOW :: u32 where "ENCRYPTION_LEVEL_LOW = 0x00000001"
definition ENCRYPTION_LEVEL_CLIENT_COMPATIBLE :: u32 where "ENCRYPTION_LEVEL_CLIENT_COMPATIBLE = 0x00000002"
definition ENCRYPTION_LEVEL_HIGH :: u32 where "ENCRYPTION_LEVEL_HIGH = 0x00000003"
definition ENCRYPTION_LEVEL_FIPS :: u32 where "ENCRYPTION_LEVEL_FIPS = 0x00000004"

record MONITOR_ATTRIBUTES =
  ma_physicalWidth :: u32
  ma_physicalHeight :: u32
  ma_orientation :: u32
  ma_desktopScaleFactor :: u32
  ma_deviceScaleFactor :: u32

text \<open>The signed coordinates are words whose value is \<open>sint\<close>.\<close>

record rdpMonitor =
  mo_x :: u32
  mo_y :: u32
  mo_width :: u32
  mo_height :: u32
  mo_is_primary :: u32
  mo_attributes :: MONITOR_ATTRIBUTES

record CHANNEL_DEF =
  cd_name :: "byte list"
  cd_options :: u32

record rdpRsaKey =
  rk_Modulus :: "byte list"
  rk_ModulusLength :: u32
  rk_exponent :: "byte list"

text \<open>
  The settings that the conference creation reads or writes, beyond those of the negotiation.
  The RSA key is used only where the field of \<open>Nego\<close> says that there is one.
\<close>

record gcc_settings = rdpSettings +
  se_ServerMode :: bool
  se_RdpVersion :: u32
  se_DesktopWidth :: u32
  se_DesktopHeight :: u32
  se_ColorDepth :: u32
  se_ConnectionType :: u32
  se_ClientBuild :: u32
  se_ClientHostname :: "byte list"
  se_ClientProductId :: "byte list"
  se_EarlyCapabilityFlags :: u32
  se_NetworkAutoDetect :: bool
  se_SupportDynamicTimeZone :: bool
  se_SupportErrorInfoPdu :: bool
  se_SupportHeartbeatPdu :: bool
  se_DesktopPhysicalWidth :: u32
  se_DesktopPhysicalHeight :: u32
  se_DesktopOrientation :: u16
  se_DesktopScaleFactor :: u32
  se_DeviceScaleFactor :: u32
  se_ServerRandom :: "byte list option"
  se_ServerRandomLength :: u32
  se_ServerCertificate :: "byte list option"
  se_ServerCertificateLength :: u32
  se_RdpServerCertificate :: bool
  se_RsaKey :: rdpRsaKey
  se_ChannelCount :: u32
  se_ChannelDefArray :: "CHANNEL_DEF list"
  se_RedirectedSessionId :: u32
  se_ConsoleSession :: bool
  se_MonitorCount :: u32
  se_MonitorDefArray :: "rdpMonitor list"
  se_SpanMonitors :: bool
  se_UseMultimon :: bool
  se_ForceMultimon :: bool
  se_HasMonitorAttributes :: bool
  se_MultitransportFlags :: u32
  se_SupportMultitransport :: bool
  se_KeyboardLayout :: u32
  se_KeyboardType :: u32
  se_KeyboardSubType :: u32
  se_KeyboardFunctionKey :: u32
  se_RemoteFxCodec :: bool

record DomainParameters =
  dp_maxChannelIds :: u32
  dp_maxUserIds :: u32
  dp_maxTokenIds :: u32
  dp_numPriorities :: u32
  dp_minThroughput :: u32
  dp_maxHeight :: u32
  dp_maxMCSPDUsize :: u32
  dp_protocolVersion :: u32

record rdpMcsChannel =
  ch_Name :: "byte list"
  ch_options :: u32
  ch_ChannelId :: int
  ch_joined :: bool

record 'w rdpMcs =
  mcs_transport :: "'w rdpTransport"
  mcs_settings :: gcc_settings
  mcs_userId :: u16
  mcs_baseChannelId :: u16
  mcs_messageChannelId :: u16
  mcs_domainParameters :: DomainParameters
  mcs_targetParameters :: DomainParameters
  mcs_minimumParameters :: DomainParameters
  mcs_maximumParameters :: DomainParameters
  mcs_userChannelJoined :: bool
  mcs_globalChannelJoined :: bool
  mcs_messageChannelJoined :: bool
  mcs_channelCount :: u32
  mcs_channelMaxCount :: u32
  mcs_channels :: "rdpMcsChannel list"

text \<open>
  \<^verbatim>\<open>ConvertFromUnicode\<close> gives the bytes of the new string, or \<^verbatim>\<open>NULL\<close>; \<^verbatim>\<open>ConvertToUnicode\<close> the number
  of characters and the block that holds them, or \<^verbatim>\<open>NULL\<close>. \<^verbatim>\<open>crypto_md5_init\<close> may fail.
\<close>

record gcc_env =
  ge_alloc :: "byte allocator"
  ge_ConvertFromUnicode :: "byte list \<Rightarrow> byte list option"
  ge_ConvertToUnicode :: "byte list \<Rightarrow> int \<times> byte list option"
  ge_certificate_new :: bool
  ge_certificate_read_server_certificate :: "byte list \<Rightarrow> u32 \<Rightarrow> bool"
  ge_crypto_nonce :: "nat \<Rightarrow> byte list"
  ge_crypto_md5 :: "byte list \<Rightarrow> byte list option"
  ge_crypto_rsa_private_encrypt :: "byte list \<Rightarrow> byte list"

abbreviation mcs_set_settings :: "(gcc_settings \<Rightarrow> gcc_settings) \<Rightarrow> 'w rdpMcs \<Rightarrow> 'w rdpMcs" where
  "mcs_set_settings f m \<equiv> m\<lparr>mcs_settings := f (mcs_settings m)\<rparr>"

text \<open>
  The readers of the blocks return \<^verbatim>\<open>TRUE\<close> or \<^verbatim>\<open>FALSE\<close>; the MCS state and the stream may have
  changed in both cases.
\<close>

type_synonym 'w block_reader = "'w rdpMcs \<Rightarrow> wStream \<Rightarrow> (bool \<times> 'w rdpMcs \<times> wStream) option"

section \<open>Headers of the blocks\<close>

definition gcc_read_user_data_header :: "(u16 \<times> u16) reader" where
  "gcc_read_user_data_header s =
     (if Stream_GetRemainingLength s < 4 then Some (None, s)
      else do {
        (type, s) \<leftarrow> Stream_Read_UINT16 s;
        (len, s) \<leftarrow> Stream_Read_UINT16 s;
        Some (if Stream_GetRemainingLength s < to_size (uint len - 4) then None else Some (type, len), s) })"

definition gcc_write_user_data_header :: "u16 \<Rightarrow> u16 \<Rightarrow> writer" where
  "gcc_write_user_data_header type len s = do {
     s \<leftarrow> Stream_Write_UINT16 type s;
     Stream_Write_UINT16 len s }"

section \<open>The core data of the client\<close>

text \<open>
  \<^verbatim>\<open>sprintf_s(buf, n, "%s", str)\<close>: at most \<open>n - 1\<close> characters and a zero. A \<^verbatim>\<open>NULL\<close> string is
  undefined.
\<close>

definition sprintf_str :: "byte list \<Rightarrow> nat \<Rightarrow> byte list option \<Rightarrow> byte list option" where
  "sprintf_str buf n str = (case str of None \<Rightarrow> None
     | Some b \<Rightarrow> mem_write buf 0 (take (n - 1) (takeWhile (\<lambda>c. c \<noteq> 0) b) @ [0]))"

text \<open>The local variables of \<^verbatim>\<open>gcc_read_client_core_data\<close>, and the settings it fills in.\<close>

record core_data =
  co_blockLength :: u16
  co_colorDepth :: u16
  co_postBeta2ColorDepth :: u16
  co_highColorDepth :: u16
  co_supportedColorDepths :: u16
  co_earlyCapabilityFlags :: u16
  co_connectionType :: byte
  co_serverSelectedProtocol :: u32
  co_settings :: gcc_settings

type_synonym core_field = "core_data \<Rightarrow> wStream \<Rightarrow> (core_data \<times> wStream) option"

definition core_u8 :: "(byte \<Rightarrow> core_data \<Rightarrow> core_data) \<Rightarrow> core_field" where
  "core_u8 f c s = do { (v, s) \<leftarrow> Stream_Read_UINT8 s; Some (f v c, s) }"

definition core_u16 :: "(u16 \<Rightarrow> core_data \<Rightarrow> core_data) \<Rightarrow> core_field" where
  "core_u16 f c s = do { (v, s) \<leftarrow> Stream_Read_UINT16 s; Some (f v c, s) }"

definition core_u32 :: "(u32 \<Rightarrow> core_data \<Rightarrow> core_data) \<Rightarrow> core_field" where
  "core_u32 f c s = do { (v, s) \<leftarrow> Stream_Read_UINT32 s; Some (f v c, s) }"

definition core_seek :: "nat \<Rightarrow> core_field" where
  "core_seek n c s = do { s \<leftarrow> Stream_Seek s (int n); Some (c, s) }"

abbreviation co_set :: "(gcc_settings \<Rightarrow> gcc_settings) \<Rightarrow> core_data \<Rightarrow> core_data" where
  "co_set f c \<equiv> c\<lparr>co_settings := f (co_settings c)\<rparr>"

text \<open>The string fields: converted where they stand in the stream, which is then moved.\<close>

definition core_hostname :: "gcc_env \<Rightarrow> core_field" where
  "core_hostname E c s = do {
     w \<leftarrow> mem_read (st_buffer s) (st_pointer s) 32;
     let str = ge_ConvertFromUnicode E w;
     s \<leftarrow> Stream_Seek s 32;
     h \<leftarrow> sprintf_str (se_ClientHostname (co_settings c)) 31 str;
     h \<leftarrow> arr_set h 31 0;
     Some (co_set (\<lambda>se. se\<lparr>se_ClientHostname := h\<rparr>) c, s) }"

definition core_product :: "gcc_env \<Rightarrow> core_field" where
  "core_product E c s = do {
     w \<leftarrow> mem_read (st_buffer s) (st_pointer s) 64;
     let str = ge_ConvertFromUnicode E w;
     s \<leftarrow> Stream_Seek s 64;
     h \<leftarrow> sprintf_str (se_ClientProductId (co_settings c)) 32 str;
     Some (co_set (\<lambda>se. se\<lparr>se_ClientProductId := h\<rparr>) c, s) }"

fun core_run :: "(nat \<times> core_field) list \<Rightarrow> core_field" where
  "core_run [] c s = Some (c, s)"
| "core_run ((n, f) # fs) c s = do { (c, s) \<leftarrow> f c s; core_run fs c s }"

text \<open>The fields every client sends, with their sizes.\<close>

definition core_required :: "gcc_env \<Rightarrow> (nat \<times> core_field) list" where
  "core_required E =
     [(4, core_u32 (\<lambda>v. co_set (\<lambda>se. se\<lparr>se_RdpVersion := (if v = RDP_VERSION_4 then 4 else 7)\<rparr>))),
      (2, core_u16 (\<lambda>v. co_set (\<lambda>se. se\<lparr>se_DesktopWidth := ucast v\<rparr>))),
      (2, core_u16 (\<lambda>v. co_set (\<lambda>se. se\<lparr>se_DesktopHeight := ucast v\<rparr>))),
      (2, core_u16 (\<lambda>v c. c\<lparr>co_colorDepth := v\<rparr>)),
      (2, core_seek 2),
      (4, core_u32 (\<lambda>v. co_set (\<lambda>se. se\<lparr>se_KeyboardLayout := v\<rparr>))),
      (4, core_u32 (\<lambda>v. co_set (\<lambda>se. se\<lparr>se_ClientBuild := v\<rparr>))),
      (32, core_hostname E),
      (4, core_u32 (\<lambda>v. co_set (\<lambda>se. se\<lparr>se_KeyboardType := v\<rparr>))),
      (4, core_u32 (\<lambda>v. co_set (\<lambda>se. se\<lparr>se_KeyboardSubType := v\<rparr>))),
      (4, core_u32 (\<lambda>v. co_set (\<lambda>se. se\<lparr>se_KeyboardFunctionKey := v\<rparr>))),
      (64, core_seek 64)]"

text \<open>
  The optional fields, each read only if the block is long enough for it: the flag says whether
  all of them were there. The block length is decreased after each field.
\<close>

fun core_optional :: "(nat \<times> core_field) list \<Rightarrow> core_data \<Rightarrow> wStream \<Rightarrow> (bool \<times> core_data \<times> wStream) option" where
  "core_optional [] c s = Some (True, c, s)"
| "core_optional ((n, f) # fs) c s =
     (if unat (co_blockLength c) < n then Some (False, c, s)
      else do {
        (c, s) \<leftarrow> f c s;
        core_optional fs (c\<lparr>co_blockLength := co_blockLength c - of_nat n\<rparr>) s })"

definition core_optional_fields :: "gcc_env \<Rightarrow> (nat \<times> core_field) list" where
  "core_optional_fields E =
     [(2, core_u16 (\<lambda>v c. c\<lparr>co_postBeta2ColorDepth := v\<rparr>)),
      (2, core_seek 2),
      (4, core_seek 4),
      (2, core_u16 (\<lambda>v c. c\<lparr>co_highColorDepth := v\<rparr>)),
      (2, core_u16 (\<lambda>v c. c\<lparr>co_supportedColorDepths := v\<rparr>)),
      (2, core_u16 (\<lambda>v c. co_set (\<lambda>se. se\<lparr>se_EarlyCapabilityFlags := ucast v\<rparr>) (c\<lparr>co_earlyCapabilityFlags := v\<rparr>))),
      (64, core_product E),
      (1, core_u8 (\<lambda>v c. c\<lparr>co_connectionType := v\<rparr>)),
      (1, core_seek 1),
      (4, core_u32 (\<lambda>v c. c\<lparr>co_serverSelectedProtocol := v\<rparr>)),
      (4, core_u32 (\<lambda>v. co_set (\<lambda>se. se\<lparr>se_DesktopPhysicalWidth := v\<rparr>))),
      (4, core_u32 (\<lambda>v. co_set (\<lambda>se. se\<lparr>se_DesktopPhysicalHeight := v\<rparr>))),
      (2, core_u16 (\<lambda>v. co_set (\<lambda>se. se\<lparr>se_DesktopOrientation := v\<rparr>))),
      (4, core_u32 (\<lambda>v. co_set (\<lambda>se. se\<lparr>se_DesktopScaleFactor := v\<rparr>))),
      (4, core_u32 (\<lambda>v. co_set (\<lambda>se. se\<lparr>se_DeviceScaleFactor := v\<rparr>)))]"

text \<open>The colour depth of the client, or \<open>None\<close> where the function returns \<^verbatim>\<open>FALSE\<close>.\<close>

definition client_color_depth :: "core_data \<Rightarrow> u32 option" where
  "client_color_depth c =
     (if co_highColorDepth c > 0 then
        Some (if co_earlyCapabilityFlags c AND RNS_UD_CS_WANT_32BPP_SESSION \<noteq> 0 then 32 else ucast (co_highColorDepth c))
      else if co_postBeta2ColorDepth c > 0 then
        (if co_postBeta2ColorDepth c = RNS_UD_COLOR_4BPP then Some 4
         else if co_postBeta2ColorDepth c = RNS_UD_COLOR_8BPP then Some 8
         else if co_postBeta2ColorDepth c = RNS_UD_COLOR_16BPP_555 then Some 15
         else if co_postBeta2ColorDepth c = RNS_UD_COLOR_16BPP_565 then Some 16
         else if co_postBeta2ColorDepth c = RNS_UD_COLOR_24BPP then Some 24
         else None)
      else if co_colorDepth c = RNS_UD_COLOR_4BPP then Some 4
      else if co_colorDepth c = RNS_UD_COLOR_8BPP then Some 8
      else None)"

text \<open>What the function sets at its end, from the fields it has read.\<close>

definition core_settings :: "core_data \<Rightarrow> u32 \<Rightarrow> gcc_settings" where
  "core_settings c clientColorDepth =
     (let se = co_settings c; flags = co_earlyCapabilityFlags c in
      se\<lparr>se_ColorDepth := (if clientColorDepth < se_ColorDepth se \<or> \<not> se_ServerMode se then clientColorDepth
           else se_ColorDepth se),
         se_NetworkAutoDetect := (se_NetworkAutoDetect se \<and> flags AND RNS_UD_CS_SUPPORT_NETWORK_AUTODETECT \<noteq> 0),
         se_SupportHeartbeatPdu := (se_SupportHeartbeatPdu se \<and> flags AND RNS_UD_CS_SUPPORT_HEARTBEAT_PDU \<noteq> 0),
         se_SupportGraphicsPipeline := (se_SupportGraphicsPipeline se \<and> flags AND RNS_UD_CS_SUPPORT_DYNVC_GFX_PROTOCOL \<noteq> 0),
         se_SupportDynamicTimeZone := (se_SupportDynamicTimeZone se \<and> flags AND RNS_UD_CS_SUPPORT_DYNAMIC_TIME_ZONE \<noteq> 0),
         se_SupportErrorInfoPdu := (flags AND RNS_UD_CS_SUPPORT_ERRINFO_PDU \<noteq> 0),
         se_ConnectionType := (if flags AND RNS_UD_CS_VALID_CONNECTION_TYPE = 0 then 0 else ucast (co_connectionType c))\<rparr>)"

definition gcc_read_client_core_data :: "gcc_env \<Rightarrow> u16 \<Rightarrow> 'w block_reader" where
  "gcc_read_client_core_data E blockLength m s =
     (if blockLength < 128 then Some (False, m, s)
      else do {
        let c = \<lparr>co_blockLength = blockLength, co_colorDepth = 0, co_postBeta2ColorDepth = 0, co_highColorDepth = 0,
          co_supportedColorDepths = 0, co_earlyCapabilityFlags = 0, co_connectionType = 0,
          co_serverSelectedProtocol = 0, co_settings = mcs_settings m\<rparr>;
        (c, s) \<leftarrow> core_run (core_required E) c s;
        (all_fields, c, s) \<leftarrow> core_optional (core_optional_fields E) (c\<lparr>co_blockLength := co_blockLength c - 128\<rparr>) s;
        let m = m\<lparr>mcs_settings := co_settings c\<rparr>;
        if all_fields \<and> se_SelectedProtocol (mcs_settings m) \<noteq> co_serverSelectedProtocol c then Some (False, m, s)
        else (case client_color_depth c of
                None \<Rightarrow> Some (False, m, s)
              | Some depth \<Rightarrow> Some (True, m\<lparr>mcs_settings := core_settings c depth\<rparr>, s)) })"

text \<open>A wide string of \<open>len\<close> characters in a field of \<open>sz\<close> bytes, cut and closed with a zero if too long.\<close>

definition write_wide :: "nat \<Rightarrow> int \<times> byte list option \<Rightarrow> writer" where
  "write_wide sz str s = (case str of (len, block) \<Rightarrow> do {
     (len, block) \<leftarrow> (if len \<ge> int sz div 2 then do {
         b \<leftarrow> block;
         b \<leftarrow> mem_write b (sz - 2) [0, 0];
         Some (int sz div 2, Some b) }
       else Some (len, block));
     d \<leftarrow> (case block of None \<Rightarrow> if len = 0 then Some [] else None | Some b \<Rightarrow> mem_read b 0 (to_size (len * 2)));
     s \<leftarrow> Stream_Write d s;
     Stream_Zero (to_size (int sz - len * 2)) s })"

definition client_connection_type :: "gcc_settings \<Rightarrow> u32" where
  "client_connection_type se =
     (let t = (if se_NetworkAutoDetect se then CONNECTION_TYPE_AUTODETECT else se_ConnectionType se) in
      if se_RemoteFxCodec se \<and> \<not> se_NetworkAutoDetect se then CONNECTION_TYPE_LAN else t)"

definition client_early_flags :: "gcc_settings \<Rightarrow> byte \<Rightarrow> u16" where
  "client_early_flags se connectionType =
     (RNS_UD_CS_SUPPORT_ERRINFO_PDU OR
      (if connectionType \<noteq> 0 then RNS_UD_CS_VALID_CONNECTION_TYPE else 0) OR
      (if se_ColorDepth se = 32 then RNS_UD_CS_WANT_32BPP_SESSION else 0) OR
      (if se_NetworkAutoDetect se then RNS_UD_CS_SUPPORT_NETWORK_AUTODETECT else 0) OR
      (if se_SupportHeartbeatPdu se then RNS_UD_CS_SUPPORT_HEARTBEAT_PDU else 0) OR
      (if se_SupportGraphicsPipeline se then RNS_UD_CS_SUPPORT_DYNVC_GFX_PROTOCOL else 0) OR
      (if se_SupportDynamicTimeZone se then RNS_UD_CS_SUPPORT_DYNAMIC_TIME_ZONE else 0))"

definition gcc_write_client_core_data :: "gcc_env \<Rightarrow> 'w rdpMcs \<Rightarrow> wStream \<Rightarrow> ('w rdpMcs \<times> wStream) option" where
  "gcc_write_client_core_data E m s = do {
     let se = mcs_settings m;
     s \<leftarrow> gcc_write_user_data_header CS_CORE 234 s;
     let version = (if se_RdpVersion se \<ge> 5 then RDP_VERSION_5_PLUS else RDP_VERSION_4);
     let clientName = ge_ConvertToUnicode E (se_ClientHostname se);
     let clientDigProductId = ge_ConvertToUnicode E (se_ClientProductId se);
     s \<leftarrow> Stream_Write_UINT32 version s;
     s \<leftarrow> Stream_Write_UINT16 (ucast (se_DesktopWidth se)) s;
     s \<leftarrow> Stream_Write_UINT16 (ucast (se_DesktopHeight se)) s;
     s \<leftarrow> Stream_Write_UINT16 RNS_UD_COLOR_8BPP s;
     s \<leftarrow> Stream_Write_UINT16 RNS_UD_SAS_DEL s;
     s \<leftarrow> Stream_Write_UINT32 (se_KeyboardLayout se) s;
     s \<leftarrow> Stream_Write_UINT32 (se_ClientBuild se) s;
     s \<leftarrow> write_wide 32 clientName s;
     s \<leftarrow> Stream_Write_UINT32 (se_KeyboardType se) s;
     s \<leftarrow> Stream_Write_UINT32 (se_KeyboardSubType se) s;
     s \<leftarrow> Stream_Write_UINT32 (se_KeyboardFunctionKey se) s;
     s \<leftarrow> Stream_Zero 64 s;
     s \<leftarrow> Stream_Write_UINT16 RNS_UD_COLOR_8BPP s;
     s \<leftarrow> Stream_Write_UINT16 1 s;
     s \<leftarrow> Stream_Write_UINT32 0 s;
     let highColorDepth = (ucast (min (se_ColorDepth se) 24) :: u16);
     let supportedColorDepths = RNS_UD_24BPP_SUPPORT OR RNS_UD_16BPP_SUPPORT OR RNS_UD_15BPP_SUPPORT OR
       (if se_ColorDepth se = 32 then RNS_UD_32BPP_SUPPORT else 0);
     let se = se\<lparr>se_ConnectionType := client_connection_type se\<rparr>;
     let connectionType = (ucast (se_ConnectionType se) :: byte);
     s \<leftarrow> Stream_Write_UINT16 highColorDepth s;
     s \<leftarrow> Stream_Write_UINT16 supportedColorDepths s;
     s \<leftarrow> Stream_Write_UINT16 (client_early_flags se connectionType) s;
     s \<leftarrow> write_wide 64 clientDigProductId s;
     s \<leftarrow> Stream_Write_UINT8 connectionType s;
     s \<leftarrow> Stream_Write_UINT8 0 s;
     s \<leftarrow> Stream_Write_UINT32 (se_SelectedProtocol se) s;
     s \<leftarrow> Stream_Write_UINT32 (se_DesktopPhysicalWidth se) s;
     s \<leftarrow> Stream_Write_UINT32 (se_DesktopPhysicalHeight se) s;
     s \<leftarrow> Stream_Write_UINT16 (se_DesktopOrientation se) s;
     s \<leftarrow> Stream_Write_UINT32 (se_DesktopScaleFactor se) s;
     s \<leftarrow> Stream_Write_UINT32 (se_DeviceScaleFactor se) s;
     Some (m\<lparr>mcs_settings := se\<rparr>, s) }"

section \<open>The core data of the server\<close>

definition server_rdp_version :: "u32 \<Rightarrow> u32 \<Rightarrow> u32" where
  "server_rdp_version version v =
     (if version = RDP_VERSION_4 \<and> v > 4 then 4 else if version = RDP_VERSION_5_PLUS \<and> v < 5 then 7 else v)"

text \<open>The protocols and the flags of the server are read, if they are there, and not used.\<close>

definition gcc_read_server_core_data :: "'w block_reader" where
  "gcc_read_server_core_data m s =
     (if Stream_GetRemainingLength s < 4 then Some (False, m, s)
      else do {
        (version, s) \<leftarrow> Stream_Read_UINT32 s;
        let m = mcs_set_settings (\<lambda>se. se\<lparr>se_RdpVersion := server_rdp_version version (se_RdpVersion se)\<rparr>) m;
        s \<leftarrow> (if Stream_GetRemainingLength s \<ge> 4 then map_option snd (Stream_Read_UINT32 s) else Some s);
        s \<leftarrow> (if Stream_GetRemainingLength s \<ge> 4 then map_option snd (Stream_Read_UINT32 s) else Some s);
        Some (True, m, s) })"

definition gcc_write_server_core_data :: "gcc_env \<Rightarrow> 'w block_reader" where
  "gcc_write_server_core_data E m s = do {
     (ok, s) \<leftarrow> Stream_EnsureRemainingCapacity (ge_alloc E) s 20;
     if \<not> ok then Some (False, m, s)
     else do {
       let se = mcs_settings m;
       s \<leftarrow> gcc_write_user_data_header SC_CORE 16 s;
       s \<leftarrow> Stream_Write_UINT32 (if se_RdpVersion se = 4 then RDP_VERSION_4 else RDP_VERSION_5_PLUS) s;
       s \<leftarrow> Stream_Write_UINT32 (se_RequestedProtocols se) s;
       s \<leftarrow> Stream_Write_UINT32 (if se_SupportDynamicTimeZone se then RNS_UD_SC_DYNAMIC_DST_SUPPORTED else 0) s;
       Some (True, m, s) } }"

section \<open>Security data\<close>

definition gcc_read_client_security_data :: "u16 \<Rightarrow> 'w block_reader" where
  "gcc_read_client_security_data blockLength m s =
     (if blockLength < 8 then Some (False, m, s)
      else if se_UseRdpSecurityLayer (mcs_settings m) then do {
        (methods, s) \<leftarrow> Stream_Read_UINT32 s;
        let m = mcs_set_settings (\<lambda>se. se\<lparr>se_EncryptionMethods := methods\<rparr>) m;
        if methods = 0 then do {
          (methods, s) \<leftarrow> Stream_Read_UINT32 s;
          Some (True, mcs_set_settings (\<lambda>se. se\<lparr>se_EncryptionMethods := methods\<rparr>) m, s) }
        else do { s \<leftarrow> Stream_Seek s 4; Some (True, m, s) } }
      else do { s \<leftarrow> Stream_Seek s 8; Some (True, m, s) })"

definition gcc_write_client_security_data :: "'w rdpMcs \<Rightarrow> writer" where
  "gcc_write_client_security_data m s = do {
     let se = mcs_settings m;
     s \<leftarrow> gcc_write_user_data_header CS_SECURITY 12 s;
     if se_UseRdpSecurityLayer se then do {
       s \<leftarrow> Stream_Write_UINT32 (se_EncryptionMethods se) s;
       Stream_Write_UINT32 0 s }
     else do {
       s \<leftarrow> Stream_Write_UINT32 0 s;
       Stream_Write_UINT32 (se_EncryptionMethods se) s } }"

definition known_encryption_method :: "u32 \<Rightarrow> bool" where
  "known_encryption_method v \<longleftrightarrow> v = ENCRYPTION_METHOD_NONE \<or> v = ENCRYPTION_METHOD_40BIT \<or>
     v = ENCRYPTION_METHOD_56BIT \<or> v = ENCRYPTION_METHOD_128BIT \<or> v = ENCRYPTION_METHOD_FIPS"

definition valid_crypto_config :: "u32 \<Rightarrow> u32 \<Rightarrow> bool" where
  "valid_crypto_config level meth =
     (if level = ENCRYPTION_LEVEL_NONE then meth = ENCRYPTION_METHOD_NONE
      else if level = ENCRYPTION_LEVEL_FIPS then meth = ENCRYPTION_METHOD_FIPS
      else if level = ENCRYPTION_LEVEL_LOW \<or> level = ENCRYPTION_LEVEL_HIGH \<or> level = ENCRYPTION_LEVEL_CLIENT_COMPATIBLE
        then meth = ENCRYPTION_METHOD_40BIT \<or> meth = ENCRYPTION_METHOD_56BIT \<or>
             meth = ENCRYPTION_METHOD_128BIT \<or> meth = ENCRYPTION_METHOD_FIPS
      else False)"

text \<open>\<^verbatim>\<open>malloc(n)\<close> and \<^verbatim>\<open>Stream_Read(s, p, n)\<close>; the flag says whether \<^verbatim>\<open>malloc\<close> succeeded.\<close>

definition stream_read_new :: "byte allocator \<Rightarrow> nat \<Rightarrow> wStream \<Rightarrow> (byte list option \<times> wStream) option" where
  "stream_read_new A n s =
     (case mem_alloc A n of None \<Rightarrow> Some (None, s)
      | Some _ \<Rightarrow> do { (d, s) \<leftarrow> Stream_Read s n; Some (Some d, s) })"

definition gcc_read_server_security_data :: "gcc_env \<Rightarrow> 'w block_reader" where
  "gcc_read_server_security_data E m s =
     (if Stream_GetRemainingLength s < 8 then Some (False, m, s)
      else do {
        (meth, s) \<leftarrow> Stream_Read_UINT32 s;
        (level, s) \<leftarrow> Stream_Read_UINT32 s;
        let m = mcs_set_settings (\<lambda>se. se\<lparr>se_EncryptionLevel := level\<rparr>) m;
        if \<not> known_encryption_method meth then Some (False, m, s)
        else do {
          let m = mcs_set_settings (\<lambda>se. se\<lparr>se_EncryptionMethods := meth\<rparr>) m;
          if \<not> valid_crypto_config level meth then Some (False, m, s)
          else if level = ENCRYPTION_LEVEL_NONE
            then Some (True, mcs_set_settings (\<lambda>se. se\<lparr>se_UseRdpSecurityLayer := False\<rparr>) m, s)
          else if Stream_GetRemainingLength s < 8 then Some (False, m, s)
          else do {
            (randomLen, s) \<leftarrow> Stream_Read_UINT32 s;
            (certLen, s) \<leftarrow> Stream_Read_UINT32 s;
            let m = mcs_set_settings (\<lambda>se. se\<lparr>se_ServerRandomLength := randomLen, se_ServerCertificateLength := certLen\<rparr>) m;
            if Stream_GetRemainingLength s < unat (randomLen + certLen) then Some (False, m, s)
            else if randomLen \<le> 0 \<or> certLen \<le> 0 then Some (False, m, s)
            else do {
              (random, s) \<leftarrow> stream_read_new (ge_alloc E) (unat randomLen) s;
              let m = mcs_set_settings (\<lambda>se. se\<lparr>se_ServerRandom := random\<rparr>) m;
              if random = None then Some (False, m, s)
              else do {
                (cert, s) \<leftarrow> stream_read_new (ge_alloc E) (unat certLen) s;
                let m = mcs_set_settings (\<lambda>se. se\<lparr>se_ServerCertificate := cert\<rparr>) m;
                (case cert of
                   None \<Rightarrow> Some (False, m, s)
                 | Some d \<Rightarrow>
                     let m = mcs_set_settings (\<lambda>se. se\<lparr>se_RdpServerCertificate := ge_certificate_new E\<rparr>) m in
                     Some (ge_certificate_new E \<and> ge_certificate_read_server_certificate E d certLen, m, s)) } } } } })"

text \<open>
  The server's choice: an unknown level becomes client compatible, and the method follows from
  the level and the methods of the client.
\<close>

definition server_encryption_level :: "gcc_settings \<Rightarrow> u32" where
  "server_encryption_level se =
     (let level = (if \<not> se_UseRdpSecurityLayer se then ENCRYPTION_LEVEL_NONE else se_EncryptionLevel se) in
      if level = ENCRYPTION_LEVEL_NONE \<or> level = ENCRYPTION_LEVEL_FIPS \<or> level = ENCRYPTION_LEVEL_HIGH \<or>
         level = ENCRYPTION_LEVEL_LOW \<or> level = ENCRYPTION_LEVEL_CLIENT_COMPATIBLE
      then level else ENCRYPTION_LEVEL_CLIENT_COMPATIBLE)"

definition server_encryption_method :: "u32 \<Rightarrow> u32 \<Rightarrow> u32" where
  "server_encryption_method level methods =
     (if level = ENCRYPTION_LEVEL_NONE then ENCRYPTION_METHOD_NONE
      else if level = ENCRYPTION_LEVEL_FIPS then ENCRYPTION_METHOD_FIPS
      else if level = ENCRYPTION_LEVEL_HIGH then ENCRYPTION_METHOD_128BIT
      else if methods AND ENCRYPTION_METHOD_128BIT \<noteq> 0 then ENCRYPTION_METHOD_128BIT
      else if methods AND ENCRYPTION_METHOD_56BIT \<noteq> 0 then ENCRYPTION_METHOD_56BIT
      else if methods AND ENCRYPTION_METHOD_40BIT \<noteq> 0 then ENCRYPTION_METHOD_40BIT
      else if methods AND ENCRYPTION_METHOD_FIPS \<noteq> 0 then ENCRYPTION_METHOD_FIPS
      else ENCRYPTION_METHOD_128BIT)"

definition initial_signature :: "byte list" where
  "initial_signature = replicate 16 0xFF @ [0x00] @ replicate 45 0xFF @ [0x01]"

text \<open>The random number and the proprietary certificate with the public key of the server, which is signed.\<close>

definition gcc_write_server_certificate :: "gcc_env \<Rightarrow> rdpRsaKey \<Rightarrow> u32 \<Rightarrow> wStream \<Rightarrow> (bool \<times> wStream) option" where
  "gcc_write_server_certificate E key wPublicKeyBlobLen s = do {
     let keyLen = rk_ModulusLength key;
     let sigData = st_pointer s;
     s \<leftarrow> Stream_Write_UINT32 CERT_CHAIN_VERSION_1 s;
     s \<leftarrow> Stream_Write_UINT32 SIGNATURE_ALG_RSA s;
     s \<leftarrow> Stream_Write_UINT32 KEY_EXCHANGE_ALG_RSA s;
     s \<leftarrow> Stream_Write_UINT16 BB_RSA_KEY_BLOB s;
     s \<leftarrow> Stream_Write_UINT16 (ucast wPublicKeyBlobLen) s;
     s \<leftarrow> Stream_Write [0x52, 0x53, 0x41, 0x31] s;
     s \<leftarrow> Stream_Write_UINT32 (keyLen + 8) s;
     s \<leftarrow> Stream_Write_UINT32 (keyLen * 8) s;
     s \<leftarrow> Stream_Write_UINT32 (keyLen - 1) s;
     d \<leftarrow> mem_read (rk_exponent key) 0 4;
     s \<leftarrow> Stream_Write d s;
     d \<leftarrow> mem_read (rk_Modulus key) 0 (unat keyLen);
     s \<leftarrow> Stream_Write d s;
     s \<leftarrow> Stream_Zero 8 s;
     let sigDataLen = st_pointer s - sigData;
     s \<leftarrow> Stream_Write_UINT16 BB_RSA_SIGNATURE_BLOB s;
     s \<leftarrow> Stream_Write_UINT16 (of_nat (TSSK_KEY_LENGTH + 8)) s;
     d \<leftarrow> mem_read (st_buffer s) sigData sigDataLen;
     (case ge_crypto_md5 E d of
        None \<Rightarrow> Some (False, s)
      | Some digest \<Rightarrow> do {
          signature \<leftarrow> mem_write initial_signature 0 digest;
          s \<leftarrow> Stream_Write (ge_crypto_rsa_private_encrypt E signature) s;
          s \<leftarrow> Stream_Zero 8 s;
          Some (True, s) }) }"

definition gcc_write_server_security_data :: "gcc_env \<Rightarrow> 'w block_reader" where
  "gcc_write_server_security_data E m s = do {
     let level = server_encryption_level (mcs_settings m);
     let meth = server_encryption_method level (se_EncryptionMethods (mcs_settings m));
     let m = mcs_set_settings (\<lambda>se. se\<lparr>se_EncryptionLevel := level, se_EncryptionMethods := meth\<rparr>) m;
     let key = se_RsaKey (mcs_settings m);
     _ \<leftarrow> (if meth \<noteq> ENCRYPTION_METHOD_NONE then c_assert (se_RdpServerRsaKey (mcs_settings m)) else Some ());
     let wPublicKeyBlobLen = 4 + 4 + 4 + 4 + 4 + rk_ModulusLength key + 8;
     let serverCertLen = 4 + 4 + 4 + 2 + 2 + wPublicKeyBlobLen + 2 + 2 + of_nat TSSK_KEY_LENGTH + 8;
     let headerLen = (if meth \<noteq> ENCRYPTION_METHOD_NONE then 12 + 4 + 4 + 32 + serverCertLen else 12);
     (ok, s) \<leftarrow> Stream_EnsureRemainingCapacity (ge_alloc E) s (unat (headerLen + 4));
     if \<not> ok then Some (False, m, s)
     else do {
       s \<leftarrow> gcc_write_user_data_header SC_SECURITY (ucast headerLen) s;
       s \<leftarrow> Stream_Write_UINT32 meth s;
       s \<leftarrow> Stream_Write_UINT32 level s;
       if meth = ENCRYPTION_METHOD_NONE then Some (True, m, s)
       else do {
         s \<leftarrow> Stream_Write_UINT32 32 s;
         s \<leftarrow> Stream_Write_UINT32 serverCertLen s;
         _ \<leftarrow> mem_alloc (ge_alloc E) 32;
         let random = ge_crypto_nonce E 32;
         let m = mcs_set_settings (\<lambda>se. se\<lparr>se_ServerRandomLength := 32, se_ServerRandom := Some random\<rparr>) m;
         s \<leftarrow> Stream_Write random s;
         (ok, s) \<leftarrow> gcc_write_server_certificate E key wPublicKeyBlobLen s;
         Some (ok, m, s) } } }"

section \<open>Network data: the channels\<close>

text \<open>The loop over the channel definitions of the client, from index \<open>i\<close>, with \<open>n\<close> rounds left.\<close>

fun read_channel_defs :: "nat \<Rightarrow> nat \<Rightarrow> 'w rdpMcs \<Rightarrow> wStream \<Rightarrow> ('w rdpMcs \<times> wStream) option" where
  "read_channel_defs i 0 m s = Some (m, s)"
| "read_channel_defs i (Suc n) m s = do {
     c \<leftarrow> arr_get (mcs_channels m) i;
     (name, s) \<leftarrow> Stream_Read s 8;
     (options, s) \<leftarrow> Stream_Read_UINT32 s;
     let c = c\<lparr>ch_Name := name, ch_options := options, ch_ChannelId := uint (mcs_baseChannelId m)\<rparr>;
     cs \<leftarrow> arr_set (mcs_channels m) i c;
     read_channel_defs (i + 1) n (m\<lparr>mcs_channels := cs, mcs_baseChannelId := mcs_baseChannelId m + 1\<rparr>) s }"

definition gcc_read_client_network_data :: "u16 \<Rightarrow> 'w block_reader" where
  "gcc_read_client_network_data blockLength m s =
     (if blockLength < 4 then Some (False, m, s)
      else do {
        (count, s) \<leftarrow> Stream_Read_UINT32 s;
        let m = m\<lparr>mcs_channelCount := count\<rparr>;
        if ucast blockLength < 4 + count * 12 then Some (False, m, s)
        else if count > 16 then Some (False, m, s)
        else do {
          (m, s) \<leftarrow> read_channel_defs 0 (unat count) m s;
          Some (True, m, s) } })"

fun write_channel_defs :: "rdpMcsChannel list \<Rightarrow> nat \<Rightarrow> nat \<Rightarrow> writer" where
  "write_channel_defs cs i 0 s = Some s"
| "write_channel_defs cs i (Suc n) s = do {
     c \<leftarrow> arr_get cs i;
     d \<leftarrow> mem_read (ch_Name c) 0 8;
     s \<leftarrow> Stream_Write d s;
     s \<leftarrow> Stream_Write_UINT32 (ch_options c) s;
     write_channel_defs cs (i + 1) n s }"

definition gcc_write_client_network_data :: "'w rdpMcs \<Rightarrow> writer" where
  "gcc_write_client_network_data m s =
     (if mcs_channelCount m > 0 then do {
        s \<leftarrow> gcc_write_user_data_header CS_NET (ucast (mcs_channelCount m * 12 + 8)) s;
        s \<leftarrow> Stream_Write_UINT32 (mcs_channelCount m) s;
        write_channel_defs (mcs_channels m) 0 (unat (mcs_channelCount m)) s }
      else Some s)"

fun read_channel_ids :: "nat \<Rightarrow> nat \<Rightarrow> 'w rdpMcs \<Rightarrow> wStream \<Rightarrow> ('w rdpMcs \<times> wStream) option" where
  "read_channel_ids i 0 m s = Some (m, s)"
| "read_channel_ids i (Suc n) m s = do {
     (channelId, s) \<leftarrow> Stream_Read_UINT16 s;
     c \<leftarrow> arr_get (mcs_channels m) i;
     cs \<leftarrow> arr_set (mcs_channels m) i (c\<lparr>ch_ChannelId := uint channelId\<rparr>);
     read_channel_ids (i + 1) n (m\<lparr>mcs_channels := cs\<rparr>) s }"

definition gcc_read_server_network_data :: "'w block_reader" where
  "gcc_read_server_network_data m s =
     (if Stream_GetRemainingLength s < 4 then Some (False, m, s)
      else do {
        (MCSChannelId, s) \<leftarrow> Stream_Read_UINT16 s;
        (channelCount, s) \<leftarrow> Stream_Read_UINT16 s;
        let parsedChannelCount =
          (if ucast channelCount \<noteq> mcs_channelCount m \<and> ucast channelCount > mcs_channelCount m
           then ucast (mcs_channelCount m) else channelCount);
        if Stream_GetRemainingLength s < unat channelCount * 2 then Some (False, m, s)
        else do {
          (m, s) \<leftarrow> read_channel_ids 0 (unat parsedChannelCount) m s;
          if channelCount mod 2 = 1 then do { (ok, s) \<leftarrow> Stream_SafeSeek s 2; Some (ok, m, s) }
          else Some (True, m, s) } })"

fun write_channel_ids :: "rdpMcsChannel list \<Rightarrow> nat \<Rightarrow> nat \<Rightarrow> writer" where
  "write_channel_ids cs i 0 s = Some s"
| "write_channel_ids cs i (Suc n) s = do {
     c \<leftarrow> arr_get cs i;
     s \<leftarrow> Stream_Write_UINT16 (word_of_int (ch_ChannelId c)) s;
     write_channel_ids cs (i + 1) n s }"

text \<open>The length is computed in \<^verbatim>\<open>UINT32\<close> and kept in an \<^verbatim>\<open>int\<close>.\<close>

definition gcc_write_server_network_data :: "gcc_env \<Rightarrow> 'w block_reader" where
  "gcc_write_server_network_data E m s = do {
     let count = mcs_channelCount m;
     let payloadLen = to_int (unat (8 + count * 2 + (if count mod 2 = 1 then 2 else 0)));
     n \<leftarrow> int_ck (payloadLen + 4);
     (ok, s) \<leftarrow> Stream_EnsureRemainingCapacity (ge_alloc E) s (to_size n);
     if \<not> ok then Some (False, m, s)
     else do {
       s \<leftarrow> gcc_write_user_data_header SC_NET (word_of_int payloadLen) s;
       s \<leftarrow> Stream_Write_UINT16 MCS_GLOBAL_CHANNEL_ID s;
       s \<leftarrow> Stream_Write_UINT16 (ucast count) s;
       s \<leftarrow> write_channel_ids (mcs_channels m) 0 (unat count) s;
       s \<leftarrow> (if count mod 2 = 1 then Stream_Write_UINT16 0 s else Some s);
       Some (True, m, s) } }"

section \<open>Cluster and monitor data\<close>

definition gcc_read_client_cluster_data :: "u16 \<Rightarrow> 'w block_reader" where
  "gcc_read_client_cluster_data blockLength m s =
     (if blockLength < 8 then Some (False, m, s)
      else do {
        (flags, s) \<leftarrow> Stream_Read_UINT32 s;
        (redirectedSessionId, s) \<leftarrow> Stream_Read_UINT32 s;
        let m = (if flags AND REDIRECTED_SESSIONID_FIELD_VALID \<noteq> 0
          then mcs_set_settings (\<lambda>se. se\<lparr>se_RedirectedSessionId := redirectedSessionId\<rparr>) m else m);
        s \<leftarrow> (if blockLength \<noteq> 8 \<and> Stream_GetRemainingLength s \<ge> unat blockLength - 8
          then Stream_Seek s (uint blockLength - 8) else Some s);
        Some (True, m, s) })"

definition gcc_write_client_cluster_data :: "'w rdpMcs \<Rightarrow> writer" where
  "gcc_write_client_cluster_data m s = do {
     let se = mcs_settings m;
     s \<leftarrow> gcc_write_user_data_header CS_CLUSTER 12 s;
     let flags = REDIRECTION_SUPPORTED OR push_bit 2 REDIRECTION_VERSION4 OR
       (if se_ConsoleSession se \<or> se_RedirectedSessionId se \<noteq> 0 then REDIRECTED_SESSIONID_FIELD_VALID else 0);
     s \<leftarrow> Stream_Write_UINT32 flags s;
     Stream_Write_UINT32 (se_RedirectedSessionId se) s }"

fun read_monitors :: "nat \<Rightarrow> nat \<Rightarrow> rdpMonitor list \<Rightarrow> wStream \<Rightarrow> (rdpMonitor list \<times> wStream) option" where
  "read_monitors i 0 ms s = Some (ms, s)"
| "read_monitors i (Suc n) ms s = do {
     (left, s) \<leftarrow> Stream_Read_UINT32 s;
     (top, s) \<leftarrow> Stream_Read_UINT32 s;
     (right, s) \<leftarrow> Stream_Read_UINT32 s;
     (bottom, s) \<leftarrow> Stream_Read_UINT32 s;
     (flags, s) \<leftarrow> Stream_Read_UINT32 s;
     mo \<leftarrow> arr_get ms i;
     ms \<leftarrow> arr_set ms i (mo\<lparr>mo_x := left, mo_y := top, mo_width := right - left + 1, mo_height := bottom - top + 1,
       mo_is_primary := flags AND MONITOR_PRIMARY\<rparr>);
     read_monitors (i + 1) n ms s }"

definition gcc_read_client_monitor_data :: "u16 \<Rightarrow> 'w block_reader" where
  "gcc_read_client_monitor_data blockLength m s =
     (if blockLength < 8 then Some (False, m, s)
      else do {
        (flags, s) \<leftarrow> Stream_Read_UINT32 s;
        (monitorCount, s) \<leftarrow> Stream_Read_UINT32 s;
        if (unat blockLength - 8) div 20 < unat monitorCount then Some (False, m, s)
        else do {
          let m = mcs_set_settings (\<lambda>se. se\<lparr>se_MonitorCount := monitorCount\<rparr>) m;
          (ms, s) \<leftarrow> read_monitors 0 (unat monitorCount) (se_MonitorDefArray (mcs_settings m)) s;
          Some (True, mcs_set_settings (\<lambda>se. se\<lparr>se_MonitorDefArray := ms\<rparr>) m, s) } })"

text \<open>The far corner is computed with signed arithmetic.\<close>

definition monitor_end :: "u32 \<Rightarrow> u32 \<Rightarrow> u32 option" where
  "monitor_end x w = do { a \<leftarrow> int_ck (sint x + sint w); b \<leftarrow> int_ck (a - 1); Some (word_of_int b) }"

fun write_monitors :: "rdpMonitor list \<Rightarrow> nat \<Rightarrow> nat \<Rightarrow> writer" where
  "write_monitors ms i 0 s = Some s"
| "write_monitors ms i (Suc n) s = do {
     mo \<leftarrow> arr_get ms i;
     right \<leftarrow> monitor_end (mo_x mo) (mo_width mo);
     bottom \<leftarrow> monitor_end (mo_y mo) (mo_height mo);
     s \<leftarrow> Stream_Write_UINT32 (mo_x mo) s;
     s \<leftarrow> Stream_Write_UINT32 (mo_y mo) s;
     s \<leftarrow> Stream_Write_UINT32 right s;
     s \<leftarrow> Stream_Write_UINT32 bottom s;
     s \<leftarrow> Stream_Write_UINT32 (if mo_is_primary mo \<noteq> 0 then MONITOR_PRIMARY else 0) s;
     write_monitors ms (i + 1) n s }"

definition gcc_write_client_monitor_data :: "'w rdpMcs \<Rightarrow> writer" where
  "gcc_write_client_monitor_data m s =
     (let se = mcs_settings m in
      if se_MonitorCount se > 1 then do {
        s \<leftarrow> gcc_write_user_data_header CS_MONITOR (ucast (20 * se_MonitorCount se + 12)) s;
        s \<leftarrow> Stream_Write_UINT32 0 s;
        s \<leftarrow> Stream_Write_UINT32 (se_MonitorCount se) s;
        write_monitors (se_MonitorDefArray se) 0 (unat (se_MonitorCount se)) s }
      else Some s)"

fun read_monitor_attributes :: "nat \<Rightarrow> nat \<Rightarrow> rdpMonitor list \<Rightarrow> wStream \<Rightarrow> (rdpMonitor list \<times> wStream) option" where
  "read_monitor_attributes i 0 ms s = Some (ms, s)"
| "read_monitor_attributes i (Suc n) ms s = do {
     (physicalWidth, s) \<leftarrow> Stream_Read_UINT32 s;
     (physicalHeight, s) \<leftarrow> Stream_Read_UINT32 s;
     (orientation, s) \<leftarrow> Stream_Read_UINT32 s;
     (desktopScaleFactor, s) \<leftarrow> Stream_Read_UINT32 s;
     (deviceScaleFactor, s) \<leftarrow> Stream_Read_UINT32 s;
     mo \<leftarrow> arr_get ms i;
     ms \<leftarrow> arr_set ms i (mo\<lparr>mo_attributes := \<lparr>ma_physicalWidth = physicalWidth, ma_physicalHeight = physicalHeight,
       ma_orientation = orientation, ma_desktopScaleFactor = desktopScaleFactor,
       ma_deviceScaleFactor = deviceScaleFactor\<rparr>\<rparr>);
     read_monitor_attributes (i + 1) n ms s }"

definition gcc_read_client_monitor_extended_data :: "u16 \<Rightarrow> 'w block_reader" where
  "gcc_read_client_monitor_extended_data blockLength m s =
     (if blockLength < 12 then Some (False, m, s)
      else do {
        (flags, s) \<leftarrow> Stream_Read_UINT32 s;
        (monitorAttributeSize, s) \<leftarrow> Stream_Read_UINT32 s;
        (monitorCount, s) \<leftarrow> Stream_Read_UINT32 s;
        if monitorAttributeSize \<noteq> 20 then Some (False, m, s)
        else if (unat blockLength - 12) div unat monitorAttributeSize < unat monitorCount then Some (False, m, s)
        else if se_MonitorCount (mcs_settings m) \<noteq> monitorCount then Some (False, m, s)
        else do {
          let m = mcs_set_settings (\<lambda>se. se\<lparr>se_HasMonitorAttributes := True\<rparr>) m;
          (ms, s) \<leftarrow> read_monitor_attributes 0 (unat monitorCount) (se_MonitorDefArray (mcs_settings m)) s;
          Some (True, mcs_set_settings (\<lambda>se. se\<lparr>se_MonitorDefArray := ms\<rparr>) m, s) } })"

fun write_monitor_attributes :: "rdpMonitor list \<Rightarrow> nat \<Rightarrow> nat \<Rightarrow> writer" where
  "write_monitor_attributes ms i 0 s = Some s"
| "write_monitor_attributes ms i (Suc n) s = do {
     mo \<leftarrow> arr_get ms i;
     let a = mo_attributes mo;
     s \<leftarrow> Stream_Write_UINT32 (ma_physicalWidth a) s;
     s \<leftarrow> Stream_Write_UINT32 (ma_physicalHeight a) s;
     s \<leftarrow> Stream_Write_UINT32 (ma_orientation a) s;
     s \<leftarrow> Stream_Write_UINT32 (ma_desktopScaleFactor a) s;
     s \<leftarrow> Stream_Write_UINT32 (ma_deviceScaleFactor a) s;
     write_monitor_attributes ms (i + 1) n s }"

definition gcc_write_client_monitor_extended_data :: "'w rdpMcs \<Rightarrow> writer" where
  "gcc_write_client_monitor_extended_data m s =
     (let se = mcs_settings m in
      if se_HasMonitorAttributes se then do {
        s \<leftarrow> gcc_write_user_data_header CS_MONITOR_EX (ucast (20 * se_MonitorCount se + 16)) s;
        s \<leftarrow> Stream_Write_UINT32 0 s;
        s \<leftarrow> Stream_Write_UINT32 20 s;
        s \<leftarrow> Stream_Write_UINT32 (se_MonitorCount se) s;
        write_monitor_attributes (se_MonitorDefArray se) 0 (unat (se_MonitorCount se)) s }
      else Some s)"

section \<open>Message channel and multitransport data\<close>

definition gcc_read_client_message_channel_data :: "u16 \<Rightarrow> 'w block_reader" where
  "gcc_read_client_message_channel_data blockLength m s =
     (if blockLength < 4 then Some (False, m, s)
      else do {
        (flags, s) \<leftarrow> Stream_Read_UINT32 s;
        Some (True, m\<lparr>mcs_messageChannelId := mcs_baseChannelId m, mcs_baseChannelId := mcs_baseChannelId m + 1\<rparr>, s) })"

definition gcc_write_client_message_channel_data :: "'w rdpMcs \<Rightarrow> writer" where
  "gcc_write_client_message_channel_data m s =
     (let se = mcs_settings m in
      if se_NetworkAutoDetect se \<or> se_SupportHeartbeatPdu se \<or> se_SupportMultitransport se then do {
        s \<leftarrow> gcc_write_user_data_header CS_MCS_MSGCHANNEL 8 s;
        Stream_Write_UINT32 0 s }
      else Some s)"

definition gcc_read_server_message_channel_data :: "'w block_reader" where
  "gcc_read_server_message_channel_data m s =
     (if Stream_GetRemainingLength s < 2 then Some (False, m, s)
      else do {
        (MCSChannelId, s) \<leftarrow> Stream_Read_UINT16 s;
        Some (True, m\<lparr>mcs_messageChannelId := MCSChannelId\<rparr>, s) })"

definition gcc_write_server_message_channel_data :: "gcc_env \<Rightarrow> 'w block_reader" where
  "gcc_write_server_message_channel_data E m s =
     (if mcs_messageChannelId m = 0 then Some (True, m, s)
      else do {
        (ok, s) \<leftarrow> Stream_EnsureRemainingCapacity (ge_alloc E) s (2 + 4);
        if \<not> ok then Some (False, m, s)
        else do {
          s \<leftarrow> gcc_write_user_data_header SC_MCS_MSGCHANNEL 6 s;
          s \<leftarrow> Stream_Write_UINT16 (mcs_messageChannelId m) s;
          Some (True, m, s) } })"

definition gcc_read_client_multitransport_channel_data :: "u16 \<Rightarrow> 'w block_reader" where
  "gcc_read_client_multitransport_channel_data blockLength m s =
     (if blockLength < 4 then Some (False, m, s)
      else do { (flags, s) \<leftarrow> Stream_Read_UINT32 s; Some (True, m, s) })"

definition gcc_write_client_multitransport_channel_data :: "'w rdpMcs \<Rightarrow> writer" where
  "gcc_write_client_multitransport_channel_data m s =
     (let se = mcs_settings m in
      if se_MultitransportFlags se \<noteq> 0 then do {
        s \<leftarrow> gcc_write_user_data_header CS_MULTITRANSPORT 8 s;
        Stream_Write_UINT32 (se_MultitransportFlags se) s }
      else Some s)"

definition gcc_read_server_multitransport_channel_data :: "'w block_reader" where
  "gcc_read_server_multitransport_channel_data m s =
     (if Stream_GetRemainingLength s < 4 then Some (False, m, s)
      else do { (flags, s) \<leftarrow> Stream_Read_UINT32 s; Some (True, m, s) })"

definition gcc_write_server_multitransport_channel_data :: writer where
  "gcc_write_server_multitransport_channel_data s = do {
     s \<leftarrow> gcc_write_user_data_header SC_MULTITRANSPORT 8 s;
     Stream_Write_UINT32 0 s }"

section \<open>Sequences of blocks\<close>

definition gcc_read_client_block :: "gcc_env \<Rightarrow> u16 \<Rightarrow> u16 \<Rightarrow> 'w block_reader" where
  "gcc_read_client_block E type len m s =
     (if type = CS_CORE then gcc_read_client_core_data E len m s
      else if type = CS_SECURITY then gcc_read_client_security_data len m s
      else if type = CS_NET then gcc_read_client_network_data len m s
      else if type = CS_CLUSTER then gcc_read_client_cluster_data len m s
      else if type = CS_MONITOR then gcc_read_client_monitor_data len m s
      else if type = CS_MCS_MSGCHANNEL then gcc_read_client_message_channel_data len m s
      else if type = CS_MONITOR_EX then gcc_read_client_monitor_extended_data len m s
      else if type = 0xC009 \<or> type = CS_MULTITRANSPORT then gcc_read_client_multitransport_channel_data len m s
      else do { s \<leftarrow> Stream_Seek s (uint len); Some (True, m, s) })"

text \<open>The loop of the server over the blocks of the client; \<open>len\<close> is the number of bytes left.\<close>

partial_function (option) gcc_read_client_data_blocks ::
    "gcc_env \<Rightarrow> 'w rdpMcs \<Rightarrow> int \<Rightarrow> wStream \<Rightarrow> (bool \<times> 'w rdpMcs \<times> wStream) option" where
  "gcc_read_client_data_blocks E m len s =
     (if len > 0 then do {
        let begPos = to_int (Stream_GetPosition s);
        (h, s) \<leftarrow> gcc_read_user_data_header s;
        (case h of
           None \<Rightarrow> Some (False, m, s)
         | Some (type, blockLength) \<Rightarrow>
             if Stream_GetRemainingLength s < to_size (uint blockLength - 4) then Some (False, m, s)
             else do {
               (ok, m, s) \<leftarrow> gcc_read_client_block E type (word_of_int (uint blockLength - 4)) m s;
               if \<not> ok then Some (False, m, s)
               else do {
                 endPos \<leftarrow> int_ck (begPos + uint blockLength);
                 len \<leftarrow> int_ck (len - uint blockLength);
                 s \<leftarrow> Stream_SetPosition s (to_size endPos);
                 gcc_read_client_data_blocks E m len s } }) }
      else Some (True, m, s))"

definition gcc_write_client_data_blocks :: "gcc_env \<Rightarrow> 'w rdpMcs \<Rightarrow> wStream \<Rightarrow> ('w rdpMcs \<times> wStream) option" where
  "gcc_write_client_data_blocks E m s = do {
     (m, s) \<leftarrow> gcc_write_client_core_data E m s;
     s \<leftarrow> gcc_write_client_cluster_data m s;
     s \<leftarrow> gcc_write_client_security_data m s;
     s \<leftarrow> gcc_write_client_network_data m s;
     let se = mcs_settings m;
     let multimon = (se_UseMultimon se \<and> \<not> se_SpanMonitors se);
     if se_NegotiationFlags se AND ucast EXTENDED_CLIENT_DATA_SUPPORTED \<noteq> 0 then do {
       s \<leftarrow> (if multimon then do {
           s \<leftarrow> gcc_write_client_monitor_data m s;
           gcc_write_client_monitor_extended_data m s } else Some s);
       s \<leftarrow> gcc_write_client_message_channel_data m s;
       s \<leftarrow> gcc_write_client_multitransport_channel_data m s;
       Some (m, s) }
     else do {
       s \<leftarrow> (if multimon \<and> se_ForceMultimon se then do {
           s \<leftarrow> gcc_write_client_monitor_data m s;
           gcc_write_client_monitor_extended_data m s } else Some s);
       Some (m, s) } }"

definition gcc_read_server_block :: "gcc_env \<Rightarrow> u16 \<Rightarrow> 'w block_reader" where
  "gcc_read_server_block E type m s =
     (if type = SC_CORE then gcc_read_server_core_data m s
      else if type = SC_SECURITY then gcc_read_server_security_data E m s
      else if type = SC_NET then gcc_read_server_network_data m s
      else if type = SC_MCS_MSGCHANNEL then gcc_read_server_message_channel_data m s
      else if type = SC_MULTITRANSPORT then gcc_read_server_multitransport_channel_data m s
      else Some (True, m, s))"

text \<open>The loop of the client over the blocks of the server; the offset is a \<^verbatim>\<open>UINT16\<close>.\<close>

partial_function (option) gcc_read_server_blocks_from ::
    "gcc_env \<Rightarrow> int \<Rightarrow> u16 \<Rightarrow> 'w rdpMcs \<Rightarrow> wStream \<Rightarrow> (bool \<times> 'w rdpMcs \<times> wStream) option" where
  "gcc_read_server_blocks_from E len offset m s =
     (if uint offset < len then do {
        let holdp = Stream_GetPosition s;
        (h, s) \<leftarrow> gcc_read_user_data_header s;
        (case h of
           None \<Rightarrow> Some (False, m, s)
         | Some (type, blockLength) \<Rightarrow> do {
             (ok, m, s) \<leftarrow> gcc_read_server_block E type m s;
             if \<not> ok then Some (False, m, s)
             else do {
               s \<leftarrow> Stream_SetPosition s (holdp + unat blockLength);
               gcc_read_server_blocks_from E len (offset + blockLength) m s } }) }
      else Some (True, m, s))"

definition gcc_read_server_data_blocks ::
    "gcc_env \<Rightarrow> 'w rdpMcs \<Rightarrow> int \<Rightarrow> wStream \<Rightarrow> (bool \<times> 'w rdpMcs \<times> wStream) option" where
  "gcc_read_server_data_blocks E m len s = gcc_read_server_blocks_from E len 0 m s"

definition gcc_write_server_data_blocks :: "gcc_env \<Rightarrow> 'w block_reader" where
  "gcc_write_server_data_blocks E m s = do {
     (ok, m, s) \<leftarrow> gcc_write_server_core_data E m s;
     if \<not> ok then Some (False, m, s)
     else do {
       (ok, m, s) \<leftarrow> gcc_write_server_network_data E m s;
       if \<not> ok then Some (False, m, s)
       else do {
         (ok, m, s) \<leftarrow> gcc_write_server_security_data E m s;
         if \<not> ok then Some (False, m, s)
         else gcc_write_server_message_channel_data E m s } } }"

section \<open>Conference create PDUs\<close>

definition t124_02_98_oid :: "byte list" where "t124_02_98_oid = [0, 0, 20, 124, 0, 1]"
definition h221_cs_key :: "byte list" where "h221_cs_key = [0x44, 0x75, 0x63, 0x61]"
definition h221_sc_key :: "byte list" where "h221_sc_key = [0x4D, 0x63, 0x44, 0x6E]"

text \<open>The part of the request before the user data; the result is the length of these.\<close>

definition gcc_request_header :: "u16 reader" where
  "gcc_request_header =
     try_read per_read_choice (\<lambda>_.
     try_read (per_read_object_identifier t124_02_98_oid) (\<lambda>_.
     try_read per_read_length (\<lambda>_.
     try_read per_read_choice (\<lambda>_.
     try_read per_read_selection (\<lambda>_.
     try_read (per_read_numeric_string 1) (\<lambda>_.
     try_read (per_read_padding 1) (\<lambda>_.
     try_read per_read_number_of_sets (\<lambda>number s. if number \<noteq> 1 then Some (None, s) else
     try_read per_read_choice (\<lambda>choice s. if choice \<noteq> 0xC0 then Some (None, s) else
     try_read (per_read_octet_string h221_cs_key 4 4) (\<lambda>_.
     try_read per_read_length (\<lambda>len s.
       if Stream_GetRemainingLength s < unat len then Some (None, s) else Some (Some len, s))) s) s))))))))"

definition gcc_read_conference_create_request :: "gcc_env \<Rightarrow> 'w block_reader" where
  "gcc_read_conference_create_request E m s = do {
     (h, s) \<leftarrow> gcc_request_header s;
     (case h of None \<Rightarrow> Some (False, m, s)
      | Some len \<Rightarrow> gcc_read_client_data_blocks E m (uint len) s) }"

definition gcc_write_conference_create_request :: "wStream \<Rightarrow> writer" where
  "gcc_write_conference_create_request userData s = do {
     s \<leftarrow> per_write_choice 0 s;
     s \<leftarrow> per_write_object_identifier t124_02_98_oid s;
     s \<leftarrow> per_write_length (to_int (sz_add (Stream_GetPosition userData) 14)) s;
     s \<leftarrow> per_write_choice 0 s;
     s \<leftarrow> per_write_selection 0x08 s;
     s \<leftarrow> per_write_numeric_string [0x31] 1 1 s;
     s \<leftarrow> per_write_padding 1 s;
     s \<leftarrow> per_write_number_of_sets 1 s;
     s \<leftarrow> per_write_choice 0xC0 s;
     s \<leftarrow> per_write_octet_string h221_cs_key 4 4 s;
     per_write_octet_string (st_buffer userData) (to_int (Stream_GetPosition userData)) 0 s }"

definition gcc_response_header :: "u16 reader" where
  "gcc_response_header =
     try_read per_read_choice (\<lambda>_.
     try_read (per_read_object_identifier t124_02_98_oid) (\<lambda>_.
     try_read per_read_length (\<lambda>_.
     try_read per_read_choice (\<lambda>_.
     try_read (per_read_integer16 1001) (\<lambda>_.
     try_read per_read_integer (\<lambda>_.
     try_read (per_read_enumerated MCS_Result_enum_length) (\<lambda>_.
     try_read per_read_number_of_sets (\<lambda>_.
     try_read per_read_choice (\<lambda>_.
     try_read (per_read_octet_string h221_sc_key 4 4) (\<lambda>_. per_read_length))))))))))"

definition gcc_read_conference_create_response :: "gcc_env \<Rightarrow> 'w block_reader" where
  "gcc_read_conference_create_response E m s = do {
     (h, s) \<leftarrow> gcc_response_header s;
     (case h of None \<Rightarrow> Some (False, m, s)
      | Some len \<Rightarrow> gcc_read_server_data_blocks E m (uint len) s) }"

definition gcc_write_conference_create_response :: "wStream \<Rightarrow> writer" where
  "gcc_write_conference_create_response userData s = do {
     s \<leftarrow> per_write_choice 0 s;
     s \<leftarrow> per_write_object_identifier t124_02_98_oid s;
     s \<leftarrow> per_write_length 0x2A s;
     s \<leftarrow> per_write_choice 0x14 s;
     s \<leftarrow> per_write_integer16 1001 0x79F3 s;
     s \<leftarrow> per_write_integer 1 s;
     s \<leftarrow> per_write_enumerated MCS_Result_enum_length 0 s;
     s \<leftarrow> per_write_number_of_sets 1 s;
     s \<leftarrow> per_write_choice 0xC0 s;
     s \<leftarrow> per_write_octet_string h221_sc_key 4 4 s;
     per_write_octet_string (st_buffer userData) (to_int (Stream_GetPosition userData)) 0 s }"

end
