(* ===== verification/GccBlocks.thy ===== *)
theory GccBlocks
  imports Gcc
begin

unbundle bit_operations_syntax

text \<open>
  The data blocks of \<open>Gcc\<close>. A server reads the blocks of a client that it has not authenticated:
  the first part shows what it needs in order to be safe against every sequence of bytes, and
  where the code does not provide it. The contract \<open>block_handler\<close> is what the loop over the blocks relies on.
  The second part shows that the blocks a client writes are the ones the server reads, and that
  both sides end up with the same channels.
\<close>

section \<open>Headers\<close>

text \<open>A length below the size of the header is rejected, since the difference becomes a huge unsigned number.\<close>

lemma to_size_of_nat: "n < SIZE_MOD \<Longrightarrow> to_size (int n) = n"
  by (simp add: to_size_def)

lemma to_size_diff_le:
  assumes "a < 2 ^ 32" "b < 2 ^ 32" "n < BLOCK_MAX"
  shows "to_size (int a - int b) \<le> n \<longleftrightarrow> b \<le> a \<and> a - b \<le> n"
proof (cases "b \<le> a")
  case True
  then have "int a - int b = int (a - b)" by simp
  moreover have "to_size (int (a - b)) = a - b"
    using assms(1) by (intro to_size_of_nat) (simp add: SIZE_MOD_def)
  ultimately show ?thesis using True by simp
next
  case False
  have "(int a - int b) mod int SIZE_MOD = (int a - int b + int SIZE_MOD) mod int SIZE_MOD" by simp
  also have "\<dots> = int a - int b + int SIZE_MOD"
    using False assms by (intro mod_pos_pos_trivial) (auto simp: SIZE_MOD_def)
  finally have "to_size (int a - int b) = nat (int a - int b + int SIZE_MOD)"
    by (simp add: to_size_def)
  then show ?thesis using False assms by (simp add: SIZE_MOD_def BLOCK_MAX_def nat_le_iff)
qed

definition gcc_dec_header :: "byte list \<Rightarrow> (u16 \<times> u16) option \<times> nat" where
  "gcc_dec_header bs =
     (if length bs < 4 then (None, 0)
      else let len = le16 (drop 2 bs) in
        (if 4 \<le> unat len \<and> unat len \<le> length bs then Some (le16 bs, len) else None, 4))"

lemma gcc_header_decodes: "decodes gcc_read_user_data_header gcc_dec_header"
proof (rule decodesI)
  fix s assume s: "stream_wf s"
  show "snd (gcc_dec_header (st_rest s)) \<le> length (st_rest s)"
    by (simp add: gcc_dec_header_def Let_def)
  show "gcc_read_user_data_header s = Some (fst (gcc_dec_header (st_rest s)), stream_skip (snd (gcc_dec_header (st_rest s))) s)"
  proof (cases "length (st_rest s) < 4")
    case True
    then show ?thesis using s by (simp add: gcc_read_user_data_header_def gcc_dec_header_def stream_simps)
  next
    case False
    define len where "len = le16 (drop 2 (st_rest s))"
    have lb: "length (st_rest s) - 4 < BLOCK_MAX" using rest_less_BLOCK_MAX [OF s] by simp
    have u: "unat len < 2 ^ 32" using unsigned_less [of len, where ?'a = nat] by simp
    have "length (st_rest s) - 4 < to_size (uint len - 4) \<longleftrightarrow> \<not> (4 \<le> unat len \<and> unat len \<le> length (st_rest s))"
      using to_size_diff_le [OF u _ lb, of 4] False by (auto simp: not_le)
    then show ?thesis using s False
      by (auto simp: gcc_read_user_data_header_def gcc_dec_header_def stream_simps Let_def len_def)
  qed
qed

section \<open>Safety of the server\<close>

text \<open>
  The blocks of memory a client can make the server write to. The array of the monitors must
  have room for the largest number of monitors that fits in a block; \<^verbatim>\<open>settings.c\<close> gives it 32 cells.
\<close>

definition settings_room :: "gcc_settings \<Rightarrow> bool" where
  "settings_room se \<longleftrightarrow> length (se_ClientHostname se) = 32 \<and> length (se_ClientProductId se) = 32 \<and>
     3276 \<le> length (se_MonitorDefArray se)"

definition gcc_room :: "'w rdpMcs \<Rightarrow> bool" where
  "gcc_room m \<longleftrightarrow> 16 \<le> length (mcs_channels m) \<and> settings_room (mcs_settings m)"

definition block_safe :: "('w rdpMcs \<Rightarrow> bool) \<Rightarrow> nat \<Rightarrow> 'w block_reader \<Rightarrow> bool" where
  "block_safe P need r \<longleftrightarrow> (\<forall>m s. P m \<longrightarrow> stream_wf s \<longrightarrow> need \<le> length (st_rest s) \<longrightarrow>
     (\<exists>ok m' n. r m s = Some (ok, m', stream_skip n s) \<and> n \<le> length (st_rest s) \<and> P m'))"

lemma block_safeI:
  assumes "\<And>m s. P m \<Longrightarrow> stream_wf s \<Longrightarrow> need \<le> length (st_rest s) \<Longrightarrow>
     \<exists>ok m' n. r m s = Some (ok, m', stream_skip n s) \<and> n \<le> length (st_rest s) \<and> P m'"
  shows "block_safe P need r"
  using assms by (simp add: block_safe_def)

lemma block_safeD:
  assumes "block_safe P need r" "P m" "stream_wf s" "need \<le> length (st_rest s)"
  obtains ok m' n where "r m s = Some (ok, m', stream_skip n s)" "n \<le> length (st_rest s)" "P m'"
  using assms unfolding block_safe_def by blast

lemma block_safe_if:
  "block_safe P need r \<Longrightarrow> block_safe P need r' \<Longrightarrow> block_safe P need (\<lambda>m s. if b then r m s else r' m s)"
  by (simp add: block_safe_def)

text \<open>A reader that rejects blocks shorter than \<open>k\<close>.\<close>

lemma block_safe_min:
  assumes "\<And>m s. len < k \<Longrightarrow> r m s = Some (False, m, s)"
    and "\<And>m s. k \<le> len \<Longrightarrow> P m \<Longrightarrow> stream_wf s \<Longrightarrow> unat len \<le> length (st_rest s) \<Longrightarrow> unat k \<le> length (st_rest s) \<Longrightarrow>
     \<exists>ok m' n. r m s = Some (ok, m', stream_skip n s) \<and> n \<le> length (st_rest s) \<and> P m'"
  shows "block_safe P (unat (len :: u16)) r"
proof (rule block_safeI)
  fix m s assume *: "P m" "stream_wf s" "unat len \<le> length (st_rest s)"
  show "\<exists>ok m' n. r m s = Some (ok, m', stream_skip n s) \<and> n \<le> length (st_rest s) \<and> P m'"
  proof (cases "len < k")
    case True
    then show ?thesis using assms(1) *(1) by (auto intro!: exI [of _ 0])
  next
    case False
    then show ?thesis using assms(2) * by (simp add: word_le_nat_alt word_less_nat_alt)
  qed
qed

text \<open>The fields of the core data: each consumes exactly its size.\<close>

definition core_ok :: "nat \<times> core_field \<Rightarrow> bool" where
  "core_ok nf \<longleftrightarrow> (\<forall>c s. stream_wf s \<longrightarrow> fst nf \<le> length (st_rest s) \<longrightarrow> settings_room (co_settings c) \<longrightarrow>
     (\<exists>c'. snd nf c s = Some (c', stream_skip (fst nf) s) \<and> co_blockLength c' = co_blockLength c \<and>
        settings_room (co_settings c')))"

lemma core_run_ok:
  assumes "\<And>nf. nf \<in> set fs \<Longrightarrow> core_ok nf" "stream_wf s" "sum_list (map fst fs) \<le> length (st_rest s)"
    "settings_room (co_settings c)"
  shows "\<exists>c'. core_run fs c s = Some (c', stream_skip (sum_list (map fst fs)) s) \<and>
     co_blockLength c' = co_blockLength c \<and> settings_room (co_settings c')"
  using assms
proof (induction fs arbitrary: c s)
  case Nil
  then show ?case by simp
next
  case (Cons nf fs)
  obtain n f where nf: "nf = (n, f)" by fastforce
  have "n \<le> length (st_rest s)" using Cons.prems(3) nf by simp
  then obtain c1 where c1: "f c s = Some (c1, stream_skip n s)" "co_blockLength c1 = co_blockLength c"
      "settings_room (co_settings c1)"
    using Cons.prems(1) [of nf] Cons.prems(2,4) nf by (auto simp: core_ok_def)
  have "\<exists>c'. core_run fs c1 (stream_skip n s) = Some (c', stream_skip (sum_list (map fst fs)) (stream_skip n s)) \<and>
     co_blockLength c' = co_blockLength c1 \<and> settings_room (co_settings c')"
    using Cons.prems nf c1 by (intro Cons.IH) auto
  then show ?case using nf c1 by auto
qed

lemma core_optional_ok:
  assumes "\<And>nf. nf \<in> set fs \<Longrightarrow> core_ok nf" "stream_wf s" "unat (co_blockLength c) \<le> length (st_rest s)"
    "settings_room (co_settings c)"
  shows "\<exists>b c' n. core_optional fs c s = Some (b, c', stream_skip n s) \<and> n \<le> unat (co_blockLength c) \<and>
     settings_room (co_settings c')"
  using assms
proof (induction fs arbitrary: c s)
  case Nil
  then show ?case by (auto intro: exI [of _ 0])
next
  case (Cons nf fs)
  obtain n f where nf: "nf = (n, f)" by fastforce
  show ?case
  proof (cases "unat (co_blockLength c) < n")
    case True
    then show ?thesis using Cons.prems(4) nf by (auto intro: exI [of _ 0])
  next
    case False
    then have "n \<le> length (st_rest s)" using Cons.prems(3) by linarith
    then obtain c1 where c1: "f c s = Some (c1, stream_skip n s)" "co_blockLength c1 = co_blockLength c"
        "settings_room (co_settings c1)"
      using Cons.prems(1) [of nf] Cons.prems(2-4) nf by (auto simp: core_ok_def)
    let ?c = "c1\<lparr>co_blockLength := co_blockLength c1 - of_nat n\<rparr>"
    have n: "unat (of_nat n :: u16) = n"
      using False unsigned_less [of "co_blockLength c", where ?'a = nat] by (simp add: unat_of_nat)
    then have u: "unat (co_blockLength ?c) = unat (co_blockLength c) - n"
      using False c1(2) by (simp add: unat_sub word_le_nat_alt)
    have w: "stream_wf (stream_skip n s)" using Cons.prems(2) \<open>n \<le> length (st_rest s)\<close> by (rule stream_wf_skip)
    have "unat (co_blockLength ?c) \<le> length (st_rest (stream_skip n s))"
      unfolding u using Cons.prems(3) by (simp add: diff_le_mono)
    then obtain b c' k where "core_optional fs ?c (stream_skip n s) = Some (b, c', stream_skip k (stream_skip n s))"
        "k \<le> unat (co_blockLength ?c)" "settings_room (co_settings c')"
      using Cons.IH [of "stream_skip n s" ?c, OF _ w] Cons.prems c1 by auto
    then show ?thesis using nf c1 u False by (auto intro!: exI [of _ "n + k"])
  qed
qed

lemma core_simple_ok:
  assumes "\<And>v c. co_blockLength (f8 v c) = co_blockLength c \<and> settings_room (co_settings (f8 v c)) = settings_room (co_settings c)"
    and "\<And>v c. co_blockLength (f16 v c) = co_blockLength c \<and> settings_room (co_settings (f16 v c)) = settings_room (co_settings c)"
    and "\<And>v c. co_blockLength (f32 v c) = co_blockLength c \<and> settings_room (co_settings (f32 v c)) = settings_room (co_settings c)"
  shows "core_ok (1, core_u8 f8)" "core_ok (2, core_u16 f16)" "core_ok (4, core_u32 f32)"
  using assms
  by (auto simp: core_ok_def core_u8_def core_u16_def core_u32_def stream_simps Suc_le_eq)

lemma core_u8_ok: "(\<And>v c. co_blockLength (f v c) = co_blockLength c \<and> settings_room (co_settings (f v c)) = settings_room (co_settings c))
    \<Longrightarrow> core_ok (1, core_u8 f)"
  by (rule core_simple_ok(1) [of f "\<lambda>v c. c" "\<lambda>v c. c"]) auto

lemma core_u16_ok: "(\<And>v c. co_blockLength (f v c) = co_blockLength c \<and> settings_room (co_settings (f v c)) = settings_room (co_settings c))
    \<Longrightarrow> core_ok (2, core_u16 f)"
  by (rule core_simple_ok(2) [of "\<lambda>v c. c" f "\<lambda>v c. c"]) auto

lemma core_u32_ok: "(\<And>v c. co_blockLength (f v c) = co_blockLength c \<and> settings_room (co_settings (f v c)) = settings_room (co_settings c))
    \<Longrightarrow> core_ok (4, core_u32 f)"
  by (rule core_simple_ok(3) [of "\<lambda>v c. c" "\<lambda>v c. c" f]) auto

lemma core_seek_ok: "core_ok (n, core_seek n)"
  by (auto simp: core_ok_def core_seek_def stream_simps)

lemma sprintf_str_ok:
  assumes "n \<le> length buf" "0 < n" "str \<noteq> None"
  shows "\<exists>h. sprintf_str buf n str = Some h \<and> length h = length buf"
proof -
  obtain b where "str = Some b" using assms(3) by blast
  moreover have "length (take (n - 1) (takeWhile (\<lambda>c. c \<noteq> 0) b) @ [0]) \<le> length buf" using assms(1,2) by simp
  ultimately show ?thesis by (simp add: sprintf_str_def mem_write_def)
qed

lemma core_strings_ok:
  assumes "\<And>w. ge_ConvertFromUnicode E w \<noteq> None"
  shows "core_ok (32, core_hostname E)" "core_ok (64, core_product E)"
proof -
  have rd: "mem_read (st_buffer s) (st_pointer s) n = Some (take n (st_rest s))" if "stream_wf s" "n \<le> length (st_rest s)" for s n
    using take_st_rest [OF that] by (simp add: mem_read_def)
  show "core_ok (32, core_hostname E)"
    unfolding core_ok_def fst_conv snd_conv
  proof (intro allI impI)
    fix c :: core_data and s assume s: "stream_wf s" "32 \<le> length (st_rest s)" and r: "settings_room (co_settings c)"
    have l: "length (se_ClientHostname (co_settings c)) = 32" using r by (simp add: settings_room_def)
    then obtain h where h: "sprintf_str (se_ClientHostname (co_settings c)) 31 (ge_ConvertFromUnicode E (take 32 (st_rest s))) = Some h"
        "length h = 32"
      using sprintf_str_ok [of 31 "se_ClientHostname (co_settings c)", OF _ _ assms] by auto
    show "\<exists>c'. core_hostname E c s = Some (c', stream_skip 32 s) \<and> co_blockLength c' = co_blockLength c \<and>
        settings_room (co_settings c')"
      using rd [OF s] h Stream_Seek_skip [OF s] r by (simp add: core_hostname_def arr_set_def settings_room_def)
  qed
  show "core_ok (64, core_product E)"
    unfolding core_ok_def fst_conv snd_conv
  proof (intro allI impI)
    fix c :: core_data and s assume s: "stream_wf s" "64 \<le> length (st_rest s)" and r: "settings_room (co_settings c)"
    have l: "length (se_ClientProductId (co_settings c)) = 32" using r by (simp add: settings_room_def)
    then obtain h where h: "sprintf_str (se_ClientProductId (co_settings c)) 32 (ge_ConvertFromUnicode E (take 64 (st_rest s))) = Some h"
        "length h = 32"
      using sprintf_str_ok [of 32 "se_ClientProductId (co_settings c)", OF _ _ assms] by auto
    show "\<exists>c'. core_product E c s = Some (c', stream_skip 64 s) \<and> co_blockLength c' = co_blockLength c \<and>
        settings_room (co_settings c')"
      using rd [OF s] h Stream_Seek_skip [OF s] r by (simp add: core_product_def settings_room_def)
  qed
qed

lemma core_fields_ok:
  assumes "\<And>w. ge_ConvertFromUnicode E w \<noteq> None"
  shows "nf \<in> set (core_required E) \<Longrightarrow> core_ok nf" "nf \<in> set (core_optional_fields E) \<Longrightarrow> core_ok nf"
  unfolding core_required_def core_optional_fields_def list.set insert_iff empty_iff
  using core_strings_ok [OF assms]
  by (auto intro!: core_u8_ok core_u16_ok core_u32_ok core_seek_ok simp: settings_room_def simp del: One_nat_def)

lemma room_settings:
  "gcc_room m \<Longrightarrow> settings_room se \<Longrightarrow> gcc_room (m\<lparr>mcs_settings := se\<rparr>)"
  by (simp add: gcc_room_def)

lemma core_settings_room: "settings_room (co_settings c) \<Longrightarrow> settings_room (core_settings c d)"
  by (simp add: core_settings_def settings_room_def Let_def)

lemma core_data_safe:
  assumes "\<And>w. ge_ConvertFromUnicode E w \<noteq> None"
  shows "block_safe gcc_room (unat len) (gcc_read_client_core_data E len)"
proof (rule block_safeI)
  fix m :: "'a rdpMcs" and s assume m: "gcc_room m" and s: "stream_wf s" "unat len \<le> length (st_rest s)"
  show "\<exists>ok m' n. gcc_read_client_core_data E len m s = Some (ok, m', stream_skip n s) \<and> n \<le> length (st_rest s) \<and> gcc_room m'"
  proof (cases "len < 128")
    case True
    then show ?thesis using m by (auto simp: gcc_read_client_core_data_def intro: exI [of _ 0])
  next
    case False
    define c0 where "c0 = \<lparr>co_blockLength = len, co_colorDepth = 0, co_postBeta2ColorDepth = 0, co_highColorDepth = 0,
          co_supportedColorDepths = 0, co_earlyCapabilityFlags = 0, co_connectionType = 0,
          co_serverSelectedProtocol = 0, co_settings = mcs_settings m\<rparr>"
    have sum: "sum_list (map fst (core_required E)) = 128" by (simp add: core_required_def)
    have L: "128 \<le> unat len" using False by (simp add: word_less_nat_alt)
    have r0: "settings_room (co_settings c0)" using m by (simp add: c0_def gcc_room_def)
    obtain c1 where c1: "core_run (core_required E) c0 s = Some (c1, stream_skip 128 s)" "co_blockLength c1 = len"
        "settings_room (co_settings c1)"
      using core_run_ok [of "core_required E", OF core_fields_ok(1) [OF assms] s(1) _ r0] sum L s(2) by (auto simp: c0_def)
    define c2 where "c2 = c1\<lparr>co_blockLength := co_blockLength c1 - 128\<rparr>"
    have u: "unat (co_blockLength c2) = unat len - 128"
      using L c1(2) by (simp add: c2_def unat_sub word_le_nat_alt)
    have w: "stream_wf (stream_skip 128 s)" using s L by (intro stream_wf_skip) simp_all
    have "unat (co_blockLength c2) \<le> length (st_rest (stream_skip 128 s))"
      unfolding u using s(2) by (simp add: diff_le_mono)
    then obtain b c3 n where c3: "core_optional (core_optional_fields E) c2 (stream_skip 128 s) = Some (b, c3, stream_skip n (stream_skip 128 s))"
        "n \<le> unat (co_blockLength c2)" "settings_room (co_settings c3)"
      using core_optional_ok [OF core_fields_ok(2) [OF assms], of "core_optional_fields E" "stream_skip 128 s" c2, OF _ w]
        c1(3) by (auto simp: c2_def)
    have fit: "128 + n \<le> length (st_rest s)" using c3(2) u L s(2) by linarith
    show ?thesis
      using False c1(1) c3(1) room_settings [OF m c3(3)] room_settings [OF m core_settings_room [OF c3(3)]] fit
      by (auto simp: gcc_read_client_core_data_def c0_def [symmetric] c2_def [symmetric] Let_def
          intro!: exI [of _ "128 + n"] split: option.split)
  qed
qed

text \<open>The small blocks.\<close>

lemma security_data_safe: "block_safe gcc_room (unat len) (gcc_read_client_security_data len)"
proof (rule block_safe_min [of _ 8])
  fix m :: "'a rdpMcs" and s assume m: "8 \<le> len" "gcc_room m" and s: "stream_wf s" "unat (8 :: u16) \<le> length (st_rest s)"
  have "stream_wf (stream_skip 4 s)" using s by (intro stream_wf_skip) simp_all
  then show "\<exists>ok m' n. gcc_read_client_security_data len m s = Some (ok, m', stream_skip n s) \<and> n \<le> length (st_rest s) \<and> gcc_room m'"
    using s m Stream_Seek_skip [of s 8] Stream_Seek_skip [of "stream_skip 4 s" 4]
    by (auto simp: gcc_read_client_security_data_def stream_simps Let_def gcc_room_def settings_room_def not_less
        intro!: exI [of _ 8])
qed (simp add: gcc_read_client_security_data_def)

lemma cluster_data_safe: "block_safe gcc_room (unat len) (gcc_read_client_cluster_data len)"
proof (rule block_safe_min [of _ 8])
  fix m :: "'a rdpMcs" and s
  assume m: "8 \<le> len" "gcc_room m" and s: "stream_wf s" "unat len \<le> length (st_rest s)" "unat (8 :: u16) \<le> length (st_rest s)"
  have L: "8 \<le> unat len" using m(1) by (simp add: word_le_nat_alt)
  have w: "stream_wf (stream_skip 4 s)" "stream_wf (stream_skip 8 s)" using s by (auto intro: stream_wf_skip)
  have i: "uint len - 8 = int (unat len - 8)" using L by simp
  have "Stream_Seek (stream_skip 8 s) (uint len - 8) = Some (stream_skip (unat len) s)"
    unfolding i using Stream_Seek_skip [OF w(2), of "unat len - 8"] s(2) L by simp
  then show "\<exists>ok m' n. gcc_read_client_cluster_data len m s = Some (ok, m', stream_skip n s) \<and> n \<le> length (st_rest s) \<and> gcc_room m'"
    using s m w
    by (auto simp: gcc_read_client_cluster_data_def stream_simps Let_def gcc_room_def settings_room_def not_less
        intro!: exI [of _ 8] exI [of _ "unat len"])
qed (simp add: gcc_read_client_cluster_data_def)

lemma message_channel_data_safe: "block_safe gcc_room (unat len) (gcc_read_client_message_channel_data len)"
  by (rule block_safe_min [of _ 4])
     (auto simp: gcc_read_client_message_channel_data_def stream_simps gcc_room_def not_less intro!: exI [of _ 4])

lemma multitransport_data_safe: "block_safe gcc_room (unat len) (gcc_read_client_multitransport_channel_data len)"
  by (rule block_safe_min [of _ 4])
     (auto simp: gcc_read_client_multitransport_channel_data_def stream_simps not_less intro!: exI [of _ 4])

text \<open>The arrays: one lemma for each loop, with the bytes it consumes.\<close>

lemma read_monitors_ok:
  assumes "i + n \<le> length ms" "stream_wf s" "20 * n \<le> length (st_rest s)"
  shows "\<exists>ms'. read_monitors i n ms s = Some (ms', stream_skip (20 * n) s) \<and> length ms' = length ms"
  using assms
proof (induction n arbitrary: i ms s)
  case 0
  then show ?case by simp
next
  case (Suc n)
  have w: "stream_wf (stream_skip (4 * k) s)" if "k \<le> 5" for k
    using Suc.prems(2,3) that by (intro stream_wf_skip) simp_all
  note w' = w [of 1, simplified] w [of 2, simplified] w [of 3, simplified] w [of 4, simplified] w [of 5, simplified]
  let ?m = "ms[i := (ms ! i)\<lparr>mo_x := le32 (st_rest s), mo_y := le32 (drop 4 (st_rest s)),
     mo_width := le32 (drop 8 (st_rest s)) - le32 (st_rest s) + 1,
     mo_height := le32 (drop 12 (st_rest s)) - le32 (drop 4 (st_rest s)) + 1,
     mo_is_primary := le32 (drop 16 (st_rest s)) AND MONITOR_PRIMARY\<rparr>]"
  have "\<exists>ms'. read_monitors (i + 1) n ?m (stream_skip 20 s) = Some (ms', stream_skip (20 * n) (stream_skip 20 s)) \<and> length ms' = length ?m"
    using Suc.prems w'(5) by (intro Suc.IH) simp_all
  then show ?case using Suc.prems w'
    by (auto simp: stream_simps arr_get_def arr_set_def)
qed

lemma read_monitor_attributes_ok:
  assumes "i + n \<le> length ms" "stream_wf s" "20 * n \<le> length (st_rest s)"
  shows "\<exists>ms'. read_monitor_attributes i n ms s = Some (ms', stream_skip (20 * n) s) \<and> length ms' = length ms"
  using assms
proof (induction n arbitrary: i ms s)
  case 0
  then show ?case by simp
next
  case (Suc n)
  have w: "stream_wf (stream_skip (4 * k) s)" if "k \<le> 5" for k
    using Suc.prems(2,3) that by (intro stream_wf_skip) simp_all
  note w' = w [of 1, simplified] w [of 2, simplified] w [of 3, simplified] w [of 4, simplified] w [of 5, simplified]
  have IH: "\<exists>ms'. read_monitor_attributes (i + 1) n (ms[i := x]) (stream_skip 20 s) =
      Some (ms', stream_skip (20 * n) (stream_skip 20 s)) \<and> length ms' = length (ms[i := x])" for x
    using Suc.prems w'(5) by (intro Suc.IH) simp_all
  show ?case using Suc.prems w' IH [simplified]
    by (simp add: stream_simps arr_get_def arr_set_def)
qed

lemma read_channel_defs_ok:
  assumes "i + n \<le> length (mcs_channels m)" "stream_wf s" "12 * n \<le> length (st_rest s)"
  shows "\<exists>cs b. read_channel_defs i n m s = Some (m\<lparr>mcs_channels := cs, mcs_baseChannelId := b\<rparr>, stream_skip (12 * n) s) \<and>
     length cs = length (mcs_channels m)"
  using assms
proof (induction n arbitrary: i m s)
  case 0
  have "m = m\<lparr>mcs_channels := mcs_channels m, mcs_baseChannelId := mcs_baseChannelId m\<rparr>" by simp
  then show ?case by (metis mult_0_right read_channel_defs.simps(1) stream_skip_0)
next
  case (Suc n)
  have w: "stream_wf (stream_skip 8 s)" "stream_wf (stream_skip 12 s)"
    using Suc.prems(2,3) by (auto intro!: stream_wf_skip)
  have "\<exists>cs b. read_channel_defs (i + 1) n (m\<lparr>mcs_channels := (mcs_channels m)[i := x], mcs_baseChannelId := y\<rparr>) (stream_skip 12 s) =
      Some (m\<lparr>mcs_channels := (mcs_channels m)[i := x], mcs_baseChannelId := y\<rparr>\<lparr>mcs_channels := cs, mcs_baseChannelId := b\<rparr>,
        stream_skip (12 * n) (stream_skip 12 s)) \<and> length cs = length (mcs_channels (m\<lparr>mcs_channels := (mcs_channels m)[i := x], mcs_baseChannelId := y\<rparr>))" for x y
    using Suc.prems w(2) by (intro Suc.IH) simp_all
  then show ?case using Suc.prems w
    by (auto simp: stream_simps arr_get_def arr_set_def)
qed

lemma network_data_safe: "block_safe gcc_room (unat len) (gcc_read_client_network_data len)"
proof (rule block_safe_min [of _ 4])
  fix m :: "'a rdpMcs" and s
  assume m: "4 \<le> len" "gcc_room m" and s: "stream_wf s" "unat len \<le> length (st_rest s)" "unat (4 :: u16) \<le> length (st_rest s)"
  define count where "count = le32 (st_rest s)"
  define m1 where "m1 = m\<lparr>mcs_channelCount := count\<rparr>"
  have room: "gcc_room m1" "16 \<le> length (mcs_channels m1)" using m(2) by (auto simp: m1_def gcc_room_def)
  have w: "stream_wf (stream_skip 4 s)" using s by (intro stream_wf_skip) simp_all
  show "\<exists>ok m' n. gcc_read_client_network_data len m s = Some (ok, m', stream_skip n s) \<and> n \<le> length (st_rest s) \<and> gcc_room m'"
  proof (cases "ucast len < 4 + count * 12 \<or> count > 16")
    case True
    then show ?thesis using m(1) s w room(1)
      by (auto simp: gcc_read_client_network_data_def stream_simps count_def m1_def not_less Let_def intro!: exI [of _ 4])
  next
    case False
    then have c: "unat count \<le> 16" by (simp add: word_le_nat_alt not_less)
    then have "unat (4 + count * 12) = 4 + unat count * 12" by (simp add: unat_word_ariths)
    moreover have "unat (ucast len :: u32) = unat len"
      using unsigned_less [of len, where ?'a = nat] by (simp add: unat_ucast_mod)
    ultimately have "4 + unat count * 12 \<le> unat len"
      using False by (simp add: word_less_nat_alt)
    then have fit: "12 * unat count \<le> length (st_rest (stream_skip 4 s))" "4 + 12 * unat count \<le> length (st_rest s)"
      using s(2) by auto
    obtain cs b where "read_channel_defs 0 (unat count) m1 (stream_skip 4 s) =
        Some (m1\<lparr>mcs_channels := cs, mcs_baseChannelId := b\<rparr>, stream_skip (12 * unat count) (stream_skip 4 s))"
        "length cs = length (mcs_channels m1)"
      using read_channel_defs_ok [OF _ w fit(1), of 0 m1] c room(2) by auto
    then show ?thesis using m(1) s room fit(2) False
      by (auto simp: gcc_read_client_network_data_def stream_simps count_def [symmetric] m1_def [symmetric] not_less Let_def gcc_room_def
          intro!: exI [of _ "4 + 12 * unat count"])
  qed
qed (simp add: gcc_read_client_network_data_def)

lemma monitor_count_bound:
  assumes "n \<le> (unat (len :: u16) - k) div 20" "12 \<le> k \<or> k = 8" "k \<le> unat len" "unat len \<le> r"
  shows "n \<le> 3276" "k + 20 * n \<le> r"
proof -
  have "unat len < 65536" using unsigned_less [of len, where ?'a = nat] by simp
  moreover have "20 * n \<le> unat len - k" using assms(1) by (metis div_times_less_eq_dividend le_trans mult.commute mult_le_mono2)
  ultimately show "n \<le> 3276" "k + 20 * n \<le> r" using assms(2-4) by auto
qed

lemma monitor_data_safe: "block_safe gcc_room (unat len) (gcc_read_client_monitor_data len)"
proof (rule block_safe_min [of _ 8])
  fix m :: "'a rdpMcs" and s
  assume m: "8 \<le> len" "gcc_room m" and s: "stream_wf s" "unat len \<le> length (st_rest s)" "unat (8 :: u16) \<le> length (st_rest s)"
  define n where "n = le32 (drop 4 (st_rest s))"
  have w: "stream_wf (stream_skip 4 s)" "stream_wf (stream_skip 8 s)" using s by (auto intro: stream_wf_skip)
  show "\<exists>ok m' n. gcc_read_client_monitor_data len m s = Some (ok, m', stream_skip n s) \<and> n \<le> length (st_rest s) \<and> gcc_room m'"
  proof (cases "(unat len - 8) div 20 < unat n")
    case True
    then show ?thesis using m s w
      by (auto simp: gcc_read_client_monitor_data_def stream_simps n_def not_less intro!: exI [of _ 8])
  next
    case False
    have b: "unat n \<le> 3276" "8 + 20 * unat n \<le> length (st_rest s)"
      using monitor_count_bound [of "unat n" len 8] False m(1) s(2) by (auto simp: word_le_nat_alt not_less)
    have fit: "20 * unat n \<le> length (st_rest (stream_skip 8 s))" using b(2) by simp
    obtain ms where "read_monitors 0 (unat n) (se_MonitorDefArray (mcs_settings m)) (stream_skip 8 s) =
        Some (ms, stream_skip (20 * unat n) (stream_skip 8 s))" "length ms = length (se_MonitorDefArray (mcs_settings m))"
      using read_monitors_ok [of 0 "unat n" "se_MonitorDefArray (mcs_settings m)" "stream_skip 8 s", OF _ _ fit] w b m(2)
      by (auto simp: gcc_room_def settings_room_def)
    then show ?thesis using m s w False b
      by (auto simp: gcc_read_client_monitor_data_def stream_simps n_def [symmetric] not_less Let_def gcc_room_def settings_room_def
          intro!: exI [of _ "8 + 20 * unat n"])
  qed
qed (simp add: gcc_read_client_monitor_data_def)

lemma monitor_extended_data_safe: "block_safe gcc_room (unat len) (gcc_read_client_monitor_extended_data len)"
proof (rule block_safe_min [of _ 12])
  fix m :: "'a rdpMcs" and s
  assume m: "12 \<le> len" "gcc_room m" and s: "stream_wf s" "unat len \<le> length (st_rest s)" "unat (12 :: u16) \<le> length (st_rest s)"
  define sz n where "sz = le32 (drop 4 (st_rest s))" and "n = le32 (drop 8 (st_rest s))"
  have w: "stream_wf (stream_skip 4 s)" "stream_wf (stream_skip 8 s)" "stream_wf (stream_skip 12 s)"
    using s by (auto intro: stream_wf_skip)
  show "\<exists>ok m' n. gcc_read_client_monitor_extended_data len m s = Some (ok, m', stream_skip n s) \<and> n \<le> length (st_rest s) \<and> gcc_room m'"
  proof (cases "sz \<noteq> 20 \<or> (unat len - 12) div 20 < unat n \<or> se_MonitorCount (mcs_settings m) \<noteq> n")
    case True
    then show ?thesis using m s w
      by (auto simp: gcc_read_client_monitor_extended_data_def stream_simps n_def sz_def not_less intro!: exI [of _ 12])
  next
    case False
    have b: "unat n \<le> 3276" "12 + 20 * unat n \<le> length (st_rest s)"
      using monitor_count_bound [of "unat n" len 12] False m(1) s(2) by (auto simp: word_le_nat_alt not_less)
    have fit: "20 * unat n \<le> length (st_rest (stream_skip 12 s))" using b(2) by simp
    obtain ms where "read_monitor_attributes 0 (unat n) (se_MonitorDefArray (mcs_settings m)) (stream_skip 12 s) =
        Some (ms, stream_skip (20 * unat n) (stream_skip 12 s))" "length ms = length (se_MonitorDefArray (mcs_settings m))"
      using read_monitor_attributes_ok [of 0 "unat n" "se_MonitorDefArray (mcs_settings m)" "stream_skip 12 s", OF _ _ fit] w b m(2)
      by (auto simp: gcc_room_def settings_room_def)
    then show ?thesis using m s w False b
      by (auto simp: gcc_read_client_monitor_extended_data_def stream_simps n_def [symmetric] sz_def [symmetric] not_less Let_def
          gcc_room_def settings_room_def intro!: exI [of _ "12 + 20 * unat n"])
  qed
qed (simp add: gcc_read_client_monitor_extended_data_def)

text \<open>
  The contract of a handler of blocks: whatever a block holds, if the bytes of the block are there
  the handler returns, moves only within the stream, and keeps its invariant. It may read more or
  less than the block, since the loop sets the position itself.
\<close>

locale block_handler =
  fixes handle :: "u16 \<Rightarrow> u16 \<Rightarrow> 'w block_reader" and P :: "'w rdpMcs \<Rightarrow> bool"
  assumes handle_safe: "block_safe P (unat len) (handle type len)"
begin

lemma next_block:
  assumes "P m" "stream_wf s" "gcc_dec_header (st_rest s) = (Some (type, len), 4)"
  shows "\<exists>ok m' n. handle type (word_of_int (uint len - 4)) m (stream_skip 4 s) = Some (ok, m', stream_skip n s) \<and>
     P m' \<and> n \<le> length (st_rest s) \<and> Stream_SetPosition (stream_skip n s) (st_pointer s + unat len) = Some (stream_skip (unat len) s)"
    and "stream_wf (stream_skip (unat len) s)" "4 \<le> unat len" "unat len \<le> length (st_rest s)"
proof -
  have l: "4 \<le> unat len" "unat len \<le> length (st_rest s)"
    using assms(3) by (auto simp: gcc_dec_header_def Let_def split: if_splits)
  then show "4 \<le> unat len" "unat len \<le> length (st_rest s)" by simp_all
  show "stream_wf (stream_skip (unat len) s)" using assms(2) l(2) by (rule stream_wf_skip)
  have "(word_of_int (uint len - 4) :: u16) = len - 4" by simp
  then have u: "unat (word_of_int (uint len - 4) :: u16) = unat len - 4"
    using l(1) by (simp add: unat_sub word_le_nat_alt)
  have w: "stream_wf (stream_skip 4 s)" using assms(2) l by (intro stream_wf_skip) simp_all
  obtain ok m' n where *: "handle type (word_of_int (uint len - 4)) m (stream_skip 4 s) = Some (ok, m', stream_skip n (stream_skip 4 s))"
      "P m'" "n \<le> length (st_rest (stream_skip 4 s))"
    by (rule block_safeD [OF handle_safe [of "word_of_int (uint len - 4)" type] assms(1) w]) (use u l(2) in simp_all)
  have "st_pointer s + unat len \<le> length (st_buffer s)"
    using assms(2) l(2) by (auto simp: length_st_rest stream_wf_def)
  then have "Stream_SetPosition (stream_skip (4 + n) s) (st_pointer s + unat len) = Some (stream_skip (unat len) s)"
    by (simp add: Stream_SetPosition_def stream_skip_def)
  with * show "\<exists>ok m' n. handle type (word_of_int (uint len - 4)) m (stream_skip 4 s) = Some (ok, m', stream_skip n s) \<and>
     P m' \<and> n \<le> length (st_rest s) \<and> Stream_SetPosition (stream_skip n s) (st_pointer s + unat len) = Some (stream_skip (unat len) s)"
    by (intro exI [of _ ok] exI [of _ m'] exI [of _ "4 + n"]) (use l in simp)
qed

end

text \<open>The environment with a conversion that always gives a string.\<close>

definition total_unicode :: "gcc_env \<Rightarrow> gcc_env" where
  "total_unicode E = E\<lparr>ge_ConvertFromUnicode := (\<lambda>w. Some (case ge_ConvertFromUnicode E w of None \<Rightarrow> [] | Some b \<Rightarrow> b))\<rparr>"

lemma total_unicode_eq:
  assumes "\<And>w. ge_ConvertFromUnicode E w \<noteq> None"
  shows "total_unicode E = E"
proof -
  have "(\<lambda>w. Some (case ge_ConvertFromUnicode E w of None \<Rightarrow> [] | Some b \<Rightarrow> b)) = ge_ConvertFromUnicode E"
    using assms by (auto split: option.split)
  then show ?thesis by (simp add: total_unicode_def)
qed

lemma client_block_safe:
  assumes "\<And>w. ge_ConvertFromUnicode E w \<noteq> None"
  shows "block_safe gcc_room (unat len) (gcc_read_client_block E type len)"
proof -
  have other: "block_safe gcc_room (unat len) (\<lambda>(m :: 'a rdpMcs) s. do { s \<leftarrow> Stream_Seek s (uint len); Some (True, m, s) })"
  proof (rule block_safeI)
    fix m :: "'a rdpMcs" and s assume "gcc_room m" "stream_wf s" "unat len \<le> length (st_rest s)"
    then show "\<exists>ok m' n. (do { s \<leftarrow> Stream_Seek s (uint len); Some (True, m, s) }) = Some (ok, m', stream_skip n s) \<and>
        n \<le> length (st_rest s) \<and> gcc_room m'"
      using Stream_Seek_skip [of s "unat len"] by (auto intro!: exI [of _ "unat len"])
  qed
  note all = core_data_safe [OF assms] security_data_safe network_data_safe cluster_data_safe monitor_data_safe
    message_channel_data_safe monitor_extended_data_safe multitransport_data_safe other
  show ?thesis unfolding gcc_read_client_block_def [abs_def] by (intro block_safe_if all)
qed

interpretation client_handler: block_handler "gcc_read_client_block (total_unicode E)" gcc_room for E
  by unfold_locales (rule client_block_safe, simp add: total_unicode_def)

text \<open>One round of the loop, on a block whose header is accepted.\<close>

lemma client_loop_step:
  assumes s: "stream_wf s" "int (st_length s) < INT_LIM" and len: "0 < len" "len < INT_LIM"
    and hd: "gcc_dec_header (st_rest s) = (Some (t, l), 4)"
    and h: "gcc_read_client_block E t (word_of_int (uint l - 4)) m (stream_skip 4 s) = Some (ok, m', stream_skip n s)"
  shows "gcc_read_client_data_blocks E m len s =
     (if \<not> ok then Some (False, m', stream_skip n s)
      else gcc_read_client_data_blocks E m' (len - uint l) (stream_skip (unat l) s))"
    and "len - uint l < INT_LIM"
proof -
  have l: "4 \<le> unat l" "unat l \<le> length (st_rest s)"
    using hd by (auto simp: gcc_dec_header_def Let_def split: if_splits)
  have w: "stream_wf (stream_skip 4 s)" using s(1) l by (intro stream_wf_skip) simp_all
  have p: "st_pointer s + unat l \<le> st_length s" using l s(1) by (auto simp: length_st_rest)
  then have "st_pointer s + unat l \<le> length (st_buffer s)" using s(1) by (auto simp: stream_wf_def)
  then have set: "Stream_SetPosition (stream_skip n s) (st_pointer s + unat l) = Some (stream_skip (unat l) s)"
    by (simp add: Stream_SetPosition_def stream_skip_def)
  have rem: "\<not> Stream_GetRemainingLength (stream_skip 4 s) < to_size (uint l - 4)"
  proof -
    have u: "unat l < 2 ^ 32" using unsigned_less [of l, where ?'a = nat] by simp
    have "length (st_rest s) - 4 < BLOCK_MAX" using rest_less_BLOCK_MAX [OF s(1)] by simp
    from to_size_diff_le [OF u _ this, of 4] show ?thesis
      using w l by (simp add: remaining_rest not_less)
  qed
  have beg: "to_int (Stream_GetPosition s) = int (st_pointer s)"
    unfolding Stream_GetPosition_def using p s(2) by (intro to_int_below) linarith
  have "int (st_pointer s) + int (unat l) \<le> int (st_length s)" using p by linarith
  then have "int (st_pointer s) + uint l \<le> int (st_length s)" "0 \<le> uint l" "uint l < 65536"
    using unsigned_less [of l, where ?'a = int] by simp_all
  then have b: "- INT_LIM \<le> int (st_pointer s) + uint l" "int (st_pointer s) + uint l < INT_LIM"
      "- INT_LIM \<le> len - uint l" "len - uint l < INT_LIM"
    using s(2) len unfolding INT_LIM_def by linarith+
  then show "len - uint l < INT_LIM" by simp
  have ck: "int_ck (int (st_pointer s) + uint l) = Some (int (st_pointer s + unat l))"
      "int_ck (len - uint l) = Some (len - uint l)"
    using b by (simp_all add: int_ck_def)
  have sz: "to_size (int (st_pointer s + unat l)) = st_pointer s + unat l"
    using p s(2) by (intro to_size_of_nat) (simp add: SIZE_MOD_def INT_LIM_def)
  show "gcc_read_client_data_blocks E m len s =
     (if \<not> ok then Some (False, m', stream_skip n s)
      else gcc_read_client_data_blocks E m' (len - uint l) (stream_skip (unat l) s))"
    unfolding gcc_read_client_data_blocks.simps [of E m len s]
    using len hd decodesD(2) [OF gcc_header_decodes s(1)] rem h set beg ck sz by (simp add: Let_def)
qed

text \<open>The loop ends, since every block has at least the four bytes of its header.\<close>

lemma client_blocks_safe:
  assumes "gcc_room m" "stream_wf s" "int (st_length s) < INT_LIM" "len < INT_LIM"
  shows "\<exists>ok m' n. gcc_read_client_data_blocks (total_unicode E) m len s = Some (ok, m', stream_skip n s) \<and>
     n \<le> length (st_rest s) \<and> gcc_room m'"
  using assms
proof (induction "length (st_rest s)" arbitrary: m len s rule: less_induct)
  case less
  note H = decodesD [OF gcc_header_decodes less.prems(2)]
  note unfold = gcc_read_client_data_blocks.simps [of "total_unicode E" m len s]
  have k: "snd (gcc_dec_header (st_rest s)) \<le> 4" by (simp add: gcc_dec_header_def Let_def)
  consider "len \<le> 0" | "len > 0" "fst (gcc_dec_header (st_rest s)) = None"
    | t l where "len > 0" "gcc_dec_header (st_rest s) = (Some (t, l), 4)"
    by (cases "len > 0"; cases "gcc_dec_header (st_rest s)") (auto simp: gcc_dec_header_def Let_def split: if_splits)
  then show ?case
  proof cases
    case 1
    then show ?thesis using unfold less.prems(1) by (auto intro!: exI [of _ 0])
  next
    case 2
    then show ?thesis using unfold H less.prems(1) by (auto simp: Let_def)
  next
    case (3 t l)
    note N = client_handler.next_block [OF less.prems(1,2) 3(2)]
    obtain ok m' n where h: "gcc_read_client_block (total_unicode E) t (word_of_int (uint l - 4)) m (stream_skip 4 s) =
        Some (ok, m', stream_skip n s)" "gcc_room m'" "n \<le> length (st_rest s)"
      using N(1) by blast
    note loop = client_loop_step [OF less.prems(2,3) 3(1) less.prems(4) 3(2) h(1)]
    show ?thesis
    proof (cases ok)
      case True
      have dec: "length (st_rest (stream_skip (unat l) s)) < length (st_rest s)" using N(3,4) by simp
      have lens: "st_length (stream_skip (unat l) s) = st_length s" by (simp add: stream_skip_def)
      obtain ok' m'' k where "gcc_read_client_data_blocks (total_unicode E) m' (len - uint l) (stream_skip (unat l) s) =
          Some (ok', m'', stream_skip k (stream_skip (unat l) s))" "k \<le> length (st_rest (stream_skip (unat l) s))" "gcc_room m''"
        using less.hyps [OF dec h(2) N(2), of "len - uint l"] less.prems(3) lens loop(2) by auto
      then show ?thesis using loop(1) True N(4) by (intro exI [of _ ok'] exI [of _ m''] exI [of _ "unat l + k"]) simp
    next
      case False
      then show ?thesis using loop(1) h(2,3) by auto
    qed
  qed
qed

section \<open>Where the memory is not enough\<close>

lemma read_monitors_overflow:
  assumes "i \<le> length ms" "length ms < i + n" "stream_wf s" "20 * n \<le> length (st_rest s)"
  shows "read_monitors i n ms s = None"
  using assms
proof (induction n arbitrary: i ms s)
  case 0
  then show ?case by simp
next
  case (Suc n)
  have w: "stream_wf (stream_skip (4 * k) s)" if "k \<le> 5" for k
    using Suc.prems(3,4) that by (intro stream_wf_skip) simp_all
  note w' = w [of 1, simplified] w [of 2, simplified] w [of 3, simplified] w [of 4, simplified] w [of 5, simplified]
  show ?case
  proof (cases "i < length ms")
    case True
    have "read_monitors (i + 1) n (ms[i := x]) (stream_skip 20 s) = None" for x
      using Suc.prems True w'(5) by (intro Suc.IH) simp_all
    then show ?thesis using Suc.prems True w' by (simp add: stream_simps arr_get_def arr_set_def)
  next
    case False
    then show ?thesis using Suc.prems w' by (simp add: stream_simps arr_get_def)
  qed
qed

text \<open>
  The server accepts as many monitors as the block has room for, and writes them to an array of
  fixed size without comparing with it.
\<close>

theorem gcc_monitor_overflow:
  assumes "stream_wf s" "unat len \<le> length (st_rest s)" "8 + 20 * unat n \<le> unat len"
    "n = le32 (drop 4 (st_rest s))"
  shows "gcc_read_client_monitor_data len m s = None \<longleftrightarrow> length (se_MonitorDefArray (mcs_settings m)) < unat n"
proof -
  have L: "\<not> len < 8" "\<not> (unat len - 8) div 20 < unat n" using assms(3) by (auto simp: word_less_nat_alt)
  have w: "stream_wf (stream_skip 4 s)" "stream_wf (stream_skip 8 s)" using assms(1-3) by (auto intro: stream_wf_skip)
  have fit: "20 * unat n \<le> length (st_rest (stream_skip 8 s))" using assms(2,3) by simp
  have "gcc_read_client_monitor_data len m s = None \<longleftrightarrow>
      read_monitors 0 (unat n) (se_MonitorDefArray (mcs_settings m)) (stream_skip 8 s) = None"
    using assms L w by (auto simp: gcc_read_client_monitor_data_def stream_simps Let_def bind_eq_None_conv split_beta)
  also have "\<dots> \<longleftrightarrow> length (se_MonitorDefArray (mcs_settings m)) < unat n"
    using read_monitors_ok [of 0 "unat n" "se_MonitorDefArray (mcs_settings m)", OF _ w(2) fit]
      read_monitors_overflow [of 0 "se_MonitorDefArray (mcs_settings m)" "unat n", OF _ _ w(2) fit]
    by (cases "length (se_MonitorDefArray (mcs_settings m)) < unat n") auto
  finally show ?thesis .
qed

text \<open>
  The client adds the two lengths of the security data as 32 bit numbers: with a certificate of
  \<open>2 ^ 32 - 32\<close> bytes and 32 random bytes the sum is 0, and the bytes behind the data are read.
\<close>

theorem gcc_security_overread:
  assumes "stream_wf s" "st_rest s = le_bytes 4 ENCRYPTION_METHOD_128BIT @ le_bytes 4 ENCRYPTION_LEVEL_HIGH @
      le_bytes 4 (32 :: u32) @ le_bytes 4 (- 32 :: u32)" "st_capacity s = st_length s"
    "al_ok (ge_alloc E) 32"
  shows "gcc_read_server_security_data E m s = None"
proof -
  have len: "length (st_rest s) = 16" using assms(2) by simp
  have w: "stream_wf (stream_skip 4 s)" "stream_wf (stream_skip 8 s)" "stream_wf (stream_skip 12 s)" "stream_wf (stream_skip 16 s)"
    using assms(1) len by (auto intro: stream_wf_skip)
  have "st_pointer (stream_skip 16 s) = length (st_buffer s)"
    using assms(1,3) len by (auto simp: length_st_rest stream_wf_def)
  then have rd: "Stream_Read (stream_skip 16 s) 32 = None" by (simp add: Stream_Read_def mem_read_def)
  have al: "\<exists>b. mem_alloc (ge_alloc E) 32 = Some b" using assms(4) by (simp add: mem_alloc_def BLOCK_MAX_def)
  have d: "drop 4 (le_bytes 4 (u :: u32) @ xs) = xs" "drop 8 (le_bytes 4 (u :: u32) @ xs) = drop 4 xs"
      "drop 12 (le_bytes 4 (u :: u32) @ xs) = drop 8 xs" for u xs by simp_all
  have f: "le32 (st_rest s) = ENCRYPTION_METHOD_128BIT" "le32 (drop 4 (st_rest s)) = ENCRYPTION_LEVEL_HIGH"
      "le32 (drop 8 (st_rest s)) = 32" "le32 (drop 12 (st_rest s)) = - 32"
    using le32_bytes [of "- 32" "[]"] unfolding assms(2) d by (simp_all add: le32_bytes)
  have c: "known_encryption_method ENCRYPTION_METHOD_128BIT" "valid_crypto_config ENCRYPTION_LEVEL_HIGH ENCRYPTION_METHOD_128BIT"
      "ENCRYPTION_LEVEL_HIGH \<noteq> ENCRYPTION_LEVEL_NONE"
    by (simp_all add: known_encryption_method_def valid_crypto_config_def ENCRYPTION_METHOD_128BIT_def ENCRYPTION_LEVEL_HIGH_def
        ENCRYPTION_LEVEL_NONE_def ENCRYPTION_LEVEL_FIPS_def)
  show ?thesis
    using assms(1) len w f c rd al
    by (auto simp: gcc_read_server_security_data_def stream_simps Let_def stream_read_new_def)
qed

text \<open>A client name that is not valid UTF-16 converts to \<^verbatim>\<open>NULL\<close>, which is printed with \<^verbatim>\<open>%s\<close>.\<close>

theorem gcc_hostname_null:
  assumes "stream_wf s" "32 \<le> length (st_rest s)" "ge_ConvertFromUnicode E (take 32 (st_rest s)) = None"
  shows "core_hostname E c s = None"
  using take_st_rest [OF assms(1,2)] assms(3) Stream_Seek_skip [OF assms(1,2)]
  by (simp add: core_hostname_def mem_read_def sprintf_str_def)

section \<open>Properties\<close>

text \<open>
  A server is safe against every conference request of a client it knows nothing of: on any
  bytes, \<^verbatim>\<open>gcc_read_client_data_blocks\<close> comes to an end, with \<^verbatim>\<open>TRUE\<close> or \<^verbatim>\<open>FALSE\<close>, reads nothing outside
  the stream and writes nothing outside its arrays and strings, whose sizes stay as they are,
  provided that the conversion of the names gives a string and that the array of monitors has
  room for the 3276 monitors that fit in a block.
\<close>

theorem gcc_client_blocks_safe:
  assumes "\<And>w. ge_ConvertFromUnicode E w \<noteq> None" "gcc_room m" "stream_wf s" "int (st_length s) < INT_LIM" "len < INT_LIM"
  shows "\<exists>ok m' n. gcc_read_client_data_blocks E m len s = Some (ok, m', stream_skip n s) \<and>
     n \<le> length (st_rest s) \<and> gcc_room m'"
  using client_blocks_safe [OF assms(2-5), of E] total_unicode_eq [of E] assms(1) by simp

definition monitor_zero :: rdpMonitor where
  "monitor_zero = \<lparr>mo_x = 0, mo_y = 0, mo_width = 0, mo_height = 0, mo_is_primary = 0,
     mo_attributes = \<lparr>ma_physicalWidth = 0, ma_physicalHeight = 0, ma_orientation = 0, ma_desktopScaleFactor = 0,
       ma_deviceScaleFactor = 0\<rparr>\<rparr>"

definition settings_zero :: gcc_settings where
  "settings_zero = \<lparr>se_RequestedProtocols = 0, se_SelectedProtocol = 0, se_NegotiationFlags = 0,
     se_UseRdpSecurityLayer = False, se_EncryptionMethods = 0, se_EncryptionLevel = 0, se_SupportGraphicsPipeline = True,
     se_TlsSecurity = True, se_NlaSecurity = False, se_RdpSecurity = False, se_LocalConnection = False,
     se_RdpServerRsaKey = False, se_RdpKeyFile = False,
     se_ServerMode = True, se_RdpVersion = 7, se_DesktopWidth = 1024, se_DesktopHeight = 768, se_ColorDepth = 32,
     se_ConnectionType = 0, se_ClientBuild = 2600, se_ClientHostname = replicate 32 0, se_ClientProductId = replicate 32 0,
     se_EarlyCapabilityFlags = 0, se_NetworkAutoDetect = True, se_SupportDynamicTimeZone = False,
     se_SupportErrorInfoPdu = False, se_SupportHeartbeatPdu = True, se_DesktopPhysicalWidth = 0,
     se_DesktopPhysicalHeight = 0, se_DesktopOrientation = 0, se_DesktopScaleFactor = 0, se_DeviceScaleFactor = 0,
     se_ServerRandom = None, se_ServerRandomLength = 0, se_ServerCertificate = None, se_ServerCertificateLength = 0,
     se_RdpServerCertificate = False, se_RsaKey = \<lparr>rk_Modulus = [], rk_ModulusLength = 0, rk_exponent = [0, 0, 0, 0]\<rparr>,
     se_ChannelCount = 0, se_ChannelDefArray = [], se_RedirectedSessionId = 0, se_ConsoleSession = False,
     se_MonitorCount = 0, se_MonitorDefArray = replicate 3276 monitor_zero, se_SpanMonitors = False,
     se_UseMultimon = False, se_ForceMultimon = False, se_HasMonitorAttributes = False, se_MultitransportFlags = 0,
     se_SupportMultitransport = False, se_KeyboardLayout = 0, se_KeyboardType = 0, se_KeyboardSubType = 0,
     se_KeyboardFunctionKey = 0, se_RemoteFxCodec = False\<rparr>"

definition parameters_zero :: DomainParameters where
  "parameters_zero = \<lparr>dp_maxChannelIds = 0, dp_maxUserIds = 0, dp_maxTokenIds = 0, dp_numPriorities = 0,
     dp_minThroughput = 0, dp_maxHeight = 0, dp_maxMCSPDUsize = 0, dp_protocolVersion = 0\<rparr>"

definition mcs_sample :: "unit rdpMcs" where
  "mcs_sample = \<lparr>mcs_transport = \<lparr>tr_layer = TRANSPORT_LAYER_TCP, tr_frontBio = True, tr_NlaMode = False,
       tr_blocking = True, tr_GatewayEnabled = False, tr_WaitForOutputBufferFlush = True, tr_WriteLock = 0, tr_written = 0,
       tr_world = ()\<rparr>, mcs_settings = settings_zero, mcs_userId = 0, mcs_baseChannelId = 1004, mcs_messageChannelId = 0,
     mcs_domainParameters = parameters_zero, mcs_targetParameters = parameters_zero,
     mcs_minimumParameters = parameters_zero, mcs_maximumParameters = parameters_zero, mcs_userChannelJoined = False,
     mcs_globalChannelJoined = False, mcs_messageChannelJoined = False, mcs_channelCount = 0, mcs_channelMaxCount = 30,
     mcs_channels = replicate 30 \<lparr>ch_Name = replicate 8 0, ch_options = 0, ch_ChannelId = 0, ch_joined = False\<rparr>\<rparr>"

definition env_sample :: gcc_env where
  "env_sample = \<lparr>ge_alloc = ample, ge_ConvertFromUnicode = (\<lambda>w. Some (filter (\<lambda>b. b \<noteq> 0) w)),
     ge_ConvertToUnicode = (\<lambda>b. (int (length b), Some (concat (map (\<lambda>c. [c, 0]) b)))),
     ge_certificate_new = True, ge_certificate_read_server_certificate = (\<lambda>d n. True), ge_crypto_nonce = (\<lambda>n. replicate n 7),
     ge_crypto_md5 = (\<lambda>d. Some (replicate 16 0)), ge_crypto_rsa_private_encrypt = (\<lambda>d. replicate 64 0)\<rparr>"

theorem gcc_client_blocks_safe_witness:
  "\<exists>ok m' n. gcc_read_client_data_blocks env_sample mcs_sample 12 (stream_of [3, 0xC0, 12, 0, 255, 255, 255, 255, 1, 2, 3, 4]) =
       Some (ok, m', stream_skip n (stream_of [3, 0xC0, 12, 0, 255, 255, 255, 255, 1, 2, 3, 4])) \<and>
     n \<le> length (st_rest (stream_of [3, 0xC0, 12, 0, 255, 255, 255, 255, 1, 2, 3, 4])) \<and> gcc_room m'"
  by (rule gcc_client_blocks_safe)
     (simp_all add: env_sample_def gcc_room_def settings_room_def mcs_sample_def settings_zero_def BLOCK_MAX_def INT_LIM_def,
      simp add: stream_of_def)

end
