(* ===== verification/GccWire.thy ===== *)
theory GccWire
  imports GccBlocks
begin

unbundle bit_operations_syntax

text \<open>
  The data blocks on the wire: what the writers of \<open>Gcc\<close> emit, and what the readers of the other side
  make of it. The exchange of the blocks gives client and server the same channels and the
  capabilities that both have.
\<close>

section \<open>Writers\<close>

fun write_seq :: "writer list \<Rightarrow> writer" where
  "write_seq [] s = Some s"
| "write_seq (w # ws) s = w s \<bind> write_seq ws"

lemma emits_seq:
  assumes "list_all2 emits ws bss"
  shows "emits (write_seq ws) (concat bss)"
  using assms
  by (induction rule: list_all2_induct) (auto intro!: emits_Some emits_bind [of _ _ "write_seq _"])

definition header_enc :: "u16 \<Rightarrow> u16 \<Rightarrow> byte list" where
  "header_enc type len = le_bytes 2 type @ le_bytes 2 len"

lemma emits_header: "emits (gcc_write_user_data_header type len) (header_enc type len)"
  by (rule emitsI) (simp add: gcc_write_user_data_header_def header_enc_def emitsD [OF emits_UINT16] stream_wf_emit)

lemma length_header [simp]: "length (header_enc type len) = 4"
  by (simp add: header_enc_def)

definition wide_valid :: "nat \<Rightarrow> int \<times> byte list option \<Rightarrow> bool" where
  "wide_valid sz str = (case str of (len, block) \<Rightarrow> 0 \<le> len \<and> (\<exists>b. block = Some b \<and> 2 * nat len \<le> length b))"

definition wide_enc :: "nat \<Rightarrow> int \<times> byte list option \<Rightarrow> byte list" where
  "wide_enc sz str = (case str of (len, block) \<Rightarrow>
     if len \<ge> int sz div 2 then take (sz - 2) (the block) @ [0, 0]
     else take (2 * nat len) (the block) @ replicate (sz - 2 * nat len) 0)"

lemma length_wide_enc:
  assumes "wide_valid sz str" "even sz" "2 \<le> sz"
  shows "length (wide_enc sz str) = sz"
proof -
  obtain len b where str: "str = (len, Some b)" "0 \<le> len" "2 * nat len \<le> length b"
    using assms(1) by (auto simp: wide_valid_def)
  show ?thesis using str assms(2,3) by (auto simp: wide_enc_def min_def)
qed

lemma emits_wide:
  assumes "wide_valid sz str" "even sz" "2 \<le> sz" "sz < 2 ^ 31"
  shows "emits (write_wide sz str) (wide_enc sz str)"
proof -
  obtain len b where str: "str = (len, Some b)" "0 \<le> len" "2 * nat len \<le> length b"
    using assms(1) by (auto simp: wide_valid_def)
  show ?thesis
  proof (cases "len \<ge> int sz div 2")
    case True
    have sz: "sz \<le> length b" "int sz div 2 * 2 = int sz" using True str assms(2) by auto
    let ?p = "take (sz - 2) b @ [0, 0]"
    have p: "length ?p = sz" "Suc (Suc (sz - 2)) = sz" using sz(1) assms(3) by simp_all
    have mw: "mem_write b (sz - 2) [0, 0] = Some (?p @ drop sz b)" using sz(1) p(2) by (simp add: mem_write_def)
    have "take sz (?p @ drop sz b) = ?p" using p(1) by (metis append_eq_conv_conj)
    then have mr: "mem_read (?p @ drop sz b) 0 sz = Some ?p" using p(1) sz(1) by (simp add: mem_read_def)
    have "to_size (int sz div 2 * 2) = sz" unfolding sz(2) using assms(4) by (intro to_size_of_nat) (simp add: SIZE_MOD_def)
    moreover have "to_size (int sz - int sz div 2 * 2) = 0" unfolding sz(2) by (simp add: to_size_def)
    ultimately have "write_wide sz str s = Stream_Write (wide_enc sz str) s \<bind> Stream_Zero 0" for s
      using True mw mr by (simp add: write_wide_def wide_enc_def str(1))
    then show ?thesis using emits_bind [OF emits_Write [of "wide_enc sz str"] emits_Zero [of 0], of "write_wide sz str"] by simp
  next
    case False
    have n: "2 * nat len < sz" "len * 2 = int (2 * nat len)" "int sz - len * 2 = int (sz - 2 * nat len)"
      using False str(2) assms(2) by auto
    have "to_size (len * 2) = 2 * nat len" unfolding n(2) using n(1) assms(4) by (intro to_size_of_nat) (simp add: SIZE_MOD_def)
    moreover have "to_size (int sz - len * 2) = sz - 2 * nat len"
      unfolding n(3) using assms(4) by (intro to_size_of_nat) (simp add: SIZE_MOD_def)
    ultimately have "write_wide sz str s = Stream_Write (take (2 * nat len) b) s \<bind> Stream_Zero (sz - 2 * nat len)" for s
      using False str by (simp add: write_wide_def mem_read_def)
    then show ?thesis
      using False emits_bind [OF emits_Write [of "take (2 * nat len) b"] emits_Zero [of "sz - 2 * nat len"], of "write_wide sz str"]
      by (simp add: wide_enc_def str(1))
  qed
qed

text \<open>The core data, field by field: the header, the required fields and the optional ones.\<close>

definition core_parts1 :: "gcc_env \<Rightarrow> gcc_settings \<Rightarrow> byte list list" where
  "core_parts1 E se =
     [le_bytes 4 (if se_RdpVersion se \<ge> 5 then RDP_VERSION_5_PLUS else RDP_VERSION_4),
      le_bytes 2 (ucast (se_DesktopWidth se) :: u16), le_bytes 2 (ucast (se_DesktopHeight se) :: u16),
      le_bytes 2 RNS_UD_COLOR_8BPP, le_bytes 2 RNS_UD_SAS_DEL, le_bytes 4 (se_KeyboardLayout se),
      le_bytes 4 (se_ClientBuild se), wide_enc 32 (ge_ConvertToUnicode E (se_ClientHostname se)),
      le_bytes 4 (se_KeyboardType se), le_bytes 4 (se_KeyboardSubType se), le_bytes 4 (se_KeyboardFunctionKey se),
      replicate 64 0]"

abbreviation sent_connection_type :: "gcc_settings \<Rightarrow> byte" where
  "sent_connection_type se \<equiv> ucast (client_connection_type se)"

abbreviation sent_settings :: "gcc_settings \<Rightarrow> gcc_settings" where
  "sent_settings se \<equiv> se\<lparr>se_ConnectionType := client_connection_type se\<rparr>"

definition core_parts2 :: "gcc_env \<Rightarrow> gcc_settings \<Rightarrow> byte list list" where
  "core_parts2 E se =
     [le_bytes 2 RNS_UD_COLOR_8BPP, le_bytes 2 (1 :: u16), le_bytes 4 (0 :: u32),
      le_bytes 2 (ucast (min (se_ColorDepth se) 24) :: u16),
      le_bytes 2 (RNS_UD_24BPP_SUPPORT OR RNS_UD_16BPP_SUPPORT OR RNS_UD_15BPP_SUPPORT OR
        (if se_ColorDepth se = 32 then RNS_UD_32BPP_SUPPORT else 0)),
      le_bytes 2 (client_early_flags (sent_settings se) (sent_connection_type se)),
      wide_enc 64 (ge_ConvertToUnicode E (se_ClientProductId se)), [sent_connection_type se], [0],
      le_bytes 4 (se_SelectedProtocol se), le_bytes 4 (se_DesktopPhysicalWidth se),
      le_bytes 4 (se_DesktopPhysicalHeight se), le_bytes 2 (se_DesktopOrientation se),
      le_bytes 4 (se_DesktopScaleFactor se), le_bytes 4 (se_DeviceScaleFactor se)]"

definition core_enc :: "gcc_env \<Rightarrow> gcc_settings \<Rightarrow> byte list" where
  "core_enc E se = header_enc CS_CORE 234 @ concat (core_parts1 E se) @ concat (core_parts2 E se)"

definition names_valid :: "gcc_env \<Rightarrow> gcc_settings \<Rightarrow> bool" where
  "names_valid E se \<longleftrightarrow> wide_valid 32 (ge_ConvertToUnicode E (se_ClientHostname se)) \<and>
     wide_valid 64 (ge_ConvertToUnicode E (se_ClientProductId se))"

lemma length_core_parts:
  assumes "names_valid E se"
  shows "length (concat (core_parts1 E se)) = 128" "length (concat (core_parts2 E se)) = 102" "length (core_enc E se) = 234"
  using assms by (simp_all add: core_enc_def core_parts1_def core_parts2_def names_valid_def length_wide_enc)

text \<open>The writer as a sequence of writers.\<close>

definition core_writers :: "gcc_env \<Rightarrow> gcc_settings \<Rightarrow> writer list" where
  "core_writers E se =
     [gcc_write_user_data_header CS_CORE 234,
      Stream_Write_UINT32 (if se_RdpVersion se \<ge> 5 then RDP_VERSION_5_PLUS else RDP_VERSION_4),
      Stream_Write_UINT16 (ucast (se_DesktopWidth se)), Stream_Write_UINT16 (ucast (se_DesktopHeight se)),
      Stream_Write_UINT16 RNS_UD_COLOR_8BPP, Stream_Write_UINT16 RNS_UD_SAS_DEL, Stream_Write_UINT32 (se_KeyboardLayout se),
      Stream_Write_UINT32 (se_ClientBuild se), write_wide 32 (ge_ConvertToUnicode E (se_ClientHostname se)),
      Stream_Write_UINT32 (se_KeyboardType se), Stream_Write_UINT32 (se_KeyboardSubType se),
      Stream_Write_UINT32 (se_KeyboardFunctionKey se), Stream_Zero 64,
      Stream_Write_UINT16 RNS_UD_COLOR_8BPP, Stream_Write_UINT16 1, Stream_Write_UINT32 0,
      Stream_Write_UINT16 (ucast (min (se_ColorDepth se) 24)),
      Stream_Write_UINT16 (RNS_UD_24BPP_SUPPORT OR RNS_UD_16BPP_SUPPORT OR RNS_UD_15BPP_SUPPORT OR
        (if se_ColorDepth se = 32 then RNS_UD_32BPP_SUPPORT else 0)),
      Stream_Write_UINT16 (client_early_flags (sent_settings se) (sent_connection_type se)),
      write_wide 64 (ge_ConvertToUnicode E (se_ClientProductId se)), Stream_Write_UINT8 (sent_connection_type se),
      Stream_Write_UINT8 0, Stream_Write_UINT32 (se_SelectedProtocol se), Stream_Write_UINT32 (se_DesktopPhysicalWidth se),
      Stream_Write_UINT32 (se_DesktopPhysicalHeight se), Stream_Write_UINT16 (se_DesktopOrientation se),
      Stream_Write_UINT32 (se_DesktopScaleFactor se), Stream_Write_UINT32 (se_DeviceScaleFactor se)]"

lemma write_core_eq:
  "gcc_write_client_core_data E m s =
     map_option (\<lambda>s. (m\<lparr>mcs_settings := sent_settings (mcs_settings m)\<rparr>, s)) (write_seq (core_writers E (mcs_settings m)) s)"
  by (simp add: gcc_write_client_core_data_def core_writers_def Let_def map_conv_bind_option comp_def)

lemma emits_core:
  assumes "names_valid E se"
  shows "emits (write_seq (core_writers E se)) (core_enc E se)"
proof -
  note w = emits_wide [of 32, simplified] emits_wide [of 64, simplified]
  have "list_all2 emits (core_writers E se) (header_enc CS_CORE 234 # core_parts1 E se @ core_parts2 E se)"
    using assms emits_header emits_UINT8 emits_UINT16 emits_UINT32 emits_Zero w
    by (simp add: core_writers_def core_parts1_def core_parts2_def names_valid_def)
  from emits_seq [OF this] show ?thesis by (simp add: core_enc_def)
qed

section \<open>Reading the core data\<close>

definition names_room :: "gcc_settings \<Rightarrow> bool" where
  "names_room se \<longleftrightarrow> length (se_ClientHostname se) = 32 \<and> length (se_ClientProductId se) = 32"

text \<open>A field that reads the bytes \<open>bs\<close> and has the effect \<open>g\<close>.\<close>

definition reads_field :: "(core_data \<Rightarrow> core_data) \<times> byte list \<Rightarrow> nat \<times> core_field \<Rightarrow> bool" where
  "reads_field gb nf \<longleftrightarrow> length (snd gb) = fst nf \<and>
     (\<forall>c s ts. stream_wf s \<longrightarrow> st_rest s = snd gb @ ts \<longrightarrow> names_room (co_settings c) \<longrightarrow>
        snd nf c s = Some (fst gb c, stream_skip (fst nf) s)) \<and>
     (\<forall>c. names_room (co_settings c) \<longrightarrow> names_room (co_settings (fst gb c))) \<and>
     (\<forall>c b. fst gb (c\<lparr>co_blockLength := b\<rparr>) = (fst gb c)\<lparr>co_blockLength := b\<rparr>)"

lemma fold_blockLength:
  assumes "\<And>g. g \<in> set gs \<Longrightarrow> (\<forall>c b. g (c\<lparr>co_blockLength := b\<rparr>) = (g c)\<lparr>co_blockLength := b\<rparr>)"
  shows "fold (\<lambda>g. g) gs (c\<lparr>co_blockLength := b\<rparr>) = (fold (\<lambda>g. g) gs (c :: core_data))\<lparr>co_blockLength := b\<rparr>"
  using assms
proof (induction gs arbitrary: c)
  case Nil
  then show ?case by simp
next
  case (Cons g gs)
  have "g (c\<lparr>co_blockLength := b\<rparr>) = (g c)\<lparr>co_blockLength := b\<rparr>" using Cons.prems [of g] by simp
  then show ?case using Cons.IH [of "g c"] Cons.prems by simp
qed

lemma reads_field_blockLength:
  fixes c :: core_data
  assumes "reads_field gb nf"
  shows "co_blockLength (fst gb c) = co_blockLength c"
proof -
  have "fst gb (c\<lparr>co_blockLength := co_blockLength c\<rparr>) = (fst gb c)\<lparr>co_blockLength := co_blockLength c\<rparr>"
    using assms unfolding reads_field_def by blast
  moreover have "c\<lparr>co_blockLength := co_blockLength c\<rparr> = c" by simp
  ultimately have "fst gb c = (fst gb c)\<lparr>co_blockLength := co_blockLength c\<rparr>" by simp
  then have "co_blockLength (fst gb c) = co_blockLength ((fst gb c)\<lparr>co_blockLength := co_blockLength c\<rparr>)" by (rule arg_cong)
  then show ?thesis by simp
qed

lemma core_run_reads:
  assumes "list_all2 reads_field gbs fs" "stream_wf s" "st_rest s = concat (map snd gbs) @ ts" "names_room (co_settings c)"
  shows "core_run fs c s = Some (fold fst gbs c, stream_skip (length (concat (map snd gbs))) s) \<and>
     names_room (co_settings (fold fst gbs c)) \<and> co_blockLength (fold fst gbs c) = co_blockLength c"
  using assms
proof (induction arbitrary: c s rule: list_all2_induct)
  case Nil
  then show ?case by simp
next
  case (Cons gb gbs nf fs)
  obtain g bs n f where x: "gb = (g, bs)" "nf = (n, f)" by fastforce
  have r: "f c s = Some (g c, stream_skip n s)" "n = length bs" "names_room (co_settings (g c))"
    using Cons.hyps(1) Cons.prems x by (auto simp: reads_field_def)
  have "stream_wf (stream_skip n s)" "st_rest (stream_skip n s) = concat (map snd gbs) @ ts"
    using Cons.prems r(2) x by (auto intro: stream_wf_skip)
  from Cons.IH [OF this r(3)] show ?case
    using r x reads_field_blockLength [OF Cons.hyps(1), of c] by simp
qed

lemma core_optional_reads:
  assumes "list_all2 reads_field gbs fs" "stream_wf s" "st_rest s = concat (map snd gbs) @ ts" "names_room (co_settings c)"
    "unat (co_blockLength c) = length (concat (map snd gbs))"
  shows "\<exists>b. core_optional fs c s = Some (True, (fold fst gbs c)\<lparr>co_blockLength := b\<rparr>, stream_skip (length (concat (map snd gbs))) s) \<and>
     names_room (co_settings (fold fst gbs c))"
  using assms
proof (induction arbitrary: c s rule: list_all2_induct)
  case Nil
  then show ?case by (intro exI [of _ "co_blockLength c"]) simp
next
  case (Cons gb gbs nf fs)
  obtain g bs n f where x: "gb = (g, bs)" "nf = (n, f)" by fastforce
  have r: "f c s = Some (g c, stream_skip n s)" "n = length bs" "names_room (co_settings (g c))"
      "\<And>c b. g (c\<lparr>co_blockLength := b\<rparr>) = (g c)\<lparr>co_blockLength := b\<rparr>"
    using Cons.hyps(1) Cons.prems x by (auto simp: reads_field_def)
  let ?c = "(g c)\<lparr>co_blockLength := co_blockLength (g c) - of_nat n\<rparr>"
  have bl: "co_blockLength (g c) = co_blockLength c" using reads_field_blockLength [OF Cons.hyps(1), of c] x by simp
  have ge: "n \<le> unat (co_blockLength c)" using Cons.prems(4) r(2) x by simp
  then have "unat (of_nat n :: u16) = n"
    using unsigned_less [of "co_blockLength c", where ?'a = nat] by (simp add: unat_of_nat)
  then have u: "unat (co_blockLength ?c) = length (concat (map snd gbs))"
    using ge bl Cons.prems(4) r(2) x by (simp add: unat_sub word_le_nat_alt)
  have w: "stream_wf (stream_skip n s)" "st_rest (stream_skip n s) = concat (map snd gbs) @ ts"
    using Cons.prems r(2) x by (auto intro: stream_wf_skip)
  obtain b where b: "core_optional fs ?c (stream_skip n s) =
      Some (True, (fold fst gbs ?c)\<lparr>co_blockLength := b\<rparr>, stream_skip (length (concat (map snd gbs))) (stream_skip n s))"
      "names_room (co_settings (fold fst gbs ?c))"
    using Cons.IH [OF w, of ?c] r(3) u by auto
  have "fold fst gbs ?c = (fold fst gbs (g c))\<lparr>co_blockLength := co_blockLength (g c) - of_nat n\<rparr>"
  proof -
    have "\<exists>nf. reads_field gb nf" if "gb \<in> set gbs" for gb
      using Cons.hyps(2) that by (metis in_set_conv_nth list_all2_conv_all_nth)
    then have "\<forall>c b. g' (c\<lparr>co_blockLength := b\<rparr>) = (g' c)\<lparr>co_blockLength := b\<rparr>" if "g' \<in> set (map fst gbs)" for g'
      using that unfolding reads_field_def by fastforce
    from fold_blockLength [of "map fst gbs" _ "g c", OF this] show ?thesis by (simp add: fold_map comp_def)
  qed
  with b show ?case using r x ge by auto
qed

text \<open>The effects of the fields, on the bytes that the client writes.\<close>

definition host_result :: "gcc_env \<Rightarrow> byte list \<Rightarrow> byte list \<Rightarrow> byte list" where
  "host_result E w buf = (the (sprintf_str buf 31 (ge_ConvertFromUnicode E w)))[31 := 0]"

definition product_result :: "gcc_env \<Rightarrow> byte list \<Rightarrow> byte list \<Rightarrow> byte list" where
  "product_result E w buf = the (sprintf_str buf 32 (ge_ConvertFromUnicode E w))"

lemma reads_u8:
  assumes "\<And>c. g c = f v c" "\<And>c. names_room (co_settings c) \<Longrightarrow> names_room (co_settings (f v c))"
    "\<And>c b. f v (c\<lparr>co_blockLength := b\<rparr>) = (f v c)\<lparr>co_blockLength := b\<rparr>"
  shows "reads_field (g, [v]) (1, core_u8 f)"
  using assms by (auto simp: reads_field_def core_u8_def stream_simps)

lemma reads_u16:
  assumes "\<And>c. g c = f v c" "\<And>c. names_room (co_settings c) \<Longrightarrow> names_room (co_settings (f v c))"
    "\<And>c b. f v (c\<lparr>co_blockLength := b\<rparr>) = (f v c)\<lparr>co_blockLength := b\<rparr>"
  shows "reads_field (g, le_bytes 2 v) (2, core_u16 f)"
  using assms by (auto simp: reads_field_def core_u16_def stream_simps)

lemma reads_u32:
  assumes "\<And>c. g c = f v c" "\<And>c. names_room (co_settings c) \<Longrightarrow> names_room (co_settings (f v c))"
    "\<And>c b. f v (c\<lparr>co_blockLength := b\<rparr>) = (f v c)\<lparr>co_blockLength := b\<rparr>"
  shows "reads_field (g, le_bytes 4 v) (4, core_u32 f)"
  using assms by (auto simp: reads_field_def core_u32_def stream_simps)

lemma reads_seek: "length bs = n \<Longrightarrow> reads_field (\<lambda>c. c, bs) (n, core_seek n)"
  by (auto simp: reads_field_def core_seek_def stream_simps)

lemma reads_strings:
  assumes "\<And>w. ge_ConvertFromUnicode E w \<noteq> None"
  shows "length w = 32 \<Longrightarrow> reads_field (co_set (\<lambda>se. se\<lparr>se_ClientHostname := host_result E w (se_ClientHostname se)\<rparr>), w) (32, core_hostname E)"
    "length w' = 64 \<Longrightarrow> reads_field (co_set (\<lambda>se. se\<lparr>se_ClientProductId := product_result E w' (se_ClientProductId se)\<rparr>), w') (64, core_product E)"
proof -
  have rd: "mem_read (st_buffer s) (st_pointer s) (length v) = Some v" if "stream_wf s" "st_rest s = v @ ts" for s v ts
    using take_st_rest [OF that(1), of "length v"] that(2) by (simp add: mem_read_def)
  have h: "\<exists>h. sprintf_str b n (ge_ConvertFromUnicode E w) = Some h \<and> length h = length b" if "n \<le> length b" "0 < n" for b n w
    using sprintf_str_ok [OF that assms] .
  show "reads_field (co_set (\<lambda>se. se\<lparr>se_ClientHostname := host_result E w (se_ClientHostname se)\<rparr>), w) (32, core_hostname E)"
    if "length w = 32"
    unfolding reads_field_def fst_conv snd_conv
  proof (intro conjI allI impI)
    fix c :: core_data and s ts assume *: "stream_wf s" "st_rest s = w @ ts" "names_room (co_settings c)"
    obtain h' where "sprintf_str (se_ClientHostname (co_settings c)) 31 (ge_ConvertFromUnicode E w) = Some h'" "length h' = 32"
      using h [of 31 "se_ClientHostname (co_settings c)" w] *(3) by (auto simp: names_room_def)
    then show "core_hostname E c s = Some (co_set (\<lambda>se. se\<lparr>se_ClientHostname := host_result E w (se_ClientHostname se)\<rparr>) c, stream_skip 32 s)"
      using rd [OF *(1,2)] Stream_Seek_skip [OF *(1), of 32] *(2) that
      by (simp add: core_hostname_def host_result_def arr_set_def)
  next
    fix c :: core_data assume "names_room (co_settings c)"
    then show "names_room (co_settings (co_set (\<lambda>se. se\<lparr>se_ClientHostname := host_result E w (se_ClientHostname se)\<rparr>) c))"
      using h [of 31 "se_ClientHostname (co_settings c)" w] by (auto simp: names_room_def host_result_def)
  qed (simp_all add: that)
  show "reads_field (co_set (\<lambda>se. se\<lparr>se_ClientProductId := product_result E w' (se_ClientProductId se)\<rparr>), w') (64, core_product E)"
    if "length w' = 64"
    unfolding reads_field_def fst_conv snd_conv
  proof (intro conjI allI impI)
    fix c :: core_data and s ts assume *: "stream_wf s" "st_rest s = w' @ ts" "names_room (co_settings c)"
    obtain h' where "sprintf_str (se_ClientProductId (co_settings c)) 32 (ge_ConvertFromUnicode E w') = Some h'" "length h' = 32"
      using h [of 32 "se_ClientProductId (co_settings c)" w'] *(3) by (auto simp: names_room_def)
    then show "core_product E c s = Some (co_set (\<lambda>se. se\<lparr>se_ClientProductId := product_result E w' (se_ClientProductId se)\<rparr>) c, stream_skip 64 s)"
      using rd [OF *(1,2)] Stream_Seek_skip [OF *(1), of 64] *(2) that
      by (simp add: core_product_def product_result_def)
  next
    fix c :: core_data assume "names_room (co_settings c)"
    then show "names_room (co_settings (co_set (\<lambda>se. se\<lparr>se_ClientProductId := product_result E w' (se_ClientProductId se)\<rparr>) c))"
      using h [of 32 "se_ClientProductId (co_settings c)" w'] by (auto simp: names_room_def product_result_def)
  qed (simp_all add: that)
qed

definition core_effects1 :: "gcc_env \<Rightarrow> gcc_env \<Rightarrow> gcc_settings \<Rightarrow> (core_data \<Rightarrow> core_data) list" where
  "core_effects1 Es Ec cl =
     [co_set (\<lambda>se. se\<lparr>se_RdpVersion := (if se_RdpVersion cl \<ge> 5 then 7 else 4)\<rparr>),
      co_set (\<lambda>se. se\<lparr>se_DesktopWidth := ucast (ucast (se_DesktopWidth cl) :: u16)\<rparr>),
      co_set (\<lambda>se. se\<lparr>se_DesktopHeight := ucast (ucast (se_DesktopHeight cl) :: u16)\<rparr>),
      (\<lambda>c. c\<lparr>co_colorDepth := RNS_UD_COLOR_8BPP\<rparr>), (\<lambda>c. c),
      co_set (\<lambda>se. se\<lparr>se_KeyboardLayout := se_KeyboardLayout cl\<rparr>),
      co_set (\<lambda>se. se\<lparr>se_ClientBuild := se_ClientBuild cl\<rparr>),
      co_set (\<lambda>se. se\<lparr>se_ClientHostname :=
        host_result Es (wide_enc 32 (ge_ConvertToUnicode Ec (se_ClientHostname cl))) (se_ClientHostname se)\<rparr>),
      co_set (\<lambda>se. se\<lparr>se_KeyboardType := se_KeyboardType cl\<rparr>),
      co_set (\<lambda>se. se\<lparr>se_KeyboardSubType := se_KeyboardSubType cl\<rparr>),
      co_set (\<lambda>se. se\<lparr>se_KeyboardFunctionKey := se_KeyboardFunctionKey cl\<rparr>), (\<lambda>c. c)]"

abbreviation sent_flags :: "gcc_settings \<Rightarrow> u16" where
  "sent_flags cl \<equiv> client_early_flags (sent_settings cl) (sent_connection_type cl)"

definition core_effects2 :: "gcc_env \<Rightarrow> gcc_env \<Rightarrow> gcc_settings \<Rightarrow> (core_data \<Rightarrow> core_data) list" where
  "core_effects2 Es Ec cl =
     [(\<lambda>c. c\<lparr>co_postBeta2ColorDepth := RNS_UD_COLOR_8BPP\<rparr>), (\<lambda>c. c), (\<lambda>c. c),
      (\<lambda>c. c\<lparr>co_highColorDepth := ucast (min (se_ColorDepth cl) 24)\<rparr>),
      (\<lambda>c. c\<lparr>co_supportedColorDepths := RNS_UD_24BPP_SUPPORT OR RNS_UD_16BPP_SUPPORT OR RNS_UD_15BPP_SUPPORT OR
        (if se_ColorDepth cl = 32 then RNS_UD_32BPP_SUPPORT else 0)\<rparr>),
      (\<lambda>c. co_set (\<lambda>se. se\<lparr>se_EarlyCapabilityFlags := ucast (sent_flags cl)\<rparr>) (c\<lparr>co_earlyCapabilityFlags := sent_flags cl\<rparr>)),
      co_set (\<lambda>se. se\<lparr>se_ClientProductId :=
        product_result Es (wide_enc 64 (ge_ConvertToUnicode Ec (se_ClientProductId cl))) (se_ClientProductId se)\<rparr>),
      (\<lambda>c. c\<lparr>co_connectionType := sent_connection_type cl\<rparr>), (\<lambda>c. c),
      (\<lambda>c. c\<lparr>co_serverSelectedProtocol := se_SelectedProtocol cl\<rparr>),
      co_set (\<lambda>se. se\<lparr>se_DesktopPhysicalWidth := se_DesktopPhysicalWidth cl\<rparr>),
      co_set (\<lambda>se. se\<lparr>se_DesktopPhysicalHeight := se_DesktopPhysicalHeight cl\<rparr>),
      co_set (\<lambda>se. se\<lparr>se_DesktopOrientation := se_DesktopOrientation cl\<rparr>),
      co_set (\<lambda>se. se\<lparr>se_DesktopScaleFactor := se_DesktopScaleFactor cl\<rparr>),
      co_set (\<lambda>se. se\<lparr>se_DeviceScaleFactor := se_DeviceScaleFactor cl\<rparr>)]"

lemma core_effects_read:
  assumes "\<And>w. ge_ConvertFromUnicode Es w \<noteq> None" "names_valid Ec cl"
  shows "list_all2 reads_field (zip (core_effects1 Es Ec cl) (core_parts1 Ec cl)) (core_required Es)"
    "list_all2 reads_field (zip (core_effects2 Es Ec cl) (core_parts2 Ec cl)) (core_optional_fields Es)"
proof -
  have l: "length (wide_enc 32 (ge_ConvertToUnicode Ec (se_ClientHostname cl))) = 32"
      "length (wide_enc 64 (ge_ConvertToUnicode Ec (se_ClientProductId cl))) = 64"
    using assms(2) by (simp_all add: names_valid_def length_wide_enc)
  have v: "(if se_RdpVersion cl \<ge> 5 then RDP_VERSION_5_PLUS else RDP_VERSION_4) = RDP_VERSION_4 \<longleftrightarrow> \<not> se_RdpVersion cl \<ge> 5"
    by (simp add: RDP_VERSION_5_PLUS_def RDP_VERSION_4_def)
  show "list_all2 reads_field (zip (core_effects1 Es Ec cl) (core_parts1 Ec cl)) (core_required Es)"
    unfolding core_effects1_def core_parts1_def core_required_def zip_Cons_Cons zip_Nil list_all2_Cons
    by (intro conjI reads_u32 reads_u16 reads_seek reads_strings [OF assms(1)]) (simp_all add: names_room_def l v)
  show "list_all2 reads_field (zip (core_effects2 Es Ec cl) (core_parts2 Ec cl)) (core_optional_fields Es)"
    unfolding core_effects2_def core_parts2_def core_optional_fields_def zip_Cons_Cons zip_Nil list_all2_Cons
    by (intro conjI reads_u8 reads_u32 reads_u16 reads_seek reads_strings [OF assms(1)]) (simp_all add: names_room_def l)
qed

text \<open>Each flag of the client stands for its setting.\<close>

lemmas early_flag_defs = RNS_UD_CS_SUPPORT_ERRINFO_PDU_def RNS_UD_CS_VALID_CONNECTION_TYPE_def RNS_UD_CS_WANT_32BPP_SESSION_def
  RNS_UD_CS_SUPPORT_NETWORK_AUTODETECT_def RNS_UD_CS_SUPPORT_HEARTBEAT_PDU_def RNS_UD_CS_SUPPORT_DYNVC_GFX_PROTOCOL_def
  RNS_UD_CS_SUPPORT_DYNAMIC_TIME_ZONE_def

lemma early_flags:
  "client_early_flags se ct AND RNS_UD_CS_SUPPORT_ERRINFO_PDU \<noteq> 0"
  "client_early_flags se ct AND RNS_UD_CS_VALID_CONNECTION_TYPE = 0 \<longleftrightarrow> ct = 0"
  "client_early_flags se ct AND RNS_UD_CS_WANT_32BPP_SESSION \<noteq> 0 \<longleftrightarrow> se_ColorDepth se = 32"
  "client_early_flags se ct AND RNS_UD_CS_SUPPORT_NETWORK_AUTODETECT \<noteq> 0 \<longleftrightarrow> se_NetworkAutoDetect se"
  "client_early_flags se ct AND RNS_UD_CS_SUPPORT_HEARTBEAT_PDU \<noteq> 0 \<longleftrightarrow> se_SupportHeartbeatPdu se"
  "client_early_flags se ct AND RNS_UD_CS_SUPPORT_DYNVC_GFX_PROTOCOL \<noteq> 0 \<longleftrightarrow> se_SupportGraphicsPipeline se"
  "client_early_flags se ct AND RNS_UD_CS_SUPPORT_DYNAMIC_TIME_ZONE \<noteq> 0 \<longleftrightarrow> se_SupportDynamicTimeZone se"
  by (simp_all add: client_early_flags_def early_flag_defs)

text \<open>
  The depth that the server understands: up to 24 bits what the client has, 32 if it has 32; no
  depth at all is taken for 8.
\<close>

definition sent_depth :: "gcc_settings \<Rightarrow> u32" where
  "sent_depth cl = (if se_ColorDepth cl = 0 then 8 else if se_ColorDepth cl = 32 then 32 else min (se_ColorDepth cl) 24)"

text \<open>What the server \<open>sv\<close> knows of the client \<open>cl\<close> afterwards: its desktop, and the capabilities that both have.\<close>

definition core_arrived :: "gcc_settings \<Rightarrow> gcc_settings \<Rightarrow> gcc_settings \<Rightarrow> bool" where
  "core_arrived cl sv se \<longleftrightarrow>
     se_DesktopWidth se = ucast (ucast (se_DesktopWidth cl) :: u16) \<and>
     se_DesktopHeight se = ucast (ucast (se_DesktopHeight cl) :: u16) \<and>
     se_KeyboardLayout se = se_KeyboardLayout cl \<and> se_ClientBuild se = se_ClientBuild cl \<and>
     se_ColorDepth se = (if se_ServerMode sv then min (sent_depth cl) (se_ColorDepth sv) else sent_depth cl) \<and>
     (se_NetworkAutoDetect se \<longleftrightarrow> se_NetworkAutoDetect cl \<and> se_NetworkAutoDetect sv) \<and>
     (se_SupportHeartbeatPdu se \<longleftrightarrow> se_SupportHeartbeatPdu cl \<and> se_SupportHeartbeatPdu sv) \<and>
     (se_SupportGraphicsPipeline se \<longleftrightarrow> se_SupportGraphicsPipeline cl \<and> se_SupportGraphicsPipeline sv) \<and>
     (se_SupportDynamicTimeZone se \<longleftrightarrow> se_SupportDynamicTimeZone cl \<and> se_SupportDynamicTimeZone sv) \<and>
     se_SupportErrorInfoPdu se \<and>
     se_ConnectionType se = ucast (sent_connection_type cl) \<and>
     names_room se \<and> se_UseRdpSecurityLayer se = se_UseRdpSecurityLayer sv"

lemma core_depth:
  assumes "co_highColorDepth c = ucast (min (se_ColorDepth cl) 24)" "co_postBeta2ColorDepth c = RNS_UD_COLOR_8BPP"
    "co_earlyCapabilityFlags c = sent_flags cl"
  shows "client_color_depth c = Some (sent_depth cl)"
proof -
  have u: "unat (min (se_ColorDepth cl) 24) \<le> 24" by (simp add: min_def word_le_nat_alt)
  then have "ucast (ucast (min (se_ColorDepth cl) 24) :: u16) = min (se_ColorDepth cl) 24" by (intro ucast_u32(2)) simp
  moreover have "ucast (min (se_ColorDepth cl) 24) > (0 :: u16) \<longleftrightarrow> se_ColorDepth cl \<noteq> 0"
    using u by (auto simp: word_less_nat_alt word_le_nat_alt unat_ucast_mod min_def word_unat_eq_iff split: if_splits)
  ultimately show ?thesis
    using assms early_flags(3) [of "sent_settings cl" "sent_connection_type cl"]
    by (auto simp: client_color_depth_def sent_depth_def RNS_UD_COLOR_8BPP_def RNS_UD_COLOR_4BPP_def)
qed

text \<open>The settings of the server after reading the core data of the client.\<close>

definition core_result :: "gcc_env \<Rightarrow> gcc_env \<Rightarrow> gcc_settings \<Rightarrow> gcc_settings \<Rightarrow> gcc_settings" where
  "core_result Es Ec cl sv = core_settings (fold (\<lambda>g. g) (core_effects2 Es Ec cl) (fold (\<lambda>g. g) (core_effects1 Es Ec cl)
     \<lparr>co_blockLength = 230, co_colorDepth = 0, co_postBeta2ColorDepth = 0, co_highColorDepth = 0,
      co_supportedColorDepths = 0, co_earlyCapabilityFlags = 0, co_connectionType = 0,
      co_serverSelectedProtocol = 0, co_settings = sv\<rparr>)) (sent_depth cl)"

lemma core_effects_blockLength:
  "fold (\<lambda>g. g) (core_effects2 Es Ec cl) (c\<lparr>co_blockLength := b\<rparr>) = (fold (\<lambda>g. g) (core_effects2 Es Ec cl) c)\<lparr>co_blockLength := b\<rparr>"
  by (simp add: core_effects2_def)

lemma core_data_arrives:
  assumes "\<And>w. ge_ConvertFromUnicode Es w \<noteq> None" "names_valid Ec cl" "names_room (mcs_settings m)"
    "se_SelectedProtocol (mcs_settings m) = se_SelectedProtocol cl"
    "stream_wf s" "st_rest s = concat (core_parts1 Ec cl) @ concat (core_parts2 Ec cl) @ ts"
  shows "gcc_read_client_core_data Es 230 m s =
       Some (True, m\<lparr>mcs_settings := core_result Es Ec cl (mcs_settings m)\<rparr>, stream_skip 230 s)"
    and "core_arrived cl (mcs_settings m) (core_result Es Ec cl (mcs_settings m))"
proof -
  define c0 where "c0 = \<lparr>co_blockLength = 230, co_colorDepth = 0, co_postBeta2ColorDepth = 0, co_highColorDepth = 0,
          co_supportedColorDepths = 0, co_earlyCapabilityFlags = 0, co_connectionType = 0,
          co_serverSelectedProtocol = 0, co_settings = mcs_settings m\<rparr>"
  define g1 g2 where "g1 = zip (core_effects1 Es Ec cl) (core_parts1 Ec cl)" and "g2 = zip (core_effects2 Es Ec cl) (core_parts2 Ec cl)"
  have parts: "map snd g1 = core_parts1 Ec cl" "map snd g2 = core_parts2 Ec cl" "map fst g1 = core_effects1 Es Ec cl"
      "map fst g2 = core_effects2 Es Ec cl"
    by (simp_all add: g1_def g2_def core_effects1_def core_effects2_def core_parts1_def core_parts2_def)
  note L = length_core_parts(1,2) [OF assms(2)]
  note R = core_effects_read [OF assms(1,2), folded g1_def g2_def]
  define c1 where "c1 = fold fst g1 c0"
  have r1: "core_run (core_required Es) c0 s = Some (c1, stream_skip 128 s)" "names_room (co_settings c1)" "co_blockLength c1 = 230"
    using core_run_reads [OF R(1) assms(5), of "concat (core_parts2 Ec cl) @ ts" c0] assms(3,6) L parts by (simp_all add: c0_def c1_def)
  have w: "stream_wf (stream_skip 128 s)" "st_rest (stream_skip 128 s) = concat (core_parts2 Ec cl) @ ts"
    using assms(5,6) L by (auto intro: stream_wf_skip)
  define c2 where "c2 = c1\<lparr>co_blockLength := co_blockLength c1 - 128\<rparr>"
  have "co_blockLength c2 = 102" "names_room (co_settings c2)" using r1 by (simp_all add: c2_def)
  then obtain b where r2: "core_optional (core_optional_fields Es) c2 (stream_skip 128 s) =
      Some (True, (fold fst g2 c2)\<lparr>co_blockLength := b\<rparr>, stream_skip 230 s)" "names_room (co_settings (fold fst g2 c2))"
    using core_optional_reads [OF R(2) w(1), of ts c2] w(2) L parts by auto
  define c3 where "c3 = (fold fst g2 c2)\<lparr>co_blockLength := b\<rparr>"
  have "fold fst g1 c0 = fold (\<lambda>g. g) (core_effects1 Es Ec cl) c0" "fold fst g2 c2 = fold (\<lambda>g. g) (core_effects2 Es Ec cl) c2"
    by (simp_all add: parts [symmetric] fold_map comp_def)
  note c = this [unfolded core_effects1_def core_effects2_def]
  have f: "co_highColorDepth c3 = ucast (min (se_ColorDepth cl) 24)" "co_postBeta2ColorDepth c3 = RNS_UD_COLOR_8BPP"
      "co_earlyCapabilityFlags c3 = sent_flags cl" "co_connectionType c3 = sent_connection_type cl"
      "co_serverSelectedProtocol c3 = se_SelectedProtocol cl"
    unfolding c3_def c(2) by simp_all
  have sel: "se_SelectedProtocol (co_settings c3) = se_SelectedProtocol (mcs_settings m)"
    unfolding c3_def c(2) unfolding c2_def c1_def c(1) by (simp add: c0_def)
  have fe: "fold fst g1 = fold (\<lambda>g. g) (core_effects1 Es Ec cl)" "fold fst g2 = fold (\<lambda>g. g) (core_effects2 Es Ec cl)"
    by (simp_all add: parts [symmetric] fold_map comp_def)
  have res: "core_settings c3 (sent_depth cl) = core_result Es Ec cl (mcs_settings m)"
  proof -
    have "c3 = (fold (\<lambda>g. g) (core_effects2 Es Ec cl) (fold (\<lambda>g. g) (core_effects1 Es Ec cl) c0))\<lparr>co_blockLength := b\<rparr>"
      unfolding c3_def c2_def c1_def fe core_effects_blockLength by simp
    then show ?thesis by (simp add: core_result_def c0_def core_settings_def Let_def)
  qed
  have "core_arrived cl (mcs_settings m) (core_settings c3 (sent_depth cl))"
  proof -
    have "names_room (co_settings c3)" using r2(2) by (simp add: c3_def)
    then have nr: "names_room (core_settings c3 (sent_depth cl))" by (simp add: core_settings_def names_room_def Let_def)
    have old: "se_ColorDepth (co_settings c3) = se_ColorDepth (mcs_settings m)" "se_ServerMode (co_settings c3) = se_ServerMode (mcs_settings m)"
        "se_NetworkAutoDetect (co_settings c3) = se_NetworkAutoDetect (mcs_settings m)"
        "se_SupportHeartbeatPdu (co_settings c3) = se_SupportHeartbeatPdu (mcs_settings m)"
        "se_SupportGraphicsPipeline (co_settings c3) = se_SupportGraphicsPipeline (mcs_settings m)"
        "se_SupportDynamicTimeZone (co_settings c3) = se_SupportDynamicTimeZone (mcs_settings m)"
        "se_UseRdpSecurityLayer (co_settings c3) = se_UseRdpSecurityLayer (mcs_settings m)"
        "se_DesktopWidth (co_settings c3) = ucast (ucast (se_DesktopWidth cl) :: u16)"
        "se_DesktopHeight (co_settings c3) = ucast (ucast (se_DesktopHeight cl) :: u16)"
        "se_KeyboardLayout (co_settings c3) = se_KeyboardLayout cl" "se_ClientBuild (co_settings c3) = se_ClientBuild cl"
      unfolding c3_def c(2) unfolding c2_def c1_def c(1) by (simp_all add: c0_def)
    note e = early_flags [of "sent_settings cl" "sent_connection_type cl"]
    show ?thesis unfolding core_arrived_def
      using nr e by (auto simp: core_settings_def Let_def f old min_def)
  qed
  then show "core_arrived cl (mcs_settings m) (core_result Es Ec cl (mcs_settings m))" by (simp only: res)
  show "gcc_read_client_core_data Es 230 m s =
      Some (True, m\<lparr>mcs_settings := core_result Es Ec cl (mcs_settings m)\<rparr>, stream_skip 230 s)"
    using r1(1) r2(1) core_depth [OF f(1-3)] f(5) sel assms(4)
    by (simp add: gcc_read_client_core_data_def c0_def [symmetric] c2_def [symmetric] c3_def [symmetric] Let_def res)
qed

section \<open>The other blocks of the client\<close>

definition cluster_enc :: "gcc_settings \<Rightarrow> byte list" where
  "cluster_enc se = le_bytes 4 (REDIRECTION_SUPPORTED OR push_bit 2 REDIRECTION_VERSION4 OR
       (if se_ConsoleSession se \<or> se_RedirectedSessionId se \<noteq> 0 then REDIRECTED_SESSIONID_FIELD_VALID else 0)) @
     le_bytes 4 (se_RedirectedSessionId se)"

definition security_enc :: "gcc_settings \<Rightarrow> byte list" where
  "security_enc se = (if se_UseRdpSecurityLayer se then le_bytes 4 (se_EncryptionMethods se) @ le_bytes 4 (0 :: u32)
     else le_bytes 4 (0 :: u32) @ le_bytes 4 (se_EncryptionMethods se))"

definition channel_enc :: "rdpMcsChannel \<Rightarrow> byte list" where
  "channel_enc c = ch_Name c @ le_bytes 4 (ch_options c)"

definition net_enc :: "rdpMcsChannel list \<Rightarrow> byte list" where
  "net_enc cs = le_bytes 4 (of_nat (length cs) :: u32) @ concat (map channel_enc cs)"

text \<open>The channels in use, with names of eight bytes.\<close>

definition channels_used :: "'w rdpMcs \<Rightarrow> rdpMcsChannel list" where
  "channels_used m = take (unat (mcs_channelCount m)) (mcs_channels m)"

definition channels_ok :: "'w rdpMcs \<Rightarrow> bool" where
  "channels_ok m \<longleftrightarrow> unat (mcs_channelCount m) \<le> length (mcs_channels m) \<and> (\<forall>c \<in> set (mcs_channels m). length (ch_Name c) = 8)"

definition block_enc :: "u16 \<Rightarrow> byte list \<Rightarrow> byte list" where
  "block_enc type body = header_enc type (of_nat (4 + length body)) @ body"

lemma length_block [simp]: "length (block_enc type body) = 4 + length body"
  by (simp add: block_enc_def)

lemma length_client_encs [simp]: "length (cluster_enc se) = 8" "length (security_enc se) = 8"
  by (simp_all add: cluster_enc_def security_enc_def)

lemmas gcc_put_simps = emitsD [OF emits_header] emitsD [OF emits_UINT8] emitsD [OF emits_UINT16] emitsD [OF emits_UINT32] stream_wf_emit

lemma emits_cluster: "emits (gcc_write_client_cluster_data m) (block_enc CS_CLUSTER (cluster_enc (mcs_settings m)))"
  by (rule emitsI) (simp add: gcc_write_client_cluster_data_def block_enc_def cluster_enc_def gcc_put_simps Let_def)

lemma emits_security: "emits (gcc_write_client_security_data m) (block_enc CS_SECURITY (security_enc (mcs_settings m)))"
  by (rule emitsI, cases "se_UseRdpSecurityLayer (mcs_settings m)")
     (simp_all add: gcc_write_client_security_data_def block_enc_def security_enc_def gcc_put_simps Let_def)

lemma length_channel_defs: "(\<And>c. c \<in> set cs \<Longrightarrow> length (ch_Name c) = 8) \<Longrightarrow> length (concat (map channel_enc cs)) = 12 * length cs"
  by (induction cs) (simp_all add: channel_enc_def)

lemma emits_channel_defs:
  assumes "i + n \<le> length cs" "\<And>c. c \<in> set cs \<Longrightarrow> length (ch_Name c) = 8"
  shows "emits (write_channel_defs cs i n) (concat (map channel_enc (take n (drop i cs))))"
  using assms(1)
proof (induction n arbitrary: i)
  case 0
  then show ?case by (simp add: emits_Some)
next
  case (Suc n)
  then have d: "take (Suc n) (drop i cs) = cs ! i # take n (drop (i + 1) cs)" by (simp add: Cons_nth_drop_Suc [symmetric])
  have nm: "length (ch_Name (cs ! i)) = 8" using assms(2) Suc.prems by simp
  have "emits (\<lambda>s. Stream_Write (ch_Name (cs ! i)) s \<bind> Stream_Write_UINT32 (ch_options (cs ! i))) (channel_enc (cs ! i))"
    unfolding channel_enc_def by (rule emits_bind [OF emits_Write emits_UINT32 refl])
  from emits_bind [OF this Suc.IH [of "i + 1"]] show ?case
    using Suc.prems nm unfolding d by (auto simp: arr_get_def mem_read_def)
qed

lemma emits_network:
  assumes "channels_ok m" "unat (mcs_channelCount m) \<le> 16"
  shows "emits (gcc_write_client_network_data m)
     (if mcs_channelCount m = 0 then [] else block_enc CS_NET (net_enc (channels_used m)))"
proof (cases "mcs_channelCount m = 0")
  case True
  then show ?thesis by (simp add: emits_Some gcc_write_client_network_data_def)
next
  case False
  let ?n = "unat (mcs_channelCount m)"
  have l: "length (channels_used m) = ?n" using assms(1) by (simp add: channels_used_def channels_ok_def)
  have names: "length (ch_Name c) = 8" if "c \<in> set (channels_used m)" for c
    using assms(1) that by (auto simp: channels_used_def channels_ok_def dest: in_set_takeD)
  have len: "ucast (mcs_channelCount m * 12 + 8) = (of_nat (4 + length (net_enc (channels_used m))) :: u16)"
  proof -
    have "unat (mcs_channelCount m * 12 + 8) = ?n * 12 + 8" using assms(2) by (simp add: unat_word_ariths)
    then have "unat (ucast (mcs_channelCount m * 12 + 8) :: u16) = ?n * 12 + 8" using assms(2) by (simp add: unat_ucast_mod)
    moreover have "4 + length (net_enc (channels_used m)) = ?n * 12 + 8"
      using l length_channel_defs [OF names, of "channels_used m"] by (simp add: net_enc_def)
    then have "unat (of_nat (4 + length (net_enc (channels_used m))) :: u16) = ?n * 12 + 8"
      unfolding unat_of_nat using assms(2) by simp
    ultimately show ?thesis by (simp only: word_unat_eq_iff)
  qed
  have defs: "emits (write_channel_defs (mcs_channels m) 0 ?n) (concat (map channel_enc (channels_used m)))"
    using emits_channel_defs [of 0 ?n "mcs_channels m"] assms(1) by (simp add: channels_ok_def channels_used_def)
  have "emits (\<lambda>s. gcc_write_user_data_header CS_NET (ucast (mcs_channelCount m * 12 + 8)) s \<bind> (\<lambda>s.
      Stream_Write_UINT32 (mcs_channelCount m) s \<bind> write_channel_defs (mcs_channels m) 0 ?n))
      (header_enc CS_NET (ucast (mcs_channelCount m * 12 + 8)) @ le_bytes 4 (mcs_channelCount m) @ concat (map channel_enc (channels_used m)))"
    by (rule emits_bind [OF emits_header emits_bind [OF emits_UINT32 defs refl] refl])
  then show ?thesis using False l
    by (simp add: emits_def gcc_write_client_network_data_def block_enc_def net_enc_def len word_gt_0 Let_def)
qed

definition msg_wanted :: "gcc_settings \<Rightarrow> bool" where
  "msg_wanted se \<longleftrightarrow> se_NetworkAutoDetect se \<or> se_SupportHeartbeatPdu se \<or> se_SupportMultitransport se"

lemma emits_msg: "emits (gcc_write_client_message_channel_data m)
    (if msg_wanted (mcs_settings m) then block_enc CS_MCS_MSGCHANNEL (le_bytes 4 (0 :: u32)) else [])"
  by (rule emitsI, cases "msg_wanted (mcs_settings m)")
     (simp_all add: gcc_write_client_message_channel_data_def msg_wanted_def block_enc_def gcc_put_simps Let_def)

lemma emits_multitransport: "emits (gcc_write_client_multitransport_channel_data m)
    (if se_MultitransportFlags (mcs_settings m) \<noteq> 0
     then block_enc CS_MULTITRANSPORT (le_bytes 4 (se_MultitransportFlags (mcs_settings m))) else [])"
  by (rule emitsI, cases "se_MultitransportFlags (mcs_settings m) = 0")
     (simp_all add: gcc_write_client_multitransport_channel_data_def block_enc_def gcc_put_simps Let_def)

section \<open>Reading them on the server\<close>

lemma dec_block:
  assumes "4 + length body < 65536"
  shows "gcc_dec_header (block_enc t body @ ts) = (Some (t, of_nat (4 + length body)), 4)"
    "unat (of_nat (4 + length body) :: u16) = 4 + length body"
    "word_of_int (uint (of_nat (4 + length body) :: u16) - 4) = (of_nat (length body) :: u16)"
proof -
  show u: "unat (of_nat (4 + length body) :: u16) = 4 + length body" unfolding unat_of_nat using assms by simp
  have d: "drop 2 (block_enc t body @ ts) = le_bytes 2 (of_nat (4 + length body) :: u16) @ body @ ts"
      "block_enc t body @ ts = le_bytes 2 t @ (le_bytes 2 (of_nat (4 + length body) :: u16) @ body @ ts)"
    by (simp_all add: block_enc_def header_enc_def)
  have l: "le16 (drop 2 (block_enc t body @ ts)) = of_nat (4 + length body)" "le16 (block_enc t body @ ts) = t"
    using le16_bytes [of "of_nat (4 + length body)" "body @ ts"] d(1)
      le16_bytes [of t "le_bytes 2 (of_nat (4 + length body) :: u16) @ body @ ts"] d(2) by simp_all
  have "\<not> length (block_enc t body @ ts) < 4" "4 + length body \<le> length (block_enc t body @ ts)" by simp_all
  then show "gcc_dec_header (block_enc t body @ ts) = (Some (t, of_nat (4 + length body)), 4)"
    unfolding gcc_dec_header_def Let_def l u by simp
  show "word_of_int (uint (of_nat (4 + length body) :: u16) - 4) = (of_nat (length body) :: u16)" by simp
qed

lemma client_block_step:
  assumes s: "stream_wf s" "int (st_length s) < INT_LIM" "0 < len" "len < INT_LIM"
    and b: "st_rest s = block_enc t body @ ts" "4 + length body < 65536"
    and h: "gcc_read_client_block E t (of_nat (length body)) m (stream_skip 4 s) = Some (True, m', stream_skip n s)"
  shows "gcc_read_client_data_blocks E m len s =
     gcc_read_client_data_blocks E m' (len - int (4 + length body)) (stream_skip (4 + length body) s)"
proof -
  note D = dec_block [OF b(2)]
  have "uint (of_nat (4 + length body) :: u16) = int (4 + length body)"
    using D(2) by (metis uint_nat)
  then show ?thesis
    using client_loop_step(1) [OF s D(1) [of t ts, folded b(1)], of E m True m' n] h D(2,3) by simp
qed

text \<open>What the server's channels become: names and options of the client, and consecutive identifiers.\<close>

fun recv_channels :: "u16 \<Rightarrow> rdpMcsChannel list \<Rightarrow> rdpMcsChannel list \<Rightarrow> rdpMcsChannel list" where
  "recv_channels b (d # ds) (c # cs) =
     c\<lparr>ch_Name := ch_Name d, ch_options := ch_options d, ch_ChannelId := uint b\<rparr> # recv_channels (b + 1) ds cs"
| "recv_channels b ds cs = cs"

lemma recv_channels_length [simp]: "length (recv_channels b ds cs) = length cs"
  by (induction b ds cs rule: recv_channels.induct) simp_all

lemma recv_channels_nth:
  assumes "j < length ds" "length ds \<le> length cs"
  shows "ch_Name (recv_channels b ds cs ! j) = ch_Name (ds ! j)" "ch_options (recv_channels b ds cs ! j) = ch_options (ds ! j)"
    "ch_ChannelId (recv_channels b ds cs ! j) = uint (b + of_nat j)" "ch_joined (recv_channels b ds cs ! j) = ch_joined (cs ! j)"
  using assms
  by (induction b ds cs arbitrary: j rule: recv_channels.induct) (auto simp: nth_Cons' ac_simps gr0_conv_Suc)

lemma read_channel_defs_recv:
  assumes "mcs_channels m = pre @ cs" "length ds \<le> length cs" "\<And>d. d \<in> set ds \<Longrightarrow> length (ch_Name d) = 8"
    "stream_wf s" "st_rest s = concat (map channel_enc ds) @ ts"
  shows "read_channel_defs (length pre) (length ds) m s =
     Some (m\<lparr>mcs_channels := pre @ recv_channels (mcs_baseChannelId m) ds cs, mcs_baseChannelId := mcs_baseChannelId m + of_nat (length ds)\<rparr>,
       stream_skip (12 * length ds) s)"
  using assms
proof (induction ds arbitrary: m pre cs s)
  case Nil
  then show ?case by simp
next
  case (Cons d ds)
  obtain c cs' where cs: "cs = c # cs'" using Cons.prems(2) by (cases cs) auto
  have nm: "length (ch_Name d) = 8" using Cons.prems(3) by simp
  have r: "st_rest s = ch_Name d @ le_bytes 4 (ch_options d) @ concat (map channel_enc ds) @ ts"
    using Cons.prems(5) by (simp add: channel_enc_def [of d])
  have w: "stream_wf (stream_skip 8 s)" "stream_wf (stream_skip 12 s)" using Cons.prems(4) r nm by (auto intro!: stream_wf_skip)
  define c1 where "c1 = c\<lparr>ch_Name := ch_Name d, ch_options := ch_options d, ch_ChannelId := uint (mcs_baseChannelId m)\<rparr>"
  define m1 where "m1 = m\<lparr>mcs_channels := pre @ c1 # cs', mcs_baseChannelId := mcs_baseChannelId m + 1\<rparr>"
  have rd: "Stream_Read s 8 = Some (ch_Name d, stream_skip 8 s)"
      "Stream_Read_UINT32 (stream_skip 8 s) = Some (ch_options d, stream_skip 12 s)"
    using Cons.prems(4) w r nm by (simp_all add: stream_simps)
  have "read_channel_defs (length pre) (length (d # ds)) m s = read_channel_defs (length (pre @ [c1])) (length ds) m1 (stream_skip 12 s)"
    using rd Cons.prems(1) cs by (simp add: arr_get_def arr_set_def m1_def c1_def)
  also have "\<dots> = Some (m1\<lparr>mcs_channels := (pre @ [c1]) @ recv_channels (mcs_baseChannelId m1) ds cs',
      mcs_baseChannelId := mcs_baseChannelId m1 + of_nat (length ds)\<rparr>, stream_skip (12 * length ds) (stream_skip 12 s))"
    using Cons.prems cs w(2) r nm by (intro Cons.IH) (auto simp: m1_def)
  finally show ?case using cs by (simp add: m1_def c1_def ac_simps)
qed

text \<open>A block with a certain effect on the server, and a sequence of them.\<close>

definition block_effect :: "gcc_env \<Rightarrow> u16 \<Rightarrow> byte list \<Rightarrow> 'w rdpMcs \<Rightarrow> 'w rdpMcs \<Rightarrow> bool" where
  "block_effect E t body m m' \<longleftrightarrow> 4 + length body < 65536 \<and> (\<forall>s ts. stream_wf s \<longrightarrow> st_rest s = body @ ts \<longrightarrow>
     (\<exists>n. gcc_read_client_block E t (of_nat (length body)) m s = Some (True, m', stream_skip n s)))"

fun blocks_effect :: "gcc_env \<Rightarrow> (u16 \<times> byte list) list \<Rightarrow> 'w rdpMcs \<Rightarrow> 'w rdpMcs \<Rightarrow> bool" where
  "blocks_effect E [] m m' \<longleftrightarrow> m' = m"
| "blocks_effect E ((t, body) # bs) m m' \<longleftrightarrow> (\<exists>m1. block_effect E t body m m1 \<and> blocks_effect E bs m1 m')"

lemma blocks_effect_append:
  "blocks_effect E (xs @ ys) m m' \<longleftrightarrow> (\<exists>m1. blocks_effect E xs m m1 \<and> blocks_effect E ys m1 m')"
  by (induction xs arbitrary: m) (auto, metis+)

abbreviation blocks_enc :: "(u16 \<times> byte list) list \<Rightarrow> byte list" where
  "blocks_enc bs \<equiv> concat (map (\<lambda>(t, body). block_enc t body) bs)"

lemma client_blocks_read:
  assumes "blocks_effect E bs m m'" "stream_wf s" "int (st_length s) < INT_LIM" "st_rest s = blocks_enc bs @ ts"
  shows "gcc_read_client_data_blocks E m (int (length (blocks_enc bs))) s = Some (True, m', stream_skip (length (blocks_enc bs)) s)"
  using assms
proof (induction bs arbitrary: m s)
  case Nil
  then show ?case by (simp add: gcc_read_client_data_blocks.simps)
next
  case (Cons b bs)
  obtain t body where b: "b = (t, body)" by fastforce
  obtain m1 where m1: "block_effect E t body m m1" "blocks_effect E bs m1 m'" using Cons.prems(1) b by auto
  have r: "st_rest s = block_enc t body @ blocks_enc bs @ ts" using Cons.prems(4) b by simp
  have w: "stream_wf (stream_skip 4 s)" "st_rest (stream_skip 4 s) = body @ blocks_enc bs @ ts"
      "stream_wf (stream_skip (4 + length body) s)" "st_rest (stream_skip (4 + length body) s) = blocks_enc bs @ ts"
    using Cons.prems(2) r by (auto intro!: stream_wf_skip simp: block_enc_def)
  obtain n where n: "gcc_read_client_block E t (of_nat (length body)) m (stream_skip 4 s) = Some (True, m1, stream_skip n (stream_skip 4 s))"
    using m1(1) w(1,2) unfolding block_effect_def by blast
  have "length (blocks_enc (b # bs)) \<le> length (st_rest s)" using Cons.prems(4) by simp
  then have "int (length (blocks_enc (b # bs))) < INT_LIM" "0 < int (length (blocks_enc (b # bs)))"
    using Cons.prems(2,3) b by (auto simp: length_st_rest)
  then have "gcc_read_client_data_blocks E m (int (length (blocks_enc (b # bs)))) s =
      gcc_read_client_data_blocks E m1 (int (length (blocks_enc (b # bs))) - int (4 + length body)) (stream_skip (4 + length body) s)"
    using n m1(1) by (intro client_block_step [OF Cons.prems(2,3) _ _ r]) (auto simp: block_effect_def)
  also have "int (length (blocks_enc (b # bs))) - int (4 + length body) = int (length (blocks_enc bs))" using b by simp
  also have "gcc_read_client_data_blocks E m1 (int (length (blocks_enc bs))) (stream_skip (4 + length body) s) =
      Some (True, m', stream_skip (length (blocks_enc bs)) (stream_skip (4 + length body) s))"
    using Cons.prems(3) by (intro Cons.IH [OF m1(2) w(3) _ w(4)]) (simp add: stream_skip_def)
  finally show ?case using b by simp
qed

lemmas block_dispatch = gcc_read_client_block_def block_types

lemma core_effect:
  assumes "\<And>w. ge_ConvertFromUnicode Es w \<noteq> None" "names_valid Ec cl" "names_room (mcs_settings m)"
    "se_SelectedProtocol (mcs_settings m) = se_SelectedProtocol cl"
  shows "block_effect Es CS_CORE (concat (core_parts1 Ec cl) @ concat (core_parts2 Ec cl)) m
     (m\<lparr>mcs_settings := core_result Es Ec cl (mcs_settings m)\<rparr>)"
proof -
  let ?body = "concat (core_parts1 Ec cl) @ concat (core_parts2 Ec cl)"
  have L: "length ?body = 230" using length_core_parts(1,2) [OF assms(2)] by simp
  show ?thesis unfolding block_effect_def L
    using core_data_arrives(1) [OF assms] by (auto simp: gcc_read_client_block_def)
qed

lemma core_result_arrived:
  assumes "\<And>w. ge_ConvertFromUnicode Es w \<noteq> None" "names_valid Ec cl" "names_room sv"
    "se_SelectedProtocol sv = se_SelectedProtocol cl"
  shows "core_arrived cl sv (core_result Es Ec cl sv)"
proof -
  have "stream_wf (stream_of (concat (core_parts1 Ec cl) @ concat (core_parts2 Ec cl)))"
    using length_core_parts(1,2) [OF assms(2)] by (simp add: BLOCK_MAX_def)
  from core_data_arrives(2) [OF assms(1,2) _ _ this, of "mcs_sample\<lparr>mcs_settings := sv\<rparr>" "[]"] show ?thesis
    using assms(3,4) by simp
qed

lemma two_words:
  assumes "stream_wf s" "st_rest s = le_bytes 4 (a :: u32) @ le_bytes 4 (b :: u32) @ ts"
  shows "Stream_Read_UINT32 s = Some (a, stream_skip 4 s)" "Stream_Read_UINT32 (stream_skip 4 s) = Some (b, stream_skip 8 s)"
    "Stream_Seek (stream_skip 4 s) 4 = Some (stream_skip 8 s)" "Stream_Seek s 8 = Some (stream_skip 8 s)"
proof -
  have w: "stream_wf (stream_skip 4 s)" using assms by (auto intro: stream_wf_skip)
  show "Stream_Read_UINT32 s = Some (a, stream_skip 4 s)" "Stream_Read_UINT32 (stream_skip 4 s) = Some (b, stream_skip 8 s)"
    using assms w by (simp_all add: stream_simps)
  show "Stream_Seek (stream_skip 4 s) 4 = Some (stream_skip 8 s)" "Stream_Seek s 8 = Some (stream_skip 8 s)"
    using Stream_Seek_skip [OF w, of 4] Stream_Seek_skip [OF assms(1), of 8] assms(2) by simp_all
qed

definition cluster_result :: "gcc_settings \<Rightarrow> gcc_settings \<Rightarrow> gcc_settings" where
  "cluster_result cl sv = (if se_ConsoleSession cl \<or> se_RedirectedSessionId cl \<noteq> 0
     then sv\<lparr>se_RedirectedSessionId := se_RedirectedSessionId cl\<rparr> else sv)"

lemma cluster_effect: "block_effect E CS_CLUSTER (cluster_enc cl) m (m\<lparr>mcs_settings := cluster_result cl (mcs_settings m)\<rparr>)"
proof -
  have f: "(REDIRECTION_SUPPORTED OR push_bit 2 REDIRECTION_VERSION4 OR (if b then REDIRECTED_SESSIONID_FIELD_VALID else 0))
      AND REDIRECTED_SESSIONID_FIELD_VALID \<noteq> 0 \<longleftrightarrow> b" for b
    by (simp add: REDIRECTION_SUPPORTED_def REDIRECTION_VERSION4_def REDIRECTED_SESSIONID_FIELD_VALID_def)
  have d: "gcc_read_client_block E CS_CLUSTER 8 m s = gcc_read_client_cluster_data 8 m s" for m :: "'a rdpMcs" and s
    by (simp add: block_dispatch)
  show ?thesis unfolding block_effect_def length_client_encs
    using two_words(1,2) [of _ "REDIRECTION_SUPPORTED OR push_bit 2 REDIRECTION_VERSION4 OR
       (if se_ConsoleSession cl \<or> se_RedirectedSessionId cl \<noteq> 0 then REDIRECTED_SESSIONID_FIELD_VALID else 0)" "se_RedirectedSessionId cl"]
    by (auto simp: d gcc_read_client_cluster_data_def cluster_enc_def Let_def f cluster_result_def simp del: disj_not1)
qed

definition security_result :: "gcc_settings \<Rightarrow> gcc_settings \<Rightarrow> gcc_settings" where
  "security_result cl sv = (if se_UseRdpSecurityLayer sv then sv\<lparr>se_EncryptionMethods := se_EncryptionMethods cl\<rparr> else sv)"

lemma security_effect: "block_effect E CS_SECURITY (security_enc cl) m (m\<lparr>mcs_settings := security_result cl (mcs_settings m)\<rparr>)"
proof -
  have d: "gcc_read_client_block E CS_SECURITY 8 m s = gcc_read_client_security_data 8 m s" for m :: "'a rdpMcs" and s
    by (simp add: block_dispatch)
  show ?thesis unfolding block_effect_def length_client_encs
    using two_words [of _ "se_EncryptionMethods cl" 0] two_words [of _ 0 "se_EncryptionMethods cl"]
    by (cases "se_UseRdpSecurityLayer cl"; cases "se_EncryptionMethods cl = 0")
       (auto simp: d gcc_read_client_security_data_def security_enc_def Let_def security_result_def)
qed

lemma network_effect:
  assumes "length ds \<le> 16" "length ds \<le> length (mcs_channels m)" "\<And>d. d \<in> set ds \<Longrightarrow> length (ch_Name d) = 8"
  shows "block_effect E CS_NET (net_enc ds) m
     (m\<lparr>mcs_channelCount := of_nat (length ds), mcs_channels := recv_channels (mcs_baseChannelId m) ds (mcs_channels m),
        mcs_baseChannelId := mcs_baseChannelId m + of_nat (length ds)\<rparr>)"
proof -
  have l: "length (net_enc ds) = 4 + 12 * length ds" using length_channel_defs [OF assms(3)] by (simp add: net_enc_def)
  have u: "unat (of_nat (length ds) :: u32) = length ds" "unat (of_nat (4 + 12 * length ds) :: u16) = 4 + 12 * length ds"
    unfolding unat_of_nat using assms(1) by simp_all
  have c: "\<not> of_nat (4 + 12 * length ds) < (4 :: u16)" "\<not> (of_nat (length ds) :: u32) > 16"
    using u assms(1) by (simp_all add: word_less_nat_alt del: of_nat_add of_nat_mult)
  have "unat (4 + of_nat (length ds) * 12 :: u32) = 4 + 12 * length ds" using u(1) assms(1) by (simp add: unat_word_ariths)
  then have e: "\<not> ucast (of_nat (4 + 12 * length ds) :: u16) < (4 + of_nat (length ds) * 12 :: u32)"
    using u(2) assms(1) by (simp add: word_less_nat_alt unat_ucast_mod del: of_nat_add of_nat_mult)
  have d: "gcc_read_client_block E CS_NET n m s = gcc_read_client_network_data n m s" for n and m :: "'a rdpMcs" and s
    by (simp add: block_dispatch)
  have "\<exists>n. gcc_read_client_network_data (of_nat (4 + 12 * length ds)) m s = Some (True, m\<lparr>mcs_channelCount := of_nat (length ds),
      mcs_channels := recv_channels (mcs_baseChannelId m) ds (mcs_channels m), mcs_baseChannelId := mcs_baseChannelId m + of_nat (length ds)\<rparr>, stream_skip n s)"
    if s: "stream_wf s" "st_rest s = net_enc ds @ ts" for s ts
  proof -
    have r: "Stream_Read_UINT32 s = Some (of_nat (length ds), stream_skip 4 s)" "stream_wf (stream_skip 4 s)"
        "st_rest (stream_skip 4 s) = concat (map channel_enc ds) @ ts"
      using s by (auto simp: net_enc_def stream_simps intro!: stream_wf_skip)
    note R = read_channel_defs_recv [of "m\<lparr>mcs_channelCount := of_nat (length ds)\<rparr>" "[]" "mcs_channels m" ds, OF _ assms(2,3) r(2,3)]
    show ?thesis using r(1) R c e u(1)
      by (simp add: gcc_read_client_network_data_def Let_def del: of_nat_add of_nat_mult) blast
  qed
  then show ?thesis unfolding block_effect_def l using assms(1) by (simp add: d del: of_nat_add of_nat_mult)
qed

lemma msg_effect: "block_effect E CS_MCS_MSGCHANNEL (le_bytes 4 (v :: u32)) m
    (m\<lparr>mcs_messageChannelId := mcs_baseChannelId m, mcs_baseChannelId := mcs_baseChannelId m + 1\<rparr>)"
  by (auto simp: block_effect_def block_dispatch gcc_read_client_message_channel_data_def stream_simps)

lemma multitransport_effect: "block_effect E CS_MULTITRANSPORT (le_bytes 4 (v :: u32)) m m"
  by (auto simp: block_effect_def block_dispatch gcc_read_client_multitransport_channel_data_def stream_simps)

section \<open>The description of the client\<close>

definition multimon :: "gcc_settings \<Rightarrow> bool" where
  "multimon se \<longleftrightarrow> se_UseMultimon se \<and> \<not> se_SpanMonitors se"

definition extended :: "gcc_settings \<Rightarrow> bool" where
  "extended se \<longleftrightarrow> se_NegotiationFlags se AND ucast EXTENDED_CLIENT_DATA_SUPPORTED \<noteq> 0"

definition client_blocks :: "gcc_env \<Rightarrow> 'w rdpMcs \<Rightarrow> (u16 \<times> byte list) list" where
  "client_blocks E m = (let se = mcs_settings m in
     [(CS_CORE, concat (core_parts1 E se) @ concat (core_parts2 E se)), (CS_CLUSTER, cluster_enc se), (CS_SECURITY, security_enc se)] @
     (if mcs_channelCount m = 0 then [] else [(CS_NET, net_enc (channels_used m))]) @
     (if extended se \<and> msg_wanted se then [(CS_MCS_MSGCHANNEL, le_bytes 4 (0 :: u32))] else []) @
     (if extended se \<and> se_MultitransportFlags se \<noteq> 0 then [(CS_MULTITRANSPORT, le_bytes 4 (se_MultitransportFlags se))] else []))"

definition client_ok :: "gcc_env \<Rightarrow> 'w rdpMcs \<Rightarrow> bool" where
  "client_ok E m \<longleftrightarrow> names_valid E (mcs_settings m) \<and> channels_ok m \<and> unat (mcs_channelCount m) \<le> 16 \<and>
     \<not> multimon (mcs_settings m)"

lemma channels_used_ok:
  assumes "channels_ok m"
  shows "length (channels_used m) = unat (mcs_channelCount m)" "c \<in> set (channels_used m) \<Longrightarrow> length (ch_Name c) = 8"
  using assms by (auto simp: channels_used_def channels_ok_def dest: in_set_takeD)

lemma length_client_blocks:
  assumes "client_ok E m"
  shows "length (blocks_enc (client_blocks E m)) \<le> 474"
proof -
  have n: "names_valid E (mcs_settings m)" "channels_ok m" "unat (mcs_channelCount m) \<le> 16"
    using assms by (auto simp: client_ok_def)
  have "length (net_enc (channels_used m)) \<le> 196"
    using length_channel_defs [of "channels_used m"] channels_used_ok [OF n(2)] n(3) by (simp add: net_enc_def)
  then show ?thesis using length_core_parts(1,2) [OF n(1)] by (simp add: client_blocks_def Let_def)
qed

lemma write_client_blocks:
  assumes "client_ok E m" "stream_wf s" "length (blocks_enc (client_blocks E m)) \<le> length (st_rest s)"
  shows "gcc_write_client_data_blocks E m s =
     Some (m\<lparr>mcs_settings := sent_settings (mcs_settings m)\<rparr>, stream_emit (blocks_enc (client_blocks E m)) s)"
proof -
  let ?se = "mcs_settings m"
  define m1 where "m1 = m\<lparr>mcs_settings := sent_settings ?se\<rparr>"
  have n: "names_valid E ?se" "channels_ok m" "unat (mcs_channelCount m) \<le> 16" "\<not> multimon ?se"
    using assms(1) by (auto simp: client_ok_def)
  have m1: "channels_ok m1" "unat (mcs_channelCount m1) \<le> 16" "channels_used m1 = channels_used m" "mcs_channelCount m1 = mcs_channelCount m"
      "cluster_enc (mcs_settings m1) = cluster_enc ?se" "security_enc (mcs_settings m1) = security_enc ?se"
      "msg_wanted (mcs_settings m1) = msg_wanted ?se" "extended (mcs_settings m1) = extended ?se"
      "multimon (mcs_settings m1) = multimon ?se" "se_MultitransportFlags (mcs_settings m1) = se_MultitransportFlags ?se"
    using n by (simp_all add: m1_def channels_ok_def channels_used_def cluster_enc_def security_enc_def msg_wanted_def extended_def multimon_def)
  define rest where "rest = (\<lambda>s. if extended ?se then do {
       s \<leftarrow> gcc_write_client_message_channel_data m1 s;
       gcc_write_client_multitransport_channel_data m1 s } else Some s)"
  have "emits rest (if extended ?se then (if msg_wanted ?se then block_enc CS_MCS_MSGCHANNEL (le_bytes 4 (0 :: u32)) else []) @
      (if se_MultitransportFlags ?se \<noteq> 0 then block_enc CS_MULTITRANSPORT (le_bytes 4 (se_MultitransportFlags ?se)) else []) else [])"
    using emits_bind [OF emits_msg [of m1] emits_multitransport [of m1], of rest, unfolded m1(7,10)]
    by (cases "extended ?se") (simp_all add: rest_def emits_Some)
  note R = emits_bind [OF emits_network [OF m1(1,2)] this refl]
  note W = emits_bind [OF emits_core [OF n(1)] emits_bind [OF emits_cluster [of m1] emits_bind [OF emits_security [of m1] R refl] refl] refl]
  have "write_seq (core_writers E ?se) s \<bind> (\<lambda>s. gcc_write_client_cluster_data m1 s \<bind> (\<lambda>s. gcc_write_client_security_data m1 s \<bind>
      (\<lambda>s. gcc_write_client_network_data m1 s \<bind> rest))) = Some (stream_emit (blocks_enc (client_blocks E m)) s)"
  proof -
    have "core_enc E ?se = block_enc CS_CORE (concat (core_parts1 E ?se) @ concat (core_parts2 E ?se))"
      using length_core_parts(1,2) [OF n(1)] by (simp add: core_enc_def block_enc_def)
    then have bytes: "core_enc E ?se @ block_enc CS_CLUSTER (cluster_enc (mcs_settings m1)) @ block_enc CS_SECURITY (security_enc (mcs_settings m1)) @
        (if mcs_channelCount m1 = 0 then [] else block_enc CS_NET (net_enc (channels_used m1))) @
        (if extended ?se then (if msg_wanted ?se then block_enc CS_MCS_MSGCHANNEL (le_bytes 4 (0 :: u32)) else []) @
           (if se_MultitransportFlags ?se \<noteq> 0 then block_enc CS_MULTITRANSPORT (le_bytes 4 (se_MultitransportFlags ?se)) else []) else []) =
        blocks_enc (client_blocks E m)"
      by (simp add: client_blocks_def m1 Let_def)
    show ?thesis by (rule emitsD [OF W [unfolded bytes] assms(2,3)])
  qed
  moreover have "gcc_write_client_data_blocks E m s = map_option (\<lambda>s. (m1, s)) (write_seq (core_writers E ?se) s \<bind>
      (\<lambda>s. gcc_write_client_cluster_data m1 s \<bind> (\<lambda>s. gcc_write_client_security_data m1 s \<bind>
      (\<lambda>s. gcc_write_client_network_data m1 s \<bind> rest))))"
  proof -
    have w: "(se_NegotiationFlags (mcs_settings m1) AND ucast EXTENDED_CLIENT_DATA_SUPPORTED \<noteq> 0) = extended ?se"
        "(se_UseMultimon (mcs_settings m1) \<and> \<not> se_SpanMonitors (mcs_settings m1)) = False"
      using n(4) m1(8,9) by (simp_all only: extended_def multimon_def)
    show ?thesis unfolding gcc_write_client_data_blocks_def write_core_eq m1_def [symmetric] rest_def
      by (cases "extended ?se") (simp_all add: Let_def w map_conv_bind_option comp_def del: de_Morgan_conj)
  qed
  ultimately show ?thesis by (simp add: m1_def)
qed

text \<open>
  What a server \<open>ms\<close> knows once it has read the description of the client \<open>mc\<close>: the core data, the
  channels in the order of the client with consecutive identifiers, and the message channel, which
  gets the identifier behind them.
\<close>

definition client_described :: "'w rdpMcs \<Rightarrow> 'v rdpMcs \<Rightarrow> 'v rdpMcs \<Rightarrow> bool" where
  "client_described mc ms ms' \<longleftrightarrow> (let cl = mcs_settings mc; wanted = extended cl \<and> msg_wanted cl in
     core_arrived cl (mcs_settings ms) (mcs_settings ms') \<and>
     (se_ConsoleSession cl \<or> se_RedirectedSessionId cl \<noteq> 0 \<longrightarrow> se_RedirectedSessionId (mcs_settings ms') = se_RedirectedSessionId cl) \<and>
     (se_UseRdpSecurityLayer (mcs_settings ms) \<longrightarrow> se_EncryptionMethods (mcs_settings ms') = se_EncryptionMethods cl) \<and>
     mcs_channelCount ms' = mcs_channelCount mc \<and>
     mcs_channels ms' = recv_channels (mcs_baseChannelId ms) (channels_used mc) (mcs_channels ms) \<and>
     mcs_messageChannelId ms' = (if wanted then mcs_baseChannelId ms + ucast (mcs_channelCount mc) else mcs_messageChannelId ms) \<and>
     mcs_baseChannelId ms' = mcs_baseChannelId ms + ucast (mcs_channelCount mc) + (if wanted then 1 else 0))"

text \<open>The blocks leave the rest of the MCS state alone.\<close>

definition mcs_frame :: "'w rdpMcs \<Rightarrow> 'w rdpMcs \<Rightarrow> bool" where
  "mcs_frame m m' \<longleftrightarrow> mcs_transport m' = mcs_transport m \<and> mcs_userId m' = mcs_userId m \<and>
     mcs_domainParameters m' = mcs_domainParameters m \<and> mcs_targetParameters m' = mcs_targetParameters m \<and>
     mcs_minimumParameters m' = mcs_minimumParameters m \<and> mcs_maximumParameters m' = mcs_maximumParameters m \<and>
     mcs_userChannelJoined m' = mcs_userChannelJoined m \<and> mcs_globalChannelJoined m' = mcs_globalChannelJoined m \<and>
     mcs_messageChannelJoined m' = mcs_messageChannelJoined m \<and> mcs_channelMaxCount m' = mcs_channelMaxCount m"

text \<open>A server that can read it: a fresh one, with room for the channels, that selected the protocol the client believes in.\<close>

definition server_ready :: "'w rdpMcs \<Rightarrow> 'v rdpMcs \<Rightarrow> bool" where
  "server_ready mc ms \<longleftrightarrow> names_room (mcs_settings ms) \<and>
     se_SelectedProtocol (mcs_settings ms) = se_SelectedProtocol (mcs_settings mc) \<and>
     unat (mcs_channelCount mc) \<le> length (mcs_channels ms) \<and> mcs_channelCount ms = 0"

lemma client_blocks_effect:
  assumes E: "\<And>w. ge_ConvertFromUnicode Es w \<noteq> None" and "client_ok Ec mc" "server_ready mc ms"
  obtains ms' where "blocks_effect Es (client_blocks Ec mc) ms ms'" "client_described mc ms ms'" "mcs_frame ms ms'"
proof -
  let ?cl = "mcs_settings mc" and ?sv = "mcs_settings ms" and ?ds = "channels_used mc"
  have ok: "names_valid Ec ?cl" "channels_ok mc" "unat (mcs_channelCount mc) \<le> 16" using assms(2) by (simp_all add: client_ok_def)
  have rd: "names_room ?sv" "se_SelectedProtocol ?sv = se_SelectedProtocol ?cl"
      "unat (mcs_channelCount mc) \<le> length (mcs_channels ms)" "mcs_channelCount ms = 0"
    using assms(3) by (simp_all add: server_ready_def)
  have ds: "length ?ds = unat (mcs_channelCount mc)" "\<And>d. d \<in> set ?ds \<Longrightarrow> length (ch_Name d) = 8"
    using channels_used_ok [OF ok(2)] by auto
  have cnt: "of_nat (length ?ds) = mcs_channelCount mc" "(of_nat (length ?ds) :: u16) = ucast (mcs_channelCount mc)"
    unfolding ds(1) by simp_all
  obtain c where c: "core_arrived ?cl ?sv c" "c = core_result Es Ec ?cl ?sv" using core_result_arrived [OF E ok(1) rd(1,2)] by auto
  define se where "se = security_result ?cl (cluster_result ?cl c)"
  define m1 where "m1 = ms\<lparr>mcs_settings := se\<rparr>"
  have e1: "blocks_effect Es [(CS_CORE, concat (core_parts1 Ec ?cl) @ concat (core_parts2 Ec ?cl)), (CS_CLUSTER, cluster_enc ?cl),
      (CS_SECURITY, security_enc ?cl)] ms m1"
    using core_effect [OF E ok(1) rd(1,2)] cluster_effect [of Es ?cl "ms\<lparr>mcs_settings := c\<rparr>"]
      security_effect [of Es ?cl "ms\<lparr>mcs_settings := cluster_result ?cl c\<rparr>"]
    by (auto simp: c(2) m1_def se_def)
  define m2 where "m2 = m1\<lparr>mcs_channelCount := mcs_channelCount mc, mcs_channels := recv_channels (mcs_baseChannelId ms) ?ds (mcs_channels ms),
      mcs_baseChannelId := mcs_baseChannelId ms + ucast (mcs_channelCount mc)\<rparr>"
  have e2: "blocks_effect Es (if mcs_channelCount mc = 0 then [] else [(CS_NET, net_enc ?ds)]) m1 m2"
  proof (cases "mcs_channelCount mc = 0")
    case True
    then have "?ds = []" using ds(1) by simp
    then show ?thesis using True rd(4) by (simp add: m2_def m1_def)
  next
    case False
    then show ?thesis using network_effect [of ?ds m1 Es] ds rd(3) ok(3) cnt by (simp add: m2_def m1_def)
  qed
  define m3 where "m3 = (if extended ?cl \<and> msg_wanted ?cl
    then m2\<lparr>mcs_messageChannelId := mcs_baseChannelId m2, mcs_baseChannelId := mcs_baseChannelId m2 + 1\<rparr> else m2)"
  have e3: "blocks_effect Es (if extended ?cl \<and> msg_wanted ?cl then [(CS_MCS_MSGCHANNEL, le_bytes 4 (0 :: u32))] else []) m2 m3"
    using msg_effect [of Es 0 m2] by (simp add: m3_def)
  have e4: "blocks_effect Es (if extended ?cl \<and> se_MultitransportFlags ?cl \<noteq> 0
      then [(CS_MULTITRANSPORT, le_bytes 4 (se_MultitransportFlags ?cl))] else []) m3 m3"
    using multitransport_effect [of Es _ m3] by simp
  have "blocks_effect Es (client_blocks Ec mc) ms m3"
    unfolding client_blocks_def Let_def blocks_effect_append using e1 e2 e3 e4 by blast
  moreover have "core_arrived ?cl ?sv se"
    using c(1) by (simp add: se_def security_result_def cluster_result_def core_arrived_def names_room_def)
  moreover have "se_UseRdpSecurityLayer (cluster_result ?cl c) = se_UseRdpSecurityLayer ?sv"
    using c(1) by (simp add: cluster_result_def core_arrived_def)
  ultimately show ?thesis
    by (intro that [of m3])
       (auto simp: client_described_def Let_def m3_def m2_def m1_def se_def security_result_def cluster_result_def mcs_frame_def)
qed

end
