(* ===== verification/GccReply.thy ===== *)
theory GccReply
  imports GccWire
begin

unbundle bit_operations_syntax

text \<open>
  The answer of the server: the blocks that \<^verbatim>\<open>gcc_write_server_data_blocks\<close> writes when the
  connection does not use the RDP security layer, and what the client makes of them. Together with
  \<open>GccWire\<close> this shows that both sides end with the same channel identifiers.
\<close>

section \<open>What the server writes\<close>

text \<open>A writer that puts bytes into a stream with room for four more, and changes the MCS state.\<close>

definition puts :: "'w block_reader \<Rightarrow> byte list \<Rightarrow> 'w rdpMcs \<Rightarrow> 'w rdpMcs \<Rightarrow> bool" where
  "puts w bs m m' \<longleftrightarrow> (\<forall>s. stream_wf s \<longrightarrow> length bs + 4 \<le> length (st_rest s) \<longrightarrow> w m s = Some (True, m', stream_emit bs s))"

lemma ensured:
  assumes "stream_wf s" "n \<le> length (st_rest s)"
  shows "Stream_EnsureRemainingCapacity A s n = Some (True, s)"
proof -
  have "st_pointer s + n \<le> st_capacity s" "st_capacity s < BLOCK_MAX" using assms by (auto simp: stream_wf_def length_st_rest)
  then show ?thesis by (simp add: Stream_EnsureRemainingCapacity_def Stream_GetPosition_def sz_add_def SIZE_MOD_def BLOCK_MAX_def)
qed

definition server_core_enc :: "gcc_settings \<Rightarrow> byte list" where
  "server_core_enc se = le_bytes 4 (if se_RdpVersion se = 4 then RDP_VERSION_4 else RDP_VERSION_5_PLUS) @
     le_bytes 4 (se_RequestedProtocols se) @
     le_bytes 4 (if se_SupportDynamicTimeZone se then RNS_UD_SC_DYNAMIC_DST_SUPPORTED else 0)"

definition ids_enc :: "rdpMcsChannel list \<Rightarrow> byte list" where
  "ids_enc cs = concat (map (\<lambda>c. le_bytes 2 (word_of_int (ch_ChannelId c) :: u16)) cs)"

definition server_net_enc :: "rdpMcsChannel list \<Rightarrow> byte list" where
  "server_net_enc cs = le_bytes 2 MCS_GLOBAL_CHANNEL_ID @ le_bytes 2 (of_nat (length cs) :: u16) @ ids_enc cs @
     (if odd (length cs) then le_bytes 2 (0 :: u16) else [])"

definition server_security_enc :: "byte list" where
  "server_security_enc = le_bytes 4 ENCRYPTION_METHOD_NONE @ le_bytes 4 ENCRYPTION_LEVEL_NONE"

lemma length_ids_enc [simp]: "length (ids_enc cs) = 2 * length cs"
  by (induction cs) (simp_all add: ids_enc_def)

lemma length_server_encs [simp]: "length (server_core_enc se) = 12" "length server_security_enc = 8"
  "length (server_net_enc cs) = 4 + 2 * length cs + (if odd (length cs) then 2 else 0)"
  by (simp_all add: server_core_enc_def server_security_enc_def server_net_enc_def)

lemma puts_core: "puts (gcc_write_server_core_data E) (block_enc SC_CORE (server_core_enc (mcs_settings m))) m m"
  by (auto simp: puts_def gcc_write_server_core_data_def ensured block_enc_def server_core_enc_def gcc_put_simps Let_def)

lemma emits_channel_ids:
  assumes "i + n \<le> length cs"
  shows "emits (write_channel_ids cs i n) (ids_enc (take n (drop i cs)))"
  using assms
proof (induction n arbitrary: i)
  case 0
  then show ?case by (simp add: emits_Some ids_enc_def)
next
  case (Suc n)
  then have d: "take (Suc n) (drop i cs) = cs ! i # take n (drop (i + 1) cs)" by (simp add: Cons_nth_drop_Suc [symmetric])
  from emits_bind [OF emits_UINT16 [of "word_of_int (ch_ChannelId (cs ! i))"] Suc.IH [of "i + 1"]] show ?case
    using Suc.prems unfolding d by (auto simp: arr_get_def ids_enc_def)
qed

lemma puts_network:
  assumes "channels_ok m" "unat (mcs_channelCount m) \<le> 30"
  shows "puts (gcc_write_server_network_data E) (block_enc SC_NET (server_net_enc (channels_used m))) m m"
proof -
  let ?n = "unat (mcs_channelCount m)" and ?cs = "channels_used m"
  define pad where "pad = (if odd ?n then 2 else (0 :: nat))"
  have l: "length ?cs = ?n" using assms(1) by (simp add: channels_used_def channels_ok_def)
  have odd: "(mcs_channelCount m mod 2 = 1) = odd ?n"
    by (simp add: word_unat_eq_iff unat_mod odd_iff_mod_2_eq_one)
  have "unat (8 + mcs_channelCount m * 2 + (if odd ?n then 2 else 0)) = 8 + 2 * ?n + pad"
    using assms(2) by (auto simp: unat_word_ariths pad_def)
  then have pl: "to_int (unat (8 + mcs_channelCount m * 2 + (if odd ?n then 2 else 0))) = int (8 + 2 * ?n + pad)"
    using assms(2) by (simp add: to_int_small pad_def)
  have pad: "pad \<le> 2" by (simp add: pad_def)
  have arith: "int_ck (int (8 + 2 * k + j) + 4) = Some (int (12 + 2 * k + j))" "to_size (int (12 + 2 * k + j)) = 12 + 2 * k + j"
    if "k \<le> 30" "j \<le> 2" for k j :: nat
    by (use that in \<open>simp add: int_ck_def INT_LIM_def\<close>) (rule to_size_of_nat, use that in \<open>simp add: SIZE_MOD_def\<close>)
  note ck = arith(1) [OF assms(2) pad] and sz = arith(2) [OF assms(2) pad]
  have wl: "(word_of_int (int (8 + 2 * ?n + pad)) :: u16) = of_nat (8 + 2 * ?n + pad)" by (simp only: of_int_of_nat_eq)
  have ids: "emits (write_channel_ids (mcs_channels m) 0 ?n) (ids_enc ?cs)"
    using emits_channel_ids [of 0 ?n "mcs_channels m"] assms(1) by (simp add: channels_ok_def channels_used_def)
  have cnt: "(ucast (mcs_channelCount m) :: u16) = of_nat ?n" by simp
  define w where "w = (\<lambda>s. gcc_write_user_data_header SC_NET (of_nat (8 + 2 * ?n + pad)) s \<bind> (\<lambda>s.
      Stream_Write_UINT16 MCS_GLOBAL_CHANNEL_ID s \<bind> (\<lambda>s. Stream_Write_UINT16 (of_nat ?n) s \<bind> (\<lambda>s.
      write_channel_ids (mcs_channels m) 0 ?n s \<bind> (\<lambda>s. if odd ?n then Stream_Write_UINT16 0 s else Some s)))))"
  have padw: "emits (\<lambda>s. if odd ?n then Stream_Write_UINT16 0 s else Some s) (if odd ?n then le_bytes 2 (0 :: u16) else [])"
    by (cases "odd ?n") (simp_all add: emits_UINT16 emits_Some)
  have "emits w (block_enc SC_NET (server_net_enc ?cs))"
    unfolding w_def
    by (rule emits_cong [OF emits_bind [OF emits_header emits_bind [OF emits_UINT16 emits_bind [OF emits_UINT16 emits_bind [OF ids padw refl] refl] refl] refl]])
       (simp add: block_enc_def server_net_enc_def l pad_def)
  from emitsD [OF this] have W: "w s = Some (stream_emit (block_enc SC_NET (server_net_enc ?cs)) s)"
    if "stream_wf s" "length (block_enc SC_NET (server_net_enc ?cs)) \<le> length (st_rest s)" for s using that by blast
  have "gcc_write_server_network_data E m s = w s \<bind> (\<lambda>s. Some (True, m, s))"
    if "stream_wf s" "length (block_enc SC_NET (server_net_enc ?cs)) + 4 \<le> length (st_rest s)" for s
  proof -
    have en: "Stream_EnsureRemainingCapacity (ge_alloc E) s (12 + 2 * ?n + pad) = Some (True, s)"
      using that l by (intro ensured) (auto simp: pad_def)
    show ?thesis
      unfolding gcc_write_server_network_data_def Let_def odd pl ck bind.bind_lunit sz en wl cnt w_def
      by (simp add: Let_def)
  qed
  then show ?thesis using W by (simp add: puts_def)
qed

text \<open>Without the RDP security layer the server announces no encryption.\<close>

definition no_encryption :: "gcc_settings \<Rightarrow> gcc_settings" where
  "no_encryption se = se\<lparr>se_EncryptionLevel := ENCRYPTION_LEVEL_NONE, se_EncryptionMethods := ENCRYPTION_METHOD_NONE\<rparr>"

lemma puts_security:
  assumes "\<not> se_UseRdpSecurityLayer (mcs_settings m)"
  shows "puts (gcc_write_server_security_data E) (block_enc SC_SECURITY server_security_enc) m
     (m\<lparr>mcs_settings := no_encryption (mcs_settings m)\<rparr>)"
proof -
  have "server_encryption_level (mcs_settings m) = ENCRYPTION_LEVEL_NONE" "server_encryption_method ENCRYPTION_LEVEL_NONE v = ENCRYPTION_METHOD_NONE" for v
    using assms by (simp_all add: server_encryption_level_def server_encryption_method_def)
  then show ?thesis
    by (auto simp: puts_def gcc_write_server_security_data_def ensured block_enc_def server_security_enc_def gcc_put_simps
        Let_def no_encryption_def)
qed

lemma puts_message: "puts (gcc_write_server_message_channel_data E)
    (if mcs_messageChannelId m = 0 then [] else block_enc SC_MCS_MSGCHANNEL (le_bytes 2 (mcs_messageChannelId m))) m m"
  by (auto simp: puts_def gcc_write_server_message_channel_data_def ensured block_enc_def gcc_put_simps)

definition server_blocks :: "'w rdpMcs \<Rightarrow> (u16 \<times> byte list) list" where
  "server_blocks m = [(SC_CORE, server_core_enc (mcs_settings m)), (SC_NET, server_net_enc (channels_used m)),
     (SC_SECURITY, server_security_enc)] @
     (if mcs_messageChannelId m = 0 then [] else [(SC_MCS_MSGCHANNEL, le_bytes 2 (mcs_messageChannelId m))])"

definition server_ok :: "'w rdpMcs \<Rightarrow> bool" where
  "server_ok m \<longleftrightarrow> channels_ok m \<and> unat (mcs_channelCount m) \<le> 30 \<and> \<not> se_UseRdpSecurityLayer (mcs_settings m)"

lemma length_server_blocks:
  assumes "server_ok m"
  shows "length (blocks_enc (server_blocks m)) \<le> 104"
  using assms channels_used_ok [of m] by (auto simp: server_ok_def server_blocks_def)

lemma puts_bind:
  assumes "puts w bs m m1" "puts v cs m1 m'"
  shows "puts (\<lambda>m s. do { (ok, m, s) \<leftarrow> w m s; if \<not> ok then Some (False, m, s) else v m s }) (bs @ cs) m m'"
  using assms by (auto simp: puts_def stream_wf_emit)

lemma write_server_blocks:
  assumes "server_ok m"
  shows "puts (gcc_write_server_data_blocks E) (blocks_enc (server_blocks m)) m (m\<lparr>mcs_settings := no_encryption (mcs_settings m)\<rparr>)"
proof -
  let ?m = "m\<lparr>mcs_settings := no_encryption (mcs_settings m)\<rparr>"
  have ok: "channels_ok m" "unat (mcs_channelCount m) \<le> 30" "\<not> se_UseRdpSecurityLayer (mcs_settings m)"
    using assms by (simp_all add: server_ok_def)
  note P = puts_bind [OF puts_core puts_bind [OF puts_network [OF ok(1,2)] puts_bind [OF puts_security [OF ok(3)] puts_message [of E ?m]]], of E E E]
  have "blocks_enc (server_blocks m) = block_enc SC_CORE (server_core_enc (mcs_settings m)) @
      block_enc SC_NET (server_net_enc (channels_used m)) @ block_enc SC_SECURITY server_security_enc @
      (if mcs_messageChannelId ?m = 0 then [] else block_enc SC_MCS_MSGCHANNEL (le_bytes 2 (mcs_messageChannelId ?m)))"
    by (simp add: server_blocks_def)
  then show ?thesis using P unfolding puts_def gcc_write_server_data_blocks_def by (simp only:)
qed

section \<open>What the client reads\<close>

definition sblock_effect :: "gcc_env \<Rightarrow> u16 \<Rightarrow> byte list \<Rightarrow> 'w rdpMcs \<Rightarrow> 'w rdpMcs \<Rightarrow> bool" where
  "sblock_effect E t body m m' \<longleftrightarrow> 4 + length body < 65536 \<and> (\<forall>s ts. stream_wf s \<longrightarrow> st_rest s = body @ ts \<longrightarrow>
     (\<exists>n. gcc_read_server_block E t m s = Some (True, m', stream_skip n s)))"

fun sblocks_effect :: "gcc_env \<Rightarrow> (u16 \<times> byte list) list \<Rightarrow> 'w rdpMcs \<Rightarrow> 'w rdpMcs \<Rightarrow> bool" where
  "sblocks_effect E [] m m' \<longleftrightarrow> m' = m"
| "sblocks_effect E ((t, body) # bs) m m' \<longleftrightarrow> (\<exists>m1. sblock_effect E t body m m1 \<and> sblocks_effect E bs m1 m')"

lemma server_block_step:
  assumes s: "stream_wf s" "st_rest s = block_enc t body @ ts" and o: "uint offset < len"
    and e: "sblock_effect E t body m m'"
  shows "gcc_read_server_blocks_from E len offset m s =
     gcc_read_server_blocks_from E len (offset + of_nat (4 + length body)) m' (stream_skip (4 + length body) s)"
proof -
  have b: "4 + length body < 65536" using e by (simp add: sblock_effect_def)
  note D = dec_block [OF b]
  have w: "stream_wf (stream_skip 4 s)" "st_rest (stream_skip 4 s) = body @ ts"
    using s by (auto intro!: stream_wf_skip simp: block_enc_def)
  obtain n where n: "gcc_read_server_block E t m (stream_skip 4 s) = Some (True, m', stream_skip n (stream_skip 4 s))"
    using e w unfolding sblock_effect_def by blast
  have "4 + length body \<le> length (st_rest s)" using s(2) by simp
  then have "st_pointer s + (4 + length body) \<le> length (st_buffer s)" using s(1) by (auto simp: length_st_rest stream_wf_def)
  then have set: "Stream_SetPosition (stream_skip (4 + n) s) (st_pointer s + (4 + length body)) = Some (stream_skip (4 + length body) s)"
    by (simp add: Stream_SetPosition_def stream_skip_def)
  show ?thesis
    unfolding gcc_read_server_blocks_from.simps [of E len offset m s]
    using o D(1) [of t ts, folded s(2)] decodesD(2) [OF gcc_header_decodes s(1)] n set D(2)
    by (simp add: Let_def Stream_GetPosition_def del: of_nat_add)
qed

lemma server_blocks_read:
  assumes "sblocks_effect E bs m m'" "stream_wf s" "st_rest s = blocks_enc bs @ ts"
    "unat offset + length (blocks_enc bs) < 65536"
  shows "gcc_read_server_blocks_from E (uint offset + int (length (blocks_enc bs))) offset m s =
     Some (True, m', stream_skip (length (blocks_enc bs)) s)"
  using assms
proof (induction bs arbitrary: m s offset)
  case Nil
  then show ?case by (simp add: gcc_read_server_blocks_from.simps)
next
  case (Cons b bs)
  obtain t body where b: "b = (t, body)" by fastforce
  obtain m1 where m1: "sblock_effect E t body m m1" "sblocks_effect E bs m1 m'" using Cons.prems(1) b by auto
  have r: "st_rest s = block_enc t body @ blocks_enc bs @ ts" using Cons.prems(3) b by simp
  have w: "stream_wf (stream_skip (4 + length body) s)" "st_rest (stream_skip (4 + length body) s) = blocks_enc bs @ ts"
    using Cons.prems(2) r by (auto intro!: stream_wf_skip)
  define o2 where "o2 = offset + of_nat (4 + length body)"
  have u: "unat o2 = unat offset + (4 + length body)"
    using Cons.prems(4) b unfolding o2_def unat_word_ariths unat_of_nat by simp
  have l: "uint offset + int (length (blocks_enc (b # bs))) = uint o2 + int (length (blocks_enc bs))"
    using arg_cong [OF u, of int] b by simp
  have "uint offset < uint offset + int (length (blocks_enc (b # bs)))" using b by simp
  note S = server_block_step [OF Cons.prems(2) r this m1(1), folded o2_def]
  have "unat o2 + length (blocks_enc bs) < 65536" using Cons.prems(4) u b by simp
  note I = Cons.IH [OF m1(2) w this, folded l]
  show ?case unfolding S I using b by simp
qed

text \<open>The identifiers that the client gets.\<close>

fun take_ids :: "rdpMcsChannel list \<Rightarrow> rdpMcsChannel list \<Rightarrow> rdpMcsChannel list" where
  "take_ids (d # ds) (c # cs) = c\<lparr>ch_ChannelId := uint (word_of_int (ch_ChannelId d) :: u16)\<rparr> # take_ids ds cs"
| "take_ids ds cs = cs"

lemma take_ids_length [simp]: "length (take_ids ds cs) = length cs"
  by (induction ds cs rule: take_ids.induct) simp_all

lemma take_ids_nth:
  assumes "j < length ds" "length ds \<le> length cs"
  shows "ch_ChannelId (take_ids ds cs ! j) = uint (word_of_int (ch_ChannelId (ds ! j)) :: u16)"
    "ch_Name (take_ids ds cs ! j) = ch_Name (cs ! j)" "ch_options (take_ids ds cs ! j) = ch_options (cs ! j)"
    "ch_joined (take_ids ds cs ! j) = ch_joined (cs ! j)"
  using assms by (induction ds cs arbitrary: j rule: take_ids.induct) (auto simp: nth_Cons' gr0_conv_Suc)

lemma read_channel_ids_take:
  assumes "mcs_channels m = pre @ cs" "length ds \<le> length cs" "stream_wf s" "st_rest s = ids_enc ds @ ts"
  shows "read_channel_ids (length pre) (length ds) m s = Some (m\<lparr>mcs_channels := pre @ take_ids ds cs\<rparr>, stream_skip (2 * length ds) s)"
  using assms
proof (induction ds arbitrary: m pre cs s)
  case Nil
  then show ?case by simp
next
  case (Cons d ds)
  obtain c cs' where cs: "cs = c # cs'" using Cons.prems(2) by (cases cs) auto
  define c1 where "c1 = c\<lparr>ch_ChannelId := uint (word_of_int (ch_ChannelId d) :: u16)\<rparr>"
  have r: "st_rest s = le_bytes 2 (word_of_int (ch_ChannelId d) :: u16) @ ids_enc ds @ ts"
    using Cons.prems(4) by (simp add: ids_enc_def)
  then have rd: "Stream_Read_UINT16 s = Some (word_of_int (ch_ChannelId d), stream_skip 2 s)"
      "stream_wf (stream_skip 2 s)" "st_rest (stream_skip 2 s) = ids_enc ds @ ts"
    using Cons.prems(3) by (auto simp: stream_simps intro!: stream_wf_skip)
  have "read_channel_ids (length pre) (length (d # ds)) m s =
      read_channel_ids (length (pre @ [c1])) (length ds) (m\<lparr>mcs_channels := (pre @ [c1]) @ cs'\<rparr>) (stream_skip 2 s)"
    using rd(1) Cons.prems(1) cs by (simp add: arr_get_def arr_set_def c1_def)
  also have "\<dots> = Some (m\<lparr>mcs_channels := (pre @ [c1]) @ take_ids ds cs'\<rparr>, stream_skip (2 * length ds) (stream_skip 2 s))"
    using Cons.prems(2) cs rd by (subst Cons.IH) (auto simp: ac_simps)
  finally show ?case using cs by (simp add: c1_def)
qed

definition version_result :: "gcc_settings \<Rightarrow> gcc_settings \<Rightarrow> gcc_settings" where
  "version_result sv cl = cl\<lparr>se_RdpVersion := server_rdp_version
     (if se_RdpVersion sv = 4 then RDP_VERSION_4 else RDP_VERSION_5_PLUS) (se_RdpVersion cl)\<rparr>"

lemma server_core_effect:
  "sblock_effect E SC_CORE (server_core_enc sv) m (m\<lparr>mcs_settings := version_result sv (mcs_settings m)\<rparr>)"
proof -
  have d: "gcc_read_server_block E SC_CORE m s = gcc_read_server_core_data m s" for m :: "'a rdpMcs" and s
    by (simp add: gcc_read_server_block_def block_types)
  show ?thesis
    by (auto simp: sblock_effect_def d gcc_read_server_core_data_def server_core_enc_def stream_simps version_result_def
        stream_wf_skip Let_def)
qed

lemma server_network_effect:
  assumes "length ds \<le> 30" "length ds \<le> length (mcs_channels m)" "mcs_channelCount m = of_nat (length ds)"
  shows "sblock_effect E SC_NET (server_net_enc ds) m (m\<lparr>mcs_channels := take_ids ds (mcs_channels m)\<rparr>)"
proof -
  have d: "gcc_read_server_block E SC_NET m s = gcc_read_server_network_data m s" for m :: "'a rdpMcs" and s
    by (simp add: gcc_read_server_block_def block_types)
  have u: "unat (of_nat (length ds) :: u16) = length ds" "unat (of_nat (length ds) :: u32) = length ds"
    unfolding unat_of_nat using assms(1) by simp_all
  then have c: "ucast (of_nat (length ds) :: u16) = mcs_channelCount m"
    using assms(1,3) by (simp add: word_unat_eq_iff unat_ucast_mod)
  have odd: "(of_nat (length ds) :: u16) mod 2 = 1 \<longleftrightarrow> odd (length ds)"
    by (simp add: word_unat_eq_iff unat_mod u odd_iff_mod_2_eq_one)
  obtain c16 where c16: "c16 = (of_nat (length ds) :: u16)" by simp
  note c = c [folded c16] and odd = odd [folded c16] and u1 = u(1) [folded c16]
  have "\<exists>n. gcc_read_server_network_data m s = Some (True, m\<lparr>mcs_channels := take_ids ds (mcs_channels m)\<rparr>, stream_skip n s)"
    if s: "stream_wf s" "st_rest s = server_net_enc ds @ ts" for s ts
  proof -
    have rest: "st_rest s = le_bytes 2 MCS_GLOBAL_CHANNEL_ID @ le_bytes 2 (of_nat (length ds) :: u16) @ ids_enc ds @
        (if odd (length ds) then le_bytes 2 (0 :: u16) else []) @ ts"
      using s(2) by (simp add: server_net_enc_def)
    have w: "stream_wf (stream_skip 2 s)" "stream_wf (stream_skip 4 s)" "stream_wf (stream_skip (4 + 2 * length ds) s)"
      using s(1) rest by (auto intro!: stream_wf_skip)
    have rd: "Stream_Read_UINT16 s = Some (MCS_GLOBAL_CHANNEL_ID, stream_skip 2 s)"
        "Stream_Read_UINT16 (stream_skip 2 s) = Some (c16, stream_skip 4 s)"
        "st_rest (stream_skip 4 s) = ids_enc ds @ (if odd (length ds) then le_bytes 2 (0 :: u16) else []) @ ts"
        "st_rest (stream_skip (4 + 2 * length ds) s) = (if odd (length ds) then le_bytes 2 (0 :: u16) else []) @ ts"
      using s(1) w rest by (simp_all add: stream_simps c16)
    note R = read_channel_ids_take [of m "[]" "mcs_channels m" ds, OF _ assms(2) w(2) rd(3)]
    have rem: "\<not> Stream_GetRemainingLength s < 4" "\<not> Stream_GetRemainingLength (stream_skip 4 s) < length ds * 2"
      using s(1) w(2) rest rd(3) by (simp_all add: remaining_rest)
    have sk: "\<exists>n. Stream_SafeSeek (stream_skip (4 + 2 * length ds) s) 2 = Some (True, stream_skip n s)" if "odd (length ds)"
      using Stream_SafeSeek_eq [OF w(3), of 2] arg_cong [OF rest, of length] that by auto
    have seek: "\<exists>n. Stream_SafeSeek (stream_skip (2 * length ds) (stream_skip 4 s)) 2 = Some (True, stream_skip n s)" if "odd (length ds)"
      using sk [OF that] by (simp add: add.commute)
    have read: "gcc_read_server_network_data m s = (if odd (length ds)
        then Stream_SafeSeek (stream_skip (2 * length ds) (stream_skip 4 s)) 2 \<bind> (\<lambda>(ok, s). Some (ok, m\<lparr>mcs_channels := take_ids ds (mcs_channels m)\<rparr>, s))
        else Some (True, m\<lparr>mcs_channels := take_ids ds (mcs_channels m)\<rparr>, stream_skip (2 * length ds) (stream_skip 4 s)))"
      using rd(1,2) rem R by (simp add: gcc_read_server_network_data_def c u1 odd Let_def)
    show ?thesis using seek by (cases "odd (length ds)") (auto simp: read)
  qed
  then show ?thesis unfolding sblock_effect_def using assms(1) by (auto simp: d)
qed

lemma server_security_effect:
  "sblock_effect E SC_SECURITY server_security_enc m
     (m\<lparr>mcs_settings := (no_encryption (mcs_settings m))\<lparr>se_UseRdpSecurityLayer := False\<rparr>\<rparr>)"
proof -
  have d: "gcc_read_server_block E SC_SECURITY m s = gcc_read_server_security_data E m s" for m :: "'a rdpMcs" and s
    by (simp add: gcc_read_server_block_def block_types)
  have v: "known_encryption_method ENCRYPTION_METHOD_NONE" "valid_crypto_config ENCRYPTION_LEVEL_NONE ENCRYPTION_METHOD_NONE"
    by (simp_all add: known_encryption_method_def valid_crypto_config_def)
  show ?thesis
    using two_words(1,2) [of _ ENCRYPTION_METHOD_NONE ENCRYPTION_LEVEL_NONE]
    by (auto simp: sblock_effect_def d gcc_read_server_security_data_def server_security_enc_def remaining_rest v no_encryption_def Let_def)
qed

lemma server_message_effect:
  "sblock_effect E SC_MCS_MSGCHANNEL (le_bytes 2 (i :: u16)) m (m\<lparr>mcs_messageChannelId := i\<rparr>)"
proof -
  have d: "gcc_read_server_block E SC_MCS_MSGCHANNEL m s = gcc_read_server_message_channel_data m s" for m :: "'a rdpMcs" and s
    by (simp add: gcc_read_server_block_def block_types)
  show ?thesis
    by (auto simp: sblock_effect_def d gcc_read_server_message_channel_data_def stream_simps)
qed

text \<open>What the client \<open>mc\<close> has when it has read the answer of the server \<open>ms\<close>.\<close>

definition server_answered :: "'v rdpMcs \<Rightarrow> 'w rdpMcs \<Rightarrow> 'w rdpMcs" where
  "server_answered ms mc = mc\<lparr>mcs_settings := (no_encryption (version_result (mcs_settings ms) (mcs_settings mc)))\<lparr>se_UseRdpSecurityLayer := False\<rparr>,
     mcs_channels := take_ids (channels_used ms) (mcs_channels mc),
     mcs_messageChannelId := (if mcs_messageChannelId ms = 0 then mcs_messageChannelId mc else mcs_messageChannelId ms)\<rparr>"

lemma server_blocks_effect:
  assumes "server_ok ms" "mcs_channelCount mc = mcs_channelCount ms" "unat (mcs_channelCount ms) \<le> length (mcs_channels mc)"
  shows "sblocks_effect E (server_blocks ms) mc (server_answered ms mc)"
proof -
  let ?ds = "channels_used ms"
  have l: "length ?ds = unat (mcs_channelCount ms)" "length ?ds \<le> 30"
    using assms(1) channels_used_ok(1) [of ms] by (simp_all add: server_ok_def)
  define m1 where "m1 = mc\<lparr>mcs_settings := version_result (mcs_settings ms) (mcs_settings mc)\<rparr>"
  define m2 where "m2 = m1\<lparr>mcs_channels := take_ids ?ds (mcs_channels m1)\<rparr>"
  define m3 where "m3 = m2\<lparr>mcs_settings := (no_encryption (mcs_settings m2))\<lparr>se_UseRdpSecurityLayer := False\<rparr>\<rparr>"
  have "sblock_effect E SC_CORE (server_core_enc (mcs_settings ms)) mc m1" unfolding m1_def by (rule server_core_effect)
  moreover have "sblock_effect E SC_NET (server_net_enc ?ds) m1 m2"
    unfolding m2_def using l assms(2,3) by (intro server_network_effect) (simp_all add: m1_def)
  moreover have "sblock_effect E SC_SECURITY server_security_enc m2 m3" unfolding m3_def by (rule server_security_effect)
  moreover have "sblocks_effect E (if mcs_messageChannelId ms = 0 then [] else [(SC_MCS_MSGCHANNEL, le_bytes 2 (mcs_messageChannelId ms))])
      m3 (server_answered ms mc)"
    using server_message_effect [of E "mcs_messageChannelId ms" m3]
    by (cases mc) (simp add: server_answered_def m3_def m2_def m1_def)
  ultimately show ?thesis unfolding server_blocks_def append_Cons append_Nil sblocks_effect.simps by blast
qed

end
