(* ===== verification/GccConference.thy ===== *)
theory GccConference
  imports GccReply NegoWire
begin

unbundle bit_operations_syntax

text \<open>
  The conference create request and response: the PER frame around the data blocks, read back as it
  was written, so that the blocks of one side reach the other.
\<close>

section \<open>Readers in sequence\<close>

text \<open>A reader that gets \<open>v\<close> from data that begin with \<open>bs\<close>, and consumes \<open>n\<close> bytes of it.\<close>

definition gets :: "nat \<Rightarrow> 'a reader \<Rightarrow> byte list \<Rightarrow> nat \<Rightarrow> 'a \<Rightarrow> bool" where
  "gets lim r bs n v \<longleftrightarrow> (\<forall>s tl. stream_wf s \<longrightarrow> length (st_rest s) < lim \<longrightarrow> st_rest s = bs @ tl \<longrightarrow>
     r s = Some (Some v, stream_skip n s))"

lemma getsD: "gets lim r bs n v \<Longrightarrow> stream_wf s \<Longrightarrow> length (st_rest s) < lim \<Longrightarrow> st_rest s = bs @ ts \<Longrightarrow>
    r s = Some (Some v, stream_skip n s)"
  by (auto simp: gets_def)

lemma gets_parses: "parses lim r bs v \<Longrightarrow> gets lim r bs (length bs) v"
  by (simp add: gets_def parses_def)

lemma gets_try:
  assumes "parses lim r bs v" "gets lim (k v) cs n w"
  shows "gets lim (try_read r k) (bs @ cs) (length bs + n) w"
  unfolding gets_def
proof (intro allI impI)
  fix s tl assume s: "stream_wf s" "length (st_rest s) < lim" "st_rest s = (bs @ cs) @ tl"
  then have "r s = Some (Some v, stream_skip (length bs) s)" using assms(1) by (simp add: parses_def)
  moreover have "stream_wf (stream_skip (length bs) s)" "st_rest (stream_skip (length bs) s) = cs @ tl"
    using s by (auto intro!: stream_wf_skip)
  ultimately show "try_read r k s = Some (Some w, stream_skip (length bs + n) s)"
    using getsD [OF assms(2), of "stream_skip (length bs) s" tl] s(2,3) by (simp add: try_read_def)
qed

lemma gets_guard: "\<not> b \<Longrightarrow> gets lim k bs n v \<Longrightarrow> gets lim (\<lambda>s. if b then Some (None, s) else k s) bs n v"
  by simp

lemma gets_cong: "gets lim r bs n v \<Longrightarrow> bs = bs' \<Longrightarrow> n = n' \<Longrightarrow> gets lim r bs' n' v"
  by simp

abbreviation LIM31 :: nat where "LIM31 \<equiv> 2 ^ 31"

lemma parses_per_byte:
  "parses LIM31 per_read_choice [b] b" "parses LIM31 per_read_selection [b] b" "parses LIM31 per_read_number_of_sets [b] b"
  by (rule decodes_parses [OF per_bytes_decode(1)] decodes_parses [OF per_bytes_decode(2)] decodes_parses [OF per_bytes_decode(3)]; simp)+

lemma parses_per_oid: "parses LIM31 (per_read_object_identifier t124_02_98_oid) (per_enc_oid t124_02_98_oid) ()"
  by (rule decodes_parses [OF per_read_oid_decodes])
     (simp_all add: t124_02_98_oid_def per_enc_oid_def d_then_def per_dec_oid_body_def)

lemma parses_per_length:
  assumes "n < 0x8000"
  shows "parses LIM31 per_read_length (per_enc_length (int n)) (of_nat n)"
proof -
  have "uint (of_nat n :: u16) = int n" "unat (of_nat n :: u16) < 0x8000" using assms by (simp_all add: take_bit_nat_eq_self unsigned_of_nat)
  then show ?thesis using per_dec_enc_length [of "of_nat n"]
    by (intro decodes_parses [OF per_read_length_decodes]) simp
qed

lemma parses_per_numeric: "parses LIM31 (per_read_numeric_string 1) (per_enc_numeric [0x31] 1) ()"
  by (rule decodes_parses [OF per_read_numeric_string_decodes]; (rule per_dec_enc_numeric)?)
     (simp_all add: INT_LIM_def per_octet_valid_def)

lemma parses_per_padding: "parses LIM31 (per_read_padding 1) [0] ()"
  by (rule decodes_parses [OF per_read_padding_decodes]) (simp_all add: per_dec_skip_def to_int_below INT_LIM_def)

lemma parses_per_key:
  assumes "length key = 4"
  shows "parses LIM31 (per_read_octet_string key 4 4) (per_enc_octet key 4) ()"
proof -
  have v: "per_octet_valid key 4" "int (length key) = 4" using assms by (simp_all add: per_octet_valid_def INT_LIM_def)
  note D = per_dec_enc_octet [OF v(1), unfolded v(2)]
  show ?thesis
    by (rule decodes_parses [OF per_read_octet_string_decodes]) (use assms D in \<open>simp_all add: INT_LIM_def\<close>)
qed

lemma parses_per_integer16: "mn \<le> i \<Longrightarrow> parses LIM31 (per_read_integer16 mn) (be_bytes 2 (i - mn)) i"
  by (rule decodes_parses [OF per_read_integer16_decodes]) (simp add: per_dec_enc_integer16)

lemma parses_per_integer: "i \<le> 0xFFFF \<Longrightarrow> parses LIM31 per_read_integer (per_enc_integer i) i"
  by (rule decodes_parses [OF per_read_integer_decodes]) (rule per_dec_enc_integer)

lemma parses_per_enumerated: "e < cnt \<Longrightarrow> parses LIM31 (per_read_enumerated cnt) [e] e"
  by (rule decodes_parses [OF per_read_enumerated_decodes]) (simp add: per_dec_enumerated_def)

lemmas per_parses = parses_per_byte parses_per_oid parses_per_length parses_per_numeric parses_per_padding parses_per_key
  parses_per_integer16 parses_per_integer parses_per_enumerated

section \<open>The request\<close>

text \<open>The frame in front of \<open>n\<close> bytes of data blocks.\<close>

definition request_frame :: "nat \<Rightarrow> byte list" where
  "request_frame n = [0] @ per_enc_oid t124_02_98_oid @ per_enc_length (int (n + 14)) @ [0] @ [8] @ per_enc_numeric [0x31] 1 @
     [0] @ [1] @ [0xC0] @ per_enc_octet h221_cs_key 4 @ per_enc_length (int n)"

lemma gets_request:
  assumes "length D + 14 < 0x8000"
  shows "gets LIM31 gcc_request_header (request_frame (length D) @ D) (length (request_frame (length D))) (of_nat (length D))"
proof -
  have u: "unat (of_nat (length D) :: u16) = length D" unfolding unat_of_nat using assms by simp
  have last: "gets LIM31 (\<lambda>s. if Stream_GetRemainingLength s < unat (of_nat (length D) :: u16) then Some (None, s) else Some (Some (of_nat (length D)), s))
      D 0 (of_nat (length D))"
    unfolding gets_def u by (auto simp: remaining_rest)
  have k: "length h221_cs_key = 4" by (simp add: h221_cs_key_def)
  have n: "length D < 0x8000" "length D + 14 < 0x8000" using assms by simp_all
  show ?thesis
    unfolding gcc_request_header_def
    apply (rule gets_cong)
      apply (rule gets_try, rule parses_per_byte [where b = 0])
      apply (rule gets_try, rule parses_per_oid)
      apply (rule gets_try, rule parses_per_length [OF n(2)])
      apply (rule gets_try, rule parses_per_byte [where b = 0])
      apply (rule gets_try, rule parses_per_byte [where b = 8])
      apply (rule gets_try, rule parses_per_numeric)
      apply (rule gets_try, rule parses_per_padding)
      apply (rule gets_try, rule parses_per_byte [where b = 1])
      apply (rule gets_guard, simp)
      apply (rule gets_try, rule parses_per_byte [where b = "0xC0"])
      apply (rule gets_guard, simp)
      apply (rule gets_try, rule parses_per_key [OF k])
      apply (rule gets_try, rule parses_per_length [OF n(1)])
      apply (rule last)
     apply (simp_all add: request_frame_def)
    done
qed

lemma emits_per_octet_prefix:
  assumes "n \<le> length b" "int n < INT_LIM"
  shows "emits (per_write_octet_string b (int n) 0) (per_enc_length (int n) @ take n b)"
  using emits_bind [OF emits_per_length [of "int n"] emits_write_bytes_from [of 0 n b], of "per_write_octet_string b (int n) 0"] assms
  by (simp add: per_write_octet_string_def per_string_mlength_def int_ck_def INT_LIM_def)

lemma emits_per_bytes: "emits (per_write_choice b) [b]" "emits (per_write_selection b) [b]" "emits (per_write_number_of_sets b) [b]"
    "emits (per_write_enumerated cnt b) [b]" "emits (per_write_integer16 mn i) (be_bytes 2 (i - mn))" "emits (per_write_padding 1) [0]"
  using emits_UINT8 emits_UINT16_BE emits_write_zeros [of 1]
  by (simp_all add: emits_def per_write_choice_def per_write_selection_def per_write_number_of_sets_def
      per_write_enumerated_def per_write_integer16_def per_write_padding_def)

lemma emits_per_key: "length key = 4 \<Longrightarrow> emits (per_write_octet_string key 4 4) (per_enc_octet key 4)"
  using emits_per_octet [of 4 key] by (simp add: INT_LIM_def)

text \<open>A stream that holds \<open>D\<close> in front of its position.\<close>

definition holds :: "byte list \<Rightarrow> wStream \<Rightarrow> bool" where
  "holds D s \<longleftrightarrow> stream_wf s \<and> st_pointer s = length D \<and> take (length D) (st_buffer s) = D"

lemma holdsD:
  assumes "holds D s"
  shows "stream_wf s" "Stream_GetPosition s = length D" "length D \<le> length (st_buffer s)" "take (length D) (st_buffer s) = D"
  using assms by (auto simp: holds_def Stream_GetPosition_def stream_wf_def)

lemma holds_emit:
  assumes "fresh_stream c s" "length D \<le> c"
  shows "holds D (stream_emit D s)"
  using assms by (auto simp: holds_def fresh_stream_def length_st_rest stream_emit_def stream_wf_def)

lemma emits_request:
  assumes "holds D ud" "length D + 14 < 0x8000"
  shows "emits (gcc_write_conference_create_request ud) (request_frame (length D) @ D)"
proof -
  have k: "length h221_cs_key = 4" "length t124_02_98_oid = 6" by (simp_all add: h221_cs_key_def t124_02_98_oid_def)
  note H = holdsD [OF assms(1)]
  have l: "to_int (sz_add (length D) 14) = int (length D + 14)" "to_int (length D) = int (length D)"
    using assms(2) by (simp_all add: sz_add_def SIZE_MOD_def to_int_small)
  have body: "emits (per_write_octet_string (st_buffer ud) (int (length D)) 0) (per_enc_length (int (length D)) @ D)"
    using emits_per_octet_prefix [OF H(3)] H(4) assms(2) by (simp add: INT_LIM_def)
  have num: "emits (per_write_numeric_string [0x31] 1 1) (per_enc_numeric [0x31] 1)"
    using emits_per_numeric [of 1 "[0x31]"] by (simp add: INT_LIM_def)
  show ?thesis
    unfolding gcc_write_conference_create_request_def [abs_def] H(2) l request_frame_def
    by (rule emits_cong [OF emits_bind [OF emits_per_bytes(1) emits_bind [OF emits_per_oid [OF k(2)] emits_bind [OF emits_per_length
        emits_bind [OF emits_per_bytes(1) emits_bind [OF emits_per_bytes(2) emits_bind [OF num emits_bind [OF emits_per_bytes(6)
        emits_bind [OF emits_per_bytes(3) emits_bind [OF emits_per_bytes(1) emits_bind [OF emits_per_key [OF k(1)] body
        refl] refl] refl] refl] refl] refl] refl] refl] refl] refl]]) simp
qed

lemma request_arrives:
  assumes e: "blocks_effect E bs m m'" and s: "stream_wf s" "int (st_length s) < INT_LIM" and b: "length (blocks_enc bs) + 14 < 0x8000"
    and r: "st_rest s = request_frame (length (blocks_enc bs)) @ blocks_enc bs @ ts"
  shows "gcc_read_conference_create_request E m s =
     Some (True, m', stream_skip (length (request_frame (length (blocks_enc bs)) @ blocks_enc bs)) s)"
proof -
  let ?D = "blocks_enc bs" and ?f = "request_frame (length (blocks_enc bs))"
  have lim: "length (st_rest s) < LIM31" using s by (simp add: length_st_rest INT_LIM_def)
  have h: "gcc_request_header s = Some (Some (of_nat (length ?D)), stream_skip (length ?f) s)"
    using getsD [OF gets_request [OF b] s(1) lim, of ts] r by simp
  have w: "stream_wf (stream_skip (length ?f) s)" "st_rest (stream_skip (length ?f) s) = ?D @ ts"
    using s(1) r by (auto intro!: stream_wf_skip)
  have "unat (of_nat (length ?D) :: u16) = length ?D" unfolding unat_of_nat using b by simp
  from arg_cong [OF this, of int] have u: "uint (of_nat (length ?D) :: u16) = int (length ?D)" by simp
  show ?thesis
    using h client_blocks_read [OF e w(1) _ w(2)] s(2) u
    by (simp add: gcc_read_conference_create_request_def) (simp add: stream_skip_def)
qed

section \<open>The response\<close>

definition response_frame :: "nat \<Rightarrow> byte list" where
  "response_frame n = [0] @ per_enc_oid t124_02_98_oid @ per_enc_length 0x2A @ [0x14] @ be_bytes 2 (0x79F3 - 1001 :: u16) @
     per_enc_integer 1 @ [0] @ [1] @ [0xC0] @ per_enc_octet h221_sc_key 4 @ per_enc_length (int n)"

lemma gets_response:
  assumes "n < 0x8000"
  shows "gets LIM31 gcc_response_header (response_frame n) (length (response_frame n)) (of_nat n)"
proof -
  have k: "length h221_sc_key = 4" by (simp add: h221_sc_key_def)
  have i: "(1001 :: u16) \<le> 0x79F3" "(1 :: u32) \<le> 0xFFFF" "(0 :: byte) < MCS_Result_enum_length"
    by (simp_all add: MCS_Result_enum_length_def)
  have c: "per_enc_length 0x2A = per_enc_length (int 42)" "(42 :: nat) < 0x8000" by simp_all
  show ?thesis
    unfolding gcc_response_header_def
    apply (rule gets_cong)
      apply (rule gets_try, rule parses_per_byte [where b = 0])
      apply (rule gets_try, rule parses_per_oid)
      apply (rule gets_try, rule parses_per_length [OF c(2)])
      apply (rule gets_try, rule parses_per_byte [where b = "0x14"])
      apply (rule gets_try, rule parses_per_integer16 [OF i(1)])
      apply (rule gets_try, rule parses_per_integer [OF i(2)])
      apply (rule gets_try, rule parses_per_enumerated [OF i(3)])
      apply (rule gets_try, rule parses_per_byte [where b = 1])
      apply (rule gets_try, rule parses_per_byte [where b = "0xC0"])
      apply (rule gets_try, rule parses_per_key [OF k])
      apply (rule gets_parses, rule parses_per_length [OF assms])
     apply (simp_all add: response_frame_def)
    done
qed

lemma emits_response:
  assumes "holds D ud" "length D < 0x8000"
  shows "emits (gcc_write_conference_create_response ud) (response_frame (length D) @ D)"
proof -
  have k: "length h221_sc_key = 4" "length t124_02_98_oid = 6" by (simp_all add: h221_sc_key_def t124_02_98_oid_def)
  note H = holdsD [OF assms(1)]
  have l: "to_int (length D) = int (length D)" using assms(2) by (simp add: to_int_small)
  have body: "emits (per_write_octet_string (st_buffer ud) (int (length D)) 0) (per_enc_length (int (length D)) @ D)"
    using emits_per_octet_prefix [OF H(3)] H(4) assms(2) by (simp add: INT_LIM_def)
  show ?thesis
    unfolding gcc_write_conference_create_response_def [abs_def] H(2) l response_frame_def
    by (rule emits_cong [OF emits_bind [OF emits_per_bytes(1) emits_bind [OF emits_per_oid [OF k(2)] emits_bind [OF emits_per_length
        emits_bind [OF emits_per_bytes(1) emits_bind [OF emits_per_bytes(5) emits_bind [OF emits_per_integer emits_bind [OF emits_per_bytes(4)
        emits_bind [OF emits_per_bytes(3) emits_bind [OF emits_per_bytes(1) emits_bind [OF emits_per_key [OF k(1)] body
        refl] refl] refl] refl] refl] refl] refl] refl] refl] refl]]) simp
qed

lemma response_arrives:
  assumes e: "sblocks_effect E bs m m'" and s: "stream_wf s" "int (st_length s) < INT_LIM" and b: "length (blocks_enc bs) < 0x8000"
    and r: "st_rest s = response_frame (length (blocks_enc bs)) @ blocks_enc bs @ ts"
  shows "gcc_read_conference_create_response E m s =
     Some (True, m', stream_skip (length (response_frame (length (blocks_enc bs)) @ blocks_enc bs)) s)"
proof -
  let ?D = "blocks_enc bs" and ?f = "response_frame (length (blocks_enc bs))"
  have lim: "length (st_rest s) < LIM31" using s by (simp add: length_st_rest INT_LIM_def)
  have h: "gcc_response_header s = Some (Some (of_nat (length ?D)), stream_skip (length ?f) s)"
    using getsD [OF gets_response [OF b] s(1) lim, of "?D @ ts"] r by simp
  have w: "stream_wf (stream_skip (length ?f) s)" "st_rest (stream_skip (length ?f) s) = ?D @ ts"
    using s(1) r by (auto intro!: stream_wf_skip)
  have "unat (of_nat (length ?D) :: u16) = length ?D" unfolding unat_of_nat using b by simp
  from arg_cong [OF this, of int] have u: "uint (of_nat (length ?D) :: u16) = int (length ?D)" by simp
  show ?thesis
    using h server_blocks_read [OF e w, of 0] b u
    by (simp add: gcc_read_conference_create_response_def gcc_read_server_data_blocks_def)
qed

end
