(* ===== verification/Mcs.thy ===== *)
theory Mcs
  imports GccConference Ber Tpkt
begin

unbundle bit_operations_syntax

text \<open>
  The multipoint communication service of T.125 (\<^verbatim>\<open>libfreerdp/core/mcs.c\<close>): the connect PDUs that
  carry the conference creation, the parameters of the domain, and the PDUs with which the user
  is attached and the channels are joined. The state of the layer stands in \<open>Gcc\<close>. This theory
  holds the operations; \<open>McsWire\<close> proves that the two sides understand each other.
\<close>

section \<open>Data\<close>

definition CHANNEL_MAX_COUNT :: u32 where "CHANNEL_MAX_COUNT = 30"
definition MCS_TYPE_CONNECT_INITIAL :: byte where "MCS_TYPE_CONNECT_INITIAL = 0x65"
definition MCS_TYPE_CONNECT_RESPONSE :: byte where "MCS_TYPE_CONNECT_RESPONSE = 0x66"
definition DomainMCSPDU_ErectDomainRequest :: byte where "DomainMCSPDU_ErectDomainRequest = 1"
definition DomainMCSPDU_DisconnectProviderUltimatum :: byte where "DomainMCSPDU_DisconnectProviderUltimatum = 8"
definition DomainMCSPDU_AttachUserRequest :: byte where "DomainMCSPDU_AttachUserRequest = 10"
definition DomainMCSPDU_AttachUserConfirm :: byte where "DomainMCSPDU_AttachUserConfirm = 11"
definition DomainMCSPDU_ChannelJoinRequest :: byte where "DomainMCSPDU_ChannelJoinRequest = 14"
definition DomainMCSPDU_ChannelJoinConfirm :: byte where "DomainMCSPDU_ChannelJoinConfirm = 15"

lemmas mcs_pdu_defs = DomainMCSPDU_ErectDomainRequest_def DomainMCSPDU_DisconnectProviderUltimatum_def
  DomainMCSPDU_AttachUserRequest_def DomainMCSPDU_AttachUserConfirm_def DomainMCSPDU_ChannelJoinRequest_def
  DomainMCSPDU_ChannelJoinConfirm_def

definition callingDomainSelector :: "byte list" where "callingDomainSelector = [1]"
definition calledDomainSelector :: "byte list" where "calledDomainSelector = [1]"

text \<open>
  The calls the layer makes: the conference creation, the transport below, and whether the
  structure of the n-th stream of a function can be allocated.
\<close>

record 'w mcs_env =
  me_gcc :: gcc_env
  me_bio :: "'w bio"
  me_struct_ok :: "nat \<Rightarrow> bool"

abbreviation mcs_stream :: "'w mcs_env \<Rightarrow> nat \<Rightarrow> nat \<Rightarrow> wStream option" where
  "mcs_stream E i n \<equiv> Stream_New (ge_alloc (me_gcc E)) (me_struct_ok E i) None n"

section \<open>Channels of the client\<close>

definition channel_zero :: rdpMcsChannel where
  "channel_zero = \<lparr>ch_Name = replicate 8 0, ch_options = 0, ch_ChannelId = 0, ch_joined = False\<rparr>"

fun copy_channels :: "CHANNEL_DEF list \<Rightarrow> nat \<Rightarrow> nat \<Rightarrow> rdpMcsChannel list \<Rightarrow> rdpMcsChannel list option" where
  "copy_channels defs i 0 cs = Some cs"
| "copy_channels defs i (Suc n) cs = do {
     d \<leftarrow> arr_get defs i;
     c \<leftarrow> arr_get cs i;
     name \<leftarrow> mem_read (cd_name d) 0 8;
     name \<leftarrow> mem_write (ch_Name c) 0 name;
     cs \<leftarrow> arr_set cs i (c\<lparr>ch_Name := name, ch_options := cd_options d\<rparr>);
     copy_channels defs (i + 1) n cs }"

definition mcs_initialize_client_channels :: "gcc_settings \<Rightarrow> 'w rdpMcs \<Rightarrow> 'w rdpMcs option" where
  "mcs_initialize_client_channels se m = do {
     let m = m\<lparr>mcs_channelCount := se_ChannelCount se\<rparr>;
     let m = (if mcs_channelCount m > mcs_channelMaxCount m then m\<lparr>mcs_channelCount := mcs_channelMaxCount m\<rparr> else m);
     cs \<leftarrow> mem_write (mcs_channels m) 0 (replicate (unat (mcs_channelMaxCount m)) channel_zero);
     cs \<leftarrow> copy_channels (se_ChannelDefArray se) 0 (unat (mcs_channelCount m)) cs;
     Some (m\<lparr>mcs_channels := cs\<rparr>) }"

section \<open>Headers of the domain PDUs\<close>

text \<open>The length of the TPKT header is handed out and not compared with anything.\<close>

definition mcs_read_domain_mcspdu_header :: "byte \<Rightarrow> u16 reader" where
  "mcs_read_domain_mcspdu_header MCSPDU s = do {
     (len, s) \<leftarrow> tpkt_read_header s;
     try_read tpdu_read_data (\<lambda>_. try_read per_read_choice (\<lambda>choice s.
       if drop_bit 2 choice \<noteq> MCSPDU then Some (None, s) else Some (Some len, s))) s }"

definition mcs_write_domain_mcspdu_header :: "byte \<Rightarrow> u16 \<Rightarrow> byte \<Rightarrow> writer" where
  "mcs_write_domain_mcspdu_header domainMCSPDU len options s = do {
     s \<leftarrow> tpkt_write_header len s;
     s \<leftarrow> tpdu_write_data s;
     per_write_choice (push_bit 2 domainMCSPDU OR options) s }"

section \<open>Parameters of the domain\<close>

definition mcs_init_domain_parameters :: "u32 \<Rightarrow> u32 \<Rightarrow> u32 \<Rightarrow> u32 \<Rightarrow> DomainParameters" where
  "mcs_init_domain_parameters maxChannelIds maxUserIds maxTokenIds maxMCSPDUsize =
     \<lparr>dp_maxChannelIds = maxChannelIds, dp_maxUserIds = maxUserIds, dp_maxTokenIds = maxTokenIds, dp_numPriorities = 1,
      dp_minThroughput = 0, dp_maxHeight = 1, dp_maxMCSPDUsize = maxMCSPDUsize, dp_protocolVersion = 2\<rparr>"

fun read_parameters :: "(u32 \<Rightarrow> DomainParameters \<Rightarrow> DomainParameters) list \<Rightarrow> DomainParameters \<Rightarrow> wStream \<Rightarrow>
    (bool \<times> DomainParameters \<times> wStream) option" where
  "read_parameters [] p s = Some (True, p, s)"
| "read_parameters (f # fs) p s = do {
     (v, s) \<leftarrow> ber_read_integer True s;
     (case v of Some (Some v) \<Rightarrow> read_parameters fs (f v p) s | _ \<Rightarrow> Some (False, p, s)) }"

definition parameter_fields :: "(u32 \<Rightarrow> DomainParameters \<Rightarrow> DomainParameters) list" where
  "parameter_fields = [\<lambda>v p. p\<lparr>dp_maxChannelIds := v\<rparr>, \<lambda>v p. p\<lparr>dp_maxUserIds := v\<rparr>, \<lambda>v p. p\<lparr>dp_maxTokenIds := v\<rparr>,
     \<lambda>v p. p\<lparr>dp_numPriorities := v\<rparr>, \<lambda>v p. p\<lparr>dp_minThroughput := v\<rparr>, \<lambda>v p. p\<lparr>dp_maxHeight := v\<rparr>,
     \<lambda>v p. p\<lparr>dp_maxMCSPDUsize := v\<rparr>, \<lambda>v p. p\<lparr>dp_protocolVersion := v\<rparr>]"

definition mcs_read_domain_parameters :: "DomainParameters \<Rightarrow> wStream \<Rightarrow> (bool \<times> DomainParameters \<times> wStream) option" where
  "mcs_read_domain_parameters p s = do {
     (len, s) \<leftarrow> ber_read_sequence_tag s;
     (case len of None \<Rightarrow> Some (False, p, s) | Some _ \<Rightarrow> read_parameters parameter_fields p s) }"

fun write_integers :: "u32 list \<Rightarrow> writer" where
  "write_integers [] s = Some s"
| "write_integers (v # vs) s = do { (_, s) \<leftarrow> ber_write_integer v s; write_integers vs s }"

definition parameter_values :: "DomainParameters \<Rightarrow> u32 list" where
  "parameter_values p = [dp_maxChannelIds p, dp_maxUserIds p, dp_maxTokenIds p, dp_numPriorities p, dp_minThroughput p,
     dp_maxHeight p, dp_maxMCSPDUsize p, dp_protocolVersion p]"

text \<open>The parameters are written to a stream of their own, whose length goes in front.\<close>

definition mcs_write_domain_parameters :: "'w mcs_env \<Rightarrow> nat \<Rightarrow> DomainParameters \<Rightarrow> wStream \<Rightarrow> (bool \<times> wStream) option" where
  "mcs_write_domain_parameters E i p s =
     (case mcs_stream E i (st_capacity s) of
        None \<Rightarrow> Some (False, s)
      | Some tmps \<Rightarrow> do {
          tmps \<leftarrow> write_integers (parameter_values p) tmps;
          let len = to_int (Stream_GetPosition tmps);
          (_, s) \<leftarrow> ber_write_sequence_tag len s;
          s \<leftarrow> stream_write_n (st_buffer tmps) len s;
          Some (True, s) })"

text \<open>The result parameters are filled in one after the other, also when a later one is refused.\<close>

definition mcs_merge_domain_parameters ::
    "DomainParameters \<Rightarrow> DomainParameters \<Rightarrow> DomainParameters \<Rightarrow> DomainParameters \<Rightarrow> bool \<times> DomainParameters" where
  "mcs_merge_domain_parameters target mn mx out =
     (if \<not> dp_maxChannelIds target \<ge> 4 \<and> \<not> dp_maxChannelIds mx \<ge> 4 then (False, out)
      else let out = out\<lparr>dp_maxChannelIds := (if dp_maxChannelIds target \<ge> 4 then dp_maxChannelIds target else 4)\<rparr> in
      if \<not> dp_maxUserIds target \<ge> 3 \<and> \<not> dp_maxUserIds mx \<ge> 3 then (False, out)
      else let out = out\<lparr>dp_maxUserIds := (if dp_maxUserIds target \<ge> 3 then dp_maxUserIds target else 3),
                         dp_maxTokenIds := dp_maxTokenIds target\<rparr> in
      if \<not> dp_numPriorities mn \<le> 1 then (False, out)
      else let out = out\<lparr>dp_numPriorities := 1, dp_minThroughput := dp_minThroughput target\<rparr> in
      if \<not> (dp_maxHeight target = 1 \<or> dp_maxHeight mn \<le> 1) then (False, out)
      else let out = out\<lparr>dp_maxHeight := 1\<rparr> in
      (case (if dp_maxMCSPDUsize target \<ge> 1024 then
               (if dp_maxMCSPDUsize target \<le> 65528 then Some (dp_maxMCSPDUsize target)
                else if dp_maxMCSPDUsize mn \<ge> 124 \<and> dp_maxMCSPDUsize mn \<le> 65528 then Some 65528
                else None)
             else if dp_maxMCSPDUsize mx \<ge> 124 then Some (dp_maxMCSPDUsize mx)
             else None) of
         None \<Rightarrow> (False, out)
       | Some sz \<Rightarrow>
           let out = out\<lparr>dp_maxMCSPDUsize := sz\<rparr> in
           if dp_protocolVersion target = 2 \<or> dp_protocolVersion mn \<le> 2 \<and> dp_protocolVersion mx \<ge> 2
           then (True, out\<lparr>dp_protocolVersion := 2\<rparr>)
           else (False, out)))"

section \<open>Connect PDUs\<close>

text \<open>An octet string that is skipped if it lies inside the stream.\<close>

definition skip_octet_string :: "unit reader" where
  "skip_octet_string = try_read ber_read_octet_string_tag (\<lambda>len s.
     if to_int (Stream_GetRemainingLength s) < len then Some (None, s)
     else do { s \<leftarrow> Stream_Seek s len; Some (Some (), s) })"

text \<open>The part of the PDU in front of the parameters.\<close>

definition connect_initial_head :: "bool reader" where
  "connect_initial_head s = do {
     (_, s) \<leftarrow> tpkt_read_header s;
     try_read tpdu_read_data (\<lambda>_.
     try_read (ber_read_application_tag MCS_TYPE_CONNECT_INITIAL) (\<lambda>_.
     try_read skip_octet_string (\<lambda>_.
     try_read skip_octet_string (\<lambda>_. ber_read_BOOL)))) s }"

definition mcs_recv_connect_initial :: "gcc_env \<Rightarrow> 'w block_reader" where
  "mcs_recv_connect_initial E m s = do {
     (h, s) \<leftarrow> connect_initial_head s;
     if h = None then Some (False, m, s)
     else do {
       (ok, p, s) \<leftarrow> mcs_read_domain_parameters (mcs_targetParameters m) s;
       let m = m\<lparr>mcs_targetParameters := p\<rparr>;
       if \<not> ok then Some (False, m, s)
       else do {
         (ok, p, s) \<leftarrow> mcs_read_domain_parameters (mcs_minimumParameters m) s;
         let m = m\<lparr>mcs_minimumParameters := p\<rparr>;
         if \<not> ok then Some (False, m, s)
         else do {
           (ok, p, s) \<leftarrow> mcs_read_domain_parameters (mcs_maximumParameters m) s;
           let m = m\<lparr>mcs_maximumParameters := p\<rparr>;
           if \<not> ok then Some (False, m, s)
           else do {
             (len, s) \<leftarrow> ber_read_octet_string_tag s;
             (case len of
                None \<Rightarrow> Some (False, m, s)
              | Some len \<Rightarrow>
                  if to_int (Stream_GetRemainingLength s) < len then Some (False, m, s)
                  else do {
                    (ok, m, s) \<leftarrow> gcc_read_conference_create_request E m s;
                    if \<not> ok then Some (False, m, s)
                    else (let (ok, p) = mcs_merge_domain_parameters (mcs_targetParameters m) (mcs_minimumParameters m)
                            (mcs_maximumParameters m) (mcs_domainParameters m)
                          in Some (ok, m\<lparr>mcs_domainParameters := p\<rparr>, s)) }) } } } } }"

text \<open>A step that may fail, and the rest of the function.\<close>

definition and_then :: "(wStream \<Rightarrow> (bool \<times> wStream) option) \<Rightarrow> (wStream \<Rightarrow> (bool \<times> wStream) option) \<Rightarrow>
    wStream \<Rightarrow> (bool \<times> wStream) option" where
  "and_then f g s = do { (ok, s) \<leftarrow> f s; if \<not> ok then Some (False, s) else g s }"

text \<open>The body of a PDU is collected in \<open>tmps\<close> and copied behind its tag.\<close>

definition mcs_close_connect :: "byte \<Rightarrow> wStream \<Rightarrow> wStream \<Rightarrow> (bool \<times> wStream) option" where
  "mcs_close_connect tag tmps s = do {
     let len = to_int (Stream_GetPosition tmps);
     s \<leftarrow> ber_write_application_tag tag len s;
     s \<leftarrow> stream_write_n (st_buffer tmps) len s;
     Some (True, s) }"

definition connect_user_data :: "wStream \<Rightarrow> wStream \<Rightarrow> (bool \<times> wStream) option" where
  "connect_user_data userData tmps = do {
     (_, tmps) \<leftarrow> ber_write_octet_string (st_buffer userData) (to_int (Stream_GetPosition userData)) tmps;
     Some (True, tmps) }"

definition mcs_write_connect_initial :: "'w mcs_env \<Rightarrow> 'w rdpMcs \<Rightarrow> wStream \<Rightarrow> wStream \<Rightarrow> (bool \<times> wStream) option" where
  "mcs_write_connect_initial E m userData s =
     (case mcs_stream E 3 (st_capacity s) of
        None \<Rightarrow> Some (False, s)
      | Some tmps \<Rightarrow> do {
          (_, tmps) \<leftarrow> ber_write_octet_string callingDomainSelector 1 tmps;
          (_, tmps) \<leftarrow> ber_write_octet_string calledDomainSelector 1 tmps;
          tmps \<leftarrow> ber_write_BOOL 1 tmps;
          (ok, tmps) \<leftarrow> and_then (mcs_write_domain_parameters E 4 (mcs_targetParameters m))
            (and_then (mcs_write_domain_parameters E 5 (mcs_minimumParameters m))
            (and_then (mcs_write_domain_parameters E 6 (mcs_maximumParameters m)) (connect_user_data userData))) tmps;
          if \<not> ok then Some (False, s) else mcs_close_connect MCS_TYPE_CONNECT_INITIAL tmps s })"

definition mcs_write_connect_response :: "'w mcs_env \<Rightarrow> 'w rdpMcs \<Rightarrow> wStream \<Rightarrow> wStream \<Rightarrow> (bool \<times> wStream) option" where
  "mcs_write_connect_response E m userData s =
     (case mcs_stream E 3 (st_capacity s) of
        None \<Rightarrow> Some (False, s)
      | Some tmps \<Rightarrow> do {
          tmps \<leftarrow> ber_write_enumerated MCS_Result_enum_length 0 tmps;
          (_, tmps) \<leftarrow> ber_write_integer 0 tmps;
          (ok, tmps) \<leftarrow> and_then (mcs_write_domain_parameters E 4 (mcs_domainParameters m)) (connect_user_data userData) tmps;
          if \<not> ok then Some (False, s) else mcs_close_connect MCS_TYPE_CONNECT_RESPONSE tmps s })"

text \<open>Room for the headers is left in front of the PDU, and filled when its length is known.\<close>

definition mcs_frame_pdu :: "(wStream \<Rightarrow> (bool \<times> wStream) option) \<Rightarrow> wStream \<Rightarrow> (bool \<times> wStream) option" where
  "mcs_frame_pdu body s = do {
     let bm = to_int (Stream_GetPosition s);
     s \<leftarrow> Stream_Seek s 7;
     (ok, s) \<leftarrow> body s;
     if \<not> ok then Some (False, s)
     else do {
       let em = to_int (Stream_GetPosition s);
       len \<leftarrow> int_ck (em - bm);
       s \<leftarrow> Stream_SetPosition s (to_size bm);
       s \<leftarrow> tpkt_write_header (word_of_int len) s;
       s \<leftarrow> tpdu_write_data s;
       s \<leftarrow> Stream_SetPosition s (to_size em);
       Some (True, Stream_SealLength s) } }"

definition mcs_transport_write :: "'w mcs_env \<Rightarrow> 'w rdpMcs \<Rightarrow> wStream \<Rightarrow> (bool \<times> 'w rdpMcs) option" where
  "mcs_transport_write E m s = do {
     (status, _, t) \<leftarrow> transport_write (me_bio E) (mcs_transport m) s;
     Some (\<not> status < 0, m\<lparr>mcs_transport := t\<rparr>) }"

text \<open>The PDU of the client: the data blocks, the conference create request around them, and the connect PDU.\<close>

definition mcs_connect_initial_pdu :: "'w mcs_env \<Rightarrow> 'w rdpMcs \<Rightarrow> (wStream option \<times> 'w rdpMcs) option" where
  "mcs_connect_initial_pdu E m =
     (case mcs_stream E 0 512 of
        None \<Rightarrow> Some (None, m)
      | Some client_data \<Rightarrow> do {
          (m, client_data) \<leftarrow> gcc_write_client_data_blocks (me_gcc E) m client_data;
          (case mcs_stream E 1 1024 of
             None \<Rightarrow> Some (None, m)
           | Some gcc_CCrq \<Rightarrow> do {
               gcc_CCrq \<leftarrow> gcc_write_conference_create_request client_data gcc_CCrq;
               let len = to_int (sz_add (Stream_GetPosition gcc_CCrq) 7);
               n \<leftarrow> int_ck (1024 + len);
               (case mcs_stream E 2 (to_size n) of
                  None \<Rightarrow> Some (None, m)
                | Some s \<Rightarrow> do {
                    (ok, s) \<leftarrow> mcs_frame_pdu (mcs_write_connect_initial E m gcc_CCrq) s;
                    Some (if ok then Some s else None, m) }) }) })"

definition mcs_send_connect_initial :: "'w mcs_env \<Rightarrow> 'w rdpMcs \<Rightarrow> (bool \<times> 'w rdpMcs) option" where
  "mcs_send_connect_initial E m = do {
     m \<leftarrow> mcs_initialize_client_channels (mcs_settings m) m;
     (pdu, m) \<leftarrow> mcs_connect_initial_pdu E m;
     (case pdu of None \<Rightarrow> Some (False, m) | Some s \<Rightarrow> mcs_transport_write E m s) }"

definition connect_response_head :: "u32 option reader" where
  "connect_response_head s = do {
     (_, s) \<leftarrow> tpkt_read_header s;
     try_read tpdu_read_data (\<lambda>_.
     try_read (ber_read_application_tag MCS_TYPE_CONNECT_RESPONSE) (\<lambda>_.
     try_read (ber_read_enumerated MCS_Result_enum_length) (\<lambda>_. ber_read_integer True))) s }"

text \<open>The result of the server is read and not looked at.\<close>

definition mcs_recv_connect_response :: "gcc_env \<Rightarrow> 'w block_reader" where
  "mcs_recv_connect_response E m s = do {
     (h, s) \<leftarrow> connect_response_head s;
     if h = None then Some (False, m, s)
     else do {
       (ok, p, s) \<leftarrow> mcs_read_domain_parameters (mcs_domainParameters m) s;
       let m = m\<lparr>mcs_domainParameters := p\<rparr>;
       if \<not> ok then Some (False, m, s)
       else do {
         (len, s) \<leftarrow> ber_read_octet_string_tag s;
         if len = None then Some (False, m, s)
         else gcc_read_conference_create_response E m s } } }"

definition mcs_connect_response_pdu :: "'w mcs_env \<Rightarrow> 'w rdpMcs \<Rightarrow> (wStream option \<times> 'w rdpMcs) option" where
  "mcs_connect_response_pdu E m =
     (case mcs_stream E 0 512 of
        None \<Rightarrow> Some (None, m)
      | Some server_data \<Rightarrow> do {
          (ok, m, server_data) \<leftarrow> gcc_write_server_data_blocks (me_gcc E) m server_data;
          if \<not> ok then Some (None, m)
          else (case mcs_stream E 1 (sz_add 512 (st_capacity server_data)) of
             None \<Rightarrow> Some (None, m)
           | Some gcc_CCrsp \<Rightarrow> do {
               gcc_CCrsp \<leftarrow> gcc_write_conference_create_response server_data gcc_CCrsp;
               let len = to_int (sz_add (Stream_GetPosition gcc_CCrsp) 7);
               n \<leftarrow> int_ck (len + 1024);
               (case mcs_stream E 2 (to_size n) of
                  None \<Rightarrow> Some (None, m)
                | Some s \<Rightarrow> do {
                    (ok, s) \<leftarrow> mcs_frame_pdu (mcs_write_connect_response E m gcc_CCrsp) s;
                    Some (if ok then Some s else None, m) }) }) })"

definition mcs_send_connect_response :: "'w mcs_env \<Rightarrow> 'w rdpMcs \<Rightarrow> (bool \<times> 'w rdpMcs) option" where
  "mcs_send_connect_response E m = do {
     (pdu, m) \<leftarrow> mcs_connect_response_pdu E m;
     (case pdu of None \<Rightarrow> Some (False, m) | Some s \<Rightarrow> mcs_transport_write E m s) }"

section \<open>Attaching the user and joining channels\<close>

text \<open>A PDU of fixed length \<open>n\<close>, written by \<open>w\<close>, sealed and sent.\<close>

definition mcs_send_pdu :: "'w mcs_env \<Rightarrow> nat \<Rightarrow> writer \<Rightarrow> 'w rdpMcs \<Rightarrow> (bool \<times> 'w rdpMcs) option" where
  "mcs_send_pdu E n w m =
     (case mcs_stream E 0 n of
        None \<Rightarrow> Some (False, m)
      | Some s \<Rightarrow> do { s \<leftarrow> w s; mcs_transport_write E m (Stream_SealLength s) })"

definition mcs_recv_erect_domain_request :: "unit reader" where
  "mcs_recv_erect_domain_request =
     try_read (mcs_read_domain_mcspdu_header DomainMCSPDU_ErectDomainRequest) (\<lambda>_.
     try_read per_read_integer (\<lambda>_. try_read per_read_integer (\<lambda>_ s. Some (Some (), s))))"

definition erect_domain_pdu :: writer where
  "erect_domain_pdu s = do {
     s \<leftarrow> mcs_write_domain_mcspdu_header DomainMCSPDU_ErectDomainRequest 12 0 s;
     s \<leftarrow> per_write_integer 0 s;
     per_write_integer 0 s }"

definition mcs_send_erect_domain_request :: "'w mcs_env \<Rightarrow> 'w rdpMcs \<Rightarrow> (bool \<times> 'w rdpMcs) option" where
  "mcs_send_erect_domain_request E m = mcs_send_pdu E 12 erect_domain_pdu m"

definition mcs_recv_attach_user_request :: "u16 reader" where
  "mcs_recv_attach_user_request = mcs_read_domain_mcspdu_header DomainMCSPDU_AttachUserRequest"

definition attach_user_request_pdu :: writer where
  "attach_user_request_pdu = mcs_write_domain_mcspdu_header DomainMCSPDU_AttachUserRequest 8 0"

definition mcs_send_attach_user_request :: "'w mcs_env \<Rightarrow> 'w rdpMcs \<Rightarrow> (bool \<times> 'w rdpMcs) option" where
  "mcs_send_attach_user_request E m = mcs_send_pdu E 8 attach_user_request_pdu m"

text \<open>
  \<^verbatim>\<open>per_read_integer16\<close> with the variable it stores to, which has the unchecked value when the sum does
  not fit in 16 bits.
\<close>

definition read_integer16_into :: "u16 \<Rightarrow> u16 \<Rightarrow> wStream \<Rightarrow> ((bool \<times> u16) \<times> wStream) option" where
  "read_integer16_into mn v s = do {
     (r, t) \<leftarrow> per_read_integer16 mn s;
     (case r of
        Some i \<Rightarrow> Some ((True, i), t)
      | None \<Rightarrow> if Stream_GetRemainingLength s < 2 then Some ((False, v), t)
          else do { (i, t) \<leftarrow> Stream_Read_UINT16_BE s; Some ((False, i), t) }) }"

definition attach_user_confirm :: "byte reader" where
  "attach_user_confirm =
     try_read (mcs_read_domain_mcspdu_header DomainMCSPDU_AttachUserConfirm) (\<lambda>_. per_read_enumerated MCS_Result_enum_length)"

definition mcs_recv_attach_user_confirm :: "'w block_reader" where
  "mcs_recv_attach_user_confirm m s = do {
     (h, s) \<leftarrow> attach_user_confirm s;
     if h = None then Some (False, m, s)
     else do {
       ((ok, userId), s) \<leftarrow> read_integer16_into MCS_BASE_CHANNEL_ID (mcs_userId m) s;
       Some (ok, m\<lparr>mcs_userId := userId\<rparr>, s) } }"

definition attach_user_confirm_pdu :: "u16 \<Rightarrow> writer" where
  "attach_user_confirm_pdu userId s = do {
     s \<leftarrow> mcs_write_domain_mcspdu_header DomainMCSPDU_AttachUserConfirm 11 2 s;
     s \<leftarrow> per_write_enumerated MCS_Result_enum_length 0 s;
     per_write_integer16 MCS_BASE_CHANNEL_ID userId s }"

text \<open>The stream is allocated first, so the identifier is taken only if that succeeds.\<close>

definition mcs_send_attach_user_confirm :: "'w mcs_env \<Rightarrow> 'w rdpMcs \<Rightarrow> (bool \<times> 'w rdpMcs) option" where
  "mcs_send_attach_user_confirm E m =
     (case mcs_stream E 0 11 of
        None \<Rightarrow> Some (False, m)
      | Some s \<Rightarrow> do {
          let m = m\<lparr>mcs_userId := mcs_baseChannelId m, mcs_baseChannelId := mcs_baseChannelId m + 1\<rparr>;
          s \<leftarrow> attach_user_confirm_pdu (mcs_userId m) s;
          mcs_transport_write E m (Stream_SealLength s) })"

definition mcs_recv_channel_join_request :: "'w rdpMcs \<Rightarrow> u16 reader" where
  "mcs_recv_channel_join_request m =
     try_read (mcs_read_domain_mcspdu_header DomainMCSPDU_ChannelJoinRequest) (\<lambda>_.
     try_read (per_read_integer16 MCS_BASE_CHANNEL_ID) (\<lambda>userId s.
       if userId \<noteq> mcs_userId m then Some (None, s) else per_read_integer16 0 s))"

definition channel_join_request_pdu :: "u16 \<Rightarrow> u16 \<Rightarrow> writer" where
  "channel_join_request_pdu userId channelId s = do {
     s \<leftarrow> mcs_write_domain_mcspdu_header DomainMCSPDU_ChannelJoinRequest 12 0 s;
     s \<leftarrow> per_write_integer16 MCS_BASE_CHANNEL_ID userId s;
     per_write_integer16 0 channelId s }"

definition mcs_send_channel_join_request :: "'w mcs_env \<Rightarrow> u16 \<Rightarrow> 'w rdpMcs \<Rightarrow> (bool \<times> 'w rdpMcs) option" where
  "mcs_send_channel_join_request E channelId m = mcs_send_pdu E 12 (channel_join_request_pdu (mcs_userId m) channelId) m"

text \<open>Here every part is read even if one before it was refused; the result of the server is not looked at.\<close>

definition mcs_recv_channel_join_confirm :: "u16 reader" where
  "mcs_recv_channel_join_confirm s = do {
     (h, s) \<leftarrow> mcs_read_domain_mcspdu_header DomainMCSPDU_ChannelJoinConfirm s;
     (result, s) \<leftarrow> per_read_enumerated MCS_Result_enum_length s;
     (initiator, s) \<leftarrow> per_read_integer16 MCS_BASE_CHANNEL_ID s;
     (requested, s) \<leftarrow> per_read_integer16 0 s;
     (channelId, s) \<leftarrow> per_read_integer16 0 s;
     Some (if h \<noteq> None \<and> result \<noteq> None \<and> initiator \<noteq> None \<and> requested \<noteq> None then channelId else None, s) }"

definition channel_join_confirm_pdu :: "u16 \<Rightarrow> u16 \<Rightarrow> writer" where
  "channel_join_confirm_pdu userId channelId s = do {
     s \<leftarrow> mcs_write_domain_mcspdu_header DomainMCSPDU_ChannelJoinConfirm 15 2 s;
     s \<leftarrow> per_write_enumerated MCS_Result_enum_length 0 s;
     s \<leftarrow> per_write_integer16 MCS_BASE_CHANNEL_ID userId s;
     s \<leftarrow> per_write_integer16 0 channelId s;
     per_write_integer16 0 channelId s }"

definition mcs_send_channel_join_confirm :: "'w mcs_env \<Rightarrow> u16 \<Rightarrow> 'w rdpMcs \<Rightarrow> (bool \<times> 'w rdpMcs) option" where
  "mcs_send_channel_join_confirm E channelId m = mcs_send_pdu E 15 (channel_join_confirm_pdu (mcs_userId m) channelId) m"

section \<open>Disconnecting\<close>

text \<open>The reason is spread over the byte in front of the position and the one behind it.\<close>

definition mcs_recv_disconnect_provider_ultimatum :: "int reader" where
  "mcs_recv_disconnect_provider_ultimatum s =
     (if Stream_GetRemainingLength s < 1 then Some (None, s)
      else do {
        s \<leftarrow> Stream_Rewind s 1;
        (b1, s) \<leftarrow> Stream_Read_UINT8 s;
        (b2, s) \<leftarrow> Stream_Read_UINT8 s;
        Some (Some (uint (push_bit 1 (b1 AND 1) OR drop_bit 7 b2)), s) })"

definition disconnect_pdu :: writer where
  "disconnect_pdu s = do {
     s \<leftarrow> mcs_write_domain_mcspdu_header DomainMCSPDU_DisconnectProviderUltimatum 9 1 s;
     per_write_enumerated 0 0x80 s }"

definition mcs_send_disconnect_provider_ultimatum :: "'w mcs_env \<Rightarrow> 'w rdpMcs \<Rightarrow> (bool \<times> 'w rdpMcs) option" where
  "mcs_send_disconnect_provider_ultimatum E m =
     (case mcs_stream E 0 9 of
        None \<Rightarrow> Some (False, m)
      | Some s \<Rightarrow> do { s \<leftarrow> disconnect_pdu s; mcs_transport_write E m s })"

section \<open>Creation\<close>

text \<open>
  Both allocations may fail; the second is the array of the channels. The settings are those of
  the transport.
\<close>

definition mcs_new :: "bool \<Rightarrow> bool \<Rightarrow> 'w rdpTransport \<Rightarrow> gcc_settings \<Rightarrow> 'w rdpMcs option" where
  "mcs_new struct_ok array_ok t se =
     (if \<not> struct_ok \<or> \<not> array_ok then None
      else Some \<lparr>mcs_transport = t, mcs_settings = se, mcs_userId = 0, mcs_baseChannelId = MCS_GLOBAL_CHANNEL_ID + 1,
        mcs_messageChannelId = 0, mcs_domainParameters = mcs_init_domain_parameters 0 0 0 0xFFFF,
        mcs_targetParameters = mcs_init_domain_parameters 34 2 0 0xFFFF,
        mcs_minimumParameters = mcs_init_domain_parameters 1 1 1 0x420,
        mcs_maximumParameters = mcs_init_domain_parameters 0xFFFF 0xFC17 0xFFFF 0xFFFF,
        mcs_userChannelJoined = False, mcs_globalChannelJoined = False, mcs_messageChannelJoined = False,
        mcs_channelCount = 0, mcs_channelMaxCount = CHANNEL_MAX_COUNT,
        mcs_channels = replicate (unat CHANNEL_MAX_COUNT) channel_zero\<rparr>)"

end
