(* ===== verification/McsWire.thy ===== *)
theory McsWire
  imports Mcs
begin

unbundle bit_operations_syntax

text \<open>
  The MCS PDUs on the wire: what one side sends is what the other receives. The connect PDUs carry the
  conference creation, so this theory puts the results of \<open>GccWire\<close>, \<open>GccReply\<close> and
  \<open>GccConference\<close> together.
\<close>

section \<open>Streams that can be allocated\<close>

definition env_ok :: "'w mcs_env \<Rightarrow> bool" where
  "env_ok E \<longleftrightarrow> (\<forall>i n. 0 < n \<longrightarrow> n < 65536 \<longrightarrow> mcs_stream E i n \<noteq> None)"

lemma env_okE:
  assumes "env_ok E" "0 < n" "n < 65536"
  obtains s where "mcs_stream E i n = Some s" "fresh_stream n s"
proof -
  obtain s where "mcs_stream E i n = Some s" using assms unfolding env_ok_def by blast
  with Stream_New_fresh [OF this] that show ?thesis by blast
qed

lemma freshD:
  assumes "fresh_stream c s"
  shows "stream_wf s" "length (st_rest s) = c" "st_capacity s = c" "st_pointer s = 0" "length (st_buffer s) = c"
  using assms by (auto simp: fresh_stream_def length_st_rest stream_wf_def)

text \<open>A writer that may fail, on a stream where it does not.\<close>

definition bputs :: "nat \<Rightarrow> (wStream \<Rightarrow> (bool \<times> wStream) option) \<Rightarrow> byte list \<Rightarrow> bool" where
  "bputs c w bs \<longleftrightarrow> (\<forall>s. stream_wf s \<longrightarrow> st_capacity s = c \<longrightarrow> length bs \<le> length (st_rest s) \<longrightarrow>
     w s = Some (True, stream_emit bs s))"

lemma bputsD: "bputs c w bs \<Longrightarrow> stream_wf s \<Longrightarrow> st_capacity s = c \<Longrightarrow> length bs \<le> length (st_rest s) \<Longrightarrow>
    w s = Some (True, stream_emit bs s)"
  by (simp add: bputs_def)

lemma st_capacity_emit [simp]: "st_capacity (stream_emit d s) = st_capacity s"
  by (simp add: stream_emit_def)

lemma bputs_and_then:
  assumes "bputs c f bs" "bputs c g cs"
  shows "bputs c (and_then f g) (bs @ cs)"
  unfolding bputs_def
proof (intro allI impI)
  fix s assume s: "stream_wf s" "st_capacity s = c" "length (bs @ cs) \<le> length (st_rest s)"
  have l: "length bs \<le> length (st_rest s)" "length cs \<le> length (st_rest (stream_emit bs s))" using s by auto
  show "and_then f g s = Some (True, stream_emit (bs @ cs) s)"
    using bputsD [OF assms(1) s(1,2) l(1)] bputsD [OF assms(2) stream_wf_emit [OF s(1) l(1)]] l(2) s by (simp add: and_then_def)
qed

lemma parsesD: "parses lim r bs v \<Longrightarrow> stream_wf s \<Longrightarrow> length (st_rest s) < lim \<Longrightarrow> st_rest s = bs @ ts \<Longrightarrow>
    r s = Some (Some v, stream_skip (length bs) s)"
  by (auto simp: parses_def)

section \<open>Parameters of the domain\<close>

definition params_valid :: "DomainParameters \<Rightarrow> bool" where
  "params_valid p \<longleftrightarrow> (\<forall>v \<in> set (parameter_values p). v < 0x80000000)"

text \<open>Larger integers are not written at all.\<close>

definition ints_enc :: "u32 list \<Rightarrow> byte list" where
  "ints_enc vs = concat (map ber_enc_integer (filter (\<lambda>v. v < 0x80000000) vs))"

definition params_enc :: "DomainParameters \<Rightarrow> byte list" where
  "params_enc p = ber_enc_sequence (int (length (ints_enc (parameter_values p)))) @ ints_enc (parameter_values p)"

lemma length_ber_enc_integer: "length (ber_enc_integer v) \<le> 6"
  by (simp add: ber_enc_integer_def ber_enc_primitive_def ber_int_width_def)

lemma length_ints_enc: "length (ints_enc vs) \<le> 6 * length vs"
proof (induction vs)
  case Nil
  then show ?case by (simp add: ints_enc_def)
next
  case (Cons v vs)
  then show ?case using length_ber_enc_integer [of v] by (simp add: ints_enc_def)
qed

lemma length_parameter_ints: "length (ints_enc (parameter_values p)) \<le> 48"
  using length_ints_enc [of "parameter_values p"] by (simp add: parameter_values_def)

lemma length_params_enc: "length (params_enc p) \<le> 50"
  using length_parameter_ints [of p] by (simp add: params_enc_def ber_enc_sequence_def)

lemma emits_write_integers: "emits (write_integers vs) (ints_enc vs)"
proof (induction vs)
  case Nil
  then show ?case by (simp add: emits_Some ints_enc_def)
next
  case (Cons v vs)
  have "emits (\<lambda>s. map_option snd (ber_write_integer v s)) (if v < 0x80000000 then ber_enc_integer v else [])"
  proof (cases "v < 0x80000000")
    case True
    then show ?thesis using emits_ber_integer [of v] by (simp add: emits_def emits_sz_def)
  next
    case False
    then have "ber_write_integer v s = Some (0, s)" for s
      by (auto simp: ber_write_integer_def word_less_nat_alt word_le_nat_alt)
    then show ?thesis using False by (simp add: emits_Some)
  qed
  from emits_bind [OF this Cons.IH] show ?case
    by (auto simp: ints_enc_def bind_map_option comp_def case_prod_unfold)
qed

lemma emits_stream_write_n:
  assumes "holds D tmps" "length D < 2 ^ 31"
  shows "emits (stream_write_n (st_buffer tmps) (int (length D))) D"
proof -
  have "to_size (int (length D)) = length D" using assms(2) by (simp add: to_size_def SIZE_MOD_def)
  moreover have "mem_read (st_buffer tmps) 0 (length D) = Some D"
    using holdsD [OF assms(1)] by (simp add: mem_read_def)
  ultimately show ?thesis using emits_Write [of D] by (simp add: emits_def stream_write_n_def)
qed

lemma bputs_parameters:
  assumes "env_ok E" "48 \<le> c" "c < 65536"
  shows "bputs c (mcs_write_domain_parameters E i p) (params_enc p)"
  unfolding bputs_def
proof (intro allI impI)
  fix s assume s: "stream_wf s" "st_capacity s = c" "length (params_enc p) \<le> length (st_rest s)"
  let ?D = "ints_enc (parameter_values p)"
  obtain t where t: "mcs_stream E i c = Some t" "fresh_stream c t" using env_okE [OF assms(1), of c i] assms(2,3) by auto
  have D: "length ?D \<le> c" "length ?D < 2 ^ 31" using length_parameter_ints [of p] assms(2) by simp_all
  note W = emitsD [OF emits_write_integers freshD(1) [OF t(2)], of "parameter_values p"]
  have w: "write_integers (parameter_values p) t = Some (stream_emit ?D t)"
    using W D freshD(2) [OF t(2)] by simp
  note H = holds_emit [OF t(2) D(1)]
  have l: "to_int (Stream_GetPosition (stream_emit ?D t)) = int (length ?D)"
    using holdsD(2) [OF H] D(2) by (simp add: to_int_small)
  have q: "length (ber_enc_sequence (int (length ?D))) \<le> length (st_rest s)"
      "length ?D \<le> length (st_rest (stream_emit (ber_enc_sequence (int (length ?D))) s))"
    using s(1,3) by (auto simp: params_enc_def)
  show "mcs_write_domain_parameters E i p s = Some (True, stream_emit (params_enc p) s)"
    using t(1) w s q emits_szD [OF emits_ber_sequence s(1) q(1)]
      emitsD [OF emits_stream_write_n [OF H D(2)] stream_wf_emit [OF s(1) q(1)] q(2)]
    by (simp add: mcs_write_domain_parameters_def l Let_def params_enc_def)
qed

lemma parses_ber_integer: "v < 0x80000000 \<Longrightarrow> parses LIM31 (ber_read_integer True) (ber_enc_integer v) (Some v)"
  using ber_integer.reads [of "Some v"] by simp

text \<open>Reading gives the fields the written values, whatever they were before.\<close>

lemma read_parameters_ok:
  assumes "length fs = length vs" "\<forall>v \<in> set vs. v < 0x80000000" "stream_wf s" "length (st_rest s) < LIM31"
    "st_rest s = ints_enc vs @ ts"
  shows "read_parameters fs p s = Some (True, fold (\<lambda>(f, v). f v) (zip fs vs) p, stream_skip (length (ints_enc vs)) s)"
  using assms
proof (induction fs vs arbitrary: p s rule: list_induct2)
  case Nil
  then show ?case by (simp add: ints_enc_def)
next
  case (Cons f fs v vs)
  have r: "st_rest s = ber_enc_integer v @ ints_enc vs @ ts" using Cons.prems(1,4) by (simp add: ints_enc_def)
  have "ber_read_integer True s = Some (Some (Some v), stream_skip (length (ber_enc_integer v)) s)"
    using parsesD [OF parses_ber_integer Cons.prems(2,3) r] Cons.prems(1) by simp
  moreover have "stream_wf (stream_skip (length (ber_enc_integer v)) s)"
      "st_rest (stream_skip (length (ber_enc_integer v)) s) = ints_enc vs @ ts"
    using Cons.prems(2) r by (auto intro!: stream_wf_skip)
  ultimately show ?case using Cons.IH [of "stream_skip (length (ber_enc_integer v)) s" "f v p"] Cons.prems r
    by (simp add: ints_enc_def)
qed

lemma read_domain_parameters:
  assumes "params_valid p" "stream_wf s" "length (st_rest s) < LIM31" "st_rest s = params_enc p @ ts"
  shows "mcs_read_domain_parameters q s = Some (True, p, stream_skip (length (params_enc p)) s)"
proof -
  let ?vs = "parameter_values p"
  let ?h = "ber_enc_sequence (int (length (ints_enc ?vs)))"
  have v: "ber_length_valid (int (length (ints_enc ?vs)))" using length_parameter_ints [of p] by (simp add: ber_length_valid_def)
  have "parses LIM31 ber_read_sequence_tag ?h (int (length (ints_enc ?vs)))"
    using ber_dec_enc_tag(3) [OF v] by (intro decodes_parses [OF ber_sequence_decodes]) simp
  then have h: "ber_read_sequence_tag s = Some (Some (int (length (ints_enc ?vs))), stream_skip (length ?h) s)"
    using assms(2-4) by (simp add: parses_def params_enc_def)
  have w: "stream_wf (stream_skip (length ?h) s)" "st_rest (stream_skip (length ?h) s) = ints_enc ?vs @ ts"
    using assms(2,4) by (auto intro!: stream_wf_skip simp: params_enc_def)
  have "fold (\<lambda>(f, v). f v) (zip parameter_fields ?vs) q = p"
    by (simp add: parameter_fields_def parameter_values_def)
  then show ?thesis
    using h read_parameters_ok [OF _ _ w(1) _ w(2), of parameter_fields q] assms(1,3)
    by (simp add: mcs_read_domain_parameters_def params_valid_def params_enc_def)
       (simp add: parameter_fields_def parameter_values_def)
qed

section \<open>Connect PDUs\<close>

lemma emits_ber_octet_prefix:
  assumes "holds D ud" "int (length D) < INT_LIM - 4"
  shows "emits_sz (ber_write_octet_string (st_buffer ud) (int (length D))) (ber_enc_primitive BER_TAG_OCTET_STRING D)"
proof -
  have "to_size (int (length D)) = length D" using assms(2) by (simp add: to_size_def SIZE_MOD_def INT_LIM_def)
  then have "stream_write_n (st_buffer ud) (int (length D)) t = stream_write_n D (int (length D)) t" for t
    using holdsD [OF assms(1)] by (simp add: stream_write_n_def mem_read_def)
  then have "ber_write_octet_string (st_buffer ud) (int (length D)) = ber_write_octet_string D (int (length D))"
    by (simp add: ber_write_octet_string_def fun_eq_iff)
  then show ?thesis using emits_ber_octet [OF assms(2)] by simp
qed

lemma bputs_user_data:
  assumes "holds D ud" "length D < 60000"
  shows "bputs c (connect_user_data ud) (ber_enc_primitive BER_TAG_OCTET_STRING D)"
proof -
  have "int (length D) < INT_LIM - 4" "to_int (Stream_GetPosition ud) = int (length D)"
    using assms(2) holdsD(2) [OF assms(1)] by (simp_all add: INT_LIM_def to_int_small)
  then show ?thesis
    using emits_szD [OF emits_ber_octet_prefix [OF assms(1)]] by (simp add: bputs_def connect_user_data_def)
qed

definition connect_enc :: "byte \<Rightarrow> byte list \<Rightarrow> byte list" where
  "connect_enc tag body = ber_enc_application tag (int (length body)) @ body"

lemma length_connect_enc: "length (connect_enc tag body) \<le> 5 + length body"
  by (simp add: connect_enc_def ber_enc_application_def ber_enc_length_def)

lemma bputs_close:
  assumes "holds body tmps" "length body < 60000"
  shows "bputs c (mcs_close_connect tag tmps) (connect_enc tag body)"
  unfolding bputs_def
proof (intro allI impI)
  fix s assume s: "stream_wf s" "length (connect_enc tag body) \<le> length (st_rest s)"
  have l: "to_int (Stream_GetPosition tmps) = int (length body)" using holdsD(2) [OF assms(1)] assms(2) by (simp add: to_int_small)
  have e: "emits (\<lambda>s. ber_write_application_tag tag (int (length body)) s \<bind> stream_write_n (st_buffer tmps) (int (length body))) (connect_enc tag body)"
    unfolding connect_enc_def
    by (rule emits_bind [OF emits_ber_application emits_stream_write_n [OF assms(1)] refl]) (use assms(2) in simp)
  have "mcs_close_connect tag tmps s =
      (ber_write_application_tag tag (int (length body)) s \<bind> stream_write_n (st_buffer tmps) (int (length body))) \<bind> (\<lambda>s. Some (True, s))"
    unfolding mcs_close_connect_def l Let_def by (simp add: Option.bind_assoc)
  with emitsD [OF e s] show "mcs_close_connect tag tmps s = Some (True, stream_emit (connect_enc tag body) s)" by simp
qed

text \<open>Room for the seven bytes of the headers is left, the body follows, and the headers are filled in.\<close>

definition x224_data :: "byte list \<Rightarrow> byte list" where
  "x224_data body = tpkt_enc (of_nat (7 + length body)) @ tpdu_enc 2 X224_TPDU_DATA @ body"

lemma emits_tpdu_data: "emits tpdu_write_data (tpdu_enc 2 X224_TPDU_DATA)"
  using emits_tpdu [of 2 X224_TPDU_DATA] by (simp add: tpdu_write_data_def [abs_def])

lemma length_x224_data: "length (x224_data body) = 7 + length body" "length (tpkt_enc v) = 4" "length (tpdu_enc 2 X224_TPDU_DATA) = 3"
  by (simp_all add: x224_data_def tpkt_enc_def tpdu_enc_def)

lemma frame_pdu_ok:
  assumes s: "fresh_stream c s" and w: "bputs c w D" and fit: "7 + length D \<le> c" "c < 65536"
  shows "\<exists>s'. mcs_frame_pdu w s = Some (True, s') \<and> sealed_with (x224_data D) s'"
proof -
  note F = freshD [OF s]
  have s7: "Stream_Seek s 7 = Some (stream_skip 7 s)" "stream_wf (stream_skip 7 s)" "length (st_rest (stream_skip 7 s)) = c - 7"
      "st_capacity (stream_skip 7 s) = c"
    using Stream_Seek_skip [OF F(1), of 7] F fit by (auto intro: stream_wf_skip) (simp add: stream_skip_def)
  define s1 where "s1 = stream_emit D (stream_skip 7 s)"
  have b: "w (stream_skip 7 s) = Some (True, s1)" "stream_wf s1"
    using bputsD [OF w s7(2,4)] s7 fit by (auto simp: s1_def intro: stream_wf_emit)
  have buf: "length (st_buffer s1) = c" "st_pointer s1 = 7 + length D" "st_length s1 = c" "st_capacity s1 = c"
    using F(4,5) s fit by (simp_all add: s1_def stream_emit_def stream_skip_def fresh_stream_def)
  define s2 where "s2 = s1\<lparr>st_pointer := 0\<rparr>"
  have s2: "stream_wf s2" "length (st_rest s2) = c" using b(2) buf by (auto simp: s2_def stream_wf_def length_st_rest)
  let ?H = "tpkt_enc (of_nat (7 + length D)) @ tpdu_enc 2 X224_TPDU_DATA"
  have "emits (\<lambda>s. tpkt_write_header (of_nat (7 + length D)) s \<bind> tpdu_write_data) ?H"
    by (rule emits_bind [OF emits_tpkt emits_tpdu_data refl])
  from emitsD [OF this s2(1)] have h: "(tpkt_write_header (of_nat (7 + length D)) s2 \<bind> tpdu_write_data) = Some (stream_emit ?H s2)"
    using s2(2) fit length_x224_data(2,3) by simp
  define s3 where "s3 = (stream_emit ?H s2)\<lparr>st_pointer := 7 + length D\<rparr>"
  have set: "Stream_SetPosition s1 0 = Some s2" "Stream_SetPosition (stream_emit ?H s2) (7 + length D) = Some s3"
    using buf fit length_x224_data(2,3) by (simp_all add: Stream_SetPosition_def s2_def s3_def stream_emit_def)
  have bm: "to_int (Stream_GetPosition s) = 0" "to_int (Stream_GetPosition s1) = int (7 + length D)"
    using F(4) buf(2) fit by (simp_all add: Stream_GetPosition_def to_int_small)
  have ck: "int_ck (int (7 + length D) - 0) = Some (int (7 + length D))" "to_size (int (7 + length D)) = 7 + length D" "to_size 0 = 0"
    using fit by (simp add: int_ck_def INT_LIM_def, intro to_size_of_nat, simp add: SIZE_MOD_def, simp add: to_size_def)
  have wl: "(word_of_int (int (7 + length D)) :: u16) = of_nat (7 + length D)" by (simp only: of_int_of_nat_eq)
  have "mcs_frame_pdu w s = (tpkt_write_header (of_nat (7 + length D)) s2 \<bind> tpdu_write_data) \<bind>
      (\<lambda>s. Stream_SetPosition s (7 + length D) \<bind> (\<lambda>s. Some (True, Stream_SealLength s)))"
    unfolding mcs_frame_pdu_def Let_def bm s7(1) bind.bind_lunit b(1) prod.case not_True_eq_False if_False ck set(1) wl
    by (simp add: Option.bind_assoc)
  then have "mcs_frame_pdu w s = Some (True, Stream_SealLength s3)" unfolding h by (simp add: set(2) del: of_nat_add)
  moreover have "sealed_with (x224_data D) (Stream_SealLength s3)"
    using buf fit F length_x224_data
    by (simp add: sealed_with_def stream_wf_def Stream_SealLength_def s3_def s2_def s1_def x224_data_def stream_emit_def stream_skip_def)
  ultimately show ?thesis by blast
qed

section \<open>Connect Initial\<close>

definition selectors_enc :: "byte list" where
  "selectors_enc = ber_enc_primitive BER_TAG_OCTET_STRING [1] @ ber_enc_primitive BER_TAG_OCTET_STRING [1] @
     ber_enc_primitive BER_TAG_BOOLEAN [0xFF]"

definition initial_body :: "'w rdpMcs \<Rightarrow> byte list \<Rightarrow> byte list" where
  "initial_body m D = selectors_enc @ params_enc (mcs_targetParameters m) @ params_enc (mcs_minimumParameters m) @
     params_enc (mcs_maximumParameters m) @ ber_enc_primitive BER_TAG_OCTET_STRING D"

definition params_ok :: "'w rdpMcs \<Rightarrow> bool" where
  "params_ok m \<longleftrightarrow> params_valid (mcs_targetParameters m) \<and> params_valid (mcs_minimumParameters m) \<and> params_valid (mcs_maximumParameters m)"

lemma length_ber_octet: "length (ber_enc_primitive tag D) \<le> 4 + length D"
  by (simp add: ber_enc_primitive_def ber_enc_length_def)

lemma length_selectors [simp]: "length selectors_enc = 9"
  by (simp add: selectors_enc_def ber_enc_primitive_def)

lemma length_initial_body: "length (initial_body m D) \<le> 163 + length D"
  using length_params_enc [of "mcs_targetParameters m"] length_params_enc [of "mcs_minimumParameters m"]
    length_params_enc [of "mcs_maximumParameters m"] length_ber_octet [of BER_TAG_OCTET_STRING D]
  by (simp add: initial_body_def)

lemma emits_selectors: "emits (\<lambda>s. do { (_, s) \<leftarrow> ber_write_octet_string callingDomainSelector 1 s;
    (_, s) \<leftarrow> ber_write_octet_string calledDomainSelector 1 s; ber_write_BOOL 1 s }) selectors_enc"
proof -
  have "int (length [1 :: byte]) < INT_LIM - 4" by (simp add: INT_LIM_def)
  from emits_ber_octet [OF this] have "emits_sz (ber_write_octet_string [1] 1) (ber_enc_primitive BER_TAG_OCTET_STRING [1])" by simp
  note o = emits_szD [OF this] and b = emitsD [OF emits_ber_BOOL [of 1]]
  show ?thesis
    by (rule emitsI)
       (simp add: selectors_enc_def callingDomainSelector_def calledDomainSelector_def o b stream_wf_emit)
qed

lemma bputs_connect_initial:
  assumes "env_ok E" "holds D ud" "163 + length D \<le> c" "c < 60000"
  shows "bputs c (mcs_write_connect_initial E m ud) (connect_enc MCS_TYPE_CONNECT_INITIAL (initial_body m D))"
  unfolding bputs_def
proof (intro allI impI)
  fix s assume s: "stream_wf s" "st_capacity s = c" "length (connect_enc MCS_TYPE_CONNECT_INITIAL (initial_body m D)) \<le> length (st_rest s)"
  obtain t where t: "mcs_stream E 3 c = Some t" "fresh_stream c t" using env_okE [OF assms(1), of c 3] assms(3,4) by auto
  note F = freshD [OF t(2)]
  let ?R = "params_enc (mcs_targetParameters m) @ params_enc (mcs_minimumParameters m) @ params_enc (mcs_maximumParameters m) @
      ber_enc_primitive BER_TAG_OCTET_STRING D"
  have fit: "length (initial_body m D) \<le> c" using length_initial_body [of m D] assms(3) by simp
  have l: "length selectors_enc \<le> length (st_rest t)" using F(2) fit by (simp add: initial_body_def)
  define t1 where "t1 = stream_emit selectors_enc t"
  have t1: "stream_wf t1" "st_capacity t1 = c" "length ?R \<le> length (st_rest t1)"
    using F l fit by (auto simp: t1_def initial_body_def intro: stream_wf_emit)
  have p: "48 \<le> c" "c < 65536" "length D < 60000" using assms(3,4) by simp_all
  note P = bputs_parameters [OF assms(1) p(1,2)]
  note B = bputsD [OF bputs_and_then [OF P [of 4] bputs_and_then [OF P [of 5] bputs_and_then [OF P [of 6]
    bputs_user_data [OF assms(2) p(3)]]]] t1]
  have e: "stream_emit ?R t1 = stream_emit (initial_body m D) t"
    using F fit by (simp add: t1_def initial_body_def)
  have H: "holds (initial_body m D) (stream_emit (initial_body m D) t)" by (rule holds_emit [OF t(2) fit])
  have "length (initial_body m D) < 60000" using fit assms(4) by simp
  note C = bputsD [OF bputs_close [OF H this] s]
  define k where "k = (\<lambda>t. do { (ok, tmps) \<leftarrow> and_then (mcs_write_domain_parameters E 4 (mcs_targetParameters m))
            (and_then (mcs_write_domain_parameters E 5 (mcs_minimumParameters m))
            (and_then (mcs_write_domain_parameters E 6 (mcs_maximumParameters m)) (connect_user_data ud))) t;
          if \<not> ok then Some (False, s) else mcs_close_connect MCS_TYPE_CONNECT_INITIAL tmps s })"
  have "mcs_write_connect_initial E m ud s = (do { (_, s) \<leftarrow> ber_write_octet_string callingDomainSelector 1 t;
    (_, s) \<leftarrow> ber_write_octet_string calledDomainSelector 1 s; ber_write_BOOL 1 s }) \<bind> k"
    using s(2) t(1) by (simp add: mcs_write_connect_initial_def k_def Option.bind_assoc case_prod_unfold)
  also have "\<dots> = k t1" using emitsD [OF emits_selectors F(1) l] by (simp add: t1_def)
  finally show "mcs_write_connect_initial E m ud s = Some (True, stream_emit (connect_enc MCS_TYPE_CONNECT_INITIAL (initial_body m D)) s)"
    unfolding k_def B e using C by simp
qed

text \<open>The whole PDU of a client with at most 16 channels and one monitor.\<close>

definition request_enc :: "gcc_env \<Rightarrow> 'w rdpMcs \<Rightarrow> byte list" where
  "request_enc E m = request_frame (length (blocks_enc (client_blocks E m))) @ blocks_enc (client_blocks E m)"

definition initial_enc :: "gcc_env \<Rightarrow> 'w rdpMcs \<Rightarrow> byte list" where
  "initial_enc E m = x224_data (connect_enc MCS_TYPE_CONNECT_INITIAL (initial_body m (request_enc E m)))"

lemma length_per_enc_length: "length (per_enc_length n) \<le> 2"
  by (simp add: per_enc_length_def)

lemma length_request_frame: "length (request_frame n) \<le> 23"
  using length_per_enc_length [of "int n"] length_per_enc_length [of "int (n + 14)"]
  by (simp add: request_frame_def per_enc_oid_def per_enc_numeric_def per_enc_octet_def per_enc_digits_def h221_cs_key_def)
     (simp add: per_enc_length_def)

lemma length_request_enc: "client_ok E m \<Longrightarrow> length (request_enc E m) \<le> 497"
  using length_request_frame [of "length (blocks_enc (client_blocks E m))"] length_client_blocks [of E m]
  by (simp add: request_enc_def)

lemma connect_initial_pdu_ok:
  assumes "env_ok E" "client_ok (me_gcc E) m" "params_ok m"
  shows "\<exists>s. mcs_connect_initial_pdu E m = Some (Some s, m\<lparr>mcs_settings := sent_settings (mcs_settings m)\<rparr>) \<and>
     sealed_with (initial_enc (me_gcc E) m) s"
proof -
  let ?B = "blocks_enc (client_blocks (me_gcc E) m)" and ?D = "request_enc (me_gcc E) m"
  define m' where "m' = m\<lparr>mcs_settings := sent_settings (mcs_settings m)\<rparr>"
  have B: "length ?B \<le> 474" "length ?B \<le> 512" "length ?B + 14 < 0x8000" using length_client_blocks [OF assms(2)] by simp_all
  have D: "length ?D \<le> 497" "length ?D \<le> 1024" using length_request_enc [OF assms(2)] by simp_all
  obtain cd where cd: "mcs_stream E 0 512 = Some cd" "fresh_stream 512 cd" using env_okE [OF assms(1), of 512 0] by auto
  obtain rq where rq: "mcs_stream E 1 1024 = Some rq" "fresh_stream 1024 rq" using env_okE [OF assms(1), of 1024 1] by auto
  have w1: "gcc_write_client_data_blocks (me_gcc E) m cd = Some (m', stream_emit ?B cd)"
    using write_client_blocks [OF assms(2) freshD(1) [OF cd(2)]] freshD(2) [OF cd(2)] B by (simp add: m'_def)
  note H1 = holds_emit [OF cd(2) B(2)]
  have w2: "gcc_write_conference_create_request (stream_emit ?B cd) rq = Some (stream_emit ?D rq)"
    using emitsD [OF emits_request [OF H1 B(3)] freshD(1) [OF rq(2)]] freshD(2) [OF rq(2)] D(2) by (simp add: request_enc_def)
  note H2 = holds_emit [OF rq(2) D(2)]
  define c where "c = 1031 + length ?D"
  have n: "to_int (sz_add (Stream_GetPosition (stream_emit ?D rq)) 7) = int (length ?D + 7)"
      "int_ck (1024 + int (length ?D + 7)) = Some (int c)" "to_size (int c) = c"
    using holdsD(2) [OF H2] D(1) by (simp_all add: sz_add_def SIZE_MOD_def to_int_small int_ck_def INT_LIM_def c_def to_size_def)
  obtain s where s: "mcs_stream E 2 c = Some s" "fresh_stream c s"
    using env_okE [OF assms(1), of c 2] D(1) by (auto simp: c_def)
  have p: "initial_body m' ?D = initial_body m ?D" by (simp add: m'_def initial_body_def)
  have c: "163 + length ?D \<le> c" "c < 60000" "c < 65536" using D(1) by (simp_all add: c_def)
  have "7 + length (connect_enc MCS_TYPE_CONNECT_INITIAL (initial_body m' ?D)) \<le> c"
    using length_connect_enc [of MCS_TYPE_CONNECT_INITIAL "initial_body m' ?D"] length_initial_body [of m' ?D] by (simp add: c_def)
  from frame_pdu_ok [OF s(2) bputs_connect_initial [OF assms(1) H2 c(1,2)] this c(3)] obtain s' where
    s': "mcs_frame_pdu (mcs_write_connect_initial E m' (stream_emit ?D rq)) s = Some (True, s')" "sealed_with (initial_enc (me_gcc E) m) s'"
    by (auto simp: initial_enc_def p)
  then show ?thesis
    using cd(1) rq(1) w1 w2 n s(1) by (simp add: mcs_connect_initial_pdu_def m'_def Let_def)
qed

text \<open>Reading it on the server.\<close>

lemma parses_tpdu_data: "parses LIM31 tpdu_read_data (tpdu_enc 2 X224_TPDU_DATA) 2"
  by (rule decodes_parses [OF tpdu_data_decodes]) (simp add: d_then_def tpdu_dec_enc tpdu_dec_code_def)

lemma tpkt_front:
  assumes "stream_wf s" "st_rest s = tpkt_enc v @ ts"
  shows "tpkt_read_header s = Some (v, stream_skip 4 s)" "stream_wf (stream_skip 4 s)" "st_rest (stream_skip 4 s) = ts"
  using tpkt_read_header_eq [OF assms(1)] assms by (auto simp: tpkt_enc_def intro!: stream_wf_skip)

lemma gets_tpkt:
  assumes "gets LIM31 r bs n v"
  shows "gets LIM31 (\<lambda>s. do { (_, s) \<leftarrow> tpkt_read_header s; r s }) (tpkt_enc l @ bs) (4 + n) v"
  unfolding gets_def
proof (intro allI impI)
  fix s tl assume s: "stream_wf s" "length (st_rest s) < LIM31" "st_rest s = (tpkt_enc l @ bs) @ tl"
  then have r: "st_rest s = tpkt_enc l @ bs @ tl" by simp
  note T = tpkt_front [OF s(1) r]
  show "(do { (_, s) \<leftarrow> tpkt_read_header s; r s }) = Some (Some v, stream_skip (4 + n) s)"
    using T(1) getsD [OF assms T(2) _ T(3)] s(2) by simp
qed

lemma parses_application:
  assumes "ber_length_valid len"
  shows "parses LIM31 (ber_read_application_tag tag) (ber_enc_application tag len) len"
  using ber_dec_enc_tag(1) [OF assms] by (intro decodes_parses [OF ber_application_decodes]) simp

lemma parses_BOOL: "parses LIM31 ber_read_BOOL (ber_enc_primitive BER_TAG_BOOLEAN [0xFF]) True"
  using ber_BOOL.reads [of True]
  by (simp add: parses_def BLOCK_MAX_def)

lemma octet_front:
  assumes "length D < 0x10000"
  shows "parses LIM31 ber_read_octet_string_tag (ber_tag BER_CLASS_UNIV BER_TAG_OCTET_STRING False # ber_enc_length (int (length D))) (int (length D))"
proof -
  have "ber_length_valid (int (length D))" using assms by (simp add: ber_length_valid_def)
  from ber_dec_enc_length [OF this] show ?thesis
    by (intro decodes_parses [OF ber_tag_length_decodes(1)]) (simp add: ber_dec_universal_def)
qed

lemma parses_skip_octet:
  assumes "length D < 0x10000"
  shows "parses LIM31 skip_octet_string (ber_enc_primitive BER_TAG_OCTET_STRING D) ()"
proof -
  have "gets LIM31 (\<lambda>s. if to_int (Stream_GetRemainingLength s) < int (length D) then Some (None, s)
      else do { s \<leftarrow> Stream_Seek s (int (length D)); Some (Some (), s) }) D (length D) ()"
    by (auto simp: gets_def remaining_rest to_int_small Stream_Seek_skip)
  from gets_try [OF octet_front [OF assms], of "\<lambda>len s. if to_int (Stream_GetRemainingLength s) < len then Some (None, s)
      else do { s \<leftarrow> Stream_Seek s len; Some (Some (), s) }", OF this]
  show ?thesis by (simp add: parses_def gets_def skip_octet_string_def ber_enc_primitive_def)
qed

lemma gets_initial_head:
  assumes "length body < 0x10000"
  shows "gets LIM31 connect_initial_head (tpkt_enc l @ tpdu_enc 2 X224_TPDU_DATA @ ber_enc_application MCS_TYPE_CONNECT_INITIAL (int (length body)) @ selectors_enc)
     (length (tpkt_enc l @ tpdu_enc 2 X224_TPDU_DATA @ ber_enc_application MCS_TYPE_CONNECT_INITIAL (int (length body)) @ selectors_enc)) True"
proof -
  have v: "ber_length_valid (int (length body))" using assms by (simp add: ber_length_valid_def)
  have o: "length [1 :: byte] < 0x10000" by simp
  show ?thesis
    unfolding connect_initial_head_def [abs_def]
    apply (rule gets_cong)
      apply (rule gets_tpkt)
      apply (rule gets_try, rule parses_tpdu_data)
      apply (rule gets_try, rule parses_application [OF v])
      apply (rule gets_try, rule parses_skip_octet [OF o])
      apply (rule gets_try, rule parses_skip_octet [OF o])
      apply (rule gets_parses, rule parses_BOOL)
     apply (simp_all add: selectors_enc_def length_x224_data)
    done
qed

definition merged :: "'w rdpMcs \<Rightarrow> DomainParameters \<Rightarrow> bool \<times> DomainParameters" where
  "merged m = mcs_merge_domain_parameters (mcs_targetParameters m) (mcs_minimumParameters m) (mcs_maximumParameters m)"

lemma recv_connect_initial_ok:
  assumes bs: "blocks_effect E bs (ms\<lparr>mcs_targetParameters := mcs_targetParameters mc, mcs_minimumParameters := mcs_minimumParameters mc,
      mcs_maximumParameters := mcs_maximumParameters mc\<rparr>) ms'"
    and fr: "mcs_frame (ms\<lparr>mcs_targetParameters := mcs_targetParameters mc, mcs_minimumParameters := mcs_minimumParameters mc,
      mcs_maximumParameters := mcs_maximumParameters mc\<rparr>) ms'"
    and p: "params_ok mc" and b: "length (blocks_enc bs) < 20000"
    and D: "D = request_frame (length (blocks_enc bs)) @ blocks_enc bs"
    and s: "stream_wf s" "int (st_length s) < INT_LIM"
      "st_rest s = x224_data (connect_enc MCS_TYPE_CONNECT_INITIAL (initial_body mc D)) @ ts"
  shows "\<exists>s'. mcs_recv_connect_initial E ms s = Some (fst (merged mc (mcs_domainParameters ms)),
     ms'\<lparr>mcs_domainParameters := snd (merged mc (mcs_domainParameters ms))\<rparr>, s')"
proof -
  have lD: "length D < 30000" "length (initial_body mc D) < 0x10000"
    using b length_request_frame [of "length (blocks_enc bs)"] length_initial_body [of mc D] by (simp_all add: D)
  let ?app = "ber_enc_application MCS_TYPE_CONNECT_INITIAL (int (length (initial_body mc D)))"
  let ?l = "of_nat (7 + length (connect_enc MCS_TYPE_CONNECT_INITIAL (initial_body mc D))) :: u16"
  let ?H = "tpkt_enc ?l @ tpdu_enc 2 X224_TPDU_DATA @ ?app @ selectors_enc"
  let ?t = "params_enc (mcs_targetParameters mc)" and ?n = "params_enc (mcs_minimumParameters mc)" and ?x = "params_enc (mcs_maximumParameters mc)"
  let ?o = "ber_tag BER_CLASS_UNIV BER_TAG_OCTET_STRING False # ber_enc_length (int (length D))"
  have r: "st_rest s = ?H @ ?t @ ?n @ ?x @ ?o @ D @ ts"
    using s(3) by (simp add: x224_data_def connect_enc_def initial_body_def ber_enc_primitive_def)
  have lim: "length (st_rest (stream_skip k s)) < LIM31" for k using s(1,2) by (simp add: length_st_rest INT_LIM_def)
  have w: "stream_wf (stream_skip k s)" if "k \<le> length (st_rest s)" for k using s(1) that by (rule stream_wf_skip)
  define k1 k2 k3 k4 k5 where "k1 = length ?H" and "k2 = k1 + length ?t" and "k3 = k2 + length ?n" and "k4 = k3 + length ?x"
    and "k5 = k4 + length ?o"
  have R: "st_rest (stream_skip k1 s) = ?t @ ?n @ ?x @ ?o @ D @ ts" "st_rest (stream_skip k2 s) = ?n @ ?x @ ?o @ D @ ts"
      "st_rest (stream_skip k3 s) = ?x @ ?o @ D @ ts" "st_rest (stream_skip k4 s) = ?o @ D @ ts" "st_rest (stream_skip k5 s) = D @ ts"
    unfolding k5_def k4_def k3_def k2_def k1_def by (simp_all add: r)
  have K: "stream_wf (stream_skip k1 s)" "stream_wf (stream_skip k2 s)" "stream_wf (stream_skip k3 s)" "stream_wf (stream_skip k4 s)"
      "stream_wf (stream_skip k5 s)"
    by (rule w, simp add: k5_def k4_def k3_def k2_def k1_def r)+
  have h: "connect_initial_head s = Some (Some True, stream_skip k1 s)"
    using getsD [OF gets_initial_head [OF lD(2)] s(1) _ r] lim [of 0] by (simp add: k1_def)
  have q: "params_valid (mcs_targetParameters mc)" "params_valid (mcs_minimumParameters mc)" "params_valid (mcs_maximumParameters mc)"
    using p by (simp_all add: params_ok_def)
  have P: "mcs_read_domain_parameters a (stream_skip k1 s) = Some (True, mcs_targetParameters mc, stream_skip k2 s)"
      "mcs_read_domain_parameters a (stream_skip k2 s) = Some (True, mcs_minimumParameters mc, stream_skip k3 s)"
      "mcs_read_domain_parameters a (stream_skip k3 s) = Some (True, mcs_maximumParameters mc, stream_skip k4 s)" for a
    using read_domain_parameters [OF q(1) K(1) lim R(1)] read_domain_parameters [OF q(2) K(2) lim R(2)]
      read_domain_parameters [OF q(3) K(3) lim R(3)] by (simp_all add: k2_def k3_def k4_def)
  have o: "ber_read_octet_string_tag (stream_skip k4 s) = Some (Some (int (length D)), stream_skip k5 s)"
    using parsesD [OF octet_front K(4) lim R(4)] lD(1) by (simp add: k5_def)
  have rem: "\<not> to_int (Stream_GetRemainingLength (stream_skip k5 s)) < int (length D)"
    using K(5) R(5) lim [of k5] by (simp add: remaining_rest to_int_small)
  define m0 where "m0 = ms\<lparr>mcs_targetParameters := mcs_targetParameters mc, mcs_minimumParameters := mcs_minimumParameters mc,
      mcs_maximumParameters := mcs_maximumParameters mc\<rparr>"
  have st: "int (st_length (stream_skip k5 s)) < INT_LIM" "length (blocks_enc bs) + 14 < 0x8000" using s(2) b by (simp_all add: stream_skip_def)
  obtain n where c: "gcc_read_conference_create_request E m0 (stream_skip k5 s) = Some (True, ms', stream_skip n (stream_skip k5 s))"
    using request_arrives [OF bs K(5) st, folded m0_def] R(5) D by auto
  have f: "mcs_targetParameters ms' = mcs_targetParameters mc" "mcs_minimumParameters ms' = mcs_minimumParameters mc"
      "mcs_maximumParameters ms' = mcs_maximumParameters mc" "mcs_domainParameters ms' = mcs_domainParameters ms"
    using fr by (simp_all add: mcs_frame_def)
  have m0: "ms\<lparr>mcs_targetParameters := mcs_targetParameters mc\<rparr>\<lparr>mcs_minimumParameters := mcs_minimumParameters mc\<rparr>\<lparr>mcs_maximumParameters := mcs_maximumParameters mc\<rparr> = m0"
    by (simp add: m0_def)
  show ?thesis
    unfolding mcs_recv_connect_initial_def
    by (simp add: h P o rem Let_def m0 [simplified] c f merged_def case_prod_unfold)
qed

section \<open>Connect Response\<close>

definition result_enc :: "byte list" where
  "result_enc = ber_enc_primitive BER_TAG_ENUMERATED [0] @ ber_enc_integer 0"

definition response_body :: "'w rdpMcs \<Rightarrow> byte list \<Rightarrow> byte list" where
  "response_body m D = result_enc @ params_enc (mcs_domainParameters m) @ ber_enc_primitive BER_TAG_OCTET_STRING D"

lemma length_result [simp]: "length result_enc = 6"
  by (simp add: result_enc_def ber_enc_primitive_def ber_enc_integer_def ber_int_width_def)

lemma length_response_body: "length (response_body m D) \<le> 60 + length D"
  using length_params_enc [of "mcs_domainParameters m"] length_ber_octet [of BER_TAG_OCTET_STRING D]
  by (simp add: response_body_def)

lemma emits_result: "emits (\<lambda>s. do { s \<leftarrow> ber_write_enumerated MCS_Result_enum_length 0 s; (_, s) \<leftarrow> ber_write_integer 0 s; Some s }) result_enc"
  using emitsD [OF emits_ber_enumerated [of MCS_Result_enum_length 0]] emits_szD [OF emits_ber_integer [of 0]]
  by (intro emitsI) (simp add: result_enc_def stream_wf_emit)

lemma bputs_connect_response:
  assumes "env_ok E" "holds D ud" "60 + length D \<le> c" "c < 60000"
  shows "bputs c (mcs_write_connect_response E m ud) (connect_enc MCS_TYPE_CONNECT_RESPONSE (response_body m D))"
  unfolding bputs_def
proof (intro allI impI)
  fix s assume s: "stream_wf s" "st_capacity s = c" "length (connect_enc MCS_TYPE_CONNECT_RESPONSE (response_body m D)) \<le> length (st_rest s)"
  obtain t where t: "mcs_stream E 3 c = Some t" "fresh_stream c t" using env_okE [OF assms(1), of c 3] assms(3,4) by auto
  note F = freshD [OF t(2)]
  let ?R = "params_enc (mcs_domainParameters m) @ ber_enc_primitive BER_TAG_OCTET_STRING D"
  have fit: "length (response_body m D) \<le> c" using length_response_body [of m D] assms(3) by simp
  have l: "length result_enc \<le> length (st_rest t)" using F(2) fit by (simp add: response_body_def)
  define t1 where "t1 = stream_emit result_enc t"
  have t1: "stream_wf t1" "st_capacity t1 = c" "length ?R \<le> length (st_rest t1)"
    using F l fit by (auto simp: t1_def response_body_def intro: stream_wf_emit)
  have p: "48 \<le> c" "c < 65536" "length D < 60000" using assms(3,4) by simp_all
  note B = bputsD [OF bputs_and_then [OF bputs_parameters [OF assms(1) p(1,2), of 4] bputs_user_data [OF assms(2) p(3)]] t1]
  have e: "stream_emit ?R t1 = stream_emit (response_body m D) t"
    using F fit by (simp add: t1_def response_body_def)
  have H: "holds (response_body m D) (stream_emit (response_body m D) t)" by (rule holds_emit [OF t(2) fit])
  have "length (response_body m D) < 60000" using fit assms(4) by simp
  note C = bputsD [OF bputs_close [OF H this] s]
  define k where "k = (\<lambda>t. do { (ok, tmps) \<leftarrow> and_then (mcs_write_domain_parameters E 4 (mcs_domainParameters m)) (connect_user_data ud) t;
          if \<not> ok then Some (False, s) else mcs_close_connect MCS_TYPE_CONNECT_RESPONSE tmps s })"
  have "mcs_write_connect_response E m ud s = (do { s \<leftarrow> ber_write_enumerated MCS_Result_enum_length 0 t; (_, s) \<leftarrow> ber_write_integer 0 s; Some s }) \<bind> k"
    using s(2) t(1) by (simp add: mcs_write_connect_response_def k_def Option.bind_assoc case_prod_unfold)
  also have "\<dots> = k t1" using emitsD [OF emits_result F(1) l] by (simp add: t1_def)
  finally show "mcs_write_connect_response E m ud s = Some (True, stream_emit (connect_enc MCS_TYPE_CONNECT_RESPONSE (response_body m D)) s)"
    unfolding k_def B e using C by simp
qed

definition answer_enc :: "'w rdpMcs \<Rightarrow> byte list" where
  "answer_enc m = response_frame (length (blocks_enc (server_blocks m))) @ blocks_enc (server_blocks m)"

definition response_enc :: "'w rdpMcs \<Rightarrow> byte list" where
  "response_enc m = x224_data (connect_enc MCS_TYPE_CONNECT_RESPONSE (response_body m (answer_enc m)))"

lemma length_response_frame: "length (response_frame n) \<le> 23"
  using length_per_enc_length [of "int n"]
  by (simp add: response_frame_def per_enc_oid_def per_enc_octet_def h221_sc_key_def per_enc_integer_def)
     (simp add: per_enc_length_def)

lemma connect_response_pdu_ok:
  assumes "env_ok E" "server_ok m"
  shows "\<exists>s. mcs_connect_response_pdu E m = Some (Some s, m\<lparr>mcs_settings := no_encryption (mcs_settings m)\<rparr>) \<and>
     sealed_with (response_enc m) s"
proof -
  let ?B = "blocks_enc (server_blocks m)" and ?D = "answer_enc m"
  define m' where "m' = m\<lparr>mcs_settings := no_encryption (mcs_settings m)\<rparr>"
  have B: "length ?B \<le> 104" "length ?B \<le> 512" "length ?B < 0x8000" using length_server_blocks [OF assms(2)] by simp_all
  have D: "length ?D \<le> 127" "length ?D \<le> 1024" using B(1) length_response_frame [of "length ?B"] by (simp_all add: answer_enc_def)
  obtain sd where sd: "mcs_stream E 0 512 = Some sd" "fresh_stream 512 sd" using env_okE [OF assms(1), of 512 0] by auto
  obtain rp where rp: "mcs_stream E 1 1024 = Some rp" "fresh_stream 1024 rp" using env_okE [OF assms(1), of 1024 1] by auto
  have w1: "gcc_write_server_data_blocks (me_gcc E) m sd = Some (True, m', stream_emit ?B sd)"
    using write_server_blocks [OF assms(2), of "me_gcc E"] freshD [OF sd(2)] B unfolding puts_def m'_def by auto
  note H1 = holds_emit [OF sd(2) B(2)]
  have cap: "sz_add 512 (st_capacity (stream_emit ?B sd)) = 1024" using freshD(3) [OF sd(2)] by (simp add: sz_add_def SIZE_MOD_def)
  have w2: "gcc_write_conference_create_response (stream_emit ?B sd) rp = Some (stream_emit ?D rp)"
    using emitsD [OF emits_response [OF H1 B(3)] freshD(1) [OF rp(2)]] freshD(2) [OF rp(2)] D(2) by (simp add: answer_enc_def)
  note H2 = holds_emit [OF rp(2) D(2)]
  define c where "c = 1031 + length ?D"
  have n: "to_int (sz_add (Stream_GetPosition (stream_emit ?D rp)) 7) = int (length ?D + 7)"
      "int_ck (int (length ?D + 7) + 1024) = Some (int c)" "to_size (int c) = c"
    using holdsD(2) [OF H2] D(1) by (simp_all add: sz_add_def SIZE_MOD_def to_int_small int_ck_def INT_LIM_def c_def to_size_def)
  obtain s where s: "mcs_stream E 2 c = Some s" "fresh_stream c s"
    using env_okE [OF assms(1), of c 2] D(1) by (auto simp: c_def)
  have p: "response_body m' ?D = response_body m ?D"
    by (simp_all add: m'_def response_body_def)
  have c: "60 + length ?D \<le> c" "c < 60000" "c < 65536" using D(1) by (simp_all add: c_def)
  have "7 + length (connect_enc MCS_TYPE_CONNECT_RESPONSE (response_body m' ?D)) \<le> c"
    using length_connect_enc [of MCS_TYPE_CONNECT_RESPONSE "response_body m' ?D"] length_response_body [of m' ?D] by (simp add: c_def)
  from frame_pdu_ok [OF s(2) bputs_connect_response [OF assms(1) H2 c(1,2)] this c(3)] obtain s' where
    s': "mcs_frame_pdu (mcs_write_connect_response E m' (stream_emit ?D rp)) s = Some (True, s')" "sealed_with (response_enc m) s'"
    by (auto simp: response_enc_def p)
  then show ?thesis
    using sd(1) rp(1) w1 w2 n s(1) cap by (simp add: mcs_connect_response_pdu_def m'_def Let_def)
qed

lemma gets_response_head:
  assumes "length body < 0x10000"
  shows "gets LIM31 connect_response_head (tpkt_enc l @ tpdu_enc 2 X224_TPDU_DATA @ ber_enc_application MCS_TYPE_CONNECT_RESPONSE (int (length body)) @ result_enc)
     (length (tpkt_enc l @ tpdu_enc 2 X224_TPDU_DATA @ ber_enc_application MCS_TYPE_CONNECT_RESPONSE (int (length body)) @ result_enc)) (Some 0)"
proof -
  have v: "ber_length_valid (int (length body))" using assms by (simp add: ber_length_valid_def)
  have e: "parses LIM31 (ber_read_enumerated MCS_Result_enum_length) (ber_enc_primitive BER_TAG_ENUMERATED [0]) 0"
    using ber_enumerated.reads [of 0 MCS_Result_enum_length] by (simp add: parses_def BLOCK_MAX_def MCS_Result_enum_length_def)
  have i: "parses LIM31 (ber_read_integer True) (ber_enc_integer 0) (Some 0)" by (rule parses_ber_integer) simp
  show ?thesis
    unfolding connect_response_head_def [abs_def]
    apply (rule gets_cong)
      apply (rule gets_tpkt)
      apply (rule gets_try, rule parses_tpdu_data)
      apply (rule gets_try, rule parses_application [OF v])
      apply (rule gets_try, rule e)
      apply (rule gets_parses, rule i)
     apply (simp_all add: result_enc_def length_x224_data)
    done
qed

lemma recv_connect_response_ok:
  assumes bs: "sblocks_effect E bs (mc\<lparr>mcs_domainParameters := mcs_domainParameters ms\<rparr>) mc'"
    and p: "params_valid (mcs_domainParameters ms)" and b: "length (blocks_enc bs) < 20000"
    and D: "D = response_frame (length (blocks_enc bs)) @ blocks_enc bs"
    and s: "stream_wf s" "int (st_length s) < INT_LIM"
      "st_rest s = x224_data (connect_enc MCS_TYPE_CONNECT_RESPONSE (response_body ms D)) @ ts"
  shows "\<exists>s'. mcs_recv_connect_response E mc s = Some (True, mc', s')"
proof -
  have lD: "length D < 30000" "length (response_body ms D) < 0x10000"
    using b length_response_frame [of "length (blocks_enc bs)"] length_response_body [of ms D] by (simp_all add: D)
  let ?l = "of_nat (7 + length (connect_enc MCS_TYPE_CONNECT_RESPONSE (response_body ms D))) :: u16"
  let ?H = "tpkt_enc ?l @ tpdu_enc 2 X224_TPDU_DATA @ ber_enc_application MCS_TYPE_CONNECT_RESPONSE (int (length (response_body ms D))) @ result_enc"
  let ?p = "params_enc (mcs_domainParameters ms)"
  let ?o = "ber_tag BER_CLASS_UNIV BER_TAG_OCTET_STRING False # ber_enc_length (int (length D))"
  have r: "st_rest s = ?H @ ?p @ ?o @ D @ ts"
    using s(3) by (simp add: x224_data_def connect_enc_def response_body_def ber_enc_primitive_def)
  have lim: "length (st_rest (stream_skip k s)) < LIM31" for k using s(1,2) by (simp add: length_st_rest INT_LIM_def)
  define k1 k2 k3 where "k1 = length ?H" and "k2 = k1 + length ?p" and "k3 = k2 + length ?o"
  have R: "st_rest (stream_skip k1 s) = ?p @ ?o @ D @ ts" "st_rest (stream_skip k2 s) = ?o @ D @ ts" "st_rest (stream_skip k3 s) = D @ ts"
    unfolding k3_def k2_def k1_def by (simp_all add: r)
  have K: "stream_wf (stream_skip k1 s)" "stream_wf (stream_skip k2 s)" "stream_wf (stream_skip k3 s)"
    by (rule stream_wf_skip [OF s(1)], simp add: k3_def k2_def k1_def r)+
  have h: "connect_response_head s = Some (Some (Some 0), stream_skip k1 s)"
    using getsD [OF gets_response_head [OF lD(2)] s(1) _ r] lim [of 0] by (simp add: k1_def)
  have P: "mcs_read_domain_parameters a (stream_skip k1 s) = Some (True, mcs_domainParameters ms, stream_skip k2 s)" for a
    using read_domain_parameters [OF p K(1) lim R(1)] by (simp add: k2_def)
  have o: "ber_read_octet_string_tag (stream_skip k2 s) = Some (Some (int (length D)), stream_skip k3 s)"
    using parsesD [OF octet_front K(2) lim R(2)] lD(1) by (simp add: k3_def)
  have st: "int (st_length (stream_skip k3 s)) < INT_LIM" "length (blocks_enc bs) < 0x8000" using s(2) b by (simp_all add: stream_skip_def)
  have c: "\<exists>n. gcc_read_conference_create_response E (mc\<lparr>mcs_domainParameters := mcs_domainParameters ms\<rparr>) (stream_skip k3 s) =
      Some (True, mc', stream_skip n (stream_skip k3 s))"
    using response_arrives [OF bs K(3) st] R(3) D by auto
  then show ?thesis
    unfolding mcs_recv_connect_response_def by (auto simp: h P o Let_def)
qed

end
