(* ===== verification/McsConnect.thy ===== *)
theory McsConnect
  imports McsWire
begin

unbundle bit_operations_syntax

text \<open>
  The connection of a client and a server at the level of MCS: the merging of the parameters, and
  the exchange of the two connect PDUs, after which both sides have the same channels.
\<close>

section \<open>Channels of the client\<close>

definition def_channel :: "CHANNEL_DEF \<Rightarrow> rdpMcsChannel" where
  "def_channel d = \<lparr>ch_Name = cd_name d, ch_options = cd_options d, ch_ChannelId = 0, ch_joined = False\<rparr>"

lemma copy_channels_ok:
  assumes "length pd = length pc" "\<And>d. d \<in> set ds \<Longrightarrow> length (cd_name d) = 8"
  shows "copy_channels (pd @ ds @ qd) (length pd) (length ds) (pc @ replicate (length ds) channel_zero @ qc) =
     Some (pc @ map def_channel ds @ qc)"
  using assms
proof (induction ds arbitrary: pd pc)
  case Nil
  then show ?case by simp
next
  case (Cons d ds)
  have g: "arr_get (pd @ (d # ds) @ qd) (length pd) = Some d"
      "arr_get (pc @ replicate (length (d # ds)) channel_zero @ qc) (length pd) = Some channel_zero"
    using Cons.prems(1) by (simp_all add: arr_get_def nth_append)
  have n: "mem_read (cd_name d) 0 8 = Some (cd_name d)" "mem_write (ch_Name channel_zero) 0 (cd_name d) = Some (cd_name d)"
    using Cons.prems(2) by (simp_all add: mem_read_def mem_write_def channel_zero_def)
  have s: "arr_set (pc @ replicate (length (d # ds)) channel_zero @ qc) (length pd) (def_channel d) =
      Some ((pc @ [def_channel d]) @ replicate (length ds) channel_zero @ qc)"
    using Cons.prems(1) by (simp add: arr_set_def list_update_append)
  have "channel_zero\<lparr>ch_Name := cd_name d, ch_options := cd_options d\<rparr> = def_channel d"
    by (simp add: channel_zero_def def_channel_def)
  then show ?case
    using g n s Cons.IH [of "pd @ [d]" "pc @ [def_channel d]"] Cons.prems by simp
qed

text \<open>The settings of a client with at most 16 channels and one monitor, whose names can be converted.\<close>

definition client_settings_ok :: "gcc_env \<Rightarrow> gcc_settings \<Rightarrow> bool" where
  "client_settings_ok E se \<longleftrightarrow> names_valid E se \<and> unat (se_ChannelCount se) \<le> 16 \<and>
     unat (se_ChannelCount se) \<le> length (se_ChannelDefArray se) \<and> (\<forall>d \<in> set (se_ChannelDefArray se). length (cd_name d) = 8) \<and>
     \<not> multimon se"

definition client_channels :: "gcc_settings \<Rightarrow> rdpMcsChannel list" where
  "client_channels se = map def_channel (take (unat (se_ChannelCount se)) (se_ChannelDefArray se))"

lemma client_channels_ok:
  assumes "mcs_new True True t se = Some m" "client_settings_ok E se"
  shows "mcs_initialize_client_channels se m = Some (m\<lparr>mcs_channelCount := se_ChannelCount se,
      mcs_channels := client_channels se @ replicate (30 - unat (se_ChannelCount se)) channel_zero\<rparr>)"
    "length (client_channels se) = unat (se_ChannelCount se)" "\<And>c. c \<in> set (client_channels se) \<Longrightarrow> length (ch_Name c) = 8"
proof -
  let ?n = "unat (se_ChannelCount se)"
  have n: "?n \<le> 16" "?n \<le> length (se_ChannelDefArray se)" "\<And>d. d \<in> set (se_ChannelDefArray se) \<Longrightarrow> length (cd_name d) = 8"
    using assms(2) by (auto simp: client_settings_ok_def)
  show l: "length (client_channels se) = ?n" using n(2) by (simp add: client_channels_def)
  show "\<And>c. c \<in> set (client_channels se) \<Longrightarrow> length (ch_Name c) = 8"
    using n(3) by (auto simp: client_channels_def def_channel_def dest: in_set_takeD)
  have m: "mcs_channelMaxCount m = 30" "mcs_channels m = replicate 30 channel_zero"
    using assms(1) by (auto simp: mcs_new_def CHANNEL_MAX_COUNT_def)
  have "\<not> se_ChannelCount se > 30" using n(1) by (simp add: word_less_nat_alt)
  moreover have "mem_write (replicate 30 channel_zero) 0 (replicate 30 channel_zero) = Some (replicate 30 channel_zero)"
    by (simp add: mem_write_def)
  moreover have "copy_channels (se_ChannelDefArray se) 0 ?n (replicate 30 channel_zero) =
      Some (client_channels se @ replicate (30 - ?n) channel_zero)"
  proof -
    have r: "replicate 30 channel_zero = replicate ?n channel_zero @ replicate (30 - ?n) channel_zero"
      using n(1) by (simp add: replicate_add [symmetric])
    have d: "se_ChannelDefArray se = take ?n (se_ChannelDefArray se) @ drop ?n (se_ChannelDefArray se)" by simp
    have k: "length (take ?n (se_ChannelDefArray se)) = ?n" using n(2) by simp
    have "\<And>d. d \<in> set (take ?n (se_ChannelDefArray se)) \<Longrightarrow> length (cd_name d) = 8" using n(3) by (auto dest: in_set_takeD)
    from copy_channels_ok [of "[]" "[]" "take ?n (se_ChannelDefArray se)" "drop ?n (se_ChannelDefArray se)" "replicate (30 - ?n) channel_zero", OF _ this]
    show ?thesis unfolding k client_channels_def by (simp flip: r d)
  qed
  ultimately show "mcs_initialize_client_channels se m = Some (m\<lparr>mcs_channelCount := se_ChannelCount se,
      mcs_channels := client_channels se @ replicate (30 - ?n) channel_zero\<rparr>)"
    by (simp add: mcs_initialize_client_channels_def m Let_def)
qed

section \<open>Merging\<close>

text \<open>The parameters with which FreeRDP creates its state, as the server merges them.\<close>

definition merged_parameters :: DomainParameters where
  "merged_parameters = \<lparr>dp_maxChannelIds = 34, dp_maxUserIds = 3, dp_maxTokenIds = 0, dp_numPriorities = 1, dp_minThroughput = 0,
     dp_maxHeight = 1, dp_maxMCSPDUsize = 65528, dp_protocolVersion = 2\<rparr>"

lemma merged_new:
  assumes "mcs_new True True t se = Some m"
  shows "merged m out = (True, merged_parameters)" "params_ok m" "params_valid merged_parameters"
proof -
  have p: "mcs_targetParameters m = mcs_init_domain_parameters 34 2 0 0xFFFF" "mcs_minimumParameters m = mcs_init_domain_parameters 1 1 1 0x420"
      "mcs_maximumParameters m = mcs_init_domain_parameters 0xFFFF 0xFC17 0xFFFF 0xFFFF"
    using assms by (auto simp: mcs_new_def)
  show "merged m out = (True, merged_parameters)"
    by (simp add: merged_def p mcs_init_domain_parameters_def mcs_merge_domain_parameters_def merged_parameters_def Let_def)
  show "params_ok m" "params_valid merged_parameters"
    by (simp_all add: params_ok_def params_valid_def parameter_values_def p mcs_init_domain_parameters_def merged_parameters_def)
qed

section \<open>The exchange of the connect PDUs\<close>

text \<open>
  The client and the server know the same channels: names and options are those of the client's
  settings, and the identifiers are the numbers behind the global channel. The message channel, if
  there is one, comes behind them.
\<close>

definition channels_agree :: "gcc_settings \<Rightarrow> 'w rdpMcs \<Rightarrow> 'v rdpMcs \<Rightarrow> bool" where
  "channels_agree cl mc ms \<longleftrightarrow> (let n = unat (se_ChannelCount cl) in
     mcs_channelCount mc = se_ChannelCount cl \<and> mcs_channelCount ms = se_ChannelCount cl \<and>
     n \<le> length (mcs_channels mc) \<and> n \<le> length (mcs_channels ms) \<and>
     (\<forall>i < n. ch_ChannelId (mcs_channels mc ! i) = 1004 + int i \<and> ch_ChannelId (mcs_channels ms ! i) = 1004 + int i \<and>
        ch_Name (mcs_channels ms ! i) = cd_name (se_ChannelDefArray cl ! i) \<and>
        ch_options (mcs_channels ms ! i) = cd_options (se_ChannelDefArray cl ! i) \<and>
        ch_Name (mcs_channels mc ! i) = ch_Name (mcs_channels ms ! i) \<and>
        ch_options (mcs_channels mc ! i) = ch_options (mcs_channels ms ! i) \<and>
        \<not> ch_joined (mcs_channels mc ! i) \<and> \<not> ch_joined (mcs_channels ms ! i)) \<and>
     mcs_messageChannelId mc = mcs_messageChannelId ms \<and>
     mcs_messageChannelId ms = (if extended cl \<and> msg_wanted cl then 1004 + ucast (se_ChannelCount cl) else 0) \<and>
     mcs_baseChannelId ms = 1004 + ucast (se_ChannelCount cl) + (if extended cl \<and> msg_wanted cl then 1 else 0))"

lemma channel_id_value:
  assumes "i < (16 :: nat)"
  shows "uint (1004 + of_nat i :: u16) = 1004 + int i" "uint (word_of_int (1004 + int i) :: u16) = 1004 + int i"
proof -
  have "unat (1004 + of_nat i :: u16) = 1004 + i" unfolding unat_word_ariths unat_of_nat using assms by simp
  from arg_cong [OF this, of int] show u: "uint (1004 + of_nat i :: u16) = 1004 + int i" by simp
  then show "uint (word_of_int (1004 + int i) :: u16) = 1004 + int i" by simp
qed

lemma recv_channels_rest:
  assumes "length ds \<le> j" "j < length cs"
  shows "recv_channels b ds cs ! j = cs ! j"
  using assms by (induction b ds cs arbitrary: j rule: recv_channels.induct) (auto simp: nth_Cons')

lemma length_initial_enc:
  assumes "client_ok E mc"
  shows "length (initial_enc E mc) < 1000" "initial_enc E mc \<noteq> []"
proof -
  show "length (initial_enc E mc) < 1000"
    using length_connect_enc [of MCS_TYPE_CONNECT_INITIAL "initial_body mc (request_enc E mc)"]
      length_initial_body [of mc "request_enc E mc"] length_request_enc [OF assms]
    by (simp add: initial_enc_def length_x224_data)
  have "length (initial_enc E mc) \<noteq> 0" by (simp add: initial_enc_def length_x224_data)
  then show "initial_enc E mc \<noteq> []" by auto
qed

lemma length_response_enc:
  assumes "server_ok ms"
  shows "length (response_enc ms) < 1000" "response_enc ms \<noteq> []"
proof -
  show "length (response_enc ms) < 1000"
    using length_connect_enc [of MCS_TYPE_CONNECT_RESPONSE "response_body ms (answer_enc ms)"] length_server_blocks [OF assms]
      length_response_body [of ms "answer_enc ms"] length_response_frame [of "length (blocks_enc (server_blocks ms))"]
    by (simp add: response_enc_def length_x224_data answer_enc_def)
  have "length (response_enc ms) \<noteq> 0" by (simp add: response_enc_def length_x224_data)
  then show "response_enc ms \<noteq> []" by auto
qed

text \<open>The first half: the server reads the PDU of the client.\<close>

lemma connect_initial_read:
  assumes "mcs_new True True ts sv = Some ms" "client_ok Ec mc" "params_ok mc"
    and E: "\<And>w. ge_ConvertFromUnicode Es w \<noteq> None" and "server_ready mc ms"
  shows "\<exists>ms' s'. mcs_recv_connect_initial Es ms (stream_of (initial_enc Ec mc)) =
      Some (fst (merged mc (mcs_domainParameters ms)), ms'\<lparr>mcs_domainParameters := snd (merged mc (mcs_domainParameters ms))\<rparr>, s') \<and>
    client_described mc ms ms' \<and> mcs_frame (ms\<lparr>mcs_targetParameters := mcs_targetParameters mc, mcs_minimumParameters := mcs_minimumParameters mc,
      mcs_maximumParameters := mcs_maximumParameters mc\<rparr>) ms'"
proof -
  define m0 where "m0 = ms\<lparr>mcs_targetParameters := mcs_targetParameters mc, mcs_minimumParameters := mcs_minimumParameters mc,
      mcs_maximumParameters := mcs_maximumParameters mc\<rparr>"
  have "server_ready mc m0" using assms(5) by (simp add: m0_def server_ready_def)
  then obtain ms' where e: "blocks_effect Es (client_blocks Ec mc) m0 ms'" "client_described mc m0 ms'" "mcs_frame m0 ms'"
    using client_blocks_effect [OF E assms(2)] by blast
  have b: "length (blocks_enc (client_blocks Ec mc)) < 20000" using length_client_blocks [OF assms(2)] by simp
  note l = length_initial_enc(1) [OF assms(2)]
  have s: "stream_wf (stream_of (initial_enc Ec mc))" "int (st_length (stream_of (initial_enc Ec mc))) < INT_LIM"
      "st_rest (stream_of (initial_enc Ec mc)) = x224_data (connect_enc MCS_TYPE_CONNECT_INITIAL (initial_body mc (request_enc Ec mc))) @ []"
    using l by (simp add: BLOCK_MAX_def) (use l in \<open>simp add: stream_of_def INT_LIM_def\<close>, simp add: initial_enc_def)
  have "client_described mc ms ms'" using e(2) by (simp add: client_described_def m0_def Let_def)
  then show ?thesis
    using recv_connect_initial_ok [OF e(1,3) [unfolded m0_def] assms(3) b _ s] e(3) by (auto simp: request_enc_def m0_def)
qed

text \<open>The second half: the client reads the answer.\<close>

lemma connect_response_read:
  assumes "server_ok ms" "params_valid (mcs_domainParameters ms)" "mcs_channelCount mc = mcs_channelCount ms"
    "unat (mcs_channelCount ms) \<le> length (mcs_channels mc)"
  shows "\<exists>s'. mcs_recv_connect_response E mc (stream_of (response_enc ms)) =
      Some (True, server_answered ms (mc\<lparr>mcs_domainParameters := mcs_domainParameters ms\<rparr>), s')"
proof -
  have e: "sblocks_effect E (server_blocks ms) (mc\<lparr>mcs_domainParameters := mcs_domainParameters ms\<rparr>)
      (server_answered ms (mc\<lparr>mcs_domainParameters := mcs_domainParameters ms\<rparr>))"
    by (rule server_blocks_effect [OF assms(1)]) (use assms in simp_all)
  have l: "length (response_enc ms) < 1000" "length (blocks_enc (server_blocks ms)) < 20000"
    using length_response_enc(1) [OF assms(1)] length_server_blocks [OF assms(1)] by simp_all
  have s: "stream_wf (stream_of (response_enc ms))" "int (st_length (stream_of (response_enc ms))) < INT_LIM"
      "st_rest (stream_of (response_enc ms)) = x224_data (connect_enc MCS_TYPE_CONNECT_RESPONSE (response_body ms (answer_enc ms))) @ []"
    using l(1) by (simp add: BLOCK_MAX_def) (use l(1) in \<open>simp add: stream_of_def INT_LIM_def\<close>, simp add: response_enc_def)
  show ?thesis by (rule recv_connect_response_ok [OF e assms(2) l(2) answer_enc_def s])
qed

text \<open>The channels of the two sides after each half.\<close>

lemma recv_channels_names:
  assumes "length ds \<le> length cs" "\<And>d. d \<in> set ds \<Longrightarrow> length (ch_Name d) = 8" "\<And>c. c \<in> set cs \<Longrightarrow> length (ch_Name c) = 8"
    "c \<in> set (recv_channels b ds cs)"
  shows "length (ch_Name c) = 8"
proof -
  obtain j where j: "j < length cs" "c = recv_channels b ds cs ! j" using assms(4) by (auto simp: in_set_conv_nth)
  show ?thesis
    using j assms(1-3) recv_channels_nth(1) [of j ds cs b] recv_channels_rest [of ds j cs b] by (cases "j < length ds") simp_all
qed

definition server_channels :: "gcc_settings \<Rightarrow> 'v rdpMcs \<Rightarrow> bool" where
  "server_channels cl ms \<longleftrightarrow> mcs_channelCount ms = se_ChannelCount cl \<and>
     mcs_channels ms = recv_channels 1004 (client_channels cl) (replicate 30 channel_zero) \<and>
     mcs_messageChannelId ms = (if extended cl \<and> msg_wanted cl then 1004 + ucast (se_ChannelCount cl) else 0) \<and>
     mcs_baseChannelId ms = 1004 + ucast (se_ChannelCount cl) + (if extended cl \<and> msg_wanted cl then 1 else 0)"

lemma server_channels_ok:
  assumes "server_channels cl ms" "mcs_new True True tc cl = Some mc0" "client_settings_ok E cl"
  shows "channels_ok ms" "unat (mcs_channelCount ms) \<le> 16"
proof -
  note C = client_channels_ok(2,3) [OF assms(2,3)]
  have n: "unat (se_ChannelCount cl) \<le> 16" using assms(3) by (simp add: client_settings_ok_def)
  then show "unat (mcs_channelCount ms) \<le> 16" using assms(1) by (simp add: server_channels_def)
  have "length (ch_Name c) = 8" if c: "c \<in> set (mcs_channels ms)" for c
    by (rule recv_channels_names [of "client_channels cl" "replicate 30 channel_zero" c 1004])
       (use C n c assms(1) in \<open>auto simp: server_channels_def channel_zero_def\<close>)
  then show "channels_ok ms" using assms(1) n by (auto simp: channels_ok_def server_channels_def)
qed

definition client_sent :: "gcc_settings \<Rightarrow> 'w rdpMcs \<Rightarrow> bool" where
  "client_sent cl mc \<longleftrightarrow> mcs_channelCount mc = se_ChannelCount cl \<and> mcs_messageChannelId mc = 0 \<and>
     mcs_channels mc = client_channels cl @ replicate (30 - unat (se_ChannelCount cl)) channel_zero"

lemma channels_agree_answer:
  assumes S: "server_channels cl ms" and K: "client_sent cl mc" and "mcs_new True True tc cl = Some mc0" "client_settings_ok E cl"
  shows "channels_agree cl (server_answered ms mc) (ms\<lparr>mcs_settings := se\<rparr>)"
proof -
  let ?n = "unat (se_ChannelCount cl)"
  note C = client_channels_ok(2,3) [OF assms(3,4)]
  have n: "?n \<le> 16" using assms(4) by (simp add: client_settings_ok_def)
  have d: "mcs_channelCount ms = se_ChannelCount cl" "mcs_channels ms = recv_channels 1004 (client_channels cl) (replicate 30 channel_zero)"
    using S by (simp_all add: server_channels_def)
  have m: "length (mcs_channels mc) = 30" "j < ?n \<Longrightarrow> mcs_channels mc ! j = client_channels cl ! j" for j
    using K C(1) n by (simp_all add: client_sent_def nth_append)
  have su: "length (channels_used ms) = ?n" "j < ?n \<Longrightarrow> channels_used ms ! j = mcs_channels ms ! j" for j
    using d n by (simp_all add: channels_used_def)
  show ?thesis unfolding channels_agree_def Let_def
  proof (intro conjI allI impI)
    fix j assume j: "j < ?n"
    have dj: "client_channels cl ! j = def_channel (se_ChannelDefArray cl ! j)" using j C(1) by (simp add: client_channels_def)
    have i: "j < length (client_channels cl)" "length (client_channels cl) \<le> length (replicate 30 channel_zero)"
        "j < length (channels_used ms)" "length (channels_used ms) \<le> length (mcs_channels mc)"
      using j C(1) n su(1) m(1) by simp_all
    note A = take_ids_nth [OF i(3,4)] and R = recv_channels_nth [OF i(1,2), of 1004] and V = channel_id_value [of j]
    show "ch_ChannelId (mcs_channels (server_answered ms mc) ! j) = 1004 + int j"
      "ch_ChannelId (mcs_channels (ms\<lparr>mcs_settings := se\<rparr>) ! j) = 1004 + int j"
      "ch_Name (mcs_channels (ms\<lparr>mcs_settings := se\<rparr>) ! j) = cd_name (se_ChannelDefArray cl ! j)"
      "ch_options (mcs_channels (ms\<lparr>mcs_settings := se\<rparr>) ! j) = cd_options (se_ChannelDefArray cl ! j)"
      "ch_Name (mcs_channels (server_answered ms mc) ! j) = ch_Name (mcs_channels (ms\<lparr>mcs_settings := se\<rparr>) ! j)"
      "ch_options (mcs_channels (server_answered ms mc) ! j) = ch_options (mcs_channels (ms\<lparr>mcs_settings := se\<rparr>) ! j)"
      "\<not> ch_joined (mcs_channels (server_answered ms mc) ! j)" "\<not> ch_joined (mcs_channels (ms\<lparr>mcs_settings := se\<rparr>) ! j)"
      using A R V su(2) [OF j] m(2) [OF j] dj j n
      by (simp_all add: server_answered_def d(2) def_channel_def channel_zero_def)
  qed (use S K d m n in \<open>simp_all add: server_answered_def server_channels_def client_sent_def\<close>)
qed

section \<open>The three stages of the exchange\<close>

text \<open>The client before and after it has sent its PDU.\<close>

definition client_begun :: "gcc_settings \<Rightarrow> 'w rdpMcs \<Rightarrow> 'w rdpMcs" where
  "client_begun cl m = m\<lparr>mcs_channelCount := se_ChannelCount cl,
     mcs_channels := client_channels cl @ replicate (30 - unat (se_ChannelCount cl)) channel_zero\<rparr>"

definition client_asked :: "gcc_settings \<Rightarrow> 'w rdpMcs \<Rightarrow> 'w rdpMcs" where
  "client_asked cl m = (client_begun cl m)\<lparr>mcs_settings := sent_settings cl\<rparr>"

lemma client_begun_ok:
  assumes "mcs_new True True tc cl = Some mc0" "client_settings_ok E cl"
  shows "mcs_initialize_client_channels cl mc0 = Some (client_begun cl mc0)" "client_ok E (client_begun cl mc0)" "params_ok (client_begun cl mc0)"
    "client_sent cl (client_asked cl mc0)" "length (mcs_channels (client_asked cl mc0)) = 30" "channels_used (client_begun cl mc0) = client_channels cl"
    "mcs_settings (client_begun cl mc0) = cl"
proof -
  note C = client_channels_ok [OF assms]
  have n: "unat (se_ChannelCount cl) \<le> 16" using assms(2) by (simp add: client_settings_ok_def)
  have mc0: "mcs_settings mc0 = cl" "mcs_messageChannelId mc0 = 0" using assms(1) by (auto simp: mcs_new_def)
  show "mcs_initialize_client_channels cl mc0 = Some (client_begun cl mc0)" using C(1) by (simp add: client_begun_def)
  show "client_ok E (client_begun cl mc0)" "params_ok (client_begun cl mc0)"
    using assms(2) C(2,3) n merged_new(2) [OF assms(1)] mc0
    by (auto simp: client_ok_def client_settings_ok_def channels_ok_def client_begun_def params_ok_def channel_zero_def)
  show "client_sent cl (client_asked cl mc0)" "length (mcs_channels (client_asked cl mc0)) = 30" "mcs_settings (client_begun cl mc0) = cl"
      "channels_used (client_begun cl mc0) = client_channels cl"
    using C(2) n mc0 by (simp_all add: client_asked_def client_begun_def client_sent_def channels_used_def)
qed

lemma client_asks:
  assumes "env_ok E" "mcs_new True True tc cl = Some mc0" "client_settings_ok (me_gcc E) cl"
  shows "\<exists>s. mcs_connect_initial_pdu E (client_begun cl mc0) = Some (Some s, client_asked cl mc0) \<and>
     sealed_with (initial_enc (me_gcc E) (client_begun cl mc0)) s"
  using connect_initial_pdu_ok [OF assms(1) client_begun_ok(2,3) [OF assms(2,3)]] client_begun_ok(7) [OF assms(2,3)]
  by (simp add: client_asked_def)

text \<open>The server between its two PDUs: what it knows of the client, and that its answer fits.\<close>

definition server_joined :: "gcc_settings \<Rightarrow> gcc_settings \<Rightarrow> 'w rdpMcs \<Rightarrow> 'w rdpMcs \<Rightarrow> bool" where
  "server_joined cl sv ms0 ms \<longleftrightarrow> core_arrived cl sv (mcs_settings ms) \<and> server_channels cl ms \<and> server_ok ms \<and>
     mcs_domainParameters ms = merged_parameters \<and> mcs_transport ms = mcs_transport ms0 \<and>
     \<not> mcs_userChannelJoined ms \<and> \<not> mcs_globalChannelJoined ms \<and> \<not> mcs_messageChannelJoined ms"

lemma server_accepts:
  assumes "mcs_new True True tc cl = Some mc0" "mcs_new True True ts sv = Some ms0"
    and "client_settings_ok Ec cl" "names_room sv" "\<not> se_UseRdpSecurityLayer sv" "se_SelectedProtocol sv = se_SelectedProtocol cl"
    and E: "\<And>w. ge_ConvertFromUnicode Es w \<noteq> None"
  shows "\<exists>ms t. mcs_recv_connect_initial Es ms0 (stream_of (initial_enc Ec (client_begun cl mc0))) = Some (True, ms, t) \<and> server_joined cl sv ms0 ms"
proof -
  let ?mc = "client_begun cl mc0"
  note C = client_begun_ok [OF assms(1,3)]
  have ms0: "mcs_settings ms0 = sv" "mcs_baseChannelId ms0 = 1004" "mcs_channels ms0 = replicate 30 channel_zero" "mcs_channelCount ms0 = 0"
      "mcs_messageChannelId ms0 = 0" "\<not> mcs_userChannelJoined ms0" "\<not> mcs_globalChannelJoined ms0" "\<not> mcs_messageChannelJoined ms0"
    using assms(2) by (auto simp: mcs_new_def CHANNEL_MAX_COUNT_def MCS_GLOBAL_CHANNEL_ID_def)
  have cc: "mcs_channelCount ?mc = se_ChannelCount cl" by (simp add: client_begun_def)
  have "server_ready ?mc ms0" using assms(3-6) ms0 C(7) by (auto simp: server_ready_def client_begun_def client_settings_ok_def)
  moreover have "merged ?mc out = (True, merged_parameters)" for out
    using merged_new(1) [OF assms(1)] by (simp add: merged_def client_begun_def)
  ultimately obtain m t where r: "mcs_recv_connect_initial Es ms0 (stream_of (initial_enc Ec ?mc)) =
      Some (True, m\<lparr>mcs_domainParameters := merged_parameters\<rparr>, t)" "client_described ?mc ms0 m"
      "mcs_frame (ms0\<lparr>mcs_targetParameters := mcs_targetParameters ?mc, mcs_minimumParameters := mcs_minimumParameters ?mc,
        mcs_maximumParameters := mcs_maximumParameters ?mc\<rparr>) m"
    using connect_initial_read [OF assms(2) C(2,3) E] by fastforce
  define ms where "ms = m\<lparr>mcs_domainParameters := merged_parameters\<rparr>"
  have d: "core_arrived cl sv (mcs_settings ms)" "server_channels cl ms"
    using r(2) C(6,7) ms0 cc by (auto simp: client_described_def Let_def ms_def server_channels_def)
  have "server_ok ms"
    using server_channels_ok [OF d(2) assms(1,3)] d assms(5) by (auto simp: server_ok_def core_arrived_def)
  then have "server_joined cl sv ms0 ms" using d r(3) ms0 by (auto simp: server_joined_def ms_def mcs_frame_def)
  then show ?thesis using r(1) by (auto simp: ms_def)
qed

lemma server_answers_pdu:
  assumes "env_ok E" "server_joined cl sv ms0 ms"
  shows "\<exists>s. mcs_connect_response_pdu E ms = Some (Some s, ms\<lparr>mcs_settings := no_encryption (mcs_settings ms)\<rparr>) \<and>
     sealed_with (response_enc ms) s"
  using connect_response_pdu_ok [OF assms(1), of ms] assms(2) by (simp add: server_joined_def)

text \<open>The client that gets the answer; only its transport may have changed.\<close>

definition client_done :: "'v rdpMcs \<Rightarrow> 'w rdpMcs \<Rightarrow> 'w rdpMcs" where
  "client_done ms mc = server_answered ms (mc\<lparr>mcs_domainParameters := merged_parameters\<rparr>)"

lemma client_learns:
  assumes "server_joined cl sv ms0 ms" "mcs_new True True tc cl = Some mc0" "client_settings_ok E cl"
  shows "\<exists>t. mcs_recv_connect_response Ec ((client_asked cl mc0)\<lparr>mcs_transport := tr\<rparr>) (stream_of (response_enc ms)) =
      Some (True, (client_done ms (client_asked cl mc0))\<lparr>mcs_transport := tr\<rparr>, t)"
    "channels_agree cl (client_done ms (client_asked cl mc0)) (ms\<lparr>mcs_settings := se\<rparr>)"
proof -
  let ?m = "client_asked cl mc0"
  note C = client_begun_ok [OF assms(2,3)]
  have s: "server_ok ms" "mcs_domainParameters ms = merged_parameters" "server_channels cl ms" "params_valid merged_parameters"
    using assms(1) merged_new(3) [OF assms(2)] by (simp_all add: server_joined_def)
  have n: "mcs_channelCount ms = se_ChannelCount cl" "unat (se_ChannelCount cl) \<le> 30" "mcs_channelCount ?m = se_ChannelCount cl"
    using s(3) assms(3) C(4) by (auto simp: server_channels_def client_settings_ok_def client_sent_def)
  have e: "server_answered ms (m\<lparr>mcs_transport := tr, mcs_domainParameters := merged_parameters\<rparr>) = (client_done ms m)\<lparr>mcs_transport := tr\<rparr>"
    for m by (cases m) (simp add: client_done_def server_answered_def)
  show "\<exists>t. mcs_recv_connect_response Ec (?m\<lparr>mcs_transport := tr\<rparr>) (stream_of (response_enc ms)) =
      Some (True, (client_done ms ?m)\<lparr>mcs_transport := tr\<rparr>, t)"
    using connect_response_read [OF s(1), of "?m\<lparr>mcs_transport := tr\<rparr>" Ec] s(2,4) n C(5) e by simp
  have "client_sent cl (?m\<lparr>mcs_domainParameters := merged_parameters\<rparr>)" using C(4) by (simp add: client_sent_def)
  from channels_agree_answer [OF s(3) this assms(2,3)]
  show "channels_agree cl (client_done ms ?m) (ms\<lparr>mcs_settings := se\<rparr>)" by (simp add: client_done_def)
qed

section \<open>Properties\<close>

text \<open>
  C5: a client and a server, both created with \<^verbatim>\<open>mcs_new\<close>, agree on the channels. The client, with at
  most 16 channels and one monitor, builds the Connect Initial PDU without overrunning its streams;
  the server accepts it, merges the parameters of the domain and builds the Connect Response PDU;
  the client accepts that. Then both have the same channel identifiers, in the order of the settings
  of the client, the same message channel and the same domain parameters, and the capabilities
  that the server keeps are those that both sides have.
\<close>

theorem mcs_connect_agrees:
  assumes "env_ok Ec" "env_ok Es" "mcs_new True True tc cl = Some mc0" "mcs_new True True ts sv = Some ms0"
    and "client_settings_ok (me_gcc Ec) cl" "names_room sv" "\<not> se_UseRdpSecurityLayer sv" "se_SelectedProtocol sv = se_SelectedProtocol cl"
    and "\<And>w. ge_ConvertFromUnicode (me_gcc Es) w \<noteq> None"
  shows "\<exists>mc s1 mc1 d1 ms1 t1 s2 ms2 d2 mc2 t2.
     mcs_initialize_client_channels cl mc0 = Some mc \<and> mcs_connect_initial_pdu Ec mc = Some (Some s1, mc1) \<and> sealed_with d1 s1 \<and>
     mcs_recv_connect_initial (me_gcc Es) ms0 (stream_of d1) = Some (True, ms1, t1) \<and>
     mcs_connect_response_pdu Es ms1 = Some (Some s2, ms2) \<and> sealed_with d2 s2 \<and>
     mcs_recv_connect_response (me_gcc Ec) mc1 (stream_of d2) = Some (True, mc2, t2) \<and>
     channels_agree cl mc2 ms2 \<and> mcs_domainParameters mc2 = merged_parameters \<and> mcs_domainParameters ms2 = merged_parameters \<and>
     core_arrived cl sv (mcs_settings ms1)"
proof -
  obtain ms t1 where r: "mcs_recv_connect_initial (me_gcc Es) ms0 (stream_of (initial_enc (me_gcc Ec) (client_begun cl mc0))) = Some (True, ms, t1)"
      "server_joined cl sv ms0 ms"
    using server_accepts [OF assms(3-8,9)] by auto
  obtain s1 where s1: "mcs_connect_initial_pdu Ec (client_begun cl mc0) = Some (Some s1, client_asked cl mc0)"
      "sealed_with (initial_enc (me_gcc Ec) (client_begun cl mc0)) s1"
    using client_asks [OF assms(1,3,5)] by auto
  obtain s2 where s2: "mcs_connect_response_pdu Es ms = Some (Some s2, ms\<lparr>mcs_settings := no_encryption (mcs_settings ms)\<rparr>)"
      "sealed_with (response_enc ms) s2"
    using server_answers_pdu [OF assms(2) r(2)] by auto
  obtain t2 where r2: "mcs_recv_connect_response (me_gcc Ec) (client_asked cl mc0) (stream_of (response_enc ms)) =
      Some (True, client_done ms (client_asked cl mc0), t2)"
    using client_learns(1) [OF r(2) assms(3,5), of "me_gcc Ec" "mcs_transport (client_asked cl mc0)"]
    by (auto simp: client_done_def server_answered_def)
  have "mcs_domainParameters (client_done ms (client_asked cl mc0)) = merged_parameters"
    "mcs_domainParameters (ms\<lparr>mcs_settings := no_encryption (mcs_settings ms)\<rparr>) = merged_parameters" "core_arrived cl sv (mcs_settings ms)"
    using r(2) by (simp_all add: client_done_def server_answered_def server_joined_def)
  then show ?thesis
    using s1 r s2 r2 client_begun_ok(1) [OF assms(3,5)] client_learns(2) [OF r(2) assms(3,5)] by blast
qed

text \<open>A bus that accepts everything, for the examples.\<close>

definition quiet_bio :: "unit bio" where
  "quiet_bio = \<lparr>BIO_read = (\<lambda>n w. (0, [], w)), BIO_should_retry = (\<lambda>w. True), BIO_wait_read = (\<lambda>w. (0, w)),
     BIO_write = (\<lambda>d w. Some (int (length d), w)), BIO_wait_write = (\<lambda>w. (0, w)), BIO_write_blocked = (\<lambda>w. False),
     BIO_flush = (\<lambda>w. Some (1, w))\<rparr>"

definition mcs_env_sample :: "unit mcs_env" where
  "mcs_env_sample = \<lparr>me_gcc = env_sample, me_bio = quiet_bio, me_struct_ok = (\<lambda>i. True)\<rparr>"

definition client_sample :: gcc_settings where
  "client_sample = settings_zero\<lparr>se_ServerMode := False, se_NegotiationFlags := 1, se_ChannelCount := 2,
     se_ChannelDefArray := [\<lparr>cd_name = [0x72, 0x64, 0x70, 0x64, 0x72, 0, 0, 0], cd_options = 0x80800000\<rparr>,
       \<lparr>cd_name = [0x63, 0x6C, 0x69, 0x70, 0x72, 0x64, 0x72, 0], cd_options = 0xC0A00000\<rparr>]\<rparr>"

lemma mcs_env_sample_ok: "env_ok mcs_env_sample"
  by (auto simp: env_ok_def mcs_env_sample_def env_sample_def Stream_New_def mem_alloc_def ample_def BLOCK_MAX_def)

lemma client_sample_ok: "client_settings_ok env_sample client_sample"
  by (simp add: client_settings_ok_def client_sample_def settings_zero_def names_valid_def wide_valid_def env_sample_def multimon_def length_concat
      map_replicate sum_list_replicate)

theorem mcs_connect_agrees_witness:
  "\<exists>mc s1 mc1 d1 ms1 t1 s2 ms2 d2 mc2 t2.
     mcs_initialize_client_channels client_sample (the (mcs_new True True (mcs_transport mcs_sample) client_sample)) = Some mc \<and>
     mcs_connect_initial_pdu mcs_env_sample mc = Some (Some s1, mc1) \<and> sealed_with d1 s1 \<and>
     mcs_recv_connect_initial (me_gcc mcs_env_sample) (the (mcs_new True True (mcs_transport mcs_sample) settings_zero)) (stream_of d1) = Some (True, ms1, t1) \<and>
     mcs_connect_response_pdu mcs_env_sample ms1 = Some (Some s2, ms2) \<and> sealed_with d2 s2 \<and>
     mcs_recv_connect_response (me_gcc mcs_env_sample) mc1 (stream_of d2) = Some (True, mc2, t2) \<and>
     channels_agree client_sample mc2 ms2 \<and> mcs_domainParameters mc2 = merged_parameters \<and> mcs_domainParameters ms2 = merged_parameters \<and>
     core_arrived client_sample settings_zero (mcs_settings ms1)"
  by (rule mcs_connect_agrees [OF mcs_env_sample_ok mcs_env_sample_ok, of "mcs_transport mcs_sample" client_sample _ "mcs_transport mcs_sample" settings_zero])
     (use client_sample_ok in \<open>simp_all add: mcs_new_def mcs_env_sample_def\<close>,
      simp_all add: client_sample_def settings_zero_def names_room_def env_sample_def)



section \<open>Where it goes wrong\<close>

text \<open>With a target below 1024 the size is the maximum of the client, whatever it is.\<close>

theorem mcs_merge_unbounded:
  "mcs_merge_domain_parameters (mcs_init_domain_parameters 34 3 0 1023) (mcs_init_domain_parameters 1 1 1 0x420)
     (mcs_init_domain_parameters 0xFFFF 0xFC17 0xFFFF 0xFFFFFFFF) out =
   (True, mcs_init_domain_parameters 34 3 0 0xFFFFFFFF)"
  by (cases out) (simp add: mcs_init_domain_parameters_def mcs_merge_domain_parameters_def Let_def)

text \<open>
  A list of 21 channels does not fit in the 512 bytes that \<^verbatim>\<open>mcs_send_connect_initial\<close> allocates for the
  blocks of the client, although 30 channels may be configured: the writers do not check the room.
\<close>

definition advances :: "nat \<Rightarrow> writer \<Rightarrow> bool" where
  "advances n w \<longleftrightarrow> (\<forall>s s'. w s = Some s' \<longrightarrow> st_pointer s \<le> length (st_buffer s) \<longrightarrow>
     st_pointer s' = st_pointer s + n \<and> length (st_buffer s') = length (st_buffer s) \<and> st_pointer s' \<le> length (st_buffer s'))"

lemma advances_bind: "advances n w \<Longrightarrow> advances k v \<Longrightarrow> advances (n + k) (\<lambda>s. w s \<bind> v)"
  by (auto simp: advances_def split: Option.bind_splits) (metis add.assoc)+

lemma advances_Write: "advances (length d) (Stream_Write d)"
  by (auto simp: advances_def Stream_Write_def mem_write_def split: if_splits)

lemma advances_put: "advances 1 (stream_put b)"
  by (auto simp: advances_def stream_put_def arr_set_def split: Option.bind_splits if_splits)

lemma advances_UINT32: "advances 4 (Stream_Write_UINT32 v)"
  using advances_bind [OF advances_put advances_bind [OF advances_put advances_bind [OF advances_put advances_put]]]
  by (simp add: Stream_Write_UINT32_def [abs_def] numeral_eq_Suc)

lemma channel_defs_advance: "advances (12 * n) (write_channel_defs cs i n)"
proof (induction n arbitrary: i)
  case (Suc n)
  have *: "advances (12 * Suc n) (\<lambda>s. Stream_Write d s \<bind> (\<lambda>s. Stream_Write_UINT32 v s \<bind> write_channel_defs cs (i + 1) n))"
    if "length d = 8" for d v
    using advances_bind [OF advances_Write [of d] advances_bind [OF advances_UINT32 [of v] Suc.IH [of "i + 1"]]] that
    by (simp add: numeral_eq_Suc)
  show ?case unfolding advances_def
  proof (intro allI impI)
    fix s s'
    assume s: "write_channel_defs cs i (Suc n) s = Some s'" "st_pointer s \<le> length (st_buffer s)"
    then obtain c where c: "arr_get cs i = Some c" by (auto split: Option.bind_splits)
    then obtain d where d: "mem_read (ch_Name c) 0 8 = Some d" using s by (auto split: Option.bind_splits)
    then have "length d = 8" by (auto simp: mem_read_def split: if_splits)
    moreover have "Stream_Write d s \<bind> (\<lambda>s. Stream_Write_UINT32 (ch_options c) s \<bind> write_channel_defs cs (i + 1) n) = Some s'"
      using s(1) c d by simp
    ultimately show "st_pointer s' = st_pointer s + 12 * Suc n \<and> length (st_buffer s') = length (st_buffer s) \<and> st_pointer s' \<le> length (st_buffer s')"
      using * [of d "ch_options c"] s(2) unfolding advances_def by blast
  qed
qed (simp add: advances_def)

lemma channel_defs_overflow:
  assumes "st_pointer s \<le> length (st_buffer s)" "length (st_buffer s) < st_pointer s + 12 * n"
  shows "write_channel_defs cs i n s = None"
  using channel_defs_advance [of n cs i] assms by (cases "write_channel_defs cs i n s") (fastforce simp: advances_def)+

theorem gcc_client_channels_overflow:
  assumes "names_valid E (mcs_settings m)" "21 \<le> mcs_channelCount m" "stream_wf s" "st_pointer s = 0" "length (st_buffer s) = 512" "st_length s = 512"
  shows "gcc_write_client_data_blocks E m s = None"
proof -
  define m1 where "m1 = m\<lparr>mcs_settings := sent_settings (mcs_settings m)\<rparr>"
  have n: "21 \<le> unat (mcs_channelCount m1)" using assms(2) by (simp add: m1_def word_le_nat_alt)
  let ?b = "core_enc E (mcs_settings m) @ block_enc CS_CLUSTER (cluster_enc (mcs_settings m1)) @ block_enc CS_SECURITY (security_enc (mcs_settings m1)) @
      header_enc CS_NET (ucast (mcs_channelCount m1 * 12 + 8)) @ le_bytes 4 (mcs_channelCount m1)"
  have l: "length ?b = 266"
    using length_core_parts(3) [OF assms(1)] by (simp add: cluster_enc_def security_enc_def header_enc_def)
  have "emits (\<lambda>s. write_seq (core_writers E (mcs_settings m)) s \<bind> (\<lambda>s. gcc_write_client_cluster_data m1 s \<bind>
      (\<lambda>s. gcc_write_client_security_data m1 s \<bind> (\<lambda>s. gcc_write_user_data_header CS_NET (ucast (mcs_channelCount m1 * 12 + 8)) s \<bind>
      Stream_Write_UINT32 (mcs_channelCount m1))))) ?b"
    by (rule emits_bind [OF emits_core [OF assms(1)] emits_bind [OF emits_cluster emits_bind [OF emits_security
        emits_bind [OF emits_header emits_UINT32 refl] refl] refl] refl])
  note W = emitsD [OF this assms(3)]
  have none: "write_channel_defs (mcs_channels m1) 0 (unat (mcs_channelCount m1)) (stream_emit ?b s) = None"
    by (rule channel_defs_overflow) (use n l assms(4,5) in \<open>simp_all add: stream_emit_def\<close>)
  have "write_seq (core_writers E (mcs_settings m)) s \<bind> (\<lambda>s. gcc_write_client_cluster_data m1 s \<bind>
      (\<lambda>s. gcc_write_client_security_data m1 s \<bind> gcc_write_client_network_data m1)) = None"
  proof -
    have "mcs_channelCount m1 > 0" using n by (cases "mcs_channelCount m1 = 0") (simp_all add: word_gt_0)
    then have "gcc_write_client_network_data m1 = (\<lambda>s. (gcc_write_user_data_header CS_NET (ucast (mcs_channelCount m1 * 12 + 8)) s \<bind>
        Stream_Write_UINT32 (mcs_channelCount m1)) \<bind> write_channel_defs (mcs_channels m1) 0 (unat (mcs_channelCount m1)))"
      by (simp add: fun_eq_iff gcc_write_client_network_data_def)
    moreover have "length ?b \<le> length (st_rest s)" using l assms(3,4,6) by (simp add: st_rest_def stream_wf_def)
    ultimately show ?thesis
      using arg_cong [OF W, of "\<lambda>w. w \<bind> write_channel_defs (mcs_channels m1) 0 (unat (mcs_channelCount m1))"] none by simp
  qed
  then show ?thesis unfolding gcc_write_client_data_blocks_def write_core_eq m1_def [symmetric]
    by (auto simp: Let_def map_conv_bind_option comp_def split: Option.bind_splits)
qed

end
