(* ===== verification/Connection.thy ===== *)
theory Connection
  imports Mcs
begin

unbundle bit_operations_syntax

text \<open>
  The connection sequence: the states of \<^verbatim>\<open>libfreerdp/core/connection.h\<close>, the transitions and the MCS
  handlers of \<^verbatim>\<open>connection.c\<close>, and the callbacks that the transport calls with every unit,
  \<^verbatim>\<open>rdp_recv_callback\<close> of a client (\<^verbatim>\<open>rdp.c\<close>) and \<^verbatim>\<open>peer_recv_callback\<close> of a server (\<^verbatim>\<open>peer.c\<close>). The handlers of
  the states that belong to other components are arguments.
\<close>

section \<open>States\<close>

datatype CONNECTION_STATE =
    CONNECTION_STATE_INITIAL
  | CONNECTION_STATE_NEGO
  | CONNECTION_STATE_NLA
  | CONNECTION_STATE_MCS_CONNECT
  | CONNECTION_STATE_MCS_ERECT_DOMAIN
  | CONNECTION_STATE_MCS_ATTACH_USER
  | CONNECTION_STATE_MCS_CHANNEL_JOIN
  | CONNECTION_STATE_RDP_SECURITY_COMMENCEMENT
  | CONNECTION_STATE_SECURE_SETTINGS_EXCHANGE
  | CONNECTION_STATE_CONNECT_TIME_AUTO_DETECT
  | CONNECTION_STATE_LICENSING
  | CONNECTION_STATE_MULTITRANSPORT_BOOTSTRAPPING
  | CONNECTION_STATE_CAPABILITIES_EXCHANGE
  | CONNECTION_STATE_FINALIZATION
  | CONNECTION_STATE_ACTIVE

text \<open>The code compares states as the integers of the enumeration.\<close>

fun state_num :: "CONNECTION_STATE \<Rightarrow> nat" where
  "state_num CONNECTION_STATE_INITIAL = 0"
| "state_num CONNECTION_STATE_NEGO = 1"
| "state_num CONNECTION_STATE_NLA = 2"
| "state_num CONNECTION_STATE_MCS_CONNECT = 3"
| "state_num CONNECTION_STATE_MCS_ERECT_DOMAIN = 4"
| "state_num CONNECTION_STATE_MCS_ATTACH_USER = 5"
| "state_num CONNECTION_STATE_MCS_CHANNEL_JOIN = 6"
| "state_num CONNECTION_STATE_RDP_SECURITY_COMMENCEMENT = 7"
| "state_num CONNECTION_STATE_SECURE_SETTINGS_EXCHANGE = 8"
| "state_num CONNECTION_STATE_CONNECT_TIME_AUTO_DETECT = 9"
| "state_num CONNECTION_STATE_LICENSING = 10"
| "state_num CONNECTION_STATE_MULTITRANSPORT_BOOTSTRAPPING = 11"
| "state_num CONNECTION_STATE_CAPABILITIES_EXCHANGE = 12"
| "state_num CONNECTION_STATE_FINALIZATION = 13"
| "state_num CONNECTION_STATE_ACTIVE = 14"

instantiation CONNECTION_STATE :: linorder
begin

definition less_eq_CONNECTION_STATE :: "CONNECTION_STATE \<Rightarrow> CONNECTION_STATE \<Rightarrow> bool" where
  "less_eq_CONNECTION_STATE a b = (state_num a \<le> state_num b)"

definition less_CONNECTION_STATE :: "CONNECTION_STATE \<Rightarrow> CONNECTION_STATE \<Rightarrow> bool" where
  "less_CONNECTION_STATE a b = (state_num a < state_num b)"

instance
proof
  fix a b :: CONNECTION_STATE
  show "a \<le> b \<Longrightarrow> b \<le> a \<Longrightarrow> a = b"
    by (cases a; cases b) (simp_all add: less_eq_CONNECTION_STATE_def)
qed (auto simp: less_eq_CONNECTION_STATE_def less_CONNECTION_STATE_def)

end

lemmas state_order = less_eq_CONNECTION_STATE_def less_CONNECTION_STATE_def

definition FREERDP_ERROR_MCS_CONNECT_INITIAL_ERROR :: u32 where
  "FREERDP_ERROR_MCS_CONNECT_INITIAL_ERROR = 0x00020007"

definition FINALIZE_SC_COMPLETE :: u32 where "FINALIZE_SC_COMPLETE = 0x0F"

record freerdp_peer =
  pe_connected :: bool
  pe_activated :: bool
  pe_authenticated :: bool

text \<open>
  The part of \<^verbatim>\<open>rdpRdp\<close> that the sequence uses. The peer is that of the context of a server; a client has none.
\<close>

record 'w rdpRdp =
  rdp_state :: CONNECTION_STATE
  rdp_mcs :: "'w rdpMcs"
  rdp_peer :: "freerdp_peer option"
  rdp_finalize_sc_pdus :: u32
  rdp_AwaitCapabilities :: bool
  rdp_LastError :: u32

text \<open>The calls into other components.\<close>

type_synonym 'w rdp_call = "'w rdpRdp \<Rightarrow> (bool \<times> 'w rdpRdp) option"
type_synonym 'w rdp_handler = "'w rdpRdp \<Rightarrow> wStream \<Rightarrow> (int \<times> 'w rdpRdp) option"

record 'w rdp_env =
  re_mcs :: "'w mcs_env"
  re_client_exchange_keys :: "'w rdp_call"
  re_send_client_info :: "'w rdp_call"
  re_auto_detect :: "'w rdpRdp \<Rightarrow> wStream \<Rightarrow> (bool \<times> 'w rdpRdp \<times> wStream) option"
  re_nla_recv_pdu :: "'w rdpRdp \<Rightarrow> wStream \<Rightarrow> (int \<times> bool \<times> 'w rdpRdp) option"
  re_client_license :: "'w rdp_handler"
  re_client_demand_active :: "'w rdp_handler"
  re_recv_pdu :: "'w rdp_handler"
  re_update_reset_state :: "'w rdpRdp \<Rightarrow> 'w rdpRdp"
  re_accept_nego :: "'w rdpRdp \<Rightarrow> wStream \<Rightarrow> (bool \<times> u32 \<times> 'w rdpRdp) option"
  re_copy_identity :: "'w rdpRdp \<Rightarrow> 'w rdpRdp option"
  re_nla_free :: "'w rdpRdp \<Rightarrow> 'w rdpRdp"
  re_Logon :: "(bool \<Rightarrow> 'w rdpRdp \<Rightarrow> bool \<times> 'w rdpRdp) option"
  re_server_establish_keys :: "'w rdpRdp \<Rightarrow> wStream \<Rightarrow> (bool \<times> wStream \<times> 'w rdpRdp) option"
  re_recv_client_info :: "'w rdpRdp \<Rightarrow> wStream option \<Rightarrow> (bool \<times> 'w rdpRdp) option"
  re_send_valid_license :: "'w rdp_call"
  re_Capabilities :: "'w rdpRdp \<Rightarrow> 'w rdpRdp option"
  re_send_demand_active :: "'w rdp_call"
  re_peer_recv_pdu :: "'w rdpRdp \<Rightarrow> wStream option \<Rightarrow> (int \<times> 'w rdpRdp) option"
  re_PostConnect :: "('w rdpRdp \<Rightarrow> bool \<times> 'w rdpRdp) option"
  re_Activate :: "('w rdpRdp \<Rightarrow> bool \<times> 'w rdpRdp) option"

section \<open>Transitions\<close>

definition rdp_client_transition_to_state :: "'w rdp_env \<Rightarrow> CONNECTION_STATE \<Rightarrow> 'w rdpRdp \<Rightarrow> int \<times> 'w rdpRdp" where
  "rdp_client_transition_to_state E st r =
     (let r = r\<lparr>rdp_state := st\<rparr>
      in (0, if st = CONNECTION_STATE_FINALIZATION then (re_update_reset_state E r)\<lparr>rdp_finalize_sc_pdus := 0\<rparr> else r))"

abbreviation set_peer :: "(freerdp_peer \<Rightarrow> freerdp_peer) \<Rightarrow> 'w rdpRdp \<Rightarrow> 'w rdpRdp" where
  "set_peer f r \<equiv> r\<lparr>rdp_peer := map_option f (rdp_peer r)\<rparr>"

abbreviation peer_flag :: "(freerdp_peer \<Rightarrow> bool) \<Rightarrow> 'w rdpRdp \<Rightarrow> bool" where
  "peer_flag f r \<equiv> (case rdp_peer r of None \<Rightarrow> False | Some p \<Rightarrow> f p)"

text \<open>\<^verbatim>\<open>IFCALLRET(cb, flag, client)\<close>: without a callback the flag is left as it is.\<close>

definition peer_callret :: "('w rdpRdp \<Rightarrow> bool \<times> 'w rdpRdp) option \<Rightarrow> (bool \<Rightarrow> freerdp_peer \<Rightarrow> freerdp_peer) \<Rightarrow> 'w rdpRdp \<Rightarrow> 'w rdpRdp" where
  "peer_callret cb upd r = (case cb of None \<Rightarrow> r | Some f \<Rightarrow> (case f r of (b, r) \<Rightarrow> set_peer (upd b) r))"

definition server_activate :: "'w rdp_env \<Rightarrow> 'w rdpRdp \<Rightarrow> int \<times> 'w rdpRdp" where
  "server_activate E r =
     (let r = (if \<not> peer_flag pe_connected r then peer_callret (re_PostConnect E) (\<lambda>b p. p\<lparr>pe_connected := b\<rparr>) r else r)
      in if \<not> peer_flag pe_connected r then (-1, r)
         else if CONNECTION_STATE_ACTIVE \<le> rdp_state r then
           (let r = peer_callret (re_Activate E) (\<lambda>b p. p\<lparr>pe_activated := b\<rparr>) r
            in (if \<not> peer_flag pe_activated r then -1 else 0, r))
         else (0, r))"

text \<open>There is no case for \<^verbatim>\<open>CONNECTION_STATE_NLA\<close>.\<close>

definition rdp_server_transition_to_state :: "'w rdp_env \<Rightarrow> CONNECTION_STATE \<Rightarrow> 'w rdpRdp \<Rightarrow> int \<times> 'w rdpRdp" where
  "rdp_server_transition_to_state E st r =
     (let client = (CONNECTION_STATE_RDP_SECURITY_COMMENCEMENT \<le> rdp_state r \<and> rdp_peer r \<noteq> None);
          r = (if rdp_state r < CONNECTION_STATE_ACTIVE \<and> client then set_peer (\<lambda>p. p\<lparr>pe_activated := False\<rparr>) r else r)
      in if st = CONNECTION_STATE_NLA then (-1, r)
         else let r = r\<lparr>rdp_state := st\<rparr>
              in if st = CONNECTION_STATE_CAPABILITIES_EXCHANGE then (0, r\<lparr>rdp_AwaitCapabilities := False\<rparr>)
                 else if st = CONNECTION_STATE_FINALIZATION then (0, r\<lparr>rdp_finalize_sc_pdus := 0\<rparr>)
                 else if st = CONNECTION_STATE_ACTIVE then
                   (let r = re_update_reset_state E r in if client then server_activate E r else (0, r))
                 else (0, r))"

section \<open>The client\<close>

definition with_mcs :: "('w rdpMcs \<Rightarrow> (bool \<times> 'w rdpMcs) option) \<Rightarrow> 'w rdp_call" where
  "with_mcs f r = do { (ok, m) \<leftarrow> f (rdp_mcs r); Some (ok, r\<lparr>rdp_mcs := m\<rparr>) }"

definition mcs_client_begin :: "'w rdp_env \<Rightarrow> 'w rdp_call" where
  "mcs_client_begin E r = do {
     (ok, r) \<leftarrow> with_mcs (mcs_send_connect_initial (re_mcs E)) r;
     Some (if \<not> ok then (False, if rdp_LastError r = 0 then r\<lparr>rdp_LastError := FREERDP_ERROR_MCS_CONNECT_INITIAL_ERROR\<rparr> else r)
           else (True, snd (rdp_client_transition_to_state E CONNECTION_STATE_MCS_CONNECT r))) }"

text \<open>
  The search for the next channel: it ends at the first one that is not joined, which must be the
  one that is confirmed. The result is \<^verbatim>\<open>FALSE\<close>, or the channels and the index at which the loop was left.
\<close>

fun client_join_loop :: "u16 \<Rightarrow> rdpMcsChannel list \<Rightarrow> nat \<Rightarrow> nat \<Rightarrow> (bool \<times> rdpMcsChannel list \<times> nat) option" where
  "client_join_loop channelId cs i 0 = Some (True, cs, i)"
| "client_join_loop channelId cs i (Suc n) = do {
     c \<leftarrow> arr_get cs i;
     if ch_joined c then client_join_loop channelId cs (i + 1) n
     else if ch_ChannelId c \<noteq> uint channelId then Some (False, cs, i)
     else do {
       cs \<leftarrow> arr_set cs i (c\<lparr>ch_joined := True\<rparr>);
       Some (True, cs, i) } }"

text \<open>The results are \<^verbatim>\<open>FALSE\<close> of the whole handler, and \<^verbatim>\<open>allJoined\<close>.\<close>

definition request_join :: "'w rdp_env \<Rightarrow> u16 \<Rightarrow> bool \<Rightarrow> 'w rdpRdp \<Rightarrow> (bool \<times> bool \<times> 'w rdpRdp) option" where
  "request_join E channelId allJoined r = do {
     (ok, r) \<leftarrow> with_mcs (mcs_send_channel_join_request (re_mcs E) channelId) r;
     Some (ok, allJoined, r) }"

definition request_first :: "'w rdp_env \<Rightarrow> 'w rdpRdp \<Rightarrow> (bool \<times> bool \<times> 'w rdpRdp) option" where
  "request_first E r =
     (if mcs_channelCount (rdp_mcs r) > 0 then do {
        c \<leftarrow> arr_get (mcs_channels (rdp_mcs r)) 0;
        request_join E (word_of_int (ch_ChannelId c)) False r }
      else Some (True, True, r))"

definition client_join :: "'w rdp_env \<Rightarrow> u16 \<Rightarrow> 'w rdpRdp \<Rightarrow> (bool \<times> bool \<times> 'w rdpRdp) option" where
  "client_join E channelId r =
     (let m = rdp_mcs r in
      if \<not> mcs_userChannelJoined m then
        if channelId \<noteq> mcs_userId m then Some (False, True, r)
        else request_join E MCS_GLOBAL_CHANNEL_ID True (r\<lparr>rdp_mcs := m\<lparr>mcs_userChannelJoined := True\<rparr>\<rparr>)
      else if \<not> mcs_globalChannelJoined m then
        if channelId \<noteq> MCS_GLOBAL_CHANNEL_ID then Some (False, True, r)
        else (let r = r\<lparr>rdp_mcs := m\<lparr>mcs_globalChannelJoined := True\<rparr>\<rparr> in
              if mcs_messageChannelId m \<noteq> 0 then request_join E (mcs_messageChannelId m) False r
              else request_first E r)
      else if mcs_messageChannelId m \<noteq> 0 \<and> \<not> mcs_messageChannelJoined m then
        if channelId \<noteq> mcs_messageChannelId m then Some (False, True, r)
        else request_first E (r\<lparr>rdp_mcs := m\<lparr>mcs_messageChannelJoined := True\<rparr>\<rparr>)
      else do {
        (ok, cs, i) \<leftarrow> client_join_loop channelId (mcs_channels m) 0 (unat (mcs_channelCount m));
        let r = r\<lparr>rdp_mcs := m\<lparr>mcs_channels := cs\<rparr>\<rparr>;
        if \<not> ok then Some (False, True, r)
        else (let k = of_nat i + 1 :: u32 in
              if k < mcs_channelCount m then do {
                c \<leftarrow> arr_get cs (unat k);
                request_join E (word_of_int (ch_ChannelId c)) False r }
              else Some (True, True, r)) })"

text \<open>\<^verbatim>\<open>rdp_client_establish_keys\<close>: the exchange itself is an argument.\<close>

definition rdp_client_establish_keys :: "'w rdp_env \<Rightarrow> 'w rdp_call" where
  "rdp_client_establish_keys E r =
     (if \<not> se_UseRdpSecurityLayer (mcs_settings (rdp_mcs r)) then Some (True, r) else re_client_exchange_keys E r)"

definition rdp_client_connect_mcs_channel_join_confirm :: "'w rdp_env \<Rightarrow> wStream \<Rightarrow> 'w rdp_call" where
  "rdp_client_connect_mcs_channel_join_confirm E s r = do {
     (channelId, s) \<leftarrow> mcs_recv_channel_join_confirm s;
     (case channelId of
        None \<Rightarrow> Some (False, r)
      | Some channelId \<Rightarrow> do {
          (ok, allJoined, r) \<leftarrow> client_join E channelId r;
          if \<not> ok then Some (False, r)
          else if mcs_userChannelJoined (rdp_mcs r) \<and> mcs_globalChannelJoined (rdp_mcs r) \<and> allJoined then do {
            (ok, r) \<leftarrow> rdp_client_establish_keys E r;
            if \<not> ok then Some (False, r)
            else do {
              (ok, r) \<leftarrow> re_send_client_info E r;
              Some (if \<not> ok then (False, r)
                    else (True, snd (rdp_client_transition_to_state E CONNECTION_STATE_LICENSING r))) } }
          else Some (True, r) }) }"

text \<open>The three states of MCS in the callback of the client.\<close>

definition recv_mcs_connect :: "'w rdp_env \<Rightarrow> 'w rdp_handler" where
  "recv_mcs_connect E r s = do {
     (ok, m, s) \<leftarrow> mcs_recv_connect_response (me_gcc (re_mcs E)) (rdp_mcs r) s;
     let r = r\<lparr>rdp_mcs := m\<rparr>;
     if \<not> ok then Some (-1, r)
     else do {
       (ok, r) \<leftarrow> with_mcs (mcs_send_erect_domain_request (re_mcs E)) r;
       if \<not> ok then Some (-1, r)
       else do {
         (ok, r) \<leftarrow> with_mcs (mcs_send_attach_user_request (re_mcs E)) r;
         Some (if \<not> ok then (-1, r)
               else (0, snd (rdp_client_transition_to_state E CONNECTION_STATE_MCS_ATTACH_USER r))) } } }"

definition recv_mcs_attach_user :: "'w rdp_env \<Rightarrow> 'w rdp_handler" where
  "recv_mcs_attach_user E r s = do {
     (ok, m, s) \<leftarrow> mcs_recv_attach_user_confirm (rdp_mcs r) s;
     let r = r\<lparr>rdp_mcs := m\<rparr>;
     if \<not> ok then Some (-1, r)
     else do {
       (ok, r) \<leftarrow> with_mcs (mcs_send_channel_join_request (re_mcs E) (mcs_userId m)) r;
       Some (if \<not> ok then (-1, r)
             else (0, snd (rdp_client_transition_to_state E CONNECTION_STATE_MCS_CHANNEL_JOIN r))) } }"

definition recv_nla :: "'w rdp_env \<Rightarrow> 'w rdp_handler" where
  "recv_nla E r s = do {
     (status, auth_info, r) \<leftarrow> re_nla_recv_pdu E r s;
     if status < 1 then Some (-1, r)
     else if auth_info then do {
       let r = r\<lparr>rdp_mcs := (rdp_mcs r)\<lparr>mcs_transport := transport_set_nla_mode (mcs_transport (rdp_mcs r)) False\<rparr>\<rparr>;
       (ok, r) \<leftarrow> mcs_client_begin E r;
       Some (if ok then 0 else -1, r) }
     else Some (0, r) }"

text \<open>
  \<^verbatim>\<open>rdp_recv_callback\<close>. Between the joining of the channels and the active state a unit may be one of the message channel.
\<close>

definition recv_in_state :: "'w rdp_env \<Rightarrow> 'w rdp_handler" where
  "recv_in_state E r s = (case rdp_state r of
       CONNECTION_STATE_NLA \<Rightarrow> recv_nla E r s
     | CONNECTION_STATE_MCS_CONNECT \<Rightarrow> recv_mcs_connect E r s
     | CONNECTION_STATE_MCS_ATTACH_USER \<Rightarrow> recv_mcs_attach_user E r s
     | CONNECTION_STATE_MCS_CHANNEL_JOIN \<Rightarrow> do {
         (ok, r) \<leftarrow> rdp_client_connect_mcs_channel_join_confirm E s r;
         Some (if ok then 0 else -1, r) }
     | CONNECTION_STATE_LICENSING \<Rightarrow> re_client_license E r s
     | CONNECTION_STATE_CAPABILITIES_EXCHANGE \<Rightarrow> re_client_demand_active E r s
     | CONNECTION_STATE_FINALIZATION \<Rightarrow> do {
         (status, r) \<leftarrow> re_recv_pdu E r s;
         Some (if status \<ge> 0 \<and> rdp_finalize_sc_pdus r = FINALIZE_SC_COMPLETE
               then (2, snd (rdp_client_transition_to_state E CONNECTION_STATE_ACTIVE r)) else (status, r)) }
     | CONNECTION_STATE_ACTIVE \<Rightarrow> re_recv_pdu E r s
     | _ \<Rightarrow> Some (-1, r))"

definition rdp_recv_callback :: "'w rdp_env \<Rightarrow> 'w rdp_handler" where
  "rdp_recv_callback E r s =
     (if CONNECTION_STATE_MCS_CHANNEL_JOIN < rdp_state r \<and> rdp_state r < CONNECTION_STATE_ACTIVE then do {
        (done, r, s) \<leftarrow> re_auto_detect E r s;
        if done then Some (0, r) else recv_in_state E r s }
      else recv_in_state E r s)"

section \<open>The server\<close>

definition rdp_server_accept_mcs_connect_initial :: "'w rdp_env \<Rightarrow> wStream \<Rightarrow> 'w rdp_call" where
  "rdp_server_accept_mcs_connect_initial E s r = do {
     (ok, m, s) \<leftarrow> mcs_recv_connect_initial (me_gcc (re_mcs E)) (rdp_mcs r) s;
     let r = r\<lparr>rdp_mcs := m\<rparr>;
     if \<not> ok then Some (False, r)
     else do {
       (ok, r) \<leftarrow> with_mcs (mcs_send_connect_response (re_mcs E)) r;
       Some (if \<not> ok then (False, r) else (True, snd (rdp_server_transition_to_state E CONNECTION_STATE_MCS_CONNECT r))) } }"

definition rdp_server_accept_mcs_erect_domain_request :: "'w rdp_env \<Rightarrow> wStream \<Rightarrow> 'w rdp_call" where
  "rdp_server_accept_mcs_erect_domain_request E s r = do {
     (v, s) \<leftarrow> mcs_recv_erect_domain_request s;
     Some (if v = None then (False, r) else (True, snd (rdp_server_transition_to_state E CONNECTION_STATE_MCS_ERECT_DOMAIN r))) }"

definition rdp_server_accept_mcs_attach_user_request :: "'w rdp_env \<Rightarrow> wStream \<Rightarrow> 'w rdp_call" where
  "rdp_server_accept_mcs_attach_user_request E s r = do {
     (v, s) \<leftarrow> mcs_recv_attach_user_request s;
     if v = None then Some (False, r)
     else do {
       (ok, r) \<leftarrow> with_mcs (mcs_send_attach_user_confirm (re_mcs E)) r;
       Some (if \<not> ok then (False, r) else (True, snd (rdp_server_transition_to_state E CONNECTION_STATE_MCS_ATTACH_USER r))) } }"

text \<open>The loop over the channels: one is marked, and \<^verbatim>\<open>allJoined\<close> is the second result.\<close>

fun server_join_loop :: "u16 \<Rightarrow> rdpMcsChannel list \<Rightarrow> nat \<Rightarrow> nat \<Rightarrow> bool \<Rightarrow> (rdpMcsChannel list \<times> bool) option" where
  "server_join_loop channelId cs i 0 allJoined = Some (cs, allJoined)"
| "server_join_loop channelId cs i (Suc n) allJoined = do {
     c \<leftarrow> arr_get cs i;
     let c = (if ch_ChannelId c = uint channelId then c\<lparr>ch_joined := True\<rparr> else c);
     cs \<leftarrow> arr_set cs i c;
     server_join_loop channelId cs (i + 1) n (if \<not> ch_joined c then False else allJoined) }"

definition server_mark_joined :: "u16 \<Rightarrow> 'w rdpMcs \<Rightarrow> 'w rdpMcs" where
  "server_mark_joined channelId m =
     (if channelId = mcs_userId m then m\<lparr>mcs_userChannelJoined := True\<rparr>
      else if channelId = MCS_GLOBAL_CHANNEL_ID then m\<lparr>mcs_globalChannelJoined := True\<rparr>
      else if channelId = mcs_messageChannelId m then m\<lparr>mcs_messageChannelJoined := True\<rparr>
      else m)"

definition rdp_server_accept_mcs_channel_join_request :: "'w rdp_env \<Rightarrow> wStream \<Rightarrow> 'w rdp_call" where
  "rdp_server_accept_mcs_channel_join_request E s r = do {
     (channelId, s) \<leftarrow> mcs_recv_channel_join_request (rdp_mcs r) s;
     (case channelId of
        None \<Rightarrow> Some (False, r)
      | Some channelId \<Rightarrow> do {
          (ok, r) \<leftarrow> with_mcs (mcs_send_channel_join_confirm (re_mcs E) channelId) r;
          if \<not> ok then Some (False, r)
          else do {
            let m = server_mark_joined channelId (rdp_mcs r);
            (cs, allJoined) \<leftarrow> server_join_loop channelId (mcs_channels m) 0 (unat (mcs_channelCount m)) True;
            let m = m\<lparr>mcs_channels := cs\<rparr>;
            let r = r\<lparr>rdp_mcs := m\<rparr>;
            Some (True, if mcs_userChannelJoined m \<and> mcs_globalChannelJoined m \<and>
                          (mcs_messageChannelId m = 0 \<or> mcs_messageChannelJoined m) \<and> allJoined
                        then snd (rdp_server_transition_to_state E CONNECTION_STATE_RDP_SECURITY_COMMENCEMENT r) else r) } }) }"

text \<open>
  \<^verbatim>\<open>peer_recv_callback\<close>. The failure of the license packet is reported as 0. Some states go on to the next one with the same unit or with \<^verbatim>\<open>NULL\<close>, which the earlier states do
  not expect.
\<close>

definition peer_call :: "(wStream \<Rightarrow> 'w rdp_call) \<Rightarrow> 'w rdpRdp \<Rightarrow> wStream option \<Rightarrow> (int \<times> 'w rdpRdp) option" where
  "peer_call f r s = (case s of None \<Rightarrow> None | Some s \<Rightarrow> do { (ok, r) \<leftarrow> f s r; Some (if ok then 0 else -1, r) })"

definition peer_status :: "'w rdp_env \<Rightarrow> 'w rdpRdp \<Rightarrow> wStream option \<Rightarrow> (int \<times> 'w rdpRdp) option" where
  "peer_status E r s = do { (status, r) \<leftarrow> re_peer_recv_pdu E r s; Some (if status < 0 then -1 else 0, r) }"

definition peer_capabilities :: "'w rdp_env \<Rightarrow> 'w rdpRdp \<Rightarrow> wStream option \<Rightarrow> (int \<times> 'w rdpRdp) option" where
  "peer_capabilities E r s =
     (if \<not> rdp_AwaitCapabilities r then do {
        r \<leftarrow> re_Capabilities E r;
        (ok, r) \<leftarrow> re_send_demand_active E r;
        if \<not> ok then Some (-1, r)
        else (let r = r\<lparr>rdp_AwaitCapabilities := True\<rparr> in if s = None then Some (0, r) else peer_status E r s) }
      else peer_status E r s)"

text \<open>
  The acceptor of the negotiation returns the selected protocol too. The identity of the client is that of NLA, if it was
  selected; \<^verbatim>\<open>Logon\<close> is told by a flag whether the client is authenticated already.
\<close>

definition peer_accept_nego :: "'w rdp_env \<Rightarrow> wStream \<Rightarrow> 'w rdp_call" where
  "peer_accept_nego E s r = do {
     (ok, SelectedProtocol, r) \<leftarrow> re_accept_nego E r s;
     let logon = (\<lambda>automatic. peer_callret (map_option (\<lambda>f. f automatic) (re_Logon E)) (\<lambda>b p. p\<lparr>pe_authenticated := b\<rparr>));
     if \<not> ok then Some (False, r)
     else if SelectedProtocol AND PROTOCOL_NLA \<noteq> 0 then do {
       r \<leftarrow> re_copy_identity E r;
       Some (True, re_nla_free E (logon True r)) }
     else Some (True, logon False r) }"

partial_function (option) peer_recv_callback :: "'w rdp_env \<Rightarrow> 'w rdpRdp \<Rightarrow> wStream option \<Rightarrow> (int \<times> 'w rdpRdp) option" where
  "peer_recv_callback E r s = (case rdp_state r of
       CONNECTION_STATE_INITIAL \<Rightarrow> peer_call (peer_accept_nego E) r s
     | CONNECTION_STATE_NEGO \<Rightarrow> peer_call (rdp_server_accept_mcs_connect_initial E) r s
     | CONNECTION_STATE_MCS_CONNECT \<Rightarrow> peer_call (rdp_server_accept_mcs_erect_domain_request E) r s
     | CONNECTION_STATE_MCS_ERECT_DOMAIN \<Rightarrow> peer_call (rdp_server_accept_mcs_attach_user_request E) r s
     | CONNECTION_STATE_MCS_ATTACH_USER \<Rightarrow> peer_call (rdp_server_accept_mcs_channel_join_request E) r s
     | CONNECTION_STATE_RDP_SECURITY_COMMENCEMENT \<Rightarrow> (case s of None \<Rightarrow> None | Some s \<Rightarrow> do {
         (ok, s, r) \<leftarrow> (if se_UseRdpSecurityLayer (mcs_settings (rdp_mcs r)) then re_server_establish_keys E r s else Some (True, s, r));
         if \<not> ok then Some (-1, r)
         else (let r = snd (rdp_server_transition_to_state E CONNECTION_STATE_SECURE_SETTINGS_EXCHANGE r) in
               if Stream_GetRemainingLength s > 0 then peer_recv_callback E r (Some s) else Some (0, r)) })
     | CONNECTION_STATE_SECURE_SETTINGS_EXCHANGE \<Rightarrow> do {
         (ok, r) \<leftarrow> re_recv_client_info E r s;
         if \<not> ok then Some (-1, r)
         else peer_recv_callback E (snd (rdp_server_transition_to_state E CONNECTION_STATE_LICENSING r)) None }
     | CONNECTION_STATE_LICENSING \<Rightarrow> do {
         (ok, r) \<leftarrow> re_send_valid_license E r;
         if \<not> ok then Some (0, r)
         else peer_recv_callback E (snd (rdp_server_transition_to_state E CONNECTION_STATE_CAPABILITIES_EXCHANGE r)) None }
     | CONNECTION_STATE_CAPABILITIES_EXCHANGE \<Rightarrow> peer_capabilities E r s
     | CONNECTION_STATE_FINALIZATION \<Rightarrow> peer_status E r s
     | CONNECTION_STATE_ACTIVE \<Rightarrow> peer_status E r s
     | _ \<Rightarrow> Some (-1, r))"

end
