(* ===== verification/McsJoin.thy ===== *)
theory McsJoin
  imports McsConnect Connection
begin

unbundle bit_operations_syntax

text \<open>
  The end of the MCS phase: the PDUs with which a client is attached to the domain and joins its channels,
  what each side does with them, and the whole run of a client and a server that are linked by two queues of
  units.
\<close>

section \<open>The PDUs of the domain\<close>

definition domain_enc :: "byte \<Rightarrow> u16 \<Rightarrow> byte \<Rightarrow> byte list" where
  "domain_enc pdu len options = tpkt_enc len @ tpdu_enc 2 X224_TPDU_DATA @ [push_bit 2 pdu OR options]"

definition erect_enc :: "byte list" where
  "erect_enc = domain_enc DomainMCSPDU_ErectDomainRequest 12 0 @ per_enc_integer 0 @ per_enc_integer 0"

definition attach_enc :: "byte list" where
  "attach_enc = domain_enc DomainMCSPDU_AttachUserRequest 8 0"

definition attach_confirm_enc :: "u16 \<Rightarrow> byte list" where
  "attach_confirm_enc u = domain_enc DomainMCSPDU_AttachUserConfirm 11 2 @ [0] @ be_bytes 2 (u - MCS_BASE_CHANNEL_ID)"

definition join_enc :: "u16 \<Rightarrow> u16 \<Rightarrow> byte list" where
  "join_enc u i = domain_enc DomainMCSPDU_ChannelJoinRequest 12 0 @ be_bytes 2 (u - MCS_BASE_CHANNEL_ID) @ be_bytes 2 (i - 0)"

definition join_confirm_enc :: "u16 \<Rightarrow> u16 \<Rightarrow> byte list" where
  "join_confirm_enc u i = domain_enc DomainMCSPDU_ChannelJoinConfirm 15 2 @ [0] @ be_bytes 2 (u - MCS_BASE_CHANNEL_ID) @
     be_bytes 2 (i - 0) @ be_bytes 2 (i - 0)"

lemmas domain_encs = erect_enc_def attach_enc_def attach_confirm_enc_def join_enc_def join_confirm_enc_def

lemma length_domain_encs [simp]:
  "length (domain_enc p l opts) = 8" "length erect_enc = 12" "length attach_enc = 8" "length (attach_confirm_enc u) = 11"
  "length (join_enc u i) = 12" "length (join_confirm_enc u i) = 15"
  by (simp_all add: domain_encs domain_enc_def length_x224_data per_enc_integer_def)

lemma emits_domain: "emits (mcs_write_domain_mcspdu_header p l opts) (domain_enc p l opts)"
  unfolding domain_enc_def
  by (rule emits_bind [OF emits_tpkt emits_bind [OF emits_tpdu_data per_byte.writes refl]])
     (simp_all add: mcs_write_domain_mcspdu_header_def)

lemma emits_integer16: "emits (per_write_integer16 mn i) (be_bytes 2 (i - mn))"
  using emits_UINT16_BE [of "i - mn"] by (simp add: per_write_integer16_def [abs_def])

lemma emits_success: "emits (per_write_enumerated cnt 0) [0]"
  using emits_UINT8 by (simp add: emits_def per_write_enumerated_def)

lemma emits_pdus:
  "emits erect_domain_pdu erect_enc" "emits attach_user_request_pdu attach_enc" "emits (attach_user_confirm_pdu u) (attach_confirm_enc u)"
  "emits (channel_join_request_pdu u i) (join_enc u i)" "emits (channel_join_confirm_pdu u i) (join_confirm_enc u i)"
proof -
  show "emits erect_domain_pdu erect_enc" unfolding erect_enc_def
    by (rule emits_bind [OF emits_domain emits_bind [OF emits_per_integer emits_per_integer refl]]) (simp add: erect_domain_pdu_def)
  show "emits attach_user_request_pdu attach_enc" unfolding attach_enc_def attach_user_request_pdu_def by (rule emits_domain)
  show "emits (attach_user_confirm_pdu u) (attach_confirm_enc u)" unfolding attach_confirm_enc_def
    by (rule emits_bind [OF emits_domain emits_bind [OF emits_success emits_integer16 refl]]) (simp add: attach_user_confirm_pdu_def)
  show "emits (channel_join_request_pdu u i) (join_enc u i)" unfolding join_enc_def
    by (rule emits_bind [OF emits_domain emits_bind [OF emits_integer16 emits_integer16 refl]]) (simp add: channel_join_request_pdu_def)
  show "emits (channel_join_confirm_pdu u i) (join_confirm_enc u i)" unfolding join_confirm_enc_def
    by (rule emits_bind [OF emits_domain emits_bind [OF emits_success emits_bind [OF emits_integer16 emits_bind [OF emits_integer16 emits_integer16 refl] refl] refl]])
       (simp add: channel_join_confirm_pdu_def)
qed

text \<open>Reading them.\<close>

lemma parses_try:
  assumes "parses lim r bs v" "parses lim (k v) cs w"
  shows "parses lim (try_read r k) (bs @ cs) w"
  using gets_try [OF assms(1), of k cs "length cs" w] assms(2) by (simp add: gets_def parses_def)

lemma parses_return: "parses lim (\<lambda>s. Some (Some v, s)) [] v"
  by (simp add: parses_def)

lemma parses_domain:
  assumes "drop_bit 2 (push_bit 2 p OR opts) = p"
  shows "parses LIM31 (mcs_read_domain_mcspdu_header p) (domain_enc p l opts) l"
proof -
  have e: "(drop_bit 2 (push_bit 2 p OR opts) \<noteq> p) = False" using assms by simp
  have "parses LIM31 (try_read tpdu_read_data (\<lambda>_. try_read per_read_choice (\<lambda>choice s.
      if drop_bit 2 choice \<noteq> p then Some (None, s) else Some (Some l, s)))) (tpdu_enc 2 X224_TPDU_DATA @ [push_bit 2 p OR opts] @ []) l"
    by (intro parses_try [OF parses_tpdu_data] parses_try [OF parses_per_byte(1)]) (simp only: e if_False parses_return)
  note g = this [THEN gets_parses]
  show ?thesis unfolding parses_def
  proof (intro allI impI)
    fix s tl assume s: "stream_wf s" "length (st_rest s) < LIM31" "st_rest s = domain_enc p l opts @ tl"
    then have r: "st_rest s = tpkt_enc l @ (tpdu_enc 2 X224_TPDU_DATA @ [push_bit 2 p OR opts] @ []) @ tl" by (simp add: domain_enc_def)
    note T = tpkt_front [OF s(1) r]
    show "mcs_read_domain_mcspdu_header p s = Some (Some l, stream_skip (length (domain_enc p l opts)) s)"
      using T(1) getsD [OF g T(2) _ T(3)] s(2) length_x224_data(3)
      by (simp add: mcs_read_domain_mcspdu_header_def)
  qed
qed

lemma parses_unit:
  assumes "parses LIM31 r bs v" "length bs < 65536"
  shows "\<exists>s. r (stream_of bs) = Some (Some v, s)"
  using parsesD [OF assms(1), of "stream_of bs" "[]"] assms(2) by (simp add: BLOCK_MAX_def)

lemma base_le: "MCS_BASE_CHANNEL_ID \<le> u \<Longrightarrow> parses LIM31 (per_read_integer16 MCS_BASE_CHANNEL_ID) (be_bytes 2 (u - MCS_BASE_CHANNEL_ID)) u"
  by (rule parses_per_integer16)

lemma read_erect: "\<exists>s. mcs_recv_erect_domain_request (stream_of erect_enc) = Some (Some (), s)"
proof -
  have "parses LIM31 mcs_recv_erect_domain_request (domain_enc DomainMCSPDU_ErectDomainRequest 12 0 @ per_enc_integer 0 @ per_enc_integer 0 @ []) ()"
    unfolding mcs_recv_erect_domain_request_def
    by (intro parses_try [OF parses_domain] parses_try [OF parses_per_integer] parses_return) (simp_all add: mcs_pdu_defs)
  from parses_unit [OF this] show ?thesis by (simp add: erect_enc_def per_enc_integer_def)
qed

lemma read_attach: "\<exists>s. mcs_recv_attach_user_request (stream_of attach_enc) = Some (Some 8, s)"
proof -
  have "parses LIM31 mcs_recv_attach_user_request attach_enc 8"
    unfolding mcs_recv_attach_user_request_def attach_enc_def by (rule parses_domain) (simp add: mcs_pdu_defs)
  from parses_unit [OF this] show ?thesis by simp
qed

lemma read_join:
  assumes "MCS_BASE_CHANNEL_ID \<le> mcs_userId m"
  shows "\<exists>s. mcs_recv_channel_join_request m (stream_of (join_enc (mcs_userId m) i)) = Some (Some i, s)"
proof -
  have "parses LIM31 (mcs_recv_channel_join_request m) (join_enc (mcs_userId m) i) i"
    unfolding mcs_recv_channel_join_request_def join_enc_def
    by (intro parses_try [OF parses_domain] parses_try [OF base_le [OF assms]]) (simp_all add: mcs_pdu_defs parses_per_integer16 [of 0, simplified])
  from parses_unit [OF this] show ?thesis by simp
qed

text \<open>Two readers do not stop at a failure; here nothing fails.\<close>

lemma read_step:
  assumes "parses LIM31 r bs v" "stream_wf s" "length (st_rest s) < LIM31" "st_rest s = bs @ ts"
  shows "r s = Some (Some v, stream_skip (length bs) s)" "stream_wf (stream_skip (length bs) s)"
    "length (st_rest (stream_skip (length bs) s)) < LIM31" "st_rest (stream_skip (length bs) s) = ts"
proof -
  show "r s = Some (Some v, stream_skip (length bs) s)" by (rule parsesD [OF assms])
  have "length bs \<le> length (st_rest s)" using assms(4) by simp
  then show "stream_wf (stream_skip (length bs) s)" by (rule stream_wf_skip [OF assms(2)])
  show "st_rest (stream_skip (length bs) s) = ts" "length (st_rest (stream_skip (length bs) s)) < LIM31"
    using assms(2-4) by simp_all
qed

lemma unit_stream:
  assumes "length bs < 65536"
  shows "stream_wf (stream_of bs)" "length (st_rest (stream_of bs)) < LIM31" "st_rest (stream_of bs) = bs"
  using assms by (simp_all add: BLOCK_MAX_def)

lemma read_attach_confirm:
  assumes "MCS_BASE_CHANNEL_ID \<le> u"
  shows "\<exists>s. mcs_recv_attach_user_confirm m (stream_of (attach_confirm_enc u)) = Some (True, m\<lparr>mcs_userId := u\<rparr>, s)"
proof -
  let ?s = "stream_of (attach_confirm_enc u)"
  have "parses LIM31 attach_user_confirm (domain_enc DomainMCSPDU_AttachUserConfirm 11 2 @ [0]) 0"
    unfolding attach_user_confirm_def
    by (intro parses_try [OF parses_domain] parses_per_enumerated) (simp_all add: mcs_pdu_defs MCS_Result_enum_length_def)
  moreover have l: "length (attach_confirm_enc u) < 65536"
      "attach_confirm_enc u = (domain_enc DomainMCSPDU_AttachUserConfirm 11 2 @ [0]) @ be_bytes 2 (u - MCS_BASE_CHANNEL_ID) @ []"
    by (simp, simp add: attach_confirm_enc_def)
  ultimately have a: "attach_user_confirm ?s = Some (Some 0, stream_skip 9 ?s)" "stream_wf (stream_skip 9 ?s)"
      "length (st_rest (stream_skip 9 ?s)) < LIM31" "st_rest (stream_skip 9 ?s) = be_bytes 2 (u - MCS_BASE_CHANNEL_ID) @ []"
    using read_step [OF _ unit_stream(1,2) [OF l(1)], unfolded unit_stream(3) [OF l(1)], OF _ l(2)] by fastforce+
  note b = read_step [OF base_le [OF assms] a(2-4)]
  show ?thesis
    using a(1) b(1) by (simp add: mcs_recv_attach_user_confirm_def read_integer16_into_def attach_confirm_enc_def)
qed

lemma read_join_confirm:
  assumes "MCS_BASE_CHANNEL_ID \<le> u"
  shows "\<exists>s. mcs_recv_channel_join_confirm (stream_of (join_confirm_enc u i)) = Some (Some i, s)"
proof -
  let ?D = "domain_enc DomainMCSPDU_ChannelJoinConfirm 15 2" and ?I = "be_bytes 2 (i - 0)"
  have p: "parses LIM31 (mcs_read_domain_mcspdu_header DomainMCSPDU_ChannelJoinConfirm) ?D 15"
      "parses LIM31 (per_read_enumerated MCS_Result_enum_length) [0] 0" "parses LIM31 (per_read_integer16 0) ?I i"
    by (intro parses_domain parses_per_enumerated parses_per_integer16; simp add: mcs_pdu_defs MCS_Result_enum_length_def)+
  have l: "length (join_confirm_enc u i) < 65536" by simp
  note a = read_step [OF p(1) unit_stream(1,2) [OF l], unfolded unit_stream(3) [OF l], OF join_confirm_enc_def]
  note b = read_step [OF p(2) a(2-4)]
  note c = read_step [OF base_le [OF assms] b(2-4)]
  note d = read_step [OF p(3) c(2-4)]
  show ?thesis
    using a(1) b(1) c(1) d(1) read_step(1) [OF p(3) d(2,3), of "[]"] d(4) by (simp add: mcs_recv_channel_join_confirm_def)
qed

section \<open>Sending\<close>

text \<open>
  The link between the two sides: every write of the transport is one unit of a queue, which the other side
  takes in order. That the pieces in which a unit travels do not matter is the subject of \<open>Transport\<close>.
\<close>

definition mailbox_bio :: "byte list list bio" where
  "mailbox_bio = \<lparr>BIO_read = (\<lambda>n w. (-1, [], w)), BIO_should_retry = (\<lambda>w. True), BIO_wait_read = (\<lambda>w. (0, w)),
     BIO_write = (\<lambda>d w. Some (int (length d), w @ [d])), BIO_wait_write = (\<lambda>w. (0, w)), BIO_write_blocked = (\<lambda>w. False),
     BIO_flush = (\<lambda>w. Some (1, w))\<rparr>"

definition posted :: "byte list \<Rightarrow> byte list list rdpMcs \<Rightarrow> byte list list rdpMcs" where
  "posted bs m = m\<lparr>mcs_transport := (mcs_transport m)\<lparr>tr_world := tr_world (mcs_transport m) @ [bs],
     tr_written := tr_written (mcs_transport m) + word_of_int (int (length bs))\<rparr>\<rparr>"

lemma mailbox_transport_write:
  assumes "sealed_with bs s" "bs \<noteq> []" "length bs < 2 ^ 31" "me_bio E = mailbox_bio"
  shows "mcs_transport_write E m s = Some (True, posted bs m)"
proof -
  have s: "st_pointer s = length bs" "take (length bs) (st_buffer s) = bs" "length bs \<le> length (st_buffer s)"
    using assms(1) by (auto simp: sealed_with_def stream_wf_def)
  let ?s = "s\<lparr>st_pointer := 0\<rparr>" and ?t = "mcs_transport m"
  have fl: "transport_flush_loop mailbox_bio w = Some (True, w)" for w
    by (simp add: transport_flush_loop.simps mailbox_bio_def)
  have w: "BIO_write mailbox_bio bs w = Some (int (length bs), w @ [bs])" for w by (simp add: mailbox_bio_def)
  have rd: "mem_read (st_buffer s) 0 (length bs) = Some bs" using s by (simp add: mem_read_def)
  have sk: "Stream_Seek ?s (int (length bs)) = Some (s\<lparr>st_pointer := length bs\<rparr>)" using s by (simp add: Stream_Seek_def)
  have "transport_write_loop mailbox_bio b f (int (length bs)) (-1) ?s w =
      Some (True, int (length bs), s\<lparr>st_pointer := length bs\<rparr>, w @ [bs])" for b f w
    using assms(2) w rd sk fl
    by (simp add: transport_write_loop.simps [of _ _ _ "int (length bs)"] transport_write_loop.simps [of _ _ _ 0] int_ck_def INT_LIM_def)
  moreover have "to_int (Stream_GetPosition s) = int (length bs)" "Stream_SetPosition s 0 = Some ?s"
    using s assms(3) by (simp_all add: Stream_GetPosition_def to_int_small Stream_SetPosition_def)
  moreover have "tr_WriteLock_update (\<lambda>_. tr_WriteLock t) t = t" for t :: "byte list list rdpTransport" by simp
  ultimately show ?thesis
    by (simp add: mcs_transport_write_def transport_write_def assms(4) Let_def cs_enter_def cs_leave_def posted_def)
qed

lemma filled_sealed:
  assumes "emits w bs" "fresh_stream (length bs) s"
  shows "\<exists>s'. w s = Some s' \<and> sealed_with bs (Stream_SealLength s')"
proof -
  note F = freshD [OF assms(2)]
  have "w s = Some (stream_emit bs s)" using emitsD [OF assms(1) F(1)] F(2) by simp
  moreover have "sealed_with bs (Stream_SealLength (stream_emit bs s))"
    using F assms(2) by (simp add: sealed_with_def Stream_SealLength_def stream_emit_def stream_wf_def fresh_stream_def)
  ultimately show ?thesis by blast
qed

definition linked :: "byte list list mcs_env \<Rightarrow> bool" where
  "linked E \<longleftrightarrow> env_ok E \<and> me_bio E = mailbox_bio"

lemma post_pdu:
  assumes "linked E" "emits w bs" "0 < length bs" "length bs < 65536"
  shows "mcs_send_pdu E (length bs) w m = Some (True, posted bs m)"
proof -
  obtain s where "mcs_stream E 0 (length bs) = Some s" "fresh_stream (length bs) s"
    using assms env_okE [of E "length bs" 0] by (auto simp: linked_def)
  with filled_sealed [OF assms(2)] show ?thesis
    using mailbox_transport_write [of bs _ E m] assms by (fastforce simp: mcs_send_pdu_def linked_def)
qed

lemma post_pdus:
  assumes "linked E"
  shows "mcs_send_erect_domain_request E m = Some (True, posted erect_enc m)"
    "mcs_send_attach_user_request E m = Some (True, posted attach_enc m)"
    "mcs_send_channel_join_request E i m = Some (True, posted (join_enc (mcs_userId m) i) m)"
    "mcs_send_channel_join_confirm E i m = Some (True, posted (join_confirm_enc (mcs_userId m) i) m)"
  using post_pdu [OF assms emits_pdus(1)] post_pdu [OF assms emits_pdus(2)] post_pdu [OF assms emits_pdus(4)] post_pdu [OF assms emits_pdus(5)]
  by (simp_all add: mcs_send_erect_domain_request_def mcs_send_attach_user_request_def mcs_send_channel_join_request_def
      mcs_send_channel_join_confirm_def)

lemma post_attach_confirm:
  assumes "linked E"
  shows "mcs_send_attach_user_confirm E m = Some (True, posted (attach_confirm_enc (mcs_baseChannelId m))
     (m\<lparr>mcs_userId := mcs_baseChannelId m, mcs_baseChannelId := mcs_baseChannelId m + 1\<rparr>))"
proof -
  let ?bs = "attach_confirm_enc (mcs_baseChannelId m)"
  obtain s where "mcs_stream E 0 11 = Some s" "fresh_stream (length ?bs) s"
    using assms env_okE [of E 11 0] by (auto simp: linked_def)
  moreover have "?bs \<noteq> []" by (simp flip: length_0_conv)
  ultimately show ?thesis
    using filled_sealed [OF emits_pdus(3), of "mcs_baseChannelId m" s] mailbox_transport_write [of ?bs _ E] assms
    by (fastforce simp: mcs_send_attach_user_confirm_def linked_def)
qed

section \<open>Joining channels\<close>

text \<open>
  The identifiers of the channels in the order in which the client joins them, and which of them are joined.
\<close>

definition channel_ids :: "'w rdpMcs \<Rightarrow> u16 list" where
  "channel_ids m = mcs_userId m # MCS_GLOBAL_CHANNEL_ID # (if mcs_messageChannelId m = 0 then [] else [mcs_messageChannelId m]) @
     map (\<lambda>c. word_of_int (ch_ChannelId c)) (channels_used m)"

definition joined_flags :: "'w rdpMcs \<Rightarrow> bool list" where
  "joined_flags m = mcs_userChannelJoined m # mcs_globalChannelJoined m #
     (if mcs_messageChannelId m = 0 then [] else [mcs_messageChannelJoined m]) @ map ch_joined (channels_used m)"

definition joined_to :: "nat \<Rightarrow> 'w rdpMcs \<Rightarrow> bool" where
  "joined_to j m \<longleftrightarrow> (\<forall>i < length (joined_flags m). joined_flags m ! i \<longleftrightarrow> i < j)"

text \<open>The identifiers can be sent, and lie in the array.\<close>

definition ids_ok :: "'w rdpMcs \<Rightarrow> bool" where
  "ids_ok m \<longleftrightarrow> MCS_BASE_CHANNEL_ID \<le> mcs_userId m \<and> unat (mcs_channelCount m) \<le> length (mcs_channels m) \<and>
     unat (mcs_channelCount m) \<le> 30 \<and> (\<forall>c \<in> set (channels_used m). ch_ChannelId c = uint (word_of_int (ch_ChannelId c) :: u16))"

definition mark_joined :: "nat \<Rightarrow> 'w rdpMcs \<Rightarrow> 'w rdpMcs" where
  "mark_joined j m =
     (if j = 0 then m\<lparr>mcs_userChannelJoined := True\<rparr>
      else if j = 1 then m\<lparr>mcs_globalChannelJoined := True\<rparr>
      else if mcs_messageChannelId m \<noteq> 0 \<and> j = 2 then m\<lparr>mcs_messageChannelJoined := True\<rparr>
      else (let i = j - (if mcs_messageChannelId m = 0 then 2 else 3)
            in m\<lparr>mcs_channels := (mcs_channels m)[i := (mcs_channels m ! i)\<lparr>ch_joined := True\<rparr>]\<rparr>))"

lemma length_joined [simp]: "length (joined_flags m) = length (channel_ids m)"
  by (simp add: joined_flags_def channel_ids_def)

lemma length_ids: "ids_ok m \<Longrightarrow> length (channel_ids m) = (if mcs_messageChannelId m = 0 then 2 else 3) + unat (mcs_channelCount m)"
  by (simp add: channel_ids_def channels_used_def ids_ok_def)

lemma channels_used_nth: "ids_ok m \<Longrightarrow> i < unat (mcs_channelCount m) \<Longrightarrow> channels_used m ! i = mcs_channels m ! i"
  by (simp add: channels_used_def)

abbreviation first_channel :: "'w rdpMcs \<Rightarrow> nat" where
  "first_channel m \<equiv> (if mcs_messageChannelId m = 0 then 2 else 3)"

lemma ids_okD:
  assumes "ids_ok m"
  shows "MCS_BASE_CHANNEL_ID \<le> mcs_userId m" "unat (mcs_channelCount m) \<le> length (mcs_channels m)"
    "length (channels_used m) = unat (mcs_channelCount m)"
    "k < unat (mcs_channelCount m) \<Longrightarrow> ch_ChannelId (mcs_channels m ! k) = uint (word_of_int (ch_ChannelId (mcs_channels m ! k)) :: u16)"
proof -
  show l: "MCS_BASE_CHANNEL_ID \<le> mcs_userId m" "unat (mcs_channelCount m) \<le> length (mcs_channels m)" using assms unfolding ids_ok_def by blast+
  then show n: "length (channels_used m) = unat (mcs_channelCount m)" by (simp add: channels_used_def)
  have A: "\<forall>c \<in> set (channels_used m). ch_ChannelId c = uint (word_of_int (ch_ChannelId c) :: u16)" using assms unfolding ids_ok_def by blast
  assume k: "k < unat (mcs_channelCount m)"
  then have "channels_used m ! k \<in> set (channels_used m)" using n by simp
  with bspec [OF A this] channels_used_nth [OF assms k]
  show "ch_ChannelId (mcs_channels m ! k) = uint (word_of_int (ch_ChannelId (mcs_channels m ! k)) :: u16)" by (simp only:)
qed

text \<open>The positions of the lists, by cases.\<close>

lemma join_cases [consumes 2, case_names user global message channel]:
  assumes "ids_ok m" "j < length (channel_ids m)"
  obtains "j = 0" | "j = 1" | "mcs_messageChannelId m \<noteq> 0" "j = 2"
    | i where "j = first_channel m + i" "i < unat (mcs_channelCount m)"
  using assms(2) length_ids [OF assms(1)] by (cases "j < first_channel m") (force split: if_splits, auto intro: that(4) [of "j - first_channel m"])

lemma ids_nth:
  "channel_ids m ! 0 = mcs_userId m" "channel_ids m ! 1 = MCS_GLOBAL_CHANNEL_ID" "channel_ids m ! Suc 0 = MCS_GLOBAL_CHANNEL_ID"
  "mcs_messageChannelId m \<noteq> 0 \<Longrightarrow> channel_ids m ! 2 = mcs_messageChannelId m"
  "ids_ok m \<Longrightarrow> i < unat (mcs_channelCount m) \<Longrightarrow> channel_ids m ! (first_channel m + i) = word_of_int (ch_ChannelId (mcs_channels m ! i))"
  by (auto simp: channel_ids_def nth_append numeral_eq_Suc channels_used_def ids_ok_def)

lemma flags_nth:
  "joined_flags m ! 0 = mcs_userChannelJoined m" "joined_flags m ! 1 = mcs_globalChannelJoined m" "joined_flags m ! Suc 0 = mcs_globalChannelJoined m"
  "mcs_messageChannelId m \<noteq> 0 \<Longrightarrow> joined_flags m ! 2 = mcs_messageChannelJoined m"
  "ids_ok m \<Longrightarrow> i < unat (mcs_channelCount m) \<Longrightarrow> joined_flags m ! (first_channel m + i) = ch_joined (mcs_channels m ! i)"
  by (auto simp: joined_flags_def nth_append numeral_eq_Suc channels_used_def ids_ok_def)

lemma joined_toD:
  assumes "joined_to j m" "ids_ok m"
  shows "mcs_userChannelJoined m \<longleftrightarrow> 0 < j" "mcs_globalChannelJoined m \<longleftrightarrow> 1 < j"
    "mcs_messageChannelId m \<noteq> 0 \<Longrightarrow> mcs_messageChannelJoined m \<longleftrightarrow> 2 < j"
    "i < unat (mcs_channelCount m) \<Longrightarrow> ch_joined (mcs_channels m ! i) \<longleftrightarrow> first_channel m + i < j"
proof -
  have J: "joined_flags m ! i \<longleftrightarrow> i < j" if "i < length (channel_ids m)" for i using assms(1) that by (simp add: joined_to_def)
  note L = length_ids [OF assms(2)]
  show "mcs_userChannelJoined m \<longleftrightarrow> 0 < j" "mcs_globalChannelJoined m \<longleftrightarrow> 1 < j"
    "mcs_messageChannelId m \<noteq> 0 \<Longrightarrow> mcs_messageChannelJoined m \<longleftrightarrow> 2 < j"
    "i < unat (mcs_channelCount m) \<Longrightarrow> ch_joined (mcs_channels m ! i) \<longleftrightarrow> first_channel m + i < j"
    using J [of 0] J [of 1] J [of 2] J [of "first_channel m + i"] flags_nth(1,2,4) [of m] flags_nth(5) [OF assms(2), of i] L
    by (simp_all del: length_greater_0_conv)
qed

lemma mark_joined_fields [simp]:
  "mcs_userId (mark_joined j m) = mcs_userId m" "mcs_messageChannelId (mark_joined j m) = mcs_messageChannelId m"
  "mcs_channelCount (mark_joined j m) = mcs_channelCount m" "length (mcs_channels (mark_joined j m)) = length (mcs_channels m)"
  "mcs_transport (mark_joined j m) = mcs_transport m" "mcs_settings (mark_joined j m) = mcs_settings m"
  by (simp_all add: mark_joined_def Let_def)

lemma mark_joined_channels:
  assumes "ids_ok m"
  shows "map ch_ChannelId (channels_used (mark_joined j m)) = map ch_ChannelId (channels_used m)"
    "map ch_Name (channels_used (mark_joined j m)) = map ch_Name (channels_used m)"
proof -
  have "map f (channels_used (m\<lparr>mcs_channels := (mcs_channels m)[i := (mcs_channels m ! i)\<lparr>ch_joined := True\<rparr>]\<rparr>)) = map f (channels_used m)"
    if "\<And>c. f (c\<lparr>ch_joined := True\<rparr>) = f c" for f :: "rdpMcsChannel \<Rightarrow> 'b" and i
  proof (cases "i < unat (mcs_channelCount m)")
    case True
    then show ?thesis
      using that assms by (simp add: channels_used_def take_update_swap map_update ids_ok_def list_update_same_conv)
  next
    case False
    then show ?thesis by (simp add: channels_used_def take_update_swap list_update_beyond)
  qed
  from this [of ch_ChannelId] this [of ch_Name]
  show "map ch_ChannelId (channels_used (mark_joined j m)) = map ch_ChannelId (channels_used m)"
    "map ch_Name (channels_used (mark_joined j m)) = map ch_Name (channels_used m)"
    by (simp_all add: mark_joined_def Let_def channels_used_def)
qed

lemma mark_joined_ids:
  assumes "ids_ok m"
  shows "channel_ids (mark_joined j m) = channel_ids m" "ids_ok (mark_joined j m)"
proof -
  have i: "map (\<lambda>c. f (ch_ChannelId c)) (channels_used (mark_joined j m)) = map (\<lambda>c. f (ch_ChannelId c)) (channels_used m)" for f :: "int \<Rightarrow> 'b"
    using arg_cong [OF mark_joined_channels(1) [OF assms, of j], of "map f"] by (simp add: o_def)
  show "channel_ids (mark_joined j m) = channel_ids m" by (simp add: channel_ids_def i)
  have "(\<forall>c \<in> set (channels_used k). ch_ChannelId c = uint (word_of_int (ch_ChannelId c) :: u16)) \<longleftrightarrow>
      list_all id (map (\<lambda>c. ch_ChannelId c = uint (word_of_int (ch_ChannelId c) :: u16)) (channels_used k))" for k :: "'a rdpMcs"
    by (simp add: list_all_iff)
  then show "ids_ok (mark_joined j m)" using assms i [of "\<lambda>c. c = uint (word_of_int c :: u16)"] by (simp add: ids_ok_def)
qed

lemma joined_flags_mark:
  assumes "ids_ok m" "j < length (channel_ids m)"
  shows "joined_flags (mark_joined j m) = (joined_flags m)[j := True]"
  using assms
proof (cases rule: join_cases)
  case (channel i)
  have "joined_flags (m\<lparr>mcs_channels := (mcs_channels m)[i := (mcs_channels m ! i)\<lparr>ch_joined := True\<rparr>]\<rparr>) = (joined_flags m)[j := True]"
    using channel assms(1) by (simp add: joined_flags_def channels_used_def take_update_swap map_update numeral_eq_Suc)
  moreover have "mark_joined j m = m\<lparr>mcs_channels := (mcs_channels m)[i := (mcs_channels m ! i)\<lparr>ch_joined := True\<rparr>]\<rparr>"
    using channel by (simp add: mark_joined_def Let_def)
  ultimately show ?thesis by simp
qed (simp_all add: mark_joined_def joined_flags_def channels_used_def numeral_eq_Suc)

lemma joined_to_mark:
  assumes "ids_ok m" "j < length (channel_ids m)" "joined_to j m"
  shows "joined_to (Suc j) (mark_joined j m)"
  using assms(3) by (auto simp: joined_to_def joined_flags_mark [OF assms(1,2)] nth_list_update less_Suc_eq mark_joined_ids [OF assms(1)])

text \<open>The loops over the channels.\<close>

lemma client_join_loop_ok:
  assumes "\<And>k. a \<le> k \<Longrightarrow> k < i \<Longrightarrow> ch_joined (cs ! k)" "a \<le> i" "i < a + n" "a + n \<le> length cs" "\<not> ch_joined (cs ! i)"
    "ch_ChannelId (cs ! i) = uint channelId"
  shows "client_join_loop channelId cs a n = Some (True, cs[i := (cs ! i)\<lparr>ch_joined := True\<rparr>], i)"
  using assms
proof (induction n arbitrary: a)
  case (Suc n)
  show ?case
  proof (cases "a = i")
    case True
    then show ?thesis using Suc.prems by (simp add: arr_get_def arr_set_def)
  next
    case False
    then have "ch_joined (cs ! a)" "client_join_loop channelId cs (a + 1) n = Some (True, cs[i := (cs ! i)\<lparr>ch_joined := True\<rparr>], i)"
      using Suc.prems Suc.IH [of "a + 1"] by simp_all
    then show ?thesis using Suc.prems by (simp add: arr_get_def)
  qed
qed simp

definition server_mark :: "u16 \<Rightarrow> rdpMcsChannel \<Rightarrow> rdpMcsChannel" where
  "server_mark channelId c = (if ch_ChannelId c = uint channelId then c\<lparr>ch_joined := True\<rparr> else c)"

lemma server_join_loop_ok:
  "server_join_loop channelId (pre @ xs @ post) (length pre) (length xs) b =
     Some (pre @ map (server_mark channelId) xs @ post, b \<and> (\<forall>x \<in> set xs. ch_joined (server_mark channelId x)))"
proof (induction xs arbitrary: pre b)
  case (Cons x xs)
  have "arr_get (pre @ (x # xs) @ post) (length pre) = Some x"
    "arr_set (pre @ (x # xs) @ post) (length pre) (server_mark channelId x) = Some ((pre @ [server_mark channelId x]) @ xs @ post)"
    by (simp_all add: arr_get_def arr_set_def list_update_append)
  then show ?case using Cons.IH [of "pre @ [server_mark channelId x]"]
    by (auto simp: Let_def simp flip: server_mark_def)
qed simp

lemma server_join_loop_all:
  assumes "ids_ok m"
  shows "server_join_loop channelId (mcs_channels m) 0 (unat (mcs_channelCount m)) True =
     Some (map (server_mark channelId) (channels_used m) @ drop (unat (mcs_channelCount m)) (mcs_channels m),
       \<forall>x \<in> set (channels_used m). ch_joined (server_mark channelId x))"
proof -
  have "length (channels_used m) = unat (mcs_channelCount m)" using assms by (simp add: channels_used_def ids_ok_def)
  then show ?thesis
    using server_join_loop_ok [of channelId "[]" "channels_used m" "drop (unat (mcs_channelCount m)) (mcs_channels m)" True]
    by (simp add: channels_used_def)
qed

section \<open>A step of the client\<close>

lemma request_first_ok:
  assumes "linked (re_mcs E)" "ids_ok (rdp_mcs r)"
  shows "request_first E r = Some (True, mcs_channelCount (rdp_mcs r) = 0, if mcs_channelCount (rdp_mcs r) = 0 then r
     else r\<lparr>rdp_mcs := posted (join_enc (mcs_userId (rdp_mcs r)) (channel_ids (rdp_mcs r) ! first_channel (rdp_mcs r))) (rdp_mcs r)\<rparr>)"
proof (cases "mcs_channelCount (rdp_mcs r) = 0")
  case True
  then show ?thesis by (simp add: request_first_def)
next
  case False
  then have n: "0 < unat (mcs_channelCount (rdp_mcs r))" by (simp add: unat_gt_0)
  then have "channel_ids (rdp_mcs r) ! first_channel (rdp_mcs r) = word_of_int (ch_ChannelId (mcs_channels (rdp_mcs r) ! 0))"
    using ids_nth(5) [OF assms(2), of 0] by simp
  moreover have "0 < length (mcs_channels (rdp_mcs r))" using n assms(2) unfolding ids_ok_def by linarith
  ultimately show ?thesis
    using False assms(1) by (simp add: request_first_def request_join_def with_mcs_def post_pdus(3) arr_get_def word_neq_0_conv)
qed

lemma client_join_ok:
  assumes E: "linked (re_mcs E)" and m: "m = rdp_mcs r" and ok: "ids_ok m" "joined_to j m" "j < length (channel_ids m)"
  shows "client_join E (channel_ids m ! j) r = Some (True, Suc j = length (channel_ids m) \<or> j = 0, r\<lparr>rdp_mcs :=
     if Suc j < length (channel_ids m) then posted (join_enc (mcs_userId m) (channel_ids m ! Suc j)) (mark_joined j m) else mark_joined j m\<rparr>)"
  using ok(1,3)
proof (cases rule: join_cases)
  case user
  then show ?thesis
    using joined_toD [OF ok(2,1)] length_ids [OF ok(1)] E ids_nth(1-3) [of m] m
    by (simp add: client_join_def Let_def request_join_def with_mcs_def post_pdus(3) mark_joined_def)
next
  case global
  have L: "length (channel_ids m) = first_channel m + unat (mcs_channelCount m)" by (rule length_ids [OF ok(1)])
  have f: "first_channel (mark_joined 1 m) = first_channel m" "ids_ok (mark_joined 1 m)" "channel_ids (mark_joined 1 m) = channel_ids m"
    using mark_joined_ids [OF ok(1)] by simp_all
  show ?thesis
  proof (cases "mcs_messageChannelId m = 0")
    case True
    then show ?thesis
      using global joined_toD(1,2) [OF ok(2,1)] L ids_nth(3) [of m] m f request_first_ok [OF E, of "r\<lparr>rdp_mcs := mark_joined 1 m\<rparr>"]
      by (auto simp: client_join_def Let_def mark_joined_def unat_eq_zero numeral_2_eq_2)
  next
    case False
    then show ?thesis
      using global joined_toD(1,2) [OF ok(2,1)] L ids_nth(3,4) [of m] m E
      by (simp add: client_join_def Let_def mark_joined_def request_join_def with_mcs_def post_pdus(3) numeral_eq_Suc)
  qed
next
  case message
  have f: "ids_ok (mark_joined 2 m)" "channel_ids (mark_joined 2 m) = channel_ids m" using mark_joined_ids [OF ok(1)] by simp_all
  show ?thesis
    using message joined_toD(1-3) [OF ok(2,1)] length_ids [OF ok(1)] ids_nth(4) [of m] m f
      request_first_ok [OF E, of "r\<lparr>rdp_mcs := mark_joined 2 m\<rparr>"]
    by (auto simp: client_join_def Let_def mark_joined_def unat_eq_zero numeral_eq_Suc)
next
  case (channel i)
  note J = joined_toD [OF ok(2,1)]
  have i: "i < length (mcs_channels m)" "unat (mcs_channelCount m) \<le> length (mcs_channels m)" "unat (mcs_channelCount m) \<le> 30"
      "ch_ChannelId (mcs_channels m ! i) = uint (channel_ids m ! j)"
    using channel ok(1) ids_okD(2) [OF ok(1)] ids_okD(4) [OF ok(1) channel(2)] ids_nth(5) [OF ok(1) channel(2)]
    by (simp, simp, simp add: ids_ok_def, simp only: channel(1))
  have l: "client_join_loop (channel_ids m ! j) (mcs_channels m) 0 (unat (mcs_channelCount m)) =
      Some (True, (mcs_channels m)[i := (mcs_channels m ! i)\<lparr>ch_joined := True\<rparr>], i)"
    by (rule client_join_loop_ok) (use channel J(4) i in auto)
  have mk: "mark_joined j m = m\<lparr>mcs_channels := (mcs_channels m)[i := (mcs_channels m ! i)\<lparr>ch_joined := True\<rparr>]\<rparr>"
    using channel by (simp add: mark_joined_def Let_def)
  have k: "unat (of_nat i + 1 :: u32) = Suc i" using channel(2) i(3) by (simp add: unat_word_ariths unat_of_nat)
  then have kc: "(of_nat i + 1 :: u32) < mcs_channelCount m \<longleftrightarrow> Suc i < unat (mcs_channelCount m)" by (simp add: word_less_nat_alt)
  have nx: "word_of_int (ch_ChannelId ((mcs_channels m)[i := (mcs_channels m ! i)\<lparr>ch_joined := True\<rparr>] ! Suc i)) = channel_ids m ! Suc j"
    if "Suc i < unat (mcs_channelCount m)" using ids_nth(5) [OF ok(1) that] channel(1) by simp
  have S: "Suc j < length (channel_ids m) \<longleftrightarrow> Suc i < unat (mcs_channelCount m)" "Suc j = length (channel_ids m) \<longleftrightarrow> \<not> Suc i < unat (mcs_channelCount m)"
    using channel length_ids [OF ok(1)] by auto
  have u: "mcs_userChannelJoined m" "mcs_globalChannelJoined m" "j \<noteq> 0" using J channel(1) by auto
  consider "mcs_messageChannelId m = 0" | "mcs_messageChannelJoined m" using J(3) channel(1) by (cases "mcs_messageChannelId m = 0") auto
  then show ?thesis
    by cases (use u l mk k kc nx S i E m in \<open>simp_all add: client_join_def Let_def request_join_def with_mcs_def post_pdus(3) arr_get_def\<close>)
qed

lemma posted_simps [simp]:
  "mcs_userId (posted bs m) = mcs_userId m" "mcs_settings (posted bs m) = mcs_settings m" "mcs_baseChannelId (posted bs m) = mcs_baseChannelId m"
  "mcs_messageChannelId (posted bs m) = mcs_messageChannelId m" "mcs_channels (posted bs m) = mcs_channels m"
  "mcs_channelCount (posted bs m) = mcs_channelCount m" "mcs_userChannelJoined (posted bs m) = mcs_userChannelJoined m"
  "mcs_globalChannelJoined (posted bs m) = mcs_globalChannelJoined m" "mcs_messageChannelJoined (posted bs m) = mcs_messageChannelJoined m"
  "tr_world (mcs_transport (posted bs m)) = tr_world (mcs_transport m) @ [bs]"
  by (simp_all add: posted_def)

text \<open>What the joining depends on does not contain the transport.\<close>

definition same_channels :: "'w rdpMcs \<Rightarrow> 'v rdpMcs \<Rightarrow> bool" where
  "same_channels m k \<longleftrightarrow> mcs_userId m = mcs_userId k \<and> mcs_messageChannelId m = mcs_messageChannelId k \<and> mcs_channels m = mcs_channels k \<and>
     mcs_channelCount m = mcs_channelCount k \<and> mcs_userChannelJoined m = mcs_userChannelJoined k \<and>
     mcs_globalChannelJoined m = mcs_globalChannelJoined k \<and> mcs_messageChannelJoined m = mcs_messageChannelJoined k"

lemma same_channelsD:
  assumes "same_channels m k"
  shows "channel_ids m = channel_ids k" "joined_to j m \<longleftrightarrow> joined_to j k" "ids_ok m \<longleftrightarrow> ids_ok k" "channels_used m = channels_used k"
  using assms by (simp_all add: same_channels_def channel_ids_def joined_to_def joined_flags_def ids_ok_def channels_used_def)

lemma same_channels_posted: "same_channels (posted bs m) m" "same_channels (m\<lparr>mcs_transport := t\<rparr>) m"
  by (simp_all add: same_channels_def)

lemmas posted_channels = same_channelsD [OF same_channels_posted(1)] and transport_channels = same_channelsD [OF same_channels_posted(2)]

definition info_sent :: "'w rdp_env \<Rightarrow> bool" where
  "info_sent E \<longleftrightarrow> (\<forall>r. \<exists>t. re_send_client_info E r = Some (True, r\<lparr>rdp_mcs := (rdp_mcs r)\<lparr>mcs_transport := t\<rparr>\<rparr>))"

lemma client_confirmed:
  assumes E: "linked (re_mcs E)" "info_sent E" and r: "rdp_state r = CONNECTION_STATE_MCS_CHANNEL_JOIN" "m = rdp_mcs r"
    "\<not> se_UseRdpSecurityLayer (mcs_settings m)"
    and ok: "ids_ok m" "joined_to j m" "j < length (channel_ids m)"
  shows "\<exists>r'. rdp_recv_callback E r (stream_of (join_confirm_enc (mcs_userId m) (channel_ids m ! j))) = Some (0, r') \<and>
     (if Suc j < length (channel_ids m)
      then r' = r\<lparr>rdp_mcs := posted (join_enc (mcs_userId m) (channel_ids m ! Suc j)) (mark_joined j m)\<rparr>
      else \<exists>t. r' = r\<lparr>rdp_mcs := (mark_joined j m)\<lparr>mcs_transport := t\<rparr>, rdp_state := CONNECTION_STATE_LICENSING\<rparr>)"
proof -
  let ?L = "length (channel_ids m)"
  obtain s where s: "mcs_recv_channel_join_confirm (stream_of (join_confirm_enc (mcs_userId m) (channel_ids m ! j))) = Some (Some (channel_ids m ! j), s)"
    using read_join_confirm [OF ids_okD(1) [OF ok(1)]] by blast
  note J = client_join_ok [OF E(1) r(2) ok]
  note M = joined_toD(1,2) [OF joined_to_mark [OF ok(1,3,2)] mark_joined_ids(2) [OF ok(1)]]
  have L: "2 \<le> ?L" using length_ids [OF ok(1)] by simp
  have cb: "rdp_recv_callback E r s' = rdp_client_connect_mcs_channel_join_confirm E s' r \<bind> (\<lambda>(ok, r). Some (if ok then 0 else -1, r))" for s'
    using r(1) by (simp add: rdp_recv_callback_def recv_in_state_def state_order)
  show ?thesis
  proof (cases "Suc j < ?L")
    case True
    then show ?thesis
      unfolding cb rdp_client_connect_mcs_channel_join_confirm_def using s J M r(2) by auto
  next
    case False
    let ?r = "r\<lparr>rdp_mcs := mark_joined j m\<rparr>"
    obtain t where t: "re_send_client_info E ?r = Some (True, ?r\<lparr>rdp_mcs := (mark_joined j m)\<lparr>mcs_transport := t\<rparr>\<rparr>)"
      using E(2) [unfolded info_sent_def, rule_format, of ?r] by auto
    have "rdp_client_establish_keys E ?r = Some (True, ?r)" using r(3) by (simp add: rdp_client_establish_keys_def)
    then show ?thesis
      unfolding cb rdp_client_connect_mcs_channel_join_confirm_def using s J M r(2) t False L ok(3)
      by (auto simp: rdp_client_transition_to_state_def Let_def intro!: exI [of _ t])
  qed
qed

section \<open>A step of the server\<close>

definition ids_unique :: "'w rdpMcs \<Rightarrow> bool" where
  "ids_unique m \<longleftrightarrow> distinct (channel_ids m) \<and> 0 \<notin> set (channel_ids m)"

lemma channel_id_index:
  assumes "ids_ok m" "ids_unique m" "j < length (channel_ids m)" "k < unat (mcs_channelCount m)"
  shows "ch_ChannelId (mcs_channels m ! k) = uint (channel_ids m ! j) \<longleftrightarrow> j = first_channel m + k"
proof -
  have l: "first_channel m + k < length (channel_ids m)" using assms(4) length_ids [OF assms(1)] by simp
  have "ch_ChannelId (mcs_channels m ! k) = uint (channel_ids m ! (first_channel m + k))"
    using ids_okD(4) [OF assms(1,4)] ids_nth(5) [OF assms(1,4)] by (simp only:)
  moreover have "distinct (channel_ids m)" using assms(2) by (simp add: ids_unique_def)
  ultimately show ?thesis using nth_eq_iff_index_eq [OF _ l assms(3)] by (metis word_uint_eq_iff)
qed

lemma server_marks:
  assumes "ids_ok m" "ids_unique m" "j < length (channel_ids m)"
  shows "(server_mark_joined (channel_ids m ! j) m)\<lparr>mcs_channels := map (server_mark (channel_ids m ! j)) (channels_used m) @
      drop (unat (mcs_channelCount m)) (mcs_channels m)\<rparr> = mark_joined j m"
proof -
  let ?n = "unat (mcs_channelCount m)" and ?id = "channel_ids m ! j"
  note l = ids_okD(3,2) [OF assms(1)]
  have ix: "?id = channel_ids m ! k \<longleftrightarrow> j = k" if "k < length (channel_ids m)" for k
    using assms(2,3) that nth_eq_iff_index_eq by (auto simp: ids_unique_def)
  have L: "length (channel_ids m) = first_channel m + ?n" by (rule length_ids [OF assms(1)])
  have nz: "?id \<noteq> 0" using assms(2,3) nth_mem by (force simp: ids_unique_def)
  have mk: "map (server_mark ?id) (channels_used m) = channels_used m" if "\<And>k. k < ?n \<Longrightarrow> j \<noteq> first_channel m + k"
    using that channel_id_index [OF assms] channels_used_nth [OF assms(1)] l(1)
    by (intro nth_equalityI) (simp_all add: server_mark_def)
  have whole: "channels_used m @ drop ?n (mcs_channels m) = mcs_channels m" by (simp add: channels_used_def)
  from assms(1,3) show ?thesis
  proof (cases rule: join_cases)
    case user
    then show ?thesis using mk whole ids_nth(1) [of m] by (simp add: server_mark_joined_def mark_joined_def)
  next
    case global
    then show ?thesis using mk whole ids_nth(1,2) [of m] ix [of 0] L by (simp add: server_mark_joined_def mark_joined_def)
  next
    case message
    then show ?thesis using mk whole ids_nth(1,2,4) [of m] ix [of 0] ix [of 1] L by (simp add: server_mark_joined_def mark_joined_def)
  next
    case (channel i)
    have "map (server_mark ?id) (channels_used m) = (channels_used m)[i := (mcs_channels m ! i)\<lparr>ch_joined := True\<rparr>]"
      using channel channel_id_index [OF assms] channels_used_nth [OF assms(1)] l(1)
      by (intro nth_equalityI) (auto simp: server_mark_def nth_list_update)
    moreover have "(channels_used m)[i := x] @ drop ?n (mcs_channels m) = (mcs_channels m)[i := x]" for x
      using channel(2) l by (simp add: channels_used_def list_update_append1 [symmetric])
    moreover have "?id \<noteq> mcs_userId m" "?id \<noteq> MCS_GLOBAL_CHANNEL_ID" "?id \<noteq> mcs_messageChannelId m"
      using ix [of 0] ix [of 1] ix [of 2] ids_nth(1,2,4) [of m] channel(1) nz L
      by (simp, simp, cases "mcs_messageChannelId m = 0") (use nz in simp, use ix [of 2] ids_nth(4) [of m] channel(1) L in simp)
    then have "server_mark_joined ?id m = m" by (simp add: server_mark_joined_def)
    ultimately show ?thesis using channel by (simp add: mark_joined_def Let_def)
  qed
qed

lemma all_joined:
  assumes "ids_ok m" "joined_to j m" "j \<le> length (channel_ids m)"
  shows "mcs_userChannelJoined m \<and> mcs_globalChannelJoined m \<and> (mcs_messageChannelId m = 0 \<or> mcs_messageChannelJoined m) \<and>
     (\<forall>c \<in> set (channels_used m). ch_joined c) \<longleftrightarrow> j = length (channel_ids m)"
proof -
  have "mcs_userChannelJoined m \<and> mcs_globalChannelJoined m \<and> (mcs_messageChannelId m = 0 \<or> mcs_messageChannelJoined m) \<and>
     (\<forall>c \<in> set (channels_used m). ch_joined c) \<longleftrightarrow> (\<forall>b \<in> set (joined_flags m). b)"
    by (auto simp: joined_flags_def)
  also have "\<dots> \<longleftrightarrow> (\<forall>i < length (channel_ids m). i < j)"
    using assms(2) by (simp add: all_set_conv_all_nth joined_to_def)
  also have "\<dots> \<longleftrightarrow> j = length (channel_ids m)" using assms(3) by (meson le_antisym not_le order_refl less_le_not_le)
  finally show ?thesis .
qed

lemma server_early:
  assumes "rdp_state r < CONNECTION_STATE_RDP_SECURITY_COMMENCEMENT"
    "st \<in> {CONNECTION_STATE_MCS_CONNECT, CONNECTION_STATE_MCS_ERECT_DOMAIN, CONNECTION_STATE_MCS_ATTACH_USER, CONNECTION_STATE_RDP_SECURITY_COMMENCEMENT}"
  shows "rdp_server_transition_to_state E st r = (0, r\<lparr>rdp_state := st\<rparr>)"
  using assms by (auto simp: rdp_server_transition_to_state_def Let_def state_order)

lemma server_requested:
  assumes E: "linked (re_mcs E)" and r: "rdp_state r = CONNECTION_STATE_MCS_ATTACH_USER" "m = rdp_mcs r"
    and ok: "ids_ok m" "ids_unique m" "joined_to j m" "j < length (channel_ids m)"
  shows "peer_recv_callback E r (Some (stream_of (join_enc (mcs_userId m) (channel_ids m ! j)))) =
     Some (0, r\<lparr>rdp_mcs := mark_joined j (posted (join_confirm_enc (mcs_userId m) (channel_ids m ! j)) m),
       rdp_state := if Suc j = length (channel_ids m) then CONNECTION_STATE_RDP_SECURITY_COMMENCEMENT else CONNECTION_STATE_MCS_ATTACH_USER\<rparr>)"
proof -
  let ?id = "channel_ids m ! j" and ?L = "length (channel_ids m)"
  define p where "p = posted (join_confirm_enc (mcs_userId m) ?id) m"
  define k where "k = mark_joined j p"
  have pi: "channel_ids p = channel_ids m" "ids_ok p" "joined_to j p" "ids_unique p" "channels_used p = channels_used m"
    using ok posted_channels by (simp_all add: p_def ids_unique_def)
  obtain s where s: "mcs_recv_channel_join_request m (stream_of (join_enc (mcs_userId m) ?id)) = Some (Some ?id, s)"
    using read_join [OF ids_okD(1) [OF ok(1)]] by blast
  let ?q = "server_mark_joined ?id p" and ?cs = "map (server_mark ?id) (channels_used p) @ drop (unat (mcs_channelCount p)) (mcs_channels p)"
  have q: "mcs_channels ?q = mcs_channels p" "mcs_channelCount ?q = mcs_channelCount p" by (simp_all add: server_mark_joined_def)
  have mk: "?q\<lparr>mcs_channels := ?cs\<rparr> = k" using server_marks [OF pi(2,4)] pi(1) ok(4) by (simp add: k_def)
  have u: "channels_used k = map (server_mark ?id) (channels_used p)"
    using arg_cong [OF mk, of channels_used] ids_okD(3) [OF pi(2)] q by (simp add: channels_used_def)
  have lp: "server_join_loop ?id (mcs_channels ?q) 0 (unat (mcs_channelCount ?q)) True = Some (?cs, \<forall>c \<in> set (channels_used k). ch_joined c)"
    unfolding q u server_join_loop_all [OF pi(2)] by simp
  have ki: "ids_ok k" "joined_to (Suc j) k" "channel_ids k = channel_ids m" "Suc j \<le> ?L"
    using mark_joined_ids [OF pi(2)] joined_to_mark [OF pi(2) _ pi(3)] pi(1) ok(4) by (simp_all add: k_def)
  note a = all_joined [OF ki(1,2), unfolded ki(3), OF ki(4)]
  have w: "with_mcs (mcs_send_channel_join_confirm (re_mcs E) ?id) r = Some (True, r\<lparr>rdp_mcs := p\<rparr>)"
    by (simp add: with_mcs_def post_pdus(4) [OF E] p_def r(2))
  have "rdp_server_accept_mcs_channel_join_request E (stream_of (join_enc (mcs_userId m) ?id)) r =
      Some (True, r\<lparr>rdp_mcs := k, rdp_state := if Suc j = ?L then CONNECTION_STATE_RDP_SECURITY_COMMENCEMENT else CONNECTION_STATE_MCS_ATTACH_USER\<rparr>)"
    unfolding rdp_server_accept_mcs_channel_join_request_def r(2) [symmetric] s bind.bind_lunit prod.case option.case w Let_def
    using lp mk a r(1) server_early [of "r\<lparr>rdp_mcs := k\<rparr>" CONNECTION_STATE_RDP_SECURITY_COMMENCEMENT E] by (auto simp: state_order)
  then show ?thesis using r(1) by (simp add: peer_recv_callback.simps peer_call_def k_def p_def)
qed

end
