(* ===== verification/McsRun.thy ===== *)
theory McsRun
  imports McsJoin
begin

unbundle bit_operations_syntax

text \<open>
  A client and a server linked by two queues of units. From the moment at which the client sends its Connect
  Initial PDU, every run arrives at a state in which the user is attached and all channels are joined on both sides.
\<close>

section \<open>The network\<close>

type_synonym node = "byte list list rdpRdp"

definition outbox :: "node \<Rightarrow> byte list list" where
  "outbox r = tr_world (mcs_transport (rdp_mcs r))"

definition set_outbox :: "byte list list \<Rightarrow> node \<Rightarrow> node" where
  "set_outbox us r = r\<lparr>rdp_mcs := (rdp_mcs r)\<lparr>mcs_transport := (mcs_transport (rdp_mcs r))\<lparr>tr_world := us\<rparr>\<rparr>\<rparr>"

text \<open>A unit is delivered to one of the two sides, whose callback must not fail.\<close>

inductive net_step :: "byte list list rdp_env \<Rightarrow> byte list list rdp_env \<Rightarrow> node \<times> node \<Rightarrow> node \<times> node \<Rightarrow> bool" for Ec Es where
  to_server: "net_step Ec Es (c, s) (set_outbox us c, s')"
    if "outbox c = u # us" "peer_recv_callback Es s (Some (stream_of u)) = Some (status, s')" "0 \<le> status"
| to_client: "net_step Ec Es (c, s) (c', set_outbox us s)"
    if "outbox s = u # us" "rdp_recv_callback Ec c (stream_of u) = Some (status, c')" "0 \<le> status"

inductive_simps net_step_iff: "net_step Ec Es (c, s) x"

text \<open>Every run of a relation comes to a state with a property; in particular it does not stop before.\<close>

inductive inevitable :: "('a \<Rightarrow> 'a \<Rightarrow> bool) \<Rightarrow> ('a \<Rightarrow> bool) \<Rightarrow> 'a \<Rightarrow> bool" for R P where
  now: "P x \<Longrightarrow> inevitable R P x"
| later: "R x y \<Longrightarrow> (\<And>z. R x z \<Longrightarrow> inevitable R P z) \<Longrightarrow> inevitable R P x"

lemma server_turn:
  assumes "outbox c = u # us" "outbox s = []" "peer_recv_callback Es s (Some (stream_of u)) = Some (0, s')"
    "inevitable (net_step Ec Es) P (set_outbox us c, s')"
  shows "inevitable (net_step Ec Es) P (c, s)"
proof (rule inevitable.later)
  show "net_step Ec Es (c, s) (set_outbox us c, s')" by (rule to_server [OF assms(1,3)]) simp
  show "inevitable (net_step Ec Es) P z" if "net_step Ec Es (c, s) z" for z
    using that assms by (auto simp: net_step_iff)
qed

lemma client_turn:
  assumes "outbox s = u # us" "outbox c = []" "rdp_recv_callback Ec c (stream_of u) = Some (0, c')"
    "inevitable (net_step Ec Es) P (c', set_outbox us s)"
  shows "inevitable (net_step Ec Es) P (c, s)"
proof (rule inevitable.later)
  show "net_step Ec Es (c, s) (c', set_outbox us s)" by (rule to_client [OF assms(1,3)]) simp
  show "inevitable (net_step Ec Es) P z" if "net_step Ec Es (c, s) z" for z
    using that assms by (auto simp: net_step_iff)
qed

lemma outbox_simps [simp]:
  "outbox (set_outbox us r) = us" "rdp_state (set_outbox us r) = rdp_state r"
  "mcs_settings (rdp_mcs (set_outbox us r)) = mcs_settings (rdp_mcs r)"
  by (simp_all add: outbox_def set_outbox_def)

lemma same_set_outbox: "same_channels (rdp_mcs (set_outbox us r)) (rdp_mcs r)"
  by (simp add: set_outbox_def same_channels_def)

section \<open>Both sides have joined everything\<close>

definition channel_names :: "gcc_settings \<Rightarrow> byte list list" where
  "channel_names cl = map cd_name (take (unat (se_ChannelCount cl)) (se_ChannelDefArray cl))"

definition side_connected :: "gcc_settings \<Rightarrow> 'w rdpMcs \<Rightarrow> bool" where
  "side_connected cl m \<longleftrightarrow> mcs_userChannelJoined m \<and> mcs_globalChannelJoined m \<and> (mcs_messageChannelId m = 0 \<or> mcs_messageChannelJoined m) \<and>
     (\<forall>c \<in> set (channels_used m). ch_joined c) \<and> map ch_Name (channels_used m) = channel_names cl \<and>
     map ch_ChannelId (channels_used m) = map (\<lambda>i. 1004 + int i) [0..<unat (se_ChannelCount cl)]"

definition connected :: "gcc_settings \<Rightarrow> node \<times> node \<Rightarrow> bool" where
  "connected cl = (\<lambda>(c, s). rdp_state c = CONNECTION_STATE_LICENSING \<and> rdp_state s = CONNECTION_STATE_RDP_SECURITY_COMMENCEMENT \<and>
     side_connected cl (rdp_mcs c) \<and> side_connected cl (rdp_mcs s) \<and> mcs_userId (rdp_mcs c) = mcs_userId (rdp_mcs s) \<and>
     mcs_messageChannelId (rdp_mcs c) = mcs_messageChannelId (rdp_mcs s) \<and> distinct (channel_ids (rdp_mcs c)))"

section \<open>The joining of the channels\<close>

text \<open>What stays as it is while the channels are joined.\<close>

definition side_ok :: "gcc_settings \<Rightarrow> u16 list \<Rightarrow> 'w rdpMcs \<Rightarrow> bool" where
  "side_ok cl ids m \<longleftrightarrow> ids_ok m \<and> ids_unique m \<and> channel_ids m = ids \<and> map ch_Name (channels_used m) = channel_names cl \<and>
     map ch_ChannelId (channels_used m) = map (\<lambda>i. 1004 + int i) [0..<unat (se_ChannelCount cl)]"

lemma side_ok_same: "same_channels m k \<Longrightarrow> side_ok cl ids m \<longleftrightarrow> side_ok cl ids k"
  by (simp add: side_ok_def ids_unique_def same_channelsD)

lemma side_ok_mark: "side_ok cl ids m \<Longrightarrow> side_ok cl ids (mark_joined j m)"
  by (auto simp: side_ok_def ids_unique_def mark_joined_ids mark_joined_channels)

definition request_phase :: "gcc_settings \<Rightarrow> u16 list \<Rightarrow> nat \<Rightarrow> node \<Rightarrow> node \<Rightarrow> bool" where
  "request_phase cl ids j c s \<longleftrightarrow> rdp_state c = CONNECTION_STATE_MCS_CHANNEL_JOIN \<and> rdp_state s = CONNECTION_STATE_MCS_ATTACH_USER \<and>
     side_ok cl ids (rdp_mcs c) \<and> side_ok cl ids (rdp_mcs s) \<and> mcs_messageChannelId (rdp_mcs c) = mcs_messageChannelId (rdp_mcs s) \<and>
     \<not> se_UseRdpSecurityLayer (mcs_settings (rdp_mcs c)) \<and>
     outbox c = [join_enc (hd ids) (ids ! j)] \<and> outbox s = [] \<and> joined_to j (rdp_mcs c) \<and> joined_to j (rdp_mcs s)"

definition confirm_phase :: "gcc_settings \<Rightarrow> u16 list \<Rightarrow> nat \<Rightarrow> node \<Rightarrow> node \<Rightarrow> bool" where
  "confirm_phase cl ids j c s \<longleftrightarrow> rdp_state c = CONNECTION_STATE_MCS_CHANNEL_JOIN \<and>
     rdp_state s = (if Suc j = length ids then CONNECTION_STATE_RDP_SECURITY_COMMENCEMENT else CONNECTION_STATE_MCS_ATTACH_USER) \<and>
     side_ok cl ids (rdp_mcs c) \<and> side_ok cl ids (rdp_mcs s) \<and> mcs_messageChannelId (rdp_mcs c) = mcs_messageChannelId (rdp_mcs s) \<and>
     \<not> se_UseRdpSecurityLayer (mcs_settings (rdp_mcs c)) \<and>
     outbox c = [] \<and> outbox s = [join_confirm_enc (hd ids) (ids ! j)] \<and> joined_to j (rdp_mcs c) \<and> joined_to (Suc j) (rdp_mcs s)"

lemma user_hd: "hd (channel_ids m) = mcs_userId m"
  by (simp add: channel_ids_def)

lemma request_served:
  assumes "linked (re_mcs Es)" "request_phase cl ids j c s" "j < length ids"
  obtains s' where "peer_recv_callback Es s (Some (stream_of (join_enc (hd ids) (ids ! j)))) = Some (0, s')"
    "confirm_phase cl ids j (set_outbox [] c) s'"
proof -
  let ?m = "rdp_mcs s" and ?p = "posted (join_confirm_enc (hd ids) (ids ! j)) (rdp_mcs s)"
  have p: "rdp_state s = CONNECTION_STATE_MCS_ATTACH_USER" "side_ok cl ids ?m" "joined_to j ?m" "outbox s = []"
    using assms(2) by (simp_all add: request_phase_def)
  then have i: "ids_ok ?m" "ids_unique ?m" "channel_ids ?m = ids" "hd ids = mcs_userId ?m" using user_hd [of ?m] by (auto simp: side_ok_def)
  note S = server_requested [OF assms(1) p(1) refl i(1,2) p(3), unfolded i(3), OF assms(3), folded i(4)]
  have q: "side_ok cl ids ?p" "joined_to j ?p" "ids_ok ?p" "channel_ids ?p = ids"
    using p i posted_channels side_ok_same [OF same_channels_posted(1)] by simp_all
  have k: "side_ok cl ids (mark_joined j ?p)" "joined_to (Suc j) (mark_joined j ?p)"
    using side_ok_mark [OF q(1)] joined_to_mark [OF q(3) _ q(2)] q(4) assms(3) by simp_all
  have "confirm_phase cl ids j (set_outbox [] c) (s\<lparr>rdp_mcs := mark_joined j ?p,
      rdp_state := if Suc j = length ids then CONNECTION_STATE_RDP_SECURITY_COMMENCEMENT else CONNECTION_STATE_MCS_ATTACH_USER\<rparr>)"
    using assms(2) k p(4) same_channelsD [OF same_set_outbox] side_ok_same [OF same_set_outbox]
    by (simp add: confirm_phase_def request_phase_def outbox_def) (simp add: set_outbox_def)
  then show ?thesis using S that by simp
qed

lemma confirm_served:
  assumes "linked (re_mcs Ec)" "info_sent Ec" "confirm_phase cl ids j c s" "j < length ids"
  obtains c' where "rdp_recv_callback Ec c (stream_of (join_confirm_enc (hd ids) (ids ! j))) = Some (0, c')"
    "if Suc j < length ids then request_phase cl ids (Suc j) c' (set_outbox [] s) else connected cl (c', set_outbox [] s)"
proof -
  let ?m = "rdp_mcs c"
  have p: "rdp_state c = CONNECTION_STATE_MCS_CHANNEL_JOIN" "side_ok cl ids ?m" "joined_to j ?m" "outbox c = []"
      "\<not> se_UseRdpSecurityLayer (mcs_settings ?m)" "side_ok cl ids (rdp_mcs s)" "joined_to (Suc j) (rdp_mcs s)"
    using assms(3) by (simp_all add: confirm_phase_def)
  then have i: "ids_ok ?m" "channel_ids ?m = ids" "hd ids = mcs_userId ?m" using user_hd [of ?m] by (auto simp: side_ok_def)
  have k: "side_ok cl ids (mark_joined j ?m)" "joined_to (Suc j) (mark_joined j ?m)"
    using side_ok_mark [OF p(2)] joined_to_mark [OF i(1) _ p(3)] i(2) assms(4) by simp_all
  obtain c' where c': "rdp_recv_callback Ec c (stream_of (join_confirm_enc (hd ids) (ids ! j))) = Some (0, c')"
      "if Suc j < length ids then c' = c\<lparr>rdp_mcs := posted (join_enc (hd ids) (ids ! Suc j)) (mark_joined j ?m)\<rparr>
       else \<exists>t. c' = c\<lparr>rdp_mcs := (mark_joined j ?m)\<lparr>mcs_transport := t\<rparr>, rdp_state := CONNECTION_STATE_LICENSING\<rparr>"
    using client_confirmed [OF assms(1,2) p(1) refl p(5) i(1) p(3), unfolded i(2), OF assms(4)] i(3) by auto
  have s: "side_ok cl ids (rdp_mcs (set_outbox [] s))" "joined_to (Suc j) (rdp_mcs (set_outbox [] s))"
    using p(6,7) same_channelsD [OF same_set_outbox] side_ok_same [OF same_set_outbox] by simp_all
  have mi: "mcs_messageChannelId (rdp_mcs (set_outbox [] s)) = mcs_messageChannelId (rdp_mcs s)"
      "tr_world (mcs_transport (rdp_mcs (set_outbox [] s))) = []" by (simp_all add: set_outbox_def)
  show ?thesis
  proof (cases "Suc j < length ids")
    case True
    then have "request_phase cl ids (Suc j) c' (set_outbox [] s)"
      using c'(2) assms(3) s mi p k posted_channels side_ok_same [OF same_channels_posted(1)]
      by (simp add: request_phase_def confirm_phase_def outbox_def)
    then show ?thesis using that c'(1) True by simp
  next
    case False
    then obtain t where t: "c' = c\<lparr>rdp_mcs := (mark_joined j ?m)\<lparr>mcs_transport := t\<rparr>, rdp_state := CONNECTION_STATE_LICENSING\<rparr>" using c'(2) by auto
    have L: "Suc j = length ids" using False assms(4) by simp
    have f: "side_connected cl m" if "side_ok cl ids m" "joined_to (Suc j) m" for m :: "byte list list rdpMcs"
      using that all_joined [of m "Suc j"] L by (simp add: side_ok_def side_connected_def)
    have k': "side_ok cl ids (rdp_mcs c')" "joined_to (Suc j) (rdp_mcs c')"
      using k transport_channels side_ok_same [OF same_channels_posted(2)] by (simp_all add: t)
    have "mcs_userId (rdp_mcs c') = mcs_userId (rdp_mcs (set_outbox [] s))"
      using k'(1) s(1) user_hd unfolding side_ok_def by metis
    moreover have "distinct (channel_ids (rdp_mcs c'))" using k'(1) unfolding side_ok_def ids_unique_def by blast
    ultimately have "connected cl (c', set_outbox [] s)"
      using assms(3) f [OF k'] f [OF s] L mi by (simp add: connected_def confirm_phase_def t)
    then show ?thesis using that c'(1) False by simp
  qed
qed

lemma joining_ends:
  assumes "linked (re_mcs Ec)" "linked (re_mcs Es)" "info_sent Ec" "request_phase cl ids j c s" "j < length ids"
  shows "inevitable (net_step Ec Es) (connected cl) (c, s)"
  using assms(4,5)
proof (induction "length ids - j" arbitrary: j c s rule: less_induct)
  case less
  obtain s' where s': "peer_recv_callback Es s (Some (stream_of (join_enc (hd ids) (ids ! j)))) = Some (0, s')"
      "confirm_phase cl ids j (set_outbox [] c) s'"
    using request_served [OF assms(2) less.prems] .
  obtain c' where c': "rdp_recv_callback Ec (set_outbox [] c) (stream_of (join_confirm_enc (hd ids) (ids ! j))) = Some (0, c')"
      "if Suc j < length ids then request_phase cl ids (Suc j) c' (set_outbox [] s') else connected cl (c', set_outbox [] s')"
    using confirm_served [OF assms(1,3) s'(2) less.prems(2)] .
  have "inevitable (net_step Ec Es) (connected cl) (c', set_outbox [] s')"
    using c'(2) less.hyps [of "Suc j"] less.prems(2) by (cases "Suc j < length ids") (auto intro: inevitable.now)
  then have "inevitable (net_step Ec Es) (connected cl) (set_outbox [] c, s')"
    using client_turn [OF _ _ c'(1)] s'(2) by (simp add: confirm_phase_def)
  then show ?case using server_turn [OF _ _ s'(1)] less.prems(1) by (simp add: request_phase_def)
qed

section \<open>From the connect PDUs to the first request\<close>

lemma agreed_ids:
  assumes "channels_agree cl mc ms" "unat (se_ChannelCount cl) \<le> 16" "u = mcs_baseChannelId ms"
  defines "n \<equiv> unat (se_ChannelCount cl)" and "msg \<equiv> extended cl \<and> msg_wanted cl"
  shows "map unat (channel_ids (mc\<lparr>mcs_userId := u\<rparr>)) = (1004 + n + of_bool msg) # 1003 # (if msg then [1004 + n] else []) @ map ((+) 1004) [0..<n]"
    "channel_ids (ms\<lparr>mcs_userId := u\<rparr>) = channel_ids (mc\<lparr>mcs_userId := u\<rparr>)"
proof -
  have a: "mcs_channelCount mc = se_ChannelCount cl" "mcs_channelCount ms = se_ChannelCount cl" "n \<le> length (mcs_channels mc)" "n \<le> length (mcs_channels ms)"
      "mcs_messageChannelId mc = mcs_messageChannelId ms" "mcs_messageChannelId ms = (if msg then 1004 + ucast (se_ChannelCount cl) else 0)"
      "u = 1004 + ucast (se_ChannelCount cl) + (if msg then 1 else 0)"
    using assms(1,3) by (auto simp: channels_agree_def Let_def n_def msg_def)
  have c: "ch_ChannelId (mcs_channels mc ! i) = 1004 + int i" "ch_ChannelId (mcs_channels ms ! i) = 1004 + int i" if "i < n" for i
    using assms(1) that by (auto simp: channels_agree_def Let_def n_def)
  have n: "unat (ucast (se_ChannelCount cl) :: u16) = n" "n \<le> 16"
    using assms(2) by (simp_all add: n_def unat_ucast_mod)
  have m: "unat (1004 + ucast (se_ChannelCount cl) :: u16) = 1004 + n" using n by (simp add: unat_word_ariths)
  have "unat (1004 + ucast (se_ChannelCount cl) + 1 :: u16) = 1005 + n" using n m by (simp add: unat_word_ariths)
  then have u: "unat u = 1004 + n + of_bool msg" using m unfolding a(7) by simp
  have z: "1004 + ucast (se_ChannelCount cl) \<noteq> (0 :: u16)" using m by (metis add_eq_0_iff_both_eq_0 unat_0 zero_neq_numeral)
  have used: "map ch_ChannelId (channels_used mc) = map (\<lambda>i. 1004 + int i) [0..<n]" "map ch_ChannelId (channels_used ms) = map (\<lambda>i. 1004 + int i) [0..<n]"
    using a(1-4) c by (auto simp: channels_used_def n_def intro!: nth_equalityI)
  have w: "map (\<lambda>c. word_of_int (ch_ChannelId c)) (channels_used k) = map (\<lambda>i. word_of_int (1004 + int i) :: u16) [0..<n]"
    if "map ch_ChannelId (channels_used k) = map (\<lambda>i. 1004 + int i) [0..<n]" for k :: "'x rdpMcs"
    using arg_cong [OF that, of "map (word_of_int :: int \<Rightarrow> u16)"] by (simp add: o_def)
  have v: "map unat (map (\<lambda>i. word_of_int (1004 + int i) :: u16) [0..<n]) = map ((+) 1004) [0..<n]"
  proof (intro nth_equalityI)
    fix i assume "i < length (map unat (map (\<lambda>i. word_of_int (1004 + int i) :: u16) [0..<n]))"
    then have "i < 16" "i < n" using n(2) by simp_all
    then show "map unat (map (\<lambda>i. word_of_int (1004 + int i) :: u16) [0..<n]) ! i = map ((+) 1004) [0..<n] ! i"
      using channel_id_value(2) [of i] by (simp add: nat_eq_iff flip: nat_uint_eq)
  qed simp
  have k: "channels_used (mc\<lparr>mcs_userId := u\<rparr>) = channels_used mc" "channels_used (ms\<lparr>mcs_userId := u\<rparr>) = channels_used ms"
    by (simp_all add: channels_used_def)
  show "map unat (channel_ids (mc\<lparr>mcs_userId := u\<rparr>)) = (1004 + n + of_bool msg) # 1003 # (if msg then [1004 + n] else []) @ map ((+) 1004) [0..<n]"
    using u m z a(5,6) v w [OF used(1)] by (auto simp: channel_ids_def k MCS_GLOBAL_CHANNEL_ID_def)
  show "channel_ids (ms\<lparr>mcs_userId := u\<rparr>) = channel_ids (mc\<lparr>mcs_userId := u\<rparr>)"
    using a(5) w [OF used(1)] w [OF used(2)] by (simp add: channel_ids_def k)
qed

text \<open>Both sides agree on what the joining needs.\<close>

lemma agreed_side_ok:
  assumes "channels_agree cl mc ms" "unat (se_ChannelCount cl) \<le> 16" "unat (se_ChannelCount cl) \<le> length (se_ChannelDefArray cl)"
    and u: "u = mcs_baseChannelId ms" and ids: "ids = channel_ids (mc\<lparr>mcs_userId := u\<rparr>)"
  shows "side_ok cl ids (mc\<lparr>mcs_userId := u\<rparr>)" "side_ok cl ids (ms\<lparr>mcs_userId := u\<rparr>)" "MCS_BASE_CHANNEL_ID \<le> u"
proof -
  let ?n = "unat (se_ChannelCount cl)"
  note I = agreed_ids [OF assms(1,2) u]
  have a: "mcs_channelCount mc = se_ChannelCount cl" "mcs_channelCount ms = se_ChannelCount cl" "?n \<le> length (mcs_channels mc)" "?n \<le> length (mcs_channels ms)"
    using assms(1) by (auto simp: channels_agree_def Let_def)
  have c: "ch_ChannelId (mcs_channels mc ! i) = 1004 + int i" "ch_ChannelId (mcs_channels ms ! i) = 1004 + int i"
      "ch_Name (mcs_channels ms ! i) = cd_name (se_ChannelDefArray cl ! i)" "ch_Name (mcs_channels mc ! i) = cd_name (se_ChannelDefArray cl ! i)"
    if "i < ?n" for i using assms(1) that by (auto simp: channels_agree_def Let_def)
  have used: "map ch_ChannelId (channels_used mc) = map (\<lambda>i. 1004 + int i) [0..<?n]" "map ch_ChannelId (channels_used ms) = map (\<lambda>i. 1004 + int i) [0..<?n]"
      "map ch_Name (channels_used mc) = channel_names cl" "map ch_Name (channels_used ms) = channel_names cl"
    using a c assms(3) by (auto simp: channels_used_def channel_names_def intro!: nth_equalityI)
  have fit: "\<forall>x \<in> set (channels_used k). ch_ChannelId x = uint (word_of_int (ch_ChannelId x) :: u16)"
    if "map ch_ChannelId (channels_used k) = map (\<lambda>i. 1004 + int i) [0..<?n]" for k :: "'x rdpMcs"
  proof
    fix x assume "x \<in> set (channels_used k)"
    then have "ch_ChannelId x \<in> set (map (\<lambda>i. 1004 + int i) [0..<?n])" unfolding that [symmetric] by simp
    then obtain i where "i < 16" "ch_ChannelId x = 1004 + int i" using assms(2) by auto
    then show "ch_ChannelId x = uint (word_of_int (ch_ChannelId x) :: u16)" using channel_id_value(2) by metis
  qed
  have "distinct (map unat ids)" "0 \<notin> set (map unat ids)" "hd (map unat ids) \<ge> 1001" unfolding ids I(1) by (auto simp: distinct_map)
  moreover have "ids \<noteq> []" "hd ids = u" by (simp_all add: ids channel_ids_def)
  ultimately have d: "distinct ids" "0 \<notin> set ids" and b: "MCS_BASE_CHANNEL_ID \<le> u"
    by (auto simp: distinct_map hd_map MCS_BASE_CHANNEL_ID_def word_le_nat_alt image_iff)
  show "MCS_BASE_CHANNEL_ID \<le> u" by (rule b)
  show "side_ok cl ids (mc\<lparr>mcs_userId := u\<rparr>)" "side_ok cl ids (ms\<lparr>mcs_userId := u\<rparr>)"
    using d b a used fit [OF used(1)] fit [OF used(2)] assms(2) I(2)
    by (simp_all add: side_ok_def ids_ok_def ids_unique_def ids channels_used_def)
qed

lemma none_joined:
  assumes "\<not> mcs_userChannelJoined m" "\<not> mcs_globalChannelJoined m" "\<not> mcs_messageChannelJoined m" "\<And>c. c \<in> set (channels_used m) \<Longrightarrow> \<not> ch_joined c"
  shows "joined_to 0 m"
proof -
  have "b = False" if "b \<in> set (joined_flags m)" for b using that assms by (auto simp: joined_flags_def split: if_splits)
  then show ?thesis unfolding joined_to_def using nth_mem by blast
qed

text \<open>The callbacks before the joining.\<close>

lemma client_begins:
  assumes "linked (re_mcs E)" "mcs_new True True tc cl = Some (rdp_mcs c)" "client_settings_ok (me_gcc (re_mcs E)) cl"
  shows "mcs_client_begin E c = Some (True, c\<lparr>rdp_mcs := posted (initial_enc (me_gcc (re_mcs E)) (client_begun cl (rdp_mcs c))) (client_asked cl (rdp_mcs c)),
     rdp_state := CONNECTION_STATE_MCS_CONNECT\<rparr>)"
proof -
  let ?d = "initial_enc (me_gcc (re_mcs E)) (client_begun cl (rdp_mcs c))"
  note B = client_begun_ok [OF assms(2,3)]
  have se: "mcs_settings (rdp_mcs c) = cl" using B(7) by (simp add: client_begun_def)
  have E: "env_ok (re_mcs E)" "me_bio (re_mcs E) = mailbox_bio" using assms(1) by (simp_all add: linked_def)
  obtain p where p: "mcs_connect_initial_pdu (re_mcs E) (client_begun cl (rdp_mcs c)) = Some (Some p, client_asked cl (rdp_mcs c))" "sealed_with ?d p"
    using client_asks [OF E(1) assms(2,3)] by auto
  note l = length_initial_enc [OF B(2)]
  have "mcs_transport_write (re_mcs E) (client_asked cl (rdp_mcs c)) p = Some (True, posted ?d (client_asked cl (rdp_mcs c)))"
    by (rule mailbox_transport_write [OF p(2) l(2) _ E(2)]) (use l(1) in simp)
  then have "mcs_send_connect_initial (re_mcs E) (rdp_mcs c) = Some (True, posted ?d (client_asked cl (rdp_mcs c)))"
    using B(1) p(1) by (simp add: mcs_send_connect_initial_def se)
  then show ?thesis by (simp add: mcs_client_begin_def with_mcs_def rdp_client_transition_to_state_def Let_def)
qed

lemma server_connects:
  assumes "linked (re_mcs E)" "rdp_state s = CONNECTION_STATE_NEGO"
    and "mcs_recv_connect_initial (me_gcc (re_mcs E)) (rdp_mcs s) (stream_of d) = Some (True, ms, t)" "server_joined cl sv ms0 ms"
  shows "peer_recv_callback E s (Some (stream_of d)) =
     Some (0, s\<lparr>rdp_mcs := posted (response_enc ms) (ms\<lparr>mcs_settings := no_encryption (mcs_settings ms)\<rparr>), rdp_state := CONNECTION_STATE_MCS_CONNECT\<rparr>)"
proof -
  let ?m = "ms\<lparr>mcs_settings := no_encryption (mcs_settings ms)\<rparr>"
  have E: "env_ok (re_mcs E)" "me_bio (re_mcs E) = mailbox_bio" using assms(1) by (simp_all add: linked_def)
  obtain p where p: "mcs_connect_response_pdu (re_mcs E) ms = Some (Some p, ?m)" "sealed_with (response_enc ms) p"
    using server_answers_pdu [OF E(1) assms(4)] by auto
  have "server_ok ms" using assms(4) by (simp add: server_joined_def)
  note l = length_response_enc [OF this]
  have "mcs_transport_write (re_mcs E) ?m p = Some (True, posted (response_enc ms) ?m)"
    by (rule mailbox_transport_write [OF p(2) l(2) _ E(2)]) (use l(1) in simp)
  then have "mcs_send_connect_response (re_mcs E) ms = Some (True, posted (response_enc ms) ?m)"
    using p(1) by (simp add: mcs_send_connect_response_def)
  then show ?thesis
    using assms(2,3)
    by (simp add: peer_recv_callback.simps peer_call_def rdp_server_accept_mcs_connect_initial_def with_mcs_def server_early state_order)
qed

lemma client_learned:
  assumes "linked (re_mcs E)" "rdp_state c = CONNECTION_STATE_MCS_CONNECT"
    and "mcs_recv_connect_response (me_gcc (re_mcs E)) (rdp_mcs c) (stream_of d) = Some (True, m, t)"
  shows "rdp_recv_callback E c (stream_of d) =
     Some (0, c\<lparr>rdp_mcs := posted attach_enc (posted erect_enc m), rdp_state := CONNECTION_STATE_MCS_ATTACH_USER\<rparr>)"
  using assms(2,3) post_pdus(1,2) [OF assms(1)]
  by (simp add: rdp_recv_callback_def recv_in_state_def recv_mcs_connect_def with_mcs_def rdp_client_transition_to_state_def Let_def state_order)

lemma server_erected:
  assumes "rdp_state s = CONNECTION_STATE_MCS_CONNECT"
  shows "peer_recv_callback E s (Some (stream_of erect_enc)) = Some (0, s\<lparr>rdp_state := CONNECTION_STATE_MCS_ERECT_DOMAIN\<rparr>)"
  using assms read_erect
  by (auto simp: peer_recv_callback.simps peer_call_def rdp_server_accept_mcs_erect_domain_request_def server_early state_order)

lemma server_attached:
  assumes "linked (re_mcs E)" "rdp_state s = CONNECTION_STATE_MCS_ERECT_DOMAIN" "m = rdp_mcs s"
  shows "peer_recv_callback E s (Some (stream_of attach_enc)) = Some (0, s\<lparr>rdp_mcs := posted (attach_confirm_enc (mcs_baseChannelId m))
     (m\<lparr>mcs_userId := mcs_baseChannelId m, mcs_baseChannelId := mcs_baseChannelId m + 1\<rparr>), rdp_state := CONNECTION_STATE_MCS_ATTACH_USER\<rparr>)"
  using assms(2,3) read_attach post_attach_confirm [OF assms(1)]
  by (auto simp: peer_recv_callback.simps peer_call_def rdp_server_accept_mcs_attach_user_request_def with_mcs_def server_early state_order)

lemma client_attached:
  assumes "linked (re_mcs E)" "rdp_state c = CONNECTION_STATE_MCS_ATTACH_USER" "MCS_BASE_CHANNEL_ID \<le> u"
  shows "rdp_recv_callback E c (stream_of (attach_confirm_enc u)) =
     Some (0, c\<lparr>rdp_mcs := posted (join_enc u u) ((rdp_mcs c)\<lparr>mcs_userId := u\<rparr>), rdp_state := CONNECTION_STATE_MCS_CHANNEL_JOIN\<rparr>)"
  using assms(2) read_attach_confirm [OF assms(3), of "rdp_mcs c"] post_pdus(3) [OF assms(1)]
  by (auto simp: rdp_recv_callback_def recv_in_state_def recv_mcs_attach_user_def with_mcs_def rdp_client_transition_to_state_def Let_def state_order)

lemma mcs_new_fields:
  assumes "mcs_new True True t se = Some m"
  shows "mcs_transport m = t" "\<not> mcs_userChannelJoined m" "\<not> mcs_globalChannelJoined m" "\<not> mcs_messageChannelJoined m"
  using assms by (auto simp: mcs_new_def)

text \<open>From the erection of the domain on, the two sides need only what they agree on.\<close>

definition fresh_side :: "'w rdpMcs \<Rightarrow> 'v rdpMcs \<Rightarrow> bool" where
  "fresh_side k m \<longleftrightarrow> same_channels m k \<and> mcs_baseChannelId m = mcs_baseChannelId k \<and>
     \<not> mcs_userChannelJoined k \<and> \<not> mcs_globalChannelJoined k \<and> \<not> mcs_messageChannelJoined k"

lemma attaching_ends:
  assumes E: "linked (re_mcs Ec)" "linked (re_mcs Es)" "info_sent Ec"
    and ag: "channels_agree cl mc ms" "unat (se_ChannelCount cl) \<le> 16" "unat (se_ChannelCount cl) \<le> length (se_ChannelDefArray cl)"
    and c: "rdp_state c = CONNECTION_STATE_MCS_ATTACH_USER" "outbox c = [erect_enc, attach_enc]" "fresh_side mc (rdp_mcs c)"
      "\<not> se_UseRdpSecurityLayer (mcs_settings (rdp_mcs c))"
    and s: "rdp_state s = CONNECTION_STATE_MCS_CONNECT" "outbox s = []" "fresh_side ms (rdp_mcs s)"
  shows "inevitable (net_step Ec Es) (connected cl) (c, s)"
proof -
  define u where "u = mcs_baseChannelId ms"
  define ids where "ids = channel_ids (mc\<lparr>mcs_userId := u\<rparr>)"
  note ok = agreed_side_ok [OF ag u_def ids_def]
  define s3 where "s3 = s\<lparr>rdp_state := CONNECTION_STATE_MCS_ERECT_DOMAIN\<rparr>"
  define s4 where "s4 = s3\<lparr>rdp_mcs := posted (attach_confirm_enc u) ((rdp_mcs s3)\<lparr>mcs_userId := u, mcs_baseChannelId := u + 1\<rparr>),
      rdp_state := CONNECTION_STATE_MCS_ATTACH_USER\<rparr>"
  define c4 where "c4 = set_outbox [] (set_outbox [attach_enc] c)"
  define c5 where "c5 = c4\<lparr>rdp_mcs := posted (join_enc u u) ((rdp_mcs c4)\<lparr>mcs_userId := u\<rparr>), rdp_state := CONNECTION_STATE_MCS_CHANNEL_JOIN\<rparr>"
  note defs = s3_def s4_def c4_def c5_def set_outbox_def posted_def
  have same: "same_channels (rdp_mcs c5) (mc\<lparr>mcs_userId := u\<rparr>)" "same_channels (rdp_mcs (set_outbox [] s4)) (ms\<lparr>mcs_userId := u\<rparr>)"
    using c(3) s(3) by (simp_all add: fresh_side_def same_channels_def defs)
  have ob: "outbox s3 = []" "outbox s4 = [attach_confirm_enc u]" "outbox c4 = []" "outbox c5 = [join_enc u u]"
    using s(2) by (simp_all add: outbox_def defs)
  have u3: "mcs_baseChannelId (rdp_mcs s3) = u" using s(3) by (simp add: s3_def u_def fresh_side_def)
  have nj: "joined_to 0 (mc\<lparr>mcs_userId := u\<rparr>)" "joined_to 0 (ms\<lparr>mcs_userId := u\<rparr>)"
    using c(3) s(3) ag(1) by (auto intro!: none_joined simp: fresh_side_def channels_used_def channels_agree_def Let_def in_set_conv_nth)
  have i: "hd ids = u" "ids ! 0 = u" "0 < length ids" "mcs_messageChannelId mc = mcs_messageChannelId ms"
    using ag(1) by (simp_all add: ids_def channel_ids_def channels_agree_def Let_def)
  have st: "rdp_state s3 = CONNECTION_STATE_MCS_ERECT_DOMAIN" "rdp_state c4 = CONNECTION_STATE_MCS_ATTACH_USER" "rdp_state c5 = CONNECTION_STATE_MCS_CHANNEL_JOIN"
      "rdp_state s4 = CONNECTION_STATE_MCS_ATTACH_USER" "\<not> se_UseRdpSecurityLayer (mcs_settings (rdp_mcs c5))"
    using c(1,4) by (simp_all add: defs)
  have "request_phase cl ids 0 c5 (set_outbox [] s4)"
    using i ob ok nj st same_channelsD(2) [OF same(1)] same_channelsD(2) [OF same(2)] side_ok_same [OF same(1)] side_ok_same [OF same(2)] same
    by (simp add: request_phase_def same_channels_def)
  then have "inevitable (net_step Ec Es) (connected cl) (c5, set_outbox [] s4)" using joining_ends [OF E] i(3) by blast
  then have "inevitable (net_step Ec Es) (connected cl) (c4, s4)"
    using client_turn [OF ob(2,3) client_attached [OF E(1) st(2) ok(3), folded c5_def]] by blast
  then have "inevitable (net_step Ec Es) (connected cl) (set_outbox [attach_enc] c, s3)"
    using server_turn [OF _ ob(1) server_attached [OF E(2) st(1) refl, unfolded u3, folded s4_def]] by (simp add: c4_def)
  then show ?thesis using server_turn [OF c(2) s(2) server_erected [OF s(1), folded s3_def]] by blast
qed

section \<open>Properties\<close>

text \<open>
  C1: the MCS phase of a connection completes. A client and a server, both freshly created and linked by two queues of units, reach
  a state in which both have joined everything, on every run: after \<^verbatim>\<open>mcs_client_begin\<close> no callback fails, no run stops early,
  and the client ends in the licensing state and the server at the commencement of security, with the same user identifier, with
  the user channel, the global channel, the message channel and all virtual channels joined, and with the names and identifiers of
  the channels in the order of the settings of the client.
\<close>

theorem mcs_connection_completes:
  assumes E: "linked (re_mcs Ec)" "linked (re_mcs Es)" "info_sent Ec"
    and new: "mcs_new True True tc cl = Some (rdp_mcs c)" "mcs_new True True ts sv = Some (rdp_mcs s)" "tr_world tc = []" "tr_world ts = []"
    and set: "client_settings_ok (me_gcc (re_mcs Ec)) cl" "names_room sv" "\<not> se_UseRdpSecurityLayer sv" "se_SelectedProtocol sv = se_SelectedProtocol cl"
    and conv: "\<And>w. ge_ConvertFromUnicode (me_gcc (re_mcs Es)) w \<noteq> None" and st: "rdp_state s = CONNECTION_STATE_NEGO"
  shows "\<exists>c'. mcs_client_begin Ec c = Some (True, c') \<and> inevitable (net_step Ec Es) (connected cl) (c', s)"
proof -
  let ?d = "initial_enc (me_gcc (re_mcs Ec)) (client_begun cl (rdp_mcs c))" and ?a = "client_asked cl (rdp_mcs c)"
  obtain ms t where ms: "mcs_recv_connect_initial (me_gcc (re_mcs Es)) (rdp_mcs s) (stream_of ?d) = Some (True, ms, t)"
      "server_joined cl sv (rdp_mcs s) ms"
    using server_accepts [OF new(1,2) set conv] by auto
  note L = client_learns [OF ms(2) new(1) set(1)] and N = mcs_new_fields [OF new(1)] mcs_new_fields [OF new(2)]
  define dn where "dn = client_done ms ?a"
  define ms2 where "ms2 = ms\<lparr>mcs_settings := no_encryption (mcs_settings ms)\<rparr>"
  define c1 where "c1 = c\<lparr>rdp_mcs := posted ?d ?a, rdp_state := CONNECTION_STATE_MCS_CONNECT\<rparr>"
  define s1 where "s1 = s\<lparr>rdp_mcs := posted (response_enc ms) ms2, rdp_state := CONNECTION_STATE_MCS_CONNECT\<rparr>"
  let ?t = "mcs_transport (rdp_mcs (set_outbox [] c1))"
  define c2 where "c2 = (set_outbox [] c1)\<lparr>rdp_mcs := posted attach_enc (posted erect_enc (dn\<lparr>mcs_transport := ?t\<rparr>)),
      rdp_state := CONNECTION_STATE_MCS_ATTACH_USER\<rparr>"
  note defs = c1_def s1_def c2_def set_outbox_def posted_def
  obtain t2 where t2: "mcs_recv_connect_response (me_gcc (re_mcs Ec)) (rdp_mcs (set_outbox [] c1)) (stream_of (response_enc ms)) =
      Some (True, dn\<lparr>mcs_transport := ?t\<rparr>, t2)"
    using L(1) [of "me_gcc (re_mcs Ec)" ?t] by (auto simp: c1_def dn_def set_outbox_def posted_def)
  have ob: "outbox s = []" "outbox c1 = [?d]" "outbox s1 = [response_enc ms]" "outbox c2 = [erect_enc, attach_enc]"
    using N new(3,4) ms(2) by (simp_all add: outbox_def defs client_asked_def client_begun_def ms2_def server_joined_def)
  have ag: "channels_agree cl dn ms2" using L(2) by (simp add: dn_def ms2_def)
  have fresh: "fresh_side dn (rdp_mcs c2)" "fresh_side ms2 (rdp_mcs (set_outbox [] s1))" "\<not> se_UseRdpSecurityLayer (mcs_settings (rdp_mcs c2))"
    using N ms(2) by (simp_all add: fresh_side_def same_channels_def defs dn_def client_done_def server_answered_def client_asked_def client_begun_def
        ms2_def server_joined_def)
  have "inevitable (net_step Ec Es) (connected cl) (c2, set_outbox [] s1)"
    by (rule attaching_ends [OF E ag _ _ _ ob(4) fresh(1,3) _ _ fresh(2)]) (use set(1) in \<open>simp_all add: client_settings_ok_def c2_def s1_def\<close>)
  then have "inevitable (net_step Ec Es) (connected cl) (set_outbox [] c1, s1)"
    using client_turn [OF ob(3) _ client_learned [OF E(1) _ t2, folded c2_def]] by (simp add: c1_def)
  then have "inevitable (net_step Ec Es) (connected cl) (c1, s)"
    using server_turn [OF ob(2,1) server_connects [OF E(2) st ms, folded ms2_def]] unfolding s1_def by blast
  then show ?thesis using client_begins [OF E(1) new(1) set(1)] by (auto simp: c1_def)
qed

text \<open>Two nodes for the example: every handler of another component does nothing.\<close>

definition mailbox_env :: "byte list list mcs_env" where
  "mailbox_env = \<lparr>me_gcc = env_sample, me_bio = mailbox_bio, me_struct_ok = (\<lambda>i. True)\<rparr>"

definition rdp_env_sample :: "byte list list rdp_env" where
  "rdp_env_sample = \<lparr>re_mcs = mailbox_env, re_client_exchange_keys = (\<lambda>r. Some (True, r)), re_send_client_info = (\<lambda>r. Some (True, r)),
     re_auto_detect = (\<lambda>r s. Some (False, r, s)), re_nla_recv_pdu = (\<lambda>r s. Some (1, False, r)), re_client_license = (\<lambda>r s. Some (0, r)),
     re_client_demand_active = (\<lambda>r s. Some (0, r)), re_recv_pdu = (\<lambda>r s. Some (0, r)), re_update_reset_state = (\<lambda>r. r),
     re_accept_nego = (\<lambda>r s. Some (True, 0, r)), re_copy_identity = Some, re_nla_free = (\<lambda>r. r), re_Logon = None, re_server_establish_keys = (\<lambda>r s. Some (True, s, r)),
     re_recv_client_info = (\<lambda>r s. Some (True, r)), re_send_valid_license = (\<lambda>r. Some (True, r)), re_Capabilities = (\<lambda>r. Some r),
     re_send_demand_active = (\<lambda>r. Some (True, r)), re_peer_recv_pdu = (\<lambda>r s. Some (0, r)), re_PostConnect = None, re_Activate = None\<rparr>"

definition transport_sample :: "byte list list rdpTransport" where
  "transport_sample = \<lparr>tr_layer = TRANSPORT_LAYER_TCP, tr_frontBio = True, tr_NlaMode = False, tr_blocking = False, tr_GatewayEnabled = False,
     tr_WaitForOutputBufferFlush = False, tr_WriteLock = 0, tr_written = 0, tr_world = []\<rparr>"

definition node_sample :: "gcc_settings \<Rightarrow> node" where
  "node_sample se = \<lparr>rdp_state = CONNECTION_STATE_NEGO, rdp_mcs = the (mcs_new True True transport_sample se), rdp_peer = None,
     rdp_finalize_sc_pdus = 0, rdp_AwaitCapabilities = False, rdp_LastError = 0\<rparr>"

theorem mcs_connection_completes_witness:
  "\<exists>c'. mcs_client_begin rdp_env_sample (node_sample client_sample) = Some (True, c') \<and>
     inevitable (net_step rdp_env_sample rdp_env_sample) (connected client_sample) (c', node_sample settings_zero)"
proof (rule mcs_connection_completes [where tc = transport_sample and ts = transport_sample and sv = settings_zero])
  show "linked (re_mcs rdp_env_sample)" "linked (re_mcs rdp_env_sample)"
    by (auto simp: linked_def env_ok_def rdp_env_sample_def mailbox_env_def env_sample_def Stream_New_def mem_alloc_def ample_def BLOCK_MAX_def)
  show "info_sent rdp_env_sample" unfolding info_sent_def
  proof
    fix r :: node
    have "re_send_client_info rdp_env_sample r = Some (True, r\<lparr>rdp_mcs := (rdp_mcs r)\<lparr>mcs_transport := mcs_transport (rdp_mcs r)\<rparr>\<rparr>)"
      by (simp add: rdp_env_sample_def)
    then show "\<exists>t. re_send_client_info rdp_env_sample r = Some (True, r\<lparr>rdp_mcs := (rdp_mcs r)\<lparr>mcs_transport := t\<rparr>\<rparr>)" by blast
  qed
qed (use client_sample_ok in \<open>simp_all add: node_sample_def mcs_new_def transport_sample_def rdp_env_sample_def mailbox_env_def\<close>,
     simp_all add: client_sample_def settings_zero_def names_room_def env_sample_def)

end
