(* ===== verification/McsSafe.thy ===== *)
theory McsSafe
  imports McsWire
begin

unbundle bit_operations_syntax

text \<open>
  The MCS layer of a server against any client: reading a Connect Initial PDU of any bytes returns, without
  undefined behaviour.
\<close>

section \<open>Safe readers in sequence\<close>

lemma stream_advanced_trans: "stream_advanced s t \<Longrightarrow> stream_advanced t u \<Longrightarrow> stream_advanced s u"
  by (auto simp: stream_advanced_def)

lemma stream_advanced_length: "stream_advanced s t \<Longrightarrow> st_length t = st_length s"
  by (auto simp: stream_advanced_def stream_skip_def)

lemma stream_advanced_refl: "stream_wf s \<Longrightarrow> stream_advanced s s"
  by (auto simp: stream_advanced_def intro!: exI [of _ 0])

lemma safe_readerD:
  assumes "safe_reader r" "stream_wf s"
  obtains v t where "r s = Some (v, t)" "stream_advanced s t" "stream_wf t"
  using assms unfolding safe_reader_def stream_advanced_def by metis

lemma safe_try:
  assumes "safe_reader r" "\<And>v. safe_reader (k v)"
  shows "safe_reader (try_read r k)"
  unfolding safe_reader_def
proof (intro allI impI)
  fix s assume s: "stream_wf s"
  obtain v t where r: "r s = Some (v, t)" "stream_advanced s t" "stream_wf t" by (rule safe_readerD [OF assms(1) s])
  show "\<exists>v s'. try_read r k s = Some (v, s') \<and> stream_advanced s s'"
  proof (cases v)
    case (Some x)
    obtain v2 u where "k x t = Some (v2, u)" "stream_advanced t u" by (rule safe_readerD [OF assms(2) r(3)])
    then show ?thesis using r(1,2) Some stream_advanced_trans by (auto simp: try_read_def)
  qed (use r in \<open>simp add: try_read_def\<close>)
qed

lemma safe_return: "safe_reader (\<lambda>s. Some (v, s))"
  by (auto simp: safe_reader_def intro: stream_advanced_refl)

lemma safe_guard: "safe_reader r \<Longrightarrow> safe_reader (\<lambda>s. if b s then Some (v, s) else r s)"
  by (auto simp: safe_reader_def intro: stream_advanced_refl)

lemma safe_skip_octet: "safe_reader skip_octet_string"
proof -
  have k: "safe_reader (\<lambda>s. if to_int (Stream_GetRemainingLength s) < len then Some (None, s)
      else do { s \<leftarrow> Stream_Seek s len; Some (Some (), s) })" if "0 \<le> len" for len
    unfolding safe_reader_def
  proof (intro allI impI)
    fix s assume s: "stream_wf s"
    show "\<exists>v s'. (if to_int (Stream_GetRemainingLength s) < len then Some (None, s)
      else do { s \<leftarrow> Stream_Seek s len; Some (Some (), s) }) = Some (v, s') \<and> stream_advanced s s'"
    proof (cases "to_int (Stream_GetRemainingLength s) < len")
      case False
      then have "nat len \<le> length (st_rest s)"
        using to_int_le [of "length (st_rest s)"] s by (simp add: remaining_rest)
      then show ?thesis using False Stream_Seek_skip [OF s, of "nat len"] s that
        by (auto simp: stream_advanced_def intro: stream_wf_skip)
    qed (use s in \<open>auto intro: stream_advanced_refl\<close>)
  qed
  have len: "0 \<le> l" if "ber_read_octet_string_tag s = Some (Some l, t)" "stream_wf s" for s l t
  proof -
    have "fst (d_then (ber_dec_universal BER_TAG_OCTET_STRING False) (\<lambda>_. ber_dec_length) (st_rest s)) = Some l"
      using decodesD(2) [OF ber_tag_length_decodes(1) that(2)] that(1) by simp
    then obtain bs n where "ber_dec_length bs = (Some l, n)"
      by (auto simp: d_then_def case_prod_unfold Let_def split: prod.splits option.splits) (metis prod.collapse)
    then show ?thesis by (cases bs rule: ber_dec_length.cases) (auto split: if_splits list.splits)
  qed
  show ?thesis
    unfolding safe_reader_def
  proof (intro allI impI)
    fix s assume s: "stream_wf s"
    have "safe_reader ber_read_octet_string_tag" by (rule decodes_safe [OF ber_tag_length_decodes(1)])
    then obtain v t where r: "ber_read_octet_string_tag s = Some (v, t)" "stream_advanced s t" "stream_wf t"
      using safe_readerD s by metis
    show "\<exists>v s'. skip_octet_string s = Some (v, s') \<and> stream_advanced s s'"
    proof (cases v)
      case (Some l)
      obtain v2 u where "(if to_int (Stream_GetRemainingLength t) < l then Some (None, t)
          else do { s \<leftarrow> Stream_Seek t l; Some (Some (), s) }) = Some (v2, u)" "stream_advanced t u"
        using safe_readerD [OF k [OF len [OF r(1) [unfolded Some] s]] r(3)] by metis
      then show ?thesis using r Some stream_advanced_trans by (auto simp: skip_octet_string_def try_read_def)
    qed (use r in \<open>simp add: skip_octet_string_def try_read_def\<close>)
  qed
qed

lemmas reader_safe = decodes_safe [OF tpdu_data_decodes] decodes_safe [OF ber_application_decodes] decodes_safe [OF ber_BOOL_decodes]
  decodes_safe [OF ber_sequence_decodes] decodes_safe [OF ber_integer_decodes] decodes_safe [OF ber_tag_length_decodes(1)]
  decodes_safe [OF per_read_length_decodes] decodes_safe [OF per_bytes_decode(1)] decodes_safe [OF per_bytes_decode(2)]
  decodes_safe [OF per_bytes_decode(3)] decodes_safe [OF per_read_integer_decodes] decodes_safe [OF per_read_integer16_decodes]
  decodes_safe [OF per_read_enumerated_decodes]

lemma safe_request_header: "safe_reader gcc_request_header"
proof -
  have o: "safe_reader (per_read_object_identifier t124_02_98_oid)"
    by (rule decodes_safe [OF per_read_oid_decodes]) (simp add: t124_02_98_oid_def)
  have n: "safe_reader (per_read_numeric_string 1)"
    by (rule decodes_safe [OF per_read_numeric_string_decodes]) (simp_all add: INT_LIM_def)
  have p: "safe_reader (per_read_padding 1)" by (rule decodes_safe [OF per_read_padding_decodes]) simp
  have k: "safe_reader (per_read_octet_string h221_cs_key 4 4)"
    by (rule decodes_safe [OF per_read_octet_string_decodes]) (simp_all add: h221_cs_key_def INT_LIM_def)
  show ?thesis
    unfolding gcc_request_header_def by (intro safe_try safe_guard safe_return o n p k reader_safe)
qed

text \<open>The TPKT header is read without a look at what is left, so four bytes are needed.\<close>

lemma safe_tpkt:
  assumes "\<And>l. safe_reader (r l)" "stream_wf s" "4 \<le> length (st_rest s)"
  shows "\<exists>v s'. (do { (l, s) \<leftarrow> tpkt_read_header s; r l s }) = Some (v, s') \<and> stream_advanced s s'"
proof -
  have "stream_advanced s (stream_skip 4 s)" "stream_advanced s s"
    using assms(2,3) stream_wf_skip [OF assms(2,3)] by (auto simp: stream_advanced_def intro: exI [of _ 0])
  then obtain l t where t: "tpkt_read_header s = Some (l, t)" "stream_advanced s t" "stream_wf t"
    using tpkt_read_header_eq [OF assms(2,3)] by (cases "hd (st_rest s) = 3") (auto simp: stream_advanced_def)
  obtain v u where "r l t = Some (v, u)" "stream_advanced t u" by (rule safe_readerD [OF assms(1) t(3)])
  then show ?thesis using t stream_advanced_trans by auto
qed

lemma read_parameters_safe:
  assumes "stream_wf s"
  shows "\<exists>ok p' s'. read_parameters fs p s = Some (ok, p', s') \<and> stream_advanced s s'"
  using assms
proof (induction fs arbitrary: p s)
  case Nil
  then show ?case by (auto intro: stream_advanced_refl)
next
  case (Cons f fs)
  obtain v t where t: "ber_read_integer True s = Some (v, t)" "stream_advanced s t" "stream_wf t"
    by (rule safe_readerD [OF decodes_safe [OF ber_integer_decodes] Cons.prems])
  show ?case using t Cons.IH [OF t(3)] stream_advanced_trans
    by (fastforce split: option.splits)
qed

lemma domain_parameters_safe:
  assumes "stream_wf s"
  shows "\<exists>ok p' s'. mcs_read_domain_parameters p s = Some (ok, p', s') \<and> stream_advanced s s'"
proof -
  obtain v t where t: "ber_read_sequence_tag s = Some (v, t)" "stream_advanced s t" "stream_wf t"
    by (rule safe_readerD [OF decodes_safe [OF ber_sequence_decodes] assms])
  show ?thesis using t read_parameters_safe [OF t(3)] stream_advanced_trans
    by (fastforce simp: mcs_read_domain_parameters_def split: option.splits)
qed

text \<open>A reader that may also change the MCS state, on streams of less than 2 GB.\<close>

definition safe_op :: "('w rdpMcs \<Rightarrow> bool) \<Rightarrow> 'w block_reader \<Rightarrow> bool" where
  "safe_op P f \<longleftrightarrow> (\<forall>m s. P m \<longrightarrow> stream_wf s \<longrightarrow> int (st_length s) < INT_LIM \<longrightarrow>
     (\<exists>ok m' s'. f m s = Some (ok, m', s') \<and> stream_advanced s s' \<and> P m'))"

lemma safe_opI:
  assumes "\<And>m s. P m \<Longrightarrow> stream_wf s \<Longrightarrow> int (st_length s) < INT_LIM \<Longrightarrow>
      \<exists>ok m' s'. f m s = Some (ok, m', s') \<and> stream_advanced s s' \<and> P m'"
  shows "safe_op P f"
  using assms by (simp add: safe_op_def)

lemma safe_op_then:
  assumes "safe_op P f" "P m" "stream_advanced s0 s" "stream_wf s" "int (st_length s) < INT_LIM"
    and "\<And>m' s'. P m' \<Longrightarrow> stream_wf s' \<Longrightarrow> int (st_length s') < INT_LIM \<Longrightarrow> stream_advanced s0 s' \<Longrightarrow>
      \<exists>ok m'' s''. k m' s' = Some (ok, m'', s'') \<and> stream_advanced s0 s'' \<and> P m''"
  shows "\<exists>ok m' s'. (do { (ok, m, s) \<leftarrow> f m s; if \<not> ok then Some (False, m, s) else k m s }) = Some (ok, m', s') \<and>
     stream_advanced s0 s' \<and> P m'"
proof -
  obtain ok m1 s1 where f: "f m s = Some (ok, m1, s1)" "stream_advanced s s1" "P m1"
    using assms(1,2,4,5) unfolding safe_op_def by blast
  have a: "stream_advanced s0 s1" using assms(3) f(2) by (rule stream_advanced_trans)
  moreover have "stream_wf s1" "int (st_length s1) < INT_LIM"
    using f(2) assms(5) stream_advanced_length [OF f(2)] by (simp_all add: stream_advanced_def)
  ultimately show ?thesis using f(1,3) assms(6) [of m1 s1] by (cases ok) auto
qed

lemma conference_request_safe: "safe_op gcc_room (gcc_read_conference_create_request (total_unicode E))"
proof (rule safe_opI)
  fix m :: "'a rdpMcs" and s assume s: "gcc_room m" "stream_wf s" "int (st_length s) < INT_LIM"
  obtain h t where t: "gcc_request_header s = Some (h, t)" "stream_advanced s t" "stream_wf t"
    by (rule safe_readerD [OF safe_request_header s(2)])
  show "\<exists>ok m' s'. gcc_read_conference_create_request (total_unicode E) m s = Some (ok, m', s') \<and> stream_advanced s s' \<and> gcc_room m'"
  proof (cases h)
    case (Some len)
    have "uint len < 65536" using unsigned_less [of len, where ?'a = int] by simp
    then have "uint len < INT_LIM" "int (st_length t) < INT_LIM"
      using s(3) stream_advanced_length [OF t(2)] by (simp_all add: INT_LIM_def)
    then obtain ok m' n where r: "gcc_read_client_data_blocks (total_unicode E) m (uint len) t = Some (ok, m', stream_skip n t)"
        "n \<le> length (st_rest t)" "gcc_room m'"
      using client_blocks_safe [OF s(1) t(3), of "uint len" E] by blast
    moreover have "stream_advanced t (stream_skip n t)" using r(2) t(3) by (auto simp: stream_advanced_def intro: stream_wf_skip)
    ultimately show ?thesis using t(1,2) Some stream_advanced_trans by (auto simp: gcc_read_conference_create_request_def)
  qed (use t s in \<open>auto simp: gcc_read_conference_create_request_def\<close>)
qed

section \<open>Connect Initial\<close>

lemma head_safe:
  assumes "stream_wf s" "4 \<le> length (st_rest s)"
  obtains h t where "connect_initial_head s = Some (h, t)" "stream_advanced s t" "stream_wf t"
proof -
  have "safe_reader (try_read tpdu_read_data (\<lambda>_. try_read (ber_read_application_tag MCS_TYPE_CONNECT_INITIAL) (\<lambda>_.
      try_read skip_octet_string (\<lambda>_. try_read skip_octet_string (\<lambda>_. ber_read_BOOL)))))"
    by (intro safe_try safe_skip_octet reader_safe)
  from safe_tpkt [OF this assms] that show ?thesis
    unfolding connect_initial_head_def stream_advanced_def by auto
qed

text \<open>The parts of the reader, as operations on the state.\<close>

definition read_params_into :: "('w rdpMcs \<Rightarrow> DomainParameters) \<Rightarrow> (DomainParameters \<Rightarrow> 'w rdpMcs \<Rightarrow> 'w rdpMcs) \<Rightarrow> 'w block_reader" where
  "read_params_into get put m s = do { (ok, p, s) \<leftarrow> mcs_read_domain_parameters (get m) s; Some (ok, put p m, s) }"

definition read_user_data :: "gcc_env \<Rightarrow> 'w block_reader" where
  "read_user_data E m s = do {
     (len, s) \<leftarrow> ber_read_octet_string_tag s;
     (case len of None \<Rightarrow> Some (False, m, s)
      | Some len \<Rightarrow> if to_int (Stream_GetRemainingLength s) < len then Some (False, m, s) else gcc_read_conference_create_request E m s) }"

lemma read_params_safe:
  assumes "\<And>p m. P m \<Longrightarrow> P (put p m)"
  shows "safe_op P (read_params_into get put)"
proof (rule safe_opI)
  fix m s assume "P m" "stream_wf s"
  then show "\<exists>ok m' s'. read_params_into get put m s = Some (ok, m', s') \<and> stream_advanced s s' \<and> P m'"
    using domain_parameters_safe [of s "get m"] assms by (auto simp: read_params_into_def)
qed

lemma read_user_data_safe: "safe_op gcc_room (read_user_data (total_unicode E))"
proof (rule safe_opI)
  fix m :: "'a rdpMcs" and s assume s: "gcc_room m" "stream_wf s" "int (st_length s) < INT_LIM"
  obtain v t where t: "ber_read_octet_string_tag s = Some (v, t)" "stream_advanced s t" "stream_wf t"
    by (rule safe_readerD [OF decodes_safe [OF ber_tag_length_decodes(1)] s(2)])
  have "\<exists>ok m' s'. gcc_read_conference_create_request (total_unicode E) m t = Some (ok, m', s') \<and> stream_advanced t s' \<and> gcc_room m'"
    using conference_request_safe [of E, unfolded safe_op_def, rule_format, OF s(1) t(3)] s(3) stream_advanced_length [OF t(2)] by simp
  then show "\<exists>ok m' s'. read_user_data (total_unicode E) m s = Some (ok, m', s') \<and> stream_advanced s s' \<and> gcc_room m'"
    using t s(1) stream_advanced_trans by (fastforce simp: read_user_data_def split: option.splits)
qed

lemma bind_if: "(if b then x else y) \<bind> g = (if b then x \<bind> g else y \<bind> g)" for g :: "'a \<Rightarrow> 'b option"
  by simp

lemma bind_case: "(case x of None \<Rightarrow> a | Some l \<Rightarrow> f l) \<bind> g = (case x of None \<Rightarrow> a \<bind> g | Some l \<Rightarrow> f l \<bind> g)"
  for g :: "'a \<Rightarrow> 'b option"
  by (simp split: option.split)

lemma recv_connect_initial_parts:
  "mcs_recv_connect_initial E m s = do {
     (h, s) \<leftarrow> connect_initial_head s;
     if h = None then Some (False, m, s)
     else do {
       (ok, m, s) \<leftarrow> read_params_into mcs_targetParameters (\<lambda>p m. m\<lparr>mcs_targetParameters := p\<rparr>) m s;
       if \<not> ok then Some (False, m, s) else do {
       (ok, m, s) \<leftarrow> read_params_into mcs_minimumParameters (\<lambda>p m. m\<lparr>mcs_minimumParameters := p\<rparr>) m s;
       if \<not> ok then Some (False, m, s) else do {
       (ok, m, s) \<leftarrow> read_params_into mcs_maximumParameters (\<lambda>p m. m\<lparr>mcs_maximumParameters := p\<rparr>) m s;
       if \<not> ok then Some (False, m, s) else do {
       (ok, m, s) \<leftarrow> read_user_data E m s;
       if \<not> ok then Some (False, m, s)
       else (let (ok, p) = mcs_merge_domain_parameters (mcs_targetParameters m) (mcs_minimumParameters m)
                (mcs_maximumParameters m) (mcs_domainParameters m)
              in Some (ok, m\<lparr>mcs_domainParameters := p\<rparr>, s)) } } } } }"
  unfolding mcs_recv_connect_initial_def read_params_into_def read_user_data_def
  by (simp add: Let_def case_prod_unfold Option.bind_assoc bind_if bind_case cong: if_cong option.case_cong)

lemma connect_initial_total:
  assumes "\<And>w. ge_ConvertFromUnicode E w \<noteq> None" "gcc_room m" "stream_wf s" "int (st_length s) < INT_LIM" "4 \<le> length (st_rest s)"
  shows "\<exists>ok m' s'. mcs_recv_connect_initial E m s = Some (ok, m', s') \<and> stream_advanced s s' \<and> gcc_room m'"
proof -
  have E: "total_unicode E = E" by (rule total_unicode_eq [OF assms(1)])
  obtain h t where t: "connect_initial_head s = Some (h, t)" "stream_advanced s t" "stream_wf t" by (rule head_safe [OF assms(3,5)])
  have l: "int (st_length t) < INT_LIM" using stream_advanced_length [OF t(2)] assms(4) by simp
  have room: "gcc_room (m\<lparr>mcs_targetParameters := p\<rparr>) = gcc_room m" "gcc_room (m\<lparr>mcs_minimumParameters := p\<rparr>) = gcc_room m"
      "gcc_room (m\<lparr>mcs_maximumParameters := p\<rparr>) = gcc_room m" "gcc_room (m\<lparr>mcs_domainParameters := p\<rparr>) = gcc_room m"
    for p and m :: "'a rdpMcs" by (simp_all add: gcc_room_def)
  note P = read_params_safe [of gcc_room]
  show ?thesis
  proof (cases h)
    case (Some b)
    show ?thesis
      unfolding recv_connect_initial_parts t(1) bind.bind_lunit prod.case Some option.distinct if_False
      apply (simp only: option.distinct if_False simp_thms)
      apply (rule safe_op_then [OF P assms(2) t(2,3) l], simp only: room)
      apply (rule safe_op_then [OF P], simp only: room, assumption+)
      apply (rule safe_op_then [OF P], simp only: room, assumption+)
      apply (rule safe_op_then [OF read_user_data_safe [of E, unfolded E]], assumption+)
      apply (simp add: case_prod_unfold Let_def room)
      done
  qed (use t assms(2) in \<open>auto simp: recv_connect_initial_parts\<close>)
qed

section \<open>Properties\<close>



end
