(* ===== verification/McsServe.thy ===== *)
theory McsServe
  imports McsRun McsSafe
begin

unbundle bit_operations_syntax

text \<open>
  The callback of a server in the MCS phase against any client: whatever units arrive, it returns, the states
  follow in their order, and the phase ends only when every channel was asked for and confirmed.
\<close>

section \<open>Reading the PDUs of the domain\<close>

text \<open>A reader that is safe on a unit, which has at least the four bytes of the TPKT header.\<close>

definition safe_unit :: "'a reader \<Rightarrow> bool" where
  "safe_unit r \<longleftrightarrow> (\<forall>s. stream_wf s \<longrightarrow> 4 \<le> length (st_rest s) \<longrightarrow> (\<exists>v s'. r s = Some (v, s') \<and> stream_advanced s s'))"

lemma safe_unitD:
  assumes "safe_unit r" "stream_wf s" "4 \<le> length (st_rest s)"
  obtains v t where "r s = Some (v, t)" "stream_advanced s t" "stream_wf t"
  using assms unfolding safe_unit_def stream_advanced_def by metis

lemma safe_unit_try:
  assumes "safe_unit r" "\<And>v. safe_reader (k v)"
  shows "safe_unit (try_read r k)"
  unfolding safe_unit_def
proof (intro allI impI)
  fix s assume s: "stream_wf s" "4 \<le> length (st_rest s)"
  obtain v t where r: "r s = Some (v, t)" "stream_advanced s t" "stream_wf t" by (rule safe_unitD [OF assms(1) s])
  show "\<exists>v s'. try_read r k s = Some (v, s') \<and> stream_advanced s s'"
  proof (cases v)
    case (Some x)
    obtain v2 u where "k x t = Some (v2, u)" "stream_advanced t u" by (rule safe_readerD [OF assms(2) r(3)])
    then show ?thesis using r(1,2) Some stream_advanced_trans by (auto simp: try_read_def)
  qed (use r in \<open>simp add: try_read_def\<close>)
qed

lemma safe_domain_header: "safe_unit (mcs_read_domain_mcspdu_header p)"
proof -
  have "safe_reader (\<lambda>s. if drop_bit 2 choice \<noteq> p then Some (None, s) else Some (Some l, s))" for choice l
    by (intro safe_guard safe_return)
  then have "safe_reader (try_read tpdu_read_data (\<lambda>_. try_read per_read_choice (\<lambda>choice s.
       if drop_bit 2 choice \<noteq> p then Some (None, s) else Some (Some l, s))))" for l
    by (intro safe_try reader_safe)
  then show ?thesis
    unfolding safe_unit_def mcs_read_domain_mcspdu_header_def by (intro allI impI safe_tpkt)
qed

lemma domain_readers_safe:
  "safe_unit mcs_recv_erect_domain_request" "safe_unit mcs_recv_attach_user_request" "safe_unit (mcs_recv_channel_join_request m)"
  unfolding mcs_recv_erect_domain_request_def mcs_recv_attach_user_request_def mcs_recv_channel_join_request_def
  by (intro safe_unit_try safe_domain_header safe_try safe_guard safe_return reader_safe)+

section \<open>What a client cannot change\<close>

text \<open>
  The state of a server that has no channel joined yet, with room for the channels a client may ask for. A block that is
  accepted keeps it so; in particular no block switches the encryption on.
\<close>

definition server_fresh :: "'w rdpMcs \<Rightarrow> bool" where
  "server_fresh m \<longleftrightarrow> 16 \<le> length (mcs_channels m) \<and> unat (mcs_channelCount m) \<le> 16 \<and>
     (\<forall>c \<in> set (mcs_channels m). length (ch_Name c) = 8 \<and> \<not> ch_joined c) \<and> \<not> se_UseRdpSecurityLayer (mcs_settings m) \<and>
     \<not> mcs_userChannelJoined m \<and> \<not> mcs_globalChannelJoined m \<and> \<not> mcs_messageChannelJoined m"

definition keeps :: "('w rdpMcs \<Rightarrow> bool) \<Rightarrow> 'w block_reader \<Rightarrow> bool" where
  "keeps P f \<longleftrightarrow> (\<forall>m s m' s'. f m s = Some (True, m', s') \<longrightarrow> P m \<longrightarrow> P m')"

lemma keepsI: "(\<And>m s m' s'. f m s = Some (True, m', s') \<Longrightarrow> P m \<Longrightarrow> P m') \<Longrightarrow> keeps P f"
  by (auto simp: keeps_def)

lemma keepsD: "keeps P f \<Longrightarrow> f m s = Some (True, m', s') \<Longrightarrow> P m \<Longrightarrow> P m'"
  by (auto simp: keeps_def)

lemma keeps_if: "keeps P f \<Longrightarrow> keeps P g \<Longrightarrow> keeps P (\<lambda>m s. if b then f m s else g m s)"
  by (auto simp: keeps_def)

lemma fresh_settings:
  "server_fresh m \<Longrightarrow> \<not> se_UseRdpSecurityLayer se \<Longrightarrow> server_fresh (m\<lparr>mcs_settings := se\<rparr>)"
  by (simp add: server_fresh_def)

text \<open>The fields of the core data.\<close>

definition plain_field :: "core_field \<Rightarrow> bool" where
  "plain_field f \<longleftrightarrow> (\<forall>c s c' s'. f c s = Some (c', s') \<longrightarrow>
     se_UseRdpSecurityLayer (co_settings c') = se_UseRdpSecurityLayer (co_settings c))"

lemma core_run_plain:
  "(\<And>n f. (n, f) \<in> set fs \<Longrightarrow> plain_field f) \<Longrightarrow> core_run fs c s = Some (c', s') \<Longrightarrow>
   se_UseRdpSecurityLayer (co_settings c') = se_UseRdpSecurityLayer (co_settings c)"
  by (induction fs c s rule: core_run.induct) (fastforce simp: plain_field_def split: Option.bind_splits)+

lemma core_optional_plain:
  "(\<And>n f. (n, f) \<in> set fs \<Longrightarrow> plain_field f) \<Longrightarrow> core_optional fs c s = Some (b, c', s') \<Longrightarrow>
   se_UseRdpSecurityLayer (co_settings c') = se_UseRdpSecurityLayer (co_settings c)"
  by (induction fs c s rule: core_optional.induct) (fastforce simp: plain_field_def split: Option.bind_splits if_splits)+

lemma plain_fields:
  "(n, f) \<in> set (core_required E) \<Longrightarrow> plain_field f" "(n, f) \<in> set (core_optional_fields E) \<Longrightarrow> plain_field f"
  by (auto simp: core_required_def core_optional_fields_def plain_field_def core_u8_def core_u16_def core_u32_def core_seek_def
      core_hostname_def core_product_def split: Option.bind_splits)

lemma core_data_keeps: "keeps server_fresh (gcc_read_client_core_data E len)"
proof (rule keepsI)
  fix m :: "'a rdpMcs" and s m' s'
  assume r: "gcc_read_client_core_data E len m s = Some (True, m', s')" and m: "server_fresh m"
  from r obtain c1 s1 b c2 s2 d where c: "core_run (core_required E) \<lparr>co_blockLength = len, co_colorDepth = 0, co_postBeta2ColorDepth = 0, co_highColorDepth = 0,
          co_supportedColorDepths = 0, co_earlyCapabilityFlags = 0, co_connectionType = 0,
          co_serverSelectedProtocol = 0, co_settings = mcs_settings m\<rparr> s = Some (c1, s1)"
      "core_optional (core_optional_fields E) (c1\<lparr>co_blockLength := co_blockLength c1 - 128\<rparr>) s1 = Some (b, c2, s2)"
      "m' = m\<lparr>mcs_settings := core_settings c2 d\<rparr>"
    by (auto simp: gcc_read_client_core_data_def Let_def split: if_splits Option.bind_splits option.splits)
  have "se_UseRdpSecurityLayer (co_settings c1) = se_UseRdpSecurityLayer (mcs_settings m)"
      "se_UseRdpSecurityLayer (co_settings c2) = se_UseRdpSecurityLayer (co_settings c1)"
    using core_run_plain [OF plain_fields(1) c(1)] core_optional_plain [OF plain_fields(2) c(2)] by simp_all
  then show "server_fresh m'" using m unfolding c(3) by (intro fresh_settings) (simp_all add: server_fresh_def core_settings_def Let_def)
qed

lemma channel_defs_keep:
  assumes "read_channel_defs i n m s = Some (m', s')"
    "16 \<le> length (mcs_channels m) \<and> (\<forall>c \<in> set (mcs_channels m). length (ch_Name c) = 8 \<and> \<not> ch_joined c)"
  shows "(16 \<le> length (mcs_channels m') \<and> (\<forall>c \<in> set (mcs_channels m'). length (ch_Name c) = 8 \<and> \<not> ch_joined c)) \<and>
     (\<exists>cs b. m' = m\<lparr>mcs_channels := cs, mcs_baseChannelId := b\<rparr>)"
  using assms
proof (induction n arbitrary: i m s)
  case 0
  then show ?case by (auto intro!: exI [of _ "mcs_channels m"] exI [of _ "mcs_baseChannelId m"])
next
  case (Suc n)
  from Suc.prems(1) obtain c nm s1 op s2 m1 where r: "arr_get (mcs_channels m) i = Some c" "Stream_Read s 8 = Some (nm, s1)"
      "m1 = m\<lparr>mcs_channels := (mcs_channels m)[i := c\<lparr>ch_Name := nm, ch_options := op,
         ch_ChannelId := uint (mcs_baseChannelId m)\<rparr>], mcs_baseChannelId := mcs_baseChannelId m + 1\<rparr>"
      "read_channel_defs (i + 1) n m1 s2 = Some (m', s')"
    by (auto simp: arr_set_def Let_def split: Option.bind_splits if_splits)
  have "length nm = 8" using r(2) by (auto simp: Stream_Read_def mem_read_def split: Option.bind_splits if_splits)
  moreover have "\<not> ch_joined c" using r(1) Suc.prems(2) by (auto simp: arr_get_def split: if_splits)
  ultimately have "\<forall>x \<in> set (mcs_channels m1). length (ch_Name x) = 8 \<and> \<not> ch_joined x"
    using Suc.prems(2) set_update_subset_insert unfolding r(3) by fastforce
  from Suc.IH [OF r(4)] this Suc.prems(2) show ?case by (auto simp: r(3))
qed

lemma network_data_keeps: "keeps server_fresh (gcc_read_client_network_data len)"
proof (rule keepsI)
  fix m :: "'a rdpMcs" and s m' s'
  assume r: "gcc_read_client_network_data len m s = Some (True, m', s')" and m: "server_fresh m"
  from r obtain n s1 s2 where d: "n \<le> 16" "read_channel_defs 0 (unat n) (m\<lparr>mcs_channelCount := n\<rparr>) s1 = Some (m', s2)"
    by (auto simp: gcc_read_client_network_data_def Let_def not_less split: if_splits Option.bind_splits)
  from channel_defs_keep [OF d(2)] m d(1) show "server_fresh m'" by (auto simp: server_fresh_def word_le_nat_alt)
qed

lemma client_block_keeps: "keeps server_fresh (gcc_read_client_block E type len)"
proof -
  have small: "keeps server_fresh (gcc_read_client_security_data len)" "keeps server_fresh (gcc_read_client_cluster_data len)"
      "keeps server_fresh (gcc_read_client_monitor_data len)" "keeps server_fresh (gcc_read_client_message_channel_data len)"
      "keeps server_fresh (gcc_read_client_monitor_extended_data len)" "keeps server_fresh (gcc_read_client_multitransport_channel_data len)"
      "keeps server_fresh (\<lambda>m s. do { s \<leftarrow> Stream_Seek s (uint len); Some (True, m, s) })"
    by (auto intro!: keepsI simp: gcc_read_client_security_data_def gcc_read_client_cluster_data_def gcc_read_client_monitor_data_def
        gcc_read_client_message_channel_data_def gcc_read_client_monitor_extended_data_def gcc_read_client_multitransport_channel_data_def
        server_fresh_def Let_def split: if_splits Option.bind_splits)
  show ?thesis unfolding gcc_read_client_block_def [abs_def] by (intro keeps_if small core_data_keeps network_data_keeps)
qed

lemma client_blocks_keep:
  assumes "gcc_read_client_data_blocks E m len s = Some y"
  shows "fst y \<longrightarrow> server_fresh m \<longrightarrow> server_fresh (fst (snd y))"
proof (rule gcc_read_client_data_blocks.raw_induct
    [where P = "\<lambda>E m len s y. fst y \<longrightarrow> server_fresh m \<longrightarrow> server_fresh (fst (snd y))", OF _ assms], intro impI)
  fix f E m len s y
  assume IH: "\<And>E (m :: 'a rdpMcs) len s y. f E m len s = Some y \<Longrightarrow> fst y \<longrightarrow> server_fresh m \<longrightarrow> server_fresh (fst (snd y))"
    and body: "(if len > 0 then do {
        let begPos = to_int (Stream_GetPosition s);
        (h, s) \<leftarrow> gcc_read_user_data_header s;
        (case h of
           None \<Rightarrow> Some (False, m, s)
         | Some (type, blockLength) \<Rightarrow>
             if Stream_GetRemainingLength s < to_size (uint blockLength - 4) then Some (False, m, s)
             else do {
               (ok, m, s) \<leftarrow> gcc_read_client_block E type (word_of_int (uint blockLength - 4)) m s;
               if \<not> ok then Some (False, m, s)
               else do {
                 endPos \<leftarrow> int_ck (begPos + uint blockLength);
                 len \<leftarrow> int_ck (len - uint blockLength);
                 s \<leftarrow> Stream_SetPosition s (to_size endPos);
                 f E m len s } }) }
      else Some (True, m, s)) = Some y"
    and y: "fst y" and m: "server_fresh m"
  from body y consider "fst (snd y) = m"
    | type l s1 m1 s2 len' s3 where "gcc_read_client_block E type l m s1 = Some (True, m1, s2)" "f E m1 len' s3 = Some y"
    by (auto simp: Let_def split: if_splits Option.bind_splits option.splits)
  then show "server_fresh (fst (snd y))"
  proof cases
    case 2
    have "server_fresh m1" by (rule keepsD [OF client_block_keeps 2(1) m])
    with IH [OF 2(2)] y show ?thesis by blast
  qed (use m in simp)
qed

lemma connect_initial_keeps: "keeps server_fresh (mcs_recv_connect_initial E)"
proof (rule keepsI)
  fix m :: "'a rdpMcs" and s m' s'
  assume r: "mcs_recv_connect_initial E m s = Some (True, m', s')" and m: "server_fresh m"
  have params: "server_fresh (k\<lparr>mcs_targetParameters := p\<rparr>) = server_fresh k" "server_fresh (k\<lparr>mcs_minimumParameters := p\<rparr>) = server_fresh k"
      "server_fresh (k\<lparr>mcs_maximumParameters := p\<rparr>) = server_fresh k" "server_fresh (k\<lparr>mcs_domainParameters := p\<rparr>) = server_fresh k"
    for k :: "'a rdpMcs" and p by (simp_all add: server_fresh_def)
  from r obtain p1 p2 p3 p4 m1 t1 t2 where d: "read_user_data E (m\<lparr>mcs_targetParameters := p1, mcs_minimumParameters := p2,
      mcs_maximumParameters := p3\<rparr>) t1 = Some (True, m1, t2)" "m' = m1\<lparr>mcs_domainParameters := p4\<rparr>"
    unfolding recv_connect_initial_parts
    by (auto simp: read_params_into_def Let_def split: if_splits Option.bind_splits option.splits prod.splits)
  from d(1) obtain len t3 t4 where "gcc_read_client_data_blocks E (m\<lparr>mcs_targetParameters := p1, mcs_minimumParameters := p2,
      mcs_maximumParameters := p3\<rparr>) len t3 = Some (True, m1, t4)"
    by (auto simp: read_user_data_def gcc_read_conference_create_request_def split: if_splits Option.bind_splits option.splits)
  from client_blocks_keep [OF this] m show "server_fresh m'" by (simp add: d(2) params)
qed

section \<open>The handlers of the server\<close>

definition unit_ok :: "byte list \<Rightarrow> bool" where
  "unit_ok u \<longleftrightarrow> 4 \<le> length u \<and> length u < 2 ^ 31"

lemma unit_okD:
  assumes "unit_ok u"
  shows "stream_wf (stream_of u)" "int (st_length (stream_of u)) < INT_LIM" "4 \<le> length (st_rest (stream_of u))"
proof -
  have l: "4 \<le> length u" "length u < 2 ^ 31" using assms by (simp_all add: unit_ok_def)
  then show "stream_wf (stream_of u)" "4 \<le> length (st_rest (stream_of u))" by (simp_all add: BLOCK_MAX_def)
  show "int (st_length (stream_of u)) < INT_LIM" using l by (simp add: stream_of_def INT_LIM_def)
qed

lemma serve_connect:
  assumes E: "linked (re_mcs E)" "\<And>w. ge_ConvertFromUnicode (me_gcc (re_mcs E)) w \<noteq> None"
    and r: "rdp_state r = CONNECTION_STATE_NEGO" "gcc_room (rdp_mcs r)" "server_fresh (rdp_mcs r)" and u: "unit_ok u"
  shows "\<exists>st r'. peer_recv_callback E r (Some (stream_of u)) = Some (st, r') \<and>
     (st < 0 \<and> rdp_state r' = CONNECTION_STATE_NEGO \<or> st = 0 \<and> rdp_state r' = CONNECTION_STATE_MCS_CONNECT \<and> server_fresh (rdp_mcs r'))"
proof -
  obtain ok m s where m: "mcs_recv_connect_initial (me_gcc (re_mcs E)) (rdp_mcs r) (stream_of u) = Some (ok, m, s)"
    using connect_initial_total [OF E(2) r(2) unit_okD [OF u]] by blast
  show ?thesis
  proof (cases ok)
    case True
    have f: "server_fresh m" using keepsD [OF connect_initial_keeps _ r(3)] m True by simp
    then have so: "server_ok m" by (auto simp: server_fresh_def server_ok_def channels_ok_def)
    let ?m = "m\<lparr>mcs_settings := no_encryption (mcs_settings m)\<rparr>"
    obtain p where p: "mcs_connect_response_pdu (re_mcs E) m = Some (Some p, ?m)" "sealed_with (response_enc m) p"
      using connect_response_pdu_ok [OF _ so] E(1) unfolding linked_def by blast
    have "mcs_transport_write (re_mcs E) ?m p = Some (True, posted (response_enc m) ?m)"
      using mailbox_transport_write [OF p(2)] length_response_enc [OF so] E(1) by (simp add: linked_def)
    moreover have "server_fresh (posted (response_enc m) ?m)" using f by (simp add: server_fresh_def no_encryption_def)
    ultimately show ?thesis
      using m True r(1) p(1) server_early [of "r\<lparr>rdp_mcs := posted (response_enc m) ?m\<rparr>" CONNECTION_STATE_MCS_CONNECT E]
      by (simp add: peer_recv_callback.simps peer_call_def rdp_server_accept_mcs_connect_initial_def mcs_send_connect_response_def with_mcs_def
          state_order)
  qed (use m r(1) in \<open>simp add: peer_recv_callback.simps peer_call_def rdp_server_accept_mcs_connect_initial_def\<close>)
qed

lemma serve_erect:
  assumes "rdp_state r = CONNECTION_STATE_MCS_CONNECT" "unit_ok u"
  shows "\<exists>st r'. peer_recv_callback E r (Some (stream_of u)) = Some (st, r') \<and>
     (st < 0 \<and> rdp_state r' = CONNECTION_STATE_MCS_CONNECT \<or> st = 0 \<and> r' = r\<lparr>rdp_state := CONNECTION_STATE_MCS_ERECT_DOMAIN\<rparr>)"
proof -
  obtain v t where "mcs_recv_erect_domain_request (stream_of u) = Some (v, t)"
    by (rule safe_unitD [OF domain_readers_safe(1) unit_okD(1,3) [OF assms(2)]])
  then show ?thesis
    using assms(1) server_early [of r CONNECTION_STATE_MCS_ERECT_DOMAIN E]
    by (cases v) (simp_all add: peer_recv_callback.simps peer_call_def rdp_server_accept_mcs_erect_domain_request_def state_order)
qed

lemma serve_attach:
  assumes "linked (re_mcs E)" "rdp_state r = CONNECTION_STATE_MCS_ERECT_DOMAIN" "server_fresh (rdp_mcs r)" "unit_ok u"
  shows "\<exists>st r'. peer_recv_callback E r (Some (stream_of u)) = Some (st, r') \<and>
     (st < 0 \<and> rdp_state r' = CONNECTION_STATE_MCS_ERECT_DOMAIN \<or> st = 0 \<and> rdp_state r' = CONNECTION_STATE_MCS_ATTACH_USER \<and> server_fresh (rdp_mcs r'))"
proof -
  obtain v t where t: "mcs_recv_attach_user_request (stream_of u) = Some (v, t)"
    by (rule safe_unitD [OF domain_readers_safe(2) unit_okD(1,3) [OF assms(4)]])
  let ?m = "rdp_mcs r" and ?b = "mcs_baseChannelId (rdp_mcs r)"
  let ?m' = "posted (attach_confirm_enc ?b) (?m\<lparr>mcs_userId := ?b, mcs_baseChannelId := ?b + 1\<rparr>)"
  have "server_fresh ?m'" using assms(3) by (simp add: server_fresh_def)
  then show ?thesis
    using t assms(2) post_attach_confirm [OF assms(1), of ?m] server_early [of "r\<lparr>rdp_mcs := ?m'\<rparr>" CONNECTION_STATE_MCS_ATTACH_USER E]
    by (cases v) (simp_all add: peer_recv_callback.simps peer_call_def rdp_server_accept_mcs_attach_user_request_def with_mcs_def state_order)
qed

text \<open>
  What a joined channel means: the client asked for it and got a confirmation.
\<close>

definition confirms :: "byte list list rdpMcs \<Rightarrow> u16 \<Rightarrow> bool" where
  "confirms m i \<longleftrightarrow> join_confirm_enc (mcs_userId m) i \<in> set (tr_world (mcs_transport m))"

definition confirmed :: "byte list list rdpMcs \<Rightarrow> bool" where
  "confirmed m \<longleftrightarrow> unat (mcs_channelCount m) \<le> length (mcs_channels m) \<and>
     (mcs_userChannelJoined m \<longrightarrow> confirms m (mcs_userId m)) \<and> (mcs_globalChannelJoined m \<longrightarrow> confirms m MCS_GLOBAL_CHANNEL_ID) \<and>
     (mcs_messageChannelJoined m \<longrightarrow> confirms m (mcs_messageChannelId m)) \<and>
     (\<forall>c \<in> set (channels_used m). ch_joined c \<longrightarrow> confirms m (word_of_int (ch_ChannelId c)))"

lemma fresh_confirmed: "server_fresh m \<Longrightarrow> confirmed m"
  by (auto simp: server_fresh_def confirmed_def channels_used_def dest: in_set_takeD)

definition joined_after :: "u16 \<Rightarrow> byte list list rdpMcs \<Rightarrow> byte list list rdpMcs" where
  "joined_after i m = (server_mark_joined i (posted (join_confirm_enc (mcs_userId m) i) m))
     \<lparr>mcs_channels := map (server_mark i) (channels_used m) @ drop (unat (mcs_channelCount m)) (mcs_channels m)\<rparr>"

lemma joined_after_simps:
  "mcs_userId (joined_after i m) = mcs_userId m" "mcs_messageChannelId (joined_after i m) = mcs_messageChannelId m"
  "mcs_channelCount (joined_after i m) = mcs_channelCount m"
  "mcs_userChannelJoined (joined_after i m) \<longleftrightarrow> mcs_userChannelJoined m \<or> i = mcs_userId m"
  "mcs_globalChannelJoined (joined_after i m) \<longleftrightarrow> mcs_globalChannelJoined m \<or> i \<noteq> mcs_userId m \<and> i = MCS_GLOBAL_CHANNEL_ID"
  "mcs_messageChannelJoined (joined_after i m) \<longleftrightarrow>
     mcs_messageChannelJoined m \<or> i \<noteq> mcs_userId m \<and> i \<noteq> MCS_GLOBAL_CHANNEL_ID \<and> i = mcs_messageChannelId m"
  "mcs_channels (joined_after i m) = map (server_mark i) (channels_used m) @ drop (unat (mcs_channelCount m)) (mcs_channels m)"
  "tr_world (mcs_transport (joined_after i m)) = tr_world (mcs_transport m) @ [join_confirm_enc (mcs_userId m) i]"
  by (auto simp: joined_after_def server_mark_joined_def)

lemma joined_after_confirmed:
  assumes "confirmed m"
  shows "confirmed (joined_after i m)" "channels_used (joined_after i m) = map (server_mark i) (channels_used m)"
proof -
  have l: "length (channels_used m) = unat (mcs_channelCount m)" "unat (mcs_channelCount m) \<le> length (mcs_channels m)"
    using assms by (simp_all add: confirmed_def channels_used_def)
  have mono: "confirms (joined_after i m) i" "confirms m k \<Longrightarrow> confirms (joined_after i m) k" for k
    by (auto simp: joined_after_simps confirms_def)
  show used: "channels_used (joined_after i m) = map (server_mark i) (channels_used m)"
    using l(1) unfolding channels_used_def [of "joined_after i m"] joined_after_simps by simp
  have c: "ch_joined (server_mark i x) \<Longrightarrow> confirms (joined_after i m) (word_of_int (ch_ChannelId (server_mark i x)))"
    if "x \<in> set (channels_used m)" for x
    using that assms by (auto simp: server_mark_def confirmed_def intro!: mono)
  have "length (mcs_channels (joined_after i m)) = length (mcs_channels m)" using l by (simp add: joined_after_simps(7))
  moreover have "mcs_userChannelJoined (joined_after i m) \<Longrightarrow> confirms (joined_after i m) (mcs_userId m)"
    "mcs_globalChannelJoined (joined_after i m) \<Longrightarrow> confirms (joined_after i m) MCS_GLOBAL_CHANNEL_ID"
    "mcs_messageChannelJoined (joined_after i m) \<Longrightarrow> confirms (joined_after i m) (mcs_messageChannelId m)"
    using assms mono unfolding joined_after_simps(4-6) confirmed_def by metis+
  ultimately show "confirmed (joined_after i m)"
    using l(2) c unfolding confirmed_def used by (simp add: joined_after_simps(1-3))
qed

text \<open>The phase ends when every identifier is joined.\<close>

definition all_joined :: "byte list list rdpMcs \<Rightarrow> bool" where
  "all_joined m \<longleftrightarrow> mcs_userChannelJoined m \<and> mcs_globalChannelJoined m \<and> (mcs_messageChannelId m = 0 \<or> mcs_messageChannelJoined m) \<and>
     (\<forall>c \<in> set (channels_used m). ch_joined c)"

lemma all_confirmed:
  assumes "confirmed m" "all_joined m" "i \<in> set (channel_ids m)"
  shows "confirms m i"
  using assms by (auto simp: confirmed_def all_joined_def channel_ids_def split: if_splits)

lemma serve_join:
  assumes "linked (re_mcs E)" "rdp_state r = CONNECTION_STATE_MCS_ATTACH_USER" "confirmed (rdp_mcs r)" "unit_ok u"
  shows "\<exists>st r'. peer_recv_callback E r (Some (stream_of u)) = Some (st, r') \<and> confirmed (rdp_mcs r') \<and>
     (st < 0 \<and> rdp_state r' = CONNECTION_STATE_MCS_ATTACH_USER \<or>
      st = 0 \<and> (rdp_state r' = CONNECTION_STATE_MCS_ATTACH_USER \<or>
        rdp_state r' = CONNECTION_STATE_RDP_SECURITY_COMMENCEMENT \<and> all_joined (rdp_mcs r')))"
proof -
  let ?m = "rdp_mcs r"
  obtain v t where t: "mcs_recv_channel_join_request ?m (stream_of u) = Some (v, t)"
    by (rule safe_unitD [OF domain_readers_safe(3) unit_okD(1,3) [OF assms(4)]])
  show ?thesis
  proof (cases v)
    case None
    then show ?thesis using t assms(2,3)
      by (simp add: peer_recv_callback.simps peer_call_def rdp_server_accept_mcs_channel_join_request_def)
  next
    case (Some i)
    let ?p = "posted (join_confirm_enc (mcs_userId ?m) i) ?m" and ?j = "joined_after i ?m"
    note J = joined_after_confirmed [OF assms(3), of i]
    have l: "length (channels_used ?m) = unat (mcs_channelCount ?m)"
      using assms(3) by (simp add: confirmed_def channels_used_def)
    have f: "mcs_channels (server_mark_joined i ?p) = channels_used ?m @ drop (unat (mcs_channelCount ?m)) (mcs_channels ?m)"
      "mcs_channelCount (server_mark_joined i ?p) = mcs_channelCount ?m"
      by (simp_all add: server_mark_joined_def channels_used_def)
    have loop: "server_join_loop i (mcs_channels (server_mark_joined i ?p)) 0 (unat (mcs_channelCount (server_mark_joined i ?p))) True =
        Some (mcs_channels ?j, \<forall>c \<in> set (channels_used ?j). ch_joined c)"
      using server_join_loop_ok [of i "[]" "channels_used ?m" "drop (unat (mcs_channelCount ?m)) (mcs_channels ?m)" True] l
      unfolding f J(2) joined_after_simps(7) by simp
    have j: "(server_mark_joined i ?p)\<lparr>mcs_channels := mcs_channels ?j\<rparr> = ?j"
      "mcs_userChannelJoined (server_mark_joined i ?p) = mcs_userChannelJoined ?j" "mcs_globalChannelJoined (server_mark_joined i ?p) = mcs_globalChannelJoined ?j"
      "mcs_messageChannelId (server_mark_joined i ?p) = mcs_messageChannelId ?j" "mcs_messageChannelJoined (server_mark_joined i ?p) = mcs_messageChannelJoined ?j"
      by (simp_all add: joined_after_def)
    have "peer_recv_callback E r (Some (stream_of u)) = Some (0, if all_joined ?j
        then r\<lparr>rdp_mcs := ?j, rdp_state := CONNECTION_STATE_RDP_SECURITY_COMMENCEMENT\<rparr> else r\<lparr>rdp_mcs := ?j\<rparr>)"
      using t Some assms(2) post_pdus(4) [OF assms(1), of i ?m] loop j
        server_early [of "r\<lparr>rdp_mcs := ?j\<rparr>" CONNECTION_STATE_RDP_SECURITY_COMMENCEMENT E]
      by (simp add: peer_recv_callback.simps peer_call_def rdp_server_accept_mcs_channel_join_request_def with_mcs_def Let_def
          all_joined_def Ball_def state_order)
    then show ?thesis using J(1) assms(2) by (cases "all_joined ?j") simp_all
  qed
qed

section \<open>All units of a client\<close>

text \<open>
  The units a client sends, one after the other, until the callback refuses one or the phase is over; the result is the
  state of the server after each of them.
\<close>

fun serve :: "byte list list rdp_env \<Rightarrow> node \<Rightarrow> byte list list \<Rightarrow> node list option" where
  "serve E r [] = Some []"
| "serve E r (u # us) =
     (if rdp_state r = CONNECTION_STATE_RDP_SECURITY_COMMENCEMENT then Some []
      else do {
        (status, r) \<leftarrow> peer_recv_callback E r (Some (stream_of u));
        if status < 0 then Some [r] else do { rs \<leftarrow> serve E r us; Some (r # rs) } })"

text \<open>What the server promises after every unit.\<close>

definition served :: "node \<Rightarrow> bool" where
  "served r \<longleftrightarrow>
     (if rdp_state r = CONNECTION_STATE_RDP_SECURITY_COMMENCEMENT
      then all_joined (rdp_mcs r) \<and> list_all (confirms (rdp_mcs r)) (channel_ids (rdp_mcs r))
      else rdp_state r \<in> {CONNECTION_STATE_NEGO, CONNECTION_STATE_MCS_CONNECT, CONNECTION_STATE_MCS_ERECT_DOMAIN, CONNECTION_STATE_MCS_ATTACH_USER})"

text \<open>The invariant between the units.\<close>

definition serving :: "node \<Rightarrow> bool" where
  "serving r \<longleftrightarrow> (case rdp_state r of
       CONNECTION_STATE_NEGO \<Rightarrow> gcc_room (rdp_mcs r) \<and> server_fresh (rdp_mcs r)
     | CONNECTION_STATE_MCS_CONNECT \<Rightarrow> server_fresh (rdp_mcs r)
     | CONNECTION_STATE_MCS_ERECT_DOMAIN \<Rightarrow> server_fresh (rdp_mcs r)
     | CONNECTION_STATE_MCS_ATTACH_USER \<Rightarrow> confirmed (rdp_mcs r)
     | CONNECTION_STATE_RDP_SECURITY_COMMENCEMENT \<Rightarrow> confirmed (rdp_mcs r) \<and> all_joined (rdp_mcs r)
     | _ \<Rightarrow> False)"

lemma serving_served: "serving r \<Longrightarrow> served r"
  by (auto simp: serving_def served_def list_all_iff intro: all_confirmed split: CONNECTION_STATE.splits)

lemma serving_step:
  assumes E: "linked (re_mcs E)" "\<And>w. ge_ConvertFromUnicode (me_gcc (re_mcs E)) w \<noteq> None"
    and "serving r" "rdp_state r \<noteq> CONNECTION_STATE_RDP_SECURITY_COMMENCEMENT" "unit_ok u"
  shows "\<exists>st r'. peer_recv_callback E r (Some (stream_of u)) = Some (st, r') \<and> rdp_state r \<le> rdp_state r' \<and>
     (if st < 0 then served r' else serving r')"
proof -
  consider "rdp_state r = CONNECTION_STATE_NEGO" | "rdp_state r = CONNECTION_STATE_MCS_CONNECT"
    | "rdp_state r = CONNECTION_STATE_MCS_ERECT_DOMAIN" | "rdp_state r = CONNECTION_STATE_MCS_ATTACH_USER"
    using assms(3,4) by (cases "rdp_state r") (auto simp: serving_def)
  then obtain st r' where r': "peer_recv_callback E r (Some (stream_of u)) = Some (st, r')" "rdp_state r \<le> rdp_state r'"
      "if st < 0 then served r' else serving r'"
  proof cases
    case 1
    with assms(3) have m: "gcc_room (rdp_mcs r)" "server_fresh (rdp_mcs r)" by (simp_all add: serving_def)
    from serve_connect [OF E 1 m assms(5)] that show ?thesis by (fastforce simp: 1 state_order served_def serving_def)
  next
    case 2
    with assms(3) have "server_fresh (rdp_mcs r)" by (simp add: serving_def)
    with serve_erect [OF 2 assms(5), of E] that show ?thesis by (fastforce simp: 2 state_order served_def serving_def)
  next
    case 3
    with assms(3) have m: "server_fresh (rdp_mcs r)" by (simp add: serving_def)
    from serve_attach [OF E(1) 3 m assms(5)] that show ?thesis
      by (fastforce simp: 3 state_order served_def serving_def intro: fresh_confirmed)
  next
    case 4
    with assms(3) have m: "confirmed (rdp_mcs r)" by (simp add: serving_def)
    from serve_join [OF E(1) 4 m assms(5)] that show ?thesis by (fastforce simp: 4 state_order served_def serving_def)
  qed
  then show ?thesis by blast
qed

lemma serve_ok:
  assumes E: "linked (re_mcs E)" "\<And>w. ge_ConvertFromUnicode (me_gcc (re_mcs E)) w \<noteq> None"
    and "serving r" "list_all unit_ok us"
  shows "\<exists>rs. serve E r us = Some rs \<and> sorted (map rdp_state (r # rs)) \<and> list_all served rs"
  using assms(3,4)
proof (induction us arbitrary: r)
  case (Cons u us)
  show ?case
  proof (cases "rdp_state r = CONNECTION_STATE_RDP_SECURITY_COMMENCEMENT")
    case False
    obtain st r' where s: "peer_recv_callback E r (Some (stream_of u)) = Some (st, r')" "rdp_state r \<le> rdp_state r'"
        "if st < 0 then served r' else serving r'"
      using serving_step [OF E Cons.prems(1) False, of u] Cons.prems(2) by auto
    show ?thesis
    proof (cases "st < 0")
      case True
      then show ?thesis using s False by simp
    next
      case ok: False
      then obtain rs where "serve E r' us = Some rs" "sorted (map rdp_state (r' # rs))" "list_all served rs"
        using Cons.IH [of r'] Cons.prems(2) s(3) by auto
      then show ?thesis using s ok False serving_served [of r'] by (fastforce intro: order_trans)
    qed
  qed simp
qed simp

lemma new_serving:
  "mcs_new True True ts sv = Some m \<Longrightarrow> settings_room sv \<Longrightarrow> \<not> se_UseRdpSecurityLayer sv \<Longrightarrow> gcc_room m \<and> server_fresh m"
  by (auto simp: server_fresh_def gcc_room_def mcs_new_def CHANNEL_MAX_COUNT_def channel_zero_def)

section \<open>Properties\<close>



end
