(* ===== verification/BitStream.thy ===== *)
theory BitStream
  imports Streams
begin

unbundle bit_operations_syntax

text \<open>
  Streams of bits (\<^verbatim>\<open>winpr/bitstream.h\<close>, \<^verbatim>\<open>libwinpr/utils/collections/BitStream.c\<close>), which the bulk codecs use. The
  macros of the header are functions here. A reader has the next 32 bits in \<^verbatim>\<open>accumulator\<close> and some more in
  \<^verbatim>\<open>prefetch\<close>; a writer collects 32 bits in \<^verbatim>\<open>accumulator\<close> before it stores them.
\<close>

section \<open>Model\<close>

record wBitStream =
  bs_buffer :: "byte list"
  bs_pointer :: nat
  bs_position :: int
  bs_length :: int
  bs_capacity :: int
  bs_mask :: u32
  bs_offset :: u32
  bs_prefetch :: u32
  bs_accumulator :: u32

text \<open>A byte behind the pointer, or 0 behind the capacity; the comparison is one of \<^verbatim>\<open>UINT32\<close>.\<close>

definition bs_inside :: "wBitStream \<Rightarrow> nat \<Rightarrow> bool" where
  "bs_inside bs k \<longleftrightarrow> (of_nat (bs_pointer bs) + of_nat k :: u32) < word_of_int (bs_capacity bs)"

definition bs_byte :: "wBitStream \<Rightarrow> nat \<Rightarrow> byte option" where
  "bs_byte bs k = (if bs_inside bs k then arr_get (bs_buffer bs) (bs_pointer bs + k) else Some 0)"

definition bs_word :: "wBitStream \<Rightarrow> nat \<Rightarrow> u32 option" where
  "bs_word bs k = do {
     a \<leftarrow> bs_byte bs k;
     b \<leftarrow> bs_byte bs (k + 1);
     c \<leftarrow> bs_byte bs (k + 2);
     d \<leftarrow> bs_byte bs (k + 3);
     Some (push_bit 24 (ucast a) OR push_bit 16 (ucast b) OR push_bit 8 (ucast c) OR ucast d) }"

definition BitStream_Prefetch :: "wBitStream \<Rightarrow> wBitStream option" where
  "BitStream_Prefetch bs = do { w \<leftarrow> bs_word bs 4; Some (bs\<lparr>bs_prefetch := w\<rparr>) }"

definition BitStream_Fetch :: "wBitStream \<Rightarrow> wBitStream option" where
  "BitStream_Fetch bs = do { w \<leftarrow> bs_word bs 0; BitStream_Prefetch (bs\<lparr>bs_accumulator := w\<rparr>) }"

definition bs_store :: "nat \<Rightarrow> byte \<Rightarrow> wBitStream \<Rightarrow> wBitStream option" where
  "bs_store k b bs = (if bs_inside bs k then do { buf \<leftarrow> arr_set (bs_buffer bs) (bs_pointer bs + k) b; Some (bs\<lparr>bs_buffer := buf\<rparr>) }
     else Some bs)"

definition BitStream_Flush :: "wBitStream \<Rightarrow> wBitStream option" where
  "BitStream_Flush bs = do {
     let acc = bs_accumulator bs;
     bs \<leftarrow> bs_store 0 (ucast (drop_bit 24 acc)) bs;
     bs \<leftarrow> bs_store 1 (ucast (drop_bit 16 acc)) bs;
     bs \<leftarrow> bs_store 2 (ucast (drop_bit 8 acc)) bs;
     bs_store 3 (ucast acc) bs }"

definition bs_take :: "nat \<Rightarrow> wBitStream \<Rightarrow> wBitStream" where
  "bs_take nbits bs = bs\<lparr>bs_mask := push_bit nbits 1 - 1,
     bs_accumulator := bs_accumulator bs OR (drop_bit (32 - nbits) (bs_prefetch bs) AND (push_bit nbits 1 - 1)),
     bs_prefetch := push_bit nbits (bs_prefetch bs)\<rparr>"

definition BitStream_Shift :: "nat \<Rightarrow> wBitStream \<Rightarrow> wBitStream option" where
  "BitStream_Shift nbits bs =
     (if nbits = 0 then Some bs
      else if nbits < 32 then do {
        position \<leftarrow> int_ck (bs_position bs + int nbits);
        let bs = bs\<lparr>bs_accumulator := push_bit nbits (bs_accumulator bs), bs_position := position, bs_offset := bs_offset bs + of_nat nbits\<rparr>;
        if bs_offset bs < 32 then Some (bs_take nbits bs)
        else do {
          let bs = bs_take nbits bs;
          bs \<leftarrow> BitStream_Prefetch (bs\<lparr>bs_offset := bs_offset bs - 32, bs_pointer := bs_pointer bs + 4\<rparr>);
          Some (if bs_offset bs \<noteq> 0 then bs_take (unat (bs_offset bs)) bs else bs) } }
      else Some bs)"

definition BitStream_Write_Bits :: "u32 \<Rightarrow> nat \<Rightarrow> wBitStream \<Rightarrow> wBitStream option" where
  "BitStream_Write_Bits bits nbits bs = do {
     position \<leftarrow> int_ck (bs_position bs + int nbits);
     let bs = bs\<lparr>bs_position := position, bs_offset := bs_offset bs + of_nat nbits\<rparr>;
     if bs_offset bs < 32 then Some (bs\<lparr>bs_accumulator := bs_accumulator bs OR push_bit (32 - unat (bs_offset bs)) bits\<rparr>)
     else do {
       let offset = bs_offset bs - 32;
       let mask = push_bit (nbits - unat offset) 1 - 1;
       bs \<leftarrow> BitStream_Flush (bs\<lparr>bs_offset := offset, bs_mask := mask,
         bs_accumulator := bs_accumulator bs OR (drop_bit (unat offset) bits AND mask)\<rparr>);
       let bs = bs\<lparr>bs_accumulator := 0, bs_pointer := bs_pointer bs + 4\<rparr>;
       Some (if offset \<noteq> 0 then bs\<lparr>bs_mask := push_bit (unat offset) 1 - 1,
           bs_accumulator := push_bit (32 - unat offset) (bits AND (push_bit (unat offset) 1 - 1))\<rparr> else bs) } }"

text \<open>The conversion of the capacity to \<^verbatim>\<open>int\<close>, and the length in bits, which must fit.\<close>

definition BitStream_Attach :: "byte list \<Rightarrow> u32 \<Rightarrow> wBitStream \<Rightarrow> wBitStream option" where
  "BitStream_Attach buffer capacity bs = do {
     len \<leftarrow> int_ck (sint capacity * 8);
     Some (bs\<lparr>bs_position := 0, bs_buffer := buffer, bs_offset := 0, bs_accumulator := 0, bs_pointer := 0,
       bs_capacity := sint capacity, bs_length := len\<rparr>) }"

definition bitstream_zero :: wBitStream where
  "bitstream_zero = \<lparr>bs_buffer = [], bs_pointer = 0, bs_position = 0, bs_length = 0, bs_capacity = 0, bs_mask = 0, bs_offset = 0,
     bs_prefetch = 0, bs_accumulator = 0\<rparr>"

definition BitStream_New :: "bool \<Rightarrow> wBitStream option" where
  "BitStream_New ok = (if ok then Some bitstream_zero else None)"

section \<open>The bits of a block\<close>

text \<open>The bits in the order of the stream: from the first byte on, the highest bit of a byte first.\<close>

definition sbit :: "byte list \<Rightarrow> nat \<Rightarrow> bool" where
  "sbit d k \<longleftrightarrow> k div 8 < length d \<and> bit (d ! (k div 8)) (7 - k mod 8)"

text \<open>A word whose bits, from the highest on, are given by a function.\<close>

definition word_bits :: "u32 \<Rightarrow> (nat \<Rightarrow> bool) \<Rightarrow> bool" where
  "word_bits w f \<longleftrightarrow> (\<forall>i < 32. bit w (31 - i) \<longleftrightarrow> f i)"

lemma bit_mask1: "bit (push_bit n 1 - 1 :: u32) j \<longleftrightarrow> j < n \<and> j < 32" "bit (2 ^ n - 1 :: u32) j \<longleftrightarrow> j < n \<and> j < 32"
  using bit_mask_iff [of n j, where ?'a = "32 word"] by (auto simp: mask_eq_exp_minus_1 push_bit_eq_mult possible_bit_word)

lemma byte_bit_less: "bit (b :: byte) k \<Longrightarrow> k < 8"
  using bit_imp_le_length [of b k] by simp

lemma u32_bit_less: "bit (w :: u32) k \<Longrightarrow> k < 32"
  using bit_imp_le_length [of w k] by simp

lemma pack_bits:
  assumes "j < 32"
  shows "bit (push_bit 24 (ucast (a :: byte)) OR push_bit 16 (ucast (b :: byte)) OR push_bit 8 (ucast (c :: byte)) OR ucast (d :: byte) :: u32) j \<longleftrightarrow>
     (if j < 8 then bit d j else if j < 16 then bit c (j - 8) else if j < 24 then bit b (j - 16) else bit a (j - 24))"
  using assms byte_bit_less [of a "j - 24"] byte_bit_less [of b "j - 16"] byte_bit_less [of c "j - 8"] byte_bit_less [of d j]
  by (auto simp: bit_simps possible_bit_word)

section \<open>Reading\<close>

text \<open>The state of a reader that has come to bit \<open>p\<close> of the block \<open>d\<close>.\<close>

definition reading :: "byte list \<Rightarrow> nat \<Rightarrow> wBitStream \<Rightarrow> bool" where
  "reading d p bs \<longleftrightarrow> bs_buffer bs = d \<and> bs_capacity bs = int (length d) \<and> bs_length bs = 8 * int (length d) \<and> bs_position bs = int p \<and>
     p = 8 * bs_pointer bs + unat (bs_offset bs) \<and> unat (bs_offset bs) < 32 \<and> word_bits (bs_accumulator bs) (\<lambda>i. sbit d (p + i)) \<and>
     word_bits (bs_prefetch bs) (\<lambda>i. i < 32 - unat (bs_offset bs) \<and> sbit d (p + 32 + i))"

lemma bs_byte_ok:
  assumes "bs_capacity bs = int (length (bs_buffer bs))" "length (bs_buffer bs) < 2 ^ 28" "bs_pointer bs + k < 2 ^ 31"
  shows "bs_byte bs k = Some (if bs_pointer bs + k < length (bs_buffer bs) then bs_buffer bs ! (bs_pointer bs + k) else 0)"
proof -
  have "unat (of_nat (bs_pointer bs) + of_nat k :: u32) = bs_pointer bs + k"
    using assms(3) by (simp add: unat_word_ariths unat_of_nat)
  then have "bs_inside bs k \<longleftrightarrow> bs_pointer bs + k < length (bs_buffer bs)"
    using assms(1,2) by (simp add: bs_inside_def word_less_nat_alt unat_of_nat)
  then show ?thesis by (simp add: bs_byte_def arr_get_def)
qed

lemma bs_word_ok:
  assumes "bs_capacity bs = int (length (bs_buffer bs))" "length (bs_buffer bs) < 2 ^ 28" "bs_pointer bs + k < 2 ^ 30"
  shows "\<exists>w. bs_word bs k = Some w \<and> word_bits w (\<lambda>i. sbit (bs_buffer bs) (8 * (bs_pointer bs + k) + i))"
proof -
  let ?d = "bs_buffer bs" and ?p = "bs_pointer bs + k"
  define g where "g n = (if ?p + n < length ?d then ?d ! (?p + n) else 0)" for n
  have b: "bs_byte bs (k + n) = Some (g n)" if "n < 4" for n
    using bs_byte_ok [OF assms(1,2), of "k + n"] assms(3) that by (simp add: add.assoc g_def)
  have g: "bit (g n) (7 - m) \<longleftrightarrow> sbit ?d (8 * ?p + (8 * n + m))" if "m < 8" for n m
  proof -
    define q where "q = ?p + n"
    have e: "8 * ?p + (8 * n + m) = 8 * q + m" by (simp add: q_def)
    show ?thesis unfolding e g_def q_def [symmetric] using that by (simp add: sbit_def)
  qed
  define w :: u32 where "w = push_bit 24 (ucast (g 0)) OR push_bit 16 (ucast (g 1)) OR push_bit 8 (ucast (g 2)) OR ucast (g 3)"
  have "bs_word bs k = Some w" using b [of 0] b [of 1] b [of 2] b [of 3] by (simp add: bs_word_def w_def)
  moreover have "bit w (31 - i) \<longleftrightarrow> sbit ?d (8 * ?p + i)" if i: "i < 32" for i
  proof -
    define n m where "n = i div 8" and "m = i mod 8"
    have im: "i = 8 * n + m" "m < 8" "n < 4" using i by (simp_all add: n_def m_def)
    note W = pack_bits [of "31 - i" "g 0" "g 1" "g 2" "g 3", folded w_def]
    consider "n = 0" | "n = 1" | "n = 2" | "n = 3" using im(3) by linarith
    then have "bit w (31 - i) \<longleftrightarrow> bit (g n) (7 - m)"
      by cases (use W im in auto)
    then show ?thesis using g [OF im(2), of n] im(1) by simp
  qed
  ultimately show ?thesis by (auto simp: word_bits_def)
qed

lemma attach_fetch:
  assumes "length d < 2 ^ 28"
  shows "\<exists>b1 b2. BitStream_Attach d (of_nat (length d)) bs = Some b1 \<and> BitStream_Fetch b1 = Some b2 \<and> reading d 0 b2"
proof -
  have c: "sint (of_nat (length d) :: u32) = int (length d)" using assms by (simp add: sint_of_nat to_int_small)
  define b1 where "b1 = bs\<lparr>bs_position := 0, bs_buffer := d, bs_offset := 0, bs_accumulator := 0, bs_pointer := 0,
       bs_capacity := int (length d), bs_length := int (length d) * 8\<rparr>"
  have 1: "BitStream_Attach d (of_nat (length d)) bs = Some b1"
    using assms by (simp add: BitStream_Attach_def c int_ck_def INT_LIM_def b1_def)
  obtain w where w: "bs_word b1 0 = Some w" "word_bits w (\<lambda>i. sbit d i)"
    using bs_word_ok [of b1 0] assms by (auto simp: b1_def)
  obtain v where v: "bs_word (b1\<lparr>bs_accumulator := w\<rparr>) 4 = Some v" "word_bits v (\<lambda>i. sbit d (32 + i))"
    using bs_word_ok [of "b1\<lparr>bs_accumulator := w\<rparr>" 4] assms by (auto simp: b1_def)
  show ?thesis using 1 w v
    by (auto simp: BitStream_Fetch_def BitStream_Prefetch_def reading_def word_bits_def) (simp_all add: b1_def)
qed

lemma word_bits_iff: "word_bits w f \<longleftrightarrow> (\<forall>j < 32. bit w j \<longleftrightarrow> f (31 - j))"
proof
  assume w: "word_bits w f"
  show "\<forall>j < 32. bit w j \<longleftrightarrow> f (31 - j)"
  proof (intro allI impI)
    fix j :: nat assume "j < 32"
    then show "bit w j \<longleftrightarrow> f (31 - j)" using w [unfolded word_bits_def, rule_format, of "31 - j"] by simp
  qed
next
  assume w: "\<forall>j < 32. bit w j \<longleftrightarrow> f (31 - j)"
  show "word_bits w f" unfolding word_bits_def
  proof (intro allI impI)
    fix i :: nat assume "i < 32"
    then show "bit w (31 - i) \<longleftrightarrow> f i" using w [rule_format, of "31 - i"] by simp
  qed
qed

lemma take_bits:
  assumes "0 < n" "n < 32" "j < 32"
  shows "bit (bs_accumulator (bs_take n bs)) j \<longleftrightarrow> bit (bs_accumulator bs) j \<or> j < n \<and> bit (bs_prefetch bs) (j + (32 - n))"
    "bit (bs_prefetch (bs_take n bs)) j \<longleftrightarrow> n \<le> j \<and> bit (bs_prefetch bs) (j - n)"
  using assms u32_bit_less [of "bs_prefetch bs" "j + (32 - n)"]
  by (auto simp: bs_take_def bit_simps bit_mask1 possible_bit_word add.commute)

lemma bs_take_fields [simp]:
  "bs_buffer (bs_take n bs) = bs_buffer bs" "bs_capacity (bs_take n bs) = bs_capacity bs" "bs_length (bs_take n bs) = bs_length bs"
  "bs_position (bs_take n bs) = bs_position bs" "bs_pointer (bs_take n bs) = bs_pointer bs" "bs_offset (bs_take n bs) = bs_offset bs"
  by (simp_all add: bs_take_def)

lemma BitStream_Shift_ok:
  assumes R: "reading d p bs" and n: "0 < n" "n < 32" and p: "p \<le> 8 * length d" and d: "length d < 2 ^ 27"
  shows "\<exists>bs'. BitStream_Shift n bs = Some bs' \<and> reading d (p + n) bs'"
proof -
  define o1 where "o1 = unat (bs_offset bs)"
  have f: "bs_buffer bs = d" "bs_capacity bs = int (length d)" "bs_length bs = 8 * int (length d)" "bs_position bs = int p"
      "p = 8 * bs_pointer bs + o1" "o1 < 32"
    and A: "\<And>j. j < 32 \<Longrightarrow> bit (bs_accumulator bs) j \<longleftrightarrow> sbit d (p + (31 - j))"
    and P: "\<And>j. j < 32 \<Longrightarrow> bit (bs_prefetch bs) j \<longleftrightarrow> 31 - j < 32 - o1 \<and> sbit d (p + 32 + (31 - j))"
    using R by (auto simp: reading_def o1_def word_bits_iff)
  have ck: "int_ck (int p + int n) = Some (int (p + n))" using p d n by (simp add: int_ck_def INT_LIM_def)
  define b1 where "b1 = bs\<lparr>bs_accumulator := push_bit n (bs_accumulator bs), bs_position := int (p + n), bs_offset := bs_offset bs + of_nat n\<rparr>"
  have E: "BitStream_Shift n bs = (if bs_offset b1 < 32 then Some (bs_take n b1)
      else BitStream_Prefetch ((bs_take n b1)\<lparr>bs_offset := bs_offset b1 - 32, bs_pointer := bs_pointer bs + 4\<rparr>) \<bind>
        (\<lambda>bs. Some (if bs_offset bs \<noteq> 0 then bs_take (unat (bs_offset bs)) bs else bs)))"
    using n f(4) ck by (simp add: BitStream_Shift_def Let_def b1_def)
  have o2: "unat (bs_offset bs + of_nat n) = o1 + n" using f(6) n by (simp add: o1_def unat_word_ariths unat_of_nat)
  have acc: "bit (bs_accumulator (bs_take n b1)) j \<longleftrightarrow> sbit d (p + n + (31 - j)) \<and> (n \<le> j \<or> o1 + n \<le> 32 + j)" if "j < 32" for j
  proof (cases "n \<le> j")
    case True
    then have e: "31 - (j - n) = 31 - j + n" using that by simp
    show ?thesis using take_bits(1) [OF n that, of b1] A [of "j - n"] True that n
      by (simp add: b1_def bit_push_bit_iff possible_bit_word e add.assoc add.commute [of n])
  next
    case False
    then have e: "31 - (j + (32 - n)) = n - 1 - j" "p + 32 + (n - 1 - j) = p + n + (31 - j)" using that n by simp_all
    have c: "n - 1 - j < 32 - o1 \<longleftrightarrow> o1 + n \<le> 32 + j" using False f(6) by linarith
    have "bit (bs_prefetch bs) (j + (32 - n)) \<longleftrightarrow> o1 + n \<le> 32 + j \<and> sbit d (p + n + (31 - j))"
      using P [of "j + (32 - n)"] False n unfolding e c by simp
    then show ?thesis using take_bits(1) [OF n that, of b1] False by (auto simp: b1_def bit_push_bit_iff)
  qed
  have pre: "bit (bs_prefetch (bs_take n b1)) j \<longleftrightarrow> n \<le> j \<and> 31 - j < 32 - (o1 + n) \<and> sbit d (p + n + 32 + (31 - j))" if "j < 32" for j
  proof (cases "n \<le> j")
    case True
    then have e: "31 - (j - n) = 31 - j + n" using that by simp
    then have c: "31 - (j - n) < 32 - o1 \<longleftrightarrow> 31 - j < 32 - (o1 + n)" "p + 32 + (31 - (j - n)) = p + n + 32 + (31 - j)" by linarith+
    show ?thesis using take_bits(2) [OF n that, of b1] P [of "j - n"] True that by (simp add: b1_def c del: diff_diff_right)
  qed (use take_bits(2) [OF n that, of b1] in simp)
  show ?thesis
  proof (cases "o1 + n < 32")
    case True
    have lt: "bs_offset b1 < 32" using True o2 by (simp add: b1_def word_less_nat_alt)
    have "reading d (p + n) (bs_take n b1)" unfolding reading_def word_bits_iff
      using f True o2 acc pre by (auto simp: b1_def)
    moreover have "BitStream_Shift n bs = Some (bs_take n b1)"
      using E lt by simp
    ultimately show ?thesis by blast
  next
    case False
    have ge: "\<not> bs_offset b1 < 32" using False o2 by (simp add: b1_def word_less_nat_alt)
    define o3 where "o3 = o1 + n - 32"
    have o4: "unat (bs_offset b1 - 32) = o3" using False o2 by (simp add: b1_def o3_def unat_sub word_le_nat_alt)
    define b2 where "b2 = (bs_take n b1)\<lparr>bs_offset := bs_offset b1 - 32, bs_pointer := bs_pointer bs + 4\<rparr>"
    have b2: "bs_buffer b2 = d" "bs_capacity b2 = int (length d)" "bs_pointer b2 = bs_pointer bs + 4" using f by (simp_all add: b2_def b1_def)
    have "length d < 2 ^ 28" "bs_pointer bs + 4 + 4 < 2 ^ 30" using f(5) p d by simp_all
    then obtain v where v: "bs_word b2 4 = Some v" "word_bits v (\<lambda>i. sbit d (8 * (bs_pointer bs + 4 + 4) + i))"
      using bs_word_ok [of b2 4, unfolded b2] by blast
    have V: "bit v j \<longleftrightarrow> sbit d (p + n + 32 - o3 + (31 - j))" if "j < 32" for j
      using v(2) that f(5) False by (simp add: word_bits_iff o3_def)
    define b3 where "b3 = b2\<lparr>bs_prefetch := v\<rparr>"
    define b4 where "b4 = (if bs_offset b3 \<noteq> 0 then bs_take (unat (bs_offset b3)) b3 else b3)"
    have o5: "unat (bs_offset b3) = o3" "bs_offset b3 \<noteq> 0 \<longleftrightarrow> o3 \<noteq> 0" "o3 < 32"
      using o4 f(6) n by (auto simp: b3_def b2_def o3_def unat_eq_zero)
    have S: "BitStream_Shift n bs = Some b4"
      unfolding E b2_def [symmetric] using ge v(1) by (simp add: BitStream_Prefetch_def b3_def b4_def)
    have a3: "bs_accumulator b3 = bs_accumulator (bs_take n b1)" "bs_prefetch b3 = v" by (simp_all add: b3_def b2_def)
    have "reading d (p + n) b4"
    proof (cases "o3 = 0")
      case True
      then have "b4 = b3" using o5 by (simp add: b4_def)
      then show ?thesis unfolding reading_def word_bits_iff using f True o5 acc V a3 False
        by (auto simp: b3_def b2_def b1_def o3_def)
    next
      case F: False
      then have b4: "b4 = bs_take o3 b3" "0 < o3" using o5 by (simp_all add: b4_def)
      have "bit (bs_accumulator b4) j \<longleftrightarrow> sbit d (p + n + (31 - j))" if "j < 32" for j
      proof -
        have "o1 + n \<le> 32 + j \<longleftrightarrow> o3 \<le> j" "n \<le> j \<longrightarrow> o3 \<le> j" using False f(6) by (auto simp: o3_def)
        moreover have "bit v (j + (32 - o3)) \<longleftrightarrow> sbit d (p + n + (31 - j))" if "j < o3"
        proof -
          have "j + (32 - o3) < 32" "p + n + 32 - o3 + (31 - (j + (32 - o3))) = p + n + (31 - j)" using that o5(3) by simp_all
          then show ?thesis using V [of "j + (32 - o3)"] by (simp only:)
        qed
        ultimately show ?thesis
          using take_bits(1) [OF b4(2) o5(3) that, of b3] acc [OF that] unfolding a3 b4(1) by (meson not_le)
      qed
      moreover have "bit (bs_prefetch b4) j \<longleftrightarrow> 31 - j < 32 - o3 \<and> sbit d (p + n + 32 + (31 - j))" if "j < 32" for j
      proof -
        have "o3 \<le> j \<longleftrightarrow> 31 - j < 32 - o3" "o3 \<le> j \<Longrightarrow> p + n + 32 - o3 + (31 - (j - o3)) = p + n + 32 + (31 - j)"
          using that o5(3) by auto
        then show ?thesis
          using take_bits(2) [OF b4(2) o5(3) that, of b3] V [of "j - o3"] that unfolding a3 b4(1) by auto
      qed
      ultimately show ?thesis unfolding reading_def word_bits_iff using f o5 b4 False
        by (auto simp: b3_def b2_def b1_def o3_def)
    qed
    then show ?thesis using S by blast
  qed
qed

section \<open>Writing\<close>

definition stored :: "nat \<Rightarrow> nat \<Rightarrow> byte \<Rightarrow> byte list \<Rightarrow> byte list" where
  "stored c q b buf = (if q < c then buf[q := b] else buf)"

lemma length_stored [simp]: "length (stored c q b buf) = length buf"
  by (simp add: stored_def)

lemma nth_stored: "q < length buf \<Longrightarrow> stored c q b buf ! r = (if r = q \<and> q < c then b else buf ! r)" "c \<le> length buf \<Longrightarrow> stored c q b buf ! r = (if r = q \<and> q < c then b else buf ! r)"
  by (auto simp: stored_def nth_list_update)

lemma bs_store_ok:
  assumes "bs_capacity bs = int c" "c \<le> length (bs_buffer bs)" "c < 2 ^ 28" "bs_pointer bs + k < 2 ^ 31"
  shows "bs_store k b bs = Some (bs\<lparr>bs_buffer := stored c (bs_pointer bs + k) b (bs_buffer bs)\<rparr>)"
proof -
  have "unat (of_nat (bs_pointer bs) + of_nat k :: u32) = bs_pointer bs + k"
    using assms(4) by (simp add: unat_word_ariths unat_of_nat)
  then have "bs_inside bs k \<longleftrightarrow> bs_pointer bs + k < c"
    using assms(1,3) by (simp add: bs_inside_def word_less_nat_alt unat_of_nat)
  then show ?thesis using assms(2) by (simp add: bs_store_def arr_set_def stored_def)
qed

lemma BitStream_Flush_ok:
  assumes "bs_capacity bs = int c" "c \<le> length (bs_buffer bs)" "c < 2 ^ 28" "bs_pointer bs < 2 ^ 30"
  shows "\<exists>buf. BitStream_Flush bs = Some (bs\<lparr>bs_buffer := buf\<rparr>) \<and> length buf = length (bs_buffer bs) \<and>
     (\<forall>k. sbit buf k \<longleftrightarrow> (if 8 * bs_pointer bs \<le> k \<and> k < 8 * bs_pointer bs + 32 \<and> k < 8 * c
        then bit (bs_accumulator bs) (31 - (k - 8 * bs_pointer bs)) else sbit (bs_buffer bs) k))"
proof -
  let ?p = "bs_pointer bs" and ?a = "bs_accumulator bs"
  define f :: "nat \<Rightarrow> byte" where "f n = ucast (drop_bit (24 - 8 * n) ?a)" for n
  define buf where "buf = stored c (?p + 3) (f 3) (stored c (?p + 2) (f 2) (stored c (?p + 1) (f 1) (stored c ?p (f 0) (bs_buffer bs))))"
  have "BitStream_Flush bs = Some (bs\<lparr>bs_buffer := buf\<rparr>)"
    unfolding BitStream_Flush_def Let_def using assms
    by (simp add: bs_store_ok [where c = c] buf_def f_def)
  moreover have "length buf = length (bs_buffer bs)" by (simp add: buf_def)
  moreover have "sbit buf k \<longleftrightarrow> (if 8 * ?p \<le> k \<and> k < 8 * ?p + 32 \<and> k < 8 * c then bit ?a (31 - (k - 8 * ?p)) else sbit (bs_buffer bs) k)" for k
  proof -
    define q m where "q = k div 8" and "m = k mod 8"
    have k: "k = 8 * q + m" "m < 8" by (simp_all add: q_def m_def)
    have n: "buf ! q = (if ?p \<le> q \<and> q < ?p + 4 \<and> q < c then f (q - ?p) else bs_buffer bs ! q)"
    proof (cases "?p \<le> q \<and> q < ?p + 4")
      case True
      then consider "q = ?p" | "q = ?p + 1" | "q = ?p + 2" | "q = ?p + 3" by linarith
      then show ?thesis by cases (simp_all add: buf_def nth_stored assms(2))
    next
      case False
      then show ?thesis by (auto simp: buf_def nth_stored assms(2))
    qed
    have c: "8 * ?p \<le> k \<and> k < 8 * ?p + 32 \<and> k < 8 * c \<longleftrightarrow> ?p \<le> q \<and> q < ?p + 4 \<and> q < c" using k by linarith
    have "bit (f (q - ?p)) (7 - m) \<longleftrightarrow> bit ?a (31 - (k - 8 * ?p))" if "?p \<le> q" "q < ?p + 4"
    proof -
      have "24 - 8 * (q - ?p) + (7 - m) = 31 - (k - 8 * ?p)" using that k by linarith
      moreover have "7 - m < 8" using k(2) by simp
      ultimately show ?thesis by (auto simp: f_def bit_ucast_iff bit_drop_bit_eq possible_bit_word)
    qed
    then show ?thesis unfolding c sbit_def q_def [symmetric] m_def [symmetric] n using assms(2)
      by (auto simp: buf_def)
  qed
  ultimately show ?thesis by blast
qed

text \<open>The bits of a value, the highest first, and the state of a writer that has written the bits \<open>B\<close>.\<close>

definition bits_of :: "nat \<Rightarrow> u32 \<Rightarrow> bool list" where
  "bits_of n v = map (\<lambda>i. bit v (n - 1 - i)) [0..<n]"

lemma length_bits_of [simp]: "length (bits_of n v) = n"
  by (simp add: bits_of_def)

lemma nth_bits_of: "i < n \<Longrightarrow> bits_of n v ! i \<longleftrightarrow> bit v (n - 1 - i)"
  by (simp add: bits_of_def)

definition writing :: "nat \<Rightarrow> bool list \<Rightarrow> wBitStream \<Rightarrow> bool" where
  "writing c B bs \<longleftrightarrow> bs_capacity bs = int c \<and> c \<le> length (bs_buffer bs) \<and> bs_position bs = int (length B) \<and>
     bs_pointer bs = 4 * (length B div 32) \<and> unat (bs_offset bs) = length B mod 32 \<and>
     word_bits (bs_accumulator bs) (\<lambda>i. i < length B mod 32 \<and> B ! (32 * (length B div 32) + i)) \<and>
     (\<forall>k < 32 * (length B div 32). k < 8 * c \<longrightarrow> (sbit (bs_buffer bs) k \<longleftrightarrow> B ! k))"

lemma attach_writing:
  assumes "c < 2 ^ 28" "c \<le> length d"
  shows "\<exists>b. BitStream_Attach d (of_nat c) bs = Some b \<and> writing c [] b \<and> bs_buffer b = d"
proof -
  have "sint (of_nat c :: u32) = int c" using assms by (simp add: sint_of_nat to_int_small)
  then show ?thesis using assms by (simp add: BitStream_Attach_def int_ck_def INT_LIM_def writing_def word_bits_def)
qed

lemma flush_writing:
  assumes W: "writing c B bs" and c: "c < 2 ^ 28" and B: "length B < 2 ^ 30"
  shows "\<exists>buf. BitStream_Flush bs = Some (bs\<lparr>bs_buffer := buf\<rparr>) \<and> length buf = length (bs_buffer bs) \<and>
     (\<forall>k < length B. k < 8 * c \<longrightarrow> (sbit buf k \<longleftrightarrow> B ! k))"
proof -
  define q r where "q = length B div 32" and "r = length B mod 32"
  have qr: "length B = 32 * q + r" "r < 32" by (simp_all add: q_def r_def)
  have f: "bs_capacity bs = int c" "c \<le> length (bs_buffer bs)" "bs_pointer bs = 4 * q"
    and A: "\<And>i. i < 32 \<Longrightarrow> bit (bs_accumulator bs) (31 - i) \<longleftrightarrow> i < r \<and> B ! (32 * q + i)"
    and S: "\<And>k. k < 32 * q \<Longrightarrow> k < 8 * c \<Longrightarrow> sbit (bs_buffer bs) k \<longleftrightarrow> B ! k"
    using W by (auto simp: writing_def word_bits_def q_def r_def)
  have "bs_pointer bs < 2 ^ 30" using f(3) qr B by simp
  then obtain buf where b: "BitStream_Flush bs = Some (bs\<lparr>bs_buffer := buf\<rparr>)" "length buf = length (bs_buffer bs)"
      "\<And>k. sbit buf k \<longleftrightarrow> (if 32 * q \<le> k \<and> k < 32 * q + 32 \<and> k < 8 * c
        then bit (bs_accumulator bs) (31 - (k - 32 * q)) else sbit (bs_buffer bs) k)"
    using BitStream_Flush_ok [OF f(1,2) c] f(3) by auto
  have "sbit buf k \<longleftrightarrow> B ! k" if "k < length B" "k < 8 * c" for k
  proof (cases "32 * q \<le> k")
    case True
    then have "k - 32 * q < 32" "k - 32 * q < r" "k < 32 * q + 32" using that qr by linarith+
    then show ?thesis using b(3) [of k] A [of "k - 32 * q"] True that by simp
  next
    case False
    then show ?thesis using b(3) [of k] S [of k] that by simp
  qed
  then show ?thesis using b(1,2) by blast
qed

lemma BitStream_Write_Bits_ok:
  assumes W: "writing c B bs" and n: "0 < n" "n < 32" and v: "\<And>j. bit v j \<Longrightarrow> j < n" and c: "c < 2 ^ 28" "length B + n < 2 ^ 30"
  shows "\<exists>bs'. BitStream_Write_Bits v n bs = Some bs' \<and> writing c (B @ bits_of n v) bs' \<and> length (bs_buffer bs') = length (bs_buffer bs)"
proof -
  define q r where "q = length B div 32" and "r = length B mod 32"
  have qr: "length B = 32 * q + r" "r < 32" by (simp_all add: q_def r_def)
  have f: "bs_capacity bs = int c" "c \<le> length (bs_buffer bs)" "bs_position bs = int (length B)" "bs_pointer bs = 4 * q" "unat (bs_offset bs) = r"
    and A: "\<And>j. j < 32 \<Longrightarrow> bit (bs_accumulator bs) j \<longleftrightarrow> 31 - j < r \<and> B ! (32 * q + (31 - j))"
    and S: "\<And>k. k < 32 * q \<Longrightarrow> k < 8 * c \<Longrightarrow> sbit (bs_buffer bs) k \<longleftrightarrow> B ! k"
    using W by (auto simp: writing_def word_bits_iff q_def r_def)
  have ck: "int_ck (int (length B) + int n) = Some (int (length B + n))" using c n by (simp add: int_ck_def INT_LIM_def)
  have o2: "unat (bs_offset bs + of_nat n) = r + n" using qr n f(5) by (simp add: unat_word_ariths unat_of_nat)
  have N: "(B @ bits_of n v) ! (32 * q + i) \<longleftrightarrow> (if i < r then B ! (32 * q + i) else bit v (n - 1 - (i - r)))" if "i < r + n" for i
    using that qr(1) by (auto simp: nth_append nth_bits_of)
  show ?thesis
  proof (cases "r + n < 32")
    case True
    define b1 where "b1 = bs\<lparr>bs_position := int (length B + n), bs_offset := bs_offset bs + of_nat n,
        bs_accumulator := bs_accumulator bs OR push_bit (32 - (r + n)) v\<rparr>"
    have "bs_offset bs + of_nat n < 32" using True o2 by (simp add: word_less_nat_alt)
    then have E: "BitStream_Write_Bits v n bs = Some b1"
      using f(3) ck o2 by (simp add: BitStream_Write_Bits_def Let_def b1_def)
    have "length (B @ bits_of n v) = 32 * q + (r + n)" using qr(1) by simp
    then have dm: "length (B @ bits_of n v) div 32 = q" "length (B @ bits_of n v) mod 32 = r + n" using True by (simp_all only: div_mult_self4 mod_mult_self4) simp_all
    have "bit (bs_accumulator b1) j \<longleftrightarrow> 31 - j < r + n \<and> (B @ bits_of n v) ! (32 * q + (31 - j))" if "j < 32" for j
    proof (cases "31 - j < r")
      case T: True
      have "\<not> bit v (j - (32 - (r + n)))" if "32 - (r + n) \<le> j" using v [of "j - (32 - (r + n))"] that T True by linarith
      then show ?thesis using A [OF that] T that N [of "31 - j"] by (auto simp: b1_def bit_simps possible_bit_word)
    next
      case F: False
      then have "32 - (r + n) \<le> j \<longleftrightarrow> 31 - j < r + n" "31 - j < r + n \<Longrightarrow> j - (32 - (r + n)) = n - 1 - (31 - j - r)"
        using that n True by linarith+
      then show ?thesis using A [OF that] F that N [of "31 - j"] by (auto simp: b1_def bit_simps possible_bit_word)
    qed
    then have "writing c (B @ bits_of n v) b1"
      unfolding writing_def word_bits_iff dm using f o2 S qr(1) by (auto simp: b1_def nth_append)
    then show ?thesis using E by (auto simp: b1_def)
  next
    case False
    define o3 where "o3 = r + n - 32"
    have o3: "unat (bs_offset bs + of_nat n - 32) = o3" "o3 < n" "n - o3 = 32 - r" "o3 < 32"
      using False o2 qr n by (simp_all add: o3_def unat_sub word_le_nat_alt)
    define b1 where "b1 = bs\<lparr>bs_position := int (length B + n), bs_offset := bs_offset bs + of_nat n - 32, bs_mask := push_bit (n - o3) 1 - 1,
        bs_accumulator := bs_accumulator bs OR (drop_bit o3 v AND (push_bit (n - o3) 1 - 1))\<rparr>"
    have "\<not> bs_offset bs + of_nat n < 32" using False o2 by (simp add: word_less_nat_alt)
    then have E: "BitStream_Write_Bits v n bs = BitStream_Flush b1 \<bind> (\<lambda>b. Some (if bs_offset bs + of_nat n - 32 \<noteq> 0
        then b\<lparr>bs_pointer := bs_pointer b + 4, bs_mask := push_bit o3 1 - 1, bs_accumulator := push_bit (32 - o3) (v AND (push_bit o3 1 - 1))\<rparr>
        else b\<lparr>bs_accumulator := 0, bs_pointer := bs_pointer b + 4\<rparr>))"
      using f(3) ck o3(1) by (simp add: BitStream_Write_Bits_def Let_def b1_def if_distrib cong: if_cong)
    have acc: "bit (bs_accumulator b1) (31 - i) \<longleftrightarrow> (B @ bits_of n v) ! (32 * q + i)" if "i < 32" for i
    proof -
      have "31 - (31 - i) = i" "i < r + n" using that False by simp_all
      moreover have "31 - i < n - o3 \<longleftrightarrow> \<not> i < r" "\<not> i < r \<Longrightarrow> o3 + (31 - i) = n - 1 - (i - r)"
        using that o3(3) False qr(2) n by (auto simp: o3_def)
      ultimately show ?thesis using A [of "31 - i"] N [of i] that
        by (auto simp: b1_def bit_simps bit_mask1 possible_bit_word)
    qed
    have "bs_pointer b1 < 2 ^ 30" using f(4) qr c(2) by (simp add: b1_def)
    then obtain buf where b: "BitStream_Flush b1 = Some (b1\<lparr>bs_buffer := buf\<rparr>)" "length buf = length (bs_buffer bs)"
        "\<And>k. sbit buf k \<longleftrightarrow> (if 32 * q \<le> k \<and> k < 32 * q + 32 \<and> k < 8 * c
          then bit (bs_accumulator b1) (31 - (k - 32 * q)) else sbit (bs_buffer bs) k)"
      using BitStream_Flush_ok [of b1 c] f c(1) by (auto simp: b1_def)
    define b2 where "b2 = (if bs_offset bs + of_nat n - 32 \<noteq> 0
        then b1\<lparr>bs_buffer := buf, bs_accumulator := push_bit (32 - o3) (v AND (push_bit o3 1 - 1)), bs_pointer := bs_pointer bs + 4, bs_mask := push_bit o3 1 - 1\<rparr>
        else b1\<lparr>bs_buffer := buf, bs_accumulator := 0, bs_pointer := bs_pointer bs + 4\<rparr>)"
    have E2: "BitStream_Write_Bits v n bs = Some b2" unfolding E b(1) by (simp add: b2_def b1_def)
    define q1 where "q1 = q + 1"
    have "length (B @ bits_of n v) = 32 * q1 + o3" using qr(1) False by (simp add: o3_def q1_def)
    then have dm: "length (B @ bits_of n v) div 32 = q + 1" "length (B @ bits_of n v) mod 32 = o3" using o3(4) unfolding q1_def [symmetric] by simp_all
    have z: "bs_offset bs + of_nat n - 32 \<noteq> 0 \<longleftrightarrow> o3 \<noteq> 0" using o3(1) unat_eq_zero [of "bs_offset bs + of_nat n - 32"] by argo
    have fields: "bs_capacity b2 = int c" "bs_buffer b2 = buf" "bs_position b2 = int (length B + n)" "bs_pointer b2 = 4 * (q + 1)"
        "unat (bs_offset b2) = o3"
      using f o3(1) by (cases "o3 = 0"; simp add: b2_def b1_def z del: right_minus_eq eq_iff_diff_eq_0)+
    have "bit (bs_accumulator b2) j \<longleftrightarrow> 31 - j < o3 \<and> (B @ bits_of n v) ! (32 * (q + 1) + (31 - j))" if "j < 32" for j
    proof (cases "31 - j < o3")
      case T: True
      have h: "r + n = 32 + o3" using False by (simp add: o3_def)
      have i: "32 * (q + 1) + (31 - j) = 32 * q + (63 - j)" "63 - j < r + n" "\<not> 63 - j < r" "32 - o3 \<le> j" "j - (32 - o3) < o3" "o3 \<noteq> 0"
        using T that qr(2) h by simp_all
      have e: "n - 1 - (63 - j - r) = j - (32 - o3)" using T that qr(2) h n(2) by arith
      have "(B @ bits_of n v) ! (32 * (q + 1) + (31 - j)) \<longleftrightarrow> bit v (j - (32 - o3))" unfolding i(1) N [OF i(2)] e using i(3) by simp
      then show ?thesis using T i(4-6) z that u32_bit_less [of v "j - (32 - o3)"] by (auto simp: b2_def bit_simps bit_mask1 possible_bit_word)
    next
      case F: False
      then have "\<not> 32 - o3 \<le> j" using that o3(4) by linarith
      then show ?thesis using F z by (simp add: b2_def bit_simps)
    qed
    moreover have "sbit buf k \<longleftrightarrow> (B @ bits_of n v) ! k" if "k < 32 * (q + 1)" "k < 8 * c" for k
    proof (cases "32 * q \<le> k")
      case True
      then have "k - 32 * q < 32" "32 * q + (k - 32 * q) = k" "k < 32 * q + 32" using that by auto
      then show ?thesis using b(3) [of k] acc [of "k - 32 * q"] True that by simp
    next
      case F: False
      then show ?thesis using b(3) [of k] S [of k] that qr(1) by (simp add: nth_append)
    qed
    ultimately have "writing c (B @ bits_of n v) b2"
      unfolding writing_def word_bits_iff dm fields using f(2) b(2) by auto
    then show ?thesis using E2 fields(2) b(2) by auto
  qed
qed

end
