(* ===== verification/Mppc.thy ===== *)
theory Mppc
  imports BitStream
begin

unbundle bit_operations_syntax

text \<open>
  The bulk compression of RDP 4 and 5 (\<^verbatim>\<open>libfreerdp/codec/mppc.c\<close>): a sliding window with a table of matches, and a code of
  literals, offsets and lengths on a stream of bits. Pointers into \<^verbatim>\<open>HistoryBuffer\<close> and into the data are indices.
\<close>

definition PACKET_COMPRESSED :: u32 where "PACKET_COMPRESSED = 0x20"
definition PACKET_AT_FRONT :: u32 where "PACKET_AT_FRONT = 0x40"
definition PACKET_FLUSHED :: u32 where "PACKET_FLUSHED = 0x80"

record MPPC_CONTEXT =
  mp_bs :: wBitStream
  mp_Compressor :: bool
  mp_HistoryPtr :: nat
  mp_HistoryOffset :: u32
  mp_HistoryBufferSize :: u32
  mp_HistoryBuffer :: "byte list"
  mp_MatchBuffer :: "u16 list"
  mp_CompressionLevel :: u32

section \<open>Contexts\<close>

definition mppc_set_compression_level :: "u32 \<Rightarrow> MPPC_CONTEXT \<Rightarrow> MPPC_CONTEXT" where
  "mppc_set_compression_level level m =
     (if level < 1 then m\<lparr>mp_CompressionLevel := 0, mp_HistoryBufferSize := 8192\<rparr>
      else m\<lparr>mp_CompressionLevel := 1, mp_HistoryBufferSize := 65536\<rparr>)"

definition mppc_context_reset :: "bool \<Rightarrow> MPPC_CONTEXT \<Rightarrow> MPPC_CONTEXT" where
  "mppc_context_reset flush m =
     (let off = (if flush then mp_HistoryBufferSize m + 1 else 0) in
      m\<lparr>mp_HistoryBuffer := replicate 65536 0, mp_MatchBuffer := replicate 32768 0, mp_HistoryOffset := off, mp_HistoryPtr := unat off\<rparr>)"

text \<open>The two allocations may fail.\<close>

definition mppc_context_new :: "bool \<Rightarrow> bool \<Rightarrow> u32 \<Rightarrow> bool \<Rightarrow> MPPC_CONTEXT option" where
  "mppc_context_new ok1 ok2 level Compressor =
     (if \<not> ok1 then None
      else (case BitStream_New ok2 of
              None \<Rightarrow> None
            | Some bs \<Rightarrow> Some (mppc_context_reset False (mppc_set_compression_level level
                \<lparr>mp_bs = bs, mp_Compressor = Compressor, mp_HistoryPtr = 0, mp_HistoryOffset = 0, mp_HistoryBufferSize = 0,
                 mp_HistoryBuffer = replicate 65536 0, mp_MatchBuffer = replicate 32768 0, mp_CompressionLevel = 0\<rparr>))))"

section \<open>Decompression\<close>

text \<open>The offset of a match at the front of the accumulator and the number of its bits, or the code of an error.\<close>

definition read_copy_offset :: "u32 \<Rightarrow> u32 \<Rightarrow> int + u32 \<times> nat" where
  "read_copy_offset level acc =
     (if level \<noteq> 0 then
        if acc AND 0xF8000000 = 0xF8000000 then Inr (drop_bit 21 acc AND 0x3F, 11)
        else if acc AND 0xF8000000 = 0xF0000000 then Inr ((drop_bit 19 acc AND 0xFF) + 64, 13)
        else if acc AND 0xF0000000 = 0xE0000000 then Inr ((drop_bit 17 acc AND 0x7FF) + 320, 15)
        else if acc AND 0xE0000000 = 0xC0000000 then Inr ((drop_bit 13 acc AND 0xFFFF) + 2368, 19)
        else Inl (-1001)
      else
        if acc AND 0xF0000000 = 0xF0000000 then Inr (drop_bit 22 acc AND 0x3F, 10)
        else if acc AND 0xF0000000 = 0xE0000000 then Inr ((drop_bit 20 acc AND 0xFF) + 64, 12)
        else if acc AND 0xE0000000 = 0xC0000000 then Inr ((drop_bit 16 acc AND 0x1FFF) + 320, 16)
        else Inl (-1002))"

definition read_match_length :: "u32 \<Rightarrow> u32 \<Rightarrow> (u32 \<times> nat) option" where
  "read_match_length level acc =
     (if acc AND 0x80000000 = 0x00000000 then Some (3, 1)
      else if acc AND 0xC0000000 = 0x80000000 then Some ((drop_bit 28 acc AND 0x0003) + 0x0004, 4)
      else if acc AND 0xE0000000 = 0xC0000000 then Some ((drop_bit 26 acc AND 0x0007) + 0x0008, 6)
      else if acc AND 0xF0000000 = 0xE0000000 then Some ((drop_bit 24 acc AND 0x000F) + 0x0010, 8)
      else if acc AND 0xF8000000 = 0xF0000000 then Some ((drop_bit 22 acc AND 0x001F) + 0x0020, 10)
      else if acc AND 0xFC000000 = 0xF8000000 then Some ((drop_bit 20 acc AND 0x003F) + 0x0040, 12)
      else if acc AND 0xFE000000 = 0xFC000000 then Some ((drop_bit 18 acc AND 0x007F) + 0x0080, 14)
      else if acc AND 0xFF000000 = 0xFE000000 then Some ((drop_bit 16 acc AND 0x00FF) + 0x0100, 16)
      else if acc AND 0xFF800000 = 0xFF000000 then Some ((drop_bit 14 acc AND 0x01FF) + 0x0200, 18)
      else if acc AND 0xFFC00000 = 0xFF800000 then Some ((drop_bit 12 acc AND 0x03FF) + 0x0400, 20)
      else if acc AND 0xFFE00000 = 0xFFC00000 then Some ((drop_bit 10 acc AND 0x07FF) + 0x0800, 22)
      else if acc AND 0xFFF00000 = 0xFFE00000 then Some ((drop_bit 8 acc AND 0x0FFF) + 0x1000, 24)
      else if acc AND 0xFFF80000 = 0xFFF00000 \<and> level \<noteq> 0 then Some ((drop_bit 6 acc AND 0x1FFF) + 0x2000, 26)
      else if acc AND 0xFFFC0000 = 0xFFF80000 \<and> level \<noteq> 0 then Some ((drop_bit 4 acc AND 0x3FFF) + 0x4000, 28)
      else if acc AND 0xFFFE0000 = 0xFFFC0000 \<and> level \<noteq> 0 then Some ((drop_bit 2 acc AND 0x7FFF) + 0x8000, 30)
      else None)"

text \<open>The copying of a match, byte by byte, so that it may overlap.\<close>

fun copy_match :: "byte list \<Rightarrow> nat \<Rightarrow> nat \<Rightarrow> nat \<Rightarrow> byte list option" where
  "copy_match H src dst 0 = Some H"
| "copy_match H src dst (Suc n) = do {
     b \<leftarrow> arr_get H src;
     H \<leftarrow> arr_set H dst b;
     copy_match H (src + 1) (dst + 1) n }"

definition match_source :: "u32 \<Rightarrow> nat \<Rightarrow> u32 \<Rightarrow> nat" where
  "match_source level h off = nat ((int h - uint off) AND (if level \<noteq> 0 then 0xFFFF else 0x1FFF))"

text \<open>The loop over the symbols. The result is the status, and the history with the position in it.\<close>

partial_function (option) mppc_decode_loop ::
    "u32 \<Rightarrow> u32 \<Rightarrow> byte list \<Rightarrow> nat \<Rightarrow> wBitStream \<Rightarrow> (int \<times> byte list \<times> nat \<times> wBitStream) option" where
  "mppc_decode_loop level histSize H h bs =
     (if bs_length bs - bs_position bs \<ge> 8 then
        let acc = bs_accumulator bs in
        if h > unat (histSize - 1) then Some (-1004, H, h, bs)
        else if acc AND 0x80000000 = 0 then do {
          H \<leftarrow> arr_set H h (ucast (drop_bit 24 (acc AND 0x7F000000)));
          bs \<leftarrow> BitStream_Shift 8 bs;
          mppc_decode_loop level histSize H (h + 1) bs }
        else if acc AND 0xC0000000 = 0x80000000 then do {
          H \<leftarrow> arr_set H h (ucast (drop_bit 23 (acc AND 0x3F800000) + 0x80));
          bs \<leftarrow> BitStream_Shift 9 bs;
          mppc_decode_loop level histSize H (h + 1) bs }
        else (case read_copy_offset level acc of
                Inl e \<Rightarrow> Some (e, H, h, bs)
              | Inr (CopyOffset, n) \<Rightarrow> do {
                  bs \<leftarrow> BitStream_Shift n bs;
                  (case read_match_length level (bs_accumulator bs) of
                     None \<Rightarrow> Some (-1003, H, h, bs)
                   | Some (LengthOfMatch, n) \<Rightarrow> do {
                       bs \<leftarrow> BitStream_Shift n bs;
                       if h + unat LengthOfMatch - 1 > unat (histSize - 1) then Some (-1005, H, h, bs)
                       else do {
                         H \<leftarrow> copy_match H (match_source level h CopyOffset) h (unat LengthOfMatch);
                         mppc_decode_loop level histSize H (h + unat LengthOfMatch) bs } }) })
      else Some (1, H, h, bs))"

text \<open>The last result is the \<^verbatim>\<open>*pDstSize\<close> bytes at \<^verbatim>\<open>*ppDstData\<close>; in the case of an error they are not set.\<close>

definition mppc_decompress :: "byte list \<Rightarrow> u32 \<Rightarrow> u32 \<Rightarrow> MPPC_CONTEXT \<Rightarrow> (int \<times> MPPC_CONTEXT \<times> byte list option) option" where
  "mppc_decompress pSrcData SrcSize flags m = do {
     bs \<leftarrow> BitStream_Attach pSrcData SrcSize (mp_bs m);
     bs \<leftarrow> BitStream_Fetch bs;
     let m = (if flags AND PACKET_AT_FRONT \<noteq> 0 then m\<lparr>mp_HistoryOffset := 0, mp_HistoryPtr := 0\<rparr> else m);
     m \<leftarrow> (if flags AND PACKET_FLUSHED \<noteq> 0 then do {
         H \<leftarrow> mem_write (mp_HistoryBuffer m) 0 (replicate (unat (mp_HistoryBufferSize m)) 0);
         Some (m\<lparr>mp_HistoryOffset := 0, mp_HistoryPtr := 0, mp_HistoryBuffer := H\<rparr>) } else Some m);
     if flags AND PACKET_COMPRESSED = 0 then Some (1, m\<lparr>mp_bs := bs\<rparr>, Some (take (unat SrcSize) pSrcData))
     else do {
       (status, H, h, bs) \<leftarrow> mppc_decode_loop (mp_CompressionLevel m) (mp_HistoryBufferSize m) (mp_HistoryBuffer m) (mp_HistoryPtr m) bs;
       Some (if status < 0 then (status, m\<lparr>mp_HistoryBuffer := H, mp_bs := bs\<rparr>, None)
             else (1, m\<lparr>mp_HistoryBuffer := H, mp_bs := bs, mp_HistoryPtr := h\<rparr>,
               Some (take (h - mp_HistoryPtr m) (drop (mp_HistoryPtr m) H)))) } }"

section \<open>Compression\<close>

text \<open>\<^verbatim>\<open>MPPC_MATCH_TABLE\<close>: its 256 entries are the multiples of \<open>0x9CCF93\<close>, reduced to 32 bits.\<close>

definition MPPC_MATCH_TABLE :: "byte \<Rightarrow> u32" where
  "MPPC_MATCH_TABLE b = ucast b * 0x009CCF93"

definition MPPC_MATCH_INDEX :: "byte \<Rightarrow> byte \<Rightarrow> byte \<Rightarrow> u32" where
  "MPPC_MATCH_INDEX sym1 sym2 sym3 =
     drop_bit 12 ((push_bit 16 (MPPC_MATCH_TABLE sym3) + push_bit 8 (MPPC_MATCH_TABLE sym2) + MPPC_MATCH_TABLE sym1) AND 0x07FFF000)"

definition write_literal :: "byte \<Rightarrow> wBitStream \<Rightarrow> wBitStream option" where
  "write_literal symbol bs =
     (let acc = ucast symbol :: u32 in
      if acc < 0x80 then BitStream_Write_Bits acc 8 bs else BitStream_Write_Bits (0x100 OR (acc AND 0x7F)) 9 bs)"

definition copy_offset_code :: "u32 \<Rightarrow> u32 \<Rightarrow> (u32 \<times> nat) option" where
  "copy_offset_code level off =
     (if level \<noteq> 0 then
        if off < 64 then Some (0x07C0 OR (off AND 0x003F), 11)
        else if off < 320 then Some (0x1E00 OR ((off - 64) AND 0x00FF), 13)
        else if off < 2368 then Some (0x7000 OR ((off - 320) AND 0x07FF), 15)
        else Some (0x060000 OR ((off - 2368) AND 0xFFFF), 19)
      else
        if off < 64 then Some (0x03C0 OR (off AND 0x003F), 10)
        else if off < 320 then Some (0x0E00 OR ((off - 64) AND 0x00FF), 12)
        else if off < 8192 then Some (0xC000 OR ((off - 320) AND 0x1FFF), 16)
        else None)"

definition match_length_code :: "u32 \<Rightarrow> u32 \<Rightarrow> (u32 \<times> nat) option" where
  "match_length_code level len =
     (if len = 3 then Some (0, 1)
      else if 4 \<le> len \<and> len < 8 then Some (0x0008 OR (len AND 0x0003), 4)
      else if 8 \<le> len \<and> len < 16 then Some (0x0030 OR (len AND 0x0007), 6)
      else if 16 \<le> len \<and> len < 32 then Some (0x00E0 OR (len AND 0x000F), 8)
      else if 32 \<le> len \<and> len < 64 then Some (0x03C0 OR (len AND 0x001F), 10)
      else if 64 \<le> len \<and> len < 128 then Some (0x0F80 OR (len AND 0x003F), 12)
      else if 128 \<le> len \<and> len < 256 then Some (0x3F00 OR (len AND 0x007F), 14)
      else if 256 \<le> len \<and> len < 512 then Some (0xFE00 OR (len AND 0x00FF), 16)
      else if 512 \<le> len \<and> len < 1024 then Some (0x3FC00 OR (len AND 0x01FF), 18)
      else if 1024 \<le> len \<and> len < 2048 then Some (0xFF800 OR (len AND 0x03FF), 20)
      else if 2048 \<le> len \<and> len < 4096 then Some (0x3FF000 OR (len AND 0x07FF), 22)
      else if 4096 \<le> len \<and> len < 8192 then Some (0xFFE000 OR (len AND 0x0FFF), 24)
      else if 8192 \<le> len \<and> len < 16384 \<and> level \<noteq> 0 then Some (0x3FFC000 OR (len AND 0x1FFF), 26)
      else if 16384 \<le> len \<and> len < 32768 \<and> level \<noteq> 0 then Some (0xFFF8000 OR (len AND 0x3FFF), 28)
      else if 32768 \<le> len \<and> len < 65536 \<and> level \<noteq> 0 then Some (0x3FFF0000 OR (len AND 0x7FFF), 30)
      else None)"

definition write_code :: "(u32 \<times> nat) option \<Rightarrow> wBitStream \<Rightarrow> wBitStream option" where
  "write_code code bs = (case code of None \<Rightarrow> Some bs | Some (v, n) \<Rightarrow> BitStream_Write_Bits v n bs)"

text \<open>The state of the loops: the context, the stream, and the two pointers.\<close>

record mppc_state =
  ms_mppc :: MPPC_CONTEXT
  ms_bs :: wBitStream
  ms_src :: nat
  ms_hist :: nat

text \<open>
  The test for a match, in the order of the code. The candidate 0 stands for no entry, but is looked at first: the byte
  in front of the history is read, which is the highest byte of \<^verbatim>\<open>HistoryBufferSize\<close> on a little endian machine.
\<close>

definition history_front :: "MPPC_CONTEXT \<Rightarrow> byte" where
  "history_front m = ucast (drop_bit 24 (mp_HistoryBufferSize m))"

definition no_match :: "MPPC_CONTEXT \<Rightarrow> nat \<Rightarrow> nat \<Rightarrow> byte \<Rightarrow> byte \<Rightarrow> byte \<Rightarrow> bool option" where
  "no_match m match h sym1 sym2 sym3 = do {
     a \<leftarrow> (if match = 0 then Some (history_front m) else arr_get (mp_HistoryBuffer m) (match - 1));
     if sym1 \<noteq> a then Some True
     else do {
       b \<leftarrow> arr_get (mp_HistoryBuffer m) match;
       if sym2 \<noteq> b then Some True
       else do {
         c \<leftarrow> arr_get (mp_HistoryBuffer m) (match + 1);
         Some (sym3 \<noteq> c \<or> match + 1 > mp_HistoryPtr m \<or> match = 0 \<or> match = h - 1 \<or> match = h) } } }"

partial_function (option) extend_match ::
    "byte list \<Rightarrow> int \<Rightarrow> nat \<Rightarrow> byte list \<Rightarrow> nat \<Rightarrow> nat \<Rightarrow> nat \<Rightarrow> u32 \<Rightarrow> (byte list \<times> nat \<times> nat \<times> u32) option" where
  "extend_match src srcEnd limit H i h match len = do {
     a \<leftarrow> arr_get src i;
     b \<leftarrow> arr_get H match;
     if a = b \<and> int i < srcEnd \<and> match \<le> limit then do {
       H \<leftarrow> arr_set H h a;
       extend_match src srcEnd limit H (i + 1) (h + 1) (match + 1) (len + 1) }
     else Some (H, i, h, len) }"

text \<open>The room that is left is compared as \<^verbatim>\<open>UINT32\<close>.\<close>

definition dst_full :: "wBitStream \<Rightarrow> int \<Rightarrow> u32 \<Rightarrow> bool" where
  "dst_full bs k DstSize \<longleftrightarrow> (word_of_int (bs_position bs div 8 + k) :: u32) > DstSize - 1"

text \<open>A literal at \<open>symbol\<close>; the first result says that there is no room.\<close>

definition put_literal :: "u32 \<Rightarrow> byte \<Rightarrow> mppc_state \<Rightarrow> (bool \<times> mppc_state) option" where
  "put_literal DstSize symbol st =
     (if dst_full (ms_bs st) 2 DstSize then Some (True, st)
      else do { bs \<leftarrow> write_literal symbol (ms_bs st); Some (False, st\<lparr>ms_bs := bs\<rparr>) })"

text \<open>A match: the second and third symbol are stored, the match is extended, and its code is written.\<close>

definition put_match :: "byte list \<Rightarrow> int \<Rightarrow> u32 \<Rightarrow> nat \<Rightarrow> byte \<Rightarrow> byte \<Rightarrow> mppc_state \<Rightarrow> (bool \<times> mppc_state) option" where
  "put_match src srcEnd DstSize match sym2 sym3 st = do {
     let m = ms_mppc st;
     let CopyOffset = (mp_HistoryBufferSize m - 1) AND word_of_int (int (ms_hist st) - int match);
     H \<leftarrow> arr_set (mp_HistoryBuffer m) (ms_hist st) sym2;
     H \<leftarrow> arr_set H (ms_hist st + 1) sym3;
     (H, i, h, LengthOfMatch) \<leftarrow> extend_match src srcEnd (mp_HistoryPtr m) H (ms_src st + 2) (ms_hist st + 2) (match + 2) 3;
     let st = st\<lparr>ms_mppc := m\<lparr>mp_HistoryBuffer := H\<rparr>, ms_src := i, ms_hist := h\<rparr>;
     if dst_full (ms_bs st) 7 DstSize then Some (True, st)
     else do {
       bs \<leftarrow> write_code (copy_offset_code (mp_CompressionLevel m) CopyOffset) (ms_bs st);
       bs \<leftarrow> write_code (match_length_code (mp_CompressionLevel m) LengthOfMatch) bs;
       Some (False, st\<lparr>ms_bs := bs\<rparr>) } }"

definition mppc_compress_step :: "byte list \<Rightarrow> int \<Rightarrow> u32 \<Rightarrow> mppc_state \<Rightarrow> (bool \<times> mppc_state) option" where
  "mppc_compress_step src srcEnd DstSize st = do {
     let m = ms_mppc st;
     sym1 \<leftarrow> arr_get src (ms_src st);
     sym2 \<leftarrow> arr_get src (ms_src st + 1);
     sym3 \<leftarrow> arr_get src (ms_src st + 2);
     H \<leftarrow> arr_set (mp_HistoryBuffer m) (ms_hist st) sym1;
     let h = ms_hist st + 1;
     let MatchIndex = unat (MPPC_MATCH_INDEX sym1 sym2 sym3);
     e \<leftarrow> arr_get (mp_MatchBuffer m) MatchIndex;
     let match = unat e;
     M \<leftarrow> (if match \<noteq> h - 1 then arr_set (mp_MatchBuffer m) MatchIndex (of_nat h) else Some (mp_MatchBuffer m));
     let m = m\<lparr>mp_HistoryBuffer := H, mp_MatchBuffer := M, mp_HistoryPtr := max (mp_HistoryPtr m) h\<rparr>;
     let st = st\<lparr>ms_mppc := m, ms_src := ms_src st + 1, ms_hist := h\<rparr>;
     none \<leftarrow> no_match m match h sym1 sym2 sym3;
     if none then put_literal DstSize sym1 st else put_match src srcEnd DstSize match sym2 sym3 st }"

partial_function (option) mppc_compress_loop :: "byte list \<Rightarrow> int \<Rightarrow> u32 \<Rightarrow> mppc_state \<Rightarrow> (bool \<times> mppc_state) option" where
  "mppc_compress_loop src srcEnd DstSize st =
     (if int (ms_src st) < srcEnd - 2 then do {
        (full, st) \<leftarrow> mppc_compress_step src srcEnd DstSize st;
        if full then Some (True, st) else mppc_compress_loop src srcEnd DstSize st }
      else Some (False, st))"

partial_function (option) mppc_trailing_loop :: "byte list \<Rightarrow> int \<Rightarrow> u32 \<Rightarrow> mppc_state \<Rightarrow> (bool \<times> mppc_state) option" where
  "mppc_trailing_loop src srcEnd DstSize st =
     (if int (ms_src st) \<le> srcEnd then
        if dst_full (ms_bs st) 2 DstSize then Some (True, st)
        else do {
          symbol \<leftarrow> arr_get src (ms_src st);
          bs \<leftarrow> write_literal symbol (ms_bs st);
          H \<leftarrow> arr_set (mp_HistoryBuffer (ms_mppc st)) (ms_hist st) symbol;
          mppc_trailing_loop src srcEnd DstSize (st\<lparr>ms_bs := bs, ms_mppc := (ms_mppc st)\<lparr>mp_HistoryBuffer := H\<rparr>,
            ms_src := ms_src st + 1, ms_hist := ms_hist st + 1\<rparr>) }
      else Some (False, st))"

text \<open>
  The results of \<^verbatim>\<open>mppc_compress\<close> beside the status: the block at \<^verbatim>\<open>*ppDstData\<close>, \<^verbatim>\<open>*pDstSize\<close> and \<^verbatim>\<open>*pFlags\<close>.
\<close>

record mppc_packet =
  pk_data :: "byte list"
  pk_size :: u32
  pk_flags :: u32

definition mppc_compress ::
    "byte list \<Rightarrow> u32 \<Rightarrow> byte list option \<Rightarrow> u32 \<Rightarrow> MPPC_CONTEXT \<Rightarrow> (int \<times> MPPC_CONTEXT \<times> mppc_packet option) option" where
  "mppc_compress pSrcData SrcSize pDstData pDstSize m = do {
     let histSize = mp_HistoryBufferSize m;
     let PacketAtFront = \<not> (mp_HistoryOffset m + SrcSize < histSize - 3 \<and> mp_HistoryOffset m \<noteq> 0);
     let PacketFlushed = (PacketAtFront \<and> mp_HistoryOffset m = histSize + 1);
     let off = (if PacketAtFront then 0 else mp_HistoryOffset m);
     (case pDstData of
        None \<Rightarrow> Some (-1, m, None)
      | Some dst \<Rightarrow> do {
          let DstSize = (if pDstSize > SrcSize then SrcSize else pDstSize);
          bs \<leftarrow> BitStream_Attach dst DstSize (mp_bs m);
          let srcEnd = uint (SrcSize - 1);
          (full, st) \<leftarrow> mppc_compress_loop pSrcData srcEnd DstSize \<lparr>ms_mppc = m, ms_bs = bs, ms_src = 0, ms_hist = unat off\<rparr>;
          (full, st) \<leftarrow> (if full then Some (True, st) else mppc_trailing_loop pSrcData srcEnd DstSize st);
          if full then
            Some (1, (mppc_context_reset True (ms_mppc st))\<lparr>mp_bs := ms_bs st\<rparr>,
              Some \<lparr>pk_data = pSrcData, pk_size = SrcSize, pk_flags = PACKET_FLUSHED OR mp_CompressionLevel m\<rparr>)
          else do {
            bs \<leftarrow> BitStream_Flush (ms_bs st);
            Some (1, (ms_mppc st)\<lparr>mp_bs := bs, mp_HistoryPtr := ms_hist st, mp_HistoryOffset := of_nat (ms_hist st)\<rparr>,
              Some \<lparr>pk_data = bs_buffer bs, pk_size = word_of_int ((bs_position bs + 7) div 8),
                pk_flags = PACKET_COMPRESSED OR mp_CompressionLevel m OR (if PacketAtFront then PACKET_AT_FRONT else 0) OR
                  (if PacketFlushed then PACKET_FLUSHED else 0)\<rparr>) } }) }"

end
