(* ===== verification/MppcCode.thy ===== *)
theory MppcCode
  imports Mppc
begin

unbundle bit_operations_syntax

text \<open>
  The code of the bulk compression: what the compressor writes for a literal, an offset or a length is read by
  the decompressor as the same literal, offset or length, with the same number of bits.
\<close>

section \<open>The front of a word\<close>

lemma unat_drop: "unat (drop_bit k (w :: 'a :: len word)) = unat w div 2 ^ k"
  by (subst unat_drop_bit_eq) (rule drop_bit_eq_div)

lemma bit_below:
  fixes v :: u32
  assumes "unat v < 2 ^ n" "bit v j"
  shows "j < n"
proof (rule ccontr)
  assume "\<not> j < n"
  then have "(2 :: nat) ^ n \<le> 2 ^ j" by simp
  then have "unat v < 2 ^ j" using assms(1) by (rule less_le_trans [rotated])
  then show False using assms(2) by (simp add: bit_word_unat bit_iff_odd)
qed

lemma top_mask:
  assumes "k < 32" "unat c < 2 ^ (32 - k)"
  shows "acc AND push_bit k (mask (32 - k)) = push_bit k c \<longleftrightarrow> unat acc div 2 ^ k = unat (c :: u32)"
proof -
  have c: "bit c j \<Longrightarrow> j < 32 - k" for j by (rule bit_below [OF assms(2)])
  have "acc AND push_bit k (mask (32 - k)) = push_bit k (drop_bit k acc)"
    by (rule bit_word_eqI) (auto simp: bit_simps possible_bit_word)
  moreover have "push_bit k (drop_bit k acc) = push_bit k c \<longleftrightarrow> drop_bit k acc = c"
  proof
    assume e: "push_bit k (drop_bit k acc) = push_bit k c"
    show "drop_bit k acc = c"
    proof (rule bit_word_eqI)
      fix j assume "j < LENGTH(32)"
      have "bit (push_bit k (drop_bit k acc)) (j + k) = bit (push_bit k c) (j + k)" using e by simp
      then show "bit (drop_bit k acc) j = bit c j"
        using c [of j] u32_bit_less [of acc "j + k"] by (auto simp: bit_simps possible_bit_word add.commute)
    qed
  qed simp
  ultimately show ?thesis by (simp add: word_unat_eq_iff unat_drop)
qed

lemma masks:
  "acc AND 0x80000000 = 0x0 \<longleftrightarrow> unat (acc :: u32) div 2 ^ 31 = 0"
  "acc AND 0xC0000000 = 0x80000000 \<longleftrightarrow> unat (acc :: u32) div 2 ^ 30 = 2"
  "acc AND 0xE0000000 = 0xC0000000 \<longleftrightarrow> unat (acc :: u32) div 2 ^ 29 = 6"
  "acc AND 0xF0000000 = 0xE0000000 \<longleftrightarrow> unat (acc :: u32) div 2 ^ 28 = 14"
  "acc AND 0xF0000000 = 0xF0000000 \<longleftrightarrow> unat (acc :: u32) div 2 ^ 28 = 15"
  "acc AND 0xF8000000 = 0xF0000000 \<longleftrightarrow> unat (acc :: u32) div 2 ^ 27 = 30"
  "acc AND 0xF8000000 = 0xF8000000 \<longleftrightarrow> unat (acc :: u32) div 2 ^ 27 = 31"
  "acc AND 0xFC000000 = 0xF8000000 \<longleftrightarrow> unat (acc :: u32) div 2 ^ 26 = 62"
  "acc AND 0xFE000000 = 0xFC000000 \<longleftrightarrow> unat (acc :: u32) div 2 ^ 25 = 126"
  "acc AND 0xFF000000 = 0xFE000000 \<longleftrightarrow> unat (acc :: u32) div 2 ^ 24 = 254"
  "acc AND 0xFF800000 = 0xFF000000 \<longleftrightarrow> unat (acc :: u32) div 2 ^ 23 = 510"
  "acc AND 0xFFC00000 = 0xFF800000 \<longleftrightarrow> unat (acc :: u32) div 2 ^ 22 = 1022"
  "acc AND 0xFFE00000 = 0xFFC00000 \<longleftrightarrow> unat (acc :: u32) div 2 ^ 21 = 2046"
  "acc AND 0xFFF00000 = 0xFFE00000 \<longleftrightarrow> unat (acc :: u32) div 2 ^ 20 = 4094"
  "acc AND 0xFFF80000 = 0xFFF00000 \<longleftrightarrow> unat (acc :: u32) div 2 ^ 19 = 8190"
  "acc AND 0xFFFC0000 = 0xFFF80000 \<longleftrightarrow> unat (acc :: u32) div 2 ^ 18 = 16382"
  "acc AND 0xFFFE0000 = 0xFFFC0000 \<longleftrightarrow> unat (acc :: u32) div 2 ^ 17 = 32766"
  using
  top_mask [of 31 0 acc]
  top_mask [of 30 2 acc]
  top_mask [of 29 6 acc]
  top_mask [of 28 14 acc]
  top_mask [of 28 15 acc]
  top_mask [of 27 30 acc]
  top_mask [of 27 31 acc]
  top_mask [of 26 62 acc]
  top_mask [of 25 126 acc]
  top_mask [of 24 254 acc]
  top_mask [of 23 510 acc]
  top_mask [of 22 1022 acc]
  top_mask [of 21 2046 acc]
  top_mask [of 20 4094 acc]
  top_mask [of 19 8190 acc]
  top_mask [of 18 16382 acc]
  top_mask [of 17 32766 acc]
  by (simp_all add: mask_eq_exp_minus_1 push_bit_eq_mult)

lemma unat_and_mask: "unat (w AND mask n :: u32) = unat w mod 2 ^ n"
  by (simp flip: take_bit_eq_mask take_bit_eq_mod add: unsigned_take_bit_eq)

lemma unat_field: "unat (drop_bit k acc AND mask n :: u32) = unat acc div 2 ^ k mod 2 ^ n"
  by (simp add: unat_and_mask unat_drop)

lemmas mask_numerals = mask_eq_exp_minus_1

section \<open>Lengths\<close>

text \<open>
  The code of a length between \<open>2\<^sup>k\<close> and \<open>2\<^sup>k\<^sup>+\<^sup>1\<close>, for \<open>k\<close> from 2 on, is \<open>k - 1\<close> ones, a zero and the lower \<open>k\<close> bits; the
  length 3 is a zero.
\<close>

definition length_limit :: "u32 \<Rightarrow> nat" where
  "length_limit level = (if level \<noteq> 0 then 16 else 13)"

definition length_value :: "nat \<Rightarrow> nat \<Rightarrow> u32 \<times> nat" where
  "length_value N k = (if k = 1 then (3, 1) else (of_nat (N div 2 ^ (32 - 2 * k) mod 2 ^ k + 2 ^ k), 2 * k))"

lemma field_word: "(drop_bit k acc AND mask n) + 2 ^ n = (of_nat (unat acc div 2 ^ k mod 2 ^ n + 2 ^ n) :: u32)"
proof -
  have "drop_bit k acc AND mask n = (of_nat (unat acc div 2 ^ k mod 2 ^ n) :: u32)"
    unfolding unat_field [symmetric] by simp
  then show ?thesis by simp
qed

lemma read_match_length_find:
  "read_match_length level acc = map_option (length_value (unat acc))
     (find (\<lambda>k. unat acc div 2 ^ (32 - k) = 2 ^ k - 2) [1..<length_limit level])"
proof -
  have c:
      "unat acc div 2 ^ (32 - 1) = 2 ^ 1 - 2 \<longleftrightarrow> acc AND 0x80000000 = 0x00000000"
      "unat acc div 2 ^ (32 - 2) = 2 ^ 2 - 2 \<longleftrightarrow> acc AND 0xC0000000 = 0x80000000"
      "unat acc div 2 ^ (32 - 3) = 2 ^ 3 - 2 \<longleftrightarrow> acc AND 0xE0000000 = 0xC0000000"
      "unat acc div 2 ^ (32 - 4) = 2 ^ 4 - 2 \<longleftrightarrow> acc AND 0xF0000000 = 0xE0000000"
      "unat acc div 2 ^ (32 - 5) = 2 ^ 5 - 2 \<longleftrightarrow> acc AND 0xF8000000 = 0xF0000000"
      "unat acc div 2 ^ (32 - 6) = 2 ^ 6 - 2 \<longleftrightarrow> acc AND 0xFC000000 = 0xF8000000"
      "unat acc div 2 ^ (32 - 7) = 2 ^ 7 - 2 \<longleftrightarrow> acc AND 0xFE000000 = 0xFC000000"
      "unat acc div 2 ^ (32 - 8) = 2 ^ 8 - 2 \<longleftrightarrow> acc AND 0xFF000000 = 0xFE000000"
      "unat acc div 2 ^ (32 - 9) = 2 ^ 9 - 2 \<longleftrightarrow> acc AND 0xFF800000 = 0xFF000000"
      "unat acc div 2 ^ (32 - 10) = 2 ^ 10 - 2 \<longleftrightarrow> acc AND 0xFFC00000 = 0xFF800000"
      "unat acc div 2 ^ (32 - 11) = 2 ^ 11 - 2 \<longleftrightarrow> acc AND 0xFFE00000 = 0xFFC00000"
      "unat acc div 2 ^ (32 - 12) = 2 ^ 12 - 2 \<longleftrightarrow> acc AND 0xFFF00000 = 0xFFE00000"
      "unat acc div 2 ^ (32 - 13) = 2 ^ 13 - 2 \<longleftrightarrow> acc AND 0xFFF80000 = 0xFFF00000"
      "unat acc div 2 ^ (32 - 14) = 2 ^ 14 - 2 \<longleftrightarrow> acc AND 0xFFFC0000 = 0xFFF80000"
      "unat acc div 2 ^ (32 - 15) = 2 ^ 15 - 2 \<longleftrightarrow> acc AND 0xFFFE0000 = 0xFFFC0000"
    by (simp_all add: masks)
  have v:
      "length_value (unat acc) 1 = (3, 1)"
      "length_value (unat acc) 2 = ((drop_bit 28 acc AND 0x0003) + 0x0004, 4)"
      "length_value (unat acc) 3 = ((drop_bit 26 acc AND 0x0007) + 0x0008, 6)"
      "length_value (unat acc) 4 = ((drop_bit 24 acc AND 0x000F) + 0x0010, 8)"
      "length_value (unat acc) 5 = ((drop_bit 22 acc AND 0x001F) + 0x0020, 10)"
      "length_value (unat acc) 6 = ((drop_bit 20 acc AND 0x003F) + 0x0040, 12)"
      "length_value (unat acc) 7 = ((drop_bit 18 acc AND 0x007F) + 0x0080, 14)"
      "length_value (unat acc) 8 = ((drop_bit 16 acc AND 0x00FF) + 0x0100, 16)"
      "length_value (unat acc) 9 = ((drop_bit 14 acc AND 0x01FF) + 0x0200, 18)"
      "length_value (unat acc) 10 = ((drop_bit 12 acc AND 0x03FF) + 0x0400, 20)"
      "length_value (unat acc) 11 = ((drop_bit 10 acc AND 0x07FF) + 0x0800, 22)"
      "length_value (unat acc) 12 = ((drop_bit 8 acc AND 0x0FFF) + 0x1000, 24)"
      "length_value (unat acc) 13 = ((drop_bit 6 acc AND 0x1FFF) + 0x2000, 26)"
      "length_value (unat acc) 14 = ((drop_bit 4 acc AND 0x3FFF) + 0x4000, 28)"
      "length_value (unat acc) 15 = ((drop_bit 2 acc AND 0x7FFF) + 0x8000, 30)"
    using field_word [of 28 acc 2] field_word [of 26 acc 3] field_word [of 24 acc 4] field_word [of 22 acc 5] field_word [of 20 acc 6] field_word [of 18 acc 7] field_word [of 16 acc 8] field_word [of 14 acc 9] field_word [of 12 acc 10] field_word [of 10 acc 11] field_word [of 8 acc 12] field_word [of 6 acc 13] field_word [of 4 acc 14] field_word [of 2 acc 15]
    by (simp_all add: length_value_def mask_numerals)
  have u: "[1..<13] = [1, 2, 3, 4, 5, 6, 7, 8, 9, 10, 11, 12 :: nat]" "[1..<16] = [1, 2, 3, 4, 5, 6, 7, 8, 9, 10, 11, 12, 13, 14, 15 :: nat]"
    by (simp_all add: upt_rec)
  have d: "map_option f (if b then x else y) = (if b then map_option f x else map_option f y)" for f :: "nat \<Rightarrow> u32 \<times> nat" and b x y by simp
  show ?thesis
    unfolding read_match_length_def length_limit_def
    by (cases "level = 0") (simp_all only: u if_True if_False simp_thms find.simps c d option.map v)
qed

lemma code_field:
  fixes c x :: u32 and n :: nat
  assumes "unat c mod 2 ^ n = 0"
  shows "c OR (x AND mask n) = (of_nat (unat c + unat x mod 2 ^ n) :: u32)"
proof -
  have "unat (take_bit n c) = 0" by (subst unsigned_take_bit_eq) (simp add: take_bit_eq_mod assms)
  then have "take_bit n c = 0" by (simp add: unat_eq_zero)
  then have "\<not> bit c j" if "j < n" for j using that by (metis bit_0_eq bit_take_bit_iff bot_apply bot_bool_def)
  then have "c AND (x AND mask n) = 0"
    by (intro bit_word_eqI) (auto simp: bit_simps)
  then have "c OR (x AND mask n) = c + (x AND mask n)" by (rule disjunctive_add_eq_or [symmetric])
  moreover have "x AND mask n = of_nat (unat x mod 2 ^ n)" unfolding unat_and_mask [symmetric] by simp
  ultimately show ?thesis by simp
qed

lemma match_length_code_ok:
  assumes "2 \<le> k" "k < length_limit level" "2 ^ k \<le> unat len" "unat len < 2 ^ (k + 1)"
  shows "match_length_code level len = Some (of_nat ((2 ^ k - 2) * 2 ^ k + (unat len - 2 ^ k)), 2 * k)"
proof -
  define l where "l = unat len"
  have n: "unat len = l" "len = 3 \<longleftrightarrow> l = 3" by (simp_all add: l_def word_unat_eq_iff)
  have "k < 16" "13 \<le> k \<longrightarrow> level \<noteq> 0" using assms(2) by (auto simp: length_limit_def split: if_splits)
  moreover have "l mod 2 ^ k = l - 2 ^ k" using assms(3,4) by (simp add: n mod_if)
  moreover have "k = 2 \<or> k = 3 \<or> k = 4 \<or> k = 5 \<or> k = 6 \<or> k = 7 \<or> k = 8 \<or> k = 9 \<or> k = 10 \<or> k = 11 \<or> k = 12 \<or> k = 13 \<or> k = 14 \<or> k = 15"
    using assms(1) \<open>k < 16\<close> by presburger
  ultimately show ?thesis
    by (elim disjE) (use assms(3,4) code_field [of "0x8" 2 len] code_field [of "0x30" 3 len] code_field [of "0xE0" 4 len] code_field [of "0x3C0" 5 len] code_field [of "0xF80" 6 len] code_field [of "0x3F00" 7 len] code_field [of "0xFE00" 8 len] code_field [of "0x3FC00" 9 len] code_field [of "0xFF800" 10 len] code_field [of "0x3FF000" 11 len] code_field [of "0xFFE000" 12 len] code_field [of "0x3FFC000" 13 len] code_field [of "0xFFF8000" 14 len] code_field [of "0x3FFF0000" 15 len] in
      \<open>simp_all add: match_length_code_def word_le_nat_alt word_less_nat_alt n mask_numerals\<close>)
qed


lemma ones_div:
  assumes "0 < j" "j \<le> k"
  shows "(2 ^ k - 2) div 2 ^ (k - j) = (if j = k then 2 ^ k - 2 else 2 ^ j - 1 :: nat)"
proof (cases "j = k")
  case False
  define d where "d = k - j"
  have k: "k = j + d" "0 < d" using assms False by (simp_all add: d_def)
  have "(2 :: nat) ^ 1 \<le> 2 ^ d" using k(2) by (intro power_increasing) simp_all
  moreover have "(2 :: nat) ^ d \<le> 2 ^ j * 2 ^ d" by simp
  ultimately have "2 ^ k - 2 = (2 ^ j - 1) * 2 ^ d + (2 ^ d - 2 :: nat)" "(2 :: nat) ^ d - 2 < 2 ^ d"
    by (simp_all add: k(1) power_add diff_mult_distrib)
  then have "(2 ^ k - 2) div 2 ^ d = (2 ^ j - 1 :: nat)" by simp
  then show ?thesis using False by (simp add: d_def)
qed simp

lemma prefix_div:
  fixes N k j x :: nat
  assumes N: "N div 2 ^ (32 - 2 * k) = (2 ^ k - 2) * 2 ^ k + x" and x: "x < 2 ^ k" and j: "0 < j" "j \<le> k" and k: "k \<le> 16"
  shows "N div 2 ^ (32 - j) = (if j = k then 2 ^ k - 2 else 2 ^ j - 1)"
proof -
  have e: "32 - j = (32 - 2 * k) + (k + (k - j))" using j k by simp
  have "N div 2 ^ (32 - j) = N div 2 ^ (32 - 2 * k) div 2 ^ k div 2 ^ (k - j)"
    unfolding e by (simp only: power_add div_mult2_eq)
  also have "\<dots> = (2 ^ k - 2) div 2 ^ (k - j)" using N x by simp
  finally show ?thesis using ones_div [OF j] by simp
qed

lemma find_upt:
  assumes "a \<le> k" "k < b" "P k" "\<And>j. a \<le> j \<Longrightarrow> j < k \<Longrightarrow> \<not> P j"
  shows "find P [a..<b] = Some k"
proof -
  have "k - a < length [a..<b]" "[a..<b] ! (k - a) = k" using assms(1,2) by simp_all
  moreover have "\<forall>i < k - a. \<not> P ([a..<b] ! i)" using assms(2,4) by simp
  ultimately show ?thesis using assms(3) unfolding find_Some_iff by metis
qed

text \<open>A code: what is written for a value, and that a reader who has its bits in front of him reads the value.\<close>

definition code_ok :: "u32 \<times> nat \<Rightarrow> nat \<Rightarrow> (u32 \<Rightarrow> bool) \<Rightarrow> bool" where
  "code_ok c limit readable \<longleftrightarrow> 0 < snd c \<and> snd c \<le> limit \<and> unat (fst c) < 2 ^ snd c \<and>
     (\<forall>acc :: u32. unat acc div 2 ^ (32 - snd c) = unat (fst c) \<longrightarrow> readable acc)"

lemma length_code_ok:
  assumes "3 \<le> unat len" "unat len < 2 ^ length_limit level"
  shows "\<exists>c. match_length_code level len = Some c \<and> code_ok c 30 (\<lambda>acc. read_match_length level acc = Some (len, snd c))"
proof (cases "unat len = 3")
  case True
  then have l: "len = 3" by (simp add: word_unat_eq_iff)
  have "read_match_length level acc = Some (3, 1)" if "unat acc div 2 ^ 31 = 0" for acc
    using masks(1) [of acc] that by (simp add: read_match_length_def)
  then show ?thesis by (simp add: l match_length_code_def code_ok_def)
next
  case False
  obtain k where k: "2 ^ k \<le> unat len" "unat len < 2 ^ (k + 1)"
    using ex_power_ivl1 [of 2 "unat len"] assms(1) by auto
  have "(2 :: nat) ^ 2 < 2 ^ (k + 1)" using k(2) assms(1) False by simp
  moreover have "(2 :: nat) ^ k < 2 ^ length_limit level" using k(1) assms(2) by (rule le_less_trans)
  ultimately have r: "2 \<le> k" "k < length_limit level" by (simp_all only: power_strict_increasing_iff one_less_numeral_iff semiring_norm)
  then have k15: "k \<le> 15" by (auto simp: length_limit_def split: if_splits)
  define x where "x = unat len - 2 ^ k"
  have x: "x < 2 ^ k" "x + 2 ^ k = unat len" using k by (simp_all add: x_def)
  define c where "c = (2 ^ k - 2) * 2 ^ k + x"
  have "c < (2 ^ k - 2) * 2 ^ k + 2 ^ k" using x(1) by (simp add: c_def)
  also have "\<dots> = (2 ^ k - 1) * 2 ^ k" using r(1) power_increasing [of 1 k "2 :: nat"] by (simp add: diff_mult_distrib)
  also have "\<dots> \<le> 2 ^ k * 2 ^ k" by simp
  finally have c: "c < 2 ^ (2 * k)" by (simp add: power_add mult_2)
  moreover have "(2 :: nat) ^ (2 * k) \<le> 2 ^ 30" using k15 by (intro power_increasing) simp_all
  ultimately have u: "unat (of_nat c :: u32) = c" by (simp add: unat_of_nat)
  have "read_match_length level acc = Some (len, 2 * k)" if N: "unat acc div 2 ^ (32 - 2 * k) = c" for acc
  proof -
    note p = prefix_div [OF N [unfolded c_def] x(1)]
    have "find (\<lambda>k. unat acc div 2 ^ (32 - k) = 2 ^ k - 2) [1..<length_limit level] = Some k"
    proof (rule find_upt)
      fix j :: nat assume "1 \<le> j" "j < k"
      moreover have "(2 :: nat) ^ 1 \<le> 2 ^ j" using \<open>1 \<le> j\<close> by (intro power_increasing) simp_all
      ultimately show "\<not> unat acc div 2 ^ (32 - j) = 2 ^ j - 2" using p [of j] k15 by simp
    qed (use r p [of k] k15 in simp_all)
    then show ?thesis using r(1) x N by (simp add: read_match_length_find length_value_def c_def)
  qed
  then show ?thesis using match_length_code_ok [OF r k] r(1) c k15 u
    by (auto simp: code_ok_def c_def [symmetric] x_def [symmetric])
qed

section \<open>Offsets\<close>

lemma code_parts:
  fixes acc :: u32
  assumes "unat acc div 2 ^ k = p * 2 ^ n + x" "x < 2 ^ n"
  shows "unat acc div 2 ^ (k + n + i) = p div 2 ^ i" "drop_bit k acc AND mask n = of_nat x"
proof -
  have "unat acc div 2 ^ (k + n + i) = unat acc div 2 ^ k div 2 ^ n div 2 ^ i" by (simp only: power_add div_mult2_eq)
  then show "unat acc div 2 ^ (k + n + i) = p div 2 ^ i" using assms by simp
  have "drop_bit k acc AND mask n = of_nat (unat (drop_bit k acc AND mask n))" by simp
  also have "\<dots> = of_nat x" unfolding unat_field assms(1) using assms(2) by simp
  finally show "drop_bit k acc AND mask n = of_nat x" .
qed

definition offset_limit :: "u32 \<Rightarrow> nat" where
  "offset_limit level = (if level \<noteq> 0 then 65536 else 8192)"

definition offset_readable :: "u32 \<Rightarrow> u32 \<Rightarrow> nat \<Rightarrow> u32 \<Rightarrow> bool" where
  "offset_readable level off n acc \<longleftrightarrow> acc AND 0x80000000 \<noteq> 0 \<and> acc AND 0xC0000000 \<noteq> 0x80000000 \<and> read_copy_offset level acc = Inr (off, n)"

lemma offset_case:
  fixes c x :: u32
  assumes v: "v = c OR (x AND mask n)" and q: "unat c = q * 2 ^ n" "q < 2 ^ m" "unat x < 2 ^ n" "0 < n" "n + m = l" "l \<le> 19"
    and r: "\<And>acc. unat acc div 2 ^ (32 - m) = q \<Longrightarrow> drop_bit (32 - l) acc AND mask n = x \<Longrightarrow> readable acc"
  shows "code_ok (v, l) 19 readable"
proof -
  have b: "q * 2 ^ n + unat x < 2 ^ l"
  proof -
    have "q * 2 ^ n + unat x < (q + 1) * 2 ^ n" using q(3) by simp
    also have "\<dots> \<le> 2 ^ m * 2 ^ n" using q(2) by (intro mult_right_mono) simp_all
    finally show ?thesis by (simp add: q(5) [symmetric] power_add mult.commute)
  qed
  moreover have "(2 :: nat) ^ l \<le> 2 ^ 19" using q(6) by (intro power_increasing) simp_all
  ultimately have u: "unat v = q * 2 ^ n + unat x" unfolding v using code_field [of c n x] q(1,3) by (simp add: unat_of_nat del: of_nat_add of_nat_mult)
  have "readable acc" if "unat acc div 2 ^ (32 - l) = q * 2 ^ n + unat x" for acc
  proof (rule r)
    have "32 - l + n + 0 = 32 - m" using q(5,6) by simp
    then show "unat acc div 2 ^ (32 - m) = q" using code_parts(1) [OF that q(3), of 0] by simp
    show "drop_bit (32 - l) acc AND mask n = x" using code_parts(2) [OF that q(3)] by simp
  qed
  then show ?thesis using b q(4-6) by (simp add: code_ok_def u)
qed

lemma div_prefix: "unat (acc :: u32) div 2 ^ k = q \<Longrightarrow> unat acc div 2 ^ (k + i) = q div 2 ^ i"
  by (simp only: power_add div_mult2_eq)

lemma offset_code_64K:
  assumes "unat off < offset_limit level" and Z: "level \<noteq> 0"
  shows "\<exists>c. copy_offset_code level off = Some c \<and> code_ok c 19 (offset_readable level off (snd c))"
proof -
  consider "off < 64" | "64 \<le> off" "off < 320" | "320 \<le> off" "off < 2368" | "2368 \<le> off" by (meson not_le)
  then show ?thesis
  proof cases
    case 1
    have "code_ok (0x07C0 OR (off AND 0x003F), 11) 19 (offset_readable level off 11)"
    proof (rule offset_case [where m = 5 and n = 6 and q = 31 and x = off and c = "0x07C0"])
      fix acc assume a: "unat acc div 2 ^ (32 - 5) = 31" "drop_bit (32 - 11) acc AND mask 6 = off"
      then show "offset_readable level off 11 acc" using Z div_prefix [of acc 27 31 3] div_prefix [of acc 27 31 4]
        by (simp add: offset_readable_def read_copy_offset_def masks mask_numerals)
    qed (use 1 in \<open>simp_all add: mask_numerals word_less_nat_alt unat_numeral\<close>)
    then show ?thesis using 1 Z by (simp add: copy_offset_code_def)
  next
    case 2
    have "code_ok (0x1E00 OR ((off - 64) AND 0x00FF), 13) 19 (offset_readable level off 13)"
    proof (rule offset_case [where m = 5 and n = 8 and q = 30 and x = "off - 64" and c = "0x1E00"])
      fix acc assume a: "unat acc div 2 ^ (32 - 5) = 30" "drop_bit (32 - 13) acc AND mask 8 = off - 64"
      then show "offset_readable level off 13 acc" using Z div_prefix [of acc 27 30 3] div_prefix [of acc 27 30 4]
        by (simp add: offset_readable_def read_copy_offset_def masks mask_numerals)
    qed (use 2 in \<open>simp_all add: mask_numerals word_less_nat_alt word_le_nat_alt unat_sub\<close>)
    then show ?thesis using 2 Z by (simp add: copy_offset_code_def not_less [symmetric])
  next
    case 3
    have "code_ok (0x7000 OR ((off - 320) AND 0x07FF), 15) 19 (offset_readable level off 15)"
    proof (rule offset_case [where m = 4 and n = 11 and q = 14 and x = "off - 320" and c = "0x7000"])
      fix acc assume a: "unat acc div 2 ^ (32 - 4) = 14" "drop_bit (32 - 15) acc AND mask 11 = off - 320"
      moreover have "unat acc div 2 ^ 27 \<noteq> 31" "unat acc div 2 ^ 27 \<noteq> 30"
        using a(1) div_prefix [of acc 27 31 1] div_prefix [of acc 27 30 1] by auto
      ultimately show "offset_readable level off 15 acc" using Z div_prefix [of acc 28 14 2] div_prefix [of acc 28 14 3]
        by (simp add: offset_readable_def read_copy_offset_def masks mask_numerals)
    qed (use 3 in \<open>simp_all add: mask_numerals word_less_nat_alt word_le_nat_alt unat_sub\<close>)
    then show ?thesis using 3 Z by (simp add: copy_offset_code_def word_less_nat_alt word_le_nat_alt)
  next
    case 4
    have "code_ok (0x060000 OR ((off - 2368) AND 0xFFFF), 19) 19 (offset_readable level off 19)"
    proof (rule offset_case [where m = 3 and n = 16 and q = 6 and x = "off - 2368" and c = "0x060000"])
      fix acc assume a: "unat acc div 2 ^ (32 - 3) = 6" "drop_bit (32 - 19) acc AND mask 16 = off - 2368"
      moreover have "unat acc div 2 ^ 27 \<noteq> 31" "unat acc div 2 ^ 27 \<noteq> 30" "unat acc div 2 ^ 28 \<noteq> 14"
        using a(1) div_prefix [of acc 27 31 2] div_prefix [of acc 27 30 2] div_prefix [of acc 28 14 1] by auto
      ultimately show "offset_readable level off 19 acc" using Z div_prefix [of acc 29 6 1] div_prefix [of acc 29 6 2]
        by (simp add: offset_readable_def read_copy_offset_def masks mask_numerals)
    qed (use 4 assms(1) Z in \<open>simp_all add: mask_numerals word_less_nat_alt word_le_nat_alt unat_sub offset_limit_def\<close>)
    then show ?thesis using 4 Z by (simp add: copy_offset_code_def word_less_nat_alt word_le_nat_alt)
  qed
qed

lemma offset_code_8K:
  assumes "unat off < offset_limit level" and Z: "level = 0"
  shows "\<exists>c. copy_offset_code level off = Some c \<and> code_ok c 19 (offset_readable level off (snd c))"
proof -
  consider "off < 64" | "64 \<le> off" "off < 320" | "320 \<le> off" by (meson not_le)
  then show ?thesis
  proof cases
    case 1
    have "code_ok (0x03C0 OR (off AND 0x003F), 10) 19 (offset_readable level off 10)"
    proof (rule offset_case [where m = 4 and n = 6 and q = 15 and x = off and c = "0x03C0"])
      fix acc assume a: "unat acc div 2 ^ (32 - 4) = 15" "drop_bit (32 - 10) acc AND mask 6 = off"
      then show "offset_readable level off 10 acc" using Z div_prefix [of acc 28 15 2] div_prefix [of acc 28 15 3]
        by (simp add: offset_readable_def read_copy_offset_def masks mask_numerals)
    qed (use 1 in \<open>simp_all add: mask_numerals word_less_nat_alt unat_numeral\<close>)
    then show ?thesis using 1 Z by (simp add: copy_offset_code_def)
  next
    case 2
    have "code_ok (0x0E00 OR ((off - 64) AND 0x00FF), 12) 19 (offset_readable level off 12)"
    proof (rule offset_case [where m = 4 and n = 8 and q = 14 and x = "off - 64" and c = "0x0E00"])
      fix acc assume a: "unat acc div 2 ^ (32 - 4) = 14" "drop_bit (32 - 12) acc AND mask 8 = off - 64"
      then show "offset_readable level off 12 acc" using Z div_prefix [of acc 28 14 2] div_prefix [of acc 28 14 3]
        by (simp add: offset_readable_def read_copy_offset_def masks mask_numerals)
    qed (use 2 in \<open>simp_all add: mask_numerals word_less_nat_alt word_le_nat_alt unat_sub\<close>)
    then show ?thesis using 2 Z by (simp add: copy_offset_code_def not_less [symmetric])
  next
    case 3
    have "code_ok (0xC000 OR ((off - 320) AND 0x1FFF), 16) 19 (offset_readable level off 16)"
    proof (rule offset_case [where m = 3 and n = 13 and q = 6 and x = "off - 320" and c = "0xC000"])
      fix acc assume a: "unat acc div 2 ^ (32 - 3) = 6" "drop_bit (32 - 16) acc AND mask 13 = off - 320"
      moreover have "unat acc div 2 ^ 28 \<noteq> 15" "unat acc div 2 ^ 28 \<noteq> 14"
        using a(1) div_prefix [of acc 28 15 1] div_prefix [of acc 28 14 1] by auto
      ultimately show "offset_readable level off 16 acc" using Z div_prefix [of acc 29 6 1] div_prefix [of acc 29 6 2]
        by (simp add: offset_readable_def read_copy_offset_def masks mask_numerals)
    qed (use 3 assms(1) Z in \<open>simp_all add: mask_numerals word_less_nat_alt word_le_nat_alt unat_sub offset_limit_def\<close>)
    then show ?thesis using 3 assms(1) Z by (simp add: copy_offset_code_def word_less_nat_alt word_le_nat_alt offset_limit_def)
  qed
qed

lemma offset_code_ok:
  assumes "unat off < offset_limit level"
  shows "\<exists>c. copy_offset_code level off = Some c \<and> code_ok c 19 (offset_readable level off (snd c))"
  using offset_code_64K [OF assms] offset_code_8K [OF assms] by blast

section \<open>Literals\<close>

definition literal_code :: "byte \<Rightarrow> u32 \<times> nat" where
  "literal_code b = (if b < 0x80 then (ucast b, 8) else (0x100 OR (ucast b AND 0x7F), 9))"

text \<open>The first two branches of the decoder.\<close>

definition literal_of :: "u32 \<Rightarrow> (byte \<times> nat) option" where
  "literal_of acc =
     (if acc AND 0x80000000 = 0 then Some (ucast (drop_bit 24 (acc AND 0x7F000000)), 8)
      else if acc AND 0xC0000000 = 0x80000000 then Some (ucast (drop_bit 23 (acc AND 0x3F800000) + 0x80), 9)
      else None)"

lemma unat_ucast_byte: "unat (ucast (b :: byte) :: u32) = unat b"
  using unsigned_less [of b, where ?'a = nat] by (simp add: unat_ucast_mod)

lemma ucast_ucast_byte: "ucast (ucast (b :: byte) :: u32) = b"
  using unsigned_less [of b, where ?'a = nat] by (simp add: word_unat_eq_iff unat_ucast_mod)

lemma write_literal_code: "write_literal b bs = BitStream_Write_Bits (fst (literal_code b)) (snd (literal_code b)) bs"
proof -
  have "(ucast b :: u32) < 0x80 \<longleftrightarrow> b < 0x80" by (simp add: word_less_nat_alt unat_ucast_byte)
  then show ?thesis by (simp add: write_literal_def literal_code_def Let_def)
qed

lemma drop_and: "drop_bit k (acc AND push_bit k (mask n)) = drop_bit k acc AND (mask n :: u32)"
  by (rule bit_word_eqI) (auto simp: bit_simps possible_bit_word dest: u32_bit_less)

lemma literal_code_ok: "code_ok (literal_code b) 9 (\<lambda>acc. literal_of acc = Some (b, snd (literal_code b)))"
proof (cases "b < 0x80")
  case True
  then have u: "unat b < 2 ^ 7" "unat (ucast b :: u32) = unat b" by (simp_all add: word_less_nat_alt unat_ucast_byte)
  have "literal_of acc = Some (b, 8)" if a: "unat acc div 2 ^ 24 = unat b" for acc
  proof -
    have "unat acc div 2 ^ (24 + 7 + 0) = 0 div 2 ^ 0" "drop_bit 24 acc AND mask 7 = of_nat (unat b)"
      using code_parts [of acc 24 0 7 "unat b"] a u(1) by simp_all
    moreover have "acc AND 0x80000000 = 0 \<longleftrightarrow> unat acc div 2 ^ 31 = 0" using masks(1) [of acc] by simp
    moreover have "drop_bit 24 (acc AND 0x7F000000) = drop_bit 24 acc AND mask 7"
      using drop_and [of 24 acc 7] by (simp add: mask_numerals push_bit_eq_mult)
    ultimately show ?thesis by (simp add: literal_of_def ucast_ucast_byte)
  qed
  then show ?thesis using True u by (simp add: literal_code_def code_ok_def)
next
  case False
  define x where "x = unat b - 128"
  have b: "unat b = 128 + x" "x < 2 ^ 7" using False unsigned_less [of b, where ?'a = nat] by (simp_all add: x_def word_less_nat_alt)
  have v: "0x100 OR (ucast b AND 0x7F) = (of_nat (2 * 2 ^ 7 + x) :: u32)"
    using code_field [of "0x100" 7 "ucast b"] b by (simp add: mask_numerals unat_ucast_byte)
  have u: "unat (of_nat (2 * 2 ^ 7 + x) :: u32) = 2 * 2 ^ 7 + x" using b(2) by (simp add: unat_of_nat del: of_nat_add)
  have "literal_of acc = Some (b, 9)" if a: "unat acc div 2 ^ 23 = 2 * 2 ^ 7 + x" for acc
  proof -
    have c: "unat acc div 2 ^ (23 + 7 + 0) = 2 div 2 ^ 0" "unat acc div 2 ^ (23 + 7 + 1) = 2 div 2 ^ 1" "drop_bit 23 acc AND mask 7 = of_nat x"
      using code_parts [OF a b(2)] by blast+
    have "drop_bit 23 (acc AND 0x3F800000) = drop_bit 23 acc AND mask 7"
      using drop_and [of 23 acc 7] by (simp add: mask_numerals push_bit_eq_mult)
    moreover have "of_nat x + 0x80 = (ucast b :: u32)"
      using b by (simp add: word_unat_eq_iff unat_ucast_byte unat_word_ariths unat_of_nat)
    ultimately show ?thesis using c masks(1) [of acc] masks(2) [of acc] by (simp add: literal_of_def ucast_ucast_byte)
  qed
  then show ?thesis using False u b(2) by (simp add: literal_code_def code_ok_def v del: of_nat_add)
qed

section \<open>Codes on a stream of bits\<close>

lemma front_bits:
  assumes R: "reading d p bs" and n: "0 < n" "n < 32" and v: "unat v < 2 ^ n"
    and b: "\<And>i. i < n \<Longrightarrow> sbit d (p + i) \<longleftrightarrow> bits_of n v ! i"
  shows "unat (bs_accumulator bs) div 2 ^ (32 - n) = unat v"
proof -
  have A: "bit (bs_accumulator bs) j \<longleftrightarrow> sbit d (p + (31 - j))" if "j < 32" for j
    using R that by (simp add: reading_def word_bits_iff)
  have "drop_bit (32 - n) (bs_accumulator bs) = v"
  proof (rule bit_word_eqI)
    fix j assume "j < LENGTH(32)"
    show "bit (drop_bit (32 - n) (bs_accumulator bs)) j \<longleftrightarrow> bit v j"
    proof (cases "j < n")
      case True
      have "p + (31 - (32 - n + j)) = p + (n - 1 - j)" "n - 1 - (n - 1 - j) = j" using n True by simp_all
      then show ?thesis using A [of "32 - n + j"] b [of "n - 1 - j"] nth_bits_of [of "n - 1 - j" n v] n True
        by (simp add: bit_drop_bit_eq)
    next
      case False
      then have "\<not> bit v j" using bit_below [OF v] by auto
      moreover have "\<not> bit (bs_accumulator bs) (32 - n + j)" using False n u32_bit_less [of "bs_accumulator bs" "32 - n + j"] by auto
      ultimately show ?thesis by (simp add: bit_drop_bit_eq)
    qed
  qed
  then show ?thesis by (simp flip: unat_drop)
qed

definition code_bits :: "u32 \<times> nat \<Rightarrow> bool list" where
  "code_bits c = bits_of (snd c) (fst c)"

lemma length_code_bits [simp]: "length (code_bits c) = snd c"
  by (simp add: code_bits_def)

text \<open>The bits of a block from a position on.\<close>

definition bits_at :: "byte list \<Rightarrow> nat \<Rightarrow> bool list \<Rightarrow> bool" where
  "bits_at d p B \<longleftrightarrow> p + length B \<le> 8 * length d \<and> (\<forall>i < length B. sbit d (p + i) \<longleftrightarrow> B ! i)"

lemma bits_at_append: "bits_at d p (A @ B) \<longleftrightarrow> bits_at d p A \<and> bits_at d (p + length A) B"
proof
  assume b: "bits_at d p (A @ B)"
  then have "sbit d (p + length A + i) \<longleftrightarrow> B ! i" if "i < length B" for i
    using that unfolding bits_at_def by (auto dest: spec [of _ "length A + i"] simp: nth_append add.assoc)
  then show "bits_at d p A \<and> bits_at d (p + length A) B" using b by (auto simp: bits_at_def nth_append)
next
  assume b: "bits_at d p A \<and> bits_at d (p + length A) B"
  have "sbit d (p + i) \<longleftrightarrow> (A @ B) ! i" if "i < length A + length B" for i
  proof (cases "i < length A")
    case False
    then have "p + length A + (i - length A) = p + i" "i - length A < length B" using that by simp_all
    then have "sbit d (p + i) \<longleftrightarrow> B ! (i - length A)" using b unfolding bits_at_def by metis
    then show ?thesis using False by (simp add: nth_append)
  qed (use b in \<open>simp add: bits_at_def nth_append\<close>)
  then show "bits_at d p (A @ B)" using b by (simp add: bits_at_def)
qed

text \<open>
  The contract of a code: \<open>code\<close> gives what is written for a value, \<open>readable acc v n\<close> says that a reader who has the
  word \<open>acc\<close> in front takes it for \<open>v\<close>, of \<open>n\<close> bits.
\<close>

locale bit_code =
  fixes code :: "'a \<Rightarrow> u32 \<times> nat" and readable :: "u32 \<Rightarrow> 'a \<Rightarrow> nat \<Rightarrow> bool" and valid :: "'a \<Rightarrow> bool" and limit :: nat
  assumes limit: "limit < 32"
    and law: "valid x \<Longrightarrow> code_ok (code x) limit (\<lambda>acc. readable acc x (snd (code x)))"
begin

lemma written:
  assumes "valid x" "writing c B bs" "c < 2 ^ 28" "length B < 2 ^ 29"
  shows "\<exists>bs'. BitStream_Write_Bits (fst (code x)) (snd (code x)) bs = Some bs' \<and> writing c (B @ code_bits (code x)) bs' \<and>
     snd (code x) \<le> limit \<and> length (bs_buffer bs') = length (bs_buffer bs)"
proof -
  have n: "0 < snd (code x)" "snd (code x) \<le> limit" and v: "unat (fst (code x)) < 2 ^ snd (code x)"
    using law [OF assms(1)] by (simp_all add: code_ok_def)
  have "bit (fst (code x)) j \<Longrightarrow> j < snd (code x)" for j by (rule bit_below [OF v])
  then show ?thesis
    using BitStream_Write_Bits_ok [OF assms(2), of "snd (code x)" "fst (code x)"] n limit assms(3,4) by (auto simp: code_bits_def)
qed

lemma read_back:
  assumes "valid x" "reading d p bs" "bits_at d p (code_bits (code x))" "length d < 2 ^ 27"
  shows "readable (bs_accumulator bs) x (snd (code x))"
    "\<exists>bs'. BitStream_Shift (snd (code x)) bs = Some bs' \<and> reading d (p + snd (code x)) bs'"
proof -
  have n: "0 < snd (code x)" "snd (code x) < 32" and v: "unat (fst (code x)) < 2 ^ snd (code x)"
    and r: "\<And>acc :: u32. unat acc div 2 ^ (32 - snd (code x)) = unat (fst (code x)) \<Longrightarrow> readable acc x (snd (code x))"
    using law [OF assms(1)] limit by (simp_all add: code_ok_def)
  show "readable (bs_accumulator bs) x (snd (code x))"
    by (rule r, rule front_bits [OF assms(2) n v]) (use assms(3) in \<open>simp add: bits_at_def code_bits_def\<close>)
  show "\<exists>bs'. BitStream_Shift (snd (code x)) bs = Some bs' \<and> reading d (p + snd (code x)) bs'"
    by (rule BitStream_Shift_ok [OF assms(2) n _ assms(4)]) (use assms(3) in \<open>simp add: bits_at_def\<close>)
qed

end

interpretation lit: bit_code literal_code "\<lambda>acc b n. literal_of acc = Some (b, n)" "\<lambda>_. True" 9
  by unfold_locales (simp_all add: literal_code_ok)

interpretation offs: bit_code "\<lambda>off. the (copy_offset_code level off)" "\<lambda>acc off n. offset_readable level off n acc"
    "\<lambda>off. unat off < offset_limit level" 19 for level
proof unfold_locales
  fix off :: u32 assume "unat off < offset_limit level"
  then show "code_ok (the (copy_offset_code level off)) 19 (\<lambda>acc. offset_readable level off (snd (the (copy_offset_code level off))) acc)"
    using offset_code_ok by fastforce
qed simp

interpretation lens: bit_code "\<lambda>len. the (match_length_code level len)" "\<lambda>acc len n. read_match_length level acc = Some (len, n)"
    "\<lambda>len. 3 \<le> unat len \<and> unat len < 2 ^ length_limit level" 30 for level
proof unfold_locales
  fix len :: u32 assume "3 \<le> unat len \<and> unat len < 2 ^ length_limit level"
  then show "code_ok (the (match_length_code level len)) 30
      (\<lambda>acc. read_match_length level acc = Some (len, snd (the (match_length_code level len))))"
    using length_code_ok by fastforce
qed simp

end
