(* ===== verification/MppcReplay.thy ===== *)
theory MppcReplay
  imports MppcCode
begin

unbundle bit_operations_syntax

text \<open>
  The symbols of the bulk compression, their bits, and their effect on the history. A decompressor that is given the bits of
  some symbols replays them.
\<close>

section \<open>Symbols\<close>

datatype mppc_symbol = Lit byte | Match u32 u32

fun symbol_bits :: "u32 \<Rightarrow> mppc_symbol \<Rightarrow> bool list" where
  "symbol_bits level (Lit b) = code_bits (literal_code b)"
| "symbol_bits level (Match off len) = code_bits (the (copy_offset_code level off)) @ code_bits (the (match_length_code level len))"

abbreviation symbols_bits :: "u32 \<Rightarrow> mppc_symbol list \<Rightarrow> bool list" where
  "symbols_bits level ys \<equiv> concat (map (symbol_bits level) ys)"

type_synonym history = "byte list \<times> nat"

text \<open>The effect of a symbol on the history and the position in it, for a window of \<open>win\<close> bytes.\<close>

fun replay :: "u32 \<Rightarrow> nat \<Rightarrow> mppc_symbol \<Rightarrow> history \<Rightarrow> history option" where
  "replay level win (Lit b) (H, h) = (if h < win then do { H \<leftarrow> arr_set H h b; Some (H, h + 1) } else None)"
| "replay level win (Match off len) (H, h) =
     (if unat off < offset_limit level \<and> 3 \<le> unat len \<and> unat len < 2 ^ length_limit level \<and> h + unat len \<le> win
      then do { H \<leftarrow> copy_match H (match_source level h off) h (unat len); Some (H, h + unat len) } else None)"

fun replays :: "u32 \<Rightarrow> nat \<Rightarrow> mppc_symbol list \<Rightarrow> history \<Rightarrow> history option" where
  "replays level win [] S = Some S"
| "replays level win (y # ys) S = do { S \<leftarrow> replay level win y S; replays level win ys S }"

lemma replays_append: "replays level win (xs @ ys) S = do { S \<leftarrow> replays level win xs S; replays level win ys S }"
proof (induction xs arbitrary: S)
  case (Cons x xs)
  have "replays level win (xs @ ys) = (\<lambda>S. replays level win xs S \<bind> replays level win ys)" by (rule ext) (rule Cons.IH)
  then show ?case by (simp add: bind_assoc)
qed simp

lemma symbol_bits_length:
  assumes "replay level win y S = Some S'"
  shows "8 \<le> length (symbol_bits level y)"
proof (cases y)
  case (Lit b)
  then show ?thesis by (simp add: literal_code_def)
next
  case (Match off len)
  then have "unat off < offset_limit level" using assms by (cases S) (simp split: if_splits)
  then obtain c where "copy_offset_code level off = Some c" using offset_code_ok by blast
  moreover from this have "10 \<le> snd c" by (auto simp: copy_offset_code_def split: if_splits)
  ultimately show ?thesis using Match by simp
qed

section \<open>The decompressor\<close>

lemma literal_branches:
  "mppc_decode_loop level histSize H h bs =
     (if bs_length bs - bs_position bs \<ge> 8 then
        if h > unat (histSize - 1) then Some (-1004, H, h, bs)
        else (case literal_of (bs_accumulator bs) of
            Some (b, n) \<Rightarrow> do {
              H \<leftarrow> arr_set H h b;
              bs \<leftarrow> BitStream_Shift n bs;
              mppc_decode_loop level histSize H (h + 1) bs }
          | None \<Rightarrow> (case read_copy_offset level (bs_accumulator bs) of
                Inl e \<Rightarrow> Some (e, H, h, bs)
              | Inr (CopyOffset, n) \<Rightarrow> do {
                  bs \<leftarrow> BitStream_Shift n bs;
                  (case read_match_length level (bs_accumulator bs) of
                     None \<Rightarrow> Some (-1003, H, h, bs)
                   | Some (LengthOfMatch, n) \<Rightarrow> do {
                       bs \<leftarrow> BitStream_Shift n bs;
                       if h + unat LengthOfMatch - 1 > unat (histSize - 1) then Some (-1005, H, h, bs)
                       else do {
                         H \<leftarrow> copy_match H (match_source level h CopyOffset) h (unat LengthOfMatch);
                         mppc_decode_loop level histSize H (h + unat LengthOfMatch) bs } }) }))
      else Some (1, H, h, bs))"
  by (subst mppc_decode_loop.simps) (simp add: literal_of_def Let_def)

lemma decode_symbol:
  assumes r: "replay level win y (H, h) = Some (H', h')" and R: "reading d p bs" and d: "length d < 2 ^ 27"
    and b: "bits_at d p (symbol_bits level y)" and s: "unat (histSize - 1) + 1 = win"
  shows "\<exists>bs'. mppc_decode_loop level histSize H h bs = mppc_decode_loop level histSize H' h' bs' \<and> reading d (p + length (symbol_bits level y)) bs'"
proof -
  have f: "bs_length bs = 8 * int (length d)" "bs_position bs = int p" using R by (simp_all add: reading_def)
  have "p + 8 \<le> 8 * length d" using b symbol_bits_length [OF r] by (simp add: bits_at_def)
  then have go: "bs_length bs - bs_position bs \<ge> 8" unfolding f by linarith
  show ?thesis
  proof (cases y)
    case (Lit c)
    have h: "h < win" "arr_set H h c = Some H'" "h' = h + 1" using r Lit by (auto split: if_splits simp: bind_eq_Some_conv)
    note x = lit.read_back [OF TrueI R b [unfolded Lit, simplified] d]
    from x(2) obtain bs' where "BitStream_Shift (snd (literal_code c)) bs = Some bs'" "reading d (p + snd (literal_code c)) bs'" by blast
    then show ?thesis using x(1) go h s Lit by (subst literal_branches) auto
  next
    case (Match off len)
    have m: "unat off < offset_limit level" "3 \<le> unat len \<and> unat len < 2 ^ length_limit level" "h + unat len \<le> win"
      "copy_match H (match_source level h off) h (unat len) = Some H'" "h' = h + unat len"
      using r Match by (auto split: if_splits simp: bind_eq_Some_conv)
    let ?o = "the (copy_offset_code level off)" and ?l = "the (match_length_code level len)"
    have bo: "bits_at d p (code_bits ?o)" and bl: "bits_at d (p + snd ?o) (code_bits ?l)"
      using b Match by (simp_all add: bits_at_append)
    note x = offs.read_back [OF m(1) R bo d]
    from x(2) obtain b1 where b1: "BitStream_Shift (snd ?o) bs = Some b1" "reading d (p + snd ?o) b1" by blast
    note y = lens.read_back [OF m(2) b1(2) bl d]
    from y(2) obtain b2 where b2: "BitStream_Shift (snd ?l) b1 = Some b2" "reading d (p + snd ?o + snd ?l) b2" by blast
    have l: "literal_of (bs_accumulator bs) = None" using x(1) by (simp add: offset_readable_def literal_of_def)
    have "mppc_decode_loop level histSize H h bs = mppc_decode_loop level histSize H' h' b2"
      using go x(1) l b1(1) y(1) b2(1) m s by (subst literal_branches) (auto simp: offset_readable_def)
    then show ?thesis using b2(2) Match by (auto simp: add.assoc)
  qed
qed

lemma decode_symbols:
  assumes "replays level win ys (H, h) = Some (H', h')" "reading d p bs" "length d < 2 ^ 27"
    "bits_at d p (symbols_bits level ys)" "8 * length d < p + length (symbols_bits level ys) + 8" "unat (histSize - 1) + 1 = win"
  shows "\<exists>bs'. mppc_decode_loop level histSize H h bs = Some (1, H', h', bs')"
  using assms
proof (induction ys arbitrary: H h p bs)
  case Nil
  then have "bs_length bs = 8 * int (length d)" "bs_position bs = int p" by (simp_all add: reading_def)
  then have "\<not> 8 \<le> bs_length bs - bs_position bs" using Nil.prems(5) by simp
  then show ?case using Nil.prems(1) by (subst mppc_decode_loop.simps) simp
next
  case (Cons y ys)
  from Cons.prems(1) obtain H1 h1 where s: "replay level win y (H, h) = Some (H1, h1)" "replays level win ys (H1, h1) = Some (H', h')"
    by (auto simp: bind_eq_Some_conv)
  have b: "bits_at d p (symbol_bits level y)" "bits_at d (p + length (symbol_bits level y)) (symbols_bits level ys)"
    using Cons.prems(4) by (simp_all add: bits_at_append)
  obtain b1 where b1: "mppc_decode_loop level histSize H h bs = mppc_decode_loop level histSize H1 h1 b1"
      "reading d (p + length (symbol_bits level y)) b1"
    using decode_symbol [OF s(1) Cons.prems(2,3) b(1) Cons.prems(6)] by blast
  show ?case unfolding b1(1)
    by (rule Cons.IH [OF s(2) b1(2) Cons.prems(3) b(2) _ Cons.prems(6)]) (use Cons.prems(5) in simp)
qed

end
