(* ===== verification/MppcLossless.thy ===== *)
theory MppcLossless
  imports MppcReplay
begin

unbundle bit_operations_syntax

text \<open>
  The bulk compression loses nothing: what the compressor makes of any sequence of packets, the decompressor turns
  back into the same packets. The symbols that the compressor writes stand between the two: replayed on the history
  before a packet they give the history after it.
\<close>

section \<open>Matches\<close>

lemma copy_match_add:
  "copy_match H s t (a + b) = do { H \<leftarrow> copy_match H s t a; copy_match H (s + a) (t + a) b }"
proof (induction a arbitrary: H s t)
  case (Suc a)
  have "copy_match H (s + 1) (t + 1) (a + b) = copy_match H (s + 1) (t + 1) a \<bind> (\<lambda>H. copy_match H (s + Suc a) (t + Suc a) b)" for H
    using Suc.IH [of H "s + 1" "t + 1"] by simp
  then show ?case by (simp add: bind_assoc)
qed simp

lemma copy_match_frame:
  assumes "copy_match H s t n = Some H'"
  shows "length H' = length H" "k < t \<or> t + n \<le> k \<Longrightarrow> H' ! k = H ! k"
proof -
  have "length H' = length H \<and> (\<forall>k. k < t \<or> t + n \<le> k \<longrightarrow> H' ! k = H ! k)"
    using assms
  proof (induction n arbitrary: H s t)
    case (Suc n)
    then show ?case by (fastforce simp: bind_eq_Some_conv arr_set_def split: if_splits)
  qed simp
  then show "length H' = length H" "k < t \<or> t + n \<le> k \<Longrightarrow> H' ! k = H ! k" by auto
qed

lemma extend_match_ok:
  assumes "copy_match H0 s t l = Some H" "length H = 65536" "match = s + l" "h = t + l" "i < n" "n \<le> length src" "srcEnd = int n - 1"
    "limit + 1 < 65536 \<and> match \<le> limit + 1 \<or> match \<le> h" "h + (n - i) < 65536"
  shows "\<exists>k H'. extend_match src srcEnd limit H i h match len = Some (H', i + k, h + k, len + of_nat k) \<and>
     copy_match H0 s t (l + k) = Some H' \<and> i + k < n \<and> (\<forall>j < k. H' ! (h + j) = src ! (i + j))"
  using assms
proof (induction "n - i" arbitrary: H l match h i len)
  case (Suc x)
  have g: "arr_get src i = Some (src ! i)" "arr_get H match = Some (H ! match)"
    using Suc.prems by (auto simp: arr_get_def)
  show ?case
  proof (cases "src ! i = H ! match \<and> int i < srcEnd \<and> match \<le> limit")
    case False
    then have "extend_match src srcEnd limit H i h match len = Some (H, i, h, len)"
      by (subst extend_match.simps) (auto simp: g)
    then show ?thesis using Suc.prems(1,5) by (intro exI [of _ 0]) simp
  next
    case True
    define H1 where "H1 = H[h := src ! i]"
    have s: "arr_set H h (src ! i) = Some H1" using Suc.prems(2,9) by (simp add: arr_set_def H1_def)
    have e: "extend_match src srcEnd limit H i h match len = extend_match src srcEnd limit H1 (i + 1) (h + 1) (match + 1) (len + 1)"
      using True s by (subst extend_match.simps) (simp add: g)
    have c: "copy_match H0 s t (l + 1) = Some H1" using copy_match_add [of H0 s t l 1] Suc.prems(1,3,4) g(2) s True by simp
    have i: "i + 1 < n" using True Suc.prems(7) by simp
    have "\<exists>k H'. extend_match src srcEnd limit H1 (i + 1) (h + 1) (match + 1) (len + 1) = Some (H', i + 1 + k, h + 1 + k, len + 1 + of_nat k) \<and>
        copy_match H0 s t (l + 1 + k) = Some H' \<and> i + 1 + k < n \<and> (\<forall>j < k. H' ! (h + 1 + j) = src ! (i + 1 + j))"
    proof (rule Suc.hyps(1))
      show "copy_match H0 s t (l + 1) = Some H1" by (rule c)
      show "x = n - (i + 1)" using Suc.hyps(2) by simp
    qed (use Suc.prems i True in \<open>auto simp: H1_def\<close>)
    then obtain k H' where k: "extend_match src srcEnd limit H1 (i + 1) (h + 1) (match + 1) (len + 1) = Some (H', i + 1 + k, h + 1 + k, len + 1 + of_nat k)"
        "copy_match H0 s t (l + 1 + k) = Some H'" "i + 1 + k < n" "\<forall>j < k. H' ! (h + 1 + j) = src ! (i + 1 + j)" by blast
    have "copy_match H1 (s + (l + 1)) (t + (l + 1)) k = Some H'" using copy_match_add [of H0 s t "l + 1" k] unfolding c k(2) by simp
    then have "H' ! h = src ! i" using copy_match_frame(2) [of H1 _ _ k H' h] Suc.prems(2,4,9) by (simp add: H1_def)
    then have "\<forall>j < Suc k. H' ! (h + j) = src ! (i + j)" using k(4) by (auto simp: less_Suc_eq_0_disj)
    then show ?thesis unfolding e using k(1-3) by (intro exI [of _ "Suc k"] exI [of _ H']) (simp add: add.assoc)
  qed
qed simp

lemma and_window:
  "(of_nat (offset_limit level) - 1) AND (w :: u32) = of_nat (unat w mod offset_limit level)"
  "(x :: int) AND (if level \<noteq> 0 then 0xFFFF else 0x1FFF) = x mod int (offset_limit level)"
proof -
  have m: "offset_limit level = 2 ^ (if level \<noteq> 0 then 16 else 13)" by (simp add: offset_limit_def)
  have "(of_nat (offset_limit level) - 1 :: u32) = mask (if level \<noteq> 0 then 16 else 13)" by (simp add: m mask_eq_exp_minus_1)
  moreover have "w AND mask n = of_nat (unat w mod 2 ^ n)" for n unfolding unat_and_mask [symmetric] by simp
  ultimately show "(of_nat (offset_limit level) - 1) AND w = of_nat (unat w mod offset_limit level)"
    by (simp only: m and.commute [of "mask _"])
  have "(if level \<noteq> 0 then 0xFFFF else 0x1FFF :: int) = mask (if level \<noteq> 0 then 16 else 13)" by (simp add: mask_eq_exp_minus_1)
  then show "x AND (if level \<noteq> 0 then 0xFFFF else 0x1FFF) = x mod int (offset_limit level)"
    by (simp add: m flip: take_bit_eq_mask take_bit_eq_mod)
qed

lemma match_source_back:
  fixes level :: u32 and h match :: nat
  assumes "0 < match" "match \<le> offset_limit level"
  defines "off \<equiv> (of_nat (offset_limit level) - 1) AND word_of_int (int (h + 1) - int match) :: u32"
  shows "unat off < offset_limit level" "match_source level h off = match - 1"
proof -
  let ?W = "offset_limit level"
  have W: "0 < ?W" "?W < 2 ^ 32" "(2 :: nat) ^ 32 mod ?W = 0" by (auto simp: offset_limit_def)
  have "unat (word_of_int z :: u32) = nat (z mod 2 ^ 32)" for z
    unfolding unat_eq_nat_uint uint_word_of_int by simp
  moreover have "unat off = unat (word_of_int (int (h + 1) - int match) :: u32) mod ?W"
    unfolding off_def and_window(1) unat_of_nat by (rule mod_less) (use W in \<open>simp add: less_trans [OF mod_less_divisor]\<close>)
  ultimately have o: "unat off = nat ((int (h + 1) - int match) mod 2 ^ 32) mod ?W" by (simp only:)
  then show "unat off < ?W" using W(1) by simp
  have "(x mod 2 ^ 32) mod int ?W = x mod int ?W" for x :: int
    by (rule mod_mod_cancel) (auto simp: offset_limit_def)
  then have u: "uint off = (int (h + 1) - int match) mod int ?W"
    using o W(1) by (simp add: uint_nat nat_mod_distrib zmod_int)
  have "(int h - uint off) mod int ?W = (int match - 1) mod int ?W"
    unfolding u by (simp add: mod_diff_right_eq algebra_simps)
  also have "\<dots> = int (match - 1)" using assms(1,2) by simp
  finally show "match_source level h off = match - 1" by (simp add: match_source_def and_window(2))
qed

section \<open>The room for the code\<close>

lemma dst_full_iff:
  assumes "bs_position bs = int p" "p < 2 ^ 31" "0 < c" "c < 2 ^ 20" "k < 8"
  shows "dst_full bs (int k) (of_nat c) \<longleftrightarrow> c \<le> p div 8 + k"
proof -
  have "unat (of_nat c - 1 :: u32) = c - 1" using assms(3,4) by (simp add: unat_sub word_le_nat_alt unat_of_nat)
  moreover have "unat (of_nat (p div 8 + k) :: u32) = p div 8 + k" using assms(2,5) by (simp add: unat_of_nat del: of_nat_add)
  moreover have e: "int p div 8 + int k = int (p div 8 + k)" by (simp add: zdiv_int)
  moreover have "dst_full bs (int k) (of_nat c) \<longleftrightarrow> unat (of_nat c - 1 :: u32) < unat (of_nat (p div 8 + k) :: u32)"
    unfolding dst_full_def assms(1) e of_int_of_nat_eq word_less_nat_alt ..
  ultimately show ?thesis using assms(3) by auto
qed

lemma room:
  assumes "writing c B bs" "length B \<le> 8 * c" "0 < c" "c < 2 ^ 20" "k < 8"
  shows "\<not> dst_full bs (int k) (of_nat c) \<longleftrightarrow> length B div 8 + k < c" "\<not> dst_full bs (int k) (of_nat c) \<Longrightarrow> length B + 8 * k + 1 \<le> 8 * c"
proof -
  have "bs_position bs = int (length B)" "length B < 2 ^ 31" using assms(1,2,4) by (simp_all add: writing_def)
  then show f: "\<not> dst_full bs (int k) (of_nat c) \<longleftrightarrow> length B div 8 + k < c"
    using dst_full_iff [of bs "length B" c k] assms(3-5) by auto
  show "\<not> dst_full bs (int k) (of_nat c) \<Longrightarrow> length B + 8 * k + 1 \<le> 8 * c"
    unfolding f by linarith
qed

lemma literal_written:
  assumes "writing c B bs" "length B \<le> 8 * c" "0 < c" "c < 2 ^ 20" "\<not> dst_full bs 2 (of_nat c)"
  shows "\<exists>bs'. write_literal b bs = Some bs' \<and> writing c (B @ code_bits (literal_code b)) bs' \<and>
     length (B @ code_bits (literal_code b)) \<le> 8 * c \<and> length (bs_buffer bs') = length (bs_buffer bs)"
proof -
  have r: "length B + 17 \<le> 8 * c" using room(2) [OF assms(1-4), of 2] assms(5) by simp
  have "length B < 2 ^ 29" and c28: "c < 2 ^ 28" using r assms(4) by simp_all
  then show ?thesis using lit.written [OF TrueI assms(1) c28] r unfolding write_literal_code by fastforce
qed

lemma match_written:
  assumes "writing c B bs" "length B \<le> 8 * c" "0 < c" "c < 2 ^ 20" "\<not> dst_full bs 7 (of_nat c)"
    and "unat off < offset_limit level" "3 \<le> unat len \<and> unat len < 2 ^ length_limit level"
  shows "\<exists>b1 b2. write_code (copy_offset_code level off) bs = Some b1 \<and> write_code (match_length_code level len) b1 = Some b2 \<and>
     writing c (B @ symbol_bits level (Match off len)) b2 \<and> length (B @ symbol_bits level (Match off len)) \<le> 8 * c \<and>
     length (bs_buffer b2) = length (bs_buffer bs)"
proof -
  have r: "length B + 57 \<le> 8 * c" using room(2) [OF assms(1-4), of 7] assms(5) by simp
  obtain o1 l1 where c: "copy_offset_code level off = Some o1" "match_length_code level len = Some l1"
    using offset_code_ok [OF assms(6)] length_code_ok [of len level] assms(7) by blast
  have "length B < 2 ^ 29" and c28: "c < 2 ^ 28" using r assms(4) by simp_all
  then obtain b1 where b1: "BitStream_Write_Bits (fst o1) (snd o1) bs = Some b1" "writing c (B @ code_bits o1) b1" "snd o1 \<le> 19"
      "length (bs_buffer b1) = length (bs_buffer bs)"
    using offs.written [OF assms(6,1) c28] c(1) by auto
  have "length (B @ code_bits o1) < 2 ^ 29" using r assms(4) b1(3) by simp
  then obtain b2 where "BitStream_Write_Bits (fst l1) (snd l1) b1 = Some b2" "writing c ((B @ code_bits o1) @ code_bits l1) b2" "snd l1 \<le> 30"
      "length (bs_buffer b2) = length (bs_buffer b1)"
    using lens.written [OF assms(7) b1(2) c28] c(2) by auto
  then show ?thesis using b1 c r by (auto simp: write_code_def case_prod_beta)
qed

section \<open>The compressor\<close>

text \<open>
  The entries of the table of matches, for the position \<open>h\<close>. A flushed context has a position behind the window; then its table has been emptied.
\<close>

definition table_ok :: "u32 \<Rightarrow> nat \<Rightarrow> MPPC_CONTEXT \<Rightarrow> bool" where
  "table_ok level h m \<longleftrightarrow> length (mp_MatchBuffer m) = 32768 \<and> (\<forall>e \<in> set (mp_MatchBuffer m). unat e + 4 \<le> offset_limit level) \<and>
     (mp_HistoryPtr m + 4 \<le> offset_limit level \<or> (\<forall>e \<in> set (mp_MatchBuffer m). unat e \<le> h))"

definition sized :: "u32 \<Rightarrow> MPPC_CONTEXT \<Rightarrow> bool" where
  "sized level m \<longleftrightarrow> mp_CompressionLevel m = level \<and> mp_HistoryBufferSize m = of_nat (offset_limit level)"

text \<open>
  The state of a compressor that has gone through some of the data \<open>src\<close> and written the symbols \<open>ys\<close>, from the history \<open>S\<close> on.
\<close>

definition packing :: "u32 \<Rightarrow> byte list \<Rightarrow> history \<Rightarrow> nat \<Rightarrow> mppc_symbol list \<Rightarrow> mppc_state \<Rightarrow> bool" where
  "packing level src S c ys st \<longleftrightarrow>
     sized level (ms_mppc st) \<and> length (mp_HistoryBuffer (ms_mppc st)) = 65536 \<and> table_ok level (ms_hist st) (ms_mppc st) \<and>
     ms_hist st = snd S + ms_src st \<and> ms_src st \<le> length src \<and> (\<forall>i < ms_src st. mp_HistoryBuffer (ms_mppc st) ! (snd S + i) = src ! i) \<and>
     replays level (offset_limit level) ys S = Some (mp_HistoryBuffer (ms_mppc st), ms_hist st) \<and>
     writing c (symbols_bits level ys) (ms_bs st) \<and> length (symbols_bits level ys) \<le> 8 * c"

lemma offset_limit_range: "8192 \<le> offset_limit level" "offset_limit level \<le> 65536" "offset_limit level = 2 ^ length_limit level"
  by (simp_all add: offset_limit_def length_limit_def)

lemma match_index_less: "unat (MPPC_MATCH_INDEX a b c) < 32768"
  using drop_and [of 12 "push_bit 16 (MPPC_MATCH_TABLE c) + push_bit 8 (MPPC_MATCH_TABLE b) + MPPC_MATCH_TABLE a" 15]
    unat_and_mask [of _ 15]
  by (simp add: MPPC_MATCH_INDEX_def mask_numerals push_bit_eq_mult)

lemma no_match_ok:
  assumes "length (mp_HistoryBuffer m) = 65536" "match + 1 < 65536"
  shows "\<exists>none. no_match m match h a b c = Some none \<and>
     (\<not> none \<longrightarrow> 0 < match \<and> match \<noteq> h - 1 \<and> match \<noteq> h \<and> match + 1 \<le> mp_HistoryPtr m \<and>
        mp_HistoryBuffer m ! (match - 1) = a \<and> mp_HistoryBuffer m ! match = b \<and> mp_HistoryBuffer m ! (match + 1) = c)"
  using assms by (auto simp: no_match_def arr_get_def)

lemma copy_three:
  assumes "length H = 65536" "0 < match" "match \<noteq> h" "match \<noteq> h + 1" "match + 1 < 65536" "h + 2 < 65536"
    "H[h := a] ! (match - 1) = a" "H[h := a] ! match = b" "H[h := a] ! (match + 1) = c"
  shows "copy_match H (match - 1) h 3 = Some (H[h := a, h + 1 := b, h + 2 := c])"
proof -
  have 1: "arr_get H (match - 1) = Some a" using assms(1-5,7) by (auto simp: arr_get_def nth_list_update split: if_splits)
  have 2: "arr_get (H[h := a]) match = Some b" using assms by (simp add: arr_get_def)
  have 3: "arr_get (H[h := a, h + 1 := b]) (match + 1) = Some c" using assms by (simp add: arr_get_def)
  have n: "3 = Suc (Suc (Suc 0))" by simp
  have e: "match - 1 + 1 = match" using assms(2) by simp
  show ?thesis unfolding n copy_match.simps 1 e using assms(1,6) 2 3 by (simp add: arr_set_def)
qed

text \<open>A match at \<open>match\<close>, found for the data from \<open>i\<close> on, when the first symbol is stored at \<open>h\<close> already.\<close>

definition found :: "u32 \<Rightarrow> byte list \<Rightarrow> byte list \<Rightarrow> nat \<Rightarrow> nat \<Rightarrow> nat \<Rightarrow> mppc_state \<Rightarrow> bool" where
  "found level src H h i match st \<longleftrightarrow>
     sized level (ms_mppc st) \<and> length H = 65536 \<and> mp_HistoryBuffer (ms_mppc st) = H[h := src ! i] \<and> ms_hist st = h + 1 \<and> ms_src st = i + 1 \<and>
     i + 3 < length src \<and> h + (length src - i) + 4 \<le> offset_limit level \<and>
     0 < match \<and> match \<noteq> h \<and> match \<noteq> h + 1 \<and> match + 1 \<le> mp_HistoryPtr (ms_mppc st) \<and> match + 4 \<le> offset_limit level \<and>
     H[h := src ! i] ! (match - 1) = src ! i \<and> H[h := src ! i] ! match = src ! (i + 1) \<and> H[h := src ! i] ! (match + 1) = src ! (i + 2) \<and>
     (mp_HistoryPtr (ms_mppc st) + 4 \<le> offset_limit level \<or> match \<le> h)"

lemma found_extends:
  assumes f: "found level src H h i match st"
  shows "\<exists>k H'. extend_match src (int (length src) - 1) (mp_HistoryPtr (ms_mppc st)) (H[h := src ! i, h + 1 := src ! (i + 1), h + 2 := src ! (i + 2)])
        (i + 3) (h + 3) (match + 2) 3 = Some (H', i + 3 + k, h + 3 + k, 3 + of_nat k) \<and> copy_match H (match - 1) h (3 + k) = Some H' \<and>
      i + 3 + k < length src \<and> (\<forall>j < 3 + k. H' ! (h + j) = src ! (i + j))"
proof -
  let ?H3 = "H[h := src ! i, h + 1 := src ! (i + 1), h + 2 := src ! (i + 2)]" and ?n = "length src"
  have W: "offset_limit level \<le> 65536" by (rule offset_limit_range)
  have c3: "copy_match H (match - 1) h 3 = Some ?H3"
    by (rule copy_three) (use f W in \<open>auto simp: found_def\<close>)
  have "\<exists>k H'. extend_match src (int ?n - 1) (mp_HistoryPtr (ms_mppc st)) ?H3 (i + 3) (h + 3) (match + 2) 3 = Some (H', i + 3 + k, h + 3 + k, 3 + of_nat k) \<and>
      copy_match H (match - 1) h (3 + k) = Some H' \<and> i + 3 + k < ?n \<and> (\<forall>j < k. H' ! (h + 3 + j) = src ! (i + 3 + j))"
    by (rule extend_match_ok [OF c3]) (use f W in \<open>auto simp: found_def\<close>)
  then obtain k H' where k: "extend_match src (int ?n - 1) (mp_HistoryPtr (ms_mppc st)) ?H3 (i + 3) (h + 3) (match + 2) 3 = Some (H', i + 3 + k, h + 3 + k, 3 + of_nat k)"
      "copy_match H (match - 1) h (3 + k) = Some H'" "i + 3 + k < ?n" "\<forall>j < k. H' ! (h + 3 + j) = src ! (i + 3 + j)" by blast
  have r: "copy_match ?H3 (match - 1 + 3) (h + 3) k = Some H'" using copy_match_add [of H "match - 1" h 3 k] unfolding c3 k(2) by simp
  have "H' ! (h + j) = src ! (i + j)" if "j < 3 + k" for j
  proof (cases "j < 3")
    case True
    then have "H' ! (h + j) = ?H3 ! (h + j)" using copy_match_frame(2) [OF r, of "h + j"] by simp
    moreover have "h + 3 < length H" using f W by (auto simp: found_def)
    moreover have "j = 0 \<or> j = 1 \<or> j = 2" using True by linarith
    ultimately show ?thesis by auto
  next
    case False
    then show ?thesis using k(4) [rule_format, of "j - 3"] that by simp
  qed
  then show ?thesis using k(1-3) by blast
qed

lemma put_match_ok:
  assumes f: "found level src H h i match st" and w: "writing c B (ms_bs st)" "length B \<le> 8 * c" "0 < c" "c < 2 ^ 20"
  shows "\<exists>full st' H' y. put_match src (int (length src) - 1) (of_nat c) match (src ! (i + 1)) (src ! (i + 2)) st = Some (full, st') \<and>
     ms_mppc st' = (ms_mppc st)\<lparr>mp_HistoryBuffer := H'\<rparr> \<and> i < ms_src st' \<and> ms_src st' \<le> length src \<and> ms_hist st' = h + (ms_src st' - i) \<and>
     replay level (offset_limit level) y (H, h) = Some (H', ms_hist st') \<and> (\<forall>j < ms_src st' - i. H' ! (h + j) = src ! (i + j)) \<and>
     (\<not> full \<longrightarrow> writing c (B @ symbol_bits level y) (ms_bs st') \<and> length (B @ symbol_bits level y) \<le> 8 * c \<and>
        length (bs_buffer (ms_bs st')) = length (bs_buffer (ms_bs st)))"
proof -
  let ?n = "length src" and ?W = "offset_limit level"
  define H3 where "H3 = H[h := src ! i, h + 1 := src ! (i + 1), h + 2 := src ! (i + 2)]"
  obtain k H' where k: "extend_match src (int ?n - 1) (mp_HistoryPtr (ms_mppc st)) H3 (i + 3) (h + 3) (match + 2) 3 = Some (H', i + 3 + k, h + 3 + k, 3 + of_nat k)"
      "copy_match H (match - 1) h (3 + k) = Some H'" "i + 3 + k < ?n" "\<forall>j < 3 + k. H' ! (h + j) = src ! (i + j)"
    using found_extends [OF f] unfolding H3_def by blast
  define off :: u32 where "off = (of_nat ?W - 1) AND word_of_int (int (h + 1) - int match)"
  have mm: "0 < match" "match \<le> ?W" using f by (simp_all add: found_def)
  note o = match_source_back [OF mm, of h, folded off_def]
  define len :: u32 where "len = 3 + of_nat k"
  have W: "?W \<le> 65536" "?W = 2 ^ length_limit level" by (rule offset_limit_range)+
  have "h + (?n - i) + 4 \<le> ?W" using f by (simp only: found_def)
  then have hk: "h + (3 + k) + 4 < ?W" using k(3) by linarith
  then have l: "unat len = 3 + k" using W(1) by (simp add: len_def unat_word_ariths unat_of_nat)
  have rp: "replay level ?W (Match off len) (H, h) = Some (H', h + (3 + k))"
    using o l hk W(2) k(2) by simp
  define st1 where "st1 = st\<lparr>ms_mppc := (ms_mppc st)\<lparr>mp_HistoryBuffer := H'\<rparr>, ms_src := i + 3 + k, ms_hist := h + 3 + k\<rparr>"
  have E: "put_match src (int ?n - 1) (of_nat c) match (src ! (i + 1)) (src ! (i + 2)) st =
      (if dst_full (ms_bs st) 7 (of_nat c) then Some (True, st1)
       else do { bs \<leftarrow> write_code (copy_offset_code level off) (ms_bs st); bs \<leftarrow> write_code (match_length_code level len) bs; Some (False, st1\<lparr>ms_bs := bs\<rparr>) })"
    using f hk W(1) k(1) by (simp add: put_match_def Let_def found_def sized_def off_def len_def st1_def arr_set_def H3_def numeral_2_eq_2 numeral_3_eq_3)
  show ?thesis
  proof (cases "dst_full (ms_bs st) 7 (of_nat c)")
    case True
    then show ?thesis using E rp k(3,4)
      by (intro exI [of _ True] exI [of _ st1] exI [of _ H'] exI [of _ "Match off len"]) (simp add: st1_def add.assoc)
  next
    case False
    have "3 \<le> unat len \<and> unat len < 2 ^ length_limit level" using l hk W(2) by simp
    then obtain b1 b2 where "write_code (copy_offset_code level off) (ms_bs st) = Some b1" "write_code (match_length_code level len) b1 = Some b2"
        "writing c (B @ symbol_bits level (Match off len)) b2" "length (B @ symbol_bits level (Match off len)) \<le> 8 * c"
        "length (bs_buffer b2) = length (bs_buffer (ms_bs st))"
      using match_written [OF w False o(1)] by blast
    then show ?thesis using E False rp k(3,4)
      by (intro exI [of _ False] exI [of _ "st1\<lparr>ms_bs := b2\<rparr>"] exI [of _ H'] exI [of _ "Match off len"]) (simp add: st1_def add.assoc)
  qed
qed

lemma replay_frame:
  assumes "replay level win y (H, h) = Some (H', h')"
  shows "length H' = length H" "k < h \<or> h' \<le> k \<Longrightarrow> H' ! k = H ! k"
  using assms copy_match_frame [of H _ h _ H'] by (cases y; auto simp: bind_eq_Some_conv arr_set_def split: if_splits)+

lemma packing_step:
  assumes P: "packing level src S c ys st"
    and r: "replay level (offset_limit level) y (mp_HistoryBuffer (ms_mppc st), ms_hist st) = Some (mp_HistoryBuffer (ms_mppc st'), ms_hist st')"
    and i: "ms_src st < ms_src st'" "ms_src st' \<le> length src" "ms_hist st' = ms_hist st + (ms_src st' - ms_src st)"
    and d: "\<forall>j < ms_src st' - ms_src st. mp_HistoryBuffer (ms_mppc st') ! (ms_hist st + j) = src ! (ms_src st + j)"
    and m: "sized level (ms_mppc st')" "table_ok level (ms_hist st') (ms_mppc st')"
    and w: "writing c (symbols_bits level ys @ symbol_bits level y) (ms_bs st')" "length (symbols_bits level ys @ symbol_bits level y) \<le> 8 * c"
  shows "packing level src S c (ys @ [y]) st'"
proof -
  note f = replay_frame [OF r]
  have h: "ms_hist st = snd S + ms_src st" using P by (simp only: packing_def)
  have "mp_HistoryBuffer (ms_mppc st') ! (snd S + j) = src ! j" if j: "j < ms_src st'" for j
  proof (cases "j < ms_src st")
    case True
    then show ?thesis using P f(2) [of "snd S + j"] h by (simp add: packing_def)
  next
    case False
    then have "ms_hist st + (j - ms_src st) = snd S + j" "ms_src st + (j - ms_src st) = j" "j - ms_src st < ms_src st' - ms_src st"
      using h j by simp_all
    then show ?thesis using d by metis
  qed
  moreover have "ms_hist st' = snd S + ms_src st'" using i h by simp
  moreover have "replays level (offset_limit level) (ys @ [y]) S = Some (mp_HistoryBuffer (ms_mppc st'), ms_hist st')"
    using P r by (simp add: replays_append packing_def)
  ultimately show ?thesis using P f(1) m w i(2) by (simp add: packing_def)
qed

text \<open>How a step or a loop of the compressor ends: the room is used up, or the state is as above.\<close>

definition outcome :: "u32 \<Rightarrow> byte list \<Rightarrow> history \<Rightarrow> nat \<Rightarrow> bool \<Rightarrow> mppc_state \<Rightarrow> bool" where
  "outcome level src S c full st \<longleftrightarrow> (if full then sized level (ms_mppc st) else (\<exists>ys. packing level src S c ys st))"

lemma literal_packed:
  assumes P: "packing level src S c ys st" and w: "0 < c" "c < 2 ^ 20" "\<not> dst_full (ms_bs st) 2 (of_nat c)"
    and i: "ms_src st < length src" "snd S + length src + 4 \<le> offset_limit level"
    and m: "sized level m" "table_ok level (ms_hist st + 1) m" "mp_HistoryBuffer m = (mp_HistoryBuffer (ms_mppc st))[ms_hist st := src ! ms_src st]"
  shows "\<exists>bs. write_literal (src ! ms_src st) (ms_bs st) = Some bs \<and>
     packing level src S c (ys @ [Lit (src ! ms_src st)]) \<lparr>ms_mppc = m, ms_bs = bs, ms_src = ms_src st + 1, ms_hist = ms_hist st + 1\<rparr>"
proof -
  have p: "writing c (symbols_bits level ys) (ms_bs st)" "length (symbols_bits level ys) \<le> 8 * c" "ms_hist st = snd S + ms_src st"
      "length (mp_HistoryBuffer (ms_mppc st)) = 65536"
    using P by (simp_all add: packing_def)
  obtain bs where bs: "write_literal (src ! ms_src st) (ms_bs st) = Some bs"
      "writing c (symbols_bits level ys @ code_bits (literal_code (src ! ms_src st))) bs"
      "length (symbols_bits level ys @ code_bits (literal_code (src ! ms_src st))) \<le> 8 * c"
    using literal_written [OF p(1,2) w] by blast
  have h: "ms_hist st < offset_limit level" "ms_hist st < 65536" using i p(3) offset_limit_range(2) [of level] by linarith+
  have "packing level src S c (ys @ [Lit (src ! ms_src st)]) \<lparr>ms_mppc = m, ms_bs = bs, ms_src = ms_src st + 1, ms_hist = ms_hist st + 1\<rparr>"
    by (rule packing_step [OF P]) (use bs(2,3) h i m p(4) in \<open>simp_all add: arr_set_def\<close>)
  then show ?thesis using bs(1) by blast
qed

text \<open>The context after the first symbol of a step is stored.\<close>

definition index_at :: "byte list \<Rightarrow> nat \<Rightarrow> nat" where
  "index_at src i = unat (MPPC_MATCH_INDEX (src ! i) (src ! (i + 1)) (src ! (i + 2)))"

definition stepped :: "byte list \<Rightarrow> mppc_state \<Rightarrow> MPPC_CONTEXT" where
  "stepped src st =
     (let m = ms_mppc st; h = ms_hist st; index = index_at src (ms_src st) in
      m\<lparr>mp_HistoryBuffer := (mp_HistoryBuffer m)[h := src ! ms_src st],
        mp_MatchBuffer := (if unat (mp_MatchBuffer m ! index) \<noteq> h then (mp_MatchBuffer m)[index := of_nat (h + 1)] else mp_MatchBuffer m),
        mp_HistoryPtr := max (mp_HistoryPtr m) (h + 1)\<rparr>)"

lemma stepped_ok:
  assumes t: "table_ok level (ms_hist st) (ms_mppc st)" and h: "ms_hist st + 5 \<le> offset_limit level"
  shows "table_ok level (ms_hist st + 1) (stepped src st)"
proof -
  let ?M = "mp_MatchBuffer (ms_mppc st)" and ?N = "mp_MatchBuffer (stepped src st)"
  have "unat (of_nat (ms_hist st + 1) :: u16) = ms_hist st + 1"
    using h offset_limit_range(2) [of level] by (simp add: unat_of_nat del: of_nat_add of_nat_Suc)
  then have N: "unat e = ms_hist st + 1 \<or> e \<in> set ?M" if "e \<in> set ?N" for e
    using that by (auto simp: stepped_def Let_def simp del: of_nat_add of_nat_Suc dest!: set_update_subset_insert [THEN subsetD] split: if_splits)
  have "length ?N = 32768" using t by (simp add: table_ok_def stepped_def Let_def)
  moreover have "unat e + 4 \<le> offset_limit level" if "e \<in> set ?N" for e using N [OF that] t h by (auto simp: table_ok_def)
  moreover have "mp_HistoryPtr (stepped src st) = max (mp_HistoryPtr (ms_mppc st)) (ms_hist st + 1)" by (simp add: stepped_def Let_def)
  moreover have "unat e \<le> ms_hist st + 1" if "e \<in> set ?N" "\<forall>e \<in> set ?M. unat e \<le> ms_hist st" for e
    using N [OF that(1)] that(2) by fastforce
  ultimately show ?thesis using t h unfolding table_ok_def by (auto simp: max_def)
qed

lemma compress_step_eq:
  assumes "ms_src st + 2 < length src" "length (mp_HistoryBuffer (ms_mppc st)) = 65536" "ms_hist st < 65536" "length (mp_MatchBuffer (ms_mppc st)) = 32768"
    and "no_match (stepped src st) (unat (mp_MatchBuffer (ms_mppc st) ! index_at src (ms_src st))) (ms_hist st + 1)
        (src ! ms_src st) (src ! (ms_src st + 1)) (src ! (ms_src st + 2)) = Some none"
  shows "mppc_compress_step src e D st =
      (if none then put_literal D (src ! ms_src st) (st\<lparr>ms_mppc := stepped src st, ms_src := ms_src st + 1, ms_hist := ms_hist st + 1\<rparr>)
       else put_match src e D (unat (mp_MatchBuffer (ms_mppc st) ! index_at src (ms_src st))) (src ! (ms_src st + 1)) (src ! (ms_src st + 2))
         (st\<lparr>ms_mppc := stepped src st, ms_src := ms_src st + 1, ms_hist := ms_hist st + 1\<rparr>))"
  using assms match_index_less
  by (cases "unat (mp_MatchBuffer (ms_mppc st) ! index_at src (ms_src st)) = ms_hist st")
    (simp_all add: mppc_compress_step_def Let_def arr_get_def arr_set_def stepped_def index_at_def del: of_nat_Suc)

lemma step_literal:
  assumes P: "packing level src S c ys st" and c: "0 < c" "c < 2 ^ 20" and i: "ms_src st < length src" "snd S + length src + 4 \<le> offset_limit level"
    and m: "sized level m" "table_ok level (ms_hist st + 1) m" "mp_HistoryBuffer m = (mp_HistoryBuffer (ms_mppc st))[ms_hist st := src ! ms_src st]"
  shows "\<exists>full st'. put_literal (of_nat c) (src ! ms_src st) (st\<lparr>ms_mppc := m, ms_src := ms_src st + 1, ms_hist := ms_hist st + 1\<rparr>) = Some (full, st') \<and>
     ms_src st < ms_src st' \<and> outcome level src S c full st'"
proof (cases "dst_full (ms_bs st) 2 (of_nat c)")
  case True
  then show ?thesis using m(1) 
    by (intro exI [of _ True] exI [of _ "st\<lparr>ms_mppc := m, ms_src := ms_src st + 1, ms_hist := ms_hist st + 1\<rparr>"])
      (simp add: put_literal_def outcome_def)
next
  case False
  define st2 where "st2 bs = \<lparr>ms_mppc = m, ms_bs = bs, ms_src = ms_src st + 1, ms_hist = ms_hist st + 1\<rparr>" for bs
  obtain bs where bs: "write_literal (src ! ms_src st) (ms_bs st) = Some bs" "packing level src S c (ys @ [Lit (src ! ms_src st)]) (st2 bs)"
    using literal_packed [OF P c False i m] unfolding st2_def by auto
  have "put_literal (of_nat c) (src ! ms_src st) (st\<lparr>ms_mppc := m, ms_src := ms_src st + 1, ms_hist := ms_hist st + 1\<rparr>) = Some (False, st2 bs)"
    using False bs(1) by (cases st) (simp add: put_literal_def st2_def)
  moreover have "outcome level src S c False (st2 bs)" using bs(2) by (auto simp: outcome_def)
  moreover have "ms_src st < ms_src (st2 bs)" by (simp add: st2_def)
  ultimately show ?thesis by blast
qed

lemma step_match:
  assumes P: "packing level src S c ys st" and c: "0 < c" "c < 2 ^ 20"
    and m: "sized level m" "table_ok level (ms_hist st + 1) m"
    and f: "found level src (mp_HistoryBuffer (ms_mppc st)) (ms_hist st) (ms_src st) match st1"
    and st1: "st1 = st\<lparr>ms_mppc := m, ms_src := ms_src st + 1, ms_hist := ms_hist st + 1\<rparr>"
  shows "\<exists>full st'. put_match src (int (length src) - 1) (of_nat c) match (src ! (ms_src st + 1)) (src ! (ms_src st + 2)) st1 = Some (full, st') \<and>
     ms_src st < ms_src st' \<and> outcome level src S c full st'"
proof -
  let ?i = "ms_src st" and ?h = "ms_hist st" and ?H = "mp_HistoryBuffer (ms_mppc st)"
  have w: "writing c (symbols_bits level ys) (ms_bs st1)" "length (symbols_bits level ys) \<le> 8 * c"
    using P by (simp_all add: packing_def st1)
  obtain full st' H' y where r: "put_match src (int (length src) - 1) (of_nat c) match (src ! (?i + 1)) (src ! (?i + 2)) st1 = Some (full, st')"
      "ms_mppc st' = (ms_mppc st1)\<lparr>mp_HistoryBuffer := H'\<rparr>" "?i < ms_src st'" "ms_src st' \<le> length src" "ms_hist st' = ?h + (ms_src st' - ?i)"
      "replay level (offset_limit level) y (?H, ?h) = Some (H', ms_hist st')" "\<forall>j < ms_src st' - ?i. H' ! (?h + j) = src ! (?i + j)"
      "\<not> full \<longrightarrow> writing c (symbols_bits level ys @ symbol_bits level y) (ms_bs st') \<and> length (symbols_bits level ys @ symbol_bits level y) \<le> 8 * c"
    using put_match_ok [OF f w c] by blast
  have "sized level (ms_mppc st')" using r(2) m(1) by (simp add: st1 sized_def)
  moreover have "table_ok level (ms_hist st') (ms_mppc st')" using r(2,3,5) m(2) by (fastforce simp: st1 table_ok_def)
  ultimately have "outcome level src S c full st'"
    using packing_step [OF P, of y st'] r by (auto simp: outcome_def)
  then show ?thesis using r(1,3) by auto
qed

lemma step_ok:
  assumes P: "packing level src S c ys st" and i: "ms_src st + 3 < length src" "snd S + length src + 4 \<le> offset_limit level"
    and c: "0 < c" "c < 2 ^ 20"
  shows "\<exists>full st'. mppc_compress_step src (int (length src) - 1) (of_nat c) st = Some (full, st') \<and> ms_src st < ms_src st' \<and>
     outcome level src S c full st'"
proof -
  let ?i = "ms_src st" and ?h = "ms_hist st" and ?H = "mp_HistoryBuffer (ms_mppc st)" and ?M = "mp_MatchBuffer (ms_mppc st)"
  define m where "m = stepped src st"
  define match where "match = unat (?M ! index_at src ?i)"
  have p: "sized level (ms_mppc st)" "length ?H = 65536" "table_ok level ?h (ms_mppc st)" "?h = snd S + ?i"
    using P unfolding packing_def by blast+
  have W: "offset_limit level \<le> 65536" by (rule offset_limit_range)
  have h: "?h + 7 \<le> offset_limit level" "?h + (length src - ?i) + 4 \<le> offset_limit level" using i p(4) by simp_all
  have x: "index_at src ?i < 32768" unfolding index_at_def by (rule match_index_less)
  have M: "length ?M = 32768" "match + 4 \<le> offset_limit level" using p(3) x by (auto simp: table_ok_def match_def)
  have mf: "sized level m" "table_ok level (?h + 1) m" "mp_HistoryBuffer m = ?H[?h := src ! ?i]" "mp_HistoryPtr m = max (mp_HistoryPtr (ms_mppc st)) (?h + 1)"
    using p(1) stepped_ok [OF p(3)] h(1) by (simp_all add: m_def stepped_def sized_def Let_def)
  obtain none where none: "no_match m match (?h + 1) (src ! ?i) (src ! (?i + 1)) (src ! (?i + 2)) = Some none"
      "\<not> none \<longrightarrow> 0 < match \<and> match \<noteq> ?h \<and> match \<noteq> ?h + 1 \<and> match + 1 \<le> mp_HistoryPtr m \<and>
        mp_HistoryBuffer m ! (match - 1) = src ! ?i \<and> mp_HistoryBuffer m ! match = src ! (?i + 1) \<and> mp_HistoryBuffer m ! (match + 1) = src ! (?i + 2)"
    using no_match_ok [of m match "?h + 1" "src ! ?i" "src ! (?i + 1)" "src ! (?i + 2)"] mf(3) p(2) M(2) W by auto
  have E: "mppc_compress_step src (int (length src) - 1) (of_nat c) st =
      (if none then put_literal (of_nat c) (src ! ?i) (st\<lparr>ms_mppc := m, ms_src := ?i + 1, ms_hist := ?h + 1\<rparr>)
       else put_match src (int (length src) - 1) (of_nat c) match (src ! (?i + 1)) (src ! (?i + 2)) (st\<lparr>ms_mppc := m, ms_src := ?i + 1, ms_hist := ?h + 1\<rparr>))"
    unfolding m_def match_def by (rule compress_step_eq) (use i(1) p(2) h(1) W M(1) none(1) in \<open>simp_all add: m_def match_def\<close>)
  show ?thesis
  proof (cases none)
    case True
    then show ?thesis using step_literal [OF P c _ i(2) mf(1-3)] i(1) E by simp
  next
    case False
    have "mp_HistoryPtr m + 4 \<le> offset_limit level \<or> match \<le> ?h"
      using p(3) x h(1) unfolding table_ok_def mf(4) match_def by auto
    then have "found level src ?H ?h ?i match (st\<lparr>ms_mppc := m, ms_src := ?i + 1, ms_hist := ?h + 1\<rparr>)"
      using none(2) False mf p(2) i(1) h(2) M(2) by (simp add: found_def)
    then show ?thesis using step_match [OF P c mf(1,2) _ refl] E False by simp
  qed
qed

lemma compress_loop_ok:
  assumes "packing level src S c ys st" "snd S + length src + 4 \<le> offset_limit level" "0 < c" "c < 2 ^ 20"
  shows "\<exists>full st'. mppc_compress_loop src (int (length src) - 1) (of_nat c) st = Some (full, st') \<and> outcome level src S c full st'"
  using assms
proof (induction "length src - ms_src st" arbitrary: st ys rule: less_induct)
  case less
  show ?case
  proof (cases "ms_src st + 3 < length src")
    case False
    then have "mppc_compress_loop src (int (length src) - 1) (of_nat c) st = Some (False, st)"
      by (subst mppc_compress_loop.simps) simp
    then show ?thesis using less.prems(1) by (auto simp: outcome_def)
  next
    case True
    obtain full st' where s: "mppc_compress_step src (int (length src) - 1) (of_nat c) st = Some (full, st')" "ms_src st < ms_src st'"
        "outcome level src S c full st'"
      using step_ok [OF less.prems(1) True less.prems(2-4)] by blast
    have e: "mppc_compress_loop src (int (length src) - 1) (of_nat c) st =
        (if full then Some (True, st') else mppc_compress_loop src (int (length src) - 1) (of_nat c) st')"
      using True s(1) by (subst mppc_compress_loop.simps) simp
    show ?thesis
    proof (cases full)
      case False
      then obtain ys' where "packing level src S c ys' st'" using s(3) by (auto simp: outcome_def)
      moreover have "length src - ms_src st' < length src - ms_src st" using s(2) True by linarith
      ultimately show ?thesis using e False less.hyps [of st' ys'] less.prems(2-4) by simp
    qed (use e s(3) in auto)
  qed
qed

lemma trailing_loop_ok:
  assumes "packing level src S c ys st" "snd S + length src + 4 \<le> offset_limit level" "0 < c" "c < 2 ^ 20"
  shows "\<exists>full st'. mppc_trailing_loop src (int (length src) - 1) (of_nat c) st = Some (full, st') \<and> outcome level src S c full st' \<and>
     (\<not> full \<longrightarrow> ms_src st' = length src)"
  using assms
proof (induction "length src - ms_src st" arbitrary: st ys)
  case 0
  then have "ms_src st = length src" by (simp add: packing_def)
  moreover from this have "mppc_trailing_loop src (int (length src) - 1) (of_nat c) st = Some (False, st)"
    by (subst mppc_trailing_loop.simps) simp
  ultimately show ?case using 0 by (auto simp: outcome_def)
next
  case (Suc x)
  have i: "ms_src st < length src" using Suc.hyps(2) by linarith
  show ?case
  proof (cases "dst_full (ms_bs st) 2 (of_nat c)")
    case True
    then have "mppc_trailing_loop src (int (length src) - 1) (of_nat c) st = Some (True, st)"
      using i by (subst mppc_trailing_loop.simps) simp
    then show ?thesis using Suc.prems(1) by (auto simp: outcome_def packing_def)
  next
    case False
    define m where "m = (ms_mppc st)\<lparr>mp_HistoryBuffer := (mp_HistoryBuffer (ms_mppc st))[ms_hist st := src ! ms_src st]\<rparr>"
    have p: "sized level (ms_mppc st)" "table_ok level (ms_hist st) (ms_mppc st)" "length (mp_HistoryBuffer (ms_mppc st)) = 65536" "ms_hist st = snd S + ms_src st"
      using Suc.prems(1) unfolding packing_def by blast+
    have h: "ms_hist st < 65536" using p(4) i Suc.prems(2) offset_limit_range(2) [of level] by linarith
    have mf: "sized level m" "table_ok level (ms_hist st + 1) m" "mp_HistoryBuffer m = (mp_HistoryBuffer (ms_mppc st))[ms_hist st := src ! ms_src st]"
      using p(1,2) by (fastforce simp: m_def sized_def table_ok_def)+
    obtain bs where bs: "write_literal (src ! ms_src st) (ms_bs st) = Some bs"
        "packing level src S c (ys @ [Lit (src ! ms_src st)]) \<lparr>ms_mppc = m, ms_bs = bs, ms_src = ms_src st + 1, ms_hist = ms_hist st + 1\<rparr>"
      using literal_packed [OF Suc.prems(1,3,4) False i Suc.prems(2) mf] by blast
    have "mppc_trailing_loop src (int (length src) - 1) (of_nat c) st =
        mppc_trailing_loop src (int (length src) - 1) (of_nat c) \<lparr>ms_mppc = m, ms_bs = bs, ms_src = ms_src st + 1, ms_hist = ms_hist st + 1\<rparr>"
      using i False bs(1) p(3) h by (cases st) (subst mppc_trailing_loop.simps, simp add: arr_get_def arr_set_def m_def)
    then show ?thesis using Suc.hyps(1) [OF _ bs(2) Suc.prems(2-4)] Suc.hyps(2) by simp
  qed
qed

section \<open>A packet\<close>

text \<open>
  The contexts of the two sides between packets: the same history, with zeros behind the window, and the same position,
  unless the compressor has flushed its context.
\<close>

definition flushed :: "u32 \<Rightarrow> MPPC_CONTEXT \<Rightarrow> bool" where
  "flushed level c \<longleftrightarrow> mp_HistoryOffset c = of_nat (offset_limit level) + 1 \<and> mp_HistoryBuffer c = replicate 65536 0 \<and> mp_MatchBuffer c = replicate 32768 0"

definition synced :: "u32 \<Rightarrow> MPPC_CONTEXT \<Rightarrow> MPPC_CONTEXT \<Rightarrow> bool" where
  "synced level c d \<longleftrightarrow> sized level c \<and> sized level d \<and> length (mp_HistoryBuffer c) = 65536 \<and> mp_HistoryBuffer d = mp_HistoryBuffer c \<and>
     (\<forall>k. offset_limit level \<le> k \<and> k < 65536 \<longrightarrow> mp_HistoryBuffer c ! k = 0) \<and>
     (flushed level c \<or> mp_HistoryOffset c = of_nat (mp_HistoryPtr c) \<and> mp_HistoryPtr c + 4 \<le> offset_limit level \<and>
        mp_HistoryPtr d = mp_HistoryPtr c \<and> table_ok level (mp_HistoryPtr c) c)"

definition coded_flags :: "u32 \<Rightarrow> bool \<Rightarrow> bool \<Rightarrow> u32" where
  "coded_flags level a f = PACKET_COMPRESSED OR level OR (if a then PACKET_AT_FRONT else 0) OR (if f then PACKET_FLUSHED else 0)"

lemma flags_tests:
  assumes "level = 0 \<or> level = 1"
  shows "coded_flags level a f AND PACKET_AT_FRONT \<noteq> 0 \<longleftrightarrow> a" "coded_flags level a f AND PACKET_FLUSHED \<noteq> 0 \<longleftrightarrow> f"
    "coded_flags level a f AND PACKET_COMPRESSED \<noteq> 0"
    "coded_flags level a f AND 0xE0 \<noteq> 0" "coded_flags level a f AND 0x0F = level" "(PACKET_FLUSHED OR level) AND 0xE0 \<noteq> 0" "(PACKET_FLUSHED OR level) AND 0x0F = level"
    "(PACKET_FLUSHED OR level) AND PACKET_AT_FRONT = 0" "(PACKET_FLUSHED OR level) AND PACKET_FLUSHED \<noteq> 0" "(PACKET_FLUSHED OR level) AND PACKET_COMPRESSED = 0"
  using assms by (cases a; cases f; auto simp: coded_flags_def PACKET_COMPRESSED_def PACKET_AT_FRONT_def PACKET_FLUSHED_def)+

lemma clear_window:
  assumes "length H = 65536" "\<forall>k. offset_limit level \<le> k \<and> k < 65536 \<longrightarrow> H ! k = 0"
  shows "mem_write H 0 (replicate (unat (of_nat (offset_limit level) :: u32)) 0) = Some (replicate 65536 (0 :: byte))"
proof -
  have W: "unat (of_nat (offset_limit level) :: u32) = offset_limit level" "offset_limit level \<le> 65536"
    using offset_limit_range(2) [of level] by (simp_all add: unat_of_nat)
  have "drop (offset_limit level) H = replicate (65536 - offset_limit level) 0"
    by (rule nth_equalityI) (use assms in simp_all)
  then have "replicate (offset_limit level) 0 @ drop (offset_limit level) H = replicate 65536 0"
    using W(2) by (simp flip: replicate_add)
  then show ?thesis using assms(1) W by (simp add: mem_write_def)
qed

lemma decompress_raw:
  assumes s: "synced level c d" and l: "level = 0 \<or> level = 1" and n: "length src < 2 ^ 20"
  shows "\<exists>d'. mppc_decompress src (of_nat (length src)) (PACKET_FLUSHED OR level) d = Some (1, d', Some src) \<and> sized level d' \<and>
     mp_HistoryBuffer d' = replicate 65536 0"
proof -
  obtain b1 b2 where b: "BitStream_Attach src (of_nat (length src)) (mp_bs d) = Some b1" "BitStream_Fetch b1 = Some b2"
    using attach_fetch [of src "mp_bs d"] n by auto
  have "mem_write (mp_HistoryBuffer d) 0 (replicate (unat (mp_HistoryBufferSize d)) 0) = Some (replicate 65536 0)"
    using clear_window [of "mp_HistoryBuffer c" level] s by (simp add: synced_def sized_def)
  moreover have "sized level d" using s by (simp add: synced_def)
  ultimately show ?thesis using b flags_tests(8-10) [OF l] n
    by (simp add: mppc_decompress_def Let_def unat_of_nat sized_def)
qed

lemma decompress_coded:
  assumes s: "sized level d" "length (mp_HistoryBuffer d) = 65536" and l: "level = 0 \<or> level = 1"
    and f: "f \<longrightarrow> a \<and> mp_HistoryBuffer d = replicate 65536 0" and h0: "h0 = (if a then 0 else mp_HistoryPtr d)"
    and r: "replays level (offset_limit level) ys (mp_HistoryBuffer d, h0) = Some (H', h')"
    and b: "length blk < 2 ^ 20" "bits_at blk 0 (symbols_bits level ys)" "8 * length blk < length (symbols_bits level ys) + 8"
  shows "\<exists>d'. mppc_decompress blk (of_nat (length blk)) (coded_flags level a f) d = Some (1, d', Some (take (h' - h0) (drop h0 H'))) \<and>
     sized level d' \<and> mp_HistoryBuffer d' = H' \<and> mp_HistoryPtr d' = h'"
proof -
  obtain b1 b2 where at: "BitStream_Attach blk (of_nat (length blk)) (mp_bs d) = Some b1" "BitStream_Fetch b1 = Some b2" "reading blk 0 b2"
    using attach_fetch [of blk "mp_bs d"] b(1) by auto
  have W: "unat (of_nat (offset_limit level) - 1 :: u32) + 1 = offset_limit level" by (simp add: offset_limit_def)
  have "length blk < 2 ^ 27" using b(1) by simp
  then obtain b3 where "mppc_decode_loop level (of_nat (offset_limit level)) (mp_HistoryBuffer d) h0 b2 = Some (1, H', h', b3)"
    using decode_symbols [OF r at(3) _ b(2) _ W] b(3) by auto
  moreover have "mem_write (replicate 65536 (0 :: byte)) 0 (replicate (unat (of_nat (offset_limit level) :: u32)) 0) = Some (replicate 65536 0)"
    by (rule clear_window) simp_all
  ultimately show ?thesis using at(1,2) flags_tests(1-3) [OF l, of a f] s f h0
    by (cases f; cases a) (simp_all add: mppc_decompress_def Let_def sized_def)
qed

text \<open>Where the compressor starts: at the front of the history, or behind the last packet.\<close>

lemma front_ok:
  fixes level :: u32 and n :: nat
  assumes s: "synced level c d" and n: "n + 4 \<le> offset_limit level"
  defines "a \<equiv> \<not> (mp_HistoryOffset c + of_nat n < of_nat (offset_limit level) - 3 \<and> mp_HistoryOffset c \<noteq> 0)"
    and "f \<equiv> mp_HistoryOffset c = of_nat (offset_limit level) + 1"
  shows "f \<Longrightarrow> a \<and> mp_HistoryBuffer c = replicate 65536 0"
    "unat (if a then 0 else mp_HistoryOffset c) = (if a then 0 else mp_HistoryPtr d)"
    "(if a then 0 else mp_HistoryPtr d) + n + 4 \<le> offset_limit level"
    "table_ok level (if a then 0 else mp_HistoryPtr d) c"
proof -
  let ?W = "offset_limit level"
  have W: "8192 \<le> ?W" "?W \<le> 65536" by (rule offset_limit_range)+
  have u: "unat (of_nat ?W - 3 :: u32) = ?W - 3" "unat (of_nat ?W + 1 :: u32) = ?W + 1"
    using W by (simp_all add: unat_sub word_le_nat_alt unat_of_nat unat_word_ariths)
  have o: "unat (mp_HistoryOffset c) \<le> ?W + 1"
    using s W u(2) by (auto simp: synced_def flushed_def unat_of_nat)
  then have lt: "mp_HistoryOffset c + of_nat n < of_nat ?W - 3 \<longleftrightarrow> unat (mp_HistoryOffset c) + n < ?W - 3"
    using n W u(1) by (simp add: word_less_nat_alt unat_word_ariths unat_of_nat)
  have "(f \<longrightarrow> a \<and> mp_HistoryBuffer c = replicate 65536 0) \<and> unat (if a then 0 else mp_HistoryOffset c) = (if a then 0 else mp_HistoryPtr d) \<and>
      (if a then 0 else mp_HistoryPtr d) + n + 4 \<le> ?W \<and> table_ok level (if a then 0 else mp_HistoryPtr d) c"
  proof (cases "flushed level c")
    case True
    then have "a" using lt u(2) by (auto simp: a_def flushed_def)
    then show ?thesis using True n W by (auto simp: flushed_def table_ok_def)
  next
    case False
    then have p: "mp_HistoryOffset c = of_nat (mp_HistoryPtr c)" "mp_HistoryPtr c + 4 \<le> ?W" "mp_HistoryPtr d = mp_HistoryPtr c"
        "table_ok level (mp_HistoryPtr c) c"
      using s unfolding synced_def by blast+
    then have up: "unat (mp_HistoryOffset c) = mp_HistoryPtr c" using W by (simp add: unat_of_nat)
    then have "\<not> f" using u(2) p(2) by (auto simp: f_def)
    moreover have "mp_HistoryPtr c + n + 4 \<le> ?W" if "\<not> a" using that lt up by (auto simp: a_def)
    moreover have "table_ok level h c" for h using p(2,4) by (auto simp: table_ok_def)
    ultimately show ?thesis using n p(3) up by auto
  qed
  then show "f \<Longrightarrow> a \<and> mp_HistoryBuffer c = replicate 65536 0"
    "unat (if a then 0 else mp_HistoryOffset c) = (if a then 0 else mp_HistoryPtr d)"
    "(if a then 0 else mp_HistoryPtr d) + n + 4 \<le> offset_limit level"
    "table_ok level (if a then 0 else mp_HistoryPtr d) c" by blast+
qed

text \<open>The block that is sent when the symbols are written.\<close>

lemma sealed_block:
  assumes w: "writing c B bs" and c: "c < 2 ^ 20" "length B \<le> 8 * c"
  shows "\<exists>buf blk. BitStream_Flush bs = Some (bs\<lparr>bs_buffer := buf\<rparr>) \<and>
     blk = take (unat (word_of_int ((bs_position bs + 7) div 8) :: u32)) buf \<and> word_of_int ((bs_position bs + 7) div 8) = (of_nat (length blk) :: u32) \<and>
     length blk < 2 ^ 20 \<and> bits_at blk 0 B \<and> 8 * length blk < length B + 8"
proof -
  define k where "k = (length B + 7) div 8"
  have "bs_position bs = int (length B)" using w by (simp add: writing_def)
  then have "(bs_position bs + 7) div 8 = int k" by (simp add: k_def zdiv_int)
  then have k: "word_of_int ((bs_position bs + 7) div 8) = (of_nat k :: u32)" by simp
  have b: "k \<le> c" "length B \<le> 8 * k" "8 * k < length B + 8" using c(2) unfolding k_def by linarith+
  then have uk: "unat (of_nat k :: u32) = k" using c(1) by (simp add: unat_of_nat)
  obtain buf where buf: "BitStream_Flush bs = Some (bs\<lparr>bs_buffer := buf\<rparr>)" "length buf = length (bs_buffer bs)"
      "\<forall>j < length B. j < 8 * c \<longrightarrow> (sbit buf j \<longleftrightarrow> B ! j)"
    using flush_writing [OF w] c by auto
  have "c \<le> length buf" using w buf(2) by (simp add: writing_def)
  then have len: "length (take k buf) = k" using b(1) by simp
  have "sbit (take k buf) j \<longleftrightarrow> B ! j" if "j < length B" for j
  proof -
    have "j div 8 < k" using that b(2) by linarith
    moreover from this have "j div 8 < length buf" using len by simp
    ultimately show ?thesis using buf(3) that c(2) by (auto simp: sbit_def)
  qed
  then have "bits_at (take k buf) 0 B" using b(2) len by (simp add: bits_at_def)
  then show ?thesis using buf(1) b len c(1) unfolding k uk by (intro exI [of _ buf] exI [of _ "take k buf"]) simp
qed

lemma replays_frame:
  assumes "replays level win ys (H, h) = Some (H', h')" "win \<le> k"
  shows "length H' = length H" "H' ! k = H ! k"
proof -
  have "length H' = length H \<and> H' ! k = H ! k"
    using assms(1)
  proof (induction ys arbitrary: H h)
    case (Cons y ys)
    then obtain H1 h1 where r: "replay level win y (H, h) = Some (H1, h1)" "replays level win ys (H1, h1) = Some (H', h')"
      by (auto simp: bind_eq_Some_conv)
    have "h1 \<le> win" using r(1) by (cases y) (auto simp: bind_eq_Some_conv split: if_splits)
    then show ?case using Cons.IH [OF r(2)] replay_frame(1) [OF r(1)] replay_frame(2) [OF r(1), of k] assms(2) by simp
  qed simp
  then show "length H' = length H" "H' ! k = H ! k" by simp_all
qed

text \<open>What the compressor returns: the packet as it is, or coded.\<close>

definition sent_raw :: "u32 \<Rightarrow> byte list \<Rightarrow> MPPC_CONTEXT \<Rightarrow> mppc_packet \<Rightarrow> bool" where
  "sent_raw level src c' pk \<longleftrightarrow> sized level c' \<and> flushed level c' \<and>
     pk = \<lparr>pk_data = src, pk_size = of_nat (length src), pk_flags = PACKET_FLUSHED OR level\<rparr>"

definition sent_coded :: "u32 \<Rightarrow> byte list \<Rightarrow> MPPC_CONTEXT \<Rightarrow> MPPC_CONTEXT \<Rightarrow> nat \<Rightarrow> mppc_packet \<Rightarrow> bool" where
  "sent_coded level src c c' p pk \<longleftrightarrow> (\<exists>a f h0 ys blk.
     (f \<longrightarrow> a \<and> mp_HistoryBuffer c = replicate 65536 0) \<and> h0 = (if a then 0 else p) \<and> h0 + length src + 4 \<le> offset_limit level \<and>
     sized level c' \<and> mp_HistoryPtr c' = h0 + length src \<and> mp_HistoryOffset c' = of_nat (mp_HistoryPtr c') \<and> table_ok level (mp_HistoryPtr c') c' \<and>
     replays level (offset_limit level) ys (mp_HistoryBuffer c, h0) = Some (mp_HistoryBuffer c', h0 + length src) \<and>
     take (length src) (drop h0 (mp_HistoryBuffer c')) = src \<and>
     blk = take (unat (pk_size pk)) (pk_data pk) \<and> pk_size pk = of_nat (length blk) \<and> pk_flags pk = coded_flags level a f \<and>
     length blk < 2 ^ 20 \<and> bits_at blk 0 (symbols_bits level ys) \<and> 8 * length blk < length (symbols_bits level ys) + 8)"

text \<open>Both loops, one after the other.\<close>

definition both_loops :: "byte list \<Rightarrow> int \<Rightarrow> u32 \<Rightarrow> mppc_state \<Rightarrow> (bool \<times> mppc_state) option" where
  "both_loops src e D st = do {
     (full, st) \<leftarrow> mppc_compress_loop src e D st;
     if full then Some (True, st) else mppc_trailing_loop src e D st }"

lemma both_loops_ok:
  assumes p: "packing level src S c ys st" and c: "snd S + length src + 4 \<le> offset_limit level" "0 < c" "c < 2 ^ 20"
  shows "\<exists>full st'. both_loops src (int (length src) - 1) (of_nat c) st = Some (full, st') \<and> outcome level src S c full st' \<and>
     (\<not> full \<longrightarrow> ms_src st' = length src)"
proof -
  obtain full1 st1 where l: "mppc_compress_loop src (int (length src) - 1) (of_nat c) st = Some (full1, st1)" "outcome level src S c full1 st1"
    using compress_loop_ok [OF p c] by blast
  show ?thesis
  proof (cases full1)
    case False
    then obtain ys where p1: "packing level src S c ys st1" using l(2) by (auto simp: outcome_def)
    show ?thesis using trailing_loop_ok [OF p1 c] False l(1) by (simp add: both_loops_def)
  qed (use l in \<open>auto simp: both_loops_def\<close>)
qed

text \<open>The results of \<^verbatim>\<open>mppc_compress\<close> for the state after the loops.\<close>

definition sealed :: "u32 \<Rightarrow> byte list \<Rightarrow> bool \<Rightarrow> bool \<Rightarrow> bool \<times> mppc_state \<Rightarrow> (int \<times> MPPC_CONTEXT \<times> mppc_packet option) option" where
  "sealed level src a f = (\<lambda>(full, st).
     if full then Some (1, (mppc_context_reset True (ms_mppc st))\<lparr>mp_bs := ms_bs st\<rparr>,
         Some \<lparr>pk_data = src, pk_size = of_nat (length src), pk_flags = PACKET_FLUSHED OR level\<rparr>)
     else do {
       bs \<leftarrow> BitStream_Flush (ms_bs st);
       Some (1, (ms_mppc st)\<lparr>mp_bs := bs, mp_HistoryPtr := ms_hist st, mp_HistoryOffset := of_nat (ms_hist st)\<rparr>,
         Some \<lparr>pk_data = bs_buffer bs, pk_size = word_of_int ((bs_position bs + 7) div 8), pk_flags = coded_flags level a f\<rparr>) })"

lemma sealed_raw:
  assumes "outcome level src S k True st"
  shows "\<exists>c' pk. sealed level src a f (True, st) = Some (1, c', Some pk) \<and> sent_raw level src c' pk"
  using assms by (simp add: sealed_def outcome_def sent_raw_def sized_def flushed_def mppc_context_reset_def Let_def)

lemma sealed_coded:
  assumes P: "packing level src (mp_HistoryBuffer c, h0) k ys st" "ms_src st = length src" and k: "k < 2 ^ 20"
    and f: "f \<longrightarrow> a \<and> mp_HistoryBuffer c = replicate 65536 0" "h0 = (if a then 0 else p)" "h0 + length src + 4 \<le> offset_limit level"
  shows "\<exists>c' pk. sealed level src a f (False, st) = Some (1, c', Some pk) \<and> sent_coded level src c c' p pk"
proof -
  have w: "writing k (symbols_bits level ys) (ms_bs st)" "length (symbols_bits level ys) \<le> 8 * k" using P by (simp_all add: packing_def)
  obtain buf blk where b: "BitStream_Flush (ms_bs st) = Some ((ms_bs st)\<lparr>bs_buffer := buf\<rparr>)"
      "blk = take (unat (word_of_int ((bs_position (ms_bs st) + 7) div 8) :: u32)) buf"
      "word_of_int ((bs_position (ms_bs st) + 7) div 8) = (of_nat (length blk) :: u32)"
      "length blk < 2 ^ 20" "bits_at blk 0 (symbols_bits level ys)" "8 * length blk < length (symbols_bits level ys) + 8"
    using sealed_block [OF w(1) k w(2)] by blast
  have "take (length src) (drop h0 (mp_HistoryBuffer (ms_mppc st))) = src"
    by (rule nth_equalityI) (use P f(3) offset_limit_range(2) [of level] in \<open>auto simp: packing_def\<close>)
  then have "sent_coded level src c ((ms_mppc st)\<lparr>mp_bs := (ms_bs st)\<lparr>bs_buffer := buf\<rparr>, mp_HistoryPtr := ms_hist st, mp_HistoryOffset := of_nat (ms_hist st)\<rparr>)
      p \<lparr>pk_data = buf, pk_size = word_of_int ((bs_position (ms_bs st) + 7) div 8), pk_flags = coded_flags level a f\<rparr>"
    unfolding sent_coded_def using P f b(2-6)
    by (intro exI [of _ a] exI [of _ f] exI [of _ h0] exI [of _ ys] exI [of _ blk]) (auto simp: packing_def sized_def table_ok_def)
  then show ?thesis using b(1) by (auto simp: sealed_def)
qed

lemma compress_ok:
  assumes s: "synced level c d" and src: "src \<noteq> []" "length src + 4 \<le> offset_limit level"
    and dst: "0 < cap" "min (unat cap) (length src) \<le> length dst"
  shows "\<exists>c' pk. mppc_compress src (of_nat (length src)) (Some dst) cap c = Some (1, c', Some pk) \<and>
     (sent_raw level src c' pk \<or> sent_coded level src c c' (mp_HistoryPtr d) pk)"
proof -
  let ?n = "length src" and ?W = "offset_limit level"
  define a where "a \<longleftrightarrow> \<not> (mp_HistoryOffset c + of_nat ?n < of_nat ?W - 3 \<and> mp_HistoryOffset c \<noteq> 0)"
  define f where "f \<longleftrightarrow> mp_HistoryOffset c = of_nat ?W + 1"
  define h0 where "h0 = (if a then 0 else mp_HistoryPtr d)"
  note fr = front_ok [OF s src(2), folded a_def f_def, folded h0_def]
  have W: "?W \<le> 65536" by (rule offset_limit_range)
  have n: "unat (of_nat ?n :: u32) = ?n" "uint (of_nat ?n - 1 :: u32) = int ?n - 1" "0 < ?n"
    using src W by (simp_all add: unat_of_nat uint_nat unat_sub word_le_nat_alt Suc_le_eq)
  define k where "k = min (unat cap) ?n"
  have k: "0 < k" "k < 2 ^ 20" "k \<le> length dst" using dst n(3) src(2) W by (auto simp: k_def word_gt_0 unat_gt_0)
  have K: "(if cap > of_nat ?n then of_nat ?n else cap) = (of_nat k :: u32)"
    using n(1) by (auto simp: k_def word_less_nat_alt min_def)
  have sz: "sized level c" "length (mp_HistoryBuffer c) = 65536" using s by (simp_all add: synced_def)
  obtain bs where bs: "BitStream_Attach dst (of_nat k) (mp_bs c) = Some bs" "writing k [] bs"
    using attach_writing [of k dst "mp_bs c"] k by auto
  define st0 where "st0 = \<lparr>ms_mppc = c, ms_bs = bs, ms_src = 0, ms_hist = h0\<rparr>"
  have "packing level src (mp_HistoryBuffer c, h0) k [] st0" using sz fr(4) bs(2) by (simp add: packing_def st0_def)
  then obtain full st where l: "both_loops src (int ?n - 1) (of_nat k) st0 = Some (full, st)" "outcome level src (mp_HistoryBuffer c, h0) k full st"
      "\<not> full \<longrightarrow> ms_src st = ?n"
    using both_loops_ok [of level src "(mp_HistoryBuffer c, h0)" k "[]" st0] fr(3) k by auto
  have lv: "mp_CompressionLevel c = level" "mp_HistoryBufferSize c = of_nat ?W" using sz by (simp_all add: sized_def)
  have "mppc_compress src (of_nat ?n) (Some dst) cap c = both_loops src (int ?n - 1) (of_nat k) st0 \<bind> sealed level src a (a \<and> f)"
    unfolding mppc_compress_def Let_def lv option.case a_def [symmetric] f_def [symmetric] fr(2) K n(2) bs(1)
      sealed_def coded_flags_def both_loops_def st0_def
    by (simp add: bind_assoc case_prod_beta')
  then have E: "mppc_compress src (of_nat ?n) (Some dst) cap c = sealed level src a (a \<and> f) (full, st)" using l(1) by simp
  show ?thesis
  proof (cases full)
    case True
    then show ?thesis using sealed_raw [of level src "(mp_HistoryBuffer c, h0)" k st a "a \<and> f"] l(2) E by auto
  next
    case False
    then obtain ys where P: "packing level src (mp_HistoryBuffer c, h0) k ys st" "ms_src st = ?n" using l(2,3) by (auto simp: outcome_def)
    then show ?thesis using sealed_coded [OF P k(2), of "a \<and> f" a "mp_HistoryPtr d"] fr(1,3) E False by (auto simp: h0_def)
  qed
qed

lemma packet_ok:
  assumes s: "synced level c d" and l: "level = 0 \<or> level = 1" and src: "src \<noteq> []" "length src + 4 \<le> offset_limit level"
    and dst: "0 < cap" "min (unat cap) (length src) \<le> length dst"
  shows "\<exists>c' pk d'. mppc_compress src (of_nat (length src)) (Some dst) cap c = Some (1, c', Some pk) \<and>
     mppc_decompress (take (unat (pk_size pk)) (pk_data pk)) (pk_size pk) (pk_flags pk) d = Some (1, d', Some src) \<and> synced level c' d' \<and>
     pk_flags pk AND 0xE0 \<noteq> 0 \<and> pk_flags pk AND 0x0F = level"
proof -
  have W: "offset_limit level \<le> 65536" by (rule offset_limit_range)
  obtain c' pk where c: "mppc_compress src (of_nat (length src)) (Some dst) cap c = Some (1, c', Some pk)"
      "sent_raw level src c' pk \<or> sent_coded level src c c' (mp_HistoryPtr d) pk"
    using compress_ok [OF s src dst] by blast
  from c(2) show ?thesis
  proof
    assume r: "sent_raw level src c' pk"
    have n: "length src < 2 ^ 20" "unat (of_nat (length src) :: u32) = length src" using src(2) W by (simp_all add: unat_of_nat)
    obtain d' where d': "mppc_decompress src (of_nat (length src)) (PACKET_FLUSHED OR level) d = Some (1, d', Some src)" "sized level d'"
        "mp_HistoryBuffer d' = replicate 65536 0"
      using decompress_raw [OF s l n(1)] by blast
    have "mp_HistoryBuffer c' = replicate 65536 0" using r by (simp only: sent_raw_def flushed_def)
    then have "synced level c' d'" using r d'(2,3) by (simp add: sent_raw_def synced_def)
    moreover have "take (unat (pk_size pk)) (pk_data pk) = src" "pk_size pk = of_nat (length src)" "pk_flags pk = PACKET_FLUSHED OR level"
      using r n(2) by (simp_all add: sent_raw_def)
    ultimately show ?thesis using c(1) d'(1) flags_tests(6,7) [OF l] by metis
  next
    assume "sent_coded level src c c' (mp_HistoryPtr d) pk"
    then obtain a f h0 ys blk where k: "f \<longrightarrow> a \<and> mp_HistoryBuffer c = replicate 65536 0" "h0 = (if a then 0 else mp_HistoryPtr d)"
        "h0 + length src + 4 \<le> offset_limit level" "sized level c'" "mp_HistoryPtr c' = h0 + length src" "mp_HistoryOffset c' = of_nat (mp_HistoryPtr c')"
        "table_ok level (mp_HistoryPtr c') c'" "replays level (offset_limit level) ys (mp_HistoryBuffer c, h0) = Some (mp_HistoryBuffer c', h0 + length src)"
        "take (length src) (drop h0 (mp_HistoryBuffer c')) = src" "blk = take (unat (pk_size pk)) (pk_data pk)" "pk_size pk = of_nat (length blk)"
        "pk_flags pk = coded_flags level a f" "length blk < 2 ^ 20" "bits_at blk 0 (symbols_bits level ys)" "8 * length blk < length (symbols_bits level ys) + 8"
      unfolding sent_coded_def by blast
    have d: "sized level d" "length (mp_HistoryBuffer c) = 65536" "mp_HistoryBuffer d = mp_HistoryBuffer c"
        "\<forall>k. offset_limit level \<le> k \<and> k < 65536 \<longrightarrow> mp_HistoryBuffer c ! k = 0"
      using s unfolding synced_def by blast+
    obtain d' where d': "mppc_decompress blk (of_nat (length blk)) (coded_flags level a f) d =
          Some (1, d', Some (take (h0 + length src - h0) (drop h0 (mp_HistoryBuffer c'))))"
        "sized level d'" "mp_HistoryBuffer d' = mp_HistoryBuffer c'" "mp_HistoryPtr d' = h0 + length src"
      using decompress_coded [of level d f a h0 ys "mp_HistoryBuffer c'" "h0 + length src" blk] d l k(1,2,8,13-15) by auto
    have "synced level c' d'"
      using k(3-7) d d'(2-4) replays_frame [OF k(8)] by (auto simp: synced_def)
    moreover have "take (h0 + length src - h0) (drop h0 (mp_HistoryBuffer c')) = src" using k(9) by simp
    then have "mppc_decompress (take (unat (pk_size pk)) (pk_data pk)) (pk_size pk) (pk_flags pk) d = Some (1, d', Some src)"
      using d'(1) by (simp only: k(12) flip: k(10,11))
    ultimately show ?thesis using c(1) flags_tests(4,5) [OF l, of a f] k(12) by auto
  qed
qed

section \<open>Sequences of packets\<close>

text \<open>
  A sequence of packets, each with the block that is given for its compressed form and the size said of it. Every packet is
  compressed, and what would be sent of it is decompressed.
\<close>

type_synonym packet = "byte list \<times> byte list \<times> u32"

fun transfer :: "MPPC_CONTEXT \<Rightarrow> MPPC_CONTEXT \<Rightarrow> packet list \<Rightarrow> (int \<times> byte list option) list option" where
  "transfer c d [] = Some []"
| "transfer c d ((src, dst, cap) # ps) = do {
     (_, c, pk) \<leftarrow> mppc_compress src (of_nat (length src)) (Some dst) cap c;
     pk \<leftarrow> pk;
     (status, d, out) \<leftarrow> mppc_decompress (take (unat (pk_size pk)) (pk_data pk)) (pk_size pk) (pk_flags pk) d;
     rs \<leftarrow> transfer c d ps;
     Some ((status, out) # rs) }"

text \<open>A packet is at least four bytes shorter than the window; \<open>level\<close> is the argument of \<^verbatim>\<open>mppc_context_new\<close>.\<close>

definition packet_fits :: "u32 \<Rightarrow> packet \<Rightarrow> bool" where
  "packet_fits level = (\<lambda>(src, dst, cap). src \<noteq> [] \<and> length src < (if level = 0 then 8189 else 65533) \<and> 0 < cap \<and> min (unat cap) (length src) \<le> length dst)"

lemma transfer_ok:
  assumes "synced level c d" "level = 0 \<or> level = 1" "list_all (packet_fits level) ps"
  shows "transfer c d ps = Some (map (\<lambda>(src, dst, cap). (1, Some src)) ps)"
  using assms
proof (induction ps arbitrary: c d)
  case (Cons p ps)
  obtain src dst cap where p: "p = (src, dst, cap)" by (cases p)
  have f: "src \<noteq> []" "length src + 4 \<le> offset_limit level" "0 < cap" "min (unat cap) (length src) \<le> length dst"
    using Cons.prems(3) by (auto simp: p packet_fits_def offset_limit_def split: if_splits)
  obtain c' pk d' where k: "mppc_compress src (of_nat (length src)) (Some dst) cap c = Some (1, c', Some pk)"
      "mppc_decompress (take (unat (pk_size pk)) (pk_data pk)) (pk_size pk) (pk_flags pk) d = Some (1, d', Some src)" "synced level c' d'"
    using packet_ok [OF Cons.prems(1,2) f] by blast
  show ?case using k(1,2) Cons.IH [OF k(3) Cons.prems(2)] Cons.prems(3) by (simp add: p)
qed simp

lemma new_synced:
  assumes "mppc_context_new True True level True = Some c" "mppc_context_new True True level False = Some d"
  shows "synced (if level = 0 then 0 else 1) c d"
proof -
  have "level < 1 \<longleftrightarrow> level = 0" by (simp add: word_less_nat_alt unat_eq_zero)
  then show ?thesis using assms
    by (auto simp: mppc_context_new_def BitStream_New_def mppc_context_reset_def mppc_set_compression_level_def Let_def
        synced_def sized_def offset_limit_def table_ok_def flushed_def)
qed



section \<open>Deviations\<close>

text \<open>
  A match whose source starts near the end of the history is copied from behind the end of \<^verbatim>\<open>HistoryBuffer\<close>: only the
  start of the source is reduced to the window. A packet of two bytes does it.
\<close>

lemma copy_match_overread: "length H = 65536 \<Longrightarrow> copy_match H 65535 0 3 = None"
  by (simp add: numeral_3_eq_3 arr_get_def arr_set_def)

lemma mppc_decompress_overread:
  assumes "mppc_context_new True True 1 False = Some d"
  shows "mppc_decompress [0xF8, 0x20] 2 (PACKET_COMPRESSED OR 1) d = None"
proof -
  define blk :: "byte list" where "blk = [0xF8, 0x20]"
  have d: "mp_CompressionLevel d = 1" "mp_HistoryBufferSize d = 65536" "length (mp_HistoryBuffer d) = 65536" "mp_HistoryPtr d = 0"
    using assms by (auto simp: mppc_context_new_def BitStream_New_def mppc_context_reset_def mppc_set_compression_level_def Let_def)
  obtain b1 b2 where b: "BitStream_Attach blk 2 (mp_bs d) = Some b1" "BitStream_Fetch b1 = Some b2" "reading blk 0 b2"
    using attach_fetch [of blk "mp_bs d"] by (auto simp: blk_def)
  let ?o = "the (copy_offset_code 1 1)" and ?l = "the (match_length_code 1 3)"
  have at: "bits_at blk 0 (code_bits ?o)" "bits_at blk (0 + snd ?o) (code_bits ?l)" "snd ?o = 11" unfolding blk_def by code_simp+
  have n: "length blk < 2 ^ 27" "unat (1 :: u32) < offset_limit 1" "3 \<le> unat (3 :: u32) \<and> unat (3 :: u32) < 2 ^ length_limit 1"
    by (simp_all add: blk_def offset_limit_def length_limit_def)
  note x = offs.read_back [OF n(2) b(3) at(1) n(1)]
  from x(2) obtain b3 where b3: "BitStream_Shift (snd ?o) b2 = Some b3" "reading blk (0 + snd ?o) b3" by blast
  note y = lens.read_back [OF n(3) b3(2) at(2) n(1)]
  from y(2) obtain b4 where b4: "BitStream_Shift (snd ?l) b3 = Some b4" by blast
  have "literal_of (bs_accumulator b2) = None" using x(1) by (simp add: offset_readable_def literal_of_def)
  moreover have "8 \<le> bs_length b2 - bs_position b2" using b(3) by (simp add: reading_def blk_def)
  moreover have "match_source 1 0 1 = 65535" by (simp add: match_source_def)
  ultimately have "mppc_decode_loop 1 65536 (mp_HistoryBuffer d) 0 b2 = None"
    using x(1) b3(1) y(1) b4 copy_match_overread [OF d(3)] by (subst literal_branches) (simp add: offset_readable_def)
  moreover have "(PACKET_COMPRESSED OR 1) AND PACKET_AT_FRONT = 0" "(PACKET_COMPRESSED OR 1) AND PACKET_FLUSHED = 0"
      "(PACKET_COMPRESSED OR 1) AND PACKET_COMPRESSED \<noteq> 0"
    by (simp_all add: PACKET_COMPRESSED_def PACKET_AT_FRONT_def PACKET_FLUSHED_def)
  ultimately show ?thesis using b(1,2) d by (simp add: mppc_decompress_def Let_def blk_def)
qed

end
