(* ===== verification/Bulk.thy ===== *)
theory Bulk
  imports MppcLossless
begin

unbundle bit_operations_syntax

text \<open>
  The bulk layer (\<^verbatim>\<open>core/bulk.c\<close>, and the counters of \<^verbatim>\<open>core/metrics.c\<close>), which picks a compression for the data of a
  connection. The compressions of RDP 6 and 6.1 are arguments; \<^verbatim>\<open>context->settings->CompressionLevel\<close> and
  \<^verbatim>\<open>context->metrics\<close> are fields of the bulk here. The ratios of the metrics, which only debugging output reads, are left out.
\<close>

section \<open>Model\<close>

definition PACKET_COMPR_TYPE_8K :: u32 where "PACKET_COMPR_TYPE_8K = 0"
definition PACKET_COMPR_TYPE_64K :: u32 where "PACKET_COMPR_TYPE_64K = 1"
definition PACKET_COMPR_TYPE_RDP6 :: u32 where "PACKET_COMPR_TYPE_RDP6 = 2"
definition PACKET_COMPR_TYPE_RDP61 :: u32 where "PACKET_COMPR_TYPE_RDP61 = 3"
definition BULK_COMPRESSION_FLAGS_MASK :: u32 where "BULK_COMPRESSION_FLAGS_MASK = 0xE0"
definition BULK_COMPRESSION_TYPE_MASK :: u32 where "BULK_COMPRESSION_TYPE_MASK = 0x0F"

record rdpMetrics =
  mt_TotalCompressedBytes :: "64 word"
  mt_TotalUncompressedBytes :: "64 word"

definition metrics_write_bytes :: "u32 \<Rightarrow> u32 \<Rightarrow> rdpMetrics \<Rightarrow> rdpMetrics" where
  "metrics_write_bytes UncompressedBytes CompressedBytes mt =
     mt\<lparr>mt_TotalUncompressedBytes := mt_TotalUncompressedBytes mt + ucast UncompressedBytes,
       mt_TotalCompressedBytes := mt_TotalCompressedBytes mt + ucast CompressedBytes\<rparr>"

text \<open>The contexts are null pointers when their allocation failed.\<close>

record ('n, 'x) rdpBulk =
  bk_settings :: u32
  bk_metrics :: rdpMetrics
  bk_CompressionLevel :: u32
  bk_CompressionMaxSize :: u32
  bk_mppcSend :: "MPPC_CONTEXT option"
  bk_mppcRecv :: "MPPC_CONTEXT option"
  bk_ncrushRecv :: "'n option"
  bk_ncrushSend :: "'n option"
  bk_xcrushRecv :: "'x option"
  bk_xcrushSend :: "'x option"
  bk_OutputBuffer :: "byte list"

text \<open>
  A compression of the type that is an argument. Compressing gives the status, the context, the output buffer and
  what is to be sent; decompressing the status, the context and the data.
\<close>

record 'c crush =
  cr_compress :: "byte list \<Rightarrow> u32 \<Rightarrow> byte list \<Rightarrow> u32 \<Rightarrow> 'c \<Rightarrow> (int \<times> 'c \<times> byte list \<times> mppc_packet) option"
  cr_decompress :: "byte list \<Rightarrow> u32 \<Rightarrow> u32 \<Rightarrow> 'c \<Rightarrow> (int \<times> 'c \<times> byte list option) option"
  cr_reset :: "bool \<Rightarrow> 'c \<Rightarrow> 'c"
  cr_new :: "bool \<Rightarrow> 'c option"

record ('n, 'x) bulk_env =
  be_ncrush :: "'n crush"
  be_xcrush :: "'x crush"

definition bulk_compression_level :: "('n, 'x) rdpBulk \<Rightarrow> ('n, 'x) rdpBulk" where
  "bulk_compression_level b =
     b\<lparr>bk_CompressionLevel := (if bk_settings b \<ge> PACKET_COMPR_TYPE_RDP61 then PACKET_COMPR_TYPE_RDP61 else bk_settings b)\<rparr>"

definition bulk_compression_max_size :: "('n, 'x) rdpBulk \<Rightarrow> ('n, 'x) rdpBulk" where
  "bulk_compression_max_size b =
     (let b = bulk_compression_level b in
      b\<lparr>bk_CompressionMaxSize := (if bk_CompressionLevel b < PACKET_COMPR_TYPE_64K then 8192 else 65536)\<rparr>)"

definition decompress_mppc :: "u32 \<Rightarrow> byte list \<Rightarrow> u32 \<Rightarrow> u32 \<Rightarrow> ('n, 'x) rdpBulk \<Rightarrow> (int \<times> ('n, 'x) rdpBulk \<times> byte list option) option" where
  "decompress_mppc level pSrcData SrcSize flags b = do {
     m \<leftarrow> bk_mppcRecv b;
     (status, m, out) \<leftarrow> mppc_decompress pSrcData SrcSize flags (mppc_set_compression_level level m);
     Some (status, b\<lparr>bk_mppcRecv := Some m\<rparr>, out) }"

text \<open>The last result is the data at \<^verbatim>\<open>*ppDstData\<close>, when it is set.\<close>

definition bulk_decompress ::
    "('n, 'x) bulk_env \<Rightarrow> byte list \<Rightarrow> u32 \<Rightarrow> u32 \<Rightarrow> ('n, 'x) rdpBulk \<Rightarrow> (int \<times> ('n, 'x) rdpBulk \<times> byte list option) option" where
  "bulk_decompress E pSrcData SrcSize flags b = do {
     let b = bulk_compression_max_size b;
     let type = flags AND BULK_COMPRESSION_TYPE_MASK;
     (status, b, out) \<leftarrow>
       (if flags AND BULK_COMPRESSION_FLAGS_MASK \<noteq> 0 then
          if type = PACKET_COMPR_TYPE_8K then decompress_mppc 0 pSrcData SrcSize flags b
          else if type = PACKET_COMPR_TYPE_64K then decompress_mppc 1 pSrcData SrcSize flags b
          else if type = PACKET_COMPR_TYPE_RDP6 then do {
            n \<leftarrow> bk_ncrushRecv b;
            (status, n, out) \<leftarrow> cr_decompress (be_ncrush E) pSrcData SrcSize flags n;
            Some (status, b\<lparr>bk_ncrushRecv := Some n\<rparr>, out) }
          else if type = PACKET_COMPR_TYPE_RDP61 then do {
            x \<leftarrow> bk_xcrushRecv b;
            (status, x, out) \<leftarrow> cr_decompress (be_xcrush E) pSrcData SrcSize flags x;
            Some (status, b\<lparr>bk_xcrushRecv := Some x\<rparr>, out) }
          else Some (-1, b, None)
        else Some (0, b, Some (take (unat SrcSize) pSrcData)));
     Some (status, if status \<ge> 0 then b\<lparr>bk_metrics := metrics_write_bytes (case out of None \<Rightarrow> 0 | Some d \<Rightarrow> of_nat (length d)) SrcSize (bk_metrics b)\<rparr> else b, out) }"

text \<open>The packet is what \<^verbatim>\<open>*ppDstData\<close>, \<^verbatim>\<open>*pDstSize\<close> and \<^verbatim>\<open>*pFlags\<close> are set to. The output buffer of 65536 bytes is the block that is written.\<close>

definition bulk_compress ::
    "('n, 'x) bulk_env \<Rightarrow> byte list \<Rightarrow> u32 \<Rightarrow> u32 \<Rightarrow> ('n, 'x) rdpBulk \<Rightarrow> (int \<times> ('n, 'x) rdpBulk \<times> mppc_packet) option" where
  "bulk_compress E pSrcData SrcSize pFlags b =
     (if SrcSize \<le> 50 \<or> SrcSize \<ge> 16384 then Some (0, b, \<lparr>pk_data = pSrcData, pk_size = SrcSize, pk_flags = pFlags\<rparr>)
      else do {
        let b = bulk_compression_max_size (bulk_compression_level b);
        let level = bk_CompressionLevel b;
        let own = \<lparr>pk_data = bk_OutputBuffer b, pk_size = 65536, pk_flags = pFlags\<rparr>;
        (status, b, pk) \<leftarrow>
          (if level = PACKET_COMPR_TYPE_8K \<or> level = PACKET_COMPR_TYPE_64K then do {
             m \<leftarrow> bk_mppcSend b;
             (status, m, pk) \<leftarrow> mppc_compress pSrcData SrcSize (Some (bk_OutputBuffer b)) 65536 (mppc_set_compression_level level m);
             Some (status, b\<lparr>bk_mppcSend := Some m, bk_OutputBuffer := bs_buffer (mp_bs m)\<rparr>, case pk of None \<Rightarrow> own\<lparr>pk_flags := 0\<rparr> | Some pk \<Rightarrow> pk) }
           else if level = PACKET_COMPR_TYPE_RDP6 then do {
             n \<leftarrow> bk_ncrushSend b;
             (status, n, buf, pk) \<leftarrow> cr_compress (be_ncrush E) pSrcData SrcSize (bk_OutputBuffer b) pFlags n;
             Some (status, b\<lparr>bk_ncrushSend := Some n, bk_OutputBuffer := buf\<rparr>, pk) }
           else if level = PACKET_COMPR_TYPE_RDP61 then do {
             x \<leftarrow> bk_xcrushSend b;
             (status, x, buf, pk) \<leftarrow> cr_compress (be_xcrush E) pSrcData SrcSize (bk_OutputBuffer b) pFlags x;
             Some (status, b\<lparr>bk_xcrushSend := Some x, bk_OutputBuffer := buf\<rparr>, pk) }
           else Some (-1, b, own));
        Some (status, if status \<ge> 0 then b\<lparr>bk_metrics := metrics_write_bytes SrcSize (pk_size pk) (bk_metrics b)\<rparr> else b, pk) })"

definition bulk_reset :: "('n, 'x) bulk_env \<Rightarrow> ('n, 'x) rdpBulk \<Rightarrow> ('n, 'x) rdpBulk option" where
  "bulk_reset E b = do {
     ms \<leftarrow> bk_mppcSend b;
     mr \<leftarrow> bk_mppcRecv b;
     nr \<leftarrow> bk_ncrushRecv b;
     ns \<leftarrow> bk_ncrushSend b;
     xr \<leftarrow> bk_xcrushRecv b;
     xs \<leftarrow> bk_xcrushSend b;
     Some (b\<lparr>bk_mppcSend := Some (mppc_context_reset False ms), bk_mppcRecv := Some (mppc_context_reset False mr),
       bk_ncrushRecv := Some (cr_reset (be_ncrush E) False nr), bk_ncrushSend := Some (cr_reset (be_ncrush E) False ns),
       bk_xcrushRecv := Some (cr_reset (be_xcrush E) False xr), bk_xcrushSend := Some (cr_reset (be_xcrush E) False xs)\<rparr>) }"

text \<open>The first argument says which of the allocations succeed: the bulk, and the two of each context of MPPC. Only the first is checked.\<close>

definition bulk_new :: "bool \<Rightarrow> bool \<times> bool \<Rightarrow> bool \<times> bool \<Rightarrow> ('n, 'x) bulk_env \<Rightarrow> u32 \<Rightarrow> rdpMetrics \<Rightarrow> ('n, 'x) rdpBulk option" where
  "bulk_new ok oks okr E settings metrics =
     (if ok then Some \<lparr>bk_settings = settings, bk_metrics = metrics, bk_CompressionLevel = settings, bk_CompressionMaxSize = 0,
        bk_mppcSend = mppc_context_new (fst oks) (snd oks) 1 True, bk_mppcRecv = mppc_context_new (fst okr) (snd okr) 1 False,
        bk_ncrushRecv = cr_new (be_ncrush E) False, bk_ncrushSend = cr_new (be_ncrush E) True,
        bk_xcrushRecv = cr_new (be_xcrush E) False, bk_xcrushSend = cr_new (be_xcrush E) True, bk_OutputBuffer = replicate 65536 0\<rparr>
      else None)"

section \<open>The output buffer\<close>

text \<open>The compressor writes into the block that it was given, and keeps its length.\<close>

lemma store_length: "bs_store k b bs = Some bs' \<Longrightarrow> length (bs_buffer bs') = length (bs_buffer bs)"
  by (auto simp: bs_store_def arr_set_def bind_eq_Some_conv split: if_splits)

lemma flush_length: "BitStream_Flush bs = Some bs' \<Longrightarrow> length (bs_buffer bs') = length (bs_buffer bs)"
  by (auto simp: BitStream_Flush_def Let_def bind_eq_Some_conv dest!: store_length)

lemma write_bits_length: "BitStream_Write_Bits v n bs = Some bs' \<Longrightarrow> length (bs_buffer bs') = length (bs_buffer bs)"
  by (auto simp: BitStream_Write_Bits_def Let_def bind_eq_Some_conv dest!: flush_length split: if_splits)

lemma write_code_length: "write_code c bs = Some bs' \<Longrightarrow> length (bs_buffer bs') = length (bs_buffer bs)"
  by (auto simp: write_code_def dest!: write_bits_length split: option.splits)

lemma put_length:
  "put_literal D b st = Some (full, st') \<Longrightarrow> length (bs_buffer (ms_bs st')) = length (bs_buffer (ms_bs st))"
  "put_match src e D match b c st = Some (full, st') \<Longrightarrow> length (bs_buffer (ms_bs st')) = length (bs_buffer (ms_bs st))"
  by (auto simp: put_literal_def put_match_def write_literal_code bind_eq_Some_conv Let_def dest!: write_bits_length write_code_length split: if_splits)

lemma compress_step_length:
  "mppc_compress_step src e D st = Some (full, st') \<Longrightarrow> length (bs_buffer (ms_bs st')) = length (bs_buffer (ms_bs st))"
  by (auto simp: mppc_compress_step_def bind_eq_Some_conv Let_def dest!: put_length split: if_splits)

lemma compress_loop_length:
  assumes "mppc_compress_loop src e D st = Some r"
  shows "length (bs_buffer (ms_bs (snd r))) = length (bs_buffer (ms_bs st))"
  using assms
proof (rule mppc_compress_loop.raw_induct [where P = "\<lambda>src e D st r. length (bs_buffer (ms_bs (snd r))) = length (bs_buffer (ms_bs st))", rotated])
  fix f :: "byte list \<Rightarrow> int \<Rightarrow> u32 \<Rightarrow> mppc_state \<Rightarrow> (bool \<times> mppc_state) option" and src e D st r
  assume IH: "\<And>src e D st r. f src e D st = Some r \<Longrightarrow> length (bs_buffer (ms_bs (snd r))) = length (bs_buffer (ms_bs st))"
  show "(if int (ms_src st) < e - 2 then do {
        (full, st) \<leftarrow> mppc_compress_step src e D st;
        if full then Some (True, st) else f src e D st }
      else Some (False, st)) = Some r \<Longrightarrow> length (bs_buffer (ms_bs (snd r))) = length (bs_buffer (ms_bs st))"
    by (auto simp: bind_eq_Some_conv dest!: compress_step_length IH split: if_splits)
qed

lemma trailing_loop_length:
  assumes "mppc_trailing_loop src e D st = Some r"
  shows "length (bs_buffer (ms_bs (snd r))) = length (bs_buffer (ms_bs st))"
  using assms
proof (rule mppc_trailing_loop.raw_induct [where P = "\<lambda>src e D st r. length (bs_buffer (ms_bs (snd r))) = length (bs_buffer (ms_bs st))", rotated])
  fix f :: "byte list \<Rightarrow> int \<Rightarrow> u32 \<Rightarrow> mppc_state \<Rightarrow> (bool \<times> mppc_state) option" and src e D st r
  assume IH: "\<And>src e D st r. f src e D st = Some r \<Longrightarrow> length (bs_buffer (ms_bs (snd r))) = length (bs_buffer (ms_bs st))"
  show "(if int (ms_src st) \<le> e then
        if dst_full (ms_bs st) 2 D then Some (True, st)
        else do {
          symbol \<leftarrow> arr_get src (ms_src st);
          bs \<leftarrow> write_literal symbol (ms_bs st);
          H \<leftarrow> arr_set (mp_HistoryBuffer (ms_mppc st)) (ms_hist st) symbol;
          f src e D (st\<lparr>ms_bs := bs, ms_mppc := (ms_mppc st)\<lparr>mp_HistoryBuffer := H\<rparr>, ms_src := ms_src st + 1, ms_hist := ms_hist st + 1\<rparr>) }
      else Some (False, st)) = Some r \<Longrightarrow> length (bs_buffer (ms_bs (snd r))) = length (bs_buffer (ms_bs st))"
    by (fastforce simp: bind_eq_Some_conv write_literal_code dest!: write_bits_length IH split: if_splits)
qed

lemma compress_length:
  assumes "mppc_compress src n (Some dst) cap c = Some (status, c', pk)"
  shows "length (bs_buffer (mp_bs c')) = length dst"
  using assms
  by (auto simp: mppc_compress_def BitStream_Attach_def bind_eq_Some_conv Let_def dest!: compress_loop_length trailing_loop_length flush_length split: if_splits)

section \<open>Two peers\<close>

text \<open>What the one sends, the other receives.\<close>

definition bulk_send ::
    "('n, 'x) bulk_env \<Rightarrow> ('n, 'x) rdpBulk \<Rightarrow> ('n, 'x) rdpBulk \<Rightarrow> byte list \<Rightarrow> ((int \<times> byte list option) \<times> ('n, 'x) rdpBulk \<times> ('n, 'x) rdpBulk) option" where
  "bulk_send E a b src = do {
     (_, a, pk) \<leftarrow> bulk_compress E src (of_nat (length src)) 0 a;
     (status, b, out) \<leftarrow> bulk_decompress E (take (unat (pk_size pk)) (pk_data pk)) (pk_size pk) (pk_flags pk) b;
     Some ((status, out), a, b) }"

text \<open>Data in both directions, in any order; \<open>True\<close> stands for data from \<open>a\<close> to \<open>b\<close>.\<close>

fun bulk_exchange :: "('n, 'x) bulk_env \<Rightarrow> ('n, 'x) rdpBulk \<Rightarrow> ('n, 'x) rdpBulk \<Rightarrow> (bool \<times> byte list) list \<Rightarrow> (int \<times> byte list option) list option" where
  "bulk_exchange E a b [] = Some []"
| "bulk_exchange E a b ((True, src) # ps) = do { (r, a, b) \<leftarrow> bulk_send E a b src; rs \<leftarrow> bulk_exchange E a b ps; Some (r # rs) }"
| "bulk_exchange E a b ((False, src) # ps) = do { (r, b, a) \<leftarrow> bulk_send E b a src; rs \<leftarrow> bulk_exchange E a b ps; Some (r # rs) }"

text \<open>One direction: the sending context of the one and the receiving context of the other, when both are set to the level of the sender.\<close>

definition one_way :: "u32 \<Rightarrow> ('n, 'x) rdpBulk \<Rightarrow> ('n, 'x) rdpBulk \<Rightarrow> bool" where
  "one_way level a b \<longleftrightarrow> bk_settings a = level \<and> length (bk_OutputBuffer a) = 65536 \<and>
     (\<exists>c d. bk_mppcSend a = Some c \<and> bk_mppcRecv b = Some d \<and>
        synced level (mppc_set_compression_level level c) (mppc_set_compression_level level d))"

definition bulk_fits :: "u32 \<Rightarrow> byte list \<Rightarrow> bool" where
  "bulk_fits level src \<longleftrightarrow> length src < 2 ^ 32 \<and> (level \<noteq> 0 \<or> length src \<le> 8188 \<or> 16384 \<le> length src)"

lemma set_level_sized: "sized level m \<Longrightarrow> level = 0 \<or> level = 1 \<Longrightarrow> mppc_set_compression_level level m = m"
  by (cases m) (auto simp: sized_def mppc_set_compression_level_def offset_limit_def)

lemma set_level_synced:
  assumes "synced level c d" "level = 0 \<or> level = 1"
  shows "synced level (mppc_set_compression_level level c) (mppc_set_compression_level level d)"
  using assms set_level_sized [of level] by (simp add: synced_def)

lemma max_size_fields:
  "bk_mppcSend (bulk_compression_max_size b) = bk_mppcSend b" "bk_mppcRecv (bulk_compression_max_size b) = bk_mppcRecv b"
  "bk_settings (bulk_compression_max_size b) = bk_settings b" "bk_OutputBuffer (bulk_compression_max_size b) = bk_OutputBuffer b"
  "bulk_compression_max_size (bulk_compression_level b) = bulk_compression_max_size b"
  "bk_settings b = 0 \<or> bk_settings b = 1 \<Longrightarrow> bk_CompressionLevel (bulk_compression_max_size b) = bk_settings b"
  by (auto simp: bulk_compression_max_size_def bulk_compression_level_def PACKET_COMPR_TYPE_RDP61_def word_le_nat_alt Let_def)

lemma mppc_branch:
  "level = 0 \<or> level = 1 \<Longrightarrow> (if level = PACKET_COMPR_TYPE_8K then decompress_mppc 0 d n flags b
     else if level = PACKET_COMPR_TYPE_64K then decompress_mppc 1 d n flags b else r) = decompress_mppc level d n flags b"
  by (auto simp: PACKET_COMPR_TYPE_8K_def PACKET_COMPR_TYPE_64K_def)

lemma send_ok:
  assumes o: "one_way level a b" and l: "level = 0 \<or> level = 1" and f: "bulk_fits level src"
  shows "\<exists>status a' b'. bulk_send E a b src = Some ((status, Some src), a', b') \<and> 0 \<le> status \<and> one_way level a' b' \<and>
     bk_mppcRecv a' = bk_mppcRecv a \<and> bk_mppcSend b' = bk_mppcSend b \<and> bk_settings b' = bk_settings b \<and> bk_OutputBuffer b' = bk_OutputBuffer b"
proof -
  have n: "unat (of_nat (length src) :: u32) = length src" using f by (simp add: bulk_fits_def unat_of_nat)
  have raw: "of_nat (length src) \<le> (50 :: u32) \<or> of_nat (length src) \<ge> (16384 :: u32) \<longleftrightarrow> length src \<le> 50 \<or> 16384 \<le> length src"
    by (simp add: word_le_nat_alt n)
  show ?thesis
  proof (cases "length src \<le> 50 \<or> 16384 \<le> length src")
    case True
    then have c: "bulk_compress E src (of_nat (length src)) 0 a = Some (0, a, \<lparr>pk_data = src, pk_size = of_nat (length src), pk_flags = 0\<rparr>)"
      unfolding bulk_compress_def raw by simp
    show ?thesis using o
      by (simp add: bulk_send_def c bulk_decompress_def Let_def n max_size_fields one_way_def)
  next
    case False
    obtain c d where cd: "bk_mppcSend a = Some c" "bk_mppcRecv b = Some d" "bk_settings a = level" "length (bk_OutputBuffer a) = 65536"
        "synced level (mppc_set_compression_level level c) (mppc_set_compression_level level d)"
      using o by (auto simp: one_way_def)
    have fits: "src \<noteq> []" "length src + 4 \<le> offset_limit level" "0 < (65536 :: u32)" "min (unat (65536 :: u32)) (length src) \<le> length (bk_OutputBuffer a)"
      using False f l cd(4) by (auto simp: bulk_fits_def offset_limit_def)
    obtain c' pk d' where k: "mppc_compress src (of_nat (length src)) (Some (bk_OutputBuffer a)) 65536 (mppc_set_compression_level level c) = Some (1, c', Some pk)"
        "mppc_decompress (take (unat (pk_size pk)) (pk_data pk)) (pk_size pk) (pk_flags pk) (mppc_set_compression_level level d) = Some (1, d', Some src)"
        "synced level c' d'" "pk_flags pk AND BULK_COMPRESSION_FLAGS_MASK \<noteq> 0" "pk_flags pk AND BULK_COMPRESSION_TYPE_MASK = level"
      using packet_ok [OF cd(5) l fits] by (auto simp: BULK_COMPRESSION_FLAGS_MASK_def BULK_COMPRESSION_TYPE_MASK_def)
    have lv: "bk_CompressionLevel (bulk_compression_max_size a) = level" using max_size_fields(6) [of a] cd(3) l by simp
    define a' where "a' = (bulk_compression_max_size a)\<lparr>bk_mppcSend := Some c', bk_OutputBuffer := bs_buffer (mp_bs c'),
        bk_metrics := metrics_write_bytes (of_nat (length src)) (pk_size pk) (bk_metrics (bulk_compression_max_size a))\<rparr>"
    have "bulk_compress E src (of_nat (length src)) 0 a = Some (1, a', pk)"
      unfolding bulk_compress_def raw max_size_fields(5) Let_def lv using False k(1) cd(1) l
      by (auto simp: a'_def PACKET_COMPR_TYPE_8K_def PACKET_COMPR_TYPE_64K_def max_size_fields)
    moreover define b' where "b' = (bulk_compression_max_size b)\<lparr>bk_mppcRecv := Some d',
        bk_metrics := metrics_write_bytes (of_nat (length src)) (pk_size pk) (bk_metrics (bulk_compression_max_size b))\<rparr>"
    have "bulk_decompress E (take (unat (pk_size pk)) (pk_data pk)) (pk_size pk) (pk_flags pk) b = Some (1, b', Some src)"
      unfolding bulk_decompress_def Let_def k(5) mppc_branch [OF l] using k(2,4) cd(2)
      by (simp add: b'_def decompress_mppc_def max_size_fields)
    ultimately have "bulk_send E a b src = Some ((1, Some src), a', b')" by (simp add: bulk_send_def)
    moreover have "one_way level a' b'"
      using set_level_synced [OF k(3) l] cd(3,4) compress_length [OF k(1)] by (simp add: one_way_def a'_def b'_def max_size_fields)
    ultimately show ?thesis by (simp add: a'_def b'_def max_size_fields)
  qed
qed

lemma one_way_other:
  assumes "one_way level b a" "bk_mppcRecv a' = bk_mppcRecv a" "bk_mppcSend b' = bk_mppcSend b" "bk_settings b' = bk_settings b" "bk_OutputBuffer b' = bk_OutputBuffer b"
  shows "one_way level b' a'"
  using assms by (simp add: one_way_def)

lemma exchange_ok:
  assumes "one_way la a b" "one_way lb b a" "la = 0 \<or> la = 1" "lb = 0 \<or> lb = 1"
    "list_all (\<lambda>(forth, src). bulk_fits (if forth then la else lb) src) ps"
  shows "\<exists>rs. bulk_exchange E a b ps = Some rs \<and> map snd rs = map (Some \<circ> snd) ps \<and> list_all (\<lambda>r. 0 \<le> fst r) rs"
  using assms
proof (induction E a b ps rule: bulk_exchange.induct)
  case (2 E a b src ps)
  obtain st a' b' where s: "bulk_send E a b src = Some ((st, Some src), a', b')" "0 \<le> st" "one_way la a' b'" "one_way lb b' a'"
    using send_ok [OF "2.prems"(1,3), of src E] "2.prems"(5) by (auto intro: one_way_other [OF "2.prems"(2)])
  then show ?case using "2.IH" [OF s(1) refl refl s(3,4) "2.prems"(3,4)] "2.prems"(5) by auto
next
  case (3 E a b src ps)
  obtain st a' b' where s: "bulk_send E b a src = Some ((st, Some src), b', a')" "0 \<le> st" "one_way lb b' a'" "one_way la a' b'"
    using send_ok [OF "3.prems"(2,4), of src E] "3.prems"(5) by (auto intro: one_way_other [OF "3.prems"(1)])
  then show ?case using "3.IH" [OF s(1) refl refl s(4,3) "3.prems"(3,4)] "3.prems"(5) by auto
qed simp

lemma new_one_way:
  assumes "bulk_new True (True, True) x E la ma = Some a" "bulk_new True y (True, True) E lb mb = Some b" "la = 0 \<or> la = 1"
  shows "one_way la a b"
proof -
  obtain c d where n: "mppc_context_new True True 1 True = Some c" "mppc_context_new True True 1 False = Some d"
    by (simp add: mppc_context_new_def BitStream_New_def)
  then have "synced la (mppc_set_compression_level la c) (mppc_set_compression_level la d)"
    using assms(3) by (auto simp: mppc_context_new_def BitStream_New_def mppc_context_reset_def mppc_set_compression_level_def Let_def
        synced_def sized_def offset_limit_def table_ok_def flushed_def)
  then show ?thesis using assms(1,2) n by (auto simp: bulk_new_def one_way_def)
qed

text \<open>
  C3: the data of two peers arrives as it was sent. Each has a bulk with the compression of 8K or 64K, not necessarily
  the same; data goes in both directions, in any order. Whatever \<^verbatim>\<open>bulk_compress\<close> makes of it (too short or
  too long to be compressed, coded, flushed), \<^verbatim>\<open>bulk_decompress\<close> on the other side returns it with success. With the window of 8K data
  of 8189 to 16383 bytes is excluded, which the fast path does not send.
\<close>

theorem bulk_lossless:
  assumes "bulk_new True (True, True) (True, True) E la ma = Some a" "bulk_new True (True, True) (True, True) E lb mb = Some b"
    and "la = 0 \<or> la = 1" "lb = 0 \<or> lb = 1" "list_all (\<lambda>(forth, src). bulk_fits (if forth then la else lb) src) ps"
  shows "\<exists>rs. bulk_exchange E a b ps = Some rs \<and> map snd rs = map (Some \<circ> snd) ps \<and> list_all (\<lambda>r. 0 \<le> fst r) rs"
  by (rule exchange_ok [OF new_one_way [OF assms(1,2,3)] new_one_way [OF assms(2,1,4)] assms(3-5)])

definition crush_none :: "unit crush" where
  "crush_none = \<lparr>cr_compress = (\<lambda>d n buf flags c. Some (-1, c, buf, \<lparr>pk_data = d, pk_size = n, pk_flags = flags\<rparr>)),
     cr_decompress = (\<lambda>d n flags c. Some (-1, c, None)), cr_reset = (\<lambda>flush c. c), cr_new = (\<lambda>compressor. Some ())\<rparr>"

theorem bulk_lossless_witness:
  "\<exists>a b rs. bulk_new True (True, True) (True, True) \<lparr>be_ncrush = crush_none, be_xcrush = crush_none\<rparr> 0 \<lparr>mt_TotalCompressedBytes = 0, mt_TotalUncompressedBytes = 0\<rparr> = Some a \<and>
     bulk_new True (True, True) (True, True) \<lparr>be_ncrush = crush_none, be_xcrush = crush_none\<rparr> 1 \<lparr>mt_TotalCompressedBytes = 0, mt_TotalUncompressedBytes = 0\<rparr> = Some b \<and>
     bulk_exchange \<lparr>be_ncrush = crush_none, be_xcrush = crush_none\<rparr> a b [(True, replicate 100 7), (False, replicate 60 200), (True, [1, 2])] = Some rs \<and>
     map snd rs = [Some (replicate 100 7), Some (replicate 60 200), Some [1, 2]] \<and> list_all (\<lambda>r. 0 \<le> fst r) rs"
proof -
  let ?E = "\<lparr>be_ncrush = crush_none, be_xcrush = crush_none\<rparr>" and ?m = "\<lparr>mt_TotalCompressedBytes = 0, mt_TotalUncompressedBytes = 0\<rparr>"
  obtain a b where n: "bulk_new True (True, True) (True, True) ?E 0 ?m = Some a" "bulk_new True (True, True) (True, True) ?E 1 ?m = Some b"
    by (simp add: bulk_new_def)
  have f: "list_all (\<lambda>(forth, src). bulk_fits (if forth then 0 else 1) src) [(True, replicate 100 7), (False, replicate 60 200), (True, [1, 2])]"
    by (simp add: bulk_fits_def)
  have "\<exists>rs. bulk_exchange ?E a b [(True, replicate 100 7), (False, replicate 60 200), (True, [1, 2])] = Some rs \<and>
      map snd rs = map (Some \<circ> snd) [(True, replicate 100 7), (False, replicate 60 200), (True, [1, 2])] \<and> list_all (\<lambda>r. 0 \<le> fst r) rs"
    by (rule bulk_lossless [OF n _ _ f]) simp_all
  then show ?thesis using n by auto
qed

section \<open>Deviations\<close>

text \<open>A bulk is returned although the memory for its contexts could not be allocated; the first data that comes is undefined behaviour.\<close>

lemma bulk_new_unchecked:
  "\<exists>b. bulk_new True oks (False, False) E settings metrics = Some b \<and> bulk_decompress E d n PACKET_COMPRESSED b = None"
  by (simp add: bulk_new_def mppc_context_new_def bulk_decompress_def decompress_mppc_def max_size_fields PACKET_COMPRESSED_def
      BULK_COMPRESSION_FLAGS_MASK_def BULK_COMPRESSION_TYPE_MASK_def PACKET_COMPR_TYPE_8K_def)

end
