(* ===== verification/Spec2Isabelle.thy ===== *)
theory Spec2Isabelle
  imports RpcPipe BufferedBio Per Ber Tpkt BipBuffer WQueue WStack ArrayList ListDictionary HashTable NegoMeet Base64 McsServe Bulk
begin

text \<open>
  \<^bold>\<open>The connection path of FreeRDP.\<close> The repository is a copy of FreeRDP with its portability layer
  WinPR: a client and a server of the remote desktop protocol in C. A connection is built from the bottom up.
  A socket is wrapped in a buffered BIO (\<^verbatim>\<open>core/tcp.c\<close>, which keeps unsent bytes in the ring buffer of
  \<^verbatim>\<open>utils/ringbuffer.c\<close>), or in a pipe to a gateway (\<^verbatim>\<open>core/gateway/rpc_client.c\<close>, the same ring buffer).
  The transport (\<^verbatim>\<open>core/transport.c\<close>) cuts the bytes into units and collects them in streams
  (\<^verbatim>\<open>winpr/stream.h\<close>). The units are framed by TPKT and TPDU headers (\<^verbatim>\<open>core/tpkt.c\<close>, \<^verbatim>\<open>core/tpdu.c\<close>). The
  negotiation (\<^verbatim>\<open>core/nego.c\<close>) settles on a security protocol. Then the two sides exchange the connect PDUs of MCS
  (\<^verbatim>\<open>core/mcs.c\<close>, in BER, \<^verbatim>\<open>crypto/ber.c\<close>), which carry the conference creation of GCC (\<^verbatim>\<open>core/gcc.c\<close>, in PER,
  \<^verbatim>\<open>crypto/per.c\<close>), and with it the virtual channels and the settings. The connection sequence (\<^verbatim>\<open>core/connection.c\<close>, and the
  callbacks of the transport in \<^verbatim>\<open>core/rdp.c\<close> and \<^verbatim>\<open>core/peer.c\<close>) runs through these steps, joins the channels and goes on
  to licensing. The collections of WinPR
  (\<^verbatim>\<open>libwinpr/utils/collections\<close>) are used all over the program. These are the parts that are modelled here.

  \<^bold>\<open>Conventions.\<close> A C function is a HOL function of the same name. A \<^verbatim>\<open>struct\<close> is a record whose fields have a short
  prefix; fixed width integers are words (\<open>byte\<close>, \<open>u16\<close>, \<open>u32\<close>), \<^verbatim>\<open>size_t\<close> is \<open>nat\<close> with the reduction modulo
  \<open>2\<^sup>6\<^sup>4\<close> written out (\<open>sz_add\<close>, \<open>sz_sub\<close>, \<open>to_size\<close>), \<^verbatim>\<open>int\<close> is \<open>int\<close> with the check that a result fits (\<open>int_ck\<close>,
  \<open>to_int\<close>). A block of memory is a list; reading or writing outside it gives \<open>None\<close>. So does every other undefined
  behaviour of C (signed overflow, division by zero, a null pointer, an unlocked critical section left) and, where
  a loop is a \<open>partial_function\<close>, a loop that does not end. The value \<open>Some\<close> of a result therefore says that the code
  returns and behaves; the error of the code (\<^verbatim>\<open>FALSE\<close>, \<^verbatim>\<open>NULL\<close>, \<^verbatim>\<open>-1\<close>) is a value inside it. A reader of a stream has
  the type \<open>'a reader\<close>: \<open>Some (None, s)\<close> for \<^verbatim>\<open>FALSE\<close>, with the stream as the code leaves it.
  Allocation is an argument: an allocator may refuse any request, and gives blocks with any contents. Library
  code (sockets, OpenSSL, conversion of strings, MD5, RSA, random numbers, \<^verbatim>\<open>certificate_read_server_certificate\<close>)
  is an argument too, collected in the records \<open>bio\<close>, \<open>gcc_env\<close>, \<open>mcs_env\<close> and \<open>nego_env\<close>; what a
  property needs of it is a hypothesis of the property. Logging is left out, except where its arguments matter.

  \<^bold>\<open>The theories, from the bottom.\<close>
  \<^item> \<open>Prelude\<close>: integers, memory, allocators, critical sections, and lemmas on lists and options.
  \<^item> \<open>RingBuffer\<close> (\<^verbatim>\<open>ringbuffer.c\<close>): all operations; the contents as a list; writing appends, committing a read
    drops, growing and shrinking keep the contents.
  \<^item> \<open>ByteFifo\<close>: the locale \<open>byte_fifo\<close>, the contract of a byte pipe, with the theorem on all runs of it. It is interpreted
    by \<open>RpcPipe\<close> (\<^verbatim>\<open>rpc_client.c\<close>, the receive pipe) and by \<open>BipBuffer\<close> (\<^verbatim>\<open>BipBuffer.c\<close>).
  \<^item> \<open>BufferedBio\<close> (\<^verbatim>\<open>tcp.c\<close>): the buffered write and read; no byte is lost, doubled or reordered.
  \<^item> \<open>Streams\<close> (\<^verbatim>\<open>stream.h\<close>, \<^verbatim>\<open>stream.c\<close>): reading, writing, seeking and growing, and the locale \<open>wire_codec\<close>, the
    contract of a writer and a reader of one field. It is interpreted by the codecs of \<open>Per\<close>, \<open>Ber\<close> and \<open>Tpkt\<close>;
    each interpretation gives the round trip of single fields, of sequences of fields and the size written.
  \<^item> \<open>Transport\<close> (\<^verbatim>\<open>transport.c\<close>): reading a unit in pieces, the receiving loop, writing. The locales \<open>byte_source\<close> and
    \<open>byte_sink\<close> state what a BIO promises to the transport; both are interpreted on the buffered BIO of \<open>BufferedBio\<close>.
  \<^item> \<open>Nego\<close>, \<open>NegoWire\<close>, \<open>NegoMeet\<close> (\<^verbatim>\<open>nego.c\<close>, and \<^verbatim>\<open>rdp_server_accept_nego\<close> of \<^verbatim>\<open>connection.c\<close>): the state machine
    of the client, its messages, and its run against a server.
  \<^item> \<open>Base64\<close> (\<^verbatim>\<open>crypto/base64.c\<close>): encoding against a specification by groups of bits, decoding, round trip.
  \<^item> \<open>Gcc\<close> (\<^verbatim>\<open>gcc.c\<close>): every function. \<open>GccBlocks\<close>: reading the blocks of a client is safe; the locale \<open>block_handler\<close>
    separates the loop over the blocks from the handlers of the single blocks. \<open>GccWire\<close>, \<open>GccReply\<close>, \<open>GccConference\<close>:
    what one side writes is what the other side reads, block by block and for the whole PDU.
  \<^item> \<open>Mcs\<close> (\<^verbatim>\<open>mcs.c\<close>), \<open>McsWire\<close> (its PDUs as bytes), \<open>McsSafe\<close> (a server against any client), \<open>McsConnect\<close> (a client
    and a server connect and agree).
  \<^item> \<open>Connection\<close> (\<^verbatim>\<open>connection.c\<close>, \<^verbatim>\<open>rdp_recv_callback\<close> of \<^verbatim>\<open>rdp.c\<close>, \<^verbatim>\<open>peer_recv_callback\<close> of \<^verbatim>\<open>peer.c\<close>): the states, the
    transitions, the handlers of the MCS states, and both callbacks; the handlers of the other states are arguments.
    \<open>McsJoin\<close>: the PDUs of the joining phase, and what each side does with one. \<open>McsRun\<close>: a client and a server
    joined by two queues of units, as a step relation, and what happens on all its runs. \<open>McsServe\<close>: the callback
    of a server against any client, through the whole phase.
  \<^item> \<open>BitStream\<close> (\<^verbatim>\<open>winpr/bitstream.h\<close>, \<^verbatim>\<open>BitStream.c\<close>): the macros as functions; what a reader and a writer have done
    as lists of bits. \<open>Mppc\<close> (\<^verbatim>\<open>codec/mppc.c\<close>): the bulk compression of RDP 4 and 5, both directions.
    \<open>MppcCode\<close>: the codes of literals, offsets and lengths, with the locale \<open>bit_code\<close>, the contract of a code on a stream of bits, which is
    interpreted by the three codes. \<open>MppcReplay\<close>: symbols and their effect on the history; the decompressor replays what it is
    given. \<open>MppcLossless\<close>: the compressor writes symbols that replay to its own history, and the round trip. \<open>Bulk\<close>
    (\<^verbatim>\<open>core/bulk.c\<close>): the choice of a compression, and two peers; the compressions of RDP 6 are arguments.
  \<^item> \<open>Objects\<close>: what the collections share, and the locales \<open>object_queue\<close>, \<open>object_stack\<close>, \<open>object_list\<close>; they are
    interpreted by \<open>WQueue\<close>, \<open>WStack\<close> and \<open>ArrayList\<close>. \<open>Chains\<close>: linked cells in a heap, for
    \<open>ListDictionary\<close> (locale \<open>dictionary\<close>) and \<open>HashTable\<close> (locales \<open>key_hash\<close> and \<open>object_map\<close>).

  \<^bold>\<open>What is shown.\<close> (1) Storage: ring buffer, bip buffer, pipe, BIO, queue, stack, array list, list dictionary and hash table
  refine their abstract types over all sequences of operations, with allocation failures, wrap-around and rehashing
  inside. (2) Codecs: PER, BER, TPKT, TPDU and Base64 read back what they wrote, with the exceptions listed below, and
  their readers are safe on all input. (3) Transport: every unit is delivered exactly once and whole, however the
  bytes arrive. (4) Negotiation: client and server end with the strongest common protocol; the client never falls
  to a protocol that is not enabled. (5) Conference and MCS: a server survives every Connect Initial PDU; a client and a
  server that connect agree on channels, identifiers, parameters and capabilities. (6) Connection sequence: from the first PDU of
  the client on, every run of the two callbacks, in whatever order the units are delivered, ends with the server in
  \<^verbatim>\<open>RDP_SECURITY_COMMENCEMENT\<close>, the client in \<^verbatim>\<open>LICENSING\<close> and every channel joined on both sides; and a server that is given any units
  at all returns, without undefined behaviour, and gets there only with every channel joined and confirmed. (7) Bulk compression: the decompressor gives back every
  packet of any sequence as it went into the compressor, and the bulk layers of two peers exchange data without loss.

  \<^bold>\<open>Bounds.\<close> Blocks are smaller than \<open>2\<^sup>6\<^sup>3\<close> bytes and lengths that the code keeps in an \<^verbatim>\<open>int\<close> smaller than \<open>2\<^sup>3\<^sup>1\<close>, which is
  what a 64 bit machine can have. The agreement of client and server is for at most 16 channels, the number that the
  server accepts, and for one monitor; these fit in the streams of 512 bytes that the client allocates. A packet of the bulk
  compression is at least four bytes shorter than the window, which the senders keep to. Fuel
  is not used: loops are structural, have a termination proof, or are partial functions that are shown to return.

  \<^bold>\<open>Deviations found.\<close> Where the code does something else than it means to, a lemma shows it on a concrete input or in
  general. Among them are: a ring buffer filled to the last byte counts as empty; PER object identifiers lose the first two
  arcs; BER drops integers from \<open>2\<^sup>3\<^sup>1\<close> on; the routing token of the negotiation, the monitors of the conference creation and the
  random number and certificate of the server are copied without a sufficient check of their length; a merged PDU size may exceed its limit;
  more than 20 channels overflow the stream of the client; a match at the end of the history is copied from behind it; several collections search or free a wrong range.

  \<^bold>\<open>Not modelled.\<close> Codecs of images and sound and the bulk compressions of RDP 6 (\<^verbatim>\<open>libfreerdp/codec\<close>, \<^verbatim>\<open>primitives\<close>), drawing orders, capabilities, licensing, NLA and
  the rest of \<^verbatim>\<open>libfreerdp/core\<close>, the caches, the virtual channels (\<^verbatim>\<open>channels\<close>), the clients and servers for the
  windowing systems, and the rest of WinPR (threads, files, smart cards, SSPI, registry) are outside this development:
  they sit above the connection path, or wrap the operating system. The handlers of the connection sequence that belong to them (key exchange,
  client info, licensing, capabilities, PDUs of the active state) are arguments of \<open>Connection\<close>. \<^verbatim>\<open>trio\<close>, \<^verbatim>\<open>lodepng\<close> and the headers of the
  iOS build are third-party or generated copies. Inside the modelled files the functions that only free memory, open
  sockets, start threads, call OpenSSL or print are left out.
\<close>

end
